(* ===== verification/Fence_Prelude.thy ===== *)
theory Fence_Prelude
  imports Main "HOL-Library.Word" "HOL-Library.Monad_Syntax"
begin

unbundle bit_operations_syntax

text \<open>
  Shared vocabulary of the development: the machine integers of the C sources, the
  Linux error codes as a datatype, the two halves of a 64-bit word, runs of 32-bit
  words in memory, and the generic lemmas the component theories rest on.

  Conventions. A C function that returns a negative errno or a value is a function
  into \<open>errno + 'a\<close> (\<open>Inl\<close> is the error). A C execution that has no defined outcome
  (an out-of-range or NULL access, a shift by the word width, a spin on a lock
  nobody will release) is \<^term>\<open>None\<close> of an enclosing \<open>option\<close>; every theorem that an
  operation returns is stated with \<^term>\<open>Some\<close>.
\<close>

section \<open>Machine integers and error codes\<close>

type_synonym u8 = "8 word"
type_synonym u16 = "16 word"
type_synonym u32 = "32 word"
type_synonym u64 = "64 word"

datatype errno = EINVAL | ENOMEM | EAGAIN | ENODEV | ENOENT | EALREADY | EPERM
  | ENXIO | EPROBE_DEFER | ETIMEDOUT | EOPNOTSUPP | EBUSY | EFAULT | ENOIOCTLCMD | ENODATA | ENOTEMPTY | E2BIG
  | EOTHER int | EMINUS1

named_theorems fence_defs \<open>definitions that are unfolded together\<close>
named_theorems word_rt \<open>round trips between machine words\<close>

definition lo32 :: "u64 \<Rightarrow> u32" where
  "lo32 x = ucast x"

definition hi32 :: "u64 \<Rightarrow> u32" where
  "hi32 x = ucast (drop_bit 32 x)"

definition mk64 :: "u32 \<Rightarrow> u32 \<Rightarrow> u64" where
  "mk64 lo hi = push_bit 32 (ucast hi) OR ucast lo"

definition lo16 :: "u32 \<Rightarrow> u16" where
  "lo16 x = ucast x"

definition hi16 :: "u32 \<Rightarrow> u16" where
  "hi16 x = ucast (drop_bit 16 x)"

definition mk32 :: "u16 \<Rightarrow> u16 \<Rightarrow> u32" where
  "mk32 lo hi = push_bit 16 (ucast hi) OR ucast lo"

lemma lo32_mk64 [simp, word_rt]: "lo32 (mk64 l h) = l"
  unfolding lo32_def mk64_def
  by (rule bit_word_eqI) (auto simp: bit_simps)

lemma hi32_mk64 [simp, word_rt]: "hi32 (mk64 l h) = h"
  unfolding hi32_def mk64_def
  by (rule bit_word_eqI) (auto simp: bit_simps dest: bit_imp_le_length)

lemma mk64_lo_hi [simp, word_rt]: "mk64 (lo32 x) (hi32 x) = x"
  unfolding lo32_def hi32_def mk64_def
  by (rule bit_word_eqI) (auto simp: bit_simps)

lemma lo16_mk32 [simp, word_rt]: "lo16 (mk32 l h) = l"
  unfolding lo16_def mk32_def
  by (rule bit_word_eqI) (auto simp: bit_simps)

lemma hi16_mk32 [simp, word_rt]: "hi16 (mk32 l h) = h"
  unfolding hi16_def mk32_def
  by (rule bit_word_eqI) (auto simp: bit_simps dest: bit_imp_le_length)

lemma mk32_lo_hi [simp, word_rt]: "mk32 (lo16 x) (hi16 x) = x"
  unfolding lo16_def hi16_def mk32_def
  by (rule bit_word_eqI) (auto simp: bit_simps)

text \<open>The kernel's \<open>BIT(n)\<close> is \<open>1UL << n\<close>: undefined in C from the word width on.\<close>

definition BIT :: "u32 \<Rightarrow> u64 option" where
  "BIT n = (if unat n < 64 then Some (push_bit (unat n) 1) else None)"

lemma BIT_Some [simp]: "unat n < 64 \<Longrightarrow> BIT n = Some (push_bit (unat n) 1)"
  by (simp add: BIT_def)

lemma BIT_SomeD: "BIT n = Some b \<Longrightarrow> unat n < 64 \<and> b = push_bit (unat n) 1"
  by (simp add: BIT_def split: if_splits)

lemma and_bit_nonzero_iff:
  "i < 64 \<Longrightarrow> (w AND push_bit i (1 :: u64)) \<noteq> 0 \<longleftrightarrow> bit w i"
proof -
  assume i: "i < 64"
  have "w AND push_bit i 1 = (if bit w i then push_bit i (1 :: u64) else 0)"
    by (rule bit_word_eqI) (auto simp: bit_simps)
  moreover have "push_bit i (1 :: u64) \<noteq> 0"
    using i by (auto simp: bit_eq_iff bit_simps)
  ultimately show ?thesis by simp
qed

section \<open>Runs of words in memory\<close>

definition read_run :: "'a list \<Rightarrow> nat \<Rightarrow> nat \<Rightarrow> 'a list" where
  "read_run m i n = take n (drop i m)"

definition write_run :: "'a list \<Rightarrow> nat \<Rightarrow> 'a list \<Rightarrow> 'a list" where
  "write_run m i xs = take i m @ xs @ drop (i + length xs) m"

lemma length_write_run [simp]:
  "i + length xs \<le> length m \<Longrightarrow> length (write_run m i xs) = length m"
  by (simp add: write_run_def)

lemma length_read_run [simp]:
  "i + n \<le> length m \<Longrightarrow> length (read_run m i n) = n"
  by (simp add: read_run_def)

lemma read_run_write_same:
  "i + length xs \<le> length m \<Longrightarrow> n = length xs \<Longrightarrow> read_run (write_run m i xs) i n = xs"
  by (simp add: read_run_def write_run_def)

lemma nth_write_run:
  assumes "i + length xs \<le> length m" and "k < length m"
  shows "write_run m i xs ! k = (if i \<le> k \<and> k < i + length xs then xs ! (k - i) else m ! k)"
  using assms by (auto simp: write_run_def nth_append)

lemma read_run_nth:
  "i + n \<le> length m \<Longrightarrow> k < n \<Longrightarrow> read_run m i n ! k = m ! (i + k)"
  by (simp add: read_run_def)

lemma read_run_eqI:
  assumes "length m = length m'" and "i + n \<le> length m"
    and "\<And>k. i \<le> k \<Longrightarrow> k < i + n \<Longrightarrow> m ! k = m' ! k"
  shows "read_run m i n = read_run m' i n"
  using assms by (intro nth_equalityI) (auto simp: read_run_nth)

lemma read_run_write_other:
  assumes "i + length xs \<le> length m" and "j + n \<le> length m"
    and "j + n \<le> i \<or> i + length xs \<le> j"
  shows "read_run (write_run m i xs) j n = read_run m j n"
  using assms by (intro read_run_eqI) (auto simp: nth_write_run)

section \<open>Options, lists and iteration\<close>

lemma unat_inj: "unat (v :: 'a :: len word) = unat w \<Longrightarrow> v = w"
  by (simp add: word_unat_eq_iff)

lemma unat_of_nat_u32: "n < 2 ^ 32 \<Longrightarrow> unat (of_nat n :: u32) = n"
  by (simp add: unat_of_nat)

lemma bind_Some_iff: "Option.bind m f = Some y \<longleftrightarrow> (\<exists>x. m = Some x \<and> f x = Some y)"
  by (cases m) auto

lemma nth_list_update_both:
  "i < length xs \<Longrightarrow> xs[i := x] ! j = (if j = i then x else xs ! j)"
  by (auto simp: nth_list_update)

text \<open>A bounded C array access: \<^term>\<open>None\<close> out of range.\<close>

definition idx :: "'a list \<Rightarrow> nat \<Rightarrow> 'a option" where
  "idx xs i = (if i < length xs then Some (xs ! i) else None)"

lemma idx_Some [simp]: "i < length xs \<Longrightarrow> idx xs i = Some (xs ! i)"
  by (simp add: idx_def)

lemma idx_None [simp]: "length xs \<le> i \<Longrightarrow> idx xs i = None"
  by (simp add: idx_def)

lemma idx_eq_Some_iff: "idx xs i = Some x \<longleftrightarrow> i < length xs \<and> xs ! i = x"
  by (auto simp: idx_def)


section \<open>Ring buffers\<close>

text \<open>The elements of a ring of \<open>n\<close> slots from slot \<open>r\<close> up to, not including, slot \<open>w\<close>.\<close>

definition ring :: "(nat \<Rightarrow> 'a) \<Rightarrow> nat \<Rightarrow> nat \<Rightarrow> nat \<Rightarrow> 'a list" where
  "ring f n r w = map (\<lambda>j. f ((r + j) mod n)) [0..<(w + n - r) mod n]"

lemma slot_mod:
  "(r :: nat) < n \<Longrightarrow> j < n \<Longrightarrow> (r + j) mod n = (if r + j < n then r + j else r + j - n)"
  by (simp add: mod_if[of "r + j"])

lemma Suc_mod: "r < n \<Longrightarrow> Suc r mod n = (if Suc r = n then 0 else Suc r)"
  by simp

lemma ring_used:
  assumes "(r :: nat) < n" and "w < n"
  shows "(w + n - r) mod n = (if r \<le> w then w - r else w + n - r)"
proof (cases "r \<le> w")
  case True
  then have "w + n - r = (w - r) + n" by simp
  then have "(w + n - r) mod n = (w - r) mod n" by (simp only: mod_add_self2)
  with assms True show ?thesis by simp
next
  case False
  with assms show ?thesis by simp
qed

lemma length_ring: "length (ring f n r w) = (w + n - r) mod n"
  by (simp add: ring_def)

lemma ring_Nil_iff: "r < n \<Longrightarrow> w < n \<Longrightarrow> ring f n r w = [] \<longleftrightarrow> r = w"
  by (auto simp: ring_def ring_used)

lemma ring_slot_neq:
  assumes "(r :: nat) < n" and "w < n" and "j < (w + n - r) mod n"
  shows "(r + j) mod n < n" and "(r + j) mod n \<noteq> w"
proof -
  have j: "j < (if r \<le> w then w - r else w + n - r)"
    using assms ring_used by metis
  then have "j < n" using assms by (auto split: if_splits)
  then show "(r + j) mod n \<noteq> w" using assms(1,2) j by (auto simp: slot_mod split: if_splits)
  show "(r + j) mod n < n" using assms by simp
qed

lemma ring_cong:
  assumes "\<And>k. k < n \<Longrightarrow> k \<noteq> w \<Longrightarrow> f k = g k" and "r < n" and "w < n"
  shows "ring f n r w = ring g n r w"
  using assms ring_slot_neq[OF assms(2,3)] by (simp add: ring_def)

lemma ring_Cons:
  assumes "r < n" and "w < n" and "r \<noteq> w"
  shows "ring f n r w = f r # ring f n (Suc r mod n) w"
proof -
  have s: "Suc r mod n < n" using assms by simp
  have len: "(w + n - r) mod n = Suc ((w + n - Suc r mod n) mod n)"
    using assms ring_used[OF assms(1,2)] ring_used[OF s assms(2)] by (auto simp: Suc_mod)
  have shift: "(r + Suc j) mod n = (Suc r mod n + j) mod n" for j
    by (simp add: mod_simps)
  have "ring f n r w = map (\<lambda>j. f ((r + j) mod n)) (0 # map Suc [0..<(w + n - Suc r mod n) mod n])"
    unfolding ring_def len by (simp only: upt_conv_Cons[OF zero_less_Suc] map_Suc_upt)
  also have "\<dots> = f r # map (\<lambda>j. f ((r + Suc j) mod n)) [0..<(w + n - Suc r mod n) mod n]"
    using assms(1) by simp
  also have "\<dots> = f r # ring f n (Suc r mod n) w"
    by (simp only: ring_def shift)
  finally show ?thesis .
qed

lemma ring_full_iff:
  assumes "r < n" and "w < n"
  shows "Suc (length (ring f n r w)) < n \<longleftrightarrow> Suc w mod n \<noteq> r"
  using assms ring_used[OF assms] by (auto simp: length_ring Suc_mod split: if_splits)

lemma ring_snoc:
  assumes "r < n" and "w < n" and "Suc (length (ring f n r w)) < n"
  shows "ring f n r (Suc w mod n) = ring f n r w @ [f w]"
proof -
  have s: "Suc w mod n < n" "Suc w mod n \<noteq> r"
    using assms ring_full_iff[OF assms(1,2), of f] by simp_all
  have len: "(Suc w mod n + n - r) mod n = Suc ((w + n - r) mod n)"
    using assms s ring_used[OF assms(1,2)] ring_used[OF assms(1) s(1)] by (auto simp: Suc_mod split: if_splits)
  have "(w + n - r) mod n < n" using assms(1) by simp
  then have "(r + (w + n - r) mod n) mod n = w"
    using assms(1,2) ring_used[OF assms(1,2)] by (auto simp: slot_mod split: if_splits)
  then show ?thesis
    by (simp add: ring_def len)
qed

text \<open>Runs of consecutive slots at either end of a ring.\<close>

lemma ring_split:
  assumes "k \<le> (w + n - r) mod n" and "r < n" and "w < n"
  shows "ring f n r w = map (\<lambda>j. f ((r + j) mod n)) [0..<k] @ ring f n ((r + k) mod n) w"
  using assms(1)
proof (induction k)
  case 0
  then show ?case using assms(2) by simp
next
  case (Suc k)
  define s where "s = (r + k) mod n"
  have s: "s < n" using assms(2) by (simp add: s_def)
  have eq: "ring f n r w = map (\<lambda>j. f ((r + j) mod n)) [0..<k] @ ring f n s w"
    using Suc by (simp add: s_def)
  have "length (ring f n s w) \<noteq> 0"
    using arg_cong[OF eq, of length] Suc.prems by (simp add: length_ring)
  then have "s \<noteq> w" using ring_Nil_iff[OF s assms(3)] by auto
  then have "ring f n s w = f s # ring f n (Suc s mod n) w" by (rule ring_Cons[OF s assms(3)])
  moreover have "Suc s mod n = (r + Suc k) mod n" by (simp add: s_def mod_simps)
  ultimately show ?case using eq by (simp add: s_def)
qed

lemma ring_extend:
  assumes "length (ring f n r w) + k < n" and "r < n" and "w < n"
  shows "ring f n r ((w + k) mod n) = ring f n r w @ map (\<lambda>j. f ((w + j) mod n)) [0..<k]"
  using assms(1)
proof (induction k)
  case 0
  then show ?case using assms(3) by simp
next
  case (Suc k)
  define v where "v = (w + k) mod n"
  have v: "v < n" using assms(2) by (simp add: v_def)
  have eq: "ring f n r v = ring f n r w @ map (\<lambda>j. f ((w + j) mod n)) [0..<k]"
    using Suc by (simp add: v_def)
  then have "Suc (length (ring f n r v)) < n" using Suc.prems by simp
  from ring_snoc[OF assms(2) v this] have "ring f n r (Suc v mod n) = ring f n r v @ [f v]" .
  moreover have "Suc v mod n = (w + Suc k) mod n" by (simp add: v_def mod_simps)
  ultimately show ?case using eq by (simp add: v_def)
qed

text \<open>A ring lists distinct slots, so an update of some slots is seen only there.\<close>

lemma ring_map: "ring f n r w = map f (ring (\<lambda>k. k) n r w)"
  by (simp add: ring_def)

lemma ring_distinct:
  assumes "r < n" and "w < n"
  shows "distinct (ring (\<lambda>k. k) n r w)"
proof -
  have lt: "(w + n - r) mod n < n" using assms by simp
  have "inj_on (\<lambda>j. (r + j) mod n) {0..<(w + n - r) mod n}"
  proof (rule inj_onI)
    fix i j assume ij: "i \<in> {0..<(w + n - r) mod n}" "j \<in> {0..<(w + n - r) mod n}"
      and eq: "(r + i) mod n = (r + j) mod n"
    then have "i < n" "j < n" using lt by simp_all
    then show "i = j" using eq assms(1) by (auto simp: slot_mod split: if_splits)
  qed
  then show ?thesis by (simp add: ring_def distinct_map)
qed

lemma ring_slots:
  assumes "r < n" and "w < n" and "k \<in> set (ring (\<lambda>k. k) n r w)"
  shows "k < n" and "k \<noteq> w"
proof -
  from assms(3) obtain j where j: "j < (w + n - r) mod n" and k: "k = (r + j) mod n"
    by (auto simp: ring_def)
  show "k < n" "k \<noteq> w"
    using ring_slot_neq[OF assms(1,2) j] by (simp_all only: k not_False_eq_True)
qed

end
