(* ===== verification/HwFence_Types.thy ===== *)
theory HwFence_Types
  imports Fence_Prelude
begin

text \<open>
  Data of the hardware-fence driver (\<^verbatim>\<open>src/qcom/opensource/mm-drivers/hw_fence\<close>): the
  structures of \<^verbatim>\<open>include/hw_fence_drv_priv.h\<close> and the driver state, with the
  constants of that header.

  The carved-out memory is represented by typed regions (the fence table, the client
  locks, each queue's header and words); \<open>HwFence_Layout\<close> proves that the driver lays
  these regions out disjointly. A pointer to a table entry is its index, a client
  handle is the index of the client in \<open>clients\<close>, NULL is \<^term>\<open>None\<close>.

  The public header \<^verbatim>\<open>linux/soc/qcom/msm_hw_fence.h\<close> is part of the kernel, not of this
  repository: the numbering of the clients, the flag bits, the reset flags and the
  size of the HFI headers are the fields of the parameter \<open>hw_fence_uapi\<close>, with the page
  size and whether debugfs is configured.
\<close>

section \<open>Constants of hw\_fence\_drv\_priv.h\<close>

definition HW_FENCE_INVALID_PARENT_FENCE :: u64 where
  "HW_FENCE_INVALID_PARENT_FENCE = - 1"

definition HW_FENCE_HASH_A_MULT :: u64 where
  "HW_FENCE_HASH_A_MULT = 4969"

definition HW_FENCE_HASH_C_MULT :: u64 where
  "HW_FENCE_HASH_C_MULT = 907"

definition HW_FENCE_CTRL_QUEUES :: nat where
  "HW_FENCE_CTRL_QUEUES = 2"

definition HW_FENCE_CLIENT_QUEUES :: nat where
  "HW_FENCE_CLIENT_QUEUES = 2"

definition HW_FENCE_TX_QUEUE :: nat where
  "HW_FENCE_TX_QUEUE = 1"

definition HW_FENCE_RX_QUEUE :: nat where
  "HW_FENCE_RX_QUEUE = 2"

definition HW_FENCE_JOIN_FENCE_CLIENT_ID :: u32 where
  "HW_FENCE_JOIN_FENCE_CLIENT_ID = - 1"

definition MSM_HW_FENCE_FLAG_SIGNAL :: u64 where
  "MSM_HW_FENCE_FLAG_SIGNAL = 1"

definition MSM_HW_FENCE_MAX_JOIN_PARENTS :: nat where
  "MSM_HW_FENCE_MAX_JOIN_PARENTS = 3"

definition HW_FENCE_PAYLOAD_REV :: "u16 \<Rightarrow> u16 \<Rightarrow> u16" where
  "HW_FENCE_PAYLOAD_REV major minor = push_bit 8 major OR (minor AND 0xFF)"

definition HW_FENCE_PAYLOAD_TYPE_1 :: u16 where
  "HW_FENCE_PAYLOAD_TYPE_1 = 1"

definition HW_FENCE_PAYLOAD_TYPE_2 :: u16 where
  "HW_FENCE_PAYLOAD_TYPE_2 = 2"

definition HW_FENCE_MAX_CLIENTS_WITH_DATA :: nat where
  "HW_FENCE_MAX_CLIENTS_WITH_DATA = 5"

definition HW_FENCE_CTRL_QUEUE_PAYLOAD :: nat where
  "HW_FENCE_CTRL_QUEUE_PAYLOAD = (1 + 1 + 1 + 2 + 1) * 4"

text \<open>\<open>sizeof(struct msm_hw_fence_queue_payload)\<close> and the same in 32-bit words.\<close>

definition HW_FENCE_CLIENT_QUEUE_PAYLOAD :: nat where
  "HW_FENCE_CLIENT_QUEUE_PAYLOAD = 4 + 2 + 2 + 5 * 8 + 4 * 4"

definition payload_size_u32 :: nat where
  "payload_size_u32 = HW_FENCE_CLIENT_QUEUE_PAYLOAD div 4"

text \<open>\<open>sizeof(struct msm_hw_fence)\<close> and \<open>sizeof(struct msm_hw_fence_event)\<close>.\<close>

definition sizeof_msm_hw_fence :: nat where
  "sizeof_msm_hw_fence = 4 + 4 + 8 + 8 + 8 + 4 + 4 + 8 + 8 + 3 * 8 + 4 + 4 + 4 * 8 + 5 * 8"

definition sizeof_msm_hw_fence_event :: nat where
  "sizeof_msm_hw_fence_event = 8 + 4 + 4 + 12 * 4"

lemmas hw_fence_consts [fence_defs] =
  HW_FENCE_CTRL_QUEUES_def HW_FENCE_CLIENT_QUEUES_def HW_FENCE_TX_QUEUE_def
  HW_FENCE_RX_QUEUE_def MSM_HW_FENCE_MAX_JOIN_PARENTS_def
  HW_FENCE_MAX_CLIENTS_WITH_DATA_def

lemma payload_size_u32_eq [simp]: "payload_size_u32 = 16"
  by (simp add: payload_size_u32_def HW_FENCE_CLIENT_QUEUE_PAYLOAD_def)

section \<open>Parameters from the public kernel header\<close>

record hw_fence_uapi =
  CLIENT_ID_CTX0 :: u32
  CLIENT_ID_CTL :: "u32 list"
  CLIENT_ID_VAL :: "u32 list"
  CLIENT_ID_IPE :: u32
  CLIENT_ID_VPU :: u32
  CLIENT_ID_IFE :: "u32 list"
  CLIENT_MAX :: u32
  MAX_SIGNAL_PER_CLIENT :: u32
  FLAG_ENABLED_BIT :: nat
  FLAG_SIGNALED_BIT :: nat
  RESET_WITHOUT_ERROR :: u32
  RESET_WITHOUT_DESTROY :: u32
  ERROR_RESET :: u32
  UPDATE_ERROR_WITH_MOVE :: u32
  HFI_TABLE_HEADER_SIZE :: nat
  HFI_QUEUE_HEADER_SIZE :: nat
  PAGE_SIZE :: nat
  CONFIG_DEBUG_FS :: bool

section \<open>Structures\<close>

datatype hw_fence_lookup_ops =
    HW_FENCE_LOOKUP_OP_CREATE
  | HW_FENCE_LOOKUP_OP_DESTROY
  | HW_FENCE_LOOKUP_OP_CREATE_JOIN
  | HW_FENCE_LOOKUP_OP_FIND_FENCE

record msm_hw_fence_queue_payload =
  pl_size :: u32
  pl_type :: u16
  pl_version :: u16
  pl_ctxt_id :: u64
  pl_seqno :: u64
  pl_hash :: u64
  pl_flags :: u64
  pl_client_data :: u64
  pl_error :: u32
  pl_timestamp_lo :: u32
  pl_timestamp_hi :: u32
  pl_reserve :: u32

text \<open>The HFI queue header: the fields the driver reads or writes.\<close>

record hfi_queue_header =
  qh_start_addr :: u64
  qh_type :: u32
  qh_queue_size :: u32
  qh_pkt_size :: u32
  qh_read_index :: u32
  qh_write_index :: u32
  qh_tx_wm :: u32

record msm_hw_fence_queue =
  q_va_queue :: "u32 list"
  q_size_bytes :: u32
  q_va_header :: "hfi_queue_header option"
  q_pa_queue :: u64
  q_rd_wr_idx_start :: u32
  q_rd_wr_idx_factor :: u32
  q_skip_wr_idx :: bool

record msm_hw_fence_mem_addr =
  ma_virtual_addr :: u64
  ma_device_addr :: u64
  ma_size :: u32

record msm_hw_fence_client =
  cl_client_id :: u32
  cl_client_id_ext :: u32
  cl_mem_descriptor :: msm_hw_fence_mem_addr
  cl_queues :: "msm_hw_fence_queue list"
  cl_queues_num :: int
  cl_fence_error_cb :: "u64 option"
  cl_fence_error_cb_userdata :: "u64 option"
  cl_error_cb_lock :: bool
  cl_ipc_signal_id :: int
  cl_ipc_client_vid :: int
  cl_ipc_client_pid :: int
  cl_update_rxq :: bool
  cl_send_ipc :: bool
  cl_val_signal :: int

record hw_fence_client_type_desc =
  td_name :: string
  td_init_id :: u32
  td_max_clients_num :: u32
  td_clients_num :: u32
  td_queues_num :: u32
  td_queue_entries :: u32
  td_start_padding :: u32
  td_end_padding :: u32
  td_mem_size :: u32
  td_txq_idx_start :: u32
  td_txq_idx_factor :: u32
  td_skip_txq_wr_idx :: bool

record hw_fence_client_queue_desc =
  cqd_type :: "nat option"
  cqd_start_offset :: u32

record hw_fence_client_ipc_map =
  im_ipc_client_id_virt :: int
  im_ipc_client_id_phys :: int
  im_ipc_signal_id :: int
  im_update_rxq :: bool
  im_send_ipc :: bool

record msm_hw_fence =
  hf_valid :: u32
  hf_error :: u32
  hf_ctx_id :: u64
  hf_seq_id :: u64
  hf_wait_client_mask :: u64
  hf_fence_allocator :: u32
  hf_fence_signal_client :: u32
  hf_lock :: u64
  hf_flags :: u64
  hf_parent_list :: "u64 list"
  hf_parents_cnt :: u32
  hf_pending_child_cnt :: u32
  hf_fence_create_time :: u64
  hf_fence_trigger_time :: u64
  hf_fence_wait_time :: u64
  hf_debug_refcount :: u64
  hf_client_data :: "u64 list"

text \<open>One call of a client's \<open>fence_error_cb\<close>: client, hash, error, context, seqno, flags
  and the user data registered with the callback.\<close>

record error_cb_call =
  cb_client :: u32
  cb_hash :: u64
  cb_error :: u32
  cb_context :: u64
  cb_seqno :: u64
  cb_flags :: u64
  cb_data :: "u64 option"

text \<open>
  The driver state. \<open>qtimer\<close> is the free-running counter behind
  \<open>hw_fence_get_qtime\<close>: its \<open>n\<close>-th read returns \<open>qtimer n\<close>, and \<open>qtime_reads\<close> counts
  the reads. \<open>ipcc_writes\<close> is the sequence of writes to the memory-mapped IPCC registers,
  \<open>error_cb_calls\<close> the sequence of callback invocations.
\<close>

record hw_fence_driver_data =
  resources_ready :: bool
  hw_fence_table_entries :: u32
  hw_fence_mem_fences_table_size :: u32
  hw_fence_queue_entries :: u32
  hw_fence_ctrl_queue_size :: u32
  hw_fence_mem_ctrl_queues_size :: u32
  hw_fence_client_queue_size :: "hw_fence_client_queue_desc list"
  hw_fence_client_types :: "hw_fence_client_type_desc list"
  rxq_clients_num :: u32
  clients_num :: u32
  hw_fences_tbl :: "msm_hw_fence list"
  hw_fences_tbl_cnt :: u32
  total_events :: u32
  client_lock_tbl :: "u64 list"
  client_lock_tbl_cnt :: u32
  ctrl_queues :: "msm_hw_fence_queue list"
  io_mem_base :: u64
  res_start :: u64
  carveout_size :: u64
  used_mem_size :: u32
  lock_wake_cnt :: u64
  ipcc_io_mem :: u64
  protocol_id :: u32
  ipcc_client_vid :: u32
  ipcc_client_pid :: u32
  ipc_clients_table :: "hw_fence_client_ipc_map list"
  clients :: "msm_hw_fence_client option list"
  vm_ready :: bool
  ipcc_dpu_initialized :: bool
  qtimer :: "nat \<Rightarrow> u64"
  qtime_reads :: nat
  ipcc_writes :: "(u64 \<times> u32) list"
  error_cb_calls :: "error_cb_call list"

section \<open>Access helpers\<close>

text \<open>\<open>hw_fence_get_qtime\<close>: the value read and the state after the read.\<close>

definition hw_fence_get_qtime :: "hw_fence_driver_data \<Rightarrow> u64 \<times> hw_fence_driver_data" where
  "hw_fence_get_qtime d = (qtimer d (qtime_reads d), d\<lparr>qtime_reads := Suc (qtime_reads d)\<rparr>)"

text \<open>Dereferencing a client handle; a handle of a freed client has no defined outcome.\<close>

definition get_client :: "hw_fence_driver_data \<Rightarrow> nat \<Rightarrow> msm_hw_fence_client option" where
  "get_client d cid = Option.bind (idx (clients d) cid) (\<lambda>c. c)"

definition set_client ::
    "nat \<Rightarrow> msm_hw_fence_client \<Rightarrow> hw_fence_driver_data \<Rightarrow> hw_fence_driver_data" where
  "set_client cid c d = d\<lparr>clients := (clients d)[cid := Some c]\<rparr>"

definition set_fence ::
    "nat \<Rightarrow> msm_hw_fence \<Rightarrow> hw_fence_driver_data \<Rightarrow> hw_fence_driver_data" where
  "set_fence i f d = d\<lparr>hw_fences_tbl := (hw_fences_tbl d)[i := f]\<rparr>"

lemma get_client_Some_iff:
  "get_client d cid = Some c \<longleftrightarrow> cid < length (clients d) \<and> clients d ! cid = Some c"
  by (auto simp: get_client_def idx_def bind_Some_iff)

lemma get_set_client [simp]:
  "cid < length (clients d) \<Longrightarrow> get_client (set_client cid c d) k =
     (if k = cid then Some c else get_client d k)"
  by (auto simp: get_client_def set_client_def idx_def)

end
