(* ===== verification/HwFence_Lock.thy ===== *)
theory HwFence_Lock
  imports HwFence_Types
begin

text \<open>
  The inter-VM lock of \<^verbatim>\<open>hw_fence_drv_utils.c\<close> (\<open>_lock\<close>, \<open>_unlock\<close>,
  \<open>global_atomic_store\<close>) and the IPCC doorbell of \<^verbatim>\<open>hw_fence_drv_ipc.c\<close> it rings.
  Bit 0 of the lock word belongs to the primary VM (this driver), bit 1 to the
  secondary VM. The first part gives the operations as the sequential code sees them;
  the second part is the load-exclusive/store-exclusive loop itself as a step relation
  over any number of CPUs and an environment that owns the other bits.
\<close>

section \<open>Ringing the IPCC doorbell\<close>

definition IPC_PROTOCOLp_CLIENTc_SEND :: "u64 \<Rightarrow> u32 \<Rightarrow> u32 \<Rightarrow> u64" where
  "IPC_PROTOCOLp_CLIENTc_SEND base p c = base + 0xc + ucast (0x40000 * p) + ucast (0x1000 * c)"

definition hw_fence_ipcc_trigger_signal ::
    "hw_fence_driver_data \<Rightarrow> u32 \<Rightarrow> u32 \<Rightarrow> u32 \<Rightarrow> hw_fence_driver_data" where
  "hw_fence_ipcc_trigger_signal d tx_client_pid rx_client_vid signal_id =
     (let ptr = IPC_PROTOCOLp_CLIENTc_SEND (ipcc_io_mem d) (protocol_id d) tx_client_pid;
          val = push_bit 16 rx_client_vid OR signal_id
      in d\<lparr>ipcc_writes := ipcc_writes d @ [(ptr, val)]\<rparr>)"

section \<open>The lock as sequential code sees it\<close>

text \<open>\<open>_lock\<close> spins while the low word is non-zero (\<^term>\<open>None\<close>: nobody else runs in the
  sequential view), then stores 1 into the low word.\<close>

definition lock_word :: "u64 \<Rightarrow> u64 option" where
  "lock_word l = (if lo32 l = 0 then Some (mk64 1 (hi32 l)) else None)"

text \<open>\<open>_unlock\<close> clears bit 0; if the secondary VM's bit 1 is set it counts a wake-up and
  triggers APPS signal 30.\<close>

definition unlock_word :: "u64 \<Rightarrow> u64" where
  "unlock_word l = mk64 (lo32 l AND NOT 1) (hi32 l)"

definition unlock_wake :: "u64 \<Rightarrow> hw_fence_driver_data \<Rightarrow> hw_fence_driver_data" where
  "unlock_wake lock_val d =
     (if lock_val AND 2 \<noteq> 0
      then hw_fence_ipcc_trigger_signal (d\<lparr>lock_wake_cnt := lock_wake_cnt d + 1\<rparr>)
             (ipcc_client_pid d) (ipcc_client_vid d) 30
      else d)"

text \<open>\<open>GLOBAL_ATOMIC_STORE(drv_data, &hw_fence->lock, 1/0)\<close> on a table entry and on an entry
  of the per-client lock table.\<close>

definition fence_lock :: "nat \<Rightarrow> hw_fence_driver_data \<Rightarrow> hw_fence_driver_data option" where
  "fence_lock i d = do {
     f \<leftarrow> idx (hw_fences_tbl d) i;
     l \<leftarrow> lock_word (hf_lock f);
     Some (set_fence i (f\<lparr>hf_lock := l\<rparr>) d) }"

definition fence_unlock :: "nat \<Rightarrow> hw_fence_driver_data \<Rightarrow> hw_fence_driver_data option" where
  "fence_unlock i d = do {
     f \<leftarrow> idx (hw_fences_tbl d) i;
     (let l = unlock_word (hf_lock f)
      in Some (unlock_wake l (set_fence i (f\<lparr>hf_lock := l\<rparr>) d))) }"

definition client_lock :: "nat \<Rightarrow> hw_fence_driver_data \<Rightarrow> hw_fence_driver_data option" where
  "client_lock i d = do {
     w \<leftarrow> idx (client_lock_tbl d) i;
     l \<leftarrow> lock_word w;
     Some (d\<lparr>client_lock_tbl := (client_lock_tbl d)[i := l]\<rparr>) }"

definition client_unlock :: "nat \<Rightarrow> hw_fence_driver_data \<Rightarrow> hw_fence_driver_data option" where
  "client_unlock i d = do {
     w \<leftarrow> idx (client_lock_tbl d) i;
     (let l = unlock_word w
      in Some (unlock_wake l (d\<lparr>client_lock_tbl := (client_lock_tbl d)[i := l]\<rparr>))) }"

subsection \<open>Facts the components use\<close>

lemma lock_word_free [simp]: "lo32 l = 0 \<Longrightarrow> lock_word l = Some (mk64 1 (hi32 l))"
  by (simp add: lock_word_def)

lemma lock_word_held: "lock_word l = Some l' \<Longrightarrow> lock_word l' = None"
  by (auto simp: lock_word_def split: if_splits)

lemma unlock_lock_word [simp]: "lo32 l = 0 \<Longrightarrow> unlock_word (mk64 1 (hi32 l)) = l"
proof -
  assume "lo32 l = 0"
  moreover have "(1 :: u32) AND NOT 1 = 0" by simp
  ultimately show ?thesis
    using mk64_lo_hi[of l] by (simp add: unlock_word_def)
qed

lemma lo32_and_2: "lo32 l = 0 \<Longrightarrow> l AND 2 = 0"
proof -
  assume free: "lo32 l = 0"
  have "bit (lo32 l) 1 \<longleftrightarrow> bit l 1"
    by (simp add: lo32_def bit_simps)
  with free have "\<not> bit l 1" by simp
  then show "l AND 2 = 0"
    using and_bit_nonzero_iff[of 1 l] by simp
qed

lemma unlock_wake_free [simp]: "lo32 l = 0 \<Longrightarrow> unlock_wake l d = d"
  by (simp add: unlock_wake_def lo32_and_2)

definition fence_free :: "msm_hw_fence \<Rightarrow> bool" where
  "fence_free f \<longleftrightarrow> lo32 (hf_lock f) = 0"

definition locks_free :: "hw_fence_driver_data \<Rightarrow> bool" where
  "locks_free d \<longleftrightarrow> list_all fence_free (hw_fences_tbl d)
      \<and> list_all (\<lambda>w. lo32 w = 0) (client_lock_tbl d)"

lemma locks_freeD: "locks_free d \<Longrightarrow> i < length (hw_fences_tbl d) \<Longrightarrow> lo32 (hf_lock (hw_fences_tbl d ! i)) = 0"
  by (simp add: locks_free_def fence_free_def list_all_length)

lemma locks_free_clientD: "locks_free d \<Longrightarrow> i < length (client_lock_tbl d) \<Longrightarrow> lo32 (client_lock_tbl d ! i) = 0"
  by (simp add: locks_free_def list_all_length)


section \<open>The exclusive-access loop on several CPUs\<close>

datatype lock_pc = Idle | Trying | LdLock u32 | Critical | Releasing | LdUnlock u32

record lock_sys =
  ls_word :: u32
  ls_pc :: "nat \<Rightarrow> lock_pc"
  ls_excl :: "nat \<Rightarrow> bool"

definition lock_init :: lock_sys where
  "lock_init = \<lparr>ls_word = 0, ls_pc = (\<lambda>_. Idle), ls_excl = (\<lambda>_. False)\<rparr>"

inductive lock_step :: "lock_sys \<Rightarrow> lock_sys \<Rightarrow> bool" where
  lock_enter: "ls_pc s i = Idle \<Longrightarrow> lock_step s (s\<lparr>ls_pc := (ls_pc s)(i := Trying)\<rparr>)"
| lock_ldaxr: "ls_pc s i = Trying \<Longrightarrow>
     lock_step s (s\<lparr>ls_pc := (ls_pc s)(i := LdLock (ls_word s)), ls_excl := (ls_excl s)(i := True)\<rparr>)"
| lock_cbnz: "ls_pc s i = LdLock v \<Longrightarrow> v \<noteq> 0 \<Longrightarrow>
     lock_step s (s\<lparr>ls_pc := (ls_pc s)(i := Trying)\<rparr>)"
| lock_stxr: "ls_pc s i = LdLock 0 \<Longrightarrow> ls_excl s i \<Longrightarrow>
     lock_step s (s\<lparr>ls_word := 1, ls_pc := (ls_pc s)(i := Critical), ls_excl := (\<lambda>_. False)\<rparr>)"
| lock_stxr_fail: "ls_pc s i = LdLock 0 \<Longrightarrow> \<not> ls_excl s i \<Longrightarrow>
     lock_step s (s\<lparr>ls_pc := (ls_pc s)(i := Trying)\<rparr>)"
| unlock_enter: "ls_pc s i = Critical \<Longrightarrow> lock_step s (s\<lparr>ls_pc := (ls_pc s)(i := Releasing)\<rparr>)"
| unlock_ldaxr: "ls_pc s i = Releasing \<Longrightarrow>
     lock_step s (s\<lparr>ls_pc := (ls_pc s)(i := LdUnlock (ls_word s)), ls_excl := (ls_excl s)(i := True)\<rparr>)"
| unlock_stxr: "ls_pc s i = LdUnlock v \<Longrightarrow> ls_excl s i \<Longrightarrow>
     lock_step s (s\<lparr>ls_word := v AND NOT 1, ls_pc := (ls_pc s)(i := Idle), ls_excl := (\<lambda>_. False)\<rparr>)"
| unlock_stxr_fail: "ls_pc s i = LdUnlock v \<Longrightarrow> \<not> ls_excl s i \<Longrightarrow>
     lock_step s (s\<lparr>ls_pc := (ls_pc s)(i := Releasing)\<rparr>)"
| other_vm: "bit w 0 = bit (ls_word s) 0 \<Longrightarrow>
     lock_step s (s\<lparr>ls_word := w, ls_excl := (\<lambda>_. False)\<rparr>)"

inductive lock_reachable :: "lock_sys \<Rightarrow> bool" where
  lock_start: "lock_reachable lock_init"
| lock_next: "lock_reachable s \<Longrightarrow> lock_step s t \<Longrightarrow> lock_reachable t"

definition holds :: "lock_pc \<Rightarrow> bool" where
  "holds p \<longleftrightarrow> (case p of Critical \<Rightarrow> True | Releasing \<Rightarrow> True | LdUnlock _ \<Rightarrow> True | _ \<Rightarrow> False)"

lemma holds_simps [simp]:
  "\<not> holds Idle" "\<not> holds Trying" "\<not> holds (LdLock v)"
  "holds Critical" "holds Releasing" "holds (LdUnlock v)"
  by (simp_all add: holds_def)

definition lock_inv :: "lock_sys \<Rightarrow> bool" where
  "lock_inv s \<longleftrightarrow>
     (\<forall>i j. holds (ls_pc s i) \<longrightarrow> holds (ls_pc s j) \<longrightarrow> i = j)
   \<and> (bit (ls_word s) 0 \<longleftrightarrow> (\<exists>i. holds (ls_pc s i)))
   \<and> (\<forall>i v. ls_excl s i \<longrightarrow> ls_pc s i = LdLock v \<or> ls_pc s i = LdUnlock v \<longrightarrow> ls_word s = v)"

lemma lock_invI:
  assumes "\<And>i j. holds (ls_pc s i) \<Longrightarrow> holds (ls_pc s j) \<Longrightarrow> i = j"
    and "bit (ls_word s) 0 \<longleftrightarrow> (\<exists>i. holds (ls_pc s i))"
    and "\<And>i v. ls_excl s i \<Longrightarrow> ls_pc s i = LdLock v \<or> ls_pc s i = LdUnlock v \<Longrightarrow> ls_word s = v"
  shows "lock_inv s"
  using assms unfolding lock_inv_def by blast

lemma lock_inv_init: "lock_inv lock_init"
  by (simp add: lock_inv_def lock_init_def)

lemma bit0_clear: "\<not> bit (v AND NOT 1 :: u32) 0"
  by (simp add: bit_simps)

text \<open>A step that moves one CPU without changing who holds the lock.\<close>

lemma lock_inv_move:
  assumes inv: "lock_inv s" and h: "holds p = holds (ls_pc s i)"
    and ex: "\<And>v. e i \<Longrightarrow> p = LdLock v \<or> p = LdUnlock v \<Longrightarrow> ls_word s = v"
    and fr: "\<And>j. j \<noteq> i \<Longrightarrow> e j \<Longrightarrow> ls_excl s j"
  shows "lock_inv (s\<lparr>ls_pc := (ls_pc s)(i := p), ls_excl := e\<rparr>)"
proof -
  have hs: "holds (((ls_pc s)(i := p)) j) = holds (ls_pc s j)" for j
    using h by simp
  show ?thesis
  proof (rule lock_invI)
    fix j v
    let ?s = "s\<lparr>ls_pc := (ls_pc s)(i := p), ls_excl := e\<rparr>"
    assume a: "ls_excl ?s j" "ls_pc ?s j = LdLock v \<or> ls_pc ?s j = LdUnlock v"
    show "ls_word ?s = v"
    proof (cases "j = i")
      case True
      with a ex show ?thesis by simp
    next
      case False
      with a fr have "ls_excl s j" by simp
      with False a inv show ?thesis unfolding lock_inv_def by auto
    qed
  qed (use inv hs in \<open>auto simp: lock_inv_def\<close>)
qed

lemma lock_inv_move_pc:
  assumes "lock_inv s" and "holds p = holds (ls_pc s i)" and "\<And>v. p \<noteq> LdLock v" and "\<And>v. p \<noteq> LdUnlock v"
  shows "lock_inv (s\<lparr>ls_pc := (ls_pc s)(i := p)\<rparr>)"
  using lock_inv_move[of s p i "ls_excl s"] assms by simp

lemma lock_step_inv: "lock_step s t \<Longrightarrow> lock_inv s \<Longrightarrow> lock_inv t"
proof (induction rule: lock_step.induct)
  case (lock_stxr s i)
  then have "ls_word s = 0" unfolding lock_inv_def by blast
  then have none: "\<not> holds (ls_pc s j)" for j
    using lock_stxr.prems unfolding lock_inv_def by auto
  show ?case
    by (rule lock_invI) (use none in \<open>auto split: if_splits\<close>)
next
  case (unlock_stxr s i v)
  then have only: "holds (ls_pc s j) \<Longrightarrow> j = i" for j
    unfolding lock_inv_def by (metis holds_simps(6))
  show ?case
    by (rule lock_invI) (use only bit0_clear in \<open>auto split: if_splits\<close>)
next
  case (other_vm w s)
  then show ?case unfolding lock_inv_def by auto
next
  case (lock_ldaxr s i)
  then show ?case by (intro lock_inv_move) auto
next
  case (unlock_ldaxr s i)
  then show ?case by (intro lock_inv_move) auto
qed (auto intro: lock_inv_move_pc)

lemma reachable_lock_inv: "lock_reachable s \<Longrightarrow> lock_inv s"
  by (induction rule: lock_reachable.induct) (auto intro: lock_inv_init lock_step_inv)

text \<open>C27: on any number of CPUs, and whatever the other VM does with its own bits of the
  lock word, two CPUs are never inside the section guarded by the lock at once.\<close>

theorem lock_mutual_exclusion:
  assumes "lock_reachable s" and "ls_pc s i = Critical" and "ls_pc s j = Critical"
  shows "i = j"
  using reachable_lock_inv[OF assms(1)] assms(2,3) unfolding lock_inv_def
  by (metis holds_simps(4))

definition lock_demo :: lock_sys where
  "lock_demo = lock_init\<lparr>ls_word := 1, ls_pc := (\<lambda>_. Idle)(0 := Critical)\<rparr>"

lemma lock_demo_reachable: "lock_reachable lock_demo"
proof -
  let ?s1 = "lock_init\<lparr>ls_pc := (\<lambda>_. Idle)(0 := Trying)\<rparr>"
  let ?s2 = "lock_init\<lparr>ls_pc := (\<lambda>_. Idle)(0 := LdLock 0), ls_excl := (\<lambda>_. False)(0 := True)\<rparr>"
  have "lock_step lock_init ?s1"
    using lock_enter[of lock_init 0] by (simp add: lock_init_def)
  moreover have "lock_step ?s1 ?s2"
    using lock_ldaxr[of ?s1 0] by (simp add: lock_init_def)
  moreover have "lock_step ?s2 lock_demo"
    using lock_stxr[of ?s2 0] by (simp add: lock_init_def lock_demo_def)
  ultimately show ?thesis
    by (meson lock_reachable.intros)
qed

theorem lock_mutual_exclusion_witness:
  "lock_reachable lock_demo \<and> ls_pc lock_demo 0 = Critical \<and> ls_pc lock_demo 1 \<noteq> Critical"
proof -
  have c: "ls_pc lock_demo 0 = Critical" by (simp add: lock_demo_def)
  have "ls_pc lock_demo 1 = Critical \<Longrightarrow> (0 :: nat) = 1"
    by (rule lock_mutual_exclusion[OF lock_demo_reachable c])
  with lock_demo_reachable c show ?thesis by auto
qed

text \<open>releasing a lock word clears the driver's bit and keeps every other bit; if the
  secondary VM is waiting (its bit 1 is set) exactly one wake-up is counted and exactly
  one doorbell, APPS signal 30 to the driver's own virtual id, is written, and otherwise
  nothing is.\<close>

theorem unlock_effect:
  "(\<forall>n < 64. bit (unlock_word l) n \<longleftrightarrow> bit l n \<and> n \<noteq> 0)
   \<and> ipcc_writes (unlock_wake (unlock_word l) d) =
        ipcc_writes d @ (if bit l 1
          then [(IPC_PROTOCOLp_CLIENTc_SEND (ipcc_io_mem d) (protocol_id d) (ipcc_client_pid d),
                 push_bit 16 (ipcc_client_vid d) OR 30)] else [])
   \<and> lock_wake_cnt (unlock_wake (unlock_word l) d) =
        lock_wake_cnt d + (if bit l 1 then 1 else 0)"
proof -
  have b: "bit (unlock_word l) n \<longleftrightarrow> bit l n \<and> n \<noteq> 0" if "n < 64" for n
    using that by (auto simp: unlock_word_def mk64_def lo32_def hi32_def bit_simps)
  have "unlock_word l AND 2 \<noteq> 0 \<longleftrightarrow> bit l 1"
    using and_bit_nonzero_iff[of 1 "unlock_word l"] b[of 1] by simp
  with b show ?thesis
    by (simp add: unlock_wake_def hw_fence_ipcc_trigger_signal_def Let_def)
qed

theorem unlock_effect_witness:
  "bit (unlock_word 3) 1 \<and> \<not> bit (unlock_word 3) 0"
proof -
  have "\<forall>n < 64. bit (unlock_word 3) n \<longleftrightarrow> bit (3 :: u64) n \<and> n \<noteq> 0"
    using unlock_effect[of 3 undefined] by blast
  moreover have "bit (3 :: u64) 1" by (simp add: bit_iff_odd)
  ultimately show ?thesis by simp
qed

end
