(* ===== verification/Fence_Interfaces.thy ===== *)
theory Fence_Interfaces
  imports Fence_Prelude
begin

text \<open>
  The interfaces between the components, as locales: a bounded FIFO queue, a table of
  keyed entries, an object with counted references, a group that counts its children
  down, and a manager that admits requests against a budget. Each is interpreted on the model's own definitions in the theory of the component
  that provides it.
\<close>

section \<open>Bounded FIFO queues\<close>

text \<open>Runs of writes and reads against any queue: both stop at the first refusal.\<close>

fun push_all :: "('x \<Rightarrow> 'q \<Rightarrow> 'q option) \<Rightarrow> 'x list \<Rightarrow> 'q \<Rightarrow> 'q option" where
  "push_all enq [] q = Some q"
| "push_all enq (x # xs) q = Option.bind (enq x q) (push_all enq xs)"

fun pop_n :: "('q \<Rightarrow> ('a \<times> 'q) option) \<Rightarrow> nat \<Rightarrow> 'q \<Rightarrow> ('a list \<times> 'q) option" where
  "pop_n deq 0 q = Some ([], q)"
| "pop_n deq (Suc n) q = Option.bind (deq q) (\<lambda>(x, q').
     map_option (\<lambda>(xs, q''). (x # xs, q'')) (pop_n deq n q'))"

text \<open>What a client of a message queue relies on: messages are appended while there is
  room, refused without effect when there is none, and come out in order; \<open>msg\<close> is the part
  of a stored element that the writer supplied.\<close>

locale bounded_fifo =
  fixes wf :: "'q \<Rightarrow> bool" and contents :: "'q \<Rightarrow> 'a list" and cap :: "'q \<Rightarrow> nat"
    and enq :: "'x \<Rightarrow> 'q \<Rightarrow> 'q option" and deq :: "'q \<Rightarrow> ('a \<times> 'q) option"
    and msg :: "'a \<Rightarrow> 'x"
  assumes enq_space: "wf q \<Longrightarrow> length (contents q) < cap q \<Longrightarrow>
      \<exists>q' y. enq x q = Some q' \<and> wf q' \<and> cap q' = cap q \<and> contents q' = contents q @ [y] \<and> msg y = x"
    and enq_full: "wf q \<Longrightarrow> cap q \<le> length (contents q) \<Longrightarrow> enq x q = None"
    and deq_Cons: "wf q \<Longrightarrow> contents q = y # ys \<Longrightarrow>
      \<exists>q'. deq q = Some (y, q') \<and> wf q' \<and> cap q' = cap q \<and> contents q' = ys"
    and deq_Nil: "wf q \<Longrightarrow> contents q = [] \<Longrightarrow> deq q = None"
begin

lemma push_all_ok:
  "wf q \<Longrightarrow> length (contents q) + length xs \<le> cap q \<Longrightarrow>
   \<exists>q' ys. push_all enq xs q = Some q' \<and> wf q' \<and> cap q' = cap q \<and>
      contents q' = contents q @ ys \<and> map msg ys = xs"
proof (induction xs arbitrary: q)
  case Nil
  then show ?case by simp
next
  case (Cons x xs)
  from Cons.prems obtain q1 y where q1: "enq x q = Some q1" "wf q1" "cap q1 = cap q"
    "contents q1 = contents q @ [y]" "msg y = x"
    using enq_space[of q x] by auto
  from Cons.IH[OF q1(2)] Cons.prems q1 obtain q2 ys where
    "push_all enq xs q1 = Some q2" "wf q2" "cap q2 = cap q"
    "contents q2 = contents q @ y # ys" "map msg ys = xs"
    by auto
  with q1 show ?case by (intro exI[of _ q2] exI[of _ "y # ys"]) auto
qed

lemma pop_n_ok:
  "wf q \<Longrightarrow> contents q = ys @ zs \<Longrightarrow>
   \<exists>q'. pop_n deq (length ys) q = Some (ys, q') \<and> wf q' \<and> cap q' = cap q \<and> contents q' = zs"
proof (induction ys arbitrary: q)
  case Nil
  then show ?case by simp
next
  case (Cons y ys)
  then obtain q1 where "deq q = Some (y, q1)" "wf q1" "cap q1 = cap q" "contents q1 = ys @ zs"
    using deq_Cons[of q y "ys @ zs"] by auto
  with Cons.IH[of q1] show ?case by auto
qed

lemma fifo_order:
  assumes "wf q" and "length (contents q) + length xs \<le> cap q"
  shows "\<exists>q' ys q''. push_all enq xs q = Some q' \<and>
    pop_n deq (length (contents q) + length xs) q' = Some (contents q @ ys, q'') \<and>
    map msg ys = xs \<and> contents q'' = [] \<and> wf q''"
proof -
  from push_all_ok[OF assms] obtain q' ys where p: "push_all enq xs q = Some q'" "wf q'"
    "contents q' = contents q @ ys" "map msg ys = xs" by auto
  from p(4) have "length ys = length xs" by auto
  with pop_n_ok[of q' "contents q @ ys" "[]"] p show ?thesis by auto
qed

lemma push_beyond_cap:
  assumes "wf q" and "length (contents q) \<le> cap q" and "cap q < length (contents q) + length xs"
  shows "push_all enq xs q = None"
  using assms
proof (induction xs arbitrary: q)
  case Nil
  then show ?case by simp
next
  case (Cons x xs)
  show ?case
  proof (cases "length (contents q) < cap q")
    case True
    with enq_space[OF Cons.prems(1), of x] obtain q1 y where
      "enq x q = Some q1" "wf q1" "cap q1 = cap q" "contents q1 = contents q @ [y]" by auto
    with Cons True show ?thesis by auto
  next
    case False
    with Cons.prems enq_full[of q x] show ?thesis by simp
  qed
qed

end


section \<open>Keyed tables\<close>

text \<open>What the users of the fence table rely on: the table is a finite map of bounded size;
  inserting a new legal key while there is room adds exactly that entry, deleting removes
  exactly that entry, and a lookup returns what is stored.\<close>

fun ins_all :: "('k \<Rightarrow> 's \<Rightarrow> 's option) \<Rightarrow> 'k list \<Rightarrow> 's \<Rightarrow> 's option" where
  "ins_all ins [] s = Some s"
| "ins_all ins (k # ks) s = Option.bind (ins k s) (ins_all ins ks)"

locale keyed_table =
  fixes inv :: "'s \<Rightarrow> bool" and legal :: "'k \<Rightarrow> bool" and view :: "'s \<Rightarrow> 'k \<rightharpoonup> 'v" and cap :: "'s \<Rightarrow> nat"
    and ins :: "'k \<Rightarrow> 's \<Rightarrow> 's option" and del :: "'k \<Rightarrow> 's \<Rightarrow> 's option"
    and get :: "'k \<Rightarrow> 's \<Rightarrow> 'v option" and fresh :: "'k \<Rightarrow> 'v \<Rightarrow> bool"
  assumes finite_view: "inv s \<Longrightarrow> finite (dom (view s))"
    and ins_room: "inv s \<Longrightarrow> legal k \<Longrightarrow> view s k = None \<Longrightarrow> card (dom (view s)) < cap s \<Longrightarrow>
      \<exists>s' v. ins k s = Some s' \<and> inv s' \<and> cap s' = cap s \<and> view s' = (view s)(k \<mapsto> v) \<and> fresh k v"
    and ins_full: "inv s \<Longrightarrow> legal k \<Longrightarrow> cap s \<le> card (dom (view s)) \<Longrightarrow> ins k s = None"
    and del_present: "inv s \<Longrightarrow> legal k \<Longrightarrow> view s k \<noteq> None \<Longrightarrow>
      \<exists>s'. del k s = Some s' \<and> inv s' \<and> cap s' = cap s \<and> view s' = (view s)(k := None)"
    and del_absent: "inv s \<Longrightarrow> legal k \<Longrightarrow> view s k = None \<Longrightarrow> del k s = None"
    and get_view: "inv s \<Longrightarrow> legal k \<Longrightarrow> get k s = view s k"
begin

lemma ins_all_ok:
  "inv s \<Longrightarrow> (\<forall>k \<in> set ks. legal k \<and> view s k = None) \<Longrightarrow> distinct ks \<Longrightarrow>
   card (dom (view s)) + length ks \<le> cap s \<Longrightarrow>
   \<exists>s'. ins_all ins ks s = Some s' \<and> inv s' \<and> cap s' = cap s \<and> dom (view s') = set ks \<union> dom (view s) \<and>
     (\<forall>k. k \<notin> set ks \<longrightarrow> view s' k = view s k) \<and> (\<forall>k \<in> set ks. \<exists>v. view s' k = Some v \<and> fresh k v)"
proof (induction ks arbitrary: s)
  case Nil
  then show ?case by auto
next
  case (Cons k ks)
  then obtain s1 v where s1: "ins k s = Some s1" "inv s1" "cap s1 = cap s" "view s1 = (view s)(k \<mapsto> v)" "fresh k v"
    using ins_room[of s k] by auto
  have "card (dom (view s1)) = Suc (card (dom (view s)))"
    using s1(4) finite_view[OF Cons.prems(1)] Cons.prems(2) by (simp add: domIff)
  then have c: "card (dom (view s1)) + length ks \<le> cap s1" using s1(3) Cons.prems(4) by simp
  have p: "\<forall>k \<in> set ks. legal k \<and> view s1 k = None" using Cons.prems(2,3) s1(4) by auto
  have "distinct ks" using Cons.prems(3) by simp
  from Cons.IH[OF s1(2) p this c] obtain s' where "ins_all ins ks s1 = Some s'" "inv s'" "cap s' = cap s1"
    "dom (view s') = set ks \<union> dom (view s1)" "\<forall>k. k \<notin> set ks \<longrightarrow> view s' k = view s1 k"
    "\<forall>k \<in> set ks. \<exists>v. view s' k = Some v \<and> fresh k v" by blast
  with s1 Cons.prems(3) show ?case by auto
qed

text \<open>A deletion undoes an insertion, and leaves what the other keys map to.\<close>

lemma ins_del:
  assumes "inv s" and "legal k" and "view s k = None" and "ins k s = Some s1"
  shows "\<exists>s2. del k s1 = Some s2 \<and> inv s2 \<and> view s2 = view s"
proof -
  have "card (dom (view s)) < cap s"
    using ins_full[OF assms(1,2)] assms(4) by (metis not_le_imp_less option.distinct(1))
  then obtain v where v: "inv s1" "view s1 = (view s)(k \<mapsto> v)"
    using ins_room[OF assms(1-3)] assms(4) by auto
  with del_present[OF v(1) assms(2)] assms(3) show ?thesis by (auto simp: fun_upd_idem)
qed

lemma ins_get:
  assumes "inv s" and "legal k" and "view s k = None" and "ins k s = Some s1" and "legal k'"
  shows "\<exists>v. fresh k v \<and> get k' s1 = (if k' = k then Some v else get k' s)"
proof -
  have "card (dom (view s)) < cap s"
    using ins_full[OF assms(1,2)] assms(4) by (metis not_le_imp_less option.distinct(1))
  then obtain v where v: "inv s1" "view s1 = (view s)(k \<mapsto> v)" "fresh k v"
    using ins_room[OF assms(1-3)] assms(4) by auto
  with get_view assms show ?thesis by auto
qed

end

section \<open>Counted references\<close>

fun run_n :: "nat \<Rightarrow> ('s \<Rightarrow> 's option) \<Rightarrow> 's \<Rightarrow> 's option" where
  "run_n 0 f s = Some s"
| "run_n (Suc n) f s = Option.bind (f s) (run_n n f)"

lemma run_n_Suc_right: "run_n (Suc n) f s = Option.bind (run_n n f s) f"
proof (induction n arbitrary: s)
  case 0
  then show ?case by (cases "f s") simp_all
next
  case (Suc n)
  have "run_n (Suc (Suc n)) f s = Option.bind (f s) (run_n (Suc n) f)" by (rule run_n.simps)
  also have "\<dots> = Option.bind (f s) (\<lambda>x. Option.bind (run_n n f x) f)" using Suc.IH by presburger
  finally show ?case by simp
qed

text \<open>What the users of a shared object rely on: while it has a reference, taking another one and dropping one
  succeed, and the object is destroyed with the last one.\<close>

locale refcounted =
  fixes ok :: "'s \<Rightarrow> bool" and count :: "'s \<Rightarrow> nat" and cap :: nat
    and get :: "'s \<Rightarrow> 's option" and put :: "'s \<Rightarrow> 's option" and gone :: "'s \<Rightarrow> bool"
  assumes get_up: "ok s \<Longrightarrow> 0 < count s \<Longrightarrow> count s < cap \<Longrightarrow> \<exists>s'. get s = Some s' \<and> ok s' \<and> count s' = Suc (count s)"
    and put_down: "ok s \<Longrightarrow> 1 < count s \<Longrightarrow> \<exists>s'. put s = Some s' \<and> ok s' \<and> count s' = count s - 1"
    and put_last: "ok s \<Longrightarrow> count s = 1 \<Longrightarrow> \<exists>s'. put s = Some s' \<and> ok s' \<and> count s' = 0 \<and> gone s'"
    and get_dead: "ok s \<Longrightarrow> count s = 0 \<Longrightarrow> get s = None"
begin

lemma gets_ok:
  "ok s \<Longrightarrow> 0 < count s \<Longrightarrow> count s + n \<le> cap \<Longrightarrow> \<exists>s'. run_n n get s = Some s' \<and> ok s' \<and> count s' = count s + n"
proof (induction n arbitrary: s)
  case (Suc n)
  then obtain s1 where s1: "get s = Some s1" "ok s1" "count s1 = Suc (count s)" using get_up[of s] by auto
  then show ?case using Suc.IH[of s1] Suc.prems by auto
qed simp

lemma puts_ok: "ok s \<Longrightarrow> n < count s \<Longrightarrow> \<exists>s'. run_n n put s = Some s' \<and> ok s' \<and> count s' = count s - n"
proof (induction n arbitrary: s)
  case (Suc n)
  then obtain s1 where s1: "put s = Some s1" "ok s1" "count s1 = count s - 1" using put_down[of s] by auto
  then show ?case using Suc.IH[of s1] Suc.prems by auto
qed simp

lemma puts_all: "ok s \<Longrightarrow> 0 < count s \<Longrightarrow> \<exists>s'. run_n (count s) put s = Some s' \<and> ok s' \<and> count s' = 0 \<and> gone s'"
proof -
  assume s: "ok s" "0 < count s"
  then obtain n where n: "count s = Suc n" by (cases "count s") auto
  obtain s1 where s1: "run_n n put s = Some s1" "ok s1" "count s1 = 1" using puts_ok[of s n] s n by auto
  then obtain s2 where "put s1 = Some s2" "ok s2" "count s2 = 0" "gone s2" using put_last[of s1] by auto
  with s1 show ?thesis unfolding n run_n_Suc_right by simp
qed

text \<open>Balanced use: \<open>n\<close> further references can be taken and all of them dropped, which destroys the object.\<close>

lemma balanced:
  assumes "ok s" and "0 < count s" and "count s + n \<le> cap"
  shows "\<exists>s1 s2. run_n n get s = Some s1 \<and> run_n (count s + n) put s1 = Some s2 \<and> ok s2 \<and> gone s2 \<and> get s2 = None"
proof -
  obtain s1 where s1: "run_n n get s = Some s1" "ok s1" "count s1 = count s + n" using gets_ok[OF assms] by auto
  moreover obtain s2 where "run_n (count s1) put s1 = Some s2" "ok s2" "count s2 = 0" "gone s2"
    using puts_all[OF s1(2)] s1(3) assms(2) by auto
  ultimately show ?thesis using get_dead by auto
qed

end


section \<open>Groups that count down\<close>

text \<open>What the members of a group rely on: every report of a member decrements the counter and is
  combined with the result so far; the group is finished when, and only when, the counter is zero.\<close>

locale countdown =
  fixes ok :: "'s \<Rightarrow> bool" and cnt :: "'s \<Rightarrow> nat" and res :: "'s \<Rightarrow> 'r" and fin :: "'s \<Rightarrow> bool"
    and legal :: "'r \<Rightarrow> bool" and hit :: "'r \<Rightarrow> 's \<Rightarrow> 's" and comb :: "'r \<Rightarrow> 'r \<Rightarrow> 'r"
  assumes hit_ok: "ok s \<Longrightarrow> legal r \<Longrightarrow> 0 < cnt s \<Longrightarrow> ok (hit r s)"
    and hit_cnt: "ok s \<Longrightarrow> legal r \<Longrightarrow> 0 < cnt s \<Longrightarrow> cnt (hit r s) = cnt s - 1"
    and hit_res: "ok s \<Longrightarrow> legal r \<Longrightarrow> 0 < cnt s \<Longrightarrow> res (hit r s) = comb (res s) r"
    and fin_iff: "ok s \<Longrightarrow> fin s \<longleftrightarrow> cnt s = 0"
begin

lemma hits:
  "ok s \<Longrightarrow> \<forall>r \<in> set rs. legal r \<Longrightarrow> length rs \<le> cnt s \<Longrightarrow>
   ok (fold hit rs s) \<and> cnt (fold hit rs s) = cnt s - length rs \<and> res (fold hit rs s) = foldl comb (res s) rs \<and>
   (fin (fold hit rs s) \<longleftrightarrow> length rs = cnt s)"
proof (induction rs arbitrary: s)
  case (Cons r rs)
  then have "0 < cnt s" by auto
  with Cons show ?case using hit_ok[of s r] hit_cnt[of s r] hit_res[of s r] by auto
qed (simp add: fin_iff)

end

section \<open>Admission against a budget\<close>

text \<open>A run of requests; each is answered, and the state passes from one to the next.\<close>

fun serve_all :: "('r \<Rightarrow> 's \<Rightarrow> ('o \<times> 's) option) \<Rightarrow> 'r list \<Rightarrow> 's \<Rightarrow> ('o list \<times> 's) option" where
  "serve_all ask [] s = Some ([], s)"
| "serve_all ask (r # rs) s = Option.bind (ask r s) (\<lambda>(x, s').
     map_option (\<lambda>(xs, s''). (x # xs, s'')) (serve_all ask rs s'))"

text \<open>What the clients of a resource manager rely on: a legal request is always answered, granted or not; what is in use
  stays within the budget, which no request changes; and no request makes a legal one illegal.\<close>

locale admission_control =
  fixes inv :: "'s \<Rightarrow> bool" and used :: "'s \<Rightarrow> nat" and budget :: "'s \<Rightarrow> nat"
    and legal :: "'r \<Rightarrow> 's \<Rightarrow> bool" and ask :: "'r \<Rightarrow> 's \<Rightarrow> ('o \<times> 's) option"
  assumes within: "inv s \<Longrightarrow> used s = 0 \<or> used s < budget s"
    and answered: "inv s \<Longrightarrow> legal r s \<Longrightarrow> \<exists>x s'. ask r s = Some (x, s') \<and> inv s' \<and> budget s' = budget s \<and>
      (\<forall>q. legal q s \<longrightarrow> legal q s')"
begin

lemma serve_all_within:
  "inv s \<Longrightarrow> \<forall>r \<in> set rs. legal r s \<Longrightarrow>
   \<exists>xs s'. serve_all ask rs s = Some (xs, s') \<and> length xs = length rs \<and> inv s' \<and> (used s' = 0 \<or> used s' < budget s)"
proof (induction rs arbitrary: s)
  case Nil
  then show ?case using within by simp
next
  case (Cons r rs)
  obtain x s1 where s1: "ask r s = Some (x, s1)" "inv s1" "budget s1 = budget s" "\<forall>q. legal q s \<longrightarrow> legal q s1"
    using answered[OF Cons.prems(1), of r] Cons.prems(2) by auto
  then obtain xs s2 where "serve_all ask rs s1 = Some (xs, s2)" "length xs = length rs" "inv s2" "used s2 = 0 \<or> used s2 < budget s"
    using Cons.IH[OF s1(2)] Cons.prems(2) by auto
  with s1(1) show ?case by (intro exI[of _ "x # xs"] exI[of _ s2]) simp
qed

end

section \<open>Queues of packets of different sizes\<close>

text \<open>Any interleaving of a writer and a reader of one queue: the packets that were accepted, the packets that were
  delivered, and the queue afterwards.\<close>

datatype 'p queue_op = Push 'p | Pop

fun run_queue :: "('p \<Rightarrow> 'q \<Rightarrow> (bool \<times> 'q) option) \<Rightarrow> ('q \<Rightarrow> ('p option \<times> 'q) option) \<Rightarrow> 'p queue_op list \<Rightarrow> 'q \<Rightarrow>
    ('p list \<times> 'p list \<times> 'q) option" where
  "run_queue enq deq [] q = Some ([], [], q)"
| "run_queue enq deq (Push p # xs) q = Option.bind (enq p q) (\<lambda>(b, q1).
     map_option (\<lambda>(acc, del, q2). (if b then p # acc else acc, del, q2)) (run_queue enq deq xs q1))"
| "run_queue enq deq (Pop # xs) q = Option.bind (deq q) (\<lambda>(x, q1).
     map_option (\<lambda>(acc, del, q2). (acc, (case x of None \<Rightarrow> del | Some p \<Rightarrow> p # del), q2)) (run_queue enq deq xs q1))"

text \<open>What both sides of a queue of packets rely on: a packet is appended exactly when it fits strictly below the capacity,
  a refusal and an empty read leave the packets as they are, and the oldest packet is delivered first.\<close>

locale packet_fifo =
  fixes wf :: "'q \<Rightarrow> bool" and contents :: "'q \<Rightarrow> 'p list" and cap :: "'q \<Rightarrow> nat" and size_of :: "'p \<Rightarrow> nat"
    and legal :: "'p \<Rightarrow> bool" and enq :: "'p \<Rightarrow> 'q \<Rightarrow> (bool \<times> 'q) option" and deq :: "'q \<Rightarrow> ('p option \<times> 'q) option"
  assumes enq_law: "wf q \<Longrightarrow> legal p \<Longrightarrow> \<exists>q'. enq p q = Some (sum_list (map size_of (contents q)) + size_of p < cap q, q') \<and>
      wf q' \<and> cap q' = cap q \<and>
      contents q' = contents q @ (if sum_list (map size_of (contents q)) + size_of p < cap q then [p] else [])"
    and deq_law: "wf q \<Longrightarrow> \<exists>q'. deq q = Some (case contents q of [] \<Rightarrow> None | p # _ \<Rightarrow> Some p, q') \<and>
      wf q' \<and> cap q' = cap q \<and> contents q' = tl (contents q)"
begin

text \<open>Nothing is lost, duplicated or reordered by any interleaving.\<close>

lemma run_queue_fifo:
  "wf q \<Longrightarrow> \<forall>p. Push p \<in> set xs \<longrightarrow> legal p \<Longrightarrow>
   \<exists>acc del q'. run_queue enq deq xs q = Some (acc, del, q') \<and> wf q' \<and> cap q' = cap q \<and> del @ contents q' = contents q @ acc"
proof (induction xs arbitrary: q)
  case Nil
  then show ?case by simp
next
  case (Cons x xs)
  have legal: "\<forall>p. Push p \<in> set xs \<longrightarrow> legal p" using Cons.prems(2) by simp
  show ?case
  proof (cases x)
    case (Push p)
    then obtain b q1 where q1: "enq p q = Some (b, q1)" "wf q1" "cap q1 = cap q" "contents q1 = contents q @ (if b then [p] else [])"
      using enq_law[OF Cons.prems(1), of p] Cons.prems(2) by auto
    from Cons.IH[OF q1(2) legal] obtain acc del q2 where
      "run_queue enq deq xs q1 = Some (acc, del, q2)" "wf q2" "cap q2 = cap q1" "del @ contents q2 = contents q1 @ acc" by blast
    then show ?thesis using q1 unfolding Push by (cases b) simp_all
  next
    case Pop
    obtain q1 where q1: "deq q = Some (case contents q of [] \<Rightarrow> None | p # _ \<Rightarrow> Some p, q1)" "wf q1" "cap q1 = cap q"
      "contents q1 = tl (contents q)" using deq_law[OF Cons.prems(1)] by auto
    from Cons.IH[OF q1(2) legal] obtain acc del q2 where
      "run_queue enq deq xs q1 = Some (acc, del, q2)" "wf q2" "cap q2 = cap q1" "del @ contents q2 = contents q1 @ acc" by blast
    then show ?thesis using q1 unfolding Pop by (cases "contents q") auto
  qed
qed

text \<open>A batch that fits is accepted whole and read back whole.\<close>

lemma push_all_fits:
  "wf q \<Longrightarrow> \<forall>p \<in> set ps. legal p \<Longrightarrow> ps = [] \<or> sum_list (map size_of (contents q)) + sum_list (map size_of ps) < cap q \<Longrightarrow>
   \<exists>q'. run_queue enq deq (map Push ps) q = Some (ps, [], q') \<and> wf q' \<and> cap q' = cap q \<and> contents q' = contents q @ ps"
proof (induction ps arbitrary: q)
  case (Cons p ps)
  then have fit: "sum_list (map size_of (contents q)) + size_of p < cap q" by auto
  obtain q1 where q1: "enq p q = Some (True, q1)" "wf q1" "cap q1 = cap q" "contents q1 = contents q @ [p]"
    using enq_law[OF Cons.prems(1), of p] Cons.prems(2) fit by auto
  have "ps = [] \<or> sum_list (map size_of (contents q1)) + sum_list (map size_of ps) < cap q1" using Cons.prems(3) q1 by simp
  from Cons.IH[OF q1(2) _ this] Cons.prems(2) q1 show ?case by auto
qed simp

end

end
