(* ===== verification/HwFence_Queue.thy ===== *)
theory HwFence_Queue
  imports HwFence_Lock Fence_Interfaces
begin

text \<open>
  The HFI ring queues between the driver and the fence controller
  (\<^verbatim>\<open>hw_fence_drv_priv.c\<close>: \<open>init_hw_fences_queues\<close>, \<open>hw_fence_read_queue\<close>,
  \<open>hw_fence_update_queue\<close>, \<open>hw_fence_update_existing_txq_payload\<close>,
  \<open>hw_fence_utils_reset_queues\<close>). A queue is a run of 32-bit words holding 64-byte
  payloads, a header with a read and a write index, and a per-queue translation
  between the indices a client uses and word offsets.

  The specification is a bounded FIFO: \<open>queue_contents\<close> reads the payloads between the
  indices, and each operation is shown to append, remove or edit exactly there.
\<close>

section \<open>Payloads as 32-bit words\<close>

definition payload_of_words :: "u32 list \<Rightarrow> msm_hw_fence_queue_payload" where
  "payload_of_words ws =
     \<lparr>pl_size = ws ! 0, pl_type = lo16 (ws ! 1), pl_version = hi16 (ws ! 1),
      pl_ctxt_id = mk64 (ws ! 2) (ws ! 3), pl_seqno = mk64 (ws ! 4) (ws ! 5),
      pl_hash = mk64 (ws ! 6) (ws ! 7), pl_flags = mk64 (ws ! 8) (ws ! 9),
      pl_client_data = mk64 (ws ! 10) (ws ! 11), pl_error = ws ! 12,
      pl_timestamp_lo = ws ! 13, pl_timestamp_hi = ws ! 14, pl_reserve = ws ! 15\<rparr>"

definition words_of_payload :: "msm_hw_fence_queue_payload \<Rightarrow> u32 list" where
  "words_of_payload p =
     [pl_size p, mk32 (pl_type p) (pl_version p),
      lo32 (pl_ctxt_id p), hi32 (pl_ctxt_id p), lo32 (pl_seqno p), hi32 (pl_seqno p),
      lo32 (pl_hash p), hi32 (pl_hash p), lo32 (pl_flags p), hi32 (pl_flags p),
      lo32 (pl_client_data p), hi32 (pl_client_data p), pl_error p,
      pl_timestamp_lo p, pl_timestamp_hi p, pl_reserve p]"

definition payload_at :: "u32 list \<Rightarrow> nat \<Rightarrow> msm_hw_fence_queue_payload option" where
  "payload_at m i = (if i + payload_size_u32 \<le> length m
     then Some (payload_of_words (read_run m i payload_size_u32)) else None)"

text \<open>Structure assignment through a payload pointer.\<close>

definition put_payload :: "u32 list \<Rightarrow> nat \<Rightarrow> msm_hw_fence_queue_payload \<Rightarrow> u32 list" where
  "put_payload m i p = write_run m i (words_of_payload p)"

text \<open>The MMIO stores: \<open>writel\<close>, \<open>writeq\<close> on a word index, \<open>writew\<close> on either half.\<close>

definition writel :: "u32 list \<Rightarrow> nat \<Rightarrow> u32 \<Rightarrow> u32 list" where
  "writel m i v = m[i := v]"

definition writeq :: "u32 list \<Rightarrow> nat \<Rightarrow> u64 \<Rightarrow> u32 list" where
  "writeq m i v = m[i := lo32 v, Suc i := hi32 v]"

definition writew_lo :: "u32 list \<Rightarrow> nat \<Rightarrow> u16 \<Rightarrow> u32 list" where
  "writew_lo m i v = m[i := mk32 v (hi16 (m ! i))]"

definition writew_hi :: "u32 list \<Rightarrow> nat \<Rightarrow> u16 \<Rightarrow> u32 list" where
  "writew_hi m i v = m[i := mk32 (lo16 (m ! i)) v]"

section \<open>Queue operations\<close>

definition REQUIRES_IDX_TRANSLATION :: "msm_hw_fence_queue \<Rightarrow> bool" where
  "REQUIRES_IDX_TRANSLATION q \<longleftrightarrow>
     q_rd_wr_idx_factor q \<noteq> 0 \<and> (q_rd_wr_idx_start q \<noteq> 0 \<or> q_rd_wr_idx_factor q > 1)"

definition IDX_TRANSLATE_CUSTOM_TO_DEFAULT :: "msm_hw_fence_queue \<Rightarrow> u32 \<Rightarrow> u32" where
  "IDX_TRANSLATE_CUSTOM_TO_DEFAULT q i = (i - q_rd_wr_idx_start q) * q_rd_wr_idx_factor q"

definition IDX_TRANSLATE_DEFAULT_TO_CUSTOM :: "msm_hw_fence_queue \<Rightarrow> u32 \<Rightarrow> u32" where
  "IDX_TRANSLATE_DEFAULT_TO_CUSTOM q i = i div q_rd_wr_idx_factor q + q_rd_wr_idx_start q"

definition translate_queue_indexes_custom_to_default ::
    "msm_hw_fence_queue \<Rightarrow> u32 \<times> u32 \<Rightarrow> u32 \<times> u32" where
  "translate_queue_indexes_custom_to_default q p =
     (if REQUIRES_IDX_TRANSLATION q
      then (IDX_TRANSLATE_CUSTOM_TO_DEFAULT q (fst p), IDX_TRANSLATE_CUSTOM_TO_DEFAULT q (snd p))
      else p)"

definition hw_fence_read_queue_helper ::
    "msm_hw_fence_queue \<Rightarrow> msm_hw_fence_queue_payload option \<Rightarrow>
     ((errno + nat) \<times> msm_hw_fence_queue_payload option \<times> msm_hw_fence_queue) option" where
  "hw_fence_read_queue_helper q payload =
     (let q_size_u32 = q_size_bytes q div 4 in
      case (q_va_header q, payload) of
        (Some hfi_header, Some _) \<Rightarrow>
          (let (read_idx, write_idx) = translate_queue_indexes_custom_to_default q
                 (qh_read_index hfi_header, qh_write_index hfi_header) in
           if read_idx = write_idx then Some (Inl EINVAL, payload, q)
           else do {
             read_payload \<leftarrow> payload_at (q_va_queue q) (unat read_idx);
             (let to_read_idx = read_idx + of_nat payload_size_u32;
                  to_read_idx = (if to_read_idx \<ge> q_size_u32 then 0 else to_read_idx);
                  to_read_idx = (if REQUIRES_IDX_TRANSLATION q
                    then IDX_TRANSLATE_DEFAULT_TO_CUSTOM q to_read_idx else to_read_idx)
              in Some (Inr (if to_read_idx = write_idx then 0 else 1), Some read_payload,
                   q\<lparr>q_va_header := Some (hfi_header\<lparr>qh_read_index := to_read_idx\<rparr>)\<rparr>)) })
      | _ \<Rightarrow> Some (Inl EINVAL, payload, q))"

text \<open>\<open>_get_update_queue_params\<close> selects the index that is advanced on a write:
  \<open>tx_wm\<close> for queues that skip \<open>write_index\<close>.\<close>

definition wr_ptr_get :: "msm_hw_fence_queue \<Rightarrow> hfi_queue_header \<Rightarrow> u32" where
  "wr_ptr_get q h = (if q_skip_wr_idx q then qh_tx_wm h else qh_write_index h)"

definition wr_ptr_set :: "msm_hw_fence_queue \<Rightarrow> u32 \<Rightarrow> hfi_queue_header \<Rightarrow> hfi_queue_header" where
  "wr_ptr_set q v h = (if q_skip_wr_idx q then h\<lparr>qh_tx_wm := v\<rparr> else h\<lparr>qh_write_index := v\<rparr>)"

definition get_update_queue_params :: "msm_hw_fence_queue \<Rightarrow> errno + (hfi_queue_header \<times> u32)" where
  "get_update_queue_params q =
     (case q_va_header q of None \<Rightarrow> Inl EINVAL | Some h \<Rightarrow> Inr (h, q_size_bytes q div 4))"

text \<open>The eleven stores of a payload, in the order of the code. The first is a 64-bit store
  to the 32-bit \<open>size\<close> field: it also clears \<open>type\<close> and \<open>version\<close>, which are stored next.
  The \<open>reserve\<close> word is not written.\<close>

definition store_payload ::
    "u32 list \<Rightarrow> nat \<Rightarrow> u64 \<Rightarrow> u64 \<Rightarrow> u64 \<Rightarrow> u64 \<Rightarrow> u64 \<Rightarrow> u32 \<Rightarrow> u64 \<Rightarrow> u32 list" where
  "store_payload m w ctxt_id seqno hash flags client_data error timestamp =
     (let m = writeq m w (of_nat HW_FENCE_CLIENT_QUEUE_PAYLOAD);
          m = writew_lo m (w + 1) HW_FENCE_PAYLOAD_TYPE_1;
          m = writew_hi m (w + 1) (HW_FENCE_PAYLOAD_REV 1 0);
          m = writeq m (w + 2) ctxt_id;
          m = writeq m (w + 4) seqno;
          m = writeq m (w + 6) hash;
          m = writeq m (w + 8) flags;
          m = writeq m (w + 10) client_data;
          m = writel m (w + 12) error;
          m = writel m (w + 13) (lo32 timestamp);
          m = writel m (w + 14) (hi32 timestamp)
      in m)"

text \<open>The part of \<open>hw_fence_update_queue\<close> between the lock and the unlock.\<close>

definition update_queue_locked ::
    "msm_hw_fence_queue \<Rightarrow> u64 \<Rightarrow> u64 \<Rightarrow> u64 \<Rightarrow> u64 \<Rightarrow> u64 \<Rightarrow> u32 \<Rightarrow> u64 \<Rightarrow>
     ((errno + unit) \<times> msm_hw_fence_queue) option" where
  "update_queue_locked q ctxt_id seqno hash flags client_data error timestamp =
     (case get_update_queue_params q of
        Inl e \<Rightarrow> Some (Inl e, q)
      | Inr (hfi_header, q_size_u32) \<Rightarrow>
          (let (read_idx, write_idx) = translate_queue_indexes_custom_to_default q
                 (qh_read_index hfi_header, wr_ptr_get q hfi_header);
               q_free_u32 = (if read_idx \<le> write_idx then q_size_u32 - (write_idx - read_idx)
                             else read_idx - write_idx)
           in if q_free_u32 \<le> of_nat payload_size_u32 then Some (Inl EINVAL, q)
           else if unat write_idx + payload_size_u32 > length (q_va_queue q) then None
           else
             (let to_write_idx = write_idx + of_nat payload_size_u32;
                  to_write_idx = (if to_write_idx \<ge> q_size_u32 then 0 else to_write_idx);
                  to_write_idx = (if REQUIRES_IDX_TRANSLATION q
                    then IDX_TRANSLATE_DEFAULT_TO_CUSTOM q to_write_idx else to_write_idx)
              in Some (Inr (), q\<lparr>
                   q_va_queue := store_payload (q_va_queue q) (unat write_idx)
                     ctxt_id seqno hash flags client_data error timestamp,
                   q_va_header := Some (wr_ptr_set q to_write_idx hfi_header)\<rparr>))))"

text \<open>\<open>hw_fence_update_existing_txq_payload\<close> on the TX queue.\<close>

definition update_existing_queue_payload ::
    "msm_hw_fence_queue \<Rightarrow> u64 \<Rightarrow> u32 \<Rightarrow> ((errno + unit) \<times> msm_hw_fence_queue) option" where
  "update_existing_queue_payload q hash error =
     (case get_update_queue_params q of
        Inl e \<Rightarrow> Some (Inl e, q)
      | Inr (hfi_header, q_size_u32) \<Rightarrow>
          (let (read_idx, write_idx) = translate_queue_indexes_custom_to_default q
                 (qh_read_index hfi_header, wr_ptr_get q hfi_header)
           in if read_idx = write_idx then Some (Inl EINVAL, q)
           else do {
             first_payload \<leftarrow> payload_at (q_va_queue q) (unat read_idx);
             if pl_hash first_payload = hash
             then Some (Inr (), q\<lparr>q_va_queue := put_payload (q_va_queue q) (unat read_idx)
                                    (first_payload\<lparr>pl_error := error\<rparr>)\<rparr>)
             else
               (let second_idx = read_idx + of_nat payload_size_u32;
                    second_idx = (if second_idx \<ge> q_size_u32 then 0 else second_idx)
                in if second_idx = write_idx then Some (Inl EINVAL, q)
                else do {
                  second_payload \<leftarrow> payload_at (q_va_queue q) (unat second_idx);
                  if pl_hash second_payload \<noteq> hash then Some (Inl EINVAL, q)
                  else Some (Inr (), q\<lparr>q_va_queue :=
                    put_payload
                      (put_payload (q_va_queue q) (unat read_idx) (second_payload\<lparr>pl_error := error\<rparr>))
                      (unat second_idx) first_payload\<rparr>) }) }))"

section \<open>Client-level operations\<close>

definition lock_client_queue :: "int \<Rightarrow> bool" where
  "lock_client_queue queue_type \<longleftrightarrow> queue_type = int HW_FENCE_RX_QUEUE - 1"

definition set_queue ::
    "nat \<Rightarrow> nat \<Rightarrow> msm_hw_fence_queue \<Rightarrow> hw_fence_driver_data \<Rightarrow> hw_fence_driver_data" where
  "set_queue cid i q d = (case get_client d cid of
     None \<Rightarrow> d
   | Some c \<Rightarrow> set_client cid (c\<lparr>cl_queues := (cl_queues c)[i := q]\<rparr>) d)"

text \<open>\<open>hw_fence_read_queue\<close>: a NULL client is \<^term>\<open>None\<close>; a negative queue type indexes
  before the array.\<close>

definition hw_fence_read_queue ::
    "hw_fence_driver_data \<Rightarrow> nat option \<Rightarrow> msm_hw_fence_queue_payload option \<Rightarrow> int \<Rightarrow>
     ((errno + nat) \<times> msm_hw_fence_queue_payload option \<times> hw_fence_driver_data) option" where
  "hw_fence_read_queue d client payload queue_type =
     (if queue_type \<ge> int HW_FENCE_CLIENT_QUEUES \<or> client = None \<or> payload = None
      then Some (Inl EINVAL, payload, d)
      else if queue_type < 0 then None
      else do {
        c \<leftarrow> get_client d (the client);
        q \<leftarrow> idx (cl_queues c) (nat queue_type);
        (rc, payload', q') \<leftarrow> hw_fence_read_queue_helper q payload;
        Some (rc, payload', set_queue (the client) (nat queue_type) q' d) })"

definition hw_fence_update_queue ::
    "hw_fence_driver_data \<Rightarrow> nat \<Rightarrow> u64 \<Rightarrow> u64 \<Rightarrow> u64 \<Rightarrow> u64 \<Rightarrow> u64 \<Rightarrow> u32 \<Rightarrow> int \<Rightarrow>
     ((errno + unit) \<times> hw_fence_driver_data) option" where
  "hw_fence_update_queue d cid ctxt_id seqno hash flags client_data error queue_type = do {
     c \<leftarrow> get_client d cid;
     if queue_type \<ge> cl_queues_num c then Some (Inl EINVAL, d)
     else if queue_type < 0 then None
     else do {
       q \<leftarrow> idx (cl_queues c) (nat queue_type);
       (case get_update_queue_params q of
          Inl _ \<Rightarrow> Some (Inl EINVAL, d)
        | Inr _ \<Rightarrow>
            (let lock_client = lock_client_queue queue_type;
                 lock_idx = cl_client_id c - 1
             in if lock_client \<and> lock_idx \<ge> client_lock_tbl_cnt d then Some (Inl EINVAL, d)
             else do {
               d1 \<leftarrow> (if lock_client then client_lock (unat lock_idx) d else Some d);
               (let (timestamp, d2) = hw_fence_get_qtime d1 in do {
                  (rc, q') \<leftarrow> update_queue_locked q ctxt_id seqno hash flags client_data error timestamp;
                  (let d3 = (case rc of Inl _ \<Rightarrow> d1 | Inr _ \<Rightarrow> set_queue cid (nat queue_type) q' d2) in do {
                     d4 \<leftarrow> (if lock_client then client_unlock (unat lock_idx) d3 else Some d3);
                     Some (rc, d4) }) }) })) } }"

definition hw_fence_update_existing_txq_payload ::
    "hw_fence_driver_data \<Rightarrow> nat \<Rightarrow> u64 \<Rightarrow> u32 \<Rightarrow> ((errno + unit) \<times> hw_fence_driver_data) option" where
  "hw_fence_update_existing_txq_payload d cid hash error = do {
     c \<leftarrow> get_client d cid;
     q \<leftarrow> idx (cl_queues c) (HW_FENCE_TX_QUEUE - 1);
     (rc, q') \<leftarrow> update_existing_queue_payload q hash error;
     Some (rc, set_queue cid (HW_FENCE_TX_QUEUE - 1) q' d) }"

text \<open>\<open>hw_fence_utils_reset_queues\<close>: the TX read index catches up with what the client wrote,
  the RX write index falls back to what the client read.\<close>

definition reset_tx_queue :: "msm_hw_fence_queue \<Rightarrow> msm_hw_fence_queue option" where
  "reset_tx_queue q = (case q_va_header q of
     None \<Rightarrow> None
   | Some h \<Rightarrow>
       (let wr_idx = qh_write_index h;
            h1 = (if q_skip_wr_idx q then h\<lparr>qh_tx_wm := wr_idx\<rparr> else h)
        in Some (q\<lparr>q_va_header := Some (h1\<lparr>qh_read_index := wr_idx\<rparr>)\<rparr>)))"

definition reset_rx_queue :: "msm_hw_fence_queue \<Rightarrow> msm_hw_fence_queue option" where
  "reset_rx_queue q = (case q_va_header q of
     None \<Rightarrow> None
   | Some h \<Rightarrow> Some (q\<lparr>q_va_header := Some (h\<lparr>qh_write_index := qh_read_index h\<rparr>)\<rparr>))"

definition hw_fence_utils_reset_queues ::
    "hw_fence_driver_data \<Rightarrow> nat \<Rightarrow> hw_fence_driver_data option" where
  "hw_fence_utils_reset_queues d cid = do {
     c \<leftarrow> get_client d cid;
     txq \<leftarrow> idx (cl_queues c) (HW_FENCE_TX_QUEUE - 1);
     txq' \<leftarrow> reset_tx_queue txq;
     (let d1 = set_queue cid (HW_FENCE_TX_QUEUE - 1) txq' d;
          lock_idx = cl_client_id c - 1
      in if \<not> cl_update_rxq c then Some d1
      else if lock_idx \<ge> client_lock_tbl_cnt d then Some d1
      else do {
        d2 \<leftarrow> client_lock (unat lock_idx) d1;
        rxq \<leftarrow> idx (cl_queues c) (HW_FENCE_RX_QUEUE - 1);
        rxq' \<leftarrow> reset_rx_queue rxq;
        client_unlock (unat lock_idx) (set_queue cid (HW_FENCE_RX_QUEUE - 1) rxq' d2) }) }"


section \<open>Encoding round trips\<close>

lemma length_words_of_payload [simp]: "length (words_of_payload p) = 16"
  by (simp add: words_of_payload_def)

lemma payload_of_words_of_payload [simp]: "payload_of_words (words_of_payload p) = p"
  by (simp add: payload_of_words_def words_of_payload_def)

lemma lt16:
  "(k :: nat) < 16 \<Longrightarrow> k \<in> {0, 1, 2, 3, 4, 5, 6, 7, 8, 9, 10, 11, 12, 13, 14, 15}"
  by (simp, presburger)

lemma list16_eqI:
  assumes "length xs = 16" and "length ys = 16"
    and "\<And>k. k \<in> {0, 1, 2, 3, 4, 5, 6, 7, 8, 9, 10, 11, 12, 13, 14, 15} \<Longrightarrow> xs ! k = ys ! k"
  shows "xs = ys"
proof (rule nth_equalityI)
  show "length xs = length ys" using assms by simp
next
  fix k assume "k < length xs"
  then have "k \<in> {0, 1, 2, 3, 4, 5, 6, 7, 8, 9, 10, 11, 12, 13, 14, 15}"
    using assms(1) lt16 by simp
  then show "xs ! k = ys ! k" by (rule assms(3))
qed

lemma words_of_payload_of_words: "length ws = 16 \<Longrightarrow> words_of_payload (payload_of_words ws) = ws"
  by (rule list16_eqI) (auto simp: payload_of_words_def words_of_payload_def)

lemma payload_at_put_same [simp]:
  "i + 16 \<le> length m \<Longrightarrow> payload_at (put_payload m i p) i = Some p"
  by (simp add: payload_at_def put_payload_def read_run_write_same)

lemma payload_at_put_other:
  "i + 16 \<le> length m \<Longrightarrow> j + 16 \<le> length m \<Longrightarrow> j + 16 \<le> i \<or> i + 16 \<le> j \<Longrightarrow>
   payload_at (put_payload m i p) j = payload_at m j"
  by (simp add: payload_at_def put_payload_def read_run_write_other)

lemma length_put_payload [simp]: "i + 16 \<le> length m \<Longrightarrow> length (put_payload m i p) = length m"
  by (simp add: put_payload_def)

definition new_payload ::
    "u64 \<Rightarrow> u64 \<Rightarrow> u64 \<Rightarrow> u64 \<Rightarrow> u64 \<Rightarrow> u32 \<Rightarrow> u64 \<Rightarrow> u32 \<Rightarrow> msm_hw_fence_queue_payload" where
  "new_payload ctxt_id seqno hash flags client_data error timestamp reserve =
     \<lparr>pl_size = 64, pl_type = 1, pl_version = 0x100, pl_ctxt_id = ctxt_id, pl_seqno = seqno,
      pl_hash = hash, pl_flags = flags, pl_client_data = client_data, pl_error = error,
      pl_timestamp_lo = lo32 timestamp, pl_timestamp_hi = hi32 timestamp, pl_reserve = reserve\<rparr>"

lemma lo32_64 [simp]: "lo32 64 = 64" "hi32 64 = 0"
  by (simp_all add: lo32_def hi32_def)

lemma hi16_0 [simp]: "hi16 0 = 0"
  by (simp add: hi16_def)

lemma payload_rev_1_0 [simp]: "HW_FENCE_PAYLOAD_REV 1 0 = 0x100"
  by (simp add: HW_FENCE_PAYLOAD_REV_def)

text \<open>The eleven stores amount to one structure assignment that keeps the reserve word.\<close>

lemma store_payload_eq_put:
  assumes "w + 16 \<le> length m"
  shows "store_payload m w c s h f cd e t = put_payload m w (new_payload c s h f cd e t (m ! (w + 15)))"
proof (rule nth_equalityI)
  show "length (store_payload m w c s h f cd e t) =
        length (put_payload m w (new_payload c s h f cd e t (m ! (w + 15))))"
    using assms by (simp add: store_payload_def Let_def writeq_def writel_def writew_lo_def writew_hi_def)
next
  fix k assume "k < length (store_payload m w c s h f cd e t)"
  then have k: "k < length m"
    by (simp add: store_payload_def Let_def writeq_def writel_def writew_lo_def writew_hi_def)
  let ?p = "new_payload c s h f cd e t (m ! (w + 15))"
  show "store_payload m w c s h f cd e t ! k = put_payload m w ?p ! k"
  proof (cases "w \<le> k \<and> k < w + 16")
    case True
    then obtain j where j: "k = w + j" "j < 16" by (metis add_less_cancel_left le_Suc_ex)
    then have "j \<in> {0, 1, 2, 3, 4, 5, 6, 7, 8, 9, 10, 11, 12, 13, 14, 15}" by (intro lt16)
    with assms j show ?thesis
      by (auto simp: store_payload_def Let_def writeq_def writel_def writew_lo_def writew_hi_def
          put_payload_def nth_write_run words_of_payload_def new_payload_def nth_list_update
          HW_FENCE_CLIENT_QUEUE_PAYLOAD_def HW_FENCE_PAYLOAD_TYPE_1_def)
  next
    case False
    with assms k show ?thesis
      by (auto simp: store_payload_def Let_def writeq_def writel_def writew_lo_def writew_hi_def
          put_payload_def nth_write_run)
  qed
qed


section \<open>The queue as a bounded FIFO\<close>

text \<open>The word offset of slot \<open>k\<close>.\<close>

definition word_slot :: "nat \<Rightarrow> u32" where
  "word_slot k = of_nat (16 * k)"

text \<open>The index a queue stores for slot \<open>k\<close>, and the word offset a stored index stands for.\<close>

definition enc_idx :: "msm_hw_fence_queue \<Rightarrow> nat \<Rightarrow> u32" where
  "enc_idx q k = (if REQUIRES_IDX_TRANSLATION q
     then IDX_TRANSLATE_DEFAULT_TO_CUSTOM q (word_slot k) else word_slot k)"

definition dec_idx :: "msm_hw_fence_queue \<Rightarrow> u32 \<Rightarrow> u32" where
  "dec_idx q i = (if REQUIRES_IDX_TRANSLATION q then IDX_TRANSLATE_CUSTOM_TO_DEFAULT q i else i)"

definition factor_ok :: "msm_hw_fence_queue \<Rightarrow> bool" where
  "factor_ok q \<longleftrightarrow> 16 mod unat (q_rd_wr_idx_factor q) = 0 \<or> q_rd_wr_idx_factor q = 0"

definition q_entries :: "msm_hw_fence_queue \<Rightarrow> nat" where
  "q_entries q = unat (q_size_bytes q) div 64"

definition q_rd :: "msm_hw_fence_queue \<Rightarrow> nat" where
  "q_rd q = (case q_va_header q of None \<Rightarrow> 0 | Some h \<Rightarrow> unat (dec_idx q (qh_read_index h)) div 16)"

definition q_wr :: "msm_hw_fence_queue \<Rightarrow> nat" where
  "q_wr q = (case q_va_header q of None \<Rightarrow> 0 | Some h \<Rightarrow> unat (dec_idx q (wr_ptr_get q h)) div 16)"

definition queue_ok :: "msm_hw_fence_queue \<Rightarrow> nat \<Rightarrow> nat \<Rightarrow> nat \<Rightarrow> bool" where
  "queue_ok q n r w \<longleftrightarrow>
     length (q_va_queue q) = 16 * n \<and> unat (q_size_bytes q) = 64 * n \<and> factor_ok q
   \<and> r < n \<and> w < n
   \<and> (case q_va_header q of None \<Rightarrow> False
      | Some h \<Rightarrow> qh_read_index h = enc_idx q r \<and> wr_ptr_get q h = enc_idx q w)"

text \<open>Well-formed queues, and the payloads they hold, oldest first.\<close>

definition queue_wf :: "msm_hw_fence_queue \<Rightarrow> bool" where
  "queue_wf q \<longleftrightarrow> queue_ok q (q_entries q) (q_rd q) (q_wr q)"

definition slot :: "u32 list \<Rightarrow> nat \<Rightarrow> msm_hw_fence_queue_payload" where
  "slot m k = payload_of_words (read_run m (16 * k) 16)"

definition queue_contents :: "msm_hw_fence_queue \<Rightarrow> msm_hw_fence_queue_payload list" where
  "queue_contents q = ring (slot (q_va_queue q)) (q_entries q) (q_rd q) (q_wr q)"

subsection \<open>Index arithmetic\<close>

lemma unat_slot:
  assumes "unat (b :: u32) = 64 * n" and "k < n"
  shows "unat (word_slot k) = 16 * k"
proof -
  have "64 * n < 2 ^ 32" using unsigned_less[of b, where ?'a = nat] assms(1) by simp
  with assms(2) have "16 * k < 2 ^ LENGTH(32)" by simp
  then show ?thesis unfolding word_slot_def by (simp only: unat_of_nat mod_less)
qed

lemma dec_enc_idx:
  assumes f: "factor_ok q" and s: "unat (q_size_bytes q) = 64 * n" and k: "k < n"
  shows "dec_idx q (enc_idx q k) = word_slot k"
proof (cases "REQUIRES_IDX_TRANSLATION q")
  case True
  let ?f = "q_rd_wr_idx_factor q" and ?x = "word_slot k"
  from True have nz: "?f \<noteq> 0" by (simp add: REQUIRES_IDX_TRANSLATION_def)
  with f have "unat ?f dvd 16" by (simp add: factor_ok_def dvd_eq_mod_eq_0)
  then have d: "unat ?f dvd unat ?x"
    using unat_slot[OF s k] by simp
  have "?x div ?f * ?f = ?x"
  proof (rule word_unat_eq_iff[THEN iffD2])
    have "unat (?x div ?f * ?f) = (unat ?x div unat ?f * unat ?f) mod 2 ^ 32"
      by (simp add: unat_word_ariths(2) unat_div)
    also have "\<dots> = unat ?x"
      using d unsigned_less[of ?x, where ?'a = nat] by (simp add: dvd_div_mult_self)
    finally show "unat (?x div ?f * ?f) = unat ?x" .
  qed
  with True show ?thesis
    by (simp add: dec_idx_def enc_idx_def IDX_TRANSLATE_CUSTOM_TO_DEFAULT_def
        IDX_TRANSLATE_DEFAULT_TO_CUSTOM_def)
qed (simp add: dec_idx_def enc_idx_def)

lemma translate_eq_dec:
  "translate_queue_indexes_custom_to_default q (a, b) = (dec_idx q a, dec_idx q b)"
  by (simp add: translate_queue_indexes_custom_to_default_def dec_idx_def)

lemma q_size_u32:
  assumes "unat (q_size_bytes q) = 64 * n"
  shows "unat (q_size_bytes q div 4) = 16 * n"
  using assms by (simp add: unat_div)

text \<open>Advancing a word offset by one payload with wrap-around moves to the next slot.\<close>

lemma next_idx:
  assumes s: "unat (q_size_bytes q) = 64 * n" and k: "k < n"
  shows "(if q_size_bytes q div 4 \<le> word_slot k + 16 then 0 else word_slot k + 16) =
    word_slot (Suc k mod n)"
proof -
  let ?i = "word_slot k + 16"
  have b: "64 * n < 2 ^ 32" using unsigned_less[of "q_size_bytes q", where ?'a = nat] s by simp
  have i: "?i = word_slot (Suc k)" by (simp add: word_slot_def)
  have "16 * Suc k < 2 ^ LENGTH(32)" using b k by simp
  then have ui: "unat ?i = 16 * Suc k" unfolding i unfolding word_slot_def by (simp only: unat_of_nat mod_less)
  have "q_size_bytes q div 4 \<le> ?i \<longleftrightarrow> Suc k = n"
    using k by (auto simp: word_le_nat_alt ui q_size_u32[OF s])
  then show ?thesis using k by (auto simp: i word_slot_def)
qed

lemma enc_idx_inj:
  assumes "factor_ok q" and "unat (q_size_bytes q) = 64 * n" and "j < n" and "k < n"
  shows "word_slot j = word_slot k \<longleftrightarrow> j = k"
  using unat_slot[OF assms(2,3)] unat_slot[OF assms(2,4)] by (metis mult_cancel1 zero_neq_numeral)

lemma queue_okD:
  assumes "queue_ok q n r w"
  shows "q_entries q = n" "q_rd q = r" "q_wr q = w"
proof -
  from assms obtain h where h: "q_va_header q = Some h"
    and hi: "qh_read_index h = enc_idx q r" "wr_ptr_get q h = enc_idx q w"
    and s: "unat (q_size_bytes q) = 64 * n" and f: "factor_ok q" and b: "r < n" "w < n"
    by (auto simp: queue_ok_def split: option.splits)
  show "q_entries q = n" by (simp add: q_entries_def s)
  show "q_rd q = r"
    by (simp add: q_rd_def h hi dec_enc_idx[OF f s b(1)] unat_slot[OF s b(1)])
  show "q_wr q = w"
    by (simp add: q_wr_def h hi dec_enc_idx[OF f s b(2)] unat_slot[OF s b(2)])
qed

lemma queue_wfI: "queue_ok q n r w \<Longrightarrow> queue_wf q"
  by (simp add: queue_wf_def queue_okD)

lemma queue_contents_eq: "queue_ok q n r w \<Longrightarrow> queue_contents q = ring (slot (q_va_queue q)) n r w"
  by (simp add: queue_contents_def queue_okD)

lemma payload_at_slot:
  "length m = 16 * n \<Longrightarrow> k < n \<Longrightarrow> payload_at m (16 * k) = Some (slot m k)"
  by (simp add: payload_at_def slot_def)

lemma slot_put:
  assumes "length m = 16 * n" and "k < n" and "j < n"
  shows "slot (put_payload m (16 * k) p) j = (if j = k then p else slot m j)"
proof (cases "j = k")
  case True
  with assms show ?thesis by (simp add: slot_def put_payload_def read_run_write_same)
next
  case False
  then have "16 * j + 16 \<le> 16 * k \<or> 16 * k + 16 \<le> 16 * j" by arith
  with assms False show ?thesis by (simp add: slot_def put_payload_def read_run_write_other)
qed


subsection \<open>Each operation on well-formed queues\<close>

lemma queue_okE:
  assumes "queue_ok q n r w"
  obtains h where "q_va_header q = Some h" "qh_read_index h = enc_idx q r"
    "wr_ptr_get q h = enc_idx q w" "length (q_va_queue q) = 16 * n"
    "unat (q_size_bytes q) = 64 * n" "factor_ok q" "r < n" "w < n"
  using assms by (auto simp: queue_ok_def split: option.splits)

text \<open>The free-space test of the code compares free slots with one.\<close>

lemma free_space_test:
  assumes s: "unat (q_size_bytes q) = 64 * n" and b: "r < n" "w < n"
  shows "(if word_slot r \<le> word_slot w then q_size_bytes q div 4 - (word_slot w - word_slot r)
          else word_slot r - word_slot w) \<le> 16
         \<longleftrightarrow> \<not> Suc ((w + n - r) mod n) < n"
proof -
  have u: "unat (word_slot r) = 16 * r" "unat (word_slot w) = 16 * w"
    using unat_slot[OF s] b by simp_all
  have le: "word_slot r \<le> word_slot w \<longleftrightarrow> r \<le> w"
    by (simp add: word_le_nat_alt u)
  show ?thesis
  proof (cases "r \<le> w")
    case True
    then have wr: "unat (word_slot w - word_slot r) = 16 * w - 16 * r"
      using le u by (simp add: unat_sub)
    have "unat (q_size_bytes q div 4 - (word_slot w - word_slot r)) = 16 * n - (16 * w - 16 * r)"
      using b by (subst unat_sub) (simp_all add: word_le_nat_alt wr q_size_u32[OF s])
    then show ?thesis
      using True b le ring_used[OF b] by (auto simp: word_le_nat_alt)
  next
    case False
    then have "unat (word_slot r - word_slot w) = 16 * r - 16 * w"
      using le u by (subst unat_sub) auto
    then show ?thesis
      using False b le ring_used[OF b] by (auto simp: word_le_nat_alt)
  qed
qed

lemma queue_ok_cong:
  assumes "queue_ok q n r w" and "length m = 16 * n"
    and "qh_read_index h = enc_idx q r'" and "wr_ptr_get q h = enc_idx q w'" and "r' < n" and "w' < n"
  shows "queue_ok (q\<lparr>q_va_queue := m, q_va_header := Some h\<rparr>) n r' w'"
  using assms by (auto simp: queue_ok_def factor_ok_def enc_idx_def wr_ptr_get_def
      REQUIRES_IDX_TRANSLATION_def IDX_TRANSLATE_DEFAULT_TO_CUSTOM_def)

lemma wr_ptr_get_set [simp]: "wr_ptr_get q (wr_ptr_set q v h) = v"
  by (simp add: wr_ptr_get_def wr_ptr_set_def)

lemma rd_wr_ptr_set [simp]: "qh_read_index (wr_ptr_set q v h) = qh_read_index h"
  by (simp add: wr_ptr_set_def)

lemma get_update_queue_params_Some [simp]:
  "q_va_header q = Some h \<Longrightarrow> get_update_queue_params q = Inr (h, q_size_bytes q div 4)"
  by (simp add: get_update_queue_params_def)

lemma enc_idx_eq: "(if REQUIRES_IDX_TRANSLATION q
    then IDX_TRANSLATE_DEFAULT_TO_CUSTOM q (word_slot k) else word_slot k) = enc_idx q k"
  by (simp add: enc_idx_def)

lemma update_queue_locked_full:
  assumes ok: "queue_ok q n r w" and full: "\<not> Suc (length (queue_contents q)) < n"
  shows "update_queue_locked q c s hs f cd e t = Some (Inl EINVAL, q)"
proof -
  obtain h where h: "q_va_header q = Some h" "qh_read_index h = enc_idx q r"
    "wr_ptr_get q h = enc_idx q w" and s: "unat (q_size_bytes q) = 64 * n"
    and f: "factor_ok q" and b: "r < n" "w < n"
    using ok by (rule queue_okE)
  have "\<not> Suc ((w + n - r) mod n) < n"
    using full by (simp add: queue_contents_eq[OF ok] length_ring)
  with free_space_test[OF s b] show ?thesis
    by (simp add: update_queue_locked_def h translate_eq_dec dec_enc_idx[OF f s b(1)]
        dec_enc_idx[OF f s b(2)] Let_def cong: if_cong split del: if_split)
qed

lemma update_queue_locked_space:
  assumes ok: "queue_ok q n r w" and space: "Suc (length (queue_contents q)) < n"
  obtains q' where "update_queue_locked q c s hs f cd e t = Some (Inr (), q')"
    and "queue_ok q' n r (Suc w mod n)"
    and "queue_contents q' = queue_contents q @
           [new_payload c s hs f cd e t (q_va_queue q ! (16 * w + 15))]"
    and "q_skip_wr_idx q' = q_skip_wr_idx q"
proof -
  obtain h where h: "q_va_header q = Some h" "qh_read_index h = enc_idx q r"
    "wr_ptr_get q h = enc_idx q w" and l: "length (q_va_queue q) = 16 * n"
    and s: "unat (q_size_bytes q) = 64 * n" and f: "factor_ok q" and b: "r < n" "w < n"
    using ok by (rule queue_okE)
  let ?p = "new_payload c s hs f cd e t (q_va_queue q ! (16 * w + 15))"
  let ?m = "put_payload (q_va_queue q) (16 * w) ?p"
  let ?q = "q\<lparr>q_va_queue := ?m, q_va_header := Some (wr_ptr_set q (enc_idx q (Suc w mod n)) h)\<rparr>"
  have room: "16 * w + 16 \<le> length (q_va_queue q)" using l b by simp
  have sp: "Suc ((w + n - r) mod n) < n"
    using space by (simp add: queue_contents_eq[OF ok] length_ring)
  have upd: "update_queue_locked q c s hs f cd e t = Some (Inr (), ?q)"
    using free_space_test[OF s b] sp room next_idx[OF s b(2)]
    by (simp add: update_queue_locked_def h translate_eq_dec dec_enc_idx[OF f s b(1)]
        dec_enc_idx[OF f s b(2)] Let_def unat_slot[OF s b(2)] store_payload_eq_put enc_idx_eq cong: if_cong split del: if_split)
  have ok': "queue_ok ?q n r (Suc w mod n)"
    using b l room h by (intro queue_ok_cong[OF ok]) auto
  have other: "slot ?m k = slot (q_va_queue q) k" if "k < n" "k \<noteq> w" for k
    using slot_put[OF l b(2) that(1)] that(2) by simp
  have "queue_contents ?q = ring (slot ?m) n r (Suc w mod n)"
    by (simp add: queue_contents_eq[OF ok'])
  also have "\<dots> = ring (slot ?m) n r w @ [slot ?m w]"
    using ring_snoc[OF b, of "slot ?m"] sp by (simp add: length_ring)
  also have "\<dots> = queue_contents q @ [?p]"
    using ring_cong[OF other b] slot_put[OF l b(2) b(2)] by (simp add: queue_contents_eq[OF ok])
  finally show ?thesis using that[OF upd ok'] by simp
qed

lemma read_queue_empty:
  assumes ok: "queue_ok q n r w" and sk: "\<not> q_skip_wr_idx q" and "queue_contents q = []"
  shows "hw_fence_read_queue_helper q (Some p) = Some (Inl EINVAL, Some p, q)"
proof -
  obtain h where h: "q_va_header q = Some h" "qh_read_index h = enc_idx q r"
    "wr_ptr_get q h = enc_idx q w" and b: "r < n" "w < n"
    using ok by (rule queue_okE)
  have "r = w"
    using assms(3) b by (simp add: queue_contents_eq[OF ok] ring_Nil_iff)
  with h sk show ?thesis
    by (simp add: hw_fence_read_queue_helper_def translate_eq_dec wr_ptr_get_def Let_def)
qed

lemma read_queue_Cons:
  assumes ok: "queue_ok q n r w" and sk: "\<not> q_skip_wr_idx q" and cs: "queue_contents q = x # xs"
  obtains q' rc where "hw_fence_read_queue_helper q (Some p) = Some (Inr rc, Some x, q')"
    and "queue_ok q' n (Suc r mod n) w" and "queue_contents q' = xs"
    and "\<not> q_skip_wr_idx q'"
    and "rc = (if enc_idx q (Suc r mod n) = word_slot w then 0 else 1)"
proof -
  obtain h where h: "q_va_header q = Some h" "qh_read_index h = enc_idx q r"
    "wr_ptr_get q h = enc_idx q w" and l: "length (q_va_queue q) = 16 * n"
    and s: "unat (q_size_bytes q) = 64 * n" and f: "factor_ok q" and b: "r < n" "w < n"
    using ok by (rule queue_okE)
  have rw: "r \<noteq> w"
    using cs b ring_Nil_iff[OF b] by (metis list.distinct(1) queue_contents_eq[OF ok])
  let ?q = "q\<lparr>q_va_header := Some (h\<lparr>qh_read_index := enc_idx q (Suc r mod n)\<rparr>)\<rparr>"
  have ring: "x = slot (q_va_queue q) r" "xs = ring (slot (q_va_queue q)) n (Suc r mod n) w"
    using cs ring_Cons[OF b rw, of "slot (q_va_queue q)"] by (simp_all add: queue_contents_eq[OF ok])
  have wi: "qh_write_index h = enc_idx q w" using h(3) sk by (simp add: wr_ptr_get_def)
  have ne: "word_slot r \<noteq> word_slot w" using enc_idx_inj[OF f s b] rw by simp
  have pl: "payload_at (q_va_queue q) (16 * r) = Some x"
    using payload_at_slot[OF l b(1)] ring(1) by simp
  have rd: "hw_fence_read_queue_helper q (Some p) =
      Some (Inr (if enc_idx q (Suc r mod n) = word_slot w then 0 else 1), Some x, ?q)"
    using next_idx[OF s b(1)] ne pl
    by (simp add: hw_fence_read_queue_helper_def h wi translate_eq_dec dec_enc_idx[OF f s b(1)]
        dec_enc_idx[OF f s b(2)] Let_def unat_slot[OF s b(1)] enc_idx_eq cong: if_cong split del: if_split)
  have "queue_ok (q\<lparr>q_va_queue := q_va_queue q, q_va_header :=
      Some (h\<lparr>qh_read_index := enc_idx q (Suc r mod n)\<rparr>)\<rparr>) n (Suc r mod n) w"
    using b h wi sk l by (intro queue_ok_cong[OF ok]) (simp_all add: wr_ptr_get_def)
  then have ok': "queue_ok ?q n (Suc r mod n) w" by simp
  show ?thesis
    by (rule that[OF rd ok']) (use ring sk in \<open>simp_all add: queue_contents_eq[OF ok']\<close>)
qed


lemma queue_wfE:
  assumes "queue_wf q"
  obtains n r w where "queue_ok q n r w" "q_entries q = n"
  using assms by (auto simp: queue_wf_def)

lemma update_existing_ok:
  assumes ok: "queue_ok q n r w"
  shows "update_existing_queue_payload q hs e = (case queue_contents q of
      [] \<Rightarrow> Some (Inl EINVAL, q)
    | x # xs \<Rightarrow>
        if pl_hash x = hs
        then Some (Inr (), q\<lparr>q_va_queue := put_payload (q_va_queue q) (16 * r) (x\<lparr>pl_error := e\<rparr>)\<rparr>)
        else (case xs of
            [] \<Rightarrow> Some (Inl EINVAL, q)
          | y # ys \<Rightarrow>
              if pl_hash y = hs
              then Some (Inr (), q\<lparr>q_va_queue :=
                put_payload (put_payload (q_va_queue q) (16 * r) (y\<lparr>pl_error := e\<rparr>))
                  (16 * (Suc r mod n)) x\<rparr>)
              else Some (Inl EINVAL, q)))"
proof -
  obtain h where h: "q_va_header q = Some h" "qh_read_index h = enc_idx q r"
    "wr_ptr_get q h = enc_idx q w" and l: "length (q_va_queue q) = 16 * n"
    and s: "unat (q_size_bytes q) = 64 * n" and f: "factor_ok q" and b: "r < n" "w < n"
    using ok by (rule queue_okE)
  let ?sl = "slot (q_va_queue q)"
  have b': "Suc r mod n < n" using b by simp
  have unf: "update_existing_queue_payload q hs e =
    (if word_slot r = word_slot w then Some (Inl EINVAL, q)
     else if pl_hash (?sl r) = hs
     then Some (Inr (), q\<lparr>q_va_queue := put_payload (q_va_queue q) (16 * r) ((?sl r)\<lparr>pl_error := e\<rparr>)\<rparr>)
     else if word_slot (Suc r mod n) = word_slot w then Some (Inl EINVAL, q)
     else if pl_hash (?sl (Suc r mod n)) \<noteq> hs then Some (Inl EINVAL, q)
     else Some (Inr (), q\<lparr>q_va_queue :=
                put_payload (put_payload (q_va_queue q) (16 * r) ((?sl (Suc r mod n))\<lparr>pl_error := e\<rparr>))
                  (16 * (Suc r mod n)) (?sl r)\<rparr>))"
    by (simp add: update_existing_queue_payload_def h translate_eq_dec dec_enc_idx[OF f s b(1)]
        dec_enc_idx[OF f s b(2)] Let_def unat_slot[OF s b(1)] unat_slot[OF s b'] next_idx[OF s b(1)]
        payload_at_slot[OF l b(1)] payload_at_slot[OF l b'] cong: if_cong split del: if_split)
  show ?thesis
  proof (cases "r = w")
    case True
    then show ?thesis using b by (simp add: unf queue_contents_eq[OF ok] ring_Nil_iff[THEN iffD2])
  next
    case rw: False
    show ?thesis
    proof (cases "Suc r mod n = w")
      case True
      have "ring ?sl n (Suc r mod n) w = []" using True b by (simp add: ring_Nil_iff)
      with True rw show ?thesis
        by (simp add: unf queue_contents_eq[OF ok] ring_Cons[OF b rw] enc_idx_inj[OF f s b])
    next
      case False
      with rw show ?thesis
        by (simp add: unf queue_contents_eq[OF ok] ring_Cons[OF b rw] ring_Cons[OF b' b(2) False]
            enc_idx_inj[OF f s b] enc_idx_inj[OF f s b' b(2)])
    qed
  qed
qed

lemma queue_ok_mem:
  "queue_ok q n r w \<Longrightarrow> length m = 16 * n \<Longrightarrow> queue_ok (q\<lparr>q_va_queue := m\<rparr>) n r w"
  by (auto simp: queue_ok_def factor_ok_def enc_idx_def wr_ptr_get_def
      REQUIRES_IDX_TRANSLATION_def IDX_TRANSLATE_DEFAULT_TO_CUSTOM_def split: option.splits)

lemma update_existing_contents:
  assumes ok: "queue_ok q n r w" and res: "update_existing_queue_payload q hs e = Some (rc, q')"
  shows "queue_ok q' n r w" and
    "(case queue_contents q of
        x # xs \<Rightarrow>
          if pl_hash x = hs then rc = Inr () \<and> queue_contents q' = x\<lparr>pl_error := e\<rparr> # xs
          else (case xs of
              y # ys \<Rightarrow>
                if pl_hash y = hs then rc = Inr () \<and> queue_contents q' = y\<lparr>pl_error := e\<rparr> # x # ys
                else rc = Inl EINVAL \<and> q' = q
            | [] \<Rightarrow> rc = Inl EINVAL \<and> q' = q)
      | [] \<Rightarrow> rc = Inl EINVAL \<and> q' = q)"
proof -
  have l: "length (q_va_queue q) = 16 * n" and b: "r < n" "w < n"
    using ok by (auto elim: queue_okE)
  let ?m = "q_va_queue q" and ?s = "Suc r mod n"
  have b': "?s < n" using b by simp
  have "16 * ?s + 16 = 16 * Suc ?s" by simp
  also have "\<dots> \<le> 16 * n" using b' by (intro mult_le_mono2) simp
  finally have room: "16 * r + 16 \<le> length ?m" "16 * ?s + 16 \<le> length ?m" using l b by simp_all
  have ok1: "queue_ok (q\<lparr>q_va_queue := put_payload ?m (16 * r) p\<rparr>) n r w" for p
    using ok l room by (intro queue_ok_mem) simp_all
  have ok2: "queue_ok (q\<lparr>q_va_queue := put_payload (put_payload ?m (16 * r) p) (16 * ?s) p'\<rparr>) n r w" for p p'
    using ok l room by (intro queue_ok_mem) simp_all
  show "queue_ok q' n r w"
    using res ok ok1 ok2 by (auto simp: update_existing_ok[OF ok] split: list.splits if_splits)
  have rw: "r \<noteq> w" if "queue_contents q = x # xs" for x xs
    using that b ring_Nil_iff[OF b] by (metis list.distinct(1) queue_contents_eq[OF ok])
  let ?S = "ring (\<lambda>k. k) n"
  have sl: "queue_contents q = map (slot ?m) (?S r w)"
    by (simp add: queue_contents_eq[OF ok] ring_map[of "slot ?m"])
  have S: "distinct (?S r w)" "\<And>k. k \<in> set (?S r w) \<Longrightarrow> k < n"
    using ring_distinct[OF b] ring_slots[OF b] by auto
  have c1: "queue_contents (q\<lparr>q_va_queue := put_payload ?m (16 * r) p\<rparr>) = p # xs"
    if "queue_contents q = x # xs" for x xs p
  proof -
    have h: "?S r w = r # ?S ?s w" by (rule ring_Cons[OF b rw[OF that]])
    then have "map (slot (put_payload ?m (16 * r) p)) (?S ?s w) = map (slot ?m) (?S ?s w)"
      using S by (auto simp: slot_put[OF l b(1)])
    with that h show ?thesis
      by (simp add: queue_contents_eq[OF ok1] ring_map[of "slot _"] sl slot_put[OF l b(1) b(1)])
  qed
  have c2: "queue_contents (q\<lparr>q_va_queue := put_payload (put_payload ?m (16 * r) p) (16 * ?s) p'\<rparr>) = p # p' # ys"
    if "queue_contents q = x # y # ys" for x y ys p p'
  proof -
    obtain s where s: "s = ?s" by simp
    have h: "?S r w = r # ?S s w" unfolding s by (rule ring_Cons[OF b rw[OF that]])
    have sn: "s < n" using b' s by simp
    have "s \<noteq> w" using that h sl ring_Nil_iff[OF sn b(2), of "\<lambda>k. k"] by auto
    then obtain T where h2: "?S s w = s # T" using ring_Cons[OF sn b(2)] by blast
    have T: "k < n" "k \<noteq> r" "k \<noteq> s" if "k \<in> set T" for k
      using S that unfolding h h2 by auto
    have rs: "r \<noteq> s" using S(1) unfolding h h2 by auto
    have l': "length (put_payload ?m (16 * r) p) = 16 * n" using l room by simp
    let ?m' = "put_payload (put_payload ?m (16 * r) p) (16 * s) p'"
    have sl': "slot ?m' k = (if k = s then p' else if k = r then p else slot ?m k)" if "k < n" for k
      using slot_put[OF l' sn that] slot_put[OF l b(1) that] by simp
    have "map (slot ?m') T = map (slot ?m) T"
      using T sl' by (intro map_cong) simp_all
    then have "map (slot ?m') (?S r w) = p # p' # map (slot ?m) T"
      using sl' b sn rs by (simp add: h h2)
    moreover have "queue_contents (q\<lparr>q_va_queue := ?m'\<rparr>) = map (slot ?m') (?S r w)"
      using queue_contents_eq[OF ok2[of p p', folded s]] by (simp add: ring_map[of "slot ?m'"])
    moreover have "map (slot ?m) T = ys" using that by (simp add: sl h h2)
    ultimately show ?thesis by (simp only: s)
  qed
  show "case queue_contents q of
        x # xs \<Rightarrow>
          if pl_hash x = hs then rc = Inr () \<and> queue_contents q' = x\<lparr>pl_error := e\<rparr> # xs
          else (case xs of
              y # ys \<Rightarrow>
                if pl_hash y = hs then rc = Inr () \<and> queue_contents q' = y\<lparr>pl_error := e\<rparr> # x # ys
                else rc = Inl EINVAL \<and> q' = q
            | [] \<Rightarrow> rc = Inl EINVAL \<and> q' = q)
      | [] \<Rightarrow> rc = Inl EINVAL \<and> q' = q"
    using res c1 c2 by (auto simp: update_existing_ok[OF ok] split: list.splits if_splits)
qed


section \<open>The queue contract\<close>

text \<open>The message of a payload: what the caller of \<open>hw_fence_update_queue\<close> supplied, with the
  time stamp.\<close>

type_synonym queue_msg = "u64 \<times> u64 \<times> u64 \<times> u64 \<times> u64 \<times> u32 \<times> u64"

definition payload_msg :: "msm_hw_fence_queue_payload \<Rightarrow> queue_msg" where
  "payload_msg p = (pl_ctxt_id p, pl_seqno p, pl_hash p, pl_flags p, pl_client_data p, pl_error p,
     mk64 (pl_timestamp_lo p) (pl_timestamp_hi p))"

definition queue_enq :: "queue_msg \<Rightarrow> msm_hw_fence_queue \<Rightarrow> msm_hw_fence_queue option" where
  "queue_enq x q = (case x of (c, s, h, f, cd, e, t) \<Rightarrow>
     (case update_queue_locked q c s h f cd e t of Some (Inr _, q') \<Rightarrow> Some q' | _ \<Rightarrow> None))"

definition zero_payload :: msm_hw_fence_queue_payload where
  "zero_payload = payload_of_words (replicate 16 0)"

definition queue_deq ::
    "msm_hw_fence_queue \<Rightarrow> (msm_hw_fence_queue_payload \<times> msm_hw_fence_queue) option" where
  "queue_deq q = (case hw_fence_read_queue_helper q (Some zero_payload) of
     Some (Inr _, Some p, q') \<Rightarrow> Some (p, q') | _ \<Rightarrow> None)"

definition fifo_wf :: "msm_hw_fence_queue \<Rightarrow> bool" where
  "fifo_wf q \<longleftrightarrow> queue_wf q \<and> \<not> q_skip_wr_idx q"

definition queue_cap :: "msm_hw_fence_queue \<Rightarrow> nat" where
  "queue_cap q = q_entries q - 1"

lemma payload_msg_new [simp]:
  "payload_msg (new_payload c s h f cd e t rsv) = (c, s, h, f, cd, e, t)"
  by (simp add: payload_msg_def new_payload_def)

interpretation hwq: bounded_fifo fifo_wf queue_contents queue_cap queue_enq queue_deq payload_msg
proof
  fix q :: msm_hw_fence_queue and x :: queue_msg assume wf: "fifo_wf q" and sp: "length (queue_contents q) < queue_cap q"
  then obtain n r w where ok: "queue_ok q n r w" and n: "q_entries q = n"
    by (auto simp: fifo_wf_def elim: queue_wfE)
  obtain c s h f cd e t where x: "x = (c, s, h, f, cd, e, t)" by (metis surj_pair)
  have "Suc (length (queue_contents q)) < n" using sp n by (simp add: queue_cap_def)
  with update_queue_locked_space[OF ok] obtain q' where
    "update_queue_locked q c s h f cd e t = Some (Inr (), q')" and ok': "queue_ok q' n r (Suc w mod n)"
    and "queue_contents q' = queue_contents q @ [new_payload c s h f cd e t (q_va_queue q ! (16 * w + 15))]"
    and "q_skip_wr_idx q' = q_skip_wr_idx q"
    by metis
  with wf n show "\<exists>q' y. queue_enq x q = Some q' \<and> fifo_wf q' \<and> queue_cap q' = queue_cap q \<and>
      queue_contents q' = queue_contents q @ [y] \<and> payload_msg y = x"
    by (auto simp: queue_enq_def x fifo_wf_def queue_cap_def queue_okD(1)[OF ok'] intro: queue_wfI)
next
  fix q :: msm_hw_fence_queue and x :: queue_msg assume wf: "fifo_wf q" and full: "queue_cap q \<le> length (queue_contents q)"
  then obtain n r w where ok: "queue_ok q n r w" and n: "q_entries q = n"
    by (auto simp: fifo_wf_def elim: queue_wfE)
  have "\<not> Suc (length (queue_contents q)) < n" using full n by (simp add: queue_cap_def)
  then show "queue_enq x q = None"
    by (simp add: queue_enq_def update_queue_locked_full[OF ok] split: prod.splits)
next
  fix q y ys assume wf: "fifo_wf q" and cs: "queue_contents q = y # ys"
  then obtain n r w where ok: "queue_ok q n r w" and n: "q_entries q = n"
    by (auto simp: fifo_wf_def elim: queue_wfE)
  have "\<not> q_skip_wr_idx q" using wf by (simp add: fifo_wf_def)
  with read_queue_Cons[OF ok _ cs, of zero_payload] obtain q' rc where
    "hw_fence_read_queue_helper q (Some zero_payload) = Some (Inr rc, Some y, q')"
    and ok': "queue_ok q' n (Suc r mod n) w" and "queue_contents q' = ys" and "\<not> q_skip_wr_idx q'"
    by metis
  with n show "\<exists>q'. queue_deq q = Some (y, q') \<and> fifo_wf q' \<and> queue_cap q' = queue_cap q \<and> queue_contents q' = ys"
    by (auto simp: queue_deq_def fifo_wf_def queue_cap_def queue_okD(1)[OF ok'] intro: queue_wfI)
next
  fix q assume wf: "fifo_wf q" and "queue_contents q = []"
  then obtain n r w where ok: "queue_ok q n r w"
    by (auto simp: fifo_wf_def elim: queue_wfE)
  with read_queue_empty[OF ok] \<open>queue_contents q = []\<close> wf show "queue_deq q = None"
    by (simp add: queue_deq_def fifo_wf_def)
qed

text \<open>A concrete queue of three payloads, for the witnesses.\<close>

definition demo_queue :: "u32 \<Rightarrow> u32 \<Rightarrow> msm_hw_fence_queue" where
  "demo_queue start factor =
     \<lparr>q_va_queue = replicate 48 0, q_size_bytes = 192,
      q_va_header = Some \<lparr>qh_start_addr = 0, qh_type = 0, qh_queue_size = 192, qh_pkt_size = 64,
        qh_read_index = start, qh_write_index = start, qh_tx_wm = 0\<rparr>,
      q_pa_queue = 0, q_rd_wr_idx_start = start, q_rd_wr_idx_factor = factor, q_skip_wr_idx = False\<rparr>"

lemmas queue_eval_defs = demo_queue_def queue_wf_def queue_ok_def q_entries_def q_rd_def q_wr_def
  dec_idx_def enc_idx_def word_slot_def factor_ok_def wr_ptr_get_def REQUIRES_IDX_TRANSLATION_def
  IDX_TRANSLATE_CUSTOM_TO_DEFAULT_def IDX_TRANSLATE_DEFAULT_TO_CUSTOM_def

lemma demo_queue_wf: "queue_wf (demo_queue 0 1)" "q_entries (demo_queue 0 1) = 3"
  "queue_contents (demo_queue 0 1) = []" "queue_wf (demo_queue 1 16)"
  by (simp_all add: queue_eval_defs queue_contents_def ring_def)

lemma update_queue_locked_spec:
  assumes "queue_wf q"
  shows "\<exists>rc q'. update_queue_locked q c s h f cd e t = Some (rc, q') \<and> queue_wf q' \<and>
    q_entries q' = q_entries q \<and>
    (if Suc (length (queue_contents q)) < q_entries q
     then rc = Inr () \<and> (\<exists>rsv. queue_contents q' = queue_contents q @ [new_payload c s h f cd e t rsv])
     else rc = Inl EINVAL \<and> q' = q)"
proof -
  from assms obtain n r w where ok: "queue_ok q n r w" and n: "q_entries q = n" by (rule queue_wfE)
  show ?thesis
  proof (cases "Suc (length (queue_contents q)) < n")
    case True
    then obtain q' where "update_queue_locked q c s h f cd e t = Some (Inr (), q')"
      and ok': "queue_ok q' n r (Suc w mod n)"
      and "queue_contents q' = queue_contents q @ [new_payload c s h f cd e t (q_va_queue q ! (16 * w + 15))]"
      using update_queue_locked_space[OF ok] by metis
    with True n queue_wfI[OF ok'] queue_okD(1)[OF ok'] show ?thesis by auto
  next
    case False
    with update_queue_locked_full[OF ok False] n assms show ?thesis by auto
  qed
qed

text \<open>C1: on a well-formed ring queue, \<open>hw_fence_update_queue\<close> either appends exactly one
  payload, carrying the caller's fields and the time stamp, after the payloads already
  queued, or refuses with EINVAL and leaves the queue untouched; it refuses exactly when
  only one slot is free. It never writes outside the queue memory, and keeps the queue
  well formed.\<close>

theorem queue_write_correct:
  assumes "queue_wf q"
  shows "\<exists>rc q'. update_queue_locked q c s h f cd e t = Some (rc, q') \<and> queue_wf q' \<and>
    q_entries q' = q_entries q \<and>
    (if Suc (length (queue_contents q)) < q_entries q
     then rc = Inr () \<and> (\<exists>rsv. queue_contents q' = queue_contents q @ [new_payload c s h f cd e t rsv])
     else rc = Inl EINVAL \<and> q' = q)"
  using assms by (rule update_queue_locked_spec)

theorem queue_write_correct_witness:
  "queue_wf (demo_queue 0 1) \<and>
   (\<exists>q' rsv. update_queue_locked (demo_queue 0 1) 7 1 5 0 0 0 9 = Some (Inr (), q') \<and>
      queue_contents q' = [new_payload 7 1 5 0 0 0 9 rsv])"
  using queue_write_correct[OF demo_queue_wf(1), of 7 1 5 0 0 0 9] demo_queue_wf by auto

text \<open>C20: on a well-formed queue whose write index the driver maintains,
  \<open>hw_fence_read_queue_helper\<close> returns the oldest payload and removes exactly it, or EINVAL
  without effect when the queue is empty; it never reads outside the queue memory.\<close>

theorem queue_read_correct:
  assumes "queue_wf q" and "\<not> q_skip_wr_idx q"
  shows "\<exists>rc buf' q'. hw_fence_read_queue_helper q (Some buf) = Some (rc, Some buf', q') \<and>
    queue_wf q' \<and> q_entries q' = q_entries q \<and>
    (case queue_contents q of
       [] \<Rightarrow> rc = Inl EINVAL \<and> buf' = buf \<and> q' = q
     | x # xs \<Rightarrow> (\<exists>m. rc = Inr m) \<and> buf' = x \<and> queue_contents q' = xs)"
proof -
  from assms(1) obtain n r w where ok: "queue_ok q n r w" and n: "q_entries q = n" by (rule queue_wfE)
  show ?thesis
  proof (cases "queue_contents q")
    case Nil
    with read_queue_empty[OF ok assms(2) Nil] assms show ?thesis by auto
  next
    case (Cons x xs)
    then obtain q' rc where "hw_fence_read_queue_helper q (Some buf) = Some (Inr rc, Some x, q')"
      and ok': "queue_ok q' n (Suc r mod n) w" and "queue_contents q' = xs"
      using read_queue_Cons[OF ok assms(2) Cons, of buf] by metis
    with Cons n queue_wfI[OF ok'] queue_okD(1)[OF ok'] show ?thesis by auto
  qed
qed

theorem queue_read_correct_witness:
  "queue_wf (demo_queue 0 1) \<and> \<not> q_skip_wr_idx (demo_queue 0 1) \<and>
   hw_fence_read_queue_helper (demo_queue 0 1) (Some zero_payload) =
     Some (Inl EINVAL, Some zero_payload, demo_queue 0 1)"
  using queue_read_correct[OF demo_queue_wf(1), of zero_payload] demo_queue_wf
  by (auto simp: demo_queue_def)

text \<open>first in, first out. From any well-formed queue, writing a batch that fits in the
  remaining capacity (one slot always stays free) and reading everything back returns the
  payloads that were queued before, then the batch, each in order and unchanged.\<close>

theorem queue_fifo:
  assumes "queue_wf q" and "\<not> q_skip_wr_idx q"
    and "length (queue_contents q) + length xs \<le> q_entries q - 1"
  shows "\<exists>q' ys q''. push_all queue_enq xs q = Some q' \<and>
    pop_n queue_deq (length (queue_contents q) + length xs) q' = Some (queue_contents q @ ys, q'') \<and>
    map payload_msg ys = xs \<and> queue_contents q'' = []"
  using hwq.fifo_order[of q xs] assms by (auto simp: fifo_wf_def queue_cap_def)

theorem queue_fifo_witness:
  "queue_wf (demo_queue 0 1) \<and>
   (\<exists>q' ys q''. push_all queue_enq [(7, 1, 5, 0, 0, 0, 9), (7, 2, 6, 0, 0, 3, 10)] (demo_queue 0 1) = Some q' \<and>
      pop_n queue_deq 2 q' = Some (ys, q'') \<and>
      map payload_msg ys = [(7, 1, 5, 0, 0, 0, 9), (7, 2, 6, 0, 0, 3, 10)])"
proof -
  have "\<not> q_skip_wr_idx (demo_queue 0 1)" by (simp add: demo_queue_def)
  from queue_fifo[OF demo_queue_wf(1) this, of "[(7, 1, 5, 0, 0, 0, 9), (7, 2, 6, 0, 0, 3, 10)]"]
  show ?thesis using demo_queue_wf by (auto simp: numeral_2_eq_2)
qed

lemma read_more_spec:
  assumes "queue_wf q" and "\<not> q_skip_wr_idx q" and "\<not> REQUIRES_IDX_TRANSLATION q"
    and "hw_fence_read_queue_helper q (Some buf) = Some (Inr m, buf', q')"
  shows "m = (if queue_contents q' = [] then 0 else 1)"
proof -
  from assms(1) obtain n r w where ok: "queue_ok q n r w" by (rule queue_wfE)
  have b: "r < n" "w < n" and s: "unat (q_size_bytes q) = 64 * n" and f: "factor_ok q"
    using ok by (auto elim: queue_okE)
  have b': "Suc r mod n < n" using b by simp
  show ?thesis
  proof (cases "queue_contents q")
    case Nil
    with read_queue_empty[OF ok assms(2) Nil] assms(4) show ?thesis by auto
  next
    case (Cons x xs)
    then obtain q1 rc where q1: "hw_fence_read_queue_helper q (Some buf) = Some (Inr rc, Some x, q1)"
      and ok': "queue_ok q1 n (Suc r mod n) w"
      and rc: "rc = (if enc_idx q (Suc r mod n) = word_slot w then 0 else 1)"
      using read_queue_Cons[OF ok assms(2) Cons, of buf] by metis
    have "queue_contents q1 = [] \<longleftrightarrow> Suc r mod n = w"
      using b' b by (simp add: queue_contents_eq[OF ok'] ring_Nil_iff)
    moreover have "enc_idx q (Suc r mod n) = word_slot w \<longleftrightarrow> Suc r mod n = w"
      using assms(3) enc_idx_inj[OF f s b' b(2)] by (simp add: enc_idx_def)
    ultimately show ?thesis using q1 rc assms(4) by simp
  qed
qed

definition plain_demo :: msm_hw_fence_queue where
  "plain_demo = (demo_queue 0 1)\<lparr>q_va_header :=
     map_option (\<lambda>h. h\<lparr>qh_write_index := 16\<rparr>) (q_va_header (demo_queue 0 1))\<rparr>"

text \<open>A translated queue (indices counted in payloads from 1) holding one payload.\<close>

definition translated_demo :: msm_hw_fence_queue where
  "translated_demo = (demo_queue 1 16)\<lparr>q_va_header :=
     map_option (\<lambda>h. h\<lparr>qh_write_index := 2\<rparr>) (q_va_header (demo_queue 1 16))\<rparr>"

text \<open>for queues with translated indices the return code is unreliable: the code compares the
  new read index in client units with the write index in words. Here the only payload is
  read, the queue is then empty, and the code still reports that there is more.\<close>

theorem read_more_flag_translated:
  "queue_wf translated_demo \<and> length (queue_contents translated_demo) = 1 \<and>
   (\<exists>p q'. hw_fence_read_queue_helper translated_demo (Some zero_payload) = Some (Inr 1, Some p, q') \<and>
      queue_contents q' = [])"
  by (auto simp: translated_demo_def queue_eval_defs queue_contents_def ring_def
      hw_fence_read_queue_helper_def translate_queue_indexes_custom_to_default_def payload_at_def Let_def)


text \<open>reporting an error on a queued fence (\<open>hw_fence_update_existing_txq_payload\<close>) touches at
  most the two oldest payloads: if the oldest has the hash its error field is set; if the
  second has it, the second becomes the oldest with the error set and the old first follows
  it; otherwise EINVAL and no change. No payload is lost, duplicated or otherwise altered.\<close>

theorem txq_error_update_correct:
  assumes "queue_wf q"
  shows "\<exists>rc q'. update_existing_queue_payload q hs e = Some (rc, q') \<and> queue_wf q' \<and>
    (case queue_contents q of
        x # xs \<Rightarrow>
          if pl_hash x = hs then rc = Inr () \<and> queue_contents q' = x\<lparr>pl_error := e\<rparr> # xs
          else (case xs of
              y # ys \<Rightarrow>
                if pl_hash y = hs then rc = Inr () \<and> queue_contents q' = y\<lparr>pl_error := e\<rparr> # x # ys
                else rc = Inl EINVAL \<and> q' = q
            | [] \<Rightarrow> rc = Inl EINVAL \<and> q' = q)
      | [] \<Rightarrow> rc = Inl EINVAL \<and> q' = q)"
proof -
  from assms obtain n r w where ok: "queue_ok q n r w" by (rule queue_wfE)
  have "update_existing_queue_payload q hs e \<noteq> None"
    by (simp add: update_existing_ok[OF ok] split: list.splits)
  then obtain rc q' where res: "update_existing_queue_payload q hs e = Some (rc, q')" by auto
  show ?thesis
    using update_existing_contents[OF ok res] res queue_wfI by blast
qed

theorem txq_error_update_correct_witness:
  "queue_wf plain_demo \<and>
   (\<exists>q'. update_existing_queue_payload plain_demo 0 9 = Some (Inr (), q') \<and>
      map pl_error (queue_contents q') = [9])"
proof -
  have wf: "queue_wf plain_demo" by (simp add: plain_demo_def queue_eval_defs)
  have c: "queue_contents plain_demo = [zero_payload]"
    by (simp add: plain_demo_def queue_eval_defs queue_contents_def ring_def slot_def read_run_def
        zero_payload_def)
  have "pl_hash zero_payload = 0"
    by (simp add: zero_payload_def payload_of_words_def mk64_def)
  with txq_error_update_correct[OF wf, of 0 9] wf show ?thesis by (auto simp: c)
qed

section \<open>Client-level facts\<close>

lemma client_lock_free:
  "i < length (client_lock_tbl d) \<Longrightarrow> lo32 (client_lock_tbl d ! i) = 0 \<Longrightarrow>
   client_lock i d = Some (d\<lparr>client_lock_tbl := (client_lock_tbl d)[i := mk64 1 (hi32 (client_lock_tbl d ! i))]\<rparr>)"
  by (simp add: client_lock_def)

lemma client_unlock_restores:
  assumes "i < length tbl" and "lo32 (tbl ! i) = 0"
    and "client_lock_tbl d = tbl[i := mk64 1 (hi32 (tbl ! i))]"
  shows "client_unlock i d = Some (d\<lparr>client_lock_tbl := tbl\<rparr>)"
  using assms by (simp add: client_unlock_def Let_def)

lemma set_queue_simps [simp]:
  "client_lock_tbl (set_queue cid i q d) = client_lock_tbl d"
  "hw_fences_tbl (set_queue cid i q d) = hw_fences_tbl d"
  "length (clients (set_queue cid i q d)) = length (clients d)"
  by (simp_all add: set_queue_def set_client_def split: option.splits)

lemma get_client_set_queue:
  assumes "get_client d cid = Some c"
  shows "get_client (set_queue cid i q d) k =
    (if k = cid then Some (c\<lparr>cl_queues := (cl_queues c)[i := q]\<rparr>) else get_client d k)"
proof -
  have "cid < length (clients d)" using assms get_client_Some_iff by blast
  with assms show ?thesis by (simp add: set_queue_def)
qed

lemma set_queue_upd:
  "set_queue cid i q (d\<lparr>client_lock_tbl := t\<rparr>) = (set_queue cid i q d)\<lparr>client_lock_tbl := t\<rparr>"
  "set_queue cid i q (d\<lparr>qtime_reads := m\<rparr>) = (set_queue cid i q d)\<lparr>qtime_reads := m\<rparr>"
  by (simp_all add: set_queue_def set_client_def get_client_def split: option.splits)

lemma hw_fence_update_queue_eq:
  assumes c: "get_client d cid = Some c" and qt: "0 \<le> qt" "qt < cl_queues_num c"
    and i: "nat qt < length (cl_queues c)" and q: "cl_queues c ! nat qt = q" and hd: "q_va_header q \<noteq> None"
    and fr: "locks_free d" and len: "unat (client_lock_tbl_cnt d) \<le> length (client_lock_tbl d)"
    and res: "update_queue_locked q cx sq hs fl cd er (qtimer d (qtime_reads d)) = Some (rc, q')"
  shows "hw_fence_update_queue d cid cx sq hs fl cd er qt =
    Some (if qt = 1 \<and> cl_client_id c - 1 \<ge> client_lock_tbl_cnt d then (Inl EINVAL, d)
          else (rc, case rc of Inl _ \<Rightarrow> d
                  | Inr _ \<Rightarrow> (set_queue cid (nat qt) q' d)\<lparr>qtime_reads := Suc (qtime_reads d)\<rparr>))"
proof (cases "qt = 1")
  case False
  from hd obtain h where "q_va_header q = Some h" by auto
  with False show ?thesis
    using c qt i q res by (auto simp: hw_fence_update_queue_def lock_client_queue_def HW_FENCE_RX_QUEUE_def
        hw_fence_get_qtime_def Let_def set_queue_upd split: sum.splits)
next
  case True
  from hd obtain h where h: "q_va_header q = Some h" by auto
  let ?l = "cl_client_id c - 1"
  show ?thesis
  proof (cases "?l \<ge> client_lock_tbl_cnt d")
    case True
    with \<open>qt = 1\<close> h show ?thesis
      using c qt i q by (simp add: hw_fence_update_queue_def lock_client_queue_def HW_FENCE_RX_QUEUE_def)
  next
    case False
    then have l: "unat ?l < length (client_lock_tbl d)"
      using len by (simp add: word_le_nat_alt)
    note lk = client_lock_free[OF l locks_free_clientD[OF fr l]]
    note ul = client_unlock_restores[OF l locks_free_clientD[OF fr l]]
    show ?thesis
      using False True h c qt i q res l lk
      by (auto simp: hw_fence_update_queue_def lock_client_queue_def HW_FENCE_RX_QUEUE_def
          hw_fence_get_qtime_def Let_def set_queue_upd ul split: sum.splits)
  qed
qed


text \<open>A driver state with one client that has a TX and an RX queue.\<close>

definition demo_client :: msm_hw_fence_client where
  "demo_client = \<lparr>cl_client_id = 1, cl_client_id_ext = 1,
     cl_mem_descriptor = \<lparr>ma_virtual_addr = 0, ma_device_addr = 0, ma_size = 0\<rparr>,
     cl_queues = [demo_queue 0 1, demo_queue 0 1], cl_queues_num = 2,
     cl_fence_error_cb = None, cl_fence_error_cb_userdata = None, cl_error_cb_lock = False,
     cl_ipc_signal_id = 0, cl_ipc_client_vid = 9, cl_ipc_client_pid = 4,
     cl_update_rxq = True, cl_send_ipc = True, cl_val_signal = 0\<rparr>"

definition demo_driver :: "msm_hw_fence list \<Rightarrow> hw_fence_driver_data" where
  "demo_driver tbl =
     \<lparr>resources_ready = True, hw_fence_table_entries = of_nat (length tbl),
      hw_fence_mem_fences_table_size = 0,
      hw_fence_queue_entries = 3, hw_fence_ctrl_queue_size = 72, hw_fence_mem_ctrl_queues_size = 0,
      hw_fence_client_queue_size = [], hw_fence_client_types = [], rxq_clients_num = 2,
      clients_num = 3, hw_fences_tbl = tbl, hw_fences_tbl_cnt = of_nat (length tbl), total_events = 0,
      client_lock_tbl = [0, 0], client_lock_tbl_cnt = 2, ctrl_queues = [], io_mem_base = 0,
      res_start = 0, carveout_size = 0, used_mem_size = 0, lock_wake_cnt = 0, ipcc_io_mem = 0,
      protocol_id = 2, ipcc_client_vid = 8, ipcc_client_pid = 8, ipc_clients_table = [],
      clients = [None, Some demo_client, None], vm_ready = True, ipcc_dpu_initialized = False,
      qtimer = of_nat, qtime_reads = 0, ipcc_writes = [], error_cb_calls = []\<rparr>"

lemma demo_driver_client [simp]: "get_client (demo_driver tbl) 1 = Some demo_client"
  by (simp add: get_client_def demo_driver_def)

lemma demo_driver_locks: "list_all fence_free tbl \<Longrightarrow> locks_free (demo_driver tbl)"
  by (simp add: locks_free_def demo_driver_def lo32_def)

text \<open>\<open>hw_fence_update_queue\<close> on a registered client, seen from the driver: it always returns,
  gives back the client lock it takes for an RX queue, changes no other client, no table
  entry and no lock, and on success the addressed queue gains exactly the caller's message
  with the time stamp read from the counter. On an error nothing changes at all.\<close>

theorem update_queue_client_correct:
  assumes c: "get_client d cid = Some c" and qt: "0 \<le> qt" "qt < cl_queues_num c"
    and i: "nat qt < length (cl_queues c)" and wf: "queue_wf (cl_queues c ! nat qt)"
    and fr: "locks_free d" and len: "unat (client_lock_tbl_cnt d) \<le> length (client_lock_tbl d)"
  shows "\<exists>rc d'. hw_fence_update_queue d cid cx sq hs fl cd er qt = Some (rc, d') \<and>
    client_lock_tbl d' = client_lock_tbl d \<and> hw_fences_tbl d' = hw_fences_tbl d \<and>
    (\<forall>k. k \<noteq> cid \<longrightarrow> get_client d' k = get_client d k) \<and>
    rc = (if qt = int HW_FENCE_RX_QUEUE - 1 \<and> client_lock_tbl_cnt d \<le> cl_client_id c - 1 \<or>
             q_entries (cl_queues c ! nat qt) \<le> Suc (length (queue_contents (cl_queues c ! nat qt)))
          then Inl EINVAL else Inr ()) \<and>
    (case rc of
       Inl _ \<Rightarrow> d' = d
     | Inr _ \<Rightarrow> (\<exists>q' rsv. get_client d' cid = Some (c\<lparr>cl_queues := (cl_queues c)[nat qt := q']\<rparr>) \<and>
         queue_wf q' \<and> queue_contents q' = queue_contents (cl_queues c ! nat qt) @
           [new_payload cx sq hs fl cd er (qtimer d (qtime_reads d)) rsv]))"
proof -
  let ?q = "cl_queues c ! nat qt"
  from update_queue_locked_spec[OF wf, of cx sq hs fl cd er "qtimer d (qtime_reads d)"]
  obtain rc q' where res: "update_queue_locked ?q cx sq hs fl cd er (qtimer d (qtime_reads d)) = Some (rc, q')"
    and wf': "queue_wf q'" and rc: "if Suc (length (queue_contents ?q)) < q_entries ?q
     then rc = Inr () \<and> (\<exists>rsv. queue_contents q' = queue_contents ?q @
        [new_payload cx sq hs fl cd er (qtimer d (qtime_reads d)) rsv])
     else rc = Inl EINVAL \<and> q' = ?q" by blast
  have hd: "q_va_header ?q \<noteq> None"
    using wf by (auto simp: queue_wf_def queue_ok_def split: option.splits)
  have gc: "get_client (d'\<lparr>qtime_reads := m\<rparr>) k = get_client d' k" for d' m k
    by (simp add: get_client_def)
  show ?thesis
    using hw_fence_update_queue_eq[OF c qt i refl hd fr len res] rc wf'
    by (auto simp: gc get_client_set_queue[OF c] HW_FENCE_RX_QUEUE_def split: if_splits)
qed

theorem update_queue_client_correct_witness:
  "\<exists>d' q' rsv. hw_fence_update_queue (demo_driver []) 1 7 1 5 0 0 0 1 = Some (Inr (), d') \<and>
     get_client d' 1 = Some (demo_client\<lparr>cl_queues := (cl_queues demo_client)[1 := q']\<rparr>) \<and>
     queue_contents q' = [new_payload 7 1 5 0 0 0 0 rsv]"
proof -
  have d: "nat 1 < length (cl_queues demo_client)" "cl_queues demo_client ! nat 1 = demo_queue 0 1"
    "cl_queues_num demo_client = 2"
    by (simp_all add: demo_client_def)
  have wf: "queue_wf (cl_queues demo_client ! nat 1)" using demo_queue_wf d by simp
  have len: "unat (client_lock_tbl_cnt (demo_driver [])) \<le> length (client_lock_tbl (demo_driver []))"
    by (simp add: demo_driver_def)
  have "\<not> client_lock_tbl_cnt (demo_driver []) \<le> cl_client_id demo_client - 1"
    by (simp add: demo_driver_def demo_client_def)
  moreover have "qtimer (demo_driver []) (qtime_reads (demo_driver [])) = 0"
    by (simp add: demo_driver_def)
  ultimately show ?thesis
    using update_queue_client_correct[OF demo_driver_client _ _ d(1) wf demo_driver_locks len, of 7 1 5 0 0 0]
      d demo_queue_wf by auto
qed

lemma reset_tx_ok:
  assumes ok: "queue_ok q n r w" and sk: "\<not> q_skip_wr_idx q"
  obtains q' where "reset_tx_queue q = Some q'" "queue_ok q' n w w" "q_skip_wr_idx q' = q_skip_wr_idx q"
proof -
  obtain h where h: "q_va_header q = Some h" "qh_read_index h = enc_idx q r"
    "wr_ptr_get q h = enc_idx q w" and l: "length (q_va_queue q) = 16 * n" and b: "r < n" "w < n"
    using ok by (rule queue_okE)
  have wi: "qh_write_index h = enc_idx q w" using h(3) sk by (simp add: wr_ptr_get_def)
  have "queue_ok (q\<lparr>q_va_queue := q_va_queue q, q_va_header := Some (h\<lparr>qh_read_index := enc_idx q w\<rparr>)\<rparr>) n w w"
    using b sk wi l by (intro queue_ok_cong[OF ok]) (simp_all add: wr_ptr_get_def)
  then show ?thesis
    using that[of "q\<lparr>q_va_header := Some (h\<lparr>qh_read_index := enc_idx q w\<rparr>)\<rparr>"] h sk wi
    by (simp add: reset_tx_queue_def Let_def)
qed

lemma reset_rx_ok:
  assumes ok: "queue_ok q n r w" and sk: "\<not> q_skip_wr_idx q"
  obtains q' where "reset_rx_queue q = Some q'" "queue_ok q' n r r"
proof -
  obtain h where h: "q_va_header q = Some h" "qh_read_index h = enc_idx q r"
    "wr_ptr_get q h = enc_idx q w" and l: "length (q_va_queue q) = 16 * n" and b: "r < n" "w < n"
    using ok by (rule queue_okE)
  have "queue_ok (q\<lparr>q_va_queue := q_va_queue q, q_va_header := Some (h\<lparr>qh_write_index := enc_idx q r\<rparr>)\<rparr>) n r r"
    using b sk h l by (intro queue_ok_cong[OF ok]) (simp_all add: wr_ptr_get_def)
  then show ?thesis
    using that[of "q\<lparr>q_va_header := Some (h\<lparr>qh_write_index := enc_idx q r\<rparr>)\<rparr>"] h
    by (simp add: reset_rx_queue_def)
qed

lemma queue_contents_reset: "queue_ok q n k k \<Longrightarrow> queue_contents q = []"
  using queue_contents_eq[of q n k k] by (auto simp: queue_ok_def ring_Nil_iff)

lemma reset_queues_spec:
  assumes c: "get_client d cid = Some c" and qs: "cl_queues c = [tx, rx]"
    and wf: "fifo_wf tx" "fifo_wf rx" and rxq: "cl_update_rxq c"
    and li: "\<not> client_lock_tbl_cnt d \<le> cl_client_id c - 1"
    and fr: "locks_free d" and len: "unat (client_lock_tbl_cnt d) \<le> length (client_lock_tbl d)"
  shows "\<exists>tx' rx'. hw_fence_utils_reset_queues d cid =
      Some (set_queue cid 1 rx' (set_queue cid 0 tx' d)) \<and>
    queue_wf tx' \<and> queue_wf rx' \<and> queue_contents tx' = [] \<and> queue_contents rx' = []"
proof -
  from wf obtain n r w n' r' w' where ok: "queue_ok tx n r w" "queue_ok rx n' r' w'"
    unfolding fifo_wf_def by (meson queue_wfE)
  obtain tx' where tx: "reset_tx_queue tx = Some tx'" "queue_ok tx' n w w"
    using reset_tx_ok[OF ok(1)] wf by (auto simp: fifo_wf_def)
  obtain rx' where rx: "reset_rx_queue rx = Some rx'" "queue_ok rx' n' r' r'"
    using reset_rx_ok[OF ok(2)] wf by (auto simp: fifo_wf_def)
  have l: "unat (cl_client_id c - 1) < length (client_lock_tbl d)"
    using li len by (simp add: word_le_nat_alt)
  note lk = client_lock_free[of _ "set_queue cid 0 tx' d", simplified, OF l locks_free_clientD[OF fr l]]
  note ul = client_unlock_restores[OF l locks_free_clientD[OF fr l]]
  have "hw_fence_utils_reset_queues d cid = Some (set_queue cid 1 rx' (set_queue cid 0 tx' d))"
    using c qs tx rx rxq li lk
    by (simp add: hw_fence_utils_reset_queues_def HW_FENCE_TX_QUEUE_def HW_FENCE_RX_QUEUE_def Let_def
        set_queue_upd ul)
  then show ?thesis
    using tx rx queue_wfI queue_contents_reset by blast
qed

end
