(* ===== verification/HwFence_Table.thy ===== *)
theory HwFence_Table
  imports HwFence_Queue
begin

text \<open>
  The global fence table (\<^verbatim>\<open>hw_fence_drv_priv.c\<close>: \<open>_calculate_hash\<close> to
  \<open>msm_hw_fence_find\<close>): a hash table with linear probing over the entries, each guarded by
  its own lock, in which fences are created, found and destroyed by their (context, seqno).
  The abstract view is a map from keys to slots; the contract of a keyed table is
  interpreted on the driver's create, find and destroy.
\<close>

section \<open>Hash and entries\<close>

text \<open>\<open>_calculate_hash\<close>: the hash of step 0, one slot further for every later step; EINVAL when
  the whole table was visited. A zero \<open>m_size\<close> divides by zero.\<close>

definition calculate_hash ::
    "u32 \<Rightarrow> u64 \<Rightarrow> u64 \<Rightarrow> u64 \<Rightarrow> u64 \<Rightarrow> (errno + u64) option" where
  "calculate_hash table_total_entries context seqno step hash =
     (let m_size = ucast table_total_entries :: u64 in
      if m_size = 0 then (if step = 0 then None else Some (Inl EINVAL))
      else if step = 0 then
        (let a_multiplier = HW_FENCE_HASH_A_MULT; c_multiplier = HW_FENCE_HASH_C_MULT;
             b_multiplier = context + (context - 1)
         in Some (Inr ((a_multiplier * seqno * b_multiplier + c_multiplier * context) mod m_size)))
      else if step \<ge> m_size then Some (Inl EINVAL)
      else Some (Inr ((hash + 1) mod m_size)))"

definition get_hw_fence :: "u32 \<Rightarrow> u64 \<Rightarrow> nat option" where
  "get_hw_fence table_total_entries hash =
     (if hash \<ge> ucast table_total_entries then None else Some (unat hash))"

definition is_hw_fence_free :: "msm_hw_fence \<Rightarrow> u64 \<Rightarrow> u64 \<Rightarrow> bool" where
  "is_hw_fence_free f context seqno \<longleftrightarrow> hf_valid f = 0"

definition hw_fence_match :: "msm_hw_fence \<Rightarrow> u64 \<Rightarrow> u64 \<Rightarrow> bool" where
  "hw_fence_match f context seqno \<longleftrightarrow> hf_ctx_id f = context \<and> hf_seq_id f = seqno"

definition cleanup_hw_fence :: "msm_hw_fence \<Rightarrow> msm_hw_fence" where
  "cleanup_hw_fence f = f\<lparr>hf_error := 0, hf_ctx_id := 0, hf_seq_id := 0, hf_wait_client_mask := 0,
     hf_fence_allocator := 0, hf_fence_signal_client := 0, hf_flags := 0,
     hf_fence_create_time := 0, hf_fence_trigger_time := 0, hf_fence_wait_time := 0,
     hf_debug_refcount := 0, hf_parents_cnt := 0, hf_pending_child_cnt := 0,
     hf_parent_list := replicate MSM_HW_FENCE_MAX_JOIN_PARENTS HW_FENCE_INVALID_PARENT_FENCE,
     hf_client_data := replicate HW_FENCE_MAX_CLIENTS_WITH_DATA 0\<rparr>"

definition reserve_hw_fence ::
    "hw_fence_driver_data \<Rightarrow> msm_hw_fence \<Rightarrow> u32 \<Rightarrow> u64 \<Rightarrow> u64 \<Rightarrow> u32 \<Rightarrow> msm_hw_fence \<times> hw_fence_driver_data" where
  "reserve_hw_fence d f client_id context seqno pending_child_cnt =
     (let f = cleanup_hw_fence f; (t, d') = hw_fence_get_qtime d
      in (f\<lparr>hf_valid := 1, hf_ctx_id := context, hf_seq_id := seqno, hf_flags := 0,
            hf_fence_allocator := client_id, hf_fence_create_time := t,
            hf_debug_refcount := hf_debug_refcount f + 1\<rparr>, d'))"

definition unreserve_hw_fence ::
    "hw_fence_driver_data \<Rightarrow> msm_hw_fence \<Rightarrow> u32 \<Rightarrow> u64 \<Rightarrow> u64 \<Rightarrow> u32 \<Rightarrow> msm_hw_fence \<times> hw_fence_driver_data" where
  "unreserve_hw_fence d f client_id context seqno pending_child_cnt =
     ((cleanup_hw_fence f)\<lparr>hf_valid := 0\<rparr>, d)"

definition reserve_join_fence ::
    "hw_fence_driver_data \<Rightarrow> msm_hw_fence \<Rightarrow> u32 \<Rightarrow> u64 \<Rightarrow> u64 \<Rightarrow> u32 \<Rightarrow> msm_hw_fence \<times> hw_fence_driver_data" where
  "reserve_join_fence d f client_id context seqno pending_child_cnt =
     (let f = cleanup_hw_fence f; (t, d') = hw_fence_get_qtime d
      in (f\<lparr>hf_valid := 1, hf_ctx_id := context, hf_seq_id := seqno,
            hf_fence_allocator := client_id, hf_fence_create_time := t,
            hf_debug_refcount := hf_debug_refcount f + 1,
            hf_pending_child_cnt := pending_child_cnt\<rparr>, d'))"

definition fence_found ::
    "hw_fence_driver_data \<Rightarrow> msm_hw_fence \<Rightarrow> u32 \<Rightarrow> u64 \<Rightarrow> u64 \<Rightarrow> u32 \<Rightarrow> msm_hw_fence \<times> hw_fence_driver_data" where
  "fence_found d f client_id context seqno pending_child_cnt = (f, d)"

section \<open>Lookup\<close>

text \<open>The two function pointers the operation code selects.\<close>

definition compare_fnc :: "hw_fence_lookup_ops \<Rightarrow> msm_hw_fence \<Rightarrow> u64 \<Rightarrow> u64 \<Rightarrow> bool" where
  "compare_fnc op_code = (case op_code of
     HW_FENCE_LOOKUP_OP_CREATE \<Rightarrow> is_hw_fence_free
   | HW_FENCE_LOOKUP_OP_DESTROY \<Rightarrow> hw_fence_match
   | HW_FENCE_LOOKUP_OP_CREATE_JOIN \<Rightarrow> is_hw_fence_free
   | HW_FENCE_LOOKUP_OP_FIND_FENCE \<Rightarrow> hw_fence_match)"

definition process_fnc ::
    "hw_fence_lookup_ops \<Rightarrow> hw_fence_driver_data \<Rightarrow> msm_hw_fence \<Rightarrow> u32 \<Rightarrow> u64 \<Rightarrow> u64 \<Rightarrow> u32 \<Rightarrow>
     msm_hw_fence \<times> hw_fence_driver_data" where
  "process_fnc op_code = (case op_code of
     HW_FENCE_LOOKUP_OP_CREATE \<Rightarrow> reserve_hw_fence
   | HW_FENCE_LOOKUP_OP_DESTROY \<Rightarrow> unreserve_hw_fence
   | HW_FENCE_LOOKUP_OP_CREATE_JOIN \<Rightarrow> reserve_join_fence
   | HW_FENCE_LOOKUP_OP_FIND_FENCE \<Rightarrow> fence_found)"

definition is_create :: "hw_fence_lookup_ops \<Rightarrow> bool" where
  "is_create op_code \<longleftrightarrow> op_code = HW_FENCE_LOOKUP_OP_CREATE \<or> op_code = HW_FENCE_LOOKUP_OP_CREATE_JOIN"

datatype probe_result = Found | Stop | Continue

text \<open>One iteration of the lookup loop: what it decided, the hash, the state.\<close>

definition lookup_body ::
    "u32 \<Rightarrow> hw_fence_lookup_ops \<Rightarrow> u64 \<Rightarrow> u64 \<Rightarrow> u32 \<Rightarrow> u32 \<Rightarrow> u64 \<Rightarrow> u64 \<Rightarrow> hw_fence_driver_data \<Rightarrow>
     (probe_result \<times> u64 \<times> hw_fence_driver_data) option" where
  "lookup_body entries op_code context seqno client_id pending_child_cnt step hash d = do {
     ret \<leftarrow> calculate_hash entries context seqno step hash;
     (case ret of
        Inl _ \<Rightarrow> Some (Stop, hash, d)
      | Inr hash' \<Rightarrow>
          (case get_hw_fence entries hash' of
             None \<Rightarrow> Some (Stop, hash', d)
           | Some i \<Rightarrow> do {
               d1 \<leftarrow> fence_lock i d;
               f \<leftarrow> idx (hw_fences_tbl d1) i;
               if compare_fnc op_code f context seqno then
                 (let (f', d2) = process_fnc op_code d1 f client_id context seqno pending_child_cnt
                  in do {
                    d3 \<leftarrow> fence_unlock i (set_fence i f' d2);
                    Some (Found, hash', d3) })
               else if is_create op_code \<and> seqno = hf_seq_id f \<and> context = hf_ctx_id f then do {
                 d2 \<leftarrow> fence_unlock i d1;
                 Some (Stop, hash', d2) }
               else do {
                 d2 \<leftarrow> fence_unlock i d1;
                 Some (Continue, hash', d2) } })) }"

lemma unat_step_less:
  assumes "(step :: u64) < ucast (entries :: u32)"
  shows "unat (step + 1) = Suc (unat step)"
proof -
  have "step < - 1"
    using assms by (metis leD linorder_neqE_nat order_less_le_trans word_less_nat_alt word_n1_ge not_less)
  then show ?thesis
    by (metis Suc_eq_plus1 add.commute less_irrefl unatSuc word_neq_0_conv minus_unique add.inverse_inverse)
qed

function lookup_loop ::
    "u32 \<Rightarrow> hw_fence_lookup_ops \<Rightarrow> u64 \<Rightarrow> u64 \<Rightarrow> u32 \<Rightarrow> u32 \<Rightarrow> u64 \<Rightarrow> u64 \<Rightarrow> hw_fence_driver_data \<Rightarrow>
     (nat option \<times> u64 \<times> hw_fence_driver_data) option" where
  "lookup_loop entries op_code context seqno client_id pending_child_cnt step hash d =
     (if step < ucast entries then do {
        (r, hash', d') \<leftarrow> lookup_body entries op_code context seqno client_id pending_child_cnt step hash d;
        (case r of
           Found \<Rightarrow> Some (Some (unat hash'), hash', d')
         | Stop \<Rightarrow> Some (None, hash', d')
         | Continue \<Rightarrow> lookup_loop entries op_code context seqno client_id pending_child_cnt
             (step + 1) hash' d') }
      else Some (None, hash, d))"
  by pat_completeness auto
termination
  by (relation "measure (\<lambda>(entries, _, _, _, _, _, step, _, _). unat (ucast entries :: u64) - unat step)")
     (auto simp: unat_step_less word_less_nat_alt)

declare lookup_loop.simps [simp del]

text \<open>\<open>_hw_fence_lookup_and_process\<close>: the entry found, if any, and the out-parameter \<open>*hash\<close>,
  which starts as all ones.\<close>

definition hw_fence_lookup_and_process ::
    "hw_fence_driver_data \<Rightarrow> u64 \<Rightarrow> u64 \<Rightarrow> u32 \<Rightarrow> u32 \<Rightarrow> hw_fence_lookup_ops \<Rightarrow>
     (nat option \<times> u64 \<times> hw_fence_driver_data) option" where
  "hw_fence_lookup_and_process d context seqno client_id pending_child_cnt op_code =
     lookup_loop (hw_fence_table_entries d) op_code context seqno client_id pending_child_cnt 0 (- 1) d"

section \<open>Create, destroy, find\<close>

definition hw_fence_create ::
    "hw_fence_driver_data \<Rightarrow> u32 \<Rightarrow> u64 \<Rightarrow> u64 \<Rightarrow> ((errno + unit) \<times> u64 \<times> hw_fence_driver_data) option" where
  "hw_fence_create d client_id context seqno = do {
     (r, hash, d') \<leftarrow> hw_fence_lookup_and_process d context seqno client_id 0 HW_FENCE_LOOKUP_OP_CREATE;
     Some (if r = None then Inl EINVAL else Inr (), hash, d') }"

definition hw_fence_cleanup ::
    "hw_fence_driver_data \<Rightarrow> u32 \<Rightarrow> u64 \<Rightarrow> u64 \<Rightarrow> ((errno + unit) \<times> hw_fence_driver_data) option" where
  "hw_fence_cleanup d client_id context seqno = do {
     (r, hash, d') \<leftarrow> hw_fence_lookup_and_process d context seqno client_id 0 HW_FENCE_LOOKUP_OP_DESTROY;
     Some (if r = None then Inl EINVAL else Inr (), d') }"

definition hw_fence_destroy ::
    "hw_fence_driver_data \<Rightarrow> u32 \<Rightarrow> u64 \<Rightarrow> u64 \<Rightarrow> ((errno + unit) \<times> hw_fence_driver_data) option" where
  "hw_fence_destroy d client_id context seqno = do {
     (rc, d') \<leftarrow> hw_fence_cleanup d client_id context seqno;
     Some (case rc of Inl _ \<Rightarrow> Inl EINVAL | Inr _ \<Rightarrow> Inr (), d') }"

definition hw_fence_destroy_with_hash ::
    "hw_fence_driver_data \<Rightarrow> u32 \<Rightarrow> u64 \<Rightarrow> ((errno + unit) \<times> hw_fence_driver_data) option" where
  "hw_fence_destroy_with_hash d client_id hash =
     (case get_hw_fence (hw_fence_table_entries d) hash of
        None \<Rightarrow> Some (Inl EINVAL, d)
      | Some i \<Rightarrow> do {
          f \<leftarrow> idx (hw_fences_tbl d) i;
          if hf_fence_allocator f \<noteq> client_id then Some (Inl EINVAL, d)
          else do {
            (rc, d') \<leftarrow> hw_fence_cleanup d client_id (hf_ctx_id f) (hf_seq_id f);
            Some (case rc of Inl _ \<Rightarrow> Inl EINVAL | Inr _ \<Rightarrow> Inr (), d') } })"

definition msm_hw_fence_find ::
    "hw_fence_driver_data \<Rightarrow> u32 \<Rightarrow> u64 \<Rightarrow> u64 \<Rightarrow> (nat option \<times> u64 \<times> hw_fence_driver_data) option" where
  "msm_hw_fence_find d client_id context seqno =
     hw_fence_lookup_and_process d context seqno client_id 0 HW_FENCE_LOOKUP_OP_FIND_FENCE"


section \<open>What one probe does\<close>

abbreviation table_size :: "hw_fence_driver_data \<Rightarrow> nat" where
  "table_size d \<equiv> unat (hw_fence_table_entries d)"

definition table_wf :: "hw_fence_driver_data \<Rightarrow> bool" where
  "table_wf d \<longleftrightarrow> 0 < table_size d \<and> length (hw_fences_tbl d) = table_size d
      \<and> list_all fence_free (hw_fences_tbl d)"

definition hash0 :: "nat \<Rightarrow> u64 \<Rightarrow> u64 \<Rightarrow> nat" where
  "hash0 n context seqno = unat (HW_FENCE_HASH_A_MULT * seqno * (context + (context - 1))
     + HW_FENCE_HASH_C_MULT * context) mod n"

definition probes :: "nat \<Rightarrow> u64 \<Rightarrow> u64 \<Rightarrow> nat list" where
  "probes n context seqno = map (\<lambda>k. (hash0 n context seqno + k) mod n) [0..<n]"

definition decide :: "hw_fence_lookup_ops \<Rightarrow> u64 \<Rightarrow> u64 \<Rightarrow> msm_hw_fence \<Rightarrow> probe_result" where
  "decide op_code context seqno f =
     (if compare_fnc op_code f context seqno then Found
      else if is_create op_code \<and> hw_fence_match f context seqno then Stop else Continue)"

lemma entries_bound: "unat (n :: u32) < 2 ^ 32"
  using unsigned_less[of n, where ?'a = nat] by simp

lemma unat_entries [simp]: "unat (ucast (n :: u32) :: u64) = unat n"
  using entries_bound[of n] by (simp add: unsigned_ucast_eq take_bit_nat_eq_self_iff)

lemma calculate_hash_step:
  assumes n: "0 < unat entries" and k: "k < unat entries"
    and h: "k = 0 \<or> unat hash = (hash0 (unat entries) context seqno + (k - 1)) mod unat entries"
  shows "\<exists>h'. calculate_hash entries context seqno (of_nat k) hash = Some (Inr h')
    \<and> unat h' = (hash0 (unat entries) context seqno + k) mod unat entries"
proof -
  have nz: "(ucast entries :: u64) \<noteq> 0"
    using n unat_entries[of entries] by (metis unat_0 less_irrefl)
  have ks: "unat (of_nat k :: u64) = k"
    using k entries_bound[of entries] by (simp add: unat_of_nat)
  show ?thesis
  proof (cases "k = 0")
    case True
    with nz show ?thesis by (simp add: calculate_hash_def Let_def unat_mod hash0_def)
  next
    case False
    then have k0: "(of_nat k :: u64) \<noteq> 0" using ks by (metis unat_0)
    have lt: "\<not> (of_nat k :: u64) \<ge> ucast entries"
      using k by (simp add: word_le_nat_alt ks)
    have "unat hash < unat entries" using h False n by simp
    then have hs: "unat (hash + 1) = unat hash + 1"
      using entries_bound[of entries] by (simp add: unat_word_ariths)
    have "unat ((hash + 1) mod ucast entries) = (hash0 (unat entries) context seqno + (k - 1) + 1) mod unat entries"
      using h False by (simp add: unat_mod hs mod_simps)
    with False nz k0 lt show ?thesis by (simp add: calculate_hash_def Let_def)
  qed
qed

text \<open>Processing an entry does not look at the lock word, and keeps it.\<close>

lemma process_fnc_lock:
  "process_fnc op (set_fence i g d) (f\<lparr>hf_lock := l\<rparr>) c cx sq p =
     (let (f', d') = process_fnc op d f c cx sq p in (f'\<lparr>hf_lock := l\<rparr>, set_fence i g d'))"
  by (cases op) (simp_all add: process_fnc_def reserve_hw_fence_def unreserve_hw_fence_def
      reserve_join_fence_def fence_found_def cleanup_hw_fence_def hw_fence_get_qtime_def
      set_fence_def Let_def)

lemma process_fnc_keeps:
  assumes "process_fnc op d f c cx sq p = (f', d')"
  shows "hf_lock f' = hf_lock f" and "hw_fences_tbl d' = hw_fences_tbl d"
  using assms by (cases op; simp add: process_fnc_def reserve_hw_fence_def unreserve_hw_fence_def
      reserve_join_fence_def fence_found_def cleanup_hw_fence_def hw_fence_get_qtime_def Let_def; auto)+

lemma compare_fnc_lock: "compare_fnc op (f\<lparr>hf_lock := l\<rparr>) cx sq = compare_fnc op f cx sq"
  by (cases op) (simp_all add: compare_fnc_def is_hw_fence_free_def hw_fence_match_def)

lemma set_fence_simps [simp]:
  "hw_fences_tbl (set_fence i f d) = (hw_fences_tbl d)[i := f]"
  "set_fence i g (set_fence i f d) = set_fence i g d"
  "hw_fence_table_entries (set_fence i f d) = hw_fence_table_entries d"
  by (simp_all add: set_fence_def)

lemma set_fence_same [simp]: "set_fence i (hw_fences_tbl d ! i) d = d"
  by (simp add: set_fence_def)

lemma table_wfD:
  assumes "table_wf d" and "i < table_size d"
  shows "i < length (hw_fences_tbl d)" and "lo32 (hf_lock (hw_fences_tbl d ! i)) = 0"
  using assms by (auto simp: table_wf_def list_all_length fence_free_def)

lemma fence_lock_ok:
  assumes "table_wf d" and "i < table_size d"
  shows "fence_lock i d = Some (set_fence i ((hw_fences_tbl d ! i)
    \<lparr>hf_lock := mk64 1 (hi32 (hf_lock (hw_fences_tbl d ! i)))\<rparr>) d)"
  using table_wfD[OF assms] by (simp add: fence_lock_def)

lemma fence_unlock_ok:
  assumes "i < length (hw_fences_tbl d)" and "lo32 l = 0"
  shows "fence_unlock i (set_fence i (f\<lparr>hf_lock := mk64 1 (hi32 l)\<rparr>) d) = Some (set_fence i (f\<lparr>hf_lock := l\<rparr>) d)"
  using assms by (simp add: fence_unlock_def Let_def)

lemma lookup_body_eq:
  assumes wf: "table_wf d" and k: "k < table_size d"
    and h: "k = 0 \<or> unat hash = (hash0 (table_size d) cx sq + (k - 1)) mod table_size d"
    and i: "i = (hash0 (table_size d) cx sq + k) mod table_size d"
    and f: "f = hw_fences_tbl d ! i"
  shows "\<exists>h'. unat h' = i \<and> lookup_body (hw_fence_table_entries d) op cx sq c p (of_nat k) hash d =
    Some (decide op cx sq f, h', if decide op cx sq f = Found
      then (let (f', d') = process_fnc op d f c cx sq p in set_fence i f' d') else d)"
proof -
  let ?e = "hw_fence_table_entries d"
  have n: "0 < unat ?e" using k by simp
  obtain h' where h': "calculate_hash ?e cx sq (of_nat k) hash = Some (Inr h')" "unat h' = i"
    using calculate_hash_step[OF n k h] i by blast
  have il: "i < table_size d" using n i by simp
  have il': "i < length (hw_fences_tbl d)" and fr: "lo32 (hf_lock f) = 0"
    using table_wfD[OF wf il] f by simp_all
  have g: "get_hw_fence ?e h' = Some i"
    using il h'(2) by (simp add: get_hw_fence_def word_le_nat_alt)
  define l where "l = mk64 1 (hi32 (hf_lock f))"
  obtain f' d' where p: "process_fnc op d f c cx sq p = (f', d')" by fastforce
  note keep = process_fnc_keeps[OF p]
  have lk: "fence_lock i d = Some (set_fence i (f\<lparr>hf_lock := l\<rparr>) d)"
    using fence_lock_ok[OF wf il] by (simp only: f l_def)
  have u0: "fence_unlock i (set_fence i (f\<lparr>hf_lock := l\<rparr>) d) = Some d"
    using fence_unlock_ok[OF il' fr, of f] f by (simp add: l_def)
  have u1: "fence_unlock i (set_fence i (f'\<lparr>hf_lock := l\<rparr>) d') = Some (set_fence i f' d')"
  proof -
    have "f'\<lparr>hf_lock := hf_lock f\<rparr> = f'" by (simp flip: keep(1))
    moreover have "i < length (hw_fences_tbl d')" using keep(2) il' by simp
    ultimately show ?thesis
      using fence_unlock_ok[of i d' "hf_lock f" f'] fr by (simp only: l_def)
  qed
  have pl: "process_fnc op (set_fence i (f\<lparr>hf_lock := l\<rparr>) d) (f\<lparr>hf_lock := l\<rparr>) c cx sq p
      = (f'\<lparr>hf_lock := l\<rparr>, set_fence i (f\<lparr>hf_lock := l\<rparr>) d')"
    by (simp add: process_fnc_lock p)
  have at: "idx (hw_fences_tbl (set_fence i (f\<lparr>hf_lock := l\<rparr>) d)) i = Some (f\<lparr>hf_lock := l\<rparr>)"
    using il' by simp
  have m: "sq = hf_seq_id (f\<lparr>hf_lock := l\<rparr>) \<and> cx = hf_ctx_id (f\<lparr>hf_lock := l\<rparr>) \<longleftrightarrow> hw_fence_match f cx sq"
    by (auto simp: hw_fence_match_def)
  have "lookup_body ?e op cx sq c p (of_nat k) hash d =
    Some (decide op cx sq f, h', if decide op cx sq f = Found then set_fence i f' d' else d)"
    unfolding lookup_body_def h'(1) Option.bind.bind_lunit sum.case g option.case lk at m compare_fnc_lock pl
      prod.case Let_def
    by (simp add: u0 u1 decide_def)
  then show ?thesis unfolding p prod.case Let_def using h'(2) by blast
qed


section \<open>The whole lookup\<close>

text \<open>The first slot of the probe sequence at which the lookup ends, and what it returns.\<close>

definition lookup_end :: "hw_fence_driver_data \<Rightarrow> hw_fence_lookup_ops \<Rightarrow> u64 \<Rightarrow> u64 \<Rightarrow> nat list \<Rightarrow> nat option" where
  "lookup_end d op cx sq ks =
     (case List.find (\<lambda>i. decide op cx sq (hw_fences_tbl d ! i) \<noteq> Continue) ks of
        None \<Rightarrow> None
      | Some i \<Rightarrow> (if decide op cx sq (hw_fences_tbl d ! i) = Found then Some i else None))"

definition processed ::
    "hw_fence_lookup_ops \<Rightarrow> u32 \<Rightarrow> u64 \<Rightarrow> u64 \<Rightarrow> u32 \<Rightarrow> nat \<Rightarrow> hw_fence_driver_data \<Rightarrow> hw_fence_driver_data" where
  "processed op c cx sq p i d =
     (let (f', d') = process_fnc op d (hw_fences_tbl d ! i) c cx sq p in set_fence i f' d')"

lemma lookup_end_Cons:
  "lookup_end d op cx sq (i # ks) = (case decide op cx sq (hw_fences_tbl d ! i) of
     Found \<Rightarrow> Some i | Stop \<Rightarrow> None | Continue \<Rightarrow> lookup_end d op cx sq ks)"
  by (simp add: lookup_end_def split: probe_result.split)

lemma lookup_loop_eq:
  assumes wf: "table_wf d" and k: "k \<le> table_size d"
    and h: "k = 0 \<or> unat hash = (hash0 (table_size d) cx sq + (k - 1)) mod table_size d"
  shows "\<exists>h'. lookup_loop (hw_fence_table_entries d) op cx sq c p (of_nat k) hash d =
     Some (case lookup_end d op cx sq (drop k (probes (table_size d) cx sq)) of
       None \<Rightarrow> (None, h', d) | Some i \<Rightarrow> (Some i, of_nat i, processed op c cx sq p i d))"
  using k h
proof (induction "table_size d - k" arbitrary: k hash)
  case 0
  then have "k = table_size d" by simp
  then have "\<not> (of_nat k :: u64) < ucast (hw_fence_table_entries d)"
    using entries_bound[of "hw_fence_table_entries d"] by (simp add: word_less_nat_alt unat_of_nat)
  with \<open>k = table_size d\<close> show ?case
    by (simp add: lookup_loop.simps[of _ _ _ _ _ _ _ _ d] probes_def lookup_end_def)
next
  case (Suc m)
  then have kl: "k < table_size d" by simp
  have ks: "unat (of_nat k :: u64) = k" "(of_nat k :: u64) + 1 = of_nat (Suc k)"
    using kl entries_bound[of "hw_fence_table_entries d"] by (simp_all add: unat_of_nat)
  have lt: "(of_nat k :: u64) < ucast (hw_fence_table_entries d)"
    using kl by (simp add: word_less_nat_alt ks)
  define i where "i = (hash0 (table_size d) cx sq + k) mod table_size d"
  have dr: "drop k (probes (table_size d) cx sq) = i # drop (Suc k) (probes (table_size d) cx sq)"
    using kl by (simp add: Cons_nth_drop_Suc[symmetric] probes_def i_def)
  obtain h' where b: "unat h' = i"
    "lookup_body (hw_fence_table_entries d) op cx sq c p (of_nat k) hash d =
      Some (decide op cx sq (hw_fences_tbl d ! i), h',
        if decide op cx sq (hw_fences_tbl d ! i) = Found then processed op c cx sq p i d else d)"
    using lookup_body_eq[OF wf kl Suc.prems(2) i_def refl, of op c p] unfolding processed_def by blast
  have hi: "h' = of_nat i" using b(1) by auto
  have "\<exists>h''. lookup_loop (hw_fence_table_entries d) op cx sq c p (of_nat (Suc k)) h' d =
     Some (case lookup_end d op cx sq (drop (Suc k) (probes (table_size d) cx sq)) of
       None \<Rightarrow> (None, h'', d) | Some i \<Rightarrow> (Some i, of_nat i, processed op c cx sq p i d))"
    by (rule Suc.hyps(1)) (use Suc.hyps(2) kl b(1) i_def in simp_all)
  then show ?case
    unfolding lookup_loop.simps[of _ _ _ _ _ _ "of_nat k" hash d] dr lookup_end_Cons
    using lt b hi ks(2) by (auto simp: add.commute split: probe_result.split)
qed

lemma lookup_eq:
  assumes "table_wf d"
  shows "\<exists>h'. hw_fence_lookup_and_process d cx sq c p op =
     Some (case lookup_end d op cx sq (probes (table_size d) cx sq) of
       None \<Rightarrow> (None, h', d) | Some i \<Rightarrow> (Some i, of_nat i, processed op c cx sq p i d))"
  using lookup_loop_eq[OF assms, of 0 "- 1" cx sq op c p] by (simp add: hw_fence_lookup_and_process_def)

lemma set_probes: "0 < n \<Longrightarrow> set (probes n cx sq) = {..<n}"
proof
  assume n: "0 < n"
  then show "set (probes n cx sq) \<subseteq> {..<n}" by (auto simp: probes_def)
  define h where "h = hash0 n cx sq"
  have h: "h < n" using n by (simp add: h_def hash0_def)
  show "{..<n} \<subseteq> set (probes n cx sq)"
  proof
    fix i assume "i \<in> {..<n}"
    then have i: "i < n" by simp
    let ?k = "if h \<le> i then i - h else i + n - h"
    have "?k < n" "(h + ?k) mod n = i" using i h by (auto simp: slot_mod)
    then show "i \<in> set (probes n cx sq)"
      unfolding probes_def h_def[symmetric] by (metis (lifting) atLeastLessThan_iff image_eqI le0 list.set_map set_upt)
  qed
qed

lemma find_SomeD: "List.find P xs = Some x \<Longrightarrow> P x \<and> x \<in> set xs"
  by (auto simp: find_Some_iff)

lemma lookup_end_SomeD:
  assumes "table_wf d" and "lookup_end d op cx sq (probes (table_size d) cx sq) = Some i"
  shows "i < table_size d" and "compare_fnc op (hw_fences_tbl d ! i) cx sq"
proof -
  from assms(2) have f: "List.find (\<lambda>i. decide op cx sq (hw_fences_tbl d ! i) \<noteq> Continue)
      (probes (table_size d) cx sq) = Some i" and dc: "decide op cx sq (hw_fences_tbl d ! i) = Found"
    by (auto simp: lookup_end_def split: option.splits if_splits)
  from f have "i \<in> set (probes (table_size d) cx sq)" by (auto dest: find_SomeD)
  then show "i < table_size d" using assms(1) set_probes by (auto simp: table_wf_def)
  from dc show "compare_fnc op (hw_fences_tbl d ! i) cx sq"
    by (auto simp: decide_def split: if_splits)
qed

lemma lookup_end_None_iff:
  assumes wf: "table_wf d" and ns: "\<And>i. i < table_size d \<Longrightarrow> decide op cx sq (hw_fences_tbl d ! i) \<noteq> Stop"
  shows "lookup_end d op cx sq (probes (table_size d) cx sq) = None \<longleftrightarrow>
    (\<forall>i < table_size d. \<not> compare_fnc op (hw_fences_tbl d ! i) cx sq)"
proof -
  let ?P = "\<lambda>i. decide op cx sq (hw_fences_tbl d ! i) \<noteq> Continue"
  have st: "set (probes (table_size d) cx sq) = {..<table_size d}"
    using wf set_probes by (simp add: table_wf_def)
  have d: "?P i \<longleftrightarrow> compare_fnc op (hw_fences_tbl d ! i) cx sq"
    "decide op cx sq (hw_fences_tbl d ! i) = Found \<longleftrightarrow> compare_fnc op (hw_fences_tbl d ! i) cx sq"
    if "i < table_size d" for i
    using ns[OF that] by (auto simp: decide_def split: if_splits)
  show ?thesis
  proof (cases "List.find ?P (probes (table_size d) cx sq)")
    case None
    then have "\<forall>i \<in> {..<table_size d}. \<not> ?P i" by (auto simp: find_None_iff st)
    with None d show ?thesis by (simp add: lookup_end_def)
  next
    case (Some i)
    then have "?P i" "i < table_size d" using st by (auto dest: find_SomeD)
    with Some d show ?thesis by (auto simp: lookup_end_def)
  qed
qed

lemma decide_match_not_Stop: "\<not> is_create op \<Longrightarrow> decide op cx sq f \<noteq> Stop"
  by (simp add: decide_def)


section \<open>The table as a map\<close>

type_synonym fence_key = "u64 \<times> u64"

definition fence_key :: "msm_hw_fence \<Rightarrow> fence_key" where
  "fence_key f = (hf_ctx_id f, hf_seq_id f)"

definition legal_key :: "fence_key \<Rightarrow> bool" where
  "legal_key k \<longleftrightarrow> k \<noteq> (0, 0)"

definition fence_view :: "hw_fence_driver_data \<Rightarrow> fence_key \<Rightarrow> msm_hw_fence option" where
  "fence_view d k = List.find (\<lambda>f. hf_valid f \<noteq> 0 \<and> fence_key f = k) (hw_fences_tbl d)"

text \<open>Free entries carry the all-zero key, the keys of the entries in use are non-zero and
  pairwise different.\<close>

definition table_inv :: "hw_fence_driver_data \<Rightarrow> bool" where
  "table_inv d \<longleftrightarrow> table_wf d
     \<and> list_all (\<lambda>f. hf_valid f = 0 \<longleftrightarrow> fence_key f = (0, 0)) (hw_fences_tbl d)
     \<and> distinct (map fence_key (filter (\<lambda>f. hf_valid f \<noteq> 0) (hw_fences_tbl d)))"

lemma table_inv_wf: "table_inv d \<Longrightarrow> table_wf d"
  by (simp add: table_inv_def)

lemma table_size_pos: "table_wf d \<Longrightarrow> 0 < table_size d" "table_wf d \<Longrightarrow> length (hw_fences_tbl d) = table_size d"
  by (simp_all add: table_wf_def)

lemma table_inv_valid:
  "table_inv d \<Longrightarrow> i < table_size d \<Longrightarrow>
   hf_valid (hw_fences_tbl d ! i) = 0 \<longleftrightarrow> fence_key (hw_fences_tbl d ! i) = (0, 0)"
  by (auto simp: table_inv_def table_wf_def list_all_length)

lemma option_eqI: "(\<And>y. a = Some y \<longleftrightarrow> b = Some y) \<Longrightarrow> a = b"
  by (metis not_None_eq)

lemma distinct_keys_nth:
  "distinct (map g (filter P xs)) \<Longrightarrow> i < length xs \<Longrightarrow> j < length xs \<Longrightarrow> P (xs ! i) \<Longrightarrow> P (xs ! j) \<Longrightarrow>
   g (xs ! i) = g (xs ! j) \<Longrightarrow> i = j"
proof (induction xs arbitrary: i j)
  case Nil
  then show ?case by simp
next
  case (Cons x xs)
  have k: "g (xs ! l) \<in> g ` {x \<in> set xs. P x}" if "l < length xs" "P (xs ! l)" for l
    using that by auto
  show ?case
  proof (cases i; cases j)
    fix j' assume "i = 0" "j = Suc j'"
    with Cons.prems k[of j'] show ?thesis by (auto split: if_splits)
  next
    fix i' assume "i = Suc i'" "j = 0"
    with Cons.prems k[of i'] show ?thesis by (auto split: if_splits)
  qed (use Cons in \<open>auto split: if_splits\<close>)
qed

lemma distinct_keysI:
  "(\<And>i j. i < length xs \<Longrightarrow> j < length xs \<Longrightarrow> P (xs ! i) \<Longrightarrow> P (xs ! j) \<Longrightarrow> g (xs ! i) = g (xs ! j) \<Longrightarrow> i = j) \<Longrightarrow>
   distinct (map g (filter P xs))"
proof (induction xs)
  case Nil
  then show ?case by simp
next
  case (Cons x xs)
  have "distinct (map g (filter P xs))"
    by (rule Cons.IH) (use Cons.prems[of "Suc _" "Suc _"] in simp)
  moreover have "g x \<notin> set (map g (filter P xs))" if "P x"
    using Cons.prems[of 0 "Suc _"] that by (auto simp: in_set_conv_nth)
  ultimately show ?case by auto
qed

lemma fence_view_Some_iff:
  assumes "table_inv d"
  shows "fence_view d k = Some f \<longleftrightarrow>
    (\<exists>i < table_size d. hw_fences_tbl d ! i = f \<and> hf_valid f \<noteq> 0 \<and> fence_key f = k)"
proof -
  let ?P = "\<lambda>f. hf_valid f \<noteq> 0 \<and> fence_key f = k"
  have dk: "distinct (map fence_key (filter (\<lambda>f. hf_valid f \<noteq> 0) (hw_fences_tbl d)))"
    and n: "length (hw_fences_tbl d) = table_size d"
    using assms by (simp_all add: table_inv_def table_wf_def)
  show ?thesis
  proof
    assume "fence_view d k = Some f"
    then show "\<exists>i < table_size d. hw_fences_tbl d ! i = f \<and> hf_valid f \<noteq> 0 \<and> fence_key f = k"
      unfolding fence_view_def by (metis (mono_tags, lifting) find_Some_iff n)
  next
    assume "\<exists>i < table_size d. hw_fences_tbl d ! i = f \<and> hf_valid f \<noteq> 0 \<and> fence_key f = k"
    then obtain i where i: "i < table_size d" "hw_fences_tbl d ! i = f" "?P f" by blast
    then have "\<not> ?P (hw_fences_tbl d ! j)" if "j < i" for j
      using that n distinct_keys_nth[OF dk, of i j] by auto
    with i show "fence_view d k = Some f"
      unfolding fence_view_def using n by (auto simp: find_Some_iff)
  qed
qed

lemma fence_view_None_iff:
  assumes "table_inv d"
  shows "fence_view d k = None \<longleftrightarrow>
    (\<forall>i < table_size d. hf_valid (hw_fences_tbl d ! i) \<noteq> 0 \<longrightarrow> fence_key (hw_fences_tbl d ! i) \<noteq> k)"
  using fence_view_Some_iff[OF assms, of k] by (metis not_None_eq)

lemma table_inv_slot:
  assumes inv: "table_inv d" and "i < table_size d" and "j < table_size d" and "hf_valid (hw_fences_tbl d ! i) \<noteq> 0"
    and "fence_key (hw_fences_tbl d ! i) = fence_key (hw_fences_tbl d ! j)" and "hf_valid (hw_fences_tbl d ! j) \<noteq> 0"
  shows "i = j"
  by (rule distinct_keys_nth[of fence_key "\<lambda>f. hf_valid f \<noteq> 0" "hw_fences_tbl d"])
     (use assms in \<open>auto simp: table_inv_def table_wf_def\<close>)

text \<open>Replacing one entry: a free one by an entry with a new key, a used one by a free one.\<close>

lemma table_inv_set:
  assumes inv: "table_inv d" and i: "i < table_size d" and fr: "fence_free f"
    and v: "hf_valid f = 0 \<longleftrightarrow> fence_key f = (0, 0)"
    and u: "\<And>j. j < table_size d \<Longrightarrow> j \<noteq> i \<Longrightarrow> hf_valid (hw_fences_tbl d ! j) \<noteq> 0 \<Longrightarrow>
       fence_key (hw_fences_tbl d ! j) = fence_key f \<Longrightarrow> hf_valid f = 0"
    and d': "hw_fences_tbl d' = (hw_fences_tbl d)[i := f]" "hw_fence_table_entries d' = hw_fence_table_entries d"
  shows "table_inv d'"
proof -
  have n: "length (hw_fences_tbl d) = table_size d" and la: "list_all fence_free (hw_fences_tbl d)"
    "list_all (\<lambda>f. hf_valid f = 0 \<longleftrightarrow> fence_key f = (0, 0)) (hw_fences_tbl d)"
    using inv by (simp_all add: table_inv_def table_wf_def)
  have "distinct (map fence_key (filter (\<lambda>f. hf_valid f \<noteq> 0) (hw_fences_tbl d')))"
  proof (rule distinct_keysI)
    fix j k
    let ?t = "hw_fences_tbl d'"
    assume a: "j < length ?t" "k < length ?t" "hf_valid (?t ! j) \<noteq> 0" "hf_valid (?t ! k) \<noteq> 0"
      "fence_key (?t ! j) = fence_key (?t ! k)"
    show "j = k"
      using a u[of j] u[of k] table_inv_slot[OF inv, of j k] i n d' by (auto simp: nth_list_update split: if_splits)
  qed
  moreover have "list_all fence_free (hw_fences_tbl d')"
    "list_all (\<lambda>f. hf_valid f = 0 \<longleftrightarrow> fence_key f = (0, 0)) (hw_fences_tbl d')"
    using la fr v d'(1) n i by (simp_all add: list_all_length nth_list_update)
  ultimately show ?thesis
    using inv d' n by (simp add: table_inv_def table_wf_def)
qed

lemma fence_view_set:
  assumes inv: "table_inv d" and inv': "table_inv d'" and i: "i < table_size d"
    and d': "hw_fences_tbl d' = (hw_fences_tbl d)[i := f]" "hw_fence_table_entries d' = hw_fence_table_entries d"
  shows "fence_view d' k = Some g \<longleftrightarrow> g = f \<and> hf_valid f \<noteq> 0 \<and> fence_key f = k \<or>
    (\<exists>j < table_size d. j \<noteq> i \<and> hw_fences_tbl d ! j = g \<and> hf_valid g \<noteq> 0 \<and> fence_key g = k)"
proof -
  have e: "hw_fences_tbl d' ! i = f" "\<And>j. j \<noteq> i \<Longrightarrow> hw_fences_tbl d' ! j = hw_fences_tbl d ! j"
    using inv d'(1) i by (simp_all add: table_inv_def table_wf_def)
  have s: "(\<exists>j < table_size d. Q j) \<longleftrightarrow> Q i \<or> (\<exists>j < table_size d. j \<noteq> i \<and> Q j)" for Q
    using i by blast
  show ?thesis
    unfolding fence_view_Some_iff[OF inv'] d'(2)
    by (subst s) (auto simp: e)
qed

lemma fence_view_insert:
  assumes inv: "table_inv d" and inv': "table_inv d'" and i: "i < table_size d"
    and d': "hw_fences_tbl d' = (hw_fences_tbl d)[i := f]" "hw_fence_table_entries d' = hw_fence_table_entries d"
    and old: "hf_valid (hw_fences_tbl d ! i) = 0" and f: "hf_valid f \<noteq> 0"
    and new: "fence_view d (fence_key f) = None"
  shows "fence_view d' = (fence_view d)(fence_key f \<mapsto> f)"
proof (rule ext, rule option_eqI)
  fix k g
  show "fence_view d' k = Some g \<longleftrightarrow> ((fence_view d)(fence_key f \<mapsto> f)) k = Some g"
    using fence_view_set[OF inv inv' i d'] fence_view_Some_iff[OF inv] fence_view_None_iff[OF inv] new old f
    by (cases "k = fence_key f") auto
qed

lemma fence_view_delete:
  assumes inv: "table_inv d" and inv': "table_inv d'" and i: "i < table_size d"
    and d': "hw_fences_tbl d' = (hw_fences_tbl d)[i := f]" "hw_fence_table_entries d' = hw_fence_table_entries d"
    and old: "hf_valid (hw_fences_tbl d ! i) \<noteq> 0" and f: "hf_valid f = 0"
  shows "fence_view d' = (fence_view d)(fence_key (hw_fences_tbl d ! i) := None)"
proof (rule ext, rule option_eqI)
  fix k g
  have "fence_key (hw_fences_tbl d ! j) = fence_key (hw_fences_tbl d ! i) \<Longrightarrow> hf_valid (hw_fences_tbl d ! j) \<noteq> 0 \<Longrightarrow> j = i"
    if "j < table_size d" for j
    using table_inv_slot[OF inv that i] old by simp
  then show "fence_view d' k = Some g \<longleftrightarrow> ((fence_view d)(fence_key (hw_fences_tbl d ! i) := None)) k = Some g"
    using fence_view_set[OF inv inv' i d'] fence_view_Some_iff[OF inv] f
    by (cases "k = fence_key (hw_fences_tbl d ! i)") auto
qed

lemma fence_view_update:
  assumes inv: "table_inv d" and inv': "table_inv d'" and i: "i < table_size d"
    and d': "hw_fences_tbl d' = (hw_fences_tbl d)[i := f]" "hw_fence_table_entries d' = hw_fence_table_entries d"
    and old: "hf_valid (hw_fences_tbl d ! i) \<noteq> 0" and f: "hf_valid f \<noteq> 0"
    and k: "fence_key f = fence_key (hw_fences_tbl d ! i)"
  shows "fence_view d' = (fence_view d)(fence_key f \<mapsto> f)"
proof (rule ext, rule option_eqI)
  fix k' g
  have "fence_key (hw_fences_tbl d ! j) = fence_key (hw_fences_tbl d ! i) \<Longrightarrow> hf_valid (hw_fences_tbl d ! j) \<noteq> 0 \<Longrightarrow> j = i"
    if "j < table_size d" for j
    using table_inv_slot[OF inv that i] old by simp
  then show "fence_view d' k' = Some g \<longleftrightarrow> ((fence_view d)(fence_key f \<mapsto> f)) k' = Some g"
    using fence_view_set[OF inv inv' i d'] fence_view_Some_iff[OF inv] f k
    by (cases "k' = fence_key f") auto
qed

text \<open>The size of the map is the number of entries in use.\<close>

lemma dom_fence_view:
  assumes inv: "table_inv d"
  shows "dom (fence_view d) = (\<lambda>i. fence_key (hw_fences_tbl d ! i)) ` {i. i < table_size d \<and> hf_valid (hw_fences_tbl d ! i) \<noteq> 0}"
    and "finite (dom (fence_view d))"
    and "card (dom (fence_view d)) = card {i. i < table_size d \<and> hf_valid (hw_fences_tbl d ! i) \<noteq> 0}"
proof -
  let ?V = "{i. i < table_size d \<and> hf_valid (hw_fences_tbl d ! i) \<noteq> 0}"
  show dv: "dom (fence_view d) = (\<lambda>i. fence_key (hw_fences_tbl d ! i)) ` ?V"
    unfolding dom_def image_def using fence_view_Some_iff[OF inv] by fastforce
  show "finite (dom (fence_view d))" by (simp add: dv)
  have "inj_on (\<lambda>i. fence_key (hw_fences_tbl d ! i)) ?V"
    by (rule inj_onI) (auto dest: table_inv_slot[OF inv])
  then show "card (dom (fence_view d)) = card ?V" unfolding dv by (rule card_image)
qed

lemma room_iff_free_slot:
  assumes inv: "table_inv d"
  shows "card (dom (fence_view d)) < table_size d \<longleftrightarrow> (\<exists>i < table_size d. hf_valid (hw_fences_tbl d ! i) = 0)"
proof -
  let ?V = "{i. i < table_size d \<and> hf_valid (hw_fences_tbl d ! i) \<noteq> 0}"
  have sub: "?V \<subseteq> {..<table_size d}" by auto
  have "card ?V < table_size d \<longleftrightarrow> ?V \<noteq> {..<table_size d}"
  proof
    show "?V \<noteq> {..<table_size d}" if "card ?V < table_size d" using that by (metis card_lessThan less_irrefl)
    show "card ?V < table_size d" if "?V \<noteq> {..<table_size d}"
      using that sub psubset_card_mono[of "{..<table_size d}" ?V] by (simp add: psubset_eq)
  qed
  also have "\<dots> \<longleftrightarrow> (\<exists>i < table_size d. hf_valid (hw_fences_tbl d ! i) = 0)" by auto
  finally show ?thesis using dom_fence_view(3)[OF inv] by simp
qed


section \<open>What the lookup operations do to the map\<close>

definition fresh_fence :: "u32 \<Rightarrow> fence_key \<Rightarrow> u32 \<Rightarrow> u64 \<Rightarrow> u64 \<Rightarrow> msm_hw_fence" where
  "fresh_fence c k pending t l =
     \<lparr>hf_valid = 1, hf_error = 0, hf_ctx_id = fst k, hf_seq_id = snd k, hf_wait_client_mask = 0,
      hf_fence_allocator = c, hf_fence_signal_client = 0, hf_lock = l, hf_flags = 0,
      hf_parent_list = [- 1, - 1, - 1], hf_parents_cnt = 0, hf_pending_child_cnt = pending,
      hf_fence_create_time = t, hf_fence_trigger_time = 0, hf_fence_wait_time = 0,
      hf_debug_refcount = 1, hf_client_data = [0, 0, 0, 0, 0]\<rparr>"

definition free_fence :: "u64 \<Rightarrow> msm_hw_fence" where
  "free_fence l = (fresh_fence 0 (0, 0) 0 0 l)\<lparr>hf_valid := 0, hf_debug_refcount := 0\<rparr>"

lemma fresh_fence_simps [simp]:
  "hf_valid (fresh_fence c k p t l) = 1" "fence_key (fresh_fence c k p t l) = k"
  "hf_lock (fresh_fence c k p t l) = l" "hf_valid (free_fence l) = 0" "fence_key (free_fence l) = (0, 0)"
  "hf_lock (free_fence l) = l"
  by (simp_all add: fresh_fence_def free_fence_def fence_key_def)

lemma replicate_3_5:
  "replicate MSM_HW_FENCE_MAX_JOIN_PARENTS x = [x, x, x]"
  "replicate HW_FENCE_MAX_CLIENTS_WITH_DATA y = [y, y, y, y, y]"
  by (simp_all add: MSM_HW_FENCE_MAX_JOIN_PARENTS_def HW_FENCE_MAX_CLIENTS_WITH_DATA_def numeral_eq_Suc)

lemma process_create:
  assumes "is_create op"
  shows "process_fnc op d f c cx sq p =
    (fresh_fence c (cx, sq) (if op = HW_FENCE_LOOKUP_OP_CREATE_JOIN then p else 0) (qtimer d (qtime_reads d)) (hf_lock f),
     d\<lparr>qtime_reads := Suc (qtime_reads d)\<rparr>)"
  using assms by (cases op) (simp_all add: is_create_def process_fnc_def reserve_hw_fence_def
      reserve_join_fence_def cleanup_hw_fence_def hw_fence_get_qtime_def fresh_fence_def Let_def
      replicate_3_5 HW_FENCE_INVALID_PARENT_FENCE_def)

lemma process_destroy:
  "process_fnc HW_FENCE_LOOKUP_OP_DESTROY d f c cx sq p = (free_fence (hf_lock f), d)"
  by (simp add: process_fnc_def unreserve_hw_fence_def cleanup_hw_fence_def free_fence_def fresh_fence_def
      replicate_3_5 HW_FENCE_INVALID_PARENT_FENCE_def)

lemma process_find: "process_fnc HW_FENCE_LOOKUP_OP_FIND_FENCE d f c cx sq p = (f, d)"
  by (simp add: process_fnc_def fence_found_def)

text \<open>Creation with a key that is not in the table takes the first free slot of the probe
  sequence, and fails only when every slot is in use.\<close>

lemma lookup_create:
  assumes inv: "table_inv d" and cr: "is_create op" and lk: "legal_key (cx, sq)" and new: "fence_view d (cx, sq) = None"
  shows "(\<exists>i < table_size d. hf_valid (hw_fences_tbl d ! i) = 0 \<and>
      hw_fence_lookup_and_process d cx sq c p op = Some (Some i, of_nat i, processed op c cx sq p i d))
    \<or> (\<forall>i < table_size d. hf_valid (hw_fences_tbl d ! i) \<noteq> 0) \<and>
      (\<exists>h. hw_fence_lookup_and_process d cx sq c p op = Some (None, h, d))"
proof -
  note wf = table_inv_wf[OF inv]
  have cmp: "compare_fnc op f cx sq \<longleftrightarrow> hf_valid f = 0" for f
    using cr by (auto simp: is_create_def compare_fnc_def is_hw_fence_free_def)
  have ns: "decide op cx sq (hw_fences_tbl d ! i) \<noteq> Stop" if i: "i < table_size d" for i
  proof -
    have "hf_valid (hw_fences_tbl d ! i) = 0" if "hw_fence_match (hw_fences_tbl d ! i) cx sq"
      using that new i fence_view_None_iff[OF inv, of "(cx, sq)"] by (auto simp: hw_fence_match_def fence_key_def)
    then show ?thesis by (auto simp: decide_def cmp)
  qed
  show ?thesis
  proof (cases "lookup_end d op cx sq (probes (table_size d) cx sq)")
    case None
    then have "\<forall>i < table_size d. hf_valid (hw_fences_tbl d ! i) \<noteq> 0"
      using lookup_end_None_iff[OF wf ns] cmp by simp
    with None lookup_eq[OF wf, of cx sq c p op] show ?thesis by auto
  next
    case (Some i)
    with lookup_end_SomeD[OF wf Some] cmp lookup_eq[OF wf, of cx sq c p op] show ?thesis by auto
  qed
qed

text \<open>The operations that look for a key find it exactly when it is in the map.\<close>

lemma lookup_match:
  assumes inv: "table_inv d" and cr: "\<not> is_create op" and lk: "legal_key (cx, sq)"
  shows "case fence_view d (cx, sq) of
      None \<Rightarrow> \<exists>h. hw_fence_lookup_and_process d cx sq c p op = Some (None, h, d)
    | Some f \<Rightarrow> \<exists>i < table_size d. hw_fences_tbl d ! i = f \<and> hf_valid f \<noteq> 0 \<and> fence_key f = (cx, sq) \<and>
        hw_fence_lookup_and_process d cx sq c p op = Some (Some i, of_nat i, processed op c cx sq p i d)"
proof -
  note wf = table_inv_wf[OF inv]
  have cmp: "compare_fnc op f cx sq \<longleftrightarrow> fence_key f = (cx, sq)" for f
    using cr by (cases op) (auto simp: is_create_def compare_fnc_def hw_fence_match_def fence_key_def)
  have vl: "compare_fnc op (hw_fences_tbl d ! i) cx sq \<longleftrightarrow>
      hf_valid (hw_fences_tbl d ! i) \<noteq> 0 \<and> fence_key (hw_fences_tbl d ! i) = (cx, sq)" if "i < table_size d" for i
    using table_inv_valid[OF inv that] lk cmp by (auto simp: legal_key_def)
  note nn = lookup_end_None_iff[OF wf decide_match_not_Stop[OF cr]]
  show ?thesis
  proof (cases "lookup_end d op cx sq (probes (table_size d) cx sq)")
    case None
    then have "fence_view d (cx, sq) = None"
      using nn[of cx sq] vl fence_view_None_iff[OF inv, of "(cx, sq)"] by auto
    with None lookup_eq[OF wf, of cx sq c p op] show ?thesis by auto
  next
    case (Some i)
    note e = lookup_end_SomeD[OF wf Some]
    then have "fence_view d (cx, sq) = Some (hw_fences_tbl d ! i)"
      using vl fence_view_Some_iff[OF inv] by blast
    with Some e vl[OF e(1)] lookup_eq[OF wf, of cx sq c p op] show ?thesis by auto
  qed
qed

lemma processed_create:
  assumes inv: "table_inv d" and cr: "is_create op" and lk: "legal_key (cx, sq)" and new: "fence_view d (cx, sq) = None"
    and i: "i < table_size d" and fr: "hf_valid (hw_fences_tbl d ! i) = 0"
    and f: "f = fresh_fence c (cx, sq) (if op = HW_FENCE_LOOKUP_OP_CREATE_JOIN then p else 0)
       (qtimer d (qtime_reads d)) (hf_lock (hw_fences_tbl d ! i))"
  shows "processed op c cx sq p i d = set_fence i f (d\<lparr>qtime_reads := Suc (qtime_reads d)\<rparr>)"
    and "table_inv (processed op c cx sq p i d)"
    and "fence_view (processed op c cx sq p i d) = (fence_view d)((cx, sq) \<mapsto> f)"
proof -
  let ?d = "set_fence i f (d\<lparr>qtime_reads := Suc (qtime_reads d)\<rparr>)"
  show e: "processed op c cx sq p i d = ?d"
    by (simp add: processed_def process_create[OF cr] f)
  have k: "fence_key f = (cx, sq)" "hf_valid f = 1" by (simp_all add: f)
  have d': "hw_fences_tbl ?d = (hw_fences_tbl d)[i := f]" "hw_fence_table_entries ?d = hw_fence_table_entries d"
    by simp_all
  have "fence_free f"
    using table_wfD[OF table_inv_wf[OF inv] i] by (simp add: fence_free_def f)
  then have inv': "table_inv ?d"
    using new fence_view_None_iff[OF inv, of "(cx, sq)"] k lk
    by (intro table_inv_set[OF inv i _ _ _ d']) (auto simp: legal_key_def)
  then show "table_inv (processed op c cx sq p i d)" by (simp add: e)
  show "fence_view (processed op c cx sq p i d) = (fence_view d)((cx, sq) \<mapsto> f)"
    using fence_view_insert[OF inv inv' i d' fr] new k e by simp
qed

lemma processed_destroy:
  assumes inv: "table_inv d" and i: "i < table_size d" and v: "hf_valid (hw_fences_tbl d ! i) \<noteq> 0"
    and k: "fence_key (hw_fences_tbl d ! i) = (cx, sq)"
  shows "processed HW_FENCE_LOOKUP_OP_DESTROY c cx sq p i d = set_fence i (free_fence (hf_lock (hw_fences_tbl d ! i))) d"
    and "table_inv (processed HW_FENCE_LOOKUP_OP_DESTROY c cx sq p i d)"
    and "fence_view (processed HW_FENCE_LOOKUP_OP_DESTROY c cx sq p i d) = (fence_view d)((cx, sq) := None)"
proof -
  let ?f = "free_fence (hf_lock (hw_fences_tbl d ! i))"
  let ?d = "set_fence i ?f d"
  show e: "processed HW_FENCE_LOOKUP_OP_DESTROY c cx sq p i d = ?d"
    by (simp add: processed_def process_destroy)
  have d': "hw_fences_tbl ?d = (hw_fences_tbl d)[i := ?f]" "hw_fence_table_entries ?d = hw_fence_table_entries d"
    by simp_all
  have inv': "table_inv ?d"
    using table_wfD[OF table_inv_wf[OF inv] i]
    by (intro table_inv_set[OF inv i _ _ _ d']) (auto simp: fence_free_def)
  then show "table_inv (processed HW_FENCE_LOOKUP_OP_DESTROY c cx sq p i d)" by (simp add: e)
  show "fence_view (processed HW_FENCE_LOOKUP_OP_DESTROY c cx sq p i d) = (fence_view d)((cx, sq) := None)"
    using fence_view_delete[OF inv inv' i d' v] k e by simp
qed

lemma processed_find [simp]: "processed HW_FENCE_LOOKUP_OP_FIND_FENCE c cx sq p i d = d"
  by (simp add: processed_def process_find)

lemma is_create_simps [simp]:
  "is_create HW_FENCE_LOOKUP_OP_CREATE" "is_create HW_FENCE_LOOKUP_OP_CREATE_JOIN"
  "\<not> is_create HW_FENCE_LOOKUP_OP_DESTROY" "\<not> is_create HW_FENCE_LOOKUP_OP_FIND_FENCE"
  by (simp_all add: is_create_def)


section \<open>Create, find, destroy as operations on the map\<close>

definition table_ins :: "u32 \<Rightarrow> fence_key \<Rightarrow> hw_fence_driver_data \<Rightarrow> hw_fence_driver_data option" where
  "table_ins c k d = (case hw_fence_create d c (fst k) (snd k) of Some (Inr _, _, d') \<Rightarrow> Some d' | _ \<Rightarrow> None)"

definition table_del :: "u32 \<Rightarrow> fence_key \<Rightarrow> hw_fence_driver_data \<Rightarrow> hw_fence_driver_data option" where
  "table_del c k d = (case hw_fence_destroy d c (fst k) (snd k) of Some (Inr _, d') \<Rightarrow> Some d' | _ \<Rightarrow> None)"

definition table_get :: "u32 \<Rightarrow> fence_key \<Rightarrow> hw_fence_driver_data \<Rightarrow> msm_hw_fence option" where
  "table_get c k d = (case msm_hw_fence_find d c (fst k) (snd k) of
     Some (Some i, _, d') \<Rightarrow> idx (hw_fences_tbl d') i | _ \<Rightarrow> None)"

definition created_by :: "u32 \<Rightarrow> fence_key \<Rightarrow> msm_hw_fence \<Rightarrow> bool" where
  "created_by c k f \<longleftrightarrow> f = fresh_fence c k 0 (hf_fence_create_time f) (hf_lock f)"

lemma hw_fence_create_spec:
  assumes inv: "table_inv d" and lk: "legal_key (cx, sq)" and new: "fence_view d (cx, sq) = None"
  shows "if card (dom (fence_view d)) < table_size d
    then \<exists>i d'. hw_fence_create d c cx sq = Some (Inr (), of_nat i, d') \<and> i < table_size d \<and>
      hf_valid (hw_fences_tbl d ! i) = 0 \<and> table_inv d' \<and>
      d' = set_fence i (fresh_fence c (cx, sq) 0 (qtimer d (qtime_reads d)) (hf_lock (hw_fences_tbl d ! i)))
            (d\<lparr>qtime_reads := Suc (qtime_reads d)\<rparr>) \<and>
      fence_view d' = (fence_view d)((cx, sq) \<mapsto> hw_fences_tbl d' ! i)
    else \<exists>h. hw_fence_create d c cx sq = Some (Inl EINVAL, h, d)"
proof (cases "card (dom (fence_view d)) < table_size d")
  case True
  then obtain i where i: "i < table_size d" "hf_valid (hw_fences_tbl d ! i) = 0"
    "hw_fence_lookup_and_process d cx sq c 0 HW_FENCE_LOOKUP_OP_CREATE =
       Some (Some i, of_nat i, processed HW_FENCE_LOOKUP_OP_CREATE c cx sq 0 i d)"
    using lookup_create[OF inv _ lk new, of HW_FENCE_LOOKUP_OP_CREATE c 0] room_iff_free_slot[OF inv] by auto
  note p = processed_create[OF inv _ lk new i(1,2) refl, of HW_FENCE_LOOKUP_OP_CREATE c 0]
  have "i < length (hw_fences_tbl d)" using table_wfD[OF table_inv_wf[OF inv] i(1)] by simp
  with True i p show ?thesis by (auto simp: hw_fence_create_def set_fence_def)
next
  case False
  with lookup_create[OF inv _ lk new, of HW_FENCE_LOOKUP_OP_CREATE c 0] room_iff_free_slot[OF inv]
  show ?thesis by (auto simp: hw_fence_create_def)
qed

lemma hw_fence_destroy_spec:
  assumes inv: "table_inv d" and lk: "legal_key (cx, sq)"
  shows "if fence_view d (cx, sq) = None then hw_fence_destroy d c cx sq = Some (Inl EINVAL, d)
    else \<exists>d' tbl. hw_fence_destroy d c cx sq = Some (Inr (), d') \<and> d' = d\<lparr>hw_fences_tbl := tbl\<rparr> \<and>
      table_inv d' \<and> fence_view d' = (fence_view d)((cx, sq) := None)"
proof (cases "fence_view d (cx, sq)")
  case None
  with lookup_match[OF inv is_create_simps(3) lk, of c 0] show ?thesis
    by (auto simp: hw_fence_destroy_def hw_fence_cleanup_def)
next
  case (Some f)
  then obtain i where i: "i < table_size d" "hf_valid (hw_fences_tbl d ! i) \<noteq> 0" "fence_key (hw_fences_tbl d ! i) = (cx, sq)"
    "hw_fence_lookup_and_process d cx sq c 0 HW_FENCE_LOOKUP_OP_DESTROY =
       Some (Some i, of_nat i, processed HW_FENCE_LOOKUP_OP_DESTROY c cx sq 0 i d)"
    using lookup_match[OF inv is_create_simps(3) lk, of c 0] by auto
  with Some processed_destroy[OF inv i(1-3), of c 0] show ?thesis
    by (auto simp: hw_fence_destroy_def hw_fence_cleanup_def set_fence_def)
qed

lemma msm_hw_fence_find_spec:
  assumes inv: "table_inv d" and lk: "legal_key (cx, sq)"
  shows "case fence_view d (cx, sq) of
      None \<Rightarrow> \<exists>h. msm_hw_fence_find d c cx sq = Some (None, h, d)
    | Some f \<Rightarrow> \<exists>i < table_size d. hw_fences_tbl d ! i = f \<and> msm_hw_fence_find d c cx sq = Some (Some i, of_nat i, d)"
  using lookup_match[OF inv is_create_simps(4) lk, of c 0]
  by (auto simp: msm_hw_fence_find_def split: option.splits)

text \<open>The key of an entry in use is refused, or stored a second time: never found free by mistake
  when the table is full.\<close>

lemma hw_fence_create_full:
  assumes inv: "table_inv d" and full: "table_size d \<le> card (dom (fence_view d))"
  shows "\<exists>h. hw_fence_create d c cx sq = Some (Inl EINVAL, h, d)"
proof -
  have "\<forall>i < table_size d. hf_valid (hw_fences_tbl d ! i) \<noteq> 0"
    using full room_iff_free_slot[OF inv] by auto
  then have "lookup_end d HW_FENCE_LOOKUP_OP_CREATE cx sq (probes (table_size d) cx sq) = None"
    using lookup_end_SomeD[OF table_inv_wf[OF inv], of HW_FENCE_LOOKUP_OP_CREATE cx sq]
    by (fastforce simp: compare_fnc_def is_hw_fence_free_def)
  with lookup_eq[OF table_inv_wf[OF inv], of cx sq c 0 HW_FENCE_LOOKUP_OP_CREATE] show ?thesis
    by (auto simp: hw_fence_create_def)
qed

interpretation hwt: keyed_table table_inv legal_key fence_view table_size "table_ins c" "table_del c" "table_get c" "created_by c"
  for c
proof unfold_locales
  fix s and k :: fence_key
  obtain cx sq where k: "k = (cx, sq)" by fastforce
  show "finite (dom (fence_view s))" if "table_inv s" for s using dom_fence_view(2)[OF that] .
  show "\<exists>s' v. table_ins c k s = Some s' \<and> table_inv s' \<and> table_size s' = table_size s \<and>
      fence_view s' = (fence_view s)(k \<mapsto> v) \<and> created_by c k v"
    if a: "table_inv s" "legal_key k" "fence_view s k = None" "card (dom (fence_view s)) < table_size s"
  proof -
    obtain i d' where c: "hw_fence_create s c cx sq = Some (Inr (), of_nat i, d')" "i < table_size s" "table_inv d'"
      "d' = set_fence i (fresh_fence c (cx, sq) 0 (qtimer s (qtime_reads s)) (hf_lock (hw_fences_tbl s ! i)))
            (s\<lparr>qtime_reads := Suc (qtime_reads s)\<rparr>)" "fence_view d' = (fence_view s)((cx, sq) \<mapsto> hw_fences_tbl d' ! i)"
      using hw_fence_create_spec[OF a(1), of cx sq c] a k by auto
    moreover have "i < length (hw_fences_tbl s)" using table_wfD[OF table_inv_wf[OF a(1)] c(2)] by simp
    ultimately show ?thesis
      by (intro exI[of _ d'] exI[of _ "hw_fences_tbl d' ! i"])
         (simp add: table_ins_def k created_by_def, simp add: set_fence_def fresh_fence_def)
  qed
  show "table_ins c k s = None"
    if "table_inv s" "legal_key k" "table_size s \<le> card (dom (fence_view s))"
    using hw_fence_create_full[OF that(1,3), of c cx sq] by (auto simp: table_ins_def k)
  show "\<exists>s'. table_del c k s = Some s' \<and> table_inv s' \<and> table_size s' = table_size s \<and> fence_view s' = (fence_view s)(k := None)"
    if "table_inv s" "legal_key k" "fence_view s k \<noteq> None"
    using hw_fence_destroy_spec[OF that(1), of cx sq c] that k by (auto simp: table_del_def)
  show "table_del c k s = None" if "table_inv s" "legal_key k" "fence_view s k = None"
    using hw_fence_destroy_spec[OF that(1), of cx sq c] that k by (auto simp: table_del_def)
  show "table_get c k s = fence_view s k" if a: "table_inv s" "legal_key k"
    using msm_hw_fence_find_spec[OF a(1), of cx sq c] a table_size_pos(2)[OF table_inv_wf[OF a(1)]] k
    by (auto simp: table_get_def split: option.splits)
qed


section \<open>Properties of the fence table\<close>

definition demo_table :: hw_fence_driver_data where
  "demo_table = demo_driver [free_fence 0, free_fence 0]"

lemma demo_table_inv: "table_inv demo_table"
  by (simp add: demo_table_def table_inv_def table_wf_def demo_driver_def fence_free_def lo32_def)

lemma demo_table_view: "fence_view demo_table = Map.empty" "table_size demo_table = 2"
  by (rule ext) (simp_all add: demo_table_def fence_view_def demo_driver_def)

text \<open>the lookup loop always ends, for every operation and every key: it never leaves the table,
  returns every lock it takes, reports the slot it found as the hash, and changes at most
  that one entry and the read counter of the timer.\<close>

theorem lookup_total:
  assumes "table_wf d"
  shows "\<exists>r hash d'. hw_fence_lookup_and_process d cx sq c p op = Some (r, hash, d') \<and> table_wf d' \<and>
    (case r of None \<Rightarrow> d' = d
     | Some i \<Rightarrow> i < table_size d \<and> hash = of_nat i \<and> compare_fnc op (hw_fences_tbl d ! i) cx sq \<and>
        (\<exists>f n. d' = (set_fence i f d)\<lparr>qtime_reads := n\<rparr> \<and> hf_lock f = hf_lock (hw_fences_tbl d ! i)))"
proof (cases "lookup_end d op cx sq (probes (table_size d) cx sq)")
  case None
  with lookup_eq[OF assms, of cx sq c p op] assms show ?thesis by auto
next
  case (Some i)
  note e = lookup_end_SomeD[OF assms Some]
  obtain f' d' where p: "process_fnc op d (hw_fences_tbl d ! i) c cx sq p = (f', d')" by fastforce
  have q: "\<exists>n. d' = d\<lparr>qtime_reads := n\<rparr>"
    using p by (cases op) (auto simp: process_fnc_def reserve_hw_fence_def unreserve_hw_fence_def
      reserve_join_fence_def fence_found_def hw_fence_get_qtime_def Let_def intro: exI[of _ "qtime_reads d"])
  then obtain n where "d' = d\<lparr>qtime_reads := n\<rparr>" by blast
  then have n: "set_fence i f' d' = (set_fence i f' d)\<lparr>qtime_reads := n\<rparr>" by (simp add: set_fence_def)
  have "table_wf (set_fence i f' d')"
    using assms table_wfD[OF assms e(1)] process_fnc_keeps[OF p] q
    by (auto simp: table_wf_def list_all_length nth_list_update fence_free_def)
  with Some e p n process_fnc_keeps[OF p] lookup_eq[OF assms, of cx sq c p op] show ?thesis
    by (auto simp: processed_def)
qed

theorem lookup_total_witness:
  "\<exists>r hash d'. hw_fence_lookup_and_process demo_table 1 3 1 0 HW_FENCE_LOOKUP_OP_CREATE = Some (r, hash, d') \<and> table_wf d'"
  using lookup_total[OF table_inv_wf[OF demo_table_inv], of 1 3 1 0 HW_FENCE_LOOKUP_OP_CREATE] by blast

text \<open>C2: \<open>hw_fence_create\<close> with a key that is not in the table succeeds exactly when some entry is
  free. It then returns the slot as hash, adds to the map exactly one entry, owned by the
  calling client, with no flags, error, waiters, parents or children, and keeps the
  invariant; otherwise it returns EINVAL and changes nothing.\<close>

theorem table_create_correct:
  assumes "table_inv d" and "legal_key (cx, sq)" and "fence_view d (cx, sq) = None"
  shows "if card (dom (fence_view d)) < table_size d
    then \<exists>i d'. hw_fence_create d c cx sq = Some (Inr (), of_nat i, d') \<and> i < table_size d \<and>
      hf_valid (hw_fences_tbl d ! i) = 0 \<and> table_inv d' \<and>
      d' = set_fence i (fresh_fence c (cx, sq) 0 (qtimer d (qtime_reads d)) (hf_lock (hw_fences_tbl d ! i)))
            (d\<lparr>qtime_reads := Suc (qtime_reads d)\<rparr>) \<and>
      fence_view d' = (fence_view d)((cx, sq) \<mapsto> hw_fences_tbl d' ! i)
    else \<exists>h. hw_fence_create d c cx sq = Some (Inl EINVAL, h, d)"
  by (rule hw_fence_create_spec[OF assms])

theorem table_create_correct_witness:
  "\<exists>i d'. hw_fence_create demo_table 1 7 5 = Some (Inr (), of_nat i, d') \<and> table_inv d' \<and>
     fence_view d' = [(7, 5) \<mapsto> hw_fences_tbl d' ! i]"
  using table_create_correct[OF demo_table_inv, of 7 5 1] demo_table_view by (auto simp: legal_key_def)

text \<open>\<open>msm_hw_fence_find\<close> is exact: it returns the slot of the entry in use with that context and
  seqno when there is one, NULL when there is none, and leaves the driver state as it was.\<close>

theorem table_find_correct:
  assumes "table_inv d" and "legal_key (cx, sq)"
  shows "case fence_view d (cx, sq) of
      None \<Rightarrow> \<exists>h. msm_hw_fence_find d c cx sq = Some (None, h, d)
    | Some f \<Rightarrow> \<exists>i < table_size d. hw_fences_tbl d ! i = f \<and> msm_hw_fence_find d c cx sq = Some (Some i, of_nat i, d)"
  by (rule msm_hw_fence_find_spec[OF assms])

theorem table_find_correct_witness:
  "\<exists>h. msm_hw_fence_find demo_table 1 7 5 = Some (None, h, demo_table)"
  using table_find_correct[OF demo_table_inv, of 7 5 1] by (simp add: demo_table_view legal_key_def)

text \<open>C21: \<open>hw_fence_destroy\<close> removes exactly the entry with that key, whoever allocated it, keeps the
  invariant and touches only the table; an absent key is EINVAL and nothing changes.\<close>

theorem table_destroy_correct:
  assumes "table_inv d" and "legal_key (cx, sq)"
  shows "if fence_view d (cx, sq) = None then hw_fence_destroy d c cx sq = Some (Inl EINVAL, d)
    else \<exists>d' tbl. hw_fence_destroy d c cx sq = Some (Inr (), d') \<and> d' = d\<lparr>hw_fences_tbl := tbl\<rparr> \<and>
      table_inv d' \<and> fence_view d' = (fence_view d)((cx, sq) := None)"
  by (rule hw_fence_destroy_spec[OF assms])

theorem table_destroy_correct_witness:
  "hw_fence_destroy demo_table 1 7 5 = Some (Inl EINVAL, demo_table)"
  using table_destroy_correct[OF demo_table_inv, of 7 5 1] by (simp add: demo_table_view legal_key_def)

text \<open>a batch of fences with new, pairwise different keys is created without failure as long as the
  free entries suffice, and afterwards each of them is found with the contents creation
  gave it, while every other key maps to what it mapped to before.\<close>

theorem table_batch_create:
  assumes "table_inv d" and "\<forall>k \<in> set ks. legal_key k \<and> fence_view d k = None" and "distinct ks"
    and "card (dom (fence_view d)) + length ks \<le> table_size d"
  shows "\<exists>d'. ins_all (table_ins c) ks d = Some d' \<and> table_inv d' \<and>
    (\<forall>k \<in> set ks. \<exists>f. table_get c k d' = Some f \<and> created_by c k f) \<and>
    (\<forall>k. legal_key k \<longrightarrow> k \<notin> set ks \<longrightarrow> table_get c k d' = table_get c k d)"
proof -
  from hwt.ins_all_ok[OF assms, of c] obtain d' where d': "ins_all (table_ins c) ks d = Some d'" "table_inv d'"
    "\<forall>k. k \<notin> set ks \<longrightarrow> fence_view d' k = fence_view d k"
    "\<forall>k \<in> set ks. \<exists>f. fence_view d' k = Some f \<and> created_by c k f" by auto
  then show ?thesis using assms(1,2) hwt.get_view by fastforce
qed

theorem table_batch_create_witness:
  "\<exists>d'. ins_all (table_ins 1) [(1, 1), (1, 3)] demo_table = Some d' \<and> table_inv d'"
  using table_batch_create[OF demo_table_inv, of "[(1, 1), (1, 3)]" 1]
  by (auto simp: demo_table_view legal_key_def)

text \<open>destroying a fence right after creating it restores the map: no entry of another fence is
  lost or displaced.\<close>

theorem table_create_destroy:
  assumes "table_inv d" and "legal_key k" and "fence_view d k = None" and "table_ins c k d = Some d1"
  shows "\<exists>d2. table_del c k d1 = Some d2 \<and> table_inv d2 \<and> fence_view d2 = fence_view d"
  by (rule hwt.ins_del[OF assms])

theorem table_create_destroy_witness:
  "\<exists>d1 d2. table_ins 1 (1, 3) demo_table = Some d1 \<and> table_del 1 (1, 3) d1 = Some d2 \<and> fence_view d2 = Map.empty"
proof -
  obtain d1 where d1: "table_ins 1 (1, 3) demo_table = Some d1"
    using hwt.ins_room[OF demo_table_inv, of "(1, 3)" 1] by (auto simp: demo_table_view legal_key_def)
  then show ?thesis
    using table_create_destroy[OF demo_table_inv _ _ d1] by (auto simp: demo_table_view legal_key_def)
qed

text \<open>the check for a fence that exists already is made only on the slots probed before a free one.
  After an earlier colliding fence is destroyed, creating (1, 3) a second time succeeds and
  the table holds the key twice.\<close>

theorem create_duplicate:
  "do { d1 \<leftarrow> table_ins 1 (1, 1) demo_table;
        d2 \<leftarrow> table_ins 1 (1, 3) d1;
        d3 \<leftarrow> table_del 1 (1, 1) d2;
        d4 \<leftarrow> table_ins 1 (1, 3) d3;
        Some (map (\<lambda>f. (hf_valid f, fence_key f)) (hw_fences_tbl d4)) }
   = Some [(1, 1, 3), (1, 1, 3)]"
  by code_simp

text \<open>\<open>hw_fence_destroy_with_hash\<close> never lets a client destroy the fence of another one: with a hash
  out of the table or an entry allocated by a different client it returns EINVAL and changes
  nothing; otherwise, for an entry in use, it removes exactly that entry.\<close>

theorem destroy_with_hash_correct:
  assumes inv: "table_inv d"
  shows "if unat hash < table_size d \<and> hf_fence_allocator (hw_fences_tbl d ! unat hash) = c
         then hf_valid (hw_fences_tbl d ! unat hash) \<noteq> 0 \<longrightarrow>
           (\<exists>d'. hw_fence_destroy_with_hash d c hash = Some (Inr (), d') \<and> table_inv d' \<and>
             fence_view d' = (fence_view d)(fence_key (hw_fences_tbl d ! unat hash) := None))
         else hw_fence_destroy_with_hash d c hash = Some (Inl EINVAL, d)"
proof (cases "unat hash < table_size d")
  case False
  then show ?thesis by (simp add: hw_fence_destroy_with_hash_def get_hw_fence_def word_le_nat_alt)
next
  case True
  define f where "f = hw_fences_tbl d ! unat hash"
  have g: "get_hw_fence (hw_fence_table_entries d) hash = Some (unat hash)"
    using True by (simp add: get_hw_fence_def word_le_nat_alt)
  have l: "unat hash < length (hw_fences_tbl d)" using table_wfD[OF table_inv_wf[OF inv] True] by simp
  have "\<exists>d'. hw_fence_destroy d c (hf_ctx_id f) (hf_seq_id f) = Some (Inr (), d') \<and> table_inv d' \<and>
     fence_view d' = (fence_view d)(fence_key f := None)" if v: "hf_valid f \<noteq> 0"
  proof -
    have "legal_key (fence_key f)" "fence_view d (fence_key f) = Some f"
      using v True inv table_inv_valid[OF inv True] fence_view_Some_iff[OF inv, of "fence_key f" f]
      by (auto simp: legal_key_def f_def)
    with hw_fence_destroy_spec[OF inv, of "hf_ctx_id f" "hf_seq_id f" c] show ?thesis
      by (auto simp: fence_key_def)
  qed
  with True l g show ?thesis
    by (auto simp: hw_fence_destroy_with_hash_def hw_fence_destroy_def bind_Some_iff simp flip: f_def split: sum.splits)
qed

theorem destroy_with_hash_correct_witness:
  "hw_fence_destroy_with_hash demo_table 1 1 = Some (Inl EINVAL, demo_table)"
proof -
  have "hf_fence_allocator (hw_fences_tbl demo_table ! 1) = 0"
    by (simp add: demo_table_def demo_driver_def free_fence_def fresh_fence_def)
  with destroy_with_hash_correct[OF demo_table_inv, of 1 1] show ?thesis by simp
qed

end
