(* ===== verification/HwFence_Wait.thy ===== *)
theory HwFence_Wait
  imports HwFence_Table
begin

text \<open>
  Waiting on fences (\<^verbatim>\<open>hw_fence_drv_priv.c\<close>: \<open>_fence_ctl_signal\<close> to
  \<open>hw_fence_get_client_data_id\<close>, with the error callback of \<^verbatim>\<open>hw_fence_drv_utils.c\<close> and the
  validation-client loopback of \<^verbatim>\<open>hw_fence_drv_debug.c\<close>): registering a waiting client,
  joining a fence array, notifying the waiters, and cleaning up after a client reset.

  \<open>struct dma_fence\<close> and \<open>struct dma_fence_array\<close> are the kernel's; the records below hold
  the fields the driver reads or writes.
\<close>

record dma_fence =
  df_context :: u64
  df_seqno :: u64
  df_flags :: u64
  df_is_array :: bool

record dma_fence_array =
  da_base :: dma_fence
  da_num_fences :: u32
  da_fences :: "dma_fence option list option"

section \<open>Notifying one client\<close>

definition hw_fence_get_client_data_id :: "hw_fence_uapi \<Rightarrow> u32 \<Rightarrow> nat" where
  "hw_fence_get_client_data_id u client_id =
     (if client_id = CLIENT_ID_CTX0 u then 0
      else if client_id = CLIENT_ID_VAL u ! 0 then 3
      else if client_id = CLIENT_ID_VAL u ! 1 then 4
      else if client_id = CLIENT_ID_IPE u then 1
      else if client_id = CLIENT_ID_VPU u then 2
      else HW_FENCE_MAX_CLIENTS_WITH_DATA)"

definition is_val_client :: "hw_fence_uapi \<Rightarrow> u32 \<Rightarrow> bool" where
  "is_val_client u client_id \<longleftrightarrow> CLIENT_ID_VAL u ! 0 \<le> client_id \<and> client_id \<le> CLIENT_ID_VAL u ! 6"

text \<open>\<open>hw_fence_utils_fence_error_cb\<close>: the callback runs with the client's mutex held; taking
  the mutex while it is held never returns.\<close>

definition hw_fence_utils_fence_error_cb ::
    "nat \<Rightarrow> u64 \<Rightarrow> u64 \<Rightarrow> u64 \<Rightarrow> u64 \<Rightarrow> u32 \<Rightarrow> hw_fence_driver_data \<Rightarrow>
     ((errno + unit) \<times> hw_fence_driver_data) option" where
  "hw_fence_utils_fence_error_cb cid ctxt_id seqno hash flags error d = do {
     c \<leftarrow> get_client d cid;
     if cl_error_cb_lock c then None
     else if error = 0 \<or> cl_fence_error_cb c = None then Some (Inl EINVAL, d)
     else Some (Inr (), d\<lparr>error_cb_calls := error_cb_calls d @
       [\<lparr>cb_client = cl_client_id c, cb_hash = hash, cb_error = error, cb_context = ctxt_id,
         cb_seqno = seqno, cb_flags = flags, cb_data = cl_fence_error_cb_userdata c\<rparr>]\<rparr>) }"

definition process_validation_client_loopback ::
    "hw_fence_uapi \<Rightarrow> hw_fence_driver_data \<Rightarrow> u32 \<Rightarrow> ((errno + unit) \<times> hw_fence_driver_data) option" where
  "process_validation_client_loopback u d client_id =
     (if \<not> is_val_client u client_id then Some (Inl EINVAL, d)
      else do {
        slot \<leftarrow> idx (clients d) (unat client_id);
        Some (case slot of
           None \<Rightarrow> (Inl EINVAL, d)
         | Some c \<Rightarrow> (Inr (), set_client (unat client_id) (c\<lparr>cl_val_signal := 1\<rparr>) d)) })"

definition fence_ctl_signal ::
    "hw_fence_uapi \<Rightarrow> hw_fence_driver_data \<Rightarrow> nat \<Rightarrow> nat \<Rightarrow> u64 \<Rightarrow> u64 \<Rightarrow> u64 \<Rightarrow> u32 \<Rightarrow>
     hw_fence_driver_data option" where
  "fence_ctl_signal u d cid i hash flags client_data error = do {
     c \<leftarrow> get_client d cid;
     f \<leftarrow> idx (hw_fences_tbl d) i;
     d2 \<leftarrow> (if error \<noteq> 0 \<and> cl_fence_error_cb c \<noteq> None
        then map_option snd (hw_fence_utils_fence_error_cb cid (hf_ctx_id f) (hf_seq_id f) hash flags error d)
        else do {
          d1 \<leftarrow> (if cl_update_rxq c
                 then map_option snd (hw_fence_update_queue d cid (hf_ctx_id f) (hf_seq_id f) hash flags
                        client_data error (int HW_FENCE_RX_QUEUE - 1))
                 else Some d);
          Some (if cl_send_ipc c
                then hw_fence_ipcc_trigger_signal d1 (ipcc_client_pid d) (word_of_int (cl_ipc_client_vid c))
                       (word_of_int (cl_ipc_signal_id c))
                else d1) });
     if CONFIG_DEBUG_FS u \<and> is_val_client u (cl_client_id c)
     then map_option snd (process_validation_client_loopback u d2 (cl_client_id c))
     else Some d2 }"

section \<open>Join fences\<close>

definition hw_fence_process_join_fence ::
    "hw_fence_driver_data \<Rightarrow> dma_fence_array \<Rightarrow> bool \<Rightarrow> (nat option \<times> u64 option \<times> hw_fence_driver_data) option" where
  "hw_fence_process_join_fence d array create =
     (let context = df_context (da_base array); seqno = df_seqno (da_base array);
          pending_child_cnt = da_num_fences array; client_id = HW_FENCE_JOIN_FENCE_CLIENT_ID
      in if create then do {
           (r, hash, d') \<leftarrow> hw_fence_lookup_and_process d context seqno client_id pending_child_cnt
              HW_FENCE_LOOKUP_OP_CREATE_JOIN;
           Some (r, Some hash, d') }
         else do {
           (rc, d') \<leftarrow> hw_fence_cleanup d client_id context seqno;
           Some (None, None, d') })"

text \<open>The inner loop of \<open>_cleanup_join_and_child_fences\<close>, from \<open>j = parents_cnt\<close> down to 1.\<close>

definition unlink_slot :: "nat \<Rightarrow> u64 \<Rightarrow> msm_hw_fence \<Rightarrow> msm_hw_fence" where
  "unlink_slot j hash_join_fence f =
     (if hf_parent_list f ! (j - 1) = hash_join_fence
      then f\<lparr>hf_parent_list := (hf_parent_list f)[j - 1 := HW_FENCE_INVALID_PARENT_FENCE],
             hf_parents_cnt := (if hf_parents_cnt f \<noteq> 0 then hf_parents_cnt f - 1 else hf_parents_cnt f)\<rparr>
      else f)"

function unlink_parents :: "nat \<Rightarrow> u64 \<Rightarrow> msm_hw_fence \<Rightarrow> msm_hw_fence" where
  "unlink_parents j hash_join_fence f =
     (if j = 0 then f
      else (let j = (if j > MSM_HW_FENCE_MAX_JOIN_PARENTS then MSM_HW_FENCE_MAX_JOIN_PARENTS else j)
            in unlink_parents (j - 1) hash_join_fence (unlink_slot j hash_join_fence f)))"
  by pat_completeness auto
termination
  by (relation "measure fst") (auto simp: MSM_HW_FENCE_MAX_JOIN_PARENTS_def)

declare unlink_parents.simps [simp del]

text \<open>\<open>j\<close> is an \<open>int\<close>: a count with the top bit set starts the loop below 1.\<close>

definition unlink_child :: "u64 \<Rightarrow> msm_hw_fence \<Rightarrow> msm_hw_fence" where
  "unlink_child hash_join_fence f =
     unlink_parents (nat (sint (hf_parents_cnt f))) hash_join_fence f"

fun cleanup_children ::
    "u32 \<Rightarrow> dma_fence option list \<Rightarrow> u64 \<Rightarrow> nat list \<Rightarrow> hw_fence_driver_data \<Rightarrow> hw_fence_driver_data option" where
  "cleanup_children client_id fences hash_join_fence [] d = Some d"
| "cleanup_children client_id fences hash_join_fence (i # is) d = do {
     child \<leftarrow> idx fences i;
     (case child of
        None \<Rightarrow> cleanup_children client_id fences hash_join_fence is d
      | Some child_fence \<Rightarrow> do {
          (r, hash, d1) \<leftarrow> msm_hw_fence_find d client_id (df_context child_fence) (df_seqno child_fence);
          (case r of
             None \<Rightarrow> cleanup_children client_id fences hash_join_fence is d1
           | Some k \<Rightarrow> do {
               d2 \<leftarrow> fence_lock k d1;
               f \<leftarrow> idx (hw_fences_tbl d2) k;
               d3 \<leftarrow> fence_unlock k (set_fence k (unlink_child hash_join_fence f) d2);
               cleanup_children client_id fences hash_join_fence is d3 }) }) }"

definition cleanup_join_and_child_fences ::
    "hw_fence_driver_data \<Rightarrow> nat \<Rightarrow> nat \<Rightarrow> dma_fence_array \<Rightarrow> u64 \<Rightarrow> hw_fence_driver_data option" where
  "cleanup_join_and_child_fences d cid iteration array hash_join_fence = do {
     c \<leftarrow> get_client d cid;
     d1 \<leftarrow> (case da_fences array of
        None \<Rightarrow> Some d
      | Some fences \<Rightarrow> cleanup_children (cl_client_id c) fences hash_join_fence (rev [0..<Suc iteration]) d);
     (r, h, d2) \<leftarrow> hw_fence_process_join_fence d1 array False;
     Some d2 }"

text \<open>One child of the array: \<open>Inl ()\<close> for each jump to \<open>error_array\<close>, otherwise whether this
  child brought the pending count to zero.\<close>

definition join_child ::
    "hw_fence_uapi \<Rightarrow> u32 \<Rightarrow> nat \<Rightarrow> u64 \<Rightarrow> dma_fence option \<Rightarrow> hw_fence_driver_data \<Rightarrow>
     ((unit + bool) \<times> hw_fence_driver_data) option" where
  "join_child u client_id join hash_join_fence child d = (case child of
     None \<Rightarrow> None
   | Some child_fence \<Rightarrow>
      if df_is_array child_fence then Some (Inl (), d)
      else if \<not> bit (df_flags child_fence) (FLAG_ENABLED_BIT u) then Some (Inl (), d)
      else do {
        (r, hash, d1) \<leftarrow> msm_hw_fence_find d client_id (df_context child_fence) (df_seqno child_fence);
        (case r of
           None \<Rightarrow> Some (Inl (), d1)
         | Some k \<Rightarrow> do {
             d2 \<leftarrow> fence_lock k d1;
             f \<leftarrow> idx (hw_fences_tbl d2) k;
             if hf_flags f AND MSM_HW_FENCE_FLAG_SIGNAL \<noteq> 0 then do {
               d3 \<leftarrow> fence_lock join d2;
               jf \<leftarrow> idx (hw_fences_tbl d3) join;
               (let jf' = jf\<lparr>hf_error := hf_error jf OR hf_error f,
                             hf_pending_child_cnt := hf_pending_child_cnt jf - 1\<rparr> in do {
                  d4 \<leftarrow> fence_unlock join (set_fence join jf' d3);
                  d5 \<leftarrow> fence_unlock k d4;
                  Some (Inr (hf_pending_child_cnt jf' = 0), d5) }) }
             else
               (let cnt = hf_parents_cnt f + 1 in
                if cnt \<ge> of_nat MSM_HW_FENCE_MAX_JOIN_PARENTS \<or> cnt < 1 then do {
                  d3 \<leftarrow> fence_unlock k (set_fence k (f\<lparr>hf_parents_cnt := cnt - 1\<rparr>) d2);
                  Some (Inl (), d3) }
                else do {
                  d3 \<leftarrow> fence_unlock k (set_fence k (f\<lparr>hf_parents_cnt := cnt,
                     hf_parent_list := (hf_parent_list f)[unat (cnt - 1) := hash_join_fence]\<rparr>) d2);
                  Some (Inr False, d3) }) }) })"

text \<open>The loop over the array: \<open>Inl i\<close> when child \<open>i\<close> failed, otherwise \<open>signal_join_fence\<close>.\<close>

fun join_children ::
    "hw_fence_uapi \<Rightarrow> u32 \<Rightarrow> nat \<Rightarrow> u64 \<Rightarrow> dma_fence option list \<Rightarrow> nat list \<Rightarrow> bool \<Rightarrow> hw_fence_driver_data \<Rightarrow>
     ((nat + bool) \<times> hw_fence_driver_data) option" where
  "join_children u client_id join hash_join_fence fences [] sig d = Some (Inr sig, d)"
| "join_children u client_id join hash_join_fence fences (i # is) sig d = do {
     child \<leftarrow> idx fences i;
     (r, d') \<leftarrow> join_child u client_id join hash_join_fence child d;
     (case r of
        Inl _ \<Rightarrow> Some (Inl i, d')
      | Inr s \<Rightarrow> join_children u client_id join hash_join_fence fences is (sig \<or> s) d') }"

text \<open>\<open>hw_fence_process_fence_array\<close>: the return code, \<open>*hash_join_fence\<close> (\<^term>\<open>None\<close> when it is not
  written), and the array with its flags. The first definition is the part after the loop.\<close>

definition fence_array_done ::
    "hw_fence_uapi \<Rightarrow> hw_fence_driver_data \<Rightarrow> nat \<Rightarrow> dma_fence_array \<Rightarrow> u64 \<Rightarrow> nat \<Rightarrow> nat \<Rightarrow> u64 \<Rightarrow> bool \<Rightarrow>
     ((errno + unit) \<times> u64 option \<times> dma_fence_array \<times> hw_fence_driver_data) option" where
  "fence_array_done u d cid array client_data data_id join hash_join_fence signal_join_fence = do {
     jf \<leftarrow> idx (hw_fences_tbl d) join;
     (let d5 = (if client_data \<noteq> 0
                then set_fence join (jf\<lparr>hf_client_data := (hf_client_data jf)[data_id := client_data]\<rparr>) d
                else d) in
      if signal_join_fence then do {
        jf5 \<leftarrow> idx (hw_fences_tbl d5) join;
        d6 \<leftarrow> fence_ctl_signal u d5 cid join hash_join_fence 0 client_data (hf_error jf5);
        (r', h', d7) \<leftarrow> hw_fence_process_join_fence d6 array False;
        Some (Inr (), Some hash_join_fence,
          array\<lparr>da_base := (da_base array)\<lparr>df_flags :=
            set_bit (FLAG_SIGNALED_BIT u) (df_flags (da_base array))\<rparr>\<rparr>, d7) }
      else if da_num_fences array = 0 then do {
        d6 \<leftarrow> cleanup_join_and_child_fences d5 cid 0 array hash_join_fence;
        Some (Inl EINVAL, Some hash_join_fence, array, d6) }
      else Some (Inr (), Some hash_join_fence, array, d5)) }"

definition hw_fence_process_fence_array ::
    "hw_fence_uapi \<Rightarrow> hw_fence_driver_data \<Rightarrow> nat \<Rightarrow> dma_fence_array \<Rightarrow> u64 \<Rightarrow>
     ((errno + unit) \<times> u64 option \<times> dma_fence_array \<times> hw_fence_driver_data) option" where
  "hw_fence_process_fence_array u d cid array client_data = do {
     c \<leftarrow> get_client d cid;
     (let data_id = hw_fence_get_client_data_id u (cl_client_id_ext c) in
      if client_data \<noteq> 0 \<and> data_id \<ge> HW_FENCE_MAX_CLIENTS_WITH_DATA then Some (Inl EINVAL, None, array, d)
      else do {
        (r, h, d1) \<leftarrow> hw_fence_process_join_fence d array True;
        hash_join_fence \<leftarrow> h;
        (case r of
           None \<Rightarrow> Some (Inl EINVAL, Some hash_join_fence, array, d1)
         | Some join \<Rightarrow> do {
             d2 \<leftarrow> fence_lock join d1;
             jf \<leftarrow> idx (hw_fences_tbl d2) join;
             b \<leftarrow> BIT (cl_client_id c);
             d3 \<leftarrow> fence_unlock join (set_fence join (jf\<lparr>hf_wait_client_mask := hf_wait_client_mask jf OR b\<rparr>) d2);
             (res, d4) \<leftarrow> (if da_num_fences array = 0 then Some (Inr False, d3)
                else do {
                  fences \<leftarrow> da_fences array;
                  join_children u (cl_client_id c) join hash_join_fence fences [0..<unat (da_num_fences array)] False d3 });
             (case res of
                Inl i \<Rightarrow> do {
                  d5 \<leftarrow> cleanup_join_and_child_fences d4 cid i array hash_join_fence;
                  Some (Inl EINVAL, Some hash_join_fence, array, d5) }
              | Inr signal_join_fence \<Rightarrow>
                  fence_array_done u d4 cid array client_data data_id join hash_join_fence signal_join_fence) }) }) }"

section \<open>Waiting on a single fence\<close>

definition hw_fence_register_wait_client ::
    "hw_fence_uapi \<Rightarrow> hw_fence_driver_data \<Rightarrow> dma_fence option \<Rightarrow> nat \<Rightarrow> u64 \<Rightarrow> u64 \<Rightarrow> u64 \<Rightarrow>
     ((errno + unit) \<times> u64 option \<times> dma_fence option \<times> hw_fence_driver_data) option" where
  "hw_fence_register_wait_client u d fence cid context seqno client_data = do {
     c \<leftarrow> get_client d cid;
     (let data_id = hw_fence_get_client_data_id u (cl_client_id_ext c) in
      if client_data \<noteq> 0 \<and> data_id \<ge> HW_FENCE_MAX_CLIENTS_WITH_DATA then Some (Inl EINVAL, None, fence, d)
      else do {
        (r, hash, d1) \<leftarrow> msm_hw_fence_find d (cl_client_id c) context seqno;
        (case r of
           None \<Rightarrow> Some (Inl EINVAL, Some hash, fence, d1)
         | Some k \<Rightarrow> do {
             d2 \<leftarrow> fence_lock k d1;
             f \<leftarrow> idx (hw_fences_tbl d2) k;
             b \<leftarrow> BIT (cl_client_id c);
             (let (t, d3) = hw_fence_get_qtime d2;
                  f' = f\<lparr>hf_wait_client_mask := hf_wait_client_mask f OR b, hf_fence_wait_time := t,
                         hf_debug_refcount := hf_debug_refcount f + 1,
                         hf_client_data := (if client_data \<noteq> 0 then (hf_client_data f)[data_id := client_data]
                                            else hf_client_data f)\<rparr> in do {
                d4 \<leftarrow> fence_unlock k (set_fence k f' d3);
                if hf_flags f' AND MSM_HW_FENCE_FLAG_SIGNAL \<noteq> 0 then do {
                  d5 \<leftarrow> fence_ctl_signal u d4 cid k hash 0 client_data 0;
                  Some (Inr (), Some hash, map_option (\<lambda>fn. fn\<lparr>df_flags := set_bit (FLAG_SIGNALED_BIT u) (df_flags fn)\<rparr>) fence, d5) }
                else Some (Inr (), Some hash, fence, d4) }) }) }) }"

definition hw_fence_process_fence ::
    "hw_fence_uapi \<Rightarrow> hw_fence_driver_data \<Rightarrow> nat option \<Rightarrow> dma_fence option \<Rightarrow> u64 \<Rightarrow>
     ((errno + unit) \<times> u64 option \<times> dma_fence option \<times> hw_fence_driver_data) option" where
  "hw_fence_process_fence u d client fence client_data = (case (client, fence) of
     (Some cid, Some fn) \<Rightarrow>
       if \<not> bit (df_flags fn) (FLAG_ENABLED_BIT u) then Some (Inl EINVAL, None, fence, d)
       else hw_fence_register_wait_client u d fence cid (df_context fn) (df_seqno fn) client_data
   | _ \<Rightarrow> Some (Inl EINVAL, None, fence, d))"

section \<open>Notifying all waiters, and cleaning up a fence\<close>

text \<open>The loop variable runs over the client ids; \<open>client_data\<close> is declared outside the loop.\<close>

fun signal_waiters ::
    "hw_fence_uapi \<Rightarrow> nat \<Rightarrow> u64 \<Rightarrow> u32 \<Rightarrow> u64 \<Rightarrow> u32 list \<Rightarrow> hw_fence_driver_data \<Rightarrow> hw_fence_driver_data option" where
  "signal_waiters u i hash error client_data [] d = Some d"
| "signal_waiters u i hash error client_data (w # ws) d = do {
     f \<leftarrow> idx (hw_fences_tbl d) i;
     b \<leftarrow> BIT w;
     if hf_wait_client_mask f AND b \<noteq> 0 then do {
       slot \<leftarrow> idx (clients d) (unat w);
       (case slot of
          None \<Rightarrow> signal_waiters u i hash error client_data ws d
        | Some c \<Rightarrow>
            (let data_id = hw_fence_get_client_data_id u (cl_client_id_ext c);
                 client_data = (if data_id < HW_FENCE_MAX_CLIENTS_WITH_DATA then hf_client_data f ! data_id
                                else client_data) in do {
               d' \<leftarrow> fence_ctl_signal u d (unat w) i hash 0 client_data error;
               signal_waiters u i hash error client_data ws d' })) }
     else signal_waiters u i hash error client_data ws d }"

definition signal_all_wait_clients ::
    "hw_fence_uapi \<Rightarrow> hw_fence_driver_data \<Rightarrow> nat \<Rightarrow> u64 \<Rightarrow> u32 \<Rightarrow> hw_fence_driver_data option" where
  "signal_all_wait_clients u d i hash error =
     signal_waiters u i hash error 0 (map of_nat [0..<Suc (unat (rxq_clients_num d))]) d"

definition hw_fence_utils_cleanup_fence ::
    "hw_fence_uapi \<Rightarrow> hw_fence_driver_data \<Rightarrow> nat \<Rightarrow> nat \<Rightarrow> u64 \<Rightarrow> u32 \<Rightarrow>
     ((errno + unit) \<times> hw_fence_driver_data) option" where
  "hw_fence_utils_cleanup_fence u d cid i hash reset_flags =
     (let error = (if reset_flags AND RESET_WITHOUT_ERROR u \<noteq> 0 then 0 else ERROR_RESET u) in do {
        c \<leftarrow> get_client d cid;
        d1 \<leftarrow> fence_lock i d;
        f \<leftarrow> idx (hw_fences_tbl d1) i;
        b \<leftarrow> BIT (cl_client_id c);
        (let f' = (if hf_wait_client_mask f AND b \<noteq> 0
                   then f\<lparr>hf_wait_client_mask := hf_wait_client_mask f AND NOT b\<rparr> else f) in do {
           d2 \<leftarrow> fence_unlock i (set_fence i f' d1);
           if hf_fence_allocator f' \<noteq> cl_client_id c then Some (Inr (), d2)
           else do {
             d3 \<leftarrow> (if hf_flags f' AND MSM_HW_FENCE_FLAG_SIGNAL = 0
                    then signal_all_wait_clients u d2 i hash error else Some d2);
             if reset_flags AND RESET_WITHOUT_DESTROY u \<noteq> 0 then Some (Inr (), d3)
             else do {
               f3 \<leftarrow> idx (hw_fences_tbl d3) i;
               hw_fence_destroy d3 (cl_client_id c) (hf_ctx_id f3) (hf_seq_id f3) } } }) })"


section \<open>What a notification does\<close>

definition client_ok :: "nat \<Rightarrow> msm_hw_fence_client \<Rightarrow> bool" where
  "client_ok cid c \<longleftrightarrow> \<not> cl_error_cb_lock c \<and> unat (cl_client_id c) = cid \<and>
     (cl_update_rxq c \<longrightarrow> 1 < length (cl_queues c) \<and> 1 < cl_queues_num c \<and> queue_wf (cl_queues c ! 1))"

definition clients_ok :: "hw_fence_driver_data \<Rightarrow> bool" where
  "clients_ok d \<longleftrightarrow> list_all (\<lambda>w. lo32 w = 0) (client_lock_tbl d)
     \<and> unat (client_lock_tbl_cnt d) \<le> length (client_lock_tbl d)
     \<and> (\<forall>cid < length (clients d). \<forall>c. clients d ! cid = Some c \<longrightarrow> client_ok cid c)"

text \<open>The callback, the doorbell and the queue entry a notification of client \<open>c\<close> consists of.\<close>

definition takes_cb :: "msm_hw_fence_client \<Rightarrow> u32 \<Rightarrow> bool" where
  "takes_cb c error \<longleftrightarrow> error \<noteq> 0 \<and> cl_fence_error_cb c \<noteq> None"

definition notify_calls :: "msm_hw_fence_client \<Rightarrow> msm_hw_fence \<Rightarrow> u64 \<Rightarrow> u64 \<Rightarrow> u32 \<Rightarrow> error_cb_call list" where
  "notify_calls c f hash flags error = (if takes_cb c error
     then [\<lparr>cb_client = cl_client_id c, cb_hash = hash, cb_error = error, cb_context = hf_ctx_id f,
            cb_seqno = hf_seq_id f, cb_flags = flags, cb_data = cl_fence_error_cb_userdata c\<rparr>]
     else [])"

definition notify_bells :: "hw_fence_driver_data \<Rightarrow> msm_hw_fence_client \<Rightarrow> u32 \<Rightarrow> (u64 \<times> u32) list" where
  "notify_bells d c error = (if \<not> takes_cb c error \<and> cl_send_ipc c
     then [(IPC_PROTOCOLp_CLIENTc_SEND (ipcc_io_mem d) (protocol_id d) (ipcc_client_pid d),
            push_bit 16 (word_of_int (cl_ipc_client_vid c)) OR word_of_int (cl_ipc_signal_id c))]
     else [])"

definition rxq_takes :: "hw_fence_driver_data \<Rightarrow> msm_hw_fence_client \<Rightarrow> u32 \<Rightarrow> bool" where
  "rxq_takes d c error \<longleftrightarrow> \<not> takes_cb c error \<and> cl_update_rxq c \<and>
     cl_client_id c - 1 < client_lock_tbl_cnt d \<and>
     Suc (length (queue_contents (cl_queues c ! 1))) < q_entries (cl_queues c ! 1)"

definition rxq_after ::
    "hw_fence_driver_data \<Rightarrow> msm_hw_fence_client \<Rightarrow> u32 \<Rightarrow> (u32 \<Rightarrow> msm_hw_fence_queue_payload) \<Rightarrow>
     msm_hw_fence_queue list \<Rightarrow> bool" where
  "rxq_after d c error msg qs \<longleftrightarrow>
     (if rxq_takes d c error
      then \<exists>q rsv. qs = (cl_queues c)[1 := q] \<and> queue_wf q \<and> queue_contents q = queue_contents (cl_queues c ! 1) @ [msg rsv]
      else qs = cl_queues c)"

definition notified ::
    "hw_fence_uapi \<Rightarrow> nat \<Rightarrow> nat \<Rightarrow> u64 \<Rightarrow> u64 \<Rightarrow> u64 \<Rightarrow> u32 \<Rightarrow> hw_fence_driver_data \<Rightarrow> hw_fence_driver_data \<Rightarrow> bool" where
  "notified u cid i hash flags client_data error d d' \<longleftrightarrow> (\<exists>c qs n.
     clients d ! cid = Some c \<and>
     d' = d\<lparr>clients := (clients d)[cid := Some (c\<lparr>cl_queues := qs,
              cl_val_signal := (if CONFIG_DEBUG_FS u \<and> is_val_client u (cl_client_id c) then 1 else cl_val_signal c)\<rparr>)],
            qtime_reads := n,
            ipcc_writes := ipcc_writes d @ notify_bells d c error,
            error_cb_calls := error_cb_calls d @ notify_calls c (hw_fences_tbl d ! i) hash flags error\<rparr> \<and>
     rxq_after d c error (new_payload (hf_ctx_id (hw_fences_tbl d ! i)) (hf_seq_id (hw_fences_tbl d ! i))
       hash flags client_data error (qtimer d (qtime_reads d))) qs)"

lemma update_rxq_eq:
  assumes fr: "locks_free d" and ok: "clients_ok d" and c: "get_client d cid = Some c" and up: "cl_update_rxq c"
    and nb: "\<not> takes_cb c er"
  shows "\<exists>rc qs n. hw_fence_update_queue d cid cx sq hs fl cd er 1 =
      Some (rc, d\<lparr>clients := (clients d)[cid := Some (c\<lparr>cl_queues := qs\<rparr>)], qtime_reads := n\<rparr>) \<and>
    rxq_after d c er (new_payload cx sq hs fl cd er (qtimer d (qtime_reads d))) qs"
proof -
  have ci: "cid < length (clients d)" "clients d ! cid = Some c" using c get_client_Some_iff by blast+
  with ok up have q: "1 < length (cl_queues c)" "1 < cl_queues_num c" "queue_wf (cl_queues c ! 1)"
    and len: "unat (client_lock_tbl_cnt d) \<le> length (client_lock_tbl d)"
    by (auto simp: clients_ok_def client_ok_def)
  let ?q = "cl_queues c ! 1"
  from update_queue_locked_spec[OF q(3), of cx sq hs fl cd er "qtimer d (qtime_reads d)"]
  obtain rc q' where res: "update_queue_locked ?q cx sq hs fl cd er (qtimer d (qtime_reads d)) = Some (rc, q')"
    and wf': "queue_wf q'" and rc: "if Suc (length (queue_contents ?q)) < q_entries ?q
     then rc = Inr () \<and> (\<exists>rsv. queue_contents q' = queue_contents ?q @
        [new_payload cx sq hs fl cd er (qtimer d (qtime_reads d)) rsv])
     else rc = Inl EINVAL \<and> q' = ?q" by blast
  have hd: "q_va_header ?q \<noteq> None"
    using q(3) by (auto simp: queue_wf_def queue_ok_def split: option.splits)
  have sq: "set_queue cid 1 q d = d\<lparr>clients := (clients d)[cid := Some (c\<lparr>cl_queues := (cl_queues c)[1 := q]\<rparr>)]\<rparr>" for q
    using c by (simp add: set_queue_def set_client_def)
  have same: "d\<lparr>clients := (clients d)[cid := Some (c\<lparr>cl_queues := cl_queues c\<rparr>)], qtime_reads := qtime_reads d\<rparr> = d"
    using ci by (simp flip: ci(2))
  show ?thesis
  proof (cases "rxq_takes d c er")
    case True
    then have rc': "rc = Inr ()" and lk: "\<not> client_lock_tbl_cnt d \<le> cl_client_id c - 1"
      using rc by (auto simp: rxq_takes_def)
    have "hw_fence_update_queue d cid cx sq hs fl cd er 1 =
      Some (rc, d\<lparr>clients := (clients d)[cid := Some (c\<lparr>cl_queues := (cl_queues c)[1 := q']\<rparr>)], qtime_reads := Suc (qtime_reads d)\<rparr>)"
      using hw_fence_update_queue_eq[OF c, of 1 ?q cx sq hs fl cd er rc q'] q hd fr len res lk rc' by (simp add: sq[unfolded One_nat_def])
    with True rc wf' show ?thesis
      by (auto simp: rxq_after_def rxq_takes_def)
  next
    case False
    then have "hw_fence_update_queue d cid cx sq hs fl cd er 1 = Some (Inl EINVAL, d)"
      using hw_fence_update_queue_eq[OF c, of 1 ?q cx sq hs fl cd er rc q'] q hd fr len res rc up nb
      by (auto simp: rxq_takes_def)
    with False same show ?thesis
      by (intro exI[of _ "Inl EINVAL"] exI[of _ "cl_queues c"] exI[of _ "qtime_reads d"])
         (simp add: rxq_after_def)
  qed
qed

lemma fence_ctl_signal_ok:
  assumes fr: "locks_free d" and ok: "clients_ok d" and c: "get_client d cid = Some c" and i: "i < length (hw_fences_tbl d)"
  shows "\<exists>d'. fence_ctl_signal u d cid i hash flags cd er = Some d' \<and> notified u cid i hash flags cd er d d'"
proof -
  have ci: "cid < length (clients d)" "clients d ! cid = Some c" using c get_client_Some_iff by blast+
  have cok: "client_ok cid c" using ok ci by (simp add: clients_ok_def)
  let ?f = "hw_fences_tbl d ! i"
  let ?msg = "new_payload (hf_ctx_id ?f) (hf_seq_id ?f) hash flags cd er (qtimer d (qtime_reads d))"
  define mid where "mid qs n = d\<lparr>clients := (clients d)[cid := Some (c\<lparr>cl_queues := qs\<rparr>)], qtime_reads := n,
      ipcc_writes := ipcc_writes d @ notify_bells d c er,
      error_cb_calls := error_cb_calls d @ notify_calls c ?f hash flags er\<rparr>" for qs n
  have same: "mid (cl_queues c) (qtime_reads d) = d\<lparr>ipcc_writes := ipcc_writes d @ notify_bells d c er,
      error_cb_calls := error_cb_calls d @ notify_calls c ?f hash flags er\<rparr>"
    using ci by (simp add: mid_def flip: ci(2))
  have loop: "(if CONFIG_DEBUG_FS u \<and> is_val_client u (cl_client_id c)
      then map_option snd (process_validation_client_loopback u (mid qs n) (cl_client_id c)) else Some (mid qs n)) =
      Some ((mid qs n)\<lparr>clients := (clients d)[cid := Some (c\<lparr>cl_queues := qs,
        cl_val_signal := (if CONFIG_DEBUG_FS u \<and> is_val_client u (cl_client_id c) then 1 else cl_val_signal c)\<rparr>)]\<rparr>)" for qs n
    using cok ci by (auto simp: process_validation_client_loopback_def mid_def client_ok_def set_client_def)
  have key: "\<exists>qs n. rxq_after d c er ?msg qs \<and> fence_ctl_signal u d cid i hash flags cd er =
     (if CONFIG_DEBUG_FS u \<and> is_val_client u (cl_client_id c)
      then map_option snd (process_validation_client_loopback u (mid qs n) (cl_client_id c)) else Some (mid qs n))"
  proof (cases "takes_cb c er")
    case True
    then obtain cb where cb: "er \<noteq> 0" "cl_fence_error_cb c = Some cb" by (auto simp: takes_cb_def)
    have "fence_ctl_signal u d cid i hash flags cd er =
     (if CONFIG_DEBUG_FS u \<and> is_val_client u (cl_client_id c)
      then map_option snd (process_validation_client_loopback u (mid (cl_queues c) (qtime_reads d)) (cl_client_id c))
      else Some (mid (cl_queues c) (qtime_reads d)))"
      unfolding same using c i cok cb
      by (simp add: fence_ctl_signal_def takes_cb_def hw_fence_utils_fence_error_cb_def notify_calls_def
          notify_bells_def client_ok_def split del: if_split cong: if_cong)
    moreover have "rxq_after d c er ?msg (cl_queues c)" using True by (simp add: rxq_after_def rxq_takes_def)
    ultimately show ?thesis by blast
  next
    case False
    have rx: "\<exists>qs n. (if cl_update_rxq c
          then map_option snd (hw_fence_update_queue d cid (hf_ctx_id ?f) (hf_seq_id ?f) hash flags cd er 1)
          else Some d) = Some (d\<lparr>clients := (clients d)[cid := Some (c\<lparr>cl_queues := qs\<rparr>)], qtime_reads := n\<rparr>) \<and>
        rxq_after d c er ?msg qs"
    proof (cases "cl_update_rxq c")
      case True
      with update_rxq_eq[OF fr ok c True False, of "hf_ctx_id ?f" "hf_seq_id ?f" hash flags cd] show ?thesis by auto
    next
      case False
      then show ?thesis
        using ci by (intro exI[of _ "cl_queues c"] exI[of _ "qtime_reads d"])
          (simp add: rxq_after_def rxq_takes_def flip: ci(2))
    qed
    then obtain qs n where rx: "(if cl_update_rxq c
          then map_option snd (hw_fence_update_queue d cid (hf_ctx_id ?f) (hf_seq_id ?f) hash flags cd er 1)
          else Some d) = Some (d\<lparr>clients := (clients d)[cid := Some (c\<lparr>cl_queues := qs\<rparr>)], qtime_reads := n\<rparr>)"
        "rxq_after d c er ?msg qs" by blast
    have "fence_ctl_signal u d cid i hash flags cd er =
     (if CONFIG_DEBUG_FS u \<and> is_val_client u (cl_client_id c)
      then map_option snd (process_validation_client_loopback u (mid qs n) (cl_client_id c)) else Some (mid qs n))"
    proof -
      have nc: "\<not> (er \<noteq> 0 \<and> cl_fence_error_cb c \<noteq> None)" using False by (simp add: takes_cb_def)
      have qt: "int HW_FENCE_RX_QUEUE - 1 = 1" by (simp add: HW_FENCE_RX_QUEUE_def)
      have bell: "(if cl_send_ipc c then hw_fence_ipcc_trigger_signal
            (d\<lparr>clients := (clients d)[cid := Some (c\<lparr>cl_queues := qs\<rparr>)], qtime_reads := n\<rparr>) (ipcc_client_pid d)
            (word_of_int (cl_ipc_client_vid c)) (word_of_int (cl_ipc_signal_id c))
          else d\<lparr>clients := (clients d)[cid := Some (c\<lparr>cl_queues := qs\<rparr>)], qtime_reads := n\<rparr>) = mid qs n"
        using False by (simp add: mid_def notify_bells_def notify_calls_def hw_fence_ipcc_trigger_signal_def Let_def)
      show ?thesis
        unfolding fence_ctl_signal_def c Option.bind.bind_lunit idx_Some[OF i] if_not_P[OF nc] qt rx(1) bell ..
    qed
    with rx(2) show ?thesis by blast
  qed
  then obtain qs n where q: "rxq_after d c er ?msg qs" "fence_ctl_signal u d cid i hash flags cd er =
      Some ((mid qs n)\<lparr>clients := (clients d)[cid := Some (c\<lparr>cl_queues := qs,
        cl_val_signal := (if CONFIG_DEBUG_FS u \<and> is_val_client u (cl_client_id c) then 1 else cl_val_signal c)\<rparr>)]\<rparr>)"
    using loop by auto
  have "notified u cid i hash flags cd er d ((mid qs n)\<lparr>clients := (clients d)[cid := Some (c\<lparr>cl_queues := qs,
        cl_val_signal := (if CONFIG_DEBUG_FS u \<and> is_val_client u (cl_client_id c) then 1 else cl_val_signal c)\<rparr>)]\<rparr>)"
    unfolding notified_def
    by (rule exI[of _ c], rule exI[of _ qs], rule exI[of _ n]) (use ci(2) q(1) in \<open>simp add: mid_def\<close>)
  with q(2) show ?thesis by blast
qed


text \<open>Notifications change nothing but the clients, the timer reads and the two logs.\<close>

definition sig_frame :: "hw_fence_driver_data \<Rightarrow> hw_fence_driver_data \<Rightarrow> bool" where
  "sig_frame d d' \<longleftrightarrow> (\<exists>cs n W C. d' = d\<lparr>clients := cs, qtime_reads := n,
     ipcc_writes := W, error_cb_calls := C\<rparr> \<and> length cs = length (clients d))"

lemma sig_frame_refl [simp]: "sig_frame d d"
  unfolding sig_frame_def
  by (rule exI[of _ "clients d"], rule exI[of _ "qtime_reads d"], rule exI[of _ "ipcc_writes d"],
      rule exI[of _ "error_cb_calls d"]) simp

lemma sig_frame_trans: "sig_frame d d' \<Longrightarrow> sig_frame d' d'' \<Longrightarrow> sig_frame d d''"
  unfolding sig_frame_def by fastforce

lemma sig_frame_keeps:
  assumes "sig_frame d d'"
  shows "hw_fences_tbl d' = hw_fences_tbl d" "client_lock_tbl d' = client_lock_tbl d"
    "client_lock_tbl_cnt d' = client_lock_tbl_cnt d" "hw_fence_table_entries d' = hw_fence_table_entries d"
    "rxq_clients_num d' = rxq_clients_num d" "length (clients d') = length (clients d)"
    "ipcc_io_mem d' = ipcc_io_mem d" "protocol_id d' = protocol_id d" "ipcc_client_pid d' = ipcc_client_pid d"
    "clients_num d' = clients_num d" "qtimer d' = qtimer d"
  using assms by (auto simp: sig_frame_def)

lemma notify_bells_frame: "sig_frame d d' \<Longrightarrow> notify_bells d' c e = notify_bells d c e"
  by (simp add: notify_bells_def sig_frame_keeps)

lemma rxq_takes_frame: "sig_frame d d' \<Longrightarrow> rxq_takes d' c e = rxq_takes d c e"
  by (simp add: rxq_takes_def sig_frame_keeps)

lemma locks_free_frame: "sig_frame d d' \<Longrightarrow> locks_free d' = locks_free d"
  by (simp add: locks_free_def sig_frame_keeps)

lemma table_inv_frame: "sig_frame d d' \<Longrightarrow> table_inv d' = table_inv d"
  by (simp add: table_inv_def table_wf_def sig_frame_keeps)

lemma fence_view_frame: "sig_frame d d' \<Longrightarrow> fence_view d' = fence_view d"
  by (rule ext) (simp add: fence_view_def sig_frame_keeps)

lemma notified_frame: "notified u cid i hash flags cd er d d' \<Longrightarrow> sig_frame d d'"
  unfolding notified_def sig_frame_def by fastforce

lemma notifiedE:
  assumes "notified u cid i hash flags cd er d d'"
  obtains c c' t rsv where "clients d ! cid = Some c" "clients d' = (clients d)[cid := Some c']"
    "ipcc_writes d' = ipcc_writes d @ notify_bells d c er"
    "error_cb_calls d' = error_cb_calls d @ notify_calls c (hw_fences_tbl d ! i) hash flags er"
    "c' = c\<lparr>cl_queues := cl_queues c', cl_val_signal := cl_val_signal c'\<rparr>"
    "rxq_after d c er (new_payload (hf_ctx_id (hw_fences_tbl d ! i)) (hf_seq_id (hw_fences_tbl d ! i))
       hash flags cd er (qtimer d (qtime_reads d))) (cl_queues c')"
  using assms unfolding notified_def by auto

lemma notified_clients_ok:
  assumes n: "notified u cid i hash flags cd er d d'" and ok: "clients_ok d" and ci: "cid < length (clients d)"
  shows "clients_ok d'"
proof -
  note fr = notified_frame[OF n]
  from n obtain c c' where c: "clients d ! cid = Some c" "clients d' = (clients d)[cid := Some c']"
    "c' = c\<lparr>cl_queues := cl_queues c', cl_val_signal := cl_val_signal c'\<rparr>"
    and rx: "rxq_after d c er (new_payload (hf_ctx_id (hw_fences_tbl d ! i)) (hf_seq_id (hw_fences_tbl d ! i))
       hash flags cd er (qtimer d (qtime_reads d))) (cl_queues c')" by (rule notifiedE)
  have cok: "client_ok cid c" using ok ci c(1) by (simp add: clients_ok_def)
  have same: "cl_error_cb_lock c' = cl_error_cb_lock c" "cl_client_id c' = cl_client_id c"
    "cl_update_rxq c' = cl_update_rxq c" "cl_queues_num c' = cl_queues_num c"
    by (subst c(3), simp)+
  have "length (cl_queues c') = length (cl_queues c)"
    "cl_update_rxq c \<Longrightarrow> queue_wf (cl_queues c' ! 1)"
    using rx cok by (auto simp: rxq_after_def client_ok_def split: if_splits)
  then have "client_ok cid c'" using cok same by (auto simp: client_ok_def)
  with ok c(2) show ?thesis
    by (auto simp: clients_ok_def sig_frame_keeps[OF fr] nth_list_update_both[OF ci] split: if_splits)
qed

section \<open>Notifying all waiters\<close>

definition waiting :: "hw_fence_driver_data \<Rightarrow> nat \<Rightarrow> u32 list \<Rightarrow> u32 list" where
  "waiting d i ws = filter (\<lambda>w. bit (hf_wait_client_mask (hw_fences_tbl d ! i)) (unat w) \<and> clients d ! unat w \<noteq> None) ws"

lemma signal_waiters_ok:
  assumes "locks_free d" and "clients_ok d" and "i < length (hw_fences_tbl d)"
    and "\<forall>w \<in> set ws. unat w < 64 \<and> unat w < length (clients d)" and "distinct ws"
  shows "\<exists>d'. signal_waiters u i hash er cd ws d = Some d' \<and> sig_frame d d' \<and> clients_ok d' \<and>
    error_cb_calls d' = error_cb_calls d @
      concat (map (\<lambda>w. notify_calls (the (clients d ! unat w)) (hw_fences_tbl d ! i) hash 0 er) (waiting d i ws)) \<and>
    ipcc_writes d' = ipcc_writes d @ concat (map (\<lambda>w. notify_bells d (the (clients d ! unat w)) er) (waiting d i ws)) \<and>
    (\<forall>k. k \<notin> unat ` set (waiting d i ws) \<longrightarrow> clients d' ! k = clients d ! k) \<and>
    (\<forall>w \<in> set (waiting d i ws). \<exists>c' cd' t. clients d' ! unat w = Some c' \<and>
       rxq_after d (the (clients d ! unat w)) er (new_payload (hf_ctx_id (hw_fences_tbl d ! i))
         (hf_seq_id (hw_fences_tbl d ! i)) hash 0 cd' er t) (cl_queues c'))"
  using assms
proof (induction ws arbitrary: d cd)
  case Nil
  then show ?case by (simp add: waiting_def)
next
  case (Cons w ws)
  let ?f = "hw_fences_tbl d ! i"
  have w: "unat w < 64" "unat w < length (clients d)" "w \<notin> set ws" "distinct ws"
    "\<forall>w \<in> set ws. unat w < 64 \<and> unat w < length (clients d)" using Cons.prems by auto
  have m: "hf_wait_client_mask ?f AND push_bit (unat w) 1 \<noteq> 0 \<longleftrightarrow> bit (hf_wait_client_mask ?f) (unat w)"
    using and_bit_nonzero_iff[OF w(1)] by simp
  show ?case
  proof (cases "bit (hf_wait_client_mask ?f) (unat w) \<and> clients d ! unat w \<noteq> None")
    case False
    then have "signal_waiters u i hash er cd (w # ws) d = signal_waiters u i hash er cd ws d"
      using Cons.prems(3) w(1,2) m by auto
    moreover have "waiting d i (w # ws) = waiting d i ws" using False by (auto simp: waiting_def)
    ultimately show ?thesis using Cons.IH[OF Cons.prems(1-3) w(5,4), of cd] by simp
  next
    case True
    then obtain c where c: "clients d ! unat w = Some c" by auto
    then have gc: "get_client d (unat w) = Some c" using w(2) get_client_Some_iff by blast
    define cd1 where "cd1 = (let data_id = hw_fence_get_client_data_id u (cl_client_id_ext c) in
      if data_id < HW_FENCE_MAX_CLIENTS_WITH_DATA then hf_client_data ?f ! data_id else cd)"
    obtain d1 where d1: "fence_ctl_signal u d (unat w) i hash 0 cd1 er = Some d1"
      and n: "notified u (unat w) i hash 0 cd1 er d d1"
      using fence_ctl_signal_ok[OF Cons.prems(1,2) gc Cons.prems(3)] by blast
    note fr = notified_frame[OF n]
    note keep = sig_frame_keeps[OF fr]
    from n c obtain c1 where c1: "clients d1 = (clients d)[unat w := Some c1]"
      "ipcc_writes d1 = ipcc_writes d @ notify_bells d c er"
      "error_cb_calls d1 = error_cb_calls d @ notify_calls c ?f hash 0 er"
      "rxq_after d c er (new_payload (hf_ctx_id ?f) (hf_seq_id ?f) hash 0 cd1 er (qtimer d (qtime_reads d))) (cl_queues c1)"
      by (auto elim!: notifiedE)
    have oth: "clients d1 ! unat v = clients d ! unat v" if "v \<in> set ws" for v
      using that w(3) c1(1) by (metis nth_list_update_neq word_eq_iff_unsigned)
    then have wt: "waiting d1 i ws = waiting d i ws"
      unfolding waiting_def keep(1) by (intro filter_cong) auto
    have st: "signal_waiters u i hash er cd (w # ws) d = signal_waiters u i hash er cd1 ws d1"
      using Cons.prems(3) w(1,2) m True c d1 by (simp add: cd1_def Let_def)
    have wn: "unat w \<notin> unat ` set (waiting d i ws)"
      using w(3) by (auto simp: waiting_def word_eq_iff_unsigned[symmetric])
    have "\<exists>d'. signal_waiters u i hash er cd1 ws d1 = Some d' \<and> sig_frame d1 d' \<and> clients_ok d' \<and>
      error_cb_calls d' = error_cb_calls d1 @
        concat (map (\<lambda>w. notify_calls (the (clients d1 ! unat w)) (hw_fences_tbl d1 ! i) hash 0 er) (waiting d1 i ws)) \<and>
      ipcc_writes d' = ipcc_writes d1 @ concat (map (\<lambda>w. notify_bells d1 (the (clients d1 ! unat w)) er) (waiting d1 i ws)) \<and>
      (\<forall>k. k \<notin> unat ` set (waiting d1 i ws) \<longrightarrow> clients d' ! k = clients d1 ! k) \<and>
      (\<forall>w \<in> set (waiting d1 i ws). \<exists>c' cd' t. clients d' ! unat w = Some c' \<and>
         rxq_after d1 (the (clients d1 ! unat w)) er (new_payload (hf_ctx_id (hw_fences_tbl d1 ! i))
           (hf_seq_id (hw_fences_tbl d1 ! i)) hash 0 cd' er t) (cl_queues c'))"
      by (rule Cons.IH) (use Cons.prems keep locks_free_frame[OF fr] notified_clients_ok[OF n Cons.prems(2) w(2)] w in simp_all)
    then obtain d' where d': "signal_waiters u i hash er cd1 ws d1 = Some d'" "sig_frame d1 d'" "clients_ok d'"
      "error_cb_calls d' = error_cb_calls d1 @
        concat (map (\<lambda>w. notify_calls (the (clients d1 ! unat w)) ?f hash 0 er) (waiting d i ws))"
      "ipcc_writes d' = ipcc_writes d1 @ concat (map (\<lambda>w. notify_bells d (the (clients d1 ! unat w)) er) (waiting d i ws))"
      "\<And>k. k \<notin> unat ` set (waiting d i ws) \<Longrightarrow> clients d' ! k = clients d1 ! k"
      "\<And>w. w \<in> set (waiting d i ws) \<Longrightarrow> \<exists>c' cd' t. clients d' ! unat w = Some c' \<and>
         rxq_after d (the (clients d1 ! unat w)) er (new_payload (hf_ctx_id ?f) (hf_seq_id ?f) hash 0 cd' er t) (cl_queues c')"
      unfolding wt keep(1) notify_bells_frame[OF fr] rxq_after_def rxq_takes_frame[OF fr] by auto
    have ws: "v \<in> set (waiting d i ws) \<Longrightarrow> clients d1 ! unat v = clients d ! unat v" for v
      using oth by (simp add: waiting_def)
    have wc: "waiting d i (w # ws) = w # waiting d i ws" using True by (simp add: waiting_def)
    have cat: "concat (map (\<lambda>w. g (the (clients d1 ! unat w))) (waiting d i ws)) =
        concat (map (\<lambda>w. g (the (clients d ! unat w))) (waiting d i ws))" for g :: "msm_hw_fence_client \<Rightarrow> 'x list"
      using ws by (metis (mono_tags, lifting) map_cong)
    show ?thesis
      unfolding st wc
    proof (intro exI[of _ d'] conjI ballI allI impI)
      show "sig_frame d d'" by (rule sig_frame_trans[OF fr d'(2)])
      show "error_cb_calls d' = error_cb_calls d @ concat (map (\<lambda>w. notify_calls (the (clients d ! unat w)) ?f hash 0 er) (w # waiting d i ws))"
        using d'(4) c1(3) c cat[of "\<lambda>c. notify_calls c ?f hash 0 er"] by simp
      show "ipcc_writes d' = ipcc_writes d @ concat (map (\<lambda>w. notify_bells d (the (clients d ! unat w)) er) (w # waiting d i ws))"
        using d'(5) c1(2) c cat[of "\<lambda>c. notify_bells d c er"] by simp
      show "clients d' ! k = clients d ! k" if "k \<notin> unat ` set (w # waiting d i ws)" for k
        using that d'(6)[of k] c1(1) by simp
      show "\<exists>c' cd' t. clients d' ! unat v = Some c' \<and> rxq_after d (the (clients d ! unat v)) er
         (new_payload (hf_ctx_id ?f) (hf_seq_id ?f) hash 0 cd' er t) (cl_queues c')" if "v \<in> set (w # waiting d i ws)" for v
      proof (cases "v = w")
        case True
        with d'(6)[OF wn] c1(1,4) c w(2) show ?thesis by auto
      next
        case False
        with that d'(7)[of v] ws[of v] show ?thesis by simp
      qed
    qed (use d'(1,3) in auto)
  qed
qed


section \<open>Sections under a fence lock\<close>

definition lock_blind :: "(msm_hw_fence \<Rightarrow> msm_hw_fence) \<Rightarrow> bool" where
  "lock_blind g \<longleftrightarrow> (\<forall>f l. g (f\<lparr>hf_lock := l\<rparr>) = (g f)\<lparr>hf_lock := l\<rparr>)"

lemma lock_blind_lock: "lock_blind g \<Longrightarrow> hf_lock (g f) = hf_lock f"
  unfolding lock_blind_def by (metis msm_hw_fence.select_convs(8) msm_hw_fence.surjective msm_hw_fence.update_convs(8))

text \<open>Locking an entry, editing it and unlocking it again is just the edit.\<close>

lemma fence_section:
  assumes wf: "table_wf d" and k: "k < table_size d" and g: "lock_blind g"
  obtains l where "fence_lock k d = Some (set_fence k ((hw_fences_tbl d ! k)\<lparr>hf_lock := l\<rparr>) d)"
    and "idx (hw_fences_tbl (set_fence k ((hw_fences_tbl d ! k)\<lparr>hf_lock := l\<rparr>) d)) k = Some ((hw_fences_tbl d ! k)\<lparr>hf_lock := l\<rparr>)"
    and "fence_unlock k (set_fence k (g ((hw_fences_tbl d ! k)\<lparr>hf_lock := l\<rparr>)) d) = Some (set_fence k (g (hw_fences_tbl d ! k)) d)"
proof -
  let ?f = "hw_fences_tbl d ! k"
  let ?l = "mk64 1 (hi32 (hf_lock ?f))"
  note t = table_wfD[OF wf k]
  have "fence_unlock k (set_fence k (g (?f\<lparr>hf_lock := ?l\<rparr>)) d) = Some (set_fence k ((g ?f)\<lparr>hf_lock := hf_lock ?f\<rparr>) d)"
    using fence_unlock_ok[OF t, of "g ?f"] g by (simp add: lock_blind_def)
  also have "(g ?f)\<lparr>hf_lock := hf_lock ?f\<rparr> = g ?f" by (simp flip: lock_blind_lock[OF g, of ?f])
  finally show ?thesis using that[of ?l] fence_lock_ok[OF wf k] t(1) by simp
qed

lemma locks_free_split: "table_wf d \<Longrightarrow> clients_ok d \<Longrightarrow> locks_free d"
  by (simp add: locks_free_def table_wf_def clients_ok_def)

text \<open>Editing an entry in use without touching its key, validity or lock.\<close>

lemma table_inv_edit:
  assumes inv: "table_inv d" and k: "k < table_size d" and v: "hf_valid (hw_fences_tbl d ! k) \<noteq> 0"
    and f: "hf_valid f = hf_valid (hw_fences_tbl d ! k)" "fence_key f = fence_key (hw_fences_tbl d ! k)"
      "hf_lock f = hf_lock (hw_fences_tbl d ! k)"
    and d': "hw_fences_tbl d' = (hw_fences_tbl d)[k := f]" "hw_fence_table_entries d' = hw_fence_table_entries d"
  shows "table_inv d'" and "fence_view d' = (fence_view d)(fence_key f \<mapsto> f)"
proof -
  show inv': "table_inv d'"
  proof (rule table_inv_set[OF inv k _ _ _ d'])
    show "fence_free f" using table_wfD(2)[OF table_inv_wf[OF inv] k] f(3) by (simp add: fence_free_def)
    show "hf_valid f = 0 \<longleftrightarrow> fence_key f = (0, 0)" using table_inv_valid[OF inv k] f by simp
    show "hf_valid f = 0" if "j < table_size d" "j \<noteq> k" "hf_valid (hw_fences_tbl d ! j) \<noteq> 0"
      "fence_key (hw_fences_tbl d ! j) = fence_key f" for j
      using table_inv_slot[OF inv that(1) k that(3)] that f(2) v by simp
  qed
  show "fence_view d' = (fence_view d)(fence_key f \<mapsto> f)"
    using fence_view_update[OF inv inv' k d' v] f v by simp
qed

section \<open>Registering a waiting client\<close>

definition wait_entry :: "u32 \<Rightarrow> u64 \<Rightarrow> nat \<Rightarrow> u64 \<Rightarrow> msm_hw_fence \<Rightarrow> msm_hw_fence" where
  "wait_entry client_id t data_id client_data f =
     f\<lparr>hf_wait_client_mask := set_bit (unat client_id) (hf_wait_client_mask f), hf_fence_wait_time := t,
       hf_debug_refcount := hf_debug_refcount f + 1,
       hf_client_data := (if client_data \<noteq> 0 then (hf_client_data f)[data_id := client_data] else hf_client_data f)\<rparr>"

abbreviation signaled :: "msm_hw_fence \<Rightarrow> bool" where
  "signaled f \<equiv> hf_flags f AND MSM_HW_FENCE_FLAG_SIGNAL \<noteq> 0"

lemma or_push_bit: "(w :: u64) OR push_bit n 1 = set_bit n w"
  by (simp add: set_bit_eq_or)

lemma wait_entry_simps [simp]:
  "hf_valid (wait_entry c t i cd f) = hf_valid f" "fence_key (wait_entry c t i cd f) = fence_key f"
  "hf_lock (wait_entry c t i cd f) = hf_lock f" "hf_flags (wait_entry c t i cd f) = hf_flags f"
  by (simp_all add: wait_entry_def fence_key_def)

lemma wait_entry_blind: "lock_blind (wait_entry c t i cd)"
  by (simp add: lock_blind_def wait_entry_def)

lemma set_fence_qtime: "set_fence k f (d\<lparr>qtime_reads := n\<rparr>) = (set_fence k f d)\<lparr>qtime_reads := n\<rparr>"
  by (simp add: set_fence_def)

lemma register_wait_spec:
  assumes inv: "table_inv d" and lk: "legal_key (cx, sq)" and ok: "clients_ok d"
    and c: "get_client d cid = Some c" and b: "unat (cl_client_id c) < 64"
    and data: "cd = 0 \<or> hw_fence_get_client_data_id u (cl_client_id_ext c) < HW_FENCE_MAX_CLIENTS_WITH_DATA"
  shows "case fence_view d (cx, sq) of
      None \<Rightarrow> \<exists>h. hw_fence_register_wait_client u d fence cid cx sq cd = Some (Inl EINVAL, Some h, fence, d)
    | Some f \<Rightarrow> \<exists>i d1 d' fence'. i < table_size d \<and> hw_fences_tbl d ! i = f \<and>
        d1 = (set_fence i (wait_entry (cl_client_id c) (qtimer d (qtime_reads d))
            (hw_fence_get_client_data_id u (cl_client_id_ext c)) cd f) d)\<lparr>qtime_reads := Suc (qtime_reads d)\<rparr> \<and>
        hw_fence_register_wait_client u d fence cid cx sq cd = Some (Inr (), Some (of_nat i), fence', d') \<and>
        table_inv d' \<and> clients_ok d' \<and>
        fence_view d' = (fence_view d)((cx, sq) \<mapsto> hw_fences_tbl d1 ! i) \<and>
        (if signaled f
         then notified u cid i (of_nat i) 0 cd 0 d1 d' \<and>
           fence' = map_option (\<lambda>fn. fn\<lparr>df_flags := set_bit (FLAG_SIGNALED_BIT u) (df_flags fn)\<rparr>) fence
         else d' = d1 \<and> fence' = fence)"
proof (cases "fence_view d (cx, sq)")
  case None
  with msm_hw_fence_find_spec[OF inv lk, of "cl_client_id c"] c data show ?thesis
    by (auto simp: hw_fence_register_wait_client_def Let_def)
next
  case (Some f)
  let ?id = "hw_fence_get_client_data_id u (cl_client_id_ext c)"
  let ?g = "wait_entry (cl_client_id c) (qtimer d (qtime_reads d)) ?id cd"
  from Some msm_hw_fence_find_spec[OF inv lk, of "cl_client_id c"]
  obtain i where i: "i < table_size d" "hw_fences_tbl d ! i = f"
    and fnd: "msm_hw_fence_find d (cl_client_id c) cx sq = Some (Some i, of_nat i, d)" by auto
  let ?d1 = "(set_fence i (?g f) d)\<lparr>qtime_reads := Suc (qtime_reads d)\<rparr>"
  have v: "hf_valid f \<noteq> 0" "fence_key f = (cx, sq)" using Some fence_view_Some_iff[OF inv] by blast+
  have il: "i < length (hw_fences_tbl d)" using table_wfD[OF table_inv_wf[OF inv] i(1)] by simp
  obtain l where l: "fence_lock i d = Some (set_fence i (f\<lparr>hf_lock := l\<rparr>) d)"
    "idx (hw_fences_tbl (set_fence i (f\<lparr>hf_lock := l\<rparr>) d)) i = Some (f\<lparr>hf_lock := l\<rparr>)"
    "fence_unlock i (set_fence i (?g (f\<lparr>hf_lock := l\<rparr>)) d) = Some (set_fence i (?g f) d)"
    using fence_section[OF table_inv_wf[OF inv] i(1) wait_entry_blind] i(2) by metis
  have ulq: "fence_unlock i (e\<lparr>qtime_reads := n\<rparr>) = map_option (\<lambda>e. e\<lparr>qtime_reads := n\<rparr>) (fence_unlock i e)" for e n
    by (simp add: fence_unlock_def idx_def unlock_wake_def hw_fence_ipcc_trigger_signal_def set_fence_def Let_def)
  have d1: "hw_fences_tbl ?d1 = (hw_fences_tbl d)[i := ?g f]" "hw_fence_table_entries ?d1 = hw_fence_table_entries d"
    by simp_all
  have k: "hf_valid (?g f) = hf_valid (hw_fences_tbl d ! i)" "fence_key (?g f) = fence_key (hw_fences_tbl d ! i)"
    "hf_lock (?g f) = hf_lock (hw_fences_tbl d ! i)" by (simp_all add: i(2))
  note ed = table_inv_edit[OF inv i(1) _ k d1]
  have inv1: "table_inv ?d1" and vw: "fence_view ?d1 = (fence_view d)((cx, sq) \<mapsto> ?g f)"
    using ed v i(2) by auto
  have ok1: "clients_ok ?d1" using ok by (simp add: clients_ok_def set_fence_def)
  have c1: "get_client ?d1 cid = Some c" using c by (simp add: get_client_def set_fence_def)
  have run: "hw_fence_register_wait_client u d fence cid cx sq cd =
      (if signaled f then do {
         d5 \<leftarrow> fence_ctl_signal u ?d1 cid i (of_nat i) 0 cd 0;
         Some (Inr (), Some (of_nat i), map_option (\<lambda>fn. fn\<lparr>df_flags := set_bit (FLAG_SIGNALED_BIT u) (df_flags fn)\<rparr>) fence, d5) }
       else Some (Inr (), Some (of_nat i), fence, ?d1))"
  proof -
    define F where "F = f\<lparr>hf_lock := l\<rparr>"
    note l' = l[folded F_def]
    have up: "F\<lparr>hf_wait_client_mask := hf_wait_client_mask F OR push_bit (unat (cl_client_id c)) 1,
       hf_fence_wait_time := qtimer d (qtime_reads d), hf_debug_refcount := hf_debug_refcount F + 1,
       hf_client_data := if cd \<noteq> 0 then (hf_client_data F)[?id := cd] else hf_client_data F\<rparr> = ?g F"
      by (simp add: wait_entry_def set_bit_eq_or)
    have nd: "\<not> (cd \<noteq> 0 \<and> HW_FENCE_MAX_CLIENTS_WITH_DATA \<le> ?id)" using data by auto
    have ul: "fence_unlock i (set_fence i (?g F) ((set_fence i F d)\<lparr>qtime_reads := Suc (qtime_reads d)\<rparr>))
       = Some ?d1"
      using l'(3) by (simp add: set_fence_qtime ulq)
    have qt: "hw_fence_get_qtime (set_fence i F d) =
        (qtimer d (qtime_reads d), (set_fence i F d)\<lparr>qtime_reads := Suc (qtime_reads d)\<rparr>)"
      by (simp add: hw_fence_get_qtime_def set_fence_def)
    have fl: "hf_flags (?g F) = hf_flags f" by (simp add: F_def)
    show ?thesis
      unfolding hw_fence_register_wait_client_def c Option.bind.bind_lunit Let_def if_not_P[OF nd] fnd prod.case option.case l'(1,2)
        BIT_Some[OF b] qt up ul fl ..
  qed
  show ?thesis
  proof (cases "signaled f")
    case True
    have "i < length (hw_fences_tbl ?d1)" using il by simp
    from fence_ctl_signal_ok[OF locks_free_split[OF table_inv_wf[OF inv1] ok1] ok1 c1 this]
    obtain d' where d': "fence_ctl_signal u ?d1 cid i (of_nat i) 0 cd 0 = Some d'"
      "notified u cid i (of_nat i) 0 cd 0 ?d1 d'" by blast
    have "cid < length (clients ?d1)" using c1 get_client_Some_iff by blast
    from notified_clients_ok[OF d'(2) ok1 this] notified_frame[OF d'(2)] inv1 vw
    have "table_inv d'" "clients_ok d'" "fence_view d' = (fence_view d)((cx, sq) \<mapsto> ?g f)"
      by (simp_all add: table_inv_frame fence_view_frame)
    with True run d' i il Some show ?thesis by auto
  next
    case False
    with run inv1 vw ok1 i il Some show ?thesis by auto
  qed
qed


section \<open>Cleaning up one fence of a client\<close>

definition unwait_entry :: "u32 \<Rightarrow> msm_hw_fence \<Rightarrow> msm_hw_fence" where
  "unwait_entry client_id f = f\<lparr>hf_wait_client_mask := unset_bit (unat client_id) (hf_wait_client_mask f)\<rparr>"

lemma unwait_entry_simps [simp]:
  "hf_valid (unwait_entry c f) = hf_valid f" "fence_key (unwait_entry c f) = fence_key f"
  "hf_lock (unwait_entry c f) = hf_lock f" "hf_flags (unwait_entry c f) = hf_flags f"
  "hf_fence_allocator (unwait_entry c f) = hf_fence_allocator f"
  "hf_ctx_id (unwait_entry c f) = hf_ctx_id f" "hf_seq_id (unwait_entry c f) = hf_seq_id f"
  "hf_wait_client_mask (unwait_entry c f) = unset_bit (unat c) (hf_wait_client_mask f)"
  by (simp_all add: unwait_entry_def fence_key_def)

lemma unwait_entry_blind: "lock_blind (unwait_entry c)"
  by (simp add: lock_blind_def unwait_entry_def)

lemma clear_wait_bit:
  assumes "unat c < 64"
  shows "(if hf_wait_client_mask f AND push_bit (unat c) 1 \<noteq> 0
     then f\<lparr>hf_wait_client_mask := hf_wait_client_mask f AND NOT (push_bit (unat c) 1)\<rparr> else f) = unwait_entry c f"
proof -
  have e: "hf_wait_client_mask f AND NOT (push_bit (unat c) 1) = unset_bit (unat c) (hf_wait_client_mask f)"
    by (simp add: unset_bit_eq_and_not)
  have n: "unset_bit (unat c) (hf_wait_client_mask f) = hf_wait_client_mask f" if "\<not> bit (hf_wait_client_mask f) (unat c)"
    using that by (intro bit_word_eqI) (auto simp: bit_unset_bit_iff)
  have "hf_wait_client_mask f AND push_bit (unat c) 1 \<noteq> 0 \<longleftrightarrow> bit (hf_wait_client_mask f) (unat c)"
    using and_bit_nonzero_iff[OF assms] .
  then show ?thesis using n by (cases "bit (hf_wait_client_mask f) (unat c)") (simp_all only: e unwait_entry_def, simp_all)
qed

definition waiters :: "hw_fence_driver_data \<Rightarrow> u32 \<Rightarrow> msm_hw_fence \<Rightarrow> u32 list" where
  "waiters d self f = filter (\<lambda>w. w \<noteq> self \<and> bit (hf_wait_client_mask f) (unat w) \<and> clients d ! unat w \<noteq> None)
     (map of_nat [0..<Suc (unat (rxq_clients_num d))])"

definition waiters_ok :: "hw_fence_driver_data \<Rightarrow> bool" where
  "waiters_ok d \<longleftrightarrow> unat (rxq_clients_num d) < 64 \<and> unat (rxq_clients_num d) < length (clients d)"

lemma client_ids:
  assumes "waiters_ok d"
  shows "\<forall>w \<in> set (map of_nat [0..<Suc (unat (rxq_clients_num d))] :: u32 list). unat w < 64 \<and> unat w < length (clients d)"
    and "distinct (map of_nat [0..<Suc (unat (rxq_clients_num d))] :: u32 list)"
proof -
  have n: "unat (rxq_clients_num d) < 64" "unat (rxq_clients_num d) < length (clients d)"
    using assms by (simp_all add: waiters_ok_def)
  have u: "unat (of_nat k :: u32) = k" if "k \<le> unat (rxq_clients_num d)" for k
    using that n(1) by (simp add: unat_of_nat)
  show "\<forall>w \<in> set (map of_nat [0..<Suc (unat (rxq_clients_num d))] :: u32 list). unat w < 64 \<and> unat w < length (clients d)"
    using n u by (auto simp del: upt_Suc)
  have "inj_on (of_nat :: nat \<Rightarrow> u32) {0..<Suc (unat (rxq_clients_num d))}"
    by (rule inj_onI) (metis atLeastLessThan_iff less_Suc_eq_le u)
  then show "distinct (map of_nat [0..<Suc (unat (rxq_clients_num d))] :: u32 list)"
    by (simp add: distinct_map del: upt_Suc)
qed

lemma cleanup_fence_spec:
  assumes inv: "table_inv d" and ok: "clients_ok d" and wo: "waiters_ok d" and c: "get_client d cid = Some c"
    and b: "unat (cl_client_id c) < 64" and i: "i < table_size d" and f: "f = hw_fences_tbl d ! i" and v: "hf_valid f \<noteq> 0"
    and er: "er = (if rf AND RESET_WITHOUT_ERROR u \<noteq> 0 then 0 else ERROR_RESET u)"
    and own: "own \<longleftrightarrow> hf_fence_allocator f = cl_client_id c"
    and ws: "ws = (if own \<and> \<not> signaled f then waiters d (cl_client_id c) f else [])"
  shows "\<exists>d'. hw_fence_utils_cleanup_fence u d cid i hash rf = Some (Inr (), d') \<and> table_inv d' \<and> clients_ok d' \<and>
    fence_view d' = (if own \<and> rf AND RESET_WITHOUT_DESTROY u = 0 then (fence_view d)(fence_key f := None)
      else (fence_view d)(fence_key f \<mapsto> unwait_entry (cl_client_id c) f)) \<and>
    error_cb_calls d' = error_cb_calls d @ concat (map (\<lambda>w. notify_calls (the (clients d ! unat w)) f hash 0 er) ws) \<and>
    ipcc_writes d' = ipcc_writes d @ concat (map (\<lambda>w. notify_bells d (the (clients d ! unat w)) er) ws) \<and>
    (\<forall>k. k \<notin> unat ` set ws \<longrightarrow> get_client d' k = get_client d k) \<and>
    rxq_clients_num d' = rxq_clients_num d \<and> length (clients d') = length (clients d) \<and>
    hw_fence_table_entries d' = hw_fence_table_entries d \<and> client_lock_tbl_cnt d' = client_lock_tbl_cnt d \<and>
    (\<forall>j. j \<noteq> i \<longrightarrow> hw_fences_tbl d' ! j = hw_fences_tbl d ! j) \<and>
    (hf_valid (hw_fences_tbl d' ! i) = 0 \<longrightarrow> hf_fence_allocator (hw_fences_tbl d' ! i) = 0)"
proof -
  let ?g = "unwait_entry (cl_client_id c)"
  let ?d2 = "set_fence i (?g f) d"
  have il: "i < length (hw_fences_tbl d)" using table_wfD[OF table_inv_wf[OF inv] i] by simp
  have d2: "hw_fences_tbl ?d2 = (hw_fences_tbl d)[i := ?g f]" "hw_fence_table_entries ?d2 = hw_fence_table_entries d"
    "clients ?d2 = clients d" "ipcc_writes ?d2 = ipcc_writes d" "error_cb_calls ?d2 = error_cb_calls d"
    "rxq_clients_num ?d2 = rxq_clients_num d" "client_lock_tbl_cnt ?d2 = client_lock_tbl_cnt d"
    by (simp_all add: set_fence_def)
  have k: "hf_valid (?g f) = hf_valid (hw_fences_tbl d ! i)" "fence_key (?g f) = fence_key (hw_fences_tbl d ! i)"
    "hf_lock (?g f) = hf_lock (hw_fences_tbl d ! i)" by (simp_all add: f)
  have inv2: "table_inv ?d2" and vw2: "fence_view ?d2 = (fence_view d)(fence_key f \<mapsto> ?g f)"
    using table_inv_edit[OF inv i _ k d2(1,2)] v f by auto
  have ok2: "clients_ok ?d2" using ok by (simp add: clients_ok_def set_fence_def)
  have wo2: "waiters_ok ?d2" using wo by (simp add: waiters_ok_def d2)
  obtain l where l: "fence_lock i d = Some (set_fence i (f\<lparr>hf_lock := l\<rparr>) d)"
    "idx (hw_fences_tbl (set_fence i (f\<lparr>hf_lock := l\<rparr>) d)) i = Some (f\<lparr>hf_lock := l\<rparr>)"
    "fence_unlock i (set_fence i (?g (f\<lparr>hf_lock := l\<rparr>)) d) = Some ?d2"
    using fence_section[OF table_inv_wf[OF inv] i unwait_entry_blind] f by metis
  have ul: "fence_unlock i (set_fence i (?g (f\<lparr>hf_lock := l\<rparr>)) (set_fence i (f\<lparr>hf_lock := l\<rparr>) d)) = Some ?d2"
    using l(3) by simp
  have gl: "hf_fence_allocator (?g (f\<lparr>hf_lock := l\<rparr>)) = hf_fence_allocator f" "hf_flags (?g (f\<lparr>hf_lock := l\<rparr>)) = hf_flags f"
    by simp_all
  have run: "hw_fence_utils_cleanup_fence u d cid i hash rf =
     (if \<not> own then Some (Inr (), ?d2)
      else do {
        d3 \<leftarrow> (if \<not> signaled f then signal_all_wait_clients u ?d2 i hash er else Some ?d2);
        if rf AND RESET_WITHOUT_DESTROY u \<noteq> 0 then Some (Inr (), d3)
        else do {
          f3 \<leftarrow> idx (hw_fences_tbl d3) i;
          hw_fence_destroy d3 (cl_client_id c) (hf_ctx_id f3) (hf_seq_id f3) } })"
    unfolding hw_fence_utils_cleanup_fence_def Let_def c Option.bind.bind_lunit l(1,2) BIT_Some[OF b] clear_wait_bit[OF b] ul gl
      er own not_not ..
  have wt: "waiting ?d2 i (map of_nat [0..<Suc (unat (rxq_clients_num d))]) = waiters d (cl_client_id c) f"
  proof -
    have "bit (hf_wait_client_mask (hw_fences_tbl ?d2 ! i)) (unat w) \<longleftrightarrow> w \<noteq> cl_client_id c \<and> bit (hf_wait_client_mask f) (unat w)"
      for w using il by (auto simp: bit_unset_bit_iff dest: unat_inj)
    then show ?thesis by (simp add: waiting_def waiters_def d2(3) del: upt_Suc)
  qed
  obtain d3 where d3: "(if own \<and> \<not> signaled f then signal_all_wait_clients u ?d2 i hash er else Some ?d2) = Some d3"
    "sig_frame ?d2 d3" "clients_ok d3"
    "error_cb_calls d3 = error_cb_calls d @ concat (map (\<lambda>w. notify_calls (the (clients d ! unat w)) f hash 0 er) ws)"
    "ipcc_writes d3 = ipcc_writes d @ concat (map (\<lambda>w. notify_bells d (the (clients d ! unat w)) er) ws)"
    "\<And>k. k \<notin> unat ` set ws \<Longrightarrow> clients d3 ! k = clients d ! k"
  proof (cases "own \<and> \<not> signaled f")
    case False
    then have "ws = []" using ws by auto
    with False ok2 d2 show ?thesis by (intro that[of ?d2]) auto
  next
    case True
    have nc: "notify_calls c' (?g f) hash 0 er = notify_calls c' f hash 0 er"
      "notify_bells ?d2 c' er = notify_bells d c' er" for c'
      by (simp_all add: notify_calls_def notify_bells_def set_fence_def)
    have ti: "hw_fences_tbl ?d2 ! i = ?g f" using il by simp
    have "i < length (hw_fences_tbl ?d2)" using il by simp
    from signal_waiters_ok[OF locks_free_split[OF table_inv_wf[OF inv2] ok2] ok2 this client_ids[OF wo2], of u hash er 0]
    show ?thesis
      unfolding d2(3-6) wt ti nc
      using that True ws by (auto simp: signal_all_wait_clients_def d2(6) simp del: upt_Suc)
  qed
  note fr = sig_frame_keeps[OF d3(2)]
  have inv3: "table_inv d3" and vw3: "fence_view d3 = (fence_view d)(fence_key f \<mapsto> ?g f)"
    using inv2 vw2 d3(2) by (simp_all add: table_inv_frame fence_view_frame)
  have f3: "idx (hw_fences_tbl d3) i = Some (?g f)" using il by (simp add: fr d2)
  have oth: "hw_fences_tbl d3 ! j = hw_fences_tbl d ! j" if "j \<noteq> i" for j using that by (simp add: fr d2)
  have gc: "get_client d3 k = get_client d k" if "k \<notin> unat ` set ws" for k
    using d3(6)[OF that] fr(6) d2(3) by (simp add: get_client_def idx_def)
  show ?thesis
  proof (cases "own \<and> rf AND RESET_WITHOUT_DESTROY u = 0")
    case False
    then have "hw_fence_utils_cleanup_fence u d cid i hash rf = Some (Inr (), d3)"
      using run d3(1) by (auto split: if_splits)
    moreover have "hf_valid (hw_fences_tbl d3 ! i) \<noteq> 0" using f3 v by (auto simp: idx_eq_Some_iff)
    ultimately show ?thesis using False d3 inv3 vw3 oth gc fr d2 by auto
  next
    case True
    have lk: "legal_key (hf_ctx_id f, hf_seq_id f)"
      using table_inv_valid[OF inv i] v f by (auto simp: legal_key_def fence_key_def)
    have "fence_view d3 (hf_ctx_id f, hf_seq_id f) \<noteq> None" by (simp add: vw3 fence_key_def)
    with lookup_match[OF inv3 is_create_simps(3) lk, of "cl_client_id c" 0]
    obtain i' where i': "i' < table_size d3" "fence_key (hw_fences_tbl d3 ! i') = (hf_ctx_id f, hf_seq_id f)"
      "hf_valid (hw_fences_tbl d3 ! i') \<noteq> 0"
      "hw_fence_lookup_and_process d3 (hf_ctx_id f) (hf_seq_id f) (cl_client_id c) 0 HW_FENCE_LOOKUP_OP_DESTROY =
         Some (Some i', of_nat i', processed HW_FENCE_LOOKUP_OP_DESTROY (cl_client_id c) (hf_ctx_id f) (hf_seq_id f) 0 i' d3)"
      by auto
    have "i' = i"
      using table_inv_slot[OF inv3 i'(1), of i] i i' f3 v il by (simp add: fr d2 fence_key_def)
    note p = processed_destroy[OF inv3 i'(1,3,2), of "cl_client_id c" 0, unfolded \<open>i' = i\<close>]
    have "hw_fence_utils_cleanup_fence u d cid i hash rf =
        Some (Inr (), set_fence i (free_fence (hf_lock (hw_fences_tbl d3 ! i))) d3)"
      using run True d3(1) f3 i'(4) p(1) \<open>i' = i\<close>
      by (auto simp: hw_fence_destroy_def hw_fence_cleanup_def split: if_splits)
    moreover have "fence_view (set_fence i (free_fence (hf_lock (hw_fences_tbl d3 ! i))) d3) = (fence_view d)(fence_key f := None)"
      using p vw3 by (simp add: fence_key_def)
    moreover have "clients_ok (set_fence i (free_fence (hf_lock (hw_fences_tbl d3 ! i))) d3)"
      using d3(3) by (simp add: clients_ok_def set_fence_def)
    moreover have "hf_fence_allocator (hw_fences_tbl (set_fence i (free_fence (hf_lock (hw_fences_tbl d3 ! i))) d3) ! i) = 0"
      using il by (simp add: fr d2 free_fence_def fresh_fence_def)
    ultimately show ?thesis
      using True p d3 oth gc fr d2 by (auto simp: set_fence_def get_client_def)
  qed
qed


section \<open>Joining the children of a fence array\<close>

definition linked :: "u64 \<Rightarrow> msm_hw_fence \<Rightarrow> msm_hw_fence" where
  "linked h f = f\<lparr>hf_parents_cnt := hf_parents_cnt f + 1,
     hf_parent_list := (hf_parent_list f)[unat (hf_parents_cnt f) := h]\<rparr>"

definition joined :: "u32 \<Rightarrow> msm_hw_fence \<Rightarrow> msm_hw_fence" where
  "joined e f = f\<lparr>hf_error := hf_error f OR e, hf_pending_child_cnt := hf_pending_child_cnt f - 1\<rparr>"

lemma linked_joined_simps [simp]:
  "hf_valid (linked h f) = hf_valid f" "fence_key (linked h f) = fence_key f" "hf_lock (linked h f) = hf_lock f"
  "hf_flags (linked h f) = hf_flags f"
  "hf_valid (joined e f) = hf_valid f" "fence_key (joined e f) = fence_key f" "hf_lock (joined e f) = hf_lock f"
  "hf_pending_child_cnt (joined e f) = hf_pending_child_cnt f - 1"
  by (simp_all add: linked_def joined_def fence_key_def)

text \<open>Changes confined to the fence table.\<close>

definition tbl_only :: "hw_fence_driver_data \<Rightarrow> hw_fence_driver_data \<Rightarrow> bool" where
  "tbl_only d d' \<longleftrightarrow> (\<exists>t. d' = d\<lparr>hw_fences_tbl := t\<rparr>)"

lemma tbl_only_refl [simp]: "tbl_only d d"
  unfolding tbl_only_def by (rule exI[of _ "hw_fences_tbl d"]) simp

lemma tbl_only_trans: "tbl_only d d' \<Longrightarrow> tbl_only d' d'' \<Longrightarrow> tbl_only d d''"
  unfolding tbl_only_def by fastforce

lemma tbl_only_set [simp]: "tbl_only d (set_fence i f d)"
  unfolding tbl_only_def set_fence_def by blast

lemma tbl_only_keeps:
  assumes "tbl_only d d'"
  shows "hw_fence_table_entries d' = hw_fence_table_entries d" "clients d' = clients d"
    "clients_ok d' = clients_ok d" "get_client d' = get_client d" "ipcc_writes d' = ipcc_writes d"
    "error_cb_calls d' = error_cb_calls d" "qtimer d' = qtimer d" "qtime_reads d' = qtime_reads d"
    "waiters_ok d' = waiters_ok d" "client_lock_tbl_cnt d' = client_lock_tbl_cnt d"
  using assms by (auto simp: tbl_only_def clients_ok_def get_client_def waiters_ok_def)

text \<open>An entry of the map by its slot.\<close>

definition holds_at :: "hw_fence_driver_data \<Rightarrow> nat \<Rightarrow> fence_key \<Rightarrow> bool" where
  "holds_at d i k \<longleftrightarrow> i < table_size d \<and> hf_valid (hw_fences_tbl d ! i) \<noteq> 0 \<and> fence_key (hw_fences_tbl d ! i) = k"

lemma holds_at_view: "table_inv d \<Longrightarrow> holds_at d i k \<Longrightarrow> fence_view d k = Some (hw_fences_tbl d ! i)"
  using fence_view_Some_iff by (auto simp: holds_at_def)

lemma holds_at_unique: "table_inv d \<Longrightarrow> holds_at d i k \<Longrightarrow> holds_at d j k \<Longrightarrow> i = j"
  using table_inv_slot by (auto simp: holds_at_def)

lemma view_holds_at: "table_inv d \<Longrightarrow> fence_view d k = Some f \<Longrightarrow> \<exists>i. holds_at d i k \<and> hw_fences_tbl d ! i = f"
  using fence_view_Some_iff by (auto simp: holds_at_def)

lemma edit_entry:
  assumes inv: "table_inv d" and at: "holds_at d i k"
    and f: "hf_valid f = hf_valid (hw_fences_tbl d ! i)" "fence_key f = k" "hf_lock f = hf_lock (hw_fences_tbl d ! i)"
  shows "table_inv (set_fence i f d)" and "fence_view (set_fence i f d) = (fence_view d)(k \<mapsto> f)"
    and "\<And>j k'. holds_at (set_fence i f d) j k' = holds_at d j k'"
    and "hw_fences_tbl (set_fence i f d) ! i = f"
proof -
  have a: "i < table_size d" "hf_valid (hw_fences_tbl d ! i) \<noteq> 0" "fence_key f = fence_key (hw_fences_tbl d ! i)"
    using at f by (simp_all add: holds_at_def)
  have l: "i < length (hw_fences_tbl d)" using table_wfD[OF table_inv_wf[OF inv] a(1)] by simp
  show "table_inv (set_fence i f d)" "fence_view (set_fence i f d) = (fence_view d)(k \<mapsto> f)"
    using table_inv_edit[OF inv a(1,2) f(1) a(3) f(3), of "set_fence i f d"] f(2) by auto
  show "holds_at (set_fence i f d) j k' = holds_at d j k'" for j k'
    using a f l by (cases "j = i") (auto simp: holds_at_def)
  show "hw_fences_tbl (set_fence i f d) ! i = f" using l by simp
qed

definition good_child :: "hw_fence_uapi \<Rightarrow> (fence_key \<Rightarrow> msm_hw_fence option) \<Rightarrow> fence_key \<Rightarrow> dma_fence \<Rightarrow> bool" where
  "good_child u V jk fn \<longleftrightarrow> \<not> df_is_array fn \<and> bit (df_flags fn) (FLAG_ENABLED_BIT u) \<and>
     legal_key (df_context fn, df_seqno fn) \<and> (df_context fn, df_seqno fn) \<noteq> jk \<and>
     (case V (df_context fn, df_seqno fn) of None \<Rightarrow> False
      | Some f \<Rightarrow> signaled f \<or> unat (hf_parents_cnt f) + 1 < MSM_HW_FENCE_MAX_JOIN_PARENTS)"

definition join_step ::
    "u64 \<Rightarrow> fence_key \<Rightarrow> (fence_key \<Rightarrow> msm_hw_fence option) \<Rightarrow> fence_key \<Rightarrow> (fence_key \<Rightarrow> msm_hw_fence option)" where
  "join_step h jk V k = (case V k of
     None \<Rightarrow> V
   | Some f \<Rightarrow> if signaled f then V(jk \<mapsto> joined (hf_error f) (the (V jk))) else V(k \<mapsto> linked h f))"

abbreviation dkey :: "dma_fence \<Rightarrow> fence_key" where
  "dkey fn \<equiv> (df_context fn, df_seqno fn)"

lemma find_at:
  assumes "table_inv d" and "legal_key k" and "holds_at d i k"
  shows "msm_hw_fence_find d c (fst k) (snd k) = Some (Some i, of_nat i, d)"
proof -
  from msm_hw_fence_find_spec[OF assms(1), of "fst k" "snd k" c] holds_at_view[OF assms(1,3)] assms(2)
  obtain j where j: "j < table_size d" "hw_fences_tbl d ! j = hw_fences_tbl d ! i"
    "msm_hw_fence_find d c (fst k) (snd k) = Some (Some j, of_nat j, d)" by auto
  then have "holds_at d j k" using assms(3) by (simp add: holds_at_def)
  with holds_at_unique[OF assms(1,3)] j(3) show ?thesis by simp
qed

lemma fence_unlock_blind:
  assumes "i < length (hw_fences_tbl d)" and "lo32 (hf_lock f) = 0" and g: "lock_blind g"
  shows "fence_unlock i (set_fence i (g (f\<lparr>hf_lock := mk64 1 (hi32 (hf_lock f))\<rparr>)) d) = Some (set_fence i (g f) d)"
proof -
  have "(g f)\<lparr>hf_lock := hf_lock f\<rparr> = g f" by (simp flip: lock_blind_lock[OF g, of f])
  with fence_unlock_ok[OF assms(1,2), of "g f"] g show ?thesis by (simp add: lock_blind_def)
qed

text \<open>Lock and unlock of a second entry inside the section of the first.\<close>

lemma join_child_signaled:
  assumes inv: "table_inv d" and j: "holds_at d join jk" and i: "holds_at d i (dkey fn)" and g: "good_child u V jk fn"
    and s: "signaled (hw_fences_tbl d ! i)"
  shows "join_child u c join h (Some fn) d =
     Some (Inr (hf_pending_child_cnt (hw_fences_tbl d ! join) - 1 = 0),
           set_fence join (joined (hf_error (hw_fences_tbl d ! i)) (hw_fences_tbl d ! join)) d)"
proof -
  let ?f = "hw_fences_tbl d ! i" and ?jf = "hw_fences_tbl d ! join"
  have g': "\<not> df_is_array fn" "bit (df_flags fn) (FLAG_ENABLED_BIT u)" "legal_key (dkey fn)" "dkey fn \<noteq> jk"
    using g by (auto simp: good_child_def)
  have ne: "i \<noteq> join" using i j g'(4) by (auto simp: holds_at_def)
  note wf = table_inv_wf[OF inv]
  have il: "i < table_size d" "join < table_size d" using i j by (auto simp: holds_at_def)
  note ti = table_wfD[OF wf il(1)] and tj = table_wfD[OF wf il(2)]
  let ?l = "mk64 1 (hi32 (hf_lock ?f))" and ?m = "mk64 1 (hi32 (hf_lock ?jf))"
  let ?d2 = "set_fence i (?f\<lparr>hf_lock := ?l\<rparr>) d"
  let ?d3 = "set_fence join (?jf\<lparr>hf_lock := ?m\<rparr>) ?d2"
  have l2: "fence_lock i d = Some ?d2" using fence_lock_ok[OF wf il(1)] .
  have f2: "idx (hw_fences_tbl ?d2) i = Some (?f\<lparr>hf_lock := ?l\<rparr>)" using ti by simp
  have l3: "fence_lock join ?d2 = Some ?d3" using ne tj by (simp add: fence_lock_def)
  have f3: "idx (hw_fences_tbl ?d3) join = Some (?jf\<lparr>hf_lock := ?m\<rparr>)" using tj by simp
  have u4: "fence_unlock join (set_fence join ((?jf\<lparr>hf_lock := ?m\<rparr>)\<lparr>hf_error := e, hf_pending_child_cnt := p\<rparr>) ?d3) =
      Some (set_fence join (?jf\<lparr>hf_error := e, hf_pending_child_cnt := p\<rparr>) ?d2)" for e p
    using fence_unlock_blind[of join ?d2 ?jf "\<lambda>f. f\<lparr>hf_error := e, hf_pending_child_cnt := p\<rparr>"] tj by (simp add: lock_blind_def)
  have u5: "fence_unlock i (set_fence join x ?d2) = Some (set_fence join x d)" for x
  proof -
    have "set_fence join x ?d2 = set_fence i (?f\<lparr>hf_lock := ?l\<rparr>) (set_fence join x d)"
      using ne by (simp add: set_fence_def list_update_swap)
    moreover have "set_fence i ?f (set_fence join x d) = set_fence join x d"
      using ne set_fence_same[of i "set_fence join x d"] by simp
    ultimately show ?thesis using fence_unlock_ok[of i "set_fence join x d" "hf_lock ?f" ?f] ti by simp
  qed
  have fl: "hf_flags (?f\<lparr>hf_lock := ?l\<rparr>) AND MSM_HW_FENCE_FLAG_SIGNAL \<noteq> 0" using s by simp
  have fnd: "msm_hw_fence_find d c (df_context fn) (df_seqno fn) = Some (Some i, of_nat i, d)"
    using find_at[OF inv g'(3) i] by simp
  show ?thesis
    unfolding join_child_def option.case if_not_P[OF g'(1)] fnd Option.bind.bind_lunit prod.case l2 f2 if_P[OF fl] l3 f3 Let_def u4 u5
    using g'(2) by (simp add: joined_def)
qed

lemma join_child_unsignaled:
  assumes inv: "table_inv d" and i: "holds_at d i (dkey fn)" and g: "\<not> df_is_array fn" "bit (df_flags fn) (FLAG_ENABLED_BIT u)" "legal_key (dkey fn)"
    and s: "\<not> signaled (hw_fences_tbl d ! i)"
  shows "join_child u c join h (Some fn) d =
     (if unat (hf_parents_cnt (hw_fences_tbl d ! i)) + 1 < MSM_HW_FENCE_MAX_JOIN_PARENTS
      then Some (Inr False, set_fence i (linked h (hw_fences_tbl d ! i)) d) else Some (Inl (), d))"
proof -
  let ?f = "hw_fences_tbl d ! i"
  note wf = table_inv_wf[OF inv]
  have il: "i < table_size d" using i by (auto simp: holds_at_def)
  note ti = table_wfD[OF wf il]
  let ?l = "mk64 1 (hi32 (hf_lock ?f))"
  let ?d2 = "set_fence i (?f\<lparr>hf_lock := ?l\<rparr>) d"
  have l2: "fence_lock i d = Some ?d2" using fence_lock_ok[OF wf il] .
  have f2: "idx (hw_fences_tbl ?d2) i = Some (?f\<lparr>hf_lock := ?l\<rparr>)" using ti by simp
  have fl: "\<not> (hf_flags (?f\<lparr>hf_lock := ?l\<rparr>) AND MSM_HW_FENCE_FLAG_SIGNAL \<noteq> 0)" using s by simp
  have fnd: "msm_hw_fence_find d c (df_context fn) (df_seqno fn) = Some (Some i, of_nat i, d)"
    using find_at[OF inv g(3) i] by simp
  have t: "hf_parents_cnt ?f + 1 \<ge> 3 \<or> hf_parents_cnt ?f + 1 < 1 \<longleftrightarrow> \<not> unat (hf_parents_cnt ?f) + 1 < MSM_HW_FENCE_MAX_JOIN_PARENTS"
  proof -
    have b: "unat (hf_parents_cnt ?f) < 2 ^ 32" by (rule entries_bound)
    show ?thesis
    proof (cases "unat (hf_parents_cnt ?f) + 1 < 2 ^ 32")
      case True
      then have "unat (hf_parents_cnt ?f + 1) = unat (hf_parents_cnt ?f) + 1" by (simp add: unat_word_ariths)
      then show ?thesis by (simp add: word_le_nat_alt word_less_nat_alt MSM_HW_FENCE_MAX_JOIN_PARENTS_def) linarith
    next
      case False
      then have "unat (hf_parents_cnt ?f) + 1 = 2 ^ 32" using b by simp
      then have "unat (hf_parents_cnt ?f + 1) = 0" by (simp add: unat_word_ariths)
      with False show ?thesis by (simp add: word_less_nat_alt MSM_HW_FENCE_MAX_JOIN_PARENTS_def)
    qed
  qed
  have u1: "fence_unlock i (set_fence i ((?f\<lparr>hf_lock := ?l\<rparr>)\<lparr>hf_parents_cnt := p\<rparr>) ?d2) = Some (set_fence i (?f\<lparr>hf_parents_cnt := p\<rparr>) d)" for p
    using fence_unlock_blind[OF ti, of "\<lambda>f. f\<lparr>hf_parents_cnt := p\<rparr>"] by (simp add: lock_blind_def)
  have u2: "fence_unlock i (set_fence i ((?f\<lparr>hf_lock := ?l\<rparr>)\<lparr>hf_parents_cnt := p, hf_parent_list := ps\<rparr>) ?d2) =
      Some (set_fence i (?f\<lparr>hf_parents_cnt := p, hf_parent_list := ps\<rparr>) d)" for p ps
    using fence_unlock_blind[OF ti, of "\<lambda>f. f\<lparr>hf_parents_cnt := p, hf_parent_list := ps\<rparr>"] by (simp add: lock_blind_def)
  have m: "(of_nat MSM_HW_FENCE_MAX_JOIN_PARENTS :: u32) = 3" by (simp add: MSM_HW_FENCE_MAX_JOIN_PARENTS_def)
  show ?thesis
    unfolding join_child_def option.case if_not_P[OF g(1)] fnd Option.bind.bind_lunit prod.case l2 f2 if_not_P[OF fl] Let_def u1 u2 m
    using g(2) t by (auto simp: linked_def)
qed


lemma join_child_ok:
  assumes inv: "table_inv d" and j: "holds_at d join jk" and g: "good_child u (fence_view d) jk fn"
  shows "\<exists>d' s. join_child u c join h (Some fn) d = Some (Inr s, d') \<and> table_inv d' \<and> tbl_only d d' \<and>
    fence_view d' = join_step h jk (fence_view d) (dkey fn) \<and> holds_at d' join jk \<and>
    (s \<longleftrightarrow> signaled (the (fence_view d (dkey fn))) \<and> hf_pending_child_cnt (the (fence_view d jk)) - 1 = 0)"
proof -
  from g obtain f where f: "fence_view d (dkey fn) = Some f" "signaled f \<or> unat (hf_parents_cnt f) + 1 < MSM_HW_FENCE_MAX_JOIN_PARENTS"
    by (auto simp: good_child_def split: option.splits)
  from view_holds_at[OF inv f(1)] obtain i where i: "holds_at d i (dkey fn)" "hw_fences_tbl d ! i = f" by blast
  have jv: "fence_view d jk = Some (hw_fences_tbl d ! join)" by (rule holds_at_view[OF inv j])
  show ?thesis
  proof (cases "signaled f")
    case True
    let ?g = "joined (hf_error f) (hw_fences_tbl d ! join)"
    have "fence_key ?g = jk" using j by (simp add: holds_at_def)
    note e = edit_entry[OF inv j _ this]
    have "join_child u c join h (Some fn) d = Some (Inr (hf_pending_child_cnt (hw_fences_tbl d ! join) - 1 = 0), set_fence join ?g d)"
      using join_child_signaled[OF inv j i(1) g] True i(2) by simp
    with True f(1) jv e j show ?thesis by (simp add: join_step_def)
  next
    case False
    have "fence_key (linked h f) = dkey fn" using i by (simp add: holds_at_def)
    note e = edit_entry[OF inv i(1) _ this]
    have "join_child u c join h (Some fn) d = Some (Inr False, set_fence i (linked h f) d)"
      using join_child_unsignaled[OF inv i(1)] g False i(2) f(2) by (simp add: good_child_def)
    with False f(1) e i(2) j show ?thesis
      by (intro exI[of _ "set_fence i (linked h f) d"] exI[of _ False]) (simp add: join_step_def)
  qed
qed

lemma join_step_other: "k \<noteq> k' \<Longrightarrow> k \<noteq> jk \<Longrightarrow> join_step h jk V k' k = V k"
  by (simp add: join_step_def split: option.split)

lemma join_step_jk:
  "V jk \<noteq> None \<Longrightarrow> k \<noteq> jk \<Longrightarrow> join_step h jk V k jk = (case V k of
     None \<Rightarrow> V jk | Some f \<Rightarrow> if signaled f then Some (joined (hf_error f) (the (V jk))) else V jk)"
  by (auto simp: join_step_def split: option.split)

lemma good_child_cong: "V (dkey fn) = V' (dkey fn) \<Longrightarrow> good_child u V jk fn = good_child u V' jk fn"
  by (simp add: good_child_def)

lemma join_children_ok:
  assumes "table_inv d" and "holds_at d join jk" and "map (idx fences) is = map (\<lambda>fn. Some (Some fn)) ch"
    and "\<forall>fn \<in> set ch. good_child u (fence_view d) jk fn" and "distinct (map dkey ch)"
    and "hf_pending_child_cnt (the (fence_view d jk)) = of_nat q" and "length ch \<le> q" and "q < 2 ^ 32"
  shows "\<exists>d' s. join_children u c join h fences is sig d = Some (Inr s, d') \<and> table_inv d' \<and> tbl_only d d' \<and>
    fence_view d' = foldl (join_step h jk) (fence_view d) (map dkey ch) \<and> holds_at d' join jk \<and>
    (s \<longleftrightarrow> sig \<or> ch \<noteq> [] \<and> q = length ch \<and> (\<forall>fn \<in> set ch. signaled (the (fence_view d (dkey fn)))))"
  using assms
proof (induction ch arbitrary: d "is" q sig)
  case Nil
  then show ?case by simp
next
  case (Cons fn ch)
  from Cons.prems(3) obtain i is' where ii: "is = i # is'" "idx fences i = Some (Some fn)"
    "map (idx fences) is' = map (\<lambda>fn. Some (Some fn)) ch" by (cases "is") auto
  have g: "good_child u (fence_view d) jk fn" using Cons.prems(4) by simp
  from join_child_ok[OF Cons.prems(1,2) g, of c h] obtain d1 s1 where d1:
    "join_child u c join h (Some fn) d = Some (Inr s1, d1)" "table_inv d1" "tbl_only d d1"
    "fence_view d1 = join_step h jk (fence_view d) (dkey fn)" "holds_at d1 join jk"
    "s1 \<longleftrightarrow> signaled (the (fence_view d (dkey fn))) \<and> hf_pending_child_cnt (the (fence_view d jk)) - 1 = 0" by blast
  have jv: "fence_view d jk \<noteq> None" using holds_at_view[OF Cons.prems(1,2)] by simp
  have other: "fence_view d1 (dkey x) = fence_view d (dkey x)" if "x \<in> set ch" for x
  proof -
    have "dkey x \<in> dkey ` set ch" using that by (rule imageI)
    then show ?thesis
      using that Cons.prems(4,5) unfolding d1(4) by (intro join_step_other) (force simp: good_child_def)+
  qed
  have g1: "\<forall>x \<in> set ch. good_child u (fence_view d1) jk x"
    using Cons.prems(4) good_child_cong[of "fence_view d1" _ "fence_view d"] other by auto
  have gk: "dkey fn \<noteq> jk" and fv: "fence_view d (dkey fn) \<noteq> None" using g by (auto simp: good_child_def split: option.splits)
  let ?sg = "signaled (the (fence_view d (dkey fn)))"
  define q1 where "q1 = (if ?sg then q - 1 else q)"
  have q0: "0 < q" using Cons.prems(7) by simp
  have "of_nat q - 1 = (of_nat (q - 1) :: u32)" using q0 by (simp add: of_nat_diff)
  then have p1: "hf_pending_child_cnt (the (fence_view d1 jk)) = of_nat q1"
    using d1(4) join_step_jk[of "fence_view d" jk "dkey fn" h] jv gk fv Cons.prems(6) by (auto simp: q1_def)
  have s1: "s1 \<longleftrightarrow> ?sg \<and> q = 1"
  proof -
    have "(of_nat q :: u32) - 1 = 0 \<longleftrightarrow> q = 1"
    proof
      assume "(of_nat q :: u32) - 1 = 0"
      then have "unat (of_nat q :: u32) = 1" by simp
      with Cons.prems(8) show "q = 1" by (simp add: unat_of_nat)
    qed simp
    with d1(6) Cons.prems(6) show ?thesis by simp
  qed
  have dist: "distinct (map dkey ch)" using Cons.prems(5) by simp
  have q1b: "length ch \<le> q1" "q1 < 2 ^ 32" using Cons.prems(7,8) by (auto simp: q1_def)
  from Cons.IH[OF d1(2,5) ii(3) g1 dist p1 q1b, of "sig \<or> s1"] obtain d' s where d':
    "join_children u c join h fences is' (sig \<or> s1) d1 = Some (Inr s, d')" "table_inv d'" "tbl_only d1 d'"
    "fence_view d' = foldl (join_step h jk) (fence_view d1) (map dkey ch)" "holds_at d' join jk"
    "s \<longleftrightarrow> (sig \<or> s1) \<or> ch \<noteq> [] \<and> q1 = length ch \<and> (\<forall>fn \<in> set ch. signaled (the (fence_view d1 (dkey fn))))" by blast
  have "s \<longleftrightarrow> sig \<or> q = Suc (length ch) \<and> ?sg \<and> (\<forall>fn \<in> set ch. signaled (the (fence_view d (dkey fn))))"
    using d'(6) s1 q0 Cons.prems(7) other by (cases "ch = []") (auto simp: q1_def)
  with ii d1 d' tbl_only_trans[OF d1(3) d'(3)] show ?case by auto
qed

text \<open>What the fold leaves at the children, the join fence and everywhere else.\<close>

lemma join_fold_child:
  assumes "distinct ks" and "jk \<notin> set ks" and "k \<noteq> jk"
  shows "foldl (join_step h jk) V ks k =
    (if k \<in> set ks then map_option (\<lambda>f. if signaled f then f else linked h f) (V k) else V k)"
  using assms
proof (induction ks arbitrary: V)
  case Nil
  then show ?case by simp
next
  case (Cons k' ks)
  have "join_step h jk V k' k = (if k = k' then map_option (\<lambda>f. if signaled f then f else linked h f) (V k) else V k)"
    using Cons.prems by (auto simp: join_step_def split: option.split)
  with Cons show ?case by auto
qed

definition join_total :: "msm_hw_fence list \<Rightarrow> msm_hw_fence \<Rightarrow> msm_hw_fence" where
  "join_total fs jf = jf\<lparr>hf_error := foldl (OR) (hf_error jf) (map hf_error (filter signaled fs)),
     hf_pending_child_cnt := hf_pending_child_cnt jf - of_nat (length (filter signaled fs))\<rparr>"

lemma join_fold_jk:
  assumes "distinct ks" and "jk \<notin> set ks" and "V jk = Some jf" and "\<forall>k \<in> set ks. V k \<noteq> None"
  shows "foldl (join_step h jk) V ks jk = Some (join_total (map (\<lambda>k. the (V k)) ks) jf)"
  using assms
proof (induction ks arbitrary: V jf)
  case Nil
  then show ?case by (simp add: join_total_def)
next
  case (Cons k ks)
  let ?V = "join_step h jk V k"
  obtain f where f: "V k = Some f" using Cons.prems(4) by auto
  have o: "?V k' = V k'" if "k' \<in> set ks" for k' using that Cons.prems by (intro join_step_other) auto
  define jf' where "jf' = (if signaled f then joined (hf_error f) jf else jf)"
  have j: "?V jk = Some jf'" using Cons.prems f by (auto simp: join_step_def jf'_def)
  have m: "map (\<lambda>k. the (?V k)) ks = map (\<lambda>k. the (V k)) ks" using o by simp
  have a: "\<forall>k \<in> set ks. ?V k \<noteq> None" using Cons.prems(4) o by simp
  have "foldl (join_step h jk) ?V ks jk = Some (join_total (map (\<lambda>k. the (?V k)) ks) jf')"
    by (rule Cons.IH) (use Cons.prems(1,2) j a in auto)
  also have "join_total (map (\<lambda>k. the (?V k)) ks) jf' = join_total (map (\<lambda>k. the (V k)) (k # ks)) jf"
    unfolding m by (simp add: join_total_def jf'_def joined_def f algebra_simps)
  finally show ?case by simp
qed


section \<open>Fence arrays as a whole\<close>

text \<open>The join fence as it is before any child is looked at.\<close>

definition join_fresh :: "u32 \<Rightarrow> fence_key \<Rightarrow> u32 \<Rightarrow> u64 \<Rightarrow> u64 \<Rightarrow> msm_hw_fence" where
  "join_fresh client_id k n t l =
     (fresh_fence HW_FENCE_JOIN_FENCE_CLIENT_ID k n t l)\<lparr>hf_wait_client_mask := set_bit (unat client_id) 0\<rparr>"

lemma join_fresh_simps [simp]:
  "hf_valid (join_fresh c k n t l) = 1" "fence_key (join_fresh c k n t l) = k" "hf_lock (join_fresh c k n t l) = l"
  "hf_pending_child_cnt (join_fresh c k n t l) = n" "hf_error (join_fresh c k n t l) = 0"
  by (simp_all add: join_fresh_def fresh_fence_def fence_key_def)

lemma fence_array_start:
  assumes inv: "table_inv d" and c: "get_client d cid = Some c" and b: "unat (cl_client_id c) < 64"
    and data: "cd = 0 \<or> hw_fence_get_client_data_id u (cl_client_id_ext c) < HW_FENCE_MAX_CLIENTS_WITH_DATA"
    and jk: "legal_key (dkey (da_base array))" "fence_view d (dkey (da_base array)) = None"
    and room: "card (dom (fence_view d)) < table_size d" and nz: "da_num_fences array \<noteq> 0"
  shows "\<exists>join d3 l. join < table_size d \<and> hf_valid (hw_fences_tbl d ! join) = 0 \<and>
    table_inv d3 \<and> holds_at d3 join (dkey (da_base array)) \<and>
    (\<exists>t. d3 = d\<lparr>qtime_reads := Suc (qtime_reads d), hw_fences_tbl := t\<rparr>) \<and>
    fence_view d3 = (fence_view d)(dkey (da_base array) \<mapsto>
      join_fresh (cl_client_id c) (dkey (da_base array)) (da_num_fences array) (qtimer d (qtime_reads d)) l) \<and>
    hw_fence_process_fence_array u d cid array cd = do {
      fences \<leftarrow> da_fences array;
      (res, d4) \<leftarrow> join_children u (cl_client_id c) join (of_nat join) fences [0..<unat (da_num_fences array)] False d3;
      (case res of
         Inl i \<Rightarrow> do {
           d5 \<leftarrow> cleanup_join_and_child_fences d4 cid i array (of_nat join);
           Some (Inl EINVAL, Some (of_nat join), array, d5) }
       | Inr s \<Rightarrow> fence_array_done u d4 cid array cd (hw_fence_get_client_data_id u (cl_client_id_ext c)) join (of_nat join) s) }"
proof -
  let ?b = "da_base array"
  from lookup_create[OF inv is_create_simps(2) jk, of HW_FENCE_JOIN_FENCE_CLIENT_ID "da_num_fences array"] room_iff_free_slot[OF inv] room
  obtain join where j: "join < table_size d" "hf_valid (hw_fences_tbl d ! join) = 0"
    "hw_fence_lookup_and_process d (df_context ?b) (df_seqno ?b) HW_FENCE_JOIN_FENCE_CLIENT_ID (da_num_fences array)
       HW_FENCE_LOOKUP_OP_CREATE_JOIN = Some (Some join, of_nat join,
         processed HW_FENCE_LOOKUP_OP_CREATE_JOIN HW_FENCE_JOIN_FENCE_CLIENT_ID (df_context ?b) (df_seqno ?b) (da_num_fences array) join d)"
    by auto
  define l where "l = hf_lock (hw_fences_tbl d ! join)"
  define f0 where "f0 = fresh_fence HW_FENCE_JOIN_FENCE_CLIENT_ID (dkey ?b) (da_num_fences array) (qtimer d (qtime_reads d)) l"
  define d1 where "d1 = set_fence join f0 (d\<lparr>qtime_reads := Suc (qtime_reads d)\<rparr>)"
  note p = processed_create[OF inv is_create_simps(2) jk j(1,2), of f0 HW_FENCE_JOIN_FENCE_CLIENT_ID "da_num_fences array", folded d1_def]
  have f0: "f0 = fresh_fence HW_FENCE_JOIN_FENCE_CLIENT_ID (dkey ?b) (if HW_FENCE_LOOKUP_OP_CREATE_JOIN = HW_FENCE_LOOKUP_OP_CREATE_JOIN
      then da_num_fences array else 0) (qtimer d (qtime_reads d)) (hf_lock (hw_fences_tbl d ! join))"
    by (simp add: f0_def l_def)
  have d1: "table_inv d1" "fence_view d1 = (fence_view d)(dkey ?b \<mapsto> f0)"
    "hw_fence_process_join_fence d array True = Some (Some join, Some (of_nat join), d1)"
    using p[OF f0] j(3) by (simp_all add: hw_fence_process_join_fence_def)
  have jl: "join < length (hw_fences_tbl d)" using table_wfD[OF table_inv_wf[OF inv] j(1)] by simp
  have at1: "holds_at d1 join (dkey ?b)" "hw_fences_tbl d1 ! join = f0" using j(1) jl by (simp_all add: holds_at_def d1_def f0_def)
  define g :: "msm_hw_fence \<Rightarrow> msm_hw_fence" where "g = (\<lambda>f. f\<lparr>hf_wait_client_mask := hf_wait_client_mask f OR push_bit (unat (cl_client_id c)) 1\<rparr>)"
  have gb: "lock_blind g" by (simp add: lock_blind_def g_def)
  have "join < table_size d1" using at1(1) by (simp add: holds_at_def)
  from fence_section[OF table_inv_wf[OF d1(1)] this gb] obtain m where
    m: "fence_lock join d1 = Some (set_fence join (f0\<lparr>hf_lock := m\<rparr>) d1)"
    "idx (hw_fences_tbl (set_fence join (f0\<lparr>hf_lock := m\<rparr>) d1)) join = Some (f0\<lparr>hf_lock := m\<rparr>)"
    "fence_unlock join (set_fence join (g (f0\<lparr>hf_lock := m\<rparr>)) d1) = Some (set_fence join (g f0) d1)"
    unfolding at1(2) by blast
  define F where "F = f0\<lparr>hf_lock := m\<rparr>"
  note m' = m[folded F_def]
  have g0: "g f0 = join_fresh (cl_client_id c) (dkey ?b) (da_num_fences array) (qtimer d (qtime_reads d)) l"
    by (simp add: g_def join_fresh_def f0_def set_bit_eq_or fresh_fence_def)
  have "hf_valid (g f0) = hf_valid (hw_fences_tbl d1 ! join)" "fence_key (g f0) = dkey ?b" "hf_lock (g f0) = hf_lock (hw_fences_tbl d1 ! join)"
    unfolding g0 at1(2) by (simp_all add: f0_def)
  note e = edit_entry[OF d1(1) at1(1) this]
  have gF: "F\<lparr>hf_wait_client_mask := hf_wait_client_mask F OR push_bit (unat (cl_client_id c)) 1\<rparr> = g F" by (simp add: g_def)
  have u3: "fence_unlock join (set_fence join (g F) (set_fence join F d1)) = Some (set_fence join (g f0) d1)" using m'(3) by simp
  have nd: "\<not> (cd \<noteq> 0 \<and> HW_FENCE_MAX_CLIENTS_WITH_DATA \<le> hw_fence_get_client_data_id u (cl_client_id_ext c))" using data by auto
  have run: "hw_fence_process_fence_array u d cid array cd = do {
      fences \<leftarrow> da_fences array;
      (res, d4) \<leftarrow> join_children u (cl_client_id c) join (of_nat join) fences [0..<unat (da_num_fences array)] False (set_fence join (g f0) d1);
      (case res of
         Inl i \<Rightarrow> do {
           d5 \<leftarrow> cleanup_join_and_child_fences d4 cid i array (of_nat join);
           Some (Inl EINVAL, Some (of_nat join), array, d5) }
       | Inr s \<Rightarrow> fence_array_done u d4 cid array cd (hw_fence_get_client_data_id u (cl_client_id_ext c)) join (of_nat join) s) }"
    unfolding hw_fence_process_fence_array_def c Option.bind.bind_lunit Let_def if_not_P[OF nd] d1(3) prod.case option.case m'(1,2)
      BIT_Some[OF b] gF u3 if_not_P[OF nz] Option.bind_assoc ..
  show ?thesis
  proof (intro exI[of _ join] exI[of _ "set_fence join (g f0) d1"] exI[of _ l] conjI)
    show "\<exists>t. set_fence join (g f0) d1 = d\<lparr>qtime_reads := Suc (qtime_reads d), hw_fences_tbl := t\<rparr>"
      by (auto simp: d1_def set_fence_def)
    show "fence_view (set_fence join (g f0) d1) = (fence_view d)(dkey ?b \<mapsto>
      join_fresh (cl_client_id c) (dkey ?b) (da_num_fences array) (qtimer d (qtime_reads d)) l)"
      using e(2) unfolding d1(2) g0 by simp
  qed (use e run at1(1) j(1,2) in auto)
qed


definition array_ok :: "hw_fence_uapi \<Rightarrow> hw_fence_driver_data \<Rightarrow> dma_fence_array \<Rightarrow> dma_fence list \<Rightarrow> bool" where
  "array_ok u d array ch \<longleftrightarrow> da_fences array = Some (map Some ch) \<and> da_num_fences array = of_nat (length ch) \<and>
     0 < length ch \<and> length ch < 2 ^ 32 \<and> legal_key (dkey (da_base array)) \<and> fence_view d (dkey (da_base array)) = None \<and>
     card (dom (fence_view d)) < table_size d \<and> distinct (map dkey ch)"

lemma idx_map_Some: "map (idx (map Some ch)) [0..<length ch] = map (\<lambda>fn. Some (Some fn)) ch"
  by (rule nth_equalityI) auto

lemma array_ok_num: "array_ok u d array ch \<Longrightarrow> unat (da_num_fences array) = length ch" "array_ok u d array ch \<Longrightarrow> da_num_fences array \<noteq> 0"
proof -
  assume a: "array_ok u d array ch"
  then show "unat (da_num_fences array) = length ch" by (simp add: array_ok_def unat_of_nat)
  with a show "da_num_fences array \<noteq> 0" by (auto simp: array_ok_def)
qed

abbreviation children_of :: "hw_fence_driver_data \<Rightarrow> dma_fence list \<Rightarrow> msm_hw_fence list" where
  "children_of d ch \<equiv> map (\<lambda>fn. the (fence_view d (dkey fn))) ch"

definition join_error :: "msm_hw_fence list \<Rightarrow> u32" where
  "join_error fs = foldl (OR) 0 (map hf_error (filter signaled fs))"

text \<open>After the loop over a good array, whatever the array asks for next.\<close>

lemma fence_array_loop:
  assumes inv: "table_inv d" and c: "get_client d cid = Some c" and b: "unat (cl_client_id c) < 64"
    and data: "cd = 0 \<or> hw_fence_get_client_data_id u (cl_client_id_ext c) < HW_FENCE_MAX_CLIENTS_WITH_DATA"
    and arr: "array_ok u d array ch" and good: "\<forall>fn \<in> set ch. good_child u (fence_view d) (dkey (da_base array)) fn"
  shows "\<exists>join d4 l. table_inv d4 \<and> holds_at d4 join (dkey (da_base array)) \<and>
    (\<exists>t. d4 = d\<lparr>qtime_reads := Suc (qtime_reads d), hw_fences_tbl := t\<rparr>) \<and>
    fence_view d4 (dkey (da_base array)) = Some (join_total (children_of d ch) (join_fresh (cl_client_id c)
      (dkey (da_base array)) (da_num_fences array) (qtimer d (qtime_reads d)) l)) \<and>
    (\<forall>k. k \<noteq> dkey (da_base array) \<longrightarrow> fence_view d4 k = (if k \<in> dkey ` set ch
      then map_option (\<lambda>f. if signaled f then f else linked (of_nat join) f) (fence_view d k) else fence_view d k)) \<and>
    hw_fence_process_fence_array u d cid array cd =
      fence_array_done u d4 cid array cd (hw_fence_get_client_data_id u (cl_client_id_ext c)) join (of_nat join)
        (\<forall>f \<in> set (children_of d ch). signaled f)"
proof -
  let ?jk = "dkey (da_base array)" and ?n = "da_num_fences array"
  note num = array_ok_num[OF arr]
  have jk: "legal_key ?jk" "fence_view d ?jk = None" and room: "card (dom (fence_view d)) < table_size d"
    and fc: "da_fences array = Some (map Some ch)" and dist: "distinct (map dkey ch)" and len: "0 < length ch" "length ch < 2 ^ 32"
    using arr by (simp_all add: array_ok_def)
  from fence_array_start[OF inv c b data jk room num(2)] obtain join d3 l where d3: "table_inv d3" "holds_at d3 join ?jk"
    "\<exists>t. d3 = d\<lparr>qtime_reads := Suc (qtime_reads d), hw_fences_tbl := t\<rparr>"
    "fence_view d3 = (fence_view d)(?jk \<mapsto> join_fresh (cl_client_id c) ?jk ?n (qtimer d (qtime_reads d)) l)"
    and run: "hw_fence_process_fence_array u d cid array cd = do {
      fences \<leftarrow> da_fences array;
      (res, d4) \<leftarrow> join_children u (cl_client_id c) join (of_nat join) fences [0..<unat ?n] False d3;
      (case res of
         Inl i \<Rightarrow> do {
           d5 \<leftarrow> cleanup_join_and_child_fences d4 cid i array (of_nat join);
           Some (Inl EINVAL, Some (of_nat join), array, d5) }
       | Inr s \<Rightarrow> fence_array_done u d4 cid array cd (hw_fence_get_client_data_id u (cl_client_id_ext c)) join (of_nat join) s) }"
    by blast
  have ne: "dkey fn \<noteq> ?jk" if "fn \<in> set ch" for fn using good that by (auto simp: good_child_def)
  have v3: "fence_view d3 (dkey fn) = fence_view d (dkey fn)" if "fn \<in> set ch" for fn
    unfolding d3(4) by (rule fun_upd_other[OF ne[OF that]])
  have g3: "\<forall>fn \<in> set ch. good_child u (fence_view d3) ?jk fn"
    using good good_child_cong[of "fence_view d3" _ "fence_view d"] v3 by auto
  have ii: "map (idx (map Some ch)) [0..<unat ?n] = map (\<lambda>fn. Some (Some fn)) ch" unfolding num by (rule idx_map_Some)
  have pc: "hf_pending_child_cnt (the (fence_view d3 ?jk)) = of_nat (length ch)" using arr by (simp add: d3(4) array_ok_def)
  from join_children_ok[OF d3(1,2) ii g3 dist pc order_refl len(2), of "cl_client_id c" "of_nat join" False]
  obtain d4 s where d4: "join_children u (cl_client_id c) join (of_nat join) (map Some ch) [0..<unat ?n] False d3 = Some (Inr s, d4)"
    "table_inv d4" "tbl_only d3 d4" "fence_view d4 = foldl (join_step (of_nat join) ?jk) (fence_view d3) (map dkey ch)"
    "holds_at d4 join ?jk" "s \<longleftrightarrow> (\<forall>fn \<in> set ch. signaled (the (fence_view d3 (dkey fn))))"
    using len(1) by auto
  have jn: "?jk \<notin> set (map dkey ch)" using ne by (metis (no_types, lifting) imageE list.set_map)
  have jv3: "fence_view d3 ?jk = Some (join_fresh (cl_client_id c) ?jk ?n (qtimer d (qtime_reads d)) l)" by (simp add: d3(4))
  have some: "\<forall>k \<in> set (map dkey ch). fence_view d3 k \<noteq> None"
    using g3 by (auto simp: good_child_def split: option.splits)
  have m: "map (\<lambda>k. the (fence_view d3 k)) (map dkey ch) = children_of d ch" using v3 by simp
  show ?thesis
  proof (intro exI[of _ join] exI[of _ d4] exI[of _ l] conjI allI impI)
    show "\<exists>t. d4 = d\<lparr>qtime_reads := Suc (qtime_reads d), hw_fences_tbl := t\<rparr>"
      using d3(3) d4(3) by (auto simp: tbl_only_def)
    show "fence_view d4 ?jk = Some (join_total (children_of d ch) (join_fresh (cl_client_id c) ?jk ?n (qtimer d (qtime_reads d)) l))"
      unfolding d4(4) join_fold_jk[OF dist jn jv3 some] m ..
    show "fence_view d4 k = (if k \<in> dkey ` set ch then map_option (\<lambda>f. if signaled f then f else linked (of_nat join) f) (fence_view d k)
       else fence_view d k)" if "k \<noteq> ?jk" for k
      unfolding d4(4) using join_fold_child[OF dist jn that] that by (simp add: d3(4))
    show "hw_fence_process_fence_array u d cid array cd =
      fence_array_done u d4 cid array cd (hw_fence_get_client_data_id u (cl_client_id_ext c)) join (of_nat join)
        (\<forall>f \<in> set (children_of d ch). signaled f)"
      unfolding run fc using d4(1,6) v3 by simp
  qed (use d4 in auto)
qed

lemma join_pending_spec:
  assumes inv: "table_inv d" and c: "get_client d cid = Some c" and b: "unat (cl_client_id c) < 64"
    and data: "cd = 0 \<or> hw_fence_get_client_data_id u (cl_client_id_ext c) < HW_FENCE_MAX_CLIENTS_WITH_DATA"
    and arr: "array_ok u d array ch" and good: "\<forall>fn \<in> set ch. good_child u (fence_view d) (dkey (da_base array)) fn"
    and uns: "\<not> (\<forall>f \<in> set (children_of d ch). signaled f)"
  shows "\<exists>join d' jf t. hw_fence_process_fence_array u d cid array cd = Some (Inr (), Some (of_nat join), array, d') \<and>
    table_inv d' \<and> d' = d\<lparr>qtime_reads := Suc (qtime_reads d), hw_fences_tbl := t\<rparr> \<and>
    holds_at d' join (dkey (da_base array)) \<and> fence_view d' (dkey (da_base array)) = Some jf \<and>
    hf_pending_child_cnt jf = of_nat (length (filter (\<lambda>f. \<not> signaled f) (children_of d ch))) \<and>
    hf_error jf = join_error (children_of d ch) \<and> hf_wait_client_mask jf = set_bit (unat (cl_client_id c)) 0 \<and>
    (\<forall>k. k \<noteq> dkey (da_base array) \<longrightarrow> fence_view d' k = (if k \<in> dkey ` set ch
      then map_option (\<lambda>f. if signaled f then f else linked (of_nat join) f) (fence_view d k) else fence_view d k))"
proof -
  let ?jk = "dkey (da_base array)" and ?i = "hw_fence_get_client_data_id u (cl_client_id_ext c)"
  have uns': "(\<forall>f \<in> set (children_of d ch). signaled f) = False" using uns by (simp only: not_True_eq_False)
  from fence_array_loop[OF inv c b data arr good, unfolded uns'] obtain join d4 l t where d4: "table_inv d4" "holds_at d4 join ?jk"
    "d4 = d\<lparr>qtime_reads := Suc (qtime_reads d), hw_fences_tbl := t\<rparr>"
    "fence_view d4 ?jk = Some (join_total (children_of d ch) (join_fresh (cl_client_id c) ?jk (da_num_fences array) (qtimer d (qtime_reads d)) l))"
    "\<forall>k. k \<noteq> ?jk \<longrightarrow> fence_view d4 k = (if k \<in> dkey ` set ch
      then map_option (\<lambda>f. if signaled f then f else linked (of_nat join) f) (fence_view d k) else fence_view d k)"
    "hw_fence_process_fence_array u d cid array cd = fence_array_done u d4 cid array cd ?i join (of_nat join) False"
    by blast
  let ?jf = "hw_fences_tbl d4 ! join"
  let ?jf' = "?jf\<lparr>hf_client_data := (if cd \<noteq> 0 then (hf_client_data ?jf)[?i := cd] else hf_client_data ?jf)\<rparr>"
  have "fence_key ?jf' = ?jk" using d4(2) by (simp add: holds_at_def fence_key_def)
  note e = edit_entry[OF d4(1,2) _ this]
  have jl: "join < length (hw_fences_tbl d4)"
    using d4(2) table_wfD[OF table_inv_wf[OF d4(1)]] by (simp add: holds_at_def)
  have jv: "?jf = join_total (children_of d ch) (join_fresh (cl_client_id c) ?jk (da_num_fences array) (qtimer d (qtime_reads d)) l)"
    using holds_at_view[OF d4(1,2)] d4(4) by simp
  have run: "hw_fence_process_fence_array u d cid array cd = Some (Inr (), Some (of_nat join), array, set_fence join ?jf' d4)"
  proof -
    have z: "(if cd \<noteq> 0 then set_fence join (?jf\<lparr>hf_client_data := (hf_client_data ?jf)[?i := cd]\<rparr>) d4 else d4) =
        set_fence join ?jf' d4" by (cases "cd = 0") simp_all
    show ?thesis
      unfolding d4(6) fence_array_done_def idx_Some[OF jl] Option.bind.bind_lunit Let_def z
      by (simp only: if_False if_not_P[OF array_ok_num(2)[OF arr]])
  qed
  have cnt: "(of_nat (length ch) :: u32) - of_nat (length (filter signaled fs)) = of_nat (length (filter (\<lambda>f. \<not> signaled f) fs))"
    if "length fs = length ch" for fs
  proof -
    have "length ch = length (filter signaled fs) + length (filter (\<lambda>f. \<not> signaled f) fs)"
      using sum_length_filter_compl[of signaled fs] that by simp
    then show ?thesis by (simp only: of_nat_add add_diff_cancel_left')
  qed
  show ?thesis
  proof (intro exI[of _ join] exI[of _ "set_fence join ?jf' d4"] exI[of _ ?jf'] exI[of _ "hw_fences_tbl (set_fence join ?jf' d4)"] conjI)
    show "set_fence join ?jf' d4 = d\<lparr>qtime_reads := Suc (qtime_reads d), hw_fences_tbl := hw_fences_tbl (set_fence join ?jf' d4)\<rparr>"
      by (simp add: d4(3) set_fence_def)
    show "hf_pending_child_cnt ?jf' = of_nat (length (filter (\<lambda>f. \<not> signaled f) (children_of d ch)))"
      using cnt[of "children_of d ch"] arr by (simp add: jv join_total_def array_ok_def)
    show "hf_error ?jf' = join_error (children_of d ch)" by (simp add: jv join_total_def join_error_def)
    show "hf_wait_client_mask ?jf' = set_bit (unat (cl_client_id c)) 0" by (simp add: jv join_total_def join_fresh_def)
    show "\<forall>k. k \<noteq> ?jk \<longrightarrow> fence_view (set_fence join ?jf' d4) k = (if k \<in> dkey ` set ch
      then map_option (\<lambda>f. if signaled f then f else linked (of_nat join) f) (fence_view d k) else fence_view d k)"
      using e(2) d4(5) by simp
  qed (use e run d4(2) in simp_all)
qed


lemma process_join_destroy:
  assumes "hw_fence_destroy d HW_FENCE_JOIN_FENCE_CLIENT_ID (df_context (da_base array)) (df_seqno (da_base array)) = Some (rc, d')"
  shows "hw_fence_process_join_fence d array False = Some (None, None, d')"
proof -
  obtain rc' where "hw_fence_cleanup d HW_FENCE_JOIN_FENCE_CLIENT_ID (df_context (da_base array)) (df_seqno (da_base array)) = Some (rc', d')"
    using assms by (auto simp: hw_fence_destroy_def bind_Some_iff)
  then show ?thesis by (simp add: hw_fence_process_join_fence_def)
qed

lemma join_signaled_spec:
  assumes inv: "table_inv d" and ok: "clients_ok d" and c: "get_client d cid = Some c" and b: "unat (cl_client_id c) < 64"
    and data: "cd = 0 \<or> hw_fence_get_client_data_id u (cl_client_id_ext c) < HW_FENCE_MAX_CLIENTS_WITH_DATA"
    and arr: "array_ok u d array ch" and good: "\<forall>fn \<in> set ch. good_child u (fence_view d) (dkey (da_base array)) fn"
    and sg: "\<forall>f \<in> set (children_of d ch). signaled f" and er: "er = join_error (children_of d ch)"
  shows "\<exists>join d' jf. hw_fence_process_fence_array u d cid array cd = Some (Inr (), Some (of_nat join),
      array\<lparr>da_base := (da_base array)\<lparr>df_flags := set_bit (FLAG_SIGNALED_BIT u) (df_flags (da_base array))\<rparr>\<rparr>, d') \<and>
    table_inv d' \<and> clients_ok d' \<and> fence_view d' = fence_view d \<and> fence_key jf = dkey (da_base array) \<and>
    error_cb_calls d' = error_cb_calls d @ notify_calls c jf (of_nat join) 0 er \<and>
    ipcc_writes d' = ipcc_writes d @ notify_bells d c er \<and> (\<forall>k. k \<noteq> cid \<longrightarrow> get_client d' k = get_client d k)"
proof -
  let ?jk = "dkey (da_base array)" and ?i = "hw_fence_get_client_data_id u (cl_client_id_ext c)"
  have jk: "legal_key ?jk" "fence_view d ?jk = None" using arr by (simp_all add: array_ok_def)
  have sg': "(\<forall>f \<in> set (children_of d ch). signaled f) = True" using sg by (simp only: eq_True)
  from fence_array_loop[OF inv c b data arr good, unfolded sg'] obtain join d4 l t where d4: "table_inv d4" "holds_at d4 join ?jk"
    "d4 = d\<lparr>qtime_reads := Suc (qtime_reads d), hw_fences_tbl := t\<rparr>"
    "fence_view d4 ?jk = Some (join_total (children_of d ch) (join_fresh (cl_client_id c) ?jk (da_num_fences array) (qtimer d (qtime_reads d)) l))"
    "\<forall>k. k \<noteq> ?jk \<longrightarrow> fence_view d4 k = (if k \<in> dkey ` set ch
      then map_option (\<lambda>f. if signaled f then f else linked (of_nat join) f) (fence_view d k) else fence_view d k)"
    "hw_fence_process_fence_array u d cid array cd = fence_array_done u d4 cid array cd ?i join (of_nat join) True"
    by blast
  define jf where "jf = hw_fences_tbl d4 ! join"
  define jf' where "jf' = jf\<lparr>hf_client_data := (if cd \<noteq> 0 then (hf_client_data jf)[?i := cd] else hf_client_data jf)\<rparr>"
  have k': "fence_key jf' = ?jk" using d4(2) by (simp add: holds_at_def fence_key_def jf_def jf'_def)
  have "hf_valid jf' = hf_valid (hw_fences_tbl d4 ! join)" "hf_lock jf' = hf_lock (hw_fences_tbl d4 ! join)"
    by (simp_all add: jf'_def jf_def)
  note e = edit_entry[OF d4(1,2) this(1) k' this(2)]
  define d5 where "d5 = set_fence join jf' d4"
  note e5 = e[folded d5_def]
  have jl: "join < length (hw_fences_tbl d4)"
    using d4(2) table_wfD[OF table_inv_wf[OF d4(1)]] by (simp add: holds_at_def)
  have jl5: "join < length (hw_fences_tbl d5)" using jl by (simp add: d5_def)
  have "jf = join_total (children_of d ch) (join_fresh (cl_client_id c) ?jk (da_num_fences array) (qtimer d (qtime_reads d)) l)"
    using holds_at_view[OF d4(1,2)] d4(4) by (simp add: jf_def)
  then have je: "hf_error jf' = er" by (simp add: jf'_def er join_error_def join_total_def)
  have fr5: "\<exists>t. d5 = d\<lparr>qtime_reads := Suc (qtime_reads d), hw_fences_tbl := t\<rparr>" by (auto simp: d5_def d4(3) set_fence_def)
  then have k5: "clients d5 = clients d" "ipcc_writes d5 = ipcc_writes d" "error_cb_calls d5 = error_cb_calls d"
    "clients_ok d5" "get_client d5 = get_client d" "notify_bells d5 c er = notify_bells d c er"
    using ok by (auto simp: clients_ok_def get_client_def notify_bells_def)
  have c5: "get_client d5 cid = Some c" using c k5 by simp
  obtain d6 where d6: "fence_ctl_signal u d5 cid join (of_nat join) 0 cd er = Some d6" "notified u cid join (of_nat join) 0 cd er d5 d6"
    using fence_ctl_signal_ok[OF locks_free_split[OF table_inv_wf[OF e5(1)] k5(4)] k5(4) c5 jl5] by blast
  note fr = sig_frame_keeps[OF notified_frame[OF d6(2)]]
  have ci: "clients d5 ! cid = Some c" "cid < length (clients d5)" using c5 get_client_Some_iff by blast+
  from d6(2) ci(1) obtain c' where n: "clients d6 = (clients d5)[cid := Some c']"
    "ipcc_writes d6 = ipcc_writes d5 @ notify_bells d5 c er"
    "error_cb_calls d6 = error_cb_calls d5 @ notify_calls c (hw_fences_tbl d5 ! join) (of_nat join) 0 er"
    by (auto elim!: notifiedE)
  have inv6: "table_inv d6" and vw6: "fence_view d6 = fence_view d5"
    using e5(1) notified_frame[OF d6(2)] by (simp_all add: table_inv_frame fence_view_frame)
  have ok6: "clients_ok d6" by (rule notified_clients_ok[OF d6(2) k5(4) ci(2)])
  have "fence_view d6 ?jk \<noteq> None" by (simp add: vw6 e5(2))
  with hw_fence_destroy_spec[OF inv6 jk(1), of HW_FENCE_JOIN_FENCE_CLIENT_ID]
  obtain d7 t7 where d7: "hw_fence_destroy d6 HW_FENCE_JOIN_FENCE_CLIENT_ID (df_context (da_base array)) (df_seqno (da_base array)) = Some (Inr (), d7)"
    "d7 = d6\<lparr>hw_fences_tbl := t7\<rparr>" "table_inv d7" "fence_view d7 = (fence_view d6)(?jk := None)" by auto
  have pj: "hw_fence_process_join_fence d6 array False = Some (None, None, d7)" by (rule process_join_destroy[OF d7(1)])
  have z: "(if cd \<noteq> 0 then set_fence join (jf\<lparr>hf_client_data := (hf_client_data jf)[?i := cd]\<rparr>) d4 else d4) = d5"
    unfolding d5_def jf'_def by (cases "cd = 0") (simp_all add: jf_def)
  have run: "hw_fence_process_fence_array u d cid array cd = Some (Inr (), Some (of_nat join),
      array\<lparr>da_base := (da_base array)\<lparr>df_flags := set_bit (FLAG_SIGNALED_BIT u) (df_flags (da_base array))\<rparr>\<rparr>, d7)"
    unfolding d4(6) fence_array_done_def idx_Some[OF jl] jf_def[symmetric] Option.bind.bind_lunit Let_def z if_True idx_Some[OF jl5]
      e5(4) je d6(1) pj prod.case ..
  have "fence_view d7 = fence_view d"
  proof
    fix k
    have s: "signaled (the (fence_view d (dkey fn)))" if "fn \<in> set ch" for fn using sg that by simp
    have "fence_view d4 k = fence_view d k" if kn: "k \<noteq> ?jk"
    proof (cases "k \<in> dkey ` set ch")
      case True
      then obtain fn where fn: "fn \<in> set ch" "k = dkey fn" by blast
      with s[OF fn(1)] d4(5) kn show ?thesis by (cases "fence_view d k") auto
    next
      case False
      with d4(5)[rule_format, OF kn] show ?thesis by simp
    qed
    then show "fence_view d7 k = fence_view d k"
      using jk(2) by (cases "k = ?jk") (auto simp: d7(4) vw6 e5(2))
  qed
  moreover have "clients_ok d7" using ok6 d7(2) by (simp add: clients_ok_def)
  moreover have "get_client d7 k = get_client d k" if "k \<noteq> cid" for k
    using that n(1) k5(1) d7(2) by (simp add: get_client_def idx_def)
  ultimately show ?thesis
    using run d7(2,3) n k5 k' e5(4)
    by (intro exI[of _ join] exI[of _ d7] exI[of _ jf']) (simp add: d7(2))
qed

section \<open>Rolling back a failed join\<close>

lemma unlink_parents_step:
  "j \<noteq> 0 \<Longrightarrow> unlink_parents j h f =
     unlink_parents (min j MSM_HW_FENCE_MAX_JOIN_PARENTS - 1) h (unlink_slot (min j MSM_HW_FENCE_MAX_JOIN_PARENTS) h f)"
  by (subst unlink_parents.simps) (simp add: Let_def min_def)

lemma unlink_parents_zero [simp]: "unlink_parents 0 h f = f"
  by (simp add: unlink_parents.simps)

lemma unlink_parents_same:
  assumes "length (hf_parent_list f) = 3" and "h \<notin> set (hf_parent_list f)"
  shows "unlink_parents j h f = f"
proof (induction j rule: less_induct)
  case (less j)
  let ?m = "min j MSM_HW_FENCE_MAX_JOIN_PARENTS"
  show ?case
  proof (cases "j = 0")
    case False
    then have "?m - 1 < 3" "?m - 1 < j" by (auto simp: MSM_HW_FENCE_MAX_JOIN_PARENTS_def)
    moreover from this assms have "unlink_slot ?m h f = f" by (auto simp: unlink_slot_def)
    ultimately show ?thesis using unlink_parents_step[OF False, of h f] less by simp
  qed simp
qed

lemma unlink_child_same:
  "length (hf_parent_list f) = 3 \<Longrightarrow> h \<notin> set (hf_parent_list f) \<Longrightarrow> unlink_child h f = f"
  by (simp add: unlink_child_def unlink_parents_same)

lemma unlink_linked:
  assumes n: "length (hf_parent_list f) = 3" and h: "h \<notin> set (hf_parent_list f)"
    and c: "unat (hf_parents_cnt f) + 1 < MSM_HW_FENCE_MAX_JOIN_PARENTS"
    and inv: "hf_parent_list f ! unat (hf_parents_cnt f) = HW_FENCE_INVALID_PARENT_FENCE"
  shows "unlink_child h (linked h f) = f"
proof -
  let ?c = "unat (hf_parents_cnt f)"
  have c2: "?c + 1 < 3" using c by (simp add: MSM_HW_FENCE_MAX_JOIN_PARENTS_def)
  have u: "unat (hf_parents_cnt f + 1) = ?c + 1" using c2 by (simp add: unat_word_ariths)
  have s: "nat (sint (hf_parents_cnt f + 1)) = Suc ?c"
  proof -
    have "int (unat (hf_parents_cnt f + 1)) = uint (hf_parents_cnt f + 1)" by simp
    then have ui: "uint (hf_parents_cnt f + 1) = int (?c + 1)" using u by (simp only:)
    have "sint (hf_parents_cnt f + 1) = signed_take_bit 31 (uint (hf_parents_cnt f + 1))" by (simp add: sint_uint)
    also have "\<dots> = int (?c + 1)"
    proof -
      have "signed_take_bit 31 (int n) = int n" if "n < 3" for n
        using that by (intro signed_take_bit_int_eq_self) simp_all
      then show ?thesis unfolding ui using c2 by blast
    qed
    finally show ?thesis by (simp only: nat_int Suc_eq_plus1)
  qed
  have nz: "hf_parents_cnt f + 1 \<noteq> 0" using u by (metis Suc_eq_plus1 nat.distinct(1) unsigned_0)
  have r: "(linked h f)\<lparr>hf_parent_list := (hf_parent_list (linked h f))[?c := HW_FENCE_INVALID_PARENT_FENCE],
      hf_parents_cnt := hf_parents_cnt (linked h f) - 1\<rparr> = f"
    by (simp add: linked_def flip: inv)
  have "unlink_child h (linked h f) = unlink_parents (Suc ?c) h (linked h f)"
    by (simp add: unlink_child_def linked_def s)
  also have "\<dots> = unlink_parents ?c h f"
  proof -
    have a: "min (Suc ?c) MSM_HW_FENCE_MAX_JOIN_PARENTS = Suc ?c" using c by simp
    have l: "hf_parent_list (linked h f) ! ?c = h" using c2 n by (simp add: linked_def)
    have p: "hf_parents_cnt (linked h f) \<noteq> 0" using nz by (simp add: linked_def)
    have "unlink_slot (Suc ?c) h (linked h f) = f" unfolding unlink_slot_def diff_Suc_1 if_P[OF l] if_P[OF p] by (rule r)
    then show ?thesis using unlink_parents_step[of "Suc ?c" h "linked h f", unfolded a] by simp
  qed
  also have "\<dots> = f" by (rule unlink_parents_same[OF n h])
  finally show ?thesis .
qed


lemma unlink_parents_keeps:
  "hf_valid (unlink_parents j h f) = hf_valid f \<and> fence_key (unlink_parents j h f) = fence_key f"
proof (induction j arbitrary: f rule: less_induct)
  case (less j)
  let ?m = "min j MSM_HW_FENCE_MAX_JOIN_PARENTS"
  show ?case
  proof (cases "j = 0")
    case False
    then have "?m - 1 < j" by (auto simp: MSM_HW_FENCE_MAX_JOIN_PARENTS_def)
    with less show ?thesis unfolding unlink_parents_step[OF False] by (simp add: unlink_slot_def fence_key_def)
  qed simp
qed

lemma unlink_parents_lock: "unlink_parents j h (f\<lparr>hf_lock := l\<rparr>) = (unlink_parents j h f)\<lparr>hf_lock := l\<rparr>"
proof (induction j arbitrary: f rule: less_induct)
  case (less j)
  let ?m = "min j MSM_HW_FENCE_MAX_JOIN_PARENTS"
  show ?case
  proof (cases "j = 0")
    case False
    then have "?m - 1 < j" by (auto simp: MSM_HW_FENCE_MAX_JOIN_PARENTS_def)
    moreover have "unlink_slot ?m h (f\<lparr>hf_lock := l\<rparr>) = (unlink_slot ?m h f)\<lparr>hf_lock := l\<rparr>" by (simp add: unlink_slot_def)
    ultimately show ?thesis unfolding unlink_parents_step[OF False] using less by simp
  qed simp
qed

lemma unlink_child_blind: "lock_blind (unlink_child h)"
  by (simp add: lock_blind_def unlink_child_def unlink_parents_lock)

lemma unlink_child_keeps:
  "hf_valid (unlink_child h f) = hf_valid f" "fence_key (unlink_child h f) = fence_key f"
  "hf_lock (unlink_child h f) = hf_lock f"
  using unlink_parents_keeps lock_blind_lock[OF unlink_child_blind] by (simp_all add: unlink_child_def)

definition unlink_step :: "u64 \<Rightarrow> (fence_key \<Rightarrow> msm_hw_fence option) \<Rightarrow> fence_key \<Rightarrow> (fence_key \<Rightarrow> msm_hw_fence option)" where
  "unlink_step h V k = V(k := map_option (unlink_child h) (V k))"

lemma cleanup_children_ok:
  assumes "table_inv d" and "map (idx fences) is = map (\<lambda>fn. Some (Some fn)) ch" and "\<forall>fn \<in> set ch. legal_key (dkey fn)"
  shows "\<exists>d'. cleanup_children c fences h is d = Some d' \<and> table_inv d' \<and> tbl_only d d' \<and>
    fence_view d' = foldl (unlink_step h) (fence_view d) (map dkey ch)"
  using assms
proof (induction ch arbitrary: d "is")
  case Nil
  then show ?case by simp
next
  case (Cons fn ch)
  from Cons.prems(2) obtain i is' where ii: "is = i # is'" "idx fences i = Some (Some fn)"
    "map (idx fences) is' = map (\<lambda>fn. Some (Some fn)) ch" by (cases "is") auto
  have lk: "legal_key (dkey fn)" "\<forall>fn \<in> set ch. legal_key (dkey fn)" using Cons.prems(3) by auto
  show ?case
  proof (cases "fence_view d (dkey fn)")
    case None
    from msm_hw_fence_find_spec[OF Cons.prems(1) lk(1), of c] None
    have "cleanup_children c fences h is d = cleanup_children c fences h is' d" using ii by auto
    moreover have "unlink_step h (fence_view d) (dkey fn) = fence_view d"
      using None by (simp add: unlink_step_def fun_upd_idem)
    ultimately show ?thesis using Cons.IH[OF Cons.prems(1) ii(3) lk(2)] by simp
  next
    case (Some f)
    then obtain k where k: "holds_at d k (dkey fn)" "hw_fences_tbl d ! k = f" using view_holds_at[OF Cons.prems(1)] by blast
    have fnd: "msm_hw_fence_find d c (df_context fn) (df_seqno fn) = Some (Some k, of_nat k, d)"
      using find_at[OF Cons.prems(1) lk(1) k(1)] by simp
    have "k < table_size d" using k(1) by (simp add: holds_at_def)
    from fence_section[OF table_inv_wf[OF Cons.prems(1)] this unlink_child_blind] obtain l where
      l: "fence_lock k d = Some (set_fence k (f\<lparr>hf_lock := l\<rparr>) d)"
      "idx (hw_fences_tbl (set_fence k (f\<lparr>hf_lock := l\<rparr>) d)) k = Some (f\<lparr>hf_lock := l\<rparr>)"
      "fence_unlock k (set_fence k (unlink_child h (f\<lparr>hf_lock := l\<rparr>)) d) = Some (set_fence k (unlink_child h f) d)"
      unfolding k(2) by blast
    let ?d1 = "set_fence k (unlink_child h f) d"
    have run: "cleanup_children c fences h is d = cleanup_children c fences h is' ?d1"
      using ii fnd l by simp
    have "fence_key (unlink_child h f) = dkey fn" using k by (simp add: unlink_child_keeps holds_at_def)
    note e = edit_entry[OF Cons.prems(1) k(1) _ this, unfolded k(2), OF unlink_child_keeps(1,3)]
    have "fence_view ?d1 = unlink_step h (fence_view d) (dkey fn)" using e(2) Some by (simp add: unlink_step_def)
    with Cons.IH[OF e(1) ii(3) lk(2)] run show ?thesis using tbl_only_trans[OF tbl_only_set] by auto
  qed
qed

lemma unlink_fold:
  "distinct ks \<Longrightarrow> foldl (unlink_step h) V ks k = (if k \<in> set ks then map_option (unlink_child h) (V k) else V k)"
  by (induction ks arbitrary: V) (auto simp: unlink_step_def)

text \<open>What makes a child fail: a nested array, not a hardware fence, unknown, or with its parents exhausted.\<close>

definition bad_child :: "hw_fence_uapi \<Rightarrow> (fence_key \<Rightarrow> msm_hw_fence option) \<Rightarrow> dma_fence \<Rightarrow> bool" where
  "bad_child u V fn \<longleftrightarrow> df_is_array fn \<or> \<not> bit (df_flags fn) (FLAG_ENABLED_BIT u) \<or>
     (case V (dkey fn) of None \<Rightarrow> True
      | Some f \<Rightarrow> \<not> signaled f \<and> MSM_HW_FENCE_MAX_JOIN_PARENTS \<le> unat (hf_parents_cnt f) + 1)"

lemma join_child_bad:
  assumes inv: "table_inv d" and lk: "legal_key (dkey fn)" and bad: "bad_child u (fence_view d) fn"
  shows "join_child u c join h (Some fn) d = Some (Inl (), d)"
proof (cases "df_is_array fn \<or> \<not> bit (df_flags fn) (FLAG_ENABLED_BIT u)")
  case True
  then show ?thesis by (auto simp: join_child_def)
next
  case False
  show ?thesis
  proof (cases "fence_view d (dkey fn)")
    case None
    with False msm_hw_fence_find_spec[OF inv lk, of c] show ?thesis by (auto simp: join_child_def)
  next
    case (Some f)
    then obtain i where i: "holds_at d i (dkey fn)" "hw_fences_tbl d ! i = f" using view_holds_at[OF inv] by blast
    with Some bad False join_child_unsignaled[OF inv i(1) _ _ lk, of u c join h] show ?thesis
      by (auto simp: bad_child_def)
  qed
qed

text \<open>The parent lists refer only to join fences that exist, and are filled from the front.\<close>

definition parents_ok :: "hw_fence_driver_data \<Rightarrow> bool" where
  "parents_ok d \<longleftrightarrow> (\<forall>k f. fence_view d k = Some f \<longrightarrow> length (hf_parent_list f) = MSM_HW_FENCE_MAX_JOIN_PARENTS \<and>
     (\<forall>j < MSM_HW_FENCE_MAX_JOIN_PARENTS. unat (hf_parents_cnt f) \<le> j \<longrightarrow> hf_parent_list f ! j = HW_FENCE_INVALID_PARENT_FENCE) \<and>
     (\<forall>i < table_size d. hf_valid (hw_fences_tbl d ! i) = 0 \<longrightarrow> of_nat i \<notin> set (hf_parent_list f)))"


lemma join_children_append:
  "join_children u c join h fences (xs @ ys) sig d = do {
     (r, d') \<leftarrow> join_children u c join h fences xs sig d;
     (case r of Inl i \<Rightarrow> Some (Inl i, d') | Inr s \<Rightarrow> join_children u c join h fences ys s d') }"
proof (induction xs arbitrary: sig d)
  case (Cons x xs)
  then show ?case
    by (cases "idx fences x") (auto split: sum.split option.split bind_split)
qed simp

lemma idx_prefix:
  assumes "m < length ch"
  shows "map (idx (map Some ch)) [0..<m] = map (\<lambda>fn. Some (Some fn)) (take m ch)"
    and "map (idx (map Some ch)) (rev [0..<Suc m]) = map (\<lambda>fn. Some (Some fn)) (rev (take (Suc m) ch))"
proof -
  have p: "map (idx (map Some ch)) [0..<k] = map (\<lambda>fn. Some (Some fn)) (take k ch)" if "k \<le> length ch" for k
    using that by (intro nth_equalityI) auto
  from p[of m] assms show "map (idx (map Some ch)) [0..<m] = map (\<lambda>fn. Some (Some fn)) (take m ch)" by simp
  from p[of "Suc m"] assms show "map (idx (map Some ch)) (rev [0..<Suc m]) = map (\<lambda>fn. Some (Some fn)) (rev (take (Suc m) ch))"
    by (simp only: rev_map[symmetric] Suc_leI)
qed

lemma join_rollback_spec:
  assumes inv: "table_inv d" and c: "get_client d cid = Some c" and b: "unat (cl_client_id c) < 64"
    and data: "cd = 0 \<or> hw_fence_get_client_data_id u (cl_client_id_ext c) < HW_FENCE_MAX_CLIENTS_WITH_DATA"
    and arr: "array_ok u d array ch" and m: "m < length ch"
    and good: "\<forall>fn \<in> set (take m ch). good_child u (fence_view d) (dkey (da_base array)) fn"
    and bad: "bad_child u (fence_view d) (ch ! m)" "legal_key (dkey (ch ! m))" "dkey (ch ! m) \<noteq> dkey (da_base array)"
    and par: "parents_ok d"
  shows "\<exists>h d' t. hw_fence_process_fence_array u d cid array cd = Some (Inl EINVAL, Some h, array, d') \<and> table_inv d' \<and>
    fence_view d' = fence_view d \<and> d' = d\<lparr>qtime_reads := Suc (qtime_reads d), hw_fences_tbl := t\<rparr>"
proof -
  let ?jk = "dkey (da_base array)" and ?n = "da_num_fences array" and ?V = "fence_view d"
  note num = array_ok_num[OF arr]
  have jk: "legal_key ?jk" "?V ?jk = None" and room: "card (dom ?V) < table_size d"
    and fc: "da_fences array = Some (map Some ch)" and dist: "distinct (map dkey ch)" and len: "length ch < 2 ^ 32"
    using arr by (simp_all add: array_ok_def)
  from fence_array_start[OF inv c b data jk room num(2)] obtain join d3 l where
    jfree: "join < table_size d" "hf_valid (hw_fences_tbl d ! join) = 0" and d3: "table_inv d3" "holds_at d3 join ?jk"
    "\<exists>t. d3 = d\<lparr>qtime_reads := Suc (qtime_reads d), hw_fences_tbl := t\<rparr>"
    "fence_view d3 = ?V(?jk \<mapsto> join_fresh (cl_client_id c) ?jk ?n (qtimer d (qtime_reads d)) l)"
    and run: "hw_fence_process_fence_array u d cid array cd = do {
      fences \<leftarrow> da_fences array;
      (res, d4) \<leftarrow> join_children u (cl_client_id c) join (of_nat join) fences [0..<unat ?n] False d3;
      (case res of
         Inl i \<Rightarrow> do {
           d5 \<leftarrow> cleanup_join_and_child_fences d4 cid i array (of_nat join);
           Some (Inl EINVAL, Some (of_nat join), array, d5) }
       | Inr s \<Rightarrow> fence_array_done u d4 cid array cd (hw_fence_get_client_data_id u (cl_client_id_ext c)) join (of_nat join) s) }"
    by blast
  let ?pre = "take m ch" and ?h = "of_nat join :: u64"
  have ne: "dkey fn \<noteq> ?jk" if "fn \<in> set ?pre" for fn using good that by (auto simp: good_child_def)
  have g3: "\<forall>fn \<in> set ?pre. good_child u (fence_view d3) ?jk fn"
  proof
    fix fn assume a: "fn \<in> set ?pre"
    have "fence_view d3 (dkey fn) = ?V (dkey fn)" unfolding d3(4) by (rule fun_upd_other[OF ne[OF a]])
    with good a show "good_child u (fence_view d3) ?jk fn" using good_child_cong by blast
  qed
  have dp: "distinct (map dkey ?pre)" unfolding take_map[symmetric] using dist by (rule distinct_take)
  have pc: "hf_pending_child_cnt (the (fence_view d3 ?jk)) = of_nat (length ch)" using arr by (simp add: d3(4) array_ok_def)
  have lp: "length ?pre \<le> length ch" using m by simp
  from join_children_ok[OF d3(1,2) idx_prefix(1)[OF m] g3 dp pc lp len, of "cl_client_id c" ?h False]
  obtain d4 s where d4: "join_children u (cl_client_id c) join ?h (map Some ch) [0..<m] False d3 = Some (Inr s, d4)"
    "table_inv d4" "tbl_only d3 d4" "fence_view d4 = foldl (join_step ?h ?jk) (fence_view d3) (map dkey ?pre)" "holds_at d4 join ?jk"
    by blast
  have jn: "?jk \<notin> set (map dkey ?pre)" using ne by (metis (no_types, lifting) imageE list.set_map)
  have v4: "fence_view d4 k = (if k \<in> set (map dkey ?pre) then map_option (\<lambda>f. if signaled f then f else linked ?h f) (?V k) else ?V k)"
    if "k \<noteq> ?jk" for k
    unfolding d4(4) join_fold_child[OF dp jn that] d3(4) fun_upd_other[OF that] ..
  have bn: "dkey (ch ! m) \<notin> set (map dkey ?pre)"
  proof -
    have "map dkey ch = map dkey ?pre @ dkey (ch ! m) # map dkey (drop (Suc m) ch)"
      by (subst id_take_nth_drop[OF m]) simp
    with dist show ?thesis by (simp only: distinct_append) auto
  qed
  have "fence_view d4 (dkey (ch ! m)) = ?V (dkey (ch ! m))" using v4[OF bad(3)] bn by simp
  then have bad4: "bad_child u (fence_view d4) (ch ! m)" using bad(1) by (simp add: bad_child_def)
  have "[0..<unat ?n] = [0..<m] @ m # [Suc m..<unat ?n]"
    using m num(1) upt_add_eq_append[of 0 m "unat ?n - m"] upt_conv_Cons[of m "unat ?n"] by simp
  then have loop: "join_children u (cl_client_id c) join ?h (map Some ch) [0..<unat ?n] False d3 = Some (Inl m, d4)"
    using d4(1) join_child_bad[OF d4(2) bad(2) bad4] m by (simp add: join_children_append)
  have lk: "\<forall>fn \<in> set (rev (take (Suc m) ch)). legal_key (dkey fn)"
    using good bad(2) m by (auto simp: take_Suc_conv_app_nth good_child_def)
  from cleanup_children_ok[OF d4(2) idx_prefix(2)[OF m] lk, of "cl_client_id c" ?h] obtain d5 where
    d5: "cleanup_children (cl_client_id c) (map Some ch) ?h (rev [0..<Suc m]) d4 = Some d5" "table_inv d5" "tbl_only d4 d5"
    "fence_view d5 = foldl (unlink_step ?h) (fence_view d4) (map dkey (rev (take (Suc m) ch)))" by blast
  have dr: "distinct (map dkey (rev (take (Suc m) ch)))" 
    unfolding rev_map[symmetric] distinct_rev take_map[symmetric] using dist by (rule distinct_take)
  have sr: "set (map dkey (rev (take (Suc m) ch))) = insert (dkey (ch ! m)) (set (map dkey ?pre))"
    using m by (simp add: take_Suc_conv_app_nth)
  note v5 = unlink_fold[OF dr, of ?h "fence_view d4", folded d5(4), unfolded sr]
  have v5j: "fence_view d5 ?jk = fence_view d4 ?jk" using v5 jn bad(3) by auto
  have free: "?V k = Some f \<Longrightarrow> length (hf_parent_list f) = 3 \<and> ?h \<notin> set (hf_parent_list f) \<and>
      (\<forall>j < 3. unat (hf_parents_cnt f) \<le> j \<longrightarrow> hf_parent_list f ! j = HW_FENCE_INVALID_PARENT_FENCE)" for k f
    using par[unfolded parents_ok_def MSM_HW_FENCE_MAX_JOIN_PARENTS_def] jfree by blast
  have v5k: "fence_view d5 k = ?V k" if "k \<noteq> ?jk" for k
  proof (cases "?V k")
    case None
    with v5[of k] v4[OF that] show ?thesis by auto
  next
    case (Some f)
    note fr = free[OF Some]
    have lf: "unlink_child ?h (linked ?h f) = f" if "k \<in> set (map dkey ?pre)" "\<not> signaled f"
    proof -
      from that(1) obtain fn where "fn \<in> set ?pre" "k = dkey fn" by auto
      with good Some that(2) have "unat (hf_parents_cnt f) + 1 < MSM_HW_FENCE_MAX_JOIN_PARENTS"
        by (fastforce simp: good_child_def)
      then show ?thesis using fr by (intro unlink_linked) (auto simp: MSM_HW_FENCE_MAX_JOIN_PARENTS_def)
    qed
    have uf: "unlink_child ?h f = f" using fr by (intro unlink_child_same) auto
    show ?thesis using v5[of k] v4[OF that] Some lf uf bn by (auto split: if_splits)
  qed
  have jv5: "fence_view d5 ?jk \<noteq> None" using v5j holds_at_view[OF d4(2,5)] by simp
  with hw_fence_destroy_spec[OF d5(2) jk(1), of HW_FENCE_JOIN_FENCE_CLIENT_ID]
  obtain d6 t6 where d6: "hw_fence_destroy d5 HW_FENCE_JOIN_FENCE_CLIENT_ID (df_context (da_base array)) (df_seqno (da_base array)) = Some (Inr (), d6)"
    "d6 = d5\<lparr>hw_fences_tbl := t6\<rparr>" "table_inv d6" "fence_view d6 = (fence_view d5)(?jk := None)" by auto
  have fr4: "tbl_only d3 d6"
    using tbl_only_trans[OF d4(3) d5(3)] d6(2) by (auto simp: tbl_only_def)
  have c4: "get_client d4 cid = Some c" using c tbl_only_keeps(4)[OF d4(3)] d3(3) by (auto simp: get_client_def)
  have pj: "hw_fence_process_join_fence d5 array False = Some (None, None, d6)" by (rule process_join_destroy[OF d6(1)])
  have "cleanup_join_and_child_fences d4 cid m array ?h = Some d6"
    unfolding cleanup_join_and_child_fences_def c4 fc option.case Option.bind.bind_lunit d5(1) pj prod.case ..
  then have "hw_fence_process_fence_array u d cid array cd = Some (Inl EINVAL, Some ?h, array, d6)"
    unfolding run fc using loop by simp
  moreover have "fence_view d6 = ?V"
    using v5k jk(2) by (auto simp: d6(4) fun_eq_iff)
  moreover have "\<exists>t. d6 = d\<lparr>qtime_reads := Suc (qtime_reads d), hw_fences_tbl := t\<rparr>"
    using d3(3) fr4 by (auto simp: tbl_only_def)
  ultimately show ?thesis using d6(3) by blast
qed


section \<open>Properties of waiting, joining and cleaning up\<close>

definition demo_uapi :: hw_fence_uapi where
  "demo_uapi = \<lparr>CLIENT_ID_CTX0 = 1, CLIENT_ID_CTL = [2, 3, 4, 5, 6, 7], CLIENT_ID_VAL = [8, 9, 10, 11, 12, 13, 14],
     CLIENT_ID_IPE = 15, CLIENT_ID_VPU = 79, CLIENT_ID_IFE = [143, 207, 271, 335, 399, 463, 527, 591], CLIENT_MAX = 655,
     MAX_SIGNAL_PER_CLIENT = 64, FLAG_ENABLED_BIT = 31, FLAG_SIGNALED_BIT = 30,
     RESET_WITHOUT_ERROR = 1, RESET_WITHOUT_DESTROY = 2, ERROR_RESET = 1, UPDATE_ERROR_WITH_MOVE = 1,
     HFI_TABLE_HEADER_SIZE = 24, HFI_QUEUE_HEADER_SIZE = 64, PAGE_SIZE = 4096, CONFIG_DEBUG_FS = True\<rparr>"

text \<open>Two fences of client 1 and two free entries; \<open>s\<close> gives the flags of the second fence.\<close>

definition demo_wait :: "u64 \<Rightarrow> hw_fence_driver_data" where
  "demo_wait s = demo_driver [fresh_fence 1 (5, 1) 0 0 0, free_fence 0,
     (fresh_fence 1 (5, 2) 0 0 0)\<lparr>hf_flags := s, hf_error := 4\<rparr>, free_fence 0]"

lemma demo_wait_inv: "table_inv (demo_wait s)"
  by (simp add: demo_wait_def table_inv_def table_wf_def demo_driver_def fence_free_def lo32_def
      fresh_fence_def free_fence_def fence_key_def)

lemma demo_wait_clients: "clients_ok (demo_wait s)" "get_client (demo_wait s) 1 = Some demo_client" "waiters_ok (demo_wait s)"
  using demo_queue_wf
  by (auto simp: demo_wait_def clients_ok_def demo_driver_def client_ok_def demo_client_def lo32_def get_client_def
      waiters_ok_def nth_Cons' split: if_splits)

lemma demo_wait_view:
  "fence_view (demo_wait s) (5, 1) = Some (fresh_fence 1 (5, 1) 0 0 0)"
  "fence_view (demo_wait s) (5, 2) = Some ((fresh_fence 1 (5, 2) 0 0 0)\<lparr>hf_flags := s, hf_error := 4\<rparr>)"
  "table_size (demo_wait s) = 4"
  by (simp_all add: demo_wait_def fence_view_def demo_driver_def fence_key_def fresh_fence_def free_fence_def)

text \<open>registering a client as waiter. An unknown fence, or client data from a client that has no data
  slot, is EINVAL. Otherwise exactly that entry changes: the client's wait bit is set, the
  reference count grows by one, the wait time and the client data are recorded. If the
  fence is signalled already the client is notified at once, exactly once, and the
  dma-fence gets its signalled flag; if not, nobody is notified.\<close>

theorem register_wait_correct:
  assumes "table_inv d" and "legal_key (cx, sq)" and "clients_ok d" and "get_client d cid = Some c"
    and "unat (cl_client_id c) < 64"
    and "cd = 0 \<or> hw_fence_get_client_data_id u (cl_client_id_ext c) < HW_FENCE_MAX_CLIENTS_WITH_DATA"
  shows "case fence_view d (cx, sq) of
      None \<Rightarrow> \<exists>h. hw_fence_register_wait_client u d fence cid cx sq cd = Some (Inl EINVAL, Some h, fence, d)
    | Some f \<Rightarrow> \<exists>i d1 d' fence'. i < table_size d \<and> hw_fences_tbl d ! i = f \<and>
        d1 = (set_fence i (wait_entry (cl_client_id c) (qtimer d (qtime_reads d))
            (hw_fence_get_client_data_id u (cl_client_id_ext c)) cd f) d)\<lparr>qtime_reads := Suc (qtime_reads d)\<rparr> \<and>
        hw_fence_register_wait_client u d fence cid cx sq cd = Some (Inr (), Some (of_nat i), fence', d') \<and>
        table_inv d' \<and> clients_ok d' \<and>
        fence_view d' = (fence_view d)((cx, sq) \<mapsto> hw_fences_tbl d1 ! i) \<and>
        (if signaled f
         then notified u cid i (of_nat i) 0 cd 0 d1 d' \<and>
           fence' = map_option (\<lambda>fn. fn\<lparr>df_flags := set_bit (FLAG_SIGNALED_BIT u) (df_flags fn)\<rparr>) fence
         else d' = d1 \<and> fence' = fence)"
  by (rule register_wait_spec[OF assms])

theorem register_wait_correct_witness:
  "\<exists>h fence' d'. hw_fence_register_wait_client demo_uapi (demo_wait 0) None 1 5 1 0 = Some (Inr (), Some h, fence', d') \<and> table_inv d'"
proof -
  have c: "unat (cl_client_id demo_client) < 64" by (simp add: demo_client_def)
  show ?thesis
    using register_wait_correct[OF demo_wait_inv _ demo_wait_clients(1,2) c, of 5 1 0 demo_uapi 0 None]
    by (auto simp: demo_wait_view legal_key_def)
qed

text \<open>C28: signalling the waiters of a fence reaches every registered client whose wait bit is set, each
  exactly once and in the order of the client ids: by its error callback if there is an
  error and a callback, otherwise by one message in its RX queue (when it uses the queue and
  a slot is free) and one doorbell (when it asks for them). No other client, no fence and
  no lock changes.\<close>

theorem signal_all_correct:
  assumes "table_wf d" and "clients_ok d" and "waiters_ok d" and "i < table_size d"
    and "ws = waiting d i (map of_nat [0..<Suc (unat (rxq_clients_num d))])"
  shows "\<exists>d'. signal_all_wait_clients u d i hash er = Some d' \<and> sig_frame d d' \<and> clients_ok d' \<and>
    error_cb_calls d' = error_cb_calls d @
      concat (map (\<lambda>w. notify_calls (the (clients d ! unat w)) (hw_fences_tbl d ! i) hash 0 er) ws) \<and>
    ipcc_writes d' = ipcc_writes d @ concat (map (\<lambda>w. notify_bells d (the (clients d ! unat w)) er) ws) \<and>
    (\<forall>k. k \<notin> unat ` set ws \<longrightarrow> clients d' ! k = clients d ! k) \<and>
    (\<forall>w \<in> set ws. \<exists>c' cd' t. clients d' ! unat w = Some c' \<and>
       rxq_after d (the (clients d ! unat w)) er (new_payload (hf_ctx_id (hw_fences_tbl d ! i))
         (hf_seq_id (hw_fences_tbl d ! i)) hash 0 cd' er t) (cl_queues c'))"
  unfolding signal_all_wait_clients_def assms(5)
  by (rule signal_waiters_ok[OF locks_free_split[OF assms(1,2)] assms(2) _ client_ids[OF assms(3)]])
     (use table_wfD[OF assms(1,4)] in simp)

definition demo_waiting :: hw_fence_driver_data where
  "demo_waiting = demo_driver [(fresh_fence 1 (5, 1) 0 0 0)\<lparr>hf_wait_client_mask := 2\<rparr>]"

lemma demo_waiting_list: "waiting demo_waiting 0 (map of_nat [0..<Suc (unat (rxq_clients_num demo_waiting))]) = [1]"
  by code_simp

theorem signal_all_correct_witness:
  "\<exists>d'. signal_all_wait_clients demo_uapi demo_waiting 0 0 0 = Some d' \<and> length (ipcc_writes d') = 1"
proof -
  have wf: "table_wf demo_waiting" "0 < table_size demo_waiting"
    by (simp_all add: demo_waiting_def table_wf_def demo_driver_def fence_free_def fresh_fence_def lo32_def)
  have ok: "clients_ok demo_waiting" "waiters_ok demo_waiting"
    using demo_wait_clients(1,3) by (simp_all add: demo_wait_def demo_waiting_def clients_ok_def demo_driver_def waiters_ok_def)
  have "length (notify_bells demo_waiting (the (clients demo_waiting ! unat (1 :: u32))) 0) = 1" "ipcc_writes demo_waiting = []"
    by (simp_all add: notify_bells_def demo_waiting_def demo_driver_def takes_cb_def demo_client_def)
  with signal_all_correct[OF wf(1) ok wf(2) demo_waiting_list[symmetric], of demo_uapi 0 0] show ?thesis by auto
qed

text \<open>cleaning up a fence for a client that is reset: the client's wait bit is cleared; if the client
  allocated the fence and nobody signalled it, every other waiter is notified with the
  reset error (or with 0 when the reset is without error); the client's own fence is then
  removed from the table unless the reset asks to keep it. A fence of another client stays.\<close>

theorem cleanup_fence_correct:
  assumes "table_inv d" and "clients_ok d" and "waiters_ok d" and "get_client d cid = Some c"
    and "unat (cl_client_id c) < 64" and "i < table_size d" and "f = hw_fences_tbl d ! i" and "hf_valid f \<noteq> 0"
    and "er = (if rf AND RESET_WITHOUT_ERROR u \<noteq> 0 then 0 else ERROR_RESET u)"
    and "own \<longleftrightarrow> hf_fence_allocator f = cl_client_id c"
    and "ws = (if own \<and> \<not> signaled f then waiters d (cl_client_id c) f else [])"
  shows "\<exists>d'. hw_fence_utils_cleanup_fence u d cid i hash rf = Some (Inr (), d') \<and> table_inv d' \<and> clients_ok d' \<and>
    fence_view d' = (if own \<and> rf AND RESET_WITHOUT_DESTROY u = 0 then (fence_view d)(fence_key f := None)
      else (fence_view d)(fence_key f \<mapsto> unwait_entry (cl_client_id c) f)) \<and>
    error_cb_calls d' = error_cb_calls d @ concat (map (\<lambda>w. notify_calls (the (clients d ! unat w)) f hash 0 er) ws) \<and>
    ipcc_writes d' = ipcc_writes d @ concat (map (\<lambda>w. notify_bells d (the (clients d ! unat w)) er) ws) \<and>
    (\<forall>k. k \<notin> unat ` set ws \<longrightarrow> get_client d' k = get_client d k)"
  using cleanup_fence_spec[OF assms, of hash] by blast

theorem cleanup_fence_correct_witness:
  "\<exists>d'. hw_fence_utils_cleanup_fence demo_uapi (demo_wait 0) 1 0 0 0 = Some (Inr (), d') \<and> fence_view d' (5, 1) = None"
proof -
  let ?f = "hw_fences_tbl (demo_wait 0) ! 0"
  have c: "unat (cl_client_id demo_client) < 64" by (simp add: demo_client_def)
  have i: "0 < table_size (demo_wait 0)" by (simp add: demo_wait_view)
  have f: "hf_valid ?f \<noteq> 0" "hf_fence_allocator ?f = cl_client_id demo_client" "fence_key ?f = (5, 1)"
    by (simp_all add: demo_wait_def demo_driver_def fresh_fence_def demo_client_def fence_key_def)
  have r: "0 AND RESET_WITHOUT_DESTROY demo_uapi = 0" by simp
  from cleanup_fence_correct[OF demo_wait_inv demo_wait_clients(1,3,2) c i refl f(1) refl refl refl, where hash = 0 and u = demo_uapi and rf = 0] f r
  show ?thesis by auto
qed

text \<open>C19: waiting on a fence array whose children are hardware fences of the table, not all of them
  signalled. A join fence is created under the array's key, waited on by the client, that
  counts exactly the children still to be signalled and carries the OR of the errors of
  those that are; every unsignalled child gets the join fence as its next parent, every
  other fence stays as it was, and nobody is notified yet.\<close>

theorem join_pending:
  assumes "table_inv d" and "get_client d cid = Some c" and "unat (cl_client_id c) < 64"
    and "cd = 0 \<or> hw_fence_get_client_data_id u (cl_client_id_ext c) < HW_FENCE_MAX_CLIENTS_WITH_DATA"
    and "array_ok u d array ch" and "\<forall>fn \<in> set ch. good_child u (fence_view d) (dkey (da_base array)) fn"
    and "\<not> (\<forall>f \<in> set (children_of d ch). signaled f)"
  shows "\<exists>join d' jf t. hw_fence_process_fence_array u d cid array cd = Some (Inr (), Some (of_nat join), array, d') \<and>
    table_inv d' \<and> d' = d\<lparr>qtime_reads := Suc (qtime_reads d), hw_fences_tbl := t\<rparr> \<and>
    holds_at d' join (dkey (da_base array)) \<and> fence_view d' (dkey (da_base array)) = Some jf \<and>
    hf_pending_child_cnt jf = of_nat (length (filter (\<lambda>f. \<not> signaled f) (children_of d ch))) \<and>
    hf_error jf = join_error (children_of d ch) \<and> hf_wait_client_mask jf = set_bit (unat (cl_client_id c)) 0 \<and>
    (\<forall>k. k \<noteq> dkey (da_base array) \<longrightarrow> fence_view d' k = (if k \<in> dkey ` set ch
      then map_option (\<lambda>f. if signaled f then f else linked (of_nat join) f) (fence_view d k) else fence_view d k))"
  by (rule join_pending_spec[OF assms])

definition demo_fence :: "u64 \<Rightarrow> u64 \<Rightarrow> dma_fence" where
  "demo_fence c s = \<lparr>df_context = c, df_seqno = s, df_flags = 0x80000000, df_is_array = False\<rparr>"

definition demo_array :: "dma_fence list \<Rightarrow> dma_fence_array" where
  "demo_array ch = \<lparr>da_base = demo_fence 9 9, da_num_fences = of_nat (length ch), da_fences = Some (map Some ch)\<rparr>"

lemma demo_enabled: "bit (0x80000000 :: u64) 31"
  by (simp add: bit_iff_odd drop_bit_eq_div)

lemma demo_room: "card (dom (fence_view (demo_wait s))) < table_size (demo_wait s)" "fence_view (demo_wait s) (9, 9) = None"
  "fence_view (demo_wait s) (8, 8) = None"
proof -
  have "hf_valid (hw_fences_tbl (demo_wait s) ! 1) = 0" by (simp add: demo_wait_def demo_driver_def)
  then show "card (dom (fence_view (demo_wait s))) < table_size (demo_wait s)"
    unfolding room_iff_free_slot[OF demo_wait_inv] by (intro exI[of _ 1]) (simp add: demo_wait_view)
qed (simp_all add: demo_wait_def fence_view_def demo_driver_def fence_key_def fresh_fence_def free_fence_def)

lemma demo_array_ok:
  "ch \<noteq> [] \<Longrightarrow> length ch < 2 ^ 32 \<Longrightarrow> distinct (map dkey ch) \<Longrightarrow> array_ok demo_uapi (demo_wait s) (demo_array ch) ch"
  using demo_room by (simp add: array_ok_def demo_array_def demo_fence_def legal_key_def)

lemma demo_good_child:
  "good_child demo_uapi (fence_view (demo_wait s)) (9, 9) (demo_fence 5 1)"
  "good_child demo_uapi (fence_view (demo_wait s)) (9, 9) (demo_fence 5 2)"
  using demo_enabled by (simp_all add: good_child_def demo_fence_def demo_wait_view legal_key_def demo_uapi_def
      fresh_fence_def MSM_HW_FENCE_MAX_JOIN_PARENTS_def)

lemma demo_client_id: "unat (cl_client_id demo_client) < 64"
  by (simp add: demo_client_def)

lemma demo_base: "dkey (da_base (demo_array ch)) = (9, 9)"
  by (simp add: demo_array_def demo_fence_def)

theorem join_pending_witness:
  "\<exists>join d' jf. hw_fence_process_fence_array demo_uapi (demo_wait 1) 1 (demo_array [demo_fence 5 1, demo_fence 5 2]) 0 =
      Some (Inr (), Some (of_nat join), demo_array [demo_fence 5 1, demo_fence 5 2], d') \<and>
    fence_view d' (9, 9) = Some jf \<and> hf_pending_child_cnt jf = 1 \<and> hf_error jf = 4"
proof -
  let ?ch = "[demo_fence 5 1, demo_fence 5 2]"
  have a: "array_ok demo_uapi (demo_wait 1) (demo_array ?ch) ?ch"
    by (rule demo_array_ok) (simp_all add: demo_fence_def)
  have g: "\<forall>fn \<in> set ?ch. good_child demo_uapi (fence_view (demo_wait 1)) (dkey (da_base (demo_array ?ch))) fn"
    using demo_good_child by (simp add: demo_base)
  have ch: "children_of (demo_wait 1) ?ch = [fresh_fence 1 (5, 1) 0 0 0, (fresh_fence 1 (5, 2) 0 0 0)\<lparr>hf_flags := 1, hf_error := 4\<rparr>]"
    by (simp add: demo_fence_def demo_wait_view)
  have s: "\<not> signaled (fresh_fence 1 (5, 1) 0 0 0)" "signaled ((fresh_fence 1 (5, 2) 0 0 0)\<lparr>hf_flags := 1, hf_error := 4\<rparr>)"
    by (simp_all add: fresh_fence_def MSM_HW_FENCE_FLAG_SIGNAL_def)
  from join_pending[OF demo_wait_inv demo_wait_clients(2) demo_client_id _ a g, of 0] s
  show ?thesis unfolding ch demo_base by (auto simp: join_error_def)
qed

text \<open>when every child of the array is signalled already, the client is notified at once, exactly once
  and with the OR of the children's errors, the array is marked signalled, and the join
  fence is gone again: the table is what it was.\<close>

theorem join_signaled:
  assumes "table_inv d" and "clients_ok d" and "get_client d cid = Some c" and "unat (cl_client_id c) < 64"
    and "cd = 0 \<or> hw_fence_get_client_data_id u (cl_client_id_ext c) < HW_FENCE_MAX_CLIENTS_WITH_DATA"
    and "array_ok u d array ch" and "\<forall>fn \<in> set ch. good_child u (fence_view d) (dkey (da_base array)) fn"
    and "\<forall>f \<in> set (children_of d ch). signaled f" and "er = join_error (children_of d ch)"
  shows "\<exists>join d' jf. hw_fence_process_fence_array u d cid array cd = Some (Inr (), Some (of_nat join),
      array\<lparr>da_base := (da_base array)\<lparr>df_flags := set_bit (FLAG_SIGNALED_BIT u) (df_flags (da_base array))\<rparr>\<rparr>, d') \<and>
    table_inv d' \<and> clients_ok d' \<and> fence_view d' = fence_view d \<and> fence_key jf = dkey (da_base array) \<and>
    error_cb_calls d' = error_cb_calls d @ notify_calls c jf (of_nat join) 0 er \<and>
    ipcc_writes d' = ipcc_writes d @ notify_bells d c er \<and> (\<forall>k. k \<noteq> cid \<longrightarrow> get_client d' k = get_client d k)"
  by (rule join_signaled_spec[OF assms])

theorem join_signaled_witness:
  "\<exists>h arr d'. hw_fence_process_fence_array demo_uapi (demo_wait 1) 1 (demo_array [demo_fence 5 2]) 0 = Some (Inr (), Some h, arr, d') \<and>
    fence_view d' = fence_view (demo_wait 1) \<and> length (ipcc_writes d') = 1"
proof -
  let ?ch = "[demo_fence 5 2]"
  have a: "array_ok demo_uapi (demo_wait 1) (demo_array ?ch) ?ch"
    by (rule demo_array_ok) (simp_all add: demo_fence_def)
  have g: "\<forall>fn \<in> set ?ch. good_child demo_uapi (fence_view (demo_wait 1)) (dkey (da_base (demo_array ?ch))) fn"
    using demo_good_child by (simp add: demo_base)
  have s: "\<forall>f \<in> set (children_of (demo_wait 1) ?ch). signaled f"
    by (simp add: demo_fence_def demo_wait_view MSM_HW_FENCE_FLAG_SIGNAL_def)
  have "length (notify_bells (demo_wait 1) demo_client er) = 1" "ipcc_writes (demo_wait 1) = []" for er
    by (simp_all add: notify_bells_def takes_cb_def demo_client_def demo_wait_def demo_driver_def)
  with join_signaled[OF demo_wait_inv demo_wait_clients(1,2) demo_client_id _ a g s refl, of 0] show ?thesis by fastforce
qed

text \<open>C36: a fence array with a child that cannot be joined (a nested array, not a hardware fence, not in the
  table, or with its parents exhausted) is refused with EINVAL, and everything the earlier
  children caused is undone: their parent links are removed, the join fence is destroyed,
  every entry of the table is what it was, and nothing but the table and the timer reads
  was touched.\<close>

theorem join_rollback:
  assumes "table_inv d" and "get_client d cid = Some c" and "unat (cl_client_id c) < 64"
    and "cd = 0 \<or> hw_fence_get_client_data_id u (cl_client_id_ext c) < HW_FENCE_MAX_CLIENTS_WITH_DATA"
    and "array_ok u d array ch" and "m < length ch"
    and "\<forall>fn \<in> set (take m ch). good_child u (fence_view d) (dkey (da_base array)) fn"
    and "bad_child u (fence_view d) (ch ! m)" and "legal_key (dkey (ch ! m))" and "dkey (ch ! m) \<noteq> dkey (da_base array)"
    and "parents_ok d"
  shows "\<exists>h d' t. hw_fence_process_fence_array u d cid array cd = Some (Inl EINVAL, Some h, array, d') \<and> table_inv d' \<and>
    fence_view d' = fence_view d \<and> d' = d\<lparr>qtime_reads := Suc (qtime_reads d), hw_fences_tbl := t\<rparr>"
  by (rule join_rollback_spec[OF assms])

lemma demo_parents: "parents_ok (demo_wait s)"
proof -
  have all: "list_all (\<lambda>f. hf_parent_list f = [- 1, - 1, - 1]) (hw_fences_tbl (demo_wait s))"
    by (simp add: demo_wait_def demo_driver_def fresh_fence_def free_fence_def)
  have p: "hf_parent_list f = [- 1, - 1, - 1]" if "fence_view (demo_wait s) k = Some f" for k f
    using find_SomeD[OF that[unfolded fence_view_def]] all by (auto simp: list_all_iff)
  have n: "of_nat i \<noteq> (- 1 :: u64)" if "i < 4" for i
  proof
    assume "of_nat i = (- 1 :: u64)"
    then have "unat (of_nat i :: u64) = unat (- 1 :: u64)" by simp
    moreover have "unat (- 1 :: u64) = 2 ^ 64 - 1" by (simp add: unsigned_minus_1_eq_mask mask_eq_exp_minus_1)
    ultimately show False using that by (simp add: unat_of_nat)
  qed
  have l: "[- 1, - 1, - 1 :: u64] ! j = - 1" if "j < 3" for j
    using that by (auto simp: less_Suc_eq numeral_eq_Suc)
  show ?thesis
    using p n l by (simp add: parents_ok_def demo_wait_view MSM_HW_FENCE_MAX_JOIN_PARENTS_def HW_FENCE_INVALID_PARENT_FENCE_def)
qed

theorem join_rollback_witness:
  "\<exists>h d'. hw_fence_process_fence_array demo_uapi (demo_wait 0) 1 (demo_array [demo_fence 5 1, demo_fence 8 8]) 0 =
      Some (Inl EINVAL, Some h, demo_array [demo_fence 5 1, demo_fence 8 8], d') \<and> fence_view d' = fence_view (demo_wait 0)"
proof -
  let ?ch = "[demo_fence 5 1, demo_fence 8 8]"
  have a: "array_ok demo_uapi (demo_wait 0) (demo_array ?ch) ?ch"
    by (rule demo_array_ok) (simp_all add: demo_fence_def)
  have g: "\<forall>fn \<in> set (take 1 ?ch). good_child demo_uapi (fence_view (demo_wait 0)) (dkey (da_base (demo_array ?ch))) fn"
    using demo_good_child by (simp add: demo_base)
  have b: "bad_child demo_uapi (fence_view (demo_wait 0)) (?ch ! 1)" "legal_key (dkey (?ch ! 1))"
    "dkey (?ch ! 1) \<noteq> dkey (da_base (demo_array ?ch))" "1 < length ?ch"
    using demo_room(3)[of 0] by (simp_all add: bad_child_def demo_fence_def legal_key_def demo_array_def)
  from join_rollback[OF demo_wait_inv demo_wait_clients(2) demo_client_id _ a b(4) g b(1-3) demo_parents, of 0]
  show ?thesis by blast
qed

text \<open>removing one of two parents leaves a hole. A fence with the parents 10 and 11 that is unlinked from
  10 has a count of 1 but its remaining parent in the second place, and the next parent is
  stored over it: parent 11 is lost.\<close>

theorem unlink_hole:
  "(let f = (fresh_fence 1 (5, 1) 0 0 0)\<lparr>hf_parents_cnt := 2, hf_parent_list := [10, 11, - 1]\<rparr>;
        f' = unlink_child 10 f
    in hf_parents_cnt f' = 1 \<and> hf_parent_list f' = [- 1, 11, - 1] \<and>
       hf_parents_cnt (linked 12 f') = 2 \<and> hf_parent_list (linked 12 f') = [- 1, 12, - 1])"
  by code_simp

end
