(* ===== verification/HwFence_Layout.thy ===== *)
theory HwFence_Layout
  imports HwFence_Wait
begin

text \<open>
  The layout of the carved-out memory (\<^verbatim>\<open>hw_fence_drv_utils.c\<close>: device-tree parsing,
  \<open>hw_fence_utils_reserve_mem\<close>, \<open>hw_fence_utils_get_client_id_priv\<close>; \<^verbatim>\<open>hw_fence_drv_priv.c\<close>:
  \<open>init_hw_fences_queues\<close> and the other initialisers). The control queues come first, then
  the locks of the clients with an RX queue, the fence table, and one region for the
  queues of each client.

  The device tree is a parameter, the record \<open>of_node\<close> of the kernel's read functions.
  Sizes that C computes in \<open>size_t\<close> are natural numbers here: their operands are below
  \<open>2 ^ 33\<close>, so only a subtraction can leave the range, and that is written out (\<open>sub64\<close>).
  Whether an allocation succeeds is an argument.
\<close>

section \<open>Sizes\<close>

record of_node =
  of_property_read_u32 :: "string \<Rightarrow> errno + u32"
  of_property_read_u32_array :: "string \<Rightarrow> nat \<Rightarrow> errno + u32 list"
  of_property_read_bool :: "string \<Rightarrow> bool"
  of_property_count_u32_elems :: "string \<Rightarrow> int"

definition U32_MAX :: nat where
  "U32_MAX = 2 ^ 32 - 1"

definition sub64 :: "nat \<Rightarrow> nat \<Rightarrow> nat" where
  "sub64 a b = (a + 2 ^ 64 - b) mod 2 ^ 64"

definition PAGE_ALIGN :: "hw_fence_uapi \<Rightarrow> nat \<Rightarrow> nat" where
  "PAGE_ALIGN u x = (x + (PAGE_SIZE u - 1)) div PAGE_SIZE u * PAGE_SIZE u"

definition HW_FENCE_HFI_CTRL_HEADERS_SIZE :: "hw_fence_uapi \<Rightarrow> nat" where
  "HW_FENCE_HFI_CTRL_HEADERS_SIZE u = HFI_TABLE_HEADER_SIZE u + HFI_QUEUE_HEADER_SIZE u * HW_FENCE_CTRL_QUEUES"

definition HW_FENCE_HFI_CLIENT_HEADERS_SIZE :: "hw_fence_uapi \<Rightarrow> nat \<Rightarrow> nat" where
  "HW_FENCE_HFI_CLIENT_HEADERS_SIZE u queues_num = HFI_TABLE_HEADER_SIZE u + HFI_QUEUE_HEADER_SIZE u * queues_num"

definition HW_FENCE_MEM_LOCKS_SIZE :: "u32 \<Rightarrow> nat" where
  "HW_FENCE_MEM_LOCKS_SIZE n = 8 * unat n"

definition MAX_CLIENT_QUEUE_MEM_SIZE :: nat where
  "MAX_CLIENT_QUEUE_MEM_SIZE = 0x100000"

definition HW_FENCE_MAX_CLIENT_TYPE_STATIC :: nat where
  "HW_FENCE_MAX_CLIENT_TYPE_STATIC = 3"

definition HW_FENCE_MAX_CLIENT_TYPE_CONFIGURABLE :: nat where
  "HW_FENCE_MAX_CLIENT_TYPE_CONFIGURABLE = 10"

definition HW_FENCE_MAX_CLIENT_TYPE :: nat where
  "HW_FENCE_MAX_CLIENT_TYPE = HW_FENCE_MAX_CLIENT_TYPE_STATIC + HW_FENCE_MAX_CLIENT_TYPE_CONFIGURABLE"

definition HW_FENCE_MAX_STATIC_CLIENTS_INDEX :: "hw_fence_uapi \<Rightarrow> u32" where
  "HW_FENCE_MAX_STATIC_CLIENTS_INDEX u = CLIENT_ID_IPE u"

definition HW_FENCE_MIN_RXQ_CLIENTS :: "hw_fence_uapi \<Rightarrow> u32" where
  "HW_FENCE_MIN_RXQ_CLIENTS u = CLIENT_ID_VAL u ! 6"

definition HW_FENCE_MIN_RXQ_CLIENT_TYPE :: nat where
  "HW_FENCE_MIN_RXQ_CLIENT_TYPE = 3"

definition HW_FENCE_MAX_EVENTS :: nat where
  "HW_FENCE_MAX_EVENTS = 1000"

lemmas layout_consts [fence_defs] =
  MAX_CLIENT_QUEUE_MEM_SIZE_def HW_FENCE_MAX_CLIENT_TYPE_STATIC_def HW_FENCE_MAX_CLIENT_TYPE_CONFIGURABLE_def
  HW_FENCE_MAX_CLIENT_TYPE_def HW_FENCE_MIN_RXQ_CLIENT_TYPE_def HW_FENCE_MAX_EVENTS_def U32_MAX_def

section \<open>Client types\<close>

definition type_desc :: "string \<Rightarrow> u32 \<Rightarrow> u32 \<Rightarrow> u32 \<Rightarrow> u32 \<Rightarrow> bool \<Rightarrow> hw_fence_client_type_desc" where
  "type_desc name init_id max_num num queues_num skip =
     \<lparr>td_name = name, td_init_id = init_id, td_max_clients_num = max_num, td_clients_num = num,
      td_queues_num = queues_num, td_queue_entries = 0, td_start_padding = 0, td_end_padding = 0, td_mem_size = 0,
      td_txq_idx_start = 0, td_txq_idx_factor = 0, td_skip_txq_wr_idx = skip\<rparr>"

definition hw_fence_client_types_init :: "hw_fence_uapi \<Rightarrow> hw_fence_client_type_desc list" where
  "hw_fence_client_types_init u =
     [type_desc ''gpu'' (CLIENT_ID_CTX0 u) 1 1 2 False,
      type_desc ''dpu'' (CLIENT_ID_CTL u ! 0) 6 6 2 False,
      type_desc ''val'' (CLIENT_ID_VAL u ! 0) 7 7 2 False,
      type_desc ''ipe'' (CLIENT_ID_IPE u) 32 0 2 False,
      type_desc ''vpu'' (CLIENT_ID_VPU u) 32 0 2 False,
      type_desc ''ife0'' (CLIENT_ID_IFE u ! 0) 32 0 1 True,
      type_desc ''ife1'' (CLIENT_ID_IFE u ! 1) 32 0 1 True,
      type_desc ''ife2'' (CLIENT_ID_IFE u ! 2) 32 0 1 True,
      type_desc ''ife3'' (CLIENT_ID_IFE u ! 3) 32 0 1 True,
      type_desc ''ife4'' (CLIENT_ID_IFE u ! 4) 32 0 1 True,
      type_desc ''ife5'' (CLIENT_ID_IFE u ! 5) 32 0 1 True,
      type_desc ''ife6'' (CLIENT_ID_IFE u ! 6) 32 0 1 True,
      type_desc ''ife7'' (CLIENT_ID_IFE u ! 7) 32 0 1 True]"

text \<open>\<open>_parse_client_queue_dt_props_extra\<close>: assigning the values read, checking them, and the whole. The
  result is the return code and the descriptor, which keeps what was assigned before a
  failing check.\<close>

definition assign_extra_props ::
    "u32 list \<Rightarrow> hw_fence_client_type_desc \<Rightarrow> (errno + bool) \<times> hw_fence_client_type_desc" where
  "assign_extra_props tmp desc =
     (let desc = desc\<lparr>td_start_padding := tmp ! 0\<rparr>;
          desc = (if length tmp \<ge> 2 then desc\<lparr>td_end_padding := tmp ! 1\<rparr> else desc);
          desc = (if length tmp \<ge> 3 then desc\<lparr>td_txq_idx_start := tmp ! 2\<rparr> else desc) in
      if length tmp \<ge> 4
      then (if tmp ! 3 > 1 then (Inl EINVAL, desc)
            else (Inr (tmp ! 3 \<noteq> 0), desc\<lparr>td_txq_idx_factor :=
                   (if tmp ! 3 \<noteq> 0 then of_nat payload_size_u32 else 1)\<rparr>))
      else (Inr False, desc))"

definition check_extra_props :: "hw_fence_uapi \<Rightarrow> bool \<Rightarrow> hw_fence_client_type_desc \<Rightarrow> errno + unit" where
  "check_extra_props u idx_by_payload desc =
     (let hdrs = HW_FENCE_HFI_CLIENT_HEADERS_SIZE u (unat (td_queues_num desc));
          sp = td_start_padding desc; ep = td_end_padding desc;
          max_idx_from_zero = (if idx_by_payload then td_queue_entries desc
                               else td_queue_entries desc * of_nat payload_size_u32) in
      if unat sp mod 4 \<noteq> 0 \<or> unat ep mod 4 \<noteq> 0 \<or> unat (sp + ep) mod 8 \<noteq> 0 then Inl EINVAL
      else if unat sp \<ge> sub64 U32_MAX hdrs then Inl EINVAL
      else if unat ep \<ge> sub64 (sub64 U32_MAX hdrs) (unat sp) then Inl EINVAL
      else if td_txq_idx_start desc \<ge> of_nat U32_MAX - max_idx_from_zero then Inl EINVAL
      else Inr ())"

definition parse_client_queue_dt_props_extra ::
    "hw_fence_uapi \<Rightarrow> of_node \<Rightarrow> hw_fence_client_type_desc \<Rightarrow> (errno + unit) \<times> hw_fence_client_type_desc" where
  "parse_client_queue_dt_props_extra u dt desc =
     (let name = ''qcom,hw-fence-client-type-'' @ td_name desc @ ''-extra'';
          count = of_property_count_u32_elems dt name in
      if \<not> of_property_read_bool dt name then (Inr (), desc)
      else if count \<le> 0 \<or> count > 4 then (Inl EINVAL, desc)
      else (case of_property_read_u32_array dt name (nat count) of
        Inl _ \<Rightarrow> (Inl EINVAL, desc)
      | Inr tmp \<Rightarrow>
          (case assign_extra_props tmp desc of
             (Inl e, desc) \<Rightarrow> (Inl e, desc)
           | (Inr idx_by_payload, desc) \<Rightarrow> (check_extra_props u idx_by_payload desc, desc))))"

text \<open>\<open>_parse_client_queue_dt_props_indv\<close> in three parts: reading the property, the size of a client's
  memory, and the whole.\<close>

definition read_client_queue_props ::
    "of_node \<Rightarrow> u32 \<Rightarrow> hw_fence_client_type_desc \<Rightarrow> (errno + unit) \<times> hw_fence_client_type_desc" where
  "read_client_queue_props dt entries desc =
     (case of_property_read_u32_array dt (''qcom,hw-fence-client-type-'' @ td_name desc) 4 of
        Inl _ \<Rightarrow> (Inr (), desc\<lparr>td_queue_entries := entries\<rparr>)
      | Inr tmp \<Rightarrow>
          (let desc = desc\<lparr>td_clients_num := tmp ! 0, td_queues_num := tmp ! 1, td_queue_entries := tmp ! 2\<rparr> in
           if tmp ! 3 > 1 then (Inl EINVAL, desc)
           else (Inr (), desc\<lparr>td_skip_txq_wr_idx := tmp ! 3 \<noteq> 0\<rparr>)))"

definition compute_mem_size ::
    "hw_fence_uapi \<Rightarrow> hw_fence_client_type_desc \<Rightarrow> (errno + unit) \<times> hw_fence_client_type_desc" where
  "compute_mem_size u desc =
     (if unat (td_queue_entries desc) \<ge> U32_MAX div HW_FENCE_CLIENT_QUEUE_PAYLOAD then (Inl EINVAL, desc)
      else
        (let queue_size = of_nat (HW_FENCE_CLIENT_QUEUE_PAYLOAD * unat (td_queue_entries desc)) :: u32;
             hdrs = HW_FENCE_HFI_CLIENT_HEADERS_SIZE u (unat (td_queues_num desc));
             pads = unat (td_start_padding desc) + unat (td_end_padding desc) in
         if unat queue_size \<ge> sub64 (U32_MAX div PAGE_SIZE u * PAGE_SIZE u) (hdrs + pads) div unat (td_queues_num desc)
         then (Inl EINVAL, desc)
         else
           (let desc = desc\<lparr>td_mem_size :=
                  of_nat (PAGE_ALIGN u (hdrs + unat (queue_size * td_queues_num desc) + pads))\<rparr> in
            if unat (td_mem_size desc) > MAX_CLIENT_QUEUE_MEM_SIZE then (Inl EINVAL, desc)
            else (Inr (), desc))))"

definition parse_client_queue_dt_props_indv ::
    "hw_fence_uapi \<Rightarrow> of_node \<Rightarrow> u32 \<Rightarrow> hw_fence_client_type_desc \<Rightarrow> (errno + unit) \<times> hw_fence_client_type_desc" where
  "parse_client_queue_dt_props_indv u dt entries desc =
     (case read_client_queue_props dt entries desc of
        (Inl e, desc) \<Rightarrow> (Inl e, desc)
      | (Inr _, desc) \<Rightarrow>
          if td_clients_num desc > td_max_clients_num desc \<or> td_queues_num desc = 0
              \<or> td_queues_num desc > of_nat HW_FENCE_CLIENT_QUEUES \<or> td_queue_entries desc = 0
          then (Inl EINVAL, desc)
          else
            (case parse_client_queue_dt_props_extra u dt desc of
               (Inl _, desc) \<Rightarrow> (Inl EINVAL, desc)
             | (Inr _, desc) \<Rightarrow> compute_mem_size u desc))"

text \<open>The first loop of \<open>_parse_client_queue_dt_props\<close>: \<open>rxq_clients_num\<close>, the number of configurable
  clients and the table of types.\<close>

fun parse_client_types ::
    "hw_fence_uapi \<Rightarrow> of_node \<Rightarrow> u32 \<Rightarrow> nat \<Rightarrow> hw_fence_client_type_desc list \<Rightarrow> u32 \<Rightarrow> u32 \<Rightarrow>
     (errno + unit) \<times> u32 \<times> u32 \<times> hw_fence_client_type_desc list" where
  "parse_client_types u dt entries i [] rxq conf = (Inr (), rxq, conf, [])"
| "parse_client_types u dt entries i (desc # descs) rxq conf =
     (case parse_client_queue_dt_props_indv u dt entries desc of
        (Inl e, desc') \<Rightarrow> (Inl e, rxq, conf, desc' # descs)
      | (Inr _, desc') \<Rightarrow>
          (let rxq' = (if i \<ge> HW_FENCE_MIN_RXQ_CLIENT_TYPE \<and> td_queues_num desc' = of_nat HW_FENCE_CLIENT_QUEUES
                       then rxq + td_clients_num desc' else rxq);
               conf' = (if i \<ge> HW_FENCE_MAX_CLIENT_TYPE_STATIC then conf + td_clients_num desc' else conf);
               (r, rxq'', conf'', descs') = parse_client_types u dt entries (Suc i) descs rxq' conf'
           in (r, rxq'', conf'', desc' # descs')))"

definition hw_fence_utils_get_client_id_priv ::
    "hw_fence_uapi \<Rightarrow> hw_fence_client_type_desc list \<Rightarrow> u32 \<Rightarrow> u32 option" where
  "hw_fence_utils_get_client_id_priv u types client_id =
     (if client_id < HW_FENCE_MAX_STATIC_CLIENTS_INDEX u then Some client_id
      else
        (let rel = client_id - HW_FENCE_MAX_STATIC_CLIENTS_INDEX u;
             client_type = HW_FENCE_MAX_CLIENT_TYPE_STATIC + unat (rel div MAX_SIGNAL_PER_CLIENT u);
             offset = rel mod MAX_SIGNAL_PER_CLIENT u in do {
           desc \<leftarrow> idx types client_type;
           if offset \<ge> td_clients_num desc then Some (CLIENT_MAX u)
           else Some (foldl (\<lambda>s i. s + td_clients_num (types ! i)) (HW_FENCE_MAX_STATIC_CLIENTS_INDEX u + offset)
                  [HW_FENCE_MAX_CLIENT_TYPE_STATIC..<client_type]) }))"

text \<open>The second loop: one descriptor per client, laid out one after the other.\<close>

fun lay_out_clients ::
    "hw_fence_uapi \<Rightarrow> hw_fence_client_type_desc list \<Rightarrow> (nat \<times> nat) list \<Rightarrow> hw_fence_client_queue_desc list \<Rightarrow> u32 \<Rightarrow>
     (hw_fence_client_queue_desc list \<times> u32) option" where
  "lay_out_clients u types [] descs start_offset = Some (descs, start_offset)"
| "lay_out_clients u types ((i, j) # ijs) descs start_offset = do {
     desc \<leftarrow> idx types i;
     client_id \<leftarrow> hw_fence_utils_get_client_id_priv u types (td_init_id desc + of_nat j);
     if unat client_id < length descs
     then lay_out_clients u types ijs
            (descs[unat client_id := \<lparr>cqd_type = Some i, cqd_start_offset = start_offset\<rparr>])
            (start_offset + td_mem_size desc)
     else None }"

definition client_slots :: "hw_fence_client_type_desc list \<Rightarrow> (nat \<times> nat) list" where
  "client_slots types = concat (map (\<lambda>i. map (\<lambda>j. (i, j)) [0..<unat (td_clients_num (types ! i))]) [0..<length types])"

definition parse_client_queue_dt_props ::
    "hw_fence_uapi \<Rightarrow> of_node \<Rightarrow> bool \<Rightarrow> hw_fence_client_type_desc list \<Rightarrow> hw_fence_driver_data \<Rightarrow>
     ((errno + unit) \<times> hw_fence_driver_data) option" where
  "parse_client_queue_dt_props u dt alloc_ok types d =
     (case parse_client_types u dt (hw_fence_queue_entries d) 0 types (HW_FENCE_MIN_RXQ_CLIENTS u) 0 of
        (Inl e, rxq, conf, types') \<Rightarrow> Some (Inl e, d\<lparr>rxq_clients_num := rxq\<rparr>)
      | (Inr _, rxq, conf, types') \<Rightarrow>
          (let d = d\<lparr>rxq_clients_num := rxq, hw_fence_client_types := types',
                     clients_num := HW_FENCE_MAX_STATIC_CLIENTS_INDEX u + conf\<rparr> in
           if \<not> alloc_ok then Some (Inl ENOMEM, d)
           else do {
             (descs, start_offset) \<leftarrow> lay_out_clients u types' (client_slots types')
                (replicate (unat (clients_num d)) \<lparr>cqd_type = None, cqd_start_offset = 0\<rparr>)
                (of_nat (PAGE_ALIGN u (unat (hw_fence_mem_ctrl_queues_size d) + HW_FENCE_MEM_LOCKS_SIZE rxq
                   + unat (hw_fence_mem_fences_table_size d))));
             Some (Inr (), d\<lparr>hw_fence_client_queue_size := descs, used_mem_size := start_offset\<rparr>) }))"

text \<open>\<open>hw_fence_utils_parse_dt_props\<close> returns what \<open>of_property_read_u32\<close> returned when a property is
  missing or zero: 0, hence success, for a zero property.\<close>

definition hw_fence_utils_parse_dt_props ::
    "hw_fence_uapi \<Rightarrow> of_node \<Rightarrow> bool \<Rightarrow> bool \<Rightarrow> hw_fence_client_type_desc list \<Rightarrow> hw_fence_driver_data \<Rightarrow>
     ((errno + unit) \<times> hw_fence_driver_data) option" where
  "hw_fence_utils_parse_dt_props u dt alloc_descs alloc_clients types d =
     (case of_property_read_u32 dt ''qcom,hw-fence-table-entries'' of
        Inl e \<Rightarrow> Some (Inl e, d)
      | Inr val \<Rightarrow>
         if val = 0 then Some (Inr (), d)
         else (let d = d\<lparr>hw_fence_table_entries := val\<rparr> in
         if unat val \<ge> U32_MAX div sizeof_msm_hw_fence then Some (Inl EINVAL, d)
         else (let d = d\<lparr>hw_fence_mem_fences_table_size := of_nat (sizeof_msm_hw_fence * unat val)\<rparr> in
         case of_property_read_u32 dt ''qcom,hw-fence-queue-entries'' of
           Inl e \<Rightarrow> Some (Inl e, d)
         | Inr val \<Rightarrow>
            if val = 0 then Some (Inr (), d)
            else (let d = d\<lparr>hw_fence_queue_entries := val\<rparr> in
            if unat val \<ge> U32_MAX div HW_FENCE_CTRL_QUEUE_PAYLOAD then Some (Inl EINVAL, d)
            else (let d = d\<lparr>hw_fence_ctrl_queue_size := of_nat (HW_FENCE_CTRL_QUEUE_PAYLOAD * unat val)\<rparr> in
            if unat (hw_fence_ctrl_queue_size d) \<ge> sub64 U32_MAX (HW_FENCE_HFI_CTRL_HEADERS_SIZE u) div HW_FENCE_CTRL_QUEUES
            then Some (Inl EINVAL, d)
            else (let d = d\<lparr>hw_fence_mem_ctrl_queues_size := of_nat (HW_FENCE_HFI_CTRL_HEADERS_SIZE u
                     + HW_FENCE_CTRL_QUEUES * unat (hw_fence_ctrl_queue_size d))\<rparr> in do {
              (r, d) \<leftarrow> parse_client_queue_dt_props u dt alloc_descs types d;
              Some (case r of
                 Inl _ \<Rightarrow> (Inl EINVAL, d)
               | Inr _ \<Rightarrow> if \<not> alloc_clients then (Inl ENOMEM, d)
                          else (Inr (), d\<lparr>clients := replicate (unat (clients_num d)) None\<rparr>)) }))))))"

definition hw_fence_utils_get_queues_num :: "hw_fence_driver_data \<Rightarrow> nat \<Rightarrow> u32 option" where
  "hw_fence_utils_get_queues_num d client_id =
     (if client_id \<ge> unat (clients_num d) then Some 0
      else do {
        cq \<leftarrow> idx (hw_fence_client_queue_size d) client_id;
        (case cqd_type cq of
           None \<Rightarrow> Some 0
         | Some t \<Rightarrow> map_option td_queues_num (idx (hw_fence_client_types d) t)) })"

section \<open>Reserving memory\<close>

datatype hw_fence_mem_reserve =
    HW_FENCE_MEM_RESERVE_CTRL_QUEUE
  | HW_FENCE_MEM_RESERVE_LOCKS_REGION
  | HW_FENCE_MEM_RESERVE_TABLE
  | HW_FENCE_MEM_RESERVE_CLIENT_QUEUE
  | HW_FENCE_MEM_RESERVE_EVENTS_BUFF

text \<open>The offset and size a reservation asks for.\<close>

definition reserve_range ::
    "hw_fence_driver_data \<Rightarrow> hw_fence_mem_reserve \<Rightarrow> nat \<Rightarrow> (errno + u32 \<times> u32) option" where
  "reserve_range d type client_id = (case type of
     HW_FENCE_MEM_RESERVE_CTRL_QUEUE \<Rightarrow> Some (Inr (0, hw_fence_mem_ctrl_queues_size d))
   | HW_FENCE_MEM_RESERVE_LOCKS_REGION \<Rightarrow>
       Some (Inr (hw_fence_mem_ctrl_queues_size d, of_nat (HW_FENCE_MEM_LOCKS_SIZE (rxq_clients_num d))))
   | HW_FENCE_MEM_RESERVE_TABLE \<Rightarrow>
       Some (Inr (of_nat (unat (hw_fence_mem_ctrl_queues_size d) + HW_FENCE_MEM_LOCKS_SIZE (rxq_clients_num d)),
                  hw_fence_mem_fences_table_size d))
   | HW_FENCE_MEM_RESERVE_CLIENT_QUEUE \<Rightarrow>
       if client_id \<ge> unat (clients_num d) then Some (Inl EINVAL)
       else do {
         cq \<leftarrow> idx (hw_fence_client_queue_size d) client_id;
         (case cqd_type cq of
            None \<Rightarrow> Some (Inl EINVAL)
          | Some t \<Rightarrow> do {
              desc \<leftarrow> idx (hw_fence_client_types d) t;
              Some (Inr (cqd_start_offset cq, td_mem_size desc)) }) }
   | HW_FENCE_MEM_RESERVE_EVENTS_BUFF \<Rightarrow>
       (let start_offset = used_mem_size d;
            remaining_size_bytes = ucast (carveout_size d - ucast start_offset) :: u32;
            tev = min (unat remaining_size_bytes div sizeof_msm_hw_fence_event) HW_FENCE_MAX_EVENTS in
        if ucast start_offset \<ge> carveout_size d \<or> unat remaining_size_bytes < sizeof_msm_hw_fence_event
        then Some (Inl ENOMEM)
        else Some (Inr (start_offset, of_nat (tev * sizeof_msm_hw_fence_event)))))"

text \<open>\<open>hw_fence_utils_reserve_mem\<close>: the physical address, the mapped address and the size.\<close>

definition hw_fence_utils_reserve_mem ::
    "hw_fence_driver_data \<Rightarrow> hw_fence_mem_reserve \<Rightarrow> nat \<Rightarrow> (errno + u64 \<times> u64 \<times> u32) option" where
  "hw_fence_utils_reserve_mem d type client_id = do {
     r \<leftarrow> reserve_range d type client_id;
     Some (case r of
        Inl e \<Rightarrow> Inl e
      | Inr (start_offset, sz) \<Rightarrow>
          if ucast (start_offset + sz) > carveout_size d then Inl ENOMEM
          else Inr (res_start d + ucast start_offset, io_mem_base d + ucast start_offset, sz)) }"

section \<open>Initialising queues, locks, table and events\<close>

definition IS_HW_FENCE_TX_QUEUE :: "nat \<Rightarrow> bool" where
  "IS_HW_FENCE_TX_QUEUE i \<longleftrightarrow> i = HW_FENCE_TX_QUEUE - 1"

record queue_params =
  qp_headers_size :: nat
  qp_queue_size :: u32
  qp_payload_size :: nat
  qp_txq_idx_start :: u32
  qp_txq_idx_factor :: u32
  qp_skip_txq_wr_idx :: bool

definition queue_params_of ::
    "hw_fence_uapi \<Rightarrow> hw_fence_driver_data \<Rightarrow> hw_fence_mem_reserve \<Rightarrow> nat \<Rightarrow> nat \<Rightarrow> (errno + queue_params) option" where
  "queue_params_of u d type queues_num client_id = (case type of
     HW_FENCE_MEM_RESERVE_CTRL_QUEUE \<Rightarrow>
       Some (Inr \<lparr>qp_headers_size = HW_FENCE_HFI_CTRL_HEADERS_SIZE u, qp_queue_size = hw_fence_ctrl_queue_size d,
          qp_payload_size = HW_FENCE_CTRL_QUEUE_PAYLOAD, qp_txq_idx_start = 0, qp_txq_idx_factor = 1,
          qp_skip_txq_wr_idx = False\<rparr>)
   | HW_FENCE_MEM_RESERVE_CLIENT_QUEUE \<Rightarrow>
       if client_id \<ge> unat (clients_num d) then Some (Inl EINVAL)
       else do {
         cq \<leftarrow> idx (hw_fence_client_queue_size d) client_id;
         (case cqd_type cq of
            None \<Rightarrow> Some (Inl EINVAL)
          | Some t \<Rightarrow> do {
              desc \<leftarrow> idx (hw_fence_client_types d) t;
              Some (Inr \<lparr>qp_headers_size = HW_FENCE_HFI_CLIENT_HEADERS_SIZE u queues_num
                          + unat (td_start_padding desc) + unat (td_end_padding desc),
                 qp_queue_size = of_nat (HW_FENCE_CLIENT_QUEUE_PAYLOAD * unat (td_queue_entries desc)),
                 qp_payload_size = HW_FENCE_CLIENT_QUEUE_PAYLOAD,
                 qp_txq_idx_start = td_txq_idx_start desc,
                 qp_txq_idx_factor = (if td_txq_idx_factor desc \<noteq> 0 then td_txq_idx_factor desc else 1),
                 qp_skip_txq_wr_idx = td_skip_txq_wr_idx desc\<rparr>) }) }
   | _ \<Rightarrow> Some (Inl EINVAL))"

text \<open>One iteration of the loop of \<open>init_hw_fences_queues\<close>, for queue \<open>i\<close>: the header and the words the
  memory holds there, and the queue the client gets.\<close>

definition init_queue :: "queue_params \<Rightarrow> u64 \<Rightarrow> nat \<Rightarrow> hfi_queue_header \<times> u32 list \<Rightarrow> msm_hw_fence_queue" where
  "init_queue p phys i mem =
     (let start_queue_offset = of_nat (qp_headers_size p + i * unat (qp_queue_size p)) :: u32;
          qphys = phys + ucast start_queue_offset;
          tx = IS_HW_FENCE_TX_QUEUE i;
          h = (fst mem)\<lparr>qh_start_addr := qphys,
                qh_type := of_nat (if tx then HW_FENCE_TX_QUEUE else HW_FENCE_RX_QUEUE),
                qh_queue_size := qp_queue_size p, qh_pkt_size := of_nat (qp_payload_size p)\<rparr>;
          h = (if qp_txq_idx_start p \<noteq> 0 \<and> tx \<and> qh_write_index h = 0
               then (if qp_skip_txq_wr_idx p then h\<lparr>qh_tx_wm := qp_txq_idx_start p\<rparr> else h)
                      \<lparr>qh_read_index := qp_txq_idx_start p, qh_write_index := qp_txq_idx_start p\<rparr>
               else h)
      in \<lparr>q_va_queue = snd mem, q_size_bytes = qp_queue_size p, q_va_header = Some h, q_pa_queue = qphys,
          q_rd_wr_idx_start = (if tx then qp_txq_idx_start p else 0),
          q_rd_wr_idx_factor = (if tx then qp_txq_idx_factor p else 1),
          q_skip_wr_idx = tx \<and> qp_skip_txq_wr_idx p\<rparr>)"

definition init_hw_fences_queues ::
    "hw_fence_uapi \<Rightarrow> hw_fence_driver_data \<Rightarrow> hw_fence_mem_reserve \<Rightarrow> nat \<Rightarrow> nat \<Rightarrow> (hfi_queue_header \<times> u32 list) list \<Rightarrow>
     (errno + msm_hw_fence_mem_addr \<times> msm_hw_fence_queue list) option" where
  "init_hw_fences_queues u d type queues_num client_id mem = do {
     pr \<leftarrow> queue_params_of u d type queues_num client_id;
     (case pr of
        Inl e \<Rightarrow> Some (Inl e)
      | Inr p \<Rightarrow> do {
          r \<leftarrow> hw_fence_utils_reserve_mem d type client_id;
          (case r of
             Inl _ \<Rightarrow> Some (Inl ENOMEM)
           | Inr (phys, ptr, sz) \<Rightarrow>
               if queues_num \<le> length mem
               then Some (Inr (\<lparr>ma_virtual_addr = ptr, ma_device_addr = phys, ma_size = sz\<rparr>,
                      map (\<lambda>i. init_queue p phys i (mem ! i)) [0..<queues_num]))
               else None) }) }"

definition init_ctrl_queue ::
    "hw_fence_uapi \<Rightarrow> hw_fence_driver_data \<Rightarrow> (hfi_queue_header \<times> u32 list) list \<Rightarrow>
     ((errno + unit) \<times> hw_fence_driver_data) option" where
  "init_ctrl_queue u d mem = do {
     r \<leftarrow> init_hw_fences_queues u d HW_FENCE_MEM_RESERVE_CTRL_QUEUE HW_FENCE_CTRL_QUEUES 0 mem;
     Some (case r of
        Inl e \<Rightarrow> (Inl e, d)
      | Inr (ma, qs) \<Rightarrow> (Inr (), d\<lparr>ctrl_queues := qs\<rparr>)) }"

text \<open>The words of the locks region and of the table region are arguments: what the memory holds.\<close>

definition init_global_locks ::
    "hw_fence_driver_data \<Rightarrow> u64 list \<Rightarrow> ((errno + unit) \<times> hw_fence_driver_data) option" where
  "init_global_locks d mem = do {
     r \<leftarrow> hw_fence_utils_reserve_mem d HW_FENCE_MEM_RESERVE_LOCKS_REGION 0;
     Some (case r of
        Inl _ \<Rightarrow> (Inl ENOMEM, d)
      | Inr (phys, ptr, sz) \<Rightarrow> (Inr (), d\<lparr>client_lock_tbl := mem, client_lock_tbl_cnt := sz div 8\<rparr>)) }"

definition init_hw_fences_table ::
    "hw_fence_driver_data \<Rightarrow> msm_hw_fence list \<Rightarrow> ((errno + unit) \<times> hw_fence_driver_data) option" where
  "init_hw_fences_table d mem = do {
     r \<leftarrow> hw_fence_utils_reserve_mem d HW_FENCE_MEM_RESERVE_TABLE 0;
     Some (case r of
        Inl _ \<Rightarrow> (Inl ENOMEM, d)
      | Inr (phys, ptr, sz) \<Rightarrow> (Inr (), d\<lparr>hw_fences_tbl := mem,
          hw_fences_tbl_cnt := of_nat (unat sz div sizeof_msm_hw_fence)\<rparr>)) }"

definition init_hw_fences_events ::
    "hw_fence_driver_data \<Rightarrow> ((errno + unit) \<times> hw_fence_driver_data) option" where
  "init_hw_fences_events d = do {
     r \<leftarrow> hw_fence_utils_reserve_mem d HW_FENCE_MEM_RESERVE_EVENTS_BUFF 0;
     Some (case r of
        Inl _ \<Rightarrow> (Inl ENOMEM, d)
      | Inr (phys, ptr, sz) \<Rightarrow> (Inr (), d\<lparr>total_events := of_nat (unat sz div sizeof_msm_hw_fence_event)\<rparr>)) }"

text \<open>\<open>hw_fence_alloc_client_resources\<close> fills the first \<open>queues_num\<close> queues of the client's array.\<close>

definition hw_fence_alloc_client_resources ::
    "hw_fence_uapi \<Rightarrow> hw_fence_driver_data \<Rightarrow> nat \<Rightarrow> (hfi_queue_header \<times> u32 list) list \<Rightarrow>
     ((errno + msm_hw_fence_mem_addr) \<times> hw_fence_driver_data) option" where
  "hw_fence_alloc_client_resources u d cid mem = do {
     c \<leftarrow> get_client d cid;
     cq \<leftarrow> idx (hw_fence_client_queue_size d) (unat (cl_client_id c));
     (case cqd_type cq of
        None \<Rightarrow> Some (Inl EINVAL, d)
      | Some t \<Rightarrow> do {
          desc \<leftarrow> idx (hw_fence_client_types d) t;
          r \<leftarrow> init_hw_fences_queues u d HW_FENCE_MEM_RESERVE_CLIENT_QUEUE (unat (td_queues_num desc))
                 (unat (cl_client_id c)) mem;
          Some (case r of
             Inl e \<Rightarrow> (Inl e, d)
           | Inr (ma, qs) \<Rightarrow> (Inr ma, set_client cid (c\<lparr>cl_mem_descriptor := ma,
                 cl_queues := qs @ drop (length qs) (cl_queues c)\<rparr>) d)) }) }"


section \<open>Memory of one client\<close>

text \<open>The two array reads return as many values as they were asked for.\<close>

definition dt_ok :: "of_node \<Rightarrow> bool" where
  "dt_ok dt \<longleftrightarrow> (\<forall>name n vs. of_property_read_u32_array dt name n = Inr vs \<longrightarrow> length vs = n)"

definition queue_bytes :: "hw_fence_client_type_desc \<Rightarrow> nat" where
  "queue_bytes desc = HW_FENCE_CLIENT_QUEUE_PAYLOAD * unat (td_queue_entries desc)"

definition headers_bytes :: "hw_fence_uapi \<Rightarrow> hw_fence_client_type_desc \<Rightarrow> nat" where
  "headers_bytes u desc = HW_FENCE_HFI_CLIENT_HEADERS_SIZE u (unat (td_queues_num desc))
     + unat (td_start_padding desc) + unat (td_end_padding desc)"

text \<open>The paddings leave the size of the headers below the last page boundary of 32 bits.\<close>

definition pads_fit :: "hw_fence_uapi \<Rightarrow> hw_fence_client_type_desc \<Rightarrow> bool" where
  "pads_fit u desc \<longleftrightarrow> headers_bytes u desc \<le> U32_MAX div PAGE_SIZE u * PAGE_SIZE u"

definition type_ok :: "hw_fence_uapi \<Rightarrow> hw_fence_client_type_desc \<Rightarrow> bool" where
  "type_ok u desc \<longleftrightarrow> td_clients_num desc \<le> td_max_clients_num desc
   \<and> td_queues_num desc \<noteq> 0 \<and> unat (td_queues_num desc) \<le> 2 \<and> td_queue_entries desc \<noteq> 0
   \<and> unat (td_mem_size desc) = PAGE_ALIGN u (headers_bytes u desc + unat (td_queues_num desc) * queue_bytes desc)
   \<and> unat (td_mem_size desc) \<le> MAX_CLIENT_QUEUE_MEM_SIZE
   \<and> queue_bytes desc < 2 ^ 32"

lemma sub64_eq:
  assumes "b \<le> a" and "a < 2 ^ 64"
  shows "sub64 a b = a - b"
proof -
  have "a + 2 ^ 64 - b = (a - b) + 2 ^ 64" using assms(1) by (rule add_diff_assoc2[symmetric])
  then show ?thesis unfolding sub64_def using assms(2) by (simp only: mod_add_self2) (rule mod_less, linarith)
qed

lemma PAGE_ALIGN_ge: "0 < PAGE_SIZE u \<Longrightarrow> x \<le> PAGE_ALIGN u x"
proof -
  assume p: "0 < PAGE_SIZE u"
  have "x + (PAGE_SIZE u - 1) < PAGE_SIZE u + (x + (PAGE_SIZE u - 1)) div PAGE_SIZE u * PAGE_SIZE u"
    using p by (rule dividend_less_div_times)
  then show ?thesis unfolding PAGE_ALIGN_def using p by linarith
qed

lemma PAGE_ALIGN_le: "0 < PAGE_SIZE u \<Longrightarrow> x \<le> k * PAGE_SIZE u \<Longrightarrow> PAGE_ALIGN u x \<le> k * PAGE_SIZE u"
proof -
  assume p: "0 < PAGE_SIZE u" and x: "x \<le> k * PAGE_SIZE u"
  then have "x + (PAGE_SIZE u - 1) < Suc k * PAGE_SIZE u" by simp
  then have "(x + (PAGE_SIZE u - 1)) div PAGE_SIZE u < Suc k" using p by (simp only: div_less_iff_less_mult)
  then show ?thesis unfolding PAGE_ALIGN_def by (intro mult_le_mono1) (simp only: less_Suc_eq_le)
qed

lemma assign_extra_keeps:
  assumes "assign_extra_props tmp desc = (r, desc')"
  shows "td_name desc' = td_name desc \<and> td_init_id desc' = td_init_id desc \<and> td_max_clients_num desc' = td_max_clients_num desc
    \<and> td_clients_num desc' = td_clients_num desc \<and> td_queues_num desc' = td_queues_num desc
    \<and> td_queue_entries desc' = td_queue_entries desc
    \<and> (unat (td_txq_idx_factor desc) \<in> {0, 1, 16} \<longrightarrow> unat (td_txq_idx_factor desc') \<in> {0, 1, 16})"
  using assms by (auto simp: assign_extra_props_def Let_def split: if_splits)

lemma parse_extra_keeps:
  assumes "parse_client_queue_dt_props_extra u dt desc = (r, desc')"
  shows "td_name desc' = td_name desc \<and> td_init_id desc' = td_init_id desc \<and> td_max_clients_num desc' = td_max_clients_num desc
    \<and> td_clients_num desc' = td_clients_num desc \<and> td_queues_num desc' = td_queues_num desc
    \<and> td_queue_entries desc' = td_queue_entries desc
    \<and> (unat (td_txq_idx_factor desc) \<in> {0, 1, 16} \<longrightarrow> unat (td_txq_idx_factor desc') \<in> {0, 1, 16})"
proof -
  consider "desc' = desc" | tmp r' where "assign_extra_props tmp desc = (r', desc')"
    using assms unfolding parse_client_queue_dt_props_extra_def Let_def
    by (auto split: if_splits sum.splits prod.splits)
  then show ?thesis by cases (simp, rule assign_extra_keeps)
qed

lemma read_props_keeps:
  assumes "read_client_queue_props dt entries desc = (r, desc')"
  shows "td_name desc' = td_name desc \<and> td_init_id desc' = td_init_id desc \<and> td_max_clients_num desc' = td_max_clients_num desc
    \<and> td_txq_idx_factor desc' = td_txq_idx_factor desc"
  using assms by (auto simp: read_client_queue_props_def Let_def split: if_splits sum.splits)

lemma compute_mem_size_spec:
  assumes c: "compute_mem_size u desc = (Inr x, desc')" and p: "0 < PAGE_SIZE u" and fit: "pads_fit u desc'"
    and q: "td_queues_num desc \<noteq> 0"
  shows "desc' = desc\<lparr>td_mem_size := td_mem_size desc'\<rparr>
   \<and> unat (td_mem_size desc') = PAGE_ALIGN u (headers_bytes u desc + unat (td_queues_num desc) * queue_bytes desc)
   \<and> unat (td_mem_size desc') \<le> MAX_CLIENT_QUEUE_MEM_SIZE \<and> queue_bytes desc < 2 ^ 32"
proof -
  let ?q = "unat (td_queues_num desc)" and ?h = "headers_bytes u desc" and ?L = "U32_MAX div PAGE_SIZE u * PAGE_SIZE u"
  let ?qs = "of_nat (HW_FENCE_CLIENT_QUEUE_PAYLOAD * unat (td_queue_entries desc)) :: u32"
  have q1: "unat (td_queue_entries desc) < U32_MAX div HW_FENCE_CLIENT_QUEUE_PAYLOAD"
    and q2: "unat ?qs < sub64 ?L (HW_FENCE_HFI_CLIENT_HEADERS_SIZE u ?q +
         (unat (td_start_padding desc) + unat (td_end_padding desc))) div ?q"
    and d': "desc' = desc\<lparr>td_mem_size := of_nat (PAGE_ALIGN u (HW_FENCE_HFI_CLIENT_HEADERS_SIZE u ?q
         + unat (?qs * td_queues_num desc) + (unat (td_start_padding desc) + unat (td_end_padding desc))))\<rparr>"
    and m: "unat (td_mem_size desc') \<le> MAX_CLIENT_QUEUE_MEM_SIZE"
    using c unfolding compute_mem_size_def Let_def by (auto simp: not_le split: if_splits)
  have qb: "queue_bytes desc < 2 ^ 32"
    using q1 by (simp add: queue_bytes_def HW_FENCE_CLIENT_QUEUE_PAYLOAD_def U32_MAX_def)
  then have qs: "unat ?qs = queue_bytes desc" unfolding queue_bytes_def by (rule unat_of_nat_u32)
  have L: "?L \<le> U32_MAX" by (rule div_times_less_eq_dividend)
  have U: "U32_MAX < 2 ^ 32" by (simp add: U32_MAX_def)
  have "U32_MAX < 2 ^ 64" by (simp add: U32_MAX_def)
  with L have L64: "?L < 2 ^ 64" by (rule le_less_trans)
  have hL: "?h \<le> ?L" using fit d' by (simp add: pads_fit_def headers_bytes_def)
  have "sub64 ?L (HW_FENCE_HFI_CLIENT_HEADERS_SIZE u ?q + (unat (td_start_padding desc) + unat (td_end_padding desc))) = ?L - ?h"
    using sub64_eq[OF hL L64] by (simp add: headers_bytes_def add.assoc)
  with q2 qs have "queue_bytes desc < (?L - ?h) div ?q" by simp
  then have "queue_bytes desc * ?q \<le> (?L - ?h) div ?q * ?q" by (intro mult_le_mono1) simp
  also have "\<dots> \<le> ?L - ?h" by (rule div_times_less_eq_dividend)
  finally have b: "queue_bytes desc * ?q \<le> ?L - ?h" .
  then have "unat ?qs * ?q < 2 ^ 32" unfolding qs using L U by linarith
  then have prod: "unat (?qs * td_queues_num desc) = queue_bytes desc * ?q"
    using qs unat_mult_lem[of ?qs "td_queues_num desc"] by simp
  have "PAGE_ALIGN u (?h + ?q * queue_bytes desc) \<le> ?L"
    using PAGE_ALIGN_le[OF p, of "?h + ?q * queue_bytes desc" "U32_MAX div PAGE_SIZE u"] b hL by (simp add: mult.commute)
  then have "PAGE_ALIGN u (?h + ?q * queue_bytes desc) < 2 ^ 32" using L U by linarith
  then have "unat (of_nat (PAGE_ALIGN u (?h + ?q * queue_bytes desc)) :: u32) = PAGE_ALIGN u (?h + ?q * queue_bytes desc)"
    by (rule unat_of_nat_u32)
  moreover have "td_mem_size desc' = of_nat (PAGE_ALIGN u (?h + ?q * queue_bytes desc))"
    using d' prod by (simp add: headers_bytes_def ac_simps)
  ultimately show ?thesis using d' m qb by simp
qed

text \<open>What parsing keeps of a type, whatever its paddings.\<close>

definition same_type :: "hw_fence_client_type_desc \<Rightarrow> hw_fence_client_type_desc \<Rightarrow> bool" where
  "same_type a b \<longleftrightarrow> td_name b = td_name a \<and> td_init_id b = td_init_id a \<and> td_max_clients_num b = td_max_clients_num a
     \<and> td_clients_num b \<le> td_max_clients_num a
     \<and> (unat (td_txq_idx_factor a) \<in> {0, 1, 16} \<longrightarrow> unat (td_txq_idx_factor b) \<in> {0, 1, 16})"

lemma compute_mem_size_keeps:
  "compute_mem_size u desc = (r, desc') \<Longrightarrow> \<exists>m. desc' = desc\<lparr>td_mem_size := m\<rparr>"
  unfolding compute_mem_size_def Let_def by (auto split: if_splits intro: exI[of _ "td_mem_size desc"])

lemma parse_indv_cases:
  assumes "parse_client_queue_dt_props_indv u dt entries desc = (Inr x, desc')"
  obtains d1 where "same_type desc d1" "td_queues_num d1 \<noteq> 0" "unat (td_queues_num d1) \<le> 2" "td_queue_entries d1 \<noteq> 0"
    "compute_mem_size u d1 = (Inr x, desc')"
proof -
  obtain d0 d1 where r: "read_client_queue_props dt entries desc = (Inr (), d0)"
    and g: "\<not> (td_clients_num d0 > td_max_clients_num d0 \<or> td_queues_num d0 = 0
          \<or> td_queues_num d0 > of_nat HW_FENCE_CLIENT_QUEUES \<or> td_queue_entries d0 = 0)"
    and ex: "parse_client_queue_dt_props_extra u dt d0 = (Inr (), d1)"
    and c: "compute_mem_size u d1 = (Inr x, desc')"
    using assms unfolding parse_client_queue_dt_props_indv_def
    by (auto split: sum.splits prod.splits if_splits)
  note k = read_props_keeps[OF r] parse_extra_keeps[OF ex]
  have "unat (td_queues_num d1) \<le> 2" using g k by (simp add: word_le_nat_alt not_less hw_fence_consts)
  then show ?thesis using g k that[OF _ _ _ _ c] by (auto simp: same_type_def not_less)
qed

lemma parse_indv_same_type:
  assumes "parse_client_queue_dt_props_indv u dt entries desc = (Inr x, desc')"
  shows "same_type desc desc'"
proof -
  obtain d1 where "same_type desc d1" "compute_mem_size u d1 = (Inr x, desc')" using assms by (rule parse_indv_cases)
  then show ?thesis using compute_mem_size_keeps[of u d1 "Inr x" desc'] by (auto simp: same_type_def)
qed

lemma parse_indv_spec:
  assumes parse: "parse_client_queue_dt_props_indv u dt entries desc = (Inr x, desc')" and p: "0 < PAGE_SIZE u"
    and fit: "pads_fit u desc'"
  shows "type_ok u desc'"
proof -
  obtain d1 where d: "same_type desc d1" "td_queues_num d1 \<noteq> 0" "unat (td_queues_num d1) \<le> 2" "td_queue_entries d1 \<noteq> 0"
    "compute_mem_size u d1 = (Inr x, desc')" using parse by (rule parse_indv_cases)
  obtain m where "desc' = d1\<lparr>td_mem_size := m\<rparr>" using compute_mem_size_keeps[OF d(5)] ..
  then show ?thesis using d compute_mem_size_spec[OF d(5) p fit d(2)]
    by (simp add: same_type_def type_ok_def headers_bytes_def queue_bytes_def)
qed


section \<open>Client ids\<close>

text \<open>What the driver relies on in the numbering of the public header: fourteen static clients from 1
  on, then \<open>MAX_SIGNAL_PER_CLIENT\<close> ids for each configurable type, in the order of the table.\<close>

definition uapi_ok :: "hw_fence_uapi \<Rightarrow> bool" where
  "uapi_ok u \<longleftrightarrow> CLIENT_ID_CTX0 u = 1 \<and> CLIENT_ID_CTL u = [2, 3, 4, 5, 6, 7] \<and> CLIENT_ID_VAL u = [8, 9, 10, 11, 12, 13, 14]
   \<and> CLIENT_ID_IPE u = 15 \<and> 32 \<le> unat (MAX_SIGNAL_PER_CLIENT u) \<and> unat (MAX_SIGNAL_PER_CLIENT u) \<le> 2 ^ 16
   \<and> CLIENT_ID_VPU u = 15 + MAX_SIGNAL_PER_CLIENT u
   \<and> length (CLIENT_ID_IFE u) = 8 \<and> (\<forall>k<8. CLIENT_ID_IFE u ! k = 15 + of_nat (2 + k) * MAX_SIGNAL_PER_CLIENT u)
   \<and> 0 < PAGE_SIZE u"

definition n_clients :: "hw_fence_client_type_desc list \<Rightarrow> nat \<Rightarrow> nat" where
  "n_clients types i = unat (td_clients_num (types ! i))"

text \<open>The first internal id of a type.\<close>

definition first_id :: "hw_fence_client_type_desc list \<Rightarrow> nat \<Rightarrow> nat" where
  "first_id types i = (if i = 0 then 1 else if i = 1 then 2 else if i = 2 then 8
     else 15 + (\<Sum>k\<leftarrow>[3..<i]. n_clients types k))"

definition types_ok :: "hw_fence_uapi \<Rightarrow> hw_fence_client_type_desc list \<Rightarrow> bool" where
  "types_ok u types \<longleftrightarrow> length types = 13
   \<and> (\<forall>i<13. td_init_id (types ! i) = td_init_id (hw_fence_client_types_init u ! i)
        \<and> n_clients types i \<le> (if i = 0 then 1 else if i = 1 then 6 else if i = 2 then 7 else 32))"

lemma first_id_step:
  assumes "types_ok u types" and "i < 13"
  shows "first_id types i + n_clients types i \<le> first_id types (Suc i)"
proof -
  have n: "n_clients types i \<le> (if i = 0 then 1 else if i = 1 then 6 else if i = 2 then 7 else 32)"
    using assms by (simp add: types_ok_def)
  consider "i = 0" | "i = 1" | "i = 2" | "3 \<le> i" by linarith
  then show ?thesis using n by cases (simp_all add: first_id_def)
qed

lemma first_id_mono:
  assumes t: "types_ok u types" and "i < k" and "k \<le> 13"
  shows "first_id types i + n_clients types i \<le> first_id types k"
  using assms(2,3)
proof (induction k)
  case (Suc k)
  show ?case
  proof (cases "i = k")
    case True
    with Suc.prems first_id_step[OF t] show ?thesis by simp
  next
    case False
    with Suc have "first_id types i + n_clients types i \<le> first_id types k" by simp
    also have "\<dots> \<le> first_id types (Suc k)" using first_id_step[OF t, of k] Suc.prems by simp
    finally show ?thesis .
  qed
qed simp

lemma client_slots_iff:
  "(i, j) \<in> set (client_slots types) \<longleftrightarrow> i < length types \<and> j < n_clients types i"
  by (fastforce simp: client_slots_def n_clients_def)

lemma client_slots_inj:
  assumes t: "types_ok u types"
  shows "inj_on (\<lambda>(i, j). first_id types i + j) (set (client_slots types))"
proof (rule inj_onI)
  fix a b assume ab: "a \<in> set (client_slots types)" "b \<in> set (client_slots types)"
    and eq: "(\<lambda>(i, j). first_id types i + j) a = (\<lambda>(i, j). first_id types i + j) b"
  obtain i j k l where [simp]: "a = (i, j)" "b = (k, l)" by (cases a, cases b)
  have 13: "length types = 13" using t by (simp add: types_ok_def)
  have b: "i < 13" "k < 13" "j < n_clients types i" "l < n_clients types k" using ab 13 by (auto simp: client_slots_iff)
  have "first_id types i + j = first_id types k + l" using eq by simp
  then show "a = b"
    using b first_id_mono[OF t, of i k] first_id_mono[OF t, of k i] by (cases i k rule: linorder_cases) simp_all
qed

lemma distinct_pairs:
  "distinct xs \<Longrightarrow> distinct (concat (map (\<lambda>i. map (\<lambda>j. (i, j)) [0..<n i]) xs))"
  by (induction xs) (auto simp: distinct_map inj_on_def)

lemma distinct_client_slots: "distinct (client_slots types)"
  unfolding client_slots_def by (rule distinct_pairs) simp

lemma lt_10: "(i :: nat) < 10 \<Longrightarrow> i \<in> {0, 1, 2, 3, 4, 5, 6, 7, 8, 9}"
  by (simp, presburger)

lemma static_id:
  assumes u: "uapi_ok u" and i: "i < 3" and t: "types_ok u types"
  shows "td_init_id (types ! i) = of_nat (first_id types i)"
proof -
  have "td_init_id (types ! i) = td_init_id (hw_fence_client_types_init u ! i)" using i t by (simp add: types_ok_def)
  moreover have "CLIENT_ID_CTX0 u = 1" "CLIENT_ID_CTL u ! 0 = 2" "CLIENT_ID_VAL u ! 0 = 8"
    using u by (simp_all add: uapi_ok_def)
  moreover from i have "i \<in> {0, 1, 2}" by auto
  ultimately show ?thesis by (auto simp: hw_fence_client_types_init_def type_desc_def first_id_def)
qed

lemma config_id:
  assumes u: "uapi_ok u" and t: "types_ok u types" and i: "i < 10"
  shows "td_init_id (types ! (3 + i)) = 15 + of_nat i * MAX_SIGNAL_PER_CLIENT u"
proof -
  have "td_init_id (types ! (3 + i)) = td_init_id (hw_fence_client_types_init u ! (3 + i))" using i t by (simp add: types_ok_def)
  moreover have "CLIENT_ID_IFE u ! k = 15 + of_nat (2 + k) * MAX_SIGNAL_PER_CLIENT u" if "k < 8" for k
    using u that by (simp add: uapi_ok_def)
  moreover have "CLIENT_ID_IPE u = 15" "CLIENT_ID_VPU u = 15 + MAX_SIGNAL_PER_CLIENT u"
    using u by (simp_all add: uapi_ok_def)
  moreover note lt_10[OF i]
  ultimately show ?thesis by (auto simp: hw_fence_client_types_init_def type_desc_def)
qed

lemma foldl_clients:
  "foldl (\<lambda>s i. s + td_clients_num (types ! i)) s is = s + of_nat (\<Sum>k\<leftarrow>is. n_clients types k)"
  by (induction "is" arbitrary: s) (simp_all add: n_clients_def)

lemma config_client_id:
  assumes u: "uapi_ok u" and t: "types_ok u types" and k: "k < 10" and j: "j < unat (MAX_SIGNAL_PER_CLIENT u)"
  shows "hw_fence_utils_get_client_id_priv u types (td_init_id (types ! (3 + k)) + of_nat j) =
    (if n_clients types (3 + k) \<le> j then Some (CLIENT_MAX u) else Some (of_nat (first_id types (3 + k) + j)))"
proof -
  let ?S = "MAX_SIGNAL_PER_CLIENT u"
  have ipe: "HW_FENCE_MAX_STATIC_CLIENTS_INDEX u = 15" using u by (simp add: HW_FENCE_MAX_STATIC_CLIENTS_INDEX_def uapi_ok_def)
  have S: "32 \<le> unat ?S" "unat ?S \<le> 2 ^ 16" using u by (simp_all add: uapi_ok_def)
  define rel :: u32 where "rel = of_nat (k * unat ?S + j)"
  have "k * unat ?S \<le> 9 * 2 ^ 16" using k S by (intro mult_le_mono) simp_all
  then have b: "15 + (k * unat ?S + j) < 2 ^ 32" using S j by simp
  have ur: "unat rel = k * unat ?S + j" unfolding rel_def using b by (intro unat_of_nat_u32) simp
  have id: "td_init_id (types ! (3 + k)) + of_nat j = 15 + rel"
    using config_id[OF u t k] by (simp add: rel_def word_of_nat_eq_iff)
  have ge: "\<not> 15 + rel < 15"
    using b unat_add_lem[of 15 rel] by (simp add: word_less_nat_alt ur)
  have d: "unat (rel div ?S) = k" using j S by (simp add: unat_div ur)
  have "unat (rel mod ?S) = unat (of_nat j :: u32)" using j b by (simp add: unat_mod ur unat_of_nat_u32)
  then have m: "rel mod ?S = of_nat j" by (rule unat_inj)
  have nj: "of_nat j \<ge> td_clients_num (types ! (3 + k)) \<longleftrightarrow> n_clients types (3 + k) \<le> j"
    using b by (simp add: n_clients_def word_le_nat_alt unat_of_nat_u32)
  show ?thesis unfolding id
    using ge d m nj k t
    by (simp add: hw_fence_utils_get_client_id_priv_def ipe Let_def foldl_clients first_id_def layout_consts types_ok_def)
qed

lemma get_client_id_priv_slot:
  assumes u: "uapi_ok u" and t: "types_ok u types" and s: "(i, j) \<in> set (client_slots types)"
  shows "hw_fence_utils_get_client_id_priv u types (td_init_id (types ! i) + of_nat j) = Some (of_nat (first_id types i + j))"
proof -
  have i: "i < 13" and j: "j < n_clients types i"
    and n: "n_clients types i \<le> (if i = 0 then 1 else if i = 1 then 6 else if i = 2 then 7 else 32)"
    using t s by (auto simp: types_ok_def client_slots_iff)
  show ?thesis
  proof (cases "i < 3")
    case True
    then have "first_id types i + j < 15" using n j by (auto simp: first_id_def split: if_splits)
    then have "of_nat (first_id types i + j) < (15 :: u32)" by (simp add: word_less_nat_alt unat_of_nat_u32 del: of_nat_add)
    then show ?thesis using static_id[OF u True t] u
      by (simp add: hw_fence_utils_get_client_id_priv_def HW_FENCE_MAX_STATIC_CLIENTS_INDEX_def uapi_ok_def)
  next
    case False
    have "32 \<le> unat (MAX_SIGNAL_PER_CLIENT u)" using u by (simp add: uapi_ok_def)
    then have "j < unat (MAX_SIGNAL_PER_CLIENT u)" using j n False by (simp split: if_splits)
    then show ?thesis using config_client_id[OF u t, of "i - 3" j] False i j by simp
  qed
qed


section \<open>The clients' regions\<close>

definition slot_id :: "hw_fence_client_type_desc list \<Rightarrow> nat \<times> nat \<Rightarrow> nat" where
  "slot_id types s = first_id types (fst s) + snd s"

definition slot_mem :: "hw_fence_client_type_desc list \<Rightarrow> nat \<times> nat \<Rightarrow> nat" where
  "slot_mem types s = unat (td_mem_size (types ! fst s))"

lemma lay_out_spec:
  assumes "\<And>i j. (i, j) \<in> set ijs \<Longrightarrow> i < length types
      \<and> hw_fence_utils_get_client_id_priv u types (td_init_id (types ! i) + of_nat j) = Some (of_nat (slot_id types (i, j)))
      \<and> slot_id types (i, j) < length descs"
    and "length descs < 2 ^ 32" and "distinct (map (slot_id types) ijs)"
  shows "\<exists>descs'. lay_out_clients u types ijs descs start =
      Some (descs', start + of_nat (sum_list (map (slot_mem types) ijs))) \<and> length descs' = length descs
    \<and> (\<forall>k<length ijs. descs' ! slot_id types (ijs ! k) = \<lparr>cqd_type = Some (fst (ijs ! k)),
         cqd_start_offset = start + of_nat (sum_list (map (slot_mem types) (take k ijs)))\<rparr>)
    \<and> (\<forall>c. c \<notin> slot_id types ` set ijs \<longrightarrow> descs' ! c = descs ! c)"
  using assms
proof (induction ijs arbitrary: descs start)
  case Nil
  then show ?case by simp
next
  case (Cons s ijs)
  obtain i j where s: "s = (i, j)" by (cases s)
  let ?c = "slot_id types s" and ?m = "td_mem_size (types ! i)"
  let ?e = "\<lparr>cqd_type = Some i, cqd_start_offset = start\<rparr>"
  have c: "i < length types" "hw_fence_utils_get_client_id_priv u types (td_init_id (types ! i) + of_nat j) = Some (of_nat ?c)"
    "?c < length descs" using Cons.prems(1)[of i j] s by simp_all
  have uc: "unat (of_nat ?c :: u32) = ?c" using c(3) Cons.prems(2) by (intro unat_of_nat_u32) simp
  have "\<exists>descs'. lay_out_clients u types ijs (descs[?c := ?e]) (start + ?m) =
      Some (descs', (start + ?m) + of_nat (sum_list (map (slot_mem types) ijs))) \<and> length descs' = length (descs[?c := ?e])
    \<and> (\<forall>k<length ijs. descs' ! slot_id types (ijs ! k) = \<lparr>cqd_type = Some (fst (ijs ! k)),
         cqd_start_offset = (start + ?m) + of_nat (sum_list (map (slot_mem types) (take k ijs)))\<rparr>)
    \<and> (\<forall>c. c \<notin> slot_id types ` set ijs \<longrightarrow> descs' ! c = descs[?c := ?e] ! c)"
    using Cons.prems by (intro Cons.IH) auto
  then obtain ds where ds: "lay_out_clients u types ijs (descs[?c := ?e]) (start + ?m) =
      Some (ds, (start + ?m) + of_nat (sum_list (map (slot_mem types) ijs)))" "length ds = length descs"
    "\<And>k. k < length ijs \<Longrightarrow> ds ! slot_id types (ijs ! k) = \<lparr>cqd_type = Some (fst (ijs ! k)),
         cqd_start_offset = (start + ?m) + of_nat (sum_list (map (slot_mem types) (take k ijs)))\<rparr>"
    "\<And>c. c \<notin> slot_id types ` set ijs \<Longrightarrow> ds ! c = descs[?c := ?e] ! c" by auto
  have m: "of_nat (slot_mem types s) = ?m" by (simp add: slot_mem_def s)
  have "ds ! ?c = ?e" using ds(4)[of ?c] Cons.prems(3) c(3) by (auto simp: image_iff)
  then have "ds ! slot_id types ((s # ijs) ! k) = \<lparr>cqd_type = Some (fst ((s # ijs) ! k)),
         cqd_start_offset = start + of_nat (sum_list (map (slot_mem types) (take k (s # ijs))))\<rparr>"
    if "k < length (s # ijs)" for k
    using that ds(3)[of "k - 1"] m by (cases k) (simp_all add: s[symmetric] add.assoc, simp add: s)
  moreover have "ds ! c' = descs ! c'" if "c' \<notin> slot_id types ` set (s # ijs)" for c'
    using ds(4)[of c'] that by (auto simp: nth_list_update)
  moreover have "lay_out_clients u types (s # ijs) descs start =
      Some (ds, start + of_nat (sum_list (map (slot_mem types) (s # ijs))))"
    using ds(1) c uc m by (simp add: s[symmetric] add.assoc) (simp add: s)
  ultimately show ?case using ds(2) by blast
qed

lemma parse_types_spec:
  assumes "parse_client_types u dt entries i types rxq conf = (Inr (), rxq', conf', types')"
  shows "list_all2 same_type types types' \<and> conf' = conf + of_nat (\<Sum>k\<leftarrow>[3 - i..<length types]. n_clients types' k)
    \<and> (0 < PAGE_SIZE u \<longrightarrow> list_all (\<lambda>desc. pads_fit u desc \<longrightarrow> type_ok u desc) types')"
  using assms
proof (induction types arbitrary: i rxq conf types')
  case Nil
  then show ?case by simp
next
  case (Cons desc descs)
  obtain desc' where d: "parse_client_queue_dt_props_indv u dt entries desc = (Inr (), desc')"
    using Cons.prems(1) by (auto split: prod.splits sum.splits)
  obtain rxq1 descs' where r: "parse_client_types u dt entries (Suc i) descs rxq1
        (if i \<ge> 3 then conf + td_clients_num desc' else conf) = (Inr (), rxq', conf', descs')"
    and t': "types' = desc' # descs'"
    using Cons.prems(1) d by (auto simp: layout_consts split: prod.splits if_splits)
  note h = parse_indv_spec[OF d] parse_indv_same_type[OF d] and tl = Cons.IH[OF r]
  have sh: "(\<Sum>k\<leftarrow>[Suc a..<Suc b]. n_clients types' k) = (\<Sum>k\<leftarrow>[a..<b]. n_clients descs' k)" for a b
    unfolding map_Suc_upt[symmetric] by (simp add: n_clients_def t' o_def)
  have "conf' = conf + of_nat (\<Sum>k\<leftarrow>[3 - i..<length (desc # descs)]. n_clients types' k)"
  proof (cases "i \<ge> 3")
    case True
    then have e: "[3 - i..<length (desc # descs)] = 0 # [Suc 0..<Suc (length descs)]" by (simp add: upt_conv_Cons del: upt_Suc)
    have "3 - Suc i = 0" using True by simp
    then show ?thesis unfolding e using tl True sh[of 0 "length descs"] by (simp add: n_clients_def t' del: upt_Suc)
  next
    case False
    then have "3 - i = Suc (3 - Suc i)" by simp
    then show ?thesis using tl False sh[of "3 - Suc i" "length descs"] by (simp del: upt_Suc)
  qed
  then show ?case using h tl t' by simp
qed

lemma lt_13: "(i :: nat) < 13 \<Longrightarrow> i \<in> {0, 1, 2, 3, 4, 5, 6, 7, 8, 9, 10, 11, 12}"
  by (simp, presburger)

lemma type_max:
  "i < 13 \<Longrightarrow> unat (td_max_clients_num (hw_fence_client_types_init u ! i)) = (if i = 0 then 1 else if i = 1 then 6 else if i = 2 then 7 else 32)"
  using lt_13[of i] by (auto simp: hw_fence_client_types_init_def type_desc_def)

lemma parsed_types_ok:
  assumes "list_all2 same_type (hw_fence_client_types_init u) types"
  shows "types_ok u types"
proof -
  have 13: "length types = 13" using list_all2_lengthD[OF assms] by (simp add: hw_fence_client_types_init_def)
  have "td_init_id (types ! i) = td_init_id (hw_fence_client_types_init u ! i)
      \<and> n_clients types i \<le> (if i = 0 then 1 else if i = 1 then 6 else if i = 2 then 7 else 32)" if i: "i < 13" for i
  proof -
    have "same_type (hw_fence_client_types_init u ! i) (types ! i)"
      using list_all2_nthD2[OF assms] i 13 by simp
    then have "td_init_id (types ! i) = td_init_id (hw_fence_client_types_init u ! i)"
      and "td_clients_num (types ! i) \<le> td_max_clients_num (hw_fence_client_types_init u ! i)"
      by (simp_all add: same_type_def)
    moreover from this(2) have "n_clients types i \<le> unat (td_max_clients_num (hw_fence_client_types_init u ! i))"
      by (simp add: n_clients_def word_le_nat_alt)
    ultimately show ?thesis using type_max[OF i, of u] by simp
  qed
  then show ?thesis using 13 unfolding types_ok_def by blast
qed

definition conf_clients :: "hw_fence_client_type_desc list \<Rightarrow> nat" where
  "conf_clients types = (\<Sum>k\<leftarrow>[3..<13]. n_clients types k)"

lemma conf_clients_bound:
  assumes "types_ok u types"
  shows "conf_clients types \<le> 320"
proof -
  have "n_clients types k \<le> 32" if "k \<in> set [3..<13]" for k
  proof -
    have "k < 13" using that by (simp only: set_upt atLeastLessThan_iff)
    then have "n_clients types k \<le> (if k = 0 then 1 else if k = 1 then 6 else if k = 2 then 7 else 32)"
      using assms by (simp only: types_ok_def)
    then show ?thesis by (simp split: if_splits)
  qed
  then have "(\<Sum>k\<leftarrow>[3..<13]. n_clients types k) \<le> (\<Sum>k\<leftarrow>[3..<13]. 32)" by (rule sum_list_mono)
  then show ?thesis unfolding conf_clients_def by simp
qed

text \<open>The layout after a successful parse.\<close>

definition layout_base :: "hw_fence_uapi \<Rightarrow> hw_fence_driver_data \<Rightarrow> nat" where
  "layout_base u d = PAGE_ALIGN u (unat (hw_fence_mem_ctrl_queues_size d) + HW_FENCE_MEM_LOCKS_SIZE (rxq_clients_num d)
     + unat (hw_fence_mem_fences_table_size d))"

definition laid_out :: "hw_fence_uapi \<Rightarrow> hw_fence_driver_data \<Rightarrow> bool" where
  "laid_out u d \<longleftrightarrow> (let types = hw_fence_client_types d; slots = client_slots types in
     types_ok u types \<and> unat (clients_num d) = first_id types 13
   \<and> length (hw_fence_client_queue_size d) = unat (clients_num d)
   \<and> (\<forall>k<length slots. hw_fence_client_queue_size d ! slot_id types (slots ! k) = \<lparr>cqd_type = Some (fst (slots ! k)),
        cqd_start_offset = of_nat (layout_base u d + sum_list (map (slot_mem types) (take k slots)))\<rparr>)
   \<and> (\<forall>c<unat (clients_num d). c \<notin> slot_id types ` set slots \<longrightarrow> cqd_type (hw_fence_client_queue_size d ! c) = None)
   \<and> used_mem_size d = of_nat (layout_base u d + sum_list (map (slot_mem types) slots)))"

lemma slot_id_bound:
  assumes t: "types_ok u types" and s: "s \<in> set (client_slots types)"
  shows "slot_id types s < first_id types 13"
proof -
  obtain i j where [simp]: "s = (i, j)" by (cases s)
  have "i < 13" "j < n_clients types i" using s t by (auto simp: client_slots_iff types_ok_def)
  then show ?thesis using first_id_mono[OF t, of i 13] by (simp add: slot_id_def)
qed

lemma distinct_slot_ids:
  assumes "types_ok u types"
  shows "distinct (map (slot_id types) (client_slots types))"
proof -
  have "inj_on (slot_id types) (set (client_slots types))"
    using client_slots_inj[OF assms] by (simp add: slot_id_def inj_on_def case_prod_beta)
  then show ?thesis by (simp add: distinct_map distinct_client_slots)
qed

lemma parse_client_queue_spec:
  assumes u: "uapi_ok u"
  shows "\<exists>r d'. parse_client_queue_dt_props u dt al (hw_fence_client_types_init u) d = Some (r, d')
    \<and> hw_fence_mem_ctrl_queues_size d' = hw_fence_mem_ctrl_queues_size d
    \<and> hw_fence_mem_fences_table_size d' = hw_fence_mem_fences_table_size d
    \<and> (r = Inr () \<longrightarrow> al \<and> laid_out u d'
        \<and> (\<forall>desc\<in>set (hw_fence_client_types d'). pads_fit u desc \<longrightarrow> type_ok u desc))"
proof -
  obtain r rxq conf types where p: "parse_client_types u dt (hw_fence_queue_entries d) 0 (hw_fence_client_types_init u)
      (HW_FENCE_MIN_RXQ_CLIENTS u) 0 = (r, rxq, conf, types)" by (metis prod.exhaust)
  show ?thesis
  proof (cases "r = Inr () \<and> al")
    case False
    then show ?thesis using p by (cases r) (simp_all add: parse_client_queue_dt_props_def Let_def)
  next
    case True
    have "length (hw_fence_client_types_init u) = 13" by (simp add: hw_fence_client_types_init_def)
    moreover have "parse_client_types u dt (hw_fence_queue_entries d) 0 (hw_fence_client_types_init u)
      (HW_FENCE_MIN_RXQ_CLIENTS u) 0 = (Inr (), rxq, conf, types)" using p True by simp
    note parse_types_spec[OF this]
    ultimately have sp: "list_all2 same_type (hw_fence_client_types_init u) types"
        "conf = of_nat (conf_clients types)"
        "0 < PAGE_SIZE u \<Longrightarrow> list_all (\<lambda>desc. pads_fit u desc \<longrightarrow> type_ok u desc) types"
      by (simp_all only: conf_clients_def diff_zero add_0 simp_thms)
    have t: "types_ok u types" using sp(1) by (rule parsed_types_ok)
    define N where "N = HW_FENCE_MAX_STATIC_CLIENTS_INDEX u + conf"
    have "first_id types 13 = 15 + conf_clients types" by (simp add: first_id_def conf_clients_def del: upt_Suc)
    moreover from this have "N = of_nat (first_id types 13)" using u
      by (simp add: N_def HW_FENCE_MAX_STATIC_CLIENTS_INDEX_def uapi_ok_def sp(2))
    ultimately have N32: "first_id types 13 < 2 ^ 32" and N: "unat N = first_id types 13" using conf_clients_bound[OF t] by (simp_all add: unat_of_nat_u32 del: of_nat_add)
    define start :: u32 where "start = of_nat (PAGE_ALIGN u (unat (hw_fence_mem_ctrl_queues_size d) + HW_FENCE_MEM_LOCKS_SIZE rxq
                   + unat (hw_fence_mem_fences_table_size d)))"
    let ?none = "replicate (unat N) \<lparr>cqd_type = None, cqd_start_offset = 0\<rparr>"
    have "\<exists>descs'. lay_out_clients u types (client_slots types) ?none start =
      Some (descs', start + of_nat (sum_list (map (slot_mem types) (client_slots types)))) \<and> length descs' = length ?none
    \<and> (\<forall>k<length (client_slots types). descs' ! slot_id types (client_slots types ! k) = \<lparr>cqd_type = Some (fst (client_slots types ! k)),
         cqd_start_offset = start + of_nat (sum_list (map (slot_mem types) (take k (client_slots types))))\<rparr>)
    \<and> (\<forall>c. c \<notin> slot_id types ` set (client_slots types) \<longrightarrow> descs' ! c = ?none ! c)"
      using get_client_id_priv_slot[OF u t] slot_id_bound[OF t] distinct_slot_ids[OF t] N N32 t
      by (intro lay_out_spec) (auto simp: client_slots_iff slot_id_def)
    then obtain descs where l: "lay_out_clients u types (client_slots types) ?none start =
        Some (descs, start + of_nat (sum_list (map (slot_mem types) (client_slots types))))" "length descs = unat N"
      "\<And>k. k < length (client_slots types) \<Longrightarrow> descs ! slot_id types (client_slots types ! k) = \<lparr>cqd_type = Some (fst (client_slots types ! k)),
         cqd_start_offset = start + of_nat (sum_list (map (slot_mem types) (take k (client_slots types))))\<rparr>"
      "\<And>c. c \<notin> slot_id types ` set (client_slots types) \<Longrightarrow> descs ! c = ?none ! c" by auto
    let ?d = "d\<lparr>rxq_clients_num := rxq, hw_fence_client_types := types, clients_num := N, hw_fence_client_queue_size := descs,
       used_mem_size := start + of_nat (sum_list (map (slot_mem types) (client_slots types)))\<rparr>"
    have "laid_out u ?d"
      using t N l(2-4) by (simp add: laid_out_def Let_def layout_base_def start_def)
    moreover have "parse_client_queue_dt_props u dt al (hw_fence_client_types_init u) d = Some (Inr (), ?d)"
      using p True l(1) by (simp add: parse_client_queue_dt_props_def Let_def N_def start_def)
    ultimately show ?thesis using True sp(3) u by (auto simp: uapi_ok_def list_all_iff)
  qed
qed


lemma parse_dt_props_spec:
  assumes u: "uapi_ok u"
    and te: "of_property_read_u32 dt ''qcom,hw-fence-table-entries'' = Inr te" "te \<noteq> 0"
    and qe: "of_property_read_u32 dt ''qcom,hw-fence-queue-entries'' = Inr qe" "qe \<noteq> 0"
  shows "\<exists>r d'. hw_fence_utils_parse_dt_props u dt a1 a2 (hw_fence_client_types_init u) d = Some (r, d')
    \<and> (r = Inr () \<longrightarrow> laid_out u d' \<and> clients d' = replicate (unat (clients_num d')) None
        \<and> unat (hw_fence_mem_fences_table_size d') = sizeof_msm_hw_fence * unat te
        \<and> (\<forall>desc\<in>set (hw_fence_client_types d'). pads_fit u desc \<longrightarrow> type_ok u desc))"
proof -
  let ?ts = "of_nat (sizeof_msm_hw_fence * unat te) :: u32"
  let ?cs = "of_nat (HW_FENCE_CTRL_QUEUE_PAYLOAD * unat qe) :: u32"
  define d1 where "d1 = d\<lparr>hw_fence_table_entries := te, hw_fence_mem_fences_table_size := ?ts, hw_fence_queue_entries := qe,
    hw_fence_ctrl_queue_size := ?cs, hw_fence_mem_ctrl_queues_size := of_nat (HW_FENCE_HFI_CTRL_HEADERS_SIZE u
                     + HW_FENCE_CTRL_QUEUES * unat ?cs)\<rparr>"
  obtain r d2 where p: "parse_client_queue_dt_props u dt a1 (hw_fence_client_types_init u) d1 = Some (r, d2)"
    "hw_fence_mem_fences_table_size d2 = hw_fence_mem_fences_table_size d1"
    "r = Inr () \<Longrightarrow> laid_out u d2 \<and> (\<forall>desc\<in>set (hw_fence_client_types d2). pads_fit u desc \<longrightarrow> type_ok u desc)"
    using parse_client_queue_spec[OF u, of dt a1 d1] by blast
  have lc: "laid_out u (d2\<lparr>clients := x\<rparr>) = laid_out u d2" for x by (simp add: laid_out_def layout_base_def)
  have "unat ?ts = sizeof_msm_hw_fence * unat te" if "unat te < U32_MAX div sizeof_msm_hw_fence"
    using that by (intro unat_of_nat_u32) (simp add: sizeof_msm_hw_fence_def U32_MAX_def)
  then show ?thesis using te qe p[unfolded d1_def]
    by (cases r) (simp_all add: hw_fence_utils_parse_dt_props_def Let_def lc not_le)
qed

section \<open>Regions of the carved-out memory\<close>

definition region :: "hw_fence_driver_data \<Rightarrow> hw_fence_mem_reserve \<times> nat \<Rightarrow> nat set" where
  "region d a = (case reserve_range d (fst a) (snd a) of
     Some (Inr (start, sz)) \<Rightarrow> {unat start..<unat start + unat sz}
   | _ \<Rightarrow> {})"

text \<open>What is reserved: the control queues, the locks, the fence table and the queues of each client.\<close>

definition areas :: "hw_fence_driver_data \<Rightarrow> (hw_fence_mem_reserve \<times> nat) list" where
  "areas d = [(HW_FENCE_MEM_RESERVE_CTRL_QUEUE, 0), (HW_FENCE_MEM_RESERVE_LOCKS_REGION, 0), (HW_FENCE_MEM_RESERVE_TABLE, 0)]
     @ map (\<lambda>c. (HW_FENCE_MEM_RESERVE_CLIENT_QUEUE, c)) [0..<unat (clients_num d)]"

definition layout_off :: "hw_fence_uapi \<Rightarrow> hw_fence_driver_data \<Rightarrow> nat \<Rightarrow> nat" where
  "layout_off u d k = layout_base u d + sum_list (map (slot_mem (hw_fence_client_types d)) (take k (client_slots (hw_fence_client_types d))))"

text \<open>The size of the whole layout, in unbounded arithmetic.\<close>

definition layout_end :: "hw_fence_uapi \<Rightarrow> hw_fence_driver_data \<Rightarrow> nat" where
  "layout_end u d = layout_base u d + sum_list (map (slot_mem (hw_fence_client_types d)) (client_slots (hw_fence_client_types d)))"

lemma layout_off_mono:
  assumes "k \<le> m"
  shows "layout_off u d k \<le> layout_off u d m"
proof -
  have "take m xs = take k xs @ drop k (take m xs)" for xs :: "(nat \<times> nat) list"
    using assms append_take_drop_id[of k "take m xs"] by (simp add: take_take min_absorb1)
  then have "sum_list (map f (take m xs)) = sum_list (map f (take k xs)) + sum_list (map f (drop k (take m xs)))"
    for f :: "nat \<times> nat \<Rightarrow> nat" and xs by (metis map_append sum_list_append)
  then show ?thesis by (simp add: layout_off_def)
qed

lemma layout_off_le_end: "layout_off u d k \<le> layout_end u d"
proof -
  have "layout_off u d k \<le> layout_off u d (max k (length (client_slots (hw_fence_client_types d))))"
    by (rule layout_off_mono) simp
  then show ?thesis by (simp add: layout_off_def layout_end_def)
qed

lemma layout_off_Suc:
  "k < length (client_slots (hw_fence_client_types d)) \<Longrightarrow> layout_off u d (Suc k) =
     layout_off u d k + slot_mem (hw_fence_client_types d) (client_slots (hw_fence_client_types d) ! k)"
  by (simp add: layout_off_def take_Suc_conv_app_nth)

lemma client_region:
  assumes l: "laid_out u d" and small: "layout_end u d < 2 ^ 32" and c: "c < unat (clients_num d)"
  obtains "region d (HW_FENCE_MEM_RESERVE_CLIENT_QUEUE, c) = {}"
  | k where "k < length (client_slots (hw_fence_client_types d))"
      "c = slot_id (hw_fence_client_types d) (client_slots (hw_fence_client_types d) ! k)"
      "region d (HW_FENCE_MEM_RESERVE_CLIENT_QUEUE, c) = {layout_off u d k..<layout_off u d (Suc k)}"
proof -
  let ?t = "hw_fence_client_types d"
  let ?s = "client_slots ?t"
  have len: "length (hw_fence_client_queue_size d) = unat (clients_num d)" and t: "types_ok u ?t"
    using l by (simp_all add: laid_out_def Let_def)
  show thesis
  proof (cases "c \<in> slot_id ?t ` set ?s")
    case False
    then have "cqd_type (hw_fence_client_queue_size d ! c) = None" using l c by (simp add: laid_out_def Let_def)
    then show thesis using c len by (intro that(1)) (simp add: region_def reserve_range_def)
  next
    case True
    then obtain k where k: "k < length ?s" "c = slot_id ?t (?s ! k)" by (auto simp: in_set_conv_nth)
    then have e: "hw_fence_client_queue_size d ! c = \<lparr>cqd_type = Some (fst (?s ! k)), cqd_start_offset = of_nat (layout_off u d k)\<rparr>"
      using l by (simp add: laid_out_def Let_def layout_off_def)
    have "fst (?s ! k) < length ?t"
      using nth_mem[OF k(1)] client_slots_iff[of "fst (?s ! k)" "snd (?s ! k)" ?t] by simp
    moreover have "unat (of_nat (layout_off u d k) :: u32) = layout_off u d k"
      using layout_off_le_end[of u d k] small by (intro unat_of_nat_u32) simp
    ultimately have "region d (HW_FENCE_MEM_RESERVE_CLIENT_QUEUE, c) = {layout_off u d k..<layout_off u d (Suc k)}"
      using c len e by (simp add: region_def reserve_range_def layout_off_Suc[OF k(1)] slot_mem_def)
    then show thesis using that(2) k by blast
  qed
qed

lemma client_regions_disjoint:
  assumes "laid_out u d" and "layout_end u d < 2 ^ 32" and "c < unat (clients_num d)" and "c' < unat (clients_num d)" and "c \<noteq> c'"
  shows "region d (HW_FENCE_MEM_RESERVE_CLIENT_QUEUE, c) \<inter> region d (HW_FENCE_MEM_RESERVE_CLIENT_QUEUE, c') = {}"
proof (rule client_region[OF assms(1-3)])
  fix k assume k: "c = slot_id (hw_fence_client_types d) (client_slots (hw_fence_client_types d) ! k)"
    "region d (HW_FENCE_MEM_RESERVE_CLIENT_QUEUE, c) = {layout_off u d k..<layout_off u d (Suc k)}"
  show ?thesis
  proof (rule client_region[OF assms(1,2,4)])
    fix m assume m: "c' = slot_id (hw_fence_client_types d) (client_slots (hw_fence_client_types d) ! m)"
      "region d (HW_FENCE_MEM_RESERVE_CLIENT_QUEUE, c') = {layout_off u d m..<layout_off u d (Suc m)}"
    have "k \<noteq> m" using k(1) m(1) assms(5) by auto
    then have "layout_off u d (Suc k) \<le> layout_off u d m \<or> layout_off u d (Suc m) \<le> layout_off u d k"
      using layout_off_mono[of "Suc k" m u d] layout_off_mono[of "Suc m" k u d] by linarith
    then show ?thesis using k(2) m(2) by auto
  qed simp
qed simp

lemma fixed_regions:
  assumes p: "0 < PAGE_SIZE u" and small: "layout_end u d < 2 ^ 32"
  defines "a \<equiv> unat (hw_fence_mem_ctrl_queues_size d)" and "b \<equiv> HW_FENCE_MEM_LOCKS_SIZE (rxq_clients_num d)"
    and "t \<equiv> unat (hw_fence_mem_fences_table_size d)"
  shows "region d (HW_FENCE_MEM_RESERVE_CTRL_QUEUE, 0) = {0..<a}"
    and "region d (HW_FENCE_MEM_RESERVE_LOCKS_REGION, 0) = {a..<a + b}"
    and "region d (HW_FENCE_MEM_RESERVE_TABLE, 0) = {a + b..<a + b + t}"
    and "a + b + t \<le> layout_base u d"
proof -
  show le: "a + b + t \<le> layout_base u d" unfolding layout_base_def a_def b_def t_def by (rule PAGE_ALIGN_ge[OF p])
  then have "a + b + t < 2 ^ 32" using small by (simp add: layout_end_def)
  then have "unat (of_nat b :: u32) = b" "unat (of_nat (a + b) :: u32) = a + b" by (intro unat_of_nat_u32; simp)+
  then show "region d (HW_FENCE_MEM_RESERVE_CTRL_QUEUE, 0) = {0..<a}"
    "region d (HW_FENCE_MEM_RESERVE_LOCKS_REGION, 0) = {a..<a + b}"
    "region d (HW_FENCE_MEM_RESERVE_TABLE, 0) = {a + b..<a + b + t}"
    by (simp_all add: region_def reserve_range_def a_def b_def t_def)
qed

lemma client_region_bounds:
  assumes "laid_out u d" and "layout_end u d < 2 ^ 32" and "c < unat (clients_num d)"
  shows "region d (HW_FENCE_MEM_RESERVE_CLIENT_QUEUE, c) \<subseteq> {layout_base u d..<layout_end u d}"
proof (rule client_region[OF assms])
  fix k assume k: "region d (HW_FENCE_MEM_RESERVE_CLIENT_QUEUE, c) = {layout_off u d k..<layout_off u d (Suc k)}"
  have "layout_base u d \<le> layout_off u d k" by (simp add: layout_off_def)
  then show ?thesis using layout_off_le_end[of u d "Suc k"] k by auto
qed simp

lemma areas_cases:
  assumes "a \<in> set (areas d)"
  obtains "a = (HW_FENCE_MEM_RESERVE_CTRL_QUEUE, 0)" | "a = (HW_FENCE_MEM_RESERVE_LOCKS_REGION, 0)" | "a = (HW_FENCE_MEM_RESERVE_TABLE, 0)"
  | c where "a = (HW_FENCE_MEM_RESERVE_CLIENT_QUEUE, c)" "c < unat (clients_num d)"
  using assms by (auto simp: areas_def)

lemma regions_disjoint_spec:
  assumes p: "0 < PAGE_SIZE u" and l: "laid_out u d" and small: "layout_end u d < 2 ^ 32"
    and a: "a \<in> set (areas d)" and b: "b \<in> set (areas d)" and ab: "a \<noteq> b"
  shows "region d a \<inter> region d b = {}"
proof -
  note f = fixed_regions[OF p small]
  have c: "x \<in> region d (HW_FENCE_MEM_RESERVE_CLIENT_QUEUE, c) \<Longrightarrow> layout_base u d \<le> x" if "c < unat (clients_num d)" for c x
    using client_region_bounds[OF l small that] by auto
  have "x \<notin> region d b" if x: "x \<in> region d a" for x
    using a
  proof (cases rule: areas_cases)
    case (4 k)
    note k = c[OF 4(2), of x]
    from b show ?thesis
    proof (cases rule: areas_cases)
      case (4 m)
      then show ?thesis using client_regions_disjoint[OF l small \<open>k < _\<close>, of m] ab x \<open>a = _\<close> by auto
    qed (use k f x \<open>a = _\<close> in auto)
  next
    case 1
    from b show ?thesis by (cases rule: areas_cases) (use 1 ab f c[of _ x] x in auto)
  next
    case 2
    from b show ?thesis by (cases rule: areas_cases) (use 2 ab f c[of _ x] x in auto)
  next
    case 3
    from b show ?thesis by (cases rule: areas_cases) (use 3 ab f c[of _ x] x in auto)
  qed
  then show ?thesis by auto
qed

lemma regions_within_spec:
  assumes p: "0 < PAGE_SIZE u" and l: "laid_out u d" and small: "layout_end u d < 2 ^ 32" and a: "a \<in> set (areas d)"
  shows "region d a \<subseteq> {0..<unat (used_mem_size d)}"
proof -
  have "unat (used_mem_size d) = layout_end u d"
    using l small unat_of_nat_u32[OF small] by (simp add: laid_out_def Let_def layout_end_def)
  moreover have "layout_base u d \<le> layout_end u d" by (simp add: layout_end_def)
  ultimately show ?thesis using a fixed_regions[OF p small] client_region_bounds[OF l small] by (fastforce simp: areas_def)
qed


definition demo_dt :: "u32 \<Rightarrow> u32 \<Rightarrow> of_node" where
  "demo_dt te qe = \<lparr>
     of_property_read_u32 = (\<lambda>name. if name = ''qcom,hw-fence-table-entries'' then Inr te
        else if name = ''qcom,hw-fence-queue-entries'' then Inr qe else Inl EINVAL),
     of_property_read_u32_array = (\<lambda>name n. Inl EINVAL),
     of_property_read_bool = (\<lambda>name. False),
     of_property_count_u32_elems = (\<lambda>name. -22)\<rparr>"

lemmas dt_eval_defs = parse_client_queue_dt_props_indv_def read_client_queue_props_def parse_client_queue_dt_props_extra_def
  compute_mem_size_def demo_dt_def type_desc_def layout_consts hw_fence_consts sub64_def PAGE_ALIGN_def
  HW_FENCE_HFI_CLIENT_HEADERS_SIZE_def HW_FENCE_CLIENT_QUEUE_PAYLOAD_def

lemma demo_indv:
  assumes "n \<le> m"
  shows "parse_client_queue_dt_props_indv demo_uapi (demo_dt te 3) 3 (type_desc name i m n 2 s) =
    (Inr (), (type_desc name i m n 2 s)\<lparr>td_queue_entries := 3, td_mem_size := 4096\<rparr>)"
  "parse_client_queue_dt_props_indv demo_uapi (demo_dt te 3) 3 (type_desc name i m n 1 s) =
    (Inr (), (type_desc name i m n 1 s)\<lparr>td_queue_entries := 3, td_mem_size := 4096\<rparr>)"
  using assms by (simp_all add: dt_eval_defs demo_uapi_def not_less)

definition demo_types :: "hw_fence_client_type_desc list" where
  "demo_types = map (\<lambda>desc. desc\<lparr>td_queue_entries := 3, td_mem_size := 4096\<rparr>) (hw_fence_client_types_init demo_uapi)"

lemma parse_types_static:
  assumes "\<forall>desc\<in>set types. parse_client_queue_dt_props_indv u dt e desc = (Inr (), f desc)"
    and "\<forall>k<length types. 3 \<le> i + k \<longrightarrow> td_clients_num (f (types ! k)) = 0"
  shows "parse_client_types u dt e i types rxq conf = (Inr (), rxq, conf, map f types)"
  using assms
proof (induction types arbitrary: i)
  case (Cons desc types)
  have "parse_client_types u dt e (Suc i) types rxq conf = (Inr (), rxq, conf, map f types)"
    using Cons.prems by (intro Cons.IH) (auto dest: spec[of _ "Suc _"])
  moreover have "3 \<le> i \<longrightarrow> td_clients_num (f desc) = 0" using Cons.prems(2) by fastforce
  ultimately show ?case using Cons.prems(1) by (auto simp: Let_def layout_consts)
qed simp

definition demo_desc :: "hw_fence_client_type_desc \<Rightarrow> hw_fence_client_type_desc" where
  "demo_desc desc = desc\<lparr>td_queue_entries := 3, td_mem_size := 4096\<rparr>"

lemma demo_parse_types:
  "parse_client_types demo_uapi (demo_dt te 3) 3 0 (hw_fence_client_types_init demo_uapi) r 0
     = (Inr (), r, 0, map demo_desc (hw_fence_client_types_init demo_uapi))"
proof (rule parse_types_static)
  show "\<forall>desc\<in>set (hw_fence_client_types_init demo_uapi).
      parse_client_queue_dt_props_indv demo_uapi (demo_dt te 3) 3 desc = (Inr (), demo_desc desc)"
    unfolding hw_fence_client_types_init_def demo_desc_def by (simp add: demo_indv)
  have "td_clients_num (demo_desc (hw_fence_client_types_init demo_uapi ! k)) = 0" if "3 \<le> k" "k < 13" for k
    using that lt_13[of k] by (auto simp: hw_fence_client_types_init_def demo_desc_def type_desc_def)
  then show "\<forall>k<length (hw_fence_client_types_init demo_uapi). 3 \<le> 0 + k \<longrightarrow>
      td_clients_num (demo_desc (hw_fence_client_types_init demo_uapi ! k)) = 0"
    by (simp add: hw_fence_client_types_init_def)
qed

lemma demo_uapi_ok: "uapi_ok demo_uapi"
proof -
  have "CLIENT_ID_IFE demo_uapi ! k = 15 + of_nat (2 + k) * MAX_SIGNAL_PER_CLIENT demo_uapi" if "k < 8" for k
  proof -
    have "k \<in> {0, 1, 2, 3, 4, 5, 6, 7}" using that by (simp, presburger)
    then show ?thesis by (auto simp: demo_uapi_def)
  qed
  then show ?thesis unfolding uapi_ok_def by (simp add: demo_uapi_def)
qed

lemma demo_dt_reads [simp]:
  "of_property_read_u32 (demo_dt te qe) ''qcom,hw-fence-table-entries'' = Inr te"
  "of_property_read_u32 (demo_dt te qe) ''qcom,hw-fence-queue-entries'' = Inr qe"
  by (simp_all add: demo_dt_def)

lemma demo_headers: "HFI_TABLE_HEADER_SIZE demo_uapi = 24" "HFI_QUEUE_HEADER_SIZE demo_uapi = 64" "PAGE_SIZE demo_uapi = 4096"
  by (simp_all add: demo_uapi_def)

definition demo_parse :: "u32 \<Rightarrow> ((errno + unit) \<times> hw_fence_driver_data) option" where
  "demo_parse te = hw_fence_utils_parse_dt_props demo_uapi (demo_dt te 3) True True (hw_fence_client_types_init demo_uapi) (demo_driver [])"

lemma demo_slots:
  "client_slots (map demo_desc (hw_fence_client_types_init demo_uapi)) = (0, 0) # map (\<lambda>j. (1, j)) [0..<6] @ map (\<lambda>j. (2, j)) [0..<7]"
  by (simp add: client_slots_def hw_fence_client_types_init_def demo_desc_def type_desc_def)

lemma demo_parse_clients:
  assumes "hw_fence_queue_entries d = 3"
  shows "\<exists>d'. parse_client_queue_dt_props demo_uapi (demo_dt te 3) True (hw_fence_client_types_init demo_uapi) d = Some (Inr (), d')
    \<and> rxq_clients_num d' = 14 \<and> hw_fence_client_types d' = map demo_desc (hw_fence_client_types_init demo_uapi)
    \<and> hw_fence_mem_ctrl_queues_size d' = hw_fence_mem_ctrl_queues_size d
    \<and> hw_fence_mem_fences_table_size d' = hw_fence_mem_fences_table_size d \<and> laid_out demo_uapi d'"
proof -
  obtain r d' where p: "parse_client_queue_dt_props demo_uapi (demo_dt te 3) True (hw_fence_client_types_init demo_uapi) d = Some (r, d')"
    "hw_fence_mem_ctrl_queues_size d' = hw_fence_mem_ctrl_queues_size d"
    "hw_fence_mem_fences_table_size d' = hw_fence_mem_fences_table_size d" "r = Inr () \<Longrightarrow> laid_out demo_uapi d'"
    using parse_client_queue_spec[OF demo_uapi_ok, of "demo_dt te 3" True d] by blast
  have "HW_FENCE_MIN_RXQ_CLIENTS demo_uapi = 14" by (simp add: HW_FENCE_MIN_RXQ_CLIENTS_def demo_uapi_def)
  then have "r = Inr () \<and> rxq_clients_num d' = 14 \<and> hw_fence_client_types d' = map demo_desc (hw_fence_client_types_init demo_uapi)"
    using p(1) by (auto simp: parse_client_queue_dt_props_def demo_parse_types assms Let_def bind_Some_iff)
  with p show ?thesis by simp
qed

lemma demo_parse_ok:
  assumes "te \<noteq> 0" "unat te < 26843545"
  shows "\<exists>d'. demo_parse te = Some (Inr (), d') \<and> laid_out demo_uapi d' \<and> rxq_clients_num d' = 14
    \<and> hw_fence_client_types d' = map demo_desc (hw_fence_client_types_init demo_uapi)
    \<and> hw_fence_mem_ctrl_queues_size d' = 296 \<and> unat (hw_fence_mem_fences_table_size d') = 160 * unat te"
proof -
  define d1 where "d1 = (demo_driver [])\<lparr>hw_fence_table_entries := te, hw_fence_mem_fences_table_size := of_nat (160 * unat te),
    hw_fence_queue_entries := 3, hw_fence_ctrl_queue_size := 72, hw_fence_mem_ctrl_queues_size := 296\<rparr>"
  obtain d2 where d2: "parse_client_queue_dt_props demo_uapi (demo_dt te 3) True (hw_fence_client_types_init demo_uapi) d1 = Some (Inr (), d2)"
    "rxq_clients_num d2 = 14" "hw_fence_client_types d2 = map demo_desc (hw_fence_client_types_init demo_uapi)"
    "hw_fence_mem_ctrl_queues_size d2 = 296" "hw_fence_mem_fences_table_size d2 = of_nat (160 * unat te)" "laid_out demo_uapi d2"
    using demo_parse_clients[of d1 te] by (auto simp: d1_def)
  have "demo_parse te = Some (Inr (), d2\<lparr>clients := replicate (unat (clients_num d2)) None\<rparr>)"
    using assms d2(1)[unfolded d1_def]
    by (simp add: demo_parse_def hw_fence_utils_parse_dt_props_def Let_def U32_MAX_def sizeof_msm_hw_fence_def
        HW_FENCE_CTRL_QUEUE_PAYLOAD_def sub64_def HW_FENCE_HFI_CTRL_HEADERS_SIZE_def hw_fence_consts demo_headers)
  moreover have "unat (hw_fence_mem_fences_table_size d2) = 160 * unat te"
    unfolding d2(5) using assms(2) by (intro unat_of_nat_u32) simp
  moreover have "laid_out demo_uapi (d2\<lparr>clients := x\<rparr>)" for x using d2(6) by (simp add: laid_out_def layout_base_def)
  ultimately show ?thesis using d2(2-4) by auto
qed

lemma demo_layout:
  assumes "laid_out demo_uapi d" "hw_fence_client_types d = map demo_desc (hw_fence_client_types_init demo_uapi)"
    "rxq_clients_num d = 14" "hw_fence_mem_ctrl_queues_size d = 296" "unat (hw_fence_mem_fences_table_size d) = 160 * te"
  defines "base \<equiv> PAGE_ALIGN demo_uapi (408 + 160 * te)"
  shows "layout_end demo_uapi d = base + 57344" "used_mem_size d = of_nat (base + 57344)" "unat (clients_num d) = 15"
    "region d (HW_FENCE_MEM_RESERVE_CLIENT_QUEUE, 1) = {unat (of_nat base :: u32)..<unat (of_nat base :: u32) + 4096}"
proof -
  let ?t = "map demo_desc (hw_fence_client_types_init demo_uapi)"
  have b: "layout_base demo_uapi d = base"
    using assms(3-5) by (simp add: layout_base_def base_def HW_FENCE_MEM_LOCKS_SIZE_def)
  have m: "slot_mem ?t s = 4096" if "s \<in> set (client_slots ?t)" for s
  proof -
    have "fst s < length (hw_fence_client_types_init demo_uapi)" using that client_slots_iff[of "fst s" "snd s" ?t] by simp
    then show ?thesis by (simp add: slot_mem_def demo_desc_def)
  qed
  have "map (slot_mem ?t) (client_slots ?t) = map (\<lambda>_. 4096) (client_slots ?t)" using m by (intro map_cong) simp_all
  then have "map (slot_mem ?t) (client_slots ?t) = replicate 14 4096" by (simp only: map_replicate_const) (simp add: demo_slots)
  then have s: "sum_list (map (slot_mem ?t) (client_slots ?t)) = 57344" by (simp add: sum_list_replicate)
  show "layout_end demo_uapi d = base + 57344" by (simp add: layout_end_def b assms(2) s)
  show "used_mem_size d = of_nat (base + 57344)" using assms(1) by (simp add: laid_out_def Let_def assms(2) b s)
  have "conf_clients ?t = 0" by (simp add: conf_clients_def n_clients_def hw_fence_client_types_init_def demo_desc_def type_desc_def)
  then show n: "unat (clients_num d) = 15" using assms(1) by (simp add: laid_out_def Let_def assms(2) first_id_def conf_clients_def del: upt_Suc)
  have "hw_fence_client_queue_size d ! slot_id ?t (client_slots ?t ! 0) = \<lparr>cqd_type = Some (fst (client_slots ?t ! 0)),
      cqd_start_offset = of_nat (base + sum_list (map (slot_mem ?t) (take 0 (client_slots ?t))))\<rparr>"
  proof -
    have "0 < length (client_slots ?t)" by (simp add: demo_slots)
    then show ?thesis using assms(1) unfolding laid_out_def Let_def assms(2) b by blast
  qed
  then have "hw_fence_client_queue_size d ! 1 = \<lparr>cqd_type = Some 0, cqd_start_offset = of_nat base\<rparr>"
    by (simp add: demo_slots slot_id_def first_id_def)
  moreover have "length (hw_fence_client_queue_size d) = 15" using assms(1) n by (simp add: laid_out_def Let_def)
  ultimately show "region d (HW_FENCE_MEM_RESERVE_CLIENT_QUEUE, 1) = {unat (of_nat base :: u32)..<unat (of_nat base :: u32) + 4096}"
    using n by (simp add: region_def reserve_range_def assms(2) hw_fence_client_types_init_def demo_desc_def)
qed


text \<open>C26: whatever the device tree says, if the properties are accepted and the areas add up to less than
  4 GiB, then the control queues, the locks, the fence table and the queues of the different
  clients occupy pairwise disjoint parts of the carved-out memory, all below \<open>used_mem_size\<close>.\<close>

theorem layout_disjoint:
  assumes "uapi_ok u" and "of_property_read_u32 dt ''qcom,hw-fence-table-entries'' = Inr te" and "te \<noteq> 0"
    and "of_property_read_u32 dt ''qcom,hw-fence-queue-entries'' = Inr qe" and "qe \<noteq> 0"
    and "hw_fence_utils_parse_dt_props u dt a1 a2 (hw_fence_client_types_init u) d = Some (Inr (), d')"
    and "layout_end u d' < 2 ^ 32"
  shows "(\<forall>a\<in>set (areas d'). \<forall>b\<in>set (areas d'). a \<noteq> b \<longrightarrow> region d' a \<inter> region d' b = {})
    \<and> (\<forall>a\<in>set (areas d'). region d' a \<subseteq> {0..<unat (used_mem_size d')})"
proof -
  have l: "laid_out u d'" using parse_dt_props_spec[OF assms(1-5), of a1 a2 d] assms(6) by auto
  have "0 < PAGE_SIZE u" using assms(1) by (simp add: uapi_ok_def)
  with l assms(7) show ?thesis using regions_disjoint_spec regions_within_spec by blast
qed

theorem layout_disjoint_witness:
  "\<exists>d'. demo_parse 4 = Some (Inr (), d') \<and> used_mem_size d' = 61440 \<and> length (areas d') = 18
    \<and> (\<forall>a\<in>set (areas d'). \<forall>b\<in>set (areas d'). a \<noteq> b \<longrightarrow> region d' a \<inter> region d' b = {})"
proof -
  obtain d' where d: "demo_parse 4 = Some (Inr (), d')" "laid_out demo_uapi d'" "rxq_clients_num d' = 14"
    "hw_fence_client_types d' = map demo_desc (hw_fence_client_types_init demo_uapi)"
    "hw_fence_mem_ctrl_queues_size d' = 296" "unat (hw_fence_mem_fences_table_size d') = 160 * 4"
    using demo_parse_ok[of 4] by auto
  have "PAGE_ALIGN demo_uapi (408 + 160 * 4) = 4096" by (simp add: PAGE_ALIGN_def demo_headers)
  with demo_layout[OF d(2,4,3,5,6)] have e: "layout_end demo_uapi d' < 2 ^ 32" "used_mem_size d' = 61440" "unat (clients_num d') = 15"
    by simp_all
  have "length (areas d') = 18" by (simp add: areas_def e(3))
  with d(1) e layout_disjoint[OF demo_uapi_ok demo_dt_reads(1) _ demo_dt_reads(2) _ d(1)[unfolded demo_parse_def] e(1)]
  show ?thesis by auto
qed

text \<open>the overflow checks of the device-tree parser do not cover the sum of the areas. A table of 26843544
  entries is accepted although the table alone ends 152 bytes above 4 GiB: the 32-bit offset
  of the clients' queues wraps around, so that the table overlaps them, \<open>used_mem_size\<close> is 60 KiB,
  and the reservation of the table in a carve-out of 60 KiB succeeds with a size of nearly 4 GiB.\<close>

theorem layout_overflow:
  "\<exists>dt d'. hw_fence_utils_parse_dt_props demo_uapi dt True True (hw_fence_client_types_init demo_uapi) (demo_driver []) = Some (Inr (), d')
    \<and> of_property_read_u32 dt ''qcom,hw-fence-table-entries'' = Inr 26843544
    \<and> used_mem_size d' = 61440
    \<and> region d' (HW_FENCE_MEM_RESERVE_TABLE, 0) \<inter> region d' (HW_FENCE_MEM_RESERVE_CLIENT_QUEUE, 1) \<noteq> {}
    \<and> (\<exists>phys ptr. hw_fence_utils_reserve_mem (d'\<lparr>carveout_size := 61440\<rparr>) HW_FENCE_MEM_RESERVE_TABLE 0 = Some (Inr (phys, ptr, 0xFFFFFF00)))"
proof -
  obtain d' where d: "demo_parse 26843544 = Some (Inr (), d')" "laid_out demo_uapi d'" "rxq_clients_num d' = 14"
    "hw_fence_client_types d' = map demo_desc (hw_fence_client_types_init demo_uapi)"
    "hw_fence_mem_ctrl_queues_size d' = 296" "unat (hw_fence_mem_fences_table_size d') = 160 * 26843544"
    using demo_parse_ok[of 26843544] by auto
  have "PAGE_ALIGN demo_uapi (408 + 160 * 26843544) = 4294971392" by (simp add: PAGE_ALIGN_def demo_headers)
  with demo_layout[OF d(2,4,3,5,6)] have e: "used_mem_size d' = 61440"
    "region d' (HW_FENCE_MEM_RESERVE_CLIENT_QUEUE, 1) = {4096..<8192}" by simp_all
  have t: "hw_fence_mem_fences_table_size d' = 0xFFFFFF00" using d(6) by (intro unat_inj) simp
  have "region d' (HW_FENCE_MEM_RESERVE_TABLE, 0) = {408..<4294967448}"
    by (simp add: region_def reserve_range_def t d(3,5) HW_FENCE_MEM_LOCKS_SIZE_def)
  then have "4096 \<in> region d' (HW_FENCE_MEM_RESERVE_TABLE, 0) \<inter> region d' (HW_FENCE_MEM_RESERVE_CLIENT_QUEUE, 1)" using e(2) by simp
  moreover have "hw_fence_utils_reserve_mem (d'\<lparr>carveout_size := 61440\<rparr>) HW_FENCE_MEM_RESERVE_TABLE 0 =
      Some (Inr (res_start d' + 408, io_mem_base d' + 408, 0xFFFFFF00))"
    by (simp add: hw_fence_utils_reserve_mem_def reserve_range_def t d(3,5) HW_FENCE_MEM_LOCKS_SIZE_def)
  ultimately show ?thesis using d(1) e(1) unfolding demo_parse_def
    by (intro exI[of _ "demo_dt 26843544 3"] exI[of _ d']) auto
qed


section \<open>Properties of ids and memory sizes\<close>

text \<open>the ids of the configured clients are renumbered without collision: two different external ids in
  use get different internal ids, all of them at least 1 and below \<open>clients_num\<close>; an id of a
  configurable type beyond the configured number is refused with \<open>HW_FENCE_CLIENT_MAX\<close>.\<close>

theorem client_ids_correct:
  assumes "uapi_ok u" and "of_property_read_u32 dt ''qcom,hw-fence-table-entries'' = Inr te" and "te \<noteq> 0"
    and "of_property_read_u32 dt ''qcom,hw-fence-queue-entries'' = Inr qe" and "qe \<noteq> 0"
    and "hw_fence_utils_parse_dt_props u dt a1 a2 (hw_fence_client_types_init u) d = Some (Inr (), d')"
    and "types = hw_fence_client_types d'"
    and "priv = (\<lambda>(i, j). hw_fence_utils_get_client_id_priv u types (td_init_id (types ! i) + of_nat j))"
  shows "inj_on priv (set (client_slots types))
    \<and> (\<forall>s\<in>set (client_slots types). \<exists>c. priv s = Some c \<and> 0 < c \<and> c < clients_num d')
    \<and> (\<forall>k<10. \<forall>j. unat (td_clients_num (types ! (3 + k))) \<le> j \<and> j < unat (MAX_SIGNAL_PER_CLIENT u) \<longrightarrow> priv (3 + k, j) = Some (CLIENT_MAX u))"
proof -
  have "laid_out u d'" using parse_dt_props_spec[OF assms(1-5), of a1 a2 d] assms(6) by auto
  then have t: "types_ok u types" and n: "unat (clients_num d') = first_id types 13"
    using assms(7) by (simp_all add: laid_out_def Let_def)
  have p: "priv s = Some (of_nat (slot_id types s))" "0 < slot_id types s" "slot_id types s < first_id types 13" "first_id types 13 < 2 ^ 32"
    if "s \<in> set (client_slots types)" for s
    using get_client_id_priv_slot[OF assms(1) t, of "fst s" "snd s"] slot_id_bound[OF t that] that n[symmetric] entries_bound[of "clients_num d'"]
    by (auto simp: assms(8) slot_id_def first_id_def case_prod_beta)
  then have w: "unat (of_nat (slot_id types s) :: u32) = slot_id types s" if "s \<in> set (client_slots types)" for s
    using that by (intro unat_of_nat_u32) (meson less_trans)
  have "inj_on (slot_id types) (set (client_slots types))"
    using distinct_slot_ids[OF t] by (simp add: distinct_map)
  then have "inj_on priv (set (client_slots types))"
    using p(1) w unfolding inj_on_def by (metis option.inject)
  moreover have "\<exists>c. priv s = Some c \<and> 0 < c \<and> c < clients_num d'" if "s \<in> set (client_slots types)" for s
    using p[OF that] w[OF that] by (intro exI[of _ "of_nat (slot_id types s)"]) (simp add: word_less_nat_alt n)
  moreover have "priv (3 + k, j) = Some (CLIENT_MAX u)"
    if "k < 10" "unat (td_clients_num (types ! (3 + k))) \<le> j" "j < unat (MAX_SIGNAL_PER_CLIENT u)" for k j
    using config_client_id[OF assms(1) t that(1,3)] that(2) by (simp add: assms(8) n_clients_def)
  ultimately show ?thesis by blast
qed

theorem client_ids_correct_witness:
  "\<exists>d' c. demo_parse 4 = Some (Inr (), d')
    \<and> hw_fence_utils_get_client_id_priv demo_uapi (hw_fence_client_types d') 3 = Some c \<and> c < clients_num d'"
proof -
  obtain d' where d: "demo_parse 4 = Some (Inr (), d')"
    "hw_fence_client_types d' = map demo_desc (hw_fence_client_types_init demo_uapi)"
    using demo_parse_ok[of 4] by auto
  have s: "(1, 1) \<in> set (client_slots (hw_fence_client_types d'))" by (simp add: d(2) demo_slots)
  have "td_init_id (hw_fence_client_types d' ! 1) = 2"
    by (simp add: d(2) demo_desc_def hw_fence_client_types_init_def type_desc_def demo_uapi_def)
  moreover have "\<forall>s\<in>set (client_slots (hw_fence_client_types d')). \<exists>c. (\<lambda>(i, j). hw_fence_utils_get_client_id_priv demo_uapi
      (hw_fence_client_types d') (td_init_id (hw_fence_client_types d' ! i) + of_nat j)) s = Some c \<and> 0 < c \<and> c < clients_num d'"
    using client_ids_correct[OF demo_uapi_ok demo_dt_reads(1) _ demo_dt_reads(2) _ d(1)[unfolded demo_parse_def] refl refl] by simp
  from bspec[OF this s] obtain c where "hw_fence_utils_get_client_id_priv demo_uapi (hw_fence_client_types d')
      (td_init_id (hw_fence_client_types d' ! 1) + 1) = Some c" "c < clients_num d'" by auto
  ultimately show ?thesis using d(1) by auto
qed

text \<open>the memory reserved for a client of an accepted type holds its headers, its paddings and all its
  queues, ends on a page boundary and is at most 1 MiB, provided the paddings do not reach the
  last page of the 32-bit range.\<close>

theorem client_memory_fits:
  assumes "0 < PAGE_SIZE u" and "parse_client_queue_dt_props_indv u dt entries desc = (Inr (), desc')"
    and "headers_bytes u desc' \<le> U32_MAX div PAGE_SIZE u * PAGE_SIZE u"
  shows "headers_bytes u desc' + unat (td_queues_num desc') * queue_bytes desc' \<le> unat (td_mem_size desc')
    \<and> PAGE_SIZE u dvd unat (td_mem_size desc') \<and> unat (td_mem_size desc') \<le> 2 ^ 20
    \<and> td_clients_num desc' \<le> td_max_clients_num desc \<and> unat (td_queues_num desc') \<in> {1, 2} \<and> td_queue_entries desc' \<noteq> 0"
proof -
  have ok: "type_ok u desc'" using parse_indv_spec[OF assms(2,1)] assms(3) by (simp add: pads_fit_def)
  then have "unat (td_queues_num desc') \<noteq> 0" "unat (td_queues_num desc') \<le> 2"
    by (auto simp: type_ok_def unat_eq_zero)
  then have q: "unat (td_queues_num desc') \<in> {1, 2}" by auto
  have "unat (td_mem_size desc') = PAGE_ALIGN u (headers_bytes u desc' + unat (td_queues_num desc') * queue_bytes desc')"
    "unat (td_mem_size desc') \<le> MAX_CLIENT_QUEUE_MEM_SIZE" "td_queue_entries desc' \<noteq> 0" using ok by (simp_all add: type_ok_def)
  moreover have "PAGE_SIZE u dvd PAGE_ALIGN u x" for x by (simp add: PAGE_ALIGN_def)
  moreover have "MAX_CLIENT_QUEUE_MEM_SIZE = 2 ^ 20" by (simp add: MAX_CLIENT_QUEUE_MEM_SIZE_def)
  moreover have "td_clients_num desc' \<le> td_max_clients_num desc" using parse_indv_same_type[OF assms(2)] by (simp add: same_type_def)
  ultimately show ?thesis using q PAGE_ALIGN_ge[OF assms(1), of "headers_bytes u desc' + unat (td_queues_num desc') * queue_bytes desc'"]
    by presburger
qed

theorem client_memory_fits_witness:
  "unat (td_mem_size (demo_desc (type_desc ''gpu'' 1 1 1 2 False))) = 4096
   \<and> headers_bytes demo_uapi (demo_desc (type_desc ''gpu'' 1 1 1 2 False)) + 2 * (64 * 3) \<le> 4096"
proof -
  have "headers_bytes demo_uapi (demo_desc (type_desc ''gpu'' 1 1 1 2 False)) \<le> U32_MAX div PAGE_SIZE demo_uapi * PAGE_SIZE demo_uapi"
    by (simp add: headers_bytes_def demo_desc_def type_desc_def demo_headers HW_FENCE_HFI_CLIENT_HEADERS_SIZE_def U32_MAX_def)
  from client_memory_fits[OF _ demo_indv(1)[of 1 1 4 "''gpu''" 1 False, folded demo_desc_def] this] show ?thesis
    by (simp add: demo_headers demo_desc_def type_desc_def queue_bytes_def HW_FENCE_CLIENT_QUEUE_PAYLOAD_def)
qed

text \<open>Without that proviso the check that guards the size wraps around: a start padding of \<open>0xfffff000\<close> is
  accepted, and the client gets no memory at all.\<close>

lemma padding_overflow:
  "compute_mem_size demo_uapi ((type_desc ''ipe'' 15 32 1 2 False)\<lparr>td_queue_entries := 1, td_start_padding := 0xfffff000\<rparr>)
     = (Inr (), (type_desc ''ipe'' 15 32 1 2 False)\<lparr>td_queue_entries := 1, td_start_padding := 0xfffff000, td_mem_size := 0\<rparr>)
   \<and> check_extra_props demo_uapi False ((type_desc ''ipe'' 15 32 1 2 False)\<lparr>td_queue_entries := 1, td_start_padding := 0xfffff000\<rparr>) = Inr ()"
  by (simp add: compute_mem_size_def check_extra_props_def type_desc_def demo_headers HW_FENCE_HFI_CLIENT_HEADERS_SIZE_def U32_MAX_def
      HW_FENCE_CLIENT_QUEUE_PAYLOAD_def sub64_def PAGE_ALIGN_def MAX_CLIENT_QUEUE_MEM_SIZE_def)


section \<open>Freshly initialised queues\<close>

text \<open>Zeroed memory for a queue of \<open>n\<close> entries.\<close>

definition blank :: "nat \<Rightarrow> hfi_queue_header \<times> u32 list \<Rightarrow> bool" where
  "blank n m \<longleftrightarrow> qh_read_index (fst m) = 0 \<and> qh_write_index (fst m) = 0 \<and> qh_tx_wm (fst m) = 0 \<and> length (snd m) = 16 * n"

lemma init_queue_fresh:
  assumes m: "blank n m" and n: "0 < n" "unat (qp_queue_size p) = 64 * n"
    and f: "unat (qp_txq_idx_factor p) \<in> {1, 16}"
  shows "queue_wf (init_queue p phys i m) \<and> q_entries (init_queue p phys i m) = n \<and> queue_contents (init_queue p phys i m) = []"
proof -
  let ?q = "init_queue p phys i m"
  have tr: "enc_idx ?q 0 = (if IS_HW_FENCE_TX_QUEUE i then qp_txq_idx_start p else 0)"
    using f by (auto simp: enc_idx_def REQUIRES_IDX_TRANSLATION_def IDX_TRANSLATE_DEFAULT_TO_CUSTOM_def word_slot_def init_queue_def Let_def)
  have "queue_ok ?q n 0 0"
    using m n f tr by (auto simp: queue_ok_def blank_def factor_ok_def wr_ptr_get_def init_queue_def Let_def)
  then show ?thesis using queue_wfI queue_okD[of ?q n 0 0] queue_contents_eq[of ?q n 0 0] n by (simp add: ring_def)
qed

lemma init_queues_InrE:
  assumes "init_hw_fences_queues u d type n cl mem = Some (Inr (ma, qs))"
  obtains p phys ptr sz where "queue_params_of u d type n cl = Some (Inr p)"
    "hw_fence_utils_reserve_mem d type cl = Some (Inr (phys, ptr, sz))"
    "ma = \<lparr>ma_virtual_addr = ptr, ma_device_addr = phys, ma_size = sz\<rparr>" "qs = map (\<lambda>i. init_queue p phys i (mem ! i)) [0..<n]"
proof -
  obtain pr where pr: "queue_params_of u d type n cl = Some pr"
    using assms by (auto simp: init_hw_fences_queues_def bind_Some_iff)
  then obtain p where p: "queue_params_of u d type n cl = Some (Inr p)"
    using assms by (cases pr) (auto simp: init_hw_fences_queues_def)
  then obtain r where "hw_fence_utils_reserve_mem d type cl = Some r"
    using assms by (auto simp: init_hw_fences_queues_def bind_Some_iff)
  then obtain x where x: "hw_fence_utils_reserve_mem d type cl = Some (Inr x)"
    using assms p by (cases r) (auto simp: init_hw_fences_queues_def)
  show thesis using assms p x that by (cases x) (auto simp: init_hw_fences_queues_def split: if_splits)
qed

lemma alloc_client_InrE:
  assumes "hw_fence_alloc_client_resources u d cid mem = Some (Inr ma, d')" and c: "get_client d cid = Some c"
    and t: "cqd_type (hw_fence_client_queue_size d ! unat (cl_client_id c)) = Some t"
  obtains qs where "unat (cl_client_id c) < length (hw_fence_client_queue_size d)" "t < length (hw_fence_client_types d)"
    "init_hw_fences_queues u d HW_FENCE_MEM_RESERVE_CLIENT_QUEUE (unat (td_queues_num (hw_fence_client_types d ! t)))
       (unat (cl_client_id c)) mem = Some (Inr (ma, qs))"
    "d' = set_client cid (c\<lparr>cl_mem_descriptor := ma, cl_queues := qs @ drop (length qs) (cl_queues c)\<rparr>) d"
proof -
  obtain r where r: "unat (cl_client_id c) < length (hw_fence_client_queue_size d)" "t < length (hw_fence_client_types d)"
    "init_hw_fences_queues u d HW_FENCE_MEM_RESERVE_CLIENT_QUEUE (unat (td_queues_num (hw_fence_client_types d ! t)))
       (unat (cl_client_id c)) mem = Some r"
    "(case r of Inl e \<Rightarrow> (Inl e, d) | Inr (ma, qs) \<Rightarrow> (Inr ma, set_client cid (c\<lparr>cl_mem_descriptor := ma,
       cl_queues := qs @ drop (length qs) (cl_queues c)\<rparr>) d)) = (Inr ma, d')"
    using assms by (auto simp: hw_fence_alloc_client_resources_def bind_Some_iff idx_eq_Some_iff)
  from r(4) obtain qs where "r = Inr (ma, qs)"
      "d' = set_client cid (c\<lparr>cl_mem_descriptor := ma, cl_queues := qs @ drop (length qs) (cl_queues c)\<rparr>) d"
    by (auto split: sum.split_asm)
  with r that show thesis by simp
qed

lemma fresh_queues_spec:
  assumes "hw_fence_alloc_client_resources u d cid mem = Some (Inr ma, d')" and "get_client d cid = Some c"
    and "cqd_type (hw_fence_client_queue_size d ! unat (cl_client_id c)) = Some t" and "desc = hw_fence_client_types d ! t"
    and "type_ok u desc" and "unat (td_txq_idx_factor desc) \<in> {0, 1, 16}" and "0 < PAGE_SIZE u"
    and "\<forall>i<unat (td_queues_num desc). blank (unat (td_queue_entries desc)) (mem ! i)"
  shows "\<exists>qs. get_client d' cid = Some (c\<lparr>cl_mem_descriptor := ma, cl_queues := qs @ drop (length qs) (cl_queues c)\<rparr>) \<and> length qs = unat (td_queues_num desc)
    \<and> (\<forall>i<length qs. queue_wf (qs ! i) \<and> queue_contents (qs ! i) = [] \<and> q_entries (qs ! i) = unat (td_queue_entries desc)
        \<and> q_pa_queue (qs ! i) = ma_device_addr ma + of_nat (headers_bytes u desc + i * queue_bytes desc))
    \<and> headers_bytes u desc + length qs * queue_bytes desc \<le> unat (ma_size ma)"
proof -
  let ?n = "unat (td_queues_num desc)" and ?cl = "unat (cl_client_id c)"
  have qb: "queue_bytes desc < 2 ^ 32" "0 < unat (td_queue_entries desc)" "?n \<le> 2"
    "unat (td_mem_size desc) = PAGE_ALIGN u (headers_bytes u desc + ?n * queue_bytes desc)"
    using assms(5) by (auto simp: type_ok_def unat_gt_0)
  obtain qs0 where cq: "?cl < length (hw_fence_client_queue_size d)" and tl: "t < length (hw_fence_client_types d)"
    and iq: "init_hw_fences_queues u d HW_FENCE_MEM_RESERVE_CLIENT_QUEUE ?n ?cl mem = Some (Inr (ma, qs0))"
    and d': "d' = set_client cid (c\<lparr>cl_mem_descriptor := ma, cl_queues := qs0 @ drop (length qs0) (cl_queues c)\<rparr>) d"
    using alloc_client_InrE[OF assms(1-3)] assms(4) by blast
  obtain p phys ptr sz where p: "queue_params_of u d HW_FENCE_MEM_RESERVE_CLIENT_QUEUE ?n ?cl = Some (Inr p)"
    and r: "hw_fence_utils_reserve_mem d HW_FENCE_MEM_RESERVE_CLIENT_QUEUE ?cl = Some (Inr (phys, ptr, sz))"
    and ma: "ma = \<lparr>ma_virtual_addr = ptr, ma_device_addr = phys, ma_size = sz\<rparr>"
    and qs0: "qs0 = map (\<lambda>i. init_queue p phys i (mem ! i)) [0..<?n]"
    using iq by (rule init_queues_InrE)
  have pp: "p = \<lparr>qp_headers_size = headers_bytes u desc, qp_queue_size = of_nat (queue_bytes desc), qp_payload_size = HW_FENCE_CLIENT_QUEUE_PAYLOAD,
      qp_txq_idx_start = td_txq_idx_start desc, qp_txq_idx_factor = (if td_txq_idx_factor desc \<noteq> 0 then td_txq_idx_factor desc else 1),
      qp_skip_txq_wr_idx = td_skip_txq_wr_idx desc\<rparr>"
    using p cq tl assms(3,4) by (auto simp: queue_params_of_def headers_bytes_def queue_bytes_def split: if_splits)
  have sz: "sz = td_mem_size desc"
    using r cq tl assms(3,4) by (auto simp: hw_fence_utils_reserve_mem_def reserve_range_def split: if_splits)
  have qs: "unat (qp_queue_size p) = 64 * unat (td_queue_entries desc)"
    using qb(1) by (simp add: pp unat_of_nat_u32) (simp add: queue_bytes_def HW_FENCE_CLIENT_QUEUE_PAYLOAD_def)
  have f: "unat (qp_txq_idx_factor p) \<in> {1, 16}" using assms(6) by (auto simp: pp unat_eq_zero)
  have tot: "headers_bytes u desc + ?n * queue_bytes desc \<le> unat (td_mem_size desc)"
    unfolding qb(4) by (rule PAGE_ALIGN_ge[OF assms(7)])
  have pa: "q_pa_queue (init_queue p phys i m) = phys + of_nat (headers_bytes u desc + i * queue_bytes desc)" if "i < ?n" for i m
  proof -
    have "i * queue_bytes desc \<le> ?n * queue_bytes desc" using that by simp
    then have "headers_bytes u desc + i * queue_bytes desc < 2 ^ 32"
      using tot entries_bound[of "td_mem_size desc"] by linarith
    then have "unat (of_nat (headers_bytes u desc + i * queue_bytes desc) :: u32) = headers_bytes u desc + i * queue_bytes desc"
      by (rule unat_of_nat_u32)
    then have "(ucast (of_nat (headers_bytes u desc + i * queue_bytes desc) :: u32) :: u64) = of_nat (headers_bytes u desc + i * queue_bytes desc)"
      by (metis of_nat_unat)
    moreover have "unat (of_nat (queue_bytes desc) :: u32) = queue_bytes desc" using qb(1) by (rule unat_of_nat_u32)
    ultimately show ?thesis by (simp add: init_queue_def Let_def pp)
  qed
  have "cid < length (clients d)" using assms(2) by (simp add: get_client_Some_iff)
  then have "get_client d' cid = Some (c\<lparr>cl_mem_descriptor := ma,
      cl_queues := map (\<lambda>i. init_queue p phys i (mem ! i)) [0..<?n] @ drop ?n (cl_queues c)\<rparr>)"
    by (simp add: d' qs0)
  moreover note init_queue_fresh[OF _ qb(2) qs f, of _ phys] pa tot sz assms(8)
  ultimately show ?thesis
    by (intro exI[of _ "map (\<lambda>i. init_queue p phys i (mem ! i)) [0..<?n]"]) (simp add: ma)
qed

text \<open>registering a client in zeroed memory gives it empty, well-formed queues of the configured
  length, one after the other behind the headers, inside the memory reserved for the client.\<close>

theorem fresh_queues:
  assumes "hw_fence_alloc_client_resources u d cid mem = Some (Inr ma, d')" and "get_client d cid = Some c"
    and "cqd_type (hw_fence_client_queue_size d ! unat (cl_client_id c)) = Some t" and "desc = hw_fence_client_types d ! t"
    and "type_ok u desc" and "unat (td_txq_idx_factor desc) \<in> {0, 1, 16}" and "0 < PAGE_SIZE u"
    and "\<forall>i<unat (td_queues_num desc). blank (unat (td_queue_entries desc)) (mem ! i)"
  shows "\<exists>qs. get_client d' cid = Some (c\<lparr>cl_mem_descriptor := ma, cl_queues := qs @ drop (length qs) (cl_queues c)\<rparr>) \<and> length qs = unat (td_queues_num desc)
    \<and> (\<forall>i<length qs. queue_wf (qs ! i) \<and> queue_contents (qs ! i) = [] \<and> q_entries (qs ! i) = unat (td_queue_entries desc)
        \<and> q_pa_queue (qs ! i) = ma_device_addr ma + of_nat (headers_bytes u desc + i * queue_bytes desc))
    \<and> headers_bytes u desc + length qs * queue_bytes desc \<le> unat (ma_size ma)"
  using assms by (rule fresh_queues_spec)

definition demo_alloc :: hw_fence_driver_data where
  "demo_alloc = (demo_driver [])\<lparr>hw_fence_client_types := [demo_desc (type_desc ''gpu'' 1 1 1 2 False)],
     hw_fence_client_queue_size := [\<lparr>cqd_type = None, cqd_start_offset = 0\<rparr>, \<lparr>cqd_type = Some 0, cqd_start_offset = 4096\<rparr>],
     clients_num := 2, carveout_size := 61440, clients := [None, Some demo_client]\<rparr>"

definition demo_blank :: "hfi_queue_header \<times> u32 list" where
  "demo_blank = (\<lparr>qh_start_addr = 0, qh_type = 0, qh_queue_size = 0, qh_pkt_size = 0, qh_read_index = 0, qh_write_index = 0,
     qh_tx_wm = 0\<rparr>, replicate 48 0)"

theorem fresh_queues_witness:
  "\<exists>ma d' qs. hw_fence_alloc_client_resources demo_uapi demo_alloc 1 [demo_blank, demo_blank] = Some (Inr ma, d')
    \<and> get_client d' 1 = Some (demo_client\<lparr>cl_mem_descriptor := ma, cl_queues := qs @ drop 2 (cl_queues demo_client)\<rparr>) \<and> length qs = 2 \<and> queue_wf (qs ! 1)"
proof -
  let ?desc = "demo_desc (type_desc ''gpu'' 1 1 1 2 False)"
  have fl: "clients_num demo_alloc = 2" "hw_fence_client_types demo_alloc = [?desc]" "carveout_size demo_alloc = 61440"
    "hw_fence_client_queue_size demo_alloc = [\<lparr>cqd_type = None, cqd_start_offset = 0\<rparr>, \<lparr>cqd_type = Some 0, cqd_start_offset = 4096\<rparr>]"
    "td_queues_num ?desc = 2" "td_mem_size ?desc = 4096"
    by (simp_all add: demo_alloc_def demo_desc_def type_desc_def)
  have c: "get_client demo_alloc 1 = Some demo_client" and id: "unat (cl_client_id demo_client) = 1"
    by (simp_all add: get_client_def demo_alloc_def demo_client_def)
  obtain ma d' where a: "hw_fence_alloc_client_resources demo_uapi demo_alloc 1 [demo_blank, demo_blank] = Some (Inr ma, d')"
    using c by (simp add: hw_fence_alloc_client_resources_def id init_hw_fences_queues_def queue_params_of_def
        hw_fence_utils_reserve_mem_def reserve_range_def fl)
  have "type_ok demo_uapi ?desc"
    using parse_indv_spec[OF demo_indv(1)[of 1 1 4 "''gpu''" 1 False, folded demo_desc_def]]
    by (simp add: demo_headers pads_fit_def headers_bytes_def demo_desc_def type_desc_def HW_FENCE_HFI_CLIENT_HEADERS_SIZE_def U32_MAX_def)
  moreover have "?desc = hw_fence_client_types demo_alloc ! 0"
    "cqd_type (hw_fence_client_queue_size demo_alloc ! unat (cl_client_id demo_client)) = Some 0"
    by (simp_all add: demo_alloc_def id)
  moreover have "\<forall>i<unat (td_queues_num ?desc). blank (unat (td_queue_entries ?desc)) ([demo_blank, demo_blank] ! i)"
  proof (intro allI impI)
    fix i assume "i < unat (td_queues_num ?desc)"
    then have "i = 0 \<or> i = 1" by (simp add: fl less_2_cases_iff)
    moreover have "blank (unat (td_queue_entries ?desc)) demo_blank" by (simp add: blank_def demo_blank_def demo_desc_def type_desc_def)
    ultimately show "blank (unat (td_queue_entries ?desc)) ([demo_blank, demo_blank] ! i)" by auto
  qed
  moreover have "unat (td_txq_idx_factor ?desc) \<in> {0, 1, 16}" "unat (td_queues_num ?desc) = 2" by (simp_all add: demo_desc_def type_desc_def)
  ultimately show ?thesis using fresh_queues[OF a c, of 0 ?desc] a by (auto simp: demo_headers)
qed

end
