(* ===== verification/HwFence_Client.thy ===== *)
theory HwFence_Client
  imports HwFence_Layout
begin

text \<open>
  The interface of the hardware-fence driver to its clients: the IPCC configuration of
  \<^verbatim>\<open>hw_fence_drv_ipc.c\<close>, the exported functions of \<^verbatim>\<open>msm_hw_fence.c\<close>, and the handling of
  doorbells in \<^verbatim>\<open>hw_fence_drv_utils.c\<close>.

  A client handle is the index of the client in \<open>clients\<close>, NULL or an error pointer is
  \<^term>\<open>None\<close>. The driver structure exists; before the driver is probed its
  \<open>resources_ready\<close> is false. \<open>NULL\<close> for \<open>ipc_clients_table\<close> is the empty table.
  Whether an allocation succeeds is an argument.
\<close>

section \<open>IPCC configuration\<close>

definition HW_FENCE_IPC_CLIENT_ID_APPS_VID :: int where "HW_FENCE_IPC_CLIENT_ID_APPS_VID = 8"
definition HW_FENCE_IPC_CLIENT_ID_GPU_VID :: int where "HW_FENCE_IPC_CLIENT_ID_GPU_VID = 9"
definition HW_FENCE_IPC_CLIENT_ID_IPE_VID :: int where "HW_FENCE_IPC_CLIENT_ID_IPE_VID = 11"
definition HW_FENCE_IPC_CLIENT_ID_VPU_VID :: int where "HW_FENCE_IPC_CLIENT_ID_VPU_VID = 12"
definition HW_FENCE_IPC_CLIENT_ID_DPU_VID :: int where "HW_FENCE_IPC_CLIENT_ID_DPU_VID = 25"
definition HW_FENCE_IPC_CLIENT_ID_IFE0_VID :: int where "HW_FENCE_IPC_CLIENT_ID_IFE0_VID = 128"
definition HW_FENCE_IPC_CLIENT_ID_APPS_PID :: int where "HW_FENCE_IPC_CLIENT_ID_APPS_PID = 3"
definition HW_FENCE_IPC_CLIENT_ID_GPU_PID :: int where "HW_FENCE_IPC_CLIENT_ID_GPU_PID = 4"
definition HW_FENCE_IPC_CLIENT_ID_IPE_PID :: int where "HW_FENCE_IPC_CLIENT_ID_IPE_PID = 5"
definition HW_FENCE_IPC_CLIENT_ID_VPU_PID :: int where "HW_FENCE_IPC_CLIENT_ID_VPU_PID = 8"
definition HW_FENCE_IPC_CLIENT_ID_DPU_PID :: int where "HW_FENCE_IPC_CLIENT_ID_DPU_PID = 9"
definition HW_FENCE_IPC_CLIENT_ID_IFE0_PID :: int where "HW_FENCE_IPC_CLIENT_ID_IFE0_PID = 11"
definition HW_FENCE_IPCC_HW_REV_170 :: u32 where "HW_FENCE_IPCC_HW_REV_170 = 0x00010700"
definition HW_FENCE_IPCC_HW_REV_203 :: u32 where "HW_FENCE_IPCC_HW_REV_203 = 0x00020003"

lemmas ipc_ids [fence_defs] =
  HW_FENCE_IPC_CLIENT_ID_APPS_VID_def HW_FENCE_IPC_CLIENT_ID_GPU_VID_def HW_FENCE_IPC_CLIENT_ID_IPE_VID_def
  HW_FENCE_IPC_CLIENT_ID_VPU_VID_def HW_FENCE_IPC_CLIENT_ID_DPU_VID_def HW_FENCE_IPC_CLIENT_ID_IFE0_VID_def
  HW_FENCE_IPC_CLIENT_ID_APPS_PID_def HW_FENCE_IPC_CLIENT_ID_GPU_PID_def HW_FENCE_IPC_CLIENT_ID_IPE_PID_def
  HW_FENCE_IPC_CLIENT_ID_VPU_PID_def HW_FENCE_IPC_CLIENT_ID_DPU_PID_def HW_FENCE_IPC_CLIENT_ID_IFE0_PID_def
  HW_FENCE_IPCC_HW_REV_170_def HW_FENCE_IPCC_HW_REV_203_def

definition HW_FENCE_IPC_MAP_MAX :: "hw_fence_uapi \<Rightarrow> nat" where
  "HW_FENCE_IPC_MAP_MAX u = unat (HW_FENCE_MAX_STATIC_CLIENTS_INDEX u) + HW_FENCE_MAX_CLIENT_TYPE_CONFIGURABLE"

definition ipc_map :: "int \<Rightarrow> int \<Rightarrow> int \<Rightarrow> bool \<Rightarrow> bool \<Rightarrow> hw_fence_client_ipc_map" where
  "ipc_map vid pid sig rxq ipc = \<lparr>im_ipc_client_id_virt = vid, im_ipc_client_id_phys = pid, im_ipc_signal_id = sig,
     im_update_rxq = rxq, im_send_ipc = ipc\<rparr>"

text \<open>The initialised elements of the two tables; C fills the rest of the array with zeros.\<close>

definition ipc_map_static :: "hw_fence_uapi \<Rightarrow> int \<Rightarrow> int \<Rightarrow> int \<Rightarrow> hw_fence_client_ipc_map list" where
  "ipc_map_static u apps gpu dpu =
     [ipc_map HW_FENCE_IPC_CLIENT_ID_APPS_VID apps 1 True True,
      ipc_map HW_FENCE_IPC_CLIENT_ID_GPU_VID gpu 0 False False]
     @ map (\<lambda>s. ipc_map HW_FENCE_IPC_CLIENT_ID_DPU_VID dpu s False True) [0, 1, 2, 3, 4, 5]
     @ (if CONFIG_DEBUG_FS u
        then map (\<lambda>s. ipc_map HW_FENCE_IPC_CLIENT_ID_APPS_VID apps s True False) [21, 22, 23, 24, 25, 26, 27]
        else replicate 7 (ipc_map 0 0 0 False False))"

definition zero_fill :: "nat \<Rightarrow> hw_fence_client_ipc_map list \<Rightarrow> hw_fence_client_ipc_map list" where
  "zero_fill n xs = take n (xs @ replicate n (ipc_map 0 0 0 False False))"

definition hw_fence_clients_ipc_map :: "hw_fence_uapi \<Rightarrow> hw_fence_client_ipc_map list" where
  "hw_fence_clients_ipc_map u = zero_fill (HW_FENCE_IPC_MAP_MAX u)
     (ipc_map_static u HW_FENCE_IPC_CLIENT_ID_APPS_VID HW_FENCE_IPC_CLIENT_ID_GPU_VID HW_FENCE_IPC_CLIENT_ID_DPU_VID
      @ [ipc_map HW_FENCE_IPC_CLIENT_ID_IPE_VID HW_FENCE_IPC_CLIENT_ID_IPE_VID 0 True True,
         ipc_map HW_FENCE_IPC_CLIENT_ID_VPU_VID HW_FENCE_IPC_CLIENT_ID_VPU_VID 0 True True])"

definition hw_fence_clients_ipc_map_v2 :: "hw_fence_uapi \<Rightarrow> hw_fence_client_ipc_map list" where
  "hw_fence_clients_ipc_map_v2 u = zero_fill (HW_FENCE_IPC_MAP_MAX u)
     (ipc_map_static u HW_FENCE_IPC_CLIENT_ID_APPS_PID HW_FENCE_IPC_CLIENT_ID_GPU_PID HW_FENCE_IPC_CLIENT_ID_DPU_PID
      @ [ipc_map HW_FENCE_IPC_CLIENT_ID_IPE_VID HW_FENCE_IPC_CLIENT_ID_IPE_PID 0 True True,
         ipc_map HW_FENCE_IPC_CLIENT_ID_VPU_VID HW_FENCE_IPC_CLIENT_ID_VPU_PID 0 True True]
      @ map (\<lambda>k. ipc_map (HW_FENCE_IPC_CLIENT_ID_IFE0_VID + k) (HW_FENCE_IPC_CLIENT_ID_IFE0_PID + k) 0 False True)
          [0, 1, 2, 3, 4, 5, 6, 7])"

text \<open>The accessors return a value or \<open>-EINVAL\<close> in an \<open>int\<close>.\<close>

definition ipc_lookup :: "hw_fence_driver_data \<Rightarrow> u32 \<Rightarrow> (hw_fence_client_ipc_map \<Rightarrow> int) \<Rightarrow> int option" where
  "ipc_lookup d client_id fld =
     (if client_id \<ge> clients_num d then Some (-22)
      else map_option fld (idx (ipc_clients_table d) (unat client_id)))"

definition hw_fence_ipcc_get_client_virt_id :: "hw_fence_driver_data \<Rightarrow> u32 \<Rightarrow> int option" where
  "hw_fence_ipcc_get_client_virt_id d client_id = ipc_lookup d client_id im_ipc_client_id_virt"

definition hw_fence_ipcc_get_client_phys_id :: "hw_fence_driver_data \<Rightarrow> u32 \<Rightarrow> int option" where
  "hw_fence_ipcc_get_client_phys_id d client_id = ipc_lookup d client_id im_ipc_client_id_phys"

definition hw_fence_ipcc_get_signal_id :: "hw_fence_driver_data \<Rightarrow> u32 \<Rightarrow> int option" where
  "hw_fence_ipcc_get_signal_id d client_id = ipc_lookup d client_id im_ipc_signal_id"

definition hw_fence_ipcc_needs_rxq_update :: "hw_fence_driver_data \<Rightarrow> u32 \<Rightarrow> bool option" where
  "hw_fence_ipcc_needs_rxq_update d client_id =
     (if client_id \<ge> clients_num d then Some False
      else map_option im_update_rxq (idx (ipc_clients_table d) (unat client_id)))"

definition hw_fence_ipcc_needs_ipc_irq :: "hw_fence_uapi \<Rightarrow> hw_fence_driver_data \<Rightarrow> u32 \<Rightarrow> bool option" where
  "hw_fence_ipcc_needs_ipc_irq u d client_id =
     (if client_id \<ge> CLIENT_MAX u then Some False
      else map_option im_send_ipc (idx (ipc_clients_table d) (unat client_id)))"

text \<open>The two loops that give every configured sub-client its signal: \<open>(i, j)\<close> is sub-client \<open>j\<close> of the
  configurable type \<open>i\<close>.\<close>

fun fill_ipc_map ::
    "hw_fence_uapi \<Rightarrow> nat \<Rightarrow> hw_fence_client_ipc_map list \<Rightarrow> (nat \<times> nat) list \<Rightarrow> nat \<Rightarrow> hw_fence_client_ipc_map list \<Rightarrow>
     ((errno + unit) \<times> hw_fence_client_ipc_map list) option" where
  "fill_ipc_map u n base_table [] map_idx tbl = Some (Inr (), tbl)"
| "fill_ipc_map u n base_table ((i, j) # ijs) map_idx tbl =
     (if map_idx \<ge> n then Some (Inl EINVAL, tbl)
      else do {
        m \<leftarrow> idx base_table (unat (HW_FENCE_MAX_STATIC_CLIENTS_INDEX u) + i);
        fill_ipc_map u n base_table ijs (Suc map_idx) (tbl[map_idx := m\<lparr>im_ipc_signal_id := int j\<rparr>]) })"

definition conf_slots :: "hw_fence_client_type_desc list \<Rightarrow> (nat \<times> nat) list" where
  "conf_slots types = concat (map (\<lambda>i. map (\<lambda>j. (i, j))
     [0..<unat (td_clients_num (types ! (HW_FENCE_MAX_CLIENT_TYPE_STATIC + i)))]) [0..<HW_FENCE_MAX_CLIENT_TYPE_CONFIGURABLE])"

definition hw_fence_ipcc_init_map_with_configurable_clients ::
    "hw_fence_uapi \<Rightarrow> bool \<Rightarrow> hw_fence_driver_data \<Rightarrow> hw_fence_client_ipc_map list \<Rightarrow>
     ((errno + unit) \<times> hw_fence_driver_data) option" where
  "hw_fence_ipcc_init_map_with_configurable_clients u alloc_ok d base_table =
     (if \<not> alloc_ok then Some (Inl ENOMEM, d\<lparr>ipc_clients_table := []\<rparr>)
      else
        (let n = unat (clients_num d); s = unat (HW_FENCE_MAX_STATIC_CLIENTS_INDEX u) in
         if n < s \<or> length base_table < s \<or> length (hw_fence_client_types d) < HW_FENCE_MAX_CLIENT_TYPE then None
         else do {
           (rc, tbl) \<leftarrow> fill_ipc_map u n base_table (conf_slots (hw_fence_client_types d)) s
              (take s base_table @ replicate (n - s) (ipc_map 0 0 0 False False));
           Some (rc, d\<lparr>ipc_clients_table := tbl\<rparr>) }))"

definition hw_fence_ipcc_hwrev_init ::
    "hw_fence_uapi \<Rightarrow> bool \<Rightarrow> hw_fence_driver_data \<Rightarrow> u32 \<Rightarrow> ((errno + unit) \<times> hw_fence_driver_data) option" where
  "hw_fence_ipcc_hwrev_init u alloc_ok d hwrev =
     (if hwrev = HW_FENCE_IPCC_HW_REV_170
      then Some (Inr (), d\<lparr>ipcc_client_vid := word_of_int HW_FENCE_IPC_CLIENT_ID_APPS_VID,
             ipcc_client_pid := word_of_int HW_FENCE_IPC_CLIENT_ID_APPS_VID, protocol_id := 2,
             ipc_clients_table := hw_fence_clients_ipc_map u\<rparr>)
      else if hwrev = HW_FENCE_IPCC_HW_REV_203
      then hw_fence_ipcc_init_map_with_configurable_clients u alloc_ok
             (d\<lparr>ipcc_client_vid := word_of_int HW_FENCE_IPC_CLIENT_ID_APPS_VID,
                ipcc_client_pid := word_of_int HW_FENCE_IPC_CLIENT_ID_APPS_PID, protocol_id := 4\<rparr>)
             (hw_fence_clients_ipc_map_v2 u)
      else Some (Inl EMINUS1, d))"

definition IPC_PROTOCOLp_CLIENTc_CONFIG :: "u64 \<Rightarrow> u32 \<Rightarrow> u32 \<Rightarrow> u64" where
  "IPC_PROTOCOLp_CLIENTc_CONFIG base p c = base + 0x8 + ucast (0x40000 * p) + ucast (0x1000 * c)"

definition IPC_PROTOCOLp_CLIENTc_RECV_SIGNAL_ENABLE :: "u64 \<Rightarrow> u32 \<Rightarrow> u32 \<Rightarrow> u64" where
  "IPC_PROTOCOLp_CLIENTc_RECV_SIGNAL_ENABLE base p c = base + 0x14 + ucast (0x40000 * p) + ucast (0x1000 * c)"

definition writel_relaxed :: "u32 \<Rightarrow> u64 \<Rightarrow> hw_fence_driver_data \<Rightarrow> hw_fence_driver_data" where
  "writel_relaxed val ptr d = d\<lparr>ipcc_writes := ipcc_writes d @ [(ptr, val)]\<rparr>"

definition hw_fence_ipcc_enable_signaling ::
    "hw_fence_uapi \<Rightarrow> of_node \<Rightarrow> bool \<Rightarrow> hw_fence_driver_data \<Rightarrow> ((errno + unit) \<times> hw_fence_driver_data) option" where
  "hw_fence_ipcc_enable_signaling u dt alloc_ok d =
     (case of_property_read_u32 dt ''qcom,hw-fence-ipc-ver'' of
        Inl _ \<Rightarrow> Some (Inl EINVAL, d)
      | Inr val \<Rightarrow>
          if val = 0 then Some (Inl EINVAL, d)
          else do {
            (rc, d1) \<leftarrow> hw_fence_ipcc_hwrev_init u alloc_ok d val;
            (case rc of
               Inl _ \<Rightarrow> Some (Inl EINVAL, d1)
             | Inr _ \<Rightarrow>
                 (let d2 = writel_relaxed 0 (IPC_PROTOCOLp_CLIENTc_CONFIG (ipcc_io_mem d1) (protocol_id d1) (ipcc_client_pid d1)) d1
                  in Some (Inr (), writel_relaxed 0x80000
                       (IPC_PROTOCOLp_CLIENTc_RECV_SIGNAL_ENABLE (ipcc_io_mem d2) (protocol_id d2) (ipcc_client_pid d2)) d2))) })"

fun dpu_signals :: "nat list \<Rightarrow> bool \<Rightarrow> hw_fence_driver_data \<Rightarrow> hw_fence_driver_data option" where
  "dpu_signals [] protocol_enabled d = Some d"
| "dpu_signals (i # is) protocol_enabled d = do {
     m \<leftarrow> idx (ipc_clients_table d) i;
     if im_ipc_client_id_virt m \<noteq> HW_FENCE_IPC_CLIENT_ID_DPU_VID then dpu_signals is protocol_enabled d
     else
       (let pid = word_of_int (im_ipc_client_id_phys m);
            d1 = (if protocol_enabled then d
                  else writel_relaxed 1 (IPC_PROTOCOLp_CLIENTc_CONFIG (ipcc_io_mem d) (protocol_id d) pid) d)
        in dpu_signals is True
             (writel_relaxed (push_bit 16 (word_of_int HW_FENCE_IPC_CLIENT_ID_APPS_VID) OR (word_of_int (im_ipc_signal_id m) AND 0xFFFF))
                (IPC_PROTOCOLp_CLIENTc_RECV_SIGNAL_ENABLE (ipcc_io_mem d) (protocol_id d) pid) d1)) }"

definition hw_fence_ipcc_enable_dpu_signaling ::
    "hw_fence_driver_data \<Rightarrow> ((errno + unit) \<times> hw_fence_driver_data) option" where
  "hw_fence_ipcc_enable_dpu_signaling d =
     (if protocol_id d = 0 \<or> ipc_clients_table d = [] then Some (Inl EMINUS1, d)
      else map_option (\<lambda>d'. (Inr (), d')) (dpu_signals [0..<unat (clients_num d)] False d))"

section \<open>Registering and deregistering a client\<close>

text \<open>\<open>kzalloc\<close> of a client: all fields zero, both queues without a header.\<close>

definition zero_queue :: msm_hw_fence_queue where
  "zero_queue = \<lparr>q_va_queue = [], q_size_bytes = 0, q_va_header = None, q_pa_queue = 0, q_rd_wr_idx_start = 0,
     q_rd_wr_idx_factor = 0, q_skip_wr_idx = False\<rparr>"

definition zero_client :: msm_hw_fence_client where
  "zero_client = \<lparr>cl_client_id = 0, cl_client_id_ext = 0, cl_mem_descriptor = \<lparr>ma_virtual_addr = 0, ma_device_addr = 0, ma_size = 0\<rparr>,
     cl_queues = replicate HW_FENCE_CLIENT_QUEUES zero_queue, cl_queues_num = 0, cl_fence_error_cb = None, cl_fence_error_cb_userdata = None,
     cl_error_cb_lock = False, cl_ipc_signal_id = 0, cl_ipc_client_vid = 0, cl_ipc_client_pid = 0, cl_update_rxq = False,
     cl_send_ipc = False, cl_val_signal = 0\<rparr>"

definition hw_fence_init_controller_signal ::
    "hw_fence_uapi \<Rightarrow> hw_fence_driver_data \<Rightarrow> nat \<Rightarrow> ((errno + unit) \<times> hw_fence_driver_data) option" where
  "hw_fence_init_controller_signal u d cid = do {
     c \<leftarrow> get_client d cid;
     (let e = cl_client_id_ext c; s = MAX_SIGNAL_PER_CLIENT u in
      if e = CLIENT_ID_CTX0 u then Some (Inr (), d)
      else if CONFIG_DEBUG_FS u \<and> e \<in> set (CLIENT_ID_VAL u) then Some (Inr (), d)
      else if e \<in> set (CLIENT_ID_CTL u) then
        (if ipcc_dpu_initialized d then Some (Inr (), d)
         else map_option (\<lambda>(_, d'). (Inr (), d')) (hw_fence_ipcc_enable_dpu_signaling (d\<lparr>ipcc_dpu_initialized := True\<rparr>)))
      else if CLIENT_ID_IPE u \<le> e \<and> e \<le> CLIENT_ID_IPE u + s - 1 then Some (Inr (), d)
      else if CLIENT_ID_VPU u \<le> e \<and> e \<le> CLIENT_ID_VPU u + s - 1 then Some (Inr (), d)
      else if CLIENT_ID_IFE u ! 0 \<le> e \<and> e \<le> CLIENT_ID_IFE u ! 7 + s - 1 then Some (Inr (), d)
      else Some (Inl EINVAL, d)) }"

text \<open>\<open>hw_fence_cleanup_client\<close>: the slot of the client's id is cleared and the client freed.\<close>

definition hw_fence_cleanup_client :: "hw_fence_driver_data \<Rightarrow> nat \<Rightarrow> hw_fence_driver_data option" where
  "hw_fence_cleanup_client d cid = do {
     c \<leftarrow> get_client d cid;
     if unat (cl_client_id c) < length (clients d)
     then Some (d\<lparr>clients := (clients d)[unat (cl_client_id c) := None]\<rparr>)
     else None }"

text \<open>\<open>msm_hw_fence_register\<close>. The first two parts run once the client is in the table and go to \<open>error\<close> with
  \<^term>\<open>Inl\<close>; \<open>enable\<close> is the module parameter, \<open>has_desc\<close> whether \<open>mem_descriptor\<close> is not NULL.\<close>

definition register_queues ::
    "hw_fence_uapi \<Rightarrow> hw_fence_driver_data \<Rightarrow> nat \<Rightarrow> bool \<Rightarrow> u32 \<Rightarrow> (hfi_queue_header \<times> u32 list) list \<Rightarrow>
     ((errno + msm_hw_fence_mem_addr) \<times> hw_fence_driver_data) option" where
  "register_queues u d cid rxq qn mem =
     (if qn = 0 \<or> (rxq \<and> uint qn < int HW_FENCE_CLIENT_QUEUES) then Some (Inl EINVAL, d)
      else do {
        (rc, d4) \<leftarrow> hw_fence_alloc_client_resources u d cid mem;
        (case rc of
           Inl e \<Rightarrow> Some (Inl e, d4)
         | Inr ma \<Rightarrow> do {
             (rc, d5) \<leftarrow> hw_fence_init_controller_signal u d4 cid;
             Some (case rc of Inl e \<Rightarrow> (Inl e, d5) | Inr _ \<Rightarrow> (Inr ma, d5)) }) })"

definition register_setup ::
    "hw_fence_uapi \<Rightarrow> hw_fence_driver_data \<Rightarrow> u32 \<Rightarrow> u32 \<Rightarrow> (hfi_queue_header \<times> u32 list) list \<Rightarrow>
     ((errno + msm_hw_fence_mem_addr) \<times> hw_fence_driver_data) option" where
  "register_setup u d client_id client_id_ext mem = do {
     vid \<leftarrow> hw_fence_ipcc_get_client_virt_id d client_id;
     pid \<leftarrow> hw_fence_ipcc_get_client_phys_id d client_id;
     (let cid = unat client_id;
          c1 = zero_client\<lparr>cl_client_id := client_id, cl_client_id_ext := client_id_ext, cl_ipc_client_vid := vid,
                 cl_ipc_client_pid := pid\<rparr> in
      if vid \<le> 0 \<or> pid \<le> 0 then Some (Inl EINVAL, set_client cid c1 d)
      else do {
        sig \<leftarrow> hw_fence_ipcc_get_signal_id d client_id;
        (let c2 = c1\<lparr>cl_ipc_signal_id := sig\<rparr> in
         if sig < 0 then Some (Inl EINVAL, set_client cid c2 d)
         else do {
           rxq \<leftarrow> hw_fence_ipcc_needs_rxq_update d client_id;
           ipc \<leftarrow> hw_fence_ipcc_needs_ipc_irq u d client_id;
           qn \<leftarrow> hw_fence_utils_get_queues_num d cid;
           register_queues u (set_client cid (c2\<lparr>cl_update_rxq := rxq, cl_send_ipc := ipc, cl_queues_num := uint qn\<rparr>) d)
             cid rxq qn mem }) }) }"

definition msm_hw_fence_register ::
    "hw_fence_uapi \<Rightarrow> bool \<Rightarrow> hw_fence_driver_data \<Rightarrow> u32 \<Rightarrow> bool \<Rightarrow> bool \<Rightarrow> (hfi_queue_header \<times> u32 list) list \<Rightarrow>
     ((errno + nat \<times> msm_hw_fence_mem_addr) \<times> hw_fence_driver_data) option" where
  "msm_hw_fence_register u enable d client_id_ext has_desc alloc_ok mem =
     (if \<not> enable then Some (Inl ENODEV, d)
      else if \<not> resources_ready d then Some (Inl EAGAIN, d)
      else if \<not> has_desc \<or> client_id_ext \<ge> CLIENT_MAX u then Some (Inl EINVAL, d)
      else do {
        client_id \<leftarrow> hw_fence_utils_get_client_id_priv u (hw_fence_client_types d) client_id_ext;
        if client_id \<ge> CLIENT_MAX u then Some (Inl EINVAL, d)
        else if \<not> alloc_ok then Some (Inl ENOMEM, d)
        else do {
          slot \<leftarrow> idx (clients d) (unat client_id);
          (case slot of
             Some _ \<Rightarrow> Some (Inl EINVAL, d)
           | None \<Rightarrow> do {
               (rc, d1) \<leftarrow> register_setup u (set_client (unat client_id) zero_client d) client_id client_id_ext mem;
               (case rc of
                  Inr ma \<Rightarrow> Some (Inr (unat client_id, ma), d1)
                | Inl e \<Rightarrow> map_option (\<lambda>d2. (Inl e, d2)) (hw_fence_cleanup_client d1 (unat client_id))) }) } })"

definition msm_hw_fence_deregister ::
    "hw_fence_driver_data \<Rightarrow> nat option \<Rightarrow> ((errno + unit) \<times> hw_fence_driver_data) option" where
  "msm_hw_fence_deregister d client_handle = (case client_handle of
     None \<Rightarrow> Some (Inl EINVAL, d)
   | Some cid \<Rightarrow> do {
       c \<leftarrow> get_client d cid;
       if cl_client_id c \<ge> clients_num d then Some (Inl EINVAL, d)
       else map_option (\<lambda>d'. (Inr (), d')) (hw_fence_cleanup_client d cid) })"

section \<open>Creating and destroying fences\<close>

text \<open>\<open>msm_hw_fence_create\<close>: \<open>fence\<close> and \<open>has_handle\<close> are the members of \<open>params\<close>. The result holds the
  handle (when written) and the fence with its flags.\<close>

definition msm_hw_fence_create ::
    "hw_fence_uapi \<Rightarrow> hw_fence_driver_data \<Rightarrow> nat option \<Rightarrow> dma_fence option \<Rightarrow> bool \<Rightarrow>
     ((errno + unit) \<times> u64 option \<times> dma_fence option \<times> hw_fence_driver_data) option" where
  "msm_hw_fence_create u d client_handle fence has_handle = (case (client_handle, fence) of
     (Some cid, Some fn) \<Rightarrow>
       if \<not> has_handle then Some (Inl EINVAL, None, fence, d)
       else if \<not> vm_ready d then Some (Inl EAGAIN, None, fence, d)
       else if df_is_array fn then Some (Inl EINVAL, None, fence, d)
       else if bit (df_flags fn) (FLAG_ENABLED_BIT u) then Some (Inl EINVAL, None, fence, d)
       else do {
         c \<leftarrow> get_client d cid;
         (rc, hash, d') \<leftarrow> hw_fence_create d (cl_client_id c) (df_context fn) (df_seqno fn);
         Some (case rc of
            Inl e \<Rightarrow> (Inl e, Some hash, fence, d')
          | Inr _ \<Rightarrow> (Inr (), Some hash, Some (fn\<lparr>df_flags := set_bit (FLAG_ENABLED_BIT u) (df_flags fn)\<rparr>), d')) }
   | _ \<Rightarrow> Some (Inl EINVAL, None, fence, d))"

definition msm_hw_fence_destroy ::
    "hw_fence_uapi \<Rightarrow> hw_fence_driver_data \<Rightarrow> nat option \<Rightarrow> dma_fence option \<Rightarrow>
     ((errno + unit) \<times> dma_fence option \<times> hw_fence_driver_data) option" where
  "msm_hw_fence_destroy u d client_handle fence = (case (client_handle, fence) of
     (Some cid, Some fn) \<Rightarrow>
       if df_is_array fn then Some (Inl EINVAL, fence, d)
       else if \<not> bit (df_flags fn) (FLAG_ENABLED_BIT u) then Some (Inl EINVAL, fence, d)
       else do {
         c \<leftarrow> get_client d cid;
         (rc, d') \<leftarrow> hw_fence_destroy d (cl_client_id c) (df_context fn) (df_seqno fn);
         Some (case rc of
            Inl e \<Rightarrow> (Inl e, fence, d')
          | Inr _ \<Rightarrow> (Inr (), Some (fn\<lparr>df_flags := unset_bit (FLAG_ENABLED_BIT u) (df_flags fn)\<rparr>), d')) }
   | _ \<Rightarrow> Some (Inl EINVAL, fence, d))"

definition msm_hw_fence_destroy_with_handle ::
    "hw_fence_driver_data \<Rightarrow> nat option \<Rightarrow> u64 \<Rightarrow> ((errno + unit) \<times> hw_fence_driver_data) option" where
  "msm_hw_fence_destroy_with_handle d client_handle handle = (case client_handle of
     None \<Rightarrow> Some (Inl EINVAL, d)
   | Some cid \<Rightarrow> do {
       c \<leftarrow> get_client d cid;
       if cl_client_id c \<ge> clients_num d then Some (Inl EINVAL, d)
       else hw_fence_destroy_with_hash d (cl_client_id c) handle })"

section \<open>Waiting\<close>

text \<open>An element of \<open>fence_list\<close>: a fence array, recognised by \<open>to_dma_fence_array\<close>, or a single fence.\<close>

datatype fence_obj = FenceArray dma_fence_array | SingleFence dma_fence

text \<open>The loop: the fences with their flags, the handles written so far.\<close>

fun wait_fences ::
    "hw_fence_uapi \<Rightarrow> nat \<Rightarrow> (fence_obj \<times> u64) list \<Rightarrow> fence_obj list \<Rightarrow> u64 list \<Rightarrow> hw_fence_driver_data \<Rightarrow>
     ((errno + unit) \<times> fence_obj list \<times> u64 list \<times> hw_fence_driver_data) option" where
  "wait_fences u cid [] objs hs d = Some (Inr (), objs, hs, d)"
| "wait_fences u cid ((FenceArray array, client_data) # rest) objs hs d = do {
     (rc, h, array', d1) \<leftarrow> hw_fence_process_fence_array u d cid array client_data;
     (case rc of
        Inl e \<Rightarrow> Some (Inl e, objs @ FenceArray array' # map fst rest, hs, d1)
      | Inr _ \<Rightarrow> do { hash \<leftarrow> h; wait_fences u cid rest (objs @ [FenceArray array']) (hs @ [hash]) d1 }) }"
| "wait_fences u cid ((SingleFence fn, client_data) # rest) objs hs d = do {
     (rc, h, fn', d1) \<leftarrow> hw_fence_process_fence u d (Some cid) (Some fn) client_data;
     (let obj = SingleFence (case fn' of None \<Rightarrow> fn | Some f \<Rightarrow> f) in
      case rc of
        Inl e \<Rightarrow> Some (Inl e, objs @ obj # map fst rest, hs, d1)
      | Inr _ \<Rightarrow> do { hash \<leftarrow> h; wait_fences u cid rest (objs @ [obj]) (hs @ [hash]) d1 }) }"

text \<open>\<open>fence_list\<close> is \<^term>\<open>None\<close> when the pointer or its first element is NULL; \<open>num_fences\<close> is its length.
  \<open>client_data_list\<close> has one element per fence when it is not NULL.\<close>

definition msm_hw_fence_wait_update_v2 ::
    "hw_fence_uapi \<Rightarrow> hw_fence_driver_data \<Rightarrow> nat option \<Rightarrow> fence_obj list option \<Rightarrow> u64 list option \<Rightarrow>
     ((errno + unit) \<times> fence_obj list \<times> u64 list \<times> hw_fence_driver_data) option" where
  "msm_hw_fence_wait_update_v2 u d client_handle fence_list client_data_list = (case (client_handle, fence_list) of
     (Some cid, Some fences) \<Rightarrow>
       if \<not> vm_ready d then Some (Inl EAGAIN, fences, [], d)
       else do {
         c \<leftarrow> get_client d cid;
         (let data_id = hw_fence_get_client_data_id u (cl_client_id_ext c) in
          if client_data_list \<noteq> None \<and> data_id \<ge> HW_FENCE_MAX_CLIENTS_WITH_DATA then Some (Inl EINVAL, fences, [], d)
          else if cl_client_id c > rxq_clients_num d then Some (Inl EINVAL, fences, [], d)
          else (case client_data_list of
             None \<Rightarrow> wait_fences u cid (map (\<lambda>f. (f, 0)) fences) [] [] d
           | Some cds \<Rightarrow> if length cds < length fences then None else wait_fences u cid (zip fences cds) [] [] d)) }
   | _ \<Rightarrow> Some (Inl EINVAL, case fence_list of None \<Rightarrow> [] | Some fs \<Rightarrow> fs, [], d))"

definition msm_hw_fence_wait_update ::
    "hw_fence_uapi \<Rightarrow> hw_fence_driver_data \<Rightarrow> nat option \<Rightarrow> fence_obj list option \<Rightarrow>
     ((errno + unit) \<times> fence_obj list \<times> u64 list \<times> hw_fence_driver_data) option" where
  "msm_hw_fence_wait_update u d client_handle fence_list = msm_hw_fence_wait_update_v2 u d client_handle fence_list None"

section \<open>Resetting a client\<close>

fun reset_fences :: "hw_fence_uapi \<Rightarrow> nat \<Rightarrow> u32 \<Rightarrow> nat list \<Rightarrow> hw_fence_driver_data \<Rightarrow> hw_fence_driver_data option" where
  "reset_fences u cid reset_flags [] d = Some d"
| "reset_fences u cid reset_flags (i # is) d = do {
     (rc, d1) \<leftarrow> hw_fence_utils_cleanup_fence u d cid i (of_nat i) reset_flags;
     reset_fences u cid reset_flags is d1 }"

definition msm_hw_fence_reset_client ::
    "hw_fence_uapi \<Rightarrow> hw_fence_driver_data \<Rightarrow> nat option \<Rightarrow> u32 \<Rightarrow> ((errno + unit) \<times> hw_fence_driver_data) option" where
  "msm_hw_fence_reset_client u d client_handle reset_flags = (case client_handle of
     None \<Rightarrow> Some (Inl EINVAL, d)
   | Some cid \<Rightarrow>
       if \<not> vm_ready d then Some (Inl EAGAIN, d)
       else do {
         d1 \<leftarrow> reset_fences u cid reset_flags [0..<unat (hw_fences_tbl_cnt d)] d;
         d2 \<leftarrow> hw_fence_utils_reset_queues d1 cid;
         Some (Inr (), d2) })"

definition msm_hw_fence_reset_client_by_id ::
    "hw_fence_uapi \<Rightarrow> hw_fence_driver_data \<Rightarrow> u32 \<Rightarrow> u32 \<Rightarrow> ((errno + unit) \<times> hw_fence_driver_data) option" where
  "msm_hw_fence_reset_client_by_id u d client_id_ext reset_flags =
     (if client_id_ext \<ge> CLIENT_MAX u then Some (Inl EINVAL, d)
      else do {
        client_id \<leftarrow> hw_fence_utils_get_client_id_priv u (hw_fence_client_types d) client_id_ext;
        if client_id \<ge> CLIENT_MAX u then Some (Inl EINVAL, d)
        else do {
          slot \<leftarrow> idx (clients d) (unat client_id);
          msm_hw_fence_reset_client u d (map_option (\<lambda>_. unat client_id) slot) reset_flags } })"

section \<open>Transmitting and signalling\<close>

definition msm_hw_fence_update_txq ::
    "hw_fence_driver_data \<Rightarrow> nat option \<Rightarrow> u64 \<Rightarrow> u64 \<Rightarrow> u32 \<Rightarrow> ((errno + unit) \<times> hw_fence_driver_data) option" where
  "msm_hw_fence_update_txq d client_handle handle flags error =
     (if \<not> resources_ready d \<or> \<not> vm_ready d then Some (Inl EAGAIN, d)
      else (case client_handle of
         None \<Rightarrow> Some (Inl EINVAL, d)
       | Some cid \<Rightarrow>
           if handle \<ge> ucast (hw_fences_tbl_cnt d) then Some (Inl EINVAL, d)
           else do {
             f \<leftarrow> idx (hw_fences_tbl d) (unat handle);
             (_, d') \<leftarrow> hw_fence_update_queue d cid (hf_ctx_id f) (hf_seq_id f) handle flags 0 error (int HW_FENCE_TX_QUEUE - 1);
             Some (Inr (), d') }))"

definition msm_hw_fence_update_txq_error ::
    "hw_fence_uapi \<Rightarrow> hw_fence_driver_data \<Rightarrow> nat option \<Rightarrow> u64 \<Rightarrow> u32 \<Rightarrow> u32 \<Rightarrow> ((errno + unit) \<times> hw_fence_driver_data) option" where
  "msm_hw_fence_update_txq_error u d client_handle handle error update_flags =
     (if \<not> resources_ready d \<or> \<not> vm_ready d then Some (Inl EAGAIN, d)
      else (case client_handle of
         None \<Rightarrow> Some (Inl EINVAL, d)
       | Some cid \<Rightarrow>
           if handle \<ge> ucast (hw_fences_tbl_cnt d) \<or> error = 0 then Some (Inl EINVAL, d)
           else if update_flags \<noteq> UPDATE_ERROR_WITH_MOVE u then Some (Inl EINVAL, d)
           else do {
             (_, d') \<leftarrow> hw_fence_update_existing_txq_payload d cid handle error;
             Some (Inr (), d') }))"

definition msm_hw_fence_trigger_signal ::
    "hw_fence_driver_data \<Rightarrow> nat option \<Rightarrow> u32 \<Rightarrow> u32 \<Rightarrow> u32 \<Rightarrow> (errno + unit) \<times> hw_fence_driver_data" where
  "msm_hw_fence_trigger_signal d client_handle tx_client_pid rx_client_vid signal_id =
     (if \<not> resources_ready d \<or> \<not> vm_ready d then (Inl EAGAIN, d)
      else if client_handle = None then (Inl EINVAL, d)
      else (Inr (), hw_fence_ipcc_trigger_signal d tx_client_pid rx_client_vid signal_id))"

section \<open>Error callbacks\<close>

definition msm_hw_fence_register_error_cb ::
    "hw_fence_driver_data \<Rightarrow> nat option \<Rightarrow> u64 option \<Rightarrow> u64 option \<Rightarrow> ((errno + unit) \<times> hw_fence_driver_data) option" where
  "msm_hw_fence_register_error_cb d client_handle cb data =
     (if \<not> resources_ready d then Some (Inl EAGAIN, d)
      else (case client_handle of
         None \<Rightarrow> Some (Inl EINVAL, d)
       | Some cid \<Rightarrow>
           if cb = None \<or> data = None then Some (Inl EINVAL, d)
           else do {
             c \<leftarrow> get_client d cid;
             Some (if cl_fence_error_cb c \<noteq> None then (Inl EINVAL, d)
                   else (Inr (), set_client cid (c\<lparr>cl_fence_error_cb_userdata := data, cl_fence_error_cb := cb\<rparr>) d)) }))"

text \<open>\<open>msm_hw_fence_deregister_error_cb\<close> returns 0 also when there was no callback to remove.\<close>

definition msm_hw_fence_deregister_error_cb ::
    "hw_fence_driver_data \<Rightarrow> nat option \<Rightarrow> ((errno + unit) \<times> hw_fence_driver_data) option" where
  "msm_hw_fence_deregister_error_cb d client_handle =
     (if \<not> resources_ready d then Some (Inl EAGAIN, d)
      else (case client_handle of
         None \<Rightarrow> Some (Inl EINVAL, d)
       | Some cid \<Rightarrow> do {
           c \<leftarrow> get_client d cid;
           Some (if cl_error_cb_lock c then (Inl EAGAIN, d)
                 else if cl_fence_error_cb c = None then (Inr (), d)
                 else (Inr (), set_client cid (c\<lparr>cl_fence_error_cb := None, cl_fence_error_cb_userdata := None\<rparr>) d)) }))"

section \<open>Doorbells\<close>

definition HW_FENCE_CTRL_QUEUE_DOORBELL :: nat where
  "HW_FENCE_CTRL_QUEUE_DOORBELL = 0"

definition HW_FENCE_DOORBELL_FLAGS_ID_LAST :: "hw_fence_uapi \<Rightarrow> nat" where
  "HW_FENCE_DOORBELL_FLAGS_ID_LAST u = (if CONFIG_DEBUG_FS u then unat (CLIENT_ID_VAL u ! 6) else HW_FENCE_CTRL_QUEUE_DOORBELL)"

definition HW_FENCE_MAX_ITER_READ :: nat where
  "HW_FENCE_MAX_ITER_READ = 100"

text \<open>One payload of the control RX queue: the callback it asks for, or the error to return.\<close>

definition process_error_payload ::
    "hw_fence_uapi \<Rightarrow> hw_fence_driver_data \<Rightarrow> msm_hw_fence_queue_payload \<Rightarrow> ((errno + unit) \<times> hw_fence_driver_data) option" where
  "process_error_payload u d p =
     (if pl_type p \<noteq> HW_FENCE_PAYLOAD_TYPE_2 then Some (Inl EINVAL, d)
      else if pl_client_data p < ucast (CLIENT_ID_CTX0 u) \<or> pl_client_data p \<ge> ucast (clients_num d) then Some (Inl EINVAL, d)
      else do {
        slot \<leftarrow> idx (clients d) (unat (pl_client_data p));
        (case slot of
           None \<Rightarrow> Some (Inl EINVAL, d)
         | Some _ \<Rightarrow> hw_fence_utils_fence_error_cb (unat (pl_client_data p)) (pl_ctxt_id p) (pl_seqno p) (pl_hash p)
             (pl_flags p) (pl_error p) d) })"

text \<open>\<open>_process_fence_error_client_loopback\<close>: \<open>n\<close> iterations are left, \<open>ret\<close> is the result so far, \<open>stack\<close> what
  the local payload holds before it is read.\<close>

definition ctrl_rxq_upd :: "msm_hw_fence_queue \<Rightarrow> hw_fence_driver_data \<Rightarrow> hw_fence_driver_data" where
  "ctrl_rxq_upd q d = d\<lparr>ctrl_queues := (ctrl_queues d)[HW_FENCE_RX_QUEUE - 1 := q]\<rparr>"

fun error_loopback ::
    "hw_fence_uapi \<Rightarrow> msm_hw_fence_queue_payload \<Rightarrow> nat \<Rightarrow> (errno + unit) \<Rightarrow> hw_fence_driver_data \<Rightarrow>
     ((errno + unit) \<times> hw_fence_driver_data) option" where
  "error_loopback u stack 0 ret d = Some (ret, d)"
| "error_loopback u stack (Suc n) ret d = do {
     q \<leftarrow> idx (ctrl_queues d) (HW_FENCE_RX_QUEUE - 1);
     (rd, payload, q') \<leftarrow> hw_fence_read_queue_helper q (Some stack);
     (case rd of
        Inl e \<Rightarrow> Some (Inl e, ctrl_rxq_upd q' d)
      | Inr rem \<Rightarrow> do {
          p \<leftarrow> payload;
          (rc, d1) \<leftarrow> process_error_payload u (ctrl_rxq_upd q' d) p;
          (let ret = (case rc of Inl e \<Rightarrow> Inl e | Inr _ \<Rightarrow> ret) in
           if rem = 0 then Some (ret, d1) else error_loopback u stack n ret d1) }) }"

definition process_doorbell_id ::
    "hw_fence_uapi \<Rightarrow> msm_hw_fence_queue_payload \<Rightarrow> hw_fence_driver_data \<Rightarrow> nat \<Rightarrow> ((errno + unit) \<times> hw_fence_driver_data) option" where
  "process_doorbell_id u stack d db_flag_id =
     (if db_flag_id = HW_FENCE_CTRL_QUEUE_DOORBELL then error_loopback u stack HW_FENCE_MAX_ITER_READ (Inr ()) d
      else if CONFIG_DEBUG_FS u \<and> of_nat db_flag_id \<in> set (CLIENT_ID_VAL u)
      then process_validation_client_loopback u d (of_nat db_flag_id)
      else Some (Inl EINVAL, d))"

fun doorbell_loop ::
    "hw_fence_uapi \<Rightarrow> msm_hw_fence_queue_payload \<Rightarrow> nat list \<Rightarrow> u64 \<Rightarrow> hw_fence_driver_data \<Rightarrow> hw_fence_driver_data option" where
  "doorbell_loop u stack [] db_flags d = Some d"
| "doorbell_loop u stack (i # ids) db_flags d =
     (let mask = push_bit i 1 :: u64 in
      if mask AND db_flags = 0 then doorbell_loop u stack ids db_flags d
      else do {
        (_, d1) \<leftarrow> process_doorbell_id u stack d i;
        (let db_flags = db_flags AND NOT mask in
         if db_flags = 0 then Some d1 else doorbell_loop u stack ids db_flags d1) })"

definition hw_fence_utils_process_doorbell_mask ::
    "hw_fence_uapi \<Rightarrow> msm_hw_fence_queue_payload \<Rightarrow> hw_fence_driver_data \<Rightarrow> u64 \<Rightarrow> hw_fence_driver_data option" where
  "hw_fence_utils_process_doorbell_mask u stack d db_flags =
     doorbell_loop u stack [HW_FENCE_CTRL_QUEUE_DOORBELL..<Suc (HW_FENCE_DOORBELL_FLAGS_ID_LAST u)] db_flags d"


section \<open>The signal of every configured client\<close>

lemma nth_pairs:
  assumes "i < m" and "j < n i"
  shows "sum_list (map n [0..<i]) + j < length (concat (map (\<lambda>i. map (\<lambda>j. (i, j)) [0..<n i]) [0..<m]))
    \<and> concat (map (\<lambda>i. map (\<lambda>j. (i, j)) [0..<n i]) [0..<m]) ! (sum_list (map n [0..<i]) + j) = (i, j)"
  using assms
proof (induction m)
  case (Suc m)
  let ?xs = "concat (map (\<lambda>i. map (\<lambda>j. (i, j)) [0..<n i]) [0..<m])"
  have e: "concat (map (\<lambda>i. map (\<lambda>j. (i, j)) [0..<n i]) [0..<Suc m]) = ?xs @ map (\<lambda>j. (m, j)) [0..<n m]" by simp
  show ?case
  proof (cases "i = m")
    case True
    have "length ?xs = sum_list (map n [0..<m])" by (simp add: length_concat o_def)
    then show ?thesis unfolding e using Suc.prems True by (simp add: nth_append)
  next
    case False
    then show ?thesis unfolding e using Suc by (simp add: nth_append)
  qed
qed simp

lemma fill_ipc_map_spec:
  assumes "s + length ijs \<le> n" and "length tbl = n"
    and "\<And>i j. (i, j) \<in> set ijs \<Longrightarrow> unat (HW_FENCE_MAX_STATIC_CLIENTS_INDEX u) + i < length base"
  shows "fill_ipc_map u n base ijs s tbl = Some (Inr (), take s tbl
    @ map (\<lambda>(i, j). (base ! (unat (HW_FENCE_MAX_STATIC_CLIENTS_INDEX u) + i))\<lparr>im_ipc_signal_id := int j\<rparr>) ijs @ drop (s + length ijs) tbl)"
  using assms
proof (induction ijs arbitrary: s tbl)
  case (Cons p ijs)
  obtain i j where p: "p = (i, j)" by (cases p)
  let ?m = "(base ! (unat (HW_FENCE_MAX_STATIC_CLIENTS_INDEX u) + i))\<lparr>im_ipc_signal_id := int j\<rparr>"
  have "fill_ipc_map u n base ijs (Suc s) (tbl[s := ?m]) = Some (Inr (), take (Suc s) (tbl[s := ?m])
    @ map (\<lambda>(i, j). (base ! (unat (HW_FENCE_MAX_STATIC_CLIENTS_INDEX u) + i))\<lparr>im_ipc_signal_id := int j\<rparr>) ijs
    @ drop (Suc s + length ijs) (tbl[s := ?m]))"
    using Cons.prems by (intro Cons.IH) auto
  moreover have "take (Suc s) (tbl[s := ?m]) = take s tbl @ [?m]" using Cons.prems by (simp add: take_Suc_conv_app_nth)
  moreover have "unat (HW_FENCE_MAX_STATIC_CLIENTS_INDEX u) + i < length base" using Cons.prems(3)[of i j] p by simp
  ultimately show ?case using Cons.prems by (simp add: p)
qed simp

lemma conf_slots_eq: "conf_slots types = concat (map (\<lambda>i. map (\<lambda>j. (i, j)) [0..<n_clients types (3 + i)]) [0..<10])"
  by (simp add: conf_slots_def n_clients_def layout_consts)

lemma map_shift_3: "map (\<lambda>i. f (3 + i)) [0..<k] = map f [3..<3 + k]"
  by (rule nth_equalityI) simp_all

lemma length_conf_slots: "length (conf_slots types) = conf_clients types"
proof -
  have "length (conf_slots types) = sum_list (map (\<lambda>i. n_clients types (3 + i)) [0..<10])"
    unfolding conf_slots_eq by (simp add: length_concat o_def del: upt_Suc)
  also have "\<dots> = conf_clients types" unfolding map_shift_3 conf_clients_def by (simp del: upt_Suc)
  finally show ?thesis .
qed

lemma first_id_conf:
  "i < 10 \<Longrightarrow> first_id types (3 + i) = 15 + sum_list (map (\<lambda>i. n_clients types (3 + i)) [0..<i])"
  unfolding map_shift_3 by (simp add: first_id_def)

definition conf_vid :: "nat \<Rightarrow> int" where
  "conf_vid i = [11, 12, 128, 129, 130, 131, 132, 133, 134, 135] ! i"

definition conf_pid :: "nat \<Rightarrow> int" where
  "conf_pid i = [5, 8, 11, 12, 13, 14, 15, 16, 17, 18] ! i"

lemma ipc_map_v2:
  assumes u: "uapi_ok u"
  shows "length (hw_fence_clients_ipc_map_v2 u) = 25"
    and "i < 10 \<Longrightarrow> im_ipc_client_id_virt (hw_fence_clients_ipc_map_v2 u ! (15 + i)) = conf_vid i
      \<and> im_ipc_client_id_phys (hw_fence_clients_ipc_map_v2 u ! (15 + i)) = conf_pid i"
proof -
  have m: "HW_FENCE_IPC_MAP_MAX u = 25"
    using u by (simp add: HW_FENCE_IPC_MAP_MAX_def HW_FENCE_MAX_STATIC_CLIENTS_INDEX_def uapi_ok_def layout_consts)
  have s: "length (ipc_map_static u a g e) = 15" for a g e by (simp add: ipc_map_static_def)
  show "length (hw_fence_clients_ipc_map_v2 u) = 25" by (simp add: hw_fence_clients_ipc_map_v2_def zero_fill_def m s)
  show "i < 10 \<Longrightarrow> im_ipc_client_id_virt (hw_fence_clients_ipc_map_v2 u ! (15 + i)) = conf_vid i
      \<and> im_ipc_client_id_phys (hw_fence_clients_ipc_map_v2 u ! (15 + i)) = conf_pid i"
    using lt_10[of i] by (auto simp: hw_fence_clients_ipc_map_v2_def zero_fill_def m s nth_append ipc_ids ipc_map_def conf_vid_def conf_pid_def)
qed

lemma hwrev_203_spec:
  assumes u: "uapi_ok u" and t: "types_ok u (hw_fence_client_types d)"
    and n: "unat (clients_num d) = 15 + conf_clients (hw_fence_client_types d)"
  shows "\<exists>d'. hw_fence_ipcc_hwrev_init u True d HW_FENCE_IPCC_HW_REV_203 = Some (Inr (), d') \<and> clients_num d' = clients_num d
    \<and> length (ipc_clients_table d') = unat (clients_num d)
    \<and> (\<forall>i<10. \<forall>j<n_clients (hw_fence_client_types d) (3 + i). ipc_clients_table d' ! (first_id (hw_fence_client_types d) (3 + i) + j)
        = (hw_fence_clients_ipc_map_v2 u ! (15 + i))\<lparr>im_ipc_signal_id := int j\<rparr>)"
proof -
  let ?t = "hw_fence_client_types d" and ?b = "hw_fence_clients_ipc_map_v2 u"
  have 13: "length ?t = 13" using t by (simp add: types_ok_def)
  have S: "unat (HW_FENCE_MAX_STATIC_CLIENTS_INDEX u) = 15" using u by (simp add: HW_FENCE_MAX_STATIC_CLIENTS_INDEX_def uapi_ok_def)
  define g where "g = (\<lambda>(i, j). (?b ! (15 + i))\<lparr>im_ipc_signal_id := int j\<rparr>)"
  define tbl where "tbl = take 15 ?b @ map g (conf_slots ?t)"
  let ?init = "take 15 ?b @ replicate (unat (clients_num d) - 15) (ipc_map 0 0 0 False False)"
  have i10: "i < 10" if "(i, j) \<in> set (conf_slots ?t)" for i j using that by (auto simp: conf_slots_eq simp del: upt_Suc)
  have "fill_ipc_map u (unat (clients_num d)) ?b (conf_slots ?t) 15 ?init = Some (Inr (), take 15 ?init
    @ map (\<lambda>(i, j). (?b ! (unat (HW_FENCE_MAX_STATIC_CLIENTS_INDEX u) + i))\<lparr>im_ipc_signal_id := int j\<rparr>) (conf_slots ?t)
    @ drop (15 + length (conf_slots ?t)) ?init)"
    by (rule fill_ipc_map_spec) (auto simp: length_conf_slots n ipc_map_v2[OF u] S dest: i10)
  then have fill: "fill_ipc_map u (unat (clients_num d)) ?b (conf_slots ?t) 15 ?init = Some (Inr (), tbl)"
    by (simp add: tbl_def g_def S length_conf_slots n ipc_map_v2[OF u])
  have len: "length tbl = unat (clients_num d)" by (simp add: tbl_def length_conf_slots n ipc_map_v2[OF u])
  have "tbl ! (first_id ?t (3 + i) + j) = (?b ! (15 + i))\<lparr>im_ipc_signal_id := int j\<rparr>"
    if "i < 10" "j < n_clients ?t (3 + i)" for i j
  proof -
    let ?k = "sum_list (map (\<lambda>i. n_clients ?t (3 + i)) [0..<i]) + j"
    have "?k < length (conf_slots ?t)" "conf_slots ?t ! ?k = (i, j)"
      using nth_pairs[of i 10 j "\<lambda>i. n_clients ?t (3 + i)"] that by (simp_all add: conf_slots_eq del: upt_Suc)
    moreover have "first_id ?t (3 + i) + j = 15 + ?k" using first_id_conf[OF that(1)] by simp
    ultimately show ?thesis by (simp add: tbl_def nth_append ipc_map_v2[OF u] g_def)
  qed
  moreover have "hw_fence_ipcc_hwrev_init u True d HW_FENCE_IPCC_HW_REV_203 =
      Some (Inr (), d\<lparr>ipcc_client_vid := word_of_int HW_FENCE_IPC_CLIENT_ID_APPS_VID,
                ipcc_client_pid := word_of_int HW_FENCE_IPC_CLIENT_ID_APPS_PID, protocol_id := 4, ipc_clients_table := tbl\<rparr>)"
    using fill 13 n ipc_map_v2[OF u]
    by (simp add: hw_fence_ipcc_hwrev_init_def hw_fence_ipcc_init_map_with_configurable_clients_def Let_def S ipc_ids(13,14) layout_consts)
  ultimately show ?thesis using len by simp
qed


text \<open>on IPCC revision 2.0.3 the table built for the configurable clients gives every configured sub-client,
  under the internal id its external id is renumbered to, the IPCC ids of its type and its own
  number as its signal.\<close>

theorem ipc_signals_correct:
  assumes "uapi_ok u" and "types_ok u (hw_fence_client_types d)"
    and "unat (clients_num d) = 15 + conf_clients (hw_fence_client_types d)"
  shows "\<exists>d'. hw_fence_ipcc_hwrev_init u True d HW_FENCE_IPCC_HW_REV_203 = Some (Inr (), d') \<and>
    (\<forall>i<10. \<forall>j<unat (td_clients_num (hw_fence_client_types d ! (3 + i))). \<exists>c.
       hw_fence_utils_get_client_id_priv u (hw_fence_client_types d) (td_init_id (hw_fence_client_types d ! (3 + i)) + of_nat j) = Some c
     \<and> hw_fence_ipcc_get_client_virt_id d' c = Some (conf_vid i) \<and> hw_fence_ipcc_get_client_phys_id d' c = Some (conf_pid i)
     \<and> hw_fence_ipcc_get_signal_id d' c = Some (int j))"
proof -
  let ?t = "hw_fence_client_types d"
  obtain d' where d': "hw_fence_ipcc_hwrev_init u True d HW_FENCE_IPCC_HW_REV_203 = Some (Inr (), d')" "clients_num d' = clients_num d"
    "length (ipc_clients_table d') = unat (clients_num d)"
    "\<And>i j. i < 10 \<Longrightarrow> j < n_clients ?t (3 + i) \<Longrightarrow> ipc_clients_table d' ! (first_id ?t (3 + i) + j)
        = (hw_fence_clients_ipc_map_v2 u ! (15 + i))\<lparr>im_ipc_signal_id := int j\<rparr>"
    using hwrev_203_spec[OF assms] by blast
  have f: "first_id ?t 13 = 15 + conf_clients ?t" by (simp add: first_id_def conf_clients_def del: upt_Suc)
  have "hw_fence_utils_get_client_id_priv u ?t (td_init_id (?t ! (3 + i)) + of_nat j) = Some (of_nat (first_id ?t (3 + i) + j))
     \<and> ipc_lookup d' (of_nat (first_id ?t (3 + i) + j)) fld = Some (fld ((hw_fence_clients_ipc_map_v2 u ! (15 + i))\<lparr>im_ipc_signal_id := int j\<rparr>))"
    if "i < 10" "j < n_clients ?t (3 + i)" for i j fld
  proof -
    let ?c = "first_id ?t (3 + i) + j"
    have s: "(3 + i, j) \<in> set (client_slots ?t)" using that assms(2) by (simp add: client_slots_iff types_ok_def)
    have c: "?c < unat (clients_num d)" using slot_id_bound[OF assms(2) s] assms(3) f by (simp add: slot_id_def)
    then have u: "unat (of_nat ?c :: u32) = ?c" using entries_bound[of "clients_num d"] by (intro unat_of_nat_u32) simp
    then have "\<not> clients_num d' \<le> of_nat ?c" using c d'(2) by (simp add: word_le_nat_alt)
    then show ?thesis using get_client_id_priv_slot[OF assms(1,2) s] u c d'(3,4) that by (simp add: ipc_lookup_def del: of_nat_add)
  qed
  note this ipc_map_v2(2)[OF assms(1)]
  then show ?thesis using d'(1)
    by (intro exI[of _ d']) (simp add: n_clients_def hw_fence_ipcc_get_client_virt_id_def hw_fence_ipcc_get_client_phys_id_def
        hw_fence_ipcc_get_signal_id_def)
qed

text \<open>Two IPE sub-clients.\<close>

definition demo_ipe :: hw_fence_driver_data where
  "demo_ipe = (demo_driver [])\<lparr>clients_num := 17, hw_fence_client_types :=
     (hw_fence_client_types_init demo_uapi)[3 := type_desc ''ipe'' 15 32 2 2 False]\<rparr>"

lemma demo_ipe_types: "types_ok demo_uapi (hw_fence_client_types demo_ipe)" "conf_clients (hw_fence_client_types demo_ipe) = 2"
proof -
  let ?t = "hw_fence_client_types demo_ipe"
  have "td_init_id (?t ! i) = td_init_id (hw_fence_client_types_init demo_uapi ! i)
        \<and> n_clients ?t i \<le> (if i = 0 then 1 else if i = 1 then 6 else if i = 2 then 7 else 32)" if "i < 13" for i
    using lt_13[OF that] by (auto simp: demo_ipe_def n_clients_def hw_fence_client_types_init_def type_desc_def demo_uapi_def)
  then show "types_ok demo_uapi ?t" unfolding types_ok_def by (simp add: demo_ipe_def hw_fence_client_types_init_def)
  show "conf_clients ?t = 2" by (simp add: conf_clients_def n_clients_def demo_ipe_def hw_fence_client_types_init_def type_desc_def)
qed

theorem ipc_signals_correct_witness:
  "\<exists>d' c. hw_fence_ipcc_hwrev_init demo_uapi True demo_ipe HW_FENCE_IPCC_HW_REV_203 = Some (Inr (), d')
    \<and> hw_fence_utils_get_client_id_priv demo_uapi (hw_fence_client_types demo_ipe) 16 = Some c
    \<and> hw_fence_ipcc_get_client_virt_id d' c = Some 11 \<and> hw_fence_ipcc_get_signal_id d' c = Some 1"
proof -
  have n: "unat (clients_num demo_ipe) = 15 + conf_clients (hw_fence_client_types demo_ipe)"
    unfolding demo_ipe_types(2) by (simp add: demo_ipe_def)
  have d3: "hw_fence_client_types demo_ipe ! 3 = type_desc ''ipe'' 15 32 2 2 False" by (simp add: demo_ipe_def hw_fence_client_types_init_def)
  obtain d' where d': "hw_fence_ipcc_hwrev_init demo_uapi True demo_ipe HW_FENCE_IPCC_HW_REV_203 = Some (Inr (), d')"
    "\<forall>i<10. \<forall>j<unat (td_clients_num (hw_fence_client_types demo_ipe ! (3 + i))). \<exists>c.
       hw_fence_utils_get_client_id_priv demo_uapi (hw_fence_client_types demo_ipe) (td_init_id (hw_fence_client_types demo_ipe ! (3 + i)) + of_nat j) = Some c
     \<and> hw_fence_ipcc_get_client_virt_id d' c = Some (conf_vid i) \<and> hw_fence_ipcc_get_client_phys_id d' c = Some (conf_pid i)
     \<and> hw_fence_ipcc_get_signal_id d' c = Some (int j)"
    using ipc_signals_correct[OF demo_uapi_ok demo_ipe_types(1) n] by blast
  have "\<exists>c. hw_fence_utils_get_client_id_priv demo_uapi (hw_fence_client_types demo_ipe) (td_init_id (hw_fence_client_types demo_ipe ! 3) + 1) = Some c
     \<and> hw_fence_ipcc_get_client_virt_id d' c = Some (conf_vid 0) \<and> hw_fence_ipcc_get_signal_id d' c = Some 1"
    using d'(2)[rule_format, of 0 1] by (auto simp: d3 type_desc_def)
  then show ?thesis using d'(1) by (auto simp: d3 type_desc_def conf_vid_def)
qed


section \<open>Registration\<close>

lemma set_client_simps [simp]:
  "clients (set_client k c d) = (clients d)[k := Some c]" "clients_num (set_client k c d) = clients_num d"
  "ipc_clients_table (set_client k c d) = ipc_clients_table d" "hw_fence_client_types (set_client k c d) = hw_fence_client_types d"
  "hw_fence_client_queue_size (set_client k c d) = hw_fence_client_queue_size d" "carveout_size (set_client k c d) = carveout_size d"
  by (simp_all add: set_client_def)

text \<open>What registration leaves alone.\<close>

definition reg_frame :: "hw_fence_driver_data \<Rightarrow> hw_fence_driver_data \<Rightarrow> bool" where
  "reg_frame d d' \<longleftrightarrow> hw_fences_tbl d' = hw_fences_tbl d \<and> hw_fence_table_entries d' = hw_fence_table_entries d
     \<and> client_lock_tbl d' = client_lock_tbl d \<and> client_lock_tbl_cnt d' = client_lock_tbl_cnt d \<and> clients_num d' = clients_num d
     \<and> rxq_clients_num d' = rxq_clients_num d \<and> hw_fence_client_types d' = hw_fence_client_types d
     \<and> hw_fence_client_queue_size d' = hw_fence_client_queue_size d \<and> ctrl_queues d' = ctrl_queues d"

lemma reg_frame_simps [simp]:
  "reg_frame d d" "reg_frame d (set_client cid c d')  = reg_frame d d'" "reg_frame d (d'\<lparr>ipcc_writes := w\<rparr>) = reg_frame d d'"
  "reg_frame d (d'\<lparr>ipcc_dpu_initialized := b\<rparr>) = reg_frame d d'" "reg_frame d (d'\<lparr>clients := cs\<rparr>) = reg_frame d d'"
  by (simp_all add: reg_frame_def set_client_def)

lemma reg_frame_trans: "reg_frame d d' \<Longrightarrow> reg_frame d' d'' \<Longrightarrow> reg_frame d d''"
  by (simp add: reg_frame_def)

lemma dpu_signals_frame: "dpu_signals xs p d = Some d' \<Longrightarrow> reg_frame d d' \<and> clients d' = clients d"
proof (induction xs arbitrary: p d)
  case (Cons i xs)
  obtain m where m: "idx (ipc_clients_table d) i = Some m" using Cons.prems by (auto simp: bind_Some_iff)
  show ?case
  proof (cases "im_ipc_client_id_virt m = HW_FENCE_IPC_CLIENT_ID_DPU_VID")
    case False
    then show ?thesis using Cons m by simp
  next
    case True
    then obtain p' w where "dpu_signals xs p' (d\<lparr>ipcc_writes := w\<rparr>) = Some d'"
      using Cons.prems m by (auto simp: Let_def writel_relaxed_def split: if_splits)
    from Cons.IH[OF this] show ?thesis by (simp add: reg_frame_def)
  qed
qed simp

lemma dpu_signaling_frame:
  assumes "hw_fence_ipcc_enable_dpu_signaling d = Some (r, d')"
  shows "reg_frame d d' \<and> clients d' = clients d"
proof (cases "protocol_id d = 0 \<or> ipc_clients_table d = []")
  case False
  then have "dpu_signals [0..<unat (clients_num d)] False d = Some d'"
    using assms by (auto simp: hw_fence_ipcc_enable_dpu_signaling_def)
  then show ?thesis by (rule dpu_signals_frame)
qed (use assms in \<open>auto simp: hw_fence_ipcc_enable_dpu_signaling_def\<close>)

lemma init_controller_signal_frame:
  assumes "hw_fence_init_controller_signal u d cid = Some (r, d')"
  shows "reg_frame d d' \<and> clients d' = clients d"
proof -
  have "reg_frame d d2 \<and> clients d2 = clients d"
    if "hw_fence_ipcc_enable_dpu_signaling (d\<lparr>ipcc_dpu_initialized := True\<rparr>) = Some (r2, d2)" for r2 d2
    using dpu_signaling_frame[OF that] by (simp add: reg_frame_def)
  then show ?thesis using assms unfolding hw_fence_init_controller_signal_def
    by (auto simp: bind_Some_iff Let_def split: if_splits)
qed

lemma alloc_client_cases:
  assumes "hw_fence_alloc_client_resources u d cid mem = Some (r, d')" and "get_client d cid = Some c"
  obtains e where "d' = d" "r = Inl e"
  | ma qs where "d' = set_client cid (c\<lparr>cl_mem_descriptor := ma, cl_queues := qs\<rparr>) d" "r = Inr ma"
proof -
  obtain cq where cq: "idx (hw_fence_client_queue_size d) (unat (cl_client_id c)) = Some cq"
    using assms by (auto simp: hw_fence_alloc_client_resources_def bind_Some_iff)
  show thesis
  proof (cases "cqd_type cq")
    case None
    then have "d' = d" "r = Inl EINVAL" using assms cq by (simp_all add: hw_fence_alloc_client_resources_def)
    then show thesis by (rule that(1))
  next
    case (Some t)
    then obtain desc x where x: "idx (hw_fence_client_types d) t = Some desc"
      "init_hw_fences_queues u d HW_FENCE_MEM_RESERVE_CLIENT_QUEUE (unat (td_queues_num desc)) (unat (cl_client_id c)) mem = Some x"
      using assms cq by (auto simp: hw_fence_alloc_client_resources_def bind_Some_iff)
    show thesis
    proof (cases x)
      case (Inl e)
      then have "d' = d" "r = Inl e" using assms cq Some x by (simp_all add: hw_fence_alloc_client_resources_def)
      then show thesis by (rule that(1))
    next
      case (Inr p)
      obtain ma qs where p: "p = (ma, qs)" by (cases p)
      have "d' = set_client cid (c\<lparr>cl_mem_descriptor := ma, cl_queues := qs @ drop (length qs) (cl_queues c)\<rparr>) d" "r = Inr ma"
        using assms cq Some x Inr p by (simp_all add: hw_fence_alloc_client_resources_def)
      then show thesis by (rule that(2))
    qed
  qed
qed

text \<open>The client's resources were allocated in a state that differs from \<open>d\<close> only by the new client.\<close>

definition alloc_run ::
    "hw_fence_uapi \<Rightarrow> hw_fence_driver_data \<Rightarrow> nat \<Rightarrow> (hfi_queue_header \<times> u32 list) list \<Rightarrow> msm_hw_fence_mem_addr \<Rightarrow>
     msm_hw_fence_client \<Rightarrow> bool" where
  "alloc_run u d cid mem ma c \<longleftrightarrow> (\<exists>c0 d0 d1. reg_frame d d0 \<and> get_client d0 cid = Some c0 \<and> cl_client_id c0 = cl_client_id c
     \<and> hw_fence_alloc_client_resources u d0 cid mem = Some (Inr ma, d1) \<and> get_client d1 cid = Some c)"

lemma register_setup_frame:
  assumes r: "register_setup u d client_id client_id_ext mem = Some (r, d')" and l: "unat client_id < length (clients d)"
  shows "reg_frame d d' \<and> (\<exists>c. clients d' = (clients d)[unat client_id := Some c]
     \<and> cl_client_id c = client_id \<and> cl_client_id_ext c = client_id_ext \<and> cl_fence_error_cb c = None \<and> \<not> cl_error_cb_lock c
     \<and> (\<forall>ma. r = Inr ma \<longrightarrow> cl_mem_descriptor c = ma \<and> 0 < cl_queues_num c \<and> (cl_update_rxq c \<longrightarrow> 2 \<le> cl_queues_num c)
          \<and> 0 < cl_ipc_client_vid c \<and> 0 < cl_ipc_client_pid c
          \<and> alloc_run u d (unat client_id) mem ma c
          \<and> map_option uint (hw_fence_utils_get_queues_num d (unat client_id)) = Some (cl_queues_num c)
          \<and> client_id < clients_num d))"
proof -
  let ?cid = "unat client_id"
  obtain vid pid where v: "hw_fence_ipcc_get_client_virt_id d client_id = Some vid" "hw_fence_ipcc_get_client_phys_id d client_id = Some pid"
    using r by (auto simp: register_setup_def bind_Some_iff)
  define c1 where "c1 = zero_client\<lparr>cl_client_id := client_id, cl_client_id_ext := client_id_ext, cl_ipc_client_vid := vid, cl_ipc_client_pid := pid\<rparr>"
  have c1: "cl_client_id c1 = client_id" "cl_client_id_ext c1 = client_id_ext" "cl_fence_error_cb c1 = None" "\<not> cl_error_cb_lock c1"
    "cl_ipc_client_vid c1 = vid" "cl_ipc_client_pid c1 = pid" "cl_queues c1 = replicate 2 zero_queue"
    by (simp_all add: c1_def zero_client_def hw_fence_consts)
  note r1 = r[unfolded register_setup_def, simplified v Option.bind.bind_lunit Let_def c1_def[symmetric]]
  show ?thesis
  proof (cases "vid \<le> 0 \<or> pid \<le> 0")
    case True
    then show ?thesis using r1 c1 by auto
  next
    case False
    then obtain sig where s: "hw_fence_ipcc_get_signal_id d client_id = Some sig"
      using r1 by (auto simp: bind_Some_iff)
    define c2 where "c2 = c1\<lparr>cl_ipc_signal_id := sig\<rparr>"
    show ?thesis
    proof (cases "sig < 0")
      case True
      then show ?thesis using r1 c1 False s by auto
    next
      case sig: False
      obtain rxq ipc qn where q: "hw_fence_ipcc_needs_rxq_update d client_id = Some rxq" "hw_fence_ipcc_needs_ipc_irq u d client_id = Some ipc"
        "hw_fence_utils_get_queues_num d ?cid = Some qn"
        using r1 False s sig by (auto simp: bind_Some_iff)
      define c3 where "c3 = c2\<lparr>cl_update_rxq := rxq, cl_send_ipc := ipc, cl_queues_num := uint qn\<rparr>"
      have c3: "cl_client_id c3 = client_id" "cl_client_id_ext c3 = client_id_ext" "cl_fence_error_cb c3 = None" "\<not> cl_error_cb_lock c3"
        "cl_ipc_client_vid c3 = vid" "cl_ipc_client_pid c3 = pid" "cl_update_rxq c3 = rxq" "cl_queues_num c3 = uint qn"
        "cl_queues c3 = replicate 2 zero_queue"
        by (simp_all add: c3_def c2_def c1)
      have r3: "register_queues u (set_client ?cid c3 d) ?cid rxq qn mem = Some (r, d')"
        using r1 False s sig q by (simp add: c3_def c2_def)
      have g3: "get_client (set_client ?cid c3 d) ?cid = Some c3" using l by simp
      show ?thesis
      proof (cases "qn = 0 \<or> (rxq \<and> uint qn < int HW_FENCE_CLIENT_QUEUES)")
        case True
        then show ?thesis using r3 c3 by (auto simp: register_queues_def)
      next
        case qn: False
        then obtain rc d4 where a: "hw_fence_alloc_client_resources u (set_client ?cid c3 d) ?cid mem = Some (rc, d4)"
          using r3 by (auto simp: register_queues_def bind_Some_iff)
        from a g3 show ?thesis
        proof (cases rule: alloc_client_cases)
          case (1 e)
          then show ?thesis using r3 qn a c3 by (auto simp: register_queues_def)
        next
          case (2 ma qs)
          let ?c = "c3\<lparr>cl_mem_descriptor := ma, cl_queues := qs\<rparr>"
          obtain rc' d5 where i: "hw_fence_init_controller_signal u d4 ?cid = Some (rc', d5)"
            using r3 qn a 2 by (auto simp: register_queues_def bind_Some_iff)
          have "d' = d5" "\<forall>ma'. r = Inr ma' \<longrightarrow> ma' = ma" using r3 qn a 2 i by (cases rc'; auto simp: register_queues_def)+
          moreover have "reg_frame d d5" "clients d5 = (clients d)[?cid := Some ?c]"
            using init_controller_signal_frame[OF i] 2 reg_frame_trans[of d d4 d5] by auto
          moreover have "0 < uint qn" "rxq \<longrightarrow> 2 \<le> uint qn"
            using qn by (auto simp: hw_fence_consts not_less word_neq_0_conv word_less_def)
          moreover have "get_client d4 ?cid = Some ?c" using 2 l by simp
          then have "alloc_run u d ?cid mem ma ?c" unfolding alloc_run_def
            using a 2 g3 by (intro exI[of _ c3] exI[of _ "set_client ?cid c3 d"] exI[of _ d4]) simp
          moreover have "client_id < clients_num d"
            using q(3) qn by (auto simp: hw_fence_utils_get_queues_num_def word_less_nat_alt not_le split: if_splits)
          ultimately show ?thesis using c3 False q by (intro conjI exI[of _ ?c]) auto
        qed
      qed
    qed
  qed
qed


lemma register_spec:
  assumes "msm_hw_fence_register u enable d client_id_ext has_desc alloc_ok mem = Some (r, d')"
  shows "reg_frame d d' \<and> (case r of
     Inl _ \<Rightarrow> clients d' = clients d
   | Inr (cid, ma) \<Rightarrow> \<exists>c client_id. hw_fence_utils_get_client_id_priv u (hw_fence_client_types d) client_id_ext = Some client_id
       \<and> cid = unat client_id \<and> cid < length (clients d) \<and> clients d ! cid = None \<and> clients d' = (clients d)[cid := Some c]
       \<and> cl_client_id c = client_id \<and> cl_client_id_ext c = client_id_ext \<and> cl_mem_descriptor c = ma \<and> client_id < clients_num d
       \<and> \<not> cl_error_cb_lock c \<and> cl_fence_error_cb c = None
       \<and> 0 < cl_queues_num c \<and> (cl_update_rxq c \<longrightarrow> 2 \<le> cl_queues_num c) \<and> 0 < cl_ipc_client_vid c \<and> 0 < cl_ipc_client_pid c
       \<and> alloc_run u (set_client cid zero_client d) cid mem ma c
       \<and> map_option uint (hw_fence_utils_get_queues_num d cid) = Some (cl_queues_num c))"
proof (cases "enable \<and> resources_ready d \<and> has_desc \<and> client_id_ext < CLIENT_MAX u")
  case False
  then show ?thesis using assms by (auto simp: msm_hw_fence_register_def not_less split: if_splits)
next
  case True
  then have max: "\<not> CLIENT_MAX u \<le> client_id_ext" by (simp add: not_le)
  obtain client_id where p: "hw_fence_utils_get_client_id_priv u (hw_fence_client_types d) client_id_ext = Some client_id"
    using assms True max by (auto simp: msm_hw_fence_register_def bind_Some_iff)
  show ?thesis
  proof (cases "client_id < CLIENT_MAX u \<and> alloc_ok")
    case False
    then show ?thesis using assms True max p by (auto simp: msm_hw_fence_register_def not_less split: if_splits)
  next
    case True2: True
    then have ok: "\<not> CLIENT_MAX u \<le> client_id" alloc_ok by (simp_all add: not_le)
    then obtain slot where s: "idx (clients d) (unat client_id) = Some slot"
      using assms True max p by (auto simp: msm_hw_fence_register_def bind_Some_iff)
    let ?d0 = "set_client (unat client_id) zero_client d"
    have l: "unat client_id < length (clients d)" "clients d ! unat client_id = slot" using s by (auto simp: idx_eq_Some_iff)
    show ?thesis
    proof (cases slot)
      case (Some c)
      then show ?thesis using assms True max p ok s by (auto simp: msm_hw_fence_register_def)
    next
      case None
      then obtain rc d1 where rs: "register_setup u ?d0 client_id client_id_ext mem = Some (rc, d1)"
        "(case rc of Inr ma \<Rightarrow> Some (Inr (unat client_id, ma), d1)
          | Inl e \<Rightarrow> map_option (\<lambda>d2. (Inl e, d2)) (hw_fence_cleanup_client d1 (unat client_id))) = Some (r, d')"
        using assms True max p ok s by (auto simp: msm_hw_fence_register_def bind_Some_iff)
      have "unat client_id < length (clients ?d0)" using l by simp
      from register_setup_frame[OF rs(1) this] obtain c where c: "reg_frame ?d0 d1" "clients d1 = (clients d)[unat client_id := Some c]"
        "cl_client_id c = client_id" "cl_client_id_ext c = client_id_ext" "cl_fence_error_cb c = None" "\<not> cl_error_cb_lock c"
        "\<forall>ma. rc = Inr ma \<longrightarrow> cl_mem_descriptor c = ma \<and> 0 < cl_queues_num c \<and> (cl_update_rxq c \<longrightarrow> 2 \<le> cl_queues_num c)
          \<and> 0 < cl_ipc_client_vid c \<and> 0 < cl_ipc_client_pid c \<and> alloc_run u ?d0 (unat client_id) mem ma c
          \<and> map_option uint (hw_fence_utils_get_queues_num ?d0 (unat client_id)) = Some (cl_queues_num c) \<and> client_id < clients_num ?d0"
        by auto
      have f: "reg_frame d d1" using reg_frame_trans[OF _ c(1), of d] by simp
      have q: "hw_fence_utils_get_queues_num ?d0 k = hw_fence_utils_get_queues_num d k" "clients_num ?d0 = clients_num d" for k
        by (simp_all add: hw_fence_utils_get_queues_num_def set_client_def cong: option.case_cong)
      show ?thesis
      proof (cases rc)
        case (Inl e)
        have "get_client d1 (unat client_id) = Some c" using c(2) l by (simp add: get_client_def)
        then have "hw_fence_cleanup_client d1 (unat client_id) = Some (d1\<lparr>clients := clients d\<rparr>)"
          using c(2,3) l None by (simp add: hw_fence_cleanup_client_def) (metis list_update_id)
        then show ?thesis using rs(2) Inl f by auto
      next
        case (Inr ma)
        then show ?thesis using rs(2) c f l None p q by (auto intro!: exI[of _ c])
      qed
    qed
  qed
qed

text \<open>\<open>msm_hw_fence_register\<close> changes the table of clients only on success, and then in exactly one slot, which was
  empty: the slot of the internal id, with a client that carries both ids, has at least one queue (two
  if it uses an RX queue) and IPCC ids. Deregistering it restores the table of clients. A failed
  registration leaves no trace of the client.\<close>

theorem register_correct:
  assumes "msm_hw_fence_register u enable d client_id_ext has_desc alloc_ok mem = Some (r, d')"
  shows "case r of
     Inl _ \<Rightarrow> clients d' = clients d
   | Inr (cid, ma) \<Rightarrow> \<exists>c. cid < length (clients d) \<and> clients d ! cid = None \<and> clients d' = (clients d)[cid := Some c]
       \<and> hw_fence_utils_get_client_id_priv u (hw_fence_client_types d) client_id_ext = Some (cl_client_id c)
       \<and> cid = unat (cl_client_id c) \<and> cl_client_id_ext c = client_id_ext \<and> cl_mem_descriptor c = ma
       \<and> 0 < cl_queues_num c \<and> (cl_update_rxq c \<longrightarrow> 2 \<le> cl_queues_num c) \<and> 0 < cl_ipc_client_vid c \<and> 0 < cl_ipc_client_pid c
       \<and> (\<exists>d''. msm_hw_fence_deregister d' (Some cid) = Some (Inr (), d'') \<and> clients d'' = clients d)"
proof (cases r)
  case (Inl e)
  then show ?thesis using register_spec[OF assms] by simp
next
  case (Inr p)
  obtain cid ma where p: "p = (cid, ma)" by (cases p)
  obtain c where c: "hw_fence_utils_get_client_id_priv u (hw_fence_client_types d) client_id_ext = Some (cl_client_id c)"
    "cid = unat (cl_client_id c)" "cid < length (clients d)" "clients d ! cid = None" "clients d' = (clients d)[cid := Some c]"
    "cl_client_id_ext c = client_id_ext" "cl_mem_descriptor c = ma" "cl_client_id c < clients_num d" "reg_frame d d'"
    "0 < cl_queues_num c" "cl_update_rxq c \<longrightarrow> 2 \<le> cl_queues_num c" "0 < cl_ipc_client_vid c" "0 < cl_ipc_client_pid c"
    using register_spec[OF assms] Inr p by auto
  have "get_client d' cid = Some c" using c(3,5) by (simp add: get_client_def)
  moreover have "\<not> clients_num d' \<le> cl_client_id c" using c(8,9) by (simp add: reg_frame_def)
  moreover have "(clients d)[cid := None] = clients d" using c(4) by (metis list_update_id)
  ultimately have "msm_hw_fence_deregister d' (Some cid) = Some (Inr (), d'\<lparr>clients := clients d\<rparr>)"
    using c(2,3,5) by (simp add: msm_hw_fence_deregister_def hw_fence_cleanup_client_def)
  then show ?thesis using c Inr p by (auto intro!: exI[of _ c])
qed

text \<open>The driver before the GPU client registers.\<close>

definition demo_reg :: hw_fence_driver_data where
  "demo_reg = demo_alloc\<lparr>clients := [None, None], ipc_clients_table := [ipc_map 8 8 1 True True, ipc_map 9 9 0 False False]\<rparr>"

lemma demo_reg_fields:
  "resources_ready demo_reg" "clients demo_reg = [None, None]" "clients_num demo_reg = 2"
  "ipc_clients_table demo_reg = [ipc_map 8 8 1 True True, ipc_map 9 9 0 False False]"
  "hw_fence_client_types demo_reg = [demo_desc (type_desc ''gpu'' 1 1 1 2 False)]" "carveout_size demo_reg = 61440"
  "hw_fence_client_queue_size demo_reg = [\<lparr>cqd_type = None, cqd_start_offset = 0\<rparr>, \<lparr>cqd_type = Some 0, cqd_start_offset = 4096\<rparr>]"
  by (simp_all add: demo_reg_def demo_alloc_def demo_driver_def)

lemma demo_gpu: "td_queues_num (demo_desc (type_desc ''gpu'' 1 1 1 2 False)) = 2" "td_mem_size (demo_desc (type_desc ''gpu'' 1 1 1 2 False)) = 4096"
  by (simp_all add: demo_desc_def type_desc_def)

lemma demo_reg_id: "hw_fence_utils_get_client_id_priv demo_uapi (hw_fence_client_types demo_reg) 1 = Some 1"
  by (simp add: hw_fence_utils_get_client_id_priv_def HW_FENCE_MAX_STATIC_CLIENTS_INDEX_def demo_uapi_def)

lemma demo_register:
  "\<exists>ma d'. msm_hw_fence_register demo_uapi True demo_reg 1 True True [demo_blank, demo_blank] = Some (Inr (1, ma), d')"
proof -
  have m: "\<not> CLIENT_MAX demo_uapi \<le> 1" by (simp add: demo_uapi_def word_le_nat_alt)
  have c0: "CLIENT_ID_CTX0 demo_uapi = 1" by (simp add: demo_uapi_def)
  have "\<not> (2::u32) \<le> 1" by (simp add: word_le_nat_alt)
  then show ?thesis unfolding msm_hw_fence_register_def demo_reg_id
    using m by (simp add: demo_reg_fields register_setup_def hw_fence_ipcc_get_client_virt_id_def hw_fence_ipcc_get_client_phys_id_def ipc_lookup_def
      hw_fence_ipcc_get_signal_id_def hw_fence_ipcc_needs_rxq_update_def hw_fence_ipcc_needs_ipc_irq_def hw_fence_utils_get_queues_num_def
      Let_def ipc_map_def register_queues_def demo_gpu hw_fence_alloc_client_resources_def init_hw_fences_queues_def queue_params_of_def
      hw_fence_utils_reserve_mem_def reserve_range_def hw_fence_init_controller_signal_def c0)
qed


theorem register_correct_witness:
  "\<exists>ma d' d''. msm_hw_fence_register demo_uapi True demo_reg 1 True True [demo_blank, demo_blank] = Some (Inr (1, ma), d')
    \<and> (\<exists>c. clients d' = [None, Some c] \<and> 0 < cl_queues_num c) \<and> msm_hw_fence_deregister d' (Some 1) = Some (Inr (), d'')
    \<and> clients d'' = [None, None]"
proof -
  obtain ma d' where r: "msm_hw_fence_register demo_uapi True demo_reg 1 True True [demo_blank, demo_blank] = Some (Inr (1, ma), d')"
    using demo_register by blast
  show ?thesis using register_correct[OF r] r by (auto simp: demo_reg_fields)
qed

section \<open>Registration preserves the invariant of the clients\<close>

lemma reg_frame_clients_ok:
  assumes "reg_frame d d'" and "clients_ok d" and "clients d' = clients d \<or>
    (\<exists>cid c. cid < length (clients d) \<and> clients d' = (clients d)[cid := Some c] \<and> client_ok cid c)"
  shows "clients_ok d'"
  using assms by (auto simp: clients_ok_def reg_frame_def nth_list_update split: if_splits)

lemma alloc_run_queues:
  assumes a: "alloc_run u d cid mem ma c"
    and t: "cqd_type (hw_fence_client_queue_size d ! unat (cl_client_id c)) = Some t" and desc: "desc = hw_fence_client_types d ! t"
    and ok: "type_ok u desc" "unat (td_txq_idx_factor desc) \<in> {0, 1, 16}" "0 < PAGE_SIZE u"
    and b: "\<forall>i<unat (td_queues_num desc). blank (unat (td_queue_entries desc)) (mem ! i)"
  shows "unat (td_queues_num desc) \<le> length (cl_queues c)
    \<and> (\<forall>i<unat (td_queues_num desc). queue_wf (cl_queues c ! i) \<and> queue_contents (cl_queues c ! i) = [])"
proof -
  obtain c0 d0 d1 where r: "reg_frame d d0" "get_client d0 cid = Some c0" "cl_client_id c0 = cl_client_id c"
    "hw_fence_alloc_client_resources u d0 cid mem = Some (Inr ma, d1)" "get_client d1 cid = Some c"
    using a by (auto simp: alloc_run_def)
  have "cqd_type (hw_fence_client_queue_size d0 ! unat (cl_client_id c0)) = Some t" "desc = hw_fence_client_types d0 ! t"
    using r(1,3) t desc by (simp_all add: reg_frame_def)
  from fresh_queues_spec[OF r(4,2) this ok b] obtain qs where
    "c = c0\<lparr>cl_mem_descriptor := ma, cl_queues := qs @ drop (length qs) (cl_queues c0)\<rparr>" "length qs = unat (td_queues_num desc)"
    "\<forall>i<length qs. queue_wf (qs ! i) \<and> queue_contents (qs ! i) = []"
    using r(5) by auto
  then show ?thesis by (simp add: nth_append)
qed

text \<open>C30: in zeroed memory, registration preserves the invariant of the table of clients that the notification
  code relies on (every client sits in the slot of its id, no error callback is running, an RX queue the
  driver writes to is well formed), whether it succeeds or fails; and a new client starts
  with empty, well-formed queues.\<close>

theorem register_invariant:
  assumes "msm_hw_fence_register u enable d client_id_ext has_desc alloc_ok mem = Some (r, d')" and "clients_ok d"
    and "hw_fence_utils_get_client_id_priv u (hw_fence_client_types d) client_id_ext = Some client_id"
    and "unat client_id < length (hw_fence_client_queue_size d)"
    and "cqd_type (hw_fence_client_queue_size d ! unat client_id) = Some t" and "desc = hw_fence_client_types d ! t"
    and "type_ok u desc" and "unat (td_txq_idx_factor desc) \<in> {0, 1, 16}" and "0 < PAGE_SIZE u"
    and "\<forall>i<unat (td_queues_num desc). blank (unat (td_queue_entries desc)) (mem ! i)"
  shows "clients_ok d' \<and> (\<forall>cid ma. r = Inr (cid, ma) \<longrightarrow> (\<exists>c. get_client d' cid = Some c
    \<and> cl_queues_num c = uint (td_queues_num desc) \<and> nat (cl_queues_num c) \<le> length (cl_queues c)
    \<and> (\<forall>i<nat (cl_queues_num c). queue_wf (cl_queues c ! i) \<and> queue_contents (cl_queues c ! i) = [])))"
proof (cases r)
  case (Inl e)
  then have "reg_frame d d'" "clients d' = clients d" using register_spec[OF assms(1)] by simp_all
  then show ?thesis using reg_frame_clients_ok[of d d'] assms(2) Inl by simp
next
  case (Inr p)
  obtain cid ma where p: "p = (cid, ma)" by (cases p)
  obtain c cl where c: "hw_fence_utils_get_client_id_priv u (hw_fence_client_types d) client_id_ext = Some cl"
    "cid = unat cl" "cid < length (clients d)" "clients d' = (clients d)[cid := Some c]" "cl_client_id c = cl"
    "\<not> cl_error_cb_lock c" "cl_update_rxq c \<longrightarrow> 2 \<le> cl_queues_num c" "cl < clients_num d"
    "alloc_run u (set_client cid zero_client d) cid mem ma c" "reg_frame d d'"
    "map_option uint (hw_fence_utils_get_queues_num d cid) = Some (cl_queues_num c)"
    using register_spec[OF assms(1)] unfolding Inr p sum.case prod.case by blast
  have cl: "cl = client_id" using c(1) assms(3) by simp
  note c = c(2-)[unfolded cl]
  have t: "cqd_type (hw_fence_client_queue_size (set_client cid zero_client d) ! unat (cl_client_id c)) = Some t"
    "desc = hw_fence_client_types (set_client cid zero_client d) ! t"
    using assms(5,6) c(4) by simp_all
  note q = alloc_run_queues[OF c(8) t assms(7-10)]
  have "\<exists>qn. hw_fence_utils_get_queues_num d cid = Some qn \<and> cl_queues_num c = uint qn" using c(10) by auto
  then have "cl_queues_num c = uint (td_queues_num desc)"
    using c(1,7) assms(4-6) by (auto simp: hw_fence_utils_get_queues_num_def word_le_nat_alt word_less_nat_alt idx_eq_Some_iff)
  then have n: "cl_queues_num c = uint (td_queues_num desc)" "nat (cl_queues_num c) = unat (td_queues_num desc)"
    by (simp_all only: unat_eq_nat_uint)
  have "1 < unat (td_queues_num desc)" if "cl_update_rxq c" using c(6) that n by linarith
  then have "client_ok cid c" using c(1,4,5,6) q by (auto simp: client_ok_def)
  then have "clients_ok d'" using reg_frame_clients_ok[OF c(9) assms(2)] c(2,3) by blast
  moreover have "get_client d' cid = Some c" using c(2,3) by (simp add: get_client_def)
  ultimately show ?thesis using Inr p q n by simp
qed

lemma demo_gpu_ok:
  defines "desc \<equiv> demo_desc (type_desc ''gpu'' 1 1 1 2 False)"
  shows "type_ok demo_uapi desc" and "unat (td_txq_idx_factor desc) \<in> {0, 1, 16}"
    and "\<forall>i<unat (td_queues_num desc). blank (unat (td_queue_entries desc)) ([demo_blank, demo_blank] ! i)"
proof -
  show "type_ok demo_uapi desc"
    using parse_indv_spec[OF demo_indv(1)[of 1 1 4 "''gpu''" 1 False, folded demo_desc_def]]
    by (simp add: desc_def demo_headers pads_fit_def headers_bytes_def demo_desc_def type_desc_def HW_FENCE_HFI_CLIENT_HEADERS_SIZE_def U32_MAX_def)
  show "unat (td_txq_idx_factor desc) \<in> {0, 1, 16}" by (simp add: desc_def demo_desc_def type_desc_def)
  have "blank (unat (td_queue_entries desc)) demo_blank" by (simp add: desc_def blank_def demo_blank_def demo_desc_def type_desc_def)
  then show "\<forall>i<unat (td_queues_num desc). blank (unat (td_queue_entries desc)) ([demo_blank, demo_blank] ! i)"
    by (auto simp: desc_def demo_gpu less_2_cases_iff)
qed

theorem register_invariant_witness:
  "\<exists>ma d' c. msm_hw_fence_register demo_uapi True demo_reg 1 True True [demo_blank, demo_blank] = Some (Inr (1, ma), d')
    \<and> clients_ok d' \<and> get_client d' 1 = Some c \<and> cl_queues_num c = 2 \<and> queue_contents (cl_queues c ! 1) = []"
proof -
  let ?desc = "demo_desc (type_desc ''gpu'' 1 1 1 2 False)"
  obtain ma d' where r: "msm_hw_fence_register demo_uapi True demo_reg 1 True True [demo_blank, demo_blank] = Some (Inr (1, ma), d')"
    using demo_register by blast
  have ok: "clients_ok demo_reg"
    by (simp add: clients_ok_def demo_reg_def demo_alloc_def demo_driver_def lo32_def less_Suc_eq nth_Cons')
  have t: "unat (1::u32) < length (hw_fence_client_queue_size demo_reg)" "cqd_type (hw_fence_client_queue_size demo_reg ! unat (1::u32)) = Some 0"
    "?desc = hw_fence_client_types demo_reg ! 0" "0 < PAGE_SIZE demo_uapi"
    by (simp_all add: demo_reg_fields demo_headers)
  show ?thesis using register_invariant[OF r ok demo_reg_id t(1-3) demo_gpu_ok(1,2) t(4) demo_gpu_ok(3)] r
    by (auto simp: demo_gpu)
qed

end
