(* ===== verification/HwFence_Api.thy ===== *)
theory HwFence_Api
  imports HwFence_Client
begin

text \<open>
  What the exported functions of the hardware-fence driver do to the abstract state: a reset on the fence
  map and the queues of the client, the life of a fence through the interface, and the
  delivery of fence errors when the control doorbell rings. The definitions are in
  \<^verbatim>\<open>HwFence_Client\<close>.
\<close>

section \<open>Resetting a client\<close>

text \<open>What a reset makes of the fence \<open>f\<close>.\<close>

definition reset_entry :: "u32 \<Rightarrow> bool \<Rightarrow> msm_hw_fence \<Rightarrow> msm_hw_fence option" where
  "reset_entry client_id destroy f =
     (if hf_fence_allocator f = client_id \<and> destroy then None else Some (unwait_entry client_id f))"

text \<open>No free entry looks as if the client owned it: destroying a fence clears its entry.\<close>

definition unowned :: "u32 \<Rightarrow> hw_fence_driver_data \<Rightarrow> bool" where
  "unowned client_id d \<longleftrightarrow> (\<forall>f \<in> set (hw_fences_tbl d). hf_valid f = 0 \<longrightarrow> hf_fence_allocator f \<noteq> client_id)"

lemma cleanup_free:
  assumes inv: "table_inv d" and ok: "clients_ok d" and c: "get_client d cid = Some c" and b: "unat (cl_client_id c) < 64"
    and i: "i < table_size d" and v: "hf_valid (hw_fences_tbl d ! i) = 0" and un: "hf_fence_allocator (hw_fences_tbl d ! i) \<noteq> cl_client_id c"
  shows "\<exists>d'. hw_fence_utils_cleanup_fence u d cid i hash rf = Some (Inr (), d') \<and> table_inv d' \<and> clients_ok d'
    \<and> fence_view d' = fence_view d \<and> hw_fences_tbl d' = (hw_fences_tbl d)[i := unwait_entry (cl_client_id c) (hw_fences_tbl d ! i)]
    \<and> hw_fence_table_entries d' = hw_fence_table_entries d
    \<and> clients d' = clients d \<and> rxq_clients_num d' = rxq_clients_num d \<and> client_lock_tbl_cnt d' = client_lock_tbl_cnt d"
proof -
  let ?f = "hw_fences_tbl d ! i" and ?g = "unwait_entry (cl_client_id c)"
  let ?d2 = "set_fence i (?g ?f) d"
  have d2: "hw_fences_tbl ?d2 = (hw_fences_tbl d)[i := ?g ?f]" "hw_fence_table_entries ?d2 = hw_fence_table_entries d"
    by (simp_all add: set_fence_def)
  have inv2: "table_inv ?d2"
  proof (rule table_inv_set[OF inv i _ _ _ d2])
    show "fence_free (?g ?f)" using table_wfD(2)[OF table_inv_wf[OF inv] i] by (simp add: fence_free_def)
    show "hf_valid (?g ?f) = 0 \<longleftrightarrow> fence_key (?g ?f) = (0, 0)" using table_inv_valid[OF inv i] by simp
  qed (simp add: v)
  have "fence_view ?d2 k = fence_view d k" for k
  proof (rule option_eqI)
    fix g
    show "fence_view ?d2 k = Some g \<longleftrightarrow> fence_view d k = Some g"
      unfolding fence_view_set[OF inv inv2 i d2] fence_view_Some_iff[OF inv] using v i by auto
  qed
  then have vw: "fence_view ?d2 = fence_view d" by blast
  obtain l where l: "fence_lock i d = Some (set_fence i (?f\<lparr>hf_lock := l\<rparr>) d)"
    "idx (hw_fences_tbl (set_fence i (?f\<lparr>hf_lock := l\<rparr>) d)) i = Some (?f\<lparr>hf_lock := l\<rparr>)"
    "fence_unlock i (set_fence i (?g (?f\<lparr>hf_lock := l\<rparr>)) d) = Some ?d2"
    using fence_section[OF table_inv_wf[OF inv] i unwait_entry_blind] by metis
  have ul: "fence_unlock i (set_fence i (?g (?f\<lparr>hf_lock := l\<rparr>)) (set_fence i (?f\<lparr>hf_lock := l\<rparr>) d)) = Some ?d2"
    using l(3) by simp
  have "hw_fence_utils_cleanup_fence u d cid i hash rf = Some (Inr (), ?d2)"
    unfolding hw_fence_utils_cleanup_fence_def Let_def c Option.bind.bind_lunit l(1,2) BIT_Some[OF b] clear_wait_bit[OF b] ul
    using un by simp
  moreover have "clients_ok ?d2" using ok by (simp add: clients_ok_def set_fence_def)
  ultimately show ?thesis using inv2 vw by (auto simp: set_fence_def)
qed

text \<open>One slot of the loop.\<close>

definition reset_ready :: "nat \<Rightarrow> msm_hw_fence_client \<Rightarrow> hw_fence_driver_data \<Rightarrow> bool" where
  "reset_ready cid c d \<longleftrightarrow> table_inv d \<and> clients_ok d \<and> waiters_ok d \<and> get_client d cid = Some c \<and> unat (cl_client_id c) < 64
     \<and> cl_client_id c \<noteq> 0 \<and> unowned (cl_client_id c) d"

definition reset_frame :: "hw_fence_driver_data \<Rightarrow> hw_fence_driver_data \<Rightarrow> bool" where
  "reset_frame d d' \<longleftrightarrow> hw_fence_table_entries d' = hw_fence_table_entries d \<and> client_lock_tbl_cnt d' = client_lock_tbl_cnt d"

lemma reset_slot:
  assumes r: "reset_ready cid c d" and i: "i < table_size d"
  shows "\<exists>d'. hw_fence_utils_cleanup_fence u d cid i hash rf = Some (Inr (), d') \<and> reset_ready cid c d' \<and> reset_frame d d'
    \<and> (\<forall>j. j \<noteq> i \<longrightarrow> hw_fences_tbl d' ! j = hw_fences_tbl d ! j)
    \<and> (\<forall>k. fence_view d' k = (if holds_at d i k then fence_view d k \<bind> reset_entry (cl_client_id c) (rf AND RESET_WITHOUT_DESTROY u = 0)
         else fence_view d k))"
proof -
  let ?f = "hw_fences_tbl d ! i" and ?id = "cl_client_id c"
  have p: "table_inv d" "clients_ok d" "waiters_ok d" "get_client d cid = Some c" "unat ?id < 64" "unowned ?id d" "?id \<noteq> 0"
    using r by (simp_all add: reset_ready_def)
  have il: "i < length (hw_fences_tbl d)" using table_wfD[OF table_inv_wf[OF p(1)] i] by simp
  have idc: "unat ?id = cid" using p(2,4) by (auto simp: clients_ok_def client_ok_def get_client_Some_iff)
  have un: "unowned ?id d'" if "length (hw_fences_tbl d') = length (hw_fences_tbl d)"
    "\<And>j. j \<noteq> i \<Longrightarrow> hw_fences_tbl d' ! j = hw_fences_tbl d ! j"
    "hf_valid (hw_fences_tbl d' ! i) = 0 \<Longrightarrow> hf_fence_allocator (hw_fences_tbl d' ! i) \<noteq> ?id" for d'
    using that p(6) unfolding unowned_def all_set_conv_all_nth by metis
  show ?thesis
  proof (cases "hf_valid ?f = 0")
    case True
    then have al: "hf_fence_allocator ?f \<noteq> ?id" using p(6) il by (simp add: unowned_def)
    obtain d' where d': "hw_fence_utils_cleanup_fence u d cid i hash rf = Some (Inr (), d')" "table_inv d'" "clients_ok d'"
      "fence_view d' = fence_view d" "hw_fences_tbl d' = (hw_fences_tbl d)[i := unwait_entry ?id ?f]"
      "hw_fence_table_entries d' = hw_fence_table_entries d" "clients d' = clients d" "rxq_clients_num d' = rxq_clients_num d"
      "client_lock_tbl_cnt d' = client_lock_tbl_cnt d"
      using cleanup_free[OF p(1,2,4,5) i True al] by blast
    have "unowned ?id d'" by (rule un) (use d'(5) il al in simp_all)
    moreover have "\<not> holds_at d i k" for k using True by (simp add: holds_at_def)
    ultimately show ?thesis using d' p by (auto simp: reset_ready_def reset_frame_def waiters_ok_def get_client_def)
  next
    case False
    let ?ws = "if hf_fence_allocator ?f = ?id \<and> \<not> signaled ?f then waiters d ?id ?f else []"
    obtain d' where d': "hw_fence_utils_cleanup_fence u d cid i hash rf = Some (Inr (), d')" "table_inv d'" "clients_ok d'"
      "fence_view d' = (if hf_fence_allocator ?f = ?id \<and> rf AND RESET_WITHOUT_DESTROY u = 0 then (fence_view d)(fence_key ?f := None)
        else (fence_view d)(fence_key ?f \<mapsto> unwait_entry ?id ?f))"
      "\<forall>k. k \<notin> unat ` set ?ws \<longrightarrow> get_client d' k = get_client d k"
      "rxq_clients_num d' = rxq_clients_num d" "length (clients d') = length (clients d)"
      "hw_fence_table_entries d' = hw_fence_table_entries d" "client_lock_tbl_cnt d' = client_lock_tbl_cnt d"
      "\<And>j. j \<noteq> i \<Longrightarrow> hw_fences_tbl d' ! j = hw_fences_tbl d ! j"
      "hf_valid (hw_fences_tbl d' ! i) = 0 \<longrightarrow> hf_fence_allocator (hw_fences_tbl d' ! i) = 0"
      using cleanup_fence_spec[OF p(1-5) i refl False refl refl refl, of u hash rf] by blast
    have "cid \<notin> unat ` set ?ws" using idc by (auto simp: waiters_def dest: unat_inj)
    then have gc: "get_client d' cid = Some c" using d'(5) p(4) by simp
    have "length (hw_fences_tbl d') = length (hw_fences_tbl d)"
      using table_size_pos(2)[OF table_inv_wf[OF p(1)]] table_size_pos(2)[OF table_inv_wf[OF d'(2)]] d'(8) by simp
    then have "unowned ?id d'" by (rule un) (use d'(10,11) p(7) in auto)
    moreover have "holds_at d i k \<longleftrightarrow> k = fence_key ?f" for k using False i by (auto simp: holds_at_def)
    moreover have "fence_view d (fence_key ?f) = Some ?f" using holds_at_view[OF p(1), of i] False i by (simp add: holds_at_def)
    ultimately show ?thesis using d' p gc by (auto simp: reset_ready_def reset_frame_def waiters_ok_def reset_entry_def)
  qed
qed

lemma reset_loop:
  assumes "reset_ready cid c d" and "distinct js" and "\<forall>i \<in> set js. i < table_size d"
  shows "\<exists>d'. reset_fences u cid rf js d = Some d' \<and> reset_ready cid c d' \<and> reset_frame d d'
    \<and> (\<forall>k. fence_view d' k = (if \<exists>i \<in> set js. holds_at d i k
         then fence_view d k \<bind> reset_entry (cl_client_id c) (rf AND RESET_WITHOUT_DESTROY u = 0) else fence_view d k))"
  using assms
proof (induction js arbitrary: d)
  case Nil
  then show ?case by (simp add: reset_frame_def)
next
  case (Cons i js)
  let ?g = "reset_entry (cl_client_id c) (rf AND RESET_WITHOUT_DESTROY u = 0)"
  obtain d1 where d1: "hw_fence_utils_cleanup_fence u d cid i (of_nat i) rf = Some (Inr (), d1)" "reset_ready cid c d1" "reset_frame d d1"
    "\<And>j. j \<noteq> i \<Longrightarrow> hw_fences_tbl d1 ! j = hw_fences_tbl d ! j"
    "\<And>k. fence_view d1 k = (if holds_at d i k then fence_view d k \<bind> ?g else fence_view d k)"
    using reset_slot[OF Cons.prems(1), of i u "of_nat i" rf] Cons.prems(3) by auto
  have "distinct js" "\<forall>i \<in> set js. i < table_size d1" using Cons.prems d1(3) by (auto simp: reset_frame_def)
  from Cons.IH[OF d1(2) this] obtain d' where d': "reset_fences u cid rf js d1 = Some d'" "reset_ready cid c d'" "reset_frame d1 d'"
    "\<And>k. fence_view d' k = (if \<exists>i \<in> set js. holds_at d1 i k then fence_view d1 k \<bind> ?g else fence_view d1 k)" by blast
  have h: "holds_at d1 j k \<longleftrightarrow> holds_at d j k" if "j \<in> set js" for j k
  proof -
    have "j \<noteq> i" using that Cons.prems(2) by auto
    then show ?thesis using d1(3,4) by (simp add: holds_at_def reset_frame_def)
  qed
  have x: "\<not> holds_at d i k" if "j \<in> set js" "holds_at d j k" for j k
    using that holds_at_unique[of d j k i] Cons.prems(1,2) by (auto simp: reset_ready_def)
  have "fence_view d' k = (if \<exists>i \<in> set (i # js). holds_at d i k then fence_view d k \<bind> ?g else fence_view d k)" for k
    using d'(4)[of k] d1(5)[of k] h[of _ k] x[of _ k] by (cases "\<exists>j \<in> set js. holds_at d j k") auto
  then show ?case using d1 d' by (auto simp: reset_frame_def)
qed


text \<open>C29: \<open>msm_hw_fence_reset_client\<close> seen on the abstract fence map: the fences the client created are gone (unless
  \<open>MSM_HW_FENCE_RESET_WITHOUT_DESTROY\<close> asks to keep them), every other fence stays and no longer waits for the
  client, and the queues of the client are empty.\<close>

theorem reset_client_correct:
  assumes inv: "table_inv d" "clients_ok d" "waiters_ok d" and c: "get_client d cid = Some c" and id: "unat (cl_client_id c) < 64"
    "cl_client_id c \<noteq> 0" and un: "unowned (cl_client_id c) d" and cnt: "hw_fences_tbl_cnt d = hw_fence_table_entries d"
    and vm: "vm_ready d" and qs: "cl_queues c = [tx, rx]" "fifo_wf tx" "fifo_wf rx" "cl_update_rxq c"
    and li: "\<not> client_lock_tbl_cnt d \<le> cl_client_id c - 1"
  shows "\<exists>d' tx' rx'. msm_hw_fence_reset_client u d (Some cid) rf = Some (Inr (), d')
    \<and> fence_view d' = (\<lambda>k. case fence_view d k of
         None \<Rightarrow> None
       | Some f \<Rightarrow> if hf_fence_allocator f = cl_client_id c \<and> rf AND RESET_WITHOUT_DESTROY u = 0 then None
                  else Some (f\<lparr>hf_wait_client_mask := unset_bit (unat (cl_client_id c)) (hf_wait_client_mask f)\<rparr>))
    \<and> get_client d' cid = Some (c\<lparr>cl_queues := [tx', rx']\<rparr>) \<and> queue_wf tx' \<and> queue_wf rx'
    \<and> queue_contents tx' = [] \<and> queue_contents rx' = [] \<and> table_inv d'"
proof -
  have r: "reset_ready cid c d" using assms by (simp add: reset_ready_def)
  have js: "\<forall>i \<in> set [0..<table_size d]. i < table_size d" by simp
  obtain d1 where d1: "reset_fences u cid rf [0..<table_size d] d = Some d1" "reset_ready cid c d1" "reset_frame d d1"
    "\<And>k. fence_view d1 k = (if \<exists>i \<in> set [0..<table_size d]. holds_at d i k
         then fence_view d k \<bind> reset_entry (cl_client_id c) (rf AND RESET_WITHOUT_DESTROY u = 0) else fence_view d k)"
    using reset_loop[OF r distinct_upt js, of u rf] by blast
  have v: "fence_view d1 k = (case fence_view d k of None \<Rightarrow> None
       | Some f \<Rightarrow> if hf_fence_allocator f = cl_client_id c \<and> rf AND RESET_WITHOUT_DESTROY u = 0 then None
                  else Some (f\<lparr>hf_wait_client_mask := unset_bit (unat (cl_client_id c)) (hf_wait_client_mask f)\<rparr>))" for k
  proof (cases "fence_view d k")
    case None
    then show ?thesis using d1(4)[of k] by simp
  next
    case (Some f)
    then have "\<exists>i \<in> set [0..<table_size d]. holds_at d i k" using view_holds_at[OF inv(1) Some] by (auto simp: holds_at_def)
    then show ?thesis using d1(4)[of k] Some by (simp add: reset_entry_def unwait_entry_def)
  qed
  have i1: "table_inv d1" "clients_ok d1" "get_client d1 cid = Some c" "client_lock_tbl_cnt d1 = client_lock_tbl_cnt d"
    using d1(2,3) by (simp_all add: reset_ready_def reset_frame_def)
  have ll: "unat (client_lock_tbl_cnt d1) \<le> length (client_lock_tbl d1)" "\<not> client_lock_tbl_cnt d1 \<le> cl_client_id c - 1"
    using i1(2,4) li by (simp_all add: clients_ok_def)
  from reset_queues_spec[OF i1(3) qs(1-3,4) ll(2) locks_free_split[OF table_inv_wf[OF i1(1)] i1(2)] ll(1)]
  obtain tx' rx' where q: "hw_fence_utils_reset_queues d1 cid = Some (set_queue cid 1 rx' (set_queue cid 0 tx' d1))"
    "queue_wf tx'" "queue_wf rx'" "queue_contents tx' = []" "queue_contents rx' = []" by blast
  let ?d' = "set_queue cid 1 rx' (set_queue cid 0 tx' d1)"
  have g: "get_client (set_queue cid 0 tx' d1) cid = Some (c\<lparr>cl_queues := [tx', rx]\<rparr>)"
    by (simp add: get_client_set_queue[OF i1(3)] qs)
  have "get_client ?d' cid = Some (c\<lparr>cl_queues := [tx', rx']\<rparr>)" by (simp add: get_client_set_queue[OF g])
  moreover have e: "hw_fences_tbl ?d' = hw_fences_tbl d1" "hw_fence_table_entries ?d' = hw_fence_table_entries d1"
    by (simp_all add: set_queue_def set_client_def split: option.splits)
  then have "table_inv ?d'" "fence_view ?d' = fence_view d1"
    using i1(1) by (simp_all add: table_inv_def table_wf_def fence_view_def fun_eq_iff)
  moreover have "msm_hw_fence_reset_client u d (Some cid) rf = Some (Inr (), ?d')"
    using d1(1) q(1) vm cnt by (simp add: msm_hw_fence_reset_client_def)
  ultimately show ?thesis using q v by (intro exI[of _ ?d'] exI[of _ tx'] exI[of _ rx']) auto
qed


theorem reset_client_correct_witness:
  "\<exists>d' tx' rx'. msm_hw_fence_reset_client demo_uapi (demo_wait 0) (Some 1) 0 = Some (Inr (), d') \<and> fence_view d' (5, 1) = None
    \<and> get_client d' 1 = Some (demo_client\<lparr>cl_queues := [tx', rx']\<rparr>) \<and> queue_contents rx' = []"
proof -
  have id: "unat (cl_client_id demo_client) < 64" "cl_client_id demo_client \<noteq> 0" "cl_queues demo_client = [demo_queue 0 1, demo_queue 0 1]"
    "cl_update_rxq demo_client" by (simp_all add: demo_client_def)
  have un: "unowned (cl_client_id demo_client) (demo_wait 0)"
    by (simp add: unowned_def demo_wait_def demo_driver_def free_fence_def fresh_fence_def demo_client_def)
  have d: "hw_fences_tbl_cnt (demo_wait 0) = hw_fence_table_entries (demo_wait 0)" "vm_ready (demo_wait 0)"
    "\<not> client_lock_tbl_cnt (demo_wait 0) \<le> cl_client_id demo_client - 1"
    by (simp_all add: demo_wait_def demo_driver_def demo_client_def)
  have wf: "fifo_wf (demo_queue 0 1)" using demo_queue_wf by (simp add: fifo_wf_def demo_queue_def)
  have al: "hf_fence_allocator (fresh_fence 1 (5, 1) 0 0 0) = cl_client_id demo_client" by (simp add: fresh_fence_def demo_client_def)
  show ?thesis
  proof -
    obtain d' tx' rx' where "msm_hw_fence_reset_client demo_uapi (demo_wait 0) (Some 1) 0 = Some (Inr (), d')"
      "fence_view d' (5, 1) = None" "get_client d' 1 = Some (demo_client\<lparr>cl_queues := [tx', rx']\<rparr>)" "queue_contents rx' = []"
      using reset_client_correct[OF demo_wait_inv demo_wait_clients(1,3,2) id(1,2) un d(1,2) id(3) wf wf id(4) d(3), where u = demo_uapi and rf = 0]
      by (auto simp: demo_wait_view al)
    then show ?thesis by blast
  qed
qed

section \<open>Creating and destroying a fence through the interface\<close>

text \<open>a client that creates a hardware fence for a dma-fence gets its handle and the flag on the dma-fence, a second
  creation for the same dma-fence is refused, and destroying it gives back the dma-fence and
  the fence map as they were. When the table is full the creation fails and changes nothing.\<close>

theorem api_create_destroy:
  assumes inv: "table_inv d" and c: "get_client d cid = Some c" and vm: "vm_ready d"
    and fn: "\<not> df_is_array fn" "\<not> bit (df_flags fn) (FLAG_ENABLED_BIT u)" "FLAG_ENABLED_BIT u < 64"
    and k: "legal_key (df_context fn, df_seqno fn)" "fence_view d (df_context fn, df_seqno fn) = None"
  shows "if card (dom (fence_view d)) < table_size d
    then \<exists>i fn' d1 d2. msm_hw_fence_create u d (Some cid) (Some fn) True = Some (Inr (), Some (of_nat i), Some fn', d1)
      \<and> fn' = fn\<lparr>df_flags := set_bit (FLAG_ENABLED_BIT u) (df_flags fn)\<rparr>
      \<and> hf_fence_allocator (hw_fences_tbl d1 ! i) = cl_client_id c
      \<and> fence_view d1 = (fence_view d)((df_context fn, df_seqno fn) \<mapsto> hw_fences_tbl d1 ! i)
      \<and> msm_hw_fence_create u d1 (Some cid) (Some fn') True = Some (Inl EINVAL, None, Some fn', d1)
      \<and> msm_hw_fence_destroy u d1 (Some cid) (Some fn') = Some (Inr (), Some fn, d2) \<and> table_inv d2 \<and> fence_view d2 = fence_view d
    else \<exists>h. msm_hw_fence_create u d (Some cid) (Some fn) True = Some (Inl EINVAL, h, Some fn, d)"
proof (cases "card (dom (fence_view d)) < table_size d")
  case False
  then show ?thesis using hw_fence_create_spec[OF inv k, of "cl_client_id c"] c vm fn by (auto simp: msm_hw_fence_create_def)
next
  case True
  let ?fl = "set_bit (FLAG_ENABLED_BIT u) (df_flags fn)"
  let ?fn = "fn\<lparr>df_flags := ?fl\<rparr>"
  obtain i d1 where d1: "hw_fence_create d (cl_client_id c) (df_context fn) (df_seqno fn) = Some (Inr (), of_nat i, d1)" "i < table_size d"
    "table_inv d1" "d1 = set_fence i (fresh_fence (cl_client_id c) (df_context fn, df_seqno fn) 0 (qtimer d (qtime_reads d)) (hf_lock (hw_fences_tbl d ! i)))
            (d\<lparr>qtime_reads := Suc (qtime_reads d)\<rparr>)" "fence_view d1 = (fence_view d)((df_context fn, df_seqno fn) \<mapsto> hw_fences_tbl d1 ! i)"
    using hw_fence_create_spec[OF inv k, of "cl_client_id c"] True by auto
  obtain d2 where d2: "hw_fence_destroy d1 (cl_client_id c) (df_context fn) (df_seqno fn) = Some (Inr (), d2)" "table_inv d2"
    "fence_view d2 = (fence_view d1)((df_context fn, df_seqno fn) := None)"
    using hw_fence_destroy_spec[OF d1(3) k(1), of "cl_client_id c"] d1(5) by auto
  have "i < length (hw_fences_tbl d)" using table_wfD[OF table_inv_wf[OF inv] d1(2)] by simp
  then have al: "hf_fence_allocator (hw_fences_tbl d1 ! i) = cl_client_id c" by (simp add: d1(4) set_fence_def fresh_fence_def)
  have b: "bit ?fl (FLAG_ENABLED_BIT u)" using fn(3) by (simp add: bit_set_bit_iff)
  have z: "unset_bit (FLAG_ENABLED_BIT u) ?fl = df_flags fn"
    using fn(2) by (intro bit_word_eqI) (auto simp: bit_unset_bit_iff bit_set_bit_iff)
  have c1: "get_client d1 cid = Some c" "vm_ready d1" using c vm by (simp_all add: d1(4) set_fence_def get_client_def)
  have "fence_view d2 = fence_view d" using d2(3) d1(5) k(2) by (auto simp: fun_eq_iff)
  moreover have "msm_hw_fence_create u d (Some cid) (Some fn) True = Some (Inr (), Some (of_nat i), Some ?fn, d1)"
    using d1(1) c vm fn by (simp add: msm_hw_fence_create_def)
  moreover have "msm_hw_fence_create u d1 (Some cid) (Some ?fn) True = Some (Inl EINVAL, None, Some ?fn, d1)"
    using fn c1 b by (simp add: msm_hw_fence_create_def)
  moreover have "msm_hw_fence_destroy u d1 (Some cid) (Some ?fn) = Some (Inr (), Some fn, d2)"
    using fn c1 b z d2(1) by (simp add: msm_hw_fence_destroy_def)
  ultimately show ?thesis using True al d1(5) d2(2) by auto
qed

theorem api_create_destroy_witness:
  "\<exists>h fn' d1 d2. msm_hw_fence_create demo_uapi demo_table (Some 1) (Some \<lparr>df_context = 1, df_seqno = 3, df_flags = 0, df_is_array = False\<rparr>) True
      = Some (Inr (), Some h, Some fn', d1) \<and> fence_view d1 (1, 3) \<noteq> None
    \<and> msm_hw_fence_destroy demo_uapi d1 (Some 1) (Some fn') = Some (Inr (), Some \<lparr>df_context = 1, df_seqno = 3, df_flags = 0, df_is_array = False\<rparr>, d2)
    \<and> fence_view d2 = Map.empty"
proof -
  let ?fn = "\<lparr>df_context = 1, df_seqno = 3, df_flags = 0, df_is_array = False\<rparr> :: dma_fence"
  have "get_client demo_table 1 = Some demo_client" "vm_ready demo_table" "FLAG_ENABLED_BIT demo_uapi < 64"
    "legal_key (df_context ?fn, df_seqno ?fn)"
    by (simp_all add: demo_table_def get_client_def demo_driver_def demo_uapi_def legal_key_def)
  with api_create_destroy[OF demo_table_inv, of 1 demo_client ?fn demo_uapi] show ?thesis by (auto simp: demo_table_view)
qed


section \<open>Fence errors from the control queue\<close>

definition plain_queue :: "msm_hw_fence_queue \<Rightarrow> bool" where
  "plain_queue q \<longleftrightarrow> queue_wf q \<and> \<not> q_skip_wr_idx q \<and> \<not> REQUIRES_IDX_TRANSLATION q"

lemma read_plain:
  assumes q: "plain_queue q" and cs: "queue_contents q = x # xs"
  obtains q' where "hw_fence_read_queue_helper q (Some buf) = Some (Inr (if xs = [] then 0 else 1), Some x, q')"
    and "plain_queue q'" and "queue_contents q' = xs"
proof -
  obtain n r w where ok: "queue_ok q n r w" using q by (auto simp: plain_queue_def elim: queue_wfE)
  obtain q' rc where q': "hw_fence_read_queue_helper q (Some buf) = Some (Inr rc, Some x, q')" "queue_ok q' n (Suc r mod n) w"
    "queue_contents q' = xs" "\<not> q_skip_wr_idx q'"
    using read_queue_Cons[OF ok _ cs, of buf] q unfolding plain_queue_def by metis
  have "\<not> REQUIRES_IDX_TRANSLATION q'"
    using q'(1) q by (auto simp: hw_fence_read_queue_helper_def plain_queue_def REQUIRES_IDX_TRANSLATION_def Let_def bind_Some_iff
        split: option.splits prod.splits if_splits)
  then have "plain_queue q'" using q' queue_wfI by (auto simp: plain_queue_def)
  moreover have "rc = (if xs = [] then 0 else 1)"
    using read_more_spec[OF _ _ _ q'(1)] q q'(3) by (auto simp: plain_queue_def)
  ultimately show thesis using that q' by blast
qed

text \<open>The callback a message of the control queue asks for.\<close>

definition error_calls :: "hw_fence_uapi \<Rightarrow> hw_fence_driver_data \<Rightarrow> msm_hw_fence_queue_payload \<Rightarrow> error_cb_call list" where
  "error_calls u d p =
     (if pl_type p = HW_FENCE_PAYLOAD_TYPE_2 \<and> ucast (CLIENT_ID_CTX0 u) \<le> pl_client_data p \<and> pl_client_data p < ucast (clients_num d)
      then (case clients d ! unat (pl_client_data p) of
         None \<Rightarrow> []
       | Some c \<Rightarrow> if pl_error p \<noteq> 0 \<and> cl_fence_error_cb c \<noteq> None
           then [\<lparr>cb_client = cl_client_id c, cb_hash = pl_hash p, cb_error = pl_error p, cb_context = pl_ctxt_id p,
             cb_seqno = pl_seqno p, cb_flags = pl_flags p, cb_data = cl_fence_error_cb_userdata c\<rparr>] else [])
      else [])"

definition add_calls :: "error_cb_call list \<Rightarrow> hw_fence_driver_data \<Rightarrow> hw_fence_driver_data" where
  "add_calls cs d = d\<lparr>error_cb_calls := error_cb_calls d @ cs\<rparr>"

lemma add_calls_simps [simp]:
  "add_calls [] d = d" "add_calls ys (add_calls xs d) = add_calls (xs @ ys) d" "clients (add_calls xs d) = clients d"
  "clients_num (add_calls xs d) = clients_num d" "ctrl_queues (add_calls xs d) = ctrl_queues d"
  "client_lock_tbl (add_calls xs d) = client_lock_tbl d" "client_lock_tbl_cnt (add_calls xs d) = client_lock_tbl_cnt d"
  by (simp_all add: add_calls_def)

lemma ctrl_rxq_upd_simps [simp]:
  "clients (ctrl_rxq_upd q d) = clients d" "clients_num (ctrl_rxq_upd q d) = clients_num d"
  "ctrl_queues (ctrl_rxq_upd q d) = (ctrl_queues d)[1 := q]" "ctrl_rxq_upd q' (ctrl_rxq_upd q d) = ctrl_rxq_upd q' d"
  "ctrl_rxq_upd q (add_calls xs d) = add_calls xs (ctrl_rxq_upd q d)"
  "client_lock_tbl (ctrl_rxq_upd q d) = client_lock_tbl d" "client_lock_tbl_cnt (ctrl_rxq_upd q d) = client_lock_tbl_cnt d"
  by (simp_all add: ctrl_rxq_upd_def add_calls_def HW_FENCE_RX_QUEUE_def)

lemma clients_ok_loop [simp]: "clients_ok (ctrl_rxq_upd q d) = clients_ok d" "clients_ok (add_calls xs d) = clients_ok d"
  by (simp_all add: clients_ok_def)

lemma error_calls_loop [simp]: "error_calls u (ctrl_rxq_upd q d) = error_calls u d" "error_calls u (add_calls xs d) = error_calls u d"
  by (simp_all add: error_calls_def fun_eq_iff)

lemma process_error_payload_spec:
  assumes ok: "clients_ok d" and n: "unat (clients_num d) \<le> length (clients d)"
  shows "process_error_payload u d p = Some (if error_calls u d p = [] then Inl EINVAL else Inr (), add_calls (error_calls u d p) d)"
proof (cases "pl_type p = HW_FENCE_PAYLOAD_TYPE_2 \<and> ucast (CLIENT_ID_CTX0 u) \<le> pl_client_data p \<and> pl_client_data p < ucast (clients_num d)")
  case False
  then show ?thesis by (auto simp: process_error_payload_def error_calls_def not_le not_less)
next
  case True
  then have i: "unat (pl_client_data p) < length (clients d)" using n by (auto simp: word_less_nat_alt)
  have g: "\<not> (pl_client_data p < ucast (CLIENT_ID_CTX0 u) \<or> ucast (clients_num d) \<le> pl_client_data p)"
    using True by (auto simp: not_le not_less)
  show ?thesis
  proof (cases "clients d ! unat (pl_client_data p)")
    case None
    then show ?thesis using True g i by (simp add: process_error_payload_def error_calls_def)
  next
    case (Some c)
    have "\<not> cl_error_cb_lock c" using ok i Some by (auto simp: clients_ok_def client_ok_def)
    moreover have "get_client d (unat (pl_client_data p)) = Some c" using i Some by (simp add: get_client_def)
    ultimately show ?thesis using True g i Some
      by (simp add: process_error_payload_def error_calls_def hw_fence_utils_fence_error_cb_def add_calls_def)
  qed
qed

lemma error_loopback_spec:
  assumes "clients_ok d" and "unat (clients_num d) \<le> length (clients d)" and "1 < length (ctrl_queues d)"
    and "plain_queue (ctrl_queues d ! 1)" and "queue_contents (ctrl_queues d ! 1) = ps" and "ps \<noteq> []"
  shows "\<exists>q'. error_loopback u stack n ret d =
      Some (if \<exists>p \<in> set (take n ps). error_calls u d p = [] then Inl EINVAL else ret,
        add_calls (concat (map (error_calls u d) (take n ps))) (ctrl_rxq_upd q' d))
    \<and> plain_queue q' \<and> queue_contents q' = drop n ps"
  using assms
proof (induction n arbitrary: d ps ret)
  case 0
  have "ctrl_rxq_upd (ctrl_queues d ! 1) d = d" by (simp add: ctrl_rxq_upd_def HW_FENCE_RX_QUEUE_def)
  then show ?case using "0.prems" by (intro exI[of _ "ctrl_queues d ! 1"]) simp
next
  case (Suc n)
  obtain p ps' where ps: "ps = p # ps'" using Suc.prems(6) by (cases ps) auto
  obtain q1 where q1: "hw_fence_read_queue_helper (ctrl_queues d ! 1) (Some stack) = Some (Inr (if ps' = [] then 0 else 1), Some p, q1)"
    "plain_queue q1" "queue_contents q1 = ps'"
    using read_plain[OF Suc.prems(4), of p ps' stack] Suc.prems(5) ps by auto
  let ?rc = "if error_calls u d p = [] then Inl EINVAL else Inr ()" and ?d1 = "add_calls (error_calls u d p) (ctrl_rxq_upd q1 d)"
  let ?ret = "if error_calls u d p = [] then Inl EINVAL else ret"
  have pr: "process_error_payload u (ctrl_rxq_upd q1 d) p = Some (?rc, ?d1)"
    using process_error_payload_spec[of "ctrl_rxq_upd q1 d" u p] Suc.prems(1,2) by simp
  have run: "error_loopback u stack (Suc n) ret d = (if ps' = [] then Some (?ret, ?d1) else error_loopback u stack n ?ret ?d1)"
    using q1 pr Suc.prems(3) by (auto simp: HW_FENCE_RX_QUEUE_def idx_def)
  show ?case
  proof (cases "ps' = []")
    case True
    then show ?thesis using run q1 ps by (intro exI[of _ q1]) simp
  next
    case False
    from Suc.IH[of ?d1 ps' ?ret] obtain q' where "error_loopback u stack n ?ret ?d1 =
      Some (if \<exists>p \<in> set (take n ps'). error_calls u d p = [] then Inl EINVAL else ?ret,
        add_calls (concat (map (error_calls u d) (take n ps'))) (ctrl_rxq_upd q' ?d1))" "plain_queue q'" "queue_contents q' = drop n ps'"
      using Suc.prems q1 False by auto
    then show ?thesis using run ps False by (intro exI[of _ q']) auto
  qed
qed

text \<open>when the control doorbell rings, the fence errors in the control RX queue are delivered in order, each exactly once
  to the error callback of the client it names, up to 100 of them; the others stay in the queue. Messages
  of another type, for a client that does not exist or has no callback, and without an error are skipped.
  No client and no other queue changes.\<close>

theorem error_delivery_correct:
  assumes "clients_ok d" and "unat (clients_num d) \<le> length (clients d)" and "1 < length (ctrl_queues d)"
    and "plain_queue (ctrl_queues d ! 1)"
  shows "\<exists>d' q'. hw_fence_utils_process_doorbell_mask u stack d 1 = Some d' \<and> queue_wf q'
    \<and> queue_contents q' = drop 100 (queue_contents (ctrl_queues d ! 1))
    \<and> d' = d\<lparr>ctrl_queues := (ctrl_queues d)[1 := q'],
          error_cb_calls := error_cb_calls d @ concat (map (error_calls u d) (take 100 (queue_contents (ctrl_queues d ! 1))))\<rparr>"
proof -
  have db: "hw_fence_utils_process_doorbell_mask u stack d 1 = map_option snd (error_loopback u stack 100 (Inr ()) d)"
    by (cases "error_loopback u stack 100 (Inr ()) d")
       (auto simp: hw_fence_utils_process_doorbell_mask_def HW_FENCE_CTRL_QUEUE_DOORBELL_def upt_conv_Cons process_doorbell_id_def
        HW_FENCE_MAX_ITER_READ_def Let_def simp del: upt_Suc)
  show ?thesis
  proof (cases "queue_contents (ctrl_queues d ! 1) = []")
    case False
    with error_loopback_spec[OF assms refl False, of u stack 100 "Inr ()"] show ?thesis
      unfolding db by (auto simp: add_calls_def ctrl_rxq_upd_def HW_FENCE_RX_QUEUE_def plain_queue_def)
  next
    case True
    obtain n r w where "queue_ok (ctrl_queues d ! 1) n r w" using assms(4) by (auto simp: plain_queue_def elim: queue_wfE)
    from read_queue_empty[OF this _ True, of stack] assms(4)
    have "hw_fence_read_queue_helper (ctrl_queues d ! 1) (Some stack) = Some (Inl EINVAL, Some stack, ctrl_queues d ! 1)"
      by (simp add: plain_queue_def)
    then have "error_loopback u stack (Suc n) (Inr ()) d = Some (Inl EINVAL, d)" for n
      using assms(3) by (simp add: HW_FENCE_RX_QUEUE_def idx_def ctrl_rxq_upd_def)
    from this[of 99] show ?thesis using True assms(4) unfolding db by (intro exI[of _ d] exI[of _ "ctrl_queues d ! 1"]) (simp add: plain_queue_def)
  qed
qed


text \<open>The control RX queue holds one fence error for the client with id 1.\<close>

definition demo_error :: msm_hw_fence_queue_payload where
  "demo_error = zero_payload\<lparr>pl_type := HW_FENCE_PAYLOAD_TYPE_2, pl_client_data := 1, pl_error := 5\<rparr>"

definition demo_ctrl :: msm_hw_fence_queue where
  "demo_ctrl = (demo_queue 0 1)\<lparr>q_va_queue := put_payload (q_va_queue (demo_queue 0 1)) 0 demo_error,
     q_va_header := map_option (\<lambda>h. h\<lparr>qh_write_index := 16\<rparr>) (q_va_header (demo_queue 0 1))\<rparr>"

lemma demo_ctrl_ok: "plain_queue demo_ctrl" "queue_contents demo_ctrl = [demo_error]"
proof -
  show "plain_queue demo_ctrl" by (simp add: plain_queue_def demo_ctrl_def queue_eval_defs)
  have "length (q_va_queue (demo_queue 0 1)) = 16 * 3" by (simp add: demo_queue_def)
  from slot_put[OF this, of 0 0 demo_error] have "slot (q_va_queue demo_ctrl) 0 = demo_error" by (simp add: demo_ctrl_def)
  then show "queue_contents demo_ctrl = [demo_error]"
    by (simp add: queue_contents_def ring_def) (simp add: demo_ctrl_def queue_eval_defs)
qed

definition demo_loop :: hw_fence_driver_data where
  "demo_loop = (demo_driver [])\<lparr>ctrl_queues := [demo_ctrl, demo_ctrl], clients := [None, Some (demo_client\<lparr>cl_fence_error_cb := Some 7\<rparr>), None]\<rparr>"

theorem error_delivery_correct_witness:
  "\<exists>d'. hw_fence_utils_process_doorbell_mask demo_uapi zero_payload demo_loop 1 = Some d'
    \<and> map cb_error (error_cb_calls d') = [5] \<and> map cb_client (error_cb_calls d') = [1]"
proof -
  have "clients_ok demo_loop" using demo_queue_wf
    by (auto simp: clients_ok_def demo_loop_def demo_driver_def client_ok_def demo_client_def lo32_def nth_Cons' split: if_splits)
  moreover have "unat (clients_num demo_loop) \<le> length (clients demo_loop)" "1 < length (ctrl_queues demo_loop)"
    "ctrl_queues demo_loop ! 1 = demo_ctrl" "error_cb_calls demo_loop = []"
    by (simp_all add: demo_loop_def demo_driver_def)
  moreover have "map cb_error (error_calls demo_uapi demo_loop demo_error) = [5]" "map cb_client (error_calls demo_uapi demo_loop demo_error) = [1]"
    by (simp_all add: error_calls_def demo_error_def demo_loop_def demo_driver_def demo_client_def demo_uapi_def)
  ultimately show ?thesis using error_delivery_correct[of demo_loop demo_uapi zero_payload] demo_ctrl_ok by auto
qed

text \<open>The control queues are sized for payloads of 24 bytes but read in payloads of 64. With three entries
  and one 24-byte message in the queue the first read asks for another one, which starts inside
  the queue and ends outside.\<close>

definition demo_ctrl_24 :: msm_hw_fence_queue where
  "demo_ctrl_24 = (demo_queue 0 1)\<lparr>q_size_bytes := of_nat (3 * HW_FENCE_CTRL_QUEUE_PAYLOAD), q_va_queue := replicate 18 0,
     q_va_header := map_option (\<lambda>h. h\<lparr>qh_write_index := 6\<rparr>) (q_va_header (demo_queue 0 1))\<rparr>"

lemma ctrl_rxq_misaligned:
  "\<exists>p q'. hw_fence_read_queue_helper demo_ctrl_24 (Some buf) = Some (Inr 1, Some p, q') \<and>
     hw_fence_read_queue_helper q' (Some p) = None"
  by (simp add: demo_ctrl_24_def queue_eval_defs hw_fence_read_queue_helper_def HW_FENCE_CTRL_QUEUE_PAYLOAD_def
        translate_queue_indexes_custom_to_default_def payload_at_def Let_def)

end
