(* ===== verification/Synx_Global.thy ===== *)
theory Synx_Global
  imports Fence_Interfaces
begin

text \<open>
  The global synx table of \<^verbatim>\<open>synx_global.c\<close>: synchronisation objects in memory shared between the
  application processor and the other cores, allocated by a bitmap, guarded by one hardware
  spinlock, with reference counts, waiting and subscribed cores, and composite objects that are
  signalled when their last child is.

  The state holds the bitmap, the table (the empty list is the NULL pointer before
  \<open>synx_global_mem_init\<close>), whether \<open>synx_hwlock\<close> was obtained and is held, and the IPC messages
  sent so far. The result of the \<open>n\<close>-th attempt to take the hardware lock is \<open>sg_lock_rc n\<close>
  (0, or the error after the timeout); an attempt while this core holds the lock times out. Return codes
  are the integers of the code. Between two locked sections of one call no other core acts, except
  where a definition takes the interference as an argument.
\<close>

section \<open>Constants and data\<close>

definition SYNX_SUCCESS :: int where "SYNX_SUCCESS = 0"
definition SYNX_NOMEM :: int where "SYNX_NOMEM = 12"
definition SYNX_TIMEOUT :: int where "SYNX_TIMEOUT = 110"
definition SYNX_ALREADY :: int where "SYNX_ALREADY = 114"
definition SYNX_NOENT :: int where "SYNX_NOENT = 2"
definition SYNX_INVALID :: int where "SYNX_INVALID = 22"

definition SYNX_CORE_APSS :: nat where "SYNX_CORE_APSS = 0"
definition SYNX_CORE_NSP :: nat where "SYNX_CORE_NSP = 1"
definition SYNX_CORE_EVA :: nat where "SYNX_CORE_EVA = 2"
definition SYNX_CORE_IRIS :: nat where "SYNX_CORE_IRIS = 3"
definition SYNX_CORE_ICP :: nat where "SYNX_CORE_ICP = 4"
definition SYNX_CORE_MAX :: nat where "SYNX_CORE_MAX = 5"

definition SYNX_GLOBAL_MAX_OBJS :: nat where "SYNX_GLOBAL_MAX_OBJS = 4096"
definition SYNX_GLOBAL_MAX_PARENTS :: nat where "SYNX_GLOBAL_MAX_PARENTS = 4"
definition SYNX_HANDLE_INDEX_MASK :: u32 where "SYNX_HANDLE_INDEX_MASK = push_bit 16 1 - 1"

definition SYNX_STATE_ACTIVE :: u32 where "SYNX_STATE_ACTIVE = 1"
definition SYNX_STATE_SIGNALED_SUCCESS :: u32 where "SYNX_STATE_SIGNALED_SUCCESS = 2"
definition SYNX_STATE_SIGNALED_SSR :: u32 where "SYNX_STATE_SIGNALED_SSR = 6"
definition SYNX_STATE_SIGNALED_MAX :: u32 where "SYNX_STATE_SIGNALED_MAX = 64"

lemmas synx_consts = SYNX_SUCCESS_def SYNX_NOMEM_def SYNX_TIMEOUT_def SYNX_ALREADY_def SYNX_NOENT_def SYNX_INVALID_def
  SYNX_CORE_APSS_def SYNX_CORE_NSP_def SYNX_CORE_EVA_def SYNX_CORE_IRIS_def SYNX_CORE_ICP_def SYNX_CORE_MAX_def
  SYNX_GLOBAL_MAX_OBJS_def SYNX_GLOBAL_MAX_PARENTS_def SYNX_HANDLE_INDEX_MASK_def
  SYNX_STATE_ACTIVE_def SYNX_STATE_SIGNALED_SUCCESS_def SYNX_STATE_SIGNALED_SSR_def SYNX_STATE_SIGNALED_MAX_def

record synx_global_coredata =
  g_status :: u32
  g_handle :: u32
  g_refcount :: u16
  g_num_child :: u16
  g_subscribers :: u16
  g_waiters :: u16
  g_parents :: "u16 list"

definition zero_coredata :: synx_global_coredata where
  "zero_coredata = \<lparr>g_status = 0, g_handle = 0, g_refcount = 0, g_num_child = 0, g_subscribers = 0, g_waiters = 0,
     g_parents = replicate SYNX_GLOBAL_MAX_PARENTS 0\<rparr>"

record synx_shared_mem =
  sg_bitmap :: "u32 list"
  sg_table :: "synx_global_coredata list"
  sg_hwlock :: bool
  sg_locked :: bool
  sg_lock_rc :: "nat \<Rightarrow> int"
  sg_lock_calls :: nat
  sg_msgs :: "(u32 \<times> u64) list"

definition synx_is_valid_idx :: "u32 \<Rightarrow> bool" where
  "synx_is_valid_idx i \<longleftrightarrow> i < of_nat SYNX_GLOBAL_MAX_OBJS"

definition put_entry :: "nat \<Rightarrow> synx_global_coredata \<Rightarrow> synx_shared_mem \<Rightarrow> synx_shared_mem" where
  "put_entry i e s = s\<lparr>sg_table := (sg_table s)[i := e]\<rparr>"

section \<open>The lock\<close>

definition synx_gmem_lock_owner :: "synx_shared_mem \<Rightarrow> u16 option" where
  "synx_gmem_lock_owner s = map_option g_subscribers (idx (sg_table s) 0)"

definition synx_gmem_lock_owner_set :: "synx_shared_mem \<Rightarrow> synx_shared_mem option" where
  "synx_gmem_lock_owner_set s = map_option (\<lambda>e. put_entry 0 (e\<lparr>g_subscribers := of_nat SYNX_CORE_APSS\<rparr>) s) (idx (sg_table s) 0)"

definition synx_gmem_lock_owner_clear :: "synx_shared_mem \<Rightarrow> synx_shared_mem option" where
  "synx_gmem_lock_owner_clear s = map_option (\<lambda>e. put_entry 0 (e\<lparr>g_subscribers := of_nat SYNX_CORE_MAX\<rparr>) s) (idx (sg_table s) 0)"

definition hwspin_lock_timeout :: "synx_shared_mem \<Rightarrow> int \<times> synx_shared_mem" where
  "hwspin_lock_timeout s =
     (let rc = (if sg_locked s then - SYNX_TIMEOUT else sg_lock_rc s (sg_lock_calls s)) in
      (rc, s\<lparr>sg_lock_calls := Suc (sg_lock_calls s), sg_locked := (sg_locked s \<or> rc = 0)\<rparr>))"

definition synx_gmem_lock :: "synx_shared_mem \<Rightarrow> (int \<times> synx_shared_mem) option" where
  "synx_gmem_lock s =
     (if \<not> sg_hwlock s then Some (- SYNX_INVALID, s)
      else (let (rc, s1) = hwspin_lock_timeout s in
        if rc \<noteq> 0 then Some (rc, s1) else map_option (Pair rc) (synx_gmem_lock_owner_set s1)))"

definition synx_gmem_unlock :: "synx_shared_mem \<Rightarrow> synx_shared_mem option" where
  "synx_gmem_unlock s = map_option (\<lambda>s1. s1\<lparr>sg_locked := False\<rparr>) (synx_gmem_lock_owner_clear s)"

text \<open>The locked section every operation on an entry consists of: \<open>f\<close> reads and updates the entry.\<close>

definition gmem_section ::
    "nat \<Rightarrow> (synx_global_coredata \<Rightarrow> 'x \<times> synx_global_coredata) \<Rightarrow> synx_shared_mem \<Rightarrow> ((int + 'x) \<times> synx_shared_mem) option" where
  "gmem_section i f s = do {
     (rc, s1) \<leftarrow> synx_gmem_lock s;
     if rc \<noteq> 0 then Some (Inl rc, s1)
     else do {
       e \<leftarrow> idx (sg_table s1) i;
       (let (x, e') = f e in do {
          s2 \<leftarrow> synx_gmem_unlock (put_entry i e' s1);
          Some (Inr x, s2) }) } }"

definition section_rc :: "(int + int) \<times> synx_shared_mem \<Rightarrow> int \<times> synx_shared_mem" where
  "section_rc r = (case r of (Inl rc, s) \<Rightarrow> (rc, s) | (Inr rc, s) \<Rightarrow> (rc, s))"

section \<open>Allocation of entries\<close>

definition bm_bit :: "u32 list \<Rightarrow> nat \<Rightarrow> bool" where
  "bm_bit bm i \<longleftrightarrow> bit (bm ! (i div 32)) (i mod 32)"

definition find_first_zero_bit :: "u32 list \<Rightarrow> nat \<Rightarrow> nat" where
  "find_first_zero_bit bm n = (case List.find (\<lambda>i. \<not> bm_bit bm i) [0..<n] of None \<Rightarrow> n | Some i \<Rightarrow> i)"

definition find_next_bit :: "u32 list \<Rightarrow> nat \<Rightarrow> nat \<Rightarrow> nat" where
  "find_next_bit bm n k = (case List.find (bm_bit bm) [k..<n] of None \<Rightarrow> n | Some i \<Rightarrow> i)"

definition ipclite_global_test_and_set_bit :: "nat \<Rightarrow> nat \<Rightarrow> u32 list \<Rightarrow> (u32 \<times> u32 list) option" where
  "ipclite_global_test_and_set_bit nr word_idx bm = do {
     w \<leftarrow> idx bm word_idx;
     Some (w, bm[word_idx := w OR push_bit nr 1]) }"

definition ipclite_global_test_and_clear_bit :: "nat \<Rightarrow> nat \<Rightarrow> u32 list \<Rightarrow> (u32 \<times> u32 list) option" where
  "ipclite_global_test_and_clear_bit nr word_idx bm = do {
     w \<leftarrow> idx bm word_idx;
     Some (w, bm[word_idx := w AND NOT (push_bit nr 1)]) }"

text \<open>\<open>synx_global_alloc_index\<close>. Other cores allocate from the same bitmap without the lock: \<open>env k\<close> is what they do
  to the bitmap in round \<open>k\<close>, between the search and the atomic test-and-set. The loop has \<open>fuel\<close> rounds.\<close>

fun alloc_loop :: "(nat \<Rightarrow> u32 list \<Rightarrow> u32 list) \<Rightarrow> nat \<Rightarrow> nat \<Rightarrow> u32 list \<Rightarrow> ((int + nat) \<times> u32 list) option" where
  "alloc_loop env 0 k bm = None"
| "alloc_loop env (Suc fuel) k bm =
     (let index = find_first_zero_bit bm SYNX_GLOBAL_MAX_OBJS in
      if index \<ge> SYNX_GLOBAL_MAX_OBJS then Some (Inl (- SYNX_NOMEM), bm)
      else do {
        (prev, bm') \<leftarrow> ipclite_global_test_and_set_bit (index mod 32) (index div 32) (env k bm);
        if prev AND push_bit (index mod 32) 1 = 0 then Some (Inr index, bm') else alloc_loop env fuel (Suc k) bm' })"

definition synx_global_alloc_index ::
    "(nat \<Rightarrow> u32 list \<Rightarrow> u32 list) \<Rightarrow> nat \<Rightarrow> bool \<Rightarrow> synx_shared_mem \<Rightarrow> ((int + u32) \<times> synx_shared_mem) option" where
  "synx_global_alloc_index env fuel has_ptr s =
     (if sg_table s = [] then Some (Inl (- SYNX_NOMEM), s)
      else if \<not> has_ptr then Some (Inl (- SYNX_INVALID), s)
      else do {
        (r, bm) \<leftarrow> alloc_loop env fuel 0 (sg_bitmap s);
        Some (case r of Inl rc \<Rightarrow> Inl rc | Inr i \<Rightarrow> Inr (of_nat i), s\<lparr>sg_bitmap := bm\<rparr>) })"

definition release_index :: "nat \<Rightarrow> synx_shared_mem \<Rightarrow> synx_shared_mem option" where
  "release_index i s = map_option (\<lambda>(_, bm). s\<lparr>sg_bitmap := bm\<rparr>) (ipclite_global_test_and_clear_bit (i mod 32) (i div 32) (sg_bitmap s))"

text \<open>\<open>sizeof (struct synx_global_coredata)\<close> is 24; the table starts behind the bitmap and two lock words and has as many
  entries as the region holds.\<close>

definition synx_gmem_init :: "bool \<Rightarrow> synx_shared_mem \<Rightarrow> (int \<times> synx_shared_mem) option" where
  "synx_gmem_init hwlock_ok s =
     (if sg_table s = [] then Some (- SYNX_NOMEM, s)
      else if \<not> hwlock_ok then Some (- SYNX_NOMEM, s\<lparr>sg_hwlock := False\<rparr>)
      else do {
        (_, bm) \<leftarrow> ipclite_global_test_and_set_bit 0 0 (sg_bitmap s);
        Some (SYNX_SUCCESS, put_entry 0 zero_coredata (s\<lparr>sg_hwlock := True, sg_bitmap := bm\<rparr>)) })"

definition synx_global_mem_init :: "int \<Rightarrow> nat \<Rightarrow> bool \<Rightarrow> synx_shared_mem \<Rightarrow> (int \<times> synx_shared_mem) option" where
  "synx_global_mem_init partition_rc region_size hwlock_ok s =
     (if partition_rc \<noteq> 0 then Some (partition_rc, s)
      else synx_gmem_init hwlock_ok
        (s\<lparr>sg_bitmap := replicate (SYNX_GLOBAL_MAX_OBJS div 32) 0,
           sg_table := replicate (min SYNX_GLOBAL_MAX_OBJS ((region_size - 4 * (SYNX_GLOBAL_MAX_OBJS div 32 + 2)) div 24)) zero_coredata\<rparr>))"

definition synx_global_map_core_id :: "nat \<Rightarrow> u32" where
  "synx_global_map_core_id i =
     (if i = SYNX_CORE_APSS then 0
      else if i = SYNX_CORE_NSP then 5
      else if i = SYNX_CORE_IRIS then 8
      else if i = SYNX_CORE_EVA then 6
      else if i = SYNX_CORE_ICP then 7
      else 9)"

definition init_coredata :: "u32 \<Rightarrow> synx_global_coredata \<Rightarrow> int \<times> synx_global_coredata" where
  "init_coredata h_synx e =
     (if g_status e \<noteq> 0 \<or> g_refcount e \<noteq> 0 \<or> g_subscribers e \<noteq> 0 \<or> g_handle e \<noteq> 0 \<or> g_parents e ! 0 \<noteq> 0
      then (- SYNX_INVALID, e)
      else (SYNX_SUCCESS, zero_coredata\<lparr>g_status := SYNX_STATE_ACTIVE, g_refcount := 1,
              g_subscribers := push_bit SYNX_CORE_APSS 1, g_handle := h_synx\<rparr>))"

definition synx_global_init_coredata :: "u32 \<Rightarrow> synx_shared_mem \<Rightarrow> (int \<times> synx_shared_mem) option" where
  "synx_global_init_coredata h_synx s =
     (let i = h_synx AND SYNX_HANDLE_INDEX_MASK in
      if sg_table s = [] then Some (- SYNX_NOMEM, s)
      else if \<not> synx_is_valid_idx i then Some (- SYNX_INVALID, s)
      else map_option section_rc (gmem_section (unat i) (init_coredata h_synx) s))"

section \<open>Waiting and subscribed cores\<close>

definition core_list :: "u16 \<Rightarrow> bool list \<Rightarrow> bool list" where
  "core_list w cores = map (\<lambda>i. cores ! i \<or> bit w i) [0..<SYNX_CORE_MAX]"

definition get_waiting_cores_locked :: "bool list \<Rightarrow> synx_global_coredata \<Rightarrow> bool list \<times> synx_global_coredata" where
  "get_waiting_cores_locked cores e = (core_list (g_waiters e) cores, e\<lparr>g_waiters := 0\<rparr>)"

text \<open>The guard of the operations on one entry.\<close>

definition guarded ::
    "bool \<Rightarrow> u32 \<Rightarrow> synx_shared_mem \<Rightarrow> ((int + 'x) \<times> synx_shared_mem) option \<Rightarrow> ((int + 'x) \<times> synx_shared_mem) option" where
  "guarded ok i s body =
     (if sg_table s = [] then Some (Inl (- SYNX_NOMEM), s)
      else if \<not> ok \<or> \<not> synx_is_valid_idx i then Some (Inl (- SYNX_INVALID), s)
      else body)"

definition synx_global_get_waiting_cores ::
    "u32 \<Rightarrow> bool list option \<Rightarrow> synx_shared_mem \<Rightarrow> ((int + bool list) \<times> synx_shared_mem) option" where
  "synx_global_get_waiting_cores i cores s =
     guarded (cores \<noteq> None) i s (gmem_section (unat i) (get_waiting_cores_locked (the cores)) s)"

definition synx_global_set_waiting_core :: "u32 \<Rightarrow> nat \<Rightarrow> synx_shared_mem \<Rightarrow> ((int + unit) \<times> synx_shared_mem) option" where
  "synx_global_set_waiting_core i core s =
     guarded (core < SYNX_CORE_MAX) i s (gmem_section (unat i) (\<lambda>e. ((), e\<lparr>g_waiters := g_waiters e OR push_bit core 1\<rparr>)) s)"

definition synx_global_get_subscribed_cores ::
    "u32 \<Rightarrow> bool list option \<Rightarrow> synx_shared_mem \<Rightarrow> ((int + bool list) \<times> synx_shared_mem) option" where
  "synx_global_get_subscribed_cores i cores s =
     guarded (cores \<noteq> None) i s (gmem_section (unat i) (\<lambda>e. (core_list (g_subscribers e) (the cores), e)) s)"

definition synx_global_fetch_handle_details :: "u32 \<Rightarrow> bool \<Rightarrow> synx_shared_mem \<Rightarrow> ((int + u32) \<times> synx_shared_mem) option" where
  "synx_global_fetch_handle_details i has_ptr s = guarded has_ptr i s (gmem_section (unat i) (\<lambda>e. (g_handle e, e)) s)"

definition synx_global_set_subscribed_core :: "u32 \<Rightarrow> nat \<Rightarrow> synx_shared_mem \<Rightarrow> ((int + unit) \<times> synx_shared_mem) option" where
  "synx_global_set_subscribed_core i core s =
     guarded (core < SYNX_CORE_MAX) i s (gmem_section (unat i) (\<lambda>e. ((), e\<lparr>g_subscribers := g_subscribers e OR push_bit core 1\<rparr>)) s)"

definition synx_global_clear_subscribed_core :: "u32 \<Rightarrow> nat \<Rightarrow> synx_shared_mem \<Rightarrow> ((int + unit) \<times> synx_shared_mem) option" where
  "synx_global_clear_subscribed_core i core s =
     guarded (core < SYNX_CORE_MAX) i s
       (gmem_section (unat i) (\<lambda>e. ((), e\<lparr>g_subscribers := g_subscribers e AND NOT (push_bit core 1)\<rparr>)) s)"

definition synx_fetch_global_shared_memory_handle_details ::
    "u32 \<Rightarrow> synx_shared_mem \<Rightarrow> (synx_global_coredata option \<times> synx_shared_mem) option" where
  "synx_fetch_global_shared_memory_handle_details synx_handle s =
     (let i = synx_handle AND SYNX_HANDLE_INDEX_MASK in do {
        (r, s') \<leftarrow> guarded True i s (gmem_section (unat i) (\<lambda>e. (e, e)) s);
        Some (case r of Inl _ \<Rightarrow> None | Inr e \<Rightarrow> Some e, s') })"

text \<open>These return the result or the error of the lock in a \<open>u32\<close>.\<close>

definition synx_global_get_parents_num :: "u32 \<Rightarrow> synx_shared_mem \<Rightarrow> (u32 \<times> synx_shared_mem) option" where
  "synx_global_get_parents_num i s =
     (if sg_table s = [] \<or> \<not> synx_is_valid_idx i then Some (0, s)
      else do {
        (r, s') \<leftarrow> gmem_section (unat i) (\<lambda>e. (length (filter (\<lambda>p. p \<noteq> 0) (g_parents e)), e)) s;
        Some (case r of Inl rc \<Rightarrow> word_of_int rc | Inr n \<Rightarrow> of_nat n, s') })"

definition synx_global_get_parents :: "u32 \<Rightarrow> bool \<Rightarrow> synx_shared_mem \<Rightarrow> ((int + u32 list) \<times> synx_shared_mem) option" where
  "synx_global_get_parents i has_ptr s =
     (if sg_table s = [] \<or> \<not> has_ptr then Some (Inl (- SYNX_NOMEM), s)
      else if \<not> synx_is_valid_idx i then Some (Inl (- SYNX_INVALID), s)
      else gmem_section (unat i) (\<lambda>e. (map ucast (g_parents e), e)) s)"

definition synx_global_get_status :: "u32 \<Rightarrow> synx_shared_mem \<Rightarrow> (u32 \<times> synx_shared_mem) option" where
  "synx_global_get_status i s =
     (if sg_table s = [] \<or> \<not> synx_is_valid_idx i then Some (0, s)
      else do {
        (r, s') \<leftarrow> gmem_section (unat i) (\<lambda>e. (if g_status e \<noteq> SYNX_STATE_ACTIVE \<and> g_num_child e = 0 then g_status e else SYNX_STATE_ACTIVE, e)) s;
        Some (case r of Inl rc \<Rightarrow> word_of_int rc | Inr st \<Rightarrow> st, s') })"

definition synx_global_test_status_set_wait :: "u32 \<Rightarrow> nat \<Rightarrow> synx_shared_mem \<Rightarrow> (u32 \<times> synx_shared_mem) option" where
  "synx_global_test_status_set_wait i core s =
     (if sg_table s = [] \<or> core \<ge> SYNX_CORE_MAX \<or> \<not> synx_is_valid_idx i then Some (0, s)
      else do {
        (r, s') \<leftarrow> gmem_section (unat i) (\<lambda>e.
           if g_status e = SYNX_STATE_ACTIVE \<or> g_num_child e \<noteq> 0
           then (SYNX_STATE_ACTIVE, e\<lparr>g_waiters := g_waiters e OR push_bit core 1\<rparr>) else (g_status e, e)) s;
        Some (case r of Inl rc \<Rightarrow> 0 | Inr st \<Rightarrow> st, s') })"

section \<open>Signalling\<close>

text \<open>What one notification does to an entry: whether the entry is freed, the message for the waiting cores (0 for
  none), the waiting cores and the parents to notify.\<close>

definition signal_entry ::
    "u32 \<Rightarrow> synx_global_coredata \<Rightarrow> (bool \<times> u64 \<times> bool list \<times> u16 list) \<times> synx_global_coredata" where
  "signal_entry status e =
     (let data = push_bit 32 (ucast (g_handle e)) :: u64; no_cores = replicate SYNX_CORE_MAX False in
      if g_num_child e \<noteq> 0 then
        (let e = e\<lparr>g_num_child := g_num_child e - 1\<rparr>;
             e = (if g_status e = SYNX_STATE_ACTIVE \<or> (status > SYNX_STATE_SIGNALED_SUCCESS \<and> status \<le> SYNX_STATE_SIGNALED_MAX)
                  then e\<lparr>g_status := status\<rparr> else e) in
         if g_num_child e = 0 then
           (let data = data OR ucast (g_status e);
                (wait_cores, e) = get_waiting_cores_locked no_cores e;
                h_parents = g_parents e;
                e = e\<lparr>g_refcount := g_refcount e - 1\<rparr> in
            if g_refcount e = 0 then ((True, data, wait_cores, h_parents), zero_coredata)
            else ((False, data, wait_cores, h_parents), e))
         else ((False, 0, no_cores, replicate SYNX_GLOBAL_MAX_PARENTS 0), e))
      else
        (let e = e\<lparr>g_status := status\<rparr>;
             data = data OR ucast (g_status e);
             (wait_cores, e') = get_waiting_cores_locked no_cores e
         in ((False, data, wait_cores, g_parents e'), e')))"

definition send_msg :: "u32 \<Rightarrow> u64 \<Rightarrow> synx_shared_mem \<Rightarrow> synx_shared_mem" where
  "send_msg host data s = s\<lparr>sg_msgs := sg_msgs s @ [(host, data)]\<rparr>"

definition notify_cores :: "u32 \<Rightarrow> u64 \<Rightarrow> bool list \<Rightarrow> synx_shared_mem \<Rightarrow> synx_shared_mem" where
  "notify_cores status data wait_cores s =
     (if data = 0 then s
      else fold (\<lambda>i. send_msg (synx_global_map_core_id i) data)
        (filter (\<lambda>i. wait_cores ! i) [(if status = SYNX_STATE_SIGNALED_SSR then 0 else 1)..<SYNX_CORE_MAX]) s)"

fun fold_opt :: "('a \<Rightarrow> 's \<Rightarrow> 's option) \<Rightarrow> 'a list \<Rightarrow> 's \<Rightarrow> 's option" where
  "fold_opt f [] s = Some s"
| "fold_opt f (x # xs) s = Option.bind (f x s) (fold_opt f xs)"

text \<open>\<open>synx_global_update_status_core\<close> calls itself for the parents; \<open>fuel\<close> bounds the depth of the calls.\<close>

fun synx_global_update_status_core :: "nat \<Rightarrow> nat \<Rightarrow> u32 \<Rightarrow> synx_shared_mem \<Rightarrow> (int \<times> synx_shared_mem) option" where
  "synx_global_update_status_core 0 i status s = None"
| "synx_global_update_status_core (Suc fuel) i status s = do {
     (r, s1) \<leftarrow> gmem_section i (signal_entry status) s;
     (case r of
        Inl rc \<Rightarrow> Some (rc, s1)
      | Inr (clear, data, wait_cores, h_parents) \<Rightarrow> do {
          s2 \<leftarrow> (if clear then release_index i s1 else Some s1);
          s3 \<leftarrow> fold_opt (\<lambda>p s. if p = 0 then Some s
                  else map_option snd (synx_global_update_status_core fuel (unat p) status s))
                h_parents (notify_cores status data wait_cores s2);
          Some (SYNX_SUCCESS, s3) }) }"

text \<open>The result for a composite handle is what the lock returned, that is 0.\<close>

definition synx_global_update_status :: "nat \<Rightarrow> u32 \<Rightarrow> u32 \<Rightarrow> synx_shared_mem \<Rightarrow> (int \<times> synx_shared_mem) option" where
  "synx_global_update_status fuel i status s =
     (if sg_table s = [] then Some (- SYNX_NOMEM, s)
      else if \<not> synx_is_valid_idx i \<or> status \<le> SYNX_STATE_ACTIVE then Some (- SYNX_INVALID, s)
      else do {
        (r, s1) \<leftarrow> gmem_section (unat i) (\<lambda>e.
           (if g_num_child e \<noteq> 0 then (False, 0) else if g_status e \<noteq> SYNX_STATE_ACTIVE then (False, - SYNX_ALREADY) else (True, 0), e)) s;
        (case r of
           Inl rc \<Rightarrow> Some (rc, s1)
         | Inr (go, rc) \<Rightarrow> if go then synx_global_update_status_core fuel (unat i) status s1 else Some (rc, s1)) })"

section \<open>References\<close>

definition synx_global_get_ref :: "u32 \<Rightarrow> synx_shared_mem \<Rightarrow> (int \<times> synx_shared_mem) option" where
  "synx_global_get_ref i s =
     (if sg_table s = [] then Some (- SYNX_NOMEM, s)
      else if \<not> synx_is_valid_idx i then Some (- SYNX_INVALID, s)
      else map_option section_rc (gmem_section (unat i) (\<lambda>e.
        if g_handle e \<noteq> 0 \<and> g_refcount e \<noteq> 0 then (0, e\<lparr>g_refcount := g_refcount e + 1\<rparr>) else (- SYNX_NOENT, e)) s))"

definition put_ref :: "synx_global_coredata \<Rightarrow> bool \<times> synx_global_coredata" where
  "put_ref e = (let e = e\<lparr>g_refcount := g_refcount e - 1\<rparr> in if g_refcount e = 0 then (True, zero_coredata) else (False, e))"

definition synx_global_put_ref :: "u32 \<Rightarrow> synx_shared_mem \<Rightarrow> synx_shared_mem option" where
  "synx_global_put_ref i s =
     (if sg_table s = [] \<or> \<not> synx_is_valid_idx i then Some s
      else do {
        (r, s1) \<leftarrow> gmem_section (unat i) put_ref s;
        (case r of Inl _ \<Rightarrow> Some s1 | Inr clear \<Rightarrow> if clear then release_index (unat i) s1 else Some s1) })"

section \<open>Composite objects\<close>

text \<open>\<open>synx_global_merge\<close>, first part: the parent is entered in the first free slot of each child, and the children still
  pending are counted. \<open>rc\<close> is the value the variable of that name has.\<close>

definition add_parent :: "u16 \<Rightarrow> u16 list \<Rightarrow> (bool \<times> u16 list)" where
  "add_parent p ps = (case List.find (\<lambda>k. ps ! k = 0) [0..<SYNX_GLOBAL_MAX_PARENTS] of
     None \<Rightarrow> (False, ps) | Some k \<Rightarrow> (True, ps[k := p]))"

definition merge_child :: "u32 \<Rightarrow> synx_global_coredata \<Rightarrow> (bool \<times> u32 \<times> u16) \<times> synx_global_coredata" where
  "merge_child p_idx e = (let (room, ps) = add_parent (ucast p_idx) (g_parents e)
     in ((room, g_status e, g_num_child e), e\<lparr>g_parents := ps\<rparr>))"

definition pending :: "u32 \<Rightarrow> u16 \<Rightarrow> bool" where
  "pending status num_child \<longleftrightarrow> status = SYNX_STATE_ACTIVE \<or> num_child \<noteq> 0"

definition join_status :: "u32 \<Rightarrow> u32 \<Rightarrow> u32" where
  "join_status parent_status status =
     (if status = SYNX_STATE_ACTIVE then parent_status
      else if status > SYNX_STATE_SIGNALED_SUCCESS \<and> status \<le> SYNX_STATE_SIGNALED_MAX then status
      else if parent_status = SYNX_STATE_ACTIVE then status else parent_status)"

fun merge_children ::
    "u32 \<Rightarrow> u32 list \<Rightarrow> int \<Rightarrow> nat \<Rightarrow> u32 \<Rightarrow> synx_shared_mem \<Rightarrow> ((int + unit) \<times> nat \<times> u32 \<times> synx_shared_mem) option" where
  "merge_children p_idx [] rc num_child parent_status s = Some (Inr (), num_child, parent_status, s)"
| "merge_children p_idx (i # is) rc num_child parent_status s =
     (if \<not> synx_is_valid_idx i then Some (Inl rc, num_child, parent_status, s)
      else do {
        (r, s1) \<leftarrow> gmem_section (unat i) (merge_child p_idx) s;
        (case r of
           Inl rc \<Rightarrow> Some (Inl rc, num_child, parent_status, s1)
         | Inr (room, status, children) \<Rightarrow>
             (let num_child = (if pending status children then Suc num_child else num_child);
                  parent_status = join_status parent_status status in
              if \<not> room then Some (Inl (- SYNX_NOMEM), num_child, parent_status, s1)
              else merge_children p_idx is 0 num_child parent_status s1)) })"

text \<open>The error path removes the parent from the first \<open>num_child\<close> elements of the list, last one first.\<close>

definition remove_parent :: "u32 \<Rightarrow> synx_global_coredata \<Rightarrow> unit \<times> synx_global_coredata" where
  "remove_parent p_idx e = ((), e\<lparr>g_parents := (case List.find (\<lambda>k. ucast (g_parents e ! k) = p_idx) [0..<SYNX_GLOBAL_MAX_PARENTS] of
     None \<Rightarrow> g_parents e | Some k \<Rightarrow> (g_parents e)[k := 0])\<rparr>)"

fun merge_rollback :: "u32 \<Rightarrow> u32 list \<Rightarrow> nat \<Rightarrow> synx_shared_mem \<Rightarrow> synx_shared_mem option" where
  "merge_rollback p_idx idx_list 0 s = Some s"
| "merge_rollback p_idx idx_list (Suc n) s = do {
     i \<leftarrow> idx idx_list n;
     (_, s1) \<leftarrow> gmem_section (unat i) (remove_parent p_idx) s;
     merge_rollback p_idx idx_list n s1 }"

definition merge_parent :: "nat \<Rightarrow> u32 \<Rightarrow> synx_global_coredata \<Rightarrow> unit \<times> synx_global_coredata" where
  "merge_parent num_child parent_status e =
     (let e = e\<lparr>g_num_child := g_num_child e + of_nat num_child\<rparr>;
          e = (if g_num_child e \<noteq> 0 then e\<lparr>g_refcount := g_refcount e + 1\<rparr> else e)
      in ((), e\<lparr>g_status := parent_status\<rparr>))"

definition merge_finish :: "u32 \<Rightarrow> u32 list \<Rightarrow> nat \<Rightarrow> u32 \<Rightarrow> synx_shared_mem \<Rightarrow> (int \<times> synx_shared_mem) option" where
  "merge_finish p_idx idx_list num_child parent_status s = do {
     (r, s1) \<leftarrow> gmem_section (unat p_idx) (merge_parent num_child parent_status) s;
     (case r of
        Inr _ \<Rightarrow> Some (SYNX_SUCCESS, s1)
      | Inl rc \<Rightarrow> map_option (Pair rc) (merge_rollback p_idx idx_list num_child s1)) }"

definition synx_global_merge :: "u32 list \<Rightarrow> u32 \<Rightarrow> synx_shared_mem \<Rightarrow> (int \<times> synx_shared_mem) option" where
  "synx_global_merge idx_list p_idx s =
     (if sg_table s = [] then Some (- SYNX_NOMEM, s)
      else if \<not> synx_is_valid_idx p_idx then Some (- SYNX_INVALID, s)
      else if idx_list = [] then Some (SYNX_SUCCESS, s)
      else do {
        (r, num_child, parent_status, s1) \<leftarrow> merge_children p_idx idx_list (- SYNX_INVALID) 0 SYNX_STATE_ACTIVE s;
        (case r of
           Inr _ \<Rightarrow> merge_finish p_idx idx_list num_child parent_status s1
         | Inl rc \<Rightarrow> map_option (Pair rc) (merge_rollback p_idx idx_list num_child s1)) })"

section \<open>Recovery of a crashed core\<close>

definition recover_entry :: "nat \<Rightarrow> synx_global_coredata \<Rightarrow> (bool \<times> bool) \<times> synx_global_coredata" where
  "recover_entry core e =
     (if g_refcount e \<noteq> 0 \<and> bit (g_subscribers e) core then
        (let e = e\<lparr>g_subscribers := g_subscribers e AND NOT (push_bit core 1), g_refcount := g_refcount e - 1\<rparr> in
         if g_refcount e = 0 then ((True, False), zero_coredata)
         else ((False, g_status e = SYNX_STATE_ACTIVE), e))
      else ((False, False), e))"

lemma find_next_bit_ge: "k \<le> n \<Longrightarrow> k \<le> find_next_bit bm n k"
  by (auto simp: find_next_bit_def find_Some_iff split: option.splits)

text \<open>The loop over the allocated entries; \<open>clear_idx\<close> collects the entries to release.\<close>

function recover_loop ::
    "nat \<Rightarrow> nat \<Rightarrow> nat \<Rightarrow> nat list \<Rightarrow> synx_shared_mem \<Rightarrow> (int \<times> nat list \<times> synx_shared_mem) option" where
  "recover_loop fuel core i clear_idx s =
     (if i \<ge> SYNX_GLOBAL_MAX_OBJS then Some (SYNX_SUCCESS, clear_idx, s)
      else do {
        (r, s1) \<leftarrow> gmem_section i (recover_entry core) s;
        (case r of
           Inl rc \<Rightarrow> Some (rc, clear_idx, s1)
         | Inr (clear, update) \<Rightarrow> do {
             s2 \<leftarrow> (if update then map_option snd (synx_global_update_status fuel (of_nat i) SYNX_STATE_SIGNALED_SSR s1) else Some s1);
             recover_loop fuel core (find_next_bit (sg_bitmap s2) SYNX_GLOBAL_MAX_OBJS (Suc i))
               (if clear then clear_idx @ [i] else clear_idx) s2 }) })"
  by pat_completeness auto

termination
proof (relation "measure (\<lambda>(_, _, i, _, _). SYNX_GLOBAL_MAX_OBJS - i)", goal_cases)
  case (2 fuel core i clear_idx s x r s1 y clear update s2)
  then show ?case using find_next_bit_ge[of "Suc i" SYNX_GLOBAL_MAX_OBJS "sg_bitmap s2"] by simp
qed simp

definition synx_global_recover :: "nat \<Rightarrow> bool \<Rightarrow> nat \<Rightarrow> synx_shared_mem \<Rightarrow> (int \<times> synx_shared_mem) option" where
  "synx_global_recover fuel alloc_ok core_id s =
     (if sg_table s = [] then Some (- SYNX_NOMEM, s)
      else if \<not> alloc_ok then Some (- SYNX_NOMEM, s)
      else do {
        owner \<leftarrow> synx_gmem_lock_owner s;
        s1 \<leftarrow> (if owner = of_nat core_id then map_option (\<lambda>s. s\<lparr>sg_locked := False\<rparr>) (synx_gmem_lock_owner_clear s) else Some s);
        (rc, clear_idx, s2) \<leftarrow> recover_loop fuel core_id (find_next_bit (sg_bitmap s1) SYNX_GLOBAL_MAX_OBJS 1) [] s1;
        if rc \<noteq> 0 then Some (rc, s2) else map_option (Pair rc) (fold_opt release_index clear_idx s2) })"


section \<open>Locked sections\<close>

text \<open>The shared memory is set up and the lock is free and never times out.\<close>

definition gm_ok :: "synx_shared_mem \<Rightarrow> bool" where
  "gm_ok s \<longleftrightarrow> sg_hwlock s \<and> \<not> sg_locked s \<and> length (sg_table s) = 4096 \<and> length (sg_bitmap s) = 128
     \<and> (\<forall>n. sg_lock_rc s n = 0) \<and> list_all (\<lambda>e. length (g_parents e) = 4) (sg_table s)"

text \<open>The state after a section that leaves \<open>e\<close> in entry \<open>i\<close>; entry 0 carries the owner of the lock.\<close>

definition sec :: "nat \<Rightarrow> synx_global_coredata \<Rightarrow> synx_shared_mem \<Rightarrow> synx_shared_mem" where
  "sec i e s = s\<lparr>sg_table := (sg_table s)[0 := (sg_table s ! 0)\<lparr>g_subscribers := 5\<rparr>, i := e], sg_lock_calls := Suc (sg_lock_calls s)\<rparr>"

lemma sec_simps [simp]:
  "length (sg_table (sec i e s)) = length (sg_table s)" "sg_bitmap (sec i e s) = sg_bitmap s" "sg_msgs (sec i e s) = sg_msgs s"
  "sg_hwlock (sec i e s) = sg_hwlock s" "sg_locked (sec i e s) = sg_locked s" "sg_lock_rc (sec i e s) = sg_lock_rc s"
  by (simp_all add: sec_def)

lemma sec_table:
  "0 < j \<Longrightarrow> i < length (sg_table s) \<Longrightarrow> sg_table (sec i e s) ! j = (if j = i then e else sg_table s ! j)"
  by (auto simp: sec_def nth_list_update)

lemma gm_ok_parents: "gm_ok s \<Longrightarrow> i < 4096 \<Longrightarrow> length (g_parents (sg_table s ! i)) = 4"
  by (simp add: gm_ok_def list_all_length)

lemma gm_ok_sec: "gm_ok s \<Longrightarrow> i < 4096 \<Longrightarrow> length (g_parents e) = 4 \<Longrightarrow> gm_ok (sec i e s)"
  by (auto simp: gm_ok_def sec_def list_all_length nth_list_update)

lemma gm_ok_nonempty: "gm_ok s \<Longrightarrow> sg_table s \<noteq> []"
  by (auto simp: gm_ok_def)

lemma section_ok:
  assumes s: "gm_ok s" and i: "0 < i" "i < 4096" and f: "f (sg_table s ! i) = (x, e)"
  shows "gmem_section i f s = Some (Inr x, sec i e s)"
proof -
  let ?e0 = "sg_table s ! 0"
  have l: "0 < length (sg_table s)" "i < length (sg_table s)" "sg_hwlock s" "\<not> sg_locked s" "sg_lock_rc s (sg_lock_calls s) = 0"
    using s i by (auto simp: gm_ok_def)
  let ?s1 = "put_entry 0 (?e0\<lparr>g_subscribers := 0\<rparr>) (s\<lparr>sg_lock_calls := Suc (sg_lock_calls s), sg_locked := True\<rparr>)"
  have lk: "synx_gmem_lock s = Some (0, ?s1)"
    using l by (simp add: synx_gmem_lock_def hwspin_lock_timeout_def synx_gmem_lock_owner_set_def synx_consts)
  have e: "idx (sg_table ?s1) i = Some (sg_table s ! i)" using l i by (simp add: put_entry_def)
  have "(sg_table s)[0 := a, i := e, 0 := b] = (sg_table s)[0 := b, i := e]" for a b
    using i by (simp add: list_update_swap)
  then have "synx_gmem_unlock (put_entry i e ?s1) = Some (sec i e s)"
    using l i by (simp add: synx_gmem_unlock_def synx_gmem_lock_owner_clear_def put_entry_def sec_def synx_consts)
  then show ?thesis using lk e f by (simp add: gmem_section_def)
qed

lemma section_timeout:
  assumes "sg_hwlock s" and "\<not> sg_locked s" and "sg_lock_rc s (sg_lock_calls s) = rc" and "rc \<noteq> 0"
  shows "gmem_section i f s = Some (Inl rc, s\<lparr>sg_lock_calls := Suc (sg_lock_calls s)\<rparr>)"
  using assms by (simp add: gmem_section_def synx_gmem_lock_def hwspin_lock_timeout_def Let_def)

lemma valid_idx: "synx_is_valid_idx i \<longleftrightarrow> unat i < 4096"
  by (simp add: synx_is_valid_idx_def synx_consts word_less_nat_alt)

section \<open>The bitmap\<close>

lemma bit_or_push: "n < 32 \<Longrightarrow> bit ((w :: u32) OR 2 ^ m) n \<longleftrightarrow> bit w n \<or> n = m"
  by (auto simp: bit_or_iff bit_exp_iff)

lemma bit_andnot_push: "n < 32 \<Longrightarrow> bit ((w :: u32) AND NOT (2 ^ m)) n \<longleftrightarrow> bit w n \<and> n \<noteq> m"
  by (auto simp: bit_and_iff bit_not_iff bit_exp_iff)

lemma and_push_zero: 
  assumes "m < 32"
  shows "(w :: u32) AND 2 ^ m = 0 \<longleftrightarrow> \<not> bit w m"
proof
  assume "w AND 2 ^ m = 0"
  then have "\<not> bit (w AND 2 ^ m) m" by simp
  then show "\<not> bit w m" using assms by (simp add: bit_and_iff bit_exp_iff)
next
  assume "\<not> bit w m"
  then show "w AND 2 ^ m = 0" by (intro bit_word_eqI) (auto simp: bit_and_iff bit_exp_iff)
qed

lemma div_mod_32_eq: "(i :: nat) div 32 = j div 32 \<and> i mod 32 = j mod 32 \<longleftrightarrow> i = j"
  by (metis div_mult_mod_eq)

lemma test_and_set:
  assumes "length bm = 128" and "i < 4096"
  shows "\<exists>prev bm'. ipclite_global_test_and_set_bit (i mod 32) (i div 32) bm = Some (prev, bm') \<and> length bm' = 128
    \<and> (prev AND push_bit (i mod 32) 1 = 0 \<longleftrightarrow> \<not> bm_bit bm i) \<and> (\<forall>j. bm_bit bm' j \<longleftrightarrow> bm_bit bm j \<or> j = i)"
proof -
  have "i div 32 < 128" using assms(2) by (simp add: less_mult_imp_div_less)
  moreover from this have "bm_bit (bm[i div 32 := bm ! (i div 32) OR push_bit (i mod 32) 1]) j \<longleftrightarrow> bm_bit bm j \<or> j = i" for j
    using assms(1) div_mod_32_eq[of j i] by (auto simp: bm_bit_def nth_list_update bit_or_push)
  ultimately show ?thesis using assms(1) by (simp add: ipclite_global_test_and_set_bit_def bm_bit_def and_push_zero)
qed

lemma release_ok:
  assumes "length (sg_bitmap s) = 128" and "i < 4096"
  shows "\<exists>bm. release_index i s = Some (s\<lparr>sg_bitmap := bm\<rparr>) \<and> length bm = 128 \<and> (\<forall>j. bm_bit bm j \<longleftrightarrow> bm_bit (sg_bitmap s) j \<and> j \<noteq> i)"
proof -
  have "i div 32 < 128" using assms(2) by (simp add: less_mult_imp_div_less)
  moreover from this have "bm_bit ((sg_bitmap s)[i div 32 := sg_bitmap s ! (i div 32) AND NOT (push_bit (i mod 32) 1)]) j
      \<longleftrightarrow> bm_bit (sg_bitmap s) j \<and> j \<noteq> i" for j
    using assms(1) div_mod_32_eq[of j i] by (auto simp: bm_bit_def nth_list_update bit_andnot_push)
  ultimately show ?thesis using assms(1)
    by (intro exI[of _ "(sg_bitmap s)[i div 32 := sg_bitmap s ! (i div 32) AND NOT (push_bit (i mod 32) 1)]"])
       (simp add: release_index_def ipclite_global_test_and_clear_bit_def)
qed

lemma find_zero:
  "case List.find (\<lambda>i. \<not> P i) [0..<n] of None \<Rightarrow> \<forall>i<n. P i | Some i \<Rightarrow> i < n \<and> \<not> P i \<and> (\<forall>j<i. P j)"
  by (auto simp: find_None_iff find_Some_iff split: option.splits)

lemma first_zero:
  "find_first_zero_bit bm n \<le> n" "j < find_first_zero_bit bm n \<Longrightarrow> bm_bit bm j"
  "find_first_zero_bit bm n < n \<Longrightarrow> \<not> bm_bit bm (find_first_zero_bit bm n)"
  using find_zero[of n "bm_bit bm"] by (auto simp: find_first_zero_bit_def split: option.splits)

section \<open>Allocation\<close>

lemma alloc_loop_sound:
  assumes "alloc_loop env fuel k bm = Some (Inr i, bm')" and "length bm = 128" and env: "\<And>k b. length b = 128 \<Longrightarrow> length (env k b) = 128"
  shows "i < 4096 \<and> length bm' = 128 \<and> (\<exists>b m. \<not> bm_bit (env m b) i \<and> (\<forall>j. bm_bit bm' j \<longleftrightarrow> bm_bit (env m b) j \<or> j = i))"
  using assms(1,2)
proof (induction fuel arbitrary: k bm)
  case (Suc fuel)
  let ?i = "find_first_zero_bit bm SYNX_GLOBAL_MAX_OBJS"
  show ?case
  proof (cases "?i < 4096")
    case False
    then show ?thesis using Suc.prems by (simp add: synx_consts Let_def)
  next
    case True
    obtain prev b' where t: "ipclite_global_test_and_set_bit (?i mod 32) (?i div 32) (env k bm) = Some (prev, b')" "length b' = 128"
      "prev AND push_bit (?i mod 32) 1 = 0 \<longleftrightarrow> \<not> bm_bit (env k bm) ?i" "\<forall>j. bm_bit b' j \<longleftrightarrow> bm_bit (env k bm) j \<or> j = ?i"
      using test_and_set[OF env[OF Suc.prems(2)] True] by blast
    have g: "\<not> SYNX_GLOBAL_MAX_OBJS \<le> ?i" using True by (simp add: SYNX_GLOBAL_MAX_OBJS_def)
    show ?thesis
    proof (cases "bm_bit (env k bm) ?i")
      case False
      then have "i = ?i" "bm' = b'" using Suc.prems(1) t(1,3) g by (simp_all add: Let_def)
      then show ?thesis using t False True by blast
    next
      case set: True
      then have "alloc_loop env fuel (Suc k) b' = Some (Inr i, bm')" using Suc.prems(1) t(1,3) g by (simp add: Let_def)
      then show ?thesis using Suc.IH t(2) by blast
    qed
  qed
qed simp

lemma alloc_loop_returns:
  assumes "length bm = 128" and env: "\<And>k b. length b = 128 \<Longrightarrow> length (env k b) = 128" and quiet: "env (k + n) = (\<lambda>b. b)" and "n < fuel"
  shows "\<exists>r bm'. alloc_loop env fuel k bm = Some (r, bm')"
  using assms(1,3,4)
proof (induction fuel arbitrary: k bm n)
  case (Suc fuel)
  let ?i = "find_first_zero_bit bm SYNX_GLOBAL_MAX_OBJS"
  show ?case
  proof (cases "?i < 4096")
    case False
    then show ?thesis by (simp add: synx_consts Let_def)
  next
    case True
    obtain prev b' where t: "ipclite_global_test_and_set_bit (?i mod 32) (?i div 32) (env k bm) = Some (prev, b')" "length b' = 128"
      "prev AND push_bit (?i mod 32) 1 = 0 \<longleftrightarrow> \<not> bm_bit (env k bm) ?i"
      using test_and_set[OF env[OF Suc.prems(1)] True] by blast
    have g: "\<not> SYNX_GLOBAL_MAX_OBJS \<le> ?i" using True by (simp add: SYNX_GLOBAL_MAX_OBJS_def)
    show ?thesis
    proof (cases n)
      case 0
      then have "\<not> bm_bit (env k bm) ?i" using Suc.prems(2) first_zero(3)[of bm SYNX_GLOBAL_MAX_OBJS] g by simp
      then show ?thesis using t g by (simp add: Let_def)
    next
      case (Suc m)
      then have "\<exists>r bm'. alloc_loop env fuel (Suc k) b' = Some (r, bm')" using Suc.IH[of b' "Suc k" m] Suc.prems t(2) by simp
      then show ?thesis using t g by (cases "bm_bit (env k bm) ?i") (simp_all add: Let_def)
    qed
  qed
qed simp

text \<open>C35: allocation of a global entry against any interference of the other cores on the bitmap. An index handed out lies in the
  table and was free in the state in which the atomic test-and-set found it, and exactly its bit is added to that
  state; as soon as one round is free of interference the loop ends; and without interference the result is the lowest free
  index, or ENOMEM exactly when all 4096 are in use.\<close>

theorem alloc_index_correct:
  assumes "sg_table s \<noteq> []" and "length (sg_bitmap s) = 128" and "\<And>k b. length b = 128 \<Longrightarrow> length (env k b) = 128"
  shows "(\<forall>fuel i s'. synx_global_alloc_index env fuel True s = Some (Inr i, s') \<longrightarrow> unat i < 4096 \<and>
       (\<exists>b k. \<not> bm_bit (env k b) (unat i) \<and> (\<forall>j. bm_bit (sg_bitmap s') j \<longleftrightarrow> bm_bit (env k b) j \<or> j = unat i)))
    \<and> (\<forall>k. env k = (\<lambda>b. b) \<longrightarrow> synx_global_alloc_index env (Suc k) True s \<noteq> None)
    \<and> (if \<forall>j<4096. bm_bit (sg_bitmap s) j then synx_global_alloc_index (\<lambda>_ b. b) 1 True s = Some (Inl (- SYNX_NOMEM), s)
       else \<exists>i s'. synx_global_alloc_index (\<lambda>_ b. b) 1 True s = Some (Inr i, s') \<and> \<not> bm_bit (sg_bitmap s) (unat i)
         \<and> (\<forall>j<unat i. bm_bit (sg_bitmap s) j))"
proof (intro conjI allI impI)
  fix fuel i s' assume "synx_global_alloc_index env fuel True s = Some (Inr i, s')"
  then obtain r bm where r: "alloc_loop env fuel 0 (sg_bitmap s) = Some (r, bm)"
    "(case r of Inl rc \<Rightarrow> Inl rc | Inr i \<Rightarrow> Inr (of_nat i)) = (Inr i :: int + u32)" "s' = s\<lparr>sg_bitmap := bm\<rparr>"
    using assms(1) by (auto simp: synx_global_alloc_index_def bind_Some_iff)
  then obtain k where k: "alloc_loop env fuel 0 (sg_bitmap s) = Some (Inr k, sg_bitmap s')" "i = of_nat k"
    by (cases r) auto
  note sound = alloc_loop_sound[where env = env, OF k(1) assms(2,3)]
  then have "unat i = k" by (simp add: k(2) unat_of_nat)
  then show "unat i < 4096" "\<exists>b k. \<not> bm_bit (env k b) (unat i) \<and> (\<forall>j. bm_bit (sg_bitmap s') j \<longleftrightarrow> bm_bit (env k b) j \<or> j = unat i)"
    using sound by blast+
next
  fix k assume "env k = (\<lambda>b. b)"
  then show "synx_global_alloc_index env (Suc k) True s \<noteq> None"
    using alloc_loop_returns[where env = env, OF assms(2,3), of 0 k "Suc k"] assms(1) by (auto simp: synx_global_alloc_index_def)
next
  let ?i = "find_first_zero_bit (sg_bitmap s) SYNX_GLOBAL_MAX_OBJS"
  show "if \<forall>j<4096. bm_bit (sg_bitmap s) j then synx_global_alloc_index (\<lambda>_ b. b) 1 True s = Some (Inl (- SYNX_NOMEM), s)
       else \<exists>i s'. synx_global_alloc_index (\<lambda>_ b. b) 1 True s = Some (Inr i, s') \<and> \<not> bm_bit (sg_bitmap s) (unat i)
         \<and> (\<forall>j<unat i. bm_bit (sg_bitmap s) j)"
  proof (cases "?i < 4096")
    case True
    then have f: "\<not> bm_bit (sg_bitmap s) ?i" "unat (of_nat ?i :: u32) = ?i"
      using first_zero(3)[of "sg_bitmap s" SYNX_GLOBAL_MAX_OBJS] by (simp_all add: SYNX_GLOBAL_MAX_OBJS_def unat_of_nat)
    obtain prev b' where "ipclite_global_test_and_set_bit (?i mod 32) (?i div 32) (sg_bitmap s) = Some (prev, b')"
      "prev AND push_bit (?i mod 32) 1 = 0"
      using test_and_set[OF assms(2) True] f by blast
    then have "synx_global_alloc_index (\<lambda>_ b. b) 1 True s = Some (Inr (of_nat ?i), s\<lparr>sg_bitmap := b'\<rparr>)"
      using True assms(1) by (simp add: synx_global_alloc_index_def SYNX_GLOBAL_MAX_OBJS_def Let_def)
    then show ?thesis using f True first_zero(2)[of _ "sg_bitmap s" SYNX_GLOBAL_MAX_OBJS] by auto
  next
    case False
    then have "?i = 4096" using first_zero(1)[of "sg_bitmap s" SYNX_GLOBAL_MAX_OBJS] by (simp add: SYNX_GLOBAL_MAX_OBJS_def)
    then have "\<forall>j<4096. bm_bit (sg_bitmap s) j" using first_zero(2)[of _ "sg_bitmap s" SYNX_GLOBAL_MAX_OBJS] by simp
    then show ?thesis using \<open>?i = 4096\<close> assms(1) by (simp add: synx_global_alloc_index_def SYNX_GLOBAL_MAX_OBJS_def Let_def)
  qed
qed


text \<open>The shared memory after \<open>synx_global_mem_init\<close>, in a region that holds the table.\<close>

definition demo_gmem :: synx_shared_mem where
  "demo_gmem = \<lparr>sg_bitmap = 1 # replicate 127 0, sg_table = replicate 4096 zero_coredata, sg_hwlock = True, sg_locked = False,
     sg_lock_rc = (\<lambda>_. 0), sg_lock_calls = 0, sg_msgs = []\<rparr>"

lemma demo_gmem_init:
  "synx_global_mem_init 0 98824 True \<lparr>sg_bitmap = [], sg_table = [], sg_hwlock = False, sg_locked = False,
     sg_lock_rc = (\<lambda>_. 0), sg_lock_calls = 0, sg_msgs = []\<rparr> = Some (0, demo_gmem)"
proof -
  have "(replicate 4096 zero_coredata)[0 := zero_coredata] = replicate 4096 zero_coredata"
    by (metis list_update_id nth_replicate zero_less_numeral)
  moreover have "(replicate 128 (0 :: u32))[0 := 1] = 1 # replicate 127 0" by (simp add: numeral_eq_Suc)
  ultimately show ?thesis
    by (simp add: synx_global_mem_init_def synx_gmem_init_def synx_consts ipclite_global_test_and_set_bit_def put_entry_def demo_gmem_def)
qed

lemma demo_gmem_ok: "gm_ok demo_gmem"
  by (simp add: gm_ok_def demo_gmem_def list_all_length zero_coredata_def synx_consts)

theorem alloc_index_correct_witness:
  "\<exists>i s'. synx_global_alloc_index (\<lambda>_ b. b) 1 True demo_gmem = Some (Inr i, s') \<and> \<not> bm_bit (sg_bitmap demo_gmem) (unat i)
     \<and> bm_bit (sg_bitmap s') (unat i)"
proof -
  have "\<not> bm_bit (sg_bitmap demo_gmem) 1" by (simp add: demo_gmem_def bm_bit_def)
  then have ex: "\<not> (\<forall>j<4096. bm_bit (sg_bitmap demo_gmem) j)" by (metis one_less_numeral_iff semiring_norm(76))
  have "sg_table demo_gmem \<noteq> []" "length (sg_bitmap demo_gmem) = 128" using demo_gmem_ok by (auto simp: gm_ok_def)
  note c = alloc_index_correct[where env = "\<lambda>_ b. b", OF this]
  obtain i s' where "synx_global_alloc_index (\<lambda>_ b. b) 1 True demo_gmem = Some (Inr i, s')" "\<not> bm_bit (sg_bitmap demo_gmem) (unat i)"
    using c ex by auto
  moreover from this(1) have "bm_bit (sg_bitmap s') (unat i)" using c by blast
  ultimately show ?thesis by blast
qed


section \<open>References\<close>

text \<open>References on entry \<open>i\<close>, while the other entries and bits are those of \<open>s0\<close>.\<close>

definition ref_ok :: "u32 \<Rightarrow> synx_shared_mem \<Rightarrow> synx_shared_mem \<Rightarrow> bool" where
  "ref_ok i s0 s \<longleftrightarrow> gm_ok s \<and> 0 < unat i \<and> unat i < 4096 \<and> (g_refcount (sg_table s ! unat i) \<noteq> 0 \<longrightarrow> g_handle (sg_table s ! unat i) \<noteq> 0)
     \<and> (\<forall>j. j \<noteq> 0 \<and> j \<noteq> unat i \<longrightarrow> sg_table s ! j = sg_table s0 ! j) \<and> (\<forall>j. j \<noteq> unat i \<longrightarrow> bm_bit (sg_bitmap s) j = bm_bit (sg_bitmap s0) j)
     \<and> sg_msgs s = sg_msgs s0"

definition ref_count :: "u32 \<Rightarrow> synx_shared_mem \<Rightarrow> nat" where
  "ref_count i s = unat (g_refcount (sg_table s ! unat i))"

definition ref_get :: "u32 \<Rightarrow> synx_shared_mem \<Rightarrow> synx_shared_mem option" where
  "ref_get i s = (case synx_global_get_ref i s of Some (rc, s') \<Rightarrow> if rc = 0 then Some s' else None | None \<Rightarrow> None)"

definition ref_gone :: "u32 \<Rightarrow> synx_shared_mem \<Rightarrow> bool" where
  "ref_gone i s \<longleftrightarrow> sg_table s ! unat i = zero_coredata \<and> \<not> bm_bit (sg_bitmap s) (unat i)"

lemma ref_ok_sec:
  assumes "ref_ok i s0 s" and "length (g_parents e) = 4" and "g_refcount e \<noteq> 0 \<longrightarrow> g_handle e \<noteq> 0"
  shows "ref_ok i s0 (sec (unat i) e s) \<and> sg_table (sec (unat i) e s) ! unat i = e"
proof -
  have l: "unat i < length (sg_table s)" "0 < unat i" using assms(1) by (auto simp: ref_ok_def gm_ok_def)
  have "gm_ok (sec (unat i) e s)" using assms by (intro gm_ok_sec) (simp_all add: ref_ok_def)
  then show ?thesis using assms sec_table[OF _ l(1), of _ e] l(2) by (simp add: ref_ok_def)
qed

lemma u16_pred: "1 < unat (w :: u16) \<Longrightarrow> unat (w - 1) = unat w - 1 \<and> w - 1 \<noteq> 0"
  by (metis One_nat_def Suc_lessD diff_is_0_eq less_numeral_extra(3) linorder_not_le unat_0 unat_minus_one unat_gt_0 word_neq_0_conv)

lemma ref_entry:
  assumes "ref_ok i s0 s"
  shows "gm_ok s" "0 < unat i" "unat i < 4096" "length (g_parents (sg_table s ! unat i)) = 4" "sg_table s \<noteq> []" "synx_is_valid_idx i"
  using assms gm_ok_parents gm_ok_nonempty by (auto simp: ref_ok_def valid_idx)

interpretation sref: refcounted "ref_ok i s0" "ref_count i" 65535 "ref_get i" "synx_global_put_ref i" "ref_gone i"
  for i s0
proof unfold_locales
  fix s assume ok: "ref_ok i s0 s"
  let ?e = "sg_table s ! unat i"
  note e = ref_entry[OF ok]
  show "\<exists>s'. ref_get i s = Some s' \<and> ref_ok i s0 s' \<and> ref_count i s' = Suc (ref_count i s)" if c: "0 < ref_count i s" "ref_count i s < 65535"
  proof -
    let ?e' = "?e\<lparr>g_refcount := g_refcount ?e + 1\<rparr>"
    have r: "g_refcount ?e \<noteq> 0" "g_handle ?e \<noteq> 0" using c(1) ok by (auto simp: ref_count_def ref_ok_def unat_gt_0)
    have "gmem_section (unat i) (\<lambda>e. if g_handle e \<noteq> 0 \<and> g_refcount e \<noteq> 0 then (0, e\<lparr>g_refcount := g_refcount e + 1\<rparr>) else (- SYNX_NOENT, e)) s
        = Some (Inr 0, sec (unat i) ?e' s)"
      using r by (intro section_ok e) simp
    then have "ref_get i s = Some (sec (unat i) ?e' s)" using e by (simp add: ref_get_def synx_global_get_ref_def section_rc_def)
    moreover have "unat (g_refcount ?e + 1) = Suc (unat (g_refcount ?e))" using c(2) by (simp add: ref_count_def unat_word_ariths)
    ultimately show ?thesis using ref_ok_sec[OF ok, of ?e'] e(4) r by (simp add: ref_count_def)
  qed
  show "\<exists>s'. synx_global_put_ref i s = Some s' \<and> ref_ok i s0 s' \<and> ref_count i s' = ref_count i s - 1" if c: "1 < ref_count i s"
  proof -
    let ?e' = "?e\<lparr>g_refcount := g_refcount ?e - 1\<rparr>"
    have r: "unat (g_refcount ?e - 1) = unat (g_refcount ?e) - 1" "g_refcount ?e - 1 \<noteq> 0" "g_refcount ?e \<noteq> 0"
      using u16_pred[of "g_refcount ?e"] c by (auto simp: ref_count_def)
    have "gmem_section (unat i) put_ref s = Some (Inr False, sec (unat i) ?e' s)"
      using r by (intro section_ok e) (simp add: put_ref_def Let_def)
    then have "synx_global_put_ref i s = Some (sec (unat i) ?e' s)" using e by (simp add: synx_global_put_ref_def)
    moreover have "g_handle ?e \<noteq> 0" using r(3) ok by (simp add: ref_ok_def)
    ultimately show ?thesis using ref_ok_sec[OF ok, of ?e'] e(4) r by (simp add: ref_count_def)
  qed
  show "\<exists>s'. synx_global_put_ref i s = Some s' \<and> ref_ok i s0 s' \<and> ref_count i s' = 0 \<and> ref_gone i s'" if c: "ref_count i s = 1"
  proof -
    have "g_refcount ?e = 1" using c by (simp add: ref_count_def word_unat_eq_iff)
    then have sc: "gmem_section (unat i) put_ref s = Some (Inr True, sec (unat i) zero_coredata s)"
      by (intro section_ok e) (simp add: put_ref_def Let_def)
    have z: "length (g_parents zero_coredata) = 4" "g_refcount zero_coredata = 0" by (simp_all add: zero_coredata_def synx_consts)
    note o1 = ref_ok_sec[OF ok z(1)] 
    have "length (sg_bitmap (sec (unat i) zero_coredata s)) = 128" using e(1) by (simp add: gm_ok_def)
    from release_ok[OF this e(3)] obtain bm where bm: "release_index (unat i) (sec (unat i) zero_coredata s) = Some (sec (unat i) zero_coredata s\<lparr>sg_bitmap := bm\<rparr>)"
      "length bm = 128" "\<forall>j. bm_bit bm j \<longleftrightarrow> bm_bit (sg_bitmap s) j \<and> j \<noteq> unat i" by auto
    have "synx_global_put_ref i s = Some (sec (unat i) zero_coredata s\<lparr>sg_bitmap := bm\<rparr>)" using e sc bm(1) by (simp add: synx_global_put_ref_def)
    moreover have "ref_ok i s0 (sec (unat i) zero_coredata s\<lparr>sg_bitmap := bm\<rparr>)"
      using o1 z bm(2,3) by (simp add: ref_ok_def gm_ok_def)
    ultimately show ?thesis using o1 z bm(3) by (simp add: ref_count_def ref_gone_def)
  qed
  show "ref_get i s = None" if "ref_count i s = 0"
  proof -
    have "g_refcount ?e = 0" using that by (simp add: ref_count_def unat_eq_zero)
    then have "gmem_section (unat i) (\<lambda>e. if g_handle e \<noteq> 0 \<and> g_refcount e \<noteq> 0 then (0, e\<lparr>g_refcount := g_refcount e + 1\<rparr>) else (- SYNX_NOENT, e)) s
        = Some (Inr (- SYNX_NOENT), sec (unat i) ?e s)" by (intro section_ok e) simp
    then show ?thesis using e by (simp add: ref_get_def synx_global_get_ref_def section_rc_def SYNX_NOENT_def)
  qed
qed


lemma init_coredata_ok:
  assumes s: "gm_ok s" and i: "i = h AND SYNX_HANDLE_INDEX_MASK" "0 < unat i" "unat i < 4096" and z: "sg_table s ! unat i = zero_coredata"
  shows "synx_global_init_coredata h s = Some (0, sec (unat i) (zero_coredata\<lparr>g_status := SYNX_STATE_ACTIVE, g_refcount := 1,
      g_subscribers := 1, g_handle := h\<rparr>) s)"
proof -
  have "gmem_section (unat i) (init_coredata h) s = Some (Inr 0, sec (unat i) (zero_coredata\<lparr>g_status := SYNX_STATE_ACTIVE, g_refcount := 1,
      g_subscribers := 1, g_handle := h\<rparr>) s)"
    using z by (intro section_ok s i) (simp add: init_coredata_def zero_coredata_def synx_consts)
  then show ?thesis using gm_ok_nonempty[OF s] i by (simp add: synx_global_init_coredata_def section_rc_def valid_idx)
qed

text \<open>C34: the life of a global entry. Initialised in a free slot it carries one reference; \<open>n\<close> more can be taken (up to the width of
  the counter); after as many have been dropped the entry is all zero and its index free, taking a
  reference is refused, the entry can be initialised again, and no other entry or index was touched.\<close>

theorem entry_lifecycle:
  assumes "gm_ok s" and "i = h AND SYNX_HANDLE_INDEX_MASK" and "0 < unat i" and "unat i < 4096" and "sg_table s ! unat i = zero_coredata"
    and "h \<noteq> 0" and "n \<le> 65534"
  shows "\<exists>s1 s2 s3. synx_global_init_coredata h s = Some (0, s1) \<and> run_n n (ref_get i) s1 = Some s2
    \<and> run_n (Suc n) (synx_global_put_ref i) s2 = Some s3 \<and> sg_table s3 ! unat i = zero_coredata \<and> \<not> bm_bit (sg_bitmap s3) (unat i)
    \<and> ref_get i s3 = None \<and> (\<exists>s4. synx_global_init_coredata h s3 = Some (0, s4))
    \<and> (\<forall>j. j \<noteq> 0 \<and> j \<noteq> unat i \<longrightarrow> sg_table s3 ! j = sg_table s ! j \<and> bm_bit (sg_bitmap s3) j = bm_bit (sg_bitmap s) j)"
proof -
  let ?e = "zero_coredata\<lparr>g_status := SYNX_STATE_ACTIVE, g_refcount := 1, g_subscribers := 1, g_handle := h\<rparr>"
  have ok: "ref_ok i s s" using assms by (simp add: ref_ok_def zero_coredata_def)
  have "ref_ok i s (sec (unat i) ?e s) \<and> sg_table (sec (unat i) ?e s) ! unat i = ?e"
    using assms(6) by (intro ref_ok_sec[OF ok]) (simp_all add: zero_coredata_def synx_consts)
  then have s1: "ref_ok i s (sec (unat i) ?e s)" "ref_count i (sec (unat i) ?e s) = 1" by (simp_all add: ref_count_def)
  obtain s2 s3 where "run_n n (ref_get i) (sec (unat i) ?e s) = Some s2" "run_n (Suc n) (synx_global_put_ref i) s2 = Some s3"
    "ref_ok i s s3" "ref_gone i s3" "ref_get i s3 = None"
    using sref.balanced[OF s1(1), of n] s1(2) assms(7) by auto
  moreover from this have "\<exists>s4. synx_global_init_coredata h s3 = Some (0, s4)"
    using init_coredata_ok[OF _ assms(2-4)] by (auto simp: ref_ok_def ref_gone_def)
  ultimately show ?thesis using init_coredata_ok[OF assms(1-5)] by (auto simp: ref_ok_def ref_gone_def)
qed

theorem entry_lifecycle_witness:
  "\<exists>s1 s2 s3. synx_global_init_coredata 65537 demo_gmem = Some (0, s1) \<and> run_n 2 (ref_get 1) s1 = Some s2
    \<and> run_n 3 (synx_global_put_ref 1) s2 = Some s3 \<and> ref_get 1 s3 = None"
proof -
  have h: "(1 :: u32) = 65537 AND SYNX_HANDLE_INDEX_MASK" by (simp add: synx_consts)
  have "sg_table demo_gmem ! unat (1 :: u32) = zero_coredata" by (simp add: demo_gmem_def)
  moreover have "(65537 :: u32) \<noteq> 0" by simp
  ultimately show ?thesis using entry_lifecycle[OF demo_gmem_ok h, of 2] by (auto simp del: run_n.simps)
qed

end
