(* ===== verification/Synx_Composite.thy ===== *)
theory Synx_Composite
  imports Synx_Global
begin

text \<open>
  Composite objects of the global synx table: what \<open>synx_global_merge\<close> builds and how signals of the
  children reach the composite, up to the notification of the cores that wait for it; termination of the
  notification of parents; and the interleaving of a merge with a signal.
\<close>

section \<open>One notification\<close>

definition is_error :: "u32 \<Rightarrow> bool" where
  "is_error st \<longleftrightarrow> st > SYNX_STATE_SIGNALED_SUCCESS \<and> st \<le> SYNX_STATE_SIGNALED_MAX"

definition cstep :: "u32 \<Rightarrow> u32 \<Rightarrow> u32" where
  "cstep st0 st = (if st0 = SYNX_STATE_ACTIVE \<or> is_error st then st else st0)"

definition no_cores :: "bool list" where
  "no_cores = replicate SYNX_CORE_MAX False"

text \<open>The messages to the cores in \<open>w\<close> about object \<open>h\<close>: the application processor itself is told only on a subsystem restart.\<close>

definition signal_data :: "u32 \<Rightarrow> u32 \<Rightarrow> u64" where
  "signal_data h st = push_bit 32 (ucast h) OR ucast st"

definition signal_msgs :: "u32 \<Rightarrow> u64 \<Rightarrow> u16 \<Rightarrow> (u32 \<times> u64) list" where
  "signal_msgs st data w = map (\<lambda>i. (synx_global_map_core_id i, data))
     (filter (bit w) [(if st = SYNX_STATE_SIGNALED_SSR then 0 else 1)..<SYNX_CORE_MAX])"

lemma signal_plain:
  assumes "g_num_child e = 0"
  shows "signal_entry st e = ((False, signal_data (g_handle e) st, core_list (g_waiters e) no_cores, g_parents e), e\<lparr>g_status := st, g_waiters := 0\<rparr>)"
  using assms by (simp add: signal_entry_def get_waiting_cores_locked_def Let_def signal_data_def no_cores_def)

lemma signal_pending:
  assumes "g_num_child e \<noteq> 0" and "g_num_child e \<noteq> 1"
  shows "signal_entry st e = ((False, 0, no_cores, replicate 4 0),
      e\<lparr>g_num_child := g_num_child e - 1, g_status := cstep (g_status e) st\<rparr>)"
  using assms by (simp add: signal_entry_def Let_def no_cores_def cstep_def is_error_def SYNX_GLOBAL_MAX_PARENTS_def)

lemma signal_last:
  assumes "g_num_child e = 1" and "g_refcount e \<noteq> 1"
  shows "signal_entry st e = ((False, signal_data (g_handle e) (cstep (g_status e) st), core_list (g_waiters e) no_cores, g_parents e),
      e\<lparr>g_num_child := 0, g_status := cstep (g_status e) st, g_waiters := 0, g_refcount := g_refcount e - 1\<rparr>)"
  using assms by (simp add: signal_entry_def Let_def no_cores_def cstep_def is_error_def signal_data_def get_waiting_cores_locked_def)

definition add_msgs :: "(u32 \<times> u64) list \<Rightarrow> synx_shared_mem \<Rightarrow> synx_shared_mem" where
  "add_msgs ms s = s\<lparr>sg_msgs := sg_msgs s @ ms\<rparr>"

lemma add_msgs_simps [simp]:
  "add_msgs [] s = s" "sg_table (add_msgs ms s) = sg_table s" "sg_bitmap (add_msgs ms s) = sg_bitmap s"
  "sg_msgs (add_msgs ms s) = sg_msgs s @ ms" "gm_ok (add_msgs ms s) = gm_ok s"
  by (simp_all add: add_msgs_def gm_ok_def)

lemma fold_msgs: "fold (\<lambda>i. send_msg (f i) data) xs s = add_msgs (map (\<lambda>i. (f i, data)) xs) s"
  by (induction xs arbitrary: s) (simp_all add: send_msg_def add_msgs_def)

lemma notify_none [simp]: "notify_cores st 0 cores s = s"
  by (simp add: notify_cores_def)

lemma notify_waiters:
  "data \<noteq> 0 \<Longrightarrow> notify_cores st data (core_list w no_cores) s = add_msgs (signal_msgs st data w) s"
proof -
  assume d: "data \<noteq> 0"
  have "filter (\<lambda>i. core_list w no_cores ! i) [k..<SYNX_CORE_MAX] = filter (bit w) [k..<SYNX_CORE_MAX]" for k
    by (rule filter_cong) (auto simp: core_list_def no_cores_def)
  then show ?thesis using d by (simp add: notify_cores_def fold_msgs signal_msgs_def)
qed

lemma signal_data_nonzero: "st \<noteq> 0 \<Longrightarrow> signal_data h st \<noteq> 0"
proof -
  assume "st \<noteq> 0"
  then obtain n where n: "bit st n" by (auto simp: bit_eq_iff)
  then have "n < 32" by (rule bit_imp_le_length[where 'a = 32, simplified])
  then have "bit (signal_data h st) n" using n by (simp add: signal_data_def bit_or_iff bit_ucast_iff)
  then show ?thesis by auto
qed

lemma fold_opt_skip: "fold_opt (\<lambda>p s. if p = 0 then Some s else g p s) ps s = fold_opt g (filter (\<lambda>p. p \<noteq> 0) ps) s"
proof (induction ps arbitrary: s)
  case (Cons p ps)
  then show ?case by (cases "p = 0"; cases "g p s") simp_all
qed simp

text \<open>A call that frees no entry.\<close>

lemma update_core_step:
  assumes "gm_ok s" and "0 < i" "i < 4096" and "signal_entry st (sg_table s ! i) = ((False, data, cores, ps), e)"
  shows "synx_global_update_status_core (Suc fuel) i st s =
    map_option (Pair 0) (fold_opt (\<lambda>p s. map_option snd (synx_global_update_status_core fuel (unat p) st s))
      (filter (\<lambda>p. p \<noteq> 0) ps) (notify_cores st data cores (sec i e s)))"
  using section_ok[OF assms(1-3), of "signal_entry st", OF assms(4)]
  by (simp add: fold_opt_skip SYNX_SUCCESS_def map_option_case split: option.splits)


section \<open>A child signals a composite\<close>

text \<open>The composite after a notification, and the messages it causes.\<close>

definition parent_step :: "u32 \<Rightarrow> synx_global_coredata \<Rightarrow> synx_global_coredata" where
  "parent_step st e = (if g_num_child e = 1
     then e\<lparr>g_num_child := 0, g_status := cstep (g_status e) st, g_waiters := 0, g_refcount := g_refcount e - 1\<rparr>
     else e\<lparr>g_num_child := g_num_child e - 1, g_status := cstep (g_status e) st\<rparr>)"

definition parent_msgs :: "u32 \<Rightarrow> synx_global_coredata \<Rightarrow> (u32 \<times> u64) list" where
  "parent_msgs st e = (if g_num_child e = 1 then signal_msgs st (signal_data (g_handle e) (cstep (g_status e) st)) (g_waiters e) else [])"

definition same_but :: "nat set \<Rightarrow> synx_shared_mem \<Rightarrow> synx_shared_mem \<Rightarrow> bool" where
  "same_but I s s' \<longleftrightarrow> gm_ok s' \<and> sg_bitmap s' = sg_bitmap s \<and> (\<forall>j. 0 < j \<and> j \<notin> I \<longrightarrow> sg_table s' ! j = sg_table s ! j)"

lemma same_but_trans: "same_but I s s' \<Longrightarrow> same_but J s' s'' \<Longrightarrow> same_but (I \<union> J) s s''"
  by (simp add: same_but_def)

lemma same_but_mono: "same_but I s s' \<Longrightarrow> I \<subseteq> J \<Longrightarrow> same_but J s s'"
  by (auto simp: same_but_def)

lemma gm_ok_length: "gm_ok s \<Longrightarrow> length (sg_table s) = 4096"
  by (simp add: gm_ok_def)

lemma same_but_sec:
  "gm_ok s \<Longrightarrow> i < 4096 \<Longrightarrow> length (g_parents e) = 4 \<Longrightarrow> same_but {i} s (sec i e s)"
  using gm_ok_sec[of s i e] gm_ok_length[of s] by (auto simp: same_but_def sec_table)

lemma cstep_nonzero: "st0 \<noteq> 0 \<Longrightarrow> st \<noteq> 0 \<Longrightarrow> cstep st0 st \<noteq> 0"
  by (simp add: cstep_def)

lemma notify_parent:
  assumes s: "gm_ok s" and i: "0 < i" "i < 4096" and e: "e = sg_table s ! i" "g_num_child e \<noteq> 0" "g_num_child e = 1 \<longrightarrow> g_refcount e \<noteq> 1"
    and ps: "\<forall>p \<in> set (g_parents e). p = 0" and st: "st \<noteq> 0" "g_status e \<noteq> 0"
  shows "\<exists>s'. synx_global_update_status_core (Suc fuel) i st s = Some (0, s') \<and> same_but {i} s s' \<and> sg_table s' ! i = parent_step st e
    \<and> sg_msgs s' = sg_msgs s @ parent_msgs st e"
proof -
  have f: "filter (\<lambda>p. p \<noteq> 0) (g_parents e) = []" "length (g_parents e) = 4" "i < length (sg_table s)"
    using ps gm_ok_parents[OF s i(2)] e(1) s i by (auto simp: filter_empty_conv gm_ok_def)
  show ?thesis
  proof (cases "g_num_child e = 1")
    case True
    have "signal_entry st (sg_table s ! i) = ((False, signal_data (g_handle e) (cstep (g_status e) st), core_list (g_waiters e) no_cores, g_parents e),
        parent_step st e)" using signal_last[of e st] True e(1,3) by (simp add: parent_step_def)
    then have "synx_global_update_status_core (Suc fuel) i st s = Some (0, add_msgs (parent_msgs st e) (sec i (parent_step st e) s))"
      using update_core_step[OF s i, of st] True f(1)
        notify_waiters[OF signal_data_nonzero[OF cstep_nonzero[OF st(2,1)]]]
      by (simp add: parent_msgs_def)
    then show ?thesis using same_but_sec[OF s i(2), of "parent_step st e"] f i sec_table[OF i(1) f(3)]
      by (auto simp: same_but_def parent_step_def)
  next
    case False
    have "signal_entry st (sg_table s ! i) = ((False, 0, no_cores, replicate 4 0), parent_step st e)"
      using signal_pending[of e st] False e(1,2) by (simp add: parent_step_def)
    then have "synx_global_update_status_core (Suc fuel) i st s = Some (0, sec i (parent_step st e) s)"
      using update_core_step[OF s i, of st] by simp
    then show ?thesis using same_but_sec[OF s i(2), of "parent_step st e"] f i sec_table[OF i(1) f(3)] False
      by (auto simp: same_but_def parent_step_def parent_msgs_def)
  qed
qed

text \<open>Signalling a child with one composite parent.\<close>

lemma signal_child:
  assumes s: "gm_ok s" and c: "0 < unat c" "unat c < 4096" and p: "0 < unat p" "unat p < 4096" "c \<noteq> p"
    and ec: "ec = sg_table s ! unat c" "g_status ec = SYNX_STATE_ACTIVE" "g_num_child ec = 0" "filter (\<lambda>p. p \<noteq> 0) (g_parents ec) = [ucast p]"
    and ep: "ep = sg_table s ! unat p" "g_num_child ep \<noteq> 0" "g_num_child ep = 1 \<longrightarrow> g_refcount ep \<noteq> 1"
      "\<forall>p \<in> set (g_parents ep). p = 0" "g_status ep \<noteq> 0"
    and st: "SYNX_STATE_ACTIVE < st"
  shows "\<exists>s'. synx_global_update_status 2 c st s = Some (0, s') \<and> same_but {unat c, unat p} s s'
    \<and> sg_table s' ! unat c = ec\<lparr>g_status := st, g_waiters := 0\<rparr> \<and> sg_table s' ! unat p = parent_step st ep
    \<and> sg_msgs s' = sg_msgs s @ signal_msgs st (signal_data (g_handle ec) st) (g_waiters ec) @ parent_msgs st ep"
proof -
  let ?ec = "ec\<lparr>g_status := st, g_waiters := 0\<rparr>"
  define s1 where "s1 = sec (unat c) ec s"
  have st0: "st \<noteq> 0" "\<not> st \<le> SYNX_STATE_ACTIVE" using st by auto
  have cl: "unat c < length (sg_table s)" using s c by (simp add: gm_ok_def)
  have ne: "unat p \<noteq> unat c" using p(3) by (simp add: word_unat_eq_iff)
  have len: "length (g_parents ec) = 4" using gm_ok_parents[OF s c(2)] ec(1) by simp
  have s1: "gm_ok s1" "sg_table s1 ! unat c = ec"
    using gm_ok_sec[OF s c(2) len] sec_table[OF c(1) cl, of ec] by (auto simp: s1_def)
  have t1: "sg_table s1 ! j = sg_table s ! j" if "0 < j" for j
    using sec_table[OF that cl, of ec] ec(1) by (auto simp: s1_def)
  define s2 where "s2 = add_msgs (signal_msgs st (signal_data (g_handle ec) st) (g_waiters ec)) (sec (unat c) ?ec s1)"
  have cl1: "unat c < length (sg_table s1)" using cl by (simp add: s1_def)
  have s2: "gm_ok s2" "sg_table s2 ! unat c = ?ec" "sg_table s2 ! unat p = ep"
    using gm_ok_sec[OF s1(1) c(2), of ?ec] len sec_table[OF c(1) cl1] sec_table[OF p(1) cl1] t1[OF p(1)] ne ep(1) c(1)
    by (auto simp: s2_def)
  have up: "unat (ucast p :: u16) = unat p" using p(2) by (simp add: unsigned_ucast_eq take_bit_nat_eq_self)
  obtain s' where s': "synx_global_update_status_core (Suc 0) (unat p) st s2 = Some (0, s')" "same_but {unat p} s2 s'"
    "sg_table s' ! unat p = parent_step st ep" "sg_msgs s' = sg_msgs s2 @ parent_msgs st ep"
    using notify_parent[OF s2(1) p(1,2) s2(3)[symmetric] ep(2-4) st0(1) ep(5), of 0] by auto
  have "signal_entry st (sg_table s1 ! unat c) = ((False, signal_data (g_handle ec) st, core_list (g_waiters ec) no_cores, g_parents ec), ?ec)"
    using signal_plain[OF ec(3)] s1(2) by simp
  from update_core_step[OF s1(1) c this, of "Suc 0"] have "synx_global_update_status_core 2 (unat c) st s1 = Some (0, s')"
    using ec(4) up s'(1) notify_waiters[OF signal_data_nonzero[OF st0(1)]]
    by (simp add: numeral_2_eq_2 flip: s2_def del: synx_global_update_status_core.simps)
  moreover have "gmem_section (unat c) (\<lambda>e. (if g_num_child e \<noteq> 0 then (False, 0) else if g_status e \<noteq> SYNX_STATE_ACTIVE then (False, - SYNX_ALREADY)
      else (True, 0), e)) s = Some (Inr (True, 0), s1)"
    unfolding s1_def using ec by (intro section_ok s c) simp
  ultimately have "synx_global_update_status 2 c st s = Some (0, s')"
    using gm_ok_nonempty[OF s] c(2) st0(2) by (simp add: synx_global_update_status_def valid_idx)
  moreover have "same_but {unat c} s s2"
    using s2(1) sec_table[OF _ cl1] t1 by (auto simp: same_but_def s2_def s1_def)
  then have "same_but {unat c, unat p} s s'" by (rule same_but_mono[OF same_but_trans[OF _ s'(2)]]) auto
  moreover have "sg_table s' ! unat c = ?ec" using s'(2) s2(2) ne c(1) by (auto simp: same_but_def)
  moreover have "sg_msgs s2 = sg_msgs s @ signal_msgs st (signal_data (g_handle ec) st) (g_waiters ec)" by (simp add: s2_def s1_def)
  ultimately show ?thesis using s' by auto
qed


section \<open>Building a composite\<close>

definition linked_child :: "u32 \<Rightarrow> synx_global_coredata \<Rightarrow> synx_global_coredata" where
  "linked_child p e = e\<lparr>g_parents := snd (add_parent (ucast p) (g_parents e))\<rparr>"

definition has_room :: "synx_global_coredata \<Rightarrow> bool" where
  "has_room e \<longleftrightarrow> (\<exists>k<4. g_parents e ! k = 0)"

lemma length_add_parent [simp]: "length (snd (add_parent p ps)) = length ps"
  by (simp add: add_parent_def split: option.splits)

lemma has_room_add: "has_room e \<Longrightarrow> fst (add_parent p (g_parents e))"
  by (auto simp: has_room_def add_parent_def SYNX_GLOBAL_MAX_PARENTS_def find_None_iff split: option.splits)

lemma merge_child_eq:
  "has_room e \<Longrightarrow> merge_child p e = ((True, g_status e, g_num_child e), linked_child p e)"
  using has_room_add[of e "ucast p"] by (simp add: merge_child_def linked_child_def case_prod_beta)

definition pending_in :: "synx_shared_mem \<Rightarrow> u32 \<Rightarrow> bool" where
  "pending_in s c \<longleftrightarrow> pending (g_status (sg_table s ! unat c)) (g_num_child (sg_table s ! unat c))"

lemma merge_children_ok:
  assumes "gm_ok s" and "distinct cs" and "\<forall>c \<in> set cs. 0 < unat c \<and> unat c < 4096 \<and> has_room (sg_table s ! unat c)"
  shows "\<exists>s'. merge_children p cs rc n ps s = Some (Inr (), n + length (filter (pending_in s) cs),
      foldl join_status ps (map (\<lambda>c. g_status (sg_table s ! unat c)) cs), s')
    \<and> same_but (unat ` set cs) s s' \<and> (\<forall>c \<in> set cs. sg_table s' ! unat c = linked_child p (sg_table s ! unat c)) \<and> sg_msgs s' = sg_msgs s"
  using assms
proof (induction cs arbitrary: rc n ps s)
  case Nil
  then show ?case by (simp add: same_but_def)
next
  case (Cons c cs)
  let ?e = "sg_table s ! unat c"
  let ?s1 = "sec (unat c) (linked_child p ?e) s"
  have c: "0 < unat c" "unat c < 4096" "has_room ?e" "unat c < length (sg_table s)" using Cons.prems by (auto simp: gm_ok_def)
  have sc: "gmem_section (unat c) (merge_child p) s = Some (Inr (True, g_status ?e, g_num_child ?e), ?s1)"
    by (intro section_ok Cons.prems(1) c merge_child_eq)
  have "length (g_parents (linked_child p ?e)) = 4" using gm_ok_parents[OF Cons.prems(1) c(2)] by (simp add: linked_child_def)
  then have sb: "same_but {unat c} s ?s1" by (rule same_but_sec[OF Cons.prems(1) c(2)])
  have old: "sg_table ?s1 ! unat x = sg_table s ! unat x" if "x \<in> set cs" for x
  proof -
    have "unat x \<noteq> unat c" "0 < unat x" using that Cons.prems(2,3) by (auto dest: unat_inj)
    then show ?thesis using sb by (simp add: same_but_def)
  qed
  have "gm_ok ?s1" using sb by (simp add: same_but_def)
  moreover have "\<forall>x \<in> set cs. 0 < unat x \<and> unat x < 4096 \<and> has_room (sg_table ?s1 ! unat x)" using Cons.prems(3) old by simp
  moreover have "distinct cs" using Cons.prems(2) by simp
  ultimately obtain s' where s': "merge_children p cs 0 (if pending_in s c then Suc n else n) (join_status ps (g_status ?e)) ?s1 = Some (Inr (),
      (if pending_in s c then Suc n else n) + length (filter (pending_in ?s1) cs),
      foldl join_status (join_status ps (g_status ?e)) (map (\<lambda>c. g_status (sg_table ?s1 ! unat c)) cs), s')"
    "same_but (unat ` set cs) ?s1 s'" "\<forall>x \<in> set cs. sg_table s' ! unat x = linked_child p (sg_table ?s1 ! unat x)" "sg_msgs s' = sg_msgs ?s1"
    using Cons.IH[of ?s1 0 "if pending_in s c then Suc n else n" "join_status ps (g_status ?e)"] by blast
  have fe: "filter (pending_in ?s1) cs = filter (pending_in s) cs" by (rule filter_cong) (auto simp: pending_in_def old)
  have me: "map (\<lambda>c. g_status (sg_table ?s1 ! unat c)) cs = map (\<lambda>c. g_status (sg_table s ! unat c)) cs" using old by simp
  have "merge_children p (c # cs) rc n ps s = Some (Inr (), n + length (filter (pending_in s) (c # cs)),
      foldl join_status ps (map (\<lambda>c. g_status (sg_table s ! unat c)) (c # cs)), s')"
    using sc s'(1)[unfolded fe me] c(2) by (simp add: valid_idx pending_in_def)
  moreover have "same_but (unat ` set (c # cs)) s s'" by (rule same_but_mono[OF same_but_trans[OF sb s'(2)]]) auto
  moreover have "unat c \<notin> unat ` set cs" using Cons.prems(2) by (auto dest: unat_inj)
  then have "sg_table s' ! unat c = linked_child p ?e" using s'(2) c sec_table[OF c(1,4)] by (auto simp: same_but_def)
  ultimately show ?case using s'(3,4) old by auto
qed

lemma merge_spec:
  assumes "gm_ok s" and "distinct cs" and "cs \<noteq> []" and "\<forall>c \<in> set cs. 0 < unat c \<and> unat c < 4096 \<and> has_room (sg_table s ! unat c)"
    and "0 < unat p" and "unat p < 4096" and "p \<notin> set cs" and "e = sg_table s ! unat p"
  shows "\<exists>s'. synx_global_merge cs p s = Some (0, s') \<and> same_but (insert (unat p) (unat ` set cs)) s s' \<and> sg_msgs s' = sg_msgs s
    \<and> (\<forall>c \<in> set cs. sg_table s' ! unat c = linked_child p (sg_table s ! unat c))
    \<and> (let n = g_num_child e + of_nat (length (filter (pending_in s) cs)) in
       sg_table s' ! unat p = e\<lparr>g_num_child := n, g_refcount := (if n = 0 then g_refcount e else g_refcount e + 1),
         g_status := foldl join_status SYNX_STATE_ACTIVE (map (\<lambda>c. g_status (sg_table s ! unat c)) cs)\<rparr>)"
proof -
  let ?n = "length (filter (pending_in s) cs)" and ?st = "foldl join_status SYNX_STATE_ACTIVE (map (\<lambda>c. g_status (sg_table s ! unat c)) cs)"
  obtain s1 where s1: "merge_children p cs (- SYNX_INVALID) 0 SYNX_STATE_ACTIVE s = Some (Inr (), ?n, ?st, s1)"
    "same_but (unat ` set cs) s s1" "\<forall>c \<in> set cs. sg_table s1 ! unat c = linked_child p (sg_table s ! unat c)" "sg_msgs s1 = sg_msgs s"
    using merge_children_ok[OF assms(1,2,4), of p "- SYNX_INVALID" 0 SYNX_STATE_ACTIVE] by auto
  define n where "n = g_num_child e + of_nat ?n"
  let ?e = "e\<lparr>g_num_child := n, g_refcount := (if n = 0 then g_refcount e else g_refcount e + 1), g_status := ?st\<rparr>"
  have np: "unat p \<notin> unat ` set cs" using assms(7) by (auto dest: unat_inj)
  have e1: "sg_table s1 ! unat p = e" "gm_ok s1" "unat p < length (sg_table s1)"
    using s1(2) np assms(5,6,8) by (auto simp: same_but_def gm_ok_length)
  have "merge_parent ?n ?st e = ((), ?e)" by (simp add: merge_parent_def n_def Let_def)
  then have "gmem_section (unat p) (merge_parent ?n ?st) s1 = Some (Inr (), sec (unat p) ?e s1)"
    using e1 by (intro section_ok assms(5,6)) simp_all
  then have "synx_global_merge cs p s = Some (0, sec (unat p) ?e s1)"
    using s1(1) gm_ok_nonempty[OF assms(1)] assms(3,6) by (simp add: synx_global_merge_def merge_finish_def valid_idx SYNX_SUCCESS_def)
  moreover have "length (g_parents ?e) = 4" using gm_ok_parents[OF e1(2) assms(6)] e1(1) by simp
  then have sb: "same_but {unat p} s1 (sec (unat p) ?e s1)" using same_but_sec[OF e1(2) assms(6)] by blast
  have "same_but (insert (unat p) (unat ` set cs)) s (sec (unat p) ?e s1)" by (rule same_but_mono[OF same_but_trans[OF s1(2) sb]]) auto
  moreover have "sg_table (sec (unat p) ?e s1) ! unat p = ?e" using sec_table[OF assms(5) e1(3)] by simp
  moreover have "sg_table (sec (unat p) ?e s1) ! unat c = linked_child p (sg_table s ! unat c)" if "c \<in> set cs" for c
  proof -
    have "unat c \<noteq> unat p" using that np by (metis imageI)
    moreover have "0 < unat c" using that assms(4) by blast
    ultimately show ?thesis using s1(3) that sec_table[of "unat c", OF _ e1(3)] by simp
  qed
  ultimately show ?thesis using s1(4) unfolding Let_def n_def by (intro exI[of _ "sec (unat p) ?e s1"]) (simp add: n_def)
qed

text \<open>C31: merging valid, distinct children that each have a free parent slot always succeeds: every child gets the composite as
  a parent, the composite waits for exactly the children that are still pending and takes a reference for them, its status is the
  last error among the children signalled already (else the first other result, else active), and
  nothing else changes.\<close>

theorem merge_correct:
  assumes "gm_ok s" and "distinct cs" and "cs \<noteq> []" and "\<forall>c \<in> set cs. 0 < unat c \<and> unat c < 4096 \<and> has_room (sg_table s ! unat c)"
    and "0 < unat p" and "unat p < 4096" and "p \<notin> set cs" and "e = sg_table s ! unat p"
  shows "\<exists>s'. synx_global_merge cs p s = Some (0, s') \<and> same_but (insert (unat p) (unat ` set cs)) s s' \<and> sg_msgs s' = sg_msgs s
    \<and> (\<forall>c \<in> set cs. sg_table s' ! unat c = linked_child p (sg_table s ! unat c))
    \<and> (let n = g_num_child e + of_nat (length (filter (pending_in s) cs)) in
       sg_table s' ! unat p = e\<lparr>g_num_child := n, g_refcount := (if n = 0 then g_refcount e else g_refcount e + 1),
         g_status := foldl join_status SYNX_STATE_ACTIVE (map (\<lambda>c. g_status (sg_table s ! unat c)) cs)\<rparr>)"
  using assms by (rule merge_spec)

section \<open>The children of a composite signal\<close>

text \<open>The result of a composite: the last error of its children, and without one the result of the first.\<close>

definition comp_status :: "u32 list \<Rightarrow> u32" where
  "comp_status ss = (case filter is_error ss of [] \<Rightarrow> hd ss | es \<Rightarrow> last es)"

lemma foldl_cstep:
  assumes "st \<noteq> SYNX_STATE_ACTIVE" and "\<forall>x \<in> set ss. x \<noteq> SYNX_STATE_ACTIVE"
  shows "foldl cstep st ss = (case filter is_error ss of [] \<Rightarrow> st | es \<Rightarrow> last es)"
  using assms
proof (induction ss arbitrary: st)
  case (Cons x ss)
  have "foldl cstep (cstep st x) ss = (case filter is_error ss of [] \<Rightarrow> cstep st x | es \<Rightarrow> last es)"
    using Cons.prems by (intro Cons.IH) (auto simp: cstep_def)
  moreover have "cstep st x = (if is_error x then x else st)" using Cons.prems(1) by (simp add: cstep_def)
  ultimately show ?case by (auto split: list.splits)
qed simp

lemma foldl_cstep_active:
  assumes "ss \<noteq> []" and "\<forall>x \<in> set ss. x \<noteq> SYNX_STATE_ACTIVE"
  shows "foldl cstep SYNX_STATE_ACTIVE ss = comp_status ss"
proof (cases ss)
  case (Cons x xs)
  then show ?thesis using foldl_cstep[of x xs] assms(2) by (auto simp: cstep_def comp_status_def split: list.splits)
qed (use assms in simp)

definition parent_run :: "synx_global_coredata \<Rightarrow> u32 list \<Rightarrow> synx_global_coredata" where
  "parent_run e ss = foldl (\<lambda>e st. parent_step st e) e ss"

lemma parent_run_eq:
  assumes "unat (g_num_child e) = length ss + m"
  shows "parent_run e ss = (if ss = [] \<or> 0 < m then e\<lparr>g_num_child := of_nat m, g_status := foldl cstep (g_status e) ss\<rparr>
    else e\<lparr>g_num_child := 0, g_status := foldl cstep (g_status e) ss, g_waiters := 0, g_refcount := g_refcount e - 1\<rparr>)"
  using assms
proof (induction ss arbitrary: e)
  case Nil
  then have "g_num_child e = of_nat m" by (metis add_0 list.size(3) of_nat_unat ucast_id)
  then show ?case by (simp add: parent_run_def)
next
  case (Cons st ss)
  have n0: "g_num_child e \<noteq> 0" using Cons.prems by (auto simp: word_unat_eq_iff)
  show ?case
  proof (cases "g_num_child e = 1")
    case True
    then have "ss = []" "m = 0" using Cons.prems by auto
    then show ?thesis using True by (simp add: parent_run_def parent_step_def)
  next
    case False
    then have "unat (g_num_child e - 1) = length ss + m" using Cons.prems n0 unat_minus_one[OF n0] by simp
    from Cons.IH[of "parent_step st e"] this False
    have "parent_run (parent_step st e) ss = (if ss = [] \<or> 0 < m then (parent_step st e)\<lparr>g_num_child := of_nat m, g_status := foldl cstep (g_status (parent_step st e)) ss\<rparr>
    else (parent_step st e)\<lparr>g_num_child := 0, g_status := foldl cstep (g_status (parent_step st e)) ss, g_waiters := 0, g_refcount := g_refcount (parent_step st e) - 1\<rparr>)"
      by (simp add: parent_step_def)
    moreover have "ss \<noteq> [] \<or> 0 < m" using Cons.prems False by (auto simp: word_unat_eq_iff)
    ultimately show ?thesis using False by (auto simp: parent_run_def parent_step_def)
  qed
qed

fun run_msgs :: "synx_shared_mem \<Rightarrow> synx_global_coredata \<Rightarrow> (u32 \<times> u32) list \<Rightarrow> (u32 \<times> u64) list" where
  "run_msgs s e [] = []"
| "run_msgs s e ((c, st) # xs) = signal_msgs st (signal_data (g_handle (sg_table s ! unat c)) st) (g_waiters (sg_table s ! unat c))
     @ parent_msgs st e @ run_msgs s (parent_step st e) xs"

definition fresh_child :: "u32 \<Rightarrow> synx_global_coredata \<Rightarrow> bool" where
  "fresh_child p e \<longleftrightarrow> g_status e = SYNX_STATE_ACTIVE \<and> g_num_child e = 0 \<and> filter (\<lambda>p. p \<noteq> 0) (g_parents e) = [ucast p]"

definition signal_all :: "(u32 \<times> u32) list \<Rightarrow> synx_shared_mem \<Rightarrow> synx_shared_mem option" where
  "signal_all = fold_opt (\<lambda>(c, st) s. map_option snd (synx_global_update_status 2 c st s))"

lemma signal_all_ok:
  assumes "gm_ok s" and "distinct (map fst xs)" and "0 < unat p" "unat p < 4096" "p \<notin> set (map fst xs)"
    and "\<forall>(c, st) \<in> set xs. 0 < unat c \<and> unat c < 4096 \<and> fresh_child p (sg_table s ! unat c) \<and> SYNX_STATE_ACTIVE < st"
    and "\<forall>c \<in> set (map fst xs). sg_table s ! unat c = sg_table s0 ! unat c"
    and "e = sg_table s ! unat p" "length xs \<le> unat (g_num_child e)" "g_refcount e \<noteq> 1" "\<forall>p \<in> set (g_parents e). p = 0" "g_status e \<noteq> 0"
  shows "\<exists>s'. signal_all xs s = Some s' \<and> gm_ok s' \<and> sg_table s' ! unat p = parent_run e (map snd xs) \<and> sg_msgs s' = sg_msgs s @ run_msgs s0 e xs"
  using assms
proof (induction xs arbitrary: s e)
  case Nil
  then show ?case by (simp add: signal_all_def parent_run_def)
next
  case (Cons x xs)
  obtain c st where x: "x = (c, st)" by (cases x)
  let ?ec = "sg_table s ! unat c"
  have c: "0 < unat c" "unat c < 4096" "fresh_child p ?ec" "SYNX_STATE_ACTIVE < st" "c \<noteq> p" using Cons.prems x by auto
  have n0: "g_num_child e \<noteq> 0" using Cons.prems(9) by auto
  obtain s1 where s1: "synx_global_update_status 2 c st s = Some (0, s1)" "same_but {unat c, unat p} s s1"
    "sg_table s1 ! unat p = parent_step st e"
    "sg_msgs s1 = sg_msgs s @ signal_msgs st (signal_data (g_handle ?ec) st) (g_waiters ?ec) @ parent_msgs st e"
    using signal_child[OF Cons.prems(1) c(1,2) Cons.prems(3,4) c(5) refl _ _ _ Cons.prems(8) n0 _ Cons.prems(11,12) c(4)] c(3) Cons.prems(10)
    by (auto simp: fresh_child_def)
  have keep: "sg_table s1 ! unat d = sg_table s ! unat d" if "d \<in> set (map fst xs)" for d
  proof -
    have "d \<noteq> c" "d \<noteq> p" "0 < unat d" using that Cons.prems(2,5,6) x by (auto simp: case_prod_beta)
    then show ?thesis using s1(2) by (auto simp: same_but_def dest: unat_inj)
  qed
  have fresh: "\<forall>(c, st) \<in> set xs. 0 < unat c \<and> unat c < 4096 \<and> fresh_child p (sg_table s1 ! unat c) \<and> SYNX_STATE_ACTIVE < st"
  proof clarify
    fix d st' assume d: "(d, st') \<in> set xs"
    then have "d \<in> set (map fst xs)" by force
    from keep[OF this] Cons.prems(6) d
    show "0 < unat d \<and> unat d < 4096 \<and> fresh_child p (sg_table s1 ! unat d) \<and> SYNX_STATE_ACTIVE < st'" by auto
  qed
  have "\<exists>s'. signal_all xs s1 = Some s' \<and> gm_ok s' \<and> sg_table s' ! unat p = parent_run (parent_step st e) (map snd xs)
      \<and> sg_msgs s' = sg_msgs s1 @ run_msgs s0 (parent_step st e) xs"
  proof (cases "xs = []")
    case True
    then show ?thesis using s1 by (simp add: signal_all_def parent_run_def same_but_def)
  next
    case False
    then have n1: "g_num_child e \<noteq> 1" using Cons.prems(9) by (cases xs) auto
    have "length xs \<le> unat (g_num_child (parent_step st e))" using Cons.prems(9) n0 n1 unat_minus_one[OF n0] by (simp add: parent_step_def)
    then show ?thesis
      using Cons.prems(2-5,7-12) x keep s1 n1 c(4) by (intro Cons.IH fresh) (auto simp: parent_step_def same_but_def cstep_def)
  qed
  moreover have "?ec = sg_table s0 ! unat c" using Cons.prems(7) x by simp
  ultimately show ?case using s1 x by (auto simp: signal_all_def parent_run_def)
qed

definition child_msgs :: "synx_shared_mem \<Rightarrow> u32 \<times> u32 \<Rightarrow> (u32 \<times> u64) list" where
  "child_msgs s x = (case x of (c, st) \<Rightarrow> signal_msgs st (signal_data (g_handle (sg_table s ! unat c)) st) (g_waiters (sg_table s ! unat c)))"

lemma run_msgs_eq:
  assumes "unat (g_num_child e) = length xs + m"
  shows "run_msgs s e xs = concat (map (child_msgs s) xs) @ (if m = 0 \<and> xs \<noteq> []
    then signal_msgs (snd (last xs)) (signal_data (g_handle e) (foldl cstep (g_status e) (map snd xs))) (g_waiters e) else [])"
  using assms
proof (induction xs arbitrary: e)
  case (Cons x xs)
  obtain c st where x: "x = (c, st)" by (cases x)
  have n0: "g_num_child e \<noteq> 0" using Cons.prems by (auto simp: word_unat_eq_iff)
  show ?case
  proof (cases "g_num_child e = 1")
    case True
    then have "xs = []" "m = 0" using Cons.prems by auto
    then show ?thesis using True x by (simp add: parent_msgs_def child_msgs_def)
  next
    case False
    then have "unat (g_num_child (parent_step st e)) = length xs + m"
      using Cons.prems n0 unat_minus_one[OF n0] by (simp add: parent_step_def)
    from Cons.IH[OF this] show ?thesis using False x Cons.prems
      by (auto simp: parent_msgs_def child_msgs_def parent_step_def word_unat_eq_iff)
  qed
qed simp

lemma distinct_ids_bound:
  assumes "distinct (cs :: u32 list)" and "\<forall>c \<in> set cs. unat c < 4096"
  shows "length cs \<le> 4096"
proof -
  have "distinct (map unat cs)" using assms(1) by (auto simp: distinct_map inj_on_def dest: unat_inj)
  then have "length cs = card (set (map unat cs))" by (metis distinct_card length_map)
  also have "\<dots> \<le> card {..<4096 :: nat}" using assms(2) by (intro card_mono) auto
  finally show ?thesis by simp
qed

lemma linked_fresh:
  assumes "g_parents e = replicate 4 0" and "(ucast p :: u16) \<noteq> 0"
  shows "has_room e" "filter (\<lambda>p. p \<noteq> 0) (g_parents (linked_child p e)) = [ucast p]"
proof -
  show "has_room e" unfolding has_room_def by (rule exI[of _ 0]) (simp add: assms(1))
  show "filter (\<lambda>p. p \<noteq> 0) (g_parents (linked_child p e)) = [ucast p]"
    using assms by (simp add: linked_child_def add_parent_def SYNX_GLOBAL_MAX_PARENTS_def numeral_eq_Suc)
qed

text \<open>Plain, unsignalled children without a parent, and an object that can become their composite.\<close>

definition mergeable :: "synx_shared_mem \<Rightarrow> u32 list \<Rightarrow> u32 \<Rightarrow> bool" where
  "mergeable s cs p \<longleftrightarrow> gm_ok s \<and> distinct cs \<and> cs \<noteq> [] \<and> 0 < unat p \<and> unat p < 4096 \<and> p \<notin> set cs
     \<and> (\<forall>c \<in> set cs. 0 < unat c \<and> unat c < 4096 \<and> g_status (sg_table s ! unat c) = SYNX_STATE_ACTIVE
          \<and> g_num_child (sg_table s ! unat c) = 0 \<and> g_parents (sg_table s ! unat c) = replicate 4 0)
     \<and> g_num_child (sg_table s ! unat p) = 0 \<and> g_parents (sg_table s ! unat p) = replicate 4 0 \<and> g_refcount (sg_table s ! unat p) \<noteq> 0"

definition merged :: "nat \<Rightarrow> synx_global_coredata \<Rightarrow> synx_global_coredata" where
  "merged n e = e\<lparr>g_num_child := of_nat n, g_refcount := g_refcount e + 1, g_status := SYNX_STATE_ACTIVE\<rparr>"

lemma mergeable_length:
  assumes "mergeable s cs p"
  shows "length cs \<le> 4096" "unat (of_nat (length cs) :: u16) = length cs" "(of_nat (length cs) :: u16) \<noteq> 0" "(ucast p :: u16) \<noteq> 0"
proof -
  show n: "length cs \<le> 4096" using distinct_ids_bound[of cs] assms by (auto simp: mergeable_def)
  then show un: "unat (of_nat (length cs) :: u16) = length cs" by (simp add: unat_of_nat)
  show "(of_nat (length cs) :: u16) \<noteq> 0" using un assms by (metis length_0_conv mergeable_def unat_0)
  have "unat (ucast p :: u16) = unat p" using assms by (simp add: mergeable_def unsigned_ucast_eq take_bit_nat_eq_self)
  then show "(ucast p :: u16) \<noteq> 0" using assms by (metis less_irrefl mergeable_def unat_0)
qed

lemma merge_fresh:
  assumes m: "mergeable s cs p"
  shows "\<exists>s1. synx_global_merge cs p s = Some (0, s1) \<and> gm_ok s1 \<and> sg_msgs s1 = sg_msgs s
    \<and> (\<forall>c \<in> set cs. sg_table s1 ! unat c = linked_child p (sg_table s ! unat c) \<and> fresh_child p (sg_table s1 ! unat c))
    \<and> sg_table s1 ! unat p = merged (length cs) (sg_table s ! unat p)"
proof -
  note up = mergeable_length(4)[OF m]
  have fr: "\<forall>c \<in> set cs. has_room (sg_table s ! unat c) \<and> fresh_child p (linked_child p (sg_table s ! unat c))"
  proof
    fix c assume "c \<in> set cs"
    then show "has_room (sg_table s ! unat c) \<and> fresh_child p (linked_child p (sg_table s ! unat c))"
      using m linked_fresh[of "sg_table s ! unat c", OF _ up] by (simp add: mergeable_def fresh_child_def linked_child_def)
  qed
  have "filter (pending_in s) cs = cs" using m by (simp add: filter_id_conv pending_in_def pending_def mergeable_def)
  moreover have "foldl join_status SYNX_STATE_ACTIVE (map (\<lambda>c. g_status (sg_table s ! unat c)) cs) = SYNX_STATE_ACTIVE"
  proof -
    have "foldl join_status SYNX_STATE_ACTIVE (replicate k SYNX_STATE_ACTIVE) = SYNX_STATE_ACTIVE" for k
      by (induction k) (simp_all add: join_status_def)
    moreover have "map (\<lambda>c. g_status (sg_table s ! unat c)) cs = replicate (length cs) SYNX_STATE_ACTIVE"
      using m by (simp add: mergeable_def flip: map_replicate_const)
    ultimately show ?thesis by simp
  qed
  ultimately show ?thesis
    using merge_spec[of s cs p "sg_table s ! unat p"] m fr mergeable_length(3)[OF m]
    by (auto simp: Let_def mergeable_def merged_def same_but_def)
qed

lemma composite_run:
  assumes m: "mergeable s cs p" and s1: "gm_ok s1" "\<forall>c \<in> set cs. fresh_child p (sg_table s1 ! unat c)"
    "sg_table s1 ! unat p = merged (length cs) (sg_table s ! unat p)"
    and ss: "length ss = length cs" "\<forall>st \<in> set ss. SYNX_STATE_ACTIVE < st" and k: "k \<le> length cs"
  shows "\<exists>s2. signal_all (take k (zip cs ss)) s1 = Some s2
      \<and> sg_table s2 ! unat p = parent_run (merged (length cs) (sg_table s ! unat p)) (take k ss)
      \<and> sg_msgs s2 = sg_msgs s1 @ run_msgs s1 (merged (length cs) (sg_table s ! unat p)) (take k (zip cs ss))"
proof -
  let ?xs = "take k (zip cs ss)" and ?e1 = "merged (length cs) (sg_table s ! unat p)"
  have ml: "map fst ?xs = take k cs" "map snd ?xs = take k ss" using ss(1) by (simp_all flip: take_map)
  have "\<forall>(c, st) \<in> set ?xs. 0 < unat c \<and> unat c < 4096 \<and> fresh_child p (sg_table s1 ! unat c) \<and> SYNX_STATE_ACTIVE < st"
  proof clarify
    fix c st assume "(c, st) \<in> set ?xs"
    then have "c \<in> set cs" "st \<in> set ss" by (auto dest!: in_set_takeD dest: set_zip_leftD set_zip_rightD)
    then show "0 < unat c \<and> unat c < 4096 \<and> fresh_child p (sg_table s1 ! unat c) \<and> SYNX_STATE_ACTIVE < st"
      using m ss(2) s1(2) by (simp add: mergeable_def)
  qed
  moreover have "p \<notin> set (map fst ?xs)" "distinct (map fst ?xs)" using m unfolding ml by (auto simp: mergeable_def dest: in_set_takeD)
  moreover have "length ?xs \<le> unat (g_num_child ?e1)" using k mergeable_length(2)[OF m] by (simp add: merged_def)
  moreover have "g_refcount ?e1 \<noteq> 1" "g_status ?e1 \<noteq> 0" "\<forall>p \<in> set (g_parents ?e1). p = 0"
    using m by (simp_all add: SYNX_STATE_ACTIVE_def mergeable_def merged_def)
  ultimately show ?thesis
    using signal_all_ok[of s1 ?xs p s1 ?e1] m s1(1,3) ml(2) by (auto simp: mergeable_def)
qed

text \<open>The composite and the messages after \<open>k\<close> of the signals.\<close>

lemma composite_after:
  assumes m: "mergeable s cs p" and ss: "length ss = length cs" "\<forall>st \<in> set ss. SYNX_STATE_ACTIVE < st" and k: "k \<le> length cs"
    and e: "e = sg_table s ! unat p"
  shows "if k < length cs
    then unat (g_num_child (parent_run (merged (length cs) e) (take k ss))) = length cs - k
       \<and> g_waiters (parent_run (merged (length cs) e) (take k ss)) = g_waiters e
       \<and> run_msgs s1 (merged (length cs) e) (take k (zip cs ss)) = concat (map (child_msgs s1) (take k (zip cs ss)))
    else parent_run (merged (length cs) e) (take k ss) = e\<lparr>g_status := comp_status ss, g_waiters := 0\<rparr>
       \<and> run_msgs s1 (merged (length cs) e) (take k (zip cs ss)) = concat (map (child_msgs s1) (zip cs ss))
          @ signal_msgs (last ss) (signal_data (g_handle e) (comp_status ss)) (g_waiters e)"
proof -
  let ?e1 = "merged (length cs) e"
  have ne: "cs \<noteq> []" "ss \<noteq> []" "\<forall>x \<in> set ss. x \<noteq> SYNX_STATE_ACTIVE" using m ss by (auto simp: mergeable_def)
  have un: "unat (g_num_child ?e1) = length (take k ss) + (length cs - k)" "unat (g_num_child ?e1) = length (take k (zip cs ss)) + (length cs - k)"
    using k mergeable_length(2)[OF m] ss(1) by (simp_all add: merged_def)
  note run = parent_run_eq[OF un(1)] run_msgs_eq[OF un(2), of s1]
  show ?thesis
  proof (cases "k < length cs")
    case True
    have "unat (of_nat (length cs - k) :: u16) = length cs - k" using mergeable_length(1)[OF m] unat_of_nat by (simp add: unat_of_nat del: of_nat_diff)
    then show ?thesis using True run by (simp add: merged_def del: of_nat_diff)
  next
    case False
    then have all: "take k (zip cs ss) = zip cs ss" "take k ss = ss" "length cs - k = 0" "zip cs ss \<noteq> []" using k ne ss(1) by auto
    have "snd (last (zip cs ss)) = last ss" "map snd (zip cs ss) = ss" using ne ss(1) by (simp_all add: last_zip)
    moreover have "g_num_child e = 0" using m e by (simp add: mergeable_def)
    ultimately show ?thesis using False run all foldl_cstep_active[OF ne(2,3)] by (simp add: merged_def)
  qed
qed

lemma mergeable_perm:
  assumes "mergeable s cs p" and "distinct ds" and "set ds = set cs"
  shows "mergeable s ds p" "length ds = length cs"
  using assms distinct_card[of ds] distinct_card[of cs] by (auto simp: mergeable_def)

lemma composite_spec:
  assumes "mergeable s cs p" and "e = sg_table s ! unat p" and "distinct ds" and "set ds = set cs"
    and "length ss = length ds" and "\<forall>st \<in> set ss. SYNX_STATE_ACTIVE < st"
  shows "\<exists>s1. synx_global_merge cs p s = Some (0, s1) \<and> (\<forall>k \<le> length ds. \<exists>s2. signal_all (take k (zip ds ss)) s1 = Some s2
    \<and> (if k < length ds
       then unat (g_num_child (sg_table s2 ! unat p)) = length ds - k \<and> g_waiters (sg_table s2 ! unat p) = g_waiters e
         \<and> sg_msgs s2 = sg_msgs s @ concat (map (child_msgs s) (take k (zip ds ss)))
       else sg_table s2 ! unat p = e\<lparr>g_status := comp_status ss, g_waiters := 0\<rparr>
         \<and> sg_msgs s2 = sg_msgs s @ concat (map (child_msgs s) (zip ds ss))
             @ signal_msgs (last ss) (signal_data (g_handle e) (comp_status ss)) (g_waiters e)))"
proof -
  note ds = mergeable_perm[OF assms(1,3,4)]
  obtain s1 where s1: "synx_global_merge cs p s = Some (0, s1)" "gm_ok s1" "sg_msgs s1 = sg_msgs s"
    "\<forall>c \<in> set ds. sg_table s1 ! unat c = linked_child p (sg_table s ! unat c)" "\<forall>c \<in> set ds. fresh_child p (sg_table s1 ! unat c)"
    "sg_table s1 ! unat p = merged (length ds) e"
    unfolding assms(2,4) ds(2) using merge_fresh[OF assms(1)] by blast
  have "child_msgs s1 x = child_msgs s x" if "x \<in> set (zip ds ss)" for x
  proof -
    have "fst x \<in> set ds" using that by (metis prod.collapse set_zip_leftD)
    then show ?thesis using s1(4) by (cases x) (simp add: child_msgs_def linked_child_def)
  qed
  then have cm: "map (child_msgs s1) (zip ds ss) = map (child_msgs s) (zip ds ss)"
    "map (child_msgs s1) (take k (zip ds ss)) = map (child_msgs s) (take k (zip ds ss))" for k
    by (auto dest: in_set_takeD)
  show ?thesis
  proof (rule exI[of _ s1], intro conjI s1(1) allI impI)
    fix k assume k: "k \<le> length ds"
    from composite_run[OF ds(1) s1(2,5) s1(6)[unfolded assms(2)] assms(5,6) k] composite_after[OF ds(1) assms(5,6) k assms(2), of s1]
    show "\<exists>s2. signal_all (take k (zip ds ss)) s1 = Some s2
    \<and> (if k < length ds
       then unat (g_num_child (sg_table s2 ! unat p)) = length ds - k \<and> g_waiters (sg_table s2 ! unat p) = g_waiters e
         \<and> sg_msgs s2 = sg_msgs s @ concat (map (child_msgs s) (take k (zip ds ss)))
       else sg_table s2 ! unat p = e\<lparr>g_status := comp_status ss, g_waiters := 0\<rparr>
         \<and> sg_msgs s2 = sg_msgs s @ concat (map (child_msgs s) (zip ds ss))
             @ signal_msgs (last ss) (signal_data (g_handle e) (comp_status ss)) (g_waiters e))"
      unfolding cm s1(3) assms(2) by auto
  qed
qed

text \<open>C3: a composite of plain, unsignalled children, from the merge to the last signal. In whatever order \<open>ds\<close> the children signal, whatever the
  results and whoever waits: while a child is missing the composite is pending, keeps its waiting cores and causes no message; with the last signal
  it takes the last error of the children (or, without one, the result of the first), gives back the reference of its children, and
  the cores that wait for it are each told once, after the messages of the children themselves.\<close>

theorem composite_signalled:
  assumes "mergeable s cs p" and "e = sg_table s ! unat p" and "distinct ds" and "set ds = set cs"
    and "length ss = length ds" and "\<forall>st \<in> set ss. SYNX_STATE_ACTIVE < st"
  shows "\<exists>s1. synx_global_merge cs p s = Some (0, s1) \<and> (\<forall>k \<le> length ds. \<exists>s2. signal_all (take k (zip ds ss)) s1 = Some s2
    \<and> (if k < length ds
       then unat (g_num_child (sg_table s2 ! unat p)) = length ds - k \<and> g_waiters (sg_table s2 ! unat p) = g_waiters e
         \<and> sg_msgs s2 = sg_msgs s @ concat (map (child_msgs s) (take k (zip ds ss)))
       else sg_table s2 ! unat p = e\<lparr>g_status := comp_status ss, g_waiters := 0\<rparr>
         \<and> sg_msgs s2 = sg_msgs s @ concat (map (child_msgs s) (zip ds ss))
             @ signal_msgs (last ss) (signal_data (g_handle e) (comp_status ss)) (g_waiters e)))"
  using assms by (rule composite_spec)

text \<open>Two children (indices 1 and 2) and an object at index 3 on which the NSP core waits.\<close>

definition demo_obj :: "u32 \<Rightarrow> u16 \<Rightarrow> synx_global_coredata" where
  "demo_obj h w = zero_coredata\<lparr>g_status := SYNX_STATE_ACTIVE, g_refcount := 1, g_subscribers := 1, g_handle := h, g_waiters := w\<rparr>"

definition demo_merge :: synx_shared_mem where
  "demo_merge = demo_gmem\<lparr>sg_table := (replicate 4096 zero_coredata)[1 := demo_obj 65537 0, 2 := demo_obj 65538 0, 3 := demo_obj 65539 2]\<rparr>"

lemma demo_merge_table:
  "sg_table demo_merge ! 1 = demo_obj 65537 0" "sg_table demo_merge ! 2 = demo_obj 65538 0" "sg_table demo_merge ! 3 = demo_obj 65539 2"
  by (simp_all add: demo_merge_def)

lemma demo_merge_ok: "gm_ok demo_merge"
  by (simp add: gm_ok_def demo_merge_def demo_gmem_def list_all_length nth_list_update demo_obj_def zero_coredata_def SYNX_GLOBAL_MAX_PARENTS_def)

lemma demo_mergeable: "mergeable demo_merge [1, 2] 3"
  using demo_merge_ok demo_merge_table
  by (simp add: mergeable_def demo_obj_def zero_coredata_def SYNX_GLOBAL_MAX_PARENTS_def)

theorem merge_correct_witness:
  "\<exists>s'. synx_global_merge [1, 2] 3 demo_merge = Some (0, s') \<and> g_num_child (sg_table s' ! 3) = 2
    \<and> sg_table s' ! 1 = linked_child 3 (demo_obj 65537 0)"
proof -
  have "has_room (demo_obj h w)" for h w
    unfolding has_room_def by (rule exI[of _ 0]) (simp add: demo_obj_def zero_coredata_def SYNX_GLOBAL_MAX_PARENTS_def)
  moreover have "filter (pending_in demo_merge) [1, 2] = [1, 2]"
    using demo_merge_table by (simp add: pending_in_def pending_def demo_obj_def)
  ultimately show ?thesis
    using merge_correct[OF demo_merge_ok, of "[1, 2]" 3] demo_merge_table by (auto simp: Let_def demo_obj_def zero_coredata_def)
qed

theorem composite_signalled_witness:
  "\<exists>s1 s2. synx_global_merge [1, 2] 3 demo_merge = Some (0, s1) \<and> signal_all [(2, 4), (1, 2)] s1 = Some s2
    \<and> g_status (sg_table s2 ! 3) = 4 \<and> sg_msgs s2 = [(5, signal_data 65539 4)]"
proof -
  have st: "\<forall>st \<in> set [4, 2]. SYNX_STATE_ACTIVE < st" by (simp add: SYNX_STATE_ACTIVE_def)
  obtain s1 s2 where "synx_global_merge [1, 2] 3 demo_merge = Some (0, s1)" "signal_all [(2, 4), (1, 2)] s1 = Some s2"
    "sg_table s2 ! 3 = (demo_obj 65539 2)\<lparr>g_status := comp_status [4, 2], g_waiters := 0\<rparr>"
    "sg_msgs s2 = concat (map (child_msgs demo_merge) [(2, 4), (1, 2)]) @ signal_msgs 2 (signal_data 65539 (comp_status [4, 2])) 2"
    using composite_signalled[OF demo_mergeable refl, of "[2, 1]" "[4, 2]"] st demo_merge_table
    by (force simp: insert_commute demo_merge_def demo_gmem_def demo_obj_def)
  moreover have "comp_status [4, 2] = 4" by (simp add: comp_status_def is_error_def synx_consts)
  moreover have "child_msgs demo_merge (2, 4) = []" "child_msgs demo_merge (1, 2) = []"
    using demo_merge_table by (simp_all add: child_msgs_def signal_msgs_def demo_obj_def zero_coredata_def)
  moreover have "signal_msgs 2 d 2 = [(5, d)]" for d by (simp add: signal_msgs_def synx_consts synx_global_map_core_id_def upt_rec)
  ultimately show ?thesis by auto
qed


section \<open>The notification of parents ends\<close>

text \<open>No cycle through the parents: every parent has a smaller rank.\<close>

definition acyclic_parents :: "(nat \<Rightarrow> nat) \<Rightarrow> synx_shared_mem \<Rightarrow> bool" where
  "acyclic_parents r s \<longleftrightarrow> (\<forall>i p. 0 < i \<and> i < 4096 \<and> p \<in> set (g_parents (sg_table s ! i)) \<and> p \<noteq> 0 \<longrightarrow> unat p < 4096 \<and> r (unat p) < r i)"

lemma signal_entry_parents:
  assumes "signal_entry st e = ((clear, data, cores, ps), e')"
  shows "set ps \<subseteq> insert 0 (set (g_parents e)) \<and> (g_parents e' = g_parents e \<or> g_parents e' = replicate 4 0)"
  using assms by (auto simp: signal_entry_def Let_def get_waiting_cores_locked_def zero_coredata_def SYNX_GLOBAL_MAX_PARENTS_def split: if_splits)

lemma acyclic_sec:
  assumes "gm_ok s" and "acyclic_parents r s" and "i < 4096" and "g_parents e = g_parents (sg_table s ! i) \<or> g_parents e = replicate 4 0"
  shows "gm_ok (sec i e s) \<and> acyclic_parents r (sec i e s)"
proof -
  have "length (g_parents e) = 4" using gm_ok_parents[OF assms(1,3)] assms(4) by auto
  then have "gm_ok (sec i e s)" by (rule gm_ok_sec[OF assms(1,3)])
  moreover have "unat p < 4096 \<and> r (unat p) < r j"
    if "0 < j" "j < 4096" "p \<in> set (g_parents (sg_table (sec i e s) ! j))" "p \<noteq> 0" for j p
  proof -
    have t: "sg_table (sec i e s) ! j = (if j = i then e else sg_table s ! j)"
      using sec_table[OF that(1), of i s e] gm_ok_length[OF assms(1)] assms(3) by simp
    have "p \<in> set (g_parents (sg_table s ! j))"
      using that(3,4) assms(4) unfolding t by (cases "j = i") auto
    then show ?thesis using assms(2) that unfolding acyclic_parents_def by blast
  qed
  then have "acyclic_parents r (sec i e s)" unfolding acyclic_parents_def by blast
  ultimately show ?thesis by simp
qed

lemma notify_cores_keeps [simp]:
  "sg_table (notify_cores st data cores s) = sg_table s" "gm_ok (notify_cores st data cores s) = gm_ok s"
  "acyclic_parents r (notify_cores st data cores s) = acyclic_parents r s"
  by (simp_all add: notify_cores_def fold_msgs acyclic_parents_def)

lemma update_core_ends:
  assumes "gm_ok s" and "acyclic_parents r s" and "0 < i" "i < 4096" and "r i < fuel"
  shows "\<exists>s'. synx_global_update_status_core fuel i st s = Some (0, s') \<and> gm_ok s' \<and> acyclic_parents r s'"
  using assms
proof (induction fuel arbitrary: i s)
  case (Suc fuel)
  let ?e = "sg_table s ! i"
  obtain clear data cores ps e' where se: "signal_entry st ?e = ((clear, data, cores, ps), e')" by (metis surj_pair)
  note sp = signal_entry_parents[OF se]
  have s1: "gm_ok (sec i e' s)" "acyclic_parents r (sec i e' s)" using acyclic_sec[OF Suc.prems(1,2,4)] sp by auto
  have "\<exists>s2. (if clear then release_index i (sec i e' s) else Some (sec i e' s)) = Some s2 \<and> gm_ok s2 \<and> acyclic_parents r s2"
  proof (cases clear)
    case True
    have "length (sg_bitmap (sec i e' s)) = 128" using s1(1) by (simp add: gm_ok_def)
    from release_ok[OF this Suc.prems(4)] True s1 show ?thesis by (auto simp: gm_ok_def acyclic_parents_def)
  qed (use s1 in simp)
  then obtain s2 where s2: "(if clear then release_index i (sec i e' s) else Some (sec i e' s)) = Some s2" "gm_ok s2" "acyclic_parents r s2"
    by blast
  have par: "0 < unat p \<and> unat p < 4096 \<and> r (unat p) < fuel" if "p \<in> set ps" "p \<noteq> 0" for p
  proof -
    have "p \<in> set (g_parents ?e)" using sp that by auto
    then have "unat p < 4096 \<and> r (unat p) < r i" using Suc.prems(2-4) that(2) by (auto simp: acyclic_parents_def)
    then show ?thesis using Suc.prems(5) that(2) by (auto simp: unat_gt_0)
  qed
  have "\<exists>s3. fold_opt (\<lambda>p s. if p = 0 then Some s else map_option snd (synx_global_update_status_core fuel (unat p) st s)) qs s' = Some s3
      \<and> gm_ok s3 \<and> acyclic_parents r s3" if "set qs \<subseteq> set ps" "gm_ok s'" "acyclic_parents r s'" for qs s'
    using that
  proof (induction qs arbitrary: s')
    case (Cons q qs)
    show ?case
    proof (cases "q = 0")
      case True
      then show ?thesis using Cons by simp
    next
      case False
      then obtain s4 where "synx_global_update_status_core fuel (unat q) st s' = Some (0, s4)" "gm_ok s4" "acyclic_parents r s4"
        using Suc.IH[of s' "unat q"] par[of q] Cons.prems by auto
      then show ?thesis using False Cons.IH[of s4] Cons.prems(1) by simp
    qed
  qed simp
  from this[of ps "notify_cores st data cores s2"] s2 section_ok[OF Suc.prems(1,3,4), of "signal_entry st", OF se]
  show ?case by (auto simp: SYNX_SUCCESS_def)
qed simp

text \<open>signalling ends. If the parent relation has no cycle the recursion over the parents is at most as deep as the
  number of entries, 4096, whatever the counters, references and results are: the call returns, with the lock released. It
  returns 0 for an active object, -EALREADY for one that is signalled already, and also 0 (without an
  effect on the entry) for a composite, which may not be signalled directly.\<close>

theorem update_status_ends:
  assumes "gm_ok s" and "acyclic_parents r s" and "\<forall>i. r i < 4096" and "0 < unat i" and "unat i < 4096" and "SYNX_STATE_ACTIVE < st"
    and "e = sg_table s ! unat i"
  shows "\<exists>rc s'. synx_global_update_status 4096 i st s = Some (rc, s') \<and> gm_ok s' \<and> acyclic_parents r s' \<and>
    rc = (if g_num_child e = 0 \<and> g_status e \<noteq> SYNX_STATE_ACTIVE then - SYNX_ALREADY else 0) \<and>
    (g_num_child e \<noteq> 0 \<or> g_status e \<noteq> SYNX_STATE_ACTIVE \<longrightarrow> sg_table s' ! unat i = e \<and> sg_msgs s' = sg_msgs s)"
proof -
  let ?s1 = "sec (unat i) e s"
  let ?f = "\<lambda>e. (if g_num_child e \<noteq> 0 then (False, 0) else if g_status e \<noteq> SYNX_STATE_ACTIVE then (False, - SYNX_ALREADY) else (True, 0 :: int), e)"
  have sc: "gmem_section (unat i) ?f s = Some (Inr (fst (?f e)), ?s1)" unfolding assms(7) by (intro section_ok assms) simp
  have s1: "gm_ok ?s1" "acyclic_parents r ?s1" using acyclic_sec[OF assms(1,2,5), of e] assms(7) by auto
  have t1: "sg_table ?s1 ! unat i = e" using sec_table[OF assms(4), of "unat i"] gm_ok_length[OF assms(1)] assms(5) by simp
  have g: "sg_table s \<noteq> []" "synx_is_valid_idx i" "\<not> st \<le> SYNX_STATE_ACTIVE" using gm_ok_nonempty[OF assms(1)] assms(5,6) by (simp_all add: valid_idx not_le)
  show ?thesis
  proof (cases "g_num_child e = 0 \<and> g_status e = SYNX_STATE_ACTIVE")
    case True
    obtain s' where "synx_global_update_status_core 4096 (unat i) st ?s1 = Some (0, s')" "gm_ok s'" "acyclic_parents r s'"
      using update_core_ends[OF s1 assms(4,5), of 4096] assms(3) by auto
    then show ?thesis using sc g True by (simp add: synx_global_update_status_def)
  next
    case False
    then have "synx_global_update_status 4096 i st s = Some (snd (fst (?f e)), ?s1)" using sc g by (auto simp: synx_global_update_status_def)
    then show ?thesis using False s1 t1 by (auto simp: SYNX_ALREADY_def)
  qed
qed

theorem update_status_ends_witness:
  "\<exists>s'. synx_global_update_status 4096 1 2 demo_merge = Some (0, s') \<and> gm_ok s'"
proof -
  have "acyclic_parents (\<lambda>_. 0) demo_merge"
    unfolding acyclic_parents_def demo_merge_def
    by (auto simp: nth_list_update demo_obj_def zero_coredata_def SYNX_GLOBAL_MAX_PARENTS_def split: if_splits)
  moreover have "SYNX_STATE_ACTIVE < 2" by (simp add: SYNX_STATE_ACTIVE_def)
  ultimately show ?thesis
    using update_status_ends[OF demo_merge_ok, of "\<lambda>_. 0" 1 2] demo_merge_table(1) by (auto simp: demo_obj_def zero_coredata_def)
qed

section \<open>A signal between the sections of a merge\<close>

text \<open>The table with a child at index 1 and the object at index 2 that becomes its composite.\<close>

definition demo_race :: synx_shared_mem where
  "demo_race = \<lparr>sg_bitmap = [7], sg_table = [zero_coredata, demo_obj 65537 0, demo_obj 65538 2], sg_hwlock = True, sg_locked = False,
     sg_lock_rc = (\<lambda>_. 0), sg_lock_calls = 0, sg_msgs = []\<rparr>"

definition race :: "((int \<times> int) \<times> synx_shared_mem) option" where
  "race = do {
     (_, num_child, parent_status, s1) \<leftarrow> merge_children 2 [1] (- SYNX_INVALID) 0 SYNX_STATE_ACTIVE demo_race;
     (rc1, s2) \<leftarrow> synx_global_update_status 2 1 SYNX_STATE_SIGNALED_SUCCESS s1;
     (rc2, s3) \<leftarrow> merge_finish 2 [1] num_child parent_status s2;
     Some ((rc1, rc2), s3) }"

text \<open>A concrete run: \<open>synx_global_merge\<close> releases the lock between entering itself in the children and counting them in the
  parent. A core signals the only child in between, so that the composite is signalled too early, as a plain object; the merge then sets
  it back to active, waiting for one child. After that a second signal of the child is refused as too late, and a
  signal of the composite itself changes nothing.\<close>

theorem merge_signal_race:
  "\<exists>s. race = Some ((0, 0), s) \<and> g_status (sg_table s ! 1) = SYNX_STATE_SIGNALED_SUCCESS
    \<and> g_status (sg_table s ! 2) = SYNX_STATE_ACTIVE \<and> g_num_child (sg_table s ! 2) = 1
    \<and> (\<exists>s'. synx_global_update_status 2 1 SYNX_STATE_SIGNALED_SUCCESS s = Some (- SYNX_ALREADY, s'))
    \<and> (\<exists>s'. synx_global_update_status 2 2 SYNX_STATE_SIGNALED_SUCCESS s = Some (0, s') \<and> sg_table s' ! 2 = sg_table s ! 2)"
proof -
  have c: "case race of Some ((rc1, rc2), s) \<Rightarrow> rc1 = 0 \<and> rc2 = 0 \<and> g_status (sg_table s ! 1) = SYNX_STATE_SIGNALED_SUCCESS
    \<and> g_status (sg_table s ! 2) = SYNX_STATE_ACTIVE \<and> g_num_child (sg_table s ! 2) = 1
    \<and> (case synx_global_update_status 2 1 SYNX_STATE_SIGNALED_SUCCESS s of Some (rc, s') \<Rightarrow> rc = - SYNX_ALREADY | None \<Rightarrow> False)
    \<and> (case synx_global_update_status 2 2 SYNX_STATE_SIGNALED_SUCCESS s of Some (rc, s') \<Rightarrow> rc = 0 \<and> sg_table s' ! 2 = sg_table s ! 2 | None \<Rightarrow> False)
    | None \<Rightarrow> False"
    by code_simp
  obtain rc1 rc2 s where r: "race = Some ((rc1, rc2), s)" using c by (cases race) auto
  note c' = c[unfolded r option.case prod.case]
  obtain x1 s1 where u1: "synx_global_update_status 2 1 SYNX_STATE_SIGNALED_SUCCESS s = Some (x1, s1)"
    using c' by (cases "synx_global_update_status 2 1 SYNX_STATE_SIGNALED_SUCCESS s") auto
  obtain x2 s2 where u2: "synx_global_update_status 2 2 SYNX_STATE_SIGNALED_SUCCESS s = Some (x2, s2)"
    using c' by (cases "synx_global_update_status 2 2 SYNX_STATE_SIGNALED_SUCCESS s") auto
  show ?thesis using c'[unfolded u1 u2 option.case prod.case] r u1 u2 by blast
qed

end
