(* ===== verification/Ipclite.thy ===== *)
theory Ipclite
  imports Fence_Interfaces
begin

text \<open>
  The transport between cores of \<^verbatim>\<open>ipclite.c\<close>: shared memory cut into partitions, one per pair of hosts, with a
  byte FIFO in each direction; channels with a local and a global status; sending a message, the
  interrupt handler that drains a FIFO, and the recovery of a crashed core.

  A partition is its header, the words of its descriptor area (the indices of the FIFOs) and its bytes; a FIFO
  pointer is an offset into the bytes, the pointers to head and tail are indices of the descriptor words. The state
  also logs the doorbells rung (\<open>mbox_send_message\<close>, whose \<open>n\<close>-th result is \<open>ii_mbox_rc n\<close>) and the messages handed to the
  registered clients. Debug statistics and log messages are left out.
\<close>

section \<open>Constants and data\<close>

definition IPCMEM_APPS :: nat where "IPCMEM_APPS = 0"
definition IPCMEM_NUM_HOSTS :: nat where "IPCMEM_NUM_HOSTS = 9"
definition IPCMEM_GLOBAL_HOST :: u32 where "IPCMEM_GLOBAL_HOST = 0xFE"
definition IPCMEM_INVALID_HOST :: u32 where "IPCMEM_INVALID_HOST = 0xFF"

definition IPCLITE_MSG_SIGNAL :: nat where "IPCLITE_MSG_SIGNAL = 0"
definition IPCLITE_MEM_INIT_SIGNAL :: nat where "IPCLITE_MEM_INIT_SIGNAL = 1"
definition IPCLITE_TEST_SIGNAL :: nat where "IPCLITE_TEST_SIGNAL = 3"
definition IPCLITE_SSR_SIGNAL :: nat where "IPCLITE_SSR_SIGNAL = 4"

definition INACTIVE :: u32 where "INACTIVE = 0"
definition IN_PROGRESS :: u32 where "IN_PROGRESS = 1"
definition ACTIVE :: u32 where "ACTIVE = 2"

definition FIFO_FULL_RESERVE :: u32 where "FIFO_FULL_RESERVE = 8"
definition IPCMEM_TOC_SIZE :: u32 where "IPCMEM_TOC_SIZE = 4 * 1024"
definition IPCMEM_TOC_VAR_OFFSET :: u32 where "IPCMEM_TOC_VAR_OFFSET = 0x100"
definition DEFAULT_PARTITION_SIZE :: u32 where "DEFAULT_PARTITION_SIZE = 32 * 1024"
definition DEFAULT_PARTITION_FLAGS :: u32 where "DEFAULT_PARTITION_FLAGS = 1 OR 2"
definition LOOPBACK_PARTITION_TYPE :: u32 where "LOOPBACK_PARTITION_TYPE = 1"
definition GLOBAL_PARTITION_SIZE :: u32 where "GLOBAL_PARTITION_SIZE = 128 * 1024"
definition GLOBAL_REGION_OFFSET :: u32 where "GLOBAL_REGION_OFFSET = 4 * 1024"
definition GLOBAL_REGION_SIZE :: u32 where "GLOBAL_REGION_SIZE = 124 * 1024"
definition IPCLITE_GLOBAL_ATOMIC :: u64 where "IPCLITE_GLOBAL_ATOMIC = 1"

lemmas ipclite_consts = IPCMEM_APPS_def IPCMEM_NUM_HOSTS_def IPCMEM_GLOBAL_HOST_def IPCMEM_INVALID_HOST_def
  IPCLITE_MSG_SIGNAL_def IPCLITE_MEM_INIT_SIGNAL_def IPCLITE_TEST_SIGNAL_def IPCLITE_SSR_SIGNAL_def INACTIVE_def IN_PROGRESS_def ACTIVE_def
  FIFO_FULL_RESERVE_def IPCMEM_TOC_SIZE_def IPCMEM_TOC_VAR_OFFSET_def DEFAULT_PARTITION_SIZE_def DEFAULT_PARTITION_FLAGS_def
  LOOPBACK_PARTITION_TYPE_def GLOBAL_PARTITION_SIZE_def GLOBAL_REGION_OFFSET_def GLOBAL_REGION_SIZE_def IPCLITE_GLOBAL_ATOMIC_def

record ipcmem_partition_header =
  ph_type :: u32
  ph_desc_offset :: u32
  ph_desc_size :: u32
  ph_fifo0_offset :: u32
  ph_fifo0_size :: u32
  ph_fifo1_offset :: u32
  ph_fifo1_size :: u32
  ph_status :: u32

record ipcmem_partition_entry =
  pe_base_offset :: u32
  pe_size :: u32
  pe_flags :: u32
  pe_host0 :: u32
  pe_host1 :: u32

record ipcmem_partition =
  ip_hdr :: ipcmem_partition_header
  ip_descs :: "u32 list"
  ip_mem :: "u8 list"

record ipclite_fifo =
  ff_length :: u32
  ff_tail :: nat
  ff_head :: nat
  ff_fifo :: nat

record ipclite_channel =
  ch_remote_pid :: u32
  ch_tx_fifo :: "ipclite_fifo option"
  ch_rx_fifo :: "ipclite_fifo option"
  ch_gstatus_ptr :: "nat option"
  ch_status :: u32

record ipclite_info =
  ii_channel :: "ipclite_channel list"
  ii_entries :: "ipcmem_partition_entry list"
  ii_partition :: "ipcmem_partition list"
  ii_global_entry :: ipcmem_partition_entry
  ii_enabled_hosts :: u32
  ii_hwlock_owner :: u32
  ii_hwlock_held :: bool
  ii_hwlock_rc :: "nat \<Rightarrow> bool"
  ii_hwlock_calls :: nat
  ii_feature_mask :: u64
  ii_synx_client :: bool
  ii_test_client :: bool
  ii_mbox_rc :: "nat \<Rightarrow> int"
  ii_mbox_log :: "(nat \<times> nat) list"
  ii_delivered :: "(u32 \<times> u64) list"
  ii_test_delivered :: "(u32 \<times> u64) list"

definition default_partition_hdr :: ipcmem_partition_header where
  "default_partition_hdr = \<lparr>ph_type = 0, ph_desc_offset = 1024, ph_desc_size = 3 * 1024, ph_fifo0_offset = 4 * 1024, ph_fifo0_size = 8 * 1024,
     ph_fifo1_offset = 12 * 1024, ph_fifo1_size = 8 * 1024, ph_status = INACTIVE\<rparr>"

definition loopback_partition_hdr :: ipcmem_partition_header where
  "loopback_partition_hdr = \<lparr>ph_type = LOOPBACK_PARTITION_TYPE, ph_desc_offset = 1024, ph_desc_size = 3 * 1024, ph_fifo0_offset = 4 * 1024,
     ph_fifo0_size = 8 * 1024, ph_fifo1_offset = 4 * 1024, ph_fifo1_size = 8 * 1024, ph_status = INACTIVE\<rparr>"

section \<open>Messages as bytes\<close>

text \<open>The little-endian bytes of a 64-bit message.\<close>

definition bytes_of_u64 :: "u64 \<Rightarrow> u8 list" where
  "bytes_of_u64 x = map (\<lambda>k. ucast (drop_bit (8 * k) x)) [0..<8]"

definition u64_of_bytes :: "u8 list \<Rightarrow> u64" where
  "u64_of_bytes bs = foldr (\<lambda>b x. push_bit 8 x OR ucast b) bs 0"

section \<open>FIFOs\<close>

definition load_bytes :: "ipcmem_partition \<Rightarrow> nat \<Rightarrow> nat \<Rightarrow> u8 list option" where
  "load_bytes p off n = (if off + n \<le> length (ip_mem p) then Some (read_run (ip_mem p) off n) else None)"

definition store_bytes :: "ipcmem_partition \<Rightarrow> nat \<Rightarrow> u8 list \<Rightarrow> ipcmem_partition option" where
  "store_bytes p off bs = (if off + length bs \<le> length (ip_mem p) then Some (p\<lparr>ip_mem := write_run (ip_mem p) off bs\<rparr>) else None)"

definition store_desc :: "ipcmem_partition \<Rightarrow> nat \<Rightarrow> u32 \<Rightarrow> ipcmem_partition option" where
  "store_desc p i v = (if i < length (ip_descs p) then Some (p\<lparr>ip_descs := (ip_descs p)[i := v]\<rparr>) else None)"

definition ipcmem_rx_avail :: "ipclite_fifo \<Rightarrow> ipcmem_partition \<Rightarrow> u32 option" where
  "ipcmem_rx_avail rx_fifo p = do {
     head \<leftarrow> idx (ip_descs p) (ff_head rx_fifo);
     tail \<leftarrow> idx (ip_descs p) (ff_tail rx_fifo);
     let len = (if head < tail then ff_length rx_fifo - tail + head else head - tail) in
     Some (if len > ff_length rx_fifo then 0 else len) }"

definition ipcmem_rx_peak :: "ipclite_fifo \<Rightarrow> ipcmem_partition \<Rightarrow> u8 list \<Rightarrow> nat \<Rightarrow> u8 list option" where
  "ipcmem_rx_peak rx_fifo p data count = do {
     tail \<leftarrow> idx (ip_descs p) (ff_tail rx_fifo);
     if tail > ff_length rx_fifo then Some data
     else
       let tail = (if tail \<ge> ff_length rx_fifo then tail - ff_length rx_fifo else tail);
           len = min count (unat (ff_length rx_fifo - tail)) in do {
       a \<leftarrow> (if len \<noteq> 0 then load_bytes p (ff_fifo rx_fifo + unat tail) len else Some []);
       b \<leftarrow> (if len \<noteq> count then load_bytes p (ff_fifo rx_fifo) (count - len) else Some []);
       Some (a @ b @ drop count data) } }"

definition ipcmem_rx_advance :: "ipclite_fifo \<Rightarrow> ipcmem_partition \<Rightarrow> nat \<Rightarrow> ipcmem_partition option" where
  "ipcmem_rx_advance rx_fifo p count = do {
     tail \<leftarrow> idx (ip_descs p) (ff_tail rx_fifo);
     let tail = tail + of_nat count in
     if tail \<ge> ff_length rx_fifo then
       (if ff_length rx_fifo = 0 then None else store_desc p (ff_tail rx_fifo) (tail mod ff_length rx_fifo))
     else store_desc p (ff_tail rx_fifo) tail }"

definition ipcmem_tx_avail :: "ipclite_fifo \<Rightarrow> ipcmem_partition \<Rightarrow> u32 option" where
  "ipcmem_tx_avail tx_fifo p = do {
     head \<leftarrow> idx (ip_descs p) (ff_head tx_fifo);
     tail \<leftarrow> idx (ip_descs p) (ff_tail tx_fifo);
     let avail = (if tail \<le> head then ff_length tx_fifo - head + tail else tail - head);
         avail = (if avail < FIFO_FULL_RESERVE then 0 else avail - FIFO_FULL_RESERVE) in
     Some (if avail > ff_length tx_fifo then 0 else avail) }"

definition ipcmem_tx_write_one ::
    "ipclite_fifo \<Rightarrow> ipcmem_partition \<Rightarrow> u32 \<Rightarrow> u8 list \<Rightarrow> nat \<Rightarrow> (u32 \<times> ipcmem_partition) option" where
  "ipcmem_tx_write_one tx_fifo p head data count =
     (if head > ff_length tx_fifo then Some (head, p)
      else let len = min count (unat (ff_length tx_fifo - head)) in do {
        p1 \<leftarrow> (if len \<noteq> 0 then store_bytes p (ff_fifo tx_fifo + unat head) (take len data) else Some p);
        p2 \<leftarrow> (if len \<noteq> count then store_bytes p1 (ff_fifo tx_fifo) (take (count - len) (drop len data)) else Some p1);
        let head = head + of_nat count in
        Some (if head \<ge> ff_length tx_fifo then head - ff_length tx_fifo else head, p2) })"

definition ALIGN :: "u32 \<Rightarrow> u32 \<Rightarrow> u32" where
  "ALIGN x a = (x + (a - 1)) AND NOT (a - 1)"

definition ipcmem_tx_write :: "ipclite_fifo \<Rightarrow> ipcmem_partition \<Rightarrow> u8 list \<Rightarrow> nat \<Rightarrow> ipcmem_partition option" where
  "ipcmem_tx_write tx_fifo p data dlen = do {
     head \<leftarrow> idx (ip_descs p) (ff_head tx_fifo);
     (head, p1) \<leftarrow> ipcmem_tx_write_one tx_fifo p head data dlen;
     let head = ALIGN head 8 in
     store_desc p1 (ff_head tx_fifo) (if head \<ge> ff_length tx_fifo then head - ff_length tx_fifo else head) }"

section \<open>Channels\<close>

definition mbox_send :: "nat \<Rightarrow> nat \<Rightarrow> ipclite_info \<Rightarrow> int \<times> ipclite_info" where
  "mbox_send host signal s = (ii_mbox_rc s (length (ii_mbox_log s)), s\<lparr>ii_mbox_log := ii_mbox_log s @ [(host, signal)]\<rparr>)"

definition upd_channel :: "nat \<Rightarrow> (ipclite_channel \<Rightarrow> ipclite_channel) \<Rightarrow> ipclite_info \<Rightarrow> ipclite_info" where
  "upd_channel h f s = s\<lparr>ii_channel := (ii_channel s)[h := f (ii_channel s ! h)]\<rparr>"

definition upd_partition :: "nat \<Rightarrow> (ipcmem_partition \<Rightarrow> ipcmem_partition) \<Rightarrow> ipclite_info \<Rightarrow> ipclite_info" where
  "upd_partition k f s = s\<lparr>ii_partition := (ii_partition s)[k := f (ii_partition s ! k)]\<rparr>"

definition set_gstatus :: "u32 \<Rightarrow> ipcmem_partition \<Rightarrow> ipcmem_partition" where
  "set_gstatus v p = p\<lparr>ip_hdr := (ip_hdr p)\<lparr>ph_status := v\<rparr>\<rparr>"

definition chan_partition :: "ipclite_channel \<Rightarrow> ipclite_info \<Rightarrow> (nat \<times> ipcmem_partition) option" where
  "chan_partition ch s = do { k \<leftarrow> ch_gstatus_ptr ch; p \<leftarrow> idx (ii_partition s) k; Some (k, p) }"

text \<open>The test of the channel status that sending and notifying start with.\<close>

definition chan_ready :: "nat \<Rightarrow> ipclite_info \<Rightarrow> ((errno + unit) \<times> ipclite_info) option" where
  "chan_ready h s = do {
     ch \<leftarrow> idx (ii_channel s) h;
     if ch_status ch = ACTIVE then Some (Inr (), s)
     else if ch_status ch = IN_PROGRESS then do {
       (_, p) \<leftarrow> chan_partition ch s;
       Some (if ph_status (ip_hdr p) = ACTIVE then (Inr (), upd_channel h (ch_status_update (\<lambda>_. ACTIVE)) s) else (Inl EOPNOTSUPP, s)) }
     else Some (Inl EOPNOTSUPP, s) }"

definition ipclite_tx :: "nat \<Rightarrow> u64 \<Rightarrow> nat \<Rightarrow> nat \<Rightarrow> ipclite_info \<Rightarrow> ((errno + unit) \<times> ipclite_info) option" where
  "ipclite_tx h data dlen ipclite_signal s = do {
     (r, s1) \<leftarrow> chan_ready h s;
     (case r of
        Inl e \<Rightarrow> Some (Inl e, s1)
      | Inr _ \<Rightarrow> do {
          ch \<leftarrow> idx (ii_channel s1) h;
          tx_fifo \<leftarrow> ch_tx_fifo ch;
          (k, p) \<leftarrow> chan_partition ch s1;
          avail \<leftarrow> ipcmem_tx_avail tx_fifo p;
          if unat avail < dlen then Some (Inl EAGAIN, s1)
          else do {
            p' \<leftarrow> ipcmem_tx_write tx_fifo p (bytes_of_u64 data) dlen;
            Some (Inr (), snd (mbox_send h ipclite_signal (upd_partition k (\<lambda>_. p') s1))) } }) }"

definition ipclite_notify_core :: "int \<Rightarrow> nat \<Rightarrow> ipclite_info \<Rightarrow> ((errno + int) \<times> ipclite_info) option" where
  "ipclite_notify_core proc_id signal_id s =
     (if proc_id < 0 \<or> proc_id \<ge> int IPCMEM_NUM_HOSTS then Some (Inl EINVAL, s)
      else do {
        (r, s1) \<leftarrow> chan_ready (nat proc_id) s;
        Some (case r of
          Inl e \<Rightarrow> (Inl e, s1)
        | Inr _ \<Rightarrow> (let (ret, s2) = mbox_send (nat proc_id) signal_id s1 in (Inr (if ret < 0 then ret else 0), s2))) })"

definition ipclite_msg_send_v0 :: "int \<Rightarrow> u64 \<Rightarrow> ipclite_info \<Rightarrow> ((errno + unit) \<times> ipclite_info) option" where
  "ipclite_msg_send_v0 proc_id data s =
     (if proc_id < 0 \<or> proc_id \<ge> int IPCMEM_NUM_HOSTS then Some (Inl EINVAL, s)
      else ipclite_tx (nat proc_id) data 8 IPCLITE_MSG_SIGNAL s)"

definition ipclite_test_msg_send_v0 :: "int \<Rightarrow> u64 \<Rightarrow> ipclite_info \<Rightarrow> ((errno + unit) \<times> ipclite_info) option" where
  "ipclite_test_msg_send_v0 proc_id data s =
     (if proc_id < 0 \<or> proc_id \<ge> int IPCMEM_NUM_HOSTS then Some (Inl EINVAL, s)
      else ipclite_tx (nat proc_id) data 8 IPCLITE_TEST_SIGNAL s)"

definition ipclite_register_client_v0 :: "bool \<Rightarrow> ipclite_info \<Rightarrow> (errno + unit) \<times> ipclite_info" where
  "ipclite_register_client_v0 has_cb s = (if \<not> has_cb then (Inl EINVAL, s) else (Inr (), s\<lparr>ii_synx_client := True\<rparr>))"

definition ipclite_register_test_client_v0 :: "bool \<Rightarrow> ipclite_info \<Rightarrow> (errno + unit) \<times> ipclite_info" where
  "ipclite_register_test_client_v0 has_cb s = (if \<not> has_cb then (Inl EINVAL, s) else (Inr (), s\<lparr>ii_test_client := True\<rparr>))"

section \<open>The interrupt handler\<close>

definition rx_message ::
    "(u32 \<Rightarrow> u64 \<Rightarrow> ipclite_info \<Rightarrow> ipclite_info) \<Rightarrow> nat \<Rightarrow> u32 \<Rightarrow> ipclite_info \<Rightarrow> ((errno + unit) \<times> ipclite_info) option" where
  "rx_message deliver h avail s =
     (if unat avail < 8 then Some (Inl EAGAIN, s)
      else do {
        ch \<leftarrow> idx (ii_channel s) h;
        rx_fifo \<leftarrow> ch_rx_fifo ch;
        (k, p) \<leftarrow> chan_partition ch s;
        data \<leftarrow> ipcmem_rx_peak rx_fifo p (replicate 8 0) 8;
        p' \<leftarrow> ipcmem_rx_advance rx_fifo p 8;
        Some (Inr (), upd_partition k (\<lambda>_. p') (deliver (ch_remote_pid ch) (u64_of_bytes data) s)) })"

definition ipclite_rx_data :: "nat \<Rightarrow> u32 \<Rightarrow> ipclite_info \<Rightarrow> ((errno + unit) \<times> ipclite_info) option" where
  "ipclite_rx_data = rx_message (\<lambda>pid data s. if ii_synx_client s then s\<lparr>ii_delivered := ii_delivered s @ [(pid, data)]\<rparr> else s)"

definition ipclite_rx_test_data :: "nat \<Rightarrow> u32 \<Rightarrow> ipclite_info \<Rightarrow> ((errno + unit) \<times> ipclite_info) option" where
  "ipclite_rx_test_data = rx_message (\<lambda>pid data s. if ii_test_client s then s\<lparr>ii_test_delivered := ii_test_delivered s @ [(pid, data)]\<rparr> else s)"

definition ipclite_rx_avail :: "nat \<Rightarrow> ipclite_info \<Rightarrow> u32 option" where
  "ipclite_rx_avail h s = do {
     ch \<leftarrow> idx (ii_channel s) h;
     rx_fifo \<leftarrow> ch_rx_fifo ch;
     (k, p) \<leftarrow> chan_partition ch s;
     ipcmem_rx_avail rx_fifo p }"

text \<open>The loop of the handler; it has no bound of its own, \<open>fuel\<close> bounds its rounds.\<close>

fun intr_loop ::
    "(nat \<Rightarrow> u32 \<Rightarrow> ipclite_info \<Rightarrow> ((errno + unit) \<times> ipclite_info) option) \<Rightarrow> nat \<Rightarrow> nat \<Rightarrow> ipclite_info \<Rightarrow> ipclite_info option" where
  "intr_loop rx 0 h s = None"
| "intr_loop rx (Suc fuel) h s = do {
     avail \<leftarrow> ipclite_rx_avail h s;
     if unat avail < 8 then Some s
     else do { (_, s1) \<leftarrow> rx h avail s; intr_loop rx fuel h s1 } }"

definition ipclite_intr :: "nat \<Rightarrow> nat \<Rightarrow> nat \<Rightarrow> ipclite_info \<Rightarrow> ipclite_info option" where
  "ipclite_intr fuel signal_id h s =
     (if signal_id = IPCLITE_MSG_SIGNAL then intr_loop ipclite_rx_data fuel h s
      else if signal_id = IPCLITE_TEST_SIGNAL then intr_loop ipclite_rx_test_data fuel h s
      else Some s)"

section \<open>The hardware mutex and global atomics\<close>

definition ipclite_hw_mutex_acquire :: "ipclite_info \<Rightarrow> (errno + unit) \<times> ipclite_info" where
  "ipclite_hw_mutex_acquire s =
     (let ok = (\<not> ii_hwlock_held s \<and> ii_hwlock_rc s (ii_hwlock_calls s)); s1 = s\<lparr>ii_hwlock_calls := Suc (ii_hwlock_calls s)\<rparr> in
      if \<not> ok then (Inl ETIMEDOUT, s1)
      else (Inr (), s1\<lparr>ii_hwlock_held := True, ii_hwlock_owner := of_nat IPCMEM_APPS\<rparr>))"

definition ipclite_hw_mutex_release :: "ipclite_info \<Rightarrow> (errno + unit) \<times> ipclite_info" where
  "ipclite_hw_mutex_release s =
     (if ii_hwlock_owner s \<noteq> of_nat IPCMEM_APPS then (Inl EINVAL, s)
      else (Inr (), s\<lparr>ii_hwlock_owner := IPCMEM_INVALID_HOST, ii_hwlock_held := False\<rparr>))"

text \<open>The global atomics take the mutex unless the feature mask has hardware atomics; they go on when that fails.\<close>

definition global_atomic :: "(ipclite_info \<Rightarrow> ipclite_info) \<Rightarrow> ipclite_info \<Rightarrow> ipclite_info" where
  "global_atomic f s =
     (if ii_feature_mask s AND IPCLITE_GLOBAL_ATOMIC \<noteq> 0 then f s
      else snd (ipclite_hw_mutex_release (f (snd (ipclite_hw_mutex_acquire s)))))"

section \<open>Recovery of a crashed core\<close>

definition recover_partition :: "nat \<Rightarrow> nat \<Rightarrow> ipclite_info \<Rightarrow> ipclite_info" where
  "recover_partition core_id k s =
     (let e = ii_entries s ! k in
      if pe_host0 e \<noteq> of_nat core_id \<and> pe_host1 e \<noteq> of_nat core_id then s
      else global_atomic (upd_partition k (set_gstatus 0)) s)"

definition reset_fifos :: "ipclite_channel \<Rightarrow> ipcmem_partition \<Rightarrow> ipcmem_partition option" where
  "reset_fifos ch p = do {
     tx_fifo \<leftarrow> ch_tx_fifo ch;
     rx_fifo \<leftarrow> ch_rx_fifo ch;
     p1 \<leftarrow> store_desc p (ff_head tx_fifo) 0;
     store_desc p1 (ff_tail rx_fifo) 0 }"

definition is_host_enabled :: "u32 \<Rightarrow> nat \<Rightarrow> bool" where
  "is_host_enabled enabled_hosts host \<longleftrightarrow> bit enabled_hosts host"

fun notify_hosts :: "nat list \<Rightarrow> nat \<Rightarrow> ipclite_info \<Rightarrow> ipclite_info option" where
  "notify_hosts [] signal s = Some s"
| "notify_hosts (h # hs) signal s = do { (_, s1) \<leftarrow> ipclite_notify_core (int h) signal s; notify_hosts hs signal s1 }"

definition ipclite_recover_v0 :: "nat \<Rightarrow> ipclite_info \<Rightarrow> ipclite_info option" where
  "ipclite_recover_v0 core_id s = do {
     let s1 = (if of_nat core_id = ii_hwlock_owner s then s\<lparr>ii_hwlock_owner := IPCMEM_INVALID_HOST, ii_hwlock_held := False\<rparr> else s);
         s2 = fold (recover_partition core_id) [0..<length (ii_entries s1)] s1 in do {
     ch \<leftarrow> idx (ii_channel s2) core_id;
     (k, p) \<leftarrow> chan_partition ch s2;
     p' \<leftarrow> reset_fifos ch p;
     let s3 = upd_partition k (\<lambda>_. p') s2;
         s4 = global_atomic (upd_partition k (\<lambda>p. set_gstatus (ph_status (ip_hdr p) + 1) p)) s3;
         s5 = upd_channel core_id (ch_status_update (\<lambda>_. ph_status (ip_hdr (ii_partition s4 ! k)))) s4 in
     notify_hosts (filter (\<lambda>h. is_host_enabled (ii_enabled_hosts s5) h \<and> h \<noteq> core_id) [1..<IPCMEM_NUM_HOSTS]) IPCLITE_SSR_SIGNAL s5 } }"

section \<open>Initialisation\<close>

text \<open>\<open>insert_magic_number\<close> on the words of the header of the table of contents.\<close>

definition insert_magic_number :: "u32 list \<Rightarrow> u32 list" where
  "insert_magic_number block = (case block of [] \<Rightarrow> [] | b # bs \<Rightarrow> NOT (foldl (XOR) b bs) # bs)"

record ipcmem_offsets =
  io_host_info :: u32
  io_global_entry :: u32
  io_partition_info :: u32
  io_partition_entry :: u32

text \<open>The sizes of \<open>ipcmem_host_info\<close>, \<open>ipcmem_partition_entry\<close> and \<open>ipcmem_partition_info\<close> are 8, 24 and 8 bytes.\<close>

definition setup_toc :: ipcmem_offsets where
  "setup_toc = \<lparr>io_host_info = IPCMEM_TOC_VAR_OFFSET, io_global_entry = IPCMEM_TOC_VAR_OFFSET + 8,
     io_partition_info = IPCMEM_TOC_VAR_OFFSET + 8 + 24, io_partition_entry = IPCMEM_TOC_VAR_OFFSET + 8 + 24 + 8\<rparr>"

definition is_loopback_except_apps :: "nat \<Rightarrow> nat \<Rightarrow> bool" where
  "is_loopback_except_apps h0 h1 \<longleftrightarrow> h0 = h1 \<and> h0 \<noteq> IPCMEM_APPS"

definition setup_global_partition :: "u32 \<Rightarrow> ipcmem_partition_entry" where
  "setup_global_partition base_offset = \<lparr>pe_base_offset = base_offset, pe_size = GLOBAL_PARTITION_SIZE, pe_flags = DEFAULT_PARTITION_FLAGS,
     pe_host0 = IPCMEM_GLOBAL_HOST, pe_host1 = IPCMEM_GLOBAL_HOST\<rparr>"

text \<open>The two loops of \<open>setup_partitions\<close>: the pairs of hosts they accept, and the entries they fill in.\<close>

definition host_pairs :: "u32 \<Rightarrow> (nat \<times> nat) list" where
  "host_pairs enabled_hosts = concat (map (\<lambda>host0.
     if \<not> is_host_enabled enabled_hosts host0 then []
     else map (Pair host0) (filter (\<lambda>host1. is_host_enabled enabled_hosts host1 \<and> \<not> is_loopback_except_apps host0 host1)
            [host0..<IPCMEM_NUM_HOSTS])) [0..<IPCMEM_NUM_HOSTS])"

fun fill_entries :: "(nat \<times> nat) list \<Rightarrow> u32 \<Rightarrow> ipcmem_partition_entry list" where
  "fill_entries [] base_offset = []"
| "fill_entries ((host0, host1) # ps) base_offset =
     \<lparr>pe_base_offset = base_offset, pe_size = DEFAULT_PARTITION_SIZE, pe_flags = DEFAULT_PARTITION_FLAGS,
      pe_host0 = of_nat host0, pe_host1 = of_nat host1\<rparr> # fill_entries ps (base_offset + DEFAULT_PARTITION_SIZE)"

text \<open>A partition in the zeroed memory, with the header \<open>update_partition\<close> gives it.\<close>

definition update_partition :: "ipcmem_partition_entry \<Rightarrow> ipcmem_partition" where
  "update_partition e = \<lparr>ip_hdr = (if pe_host0 e = pe_host1 e then loopback_partition_hdr else default_partition_hdr),
     ip_descs = replicate 768 0, ip_mem = replicate (unat DEFAULT_PARTITION_SIZE) 0\<rparr>"

definition setup_partitions :: "bool \<Rightarrow> u32 \<Rightarrow> ipclite_info \<Rightarrow> (errno + unit) \<times> ipclite_info" where
  "setup_partitions alloc_ok base_offset s =
     (let es = fill_entries (host_pairs (ii_enabled_hosts s)) base_offset in
      if \<not> alloc_ok then (Inl ENOMEM, s) else (Inr (), s\<lparr>ii_entries := es, ii_partition := map update_partition es\<rparr>))"

text \<open>The remote pids of the child nodes; a node without the property leaves the variable as it was.\<close>

fun enabled_of :: "u32 option list \<Rightarrow> u32 \<Rightarrow> u32 \<Rightarrow> u32" where
  "enabled_of [] remote_pid enabled_hosts = enabled_hosts"
| "enabled_of (n # ns) remote_pid enabled_hosts =
     (let remote_pid = (case n of None \<Rightarrow> remote_pid | Some r \<Rightarrow> r) in
      enabled_of ns remote_pid (if unat remote_pid < IPCMEM_NUM_HOSTS then enabled_hosts OR push_bit (unat remote_pid) 1 else enabled_hosts))"

definition ipcmem_init :: "u32 option list \<Rightarrow> bool \<Rightarrow> ipclite_info \<Rightarrow> (errno + unit) \<times> ipclite_info" where
  "ipcmem_init nodes alloc_ok s =
     (let s1 = s\<lparr>ii_enabled_hosts := enabled_of nodes 0 (ii_enabled_hosts s), ii_hwlock_owner := IPCMEM_INVALID_HOST,
                 ii_global_entry := setup_global_partition IPCMEM_TOC_SIZE\<rparr> in
      setup_partitions alloc_ok (IPCMEM_TOC_SIZE + GLOBAL_PARTITION_SIZE) s1)"

definition get_ipcmem_partition_hdr :: "ipclite_info \<Rightarrow> nat \<Rightarrow> u32 \<Rightarrow> nat option" where
  "get_ipcmem_partition_hdr s local_pid remote_pid =
     List.find (\<lambda>k. pe_host0 (ii_entries s ! k) = of_nat local_pid \<and> pe_host1 (ii_entries s ! k) = remote_pid) [0..<length (ii_entries s)]"

text \<open>The FIFOs of the end \<open>local_pid\<close> of a partition, \<open>(tx_fifo, rx_fifo)\<close>.\<close>

definition chan_fifos :: "u32 \<Rightarrow> u32 \<Rightarrow> ipcmem_partition_header \<Rightarrow> ipclite_fifo \<times> ipclite_fifo" where
  "chan_fifos local_pid remote_pid hdr =
     (let (tx, rx) =
        (if local_pid < remote_pid
         then (\<lparr>ff_length = ph_fifo0_size hdr, ff_tail = 0, ff_head = 1, ff_fifo = unat (ph_fifo0_offset hdr)\<rparr>,
               \<lparr>ff_length = ph_fifo1_size hdr, ff_tail = 2, ff_head = 3, ff_fifo = unat (ph_fifo1_offset hdr)\<rparr>)
         else (\<lparr>ff_length = ph_fifo1_size hdr, ff_tail = 2, ff_head = 3, ff_fifo = unat (ph_fifo1_offset hdr)\<rparr>,
               \<lparr>ff_length = ph_fifo0_size hdr, ff_tail = 0, ff_head = 1, ff_fifo = unat (ph_fifo0_offset hdr)\<rparr>))
      in (tx, if ph_type hdr = LOOPBACK_PARTITION_TYPE then rx\<lparr>ff_tail := ff_tail tx, ff_head := ff_head tx\<rparr> else rx))"

definition channel_fail :: "u32 \<Rightarrow> errno \<Rightarrow> ipclite_info \<Rightarrow> ((errno + unit) \<times> ipclite_info) option" where
  "channel_fail remote_pid e s = do {
     _ \<leftarrow> idx (ii_channel s) (unat remote_pid);
     Some (Inl e, upd_channel (unat remote_pid) (ch_status_update (\<lambda>_. INACTIVE)) s) }"

text \<open>\<open>ipclite_channel_init\<close>: \<open>dev\<close> is the result of registering the device, \<open>dt\<close> what the device tree gives for the remote pid,
  \<open>irq\<close> the result of setting up the interrupts.\<close>

definition ipclite_channel_init ::
    "errno option \<Rightarrow> errno + u32 \<Rightarrow> bool \<Rightarrow> errno option \<Rightarrow> ipclite_info \<Rightarrow> ((errno + unit) \<times> ipclite_info) option" where
  "ipclite_channel_init dev dt alloc_ok irq s =
     (case dev of Some e \<Rightarrow> Some (Inl e, s) | None \<Rightarrow>
      (case dt of Inl e \<Rightarrow> channel_fail 0 e s | Inr remote_pid \<Rightarrow>
       if \<not> alloc_ok then channel_fail remote_pid ENOMEM s
       else (case get_ipcmem_partition_hdr s IPCMEM_APPS remote_pid of
          None \<Rightarrow> channel_fail remote_pid ENOMEM s
        | Some k \<Rightarrow> do {
            p \<leftarrow> idx (ii_partition s) k;
            let (tx_fifo, rx_fifo) = chan_fifos (of_nat IPCMEM_APPS) remote_pid (ip_hdr p) in do {
            p1 \<leftarrow> store_desc p (ff_tail rx_fifo) 0;
            p2 \<leftarrow> store_desc p1 (ff_head tx_fifo) 0;
            _ \<leftarrow> idx (ii_channel s) (unat remote_pid);
            let s1 = upd_channel (unat remote_pid) (\<lambda>ch. ch\<lparr>ch_remote_pid := remote_pid, ch_tx_fifo := Some tx_fifo, ch_rx_fifo := Some rx_fifo,
                       ch_gstatus_ptr := Some k\<rparr>) (upd_partition k (\<lambda>_. p2) s) in
            (case irq of
               Some e \<Rightarrow> channel_fail remote_pid e s1
             | None \<Rightarrow>
                 let st = (if unat remote_pid = IPCMEM_APPS then ACTIVE else IN_PROGRESS) in
                 Some (Inr (), upd_channel (unat remote_pid) (ch_status_update (\<lambda>_. st)) (upd_partition k (set_gstatus st) s1))) } })))"

fun probe_subsystems :: "(errno option \<times> (errno + u32) \<times> bool \<times> errno option) list \<Rightarrow> ipclite_info \<Rightarrow> ipclite_info option" where
  "probe_subsystems [] s = Some s"
| "probe_subsystems ((dev, dt, alloc_ok, irq) # ns) s = do {
     (_, s1) \<leftarrow> ipclite_channel_init dev dt alloc_ok irq s;
     probe_subsystems ns s1 }"

definition get_global_partition_info_v0 :: "ipclite_info option \<Rightarrow> bool \<Rightarrow> errno + (nat \<times> nat)" where
  "get_global_partition_info_v0 ipclite has_ptr =
     (case ipclite of None \<Rightarrow> Inl ENOMEM | Some s \<Rightarrow>
        if \<not> has_ptr then Inl EINVAL
        else Inr (unat (pe_base_offset (ii_global_entry s)) + unat GLOBAL_REGION_OFFSET, unat GLOBAL_REGION_SIZE))"


section \<open>Bytes and words\<close>

lemma u64_of_bytes_map: "i \<le> 8 \<Longrightarrow> u64_of_bytes (map (\<lambda>k. ucast (drop_bit (8 * k) x)) [i..<8]) = drop_bit (8 * i) x"
proof (induction "8 - i" arbitrary: i)
  case 0
  then show ?case by (simp add: u64_of_bytes_def)
next
  case (Suc m)
  then have i: "i < 8" by simp
  let ?f = "\<lambda>k. ucast (drop_bit (8 * k) x) :: u8"
  have "u64_of_bytes (map ?f [i..<8]) = push_bit 8 (u64_of_bytes (map ?f [Suc i..<8])) OR ucast (?f i)"
    using i by (simp add: upt_conv_Cons u64_of_bytes_def)
  also have "u64_of_bytes (map ?f [Suc i..<8]) = drop_bit (8 * Suc i) x" using Suc i by (intro Suc.hyps(1)) auto
  also have "push_bit 8 (drop_bit (8 * Suc i) x) OR ucast (?f i) = drop_bit (8 * i) x"
    by (rule bit_word_eqI) (auto simp: bit_simps add.commute add.left_commute)
  finally show ?case .
qed

lemma u64_bytes [simp]: "u64_of_bytes (bytes_of_u64 x) = x"
  using u64_of_bytes_map[of 0 x] by (simp add: bytes_of_u64_def)

lemma length_bytes_of_u64 [simp]: "length (bytes_of_u64 x) = 8"
  by (simp add: bytes_of_u64_def)

lemma ALIGN_8: "8 dvd unat x \<Longrightarrow> ALIGN x 8 = x"
proof -
  assume d: "8 dvd unat x"
  have b: "\<not> bit x n" if "n < 3" for n
  proof -
    obtain k where k: "unat x = 8 * k" using d by (auto simp: dvd_def)
    have "n = 0 \<or> n = 1 \<or> n = 2" using that by auto
    then have "\<not> bit (unat x) n" by (auto simp: k bit_iff_odd)
    then show ?thesis by (auto simp: bit_unsigned_iff dest: bit_imp_possible_bit)
  qed
  have mask3: "(7 :: u32) = mask 3" by (simp add: mask_eq_exp_minus_1)
  have 7: "bit (7 :: u32) n \<longleftrightarrow> n < 3" for n
    unfolding mask3 by (auto simp: bit_mask_iff)
  have "x + 7 = x OR 7" by (rule disjunctive_add_eq_or) (rule bit_word_eqI, use b 7 in \<open>auto simp: bit_simps\<close>)
  then show ?thesis unfolding ALIGN_def by simp (rule bit_word_eqI, use b 7 in \<open>auto simp: bit_simps\<close>)
qed

section \<open>The FIFO as a list of messages\<close>

definition fifo_n :: "ipclite_fifo \<Rightarrow> nat" where
  "fifo_n f = unat (ff_length f) div 8"

definition fifo_rd :: "ipclite_fifo \<Rightarrow> ipcmem_partition \<Rightarrow> nat" where
  "fifo_rd f p = unat (ip_descs p ! ff_tail f) div 8"

definition fifo_wr :: "ipclite_fifo \<Rightarrow> ipcmem_partition \<Rightarrow> nat" where
  "fifo_wr f p = unat (ip_descs p ! ff_head f) div 8"

text \<open>The length is a multiple of 8, head and tail are aligned and inside, the bytes lie inside the partition.\<close>

definition fifo_wf :: "ipclite_fifo \<Rightarrow> ipcmem_partition \<Rightarrow> bool" where
  "fifo_wf f p \<longleftrightarrow> 8 dvd unat (ff_length f) \<and> unat (ff_length f) < 2 ^ 31 \<and> ff_head f \<noteq> ff_tail f \<and> ff_head f < length (ip_descs p) \<and> ff_tail f < length (ip_descs p)
     \<and> 8 dvd unat (ip_descs p ! ff_head f) \<and> 8 dvd unat (ip_descs p ! ff_tail f)
     \<and> ip_descs p ! ff_head f < ff_length f \<and> ip_descs p ! ff_tail f < ff_length f
     \<and> ff_fifo f + unat (ff_length f) \<le> length (ip_mem p)"

definition fslot :: "ipclite_fifo \<Rightarrow> ipcmem_partition \<Rightarrow> nat \<Rightarrow> u64" where
  "fslot f p k = u64_of_bytes (read_run (ip_mem p) (ff_fifo f + 8 * k) 8)"

definition fifo_contents :: "ipclite_fifo \<Rightarrow> ipcmem_partition \<Rightarrow> u64 list" where
  "fifo_contents f p = ring (fslot f p) (fifo_n f) (fifo_rd f p) (fifo_wr f p)"

lemma fifo_wfD:
  assumes "fifo_wf f p"
  shows "unat (ff_length f) = 8 * fifo_n f" "unat (ip_descs p ! ff_head f) = 8 * fifo_wr f p" "unat (ip_descs p ! ff_tail f) = 8 * fifo_rd f p"
    "fifo_wr f p < fifo_n f" "fifo_rd f p < fifo_n f" "8 * fifo_n f < 2 ^ 31"
  using assms by (auto simp: fifo_wf_def fifo_n_def fifo_wr_def fifo_rd_def word_less_nat_alt elim!: dvdE)

lemma fifo_wfE:
  assumes "fifo_wf f p"
  shows "ff_head f \<noteq> ff_tail f" "ff_head f < length (ip_descs p)" "ff_tail f < length (ip_descs p)" "ff_fifo f + 8 * fifo_n f \<le> length (ip_mem p)"
  using assms fifo_wfD(1)[OF assms] by (auto simp: fifo_wf_def)

lemma rx_avail_ok:
  assumes "fifo_wf f p"
  shows "\<exists>a. ipcmem_rx_avail f p = Some a \<and> unat a = 8 * length (fifo_contents f p)"
proof -
  note d = fifo_wfD[OF assms] and e = fifo_wfE[OF assms]
  let ?h = "ip_descs p ! ff_head f" and ?t = "ip_descs p ! ff_tail f" and ?L = "ff_length f"
  let ?len = "if ?h < ?t then ?L - ?t + ?h else ?h - ?t"
  have u: "unat ?len = 8 * length (fifo_contents f p)"
  proof (cases "?h < ?t")
    case True
    have "?t \<le> ?L" using d by (simp add: word_le_nat_alt)
    then have "unat (?L - ?t) = 8 * fifo_n f - 8 * fifo_rd f p" using d by (simp add: unat_sub)
    then have "unat (?L - ?t + ?h) = 8 * fifo_n f - 8 * fifo_rd f p + 8 * fifo_wr f p"
      using d True by (simp add: unat_word_ariths word_less_nat_alt)
    then show ?thesis using True d by (simp add: word_less_nat_alt fifo_contents_def length_ring ring_used)
  next
    case False
    then have "unat (?h - ?t) = 8 * fifo_wr f p - 8 * fifo_rd f p" using d by (simp add: unat_sub not_less)
    then show ?thesis using False d by (simp add: word_less_nat_alt fifo_contents_def length_ring ring_used)
  qed
  moreover have "length (fifo_contents f p) < fifo_n f" using d(5) by (simp add: fifo_contents_def length_ring)
  then have "\<not> ?len > ?L" using u d(1) by (simp add: word_less_nat_alt)
  ultimately show ?thesis using e by (simp add: ipcmem_rx_avail_def Let_def)
qed

lemma tx_avail_ok:
  assumes "fifo_wf f p"
  shows "\<exists>a. ipcmem_tx_avail f p = Some a \<and> unat a = 8 * (fifo_n f - 1 - length (fifo_contents f p))"
proof -
  note d = fifo_wfD[OF assms] and e = fifo_wfE[OF assms]
  let ?h = "ip_descs p ! ff_head f" and ?t = "ip_descs p ! ff_tail f" and ?L = "ff_length f"
  define a where "a = (if ?t \<le> ?h then ?L - ?h + ?t else ?t - ?h)"
  have l: "length (fifo_contents f p) < fifo_n f" using d(5) by (simp add: fifo_contents_def length_ring)
  have u: "unat a = 8 * (fifo_n f - length (fifo_contents f p))"
  proof (cases "?t \<le> ?h")
    case True
    have "?h \<le> ?L" using d by (simp add: word_le_nat_alt)
    then have "unat (?L - ?h) = 8 * fifo_n f - 8 * fifo_wr f p" using d by (simp add: unat_sub)
    then have "unat (?L - ?h + ?t) = 8 * fifo_n f - 8 * fifo_wr f p + 8 * fifo_rd f p"
      using d True by (simp add: unat_word_ariths word_le_nat_alt)
    then show ?thesis using True d by (simp add: a_def word_le_nat_alt fifo_contents_def length_ring ring_used)
  next
    case False
    then have "unat (?t - ?h) = 8 * fifo_rd f p - 8 * fifo_wr f p" using d by (simp add: unat_sub not_le order.strict_implies_order)
    then show ?thesis using False d by (simp add: a_def word_le_nat_alt fifo_contents_def length_ring ring_used)
  qed
  then have "\<not> a < FIFO_FULL_RESERVE" using l by (simp add: FIFO_FULL_RESERVE_def word_less_nat_alt)
  moreover have "unat (a - FIFO_FULL_RESERVE) = 8 * (fifo_n f - 1 - length (fifo_contents f p))"
    using calculation u by (simp add: unat_sub not_less FIFO_FULL_RESERVE_def)
  moreover have "\<not> a - FIFO_FULL_RESERVE > ff_length f" using calculation(2) d(1) by (simp add: word_less_nat_alt)
  ultimately show ?thesis using e by (simp add: ipcmem_tx_avail_def Let_def a_def)
qed

lemma rx_take_ok:
  assumes "fifo_wf f p" and c: "fifo_contents f p = x # xs"
  shows "\<exists>bs p'. ipcmem_rx_peak f p (replicate 8 0) 8 = Some bs \<and> u64_of_bytes bs = x \<and> ipcmem_rx_advance f p 8 = Some p'
    \<and> p' = p\<lparr>ip_descs := (ip_descs p)[ff_tail f := of_nat (8 * (Suc (fifo_rd f p) mod fifo_n f))]\<rparr> \<and> fifo_wf f p' \<and> fifo_contents f p' = xs"
proof -
  note d = fifo_wfD[OF assms(1)] and e = fifo_wfE[OF assms(1)]
  let ?t = "ip_descs p ! ff_tail f" and ?L = "ff_length f" and ?r = "fifo_rd f p" and ?n = "fifo_n f"
  define t' :: u32 where "t' = of_nat (8 * (Suc ?r mod ?n))"
  have ut': "unat t' = 8 * (Suc ?r mod ?n)"
  proof -
    have "Suc ?r mod ?n < ?n" using d(5) by simp
    then have "8 * (Suc ?r mod ?n) < 2 ^ LENGTH(32)" using d(6) by simp
    then show ?thesis unfolding t'_def by (simp only: unat_of_nat mod_less)
  qed
  have "?r \<noteq> fifo_wr f p" using c d(4,5) ring_Nil_iff[OF d(5,4), of "fslot f p"] by (auto simp: fifo_contents_def)
  then have x: "x = fslot f p ?r" "xs = ring (fslot f p) ?n (Suc ?r mod ?n) (fifo_wr f p)"
    using ring_Cons[OF d(5,4), of "fslot f p"] c by (auto simp: fifo_contents_def)
  have ul: "unat (?L - ?t) = 8 * ?n - 8 * ?r" using d by (simp add: unat_sub word_le_nat_alt)
  have t: "\<not> ?t > ?L" "\<not> ?t \<ge> ?L" using d by (simp_all add: word_less_nat_alt word_le_nat_alt)
  have m: "min 8 (unat (?L - ?t)) = 8" unfolding ul using d(5) by simp
  have pk: "ipcmem_rx_peak f p (replicate 8 0) 8 = Some (read_run (ip_mem p) (ff_fifo f + 8 * ?r) 8)"
    using t m ul e d(3,5) by (simp add: ipcmem_rx_peak_def Let_def load_bytes_def)
  have u8: "unat (?t + 8) = 8 * Suc ?r" using d(3,5,6) by (simp add: unat_word_ariths)
  have "ipcmem_rx_advance f p 8 = store_desc p (ff_tail f) t'"
  proof (cases "Suc ?r < ?n")
    case True
    then have "\<not> ?t + 8 \<ge> ?L" using u8 d(1) by (simp add: word_le_nat_alt)
    moreover have "?t + 8 = t'" by (rule unat_inj) (use u8 ut' True in simp)
    ultimately show ?thesis using e(3) by (simp add: ipcmem_rx_advance_def Let_def)
  next
    case False
    then have n: "Suc ?r = ?n" using d(5) by simp
    then have "?t + 8 \<ge> ?L" using u8 d(1) by (simp add: word_le_nat_alt)
    moreover have "(?t + 8) mod ?L = t'" by (rule unat_inj) (use u8 ut' n d(1) in \<open>simp add: unat_mod\<close>)
    moreover have "?L \<noteq> 0" using d(1,5) by auto
    ultimately show ?thesis using e(3) by (simp add: ipcmem_rx_advance_def Let_def)
  qed
  then have ad: "ipcmem_rx_advance f p 8 = Some (p\<lparr>ip_descs := (ip_descs p)[ff_tail f := t']\<rparr>)" using e(3) by (simp add: store_desc_def)
  let ?p = "p\<lparr>ip_descs := (ip_descs p)[ff_tail f := t']\<rparr>"
  have "Suc ?r mod ?n < ?n" using d(5) by simp
  then have "t' < ?L" using ut' d(1) by (simp add: word_less_nat_alt)
  then have "fifo_wf f ?p" using assms(1) e ut' by (simp add: fifo_wf_def)
  moreover have "fifo_contents f ?p = xs"
    using e ut' x(2) by (simp add: fifo_contents_def fifo_rd_def fifo_wr_def fslot_def[abs_def])
  moreover have "u64_of_bytes (read_run (ip_mem p) (ff_fifo f + 8 * ?r) 8) = x" using x(1) by (simp add: fslot_def)
  ultimately show ?thesis using pk ad by (auto simp: t'_def)
qed

lemma fslot_write:
  assumes "ff_fifo f + 8 * fifo_n f \<le> length (ip_mem p)" and "k < fifo_n f" and "j < fifo_n f"
  shows "fslot f (p\<lparr>ip_mem := write_run (ip_mem p) (ff_fifo f + 8 * k) (bytes_of_u64 x), ip_descs := ds\<rparr>) j = (if j = k then x else fslot f p j)"
proof (cases "j = k")
  case True
  then show ?thesis using assms by (simp add: fslot_def read_run_write_same)
next
  case False
  then have "8 * j + 8 \<le> 8 * k \<or> 8 * k + 8 \<le> 8 * j" by arith
  then show ?thesis using assms False by (simp add: fslot_def read_run_write_other)
qed

lemma tx_write_ok:
  assumes "fifo_wf f p" and room: "Suc (length (fifo_contents f p)) < fifo_n f"
  shows "\<exists>p'. ipcmem_tx_write f p (bytes_of_u64 x) 8 = Some p' \<and> fifo_wf f p' \<and> fifo_contents f p' = fifo_contents f p @ [x]
    \<and> p' = p\<lparr>ip_mem := write_run (ip_mem p) (ff_fifo f + 8 * fifo_wr f p) (bytes_of_u64 x),
              ip_descs := (ip_descs p)[ff_head f := of_nat (8 * (Suc (fifo_wr f p) mod fifo_n f))]\<rparr>"
proof -
  note d = fifo_wfD[OF assms(1)] and e = fifo_wfE[OF assms(1)]
  let ?h = "ip_descs p ! ff_head f" and ?L = "ff_length f" and ?w = "fifo_wr f p" and ?n = "fifo_n f"
  define h' :: u32 where "h' = of_nat (8 * (Suc ?w mod ?n))"
  have sw: "Suc ?w mod ?n < ?n" using d(4) by simp
  have uh': "unat h' = 8 * (Suc ?w mod ?n)"
  proof -
    have "8 * (Suc ?w mod ?n) < 2 ^ LENGTH(32)" using sw d(6) by simp
    then show ?thesis unfolding h'_def by (simp only: unat_of_nat mod_less)
  qed
  have hL: "h' < ?L" "\<not> h' \<ge> ?L" using uh' sw d(1) by (simp_all add: word_less_nat_alt word_le_nat_alt)
  have ul: "unat (?L - ?h) = 8 * ?n - 8 * ?w" using d by (simp add: unat_sub word_le_nat_alt)
  have m: "min 8 (unat (?L - ?h)) = 8" unfolding ul using d(4) by simp
  have h: "\<not> ?h > ?L" using d by (simp add: word_less_nat_alt)
  let ?p1 = "p\<lparr>ip_mem := write_run (ip_mem p) (ff_fifo f + 8 * ?w) (bytes_of_u64 x)\<rparr>"
  have u8: "unat (?h + 8) = 8 * Suc ?w" using d(2,4,6) by (simp add: unat_word_ariths)
  have nh: "(if ?h + 8 \<ge> ?L then ?h + 8 - ?L else ?h + 8) = h'"
  proof (cases "Suc ?w < ?n")
    case True
    then have "\<not> ?h + 8 \<ge> ?L" using u8 d(1) by (simp add: word_le_nat_alt)
    moreover have "?h + 8 = h'" by (rule unat_inj) (use u8 uh' True in simp)
    ultimately show ?thesis by simp
  next
    case False
    then have n: "Suc ?w = ?n" using d(4) by simp
    then have le: "?L \<le> ?h + 8" using u8 d(1) by (simp add: word_le_nat_alt)
    have "?h + 8 - ?L = h'" by (rule unat_inj) (use u8 uh' n d(1) unat_sub[OF le] in simp)
    then show ?thesis using le by simp
  qed
  have "ipcmem_tx_write_one f p ?h (bytes_of_u64 x) 8 = Some (h', ?p1)"
    using h m ul nh d(2,4) e(4) by (simp add: ipcmem_tx_write_one_def Let_def store_bytes_def)
  moreover have "ALIGN h' 8 = h'" by (rule ALIGN_8) (simp add: uh')
  ultimately have wr: "ipcmem_tx_write f p (bytes_of_u64 x) 8 = Some (?p1\<lparr>ip_descs := (ip_descs p)[ff_head f := h']\<rparr>)"
    using e hL by (simp add: ipcmem_tx_write_def Let_def store_desc_def)
  let ?p = "?p1\<lparr>ip_descs := (ip_descs p)[ff_head f := h']\<rparr>"
  have l: "length (write_run (ip_mem p) (ff_fifo f + 8 * ?w) (bytes_of_u64 x)) = length (ip_mem p)"
    using e(4) d(4) by (intro length_write_run) simp
  have wf: "fifo_wf f ?p" using assms(1) e hL(1) uh' l by (simp add: fifo_wf_def)
  have "fslot f ?p j = (if j = ?w then x else fslot f p j)" if "j < ?n" for j
    using fslot_write[OF e(4) d(4) that] by simp
  then have "ring (fslot f ?p) ?n (fifo_rd f p) ?w = ring (fslot f p) ?n (fifo_rd f p) ?w" "fslot f ?p ?w = x"
    using d(4,5) by (auto intro!: ring_cong)
  moreover have "fifo_contents f ?p = ring (fslot f ?p) ?n (fifo_rd f p) (Suc ?w mod ?n)"
    using e uh' by (simp add: fifo_contents_def fifo_rd_def fifo_wr_def)
  ultimately have "fifo_contents f ?p = fifo_contents f p @ [x]"
    using ring_snoc[OF d(5,4), of "fslot f ?p"] room by (simp add: fifo_contents_def length_ring)
  then show ?thesis using wr wf by (auto simp: h'_def)
qed

definition fifo_cap :: "ipclite_fifo \<Rightarrow> nat" where
  "fifo_cap f = fifo_n f - 1"

definition fifo_send :: "ipclite_fifo \<Rightarrow> u64 \<Rightarrow> ipcmem_partition \<Rightarrow> ipcmem_partition option" where
  "fifo_send f x p = do { a \<leftarrow> ipcmem_tx_avail f p; if unat a < 8 then None else ipcmem_tx_write f p (bytes_of_u64 x) 8 }"

definition fifo_recv :: "ipclite_fifo \<Rightarrow> ipcmem_partition \<Rightarrow> (u64 \<times> ipcmem_partition) option" where
  "fifo_recv f p = do {
     a \<leftarrow> ipcmem_rx_avail f p;
     if unat a < 8 then None
     else do { bs \<leftarrow> ipcmem_rx_peak f p (replicate 8 0) 8; p' \<leftarrow> ipcmem_rx_advance f p 8; Some (u64_of_bytes bs, p') } }"

interpretation ipq: bounded_fifo "fifo_wf f" "fifo_contents f" "\<lambda>_. fifo_cap f" "fifo_send f" "fifo_recv f" "\<lambda>x. x"
  for f
proof unfold_locales
  fix p x assume wf: "fifo_wf f p"
  obtain a where a: "ipcmem_tx_avail f p = Some a" "unat a = 8 * (fifo_n f - 1 - length (fifo_contents f p))"
    using tx_avail_ok[OF wf] by blast
  show "\<exists>p' y. fifo_send f x p = Some p' \<and> fifo_wf f p' \<and> fifo_cap f = fifo_cap f \<and> fifo_contents f p' = fifo_contents f p @ [y] \<and> y = x"
    if "length (fifo_contents f p) < fifo_cap f"
    using a tx_write_ok[OF wf, of x] that by (auto simp: fifo_send_def fifo_cap_def)
  show "fifo_send f x p = None" if "fifo_cap f \<le> length (fifo_contents f p)"
    using a that by (simp add: fifo_send_def fifo_cap_def)
next
  fix p y ys assume wf: "fifo_wf f p" and c: "fifo_contents f p = y # ys"
  obtain a where "ipcmem_rx_avail f p = Some a" "unat a = 8 * length (fifo_contents f p)" using rx_avail_ok[OF wf] by blast
  then show "\<exists>p'. fifo_recv f p = Some (y, p') \<and> fifo_wf f p' \<and> fifo_cap f = fifo_cap f \<and> fifo_contents f p' = ys"
    using rx_take_ok[OF wf c] c by (auto simp: fifo_recv_def)
next
  fix p assume wf: "fifo_wf f p" and c: "fifo_contents f p = []"
  obtain a where "ipcmem_rx_avail f p = Some a" "unat a = 8 * length (fifo_contents f p)" using rx_avail_ok[OF wf] by blast
  then show "fifo_recv f p = None" using c by (simp add: fifo_recv_def)
qed

end
