(* ===== verification/Ipclite_Channel.thy ===== *)
theory Ipclite_Channel
  imports Ipclite
begin

text \<open>
  The channels of \<^verbatim>\<open>ipclite.c\<close>: what sending a message, the interrupt handler, the initialisation of partitions and
  channels, and the recovery of a crashed core do to the messages in the FIFOs and to the channel states.
\<close>


section \<open>Sending\<close>

text \<open>Channel \<open>h\<close> is set up: its FIFO \<open>f\<close> (in either direction) lies in partition \<open>k\<close>.\<close>

definition chan_set :: "ipclite_info \<Rightarrow> nat \<Rightarrow> nat \<Rightarrow> ipclite_channel \<Rightarrow> ipcmem_partition \<Rightarrow> bool" where
  "chan_set s h k ch p \<longleftrightarrow> h < length (ii_channel s) \<and> ii_channel s ! h = ch \<and> ch_gstatus_ptr ch = Some k
     \<and> k < length (ii_partition s) \<and> ii_partition s ! k = p"

definition chan_open :: "ipclite_channel \<Rightarrow> ipcmem_partition \<Rightarrow> bool" where
  "chan_open ch p \<longleftrightarrow> ch_status ch = ACTIVE \<or> (ch_status ch = IN_PROGRESS \<and> ph_status (ip_hdr p) = ACTIVE)"

lemma chan_set_partition: "chan_set s h k ch p \<Longrightarrow> chan_partition ch s = Some (k, p)"
  by (simp add: chan_set_def chan_partition_def)

lemma chan_set_status:
  "chan_set s h k ch p \<Longrightarrow> chan_set (upd_channel h (ch_status_update (\<lambda>_. st)) s) h k (ch\<lparr>ch_status := st\<rparr>) p"
  by (simp add: chan_set_def upd_channel_def)

lemma upd_status_same: "h < length (ii_channel s) \<Longrightarrow> ch_status (ii_channel s ! h) = st \<Longrightarrow> upd_channel h (ch_status_update (\<lambda>_. st)) s = s"
  unfolding upd_channel_def by (cases s) (auto simp: list_update_same_conv)

lemma chan_ready_ok:
  assumes "chan_set s h k ch p"
  shows "chan_ready h s = Some (if chan_open ch p then (Inr (), upd_channel h (ch_status_update (\<lambda>_. ACTIVE)) s) else (Inl EOPNOTSUPP, s))"
  using assms upd_status_same[of h s ACTIVE] chan_set_partition[OF assms]
  by (auto simp: chan_ready_def chan_set_def chan_open_def IN_PROGRESS_def ACTIVE_def)

text \<open>The state after a message has been stored in partition \<open>k\<close> and the doorbell rung.\<close>

definition sent :: "nat \<Rightarrow> nat \<Rightarrow> ipcmem_partition \<Rightarrow> nat \<Rightarrow> ipclite_info \<Rightarrow> ipclite_info" where
  "sent h k p' signal s = snd (mbox_send h signal (upd_partition k (\<lambda>_. p') (upd_channel h (ch_status_update (\<lambda>_. ACTIVE)) s)))"

lemma ipclite_tx_ok:
  assumes c: "chan_set s h k ch p" and f: "ch_tx_fifo ch = Some f" "fifo_wf f p"
  shows "if \<not> chan_open ch p then ipclite_tx h x 8 sig s = Some (Inl EOPNOTSUPP, s)
    else if fifo_cap f \<le> length (fifo_contents f p) then ipclite_tx h x 8 sig s = Some (Inl EAGAIN, upd_channel h (ch_status_update (\<lambda>_. ACTIVE)) s)
    else \<exists>p'. ipclite_tx h x 8 sig s = Some (Inr (), sent h k p' sig s) \<and> fifo_wf f p' \<and> fifo_contents f p' = fifo_contents f p @ [x]
      \<and> ip_hdr p' = ip_hdr p"
proof (cases "chan_open ch p")
  case False
  then show ?thesis using chan_ready_ok[OF c] by (simp add: ipclite_tx_def)
next
  case True
  let ?s1 = "upd_channel h (ch_status_update (\<lambda>_. ACTIVE)) s"
  note c1 = chan_set_status[OF c, of ACTIVE]
  obtain a where a: "ipcmem_tx_avail f p = Some a" "unat a = 8 * (fifo_n f - 1 - length (fifo_contents f p))"
    using tx_avail_ok[OF f(2)] by blast
  have pre: "ipclite_tx h x 8 sig s = (if unat a < 8 then Some (Inl EAGAIN, ?s1)
      else map_option (\<lambda>p'. (Inr (), sent h k p' sig s)) (ipcmem_tx_write f p (bytes_of_u64 x) 8))"
    using chan_ready_ok[OF c] True chan_set_partition[OF c1] c1 f(1) a(1)
    by (simp add: ipclite_tx_def chan_set_def sent_def map_option_case split: option.splits)
  show ?thesis
  proof (cases "fifo_cap f \<le> length (fifo_contents f p)")
    case True
    then show ?thesis using pre a \<open>chan_open ch p\<close> by (simp add: fifo_cap_def)
  next
    case False
    then have "\<not> unat a < 8" "Suc (length (fifo_contents f p)) < fifo_n f" using a by (auto simp: fifo_cap_def)
    then show ?thesis using pre tx_write_ok[OF f(2), of x] \<open>chan_open ch p\<close> False by auto
  qed
qed

lemma sent_simps [simp]:
  "ii_mbox_log (sent h k p' sig s) = ii_mbox_log s @ [(h, sig)]" "ii_partition (sent h k p' sig s) = (ii_partition s)[k := p']"
  "ii_channel (sent h k p' sig s) = (ii_channel s)[h := (ii_channel s ! h)\<lparr>ch_status := ACTIVE\<rparr>]"
  "ii_delivered (sent h k p' sig s) = ii_delivered s" "ii_synx_client (sent h k p' sig s) = ii_synx_client s"
  by (simp_all add: sent_def mbox_send_def upd_partition_def upd_channel_def)

text \<open>C17: sending a message to a host whose channel is set up. It is refused with EOPNOTSUPP while the other side has not confirmed the
  channel, and with EAGAIN when the FIFO is full, in both cases with nothing written and no doorbell rung; otherwise it is appended
  to the messages in the FIFO, the doorbell of that host is rung once, and no other partition changes.\<close>

theorem msg_send_correct:
  assumes "chan_set s h k ch p" and "h < 9" and "ch_tx_fifo ch = Some f" and "fifo_wf f p"
  shows "\<exists>r s'. ipclite_msg_send_v0 (int h) x s = Some (r, s') \<and>
    r = (if \<not> chan_open ch p then Inl EOPNOTSUPP else if fifo_cap f \<le> length (fifo_contents f p) then Inl EAGAIN else Inr ()) \<and>
    (if r = Inr () then ii_mbox_log s' = ii_mbox_log s @ [(h, IPCLITE_MSG_SIGNAL)] \<and> fifo_wf f (ii_partition s' ! k)
       \<and> fifo_contents f (ii_partition s' ! k) = fifo_contents f p @ [x] \<and> (\<forall>j. j \<noteq> k \<longrightarrow> ii_partition s' ! j = ii_partition s ! j)
     else ii_mbox_log s' = ii_mbox_log s \<and> ii_partition s' = ii_partition s) \<and>
    (\<forall>j. j \<noteq> h \<longrightarrow> ii_channel s' ! j = ii_channel s ! j) \<and> ii_channel s' ! h = ch\<lparr>ch_status := (if chan_open ch p then ACTIVE else ch_status ch)\<rparr>"
proof -
  have e: "ipclite_msg_send_v0 (int h) x s = ipclite_tx h x 8 IPCLITE_MSG_SIGNAL s"
    using assms(2) by (simp add: ipclite_msg_send_v0_def IPCMEM_NUM_HOSTS_def)
  have c: "h < length (ii_channel s)" "ii_channel s ! h = ch" "k < length (ii_partition s)" using assms(1) by (auto simp: chan_set_def)
  consider "\<not> chan_open ch p" | "chan_open ch p" "fifo_cap f \<le> length (fifo_contents f p)" | "chan_open ch p" "\<not> fifo_cap f \<le> length (fifo_contents f p)"
    by blast
  then show ?thesis
  proof cases
    case 1
    then show ?thesis using ipclite_tx_ok[OF assms(1,3,4), of x IPCLITE_MSG_SIGNAL] e c by simp
  next
    case 2
    then show ?thesis using ipclite_tx_ok[OF assms(1,3,4), of x IPCLITE_MSG_SIGNAL] e c by (simp add: upd_channel_def)
  next
    case 3
    then show ?thesis using ipclite_tx_ok[OF assms(1,3,4), of x IPCLITE_MSG_SIGNAL] e c by auto
  qed
qed

section \<open>Receiving\<close>

lemma rx_avail_chan:
  assumes "chan_set s h k ch p" and "ch_rx_fifo ch = Some f"
  shows "ipclite_rx_avail h s = ipcmem_rx_avail f p"
  using assms chan_set_partition[OF assms(1)] by (simp add: ipclite_rx_avail_def chan_set_def)

definition deliver :: "u32 \<Rightarrow> u64 \<Rightarrow> ipclite_info \<Rightarrow> ipclite_info" where
  "deliver pid x s = (if ii_synx_client s then s\<lparr>ii_delivered := ii_delivered s @ [(pid, x)]\<rparr> else s)"

lemma rx_data_eq: "ipclite_rx_data = rx_message deliver"
  by (simp add: ipclite_rx_data_def deliver_def[abs_def])

lemma deliver_simps [simp]:
  "ii_channel (deliver pid x s) = ii_channel s" "ii_partition (deliver pid x s) = ii_partition s" "ii_synx_client (deliver pid x s) = ii_synx_client s"
  "ii_mbox_log (deliver pid x s) = ii_mbox_log s"
  "ii_delivered (deliver pid x s) = ii_delivered s @ (if ii_synx_client s then [(pid, x)] else [])"
  by (simp_all add: deliver_def)

lemma upd_partition_simps [simp]:
  "ii_channel (upd_partition k g s) = ii_channel s" "ii_synx_client (upd_partition k g s) = ii_synx_client s"
  "ii_delivered (upd_partition k g s) = ii_delivered s" "ii_mbox_log (upd_partition k g s) = ii_mbox_log s"
  "ii_partition (upd_partition k g s) = (ii_partition s)[k := g (ii_partition s ! k)]"
  by (simp_all add: upd_partition_def)

lemma rx_data_step:
  assumes c: "chan_set s h k ch p" and f: "ch_rx_fifo ch = Some f" and a: "\<not> unat a < 8"
    and pk: "ipcmem_rx_peak f p (replicate 8 0) 8 = Some bs" and ad: "ipcmem_rx_advance f p 8 = Some p'"
  shows "ipclite_rx_data h a s = Some (Inr (), upd_partition k (\<lambda>_. p') (deliver (ch_remote_pid ch) (u64_of_bytes bs) s))
    \<and> chan_set (upd_partition k (\<lambda>_. p') (deliver (ch_remote_pid ch) (u64_of_bytes bs) s)) h k ch p'"
  using assms chan_set_partition[OF c] by (simp add: rx_data_eq rx_message_def chan_set_def)

lemma intr_loop_ok:
  assumes "chan_set s h k ch p" and "ch_rx_fifo ch = Some f" and "fifo_wf f p" and "length (fifo_contents f p) < fuel"
  shows "\<exists>s' p'. intr_loop ipclite_rx_data fuel h s = Some s' \<and> chan_set s' h k ch p' \<and> fifo_wf f p' \<and> fifo_contents f p' = []
    \<and> ii_channel s' = ii_channel s \<and> (\<forall>j. j \<noteq> k \<longrightarrow> ii_partition s' ! j = ii_partition s ! j) \<and> ii_mbox_log s' = ii_mbox_log s
    \<and> ii_delivered s' = ii_delivered s @ (if ii_synx_client s then map (Pair (ch_remote_pid ch)) (fifo_contents f p) else [])"
  using assms
proof (induction fuel arbitrary: s p)
  case (Suc fuel)
  obtain a where a: "ipcmem_rx_avail f p = Some a" "unat a = 8 * length (fifo_contents f p)" using rx_avail_ok[OF Suc.prems(3)] by blast
  note av = rx_avail_chan[OF Suc.prems(1,2)]
  show ?case
  proof (cases "fifo_contents f p")
    case Nil
    then show ?thesis using a av Suc.prems(1,3) by auto
  next
    case (Cons x xs)
    obtain bs p' where t: "ipcmem_rx_peak f p (replicate 8 0) 8 = Some bs" "u64_of_bytes bs = x" "ipcmem_rx_advance f p 8 = Some p'"
      "fifo_wf f p'" "fifo_contents f p' = xs"
      using rx_take_ok[OF Suc.prems(3) Cons] by blast
    have "\<not> unat a < 8" using a(2) Cons by simp
    note st = rx_data_step[OF Suc.prems(1,2) this t(1,3)]
    let ?s1 = "upd_partition k (\<lambda>_. p') (deliver (ch_remote_pid ch) (u64_of_bytes bs) s)"
    have "length (fifo_contents f p') < fuel" using Suc.prems(4) Cons t(5) by simp
    from Suc.IH[OF conjunct2[OF st] Suc.prems(2) t(4) this] show ?thesis
      using a av st Cons t(2,5) by (simp split del: if_split) (auto simp: nth_list_update)
  qed
qed simp

text \<open>C18: the interrupt handler on a well-formed FIFO ends, with one round per message and one to see that none is left; it empties the
  FIFO, hands every message to the registered client exactly once and in order, and changes nothing else.\<close>

theorem intr_correct:
  assumes "chan_set s h k ch p" and "ch_rx_fifo ch = Some f" and "fifo_wf f p" and "length (fifo_contents f p) < fuel"
  shows "\<exists>s'. ipclite_intr fuel IPCLITE_MSG_SIGNAL h s = Some s' \<and> fifo_contents f (ii_partition s' ! k) = [] \<and> fifo_wf f (ii_partition s' ! k)
    \<and> ii_delivered s' = ii_delivered s @ (if ii_synx_client s then map (Pair (ch_remote_pid ch)) (fifo_contents f p) else [])
    \<and> ii_channel s' = ii_channel s \<and> (\<forall>j. j \<noteq> k \<longrightarrow> ii_partition s' ! j = ii_partition s ! j) \<and> ii_mbox_log s' = ii_mbox_log s"
  using intr_loop_ok[OF assms] by (auto simp: ipclite_intr_def chan_set_def)

section \<open>An index outside the ring\<close>

text \<open>The other side has stored the length itself as its head, which \<open>ipcmem_rx_avail\<close> accepts.\<close>

definition fifo_stuck :: "ipclite_fifo \<Rightarrow> ipcmem_partition \<Rightarrow> bool" where
  "fifo_stuck f p \<longleftrightarrow> 8 dvd unat (ff_length f) \<and> unat (ff_length f) < 2 ^ 31 \<and> ff_head f \<noteq> ff_tail f \<and> ff_head f < length (ip_descs p) \<and> ff_tail f < length (ip_descs p)
     \<and> ip_descs p ! ff_head f = ff_length f \<and> 8 dvd unat (ip_descs p ! ff_tail f) \<and> ip_descs p ! ff_tail f < ff_length f
     \<and> ff_fifo f + unat (ff_length f) \<le> length (ip_mem p)"

lemma stuck_step:
  assumes s: "fifo_stuck f p"
  shows "\<exists>a bs p'. ipcmem_rx_avail f p = Some a \<and> \<not> unat a < 8 \<and> ipcmem_rx_peak f p (replicate 8 0) 8 = Some bs
    \<and> ipcmem_rx_advance f p 8 = Some p' \<and> fifo_stuck f p'"
proof -
  let ?t = "ip_descs p ! ff_tail f" and ?L = "ff_length f"
  note d = s[unfolded fifo_stuck_def]
  obtain n r where nr: "unat ?L = 8 * n" "unat ?t = 8 * r" using d by (auto elim!: dvdE)
  have rn: "r < n" "8 * n < 2 ^ 31" using d nr by (auto simp: word_less_nat_alt)
  have le: "?t \<le> ?L" "\<not> ?L < ?t" using rn nr by (simp_all add: word_le_nat_alt word_less_nat_alt)
  then have ul: "unat (?L - ?t) = 8 * n - 8 * r" using nr by (simp add: unat_sub)
  have "\<not> ?L - ?t > ?L" using ul nr by (simp add: word_less_nat_alt)
  then have av: "ipcmem_rx_avail f p = Some (?L - ?t)" using d le by (simp add: ipcmem_rx_avail_def Let_def)
  have pk: "ipcmem_rx_peak f p (replicate 8 0) 8 = Some (read_run (ip_mem p) (ff_fifo f + 8 * r) 8)"
    using d le ul nr rn by (simp add: ipcmem_rx_peak_def Let_def load_bytes_def word_le_nat_alt)
  have u8: "unat (?t + 8) = 8 * Suc r" using nr rn by (simp add: unat_word_ariths)
  have "\<exists>t'. ipcmem_rx_advance f p 8 = store_desc p (ff_tail f) t' \<and> 8 dvd unat t' \<and> t' < ?L"
  proof (cases "?t + 8 \<ge> ?L")
    case True
    then have "?t + 8 = ?L" using u8 nr rn by (intro unat_inj) (simp add: word_le_nat_alt)
    moreover have "?L \<noteq> 0" "0 < ?L" using nr rn by (auto simp: word_less_nat_alt)
    ultimately show ?thesis using d by (intro exI[of _ 0]) (simp add: ipcmem_rx_advance_def Let_def)
  next
    case False
    then show ?thesis using d u8 by (intro exI[of _ "?t + 8"]) (simp add: ipcmem_rx_advance_def Let_def)
  qed
  then obtain t' where "ipcmem_rx_advance f p 8 = Some (p\<lparr>ip_descs := (ip_descs p)[ff_tail f := t']\<rparr>)"
    "fifo_stuck f (p\<lparr>ip_descs := (ip_descs p)[ff_tail f := t']\<rparr>)"
    using d by (auto simp: store_desc_def fifo_stuck_def)
  then show ?thesis using av pk ul rn by auto
qed

text \<open>One round of the handler.\<close>

definition intr_round :: "nat \<Rightarrow> ipclite_info \<Rightarrow> ipclite_info option" where
  "intr_round h s = do { a \<leftarrow> ipclite_rx_avail h s; if unat a < 8 then None else map_option snd (ipclite_rx_data h a s) }"

lemma stuck_round:
  assumes "chan_set s h k ch p" and "ch_rx_fifo ch = Some f" and "fifo_stuck f p" and "ii_synx_client s"
  shows "\<exists>s' p'. intr_round h s = Some s' \<and> chan_set s' h k ch p' \<and> fifo_stuck f p' \<and> ii_synx_client s'
    \<and> length (ii_delivered s') = Suc (length (ii_delivered s))
    \<and> intr_loop ipclite_rx_data (Suc fuel) h s = intr_loop ipclite_rx_data fuel h s'"
proof -
  obtain a bs p' where t: "ipcmem_rx_avail f p = Some a" "\<not> unat a < 8" "ipcmem_rx_peak f p (replicate 8 0) 8 = Some bs"
    "ipcmem_rx_advance f p 8 = Some p'" "fifo_stuck f p'" using stuck_step[OF assms(3)] by blast
  note st = rx_data_step[OF assms(1,2) t(2-4)]
  then show ?thesis using rx_avail_chan[OF assms(1,2)] t assms(4) by (auto simp: intr_round_def)
qed

text \<open>if the other core leaves the length of the FIFO as its head index, the interrupt handler never returns: the index is not rejected (only one
  beyond the length is), the tail wraps before it reaches the head, and the handler hands the bytes of the ring to the client over and over.\<close>

theorem intr_hangs:
  assumes "chan_set s h k ch p" and "ch_rx_fifo ch = Some f" and "fifo_stuck f p" and "ii_synx_client s"
  shows "(\<forall>fuel. ipclite_intr fuel IPCLITE_MSG_SIGNAL h s = None)
    \<and> (\<forall>n. \<exists>s'. run_n n (intr_round h) s = Some s' \<and> length (ii_delivered s') = length (ii_delivered s) + n)"
proof (intro conjI allI)
  fix fuel
  show "ipclite_intr fuel IPCLITE_MSG_SIGNAL h s = None"
    unfolding ipclite_intr_def IPCLITE_MSG_SIGNAL_def using assms
  proof (induction fuel arbitrary: s p)
    case (Suc fuel)
    then show ?case using stuck_round[OF Suc.prems, of fuel] by (auto simp del: intr_loop.simps)
  qed simp
next
  fix n
  show "\<exists>s'. run_n n (intr_round h) s = Some s' \<and> length (ii_delivered s') = length (ii_delivered s) + n"
    using assms
  proof (induction n arbitrary: s p)
    case (Suc n)
    then show ?case using stuck_round[OF Suc.prems, of 0] by fastforce
  qed simp
qed

section \<open>A small instance\<close>

definition demo_fifo :: ipclite_fifo where
  "demo_fifo = \<lparr>ff_length = 32, ff_tail = 0, ff_head = 1, ff_fifo = 0\<rparr>"

definition demo_part :: "u32 \<Rightarrow> ipcmem_partition" where
  "demo_part v = \<lparr>ip_hdr = default_partition_hdr, ip_descs = [0, v, 0, 0], ip_mem = replicate 32 0\<rparr>"

definition demo_chan :: ipclite_channel where
  "demo_chan = \<lparr>ch_remote_pid = 5, ch_tx_fifo = Some demo_fifo, ch_rx_fifo = Some demo_fifo, ch_gstatus_ptr = Some 0, ch_status = ACTIVE\<rparr>"

definition demo_info :: "u32 \<Rightarrow> ipclite_info" where
  "demo_info v = \<lparr>ii_channel = replicate 9 demo_chan, ii_entries = [], ii_partition = [demo_part v], ii_global_entry = setup_global_partition 4096,
     ii_enabled_hosts = 0, ii_hwlock_owner = IPCMEM_INVALID_HOST, ii_hwlock_held = False, ii_hwlock_rc = (\<lambda>_. True), ii_hwlock_calls = 0,
     ii_feature_mask = 0, ii_synx_client = True, ii_test_client = False, ii_mbox_rc = (\<lambda>_. 0), ii_mbox_log = [], ii_delivered = [], ii_test_delivered = []\<rparr>"

lemma demo_chan_set: "h < 9 \<Longrightarrow> chan_set (demo_info v) h 0 demo_chan (demo_part v)"
  by (simp add: chan_set_def demo_info_def demo_chan_def)

lemma demo_fifo_wf: "v \<in> {0, 8} \<Longrightarrow> fifo_wf demo_fifo (demo_part v)"
  by (auto simp: fifo_wf_def demo_fifo_def demo_part_def)

lemma u64_of_zeros: "u64_of_bytes (replicate n 0) = 0"
  by (induction n) (simp_all add: u64_of_bytes_def)

lemma demo_contents: "fifo_contents demo_fifo (demo_part 0) = []" "fifo_contents demo_fifo (demo_part 8) = [0]"
proof -
  have n: "fifo_n demo_fifo = 4" by (simp add: fifo_n_def demo_fifo_def)
  have "fslot demo_fifo (demo_part 8) 0 = 0" by (simp add: fslot_def demo_fifo_def demo_part_def read_run_def u64_of_zeros)
  then show "fifo_contents demo_fifo (demo_part 0) = []" "fifo_contents demo_fifo (demo_part 8) = [0]"
    by (simp_all add: fifo_contents_def n fifo_rd_def fifo_wr_def ring_def) (simp_all add: demo_fifo_def demo_part_def)
qed

theorem msg_send_correct_witness:
  "\<exists>s'. ipclite_msg_send_v0 5 77 (demo_info 8) = Some (Inr (), s') \<and> fifo_contents demo_fifo (ii_partition s' ! 0) = [0, 77]"
proof -
  have "chan_open demo_chan (demo_part 8)" "ch_tx_fifo demo_chan = Some demo_fifo" "\<not> fifo_cap demo_fifo \<le> 1"
    by (simp_all add: chan_open_def demo_chan_def fifo_cap_def fifo_n_def demo_fifo_def)
  then show ?thesis using msg_send_correct[OF demo_chan_set, of 5 demo_fifo 8 77] demo_fifo_wf[of 8] demo_contents(2) by auto
qed

theorem intr_correct_witness:
  "\<exists>s'. ipclite_intr 2 IPCLITE_MSG_SIGNAL 5 (demo_info 8) = Some s' \<and> ii_delivered s' = [(5, 0)]"
proof -
  have "ii_synx_client (demo_info 8)" "ii_delivered (demo_info 8) = []" "ch_remote_pid demo_chan = 5" "ch_rx_fifo demo_chan = Some demo_fifo"
    by (simp_all add: demo_info_def demo_chan_def)
  then show ?thesis using intr_correct[OF demo_chan_set, of 5 demo_fifo 8 2] demo_fifo_wf[of 8] demo_contents(2) by auto
qed

theorem intr_hangs_witness: "ipclite_intr 1000 IPCLITE_MSG_SIGNAL 5 (demo_info 32) = None"
proof -
  have "fifo_stuck demo_fifo (demo_part 32)" by (simp add: fifo_stuck_def demo_fifo_def demo_part_def)
  moreover have "ch_rx_fifo demo_chan = Some demo_fifo" "ii_synx_client (demo_info 32)" by (simp_all add: demo_chan_def demo_info_def)
  ultimately show ?thesis using intr_hangs[OF demo_chan_set, of 5 demo_fifo 32] by simp
qed


section \<open>The partitions\<close>

lemma set_host_pairs:
  "set (host_pairs m) = {(a, b). a \<le> b \<and> b < 9 \<and> bit m a \<and> bit m b \<and> (a = b \<longrightarrow> a = 0)}"
proof (intro set_eqI iffI)
  fix x assume "x \<in> set (host_pairs m)"
  then show "x \<in> {(a, b). a \<le> b \<and> b < 9 \<and> bit m a \<and> bit m b \<and> (a = b \<longrightarrow> a = 0)}"
    by (auto simp: host_pairs_def is_host_enabled_def is_loopback_except_apps_def ipclite_consts split: if_splits)
next
  fix x assume "x \<in> {(a, b). a \<le> b \<and> b < 9 \<and> bit m a \<and> bit m b \<and> (a = b \<longrightarrow> a = 0)}"
  then obtain a b where x: "x = (a, b)" "a \<le> b" "b < 9" "bit m a" "bit m b" "a = b \<longrightarrow> a = 0" by auto
  show "x \<in> set (host_pairs m)" unfolding host_pairs_def set_concat set_map image_image
    by (rule UN_I[of a]) (use x in \<open>simp_all add: is_host_enabled_def is_loopback_except_apps_def ipclite_consts\<close>)
qed

lemma distinct_concat_map:
  assumes "distinct xs" and "\<And>x. distinct (g x)" and "\<And>x y. x \<noteq> y \<Longrightarrow> set (g x) \<inter> set (g y) = {}"
  shows "distinct (concat (map g xs))"
  using assms(1)
proof (induction xs)
  case (Cons a xs)
  then have "set (g a) \<inter> set (g y) = {}" if "y \<in> set xs" for y using that by (intro assms(3)) auto
  then show ?case using Cons assms(2) by auto
qed simp

lemma distinct_host_pairs: "distinct (host_pairs m)"
  unfolding host_pairs_def by (rule distinct_concat_map) (auto simp: distinct_map inj_on_def split: if_splits)

lemma length_host_pairs: "length (host_pairs m) \<le> 37"
proof -
  have "card {(a, b). a < (9 :: nat) \<and> b < (9 :: nat) \<and> a \<le> b \<and> (a = b \<longrightarrow> a = 0)} = length (filter (\<lambda>(a, b). a \<le> b \<and> (a = b \<longrightarrow> a = 0)) (List.product [0..<9] [0..<9 :: nat]))"
  proof -
    have "{(a, b). a < (9 :: nat) \<and> b < (9 :: nat) \<and> a \<le> b \<and> (a = b \<longrightarrow> a = 0)} = set (filter (\<lambda>(a, b). a \<le> b \<and> (a = b \<longrightarrow> a = 0)) (List.product [0..<9] [0..<9 :: nat]))" by auto
    moreover have "distinct (filter (\<lambda>(a, b). a \<le> b \<and> (a = b \<longrightarrow> a = 0)) (List.product [0..<9] [0..<9 :: nat]))"
      by (intro distinct_filter distinct_product distinct_upt)
    ultimately show ?thesis by (simp only: distinct_card)
  qed
  also have "\<dots> = 37" by code_simp
  finally have c: "card {(a, b). a < (9 :: nat) \<and> b < (9 :: nat) \<and> a \<le> b \<and> (a = b \<longrightarrow> a = 0)} = 37" .
  have "finite {(a, b). a < (9 :: nat) \<and> b < (9 :: nat) \<and> a \<le> b \<and> (a = b \<longrightarrow> a = 0)}"
    by (rule finite_subset[of _ "{..<9} \<times> {..<9}"]) auto
  then have "card (set (host_pairs m)) \<le> 37" using c card_mono[of _ "set (host_pairs m)"] by (fastforce simp: set_host_pairs)
  then show ?thesis by (simp add: distinct_card[OF distinct_host_pairs])
qed

lemma fill_entries_nth:
  assumes "k < length ps"
  shows "fill_entries ps b ! k = \<lparr>pe_base_offset = b + of_nat k * DEFAULT_PARTITION_SIZE, pe_size = DEFAULT_PARTITION_SIZE, pe_flags = DEFAULT_PARTITION_FLAGS,
     pe_host0 = of_nat (fst (ps ! k)), pe_host1 = of_nat (snd (ps ! k))\<rparr>"
  using assms
proof (induction ps b arbitrary: k rule: fill_entries.induct)
  case (2 a c ps b)
  then show ?case by (cases k) (simp_all add: algebra_simps)
qed simp

lemma length_fill_entries [simp]: "length (fill_entries ps b) = length ps"
  by (induction ps b rule: fill_entries.induct) simp_all

definition in_partition :: "ipcmem_partition_entry \<Rightarrow> nat \<Rightarrow> bool" where
  "in_partition e x \<longleftrightarrow> unat (pe_base_offset e) \<le> x \<and> x < unat (pe_base_offset e) + unat (pe_size e)"

definition entry_hosts :: "ipcmem_partition_entry \<Rightarrow> nat \<times> nat" where
  "entry_hosts e = (unat (pe_host0 e), unat (pe_host1 e))"

lemma ipcmem_init_eq:
  assumes "ipcmem_init nodes True s0 = (r, s)"
  shows "r = Inr ()" "ii_enabled_hosts s = enabled_of nodes 0 (ii_enabled_hosts s0)" "ii_entries s = fill_entries (host_pairs (ii_enabled_hosts s)) 0x21000"
    "ii_partition s = map update_partition (ii_entries s)" "ii_channel s = ii_channel s0" "ii_global_entry s = setup_global_partition 4096"
  using assms by (auto simp: ipcmem_init_def setup_partitions_def Let_def IPCMEM_TOC_SIZE_def GLOBAL_PARTITION_SIZE_def)

lemma entry_nth:
  assumes i: "ipcmem_init nodes True s0 = (r, s)" and k: "k < length (ii_entries s)"
  shows "k < 37" "entry_hosts (ii_entries s ! k) = host_pairs (ii_enabled_hosts s) ! k" "unat (pe_base_offset (ii_entries s ! k)) = 0x21000 + 32768 * k"
    "unat (pe_size (ii_entries s ! k)) = 32768" "fst (host_pairs (ii_enabled_hosts s) ! k) < 9" "snd (host_pairs (ii_enabled_hosts s) ! k) < 9"
proof -
  note e = ipcmem_init_eq[OF i]
  let ?ps = "host_pairs (ii_enabled_hosts s)"
  have l: "k < length ?ps" using k e(3) by simp
  then show k37: "k < 37" using length_host_pairs[of "ii_enabled_hosts s"] by simp
  have n: "ii_entries s ! k = \<lparr>pe_base_offset = 0x21000 + of_nat k * DEFAULT_PARTITION_SIZE, pe_size = DEFAULT_PARTITION_SIZE, pe_flags = DEFAULT_PARTITION_FLAGS,
     pe_host0 = of_nat (fst (?ps ! k)), pe_host1 = of_nat (snd (?ps ! k))\<rparr>" using fill_entries_nth[OF l] e(3) by simp
  have h: "?ps ! k \<in> set ?ps" using l by simp
  then show h9: "fst (?ps ! k) < 9" "snd (?ps ! k) < 9" unfolding set_host_pairs by (auto simp: case_prod_beta)
  show "entry_hosts (ii_entries s ! k) = ?ps ! k" using h9 n by (simp add: entry_hosts_def unat_of_nat)
  have "unat (0x21000 + of_nat k * 32768 :: u32) = 0x21000 + 32768 * k" using k37 by (simp add: unat_word_ariths unat_of_nat)
  then show "unat (pe_base_offset (ii_entries s ! k)) = 0x21000 + 32768 * k" "unat (pe_size (ii_entries s ! k)) = 32768"
    using n by (simp_all add: DEFAULT_PARTITION_SIZE_def)
qed

text \<open>the shared memory after initialisation. There is exactly one partition per pair of different enabled hosts, and one for the
  application processor with itself; partitions are disjoint from each other, from the global partition and from the table of contents; and the
  partition entries, at most 37, fit in the 4 KiB of the table of contents.\<close>

theorem partitions_correct:
  assumes "ipcmem_init nodes True s0 = (r, s)"
  shows "r = Inr () \<and> distinct (map entry_hosts (ii_entries s))
    \<and> set (map entry_hosts (ii_entries s)) = {(a, b). a \<le> b \<and> b < 9 \<and> bit (ii_enabled_hosts s) a \<and> bit (ii_enabled_hosts s) b \<and> (a = b \<longrightarrow> a = 0)}
    \<and> (\<forall>i j x. i < length (ii_entries s) \<and> j < length (ii_entries s) \<and> i \<noteq> j \<longrightarrow> \<not> (in_partition (ii_entries s ! i) x \<and> in_partition (ii_entries s ! j) x))
    \<and> (\<forall>e x. e \<in> set (ii_entries s) \<longrightarrow> \<not> (in_partition e x \<and> (in_partition (ii_global_entry s) x \<or> x < unat IPCMEM_TOC_SIZE)))
    \<and> unat (io_partition_entry setup_toc) + 24 * length (ii_entries s) \<le> unat IPCMEM_TOC_SIZE"
proof -
  note e = ipcmem_init_eq[OF assms] and n = entry_nth[OF assms]
  have hs: "map entry_hosts (ii_entries s) = host_pairs (ii_enabled_hosts s)"
    using e(3) n(2) by (intro nth_equalityI) simp_all
  have "\<not> (in_partition (ii_entries s ! i) x \<and> in_partition (ii_entries s ! j) x)"
    if "i < length (ii_entries s)" "j < length (ii_entries s)" "i \<noteq> j" for i j x
    using n(3,4)[OF that(1)] n(3,4)[OF that(2)] that(3) by (auto simp: in_partition_def)
  moreover have "\<not> (in_partition f x \<and> (in_partition (ii_global_entry s) x \<or> x < unat IPCMEM_TOC_SIZE))" if f: "f \<in> set (ii_entries s)" for f x
  proof -
    obtain k where "k < length (ii_entries s)" "f = ii_entries s ! k" using f by (metis in_set_conv_nth)
    then show ?thesis using n(3) e(6) by (auto simp: in_partition_def setup_global_partition_def IPCMEM_TOC_SIZE_def GLOBAL_PARTITION_SIZE_def)
  qed
  moreover have "length (ii_entries s) \<le> 37" using length_host_pairs e(3) by simp
  then have "unat (io_partition_entry setup_toc) + 24 * length (ii_entries s) \<le> unat IPCMEM_TOC_SIZE"
    by (simp add: setup_toc_def IPCMEM_TOC_VAR_OFFSET_def IPCMEM_TOC_SIZE_def)
  ultimately show ?thesis unfolding hs using e(1) distinct_host_pairs set_host_pairs by (intro conjI allI impI) (assumption | simp | blast)+
qed

theorem partitions_correct_witness:
  "set (map entry_hosts (ii_entries (snd (ipcmem_init [Some 0, Some 5] True (demo_info 0))))) =
     {(a, b). a \<le> b \<and> b < 9 \<and> bit (33 :: u32) a \<and> bit (33 :: u32) b \<and> (a = b \<longrightarrow> a = 0)}"
proof -
  obtain r s where i: "ipcmem_init [Some 0, Some 5] True (demo_info 0) = (r, s)" by (cases "ipcmem_init [Some 0, Some 5] True (demo_info 0)")
  have "ii_enabled_hosts s = 33" using ipcmem_init_eq(2)[OF i] by (simp add: demo_info_def IPCMEM_NUM_HOSTS_def)
  then show ?thesis using partitions_correct[OF i] i by simp
qed

section \<open>Setting up the channels\<close>

text \<open>The FIFOs \<open>(tx, rx)\<close> of host \<open>a\<close> in its partition with host \<open>b\<close>.\<close>

definition end_fifos :: "nat \<Rightarrow> nat \<Rightarrow> ipclite_fifo \<times> ipclite_fifo" where
  "end_fifos a b = chan_fifos (of_nat a) (of_nat b) (if a = b then loopback_partition_hdr else default_partition_hdr)"

text \<open>The channel to host \<open>r\<close> is ready for use: the state the code leaves it in, with well-formed and empty FIFOs.\<close>

definition chan_done :: "ipclite_info \<Rightarrow> nat \<Rightarrow> bool" where
  "chan_done s r \<longleftrightarrow> (\<exists>k p. chan_set s r k \<lparr>ch_remote_pid = of_nat r, ch_tx_fifo = Some (fst (end_fifos 0 r)), ch_rx_fifo = Some (snd (end_fifos 0 r)),
       ch_gstatus_ptr = Some k, ch_status = (if r = 0 then ACTIVE else IN_PROGRESS)\<rparr> p
     \<and> k < length (ii_entries s) \<and> entry_hosts (ii_entries s ! k) = (0, r) \<and> ph_status (ip_hdr p) = (if r = 0 then ACTIVE else IN_PROGRESS)
     \<and> fifo_wf (fst (end_fifos 0 r)) p \<and> fifo_contents (fst (end_fifos 0 r)) p = []
     \<and> fifo_wf (snd (end_fifos 0 r)) p \<and> fifo_contents (snd (end_fifos 0 r)) p = [])"

definition init_inv :: "u32 \<Rightarrow> nat set \<Rightarrow> ipclite_info \<Rightarrow> bool" where
  "init_inv m P s \<longleftrightarrow> ii_entries s = fill_entries (host_pairs m) 0x21000 \<and> length (ii_partition s) = length (ii_entries s) \<and> length (ii_channel s) = 9
     \<and> (\<forall>k < length (ii_entries s). snd (host_pairs m ! k) \<in> P \<longrightarrow> ii_partition s ! k = update_partition (ii_entries s ! k))"

lemma end_fifos_eval:
  "r \<noteq> 0 \<Longrightarrow> r < 9 \<Longrightarrow> end_fifos 0 r = (\<lparr>ff_length = 8192, ff_tail = 0, ff_head = 1, ff_fifo = 4096\<rparr>, \<lparr>ff_length = 8192, ff_tail = 2, ff_head = 3, ff_fifo = 12288\<rparr>)"
  "r \<noteq> 0 \<Longrightarrow> r < 9 \<Longrightarrow> end_fifos r 0 = (\<lparr>ff_length = 8192, ff_tail = 2, ff_head = 3, ff_fifo = 12288\<rparr>, \<lparr>ff_length = 8192, ff_tail = 0, ff_head = 1, ff_fifo = 4096\<rparr>)"
  "end_fifos 0 0 = (\<lparr>ff_length = 8192, ff_tail = 2, ff_head = 3, ff_fifo = 4096\<rparr>, \<lparr>ff_length = 8192, ff_tail = 2, ff_head = 3, ff_fifo = 4096\<rparr>)"
proof -
  show "r \<noteq> 0 \<Longrightarrow> r < 9 \<Longrightarrow> end_fifos 0 r = (\<lparr>ff_length = 8192, ff_tail = 0, ff_head = 1, ff_fifo = 4096\<rparr>, \<lparr>ff_length = 8192, ff_tail = 2, ff_head = 3, ff_fifo = 12288\<rparr>)"
  proof -
    assume "r \<noteq> 0" "r < 9"
    then have "(0 :: u32) < of_nat r" by (simp add: word_less_nat_alt unat_of_nat)
    then show ?thesis using \<open>r \<noteq> 0\<close> by (simp add: end_fifos_def chan_fifos_def default_partition_hdr_def LOOPBACK_PARTITION_TYPE_def)
  qed
qed (simp_all add: end_fifos_def chan_fifos_def default_partition_hdr_def loopback_partition_hdr_def LOOPBACK_PARTITION_TYPE_def)

lemma fresh_fifo:
  assumes "ff_length f = 8192" and "ff_head f \<noteq> ff_tail f" and "ff_head f < 4" "ff_tail f < 4" and "ff_fifo f \<le> 12288"
    and "ip_descs p = replicate 768 0" and "length (ip_mem p) = 32768"
  shows "fifo_wf f p" "fifo_contents f p = []"
proof -
  have "ip_descs p ! ff_head f = 0" "ip_descs p ! ff_tail f = 0" "length (ip_descs p) = 768" using assms(3,4,6) by simp_all
  then show "fifo_wf f p" "fifo_contents f p = []" using assms(1-5,7)
    by (simp_all add: fifo_wf_def fifo_contents_def fifo_n_def fifo_rd_def fifo_wr_def ring_def)
qed

lemma find_index:
  assumes "k < n" and "P k" and "\<And>j. j < n \<Longrightarrow> P j \<Longrightarrow> j = k"
  shows "List.find P [0..<n] = Some k"
proof -
  have "\<not> P j" if "j < k" for j using that assms(1,3) by (metis less_irrefl less_trans)
  then show ?thesis unfolding find_Some_iff using assms(1,2) by (intro exI[of _ k]) simp
qed

lemma partition_found:
  assumes s: "ii_entries s = fill_entries (host_pairs m) 0x21000" and r: "bit m 0" "bit m r" "r < 9"
  shows "\<exists>k. get_ipcmem_partition_hdr s 0 (of_nat r) = Some k \<and> k < length (host_pairs m) \<and> host_pairs m ! k = (0, r)"
proof -
  have "(0, r) \<in> set (host_pairs m)" using r by (simp add: set_host_pairs)
  then obtain k where k: "k < length (host_pairs m)" "host_pairs m ! k = (0, r)" by (metis in_set_conv_nth)
  have h9: "fst (host_pairs m ! j) < 9 \<and> snd (host_pairs m ! j) < 9" if "j < length (host_pairs m)" for j
  proof -
    have "host_pairs m ! j \<in> set (host_pairs m)" using that by simp
    then show ?thesis unfolding set_host_pairs by auto
  qed
  have "j = k" if "j < length (ii_entries s)" "pe_host0 (ii_entries s ! j) = of_nat 0 \<and> pe_host1 (ii_entries s ! j) = of_nat r" for j
  proof -
    have j: "j < length (host_pairs m)" using that(1) s by simp
    have "unat (of_nat (fst (host_pairs m ! j)) :: u32) = 0" "unat (of_nat (snd (host_pairs m ! j)) :: u32) = unat (of_nat r :: u32)"
      using that(2) fill_entries_nth[OF j] s by simp_all
    then have "host_pairs m ! j = (0, r)" using h9[OF j] r(3) by (simp add: unat_of_nat prod_eq_iff)
    then show ?thesis using nth_eq_iff_index_eq[OF distinct_host_pairs j k(1)] k(2) by simp
  qed
  moreover have "pe_host0 (ii_entries s ! k) = of_nat 0 \<and> pe_host1 (ii_entries s ! k) = of_nat r" using fill_entries_nth[OF k(1)] k(2) s by simp
  ultimately have "get_ipcmem_partition_hdr s 0 (of_nat r) = Some k"
    unfolding get_ipcmem_partition_hdr_def by (intro find_index) (simp_all add: s k(1))
  then show ?thesis using k by blast
qed

lemma end_fifos_idx:
  assumes "r < 9"
  shows "ff_length (fst (end_fifos 0 r)) = 8192" "ff_length (snd (end_fifos 0 r)) = 8192" "ff_head (fst (end_fifos 0 r)) \<noteq> ff_tail (fst (end_fifos 0 r))"
    "ff_head (snd (end_fifos 0 r)) \<noteq> ff_tail (snd (end_fifos 0 r))" "ff_head (fst (end_fifos 0 r)) < 4" "ff_tail (fst (end_fifos 0 r)) < 4"
    "ff_head (snd (end_fifos 0 r)) < 4" "ff_tail (snd (end_fifos 0 r)) < 4" "ff_fifo (fst (end_fifos 0 r)) \<le> 12288" "ff_fifo (snd (end_fifos 0 r)) \<le> 12288"
  using end_fifos_eval(1)[of r] end_fifos_eval(3) assms by (cases "r = 0"; simp)+

lemma channel_init_step:
  assumes inv: "init_inv m P s" and r: "bit m 0" "bit m r" "r < 9" "r \<in> P"
  shows "\<exists>s'. ipclite_channel_init None (Inr (of_nat r)) True None s = Some (Inr (), s') \<and> init_inv m (P - {r}) s' \<and> chan_done s' r
    \<and> (\<forall>q. q \<noteq> r \<longrightarrow> chan_done s q \<longrightarrow> chan_done s' q)"
proof -
  have en: "ii_entries s = fill_entries (host_pairs m) 0x21000" and ln: "length (ii_partition s) = length (ii_entries s)" "length (ii_channel s) = 9"
    using inv by (simp_all add: init_inv_def)
  have fr: "ii_partition s ! j = update_partition (ii_entries s ! j)" if "j < length (ii_entries s)" "snd (host_pairs m ! j) \<in> P" for j
    using inv that unfolding init_inv_def by blast
  obtain k where k: "get_ipcmem_partition_hdr s 0 (of_nat r) = Some k" "k < length (host_pairs m)" "host_pairs m ! k = (0, r)"
    using partition_found[OF en r(1-3)] by blast
  have ur: "unat (of_nat r :: u32) = r" using r(3) by (simp add: unat_of_nat)
  have l: "k < length (ii_entries s)" "k < length (ii_partition s)" "r < length (ii_channel s)" using k(2) ln r(3) by (simp_all add: en)
  let ?p = "ii_partition s ! k" and ?tx = "fst (end_fifos 0 r)" and ?rx = "snd (end_fifos 0 r)" and ?st = "if r = 0 then ACTIVE else IN_PROGRESS"
  have e: "ii_entries s ! k = \<lparr>pe_base_offset = 0x21000 + of_nat k * DEFAULT_PARTITION_SIZE, pe_size = DEFAULT_PARTITION_SIZE, pe_flags = DEFAULT_PARTITION_FLAGS,
     pe_host0 = 0, pe_host1 = of_nat r\<rparr>" using fill_entries_nth[OF k(2)] en k(3) by simp
  have r0: "(0 :: u32) = of_nat r \<longleftrightarrow> 0 = r" using ur by (cases "r = 0") (auto dest: arg_cong[where f = unat])
  have p: "?p = \<lparr>ip_hdr = (if 0 = r then loopback_partition_hdr else default_partition_hdr), ip_descs = replicate 768 0, ip_mem = replicate 32768 0\<rparr>"
    using fr[OF l(1)] k(3) r(4) e r0 by (simp add: update_partition_def DEFAULT_PARTITION_SIZE_def)
  have cf: "chan_fifos (of_nat IPCMEM_APPS) (of_nat r) (ip_hdr ?p) = (?tx, ?rx)"
    using p by (simp add: end_fifos_def IPCMEM_APPS_def)
  note fi = end_fifos_idx[OF r(3)]
  have sd: "store_desc ?p (ff_tail ?rx) 0 = Some ?p" "store_desc ?p (ff_head ?tx) 0 = Some ?p"
    using fi unfolding p by (simp_all add: store_desc_def list_update_same_conv)
  define ch where "ch = \<lparr>ch_remote_pid = of_nat r, ch_tx_fifo = Some ?tx, ch_rx_fifo = Some ?rx, ch_gstatus_ptr = Some k, ch_status = ?st\<rparr>"
  define s' where "s' = s\<lparr>ii_channel := (ii_channel s)[r := ch], ii_partition := (ii_partition s)[k := set_gstatus ?st ?p]\<rparr>"
  have "ipclite_channel_init None (Inr (of_nat r)) True None s = Some (Inr (), s')"
    using k(1) l cf sd ur
    by (cases "ii_channel s ! r") (simp add: ipclite_channel_init_def IPCMEM_APPS_def s'_def ch_def upd_channel_def upd_partition_def Let_def
      case_prod_beta split del: if_split)
  moreover have "init_inv m (P - {r}) s'"
  proof -
    have "ii_partition s' ! j = update_partition (ii_entries s' ! j)" if "j < length (ii_entries s')" "snd (host_pairs m ! j) \<in> P - {r}" for j
    proof -
      have "j \<noteq> k" using that(2) k(3) by auto
      then show ?thesis using fr[of j] that by (simp add: s'_def)
    qed
    moreover have "ii_entries s' = fill_entries (host_pairs m) 0x21000" "length (ii_partition s') = length (ii_entries s')" "length (ii_channel s') = 9"
      using ln by (simp_all add: s'_def flip: en)
    ultimately show ?thesis unfolding init_inv_def by blast
  qed
  moreover have "chan_done s' r"
    unfolding chan_done_def
  proof (intro exI conjI)
    show "chan_set s' r k \<lparr>ch_remote_pid = of_nat r, ch_tx_fifo = Some ?tx, ch_rx_fifo = Some ?rx, ch_gstatus_ptr = Some k, ch_status = ?st\<rparr> (set_gstatus ?st ?p)"
      using l by (simp add: chan_set_def s'_def ch_def)
    show "entry_hosts (ii_entries s' ! k) = (0, r)" using e ur by (simp add: s'_def entry_hosts_def)
    have f: "ip_descs (set_gstatus ?st ?p) = replicate 768 0" "length (ip_mem (set_gstatus ?st ?p)) = 32768" unfolding p by (simp_all add: set_gstatus_def)
    show "fifo_wf ?tx (set_gstatus ?st ?p)" "fifo_contents ?tx (set_gstatus ?st ?p) = []"
      using fresh_fifo[OF fi(1,3,5,6,9) f] by simp_all
    show "fifo_wf ?rx (set_gstatus ?st ?p)" "fifo_contents ?rx (set_gstatus ?st ?p) = []"
      using fresh_fifo[OF fi(2,4,7,8,10) f] by simp_all
  qed (use l in \<open>simp_all add: s'_def set_gstatus_def\<close>)
  moreover have "chan_done s' q" if q: "q \<noteq> r" "chan_done s q" for q
  proof -
    obtain k' p' where d: "chan_set s q k' \<lparr>ch_remote_pid = of_nat q, ch_tx_fifo = Some (fst (end_fifos 0 q)), ch_rx_fifo = Some (snd (end_fifos 0 q)),
       ch_gstatus_ptr = Some k', ch_status = (if q = 0 then ACTIVE else IN_PROGRESS)\<rparr> p'" "k' < length (ii_entries s)" "entry_hosts (ii_entries s ! k') = (0, q)"
      "ph_status (ip_hdr p') = (if q = 0 then ACTIVE else IN_PROGRESS)"
      "fifo_wf (fst (end_fifos 0 q)) p'" "fifo_contents (fst (end_fifos 0 q)) p' = []" "fifo_wf (snd (end_fifos 0 q)) p'" "fifo_contents (snd (end_fifos 0 q)) p' = []"
      using q(2) unfolding chan_done_def by blast
    have "k' \<noteq> k" using d(3) e q(1) ur by (auto simp: entry_hosts_def)
    then have "chan_set s' q k' \<lparr>ch_remote_pid = of_nat q, ch_tx_fifo = Some (fst (end_fifos 0 q)), ch_rx_fifo = Some (snd (end_fifos 0 q)),
       ch_gstatus_ptr = Some k', ch_status = (if q = 0 then ACTIVE else IN_PROGRESS)\<rparr> p'" using d(1) q(1) by (simp add: chan_set_def s'_def)
    moreover have "ii_entries s' = ii_entries s" by (simp add: s'_def)
    ultimately show ?thesis unfolding chan_done_def using d(2-8) by (intro exI[of _ k'] exI[of _ p']) simp
  qed
  ultimately show ?thesis by blast
qed

definition good_nodes :: "nat list \<Rightarrow> (errno option \<times> (errno + u32) \<times> bool \<times> errno option) list" where
  "good_nodes pids = map (\<lambda>r. (None, Inr (of_nat r), True, None)) pids"

lemma probe_ok:
  assumes "init_inv m P s" and "bit m 0" and "distinct pids" and "\<forall>r \<in> set pids. bit m r \<and> r < 9 \<and> r \<in> P"
  shows "\<exists>s'. probe_subsystems (good_nodes pids) s = Some s' \<and> (\<forall>r. r \<in> set pids \<or> chan_done s r \<and> r \<notin> set pids \<longrightarrow> chan_done s' r)"
  using assms
proof (induction pids arbitrary: s P)
  case Nil
  then show ?case by (simp add: good_nodes_def)
next
  case (Cons r pids)
  obtain s1 where s1: "ipclite_channel_init None (Inr (of_nat r)) True None s = Some (Inr (), s1)" "init_inv m (P - {r}) s1" "chan_done s1 r"
    "\<forall>q. q \<noteq> r \<longrightarrow> chan_done s q \<longrightarrow> chan_done s1 q"
    using channel_init_step[OF Cons.prems(1,2), of r] Cons.prems(4) by auto
  have "\<forall>q \<in> set pids. bit m q \<and> q < 9 \<and> q \<in> P - {r}" using Cons.prems(3,4) by auto
  from Cons.IH[OF s1(2) Cons.prems(2) _ this] Cons.prems(3) obtain s2 where
    "probe_subsystems (good_nodes pids) s1 = Some s2" "\<forall>q. q \<in> set pids \<or> chan_done s1 q \<and> q \<notin> set pids \<longrightarrow> chan_done s2 q" by auto
  then show ?case using s1 Cons.prems(3) by (auto simp: good_nodes_def)
qed

lemma enabled_of_bit:
  "\<forall>r \<in> set pids. r < 9 \<Longrightarrow> bit (enabled_of (map (\<lambda>r. Some (of_nat r)) pids) x e) j \<longleftrightarrow> bit e j \<or> j \<in> set pids"
proof (induction pids arbitrary: x e)
  case (Cons r pids)
  have "unat (of_nat r :: u32) = r" using Cons.prems by (simp add: unat_of_nat)
  then show ?case using Cons by (auto simp: IPCMEM_NUM_HOSTS_def bit_or_iff bit_exp_iff)
qed simp

text \<open>initialisation for a device tree that lists the application processor and other hosts, each once. Every listed channel ends up with
  well-formed empty FIFOs in the partition of the two hosts and in the state the protocol prescribes (the loopback channel active, the others awaiting
  the other side); the two ends of a partition use the same FIFOs in opposite roles, and do not share FIFO bytes or index words.\<close>

theorem channels_init_correct:
  assumes "distinct pids" and "\<forall>r \<in> set pids. r < 9" and "0 \<in> set pids" and "length (ii_channel s0) = 9" and "ii_enabled_hosts s0 = 0"
    and "ipcmem_init (map (\<lambda>r. Some (of_nat r)) pids) True s0 = (rc, s)"
  shows "(\<exists>s'. probe_subsystems (good_nodes pids) s = Some s' \<and> (\<forall>r \<in> set pids. chan_done s' r))
    \<and> fst (end_fifos 0 0) = snd (end_fifos 0 0)
    \<and> (\<forall>r. 0 < r \<and> r < 9 \<longrightarrow> (let (tx, rx) = end_fifos 0 r in end_fifos r 0 = (rx, tx) \<and> ff_fifo tx + unat (ff_length tx) \<le> ff_fifo rx
         \<and> {ff_head tx, ff_tail tx} \<inter> {ff_head rx, ff_tail rx} = {}))"
proof -
  note e = ipcmem_init_eq[OF assms(6)]
  have b: "bit (ii_enabled_hosts s) r \<longleftrightarrow> r \<in> set pids" for r
    unfolding e(2) assms(5) using enabled_of_bit[OF assms(2)] by simp
  have "init_inv (ii_enabled_hosts s) (set pids) s" using e(3-5) assms(4) by (simp add: init_inv_def)
  from probe_ok[OF this _ assms(1)] have "\<exists>s'. probe_subsystems (good_nodes pids) s = Some s' \<and> (\<forall>r \<in> set pids. chan_done s' r)"
    using b assms(2,3) by auto
  then show ?thesis using end_fifos_eval by auto
qed

theorem channels_init_correct_witness:
  "\<exists>s'. probe_subsystems (good_nodes [0, 5]) (snd (ipcmem_init (map (\<lambda>r. Some (of_nat r)) [0, 5]) True (demo_info 0))) = Some s' \<and> chan_done s' 5"
proof -
  obtain rc s where i: "ipcmem_init (map (\<lambda>r. Some (of_nat r)) [0, 5]) True (demo_info 0) = (rc, s)" by (metis surj_pair)
  have "length (ii_channel (demo_info 0)) = 9" "ii_enabled_hosts (demo_info 0) = 0" by (simp_all add: demo_info_def)
  then show ?thesis using channels_init_correct[OF _ _ _ _ _ i] i by auto
qed


section \<open>Recovery of a crashed core\<close>

definition involves :: "nat \<Rightarrow> ipcmem_partition_entry \<Rightarrow> bool" where
  "involves c e \<longleftrightarrow> pe_host0 e = of_nat c \<or> pe_host1 e = of_nat c"

text \<open>What recovery leaves alone, and the mutex it leaves free.\<close>

definition rec_frame :: "ipclite_info \<Rightarrow> ipclite_info \<Rightarrow> bool" where
  "rec_frame s s' \<longleftrightarrow> ii_channel s' = ii_channel s \<and> ii_entries s' = ii_entries s \<and> ii_enabled_hosts s' = ii_enabled_hosts s \<and> ii_mbox_log s' = ii_mbox_log s
     \<and> ii_mbox_rc s' = ii_mbox_rc s"

definition mutex_free :: "nat \<Rightarrow> bool \<Rightarrow> ipclite_info \<Rightarrow> bool" where
  "mutex_free c owned s \<longleftrightarrow> ii_hwlock_owner s \<noteq> of_nat c \<and> (owned \<longrightarrow> \<not> ii_hwlock_held s)"

lemma rec_frame_trans: "rec_frame s s' \<Longrightarrow> rec_frame s' s'' \<Longrightarrow> rec_frame s s''"
  by (simp add: rec_frame_def)

lemma global_atomic_upd:
  assumes "0 < c" and "c < 9" and "mutex_free c owned s"
  shows "ii_partition (global_atomic (upd_partition k g) s) = (ii_partition s)[k := g (ii_partition s ! k)]
    \<and> rec_frame s (global_atomic (upd_partition k g) s) \<and> mutex_free c owned (global_atomic (upd_partition k g) s)"
proof -
  have "(of_nat c :: u32) \<noteq> 0" "(of_nat c :: u32) \<noteq> 0xFF"
    using assms(1,2) by (auto simp: word_unat_eq_iff unat_of_nat)
  then show ?thesis using assms(3)
    by (auto simp: global_atomic_def ipclite_hw_mutex_acquire_def ipclite_hw_mutex_release_def upd_partition_def Let_def rec_frame_def mutex_free_def
        IPCMEM_APPS_def IPCMEM_INVALID_HOST_def)
qed

lemma recover_fold:
  assumes c: "0 < c" "c < 9" and "mutex_free c owned s" and "n \<le> length (ii_partition s)"
  shows "length (ii_partition (fold (recover_partition c) [0..<n] s)) = length (ii_partition s)
    \<and> (\<forall>j. ii_partition (fold (recover_partition c) [0..<n] s) ! j
        = (if j < n \<and> involves c (ii_entries s ! j) then set_gstatus 0 (ii_partition s ! j) else ii_partition s ! j))
    \<and> rec_frame s (fold (recover_partition c) [0..<n] s) \<and> mutex_free c owned (fold (recover_partition c) [0..<n] s)"
  using assms(4)
proof (induction n)
  case 0
  then show ?case using assms(3) by (simp add: rec_frame_def)
next
  case (Suc n)
  let ?s = "fold (recover_partition c) [0..<n] s"
  have ih: "length (ii_partition ?s) = length (ii_partition s)"
    "\<forall>j. ii_partition ?s ! j = (if j < n \<and> involves c (ii_entries s ! j) then set_gstatus 0 (ii_partition s ! j) else ii_partition s ! j)"
    "rec_frame s ?s" "mutex_free c owned ?s" using Suc by auto
  have en: "ii_entries ?s = ii_entries s" using ih(3) by (simp add: rec_frame_def)
  note g = global_atomic_upd[OF c ih(4), of n "set_gstatus 0"]
  show ?case
  proof (cases "involves c (ii_entries s ! n)")
    case True
    then have st: "fold (recover_partition c) [0..<Suc n] s = global_atomic (upd_partition n (set_gstatus 0)) ?s"
      using en by (auto simp: recover_partition_def involves_def)
    have "ii_partition (global_atomic (upd_partition n (set_gstatus 0)) ?s) ! j
        = (if j < Suc n \<and> involves c (ii_entries s ! j) then set_gstatus 0 (ii_partition s ! j) else ii_partition s ! j)" for j
      using g ih(1,2) Suc.prems True by (auto simp: nth_list_update less_Suc_eq)
    then show ?thesis unfolding st using g ih rec_frame_trans[OF ih(3)] by simp
  next
    case False
    then have st: "fold (recover_partition c) [0..<Suc n] s = ?s" using en by (auto simp: recover_partition_def involves_def)
    show ?thesis unfolding st using ih False by (auto simp: less_Suc_eq)
  qed
qed

text \<open>The hosts that are told.\<close>

definition open_host :: "ipclite_info \<Rightarrow> nat \<Rightarrow> bool" where
  "open_host s h \<longleftrightarrow> chan_open (ii_channel s ! h) (ii_partition s ! the (ch_gstatus_ptr (ii_channel s ! h)))"

definition known_host :: "ipclite_info \<Rightarrow> nat \<Rightarrow> bool" where
  "known_host s h \<longleftrightarrow> (\<exists>k ch p. chan_set s h k ch p)"

lemma notify_core_ok:
  assumes "known_host s h" and "h < 9"
  shows "\<exists>r s'. ipclite_notify_core (int h) sig s = Some (r, s') \<and> ii_partition s' = ii_partition s \<and> ii_entries s' = ii_entries s
    \<and> ii_mbox_log s' = ii_mbox_log s @ (if open_host s h then [(h, sig)] else []) \<and> length (ii_channel s') = length (ii_channel s)
    \<and> (\<forall>j. j \<noteq> h \<longrightarrow> ii_channel s' ! j = ii_channel s ! j) \<and> mutex_free c owned s' = mutex_free c owned s"
proof -
  obtain k ch p where c: "chan_set s h k ch p" using assms(1) by (auto simp: known_host_def)
  have o: "open_host s h \<longleftrightarrow> chan_open ch p" using c by (auto simp: open_host_def chan_set_def)
  show ?thesis using chan_ready_ok[OF c] assms(2) o
    by (cases "chan_open ch p") (simp_all add: ipclite_notify_core_def IPCMEM_NUM_HOSTS_def mbox_send_def upd_channel_def mutex_free_def)
qed

lemma known_host_other:
  assumes "ii_partition s' = ii_partition s" and "length (ii_channel s') = length (ii_channel s)" and "ii_channel s' ! h = ii_channel s ! h"
  shows "known_host s' h = known_host s h" "open_host s' h = open_host s h"
  using assms by (auto simp: known_host_def chan_set_def open_host_def)

lemma notify_hosts_ok:
  assumes "distinct hs" and "\<forall>h \<in> set hs. known_host s h \<and> h < 9"
  shows "\<exists>s'. notify_hosts hs sig s = Some s' \<and> ii_partition s' = ii_partition s \<and> ii_entries s' = ii_entries s
    \<and> ii_mbox_log s' = ii_mbox_log s @ map (\<lambda>h. (h, sig)) (filter (open_host s) hs)
    \<and> (\<forall>j. j \<notin> set hs \<longrightarrow> ii_channel s' ! j = ii_channel s ! j) \<and> length (ii_channel s') = length (ii_channel s) \<and> mutex_free c owned s' = mutex_free c owned s"
  using assms
proof (induction hs arbitrary: s)
  case (Cons h hs)
  obtain r s1 where s1: "ipclite_notify_core (int h) sig s = Some (r, s1)" "ii_partition s1 = ii_partition s" "ii_entries s1 = ii_entries s"
    "ii_mbox_log s1 = ii_mbox_log s @ (if open_host s h then [(h, sig)] else [])" "length (ii_channel s1) = length (ii_channel s)"
    "\<forall>j. j \<noteq> h \<longrightarrow> ii_channel s1 ! j = ii_channel s ! j" "mutex_free c owned s1 = mutex_free c owned s"
    using notify_core_ok[of s h sig c owned] Cons.prems(2) by auto
  have ne: "q \<noteq> h" if "q \<in> set hs" for q using that Cons.prems(1) by auto
  have kn: "known_host s1 q = known_host s q" "open_host s1 q = open_host s q" if "q \<in> set hs" for q
    using known_host_other[OF s1(2,5)] s1(6) ne[OF that] by auto
  have "\<forall>q \<in> set hs. known_host s1 q \<and> q < 9" using Cons.prems(2) kn by auto
  from Cons.IH[OF _ this] Cons.prems(1) obtain s' where s': "notify_hosts hs sig s1 = Some s'" "ii_partition s' = ii_partition s1" "ii_entries s' = ii_entries s1"
    "ii_mbox_log s' = ii_mbox_log s1 @ map (\<lambda>h. (h, sig)) (filter (open_host s1) hs)"
    "\<forall>j. j \<notin> set hs \<longrightarrow> ii_channel s' ! j = ii_channel s1 ! j" "length (ii_channel s') = length (ii_channel s1)" "mutex_free c owned s' = mutex_free c owned s1" by auto
  moreover have "filter (open_host s1) hs = filter (open_host s) hs" using kn by (intro filter_cong) auto
  ultimately show ?case using s1 by simp
qed simp

text \<open>The application processor has channels to core \<open>c\<close> and to all other enabled hosts, each in its own partition.\<close>

definition recoverable :: "ipclite_info \<Rightarrow> nat \<Rightarrow> nat \<Rightarrow> ipclite_channel \<Rightarrow> ipcmem_partition \<Rightarrow> ipclite_fifo \<Rightarrow> ipclite_fifo \<Rightarrow> bool" where
  "recoverable s c k ch p tx rx \<longleftrightarrow> 0 < c \<and> c < 9 \<and> chan_set s c k ch p \<and> ch_tx_fifo ch = Some tx \<and> ch_rx_fifo ch = Some rx
     \<and> fifo_wf tx p \<and> fifo_wf rx p \<and> length (ii_partition s) = length (ii_entries s) \<and> involves c (ii_entries s ! k)
     \<and> (\<forall>h. 0 < h \<and> h < 9 \<and> bit (ii_enabled_hosts s) h \<and> h \<noteq> c \<longrightarrow> known_host s h \<and> \<not> involves c (ii_entries s ! the (ch_gstatus_ptr (ii_channel s ! h))))"

definition told_hosts :: "ipclite_info \<Rightarrow> nat \<Rightarrow> nat list" where
  "told_hosts s c = filter (\<lambda>h. is_host_enabled (ii_enabled_hosts s) h \<and> h \<noteq> c) [1..<9]"

lemma recover_prefix:
  assumes r: "recoverable s c k ch p tx rx" and owned: "owned = (ii_hwlock_owner s = of_nat c)"
  shows "\<exists>s5. ipclite_recover_v0 c s = notify_hosts (told_hosts s c) IPCLITE_SSR_SIGNAL s5 \<and> mutex_free c owned s5
    \<and> ii_entries s5 = ii_entries s \<and> ii_mbox_log s5 = ii_mbox_log s \<and> length (ii_partition s5) = length (ii_partition s)
    \<and> ii_channel s5 = (ii_channel s)[c := ch\<lparr>ch_status := IN_PROGRESS\<rparr>]
    \<and> (\<forall>j < length (ii_entries s). j \<noteq> k \<longrightarrow> ii_partition s5 ! j = (if involves c (ii_entries s ! j) then set_gstatus 0 (ii_partition s ! j) else ii_partition s ! j))
    \<and> ii_partition s5 ! k = set_gstatus IN_PROGRESS (p\<lparr>ip_descs := (ip_descs p)[ff_head tx := 0, ff_tail rx := 0]\<rparr>)"
proof -
  note d = r[unfolded recoverable_def]
  have c: "0 < c" "c < 9" and cs: "chan_set s c k ch p" and f: "ch_tx_fifo ch = Some tx" "ch_rx_fifo ch = Some rx"
    and ln: "length (ii_partition s) = length (ii_entries s)" and iv: "involves c (ii_entries s ! k)" using d by auto
  have c9: "(of_nat c :: u32) \<noteq> 0xFF" using c by (auto simp: word_unat_eq_iff unat_of_nat)
  define s1 where "s1 = (if of_nat c = ii_hwlock_owner s then s\<lparr>ii_hwlock_owner := IPCMEM_INVALID_HOST, ii_hwlock_held := False\<rparr> else s)"
  have s1: "mutex_free c owned s1" "rec_frame s s1" "ii_partition s1 = ii_partition s"
    using c9 owned by (auto simp: s1_def mutex_free_def rec_frame_def IPCMEM_INVALID_HOST_def)
  have e1: "ii_entries s1 = ii_entries s" using s1(2) by (simp add: rec_frame_def)
  define s2 where "s2 = fold (recover_partition c) [0..<length (ii_entries s1)] s1"
  have s2: "length (ii_partition s2) = length (ii_partition s)" "rec_frame s s2" "mutex_free c owned s2"
    "ii_partition s2 ! j = (if j < length (ii_entries s) \<and> involves c (ii_entries s ! j) then set_gstatus 0 (ii_partition s ! j) else ii_partition s ! j)" for j
    using recover_fold[OF c s1(1), of "length (ii_entries s1)"] ln s1(3) rec_frame_trans[OF s1(2)] unfolding s2_def e1 by auto
  let ?p = "set_gstatus 0 p" and ?q = "(set_gstatus 0 p)\<lparr>ip_descs := (ip_descs p)[ff_head tx := 0, ff_tail rx := 0]\<rparr>"
  have k: "k < length (ii_entries s)" "ii_partition s ! k = p" "c < length (ii_channel s)" "ii_channel s ! c = ch" "ch_gstatus_ptr ch = Some k"
    using cs ln by (auto simp: chan_set_def)
  have ch2: "idx (ii_channel s2) c = Some ch" "chan_partition ch s2 = Some (k, ?p)"
    using s2(1,2) s2(4)[of k] iv k ln by (auto simp: rec_frame_def chan_partition_def)
  have rf: "reset_fifos ch ?p = Some ?q"
    using f d fifo_wfE[of tx p] fifo_wfE[of rx p] by (auto simp: reset_fifos_def store_desc_def set_gstatus_def)
  define s3 where "s3 = upd_partition k (\<lambda>_. ?q) s2"
  have s3: "mutex_free c owned s3" "rec_frame s2 s3" "ii_partition s3 = (ii_partition s2)[k := ?q]"
    using s2(3) by (simp_all add: s3_def mutex_free_def rec_frame_def upd_partition_def)
  define s4 where "s4 = global_atomic (upd_partition k (\<lambda>p. set_gstatus (ph_status (ip_hdr p) + 1) p)) s3"
  have g4: "ii_partition s4 = (ii_partition s3)[k := set_gstatus (ph_status (ip_hdr (ii_partition s3 ! k)) + 1) (ii_partition s3 ! k)]"
    "rec_frame s3 s4" "mutex_free c owned s4"
    using global_atomic_upd[OF c s3(1), of k "\<lambda>p. set_gstatus (ph_status (ip_hdr p) + 1) p"] by (simp_all add: s4_def)
  have k2: "k < length (ii_partition s2)" using s2(1) ln k(1) by simp
  have p4: "ii_partition s4 = (ii_partition s2)[k := set_gstatus IN_PROGRESS ?q]"
    using g4(1) s3(3) k2 by (simp add: set_gstatus_def IN_PROGRESS_def)
  have fr: "rec_frame s s4" using rec_frame_trans[OF rec_frame_trans[OF s2(2) s3(2)] g4(2)] .
  define s5 where "s5 = upd_channel c (ch_status_update (\<lambda>_. ph_status (ip_hdr (ii_partition s4 ! k)))) s4"
  have st: "ph_status (ip_hdr (ii_partition s4 ! k)) = IN_PROGRESS" unfolding p4 using k2 by (simp add: set_gstatus_def)
  have "ipclite_recover_v0 c s = notify_hosts (told_hosts s c) IPCLITE_SSR_SIGNAL s5"
  proof -
    have "ii_enabled_hosts s5 = ii_enabled_hosts s" using fr by (simp add: s5_def upd_channel_def rec_frame_def)
    then show ?thesis unfolding ipclite_recover_v0_def told_hosts_def Let_def s1_def[symmetric] s2_def[symmetric]
      by (simp add: ch2 rf s3_def[symmetric] s4_def[symmetric] s5_def[symmetric] IPCMEM_NUM_HOSTS_def)
  qed
  moreover have "ii_channel s5 = (ii_channel s)[c := ch\<lparr>ch_status := IN_PROGRESS\<rparr>]" "mutex_free c owned s5" "ii_entries s5 = ii_entries s"
    "ii_mbox_log s5 = ii_mbox_log s" "ii_partition s5 = ii_partition s4"
    using fr st k g4(3) by (simp_all add: s5_def upd_channel_def rec_frame_def mutex_free_def)
  moreover have "ii_partition s4 ! k = set_gstatus IN_PROGRESS (p\<lparr>ip_descs := (ip_descs p)[ff_head tx := 0, ff_tail rx := 0]\<rparr>)"
    using k2 by (simp add: p4 set_gstatus_def)
  moreover have "ii_partition s4 ! j = (if involves c (ii_entries s ! j) then set_gstatus 0 (ii_partition s ! j) else ii_partition s ! j)"
    if "j < length (ii_entries s)" "j \<noteq> k" for j using that s2(4)[of j] by (simp add: p4)
  moreover have "length (ii_partition s4) = length (ii_partition s)" using s2(1) by (simp add: p4)
  ultimately show ?thesis by (intro exI[of _ s5]) simp
qed

text \<open>recovery of a crashed core. All partitions of the core are taken out of service, the one it shares with the application processor back to
  awaiting the core, with the indices that this side owns reset; messages to the core are refused until it confirms; the hardware mutex is no longer
  the core's, and free if it was; and every other enabled host with an open channel is told exactly once.\<close>

theorem recover_correct:
  assumes "recoverable s c k ch p tx rx"
  shows "\<exists>s'. ipclite_recover_v0 c s = Some s'
    \<and> (\<forall>j < length (ii_entries s). j \<noteq> k \<longrightarrow> ii_partition s' ! j = (if involves c (ii_entries s ! j) then set_gstatus 0 (ii_partition s ! j) else ii_partition s ! j))
    \<and> ii_partition s' ! k = set_gstatus IN_PROGRESS (p\<lparr>ip_descs := (ip_descs p)[ff_head tx := 0, ff_tail rx := 0]\<rparr>)
    \<and> ii_channel s' ! c = ch\<lparr>ch_status := IN_PROGRESS\<rparr>
    \<and> (\<forall>x. ipclite_msg_send_v0 (int c) x s' = Some (Inl EOPNOTSUPP, s'))
    \<and> ii_hwlock_owner s' \<noteq> of_nat c \<and> (ii_hwlock_owner s = of_nat c \<longrightarrow> \<not> ii_hwlock_held s')
    \<and> ii_mbox_log s' = ii_mbox_log s @ map (\<lambda>h. (h, IPCLITE_SSR_SIGNAL)) (filter (open_host s) (told_hosts s c))"
proof -
  note d = assms[unfolded recoverable_def]
  obtain s5 where s5: "ipclite_recover_v0 c s = notify_hosts (told_hosts s c) IPCLITE_SSR_SIGNAL s5" "mutex_free c (ii_hwlock_owner s = of_nat c) s5"
    "ii_entries s5 = ii_entries s" "ii_mbox_log s5 = ii_mbox_log s" "length (ii_partition s5) = length (ii_partition s)"
    "ii_channel s5 = (ii_channel s)[c := ch\<lparr>ch_status := IN_PROGRESS\<rparr>]"
    "\<forall>j < length (ii_entries s). j \<noteq> k \<longrightarrow> ii_partition s5 ! j = (if involves c (ii_entries s ! j) then set_gstatus 0 (ii_partition s ! j) else ii_partition s ! j)"
    "ii_partition s5 ! k = set_gstatus IN_PROGRESS (p\<lparr>ip_descs := (ip_descs p)[ff_head tx := 0, ff_tail rx := 0]\<rparr>)"
    using recover_prefix[OF assms refl] by (elim exE conjE) (rule that, assumption+)
  have kn: "known_host s5 h \<and> h < 9 \<and> open_host s5 h = open_host s h" if "h \<in> set (told_hosts s c)" for h
  proof -
    have h: "0 < h" "h < 9" "bit (ii_enabled_hosts s) h" "h \<noteq> c" using that by (auto simp: told_hosts_def is_host_enabled_def)
    then obtain kh chh ph where ks: "chan_set s h kh chh ph" "\<not> involves c (ii_entries s ! the (ch_gstatus_ptr (ii_channel s ! h)))"
      using d by (auto simp: known_host_def)
    then have "\<not> involves c (ii_entries s ! kh)" "kh < length (ii_entries s)" using d by (auto simp: chan_set_def)
    then have "chan_set s5 h kh chh ph" using ks(1) s5(5-7) d h(4) by (auto simp: chan_set_def)
    then show ?thesis using ks(1) h(2) by (auto simp: known_host_def open_host_def chan_set_def)
  qed
  have "distinct (told_hosts s c)" by (simp add: told_hosts_def)
  from notify_hosts_ok[OF this, of s5 IPCLITE_SSR_SIGNAL c "ii_hwlock_owner s = of_nat c"] kn obtain s' where
    s': "notify_hosts (told_hosts s c) IPCLITE_SSR_SIGNAL s5 = Some s'" "ii_partition s' = ii_partition s5"
    "ii_mbox_log s' = ii_mbox_log s5 @ map (\<lambda>h. (h, IPCLITE_SSR_SIGNAL)) (filter (open_host s5) (told_hosts s c))"
    "\<forall>j. j \<notin> set (told_hosts s c) \<longrightarrow> ii_channel s' ! j = ii_channel s5 ! j" "length (ii_channel s') = length (ii_channel s5)" "mutex_free c (ii_hwlock_owner s = of_nat c) s'"
    using s5(2) by blast
  have fo: "filter (open_host s5) (told_hosts s c) = filter (open_host s) (told_hosts s c)" using kn by (intro filter_cong) auto
  have c: "ii_channel s' ! c = ch\<lparr>ch_status := IN_PROGRESS\<rparr>"
    using s'(4) s5(6) d by (auto simp: told_hosts_def chan_set_def)
  have send: "ipclite_msg_send_v0 (int c) x s' = Some (Inl EOPNOTSUPP, s')" for x
  proof -
    let ?p = "set_gstatus IN_PROGRESS (p\<lparr>ip_descs := (ip_descs p)[ff_head tx := 0, ff_tail rx := 0]\<rparr>)"
    have "chan_set s' c k (ch\<lparr>ch_status := IN_PROGRESS\<rparr>) ?p" using c s'(2,5) s5(5,6,8) d by (simp add: chan_set_def)
    from chan_ready_ok[OF this] show ?thesis using d
      by (simp add: ipclite_msg_send_v0_def ipclite_tx_def IPCMEM_NUM_HOSTS_def chan_open_def set_gstatus_def IN_PROGRESS_def ACTIVE_def)
  qed
  have mx: "ii_hwlock_owner s' \<noteq> of_nat c" "ii_hwlock_owner s = of_nat c \<longrightarrow> \<not> ii_hwlock_held s'" using s'(6) by (simp_all add: mutex_free_def)
  show ?thesis using s'(1) s5(7,8) c send mx s'(3) unfolding s5(1,4) fo by (intro exI[of _ s'] conjI allI) (simp_all add: s'(2))
qed

text \<open>Core 5 crashes while it holds the mutex; core 8 has an open channel.\<close>

definition demo_crash :: ipclite_info where
  "demo_crash = (demo_info 8)\<lparr>ii_channel := (replicate 9 demo_chan)[8 := demo_chan\<lparr>ch_gstatus_ptr := Some 1\<rparr>], ii_partition := [demo_part 8, demo_part 0],
     ii_entries := fill_entries [(0, 5), (0, 8)] 0x21000, ii_enabled_hosts := 0x121, ii_hwlock_owner := 5, ii_hwlock_held := True\<rparr>"

lemma demo_recoverable: "recoverable demo_crash 5 0 demo_chan (demo_part 8) demo_fifo demo_fifo"
proof -
  have cs: "chan_set demo_crash 5 0 demo_chan (demo_part 8)" "chan_set demo_crash 8 1 (demo_chan\<lparr>ch_gstatus_ptr := Some 1\<rparr>) (demo_part 0)"
    by (simp_all add: chan_set_def demo_crash_def demo_chan_def)
  have iv: "involves 5 (ii_entries demo_crash ! 0)" "\<not> involves 5 (ii_entries demo_crash ! 1)" "length (ii_partition demo_crash) = length (ii_entries demo_crash)"
    by (simp_all add: involves_def demo_crash_def)
  have "h = 8" if "0 < h" "h < 9" "bit (ii_enabled_hosts demo_crash) h" "h \<noteq> 5" for h
  proof -
    have "h \<in> {1, 2, 3, 4, 5, 6, 7, 8}" using that(1,2) by auto
    then show ?thesis using that(3,4) by (auto simp: demo_crash_def)
  qed
  moreover have "known_host demo_crash 8" using cs(2) unfolding known_host_def by blast
  moreover have "\<not> involves 5 (ii_entries demo_crash ! the (ch_gstatus_ptr (ii_channel demo_crash ! 8)))" using cs(2) iv(2) by (simp add: chan_set_def)
  moreover have "ch_tx_fifo demo_chan = Some demo_fifo" "ch_rx_fifo demo_chan = Some demo_fifo" by (simp_all add: demo_chan_def)
  ultimately show ?thesis using cs(1) iv demo_fifo_wf[of 8] unfolding recoverable_def by auto
qed

theorem recover_correct_witness:
  "\<exists>s'. ipclite_recover_v0 5 demo_crash = Some s' \<and> \<not> ii_hwlock_held s' \<and> ii_mbox_log s' = [(8, IPCLITE_SSR_SIGNAL)]"
proof -
  have "told_hosts demo_crash 5 = [8]" by (simp add: told_hosts_def is_host_enabled_def demo_crash_def upt_rec)
  moreover have "open_host demo_crash 8" by (simp add: open_host_def demo_crash_def demo_chan_def chan_open_def)
  moreover have "ii_mbox_log demo_crash = []" "ii_hwlock_owner demo_crash = of_nat 5" by (simp_all add: demo_crash_def demo_info_def)
  ultimately show ?thesis using recover_correct[OF demo_recoverable] by auto
qed

end
