(* ===== verification/Synx_Ipc.thy ===== *)
theory Synx_Ipc
  imports Synx_Composite Ipclite_Channel
begin

text \<open>
  The synx driver on top of the ipclite transport: the messages that signalling an object causes travel through the FIFOs of the
  channels to the cores that wait.
\<close>


section \<open>Sending through the channels\<close>

text \<open>The messages of the synx driver are sent one by one, and a failure to send is only logged.\<close>

fun send_msgs :: "(u32 \<times> u64) list \<Rightarrow> ipclite_info \<Rightarrow> ipclite_info option" where
  "send_msgs [] t = Some t"
| "send_msgs ((host, data) # ms) t = do { (_, t1) \<leftarrow> ipclite_msg_send_v0 (sint host) data t; send_msgs ms t1 }"

definition tx_part :: "ipclite_info \<Rightarrow> nat \<Rightarrow> ipcmem_partition" where
  "tx_part t h = ii_partition t ! the (ch_gstatus_ptr (ii_channel t ! h))"

definition tx_fifo :: "ipclite_info \<Rightarrow> nat \<Rightarrow> ipclite_fifo" where
  "tx_fifo t h = the (ch_tx_fifo (ii_channel t ! h))"

text \<open>The messages on their way to host \<open>h\<close>.\<close>

definition tx_queue :: "ipclite_info \<Rightarrow> nat \<Rightarrow> u64 list" where
  "tx_queue t h = fifo_contents (tx_fifo t h) (tx_part t h)"

definition link_ok :: "ipclite_info \<Rightarrow> nat \<Rightarrow> bool" where
  "link_ok t h \<longleftrightarrow> (\<exists>k ch p f. chan_set t h k ch p \<and> ch_tx_fifo ch = Some f \<and> fifo_wf f p \<and> chan_open ch p)"

definition links :: "ipclite_info \<Rightarrow> nat set \<Rightarrow> bool" where
  "links t H \<longleftrightarrow> (\<forall>h \<in> H. h < 9 \<and> link_ok t h) \<and> inj_on (\<lambda>h. the (ch_gstatus_ptr (ii_channel t ! h))) H"

lemma send_one:
  assumes l: "links t H" and h: "h \<in> H" and room: "length (tx_queue t h) < fifo_cap (tx_fifo t h)"
  shows "\<exists>t'. ipclite_msg_send_v0 (int h) x t = Some (Inr (), t') \<and> links t' H \<and> (\<forall>g \<in> H. tx_fifo t' g = tx_fifo t g)
    \<and> (\<forall>g \<in> H. tx_queue t' g = tx_queue t g @ (if g = h then [x] else [])) \<and> ii_mbox_log t' = ii_mbox_log t @ [(h, IPCLITE_MSG_SIGNAL)]"
proof -
  obtain k ch p f where c: "chan_set t h k ch p" "ch_tx_fifo ch = Some f" "fifo_wf f p" "chan_open ch p" and h9: "h < 9"
    using l h unfolding links_def link_ok_def by blast
  have q: "tx_queue t h = fifo_contents f p" "tx_fifo t h = f" using c by (auto simp: tx_queue_def tx_fifo_def tx_part_def chan_set_def)
  obtain p' where p': "ipclite_tx h x 8 IPCLITE_MSG_SIGNAL t = Some (Inr (), sent h k p' IPCLITE_MSG_SIGNAL t)" "fifo_wf f p'"
    "fifo_contents f p' = fifo_contents f p @ [x]" "ip_hdr p' = ip_hdr p"
    using ipclite_tx_ok[OF c(1-3), of x IPCLITE_MSG_SIGNAL] c(4) room q by auto
  let ?t = "sent h k p' IPCLITE_MSG_SIGNAL t"
  have cc: "h < length (ii_channel t)" "ii_channel t ! h = ch" "ch_gstatus_ptr ch = Some k" "k < length (ii_partition t)" using c(1) by (auto simp: chan_set_def)
  have ch': "ii_channel ?t ! g = (if g = h then ch\<lparr>ch_status := ACTIVE\<rparr> else ii_channel t ! g)" for g using cc by (simp add: nth_list_update)
  have fields: "ch_tx_fifo (ii_channel ?t ! g) = ch_tx_fifo (ii_channel t ! g)" "ch_gstatus_ptr (ii_channel ?t ! g) = ch_gstatus_ptr (ii_channel t ! g)" for g
    unfolding ch' using cc by auto
  have other: "the (ch_gstatus_ptr (ii_channel t ! g)) \<noteq> k" if "g \<in> H" "g \<noteq> h" for g
    using l h that cc unfolding links_def inj_on_def by (metis option.sel)
  have part: "ii_partition ?t ! the (ch_gstatus_ptr (ii_channel t ! g)) = (if g = h then p' else ii_partition t ! the (ch_gstatus_ptr (ii_channel t ! g)))"
    if "g \<in> H" for g using other[OF that] cc by (cases "g = h") auto
  have "link_ok ?t g" if gH: "g \<in> H" for g
  proof (cases "g = h")
    case True
    have "chan_set ?t h k (ch\<lparr>ch_status := ACTIVE\<rparr>) p'" using cc by (simp add: chan_set_def)
    moreover have "chan_open (ch\<lparr>ch_status := ACTIVE\<rparr>) p'" by (simp add: chan_open_def)
    ultimately show ?thesis using True p'(2) c(2) unfolding link_ok_def by (metis ipclite_channel.select_convs(2) ipclite_channel.surjective ipclite_channel.update_convs(5))
  next
    case False
    obtain kg cg pg fg where g: "chan_set t g kg cg pg" "ch_tx_fifo cg = Some fg" "fifo_wf fg pg" "chan_open cg pg"
      using l gH unfolding links_def link_ok_def by blast
    have "kg \<noteq> k" using other[OF gH False] g(1) by (auto simp: chan_set_def)
    then have "chan_set ?t g kg cg pg" using g(1) False by (simp add: chan_set_def)
    then show ?thesis using g unfolding link_ok_def by blast
  qed
  then have "links ?t H" using l unfolding links_def fields by blast
  moreover have "tx_fifo ?t g = tx_fifo t g" for g by (simp only: tx_fifo_def fields)
  moreover have "tx_queue ?t g = tx_queue t g @ (if g = h then [x] else [])" if "g \<in> H" for g
    using part[OF that] p'(3) q cc unfolding tx_queue_def tx_part_def tx_fifo_def fields by auto
  moreover have "ipclite_msg_send_v0 (int h) x t = Some (Inr (), ?t)"
    using p'(1) h9 by (simp add: ipclite_msg_send_v0_def IPCMEM_NUM_HOSTS_def)
  ultimately show ?thesis by auto
qed

definition msgs_to :: "nat \<Rightarrow> (u32 \<times> u64) list \<Rightarrow> u64 list" where
  "msgs_to h ms = map snd (filter (\<lambda>m. unat (fst m) = h) ms)"

lemma sint_host: "unat (h :: u32) < 9 \<Longrightarrow> sint h = int (unat h)"
proof -
  assume h: "unat h < 9"
  have u: "uint h = int (unat h)" by (rule of_nat_unat[symmetric])
  have b: "(2 :: int) ^ 31 = 2147483648" by simp
  have "sint h = signed_take_bit 31 (uint h)" by (simp add: sint_uint)
  also have "\<dots> = uint h" by (rule signed_take_bit_int_eq_self; unfold b) (use h u in linarith)+
  finally show ?thesis unfolding u .
qed

lemma send_msgs_ok:
  assumes "links t H" and "\<forall>m \<in> set ms. unat (fst m) \<in> H" and "\<forall>h \<in> H. length (tx_queue t h) + length (msgs_to h ms) \<le> fifo_cap (tx_fifo t h)"
  shows "\<exists>t'. send_msgs ms t = Some t' \<and> links t' H \<and> (\<forall>h \<in> H. tx_fifo t' h = tx_fifo t h \<and> tx_queue t' h = tx_queue t h @ msgs_to h ms)
    \<and> ii_mbox_log t' = ii_mbox_log t @ map (\<lambda>m. (unat (fst m), IPCLITE_MSG_SIGNAL)) ms"
  using assms
proof (induction ms arbitrary: t)
  case Nil
  then show ?case by (simp add: msgs_to_def)
next
  case (Cons m ms)
  obtain host x where m: "m = (host, x)" by (cases m)
  let ?h = "unat host"
  have h: "?h \<in> H" "?h < 9" using Cons.prems(1,2) m by (auto simp: links_def)
  have "length (tx_queue t ?h) + length (msgs_to ?h (m # ms)) \<le> fifo_cap (tx_fifo t ?h)" using Cons.prems(3) h(1) by blast
  then have "length (tx_queue t ?h) < fifo_cap (tx_fifo t ?h)" by (simp add: msgs_to_def m)
  from send_one[OF Cons.prems(1) h(1) this, of x] obtain t1 where t1: "ipclite_msg_send_v0 (int ?h) x t = Some (Inr (), t1)" "links t1 H"
    "\<forall>g \<in> H. tx_fifo t1 g = tx_fifo t g" "\<forall>g \<in> H. tx_queue t1 g = tx_queue t g @ (if g = ?h then [x] else [])"
    "ii_mbox_log t1 = ii_mbox_log t @ [(?h, IPCLITE_MSG_SIGNAL)]" by blast
  have mt: "msgs_to g (m # ms) = (if g = ?h then [x] else []) @ msgs_to g ms" for g by (simp add: msgs_to_def m)
  have "\<forall>g \<in> H. length (tx_queue t1 g) + length (msgs_to g ms) \<le> fifo_cap (tx_fifo t1 g)"
    using Cons.prems(3) t1(3,4) unfolding mt by auto
  from Cons.IH[OF t1(2) _ this] Cons.prems(2) obtain t' where "send_msgs ms t1 = Some t'" "links t' H"
    "\<forall>h \<in> H. tx_fifo t' h = tx_fifo t1 h \<and> tx_queue t' h = tx_queue t1 h @ msgs_to h ms"
    "ii_mbox_log t' = ii_mbox_log t1 @ map (\<lambda>m. (unat (fst m), IPCLITE_MSG_SIGNAL)) ms" by auto
  then show ?case using t1 sint_host[OF h(2)] unfolding mt by (simp add: m)
qed

section \<open>From a signal to the waiting cores\<close>

definition synx_hosts :: "nat set" where
  "synx_hosts = {0, 5, 6, 7, 8}"

definition host_of :: "nat \<Rightarrow> nat" where
  "host_of core = unat (synx_global_map_core_id core)"

lemma host_of_eval [simp]: "host_of 0 = 0" "host_of 1 = 5" "host_of (Suc 0) = 5" "host_of 2 = 6" "host_of 3 = 8" "host_of 4 = 7"
  by (simp_all add: host_of_def synx_global_map_core_id_def synx_consts)

lemma msgs_to_append [simp]: "msgs_to h (xs @ ys) = msgs_to h xs @ msgs_to h ys"
  by (simp add: msgs_to_def)

lemma msgs_to_concat: "msgs_to h (concat xss) = concat (map (msgs_to h) xss)"
  by (induction xss) (simp_all add: msgs_to_def)

lemma core_range: "core \<in> {1..<5} \<longleftrightarrow> core = 1 \<or> core = 2 \<or> core = 3 \<or> core = (4 :: nat)"
  by auto

lemma msgs_to_signal:
  assumes "core \<in> {1..<5}"
  shows "msgs_to (host_of core) (signal_msgs st data w) = (if bit w core then [data] else [])"
proof -
  have u5: "[0..<5] = [0, 1, 2, 3, 4 :: nat]" "[Suc 0..<5] = [1, 2, 3, 4 :: nat]" by (simp_all add: upt_rec)
  have h: "unat (synx_global_map_core_id i) = host_of i" for i by (simp add: host_of_def)
  show ?thesis using assms unfolding core_range
    by (elim disjE) (simp_all add: signal_msgs_def msgs_to_def SYNX_CORE_MAX_def u5 h filter_map comp_def)
qed

lemma signal_msgs_hosts: "m \<in> set (signal_msgs st data w) \<Longrightarrow> unat (fst m) \<in> synx_hosts"
proof -
  assume "m \<in> set (signal_msgs st data w)"
  then obtain i where i: "i < 5" "fst m = synx_global_map_core_id i" by (auto simp: signal_msgs_def SYNX_CORE_MAX_def split: if_splits)
  then have "i = 0 \<or> i = 1 \<or> i = 2 \<or> i = 3 \<or> i = 4" by auto
  then show ?thesis using i(2) host_of_eval unfolding host_of_def synx_hosts_def by auto
qed

lemma inj_map_core: "inj_on synx_global_map_core_id {0..<5}"
proof (rule inj_onI)
  fix i j assume i: "i \<in> {0..<5}" "j \<in> {0..<5}" and e: "synx_global_map_core_id i = synx_global_map_core_id j"
  have "i = 0 \<or> i = 1 \<or> i = 2 \<or> i = 3 \<or> i = 4" "j = 0 \<or> j = 1 \<or> j = 2 \<or> j = 3 \<or> j = 4" using i by auto
  moreover have "host_of i = host_of j" by (simp only: host_of_def e)
  ultimately show "i = j" by (elim disjE) simp_all
qed

lemma filter_distinct_le:
  assumes "distinct (map fst ms)"
  shows "length (filter (\<lambda>m. unat (fst m :: u32) = h) ms) \<le> 1"
proof -
  let ?xs = "filter (\<lambda>m. unat (fst m) = h) ms"
  have "distinct (map fst ?xs)" using assms by (rule distinct_map_filter)
  then have "length ?xs = card (set (map fst ?xs))" by (metis distinct_card length_map)
  also have "\<dots> \<le> card {of_nat h :: u32}" by (intro card_mono) auto
  finally show ?thesis by simp
qed

lemma msgs_to_signal_le: "length (msgs_to h (signal_msgs st data w)) \<le> 1"
proof -
  let ?xs = "filter (bit w) [(if st = SYNX_STATE_SIGNALED_SSR then 0 else 1)..<SYNX_CORE_MAX]"
  have "set ?xs \<subseteq> {0..<5}" by (auto simp: SYNX_CORE_MAX_def split: if_splits)
  then have "inj_on synx_global_map_core_id (set ?xs)" using inj_map_core by (rule inj_on_subset[rotated])
  moreover have "distinct ?xs" by simp
  moreover have "map fst (signal_msgs st data w) = map synx_global_map_core_id ?xs" by (simp add: signal_msgs_def comp_def)
  ultimately have "distinct (map fst (signal_msgs st data w))" by (simp only: distinct_map)
  from filter_distinct_le[OF this] show ?thesis by (simp add: msgs_to_def)
qed

text \<open>The data of the messages about its children and about itself that a composite causes for a core.\<close>

definition core_data :: "synx_shared_mem \<Rightarrow> (u32 \<times> u32) list \<Rightarrow> synx_global_coredata \<Rightarrow> nat \<Rightarrow> u64 list" where
  "core_data s xs e core =
     map (\<lambda>(c, st). signal_data (g_handle (sg_table s ! unat c)) st) (filter (\<lambda>(c, _). bit (g_waiters (sg_table s ! unat c)) core) xs)
     @ (if bit (g_waiters e) core then [signal_data (g_handle e) (comp_status (map snd xs))] else [])"

lemma concat_single: "concat (map (\<lambda>x. if P x then [f x] else []) xs) = map f (filter P xs)"
  by (induction xs) simp_all

lemma length_concat_le: "\<forall>x \<in> set xs. length (f x) \<le> 1 \<Longrightarrow> length (concat (map f xs)) \<le> length xs"
  by (induction xs) auto

text \<open>C4: from the merge of a composite to the other cores. The children signal in any order, with any results; the messages are sent through the
  channels, which are open and have room. Then every remote core finds, behind what was there already, exactly one message for each child it waits for, in the
  order of the signals, and one for the composite if it waits for that, with the handle and the final status; reading its FIFO
  it gets them in that order.\<close>

theorem composite_delivered:
  assumes "mergeable s cs p" and "e = sg_table s ! unat p" and "distinct ds" and "set ds = set cs" and "length ss = length ds"
    and "\<forall>st \<in> set ss. SYNX_STATE_ACTIVE < st" and "sg_msgs s = []" and "links t synx_hosts"
    and "\<forall>h \<in> synx_hosts. length (tx_queue t h) + Suc (length cs) \<le> fifo_cap (tx_fifo t h)"
  shows "\<exists>s1 s2 t'. synx_global_merge cs p s = Some (0, s1) \<and> signal_all (zip ds ss) s1 = Some s2 \<and> send_msgs (sg_msgs s2) t = Some t'
    \<and> (\<forall>core \<in> {1..<5}. tx_queue t' (host_of core) = tx_queue t (host_of core) @ core_data s (zip ds ss) e core
         \<and> (\<exists>q. pop_n (fifo_recv (tx_fifo t (host_of core))) (length (tx_queue t' (host_of core))) (tx_part t' (host_of core))
               = Some (tx_queue t (host_of core) @ core_data s (zip ds ss) e core, q)))"
proof -
  have len: "length ds = length cs" using mergeable_perm(2)[OF assms(1,3,4)] .
  have lz: "map snd (zip ds ss) = ss" "length (zip ds ss) = length cs" using assms(5) len by simp_all
  obtain s1 s2 where s: "synx_global_merge cs p s = Some (0, s1)" "signal_all (zip ds ss) s1 = Some s2"
    "sg_msgs s2 = concat (map (child_msgs s) (zip ds ss)) @ signal_msgs (last ss) (signal_data (g_handle e) (comp_status ss)) (g_waiters e)"
    using composite_spec[OF assms(1-6)] assms(5,7) by force
  have mt: "msgs_to h (sg_msgs s2) = concat (map (\<lambda>x. msgs_to h (child_msgs s x)) (zip ds ss))
      @ msgs_to h (signal_msgs (last ss) (signal_data (g_handle e) (comp_status ss)) (g_waiters e))" for h
    unfolding s(3) msgs_to_append msgs_to_concat by (simp add: comp_def)
  have cm: "msgs_to h (child_msgs s x) = msgs_to h (signal_msgs (snd x) (signal_data (g_handle (sg_table s ! unat (fst x))) (snd x)) (g_waiters (sg_table s ! unat (fst x))))" for h x
    by (simp add: child_msgs_def case_prod_beta)
  have "length (concat (map (\<lambda>x. msgs_to h (child_msgs s x)) (zip ds ss))) \<le> length cs" for h
    unfolding lz(2)[symmetric] by (intro length_concat_le ballI) (simp only: cm msgs_to_signal_le)
  then have le: "length (msgs_to h (sg_msgs s2)) \<le> Suc (length cs)" for h
    using add_mono[OF _ msgs_to_signal_le] unfolding mt length_append by (metis Suc_eq_plus1)
  have "\<forall>m \<in> set (sg_msgs s2). unat (fst m) \<in> synx_hosts"
    unfolding s(3) by (auto simp: child_msgs_def dest: signal_msgs_hosts)
  moreover have "\<forall>h \<in> synx_hosts. length (tx_queue t h) + length (msgs_to h (sg_msgs s2)) \<le> fifo_cap (tx_fifo t h)"
    using assms(9) le by (meson add_le_cancel_left le_trans)
  ultimately obtain t' where t': "send_msgs (sg_msgs s2) t = Some t'" "links t' synx_hosts"
    "\<forall>h \<in> synx_hosts. tx_fifo t' h = tx_fifo t h \<and> tx_queue t' h = tx_queue t h @ msgs_to h (sg_msgs s2)"
    using send_msgs_ok[OF assms(8)] by blast
  have "tx_queue t' (host_of core) = tx_queue t (host_of core) @ core_data s (zip ds ss) e core
      \<and> (\<exists>q. pop_n (fifo_recv (tx_fifo t (host_of core))) (length (tx_queue t' (host_of core))) (tx_part t' (host_of core))
          = Some (tx_queue t (host_of core) @ core_data s (zip ds ss) e core, q))" if c: "core \<in> {1..<5}" for core
  proof -
    have h: "host_of core \<in> synx_hosts" using c unfolding core_range by (auto simp: synx_hosts_def)
    have q: "tx_queue t' (host_of core) = tx_queue t (host_of core) @ core_data s (zip ds ss) e core"
      using t'(3) h by (simp add: mt cm msgs_to_signal[OF c] core_data_def lz(1) concat_single case_prod_beta')
    have "fifo_wf (tx_fifo t (host_of core)) (tx_part t' (host_of core))"
      using t'(2,3) h unfolding links_def link_ok_def tx_fifo_def tx_part_def chan_set_def by (metis option.sel)
    moreover have "fifo_contents (tx_fifo t (host_of core)) (tx_part t' (host_of core)) = tx_queue t' (host_of core)"
      using t'(3) h by (simp add: tx_queue_def)
    ultimately show ?thesis
      using ipq.pop_n_ok[of "tx_fifo t (host_of core)" "tx_part t' (host_of core)" "tx_queue t' (host_of core)" "[]"] q by auto
  qed
  then show ?thesis using s(1,2) t'(1) by blast
qed

text \<open>Open channels to all hosts, each in a partition of its own.\<close>

definition demo_net :: ipclite_info where
  "demo_net = (demo_info 0)\<lparr>ii_channel := map (\<lambda>h. demo_chan\<lparr>ch_gstatus_ptr := Some h\<rparr>) [0..<9], ii_partition := replicate 9 (demo_part 0)\<rparr>"

lemma demo_net_links:
  "links demo_net synx_hosts" "h < 9 \<Longrightarrow> tx_queue demo_net h = []" "h < 9 \<Longrightarrow> tx_fifo demo_net h = demo_fifo"
proof -
  have ch: "ii_channel demo_net ! h = demo_chan\<lparr>ch_gstatus_ptr := Some h\<rparr>" if "h < 9" for h using that by (simp add: demo_net_def)
  have cs: "chan_set demo_net h h (demo_chan\<lparr>ch_gstatus_ptr := Some h\<rparr>) (demo_part 0)" if "h < 9" for h
    using that by (simp add: chan_set_def demo_net_def)
  have o: "chan_open (demo_chan\<lparr>ch_gstatus_ptr := Some h\<rparr>) (demo_part 0)" "ch_tx_fifo (demo_chan\<lparr>ch_gstatus_ptr := Some h\<rparr>) = Some demo_fifo" for h
    by (simp_all add: chan_open_def demo_chan_def)
  have "link_ok demo_net h" if "h < 9" for h
    unfolding link_ok_def using cs[OF that] o demo_fifo_wf[of 0] by blast
  moreover have h9: "h \<in> synx_hosts \<Longrightarrow> h < 9" for h by (auto simp: synx_hosts_def)
  moreover have "inj_on (\<lambda>h. the (ch_gstatus_ptr (ii_channel demo_net ! h))) synx_hosts" by (rule inj_onI) (simp add: ch h9)
  ultimately show "links demo_net synx_hosts" by (auto simp: links_def)
  show "h < 9 \<Longrightarrow> tx_fifo demo_net h = demo_fifo" by (simp add: tx_fifo_def ch o)
  show "h < 9 \<Longrightarrow> tx_queue demo_net h = []"
    using demo_contents(1) cs[of h] by (simp add: tx_queue_def tx_fifo_def tx_part_def ch o chan_set_def)
qed

theorem composite_delivered_witness:
  "\<exists>s1 s2 t'. synx_global_merge [1, 2] 3 demo_merge = Some (0, s1) \<and> signal_all [(2, 4), (1, 2)] s1 = Some s2
    \<and> send_msgs (sg_msgs s2) demo_net = Some t' \<and> tx_queue t' 5 = [signal_data 65539 4]"
proof -
  have st: "\<forall>st \<in> set [4, 2]. SYNX_STATE_ACTIVE < st" "distinct [2, 1 :: u32]" "set [2, 1 :: u32] = set [1, 2]" "length [4, 2 :: u32] = length [2, 1 :: u32]"
    by (auto simp: SYNX_STATE_ACTIVE_def)
  have m: "sg_msgs demo_merge = []" by (simp add: demo_merge_def demo_gmem_def)
  have "fifo_cap demo_fifo = 3" by (simp add: fifo_cap_def fifo_n_def demo_fifo_def)
  then have room: "\<forall>h \<in> synx_hosts. length (tx_queue demo_net h) + Suc (length [1 :: u32, 2]) \<le> fifo_cap (tx_fifo demo_net h)"
    using demo_net_links(2,3) by (auto simp: synx_hosts_def)
  have c: "core_data demo_merge [(2, 4), (1, 2)] (sg_table demo_merge ! unat (3 :: u32)) 1 = [signal_data 65539 4]"
    using demo_merge_table by (simp add: core_data_def comp_status_def is_error_def synx_consts demo_obj_def zero_coredata_def)
  from composite_delivered[OF demo_mergeable refl st(2-4,1) m demo_net_links(1) room]
  obtain s1 s2 t' where d: "synx_global_merge [1, 2] 3 demo_merge = Some (0, s1)" "signal_all [(2, 4), (1, 2)] s1 = Some s2"
    "send_msgs (sg_msgs s2) demo_net = Some t'"
    "\<forall>core \<in> {1..<5}. tx_queue t' (host_of core) = tx_queue demo_net (host_of core) @ core_data demo_merge (zip [2, 1] [4, 2]) (sg_table demo_merge ! unat (3 :: u32)) core"
    by auto
  have "tx_queue t' (host_of 1) = [signal_data 65539 4]" using bspec[OF d(4), of 1] c demo_net_links(2)[of 5] by simp
  then show ?thesis using d(1-3) by auto
qed

end
