(* ===== verification/Cam_Sync.thy ===== *)
theory Cam_Sync
  imports Fence_Interfaces
begin

text \<open>
  The camera fences: \<^verbatim>\<open>camera-kernel/drivers/cam_sync/cam_sync.c\<close>, \<^verbatim>\<open>cam_sync_util.c\<close> and the user interface in
  \<^verbatim>\<open>cam_sync.h\<close>. A table of 2048 rows holds individual fences and groups of them; drivers register callbacks,
  user space registers payloads, and signalling the last child of a group signals the group.

  Each row has a spinlock. An operation is a composition of the sections the code runs under one row lock; the
  sections of a signal are separate definitions (\<open>signal_row\<close>, \<open>signal_parent\<close>), so that they can be interleaved. Only
  the merge holds one row lock while it takes another, and \<open>None\<close> is the deadlock when the two are the same. Callbacks are code of other
  drivers: that one is queued or called is an entry of a log.
\<close>

section \<open>The structures\<close>

definition CAM_SYNC_MAX_OBJS :: nat where "CAM_SYNC_MAX_OBJS = 2048"
definition SYNC_DEBUG_NAME_LEN :: nat where "SYNC_DEBUG_NAME_LEN = 63"
definition CAM_SYNC_TYPE_INDV :: u32 where "CAM_SYNC_TYPE_INDV = 0"
definition CAM_SYNC_TYPE_GROUP :: u32 where "CAM_SYNC_TYPE_GROUP = 1"
definition CAM_SYNC_STATE_INVALID :: u32 where "CAM_SYNC_STATE_INVALID = 0"
definition CAM_SYNC_STATE_ACTIVE :: u32 where "CAM_SYNC_STATE_ACTIVE = 1"
definition CAM_SYNC_STATE_SIGNALED_SUCCESS :: u32 where "CAM_SYNC_STATE_SIGNALED_SUCCESS = 2"
definition CAM_SYNC_STATE_SIGNALED_ERROR :: u32 where "CAM_SYNC_STATE_SIGNALED_ERROR = 3"
definition CAM_SYNC_STATE_SIGNALED_CANCEL :: u32 where "CAM_SYNC_STATE_SIGNALED_CANCEL = 4"
definition CAM_SYNC_COMMON_EVENT_SYNX :: u32 where "CAM_SYNC_COMMON_EVENT_SYNX = 4"
definition CAM_SYNC_COMMON_REG_PAYLOAD_EVENT :: u32 where "CAM_SYNC_COMMON_REG_PAYLOAD_EVENT = 5"
definition CAM_SYNC_COMMON_SYNC_SIGNAL_EVENT :: u32 where "CAM_SYNC_COMMON_SYNC_SIGNAL_EVENT = 6"
definition CAM_SYNC_COMMON_RELEASE_EVENT :: u32 where "CAM_SYNC_COMMON_RELEASE_EVENT = 7"
definition CAM_SYNC_V4L_EVENT_ID_CB_TRIG :: u32 where "CAM_SYNC_V4L_EVENT_ID_CB_TRIG = 0"
definition CAM_SYNC_EVENT_CNT :: nat where "CAM_SYNC_EVENT_CNT = 7"

text \<open>\<open>V4L2_EVENT_PRIVATE_START\<close> is a constant of the kernel's V4L2 interface.\<close>

definition V4L2_EVENT_PRIVATE_START :: u32 where "V4L2_EVENT_PRIVATE_START = 0x08000000"
definition CAM_SYNC_V4L_EVENT :: u32 where "CAM_SYNC_V4L_EVENT = V4L2_EVENT_PRIVATE_START + 0"
definition CAM_SYNC_V4L_EVENT_V2 :: u32 where "CAM_SYNC_V4L_EVENT_V2 = V4L2_EVENT_PRIVATE_START + 1"

lemmas cam_consts = CAM_SYNC_MAX_OBJS_def CAM_SYNC_TYPE_INDV_def CAM_SYNC_TYPE_GROUP_def CAM_SYNC_STATE_INVALID_def
  CAM_SYNC_STATE_ACTIVE_def CAM_SYNC_STATE_SIGNALED_SUCCESS_def CAM_SYNC_STATE_SIGNALED_ERROR_def
  CAM_SYNC_STATE_SIGNALED_CANCEL_def

datatype sync_list_clean_type = SYNC_LIST_CLEAN_ONE | SYNC_LIST_CLEAN_ALL

text \<open>A callback is a function pointer and its argument; both are opaque.\<close>

record sync_callback_info =
  cb_callback_func :: nat
  cb_cb_data :: u64
  cb_status :: u32
  cb_sync_obj :: nat

type_synonym user_payload = "u64 \<times> u64"

text \<open>The links to parents and children are lists of row numbers; \<open>sr_signaled\<close> is the completion.\<close>

record sync_table_row =
  sr_name :: string
  sr_type :: u32
  sr_sync_id :: nat
  sr_parents_list :: "nat list"
  sr_children_list :: "nat list"
  sr_state :: u32
  sr_remaining :: u32
  sr_signaled :: bool
  sr_callback_list :: "sync_callback_info list"
  sr_user_payload_list :: "user_payload list"
  sr_ref_cnt :: u32

text \<open>A row after \<open>memset\<close>.\<close>

definition zero_row :: sync_table_row where
  "zero_row = \<lparr>sr_name = [], sr_type = 0, sr_sync_id = 0, sr_parents_list = [], sr_children_list = [], sr_state = 0,
     sr_remaining = 0, sr_signaled = False, sr_callback_list = [], sr_user_payload_list = [], sr_ref_cnt = 0\<rparr>"

text \<open>The two event headers; \<open>None\<close> is a word of the event that the driver does not initialise.\<close>

datatype ev_header =
  cam_sync_ev_header nat u32
| cam_sync_ev_header_v2 nat u32 u32 "u32 option list"

record v4l2_event =
  ev_id :: u32
  ev_type :: u32
  ev_header :: ev_header
  ev_payload :: user_payload

record sync_device =
  sync_table :: "sync_table_row list"
  open_cnt :: int
  work_queue :: "sync_callback_info list"
  cam_sync_eventq :: bool
  bitmap :: "bool list"
  version :: u32
  trigger_cb_without_switch :: bool
  called :: "sync_callback_info list"
  events :: "v4l2_event list"

definition get_row :: "sync_device \<Rightarrow> nat \<Rightarrow> sync_table_row option" where
  "get_row s i = idx (sync_table s) i"

definition upd_row :: "nat \<Rightarrow> (sync_table_row \<Rightarrow> sync_table_row) \<Rightarrow> sync_device \<Rightarrow> sync_device" where
  "upd_row i f s = s\<lparr>sync_table := (sync_table s)[i := f (sync_table s ! i)]\<rparr>"

definition set_bmp :: "nat \<Rightarrow> sync_device \<Rightarrow> sync_device" where
  "set_bmp i s = s\<lparr>bitmap := (bitmap s)[i := True]\<rparr>"

definition clear_bmp :: "nat \<Rightarrow> sync_device \<Rightarrow> sync_device" where
  "clear_bmp i s = s\<lparr>bitmap := (bitmap s)[i := False]\<rparr>"

definition in_range :: "int \<Rightarrow> bool" where
  "in_range sync_obj \<longleftrightarrow> \<not> (sync_obj \<ge> int CAM_SYNC_MAX_OBJS \<or> sync_obj \<le> 0)"

definition is_signaled :: "u32 \<Rightarrow> bool" where
  "is_signaled st \<longleftrightarrow> st = CAM_SYNC_STATE_SIGNALED_SUCCESS \<or> st = CAM_SYNC_STATE_SIGNALED_ERROR \<or> st = CAM_SYNC_STATE_SIGNALED_CANCEL"

section \<open>Rows\<close>

text \<open>The first zero bit below \<open>n\<close>, or \<open>n\<close>.\<close>

fun find_first_zero :: "bool list \<Rightarrow> nat" where
  "find_first_zero [] = 0"
| "find_first_zero (b # bs) = (if b then Suc (find_first_zero bs) else 0)"

definition cam_sync_util_find_and_set_empty_row :: "sync_device \<Rightarrow> (nat option) \<times> sync_device" where
  "cam_sync_util_find_and_set_empty_row s =
     (let i = find_first_zero (bitmap s) in
      if i < CAM_SYNC_MAX_OBJS then (Some i, set_bmp i s) else (None, s))"

definition cam_sync_init_row :: "nat \<Rightarrow> string option \<Rightarrow> u32 \<Rightarrow> sync_device \<Rightarrow> (errno + unit) \<times> sync_device" where
  "cam_sync_init_row i name ty s =
     (if i \<le> 0 \<or> i \<ge> CAM_SYNC_MAX_OBJS then (Inl EINVAL, s)
      else (Inr (), upd_row i (\<lambda>_. zero_row\<lparr>
        sr_name := (case name of None \<Rightarrow> [] | Some n \<Rightarrow> take (SYNC_DEBUG_NAME_LEN - 1) n),
        sr_type := ty, sr_sync_id := i, sr_state := CAM_SYNC_STATE_ACTIVE, sr_remaining := 0, sr_ref_cnt := 0\<rparr>) s))"

text \<open>The two list clean-up functions differ only in the list they work on.\<close>

fun cleanup_list :: "sync_list_clean_type \<Rightarrow> nat \<Rightarrow> nat list \<Rightarrow> nat list" where
  "cleanup_list ty sync_obj [] = []"
| "cleanup_list ty sync_obj (x # xs) =
     (if ty = SYNC_LIST_CLEAN_ONE \<and> x \<noteq> sync_obj then x # cleanup_list ty sync_obj xs
      else if ty = SYNC_LIST_CLEAN_ONE \<and> x = sync_obj then xs
      else cleanup_list ty sync_obj xs)"

definition cam_sync_util_cleanup_children_list :: "sync_list_clean_type \<Rightarrow> nat \<Rightarrow> sync_table_row \<Rightarrow> sync_table_row" where
  "cam_sync_util_cleanup_children_list ty sync_obj r = r\<lparr>sr_children_list := cleanup_list ty sync_obj (sr_children_list r)\<rparr>"

definition cam_sync_util_cleanup_parents_list :: "sync_list_clean_type \<Rightarrow> nat \<Rightarrow> sync_table_row \<Rightarrow> sync_table_row" where
  "cam_sync_util_cleanup_parents_list ty sync_obj r = r\<lparr>sr_parents_list := cleanup_list ty sync_obj (sr_parents_list r)\<rparr>"

text \<open>The loop of \<open>cam_sync_init_group_object\<close> over the children, with the lock of row \<open>g\<close> held; \<open>kz\<close> tells which
  allocations succeed. An error comes with the number of the child at which the loop stopped.\<close>

fun link_children ::
    "(nat \<Rightarrow> bool) \<Rightarrow> nat \<Rightarrow> nat \<Rightarrow> nat list \<Rightarrow> sync_device \<Rightarrow> (((errno \<times> nat) + unit) \<times> sync_device) option" where
  "link_children kz g i [] s = Some (Inr (), s)"
| "link_children kz g i (c # cs) s =
     (if c = g then None
      else do {
        child_row \<leftarrow> get_row s c;
        if sr_type child_row = CAM_SYNC_TYPE_GROUP \<or> sr_state child_row = CAM_SYNC_STATE_INVALID
        then Some (Inl (EINVAL, i), s)
        else if sr_state child_row = CAM_SYNC_STATE_SIGNALED_ERROR \<or> sr_state child_row = CAM_SYNC_STATE_SIGNALED_CANCEL
        then link_children kz g (Suc i) cs (upd_row g (\<lambda>r. r\<lparr>sr_state := sr_state child_row\<rparr>) s)
        else if sr_state child_row \<noteq> CAM_SYNC_STATE_ACTIVE
        then link_children kz g (Suc i) cs s
        else
          let s1 = upd_row g (\<lambda>r. r\<lparr>sr_remaining := sr_remaining r + 1\<rparr>) s in
          if \<not> kz (2 * i) then Some (Inl (ENOMEM, i), s1)
          else let s2 = upd_row g (\<lambda>r. r\<lparr>sr_children_list := sr_children_list r @ [c]\<rparr>) s1 in
          if \<not> kz (2 * i + 1) then Some (Inl (ENOMEM, i), s2)
          else link_children kz g (Suc i) cs (upd_row c (\<lambda>r. r\<lparr>sr_parents_list := sr_parents_list r @ [g]\<rparr>) s2) })"

definition clean_children_info :: "nat \<Rightarrow> nat list \<Rightarrow> sync_device \<Rightarrow> sync_device" where
  "clean_children_info g cs s =
     upd_row g (cam_sync_util_cleanup_children_list SYNC_LIST_CLEAN_ALL 0)
       (fold (\<lambda>c. upd_row c (cam_sync_util_cleanup_parents_list SYNC_LIST_CLEAN_ONE g)) cs
         (upd_row g (\<lambda>r. r\<lparr>sr_state := CAM_SYNC_STATE_INVALID\<rparr>) s))"

definition cam_sync_init_group_object ::
    "(nat \<Rightarrow> bool) \<Rightarrow> nat \<Rightarrow> nat list \<Rightarrow> sync_device \<Rightarrow> ((errno + unit) \<times> sync_device) option" where
  "cam_sync_init_group_object kz g sync_objs s = do {
     (r, s1) \<leftarrow> link_children kz g 0 sync_objs (snd (cam_sync_init_row g (Some ''merged_fence'') CAM_SYNC_TYPE_GROUP s));
     (case r of
        Inl (e, i) \<Rightarrow> Some (Inl e, clean_children_info g (rev (take i sync_objs)) s1)
      | Inr _ \<Rightarrow> do {
          row \<leftarrow> get_row s1 g;
          if sr_remaining row = 0
          then Some (Inr (), upd_row g (\<lambda>r. r\<lparr>
            sr_state := (if sr_state r \<noteq> CAM_SYNC_STATE_SIGNALED_ERROR \<and> sr_state r \<noteq> CAM_SYNC_STATE_SIGNALED_CANCEL
                         then CAM_SYNC_STATE_SIGNALED_SUCCESS else sr_state r),
            sr_signaled := True\<rparr>) s1)
          else Some (Inr (), s1) }) }"

text \<open>The two loops of \<open>cam_sync_deinit_object\<close> that cut the links of the other rows.\<close>

fun cut_child_links :: "nat \<Rightarrow> nat list \<Rightarrow> sync_device \<Rightarrow> sync_device option" where
  "cut_child_links i [] s = Some s"
| "cut_child_links i (c # cs) s = do {
     child_row \<leftarrow> get_row s c;
     cut_child_links i cs
       (if sr_state child_row = CAM_SYNC_STATE_INVALID then s
        else upd_row c (cam_sync_util_cleanup_parents_list SYNC_LIST_CLEAN_ONE i) s) }"

fun cut_parent_links :: "nat \<Rightarrow> nat list \<Rightarrow> sync_device \<Rightarrow> sync_device option" where
  "cut_parent_links i [] s = Some s"
| "cut_parent_links i (p # ps) s = do {
     parent_row \<leftarrow> get_row s p;
     cut_parent_links i ps
       (if sr_state parent_row = CAM_SYNC_STATE_INVALID then s
        else upd_row p (cam_sync_util_cleanup_children_list SYNC_LIST_CLEAN_ONE i) s) }"

definition cam_sync_deinit_object :: "int \<Rightarrow> sync_device \<Rightarrow> ((errno + unit) \<times> sync_device) option" where
  "cam_sync_deinit_object sync_obj s =
     (let i = unat (of_int sync_obj :: u32) in
      if i \<le> 0 \<or> i \<ge> CAM_SYNC_MAX_OBJS then Some (Inl EINVAL, s)
      else do {
        row \<leftarrow> get_row s i;
        if sr_state row = CAM_SYNC_STATE_INVALID then Some (Inl EINVAL, s)
        else do {
          let s1 = upd_row i (\<lambda>r. r\<lparr>sr_state := CAM_SYNC_STATE_INVALID,
            sr_children_list := filter (\<lambda>c. c \<le> 0) (sr_children_list r),
            sr_parents_list := filter (\<lambda>p. p \<le> 0) (sr_parents_list r)\<rparr>) s;
          s2 \<leftarrow> cut_child_links i (filter (\<lambda>c. \<not> c \<le> 0) (sr_children_list row)) s1;
          s3 \<leftarrow> cut_parent_links i (filter (\<lambda>p. \<not> p \<le> 0) (sr_parents_list row)) s2;
          Some (Inr (), clear_bmp i (upd_row i (\<lambda>_. zero_row) s3)) } })"

section \<open>Telling the waiters\<close>

text \<open>\<open>cam_sync_util_send_v4l2_event\<close>; the header of version 2 has seven parameters, of which the driver writes the first.\<close>

definition cam_sync_util_send_v4l2_event :: "u32 \<Rightarrow> nat \<Rightarrow> u32 \<Rightarrow> user_payload \<Rightarrow> u32 \<Rightarrow> sync_device \<Rightarrow> sync_device" where
  "cam_sync_util_send_v4l2_event ev sync_obj status payload event_cause s =
     s\<lparr>events := events s @
       [if version s = CAM_SYNC_V4L_EVENT_V2
        then \<lparr>ev_id = ev, ev_type = CAM_SYNC_V4L_EVENT_V2,
               ev_header = cam_sync_ev_header_v2 sync_obj status (version s)
                 (Some event_cause # replicate (CAM_SYNC_EVENT_CNT - 1) None),
               ev_payload = payload\<rparr>
        else \<lparr>ev_id = ev, ev_type = CAM_SYNC_V4L_EVENT, ev_header = cam_sync_ev_header sync_obj status, ev_payload = payload\<rparr>]\<rparr>"

fun dispatch_payloads :: "nat \<Rightarrow> u32 \<Rightarrow> u32 \<Rightarrow> user_payload list \<Rightarrow> sync_device \<Rightarrow> sync_device" where
  "dispatch_payloads sync_obj status event_cause [] s = s"
| "dispatch_payloads sync_obj status event_cause (p # ps) s =
     (if \<not> cam_sync_eventq s then s
      else dispatch_payloads sync_obj status event_cause ps
        (upd_row sync_obj (\<lambda>r. r\<lparr>sr_user_payload_list := ps\<rparr>)
          (cam_sync_util_send_v4l2_event CAM_SYNC_V4L_EVENT_ID_CB_TRIG sync_obj status p event_cause s)))"

definition cam_sync_util_dispatch_signaled_cb :: "nat \<Rightarrow> u32 \<Rightarrow> u32 \<Rightarrow> sync_device \<Rightarrow> sync_device option" where
  "cam_sync_util_dispatch_signaled_cb sync_obj status event_cause s = do {
     row \<leftarrow> get_row s sync_obj;
     if sr_state row = CAM_SYNC_STATE_INVALID then Some s
     else
       let s1 = (upd_row sync_obj (\<lambda>r. r\<lparr>sr_callback_list := []\<rparr>) s)\<lparr>
                  work_queue := work_queue s @ map (\<lambda>cb. cb\<lparr>cb_status := status\<rparr>) (sr_callback_list row)\<rparr>;
           s2 = dispatch_payloads sync_obj status event_cause (sr_user_payload_list row) s1 in
       Some (upd_row sync_obj (\<lambda>r. r\<lparr>sr_signaled := True\<rparr>) s2) }"

text \<open>A worker thread takes the next item of the work queue; flushing the queue runs all items.\<close>

definition cam_sync_util_cb_dispatch :: "sync_device \<Rightarrow> sync_device" where
  "cam_sync_util_cb_dispatch s =
     (case work_queue s of [] \<Rightarrow> s | cb # q \<Rightarrow> s\<lparr>work_queue := q, called := called s @ [cb]\<rparr>)"

definition flush_workqueue :: "sync_device \<Rightarrow> sync_device" where
  "flush_workqueue s = (cam_sync_util_cb_dispatch ^^ length (work_queue s)) s"

definition cam_sync_util_update_parent_state :: "u32 \<Rightarrow> sync_table_row \<Rightarrow> (errno + unit) \<times> sync_table_row" where
  "cam_sync_util_update_parent_state new_state r =
     (if sr_state r = CAM_SYNC_STATE_ACTIVE \<or> sr_state r = CAM_SYNC_STATE_SIGNALED_SUCCESS
      then (Inr (), r\<lparr>sr_state := new_state\<rparr>)
      else if sr_state r = CAM_SYNC_STATE_SIGNALED_ERROR \<or> sr_state r = CAM_SYNC_STATE_SIGNALED_CANCEL then (Inr (), r)
      else (Inl EINVAL, r))"

section \<open>The kernel interface\<close>

text \<open>The search for a free row. Others allocate from the same bitmap without a lock: \<open>env k\<close> is what they do to it in
  round \<open>k\<close>, between the search and the atomic test-and-set; the loop has \<open>fuel\<close> rounds.\<close>

fun alloc_row :: "(nat \<Rightarrow> bool list \<Rightarrow> bool list) \<Rightarrow> nat \<Rightarrow> nat \<Rightarrow> bool list \<Rightarrow> ((errno + nat) \<times> bool list) option" where
  "alloc_row env 0 k bm = None"
| "alloc_row env (Suc fuel) k bm =
     (let i = find_first_zero bm in
      if i \<ge> CAM_SYNC_MAX_OBJS then Some (Inl ENOMEM, bm)
      else let bm' = env k bm in do {
        bit \<leftarrow> idx bm' i;
        if bit then alloc_row env fuel (Suc k) bm' else Some (Inr i, bm'[i := True]) })"

definition cam_sync_create ::
    "(nat \<Rightarrow> bool list \<Rightarrow> bool list) \<Rightarrow> nat \<Rightarrow> string option \<Rightarrow> sync_device \<Rightarrow> ((errno + int) \<times> sync_device) option" where
  "cam_sync_create env fuel name s = do {
     (r, bm) \<leftarrow> alloc_row env fuel 0 (bitmap s);
     let s1 = s\<lparr>bitmap := bm\<rparr>;
     (case r of
        Inl e \<Rightarrow> Some (Inl e, s1)
      | Inr i \<Rightarrow>
          (case cam_sync_init_row i name CAM_SYNC_TYPE_INDV s1 of
             (Inl e, s2) \<Rightarrow> Some (Inl EINVAL, clear_bmp i s2)
           | (Inr _, s2) \<Rightarrow> Some (Inr (int i), s2))) }"

definition cam_sync_register_callback ::
    "bool \<Rightarrow> nat option \<Rightarrow> u64 \<Rightarrow> int \<Rightarrow> sync_device \<Rightarrow> ((errno + unit) \<times> sync_device) option" where
  "cam_sync_register_callback kz cb_func userdata sync_obj s =
     (case cb_func of
        None \<Rightarrow> Some (Inl EINVAL, s)
      | Some f \<Rightarrow>
          if \<not> in_range sync_obj then Some (Inl EINVAL, s)
          else let i = nat sync_obj in do {
            row \<leftarrow> get_row s i;
            if sr_state row = CAM_SYNC_STATE_INVALID then Some (Inl EINVAL, s)
            else if \<not> kz then Some (Inl ENOMEM, s)
            else
              let cb = \<lparr>cb_callback_func = f, cb_cb_data = userdata, cb_status = 0, cb_sync_obj = i\<rparr> in
              if is_signaled (sr_state row) \<and> sr_remaining row = 0
              then if trigger_cb_without_switch s
                   then Some (Inr (), s\<lparr>called := called s @ [cb\<lparr>cb_status := sr_state row\<rparr>]\<rparr>)
                   else Some (Inr (), s\<lparr>work_queue := work_queue s @ [cb\<lparr>cb_status := sr_state row\<rparr>]\<rparr>)
              else Some (Inr (), upd_row i (\<lambda>r. r\<lparr>sr_callback_list := sr_callback_list r @ [cb]\<rparr>) s) })"

definition cb_matches :: "nat \<Rightarrow> u64 \<Rightarrow> sync_callback_info \<Rightarrow> bool" where
  "cb_matches f d cb \<longleftrightarrow> cb_callback_func cb = f \<and> cb_cb_data cb = d"

definition cam_sync_deregister_callback :: "nat \<Rightarrow> u64 \<Rightarrow> int \<Rightarrow> sync_device \<Rightarrow> ((errno + unit) \<times> sync_device) option" where
  "cam_sync_deregister_callback cb_func userdata sync_obj s =
     (if \<not> in_range sync_obj then Some (Inl EINVAL, s)
      else let i = nat sync_obj in do {
        row \<leftarrow> get_row s i;
        if sr_state row = CAM_SYNC_STATE_INVALID then Some (Inl EINVAL, s)
        else
          Some (if filter (cb_matches cb_func userdata) (sr_callback_list row) \<noteq> [] then Inr () else Inl ENOENT,
                upd_row i (\<lambda>r. r\<lparr>sr_callback_list := filter (\<lambda>cb. \<not> cb_matches cb_func userdata cb) (sr_callback_list r)\<rparr>) s) })"

text \<open>\<open>cam_sync_signal\<close> first works under the lock of the row and takes the list of its parents away (\<open>signal_row\<close>), then
  locks the parents one after the other (\<open>signal_parent\<close>).\<close>

definition signal_row :: "int \<Rightarrow> u32 \<Rightarrow> u32 \<Rightarrow> sync_device \<Rightarrow> ((errno + nat list) \<times> sync_device) option" where
  "signal_row sync_obj status event_cause s =
     (if \<not> in_range sync_obj then Some (Inl EINVAL, s)
      else let i = nat sync_obj in do {
        row \<leftarrow> get_row s i;
        if sr_state row = CAM_SYNC_STATE_INVALID then Some (Inl EINVAL, s)
        else if sr_type row = CAM_SYNC_TYPE_GROUP then Some (Inl EINVAL, s)
        else if sr_state row \<noteq> CAM_SYNC_STATE_ACTIVE then Some (Inl EALREADY, s)
        else if \<not> is_signaled status then Some (Inl EINVAL, s)
        else
          let s1 = upd_row i (\<lambda>r. r\<lparr>sr_ref_cnt := sr_ref_cnt r - 1\<rparr>) s in
          if sr_ref_cnt row - 1 \<noteq> 0 then Some (Inr [], s1)
          else do {
            s2 \<leftarrow> cam_sync_util_dispatch_signaled_cb i status event_cause (upd_row i (\<lambda>r. r\<lparr>sr_state := status\<rparr>) s1);
            Some (Inr (sr_parents_list row), upd_row i (\<lambda>r. r\<lparr>sr_parents_list := []\<rparr>) s2) } })"

definition signal_parent :: "u32 \<Rightarrow> u32 \<Rightarrow> nat \<Rightarrow> sync_device \<Rightarrow> sync_device option" where
  "signal_parent status event_cause p s = do {
     row \<leftarrow> get_row s p;
     let row1 = row\<lparr>sr_remaining := sr_remaining row - 1\<rparr>;
     (case cam_sync_util_update_parent_state status row1 of
        (Inl _, row2) \<Rightarrow> Some (upd_row p (\<lambda>_. row2) s)
      | (Inr _, row2) \<Rightarrow>
          if sr_remaining row2 = 0
          then cam_sync_util_dispatch_signaled_cb p (sr_state row2) event_cause (upd_row p (\<lambda>_. row2) s)
          else Some (upd_row p (\<lambda>_. row2) s)) }"

fun signal_parents :: "u32 \<Rightarrow> u32 \<Rightarrow> nat list \<Rightarrow> sync_device \<Rightarrow> sync_device option" where
  "signal_parents status event_cause [] s = Some s"
| "signal_parents status event_cause (p # ps) s = Option.bind (signal_parent status event_cause p s) (signal_parents status event_cause ps)"

definition cam_sync_signal :: "int \<Rightarrow> u32 \<Rightarrow> u32 \<Rightarrow> sync_device \<Rightarrow> ((errno + unit) \<times> sync_device) option" where
  "cam_sync_signal sync_obj status event_cause s = do {
     (r, s1) \<leftarrow> signal_row sync_obj status event_cause s;
     (case r of
        Inl e \<Rightarrow> Some (Inl e, s1)
      | Inr parents \<Rightarrow> map_option (Pair (Inr ())) (signal_parents status event_cause parents s1)) }"

definition cam_sync_check_valid :: "int \<Rightarrow> sync_device \<Rightarrow> (errno + unit) option" where
  "cam_sync_check_valid sync_obj s =
     (if \<not> in_range sync_obj then Some (Inl EINVAL)
      else do {
        row \<leftarrow> get_row s (nat sync_obj);
        bit \<leftarrow> idx (bitmap s) (nat sync_obj);
        Some (if \<not> bit then Inl EINVAL
              else if sr_state row = CAM_SYNC_STATE_INVALID then Inl EINVAL else Inr ()) })"

text \<open>\<open>cam_common_util_remove_duplicate_arr\<close> compacts the array in place: \<open>wr\<close> elements are known to be different, \<open>i\<close> is
  the element looked at.\<close>

function remove_dup_loop :: "nat \<Rightarrow> nat \<Rightarrow> int list \<Rightarrow> nat \<times> int list" where
  "remove_dup_loop i wr arr =
     (if i < length arr
      then if arr ! i \<in> set (take wr arr) then remove_dup_loop (Suc i) wr arr
           else remove_dup_loop (Suc i) (Suc wr) (arr[wr := arr ! i])
      else (wr, arr))"
  by pat_completeness auto
termination by (relation "measure (\<lambda>(i, wr, arr). length arr - i)") auto

declare remove_dup_loop.simps [simp del]

definition cam_common_util_remove_duplicate_arr :: "int list \<Rightarrow> nat \<times> int list" where
  "cam_common_util_remove_duplicate_arr arr = remove_dup_loop 1 1 arr"

fun check_valid_all :: "int list \<Rightarrow> sync_device \<Rightarrow> (errno + unit) option" where
  "check_valid_all [] s = Some (Inr ())"
| "check_valid_all (x # xs) s = do {
     r \<leftarrow> cam_sync_check_valid x s;
     (case r of Inl e \<Rightarrow> Some (Inl e) | Inr _ \<Rightarrow> check_valid_all xs s) }"

definition cam_sync_merge ::
    "(nat \<Rightarrow> bool list \<Rightarrow> bool list) \<Rightarrow> nat \<Rightarrow> (nat \<Rightarrow> bool) \<Rightarrow> int list \<Rightarrow> sync_device \<Rightarrow> ((errno + int) \<times> sync_device) option" where
  "cam_sync_merge env fuel kz sync_obj s =
     (if length sync_obj \<le> 1 then Some (Inl EINVAL, s)
      else let (n, objs) = cam_common_util_remove_duplicate_arr sync_obj in
      if n \<noteq> length sync_obj then Some (Inl EINVAL, s)
      else do {
        rc \<leftarrow> check_valid_all objs s;
        (case rc of
           Inl e \<Rightarrow> Some (Inl e, s)
         | Inr _ \<Rightarrow> do {
             (r, bm) \<leftarrow> alloc_row env fuel 0 (bitmap s);
             let s1 = s\<lparr>bitmap := bm\<rparr>;
             (case r of
                Inl e \<Rightarrow> Some (Inl e, s1)
              | Inr g \<Rightarrow> do {
                  (rc, s2) \<leftarrow> cam_sync_init_group_object kz g (map nat objs) s1;
                  (case rc of
                     Inl e \<Rightarrow> Some (Inl EINVAL, clear_bmp g s2)
                   | Inr _ \<Rightarrow> Some (Inr (int g), s2)) }) }) })"

definition cam_sync_get_obj_ref :: "int \<Rightarrow> sync_device \<Rightarrow> ((errno + unit) \<times> sync_device) option" where
  "cam_sync_get_obj_ref sync_obj s =
     (if \<not> in_range sync_obj then Some (Inl EINVAL, s)
      else do {
        row \<leftarrow> get_row s (nat sync_obj);
        if sr_state row \<noteq> CAM_SYNC_STATE_ACTIVE then Some (Inl EINVAL, s)
        else Some (Inr (), upd_row (nat sync_obj) (\<lambda>r. r\<lparr>sr_ref_cnt := sr_ref_cnt r + 1\<rparr>) s) })"

definition cam_sync_put_obj_ref :: "int \<Rightarrow> sync_device \<Rightarrow> ((errno + unit) \<times> sync_device) option" where
  "cam_sync_put_obj_ref sync_obj s =
     (if \<not> in_range sync_obj then Some (Inl EINVAL, s)
      else do {
        row \<leftarrow> get_row s (nat sync_obj);
        Some (Inr (), upd_row (nat sync_obj) (\<lambda>r. r\<lparr>sr_ref_cnt := sr_ref_cnt r - 1\<rparr>) s) })"

definition cam_sync_destroy :: "int \<Rightarrow> sync_device \<Rightarrow> ((errno + unit) \<times> sync_device) option" where
  "cam_sync_destroy sync_obj s = cam_sync_deinit_object sync_obj s"

text \<open>Waiting: \<open>env\<close> is what the others do until the completion fires or the timeout ends the wait.\<close>

definition cam_sync_wait :: "(sync_device \<Rightarrow> sync_device) \<Rightarrow> int \<Rightarrow> sync_device \<Rightarrow> ((errno + unit) \<times> sync_device) option" where
  "cam_sync_wait env sync_obj s =
     (if \<not> in_range sync_obj then Some (Inl EINVAL, s)
      else do {
        row \<leftarrow> get_row s (nat sync_obj);
        if sr_state row = CAM_SYNC_STATE_INVALID then Some (Inl EINVAL, s)
        else let s' = env s in do {
          row' \<leftarrow> get_row s' (nat sync_obj);
          Some (if \<not> sr_signaled row' then Inl ETIMEDOUT
                else if sr_state row' = CAM_SYNC_STATE_SIGNALED_SUCCESS then Inr () else Inl EINVAL, s') } })"

section \<open>The user interface\<close>

record cam_sync_info =
  si_name :: string
  si_sync_obj :: int

record cam_sync_signal_arg =
  ss_sync_obj :: int
  ss_sync_state :: u32

record cam_sync_merge_arg =
  sm_sync_objs :: u64
  sm_num_objs :: u32
  sm_merged :: int

record cam_sync_userpayload_info =
  up_sync_obj :: int
  up_payload :: user_payload

record cam_sync_wait_arg =
  sw_sync_obj :: int
  sw_timeout_ms :: u64

datatype sync_ioctl_id = CAM_SYNC_CREATE | CAM_SYNC_DESTROY | CAM_SYNC_SIGNAL | CAM_SYNC_MERGE | CAM_SYNC_REGISTER_PAYLOAD
  | CAM_SYNC_DEREGISTER_PAYLOAD | CAM_SYNC_WAIT

definition ioctl_id :: "u32 \<Rightarrow> sync_ioctl_id option" where
  "ioctl_id n = (if n = 0 then Some CAM_SYNC_CREATE else if n = 1 then Some CAM_SYNC_DESTROY else if n = 2 then Some CAM_SYNC_SIGNAL
     else if n = 3 then Some CAM_SYNC_MERGE else if n = 4 then Some CAM_SYNC_REGISTER_PAYLOAD
     else if n = 5 then Some CAM_SYNC_DEREGISTER_PAYLOAD else if n = 6 then Some CAM_SYNC_WAIT else None)"

record cam_private_ioctl_arg =
  io_id :: u32
  io_size :: u32
  io_result :: "errno + unit"
  io_ioctl_ptr :: u64

text \<open>What the driver meets in user memory and in the kernel during one call: the structure at \<open>ioctl_ptr\<close> as each handler
  reads it (\<open>None\<close> is a fault), the array of a merge, whether the answer can be written, whether the allocations
  succeed, and what others do to the bitmap and to the device meanwhile.\<close>

record user_env =
  ue_info :: "cam_sync_info option"
  ue_signal :: "cam_sync_signal_arg option"
  ue_merge :: "cam_sync_merge_arg option"
  ue_objs :: "int list option"
  ue_payload :: "cam_sync_userpayload_info option"
  ue_wait :: "cam_sync_wait_arg option"
  ue_copy_to_user :: bool
  ue_kzalloc :: bool
  ue_kz :: "nat \<Rightarrow> bool"
  ue_alloc :: "nat \<Rightarrow> bool list \<Rightarrow> bool list"
  ue_others :: "sync_device \<Rightarrow> sync_device"

definition ioctl_arg :: "cam_private_ioctl_arg \<Rightarrow> u32 \<Rightarrow> 'a option \<Rightarrow> errno + 'a" where
  "ioctl_arg k_ioctl sz arg =
     (if io_size k_ioctl \<noteq> sz then Inl EINVAL
      else if io_ioctl_ptr k_ioctl = 0 then Inl EINVAL
      else (case arg of None \<Rightarrow> Inl EFAULT | Some a \<Rightarrow> Inr a))"

definition cam_sync_handle_create ::
    "user_env \<Rightarrow> nat \<Rightarrow> cam_private_ioctl_arg \<Rightarrow> sync_device \<Rightarrow> ((errno + unit) \<times> cam_sync_info option \<times> sync_device) option" where
  "cam_sync_handle_create u fuel k_ioctl s =
     (case ioctl_arg k_ioctl 68 (ue_info u) of
        Inl e \<Rightarrow> Some (Inl e, None, s)
      | Inr sync_create \<Rightarrow> do {
          (r, s1) \<leftarrow> cam_sync_create (ue_alloc u) fuel (Some (take SYNC_DEBUG_NAME_LEN (si_name sync_create))) s;
          (case r of
             Inl e \<Rightarrow> Some (Inl e, None, s1)
           | Inr obj \<Rightarrow> if ue_copy_to_user u then Some (Inr (), Some (sync_create\<lparr>si_sync_obj := obj\<rparr>), s1)
                       else Some (Inl EFAULT, None, s1)) })"

definition cam_sync_handle_signal ::
    "user_env \<Rightarrow> cam_private_ioctl_arg \<Rightarrow> sync_device \<Rightarrow> ((errno + unit) \<times> sync_device) option" where
  "cam_sync_handle_signal u k_ioctl s =
     (case ioctl_arg k_ioctl 8 (ue_signal u) of
        Inl e \<Rightarrow> Some (Inl e, s)
      | Inr a \<Rightarrow> do {
          (r, s1) \<leftarrow> cam_sync_get_obj_ref (ss_sync_obj a) s;
          (case r of
             Inl e \<Rightarrow> Some (Inl e, s1)
           | Inr _ \<Rightarrow> cam_sync_signal (ss_sync_obj a) (ss_sync_state a) CAM_SYNC_COMMON_SYNC_SIGNAL_EVENT s1) })"

definition cam_sync_handle_merge ::
    "user_env \<Rightarrow> nat \<Rightarrow> cam_private_ioctl_arg \<Rightarrow> sync_device \<Rightarrow> ((errno + unit) \<times> cam_sync_merge_arg option \<times> sync_device) option" where
  "cam_sync_handle_merge u fuel k_ioctl s =
     (case ioctl_arg k_ioctl 16 (ue_merge u) of
        Inl e \<Rightarrow> Some (Inl e, None, s)
      | Inr sync_merge \<Rightarrow>
          if unat (sm_num_objs sync_merge) \<ge> CAM_SYNC_MAX_OBJS then Some (Inl EINVAL, None, s)
          else if \<not> ue_kzalloc u then Some (Inl ENOMEM, None, s)
          else (case ue_objs u of
             None \<Rightarrow> Some (Inl EFAULT, None, s)
           | Some objs \<Rightarrow> do {
               (r, s1) \<leftarrow> cam_sync_merge (ue_alloc u) fuel (ue_kz u) (take (unat (sm_num_objs sync_merge)) objs) s;
               (case r of
                  Inl e \<Rightarrow> Some (Inl e, None, s1)
                | Inr g \<Rightarrow> if ue_copy_to_user u then Some (Inr (), Some (sync_merge\<lparr>sm_merged := g\<rparr>), s1)
                          else Some (Inl EFAULT, None, s1)) }))"

definition cam_sync_handle_wait ::
    "user_env \<Rightarrow> cam_private_ioctl_arg \<Rightarrow> sync_device \<Rightarrow> ((errno + unit) \<times> cam_private_ioctl_arg \<times> sync_device) option" where
  "cam_sync_handle_wait u k_ioctl s =
     (case ioctl_arg k_ioctl 16 (ue_wait u) of
        Inl e \<Rightarrow> Some (Inl e, k_ioctl, s)
      | Inr a \<Rightarrow> do {
          (r, s1) \<leftarrow> cam_sync_wait (ue_others u) (sw_sync_obj a) s;
          Some (Inr (), k_ioctl\<lparr>io_result := r\<rparr>, s1) })"

definition cam_sync_handle_destroy ::
    "user_env \<Rightarrow> cam_private_ioctl_arg \<Rightarrow> sync_device \<Rightarrow> ((errno + unit) \<times> sync_device) option" where
  "cam_sync_handle_destroy u k_ioctl s =
     (case ioctl_arg k_ioctl 68 (ue_info u) of
        Inl e \<Rightarrow> Some (Inl e, s)
      | Inr a \<Rightarrow> cam_sync_destroy (si_sync_obj a) s)"

definition cam_sync_handle_register_user_payload ::
    "user_env \<Rightarrow> cam_private_ioctl_arg \<Rightarrow> sync_device \<Rightarrow> ((errno + unit) \<times> sync_device) option" where
  "cam_sync_handle_register_user_payload u k_ioctl s =
     (case ioctl_arg k_ioctl 24 (ue_payload u) of
        Inl e \<Rightarrow> Some (Inl e, s)
      | Inr a \<Rightarrow>
          let sync_obj = unat (of_int (up_sync_obj a) :: u32) in
          if sync_obj \<ge> CAM_SYNC_MAX_OBJS \<or> sync_obj \<le> 0 then Some (Inl EINVAL, s)
          else if \<not> ue_kzalloc u then Some (Inl ENOMEM, s)
          else do {
            row \<leftarrow> get_row s sync_obj;
            if sr_state row = CAM_SYNC_STATE_INVALID then Some (Inl EINVAL, s)
            else if is_signaled (sr_state row)
            then Some (Inr (), cam_sync_util_send_v4l2_event CAM_SYNC_V4L_EVENT_ID_CB_TRIG sync_obj (sr_state row)
                   (up_payload a) CAM_SYNC_COMMON_REG_PAYLOAD_EVENT s)
            else if up_payload a \<in> set (sr_user_payload_list row) then Some (Inl EALREADY, s)
            else Some (Inr (), upd_row sync_obj (\<lambda>r. r\<lparr>sr_user_payload_list := sr_user_payload_list r @ [up_payload a]\<rparr>) s) })"

definition cam_sync_handle_deregister_user_payload ::
    "user_env \<Rightarrow> cam_private_ioctl_arg \<Rightarrow> sync_device \<Rightarrow> ((errno + unit) \<times> sync_device) option" where
  "cam_sync_handle_deregister_user_payload u k_ioctl s =
     (case ioctl_arg k_ioctl 24 (ue_payload u) of
        Inl e \<Rightarrow> Some (Inl e, s)
      | Inr a \<Rightarrow>
          let sync_obj = unat (of_int (up_sync_obj a) :: u32) in
          if sync_obj \<ge> CAM_SYNC_MAX_OBJS \<or> sync_obj \<le> 0 then Some (Inl EINVAL, s)
          else do {
            row \<leftarrow> get_row s sync_obj;
            if sr_state row = CAM_SYNC_STATE_INVALID then Some (Inl EINVAL, s)
            else Some (Inr (), upd_row sync_obj (\<lambda>r. r\<lparr>sr_user_payload_list := removeAll (up_payload a) (sr_user_payload_list r)\<rparr>) s) })"

text \<open>The answer of a call: the return code, the argument block, and what is copied to user space.\<close>

record ioctl_answer =
  an_rc :: "errno + unit"
  an_arg :: "cam_private_ioctl_arg option"
  an_info :: "cam_sync_info option"
  an_merge :: "cam_sync_merge_arg option"

definition cam_sync_dev_ioctl ::
    "user_env \<Rightarrow> nat \<Rightarrow> bool \<Rightarrow> cam_private_ioctl_arg option \<Rightarrow> sync_device \<Rightarrow> (ioctl_answer \<times> sync_device) option" where
  "cam_sync_dev_ioctl u fuel cmd_ok arg s =
     (let answer = (\<lambda>r. \<lparr>an_rc = r, an_arg = arg, an_info = None, an_merge = None\<rparr>);
          simple = map_option (\<lambda>(r, s'). (answer r, s')) in
      case arg of
        None \<Rightarrow> Some (answer (Inl EINVAL), s)
      | Some k_ioctl \<Rightarrow>
          if \<not> cmd_ok then Some (answer (Inl ENOIOCTLCMD), s)
          else
          (case ioctl_id (io_id k_ioctl) of
             None \<Rightarrow> Some (answer (Inl ENOIOCTLCMD), s)
           | Some CAM_SYNC_CREATE \<Rightarrow>
               map_option (\<lambda>(r, info, s'). ((answer r)\<lparr>an_info := info\<rparr>, s')) (cam_sync_handle_create u fuel k_ioctl s)
           | Some CAM_SYNC_DESTROY \<Rightarrow> simple (cam_sync_handle_destroy u k_ioctl s)
           | Some CAM_SYNC_REGISTER_PAYLOAD \<Rightarrow> simple (cam_sync_handle_register_user_payload u k_ioctl s)
           | Some CAM_SYNC_DEREGISTER_PAYLOAD \<Rightarrow> simple (cam_sync_handle_deregister_user_payload u k_ioctl s)
           | Some CAM_SYNC_SIGNAL \<Rightarrow> simple (cam_sync_handle_signal u k_ioctl s)
           | Some CAM_SYNC_MERGE \<Rightarrow>
               map_option (\<lambda>(r, m, s'). ((answer r)\<lparr>an_merge := m\<rparr>, s')) (cam_sync_handle_merge u fuel k_ioctl s)
           | Some CAM_SYNC_WAIT \<Rightarrow>
               map_option (\<lambda>(r, k, s'). ((answer r)\<lparr>an_arg := Some (k_ioctl\<lparr>io_result := io_result k\<rparr>)\<rparr>, s')) (cam_sync_handle_wait u k_ioctl s)))"

section \<open>The device\<close>

definition cam_sync_open :: "(errno + unit) \<Rightarrow> sync_device \<Rightarrow> (errno + unit) \<times> sync_device" where
  "cam_sync_open v4l2_fh_open s =
     (if open_cnt s \<ge> 1 then (Inl EALREADY, s)
      else (case v4l2_fh_open of
         Inr _ \<Rightarrow> (Inr (), s\<lparr>open_cnt := open_cnt s + 1, cam_sync_eventq := True\<rparr>)
       | Inl e \<Rightarrow> (Inl e, s)))"

text \<open>The two loops of \<open>cam_sync_close\<close>, over the rows from 1 on; \<open>rc\<close> is the code of the last call.\<close>

fun close_signal :: "nat list \<Rightarrow> (errno + unit) \<times> sync_device \<Rightarrow> ((errno + unit) \<times> sync_device) option" where
  "close_signal [] rs = Some rs"
| "close_signal (i # is') rs = do {
     row \<leftarrow> get_row (snd rs) i;
     if sr_state row = CAM_SYNC_STATE_ACTIVE
     then Option.bind (cam_sync_signal (int i) CAM_SYNC_STATE_SIGNALED_ERROR CAM_SYNC_COMMON_RELEASE_EVENT (snd rs)) (close_signal is')
     else close_signal is' rs }"

fun close_destroy :: "nat list \<Rightarrow> (errno + unit) \<times> sync_device \<Rightarrow> ((errno + unit) \<times> sync_device) option" where
  "close_destroy [] rs = Some rs"
| "close_destroy (i # is') rs = do {
     row \<leftarrow> get_row (snd rs) i;
     if sr_state row \<noteq> CAM_SYNC_STATE_INVALID
     then Option.bind (cam_sync_destroy (int i) (snd rs)) (close_destroy is')
     else close_destroy is' rs }"

definition cam_sync_close :: "sync_device \<Rightarrow> ((errno + unit) \<times> sync_device) option" where
  "cam_sync_close s = do {
     let s1 = s\<lparr>open_cnt := open_cnt s - 1\<rparr>;
     (rc, s2) \<leftarrow> (if open_cnt s1 = 0
       then do {
         (rc, sa) \<leftarrow> close_signal [1..<CAM_SYNC_MAX_OBJS] (Inr (), s1);
         close_destroy [1..<CAM_SYNC_MAX_OBJS] (rc, flush_workqueue sa) }
       else Some (Inr (), s1));
     Some (rc, s2\<lparr>cam_sync_eventq := False\<rparr>) }"

definition cam_sync_subscribe_event :: "u32 \<Rightarrow> (errno + unit) \<Rightarrow> sync_device \<Rightarrow> (errno + unit) \<times> sync_device" where
  "cam_sync_subscribe_event ty v4l2_event_subscribe s =
     (if \<not> (ty = CAM_SYNC_V4L_EVENT \<or> ty = CAM_SYNC_V4L_EVENT_V2) then (Inl EINVAL, s)
      else (v4l2_event_subscribe, s\<lparr>version := ty\<rparr>))"

definition cam_sync_unsubscribe_event :: "u32 \<Rightarrow> (errno + unit) \<Rightarrow> errno + unit" where
  "cam_sync_unsubscribe_event ty v4l2_event_unsubscribe =
     (if \<not> (ty = CAM_SYNC_V4L_EVENT \<or> ty = CAM_SYNC_V4L_EVENT_V2) then Inl EINVAL else v4l2_event_unsubscribe)"

text \<open>The signal operation that the synx driver calls; a state that camera fences do not have is an error.\<close>

definition cam_synx_sync_signal :: "int \<Rightarrow> u32 \<Rightarrow> sync_device \<Rightarrow> ((errno + unit) \<times> sync_device) option" where
  "cam_synx_sync_signal sync_obj synx_status s =
     cam_sync_signal sync_obj
       (if synx_status = 1 then CAM_SYNC_STATE_ACTIVE
        else if synx_status = 2 then CAM_SYNC_STATE_SIGNALED_SUCCESS
        else if synx_status = 3 then CAM_SYNC_STATE_SIGNALED_ERROR
        else if synx_status = 4 then CAM_SYNC_STATE_SIGNALED_CANCEL
        else CAM_SYNC_STATE_SIGNALED_ERROR) CAM_SYNC_COMMON_EVENT_SYNX s"

text \<open>Binding the component; the results of the kernel calls are arguments, in the order of the calls.\<close>

definition cam_sync_component_bind ::
    "bool \<Rightarrow> bool \<Rightarrow> (errno + unit) \<Rightarrow> (errno + unit) \<Rightarrow> (errno + unit) \<Rightarrow> bool \<Rightarrow> (errno + unit) \<Rightarrow> errno + sync_device" where
  "cam_sync_component_bind kzalloc video_device_alloc media_controller_init v4l2_device_register video_register_device alloc_workqueue register_synx =
     (if \<not> kzalloc then Inl ENOMEM
      else if \<not> video_device_alloc then Inl ENOMEM
      else (case media_controller_init of Inl e \<Rightarrow> Inl e | Inr _ \<Rightarrow>
           (case v4l2_device_register of Inl e \<Rightarrow> Inl e | Inr _ \<Rightarrow>
           (case video_register_device of Inl e \<Rightarrow> Inl e | Inr _ \<Rightarrow>
            if \<not> alloc_workqueue then Inl ENOMEM
            else (case register_synx of Inl e \<Rightarrow> Inl e | Inr _ \<Rightarrow>
              Inr \<lparr>sync_table = replicate CAM_SYNC_MAX_OBJS zero_row, open_cnt = 0, work_queue = [], cam_sync_eventq = False,
                   bitmap = (replicate CAM_SYNC_MAX_OBJS False)[0 := True], version = 0,
                   trigger_cb_without_switch = False, called = [], events = []\<rparr>)))))"

end
