(* ===== verification/Cam_Sync_Inv.thy ===== *)
theory Cam_Sync_Inv
  imports Cam_Sync "HOL-Library.Multiset"
begin

text \<open>
  The invariant of the camera fence table and its preservation by every operation. Groups count the children they wait
  for; the invariant relates the counter to the links, to the notifications that a signal has still to deliver, and to
  the children that were destroyed before they were signalled.
\<close>

section \<open>The invariant\<close>

abbreviation row :: "sync_device \<Rightarrow> nat \<Rightarrow> sync_table_row" where
  "row s i \<equiv> sync_table s ! i"

abbreviation valid :: "sync_table_row \<Rightarrow> bool" where
  "valid r \<equiv> sr_state r \<noteq> CAM_SYNC_STATE_INVALID"

text \<open>What holds of a row on its own.\<close>

definition row_wf :: "nat \<Rightarrow> sync_table_row \<Rightarrow> bool" where
  "row_wf i r \<longleftrightarrow>
     (sr_type r = CAM_SYNC_TYPE_INDV \<or> sr_type r = CAM_SYNC_TYPE_GROUP) \<and>
     (if valid r
      then sr_sync_id r = i \<and> (sr_state r = CAM_SYNC_STATE_ACTIVE \<or> is_signaled (sr_state r)) \<and>
        (sr_signaled r \<longleftrightarrow> is_signaled (sr_state r) \<and> sr_remaining r = 0) \<and>
        (sr_signaled r \<longrightarrow> sr_callback_list r = []) \<and>
        (\<forall>cb \<in> set (sr_callback_list r). cb_sync_obj cb = i) \<and>
        distinct (sr_parents_list r) \<and> (\<forall>p \<in> set (sr_parents_list r). 0 < p \<and> p < CAM_SYNC_MAX_OBJS) \<and>
        distinct (sr_children_list r) \<and> (\<forall>c \<in> set (sr_children_list r). 0 < c \<and> c < CAM_SYNC_MAX_OBJS) \<and>
        (if sr_type r = CAM_SYNC_TYPE_INDV
         then sr_remaining r = 0 \<and> sr_children_list r = [] \<and> (sr_parents_list r \<noteq> [] \<longrightarrow> sr_state r = CAM_SYNC_STATE_ACTIVE)
         else sr_parents_list r = [] \<and> (sr_remaining r = 0 \<longrightarrow> is_signaled (sr_state r)))
      else sr_parents_list r = [] \<and> sr_children_list r = [] \<and> sr_callback_list r = [] \<and> sr_user_payload_list r = [])"

text \<open>The children that will still notify group \<open>p\<close>.\<close>

definition child_links :: "sync_device \<Rightarrow> nat \<Rightarrow> nat set" where
  "child_links s p = {c. c < CAM_SYNC_MAX_OBJS \<and> p \<in> set (sr_parents_list (row s c))}"

definition is_group :: "sync_device \<Rightarrow> nat \<Rightarrow> bool" where
  "is_group s p \<longleftrightarrow> p < CAM_SYNC_MAX_OBJS \<and> valid (row s p) \<and> sr_type (row s p) = CAM_SYNC_TYPE_GROUP"

text \<open>\<open>pend\<close> lists the groups that signals under way have still to notify, \<open>lost\<close> counts the children of a group that were destroyed
  while it waited for them.\<close>

definition cam_inv :: "(nat \<Rightarrow> nat) \<Rightarrow> nat list \<Rightarrow> sync_device \<Rightarrow> bool" where
  "cam_inv lost pend s \<longleftrightarrow>
     length (sync_table s) = CAM_SYNC_MAX_OBJS \<and> length (bitmap s) = CAM_SYNC_MAX_OBJS \<and> bitmap s ! 0 \<and> \<not> valid (row s 0) \<and>
     (\<forall>i. 0 < i \<and> i < CAM_SYNC_MAX_OBJS \<longrightarrow> (bitmap s ! i \<longleftrightarrow> valid (row s i))) \<and>
     (\<forall>i < CAM_SYNC_MAX_OBJS. row_wf i (row s i)) \<and>
     (\<forall>c < CAM_SYNC_MAX_OBJS. \<forall>p \<in> set (sr_parents_list (row s c)). is_group s p \<and> c \<in> set (sr_children_list (row s p))) \<and>
     (\<forall>p \<in> set pend. is_group s p) \<and>
     (\<forall>p. is_group s p \<longrightarrow> unat (sr_remaining (row s p)) = card (child_links s p) + count_list pend p + lost p)"

section \<open>Access to rows\<close>

lemma state_values [simp]:
  "CAM_SYNC_STATE_ACTIVE \<noteq> CAM_SYNC_STATE_INVALID" "CAM_SYNC_STATE_INVALID \<noteq> CAM_SYNC_STATE_ACTIVE"
  "\<not> is_signaled CAM_SYNC_STATE_ACTIVE" "\<not> is_signaled CAM_SYNC_STATE_INVALID"
  "is_signaled CAM_SYNC_STATE_SIGNALED_SUCCESS" "is_signaled CAM_SYNC_STATE_SIGNALED_ERROR" "is_signaled CAM_SYNC_STATE_SIGNALED_CANCEL"
  "CAM_SYNC_TYPE_INDV \<noteq> CAM_SYNC_TYPE_GROUP" "CAM_SYNC_TYPE_GROUP \<noteq> CAM_SYNC_TYPE_INDV"
  by (simp_all add: is_signaled_def cam_consts)

lemma is_signaled_valid: "is_signaled st \<Longrightarrow> st \<noteq> CAM_SYNC_STATE_INVALID \<and> st \<noteq> CAM_SYNC_STATE_ACTIVE"
  by (auto simp: is_signaled_def cam_consts)

lemma upd_row_fields [simp]:
  "length (sync_table (upd_row i f s)) = length (sync_table s)" "bitmap (upd_row i f s) = bitmap s" "open_cnt (upd_row i f s) = open_cnt s"
  "work_queue (upd_row i f s) = work_queue s" "cam_sync_eventq (upd_row i f s) = cam_sync_eventq s" "version (upd_row i f s) = version s"
  "trigger_cb_without_switch (upd_row i f s) = trigger_cb_without_switch s" "called (upd_row i f s) = called s" "events (upd_row i f s) = events s"
  by (simp_all add: upd_row_def)

lemma row_upd_row: "i < length (sync_table s) \<Longrightarrow> row (upd_row i f s) j = (if j = i then f (row s i) else row s j)"
  by (simp add: upd_row_def nth_list_update_both)

lemma row_upd_row_other [simp]: "j \<noteq> i \<Longrightarrow> row (upd_row i f s) j = row s j"
  by (simp add: upd_row_def)

lemma bmp_fields [simp]:
  "sync_table (set_bmp i s) = sync_table s" "sync_table (clear_bmp i s) = sync_table s"
  "bitmap (set_bmp i s) = (bitmap s)[i := True]" "bitmap (clear_bmp i s) = (bitmap s)[i := False]"
  by (simp_all add: set_bmp_def clear_bmp_def)

lemma get_row_Some: "i < length (sync_table s) \<Longrightarrow> get_row s i = Some (row s i)"
  by (simp add: get_row_def)

lemma cam_inv_lengths: "cam_inv lost pend s \<Longrightarrow> length (sync_table s) = CAM_SYNC_MAX_OBJS \<and> length (bitmap s) = CAM_SYNC_MAX_OBJS"
  by (simp add: cam_inv_def)

lemma cam_inv_get_row [simp]: "cam_inv lost pend s \<Longrightarrow> i < CAM_SYNC_MAX_OBJS \<Longrightarrow> get_row s i = Some (row s i)"
  by (simp add: cam_inv_def get_row_Some)

lemma cam_inv_row_wf: "cam_inv lost pend s \<Longrightarrow> i < CAM_SYNC_MAX_OBJS \<Longrightarrow> row_wf i (row s i)"
  by (simp add: cam_inv_def)

lemma in_range_nat: "in_range x \<Longrightarrow> 0 < nat x \<and> nat x < CAM_SYNC_MAX_OBJS \<and> int (nat x) = x"
  by (auto simp: in_range_def)

lemma finite_links [simp]: "finite (child_links s p)"
  by (simp add: child_links_def)

text \<open>An update of a row that leaves its links and its counter alone keeps the invariant if it keeps the row well formed.\<close>

definition same_shape :: "sync_table_row \<Rightarrow> sync_table_row \<Rightarrow> bool" where
  "same_shape r r' \<longleftrightarrow> sr_parents_list r' = sr_parents_list r \<and> sr_children_list r' = sr_children_list r \<and>
     sr_remaining r' = sr_remaining r \<and> sr_type r' = sr_type r \<and> (valid r' \<longleftrightarrow> valid r)"

lemma cam_inv_upd_local:
  assumes "cam_inv lost pend s" and "i < CAM_SYNC_MAX_OBJS" and "same_shape (row s i) (f (row s i))" and "row_wf i (f (row s i))"
  shows "cam_inv lost pend (upd_row i f s)"
proof -
  have len: "i < length (sync_table s)" using assms(1,2) by (simp add: cam_inv_def)
  have sh: "sr_parents_list (row (upd_row i f s) j) = sr_parents_list (row s j)"
    "sr_children_list (row (upd_row i f s) j) = sr_children_list (row s j)"
    "sr_remaining (row (upd_row i f s) j) = sr_remaining (row s j)"
    "sr_type (row (upd_row i f s) j) = sr_type (row s j)" "valid (row (upd_row i f s) j) \<longleftrightarrow> valid (row s j)" for j
    using assms(3) len by (simp_all add: row_upd_row same_shape_def)
  have "child_links (upd_row i f s) p = child_links s p" "is_group (upd_row i f s) p = is_group s p" for p
    by (simp_all only: child_links_def is_group_def sh)
  moreover have "row_wf j (row (upd_row i f s) j)" if "j < CAM_SYNC_MAX_OBJS" for j
    using assms(1,4) that len by (simp add: row_upd_row cam_inv_def)
  ultimately show ?thesis
    using assms(1) unfolding cam_inv_def by (simp add: sh)
qed

lemma cam_inv_cong:
  "sync_table s' = sync_table s \<Longrightarrow> bitmap s' = bitmap s \<Longrightarrow> cam_inv lost pend s' = cam_inv lost pend s"
  by (simp add: cam_inv_def child_links_def is_group_def)

lemma cam_inv_other_fields [simp]:
  "cam_inv lost pend (s\<lparr>work_queue := q\<rparr>) = cam_inv lost pend s" "cam_inv lost pend (s\<lparr>called := q\<rparr>) = cam_inv lost pend s"
  "cam_inv lost pend (s\<lparr>events := es\<rparr>) = cam_inv lost pend s" "cam_inv lost pend (s\<lparr>open_cnt := n\<rparr>) = cam_inv lost pend s"
  "cam_inv lost pend (s\<lparr>cam_sync_eventq := b\<rparr>) = cam_inv lost pend s" "cam_inv lost pend (s\<lparr>version := v\<rparr>) = cam_inv lost pend s"
  by (rule cam_inv_cong; simp)+

lemma cam_inv_link:
  assumes "cam_inv lost pend s" and "c < CAM_SYNC_MAX_OBJS" and "p \<in> set (sr_parents_list (row s c))"
  shows "is_group s p" "c \<in> set (sr_children_list (row s p))" "sr_type (row s c) = CAM_SYNC_TYPE_INDV"
    "sr_state (row s c) = CAM_SYNC_STATE_ACTIVE" "0 < p" "p < CAM_SYNC_MAX_OBJS" "c \<noteq> p" "0 < c"
proof -
  show g: "is_group s p" and "c \<in> set (sr_children_list (row s p))" using assms by (simp_all add: cam_inv_def)
  have w: "row_wf c (row s c)" using cam_inv_row_wf assms(1,2) by blast
  then have v: "valid (row s c)" using assms(3) by (auto simp: row_wf_def split: if_splits)
  show t: "sr_type (row s c) = CAM_SYNC_TYPE_INDV" and "sr_state (row s c) = CAM_SYNC_STATE_ACTIVE" "0 < p" "p < CAM_SYNC_MAX_OBJS"
    using w v assms(3) by (auto simp: row_wf_def split: if_splits)
  show "c \<noteq> p" using t g by (auto simp: is_group_def)
  show "0 < c" using v assms(1) by (auto simp: cam_inv_def intro: gr0I)
qed

lemma cam_inv_count:
  "cam_inv lost pend s \<Longrightarrow> is_group s p \<Longrightarrow> unat (sr_remaining (row s p)) = card (child_links s p) + count_list pend p + lost p"
  by (simp add: cam_inv_def)

section \<open>Operations that leave the links alone\<close>

lemma row_wf_local:
  "row_wf i (r\<lparr>sr_ref_cnt := n\<rparr>) = row_wf i r"
  "valid r \<Longrightarrow> row_wf i (r\<lparr>sr_user_payload_list := ps\<rparr>) = row_wf i r"
  by (simp_all add: row_wf_def)

lemma row_wf_callbacks:
  "row_wf i r \<Longrightarrow> valid r \<Longrightarrow> \<forall>cb \<in> set cbs. cb_sync_obj cb = i \<Longrightarrow> sr_signaled r \<longrightarrow> cbs = [] \<Longrightarrow> row_wf i (r\<lparr>sr_callback_list := cbs\<rparr>)"
  by (simp add: row_wf_def)

lemma row_wf_signaled: "row_wf i r \<Longrightarrow> valid r \<Longrightarrow> sr_signaled r \<longleftrightarrow> is_signaled (sr_state r) \<and> sr_remaining r = 0"
  by (simp add: row_wf_def)

lemma row_wf_cbs: "row_wf i r \<Longrightarrow> valid r \<Longrightarrow> cb \<in> set (sr_callback_list r) \<Longrightarrow> cb_sync_obj cb = i \<and> \<not> sr_signaled r"
  by (auto simp: row_wf_def)

lemma same_shape_local [simp]:
  "same_shape r (r\<lparr>sr_ref_cnt := n\<rparr>)" "same_shape r (r\<lparr>sr_user_payload_list := ps\<rparr>)" "same_shape r (r\<lparr>sr_callback_list := cbs\<rparr>)"
  "same_shape r (r\<lparr>sr_signaled := b\<rparr>)"
  by (simp_all add: same_shape_def)

lemma cam_inv_callbacks:
  assumes "cam_inv lost pend s" and i: "i < CAM_SYNC_MAX_OBJS" and v: "valid (row s i)"
    and "\<forall>cb \<in> set (g (sr_callback_list (row s i))). cb_sync_obj cb = i" and "sr_signaled (row s i) \<longrightarrow> g (sr_callback_list (row s i)) = []"
  shows "cam_inv lost pend (upd_row i (\<lambda>r. r\<lparr>sr_callback_list := g (sr_callback_list r)\<rparr>) s)"
  by (rule cam_inv_upd_local[OF assms(1) i], rule same_shape_local(3), rule row_wf_callbacks[OF cam_inv_row_wf[OF assms(1) i] v assms(4,5)])

lemma register_callback_inv:
  assumes "cam_inv lost pend s"
  shows "\<exists>r s'. cam_sync_register_callback kz f d x s = Some (r, s') \<and> cam_inv lost pend s'"
proof (cases "f = None \<or> \<not> in_range x")
  case True
  then show ?thesis using assms by (cases f) (auto simp: cam_sync_register_callback_def)
next
  case False
  then obtain f' where f: "f = Some f'" "in_range x" by auto
  let ?i = "nat x"
  have i: "?i < CAM_SYNC_MAX_OBJS" using in_range_nat[OF f(2)] by simp
  have w: "row_wf ?i (row s ?i)" using cam_inv_row_wf[OF assms i] .
  let ?cb = "\<lparr>cb_callback_func = f', cb_cb_data = d, cb_status = 0, cb_sync_obj = ?i\<rparr>"
  have u: "cam_inv lost pend (upd_row ?i (\<lambda>r. r\<lparr>sr_callback_list := sr_callback_list r @ [?cb]\<rparr>) s)"
    if v: "valid (row s ?i)" and n: "\<not> (is_signaled (sr_state (row s ?i)) \<and> sr_remaining (row s ?i) = 0)"
  proof (rule cam_inv_callbacks[OF assms i v])
    show "\<forall>cb \<in> set (sr_callback_list (row s ?i) @ [?cb]). cb_sync_obj cb = ?i" using row_wf_cbs[OF w v] by auto
    show "sr_signaled (row s ?i) \<longrightarrow> sr_callback_list (row s ?i) @ [?cb] = []" using n row_wf_signaled[OF w v] by simp
  qed
  show ?thesis
    using f i assms u by (simp add: cam_sync_register_callback_def Let_def)
qed

lemma deregister_callback_inv:
  assumes "cam_inv lost pend s"
  shows "\<exists>r s'. cam_sync_deregister_callback f d x s = Some (r, s') \<and> cam_inv lost pend s'"
proof (cases "in_range x \<and> valid (row s (nat x))")
  case True
  then have i: "nat x < CAM_SYNC_MAX_OBJS" using in_range_nat by blast
  note w = cam_inv_row_wf[OF assms i]
  have "cam_inv lost pend (upd_row (nat x) (\<lambda>r. r\<lparr>sr_callback_list := filter (\<lambda>cb. \<not> cb_matches f d cb) (sr_callback_list r)\<rparr>) s)"
  proof (rule cam_inv_callbacks[OF assms i])
    show "valid (row s (nat x))" using True by blast
    then show "\<forall>cb \<in> set (filter (\<lambda>cb. \<not> cb_matches f d cb) (sr_callback_list (row s (nat x)))). cb_sync_obj cb = nat x"
      "sr_signaled (row s (nat x)) \<longrightarrow> filter (\<lambda>cb. \<not> cb_matches f d cb) (sr_callback_list (row s (nat x))) = []"
      using row_wf_cbs[OF w] by (auto simp: filter_empty_conv)
  qed
  then show ?thesis
    using assms i True by (simp add: cam_sync_deregister_callback_def Let_def)
next
  case False
  then show ?thesis using assms in_range_nat[of x] by (auto simp: cam_sync_deregister_callback_def Let_def)
qed

lemma get_obj_ref_inv:
  assumes "cam_inv lost pend s"
  shows "\<exists>r s'. cam_sync_get_obj_ref x s = Some (r, s') \<and> cam_inv lost pend s'"
proof (cases "in_range x")
  case True
  then have i: "nat x < CAM_SYNC_MAX_OBJS" using in_range_nat by blast
  have "cam_inv lost pend (upd_row (nat x) (\<lambda>r. r\<lparr>sr_ref_cnt := sr_ref_cnt r + 1\<rparr>) s)"
    by (rule cam_inv_upd_local[OF assms i]) (simp_all add: row_wf_local cam_inv_row_wf[OF assms i])
  then show ?thesis using assms i True by (simp add: cam_sync_get_obj_ref_def)
next
  case False
  then show ?thesis using assms by (simp add: cam_sync_get_obj_ref_def)
qed

lemma put_obj_ref_inv:
  assumes "cam_inv lost pend s"
  shows "\<exists>r s'. cam_sync_put_obj_ref x s = Some (r, s') \<and> cam_inv lost pend s'"
proof (cases "in_range x")
  case True
  then have i: "nat x < CAM_SYNC_MAX_OBJS" using in_range_nat by blast
  have "cam_inv lost pend (upd_row (nat x) (\<lambda>r. r\<lparr>sr_ref_cnt := sr_ref_cnt r - 1\<rparr>) s)"
    by (rule cam_inv_upd_local[OF assms i]) (simp_all add: row_wf_local cam_inv_row_wf[OF assms i])
  then show ?thesis using assms i True by (simp add: cam_sync_put_obj_ref_def)
next
  case False
  then show ?thesis using assms by (simp add: cam_sync_put_obj_ref_def)
qed

lemma register_payload_inv:
  assumes "cam_inv lost pend s"
  shows "\<exists>r s'. cam_sync_handle_register_user_payload u k s = Some (r, s') \<and> cam_inv lost pend s'"
proof (cases "ioctl_arg k 24 (ue_payload u)")
  case (Inr a)
  let ?i = "unat (of_int (up_sync_obj a) :: u32)"
  have "cam_inv lost pend (upd_row ?i (\<lambda>r. r\<lparr>sr_user_payload_list := sr_user_payload_list r @ [up_payload a]\<rparr>) s)"
    if i: "?i < CAM_SYNC_MAX_OBJS" and "valid (row s ?i)"
    by (rule cam_inv_upd_local[OF assms i]) (simp_all add: row_wf_local that(2) cam_inv_row_wf[OF assms i])
  then show ?thesis
    using Inr assms by (simp add: cam_sync_handle_register_user_payload_def Let_def cam_sync_util_send_v4l2_event_def)
qed (simp add: cam_sync_handle_register_user_payload_def assms)

lemma deregister_payload_inv:
  assumes "cam_inv lost pend s"
  shows "\<exists>r s'. cam_sync_handle_deregister_user_payload u k s = Some (r, s') \<and> cam_inv lost pend s'"
proof (cases "ioctl_arg k 24 (ue_payload u)")
  case (Inr a)
  let ?i = "unat (of_int (up_sync_obj a) :: u32)"
  have "cam_inv lost pend (upd_row ?i (\<lambda>r. r\<lparr>sr_user_payload_list := removeAll (up_payload a) (sr_user_payload_list r)\<rparr>) s)"
    if i: "?i < CAM_SYNC_MAX_OBJS" and "valid (row s ?i)"
    by (rule cam_inv_upd_local[OF assms i]) (simp_all add: row_wf_local that(2) cam_inv_row_wf[OF assms i])
  then show ?thesis
    using Inr assms by (simp add: cam_sync_handle_deregister_user_payload_def Let_def)
qed (simp add: cam_sync_handle_deregister_user_payload_def assms)

section \<open>Dispatching\<close>

lemma upd_row_upd_row [simp]: "upd_row i f (upd_row i g s) = upd_row i (\<lambda>r. f (g r)) s"
  by (cases "i < length (sync_table s)") (simp_all add: upd_row_def list_update_beyond)

lemma upd_row_other_fields [simp]:
  "upd_row i f (s\<lparr>events := es\<rparr>) = (upd_row i f s)\<lparr>events := es\<rparr>"
  "upd_row i f (s\<lparr>work_queue := q\<rparr>) = (upd_row i f s)\<lparr>work_queue := q\<rparr>"
  by (simp_all add: upd_row_def)

text \<open>The event that carries one payload.\<close>

definition sync_event :: "u32 \<Rightarrow> nat \<Rightarrow> u32 \<Rightarrow> u32 \<Rightarrow> user_payload \<Rightarrow> v4l2_event" where
  "sync_event v sync_obj status event_cause p =
     (if v = CAM_SYNC_V4L_EVENT_V2
      then \<lparr>ev_id = CAM_SYNC_V4L_EVENT_ID_CB_TRIG, ev_type = CAM_SYNC_V4L_EVENT_V2,
             ev_header = cam_sync_ev_header_v2 sync_obj status v (Some event_cause # replicate (CAM_SYNC_EVENT_CNT - 1) None), ev_payload = p\<rparr>
      else \<lparr>ev_id = CAM_SYNC_V4L_EVENT_ID_CB_TRIG, ev_type = CAM_SYNC_V4L_EVENT, ev_header = cam_sync_ev_header sync_obj status, ev_payload = p\<rparr>)"

lemma send_event_eq:
  "cam_sync_util_send_v4l2_event CAM_SYNC_V4L_EVENT_ID_CB_TRIG i st p ev s = s\<lparr>events := events s @ [sync_event (version s) i st ev p]\<rparr>"
  by (simp add: cam_sync_util_send_v4l2_event_def sync_event_def)

lemma dispatch_payloads_eq:
  "dispatch_payloads i st ev ps s =
     (if cam_sync_eventq s \<and> ps \<noteq> []
      then (upd_row i (\<lambda>r. r\<lparr>sr_user_payload_list := []\<rparr>) s)\<lparr>events := events s @ map (sync_event (version s) i st ev) ps\<rparr> else s)"
  by (induction ps arbitrary: s) (simp_all add: send_event_eq)

text \<open>What the waiters of a row are told, and the row afterwards.\<close>

definition told_row :: "bool \<Rightarrow> sync_table_row \<Rightarrow> sync_table_row" where
  "told_row eventq r = r\<lparr>sr_callback_list := [], sr_user_payload_list := (if eventq then [] else sr_user_payload_list r), sr_signaled := True\<rparr>"

definition told :: "nat \<Rightarrow> u32 \<Rightarrow> u32 \<Rightarrow> sync_device \<Rightarrow> sync_device" where
  "told i st ev s = (upd_row i (told_row (cam_sync_eventq s)) s)\<lparr>
     work_queue := work_queue s @ map (\<lambda>cb. cb\<lparr>cb_status := st\<rparr>) (sr_callback_list (row s i)),
     events := events s @ (if cam_sync_eventq s then map (sync_event (version s) i st ev) (sr_user_payload_list (row s i)) else [])\<rparr>"

lemma dispatch_eq:
  assumes "i < length (sync_table s)"
  shows "cam_sync_util_dispatch_signaled_cb i st ev s = Some (if valid (row s i) then told i st ev s else s)"
proof -
  have e: "row s i\<lparr>sr_callback_list := [], sr_user_payload_list := [], sr_signaled := True\<rparr> = row s i\<lparr>sr_callback_list := [], sr_signaled := True\<rparr>"
    if "sr_user_payload_list (row s i) = []"
    using that by (cases "row s i") simp
  show ?thesis using assms
    by (auto simp: e cam_sync_util_dispatch_signaled_cb_def get_row_Some dispatch_payloads_eq told_def told_row_def Let_def upd_row_def)
qed

lemma told_fields [simp]:
  "length (sync_table (told i st ev s)) = length (sync_table s)" "bitmap (told i st ev s) = bitmap s"
  "cam_sync_eventq (told i st ev s) = cam_sync_eventq s" "version (told i st ev s) = version s" "open_cnt (told i st ev s) = open_cnt s"
  "called (told i st ev s) = called s" "trigger_cb_without_switch (told i st ev s) = trigger_cb_without_switch s"
  by (simp_all add: told_def)

lemma row_told: "i < length (sync_table s) \<Longrightarrow> row (told i st ev s) j = (if j = i then told_row (cam_sync_eventq s) (row s i) else row s j)"
  by (simp add: told_def row_upd_row)

section \<open>Signalling\<close>

text \<open>The state of a group after a child was signalled with \<open>st\<close>.\<close>

definition comb_state :: "u32 \<Rightarrow> u32 \<Rightarrow> u32" where
  "comb_state cur st = (if cur = CAM_SYNC_STATE_ACTIVE \<or> cur = CAM_SYNC_STATE_SIGNALED_SUCCESS then st else cur)"

lemma update_parent_state_eq:
  "row_wf i r \<Longrightarrow> valid r \<Longrightarrow> cam_sync_util_update_parent_state st (r\<lparr>sr_remaining := n\<rparr>) = (Inr (), r\<lparr>sr_remaining := n, sr_state := comb_state (sr_state r) st\<rparr>)"
  by (auto simp: cam_sync_util_update_parent_state_def comb_state_def row_wf_def is_signaled_def)

lemma comb_state_signaled: "is_signaled st \<Longrightarrow> cur = CAM_SYNC_STATE_ACTIVE \<or> is_signaled cur \<Longrightarrow> is_signaled (comb_state cur st)"
  by (auto simp: comb_state_def)

definition counted :: "u32 \<Rightarrow> nat \<Rightarrow> sync_device \<Rightarrow> sync_device" where
  "counted st p s = upd_row p (\<lambda>r. r\<lparr>sr_remaining := sr_remaining r - 1, sr_state := comb_state (sr_state r) st\<rparr>) s"

lemma signal_parent_eq:
  assumes "p < length (sync_table s)" and "row_wf p (row s p)" and "valid (row s p)" and "is_signaled st"
  shows "signal_parent st ev p s =
    Some (if sr_remaining (row s p) = 1 then told p (comb_state (sr_state (row s p)) st) ev (counted st p s) else counted st p s)"
proof -
  have v: "is_signaled (comb_state (sr_state (row s p)) st)"
    using assms by (intro comb_state_signaled) (auto simp: row_wf_def)
  have c: "upd_row p (\<lambda>_. row s p\<lparr>sr_remaining := sr_remaining (row s p) - 1, sr_state := comb_state (sr_state (row s p)) st\<rparr>) s = counted st p s"
    by (simp add: counted_def upd_row_def)
  have "sr_remaining (row s p) - 1 = 0 \<longleftrightarrow> sr_remaining (row s p) = 1" by (simp add: right_minus_eq)
  moreover have "cam_sync_util_dispatch_signaled_cb p st' ev (counted st p s) = Some (told p st' ev (counted st p s))" for st'
    using assms(1) v is_signaled_valid by (auto simp: dispatch_eq counted_def row_upd_row)
  moreover have "signal_parent st ev p s = (if sr_remaining (row s p) - 1 = 0
      then cam_sync_util_dispatch_signaled_cb p (comb_state (sr_state (row s p)) st) ev (counted st p s) else Some (counted st p s))"
    using assms(1) by (simp add: signal_parent_def get_row_Some update_parent_state_eq[OF assms(2,3)] c cong del: if_weak_cong split del: if_split)
  ultimately show ?thesis by simp
qed

lemma cam_inv_transfer:
  assumes "cam_inv lost pend s" and len: "length (sync_table s') = length (sync_table s)" and bm: "bitmap s' = bitmap s"
    and sh: "\<And>j. sr_parents_list (row s' j) = sr_parents_list (row s j)" "\<And>j. sr_children_list (row s' j) = sr_children_list (row s j)"
      "\<And>j. sr_type (row s' j) = sr_type (row s j)" "\<And>j. valid (row s' j) \<longleftrightarrow> valid (row s j)"
    and wf: "\<And>j. j < CAM_SYNC_MAX_OBJS \<Longrightarrow> row_wf j (row s' j)"
    and pend: "\<And>p. p \<in> set pend' \<Longrightarrow> is_group s p"
    and cnt: "\<And>p. is_group s p \<Longrightarrow> unat (sr_remaining (row s' p)) = card (child_links s p) + count_list pend' p + lost' p"
  shows "cam_inv lost' pend' s'"
proof -
  have "child_links s' p = child_links s p" "is_group s' p = is_group s p" for p
    by (simp_all only: child_links_def is_group_def sh)
  then show ?thesis
    using assms(1) wf pend cnt unfolding cam_inv_def by (simp add: sh len bm)
qed

lemma row_wf_counted:
  assumes "row_wf p r" and "valid r" and "sr_type r = CAM_SYNC_TYPE_GROUP" and "\<not> sr_signaled r" and "is_signaled st"
  shows "row_wf p (if sr_remaining r = 1 then told_row q (r\<lparr>sr_remaining := sr_remaining r - 1, sr_state := st\<rparr>)
    else r\<lparr>sr_remaining := sr_remaining r - 1, sr_state := st\<rparr>)"
  using assms is_signaled_valid[OF assms(5)] by (cases "sr_remaining r = 1") (simp_all add: row_wf_def told_row_def)

lemma signal_parent_inv:
  assumes inv: "cam_inv lost (p # pend) s" and st: "is_signaled st"
  shows "\<exists>s'. signal_parent st ev p s = Some s' \<and> cam_inv lost pend s'"
proof -
  have g: "is_group s p" and len: "length (sync_table s) = CAM_SYNC_MAX_OBJS" using inv by (simp_all add: cam_inv_def)
  then have p: "p < length (sync_table s)" "valid (row s p)" "p < CAM_SYNC_MAX_OBJS" "sr_type (row s p) = CAM_SYNC_TYPE_GROUP" by (simp_all add: is_group_def)
  have wf: "row_wf p (row s p)" using cam_inv_row_wf[OF inv p(3)] .
  have cnt: "unat (sr_remaining (row s p)) = Suc (card (child_links s p) + count_list pend p + lost p)" using cam_inv_count[OF inv g] by simp
  then have r1: "unat (sr_remaining (row s p) - 1) = card (child_links s p) + count_list pend p + lost p"
    by (subst unat_minus_one) auto
  let ?s1 = "counted st p s"
  let ?s' = "if sr_remaining (row s p) = 1 then told p (comb_state (sr_state (row s p)) st) ev ?s1 else ?s1"
  have eq: "signal_parent st ev p s = Some ?s'" using signal_parent_eq[OF p(1) wf p(2) st] .
  have row': "row ?s' j = (if j = p then (let r = (row s p)\<lparr>sr_remaining := sr_remaining (row s p) - 1, sr_state := comb_state (sr_state (row s p)) st\<rparr> in
      if sr_remaining (row s p) = 1 then told_row (cam_sync_eventq s) r else r) else row s j)" for j
    using p(1) by (simp add: row_told counted_def row_upd_row)
  have cs: "is_signaled (comb_state (sr_state (row s p)) st)"
    using wf p(2) st by (intro comb_state_signaled) (auto simp: row_wf_def)
  have unsig: "\<not> sr_signaled (row s p)" using wf p(2) cnt row_wf_signaled by fastforce
  have "cam_inv lost pend ?s'"
  proof (rule cam_inv_transfer[OF inv])
    show "row_wf j (row ?s' j)" if "j < CAM_SYNC_MAX_OBJS" for j
      using row_wf_counted[OF wf p(2,4) unsig cs] cam_inv_row_wf[OF inv that] by (simp add: row' Let_def)
    show "unat (sr_remaining (row ?s' q)) = card (child_links s q) + count_list pend q + lost q" if "is_group s q" for q
      using r1 cam_inv_count[OF inv that] by (auto simp: row' told_row_def Let_def)
    show "is_group s q" if "q \<in> set pend" for q using inv that by (simp add: cam_inv_def)
  qed (use p is_signaled_valid[OF cs] in \<open>simp_all add: row' told_row_def counted_def Let_def\<close>)
  then show ?thesis using eq by blast
qed

lemma distinct_count_list: "distinct xs \<Longrightarrow> count_list xs x = (if x \<in> set xs then 1 else 0)"
  by (induction xs) auto

text \<open>A row that is signalled: its waiters are told and its parents list is taken away.\<close>

definition fired :: "nat \<Rightarrow> u32 \<Rightarrow> u32 \<Rightarrow> sync_device \<Rightarrow> sync_device" where
  "fired i st ev s = upd_row i (\<lambda>r. r\<lparr>sr_parents_list := []\<rparr>)
     (told i st ev (upd_row i (\<lambda>r. r\<lparr>sr_ref_cnt := sr_ref_cnt r - 1, sr_state := st\<rparr>) s))"

lemma signal_row_eq:
  assumes "cam_inv lost pend s"
  shows "signal_row x st ev s = Some (
    let r = row s (nat x) in
    if \<not> in_range x \<or> \<not> valid r \<or> sr_type r = CAM_SYNC_TYPE_GROUP then (Inl EINVAL, s)
    else if sr_state r \<noteq> CAM_SYNC_STATE_ACTIVE then (Inl EALREADY, s)
    else if \<not> is_signaled st then (Inl EINVAL, s)
    else if sr_ref_cnt r \<noteq> 1 then (Inr [], upd_row (nat x) (\<lambda>r. r\<lparr>sr_ref_cnt := sr_ref_cnt r - 1\<rparr>) s)
    else (Inr (sr_parents_list r), fired (nat x) st ev s))"
proof (cases "in_range x")
  case True
  let ?i = "nat x"
  have i: "?i < CAM_SYNC_MAX_OBJS" using True in_range_nat by blast
  then have l: "?i < length (sync_table s)" using assms by (simp add: cam_inv_def)
  have d: "cam_sync_util_dispatch_signaled_cb ?i st ev (upd_row ?i (\<lambda>r. r\<lparr>sr_ref_cnt := sr_ref_cnt r - 1, sr_state := st\<rparr>) s) =
      Some (told ?i st ev (upd_row ?i (\<lambda>r. r\<lparr>sr_ref_cnt := sr_ref_cnt r - 1, sr_state := st\<rparr>) s))" if "is_signaled st"
    using l is_signaled_valid[OF that] by (simp add: dispatch_eq row_upd_row)
  show ?thesis
    using True i assms d by (simp add: signal_row_def Let_def fired_def right_minus_eq)
qed (simp add: signal_row_def)

lemma fired_fields [simp]:
  "length (sync_table (fired i st ev s)) = length (sync_table s)" "bitmap (fired i st ev s) = bitmap s"
  "cam_sync_eventq (fired i st ev s) = cam_sync_eventq s" "version (fired i st ev s) = version s" "open_cnt (fired i st ev s) = open_cnt s"
  "called (fired i st ev s) = called s"
  by (simp_all add: fired_def)

lemma row_fired: "i < length (sync_table s) \<Longrightarrow> row (fired i st ev s) j =
   (if j = i then (told_row (cam_sync_eventq s) (row s i\<lparr>sr_ref_cnt := sr_ref_cnt (row s i) - 1, sr_state := st\<rparr>))\<lparr>sr_parents_list := []\<rparr> else row s j)"
  by (simp add: fired_def row_upd_row row_told)

lemma links_fired: "i < length (sync_table s) \<Longrightarrow> child_links (fired i st ev s) p = child_links s p - {i}"
  by (auto simp: child_links_def row_fired)

lemma fired_inv:
  assumes inv: "cam_inv lost pend s" and i: "i < CAM_SYNC_MAX_OBJS" and ty: "sr_type (row s i) = CAM_SYNC_TYPE_INDV"
    and act: "sr_state (row s i) = CAM_SYNC_STATE_ACTIVE" and st: "is_signaled st"
  shows "cam_inv lost (sr_parents_list (row s i) @ pend) (fired i st ev s)"
proof -
  have l: "i < length (sync_table s)" using inv i by (simp add: cam_inv_def)
  note r = row_fired[OF l]
  have w: "row_wf i (row s i)" using cam_inv_row_wf[OF inv i] .
  have g: "is_group (fired i st ev s) p \<longleftrightarrow> is_group s p" for p
    using is_signaled_valid[OF st] ty by (auto simp: is_group_def r told_row_def)
  have wf: "row_wf j (row (fired i st ev s) j)" if "j < CAM_SYNC_MAX_OBJS" for j
  proof (cases "j = i")
    case True
    then show ?thesis using w ty act st is_signaled_valid[OF st] by (simp add: r row_wf_def told_row_def)
  next
    case False
    then show ?thesis using cam_inv_row_wf[OF inv that] by (simp add: r)
  qed
  have cnt: "unat (sr_remaining (row (fired i st ev s) p)) = card (child_links s p - {i}) + count_list (sr_parents_list (row s i) @ pend) p + lost p"
    if gp: "is_group s p" for p
  proof -
    have "p \<noteq> i" using gp ty by (auto simp: is_group_def)
    have d: "distinct (sr_parents_list (row s i))" using w act by (simp add: row_wf_def)
    show ?thesis
    proof (cases "p \<in> set (sr_parents_list (row s i))")
      case True
      then have "i \<in> child_links s p" using i by (simp add: child_links_def)
      then have "card (child_links s p) = Suc (card (child_links s p - {i}))" by (metis card_Suc_Diff1 finite_links)
      moreover have "count_list (sr_parents_list (row s i)) p = 1" using d True by (simp add: distinct_count_list)
      ultimately show ?thesis using cam_inv_count[OF inv gp] \<open>p \<noteq> i\<close> by (simp add: r)
    next
      case False
      then have "i \<notin> child_links s p" "count_list (sr_parents_list (row s i)) p = 0" by (simp_all add: child_links_def)
      then show ?thesis using cam_inv_count[OF inv gp] \<open>p \<noteq> i\<close> by (simp add: r)
    qed
  qed
  have lk: "is_group s p \<and> c \<in> set (sr_children_list (row (fired i st ev s) p))"
    if "c < CAM_SYNC_MAX_OBJS" "p \<in> set (sr_parents_list (row (fired i st ev s) c))" for c p
  proof -
    have "p \<in> set (sr_parents_list (row s c))" using that(2) by (auto simp: r split: if_splits)
    then show ?thesis using cam_inv_link(1,2)[OF inv that(1)] by (auto simp: r told_row_def)
  qed
  show ?thesis
    unfolding cam_inv_def
  proof (intro conjI)
    show "\<forall>p \<in> set (sr_parents_list (row s i) @ pend). is_group (fired i st ev s) p"
      using cam_inv_link(1)[OF inv i] inv by (auto simp: g cam_inv_def)
    show "\<forall>j. 0 < j \<and> j < CAM_SYNC_MAX_OBJS \<longrightarrow> bitmap (fired i st ev s) ! j = valid (row (fired i st ev s) j)" "\<not> valid (row (fired i st ev s) 0)"
      using inv is_signaled_valid[OF st] act by (auto simp: r told_row_def cam_inv_def)
  qed (use inv wf lk cnt in \<open>simp_all add: g cam_inv_def links_fired[OF l]\<close>)
qed

lemma signal_parents_inv:
  "cam_inv lost (ps @ pend) s \<Longrightarrow> is_signaled st \<Longrightarrow> \<exists>s'. signal_parents st ev ps s = Some s' \<and> cam_inv lost pend s'"
proof (induction ps arbitrary: s)
  case (Cons p ps)
  then obtain s1 where "signal_parent st ev p s = Some s1" "cam_inv lost (ps @ pend) s1"
    using signal_parent_inv[of lost p "ps @ pend" s st ev] by auto
  then show ?case using Cons by auto
qed simp

lemma signal_inv:
  assumes inv: "cam_inv lost pend s"
  shows "\<exists>r s'. cam_sync_signal x st ev s = Some (r, s') \<and> cam_inv lost pend s'"
proof -
  let ?r = "row s (nat x)"
  have i: "in_range x \<Longrightarrow> nat x < CAM_SYNC_MAX_OBJS" using in_range_nat by blast
  have w: "in_range x \<Longrightarrow> row_wf (nat x) ?r" using cam_inv_row_wf[OF inv] i by blast
  consider (err) e where "signal_row x st ev s = Some (Inl e, s)"
    | (ref) "in_range x" "signal_row x st ev s = Some (Inr [], upd_row (nat x) (\<lambda>r. r\<lparr>sr_ref_cnt := sr_ref_cnt r - 1\<rparr>) s)"
    | (fire) "in_range x" "valid ?r" "sr_type ?r \<noteq> CAM_SYNC_TYPE_GROUP" "sr_state ?r = CAM_SYNC_STATE_ACTIVE" "is_signaled st"
        "signal_row x st ev s = Some (Inr (sr_parents_list ?r), fired (nat x) st ev s)"
    using signal_row_eq[OF inv, of x st ev] by (auto simp: Let_def split: if_splits)
  then show ?thesis
  proof cases
    case err
    then show ?thesis using inv by (simp add: cam_sync_signal_def)
  next
    case ref
    have "cam_inv lost pend (upd_row (nat x) (\<lambda>r. r\<lparr>sr_ref_cnt := sr_ref_cnt r - 1\<rparr>) s)"
      by (rule cam_inv_upd_local[OF inv i[OF ref(1)]]) (simp_all add: row_wf_local w[OF ref(1)])
    then show ?thesis using ref by (simp add: cam_sync_signal_def)
  next
    case fire
    have "sr_type ?r = CAM_SYNC_TYPE_INDV" using w[OF fire(1)] fire(3) by (simp add: row_wf_def)
    then have "cam_inv lost (sr_parents_list ?r @ pend) (fired (nat x) st ev s)"
      using fired_inv[OF inv i[OF fire(1)] _ fire(4,5)] by blast
    then show ?thesis using signal_parents_inv[OF _ fire(5)] fire(6) by (fastforce simp: cam_sync_signal_def)
  qed
qed

section \<open>Creating rows\<close>

lemma find_first_zero_less:
  "find_first_zero bs < length bs \<Longrightarrow> \<not> bs ! find_first_zero bs"
  by (induction bs) auto

lemma find_first_zero_le: "find_first_zero bs \<le> length bs"
  by (induction bs) auto

lemma find_first_zero_before: "j < find_first_zero bs \<Longrightarrow> bs ! j"
proof (induction bs arbitrary: j)
  case (Cons b bs)
  then show ?case by (cases j) (auto split: if_splits)
qed simp

text \<open>Without interference the first round of the search decides.\<close>

abbreviation quiet :: "nat \<Rightarrow> bool list \<Rightarrow> bool list" where
  "quiet \<equiv> \<lambda>_ b. b"

lemma alloc_row_quiet:
  "length bm = CAM_SYNC_MAX_OBJS \<Longrightarrow> 0 < fuel \<Longrightarrow> alloc_row quiet fuel k bm =
     Some (let i = find_first_zero bm in if i < CAM_SYNC_MAX_OBJS then (Inr i, bm[i := True]) else (Inl ENOMEM, bm))"
  using find_first_zero_less[of bm] by (cases fuel) (auto simp: Let_def)

lemma cam_inv_free_row:
  assumes "cam_inv lost pend s" and "i < CAM_SYNC_MAX_OBJS" and "\<not> bitmap s ! i"
  shows "0 < i" "\<not> valid (row s i)" "sr_parents_list (row s i) = []" "\<And>c. c < CAM_SYNC_MAX_OBJS \<Longrightarrow> i \<notin> set (sr_parents_list (row s c))"
    "i \<notin> set pend" "child_links s i = {}"
proof -
  show z: "0 < i" using assms by (auto simp: cam_inv_def intro: gr0I)
  show v: "\<not> valid (row s i)" using assms z by (auto simp: cam_inv_def)
  show "sr_parents_list (row s i) = []" using v cam_inv_row_wf[OF assms(1,2)] by (simp add: row_wf_def)
  show n: "i \<notin> set (sr_parents_list (row s c))" if "c < CAM_SYNC_MAX_OBJS" for c
    using cam_inv_link(1)[OF assms(1) that] v by (auto simp: is_group_def)
  show "i \<notin> set pend" using assms(1) v by (auto simp: cam_inv_def is_group_def)
  show "child_links s i = {}" using n by (auto simp: child_links_def)
qed

definition fresh_row :: "nat \<Rightarrow> string option \<Rightarrow> u32 \<Rightarrow> sync_table_row" where
  "fresh_row i name ty = zero_row\<lparr>sr_name := (case name of None \<Rightarrow> [] | Some n \<Rightarrow> take (SYNC_DEBUG_NAME_LEN - 1) n),
     sr_type := ty, sr_sync_id := i, sr_state := CAM_SYNC_STATE_ACTIVE, sr_remaining := 0, sr_ref_cnt := 0\<rparr>"

lemma init_row_eq: "0 < i \<Longrightarrow> i < CAM_SYNC_MAX_OBJS \<Longrightarrow> cam_sync_init_row i name ty s = (Inr (), upd_row i (\<lambda>_. fresh_row i name ty) s)"
  by (simp add: cam_sync_init_row_def fresh_row_def)

lemma fresh_row_fields [simp]:
  "sr_type (fresh_row i n ty) = ty" "sr_sync_id (fresh_row i n ty) = i" "sr_state (fresh_row i n ty) = CAM_SYNC_STATE_ACTIVE"
  "sr_remaining (fresh_row i n ty) = 0" "sr_ref_cnt (fresh_row i n ty) = 0" "sr_parents_list (fresh_row i n ty) = []"
  "sr_children_list (fresh_row i n ty) = []" "sr_callback_list (fresh_row i n ty) = []" "sr_user_payload_list (fresh_row i n ty) = []"
  "\<not> sr_signaled (fresh_row i n ty)"
  by (simp_all add: fresh_row_def zero_row_def)

lemma create_eq:
  assumes "cam_inv lost pend s" and "0 < fuel"
  shows "cam_sync_create quiet fuel name s = Some (
    let i = find_first_zero (bitmap s) in
    if i < CAM_SYNC_MAX_OBJS then (Inr (int i), upd_row i (\<lambda>_. fresh_row i name CAM_SYNC_TYPE_INDV) (set_bmp i s)) else (Inl ENOMEM, s))"
proof -
  have len: "length (bitmap s) = CAM_SYNC_MAX_OBJS" using cam_inv_lengths[OF assms(1)] by simp
  show ?thesis
  proof (cases "find_first_zero (bitmap s) < CAM_SYNC_MAX_OBJS")
    case True
    then have "\<not> bitmap s ! find_first_zero (bitmap s)" using find_first_zero_less[of "bitmap s"] len by simp
    then have "0 < find_first_zero (bitmap s)" using cam_inv_free_row(1)[OF assms(1) True] by blast
    then show ?thesis using True len assms(2) by (simp add: cam_sync_create_def alloc_row_quiet init_row_eq set_bmp_def Let_def)
  qed (use len assms(2) in \<open>simp add: cam_sync_create_def alloc_row_quiet Let_def\<close>)
qed

lemma fresh_indv_inv:
  assumes inv: "cam_inv lost pend s" and i: "i < CAM_SYNC_MAX_OBJS" and free: "\<not> bitmap s ! i"
  shows "cam_inv lost pend (upd_row i (\<lambda>_. fresh_row i name CAM_SYNC_TYPE_INDV) (set_bmp i s))"
proof -
  let ?s = "upd_row i (\<lambda>_. fresh_row i name CAM_SYNC_TYPE_INDV) (set_bmp i s)"
  note f = cam_inv_free_row[OF inv i free]
  have len: "length (sync_table s) = CAM_SYNC_MAX_OBJS" "length (bitmap s) = CAM_SYNC_MAX_OBJS" using cam_inv_lengths[OF inv] by simp_all
  have r: "row ?s j = (if j = i then fresh_row i name CAM_SYNC_TYPE_INDV else row s j)" for j using len i by (simp add: row_upd_row)
  have l: "child_links ?s p = child_links s p" for p using f(3) by (auto simp: child_links_def r)
  have g: "is_group ?s p = is_group s p" for p using f(2) by (auto simp: is_group_def r)
  have wf: "row_wf j (row ?s j)" if "j < CAM_SYNC_MAX_OBJS" for j
    using cam_inv_row_wf[OF inv that] by (simp add: r row_wf_def)
  have lk: "c \<in> set (sr_children_list (row ?s p))" "is_group s p"
    if "c < CAM_SYNC_MAX_OBJS" "p \<in> set (sr_parents_list (row ?s c))" for c p
    using that f(4)[OF that(1)] cam_inv_link(1,2)[OF inv that(1)] by (auto simp: r split: if_splits)
  have cnt: "unat (sr_remaining (row ?s p)) = card (child_links s p) + count_list pend p + lost p" if "is_group s p" for p
    using cam_inv_count[OF inv that] f(2) that by (auto simp: r is_group_def)
  have bm: "bitmap ?s ! j = valid (row ?s j)" if "0 < j" "j < CAM_SYNC_MAX_OBJS" for j
    using inv that len i by (simp add: r cam_inv_def nth_list_update_both)
  show ?thesis
    unfolding cam_inv_def l g using inv wf lk cnt bm f(1) len i by (auto simp: cam_inv_def r)
qed

lemma create_inv:
  assumes inv: "cam_inv lost pend s" and "0 < fuel"
  shows "\<exists>r s'. cam_sync_create quiet fuel name s = Some (r, s') \<and> cam_inv lost pend s'"
  using create_eq[OF assms] fresh_indv_inv[OF inv] find_first_zero_less[of "bitmap s"] cam_inv_lengths[OF inv] inv
  by (auto simp: Let_def)

end
