(* ===== verification/Cam_Sync_Group.thy ===== *)
theory Cam_Sync_Group
  imports Cam_Sync_Inv
begin

text \<open>
  Groups of camera fences: merging with its rollback, destroying, and what they do to the invariant.
\<close>

section \<open>Linking the children\<close>

lemma cleanup_one [simp]: "cleanup_list SYNC_LIST_CLEAN_ONE x xs = remove1 x xs"
  by (induction xs) auto

lemma cleanup_all [simp]: "cleanup_list SYNC_LIST_CLEAN_ALL x xs = []"
  by (induction xs) auto

text \<open>One child is linked to group \<open>g\<close>, or its result is noted.\<close>

definition link1 :: "nat \<Rightarrow> nat \<Rightarrow> sync_device \<Rightarrow> sync_device" where
  "link1 g c s =
     (if sr_state (row s c) = CAM_SYNC_STATE_SIGNALED_ERROR \<or> sr_state (row s c) = CAM_SYNC_STATE_SIGNALED_CANCEL
      then upd_row g (\<lambda>r. r\<lparr>sr_state := sr_state (row s c)\<rparr>) s
      else if sr_state (row s c) \<noteq> CAM_SYNC_STATE_ACTIVE then s
      else upd_row c (\<lambda>r. r\<lparr>sr_parents_list := sr_parents_list r @ [g]\<rparr>)
        (upd_row g (\<lambda>r. r\<lparr>sr_remaining := sr_remaining r + 1, sr_children_list := sr_children_list r @ [c]\<rparr>) s))"

definition linked_rows :: "nat \<Rightarrow> nat list \<Rightarrow> sync_device \<Rightarrow> sync_device" where
  "linked_rows g cs s = fold (link1 g) cs s"

definition active_of :: "sync_device \<Rightarrow> nat list \<Rightarrow> nat list" where
  "active_of s cs = filter (\<lambda>c. sr_state (row s c) = CAM_SYNC_STATE_ACTIVE) cs"

text \<open>The state that a group takes over from children that have already failed: the last one counts.\<close>

definition bad :: "u32 \<Rightarrow> bool" where
  "bad st \<longleftrightarrow> st = CAM_SYNC_STATE_SIGNALED_ERROR \<or> st = CAM_SYNC_STATE_SIGNALED_CANCEL"

fun last_bad :: "u32 \<Rightarrow> u32 list \<Rightarrow> u32" where
  "last_bad st [] = st"
| "last_bad st (x # xs) = last_bad (if bad x then x else st) xs"

text \<open>The children of a merge that is not rejected.\<close>

definition cam_mergeable :: "nat \<Rightarrow> nat list \<Rightarrow> sync_device \<Rightarrow> bool" where
  "cam_mergeable g cs s \<longleftrightarrow> distinct cs \<and> (\<forall>c \<in> set cs. c < length (sync_table s) \<and> c \<noteq> g)"

lemma row_link1:
  assumes "g < length (sync_table s)" and "c < length (sync_table s)" and "c \<noteq> g"
  shows "row (link1 g c s) j =
    (if j = g then (row s g)\<lparr>sr_state := (if bad (sr_state (row s c)) then sr_state (row s c) else sr_state (row s g)),
         sr_remaining := (if sr_state (row s c) = CAM_SYNC_STATE_ACTIVE then sr_remaining (row s g) + 1 else sr_remaining (row s g)),
         sr_children_list := (if sr_state (row s c) = CAM_SYNC_STATE_ACTIVE then sr_children_list (row s g) @ [c] else sr_children_list (row s g))\<rparr>
     else if j = c \<and> sr_state (row s c) = CAM_SYNC_STATE_ACTIVE then (row s c)\<lparr>sr_parents_list := sr_parents_list (row s c) @ [g]\<rparr>
     else row s j)"
  using assms by (auto simp: link1_def row_upd_row bad_def cam_consts)

lemma link1_fields [simp]:
  "length (sync_table (link1 g c s)) = length (sync_table s)" "bitmap (link1 g c s) = bitmap s" "work_queue (link1 g c s) = work_queue s"
  "events (link1 g c s) = events s" "called (link1 g c s) = called s" "cam_sync_eventq (link1 g c s) = cam_sync_eventq s"
  "open_cnt (link1 g c s) = open_cnt s" "version (link1 g c s) = version s" "trigger_cb_without_switch (link1 g c s) = trigger_cb_without_switch s"
  by (simp_all add: link1_def)

lemma linked_simps [simp]: "linked_rows g [] s = s" "linked_rows g (c # cs) s = linked_rows g cs (link1 g c s)"
  by (simp_all add: linked_rows_def)

lemma linked_fields [simp]:
  "length (sync_table (linked_rows g cs s)) = length (sync_table s)" "bitmap (linked_rows g cs s) = bitmap s" "work_queue (linked_rows g cs s) = work_queue s"
  "events (linked_rows g cs s) = events s" "called (linked_rows g cs s) = called s" "cam_sync_eventq (linked_rows g cs s) = cam_sync_eventq s"
  "open_cnt (linked_rows g cs s) = open_cnt s" "version (linked_rows g cs s) = version s"
  "trigger_cb_without_switch (linked_rows g cs s) = trigger_cb_without_switch s"
  by (induction cs arbitrary: s) simp_all

lemma mergeable_link1:
  assumes "g < length (sync_table s)" and "cam_mergeable g (c # cs) s"
  shows "cam_mergeable g cs (link1 g c s)" "\<And>x. x \<in> set cs \<Longrightarrow> row (link1 g c s) x = row s x"
    "active_of (link1 g c s) cs = active_of s cs"
proof -
  have c: "c < length (sync_table s)" "c \<noteq> g" "c \<notin> set cs" using assms(2) by (auto simp: cam_mergeable_def)
  show "cam_mergeable g cs (link1 g c s)" using assms(2) by (auto simp: cam_mergeable_def)
  show r: "row (link1 g c s) x = row s x" if "x \<in> set cs" for x
    using that assms(2) c row_link1[OF assms(1) c(1,2), of x] by (auto simp: cam_mergeable_def)
  show "active_of (link1 g c s) cs = active_of s cs" unfolding active_of_def by (rule filter_cong) (simp_all add: r)
qed

lemma row_linked_other:
  "g < length (sync_table s) \<Longrightarrow> cam_mergeable g cs s \<Longrightarrow> j \<noteq> g \<Longrightarrow>
   row (linked_rows g cs s) j = (if j \<in> set (active_of s cs) then (row s j)\<lparr>sr_parents_list := sr_parents_list (row s j) @ [g]\<rparr> else row s j)"
proof (induction cs arbitrary: s)
  case (Cons c cs)
  have c: "c < length (sync_table s)" "c \<noteq> g" "c \<notin> set cs" using Cons.prems(2) by (auto simp: cam_mergeable_def)
  note m = mergeable_link1[OF Cons.prems(1,2)]
  have "c \<notin> set (active_of s cs)" using c by (auto simp: active_of_def)
  moreover have "j \<in> set (active_of s cs) \<Longrightarrow> row (link1 g c s) j = row s j" using m(2) by (auto simp: active_of_def)
  ultimately show ?case
    using Cons.IH[of "link1 g c s"] Cons.prems m(1,3) row_link1[OF Cons.prems(1) c(1,2), of j]
    by (auto simp: active_of_def)
qed (simp add: active_of_def)

lemma row_linked_group:
  "g < length (sync_table s) \<Longrightarrow> cam_mergeable g cs s \<Longrightarrow>
   row (linked_rows g cs s) g = (row s g)\<lparr>sr_state := last_bad (sr_state (row s g)) (map (\<lambda>c. sr_state (row s c)) cs),
     sr_remaining := sr_remaining (row s g) + of_nat (length (active_of s cs)),
     sr_children_list := sr_children_list (row s g) @ active_of s cs\<rparr>"
proof (induction cs arbitrary: s)
  case (Cons c cs)
  have c: "c < length (sync_table s)" "c \<noteq> g" using Cons.prems(2) by (auto simp: cam_mergeable_def)
  note m = mergeable_link1[OF Cons.prems(1,2)]
  have mm: "map (\<lambda>x. sr_state (row (link1 g c s) x)) cs = map (\<lambda>x. sr_state (row s x)) cs" using m(2) by simp
  have ih: "row (linked_rows g cs (link1 g c s)) g = (row (link1 g c s) g)\<lparr>sr_state := last_bad (sr_state (row (link1 g c s) g)) (map (\<lambda>c. sr_state (row s c)) cs),
     sr_remaining := sr_remaining (row (link1 g c s) g) + of_nat (length (active_of s cs)),
     sr_children_list := sr_children_list (row (link1 g c s) g) @ active_of s cs\<rparr>"
    using Cons.IH[OF _ m(1)] Cons.prems(1) by (simp only: mm m(3) link1_fields)
  have "active_of s (c # cs) = (if sr_state (row s c) = CAM_SYNC_STATE_ACTIVE then c # active_of s cs else active_of s cs)"
    by (simp add: active_of_def)
  then show ?case
    by (simp add: ih row_link1[OF Cons.prems(1) c, of g] add.assoc)
qed (simp add: active_of_def)

text \<open>The loop either links all children or stops at one of them, with the children before it linked.\<close>

text \<open>What ends the loop over the children at the \<open>i\<close>-th child: a group, a row not in use, or an active child for which one of the
  two allocations fails.\<close>

definition child_blocks :: "(nat \<Rightarrow> bool) \<Rightarrow> nat \<Rightarrow> sync_table_row \<Rightarrow> bool" where
  "child_blocks kz i r \<longleftrightarrow>
    sr_type r = CAM_SYNC_TYPE_GROUP \<or> \<not> valid r \<or> (sr_state r = CAM_SYNC_STATE_ACTIVE \<and> \<not> (kz (2 * i) \<and> kz (2 * i + 1)))"

lemma link_children_cases:
  assumes "g < length (sync_table s)" and "cam_mergeable g cs s"
  shows "(link_children kz g i cs s = Some (Inr (), linked_rows g cs s) \<and> (\<forall>n < length cs. \<not> child_blocks kz (i + n) (row s (cs ! n)))) \<or>
    (\<exists>e n f. n < length cs \<and> link_children kz g i cs s = Some (Inl (e, i + n), upd_row g f (linked_rows g (take n cs) s)) \<and>
       (\<forall>r. sr_type (f r) = sr_type r \<and> sr_callback_list (f r) = sr_callback_list r \<and> sr_parents_list (f r) = sr_parents_list r \<and>
          sr_user_payload_list (f r) = sr_user_payload_list r) \<and>
       child_blocks kz (i + n) (row s (cs ! n)))"
  using assms
proof (induction cs arbitrary: i s)
  case (Cons c cs)
  have c: "c < length (sync_table s)" "c \<noteq> g" using Cons.prems(2) by (auto simp: cam_mergeable_def)
  note m = mergeable_link1[OF Cons.prems]
  let ?fail = "\<lambda>e f. link_children kz g i (c # cs) s = Some (Inl (e, i), upd_row g f s)"
  have fail: ?case if "?fail e f" "child_blocks kz i (row s c)"
    "\<forall>r. sr_type (f r) = sr_type r \<and> sr_callback_list (f r) = sr_callback_list r \<and> sr_parents_list (f r) = sr_parents_list r \<and>
          sr_user_payload_list (f r) = sr_user_payload_list r" for e f
    using that by (intro disjI2 exI[of _ e] exI[of _ 0] exI[of _ f]) (simp del: link_children.simps)
  have step: ?case if "link_children kz g i (c # cs) s = link_children kz g (Suc i) cs (link1 g c s)"
    "\<not> child_blocks kz i (row s c)"
  proof -
    have g: "g < length (sync_table (link1 g c s))" using Cons.prems(1) by simp
    have rn: "n < length cs \<Longrightarrow> row (link1 g c s) (cs ! n) = row s (cs ! n)" for n using m(2) by simp
    from Cons.IH[OF g m(1), of "Suc i"] show ?thesis
    proof (rule disjE, goal_cases)
      case 1
      then have "\<not> child_blocks kz (i + n) (row s ((c # cs) ! n))" if "n < length (c # cs)" for n
        using that rn \<open>\<not> child_blocks kz i (row s c)\<close> by (cases n) auto
      then show ?case using that 1 by (simp del: link_children.simps)
    next
      case 2
      then obtain e n f where "n < length cs" "link_children kz g (Suc i) cs (link1 g c s) =
          Some (Inl (e, Suc i + n), upd_row g f (linked_rows g (take n cs) (link1 g c s)))"
        "\<forall>r. sr_type (f r) = sr_type r \<and> sr_callback_list (f r) = sr_callback_list r \<and> sr_parents_list (f r) = sr_parents_list r \<and>
          sr_user_payload_list (f r) = sr_user_payload_list r"
        "child_blocks kz (Suc i + n) (row s (cs ! n))" using rn by metis
      then show ?case using that(1)
        by (intro disjI2 exI[of _ e] exI[of _ "Suc n"] exI[of _ f]) (simp del: link_children.simps)
    qed
  qed
  have keep: "upd_row g (\<lambda>r. r) s = s" by (simp add: upd_row_def)
  consider (inv) "sr_type (row s c) = CAM_SYNC_TYPE_GROUP \<or> \<not> valid (row s c)" | (done') "sr_type (row s c) \<noteq> CAM_SYNC_TYPE_GROUP" "valid (row s c)" "sr_state (row s c) \<noteq> CAM_SYNC_STATE_ACTIVE"
    | (act) "sr_type (row s c) \<noteq> CAM_SYNC_TYPE_GROUP" "sr_state (row s c) = CAM_SYNC_STATE_ACTIVE" by blast
  then show ?case
  proof cases
    case inv
    then show ?thesis using c by (intro fail[of EINVAL "\<lambda>r. r"]) (auto simp: get_row_Some keep child_blocks_def)
  next
    case done'
    then show ?thesis using c by (intro step) (auto simp: get_row_Some link1_def child_blocks_def)
  next
    case act
    have n: "\<not> (sr_state (row s c) = CAM_SYNC_STATE_SIGNALED_ERROR \<or> sr_state (row s c) = CAM_SYNC_STATE_SIGNALED_CANCEL)"
      using act(2) by (auto simp: cam_consts)
    show ?thesis
    proof (cases "kz (2 * i) \<and> kz (2 * i + 1)")
      case True
      then show ?thesis using c act n by (intro step) (auto simp: get_row_Some link1_def Let_def child_blocks_def cam_consts)
    next
      case False
      show ?thesis
      proof (cases "kz (2 * i)")
        case True
        with False show ?thesis using c act n
          by (intro fail[of ENOMEM "\<lambda>r. r\<lparr>sr_remaining := sr_remaining r + 1, sr_children_list := sr_children_list r @ [c]\<rparr>"])
            (auto simp: get_row_Some Let_def child_blocks_def)
      next
        case False
        then show ?thesis using c act n
          by (intro fail[of ENOMEM "\<lambda>r. r\<lparr>sr_remaining := sr_remaining r + 1\<rparr>"]) (auto simp: get_row_Some Let_def child_blocks_def)
      qed
    qed
  qed
qed simp

section \<open>The rollback of a failed merge\<close>

lemma row_unlink:
  "distinct cs \<Longrightarrow> \<forall>c \<in> set cs. c < length (sync_table s) \<Longrightarrow>
   row (fold (\<lambda>c. upd_row c f) cs s) j = (if j \<in> set cs then f (row s j) else row s j)"
  by (induction cs arbitrary: s) (auto simp: row_upd_row)

lemma fold_upd_row_fields [simp]:
  "length (sync_table (fold (\<lambda>c. upd_row c f) cs s)) = length (sync_table s)" "bitmap (fold (\<lambda>c. upd_row c f) cs s) = bitmap s"
  "work_queue (fold (\<lambda>c. upd_row c f) cs s) = work_queue s" "events (fold (\<lambda>c. upd_row c f) cs s) = events s"
  "called (fold (\<lambda>c. upd_row c f) cs s) = called s"
  by (induction cs arbitrary: s) simp_all

lemma clean_fields [simp]:
  "length (sync_table (clean_children_info g cs s)) = length (sync_table s)" "bitmap (clean_children_info g cs s) = bitmap s"
  "work_queue (clean_children_info g cs s) = work_queue s" "events (clean_children_info g cs s) = events s"
  "called (clean_children_info g cs s) = called s"
  by (simp_all add: clean_children_info_def)

lemma rollback_rows:
  assumes g: "g < length (sync_table s)" and m: "cam_mergeable g cs s" and new: "\<forall>c \<in> set cs. g \<notin> set (sr_parents_list (row s c))"
    and f: "\<forall>r. sr_type (f r) = sr_type r \<and> sr_callback_list (f r) = sr_callback_list r \<and> sr_parents_list (f r) = sr_parents_list r \<and>
      sr_user_payload_list (f r) = sr_user_payload_list r"
  shows "j \<noteq> g \<Longrightarrow> row (clean_children_info g (rev cs) (upd_row g f (linked_rows g cs s))) j = row s j"
    and "let r = row (clean_children_info g (rev cs) (upd_row g f (linked_rows g cs s))) g in
      \<not> valid r \<and> sr_type r = sr_type (row s g) \<and> sr_children_list r = [] \<and> sr_callback_list r = sr_callback_list (row s g) \<and>
      sr_parents_list r = sr_parents_list (row s g) \<and> sr_user_payload_list r = sr_user_payload_list (row s g)"
proof -
  have d: "distinct (rev cs)" "\<And>s'. length (sync_table s') = length (sync_table s) \<Longrightarrow> \<forall>c \<in> set (rev cs). c < length (sync_table s')" "g \<notin> set cs"
    using m by (auto simp: cam_mergeable_def)
  let ?s1 = "upd_row g (\<lambda>r. r\<lparr>sr_state := CAM_SYNC_STATE_INVALID\<rparr>) (upd_row g f (linked_rows g cs s))"
  let ?s2 = "fold (\<lambda>c. upd_row c (cam_sync_util_cleanup_parents_list SYNC_LIST_CLEAN_ONE g)) (rev cs) ?s1"
  have r2: "row ?s2 j = (if j \<in> set (rev cs) then cam_sync_util_cleanup_parents_list SYNC_LIST_CLEAN_ONE g (row ?s1 j) else row ?s1 j)" for j
    by (rule row_unlink[OF d(1)], rule d(2)) simp
  show "row (clean_children_info g (rev cs) (upd_row g f (linked_rows g cs s))) j = row s j" if j: "j \<noteq> g"
  proof -
    have p: "remove1 g (sr_parents_list (row s j)) = sr_parents_list (row s j)" if "j \<in> set cs"
      using new that by (simp add: remove1_idem)
    have "row (clean_children_info g (rev cs) (upd_row g f (linked_rows g cs s))) j = row ?s2 j"
      using j by (simp add: clean_children_info_def)
    also have "\<dots> = row s j"
      using j p new row_linked_other[OF g m j]
      unfolding r2 by (auto simp: cam_sync_util_cleanup_parents_list_def remove1_append active_of_def)
    finally show ?thesis .
  qed
  have "row ?s2 g = row ?s1 g" using r2[of g] d(3) by simp
  then show "let r = row (clean_children_info g (rev cs) (upd_row g f (linked_rows g cs s))) g in
      \<not> valid r \<and> sr_type r = sr_type (row s g) \<and> sr_children_list r = [] \<and> sr_callback_list r = sr_callback_list (row s g) \<and>
      sr_parents_list r = sr_parents_list (row s g) \<and> sr_user_payload_list r = sr_user_payload_list (row s g)"
    using g f row_linked_group[OF g m]
    by (simp add: clean_children_info_def row_upd_row cam_sync_util_cleanup_children_list_def Let_def)
qed

section \<open>Merging\<close>

lemma is_signaled_last_bad: "st = CAM_SYNC_STATE_ACTIVE \<or> is_signaled st \<Longrightarrow> last_bad st xs = CAM_SYNC_STATE_ACTIVE \<or> is_signaled (last_bad st xs)"
  by (induction xs arbitrary: st) (auto simp: bad_def)

lemma last_bad_active: "last_bad CAM_SYNC_STATE_ACTIVE xs = CAM_SYNC_STATE_ACTIVE \<or> bad (last_bad CAM_SYNC_STATE_ACTIVE xs)"
proof -
  have "last_bad st xs = st \<or> bad (last_bad st xs)" for st
  proof (induction xs arbitrary: st)
    case (Cons x xs)
    show ?case using Cons[of x] Cons[of st] by auto
  qed simp
  then show ?thesis by blast
qed

text \<open>The group after a successful merge, in the table with the children linked to it.\<close>

definition group_row :: "nat \<Rightarrow> nat list \<Rightarrow> sync_device \<Rightarrow> sync_table_row" where
  "group_row g cs s =
     (let st = last_bad CAM_SYNC_STATE_ACTIVE (map (\<lambda>c. sr_state (row s c)) cs); act = active_of s cs in
      (fresh_row g (Some ''merged_fence'') CAM_SYNC_TYPE_GROUP)\<lparr>
        sr_state := (if act = [] \<and> \<not> bad st then CAM_SYNC_STATE_SIGNALED_SUCCESS else st),
        sr_remaining := of_nat (length act), sr_children_list := act, sr_signaled := (act = [])\<rparr>)"

definition merged_table :: "nat \<Rightarrow> nat list \<Rightarrow> sync_device \<Rightarrow> sync_device" where
  "merged_table g cs s =
     s\<lparr>sync_table := map (\<lambda>j. if j = g then group_row g cs s
         else if j \<in> set (active_of s cs) then (row s j)\<lparr>sr_parents_list := sr_parents_list (row s j) @ [g]\<rparr> else row s j)
       [0..<length (sync_table s)], bitmap := (bitmap s)[g := True]\<rparr>"

lemma merged_fields [simp]:
  "length (sync_table (merged_table g cs s)) = length (sync_table s)" "bitmap (merged_table g cs s) = (bitmap s)[g := True]"
  by (simp_all add: merged_table_def)

lemma row_merged: "j < length (sync_table s) \<Longrightarrow> row (merged_table g cs s) j = (if j = g then group_row g cs s
   else if j \<in> set (active_of s cs) then (row s j)\<lparr>sr_parents_list := sr_parents_list (row s j) @ [g]\<rparr> else row s j)"
  by (simp add: merged_table_def)

lemma length_active_bound:
  assumes "cam_mergeable g cs s" and "length (sync_table s) = CAM_SYNC_MAX_OBJS"
  shows "length (active_of s cs) \<le> 2048" "unat (of_nat (length (active_of s cs)) :: u32) = length (active_of s cs)"
proof -
  have "set cs \<subseteq> {..<2048}" using assms by (auto simp: cam_mergeable_def CAM_SYNC_MAX_OBJS_def)
  then have "card (set cs) \<le> card {..<2048 :: nat}" by (intro card_mono) auto
  then have "length cs \<le> 2048" using assms(1) by (simp add: cam_mergeable_def distinct_card)
  moreover have "length (active_of s cs) \<le> length cs" by (simp add: active_of_def)
  ultimately show "length (active_of s cs) \<le> 2048" by simp
  then show "unat (of_nat (length (active_of s cs)) :: u32) = length (active_of s cs)"
    by (simp add: unat_of_nat)
qed

lemma init_group_ok:
  assumes len: "length (sync_table s) = CAM_SYNC_MAX_OBJS" and g: "0 < g" "g < CAM_SYNC_MAX_OBJS" and m: "cam_mergeable g cs s"
    and lc: "link_children kz g 0 cs (snd (cam_sync_init_row g (Some ''merged_fence'') CAM_SYNC_TYPE_GROUP s)) = Some (Inr (), linked_rows g cs (upd_row g (\<lambda>_. fresh_row g (Some ''merged_fence'') CAM_SYNC_TYPE_GROUP) s))"
  shows "\<exists>s'. cam_sync_init_group_object kz g cs s = Some (Inr (), s') \<and> s'\<lparr>bitmap := (bitmap s)[g := True]\<rparr> = merged_table g cs s \<and> bitmap s' = bitmap s"
proof -
  let ?r0 = "fresh_row g (Some ''merged_fence'') CAM_SYNC_TYPE_GROUP"
  let ?s0 = "upd_row g (\<lambda>_. ?r0) s" let ?s1 = "linked_rows g cs ?s0"
  let ?st = "last_bad CAM_SYNC_STATE_ACTIVE (map (\<lambda>c. sr_state (row s c)) cs)"
  have gl: "g < length (sync_table ?s0)" "g < length (sync_table s)" using len g by simp_all
  have m0: "cam_mergeable g cs ?s0" using m by (auto simp: cam_mergeable_def)
  have rc: "row ?s0 c = row s c" if "c \<in> set cs" for c using m that by (auto simp: cam_mergeable_def)
  have act: "active_of ?s0 cs = active_of s cs" unfolding active_of_def by (rule filter_cong) (simp_all add: rc)
  have map0: "map (\<lambda>c. sr_state (row ?s0 c)) cs = map (\<lambda>c. sr_state (row s c)) cs" using rc by simp
  have rg: "row ?s1 g = ?r0\<lparr>sr_state := ?st, sr_remaining := of_nat (length (active_of s cs)), sr_children_list := active_of s cs\<rparr>"
    using row_linked_group[OF gl(1) m0] gl unfolding map0 act by (simp add: row_upd_row)
  have ro: "row ?s1 j = (if j \<in> set (active_of s cs) then (row s j)\<lparr>sr_parents_list := sr_parents_list (row s j) @ [g]\<rparr> else row s j)" if "j \<noteq> g" for j
    using row_linked_other[OF gl(1) m0 that] that unfolding act by simp
  have zero: "of_nat (length (active_of s cs)) = (0 :: u32) \<longleftrightarrow> active_of s cs = []"
    unfolding unat_eq_zero[symmetric] length_active_bound(2)[OF m len] by simp
  define s' where "s' = (if active_of s cs = [] then upd_row g (\<lambda>r. r\<lparr>
            sr_state := (if sr_state r \<noteq> CAM_SYNC_STATE_SIGNALED_ERROR \<and> sr_state r \<noteq> CAM_SYNC_STATE_SIGNALED_CANCEL
                         then CAM_SYNC_STATE_SIGNALED_SUCCESS else sr_state r), sr_signaled := True\<rparr>) ?s1 else ?s1)"
  have rem: "sr_remaining (row ?s1 g) = 0 \<longleftrightarrow> active_of s cs = []" using zero by (simp add: rg)
  have get: "get_row ?s1 g = Some (row ?s1 g)" using gl by (simp add: get_row_Some)
  have ex: "cam_sync_init_group_object kz g cs s = Some (Inr (), s')"
    unfolding cam_sync_init_group_object_def lc s'_def
    by (simp add: get rem cong del: if_weak_cong split del: if_split) (simp cong del: if_weak_cong)
  have f: "bitmap s' = bitmap s" "length (sync_table s') = length (sync_table s)" "work_queue s' = work_queue s" "events s' = events s"
    "called s' = called s" "open_cnt s' = open_cnt s" "version s' = version s" "cam_sync_eventq s' = cam_sync_eventq s"
    "trigger_cb_without_switch s' = trigger_cb_without_switch s"
    unfolding s'_def by (cases "active_of s cs = []"; simp)+
  have tab: "sync_table s' = sync_table (merged_table g cs s)"
  proof (rule nth_equalityI)
    fix j assume "j < length (sync_table s')"
    then have j: "j < length (sync_table s)" using f(2) by simp
    show "row s' j = row (merged_table g cs s) j"
    proof (cases "j = g")
      case True
      have "row s' g = group_row g cs s"
        using gl by (simp add: s'_def row_upd_row rg group_row_def Let_def bad_def)
      then show ?thesis using j True by (simp add: row_merged)
    next
      case False
      then show ?thesis using ro[OF False] j by (simp add: s'_def row_merged)
    qed
  qed (simp add: f)
  have "s'\<lparr>bitmap := (bitmap s)[g := True]\<rparr> = merged_table g cs s"
    by (rule sync_device.equality) (simp_all add: f tab, simp_all add: merged_table_def)
  then show ?thesis using ex f(1) by blast
qed

text \<open>The array without later copies of an element.\<close>

definition keep_first :: "'a list \<Rightarrow> 'a list" where
  "keep_first xs = rev (remdups (rev xs))"

lemma keep_first_snoc: "keep_first (xs @ [x]) = (if x \<in> set xs then keep_first xs else keep_first xs @ [x])"
  by (simp add: keep_first_def)

lemma set_keep_first [simp]: "set (keep_first xs) = set xs" and distinct_keep_first [simp]: "distinct (keep_first xs)"
  by (simp_all add: keep_first_def)

lemma length_keep_first: "length (keep_first xs) = card (set xs)"
  by (metis distinct_card distinct_keep_first set_keep_first)

lemma keep_first_distinct: "distinct xs \<Longrightarrow> keep_first xs = xs"
  by (simp add: keep_first_def distinct_remdups_id)

lemma length_keep_first_iff: "length (keep_first xs) = length xs \<longleftrightarrow> distinct xs"
  by (metis card_distinct distinct_card length_keep_first)

lemma remove_dup_loop_spec:
  assumes "length arr = length xs" and "i \<le> length xs" and "0 < i" and "wr \<le> i" and "take wr arr = keep_first (take i xs)" and "drop i arr = drop i xs"
  shows "\<exists>arr'. remove_dup_loop i wr arr = (length (keep_first xs), arr') \<and> length arr' = length xs \<and> take (length (keep_first xs)) arr' = keep_first xs"
  using assms
proof (induction i wr arr rule: remove_dup_loop.induct)
  case (1 i wr arr)
  show ?case
  proof (cases "i < length arr")
    case True
    then have ix: "i < length xs" using 1(3) by simp
    have x: "arr ! i = xs ! i" "drop (Suc i) arr = drop (Suc i) xs" using 1(8) True ix by (simp_all add: Cons_nth_drop_Suc[symmetric])
    have t: "take (Suc i) xs = take i xs @ [xs ! i]" using ix by (simp add: take_Suc_conv_app_nth)
    have mem: "arr ! i \<in> set (take wr arr) \<longleftrightarrow> xs ! i \<in> set (take i xs)" using 1(7) x(1) by simp
    show ?thesis
    proof (cases "arr ! i \<in> set (take wr arr)")
      case seen: True
      have "\<exists>arr'. remove_dup_loop (Suc i) wr arr = (length (keep_first xs), arr') \<and> length arr' = length xs \<and> take (length (keep_first xs)) arr' = keep_first xs"
        by (rule 1(1)[OF True seen]) (use 1 ix seen mem x t in \<open>simp_all add: keep_first_snoc\<close>)
      then show ?thesis using True seen by (subst remove_dup_loop.simps) simp
    next
      case new: False
      have wr: "wr \<le> i" "wr < length arr" using 1(6) True by simp_all
      have lk: "length (keep_first (take i xs)) = wr" using 1(7) wr(2) by (metis length_take min.absorb2 less_imp_le)
      have tk: "take (Suc wr) (arr[wr := arr ! i]) = keep_first (take (Suc i) xs)"
        using 1(7) new mem x(1) t wr(2) by (simp add: keep_first_snoc take_Suc_conv_app_nth take_update_swap list_update_append lk)
      have dr: "drop (Suc i) (arr[wr := arr ! i]) = drop (Suc i) xs"
        using x(2) wr(1) by (simp add: drop_update_cancel)
      have "\<exists>arr'. remove_dup_loop (Suc i) (Suc wr) (arr[wr := arr ! i]) = (length (keep_first xs), arr') \<and> length arr' = length xs \<and> take (length (keep_first xs)) arr' = keep_first xs"
        by (rule 1(2)[OF True new]) (use 1 ix tk dr in simp_all)
      then show ?thesis using True new by (subst remove_dup_loop.simps) simp
    qed
  next
    case False
    then have i: "i = length xs" using 1(3,4) by simp
    then have tk: "take wr arr = keep_first xs" using 1(7) by simp
    moreover have "wr \<le> length arr" using 1(3,6) i by simp
    ultimately have "wr = length (keep_first xs)" by (metis length_take min.absorb2)
    then show ?thesis using False tk 1(3) by (subst remove_dup_loop.simps) simp
  qed
qed

lemma remove_duplicate_spec:
  assumes "xs \<noteq> []"
  shows "\<exists>arr. cam_common_util_remove_duplicate_arr xs = (length (keep_first xs), arr) \<and> length arr = length xs \<and> take (length (keep_first xs)) arr = keep_first xs"
  unfolding cam_common_util_remove_duplicate_arr_def
  by (rule remove_dup_loop_spec) (use assms in \<open>cases xs; simp add: keep_first_def\<close>)+

lemma remove_duplicate_distinct:
  assumes "xs \<noteq> []" and "cam_common_util_remove_duplicate_arr xs = (n, arr)"
  shows "n = length xs \<longleftrightarrow> distinct xs" and "distinct xs \<Longrightarrow> arr = xs"
proof -
  show n: "n = length xs \<longleftrightarrow> distinct xs" using remove_duplicate_spec[OF assms(1)] assms(2) length_keep_first_iff by auto
  show "arr = xs" if "distinct xs" using remove_duplicate_spec[OF assms(1)] assms(2) n that keep_first_distinct[OF that] by auto
qed

lemma check_valid_eq:
  assumes "cam_inv lost pend s"
  shows "cam_sync_check_valid x s = Some (if in_range x \<and> valid (row s (nat x)) then Inr () else Inl EINVAL)"
proof (cases "in_range x")
  case True
  then have i: "0 < nat x" "nat x < CAM_SYNC_MAX_OBJS" using in_range_nat by auto
  then have "bitmap s ! nat x \<longleftrightarrow> valid (row s (nat x))" using assms by (simp add: cam_inv_def)
  then show ?thesis using True i assms cam_inv_lengths[OF assms] by (simp add: cam_sync_check_valid_def)
qed (simp add: cam_sync_check_valid_def)

lemma check_valid_all_eq:
  "cam_inv lost pend s \<Longrightarrow> check_valid_all xs s = Some (if \<forall>x \<in> set xs. in_range x \<and> valid (row s (nat x)) then Inr () else Inl EINVAL)"
  by (induction xs) (auto simp: check_valid_eq)

lemma merged_inv:
  assumes inv: "cam_inv lost pend s" and gM: "g < CAM_SYNC_MAX_OBJS" and free: "\<not> bitmap s ! g" and m: "cam_mergeable g cs s"
    and pos: "\<forall>c \<in> set cs. 0 < c \<and> sr_type (row s c) \<noteq> CAM_SYNC_TYPE_GROUP"
  shows "cam_inv (lost(g := 0)) pend (merged_table g cs s)"
proof -
  let ?s = "merged_table g cs s" let ?act = "active_of s cs"
  note f = cam_inv_free_row[OF inv gM free]
  have len: "length (sync_table s) = CAM_SYNC_MAX_OBJS" "length (bitmap s) = CAM_SYNC_MAX_OBJS" using cam_inv_lengths[OF inv] by simp_all
  have r: "row ?s j = (if j = g then group_row g cs s
   else if j \<in> set ?act then (row s j)\<lparr>sr_parents_list := sr_parents_list (row s j) @ [g]\<rparr> else row s j)" if "j < CAM_SYNC_MAX_OBJS" for j
    using row_merged that len by simp
  have act: "c < CAM_SYNC_MAX_OBJS" "0 < c" "c \<noteq> g" "sr_state (row s c) = CAM_SYNC_STATE_ACTIVE" "sr_type (row s c) \<noteq> CAM_SYNC_TYPE_GROUP" if "c \<in> set ?act" for c
    using that m pos len by (auto simp: active_of_def cam_mergeable_def)
  note n = length_active_bound[OF m len(1)]
  have zero: "of_nat (length ?act) = (0 :: u32) \<longleftrightarrow> ?act = []" unfolding unat_eq_zero[symmetric] n(2) by simp
  let ?st = "last_bad CAM_SYNC_STATE_ACTIVE (map (\<lambda>c. sr_state (row s c)) cs)"
  have st: "?st = CAM_SYNC_STATE_ACTIVE \<or> is_signaled ?st" "?st \<noteq> CAM_SYNC_STATE_INVALID"
    using last_bad_active[of "map (\<lambda>c. sr_state (row s c)) cs"] by (auto simp: bad_def cam_consts is_signaled_def)
  have gv: "valid (group_row g cs s)" "sr_type (group_row g cs s) = CAM_SYNC_TYPE_GROUP" "sr_parents_list (group_row g cs s) = []"
    "sr_children_list (group_row g cs s) = ?act" "sr_remaining (group_row g cs s) = of_nat (length ?act)"
    using st(2) by (auto simp: group_row_def Let_def cam_consts)
  have "distinct ?act" using m by (simp add: active_of_def cam_mergeable_def)
  then have wfg: "row_wf g (group_row g cs s)"
    using gv st act(1,2) zero last_bad_active[of "map (\<lambda>c. sr_state (row s c)) cs"]
    by (auto simp: row_wf_def group_row_def Let_def bad_def)
  have wf: "row_wf j (row ?s j)" if j: "j < CAM_SYNC_MAX_OBJS" for j
  proof -
    have "row_wf j ((row s j)\<lparr>sr_parents_list := sr_parents_list (row s j) @ [g]\<rparr>)" if "j \<in> set ?act"
      using cam_inv_row_wf[OF inv j] act(4,5)[OF that] f(1,4) gM j by (simp add: row_wf_def)
    then show ?thesis using wfg cam_inv_row_wf[OF inv j] by (simp add: r[OF j])
  qed
  have grp: "is_group ?s p \<longleftrightarrow> is_group s p \<or> p = g" for p
    using gv gM by (auto simp: is_group_def r split: if_splits)
  have lk: "child_links ?s p = (if p = g then set ?act else child_links s p)" for p
    using f(3,4,6) gv(3) act(1,3) by (auto simp: child_links_def r split: if_splits)
  have cnt: "unat (sr_remaining (row ?s p)) = card (child_links ?s p) + count_list pend p + (lost(g := 0)) p" if "is_group ?s p" for p
  proof (cases "p = g")
    case True
    have "card (set ?act) = length ?act" using m by (intro distinct_card) (simp add: active_of_def cam_mergeable_def)
    then show ?thesis using True n(2) gv(5) gM f(5) by (simp add: r lk)
  next
    case False
    then have g: "is_group s p" using that grp by blast
    then have p: "p < CAM_SYNC_MAX_OBJS" by (simp add: is_group_def)
    have "sr_remaining (row ?s p) = sr_remaining (row s p)" using False by (simp add: r[OF p])
    then show ?thesis using cam_inv_count[OF inv g] False by (simp add: lk)
  qed
  have link: "is_group ?s p" "c \<in> set (sr_children_list (row ?s p))"
    if c: "c < CAM_SYNC_MAX_OBJS" and p: "p \<in> set (sr_parents_list (row ?s c))" for c p
  proof -
    have "p = g \<and> c \<in> set ?act \<or> p \<noteq> g \<and> p \<in> set (sr_parents_list (row s c))"
      using p f(4)[OF c] gv(3) by (auto simp: r[OF c] split: if_splits)
    then show "is_group ?s p" "c \<in> set (sr_children_list (row ?s p))"
      using cam_inv_link(1,2,6)[OF inv c] gv(4) gM by (auto simp: grp r)
  qed
  have bm: "bitmap ?s ! j = valid (row ?s j)" if "0 < j" "j < CAM_SYNC_MAX_OBJS" for j
    using inv that len gM gv(1) act(4) by (auto simp: r cam_inv_def nth_list_update_both)
  have z: "bitmap ?s ! 0" "\<not> valid (row ?s 0)"
    using inv f(1) gM act(2) by (auto simp: r cam_inv_def nth_list_update_both)
  show ?thesis
    unfolding cam_inv_def using len wf link cnt bm z inv grp by (auto simp: cam_inv_def)
qed

text \<open>A row outside the table of valid rows may change as long as it stays invalid and empty.\<close>

lemma cam_inv_invalid_row:
  assumes inv: "cam_inv lost pend s" and len: "length (sync_table s') = length (sync_table s)" and bm: "bitmap s' = bitmap s"
    and g: "g < CAM_SYNC_MAX_OBJS" "\<not> valid (row s g)" "\<not> valid (row s' g)" "row_wf g (row s' g)"
    and other: "\<And>j. j \<noteq> g \<Longrightarrow> row s' j = row s j"
  shows "cam_inv lost pend s'"
proof -
  have pg: "sr_parents_list (row s g) = []" "sr_parents_list (row s' g) = []"
    using cam_inv_row_wf[OF inv g(1)] g by (simp_all add: row_wf_def)
  have grp: "is_group s' p = is_group s p" for p
    using other[of p] g(2,3) by (cases "p = g") (simp_all add: is_group_def)
  have par: "sr_parents_list (row s' c) = sr_parents_list (row s c)" for c using pg other[of c] by (cases "c = g") simp_all
  have lk: "child_links s' p = child_links s p" for p by (simp only: child_links_def par)
  have v: "valid (row s' j) = valid (row s j)" for j using other[of j] g(2,3) by (cases "j = g") simp_all
  have ng: "is_group s p \<Longrightarrow> row s' p = row s p" for p using g(2) other[of p] by (cases "p = g") (auto simp: is_group_def)
  have wf: "row_wf j (row s' j)" if "j < CAM_SYNC_MAX_OBJS" for j
    using cam_inv_row_wf[OF inv that] g(4) other[of j] by (cases "j = g") simp_all
  show ?thesis
    using inv wf ng unfolding cam_inv_def by (simp add: len bm grp par lk v)
qed

lemma merge_fail_inv:
  assumes inv: "cam_inv lost pend s" and gM: "g < CAM_SYNC_MAX_OBJS" and free: "\<not> bitmap s ! g" and m: "cam_mergeable g cs s"
    and f: "\<forall>r. sr_type (f r) = sr_type r \<and> sr_callback_list (f r) = sr_callback_list r \<and> sr_parents_list (f r) = sr_parents_list r \<and>
      sr_user_payload_list (f r) = sr_user_payload_list r"
    and s': "s' = clear_bmp g (clean_children_info g (rev cs) (upd_row g f (linked_rows g cs (upd_row g (\<lambda>_. fresh_row g n CAM_SYNC_TYPE_GROUP) (set_bmp g s)))))"
  shows "cam_inv lost pend s'" "\<And>j. j \<noteq> g \<Longrightarrow> row s' j = row s j" "\<not> valid (row s' g)" "bitmap s' = bitmap s" "work_queue s' = work_queue s"
    "events s' = events s" "called s' = called s" "length (sync_table s') = length (sync_table s)"
proof -
  let ?s0 = "upd_row g (\<lambda>_. fresh_row g n CAM_SYNC_TYPE_GROUP) (set_bmp g s)"
  have len: "length (sync_table s) = CAM_SYNC_MAX_OBJS" "length (bitmap s) = CAM_SYNC_MAX_OBJS" using cam_inv_lengths[OF inv] by simp_all
  have gl: "g < length (sync_table ?s0)" "g < length (sync_table (set_bmp g s))" using len gM by simp_all
  have m0: "cam_mergeable g cs ?s0" using m by (auto simp: cam_mergeable_def)
  have r0: "row ?s0 c = row s c" if "c \<noteq> g" for c using that by simp
  have new: "\<forall>c \<in> set cs. g \<notin> set (sr_parents_list (row ?s0 c))"
  proof
    fix c assume "c \<in> set cs"
    then have "c \<noteq> g" "c < CAM_SYNC_MAX_OBJS" using m len by (auto simp: cam_mergeable_def)
    then show "g \<notin> set (sr_parents_list (row ?s0 c))" using cam_inv_free_row(4)[OF inv gM free, of c] by simp
  qed
  note rb = rollback_rows[OF gl(1) m0 new f]
  show rows: "row s' j = row s j" if "j \<noteq> g" for j using rb(1)[OF that] that by (simp add: s')
  have g': "\<not> valid (row s' g)" "row_wf g (row s' g)" using rb(2) gl by (auto simp: s' Let_def row_upd_row row_wf_def)
  then show "\<not> valid (row s' g)" by blast
  have "(bitmap s)[g := False] = bitmap s" using free len gM by (metis list_update_id)
  then show bm: "bitmap s' = bitmap s" by (simp add: s')
  show l: "length (sync_table s') = length (sync_table s)" by (simp add: s')
  show "work_queue s' = work_queue s" "events s' = events s" "called s' = called s" by (simp_all add: s' set_bmp_def clear_bmp_def)
  show "cam_inv lost pend s'"
    by (rule cam_inv_invalid_row[OF inv l bm gM cam_inv_free_row(2)[OF inv gM free] g'(1,2)]) (rule rows)
qed

text \<open>The outcomes of a merge.\<close>

text \<open>When a merge is refused: what \<open>bad_args\<close> says of its arguments, or a full table; and when it is undone.\<close>

definition bad_args :: "int list \<Rightarrow> sync_device \<Rightarrow> bool" where
  "bad_args xs s \<longleftrightarrow> length xs \<le> 1 \<or> \<not> distinct xs \<or> (\<exists>x \<in> set xs. \<not> in_range x \<or> \<not> valid (row s (nat x)))"

definition merge_blocked :: "(nat \<Rightarrow> bool) \<Rightarrow> int list \<Rightarrow> sync_device \<Rightarrow> bool" where
  "merge_blocked kz xs s \<longleftrightarrow> (\<exists>n < length xs. child_blocks kz n (row s (nat (xs ! n))))"

lemma merge_cases:
  assumes inv: "cam_inv lost pend s" and fuel: "0 < fuel"
  obtains (refused) e where "cam_sync_merge quiet fuel kz xs s = Some (Inl e, s)"
      "length xs \<le> 1 \<or> \<not> distinct xs \<or> (\<exists>x \<in> set xs. \<not> in_range x \<or> \<not> valid (row s (nat x))) \<or> CAM_SYNC_MAX_OBJS \<le> find_first_zero (bitmap s)"
      "e = (if bad_args xs s then EINVAL else ENOMEM)"
  | (rolled_back) g s' where "cam_sync_merge quiet fuel kz xs s = Some (Inl EINVAL, s')" "g = find_first_zero (bitmap s)" "g < CAM_SYNC_MAX_OBJS"
      "\<not> bitmap s ! g" "cam_inv lost pend s'" "\<And>j. j \<noteq> g \<Longrightarrow> row s' j = row s j" "\<not> valid (row s' g)" "bitmap s' = bitmap s" "work_queue s' = work_queue s"
      "events s' = events s" "called s' = called s" "(\<exists>x \<in> set xs. sr_type (row s (nat x)) = CAM_SYNC_TYPE_GROUP) \<or> (\<exists>m. \<not> kz m)"
      "length (sync_table s') = length (sync_table s)" "\<not> bad_args xs s" "merge_blocked kz xs s"
  | (merged_table) g where "cam_sync_merge quiet fuel kz xs s = Some (Inr (int g), merged_table g (map nat xs) s)" "g = find_first_zero (bitmap s)" "g < CAM_SYNC_MAX_OBJS"
      "\<not> bitmap s ! g" "cam_mergeable g (map nat xs) s" "\<forall>x \<in> set xs. in_range x \<and> valid (row s (nat x)) \<and> sr_type (row s (nat x)) = CAM_SYNC_TYPE_INDV"
      "cam_inv (lost(g := 0)) pend (merged_table g (map nat xs) s)" "\<not> bad_args xs s" "\<not> merge_blocked kz xs s"
proof (cases "length xs \<le> 1 \<or> \<not> distinct xs \<or> (\<exists>x \<in> set xs. \<not> in_range x \<or> \<not> valid (row s (nat x))) \<or> CAM_SYNC_MAX_OBJS \<le> find_first_zero (bitmap s)")
  case True
  have len: "length (bitmap s) = CAM_SYNC_MAX_OBJS" using cam_inv_lengths[OF inv] by simp
  obtain n arr where dup: "cam_common_util_remove_duplicate_arr xs = (n, arr)" by fastforce
  have "cam_sync_merge quiet fuel kz xs s = Some (Inl (if bad_args xs s then EINVAL else ENOMEM), s)"
  proof (cases "length xs \<le> 1 \<or> \<not> distinct xs")
    case True
    then have "length xs \<le> 1 \<or> n \<noteq> length xs" using remove_duplicate_distinct(1)[OF _ dup] by (cases xs) auto
    then show ?thesis using dup True by (auto simp: cam_sync_merge_def bad_args_def)
  next
    case False
    then have "xs \<noteq> []" by auto
    then have "n = length xs" "arr = xs" using remove_duplicate_distinct[OF _ dup] False by auto
    then show ?thesis using False True inv len fuel dup
      by (auto simp: cam_sync_merge_def check_valid_all_eq[OF inv] alloc_row_quiet Let_def bad_args_def)
  qed
  then show ?thesis using refused True by blast
next
  case False
  have len: "length (bitmap s) = CAM_SYNC_MAX_OBJS" "length (sync_table s) = CAM_SYNC_MAX_OBJS" using cam_inv_lengths[OF inv] by simp_all
  obtain n arr where dup: "cam_common_util_remove_duplicate_arr xs = (n, arr)" by fastforce
  have "xs \<noteq> []" using False by auto
  then have nn: "n = length xs" "arr = xs" using remove_duplicate_distinct[OF _ dup] False by auto
  have nb: "\<not> bad_args xs s" using False unfolding bad_args_def by blast
  have ok: "\<forall>x \<in> set xs. in_range x \<and> valid (row s (nat x))" "distinct xs" "\<not> length xs \<le> 1" using False by blast+
  let ?g = "find_first_zero (bitmap s)" let ?cs = "map nat xs"
  have g: "?g < CAM_SYNC_MAX_OBJS" "\<not> bitmap s ! ?g" using False find_first_zero_less[of "bitmap s"] len by auto
  note fr = cam_inv_free_row[OF inv g]
  let ?s1 = "s\<lparr>bitmap := (bitmap s)[?g := True]\<rparr>"
  have s1: "?s1 = set_bmp ?g s" by (simp add: set_bmp_def)
  have "inj_on nat (set xs)" using ok(1) by (intro inj_onI) (metis in_range_nat)
  then have m: "cam_mergeable ?g ?cs s"
    using ok fr(2) len in_range_nat by (auto simp: cam_mergeable_def distinct_map)
  have eq: "cam_sync_merge quiet fuel kz xs s = do {
      (rc, s2) \<leftarrow> cam_sync_init_group_object kz ?g ?cs ?s1;
      (case rc of Inl e \<Rightarrow> Some (Inl EINVAL, clear_bmp ?g s2) | Inr _ \<Rightarrow> Some (Inr (int ?g), s2)) }"
    using ok(1,3) dup nn fuel len g(1)
    by (simp add: cam_sync_merge_def check_valid_all_eq[OF inv] alloc_row_quiet Let_def)
  let ?s0 = "upd_row ?g (\<lambda>_. fresh_row ?g (Some ''merged_fence'') CAM_SYNC_TYPE_GROUP) ?s1"
  have gl: "?g < length (sync_table ?s0)" using g len by simp
  have m0: "cam_mergeable ?g ?cs ?s0" "cam_mergeable ?g ?cs ?s1" using m by (auto simp: cam_mergeable_def)
  have init: "snd (cam_sync_init_row ?g (Some ''merged_fence'') CAM_SYNC_TYPE_GROUP ?s1) = ?s0" using fr(1) g(1) by (simp add: init_row_eq)
  have r0: "row ?s0 c = row s c" if "c \<in> set ?cs" for c using m that by (auto simp: cam_mergeable_def)
  from link_children_cases[OF gl m0(1), of kz 0] show ?thesis
  proof (rule disjE, goal_cases)
    case 1
    then have lc: "link_children kz ?g 0 ?cs ?s0 = Some (Inr (), linked_rows ?g ?cs ?s0)" and free: "\<not> merge_blocked kz xs s"
      using r0 by (auto simp: merge_blocked_def)
    then have ty: "\<forall>c \<in> set ?cs. sr_type (row s c) \<noteq> CAM_SYNC_TYPE_GROUP"
      by (auto simp: merge_blocked_def child_blocks_def in_set_conv_nth)
    have len1: "length (sync_table ?s1) = CAM_SYNC_MAX_OBJS" using len by simp
    obtain s' where s': "cam_sync_init_group_object kz ?g ?cs ?s1 = Some (Inr (), s')"
      "s'\<lparr>bitmap := (bitmap ?s1)[?g := True]\<rparr> = merged_table ?g ?cs ?s1" "bitmap s' = bitmap ?s1"
      using init_group_ok[OF len1 fr(1) g(1) m0(2)] lc init by metis
    have "s' = s'\<lparr>bitmap := (bitmap ?s1)[?g := True]\<rparr>" using s'(3) by (cases s') simp
    also have "\<dots> = merged_table ?g ?cs ?s1" by (rule s'(2))
    also have "\<dots> = merged_table ?g ?cs s" by (simp add: merged_table_def group_row_def active_of_def Let_def)
    finally have e: "cam_sync_merge quiet fuel kz xs s = Some (Inr (int ?g), merged_table ?g ?cs s)" using eq s'(1) by simp
    have t: "\<forall>x \<in> set xs. sr_type (row s (nat x)) = CAM_SYNC_TYPE_INDV"
    proof
      fix x assume x: "x \<in> set xs"
      then have "row_wf (nat x) (row s (nat x))" using ok(1) cam_inv_row_wf[OF inv] in_range_nat by blast
      then show "sr_type (row s (nat x)) = CAM_SYNC_TYPE_INDV" using ty x unfolding row_wf_def by fastforce
    qed
    have "\<forall>c \<in> set ?cs. 0 < c \<and> sr_type (row s c) \<noteq> CAM_SYNC_TYPE_GROUP" using ty ok(1) in_range_nat by fastforce
    then have "cam_inv (lost(?g := 0)) pend (merged_table ?g ?cs s)" by (rule merged_inv[OF inv g m])
    then show ?case using merged_table[OF e refl g m] ok(1) t nb free by blast
  next
    case 2
    then obtain e n f where n: "n < length ?cs" "link_children kz ?g 0 ?cs ?s0 = Some (Inl (e, n), upd_row ?g f (linked_rows ?g (take n ?cs) ?s0))"
      and f: "\<forall>r. sr_type (f r) = sr_type r \<and> sr_callback_list (f r) = sr_callback_list r \<and> sr_parents_list (f r) = sr_parents_list r \<and>
          sr_user_payload_list (f r) = sr_user_payload_list r"
      and why: "child_blocks kz n (row ?s0 (?cs ! n))" by (metis add_0)
    have why': "merge_blocked kz xs s" using why n(1) r0[of "?cs ! n"] by (auto simp: merge_blocked_def)
    have mt: "cam_mergeable ?g (take n ?cs) s" using m in_set_takeD unfolding cam_mergeable_def by (metis distinct_take)
    let ?s2 = "clean_children_info ?g (rev (take n ?cs)) (upd_row ?g f (linked_rows ?g (take n ?cs) ?s0))"
    have "cam_sync_init_group_object kz ?g ?cs ?s1 = Some (Inl e, ?s2)"
      using n(2) by (simp add: cam_sync_init_group_object_def init)
    then have e: "cam_sync_merge quiet fuel kz xs s = Some (Inl EINVAL, clear_bmp ?g ?s2)" using eq by simp
    note fi = merge_fail_inv[OF inv g mt f, of "clear_bmp ?g ?s2" "Some ''merged_fence''", folded s1, OF refl]
    have "\<exists>x \<in> set xs. sr_type (row s (nat x)) = CAM_SYNC_TYPE_GROUP" if "\<not> (\<exists>m. \<not> kz m)"
      using why that n(1) ok(1) r0[of "?cs ! n"] by (auto simp: child_blocks_def intro!: bexI[of _ "xs ! n"])
    then show ?case using rolled_back[OF e refl g fi(1) fi(2) fi(3) fi(4) fi(5) fi(6) fi(7) _ fi(8) nb why'] by blast
  qed
qed

end
