(* ===== verification/Cam_Sync_Ops.thy ===== *)
theory Cam_Sync_Ops
  imports Cam_Sync_Group
begin

text \<open>
  The life of camera fences: destruction, closing the device, and the invariant of all runs.
\<close>

section \<open>Destroying a row\<close>

definition upd_valid :: "(sync_table_row \<Rightarrow> sync_table_row) \<Rightarrow> nat list \<Rightarrow> sync_device \<Rightarrow> sync_device" where
  "upd_valid f = fold (\<lambda>c s. if valid (row s c) then upd_row c f s else s)"

lemma upd_valid_simps [simp]: "upd_valid f [] s = s" "upd_valid f (c # cs) s = upd_valid f cs (if valid (row s c) then upd_row c f s else s)"
  by (simp_all add: upd_valid_def)

lemma upd_valid_fields [simp]:
  "length (sync_table (upd_valid f cs s)) = length (sync_table s)" "bitmap (upd_valid f cs s) = bitmap s"
  "work_queue (upd_valid f cs s) = work_queue s" "events (upd_valid f cs s) = events s" "called (upd_valid f cs s) = called s"
  "cam_sync_eventq (upd_valid f cs s) = cam_sync_eventq s" "open_cnt (upd_valid f cs s) = open_cnt s" "version (upd_valid f cs s) = version s"
  "trigger_cb_without_switch (upd_valid f cs s) = trigger_cb_without_switch s"
  by (induction cs arbitrary: s) simp_all

lemma row_upd_valid:
  "distinct cs \<Longrightarrow> \<forall>c \<in> set cs. c < length (sync_table s) \<Longrightarrow>
   row (upd_valid f cs s) j = (if j \<in> set cs \<and> valid (row s j) then f (row s j) else row s j)"
  by (induction cs arbitrary: s) (auto simp: row_upd_row)

lemma cut_child_links_eq:
  "\<forall>c \<in> set cs. c < length (sync_table s) \<Longrightarrow>
   cut_child_links i cs s = Some (upd_valid (cam_sync_util_cleanup_parents_list SYNC_LIST_CLEAN_ONE i) cs s)"
  by (induction cs arbitrary: s) (auto simp: get_row_Some)

lemma cut_parent_links_eq:
  "\<forall>p \<in> set ps. p < length (sync_table s) \<Longrightarrow>
   cut_parent_links i ps s = Some (upd_valid (cam_sync_util_cleanup_children_list SYNC_LIST_CLEAN_ONE i) ps s)"
  by (induction ps arbitrary: s) (auto simp: get_row_Some)

text \<open>The table after row \<open>i\<close> was destroyed.\<close>

definition destroyed_row :: "sync_device \<Rightarrow> nat \<Rightarrow> nat \<Rightarrow> sync_table_row" where
  "destroyed_row s i j =
     (if j = i then zero_row
      else (row s j)\<lparr>sr_parents_list := remove1 i (sr_parents_list (row s j)),
        sr_children_list := (if j \<in> set (sr_parents_list (row s i)) then remove1 i (sr_children_list (row s j)) else sr_children_list (row s j))\<rparr>)"

lemma deinit_invalid:
  assumes "cam_inv lost pend s" and "\<not> (0 < unat (of_int x :: u32) \<and> unat (of_int x :: u32) < CAM_SYNC_MAX_OBJS \<and> valid (row s (unat (of_int x :: u32))))"
  shows "cam_sync_deinit_object x s = Some (Inl EINVAL, s)"
  using assms by (auto simp: cam_sync_deinit_object_def Let_def)

lemma deinit_valid:
  assumes inv: "cam_inv lost pend s" and i: "i = unat (of_int x :: u32)" "0 < i" "i < CAM_SYNC_MAX_OBJS" and v: "valid (row s i)"
  shows "\<exists>s'. cam_sync_deinit_object x s = Some (Inr (), s') \<and> (\<forall>j < CAM_SYNC_MAX_OBJS. row s' j = destroyed_row s i j) \<and>
    s' = s\<lparr>sync_table := sync_table s', bitmap := (bitmap s)[i := False]\<rparr> \<and> length (sync_table s') = CAM_SYNC_MAX_OBJS"
proof -
  let ?r = "row s i"
  have len: "length (sync_table s) = CAM_SYNC_MAX_OBJS" using cam_inv_lengths[OF inv] by simp
  have il: "i < length (sync_table s)" using i len by simp
  have w: "row_wf i ?r" using cam_inv_row_wf[OF inv i(3)] .
  have pos: "\<forall>c \<in> set (sr_children_list ?r). 0 < c \<and> c < CAM_SYNC_MAX_OBJS" "\<forall>p \<in> set (sr_parents_list ?r). 0 < p \<and> p < CAM_SYNC_MAX_OBJS"
    "distinct (sr_children_list ?r)" "distinct (sr_parents_list ?r)"
    using w v by (simp_all add: row_wf_def)
  have flt: "filter (\<lambda>c. 0 < c) (sr_children_list ?r) = sr_children_list ?r" "filter (\<lambda>p. 0 < p) (sr_parents_list ?r) = sr_parents_list ?r"
    using pos by (auto simp: filter_id_conv)
  let ?f = "\<lambda>r. r\<lparr>sr_state := CAM_SYNC_STATE_INVALID, sr_children_list := filter (\<lambda>c. c \<le> 0) (sr_children_list r),
            sr_parents_list := filter (\<lambda>p. p \<le> 0) (sr_parents_list r)\<rparr>"
  define s1 where "s1 = upd_row i ?f s"
  define s2 where "s2 = upd_valid (cam_sync_util_cleanup_parents_list SYNC_LIST_CLEAN_ONE i) (sr_children_list ?r) s1"
  define s3 where "s3 = upd_valid (cam_sync_util_cleanup_children_list SYNC_LIST_CLEAN_ONE i) (sr_parents_list ?r) s2"
  let ?s' = "clear_bmp i (upd_row i (\<lambda>_. zero_row) s3)"
  have "cut_child_links i (sr_children_list ?r) s1 = Some s2" using pos(1) len unfolding s2_def by (intro cut_child_links_eq) (simp add: s1_def)
  moreover have "cut_parent_links i (sr_parents_list ?r) s2 = Some s3" using pos(2) len unfolding s3_def by (intro cut_parent_links_eq) (simp add: s1_def s2_def)
  ultimately have ex: "cam_sync_deinit_object x s = Some (Inr (), ?s')"
    unfolding cam_sync_deinit_object_def i(1)[symmetric] Let_def using i(2,3) v il by (simp add: get_row_Some flt s1_def)
  have rows: "row ?s' j = destroyed_row s i j" if j: "j < CAM_SYNC_MAX_OBJS" for j
  proof (cases "j = i")
    case True
    then show ?thesis using il by (simp add: row_upd_row destroyed_row_def s1_def s2_def s3_def)
  next
    case False
    have wj: "row_wf j (row s j)" using cam_inv_row_wf[OF inv j] .
    have r2: "row s2 j = (if j \<in> set (sr_children_list ?r) \<and> valid (row s j)
        then cam_sync_util_cleanup_parents_list SYNC_LIST_CLEAN_ONE i (row s j) else row s j)"
      using pos False len unfolding s2_def by (subst row_upd_valid) (simp_all add: s1_def)
    have "i \<in> set (sr_parents_list (row s j)) \<longrightarrow> j \<in> set (sr_children_list ?r) \<and> valid (row s j)"
      using cam_inv_link(2,4)[OF inv j] by auto
    then have r2': "row s2 j = (row s j)\<lparr>sr_parents_list := remove1 i (sr_parents_list (row s j))\<rparr>"
      by (auto simp: r2 cam_sync_util_cleanup_parents_list_def remove1_idem)
    have "j \<in> set (sr_parents_list ?r) \<Longrightarrow> valid (row s j)" using cam_inv_link(1)[OF inv i(3)] by (auto simp: is_group_def)
    moreover have "row ?s' j = row s3 j" using False by simp
    moreover have "row s3 j = (if j \<in> set (sr_parents_list ?r) \<and> valid (row s2 j)
        then cam_sync_util_cleanup_children_list SYNC_LIST_CLEAN_ONE i (row s2 j) else row s2 j)"
      using pos len unfolding s3_def by (subst row_upd_valid) (simp_all add: s1_def s2_def)
    ultimately show ?thesis
      using False by (simp add: r2' destroyed_row_def cam_sync_util_cleanup_children_list_def)
  qed
  have "?s' = s\<lparr>sync_table := sync_table ?s', bitmap := (bitmap s)[i := False]\<rparr>"
    by (rule sync_device.equality) (simp_all add: clear_bmp_def s1_def s2_def s3_def)
  then show ?thesis using ex rows len by (intro exI[of _ ?s']) (simp add: s1_def s2_def s3_def)
qed

lemma destroyed_parents:
  assumes inv: "cam_inv lost pend s" and rows: "\<forall>j < CAM_SYNC_MAX_OBJS. row s' j = destroyed_row s i j" and j: "j < CAM_SYNC_MAX_OBJS"
  shows "p \<in> set (sr_parents_list (row s' j)) \<longleftrightarrow> j \<noteq> i \<and> p \<noteq> i \<and> p \<in> set (sr_parents_list (row s j))"
proof -
  have "distinct (sr_parents_list (row s j))"
    using cam_inv_row_wf[OF inv j] by (cases "valid (row s j)") (simp_all add: row_wf_def)
  moreover have "row s' j = destroyed_row s i j" using rows j by blast
  ultimately show ?thesis by (auto simp: destroyed_row_def zero_row_def)
qed

lemma destroyed_links:
  assumes "cam_inv lost pend s" and "\<forall>j < CAM_SYNC_MAX_OBJS. row s' j = destroyed_row s i j" and "p \<noteq> i"
  shows "child_links s' p = child_links s p - {i}"
  using destroyed_parents[OF assms(1,2)] assms(3) by (auto simp: child_links_def)

text \<open>A group that loses an active child waits for it for ever: the count of lost children grows.\<close>

lemma destroyed_inv:
  assumes inv: "cam_inv lost pend s" and i: "0 < i" "i < CAM_SYNC_MAX_OBJS" and v: "valid (row s i)" and np: "i \<notin> set pend"
    and rows: "\<forall>j < CAM_SYNC_MAX_OBJS. row s' j = destroyed_row s i j" and s': "s' = s\<lparr>sync_table := sync_table s', bitmap := (bitmap s)[i := False]\<rparr>"
    and len': "length (sync_table s') = CAM_SYNC_MAX_OBJS"
  shows "cam_inv (\<lambda>p. lost p + count_list (sr_parents_list (row s i)) p) pend s'"
proof -
  have len: "length (sync_table s) = CAM_SYNC_MAX_OBJS" "length (bitmap s) = CAM_SYNC_MAX_OBJS" using cam_inv_lengths[OF inv] by simp_all
  have bmp: "bitmap s' = (bitmap s)[i := False]" by (subst s') simp
  have r: "row s' j = destroyed_row s i j" if "j < CAM_SYNC_MAX_OBJS" for j using rows that by blast
  have wi: "row_wf i (row s i)" using cam_inv_row_wf[OF inv i(2)] .
  have dp: "distinct (sr_parents_list (row s j))" if "j < CAM_SYNC_MAX_OBJS" for j
    using cam_inv_row_wf[OF inv that] by (cases "valid (row s j)") (simp_all add: row_wf_def)
  note par = destroyed_parents[OF inv rows] and lk = destroyed_links[OF inv rows]
  have grp: "is_group s' p \<longleftrightarrow> is_group s p \<and> p \<noteq> i" for p
    by (cases "p < CAM_SYNC_MAX_OBJS") (auto simp: is_group_def r destroyed_row_def zero_row_def cam_consts)
  have wf: "row_wf j (row s' j)" if j: "j < CAM_SYNC_MAX_OBJS" for j
  proof (cases "j = i")
    case True
    have "row_wf i zero_row" by (simp add: zero_row_def row_wf_def cam_consts)
    then show ?thesis using True by (simp add: r[OF i(2)] destroyed_row_def)
  next
    case False
    have "set (remove1 i xs) \<subseteq> set xs" for xs :: "nat list" by (rule set_remove1_subset)
    then show ?thesis
      using cam_inv_row_wf[OF inv j] False by (auto simp: r[OF j] destroyed_row_def row_wf_def distinct_remove1 dest!: subsetD split: if_splits)
  qed
  have link: "is_group s' p" "c \<in> set (sr_children_list (row s' p))"
    if c: "c < CAM_SYNC_MAX_OBJS" and p: "p \<in> set (sr_parents_list (row s' c))" for c p
  proof -
    have q: "c \<noteq> i" "p \<noteq> i" "p \<in> set (sr_parents_list (row s c))" using par[OF c] p by simp_all
    show "is_group s' p" "c \<in> set (sr_children_list (row s' p))"
      using cam_inv_link(1,2,6)[OF inv c q(3)] q by (auto simp: grp r destroyed_row_def)
  qed
  have cnt: "unat (sr_remaining (row s' p)) = card (child_links s' p) + count_list pend p + (lost p + count_list (sr_parents_list (row s i)) p)"
    if g: "is_group s' p" for p
  proof -
    have p: "is_group s p" "p \<noteq> i" "p < CAM_SYNC_MAX_OBJS" using g grp by (auto simp: is_group_def)
    have "card (child_links s p) = card (child_links s p - {i}) + count_list (sr_parents_list (row s i)) p"
    proof (cases "p \<in> set (sr_parents_list (row s i))")
      case True
      then have "i \<in> child_links s p" using i by (simp add: child_links_def)
      then have "card (child_links s p) = Suc (card (child_links s p - {i}))" by (metis card_Suc_Diff1 finite_links)
      then show ?thesis using True dp[OF i(2)] by (simp add: distinct_count_list)
    next
      case False
      then show ?thesis by (simp add: child_links_def)
    qed
    moreover have "sr_remaining (row s' p) = sr_remaining (row s p)" using p by (simp add: r destroyed_row_def)
    ultimately show ?thesis using cam_inv_count[OF inv p(1)] lk[OF p(2)] by simp
  qed
  have bm: "bitmap s' ! j = valid (row s' j)" if "0 < j" "j < CAM_SYNC_MAX_OBJS" for j
    using inv that len i by (auto simp: r bmp cam_inv_def nth_list_update_both destroyed_row_def zero_row_def cam_consts)
  have z: "bitmap s' ! 0" "\<not> valid (row s' 0)"
    using inv i by (auto simp: r bmp cam_inv_def destroyed_row_def)
  show ?thesis
    unfolding cam_inv_def using len len' wf link cnt bm z inv grp np bmp by (auto simp: cam_inv_def)
qed

lemma destroy_inv:
  assumes inv: "cam_inv lost [] s"
  shows "\<exists>r s' lost'. cam_sync_destroy x s = Some (r, s') \<and> cam_inv lost' [] s'"
proof (cases "0 < unat (of_int x :: u32) \<and> unat (of_int x :: u32) < CAM_SYNC_MAX_OBJS \<and> valid (row s (unat (of_int x :: u32)))")
  case True
  then have i: "0 < unat (of_int x :: u32)" "unat (of_int x :: u32) < CAM_SYNC_MAX_OBJS" "valid (row s (unat (of_int x :: u32)))" by blast+
  obtain s' where s': "cam_sync_deinit_object x s = Some (Inr (), s')" "\<forall>j < CAM_SYNC_MAX_OBJS. row s' j = destroyed_row s (unat (of_int x :: u32)) j"
    "s' = s\<lparr>sync_table := sync_table s', bitmap := (bitmap s)[unat (of_int x :: u32) := False]\<rparr>" "length (sync_table s') = CAM_SYNC_MAX_OBJS"
    using deinit_valid[OF inv refl i] by (elim exE conjE) (rule that, assumption+)
  have "i \<notin> set []" for i :: nat by simp
  from destroyed_inv[OF inv i this s'(2-4)] s'(1) show ?thesis unfolding cam_sync_destroy_def by blast
next
  case False
  then show ?thesis using deinit_invalid[OF inv False] inv unfolding cam_sync_destroy_def by blast
qed

section \<open>Closing the device\<close>

lemma flush_fields:
  "sync_table (flush_workqueue s) = sync_table s \<and> bitmap (flush_workqueue s) = bitmap s \<and> work_queue (flush_workqueue s) = [] \<and>
   called (flush_workqueue s) = called s @ work_queue s \<and> events (flush_workqueue s) = events s \<and> open_cnt (flush_workqueue s) = open_cnt s"
proof (induction "work_queue s" arbitrary: s)
  case Nil
  then show ?case by (simp add: flush_workqueue_def)
next
  case (Cons cb q)
  let ?s = "cam_sync_util_cb_dispatch s"
  have "flush_workqueue s = (cam_sync_util_cb_dispatch ^^ length q) ?s"
    using Cons(2)[symmetric] unfolding flush_workqueue_def by (simp add: funpow_swap1)
  moreover have "work_queue ?s = q" "sync_table ?s = sync_table s" "bitmap ?s = bitmap s" "called ?s = called s @ [cb]" "events ?s = events s" "open_cnt ?s = open_cnt s"
    using Cons(2)[symmetric] by (simp_all add: cam_sync_util_cb_dispatch_def)
  ultimately show ?case using Cons(1)[of ?s] Cons(2)[symmetric] by (simp add: flush_workqueue_def)
qed

lemma flush_inv [simp]: "cam_inv lost pend (flush_workqueue s) = cam_inv lost pend s"
  using flush_fields[of s] by (intro cam_inv_cong) simp_all

lemma close_signal_inv:
  "cam_inv lost [] (snd rs) \<Longrightarrow> \<forall>i \<in> set is'. i < CAM_SYNC_MAX_OBJS \<Longrightarrow> \<exists>rs'. close_signal is' rs = Some rs' \<and> cam_inv lost [] (snd rs')"
proof (induction is' arbitrary: rs)
  case (Cons i is')
  obtain r s' where "cam_sync_signal (int i) CAM_SYNC_STATE_SIGNALED_ERROR CAM_SYNC_COMMON_RELEASE_EVENT (snd rs) = Some (r, s')" "cam_inv lost [] s'"
    using signal_inv[OF Cons.prems(1)] by blast
  then show ?case using Cons by simp
qed simp

lemma close_destroy_inv:
  "cam_inv lost [] (snd rs) \<Longrightarrow> \<forall>i \<in> set is'. i < CAM_SYNC_MAX_OBJS \<Longrightarrow> \<exists>rs' lost'. close_destroy is' rs = Some rs' \<and> cam_inv lost' [] (snd rs')"
proof (induction is' arbitrary: rs lost)
  case (Cons i is')
  obtain r s' lost' where d: "cam_sync_destroy (int i) (snd rs) = Some (r, s')" "cam_inv lost' [] s'"
    using destroy_inv[OF Cons.prems(1)] by blast
  show ?case
  proof (cases "valid (row (snd rs) i)")
    case True
    then show ?thesis using Cons.IH[of lost' "(r, s')"] Cons.prems d by simp
  next
    case False
    then show ?thesis using Cons.IH[of lost rs] Cons.prems by simp
  qed
qed auto

lemma close_inv:
  assumes "cam_inv lost [] s"
  shows "\<exists>r s' lost'. cam_sync_close s = Some (r, s') \<and> cam_inv lost' [] s'"
proof (cases "open_cnt s = 1")
  case True
  have inv: "cam_inv lost [] (snd (Inr () :: errno + unit, s\<lparr>open_cnt := open_cnt s - 1\<rparr>))" using assms by simp
  have rng: "\<forall>i \<in> set [1..<CAM_SYNC_MAX_OBJS]. i < CAM_SYNC_MAX_OBJS" by simp
  obtain r s1 where s1: "close_signal [1..<CAM_SYNC_MAX_OBJS] (Inr (), s\<lparr>open_cnt := open_cnt s - 1\<rparr>) = Some (r, s1)" "cam_inv lost [] s1"
    using close_signal_inv[OF inv rng] by force
  then have inv1: "cam_inv lost [] (snd (r, flush_workqueue s1))" by simp
  obtain r2 s2 lost' where "close_destroy [1..<CAM_SYNC_MAX_OBJS] (r, flush_workqueue s1) = Some (r2, s2)" "cam_inv lost' [] s2"
    using close_destroy_inv[OF inv1 rng] by force
  then show ?thesis using s1 True by (auto simp: cam_sync_close_def)
next
  case False
  then show ?thesis using assms by (auto simp: cam_sync_close_def)
qed

section \<open>All runs\<close>

text \<open>The calls of drivers and of user space, one after the other; nobody interferes with a call.\<close>

datatype cam_call =
    Create "string option"
  | Register_callback bool "nat option" u64 int
  | Deregister_callback nat u64 int
  | Signal int u32 u32
  | Synx_signal int u32
  | Merge "nat \<Rightarrow> bool" "int list"
  | Get_ref int
  | Put_ref int
  | Destroy int
  | Ioctl user_env bool "cam_private_ioctl_arg option"
  | Worker
  | Open "errno + unit"
  | Close
  | Subscribe u32 "errno + unit"

fun cam_exec :: "cam_call \<Rightarrow> sync_device \<Rightarrow> sync_device option" where
  "cam_exec (Create name) s = map_option snd (cam_sync_create quiet 1 name s)"
| "cam_exec (Register_callback kz f d x) s = map_option snd (cam_sync_register_callback kz f d x s)"
| "cam_exec (Deregister_callback f d x) s = map_option snd (cam_sync_deregister_callback f d x s)"
| "cam_exec (Signal x st ev) s = map_option snd (cam_sync_signal x st ev s)"
| "cam_exec (Synx_signal x st) s = map_option snd (cam_synx_sync_signal x st s)"
| "cam_exec (Merge kz xs) s = map_option snd (cam_sync_merge quiet 1 kz xs s)"
| "cam_exec (Get_ref x) s = map_option snd (cam_sync_get_obj_ref x s)"
| "cam_exec (Put_ref x) s = map_option snd (cam_sync_put_obj_ref x s)"
| "cam_exec (Destroy x) s = map_option snd (cam_sync_destroy x s)"
| "cam_exec (Ioctl u cmd_ok arg) s = map_option snd (cam_sync_dev_ioctl (u\<lparr>ue_alloc := quiet, ue_others := (\<lambda>s. s)\<rparr>) 1 cmd_ok arg s)"
| "cam_exec Worker s = Some (cam_sync_util_cb_dispatch s)"
| "cam_exec (Open rc) s = Some (snd (cam_sync_open rc s))"
| "cam_exec Close s = map_option snd (cam_sync_close s)"
| "cam_exec (Subscribe ty rc) s = Some (snd (cam_sync_subscribe_event ty rc s))"

fun cam_run :: "cam_call list \<Rightarrow> sync_device \<Rightarrow> sync_device option" where
  "cam_run [] s = Some s"
| "cam_run (c # cs) s = Option.bind (cam_exec c s) (cam_run cs)"

text \<open>The invariant of a device at rest.\<close>

definition cam_ok :: "sync_device \<Rightarrow> bool" where
  "cam_ok s \<longleftrightarrow> (\<exists>lost. cam_inv lost [] s)"

lemma cam_ok_exec:
  assumes "cam_ok s" and "\<And>lost. cam_inv lost [] s \<Longrightarrow> \<exists>r s' lost'. m = Some (r, s') \<and> cam_inv lost' [] s'"
  shows "\<exists>s'. map_option snd m = Some s' \<and> cam_ok s'"
  using assms by (fastforce simp: cam_ok_def)

lemma merge_inv:
  assumes inv: "cam_inv lost [] s"
  shows "\<exists>r s' lost'. cam_sync_merge quiet 1 kz xs s = Some (r, s') \<and> cam_inv lost' [] s'"
  by (rule merge_cases[OF inv, of 1 kz xs]) (use inv in auto)

lemma wait_inv: "cam_inv lost pend s \<Longrightarrow> \<exists>r. cam_sync_wait (\<lambda>s. s) x s = Some (r, s)"
  using in_range_nat[of x] by (auto simp: cam_sync_wait_def Let_def)

text \<open>The handlers of the ioctl call.\<close>

lemma handle_create_inv:
  assumes "cam_inv lost [] s" and "ue_alloc u = quiet"
  shows "\<exists>r i s'. cam_sync_handle_create u 1 k s = Some (r, i, s') \<and> cam_inv lost [] s'"
proof (cases "ioctl_arg k 68 (ue_info u)")
  case (Inr a)
  obtain r s' where c: "cam_sync_create quiet 1 (Some (take SYNC_DEBUG_NAME_LEN (si_name a))) s = Some (r, s')" "cam_inv lost [] s'"
    using create_inv[OF assms(1) zero_less_one] by blast
  then show ?thesis using Inr assms(2) by (cases r) (auto simp: cam_sync_handle_create_def)
qed (simp add: cam_sync_handle_create_def assms)

lemma handle_signal_inv:
  assumes "cam_inv lost [] s"
  shows "\<exists>r s'. cam_sync_handle_signal u k s = Some (r, s') \<and> cam_inv lost [] s'"
proof (cases "ioctl_arg k 8 (ue_signal u)")
  case (Inr a)
  obtain r s1 where g: "cam_sync_get_obj_ref (ss_sync_obj a) s = Some (r, s1)" "cam_inv lost [] s1"
    using get_obj_ref_inv[OF assms] by blast
  then show ?thesis
    using Inr signal_inv[OF g(2), of "ss_sync_obj a" "ss_sync_state a" CAM_SYNC_COMMON_SYNC_SIGNAL_EVENT]
    by (cases r) (simp_all add: cam_sync_handle_signal_def)
qed (simp add: cam_sync_handle_signal_def assms)

lemma handle_merge_inv:
  assumes "cam_inv lost [] s" and "ue_alloc u = quiet"
  shows "\<exists>r m s' lost'. cam_sync_handle_merge u 1 k s = Some (r, m, s') \<and> cam_inv lost' [] s'"
proof (cases "ioctl_arg k 16 (ue_merge u)")
  case (Inr a)
  show ?thesis
  proof (cases "ue_objs u")
    case (Some objs)
    obtain r s1 lost' where g: "cam_sync_merge quiet 1 (ue_kz u) (take (unat (sm_num_objs a)) objs) s = Some (r, s1)" "cam_inv lost' [] s1"
      using merge_inv[OF assms(1)] by blast
    then show ?thesis using Inr Some assms by (cases r) (auto simp: cam_sync_handle_merge_def)
  qed (use Inr assms in \<open>auto simp: cam_sync_handle_merge_def\<close>)
qed (use assms in \<open>auto simp: cam_sync_handle_merge_def\<close>)

lemma handle_wait_inv:
  assumes "cam_inv lost pend s" and "ue_others u = (\<lambda>s. s)"
  shows "\<exists>r k' s'. cam_sync_handle_wait u k s = Some (r, k', s') \<and> cam_inv lost pend s'"
proof (cases "ioctl_arg k 16 (ue_wait u)")
  case (Inr a)
  then show ?thesis using wait_inv[OF assms(1), of "sw_sync_obj a"] assms by (auto simp: cam_sync_handle_wait_def)
qed (simp add: cam_sync_handle_wait_def assms)

lemma handle_destroy_inv:
  assumes "cam_inv lost [] s"
  shows "\<exists>r s' lost'. cam_sync_handle_destroy u k s = Some (r, s') \<and> cam_inv lost' [] s'"
  using destroy_inv[OF assms] assms by (auto simp: cam_sync_handle_destroy_def split: sum.split)

lemma ioctl_inv:
  assumes inv: "cam_inv lost [] s"
  shows "\<exists>a s' lost'. cam_sync_dev_ioctl (u\<lparr>ue_alloc := quiet, ue_others := (\<lambda>s. s)\<rparr>) 1 cmd_ok arg s = Some (a, s') \<and> cam_inv lost' [] s'"
proof (cases arg)
  case (Some k)
  let ?u = "u\<lparr>ue_alloc := quiet, ue_others := (\<lambda>s. s)\<rparr>"
  have q: "ue_alloc ?u = quiet" "ue_others ?u = (\<lambda>s. s)" by simp_all
  have simple: "\<exists>a s' lost'. map_option (\<lambda>(r, s'). (f r, s')) m = Some (a, s') \<and> cam_inv lost' [] s'"
    if "\<exists>r s' lost'. m = Some (r, s') \<and> cam_inv lost' [] s'" for f :: "errno + unit \<Rightarrow> ioctl_answer" and m using that by auto
  show ?thesis
  proof (cases "cmd_ok \<and> ioctl_id (io_id k) \<noteq> None")
    case True
    then obtain c where c: "ioctl_id (io_id k) = Some c" by blast
    show ?thesis
    proof (cases c)
      case CAM_SYNC_CREATE
      then show ?thesis using Some True c handle_create_inv[OF inv q(1), of k] by (auto simp: cam_sync_dev_ioctl_def)
    next
      case CAM_SYNC_DESTROY
      then show ?thesis using Some True c simple[OF handle_destroy_inv[OF inv, of ?u k]] by (simp add: cam_sync_dev_ioctl_def)
    next
      case CAM_SYNC_SIGNAL
      then show ?thesis using Some True c handle_signal_inv[OF inv, of ?u k] by (auto simp: cam_sync_dev_ioctl_def)
    next
      case CAM_SYNC_MERGE
      then show ?thesis using Some True c handle_merge_inv[OF inv q(1), of k] by (auto simp: cam_sync_dev_ioctl_def)
    next
      case CAM_SYNC_REGISTER_PAYLOAD
      then show ?thesis using Some True c register_payload_inv[OF inv, of ?u k] by (auto simp: cam_sync_dev_ioctl_def)
    next
      case CAM_SYNC_DEREGISTER_PAYLOAD
      then show ?thesis using Some True c deregister_payload_inv[OF inv, of ?u k] by (auto simp: cam_sync_dev_ioctl_def)
    next
      case CAM_SYNC_WAIT
      then show ?thesis using Some True c handle_wait_inv[OF inv q(2), of k] by (auto simp: cam_sync_dev_ioctl_def)
    qed
  qed (use Some inv in \<open>auto simp: cam_sync_dev_ioctl_def Let_def\<close>)
qed (use inv in \<open>auto simp: cam_sync_dev_ioctl_def Let_def\<close>)

lemma cam_exec_ok:
  assumes "cam_ok s"
  shows "\<exists>s'. cam_exec c s = Some s' \<and> cam_ok s'"
proof (cases c)
  case (Create x1)
  then show ?thesis using cam_ok_exec[OF assms] create_inv[of _ "[]" s 1 x1] by (metis cam_exec.simps(1) zero_less_one)
next
  case (Register_callback x21 x22 x23 x24)
  then show ?thesis using cam_ok_exec[OF assms] register_callback_inv by (metis cam_exec.simps(2))
next
  case (Deregister_callback x31 x32 x33)
  then show ?thesis using cam_ok_exec[OF assms] deregister_callback_inv by (metis cam_exec.simps(3))
next
  case (Signal x41 x42 x43)
  then show ?thesis using cam_ok_exec[OF assms] signal_inv by (metis cam_exec.simps(4))
next
  case (Synx_signal x51 x52)
  then show ?thesis using cam_ok_exec[OF assms] signal_inv by (metis cam_exec.simps(5) cam_synx_sync_signal_def)
next
  case (Merge x61 x62)
  then show ?thesis using cam_ok_exec[OF assms] merge_inv by (metis cam_exec.simps(6))
next
  case (Get_ref x7)
  then show ?thesis using cam_ok_exec[OF assms] get_obj_ref_inv by (metis cam_exec.simps(7))
next
  case (Put_ref x8)
  then show ?thesis using cam_ok_exec[OF assms] put_obj_ref_inv by (metis cam_exec.simps(8))
next
  case (Destroy x9)
  then show ?thesis using cam_ok_exec[OF assms] destroy_inv by (metis cam_exec.simps(9))
next
  case (Ioctl x101 x102 x103)
  then show ?thesis using cam_ok_exec[OF assms] ioctl_inv by (metis cam_exec.simps(10))
next
  case Worker
  then show ?thesis using assms by (auto simp: cam_ok_def cam_sync_util_cb_dispatch_def split: list.split)
next
  case (Open x12)
  then show ?thesis using assms by (auto simp: cam_ok_def cam_sync_open_def split: sum.split)
next
  case Close
  then show ?thesis using cam_ok_exec[OF assms] close_inv by (metis cam_exec.simps(13))
next
  case (Subscribe x141 x142)
  then show ?thesis using assms by (auto simp: cam_ok_def cam_sync_subscribe_event_def)
qed

lemma bind_inv: "cam_sync_component_bind a b c d e f g = Inr s \<Longrightarrow> cam_inv (\<lambda>_. 0) [] s"
proof -
  assume b: "cam_sync_component_bind a b c d e f g = Inr s"
  then have s: "s = \<lparr>sync_table = replicate CAM_SYNC_MAX_OBJS zero_row, open_cnt = 0, work_queue = [], cam_sync_eventq = False,
                   bitmap = (replicate CAM_SYNC_MAX_OBJS False)[0 := True], version = 0,
                   trigger_cb_without_switch = False, called = [], events = []\<rparr>"
    by (auto simp: cam_sync_component_bind_def split: if_splits sum.splits)
  have z: "row_wf i zero_row" "\<not> valid zero_row" "sr_parents_list zero_row = []" for i by (simp_all add: row_wf_def zero_row_def cam_consts)
  have m: "0 < CAM_SYNC_MAX_OBJS" by (simp add: CAM_SYNC_MAX_OBJS_def)
  have r: "row s i = zero_row" if "i < CAM_SYNC_MAX_OBJS" for i using that by (simp add: s)
  have g: "\<not> is_group s p" for p using r[of p] z(2) by (auto simp: is_group_def)
  show "cam_inv (\<lambda>_. 0) [] s"
    unfolding cam_inv_def using z m g by (auto simp: r) (auto simp: s)
qed

lemma cam_run_spec: "cam_ok s \<Longrightarrow> \<exists>s'. cam_run calls s = Some s' \<and> cam_ok s'"
proof (induction calls arbitrary: s)
  case (Cons c calls)
  obtain s1 where "cam_exec c s = Some s1" "cam_ok s1" using cam_exec_ok[OF Cons.prems] by blast
  then show ?case using Cons.IH by auto
qed auto

text \<open>C33: any sequence of calls of drivers and of user space (creating, merging, signalling, registering, destroying, opening and
  closing, in any order and with any arguments) runs from a freshly bound device without undefined behaviour, and keeps the
  invariant: links are symmetric, each group counts exactly the children that it waits for (and those destroyed under
  it), a row is complete exactly if it is signalled and waits for nobody, and a complete row has no callback left.\<close>

theorem cam_run_ok:
  assumes "cam_sync_component_bind a b c d e f g = Inr s"
  shows "\<exists>s'. cam_run calls s = Some s' \<and> cam_ok s'"
  using cam_run_spec bind_inv[OF assms] by (auto simp: cam_ok_def)

theorem cam_run_ok_witness:
  "\<exists>s s'. cam_sync_component_bind True True (Inr ()) (Inr ()) (Inr ()) True (Inr ()) = Inr s \<and>
     cam_run [Open (Inr ()), Create None, Create None, Merge (\<lambda>_. True) [1, 2], Close] s = Some s' \<and> cam_ok s'"
proof -
  obtain s where b: "cam_sync_component_bind True True (Inr ()) (Inr ()) (Inr ()) True (Inr ()) = Inr s"
    by (simp add: cam_sync_component_bind_def)
  then show ?thesis using cam_run_ok[OF b] by blast
qed

end
