(* ===== verification/Cam_Sync_Signal.thy ===== *)
theory Cam_Sync_Signal
  imports Cam_Sync_Ops
begin

text \<open>
  What a signal of a camera fence does, and how the signals of the children make up the signal of a group:
  in any order, and with the sections of concurrent signals interleaved.
\<close>

section \<open>The effect of a signal\<close>

text \<open>A group row when one child reports \<open>st\<close>; \<open>q\<close> tells whether user space listens.\<close>

definition hit_row :: "bool \<Rightarrow> u32 \<Rightarrow> sync_table_row \<Rightarrow> sync_table_row" where
  "hit_row q st r =
     (let r1 = r\<lparr>sr_remaining := sr_remaining r - 1, sr_state := comb_state (sr_state r) st\<rparr> in
      if sr_remaining r = 1 then told_row q r1 else r1)"

text \<open>The callbacks queued so far for row \<open>g\<close>.\<close>

abbreviation queued :: "nat \<Rightarrow> sync_device \<Rightarrow> sync_callback_info list" where
  "queued g s \<equiv> filter (\<lambda>cb. cb_sync_obj cb = g) (work_queue s)"

definition with_status :: "u32 \<Rightarrow> sync_callback_info list \<Rightarrow> sync_callback_info list" where
  "with_status st cbs = map (\<lambda>cb. cb\<lparr>cb_status := st\<rparr>) cbs"

lemma queued_told:
  assumes "\<forall>cb \<in> set (sr_callback_list (row s i)). cb_sync_obj cb = i"
  shows "queued g (told i st ev s) = queued g s @ (if g = i then with_status st (sr_callback_list (row s i)) else [])"
  using assms by (auto simp: told_def with_status_def filter_map o_def filter_empty_conv intro: filter_True)

lemma row_wf_cb_obj: "row_wf i r \<Longrightarrow> \<forall>cb \<in> set (sr_callback_list r). cb_sync_obj cb = i"
  by (simp add: row_wf_def split: if_splits)

lemma signal_parent_effect:
  assumes inv: "cam_inv lost (p # pend) s" and st: "is_signaled st"
  obtains s' where "signal_parent st ev p s = Some s'" "cam_inv lost pend s'"
    "\<And>j. row s' j = (if j = p then hit_row (cam_sync_eventq s) st (row s p) else row s j)"
    "cam_sync_eventq s' = cam_sync_eventq s" "version s' = version s" "called s' = called s" "bitmap s' = bitmap s" "open_cnt s' = open_cnt s"
    "\<And>g. queued g s' = queued g s @
       (if g = p \<and> sr_remaining (row s p) = 1 then with_status (comb_state (sr_state (row s p)) st) (sr_callback_list (row s p)) else [])"
proof -
  have g: "is_group s p" and len: "length (sync_table s) = CAM_SYNC_MAX_OBJS" using inv by (simp_all add: cam_inv_def)
  then have p: "p < length (sync_table s)" "valid (row s p)" "p < CAM_SYNC_MAX_OBJS" by (simp_all add: is_group_def)
  have wf: "row_wf p (row s p)" using cam_inv_row_wf[OF inv p(3)] .
  let ?s1 = "counted st p s"
  let ?s' = "if sr_remaining (row s p) = 1 then told p (comb_state (sr_state (row s p)) st) ev ?s1 else ?s1"
  have eq: "signal_parent st ev p s = Some ?s'" using signal_parent_eq[OF p(1) wf p(2) st] .
  have i: "cam_inv lost pend ?s'" using signal_parent_inv[OF inv st, of ev] eq by (metis option.inject)
  have r: "row ?s' j = (if j = p then hit_row (cam_sync_eventq s) st (row s p) else row s j)" for j
    using p(1) by (simp add: row_told counted_def row_upd_row hit_row_def Let_def)
  have cb: "sr_callback_list (row ?s1 p) = sr_callback_list (row s p)" using p(1) by (simp add: counted_def row_upd_row)
  have q: "queued g ?s' = queued g s @
       (if g = p \<and> sr_remaining (row s p) = 1 then with_status (comb_state (sr_state (row s p)) st) (sr_callback_list (row s p)) else [])" for g
  proof (cases "sr_remaining (row s p) = 1")
    case True
    then show ?thesis using queued_told[of ?s1 p g] row_wf_cb_obj[OF wf] cb by (simp add: counted_def)
  qed (simp add: counted_def)
  show thesis using that[OF eq i r _ _ _ _ _ q] by (simp add: counted_def)
qed

lemma signal_parents_effect:
  assumes "cam_inv lost (ps @ pend) s" and "is_signaled st" and "distinct ps"
  shows "\<exists>s'. signal_parents st ev ps s = Some s' \<and> cam_inv lost pend s' \<and>
    (\<forall>j. row s' j = (if j \<in> set ps then hit_row (cam_sync_eventq s) st (row s j) else row s j)) \<and>
    cam_sync_eventq s' = cam_sync_eventq s \<and> version s' = version s \<and> called s' = called s \<and> bitmap s' = bitmap s \<and> open_cnt s' = open_cnt s \<and>
    (\<forall>g. queued g s' = queued g s @
       (if g \<in> set ps \<and> sr_remaining (row s g) = 1 then with_status (comb_state (sr_state (row s g)) st) (sr_callback_list (row s g)) else []))"
  using assms
proof (induction ps arbitrary: s)
  case (Cons p ps)
  have inv: "cam_inv lost (p # (ps @ pend)) s" using Cons.prems(1) by simp
  obtain s1 where s1: "signal_parent st ev p s = Some s1" "cam_inv lost (ps @ pend) s1"
    "\<And>j. row s1 j = (if j = p then hit_row (cam_sync_eventq s) st (row s p) else row s j)"
    "cam_sync_eventq s1 = cam_sync_eventq s" "version s1 = version s" "called s1 = called s" "bitmap s1 = bitmap s" "open_cnt s1 = open_cnt s"
    "\<And>g. queued g s1 = queued g s @
       (if g = p \<and> sr_remaining (row s p) = 1 then with_status (comb_state (sr_state (row s p)) st) (sr_callback_list (row s p)) else [])"
    using signal_parent_effect[OF inv Cons.prems(2), of ev] by blast
  obtain s' where s': "signal_parents st ev ps s1 = Some s'" "cam_inv lost pend s'"
    "\<And>j. row s' j = (if j \<in> set ps then hit_row (cam_sync_eventq s1) st (row s1 j) else row s1 j)"
    "cam_sync_eventq s' = cam_sync_eventq s1" "version s' = version s1" "called s' = called s1" "bitmap s' = bitmap s1" "open_cnt s' = open_cnt s1"
    "\<And>g. queued g s' = queued g s1 @
       (if g \<in> set ps \<and> sr_remaining (row s1 g) = 1 then with_status (comb_state (sr_state (row s1 g)) st) (sr_callback_list (row s1 g)) else [])"
    using Cons.IH[OF s1(2) Cons.prems(2)] Cons.prems(3) by auto
  have n: "p \<notin> set ps" using Cons.prems(3) by simp
  have r: "row s' j = (if j \<in> set (p # ps) then hit_row (cam_sync_eventq s) st (row s j) else row s j)" for j
    using n by (simp add: s'(3) s1(3,4))
  have q: "queued g s' = queued g s @
       (if g \<in> set (p # ps) \<and> sr_remaining (row s g) = 1 then with_status (comb_state (sr_state (row s g)) st) (sr_callback_list (row s g)) else [])" for g
    using n by (auto simp: s'(9) s1(9) s1(3))
  show ?case
    using s1(1) s'(1,2) r q by (intro exI[of _ s']) (simp add: s'(4-8) s1(4-8))
qed simp

text \<open>A signal with the last reference: the row and its groups change, nothing else does.\<close>

lemma signal_effect:
  assumes inv: "cam_inv lost pend s" and c: "c < CAM_SYNC_MAX_OBJS" "sr_type (row s c) = CAM_SYNC_TYPE_INDV"
    "sr_state (row s c) = CAM_SYNC_STATE_ACTIVE" "sr_ref_cnt (row s c) = 1" and st: "is_signaled st"
  obtains s' where "cam_sync_signal (int c) st ev s = Some (Inr (), s')" "cam_inv lost pend s'"
    "\<And>j. row s' j = (if j = c then row (fired c st ev s) c
       else if j \<in> set (sr_parents_list (row s c)) then hit_row (cam_sync_eventq s) st (row s j) else row s j)"
    "cam_sync_eventq s' = cam_sync_eventq s" "version s' = version s" "called s' = called s" "bitmap s' = bitmap s" "open_cnt s' = open_cnt s"
    "\<And>g. queued g s' = queued g s @
       (if g = c then with_status st (sr_callback_list (row s c))
        else if g \<in> set (sr_parents_list (row s c)) \<and> sr_remaining (row s g) = 1
        then with_status (comb_state (sr_state (row s g)) st) (sr_callback_list (row s g)) else [])"
proof -
  have len: "c < length (sync_table s)" using cam_inv_lengths[OF inv] c by simp
  have wf: "row_wf c (row s c)" using cam_inv_row_wf[OF inv c(1)] .
  have "0 < c" using inv c(3) by (auto simp: cam_inv_def intro: gr0I)
  then have rng: "in_range (int c)" using c(1) by (simp add: in_range_def)
  let ?ps = "sr_parents_list (row s c)"
  have sr: "signal_row (int c) st ev s = Some (Inr ?ps, fired c st ev s)"
    using signal_row_eq[OF inv, of "int c" st ev] rng c st by (simp add: Let_def)
  have fi: "cam_inv lost (?ps @ pend) (fired c st ev s)" by (rule fired_inv[OF inv c(1-3) st])
  have d: "distinct ?ps" using wf c(3) by (simp add: row_wf_def)
  have nc: "c \<notin> set ?ps" using cam_inv_link(7)[OF inv c(1)] by blast
  have rf: "row (fired c st ev s) j = row s j" if "j \<noteq> c" for j using that len by (simp add: row_fired)
  obtain s' where s': "signal_parents st ev ?ps (fired c st ev s) = Some s'" "cam_inv lost pend s'"
    "\<And>j. row s' j = (if j \<in> set ?ps then hit_row (cam_sync_eventq s) st (row (fired c st ev s) j) else row (fired c st ev s) j)"
    "cam_sync_eventq s' = cam_sync_eventq s" "version s' = version s" "called s' = called s" "bitmap s' = bitmap s" "open_cnt s' = open_cnt s"
    "\<And>g. queued g s' = queued g (fired c st ev s) @ (if g \<in> set ?ps \<and> sr_remaining (row (fired c st ev s) g) = 1
        then with_status (comb_state (sr_state (row (fired c st ev s) g)) st) (sr_callback_list (row (fired c st ev s) g)) else [])"
    using signal_parents_effect[OF fi st d, of ev] by auto
  have r: "row s' j = (if j = c then row (fired c st ev s) c
       else if j \<in> set ?ps then hit_row (cam_sync_eventq s) st (row s j) else row s j)" for j
    using nc by (auto simp: s'(3) rf)
  have "queued g (fired c st ev s) = queued g s @ (if g = c then with_status st (sr_callback_list (row s c)) else [])" for g
    using queued_told[of "upd_row c (\<lambda>r. r\<lparr>sr_ref_cnt := sr_ref_cnt r - 1, sr_state := st\<rparr>) s" c g st ev] row_wf_cb_obj[OF wf] len
    by (simp add: fired_def row_upd_row)
  then have q: "queued g s' = queued g s @
       (if g = c then with_status st (sr_callback_list (row s c))
        else if g \<in> set ?ps \<and> sr_remaining (row s g) = 1
        then with_status (comb_state (sr_state (row s g)) st) (sr_callback_list (row s g)) else [])" for g
    using nc by (auto simp: s'(9) rf)
  have ex: "cam_sync_signal (int c) st ev s = Some (Inr (), s')" using sr s'(1) by (simp add: cam_sync_signal_def)
  show thesis using that[OF ex s'(2) r s'(4-8) q] .
qed

section \<open>A group counts its children down\<close>

definition group_ok :: "sync_table_row \<Rightarrow> bool" where
  "group_ok r \<longleftrightarrow> row_wf (sr_sync_id r) r \<and> valid r \<and> sr_type r = CAM_SYNC_TYPE_GROUP"

lemma hit_row_fields [simp]:
  "sr_type (hit_row q st r) = sr_type r" "sr_sync_id (hit_row q st r) = sr_sync_id r" "sr_state (hit_row q st r) = comb_state (sr_state r) st"
  "sr_remaining (hit_row q st r) = sr_remaining r - 1" "sr_parents_list (hit_row q st r) = sr_parents_list r"
  "sr_children_list (hit_row q st r) = sr_children_list r"
  "sr_callback_list (hit_row q st r) = (if sr_remaining r = 1 then [] else sr_callback_list r)"
  by (simp_all add: hit_row_def told_row_def Let_def)

lemma unat_pred: "0 < unat (w :: u32) \<Longrightarrow> unat (w - 1) = unat w - 1"
  by (subst unat_minus_one) auto

lemma hit_group_ok:
  assumes "group_ok r" and "is_signaled st" and "0 < unat (sr_remaining r)"
  shows "group_ok (hit_row q st r)"
proof -
  have wf: "row_wf (sr_sync_id r) r" "valid r" "sr_type r = CAM_SYNC_TYPE_GROUP" using assms(1) by (simp_all add: group_ok_def)
  have u: "\<not> sr_signaled r" using row_wf_signaled[OF wf(1,2)] assms(3) by auto
  have cs: "is_signaled (comb_state (sr_state r) st)" using wf(1,2) assms(2) by (intro comb_state_signaled) (auto simp: row_wf_def)
  have "row_wf (sr_sync_id r) (hit_row q st r)"
    using row_wf_counted[OF wf u cs, of q] by (simp only: hit_row_def Let_def)
  then show ?thesis using wf is_signaled_valid[OF cs] by (simp add: group_ok_def)
qed

lemma group_ok_fin: "group_ok r \<Longrightarrow> sr_signaled r \<longleftrightarrow> unat (sr_remaining r) = 0"
  by (auto simp: group_ok_def row_wf_def unat_eq_zero)

interpretation cam_group: countdown group_ok "\<lambda>r. unat (sr_remaining r)" sr_state sr_signaled is_signaled "hit_row q" comb_state for q
  by unfold_locales (simp_all add: hit_group_ok unat_pred group_ok_fin)

text \<open>The result of a group: the first failure, or success.\<close>

definition group_result :: "u32 \<Rightarrow> u32 list \<Rightarrow> u32" where
  "group_result st sts = (if bad st then st else case filter bad sts of [] \<Rightarrow> CAM_SYNC_STATE_SIGNALED_SUCCESS | b # _ \<Rightarrow> b)"

lemma comb_state_bad: "is_signaled st \<Longrightarrow> cur = CAM_SYNC_STATE_ACTIVE \<or> is_signaled cur \<Longrightarrow> comb_state cur st = (if bad cur then cur else st)"
  by (auto simp: comb_state_def bad_def is_signaled_def cam_consts)

lemma foldl_comb_state:
  "\<forall>st \<in> set sts. is_signaled st \<Longrightarrow> cur = CAM_SYNC_STATE_ACTIVE \<or> is_signaled cur \<Longrightarrow> sts \<noteq> [] \<Longrightarrow>
   foldl comb_state cur sts = group_result cur sts"
proof (induction sts arbitrary: cur)
  case (Cons st sts)
  have c: "comb_state cur st = (if bad cur then cur else st)" using Cons.prems by (intro comb_state_bad) auto
  have i: "comb_state cur st = CAM_SYNC_STATE_ACTIVE \<or> is_signaled (comb_state cur st)" using Cons.prems comb_state_signaled[of st cur] by auto
  have b: "\<not> bad st \<Longrightarrow> st = CAM_SYNC_STATE_SIGNALED_SUCCESS" using Cons.prems(1) by (auto simp: is_signaled_def bad_def)
  show ?case
  proof (cases "sts = []")
    case True
    then show ?thesis using c b by (auto simp: group_result_def)
  next
    case False
    have "foldl comb_state cur (st # sts) = group_result (comb_state cur st) sts" using Cons.IH[OF _ i False] Cons.prems(1) by simp
    then show ?thesis using c by (auto simp: group_result_def)
  qed
qed simp

text \<open>Signals one after the other, each of them accepted.\<close>

fun signal_list :: "u32 \<Rightarrow> (nat \<times> u32) list \<Rightarrow> sync_device \<Rightarrow> sync_device option" where
  "signal_list ev [] s = Some s"
| "signal_list ev ((c, st) # xs) s = do {
     (r, s1) \<leftarrow> cam_sync_signal (int c) st ev s;
     (case r of Inl _ \<Rightarrow> None | Inr _ \<Rightarrow> signal_list ev xs s1) }"

definition ready :: "sync_device \<Rightarrow> nat \<Rightarrow> (nat \<times> u32) list \<Rightarrow> bool" where
  "ready s g xs \<longleftrightarrow> distinct (map fst xs) \<and> (\<forall>(c, st) \<in> set xs. c \<in> child_links s g \<and> is_signaled st \<and> sr_ref_cnt (row s c) = 1)"

lemma ready_length:
  assumes "cam_inv lost pend s" and "is_group s g" and "ready s g xs"
  shows "length xs \<le> unat (sr_remaining (row s g))"
proof -
  have "set (map fst xs) \<subseteq> child_links s g" using assms(3) by (auto simp: ready_def)
  then have "card (set (map fst xs)) \<le> card (child_links s g)" by (rule card_mono[OF finite_links])
  then show ?thesis using assms(3) cam_inv_count[OF assms(1,2)] by (simp only: ready_def distinct_card length_map)
qed

lemma signal_list_group:
  assumes "cam_inv lost pend s" and "is_group s g" and "ready s g xs"
  shows "\<exists>s'. signal_list ev xs s = Some s' \<and> cam_inv lost pend s' \<and> is_group s' g \<and> row s' g = fold (hit_row (cam_sync_eventq s)) (map snd xs) (row s g) \<and>
    child_links s' g = child_links s g - fst ` set xs \<and>
    queued g s' = queued g s @ (if xs \<noteq> [] \<and> length xs = unat (sr_remaining (row s g))
      then with_status (foldl comb_state (sr_state (row s g)) (map snd xs)) (sr_callback_list (row s g)) else [])"
  using assms
proof (induction xs arbitrary: s)
  case (Cons x xs)
  obtain c st where x: "x = (c, st)" by fastforce
  have c: "c \<in> child_links s g" "is_signaled st" "sr_ref_cnt (row s c) = 1" "c \<notin> fst ` set xs" using Cons.prems(3) by (auto simp: ready_def x)
  then have cm: "c < CAM_SYNC_MAX_OBJS" "g \<in> set (sr_parents_list (row s c))" by (simp_all add: child_links_def)
  note lk = cam_inv_link[OF Cons.prems(1) cm]
  note n = ready_length[OF Cons.prems]
  obtain s1 where s1: "cam_sync_signal (int c) st ev s = Some (Inr (), s1)" "cam_inv lost pend s1"
    and r1: "\<And>j. row s1 j = (if j = c then row (fired c st ev s) c
       else if j \<in> set (sr_parents_list (row s c)) then hit_row (cam_sync_eventq s) st (row s j) else row s j)"
    and f1: "cam_sync_eventq s1 = cam_sync_eventq s" "version s1 = version s" "called s1 = called s" "bitmap s1 = bitmap s" "open_cnt s1 = open_cnt s"
    and q1: "\<And>g. queued g s1 = queued g s @
       (if g = c then with_status st (sr_callback_list (row s c))
        else if g \<in> set (sr_parents_list (row s c)) \<and> sr_remaining (row s g) = 1
        then with_status (comb_state (sr_state (row s g)) st) (sr_callback_list (row s g)) else [])"
    by (rule signal_effect[OF Cons.prems(1) cm(1) lk(3,4) c(3,2), of ev]) (rule that, assumption+)
  have rg: "row s1 g = hit_row (cam_sync_eventq s) st (row s g)" using cm(2) lk(7) by (simp add: r1)
  have rem: "unat (sr_remaining (row s1 g)) = unat (sr_remaining (row s g)) - 1" using n by (simp add: rg unat_pred x)
  have grp: "is_group s1 g"
  proof -
    have "comb_state (sr_state (row s g)) st \<noteq> CAM_SYNC_STATE_INVALID"
      using Cons.prems(2) is_signaled_valid[OF c(2)] by (auto simp: comb_state_def is_group_def)
    then show ?thesis using Cons.prems(2) rg by (simp add: is_group_def)
  qed
  have fc: "sr_parents_list (row (fired c st ev s) c) = []"
    using cam_inv_lengths[OF Cons.prems(1)] cm(1) by (simp add: row_fired told_row_def)
  have pg: "sr_parents_list (row s1 d) = (if d = c then [] else sr_parents_list (row s d))" for d
    by (simp add: r1 fc)
  have l1: "child_links s1 g = child_links s g - {c}" by (auto simp: child_links_def pg)
  have rd: "ready s1 g xs"
  proof -
    have same: "row s1 d = row s d" if "d \<in> child_links s g" "d \<noteq> c" for d
    proof -
      have "d \<notin> set (sr_parents_list (row s c))"
        using cam_inv_link(1)[OF Cons.prems(1) cm(1), of d] cam_inv_link(3)[OF Cons.prems(1), of d g] that(1) by (auto simp: child_links_def is_group_def)
      then show ?thesis using that(2) by (simp add: r1)
    qed
    show ?thesis
      unfolding ready_def l1
    proof (intro conjI ballI, goal_cases)
      case 1
      then show ?case using Cons.prems(3) by (simp add: ready_def)
    next
      case (2 y)
      have "fst y \<in> child_links s g" "is_signaled (snd y)" "sr_ref_cnt (row s (fst y)) = 1" "fst y \<noteq> c"
        using Cons.prems(3) c(4) 2 by (auto simp: ready_def)
      then show ?case using same[of "fst y"] by (simp add: case_prod_beta)
    qed
  qed
  obtain s' where s': "signal_list ev xs s1 = Some s'" "cam_inv lost pend s'" "is_group s' g"
    "row s' g = fold (hit_row (cam_sync_eventq s1)) (map snd xs) (row s1 g)" "child_links s' g = child_links s1 g - fst ` set xs"
    "queued g s' = queued g s1 @ (if xs \<noteq> [] \<and> length xs = unat (sr_remaining (row s1 g))
      then with_status (foldl comb_state (sr_state (row s1 g)) (map snd xs)) (sr_callback_list (row s1 g)) else [])"
    using Cons.IH[OF s1(2) grp rd] by blast
  have one: "sr_remaining (row s g) = 1 \<longleftrightarrow> unat (sr_remaining (row s g)) = 1" by (simp add: word_unat_eq_iff)
  have "queued g s' = queued g s @ (if length (x # xs) = unat (sr_remaining (row s g))
      then with_status (foldl comb_state (sr_state (row s g)) (map snd (x # xs))) (sr_callback_list (row s g)) else [])"
  proof (cases "sr_remaining (row s g) = 1")
    case True
    then have "xs = []" using n one by simp
    then show ?thesis using s'(6) q1[of g] lk(7) cm(2) True by (simp add: x)
  next
    case False
    have "xs \<noteq> [] \<and> length xs = unat (sr_remaining (row s1 g)) \<longleftrightarrow> length (x # xs) = unat (sr_remaining (row s g))"
      using False one n by (auto simp: rem)
    then show ?thesis using s'(6) q1[of g] lk(7) False by (simp add: rg x)
  qed
  then show ?case
    using s1(1) s' f1 rg l1 by (intro exI[of _ s']) (auto simp: x)
qed simp


section \<open>Theorems about groups\<close>

lemma group_row_ok:
  assumes "cam_inv lost pend s" and "is_group s g"
  shows "group_ok (row s g)"
proof -
  have g: "g < CAM_SYNC_MAX_OBJS" "valid (row s g)" "sr_type (row s g) = CAM_SYNC_TYPE_GROUP" using assms(2) by (simp_all add: is_group_def)
  have w: "row_wf g (row s g)" using cam_inv_row_wf[OF assms(1) g(1)] .
  then have "sr_sync_id (row s g) = g" using g(2) by (simp add: row_wf_def)
  with w show ?thesis using g by (simp add: group_ok_def)
qed

lemma group_state: "group_ok r \<Longrightarrow> sr_state r = CAM_SYNC_STATE_ACTIVE \<or> is_signaled (sr_state r)"
  by (auto simp: group_ok_def row_wf_def)

lemma ready_take: "ready s g xs \<Longrightarrow> ready s g (take k xs)"
  unfolding ready_def by (auto simp: take_map[symmetric] dest: in_set_takeD)

text \<open>C5: a group of camera fences is signalled by its children, whatever their order: as long as one child is
  outstanding the group is not signalled and none of its callbacks is queued; the last child signals it, with success if all
  children succeeded and with the first failure otherwise, and queues every callback of the group exactly once, with
  that result.\<close>

theorem group_signalled:
  assumes "cam_ok s" and "is_group s g" and "unat (sr_remaining (row s g)) = card (child_links s g)"
    and "ready s g xs" and "fst ` set xs = child_links s g" and "xs \<noteq> []"
  shows "(\<exists>s'. signal_list ev xs s = Some s' \<and> sr_signaled (row s' g) \<and> sr_callback_list (row s' g) = [] \<and>
      sr_state (row s' g) = group_result (sr_state (row s g)) (map snd xs) \<and>
      queued g s' = queued g s @ with_status (group_result (sr_state (row s g)) (map snd xs)) (sr_callback_list (row s g))) \<and>
    (\<forall>k < length xs. \<exists>s'. signal_list ev (take k xs) s = Some s' \<and> \<not> sr_signaled (row s' g) \<and> queued g s' = queued g s)"
proof (rule conjI)
  obtain lost where inv: "cam_inv lost [] s" using assms(1) by (auto simp: cam_ok_def)
  have ok: "group_ok (row s g)" by (rule group_row_ok[OF inv assms(2)])
  have "card (fst ` set xs) = length xs" using assms(4) distinct_card[of "map fst xs"] by (simp add: ready_def)
  then have n: "length xs = unat (sr_remaining (row s g))" using assms(3,5) by simp
  have sig: "\<forall>st \<in> set (map snd xs). is_signaled st" using assms(4) by (auto simp: ready_def)
  obtain s' where s': "signal_list ev xs s = Some s'" "cam_inv lost [] s'" "is_group s' g"
      "row s' g = fold (hit_row (cam_sync_eventq s)) (map snd xs) (row s g)"
      "queued g s' = queued g s @ with_status (foldl comb_state (sr_state (row s g)) (map snd xs)) (sr_callback_list (row s g))"
    using signal_list_group[OF inv assms(2,4), of ev] n assms(6) by auto
  note h = cam_group.hits[OF ok sig, of "cam_sync_eventq s", folded s'(4)]
  have res: "foldl comb_state (sr_state (row s g)) (map snd xs) = group_result (sr_state (row s g)) (map snd xs)"
    using foldl_comb_state[OF sig group_state[OF ok]] assms(6) by simp
  have "sr_signaled (row s' g)" "sr_state (row s' g) = group_result (sr_state (row s g)) (map snd xs)" using h n res by simp_all
  moreover from this(1) have "sr_callback_list (row s' g) = []"
    using group_row_ok[OF s'(2,3)] by (simp add: group_ok_def row_wf_def)
  ultimately show "\<exists>s'. signal_list ev xs s = Some s' \<and> sr_signaled (row s' g) \<and> sr_callback_list (row s' g) = [] \<and>
      sr_state (row s' g) = group_result (sr_state (row s g)) (map snd xs) \<and>
      queued g s' = queued g s @ with_status (group_result (sr_state (row s g)) (map snd xs)) (sr_callback_list (row s g))"
    using s'(1,5) res by auto
  show "\<forall>k < length xs. \<exists>s'. signal_list ev (take k xs) s = Some s' \<and> \<not> sr_signaled (row s' g) \<and> queued g s' = queued g s"
  proof (intro allI impI)
    fix k assume k: "k < length xs"
    obtain t where t: "signal_list ev (take k xs) s = Some t" "row t g = fold (hit_row (cam_sync_eventq s)) (map snd (take k xs)) (row s g)"
        "queued g t = queued g s"
      using signal_list_group[OF inv assms(2) ready_take[OF assms(4), of k], of ev] n k by auto
    have "\<forall>st \<in> set (map snd (take k xs)). is_signaled st" using sig by (auto dest: in_set_takeD)
    from cam_group.hits[OF ok this, of "cam_sync_eventq s", folded t(2)] have "\<not> sr_signaled (row t g)" using k n by simp
    then show "\<exists>s'. signal_list ev (take k xs) s = Some s' \<and> \<not> sr_signaled (row s' g) \<and> queued g s' = queued g s" using t by blast
  qed
qed

text \<open>A device with two fences, 1 and 2, each with one reference, merged into group 3 with one callback.\<close>

definition demo_row :: "nat \<Rightarrow> sync_table_row" where
  "demo_row i = (fresh_row i None CAM_SYNC_TYPE_INDV)\<lparr>sr_parents_list := [3], sr_ref_cnt := 1\<rparr>"

definition demo_group :: sync_table_row where
  "demo_group = (fresh_row 3 (Some ''merged_fence'') CAM_SYNC_TYPE_GROUP)\<lparr>sr_remaining := 2, sr_children_list := [1, 2],
     sr_callback_list := [\<lparr>cb_callback_func = 7, cb_cb_data = 0, cb_status = 0, cb_sync_obj = 3\<rparr>]\<rparr>"

definition demo :: sync_device where
  "demo = \<lparr>sync_table = [zero_row, demo_row 1, demo_row 2, demo_group] @ replicate 2044 zero_row, open_cnt = 1, work_queue = [],
     cam_sync_eventq = True, bitmap = [True, True, True, True] @ replicate 2044 False, version = CAM_SYNC_V4L_EVENT_V2,
     trigger_cb_without_switch = False, called = [], events = []\<rparr>"

lemma demo_rows: "i < 2048 \<Longrightarrow> row demo i = (if i = 1 then demo_row 1 else if i = 2 then demo_row 2 else if i = 3 then demo_group else zero_row)"
proof -
  assume i: "i < 2048"
  show ?thesis
  proof (cases "i < 4")
    case True
    then have "i = 0 \<or> i = 1 \<or> i = 2 \<or> i = 3" by auto
    then show ?thesis by (auto simp: demo_def)
  next
    case False
    then show ?thesis using i by (simp add: demo_def nth_append)
  qed
qed

lemma demo_bits: "i < 2048 \<Longrightarrow> bitmap demo ! i = (i < 4)"
proof (cases "i < 4")
  case True
  then have "i = 0 \<or> i = 1 \<or> i = 2 \<or> i = 3" by auto
  then show ?thesis by (auto simp: demo_def)
next
  case False
  assume "i < 2048"
  with False show ?thesis by (simp add: demo_def nth_append)
qed

lemma demo_links: "child_links demo p = (if p = 3 then {1, 2} else {})"
  by (auto simp: child_links_def CAM_SYNC_MAX_OBJS_def demo_rows demo_row_def demo_group_def zero_row_def split: if_splits)

lemma demo_is_group: "is_group demo p \<longleftrightarrow> p = 3"
  by (auto simp: is_group_def CAM_SYNC_MAX_OBJS_def demo_rows demo_row_def demo_group_def zero_row_def cam_consts(2-) split: if_splits)

lemma demo_row_wf:
  assumes "i < 2048"
  shows "row_wf i (row demo i)"
proof -
  have "row_wf 1 (demo_row 1)" "row_wf 2 (demo_row 2)" by (simp_all add: row_wf_def demo_row_def CAM_SYNC_MAX_OBJS_def)
  moreover have "row_wf 3 demo_group" by (auto simp: row_wf_def demo_group_def CAM_SYNC_MAX_OBJS_def)
  moreover have "row_wf i zero_row" by (simp add: row_wf_def zero_row_def cam_consts)
  ultimately show ?thesis using assms by (simp add: demo_rows)
qed

lemma demo_inv: "cam_inv (\<lambda>_. 0) [] demo"
proof -
  have v: "valid (row demo i) \<longleftrightarrow> i \<in> {1, 2, 3}" if "i < 2048" for i
    using that by (simp add: demo_rows demo_row_def demo_group_def zero_row_def CAM_SYNC_STATE_INVALID_def CAM_SYNC_STATE_ACTIVE_def)
  have "sr_remaining (row demo 3) = 2" "sr_children_list (row demo 3) = [1, 2]" by (simp_all add: demo_rows demo_group_def)
  moreover have "set (sr_parents_list (row demo c)) = (if c = 1 \<or> c = 2 then {3} else {})" if "c < 2048" for c
    using that by (simp add: demo_rows demo_row_def demo_group_def zero_row_def)
  ultimately show ?thesis
    unfolding cam_inv_def CAM_SYNC_MAX_OBJS_def
    using v demo_bits demo_row_wf by (auto simp: demo_is_group demo_links) (auto simp: demo_def)
qed

lemma demo_ok: "cam_ok demo"
  using demo_inv by (auto simp: cam_ok_def)

lemma demo_ready: "is_signaled a \<Longrightarrow> is_signaled b \<Longrightarrow> ready demo 3 [(2, a), (1, b)]"
  by (simp add: ready_def demo_links demo_rows demo_row_def)

theorem group_signalled_witness:
  "\<exists>s'. signal_list 0 [(2, CAM_SYNC_STATE_SIGNALED_SUCCESS), (1, CAM_SYNC_STATE_SIGNALED_CANCEL)] demo = Some s' \<and>
    sr_state (row s' 3) = CAM_SYNC_STATE_SIGNALED_CANCEL \<and>
    queued 3 s' = [\<lparr>cb_callback_func = 7, cb_cb_data = 0, cb_status = CAM_SYNC_STATE_SIGNALED_CANCEL, cb_sync_obj = 3\<rparr>]"
proof -
  have r: "sr_state (row demo 3) = CAM_SYNC_STATE_ACTIVE" "sr_remaining (row demo 3) = 2" "work_queue demo = []"
    "sr_callback_list (row demo 3) = [\<lparr>cb_callback_func = 7, cb_cb_data = 0, cb_status = 0, cb_sync_obj = 3\<rparr>]"
    by (simp_all add: demo_rows demo_group_def) (simp add: demo_def)
  have "group_result CAM_SYNC_STATE_ACTIVE [CAM_SYNC_STATE_SIGNALED_SUCCESS, CAM_SYNC_STATE_SIGNALED_CANCEL] = CAM_SYNC_STATE_SIGNALED_CANCEL"
    by (simp add: group_result_def bad_def cam_consts)
  moreover have "is_group demo 3" "unat (sr_remaining (row demo 3)) = card (child_links demo 3)"
    "fst ` set [(2, CAM_SYNC_STATE_SIGNALED_SUCCESS), (1, CAM_SYNC_STATE_SIGNALED_CANCEL)] = child_links demo 3"
    using r(2) by (auto simp: demo_is_group demo_links)
  ultimately show ?thesis
    using group_signalled[OF demo_ok, of 3 "[(2, CAM_SYNC_STATE_SIGNALED_SUCCESS), (1, CAM_SYNC_STATE_SIGNALED_CANCEL)]" 0] demo_ready r
    by (auto simp: with_status_def)
qed

section \<open>Interleaved signals\<close>

text \<open>Threads inside \<open>cam_sync_signal\<close> that have left the lock of their row and have still to notify the listed groups. The other
  calls of drivers run between the sections; merging and creating hold the lock of the row they make.\<close>

type_synonym signaller = "u32 \<times> u32 \<times> nat list"

definition pending_groups :: "signaller list \<Rightarrow> nat list" where
  "pending_groups ts = concat (map (\<lambda>(st, ev, ps). ps) ts)"

fun harmless :: "cam_call \<Rightarrow> bool" where
  "harmless (Create _) = True"
| "harmless (Register_callback _ _ _ _) = True"
| "harmless (Deregister_callback _ _ _) = True"
| "harmless (Merge _ _) = True"
| "harmless (Get_ref _) = True"
| "harmless (Put_ref _) = True"
| "harmless Worker = True"
| "harmless _ = False"

inductive cam_step :: "sync_device \<times> signaller list \<Rightarrow> sync_device \<times> signaller list \<Rightarrow> bool" where
  step_row: "signal_row x st ev s = Some (Inr ps, s') \<Longrightarrow> cam_step (s, ts) (s', ts @ [(st, ev, ps)])"
| step_parent: "k < length ts \<Longrightarrow> ts ! k = (st, ev, p # ps) \<Longrightarrow> signal_parent st ev p s = Some s' \<Longrightarrow> cam_step (s, ts) (s', ts[k := (st, ev, ps)])"
| step_call: "harmless c \<Longrightarrow> cam_exec c s = Some s' \<Longrightarrow> cam_step (s, ts) (s', ts)"

inductive cam_reach :: "sync_device \<times> signaller list \<Rightarrow> bool" where
  reach_bind: "cam_sync_component_bind a b c d e f g = Inr s \<Longrightarrow> cam_reach (s, [])"
| reach_step: "cam_reach c1 \<Longrightarrow> cam_step c1 c2 \<Longrightarrow> cam_reach c2"

lemma count_list_mset: "count_list xs x = count (mset xs) x"
  by (induction xs) auto

lemma cam_inv_perm:
  assumes "mset xs = mset ys"
  shows "cam_inv lost xs s = cam_inv lost ys s"
proof -
  have "set xs = set ys" "count_list xs = count_list ys" using mset_eq_setD[OF assms] assms by (auto simp: count_list_mset)
  then show ?thesis unfolding cam_inv_def by (simp only:)
qed

lemma pending_Nil [simp]: "pending_groups [] = []" and pending_snoc: "pending_groups (ts @ [(st, ev, ps)]) = pending_groups ts @ ps"
  by (simp_all add: pending_groups_def)

lemma mset_pending_upd:
  "k < length ts \<Longrightarrow> ts ! k = (st, ev, p # ps) \<Longrightarrow> mset (pending_groups ts) = mset (p # pending_groups (ts[k := (st, ev, ps)]))"
proof -
  assume k: "k < length ts" "ts ! k = (st, ev, p # ps)"
  have ts: "ts = take k ts @ (st, ev, p # ps) # drop (Suc k) ts" using id_take_nth_drop[OF k(1)] k(2) by simp
  have "pending_groups (xs @ (a, b, qs) # ys) = pending_groups xs @ qs @ pending_groups ys" for xs ys a b qs by (simp add: pending_groups_def)
  then have "pending_groups ts = pending_groups (take k ts) @ (p # ps) @ pending_groups (drop (Suc k) ts)"
    "pending_groups (ts[k := (st, ev, ps)]) = pending_groups (take k ts) @ ps @ pending_groups (drop (Suc k) ts)"
    using ts upd_conv_take_nth_drop[OF k(1), of "(st, ev, ps)"] by metis+
  then show ?thesis by simp
qed

lemma signal_row_legal: "cam_inv lost pend s \<Longrightarrow> signal_row x st ev s = Some (Inr ps, s') \<Longrightarrow> is_signaled st"
  using signal_row_eq[of lost pend s x st ev] by (auto simp: Let_def split: if_splits)

lemma signal_row_inv:
  assumes inv: "cam_inv lost pend s" and e: "signal_row x st ev s = Some (Inr ps, s')"
  shows "cam_inv lost (ps @ pend) s'"
proof -
  let ?r = "row s (nat x)"
  have st: "is_signaled st" by (rule signal_row_legal[OF inv e])
  have h: "in_range x" "valid ?r" "sr_type ?r \<noteq> CAM_SYNC_TYPE_GROUP" "sr_state ?r = CAM_SYNC_STATE_ACTIVE"
    "sr_ref_cnt ?r \<noteq> 1 \<and> ps = [] \<and> s' = upd_row (nat x) (\<lambda>r. r\<lparr>sr_ref_cnt := sr_ref_cnt r - 1\<rparr>) s \<or> ps = sr_parents_list ?r \<and> s' = fired (nat x) st ev s"
    using signal_row_eq[OF inv, of x st ev] e by (auto simp: Let_def split: if_splits)
  have i: "nat x < CAM_SYNC_MAX_OBJS" using in_range_nat[OF h(1)] by simp
  have w: "row_wf (nat x) ?r" using cam_inv_row_wf[OF inv i] .
  from h(5) show ?thesis
  proof (elim disjE conjE)
    assume "ps = []" "s' = upd_row (nat x) (\<lambda>r. r\<lparr>sr_ref_cnt := sr_ref_cnt r - 1\<rparr>) s"
    then show ?thesis using cam_inv_upd_local[OF inv i, of "\<lambda>r. r\<lparr>sr_ref_cnt := sr_ref_cnt r - 1\<rparr>"] w by (simp add: row_wf_local)
  next
    assume "ps = sr_parents_list ?r" "s' = fired (nat x) st ev s"
    moreover have "sr_type ?r = CAM_SYNC_TYPE_INDV" using w h(3) by (simp add: row_wf_def)
    ultimately show ?thesis using fired_inv[OF inv i _ h(4) st] by simp
  qed
qed

lemma harmless_inv:
  assumes inv: "cam_inv (\<lambda>_. 0) pend s" and c: "harmless c" and e: "cam_exec c s = Some s'"
  shows "cam_inv (\<lambda>_. 0) pend s'"
proof (cases c)
  case (Create n)
  then show ?thesis using create_inv[OF inv, of 1 n] e by auto
next
  case (Register_callback kz f d x)
  then show ?thesis using register_callback_inv[OF inv, of kz f d x] e by auto
next
  case (Deregister_callback f d x)
  then show ?thesis using deregister_callback_inv[OF inv, of f d x] e by auto
next
  case (Merge kz xs)
  have z: "(\<lambda>_. 0)(g := 0) = (\<lambda>_. 0 :: nat)" for g :: nat by auto
  show ?thesis by (rule merge_cases[OF inv, of 1 kz xs]) (use Merge e inv z in auto)
next
  case (Get_ref x)
  then show ?thesis using get_obj_ref_inv[OF inv, of x] e by auto
next
  case (Put_ref x)
  then show ?thesis using put_obj_ref_inv[OF inv, of x] e by auto
next
  case Worker
  then show ?thesis using inv e by (auto simp: cam_sync_util_cb_dispatch_def split: list.splits)
qed (use c in auto)

lemma reach_inv: "cam_reach c \<Longrightarrow> cam_inv (\<lambda>_. 0) (pending_groups (snd c)) (fst c) \<and> (\<forall>(st, ev, ps) \<in> set (snd c). is_signaled st)"
proof (induction rule: cam_reach.induct)
  case (reach_bind a b c d e f g s)
  then show ?case using bind_inv by simp
next
  case (reach_step c1 c2)
  obtain s ts where c1: "c1 = (s, ts)" by fastforce
  have inv: "cam_inv (\<lambda>_. 0) (pending_groups ts) s" and leg: "\<forall>(st, ev, ps) \<in> set ts. is_signaled st" using reach_step.IH c1 by auto
  from reach_step.hyps(2) show ?case
  proof (cases rule: cam_step.cases)
    case (step_row x st ev s0 ps s' ts0)
    then have e: "signal_row x st ev s = Some (Inr ps, s')" and c2: "c2 = (s', ts @ [(st, ev, ps)])" using c1 by simp_all
    have "mset (pending_groups (ts @ [(st, ev, ps)])) = mset (ps @ pending_groups ts)" by (simp add: pending_snoc)
    then have "cam_inv (\<lambda>_. 0) (pending_groups (ts @ [(st, ev, ps)])) s'" using signal_row_inv[OF inv e] cam_inv_perm by blast
    then show ?thesis using c2 leg signal_row_legal[OF inv e] by auto
  next
    case (step_parent k ts0 st ev p ps s0 s')
    then have k: "k < length ts" "ts ! k = (st, ev, p # ps)" and e: "signal_parent st ev p s = Some s'" and c2: "c2 = (s', ts[k := (st, ev, ps)])"
      using c1 by simp_all
    have st: "is_signaled st" using leg k nth_mem[OF k(1)] by force
    have "cam_inv (\<lambda>_. 0) (p # pending_groups (ts[k := (st, ev, ps)])) s" using inv mset_pending_upd[OF k] cam_inv_perm by blast
    then have "cam_inv (\<lambda>_. 0) (pending_groups (ts[k := (st, ev, ps)])) s'" using signal_parent_inv[OF _ st] e by (metis option.inject)
    moreover have "\<forall>(st, ev, ps) \<in> set (ts[k := (st, ev, ps)]). is_signaled st" using leg st set_update_subset_insert[of ts k "(st, ev, ps)"] by auto
    ultimately show ?thesis using c2 by auto
  next
    case (step_call c s0 s' ts0)
    then have "harmless c" "cam_exec c s = Some s'" "c2 = (s', ts)" using c1 by simp_all
    then show ?thesis using harmless_inv[OF inv] leg by auto
  qed
qed

text \<open>C6: however the signals of several threads interleave with each other and with the other calls, as long as no fence is
  destroyed, a group is complete exactly when every child has been signalled and has delivered its notification; its counter is
  exactly the number of the notifications to come; it never wraps, and no pending notification can fail.\<close>

theorem group_concurrent:
  assumes "cam_reach (s, ts)"
  shows "(\<forall>p. is_group s p \<longrightarrow> unat (sr_remaining (row s p)) = card (child_links s p) + count_list (pending_groups ts) p \<and>
        (sr_signaled (row s p) \<longleftrightarrow> child_links s p = {} \<and> p \<notin> set (pending_groups ts)) \<and> (sr_signaled (row s p) \<longrightarrow> sr_callback_list (row s p) = [])) \<and>
    (\<forall>k st ev p ps. k < length ts \<longrightarrow> ts ! k = (st, ev, p # ps) \<longrightarrow> is_group s p \<and> signal_parent st ev p s \<noteq> None)"
proof (intro conjI allI impI)
  have inv: "cam_inv (\<lambda>_. 0) (pending_groups ts) s" and leg: "\<forall>(st, ev, ps) \<in> set ts. is_signaled st" using reach_inv[OF assms] by auto
  fix p assume g: "is_group s p"
  show c: "unat (sr_remaining (row s p)) = card (child_links s p) + count_list (pending_groups ts) p" using cam_inv_count[OF inv g] by simp
  have ok: "group_ok (row s p)" by (rule group_row_ok[OF inv g])
  show "sr_signaled (row s p) \<longleftrightarrow> child_links s p = {} \<and> p \<notin> set (pending_groups ts)"
    using group_ok_fin[OF ok] c by (simp add: count_list_0_iff)
  assume "sr_signaled (row s p)"
  then show "sr_callback_list (row s p) = []" using ok by (simp add: group_ok_def row_wf_def)
next
  have inv: "cam_inv (\<lambda>_. 0) (pending_groups ts) s" and leg: "\<forall>(st, ev, ps) \<in> set ts. is_signaled st" using reach_inv[OF assms] by auto
  fix k st ev p ps assume k: "k < length ts" "ts ! k = (st, ev, p # ps)"
  then have i: "cam_inv (\<lambda>_. 0) (p # pending_groups (ts[k := (st, ev, ps)])) s" using inv mset_pending_upd[OF k] cam_inv_perm by blast
  then show "is_group s p" by (simp add: cam_inv_def)
  have "is_signaled st" using leg k nth_mem[OF k(1)] by force
  then show "signal_parent st ev p s \<noteq> None" using signal_parent_inv[OF i] by (metis option.distinct(1))
qed

text \<open>A run: two fences are created and merged, the first one is signalled and its thread has still to notify the group.\<close>

lemma find_first_zero_eqI: "k < length bs \<Longrightarrow> \<not> bs ! k \<Longrightarrow> \<forall>j < k. bs ! j \<Longrightarrow> find_first_zero bs = k"
  using find_first_zero_less[of bs] find_first_zero_before[of k bs] by (metis linorder_neqE_nat order.strict_trans)

lemma run_example:
  "\<exists>s. cam_reach (s, [(CAM_SYNC_STATE_SIGNALED_SUCCESS, 0, [3])]) \<and> is_group s 3 \<and> child_links s 3 = {2}"
proof -
  obtain s0 where b: "cam_sync_component_bind True True (Inr ()) (Inr ()) (Inr ()) True (Inr ()) = Inr s0" by (simp add: cam_sync_component_bind_def)
  have i0: "cam_inv (\<lambda>_. 0) [] s0" by (rule bind_inv[OF b])
  have b0: "bitmap s0 = (replicate CAM_SYNC_MAX_OBJS False)[0 := True]" using b by (auto simp: cam_sync_component_bind_def)
  note len0 = cam_inv_lengths[OF i0]
  let ?f = "\<lambda>i. fresh_row i None CAM_SYNC_TYPE_INDV"
  define s1 where "s1 = upd_row 1 (\<lambda>_. ?f 1) (set_bmp 1 s0)"
  define s2 where "s2 = upd_row 2 (\<lambda>_. ?f 2) (set_bmp 2 s1)"
  define s3 where "s3 = upd_row 1 (\<lambda>r. r\<lparr>sr_ref_cnt := sr_ref_cnt r + 1\<rparr>) s2"
  have z0: "find_first_zero (bitmap s0) = 1" unfolding b0 CAM_SYNC_MAX_OBJS_def by (rule find_first_zero_eqI) simp_all
  have e1: "cam_exec (Create None) s0 = Some s1" using create_eq[OF i0, of 1 None] z0 by (simp add: s1_def CAM_SYNC_MAX_OBJS_def)
  have i1: "cam_inv (\<lambda>_. 0) [] s1" using harmless_inv[OF i0 _ e1] by simp
  have z1: "find_first_zero (bitmap s1) = 2" unfolding s1_def b0 CAM_SYNC_MAX_OBJS_def
    by (rule find_first_zero_eqI) (auto simp: b0 CAM_SYNC_MAX_OBJS_def less_2_cases_iff)
  have e2: "cam_exec (Create None) s1 = Some s2" using create_eq[OF i1, of 1 None] z1 by (simp add: s2_def CAM_SYNC_MAX_OBJS_def)
  have i2: "cam_inv (\<lambda>_. 0) [] s2" using harmless_inv[OF i1 _ e2] by simp
  have r1: "row s2 1 = ?f 1" "row s2 2 = ?f 2" using len0 by (simp_all add: s2_def s1_def row_upd_row CAM_SYNC_MAX_OBJS_def)
  have e3: "cam_exec (Get_ref 1) s2 = Some s3"
    using i2 r1 by (simp add: cam_sync_get_obj_ref_def in_range_def s3_def CAM_SYNC_MAX_OBJS_def)
  have i3: "cam_inv (\<lambda>_. 0) [] s3" using harmless_inv[OF i2 _ e3] by simp
  have r3: "row s3 1 = (?f 1)\<lparr>sr_ref_cnt := 1\<rparr>" "row s3 2 = ?f 2" using r1 len0 by (simp_all add: s3_def row_upd_row s2_def s1_def CAM_SYNC_MAX_OBJS_def)
  have z3: "find_first_zero (bitmap s3) = 3" unfolding s3_def s2_def s1_def
    by (rule find_first_zero_eqI) (auto simp: b0 CAM_SYNC_MAX_OBJS_def less_Suc_eq numeral_eq_Suc)
  define s4 where "s4 = merged_table 3 [1, 2] s3"
  have e4: "cam_exec (Merge (\<lambda>_. True) [1, 2]) s3 = Some s4"
    by (rule merge_cases[OF i3, of 1 "\<lambda>_. True" "[1, 2]"]) (auto simp: z3 s4_def r3[unfolded One_nat_def] in_range_def CAM_SYNC_MAX_OBJS_def)
  have i4: "cam_inv (\<lambda>_. 0) [] s4" using harmless_inv[OF i3 _ e4] by simp
  have len3: "length (sync_table s3) = 2048" using cam_inv_lengths[OF i3] by (simp add: CAM_SYNC_MAX_OBJS_def)
  have act: "active_of s3 [1, 2] = [1, 2]" using r3 by (simp add: active_of_def)
  have r4: "row s4 1 = (?f 1)\<lparr>sr_ref_cnt := 1, sr_parents_list := [3]\<rparr>" "row s4 2 = (?f 2)\<lparr>sr_parents_list := [3]\<rparr>"
    using r3 len3 act by (simp_all add: s4_def row_merged)
  have g4: "is_group s4 3" using len3 act r3 by (simp add: is_group_def s4_def row_merged group_row_def Let_def bad_def CAM_SYNC_MAX_OBJS_def)
  have l4: "child_links s4 3 = {1, 2}"
  proof -
    have "3 \<notin> set (sr_parents_list (row s3 c))" if "c < CAM_SYNC_MAX_OBJS" for c
      using cam_inv_free_row(4)[OF i3 _ _ that, of 3] z3 find_first_zero_less[of "bitmap s3"] cam_inv_lengths[OF i3] by (simp add: CAM_SYNC_MAX_OBJS_def)
    then show ?thesis using len3 act r3 unfolding child_links_def
      by (auto simp: s4_def row_merged CAM_SYNC_MAX_OBJS_def group_row_def Let_def split: if_splits)
  qed
  let ?s5 = "fired 1 CAM_SYNC_STATE_SIGNALED_SUCCESS 0 s4"
  have e5: "signal_row 1 CAM_SYNC_STATE_SIGNALED_SUCCESS 0 s4 = Some (Inr [3], ?s5)"
    using signal_row_eq[OF i4, of 1 CAM_SYNC_STATE_SIGNALED_SUCCESS 0] r4 by (simp add: Let_def in_range_def CAM_SYNC_MAX_OBJS_def)
  have "cam_reach (s4, [])"
    by (rule reach_step[OF reach_step[OF reach_step[OF reach_step[OF reach_bind[OF b]
        step_call[OF _ e1]] step_call[OF _ e2]] step_call[OF _ e3]] step_call[OF _ e4]]) simp_all
  then have "cam_reach (?s5, [(CAM_SYNC_STATE_SIGNALED_SUCCESS, 0, [3])])"
    using reach_step[OF _ step_row[OF e5, of "[]"]] by simp
  moreover have "is_group ?s5 3" "child_links ?s5 3 = {2}"
    using g4 l4 len3 by (simp_all add: is_group_def row_fired s4_def links_fired)
  ultimately show ?thesis by blast
qed

theorem group_concurrent_witness:
  "\<exists>s. cam_reach (s, [(CAM_SYNC_STATE_SIGNALED_SUCCESS, 0, [3])]) \<and> is_group s 3 \<and> unat (sr_remaining (row s 3)) = 2 \<and> \<not> sr_signaled (row s 3)"
proof -
  obtain s where s: "cam_reach (s, [(CAM_SYNC_STATE_SIGNALED_SUCCESS, 0, [3])])" "is_group s 3" "child_links s 3 = {2}" using run_example by blast
  then have "unat (sr_remaining (row s 3)) = 2 \<and> \<not> sr_signaled (row s 3)" using group_concurrent[OF s(1)] by (auto simp: pending_groups_def)
  then show ?thesis using s by blast
qed

end
