(* ===== verification/Cam_Sync_Device.thy ===== *)
theory Cam_Sync_Device
  imports Cam_Sync_Signal
begin

text \<open>
  Theorems about the calls on the device: merging with its failures, destroying under a group, payloads, closing, and a race
  between a signal and the destruction of a group.
\<close>

section \<open>Merging\<close>

text \<open>\<open>cam_common_util_remove_duplicate_arr\<close>, which compacts the array in place, agrees with the list of first occurrences:
  it returns their number and leaves them, in order, at the front of the array, whose length does not change. In
  particular it returns the full length exactly for an array without duplicates, which it then leaves alone.\<close>

theorem remove_duplicate_correct:
  assumes "xs \<noteq> []"
  shows "\<exists>arr. cam_common_util_remove_duplicate_arr xs = (length (keep_first xs), arr) \<and> length arr = length xs \<and>
    take (length (keep_first xs)) arr = keep_first xs \<and> set (keep_first xs) = set xs \<and> distinct (keep_first xs) \<and>
    (length (keep_first xs) = length xs \<longleftrightarrow> distinct xs) \<and> (distinct xs \<longrightarrow> arr = xs)"
proof -
  obtain arr where arr: "cam_common_util_remove_duplicate_arr xs = (length (keep_first xs), arr)" "length arr = length xs"
    "take (length (keep_first xs)) arr = keep_first xs" using remove_duplicate_spec[OF assms] by blast
  moreover have "distinct xs \<Longrightarrow> arr = xs" using remove_duplicate_distinct(2)[OF assms arr(1)] .
  ultimately show ?thesis using length_keep_first_iff[of xs] by auto
qed

theorem remove_duplicate_correct_witness:
  "\<exists>arr. cam_common_util_remove_duplicate_arr [5, 7, 5, 9] = (3, arr) \<and> take 3 arr = [5, 7, 9]"
  using remove_duplicate_correct[of "[5, 7, 5, 9]"] by (auto simp: keep_first_def numeral_3_eq_3)

text \<open>C32: a merge decides by its arguments, the table and the allocations. Fewer than two objects, duplicates, and objects that are not in
  use are refused with EINVAL, a full table with ENOMEM, and nothing changes. If a child is a group, or one of the two
  allocations for an active child fails (the children are taken in order, \<open>kz\<close> numbers the allocations), the merge fails with EINVAL and is undone: no row in use, no bit of the
  bitmap and nothing queued has changed. In all other cases, and only then, the lowest free row becomes a group that is linked with exactly the active
  children and waits for as many notifications; it is complete at once if there are none.\<close>

theorem cam_merge_correct:
  fixes xs :: "int list" and s :: sync_device and kz :: "nat \<Rightarrow> bool"
  assumes "cam_ok s"
  defines "wrong \<equiv> length xs \<le> 1 \<or> \<not> distinct xs \<or> (\<exists>x \<in> set xs. \<not> in_range x \<or> \<not> valid (row s (nat x)))"
    and "full \<equiv> \<forall>i < CAM_SYNC_MAX_OBJS. bitmap s ! i"
    and "blocked \<equiv> \<exists>n < length xs. sr_type (row s (nat (xs ! n))) = CAM_SYNC_TYPE_GROUP \<or>
      sr_state (row s (nat (xs ! n))) = CAM_SYNC_STATE_ACTIVE \<and> \<not> (kz (2 * n) \<and> kz (2 * n + 1))"
  shows "(wrong \<longrightarrow> cam_sync_merge quiet 1 kz xs s = Some (Inl EINVAL, s)) \<and>
    (\<not> wrong \<and> full \<longrightarrow> cam_sync_merge quiet 1 kz xs s = Some (Inl ENOMEM, s)) \<and>
    (\<not> wrong \<and> \<not> full \<and> blocked \<longrightarrow>
      (\<exists>g s'. cam_sync_merge quiet 1 kz xs s = Some (Inl EINVAL, s') \<and> (\<forall>j. j \<noteq> g \<longrightarrow> row s' j = row s j) \<and> \<not> valid (row s g) \<and> \<not> valid (row s' g) \<and>
        bitmap s' = bitmap s \<and> work_queue s' = work_queue s \<and> events s' = events s)) \<and>
    (\<not> wrong \<and> \<not> full \<and> \<not> blocked \<longrightarrow>
      (\<exists>g s'. cam_sync_merge quiet 1 kz xs s = Some (Inr (int g), s') \<and> \<not> bitmap s ! g \<and> (\<forall>j < g. bitmap s ! j) \<and> is_group s' g \<and>
        child_links s' g = set (active_of s (map nat xs)) \<and> unat (sr_remaining (row s' g)) = length (active_of s (map nat xs)) \<and>
        (sr_signaled (row s' g) \<longleftrightarrow> active_of s (map nat xs) = []) \<and>
        (\<forall>j < CAM_SYNC_MAX_OBJS. j \<noteq> g \<longrightarrow> row s' j = (row s j)\<lparr>sr_parents_list := sr_parents_list (row s j) @ (if j \<in> set (active_of s (map nat xs)) then [g] else [])\<rparr>)))"
proof -
  obtain lost where inv: "cam_inv lost [] s" using assms(1) by (auto simp: cam_ok_def)
  have len: "length (bitmap s) = CAM_SYNC_MAX_OBJS" "length (sync_table s) = CAM_SYNC_MAX_OBJS" using cam_inv_lengths[OF inv] by simp_all
  have wrong: "bad_args xs s = wrong" by (simp add: wrong_def bad_args_def)
  have blocked: "merge_blocked kz xs s = blocked" if "\<not> wrong" using that unfolding blocked_def merge_blocked_def child_blocks_def wrong_def by (metis nth_mem)
  have full: "full \<longleftrightarrow> CAM_SYNC_MAX_OBJS \<le> find_first_zero (bitmap s)"
    using find_first_zero_before[of _ "bitmap s"] find_first_zero_less[of "bitmap s"] len unfolding full_def by (metis leD leI less_le_trans)
  show ?thesis
  proof (rule merge_cases[OF inv zero_less_one, of kz xs], goal_cases)
    case (1 e)
    then show ?case using wrong full by (auto simp: wrong_def)
  next
    case (2 g s')
    moreover have "\<not> full" using full 2(2,3) by simp
    moreover have "\<not> wrong" "blocked" using wrong blocked 2(14,15) by simp_all
    moreover have "\<not> valid (row s g)" by (rule cam_inv_free_row(2)[OF inv 2(3,4)])
    ultimately show ?case by blast
  next
    case (3 g)
    have free: "\<not> full" "\<not> wrong" "\<not> blocked" using full 3(2,3) wrong blocked 3(8,9) by simp_all
    let ?s' = "merged_table g (map nat xs) s" let ?act = "active_of s (map nat xs)"
    have r: "row ?s' j = (if j = g then group_row g (map nat xs) s else if j \<in> set ?act
        then (row s j)\<lparr>sr_parents_list := sr_parents_list (row s j) @ [g]\<rparr> else row s j)" if "j < CAM_SYNC_MAX_OBJS" for j
      using row_merged that len by simp
    have gr: "valid (group_row g (map nat xs) s)" "sr_type (group_row g (map nat xs) s) = CAM_SYNC_TYPE_GROUP"
      "sr_remaining (group_row g (map nat xs) s) = of_nat (length ?act)" "sr_signaled (group_row g (map nat xs) s) \<longleftrightarrow> ?act = []"
      "sr_parents_list (group_row g (map nat xs) s) = []"
      using last_bad_active[of "map (\<lambda>c. sr_state (row s c)) (map nat xs)"] by (auto simp: group_row_def Let_def bad_def cam_consts)
    have "c < CAM_SYNC_MAX_OBJS \<and> c \<noteq> g" if "c \<in> set ?act" for c using that 3(5) len by (auto simp: active_of_def cam_mergeable_def)
    then have "child_links ?s' g = set ?act"
      using cam_inv_free_row(4)[OF inv 3(3,4)] gr(5) by (auto simp: child_links_def r split: if_splits)
    moreover have "is_group ?s' g" using 3(3) gr by (simp add: is_group_def r)
    moreover have "unat (sr_remaining (row ?s' g)) = length ?act" using r[OF 3(3)] gr(3) length_active_bound(2)[OF 3(5) len(2)] by simp
    moreover have "row ?s' j = (row s j)\<lparr>sr_parents_list := sr_parents_list (row s j) @ (if j \<in> set ?act then [g] else [])\<rparr>"
      if "j < CAM_SYNC_MAX_OBJS" "j \<noteq> g" for j using r[OF that(1)] that(2) by simp
    moreover have "\<forall>j < g. bitmap s ! j" using 3(2) find_first_zero_before[of _ "bitmap s"] by simp
    moreover have "sr_signaled (row ?s' g) \<longleftrightarrow> ?act = []" using r[OF 3(3)] gr(4) by simp
    ultimately show ?case using free 3(1,4) by blast
  qed
qed

theorem cam_merge_correct_witness:
  "(\<exists>g s'. cam_sync_merge quiet 1 (\<lambda>_. True) [1, 2] demo = Some (Inr (int g), s') \<and> child_links s' g = {1, 2} \<and> unat (sr_remaining (row s' g)) = 2) \<and>
   cam_sync_merge quiet 1 (\<lambda>_. True) [1] demo = Some (Inl EINVAL, demo) \<and>
   (\<exists>s'. cam_sync_merge quiet 1 (\<lambda>m. m \<noteq> 3) [1, 2] demo = Some (Inl EINVAL, s') \<and> bitmap s' = bitmap demo)"
proof -
  have r: "valid (row demo 1)" "valid (row demo 2)" "sr_type (row demo 1) = CAM_SYNC_TYPE_INDV" "sr_type (row demo 2) = CAM_SYNC_TYPE_INDV"
    "\<not> bitmap demo ! 4" and act: "active_of demo [1, 2] = [1, 2]"
    by (simp_all add: demo_rows demo_row_def demo_bits active_of_def)
  have st: "sr_state (row demo 2) = CAM_SYNC_STATE_ACTIVE" using act by (auto simp: active_of_def split: if_splits)
  have ex: "\<not> (\<forall>i < CAM_SYNC_MAX_OBJS. bitmap demo ! i)" using r(5) by (auto simp: CAM_SYNC_MAX_OBJS_def intro!: exI[of _ 4])
  have two: "(\<exists>n < length [1, 2 :: int]. P n) \<longleftrightarrow> P 0 \<or> P 1" for P by (auto simp: less_Suc_eq numeral_2_eq_2)
  have rg: "in_range 1" "in_range 2" by (simp_all add: in_range_def CAM_SYNC_MAX_OBJS_def)
  have args: "\<not> (length [1, 2 :: int] \<le> 1 \<or> \<not> distinct [1, 2 :: int] \<or> (\<exists>x \<in> set [1, 2]. \<not> in_range x \<or> \<not> valid (row demo (nat x))))"
    using r rg by simp
  have no_group: "sr_type (row demo 1) \<noteq> CAM_SYNC_TYPE_GROUP" "sr_type (row demo 2) \<noteq> CAM_SYNC_TYPE_GROUP" using r(3,4) by (simp_all add: cam_consts)
  have free: "\<not> (\<exists>n < length [1, 2 :: int]. sr_type (row demo (nat ([1, 2] ! n))) = CAM_SYNC_TYPE_GROUP \<or>
      sr_state (row demo (nat ([1, 2] ! n))) = CAM_SYNC_STATE_ACTIVE \<and> \<not> (True \<and> True))" unfolding two using no_group by simp
  have stuck: "\<exists>n < length [1, 2 :: int]. sr_type (row demo (nat ([1, 2] ! n))) = CAM_SYNC_TYPE_GROUP \<or>
      sr_state (row demo (nat ([1, 2] ! n))) = CAM_SYNC_STATE_ACTIVE \<and> \<not> (2 * n \<noteq> 3 \<and> 2 * n + 1 \<noteq> 3)" unfolding two using st by simp
  note c = cam_merge_correct[OF demo_ok]
  have "\<exists>g s'. cam_sync_merge quiet 1 (\<lambda>_. True) [1, 2] demo = Some (Inr (int g), s') \<and> child_links s' g = {1, 2} \<and> unat (sr_remaining (row s' g)) = 2"
    using c[of "[1, 2]" "\<lambda>_. True", THEN conjunct2, THEN conjunct2, THEN conjunct2, rule_format, OF conjI[OF args conjI[OF ex free]]] act
    by (elim exE conjE) (rule exI, rule exI, auto)
  moreover have "cam_sync_merge quiet 1 (\<lambda>_. True) [1] demo = Some (Inl EINVAL, demo)"
    using c[of "[1]" "\<lambda>_. True", THEN conjunct1] by simp
  moreover have "\<exists>s'. cam_sync_merge quiet 1 (\<lambda>m. m \<noteq> 3) [1, 2] demo = Some (Inl EINVAL, s') \<and> bitmap s' = bitmap demo"
    using c[of "[1, 2]" "\<lambda>m. m \<noteq> 3", THEN conjunct2, THEN conjunct2, THEN conjunct1, rule_format, OF conjI[OF args conjI[OF ex stuck]]] by blast
  ultimately show ?thesis by blast
qed

section \<open>Destroying a child\<close>

lemma int_range_u32: "0 < i \<Longrightarrow> i < CAM_SYNC_MAX_OBJS \<Longrightarrow> unat (of_int (int i) :: u32) = i"
  by (simp add: CAM_SYNC_MAX_OBJS_def unat_of_nat)

lemma destroy_valid:
  assumes "cam_inv lost pend s" and "0 < i" and "i < CAM_SYNC_MAX_OBJS" and "valid (row s i)"
  shows "\<exists>s'. cam_sync_destroy (int i) s = Some (Inr (), s') \<and> (\<forall>j < CAM_SYNC_MAX_OBJS. row s' j = destroyed_row s i j) \<and>
    s' = s\<lparr>sync_table := sync_table s', bitmap := (bitmap s)[i := False]\<rparr> \<and> length (sync_table s') = CAM_SYNC_MAX_OBJS"
  unfolding cam_sync_destroy_def
  by (rule deinit_valid[OF assms(1) int_range_u32[OF assms(2,3), symmetric] assms(2-4)])

text \<open>destroying an active child strands its group: the counter of the group keeps counting the child, so that the group is not signalled
  however many of the remaining children are.\<close>

theorem destroy_strands_group:
  assumes "cam_ok s" and "is_group s g" and "c \<in> child_links s g"
  shows "\<exists>s1. cam_sync_destroy (int c) s = Some (Inr (), s1) \<and> cam_ok s1 \<and> child_links s1 g = child_links s g - {c} \<and>
    (\<forall>xs. ready s1 g xs \<longrightarrow> (\<exists>s2. signal_list ev xs s1 = Some s2 \<and> \<not> sr_signaled (row s2 g)))"
proof -
  obtain lost where inv: "cam_inv lost [] s" using assms(1) by (auto simp: cam_ok_def)
  have c: "c < CAM_SYNC_MAX_OBJS" "g \<in> set (sr_parents_list (row s c))" using assms(3) by (simp_all add: child_links_def)
  note lk = cam_inv_link[OF inv c]
  have v: "valid (row s c)" using lk(4) by simp
  obtain s1 where s1: "cam_sync_destroy (int c) s = Some (Inr (), s1)" "\<forall>j < CAM_SYNC_MAX_OBJS. row s1 j = destroyed_row s c j"
    "s1 = s\<lparr>sync_table := sync_table s1, bitmap := (bitmap s)[c := False]\<rparr>" "length (sync_table s1) = CAM_SYNC_MAX_OBJS"
    using destroy_valid[OF inv lk(8) c(1) v] by (elim exE conjE) (rule that, assumption+)
  have "c \<notin> set []" by simp
  note i1 = destroyed_inv[OF inv lk(8) c(1) v this s1(2-4)]
  have "row s1 g = destroyed_row s c g" using s1(2) lk(6) by blast
  then have g1: "is_group s1 g" using assms(2) lk(7) by (simp add: is_group_def destroyed_row_def)
  have cnt: "0 < count_list (sr_parents_list (row s c)) g" using c(2) by (simp add: count_list_0_iff neq0_conv[symmetric] del: neq0_conv)
  have l1: "child_links s1 g = child_links s g - {c}" using destroyed_links[OF inv s1(2)] lk(7) by metis
  have "\<exists>s2. signal_list ev xs s1 = Some s2 \<and> \<not> sr_signaled (row s2 g)" if rd: "ready s1 g xs" for xs
  proof -
    have "card (fst ` set xs) = length xs" using rd distinct_card[of "map fst xs"] by (simp add: ready_def)
    moreover have "card (fst ` set xs) \<le> card (child_links s1 g)" using rd by (intro card_mono) (auto simp: ready_def)
    ultimately have n: "length xs < unat (sr_remaining (row s1 g))" using cam_inv_count[OF i1 g1] cnt by simp
    obtain s2 where s2: "signal_list ev xs s1 = Some s2" "row s2 g = fold (hit_row (cam_sync_eventq s1)) (map snd xs) (row s1 g)"
      using signal_list_group[OF i1 g1 rd, of ev] by blast
    have "\<forall>st \<in> set (map snd xs). is_signaled st" using rd by (auto simp: ready_def)
    from cam_group.hits[OF group_row_ok[OF i1 g1] this, of "cam_sync_eventq s1", folded s2(2)] show ?thesis using n s2(1) by auto
  qed
  then show ?thesis using s1(1) i1 l1 by (auto simp: cam_ok_def)
qed

theorem destroy_strands_group_witness:
  "\<exists>s1 s2. cam_sync_destroy 1 demo = Some (Inr (), s1) \<and> signal_list 0 [] s1 = Some s2 \<and> \<not> sr_signaled (row s2 3)"
proof -
  have "is_group demo 3" "1 \<in> child_links demo 3" by (simp_all add: demo_is_group demo_links)
  then obtain s1 where "cam_sync_destroy (int 1) demo = Some (Inr (), s1)"
    "\<forall>xs. ready s1 3 xs \<longrightarrow> (\<exists>s2. signal_list 0 xs s1 = Some s2 \<and> \<not> sr_signaled (row s2 3))"
    using destroy_strands_group[OF demo_ok, of 3 1 0] by blast
  moreover have "ready s1 3 []" by (simp add: ready_def)
  ultimately show ?thesis by (metis of_nat_1)
qed

section \<open>Payloads and a race\<close>

text \<open>user space can be told that a group succeeded while the group is still waiting. After the first child of an active
  group was signalled with success, registering a payload on the group sends the event at once, with status success, although another child is active
  and the group is not complete. A callback registered at the same moment is kept until the group is complete.\<close>

theorem payload_early:
  assumes "cam_ok s" and "is_group s g" and "sr_state (row s g) = CAM_SYNC_STATE_ACTIVE" and "c \<in> child_links s g" and "d \<in> child_links s g" and "c \<noteq> d"
    and "sr_ref_cnt (row s c) = 1" and "ioctl_arg k 24 (ue_payload u) = Inr a" and "up_sync_obj a = int g" and "ue_kzalloc u"
  shows "\<exists>s1 s2 s3. cam_sync_signal (int c) CAM_SYNC_STATE_SIGNALED_SUCCESS ev s = Some (Inr (), s1) \<and>
    cam_sync_handle_register_user_payload u k s1 = Some (Inr (), s2) \<and>
    events s2 = events s1 @ [sync_event (version s1) g CAM_SYNC_STATE_SIGNALED_SUCCESS CAM_SYNC_COMMON_REG_PAYLOAD_EVENT (up_payload a)] \<and>
    sr_state (row s2 d) = CAM_SYNC_STATE_ACTIVE \<and> \<not> sr_signaled (row s2 g) \<and>
    cam_sync_register_callback True (Some f) x (int g) s1 = Some (Inr (), s3) \<and> work_queue s3 = work_queue s1 \<and> called s3 = called s1"
proof -
  obtain lost where inv: "cam_inv lost [] s" using assms(1) by (auto simp: cam_ok_def)
  have c: "c < CAM_SYNC_MAX_OBJS" "g \<in> set (sr_parents_list (row s c))" and d: "d < CAM_SYNC_MAX_OBJS" "g \<in> set (sr_parents_list (row s d))"
    using assms(4,5) by (simp_all add: child_links_def)
  note lc = cam_inv_link[OF inv c] and ld = cam_inv_link[OF inv d]
  have suc: "is_signaled CAM_SYNC_STATE_SIGNALED_SUCCESS" by simp
  have "card {c, d} \<le> card (child_links s g)" using assms(4,5) by (intro card_mono) auto
  then have n: "2 \<le> unat (sr_remaining (row s g))" using cam_inv_count[OF inv assms(2)] assms(6) by simp
  then have n1: "sr_remaining (row s g) \<noteq> 1" by auto
  obtain s1 where s1: "cam_sync_signal (int c) CAM_SYNC_STATE_SIGNALED_SUCCESS ev s = Some (Inr (), s1)" "cam_inv lost [] s1"
    and r1: "\<And>j. row s1 j = (if j = c then row (fired c CAM_SYNC_STATE_SIGNALED_SUCCESS ev s) c
       else if j \<in> set (sr_parents_list (row s c)) then hit_row (cam_sync_eventq s) CAM_SYNC_STATE_SIGNALED_SUCCESS (row s j) else row s j)"
    by (rule signal_effect[OF inv c(1) lc(3,4) assms(7) suc, of ev]) (rule that, assumption+)
  have rg: "row s1 g = hit_row (cam_sync_eventq s) CAM_SYNC_STATE_SIGNALED_SUCCESS (row s g)" using c(2) lc(7) by (simp add: r1)
  have "d \<notin> set (sr_parents_list (row s c))" using cam_inv_link(1)[OF inv c(1), of d] ld(3) by (auto simp: is_group_def)
  then have rd: "row s1 d = row s d" using assms(6) by (simp add: r1)
  have stg: "sr_state (row s1 g) = CAM_SYNC_STATE_SIGNALED_SUCCESS" by (simp add: rg assms(3) comb_state_def)
  have rem: "sr_remaining (row s1 g) \<noteq> 0" using n1 by (simp add: rg)
  have "is_group s1 g" using assms(2) stg rg by (simp add: is_group_def cam_consts(4,6))
  then have sg: "\<not> sr_signaled (row s1 g)" using group_ok_fin[OF group_row_ok[OF s1(2)]] rem by (simp add: unat_eq_zero)
  have grng: "in_range (int g)" "0 < g" "g < CAM_SYNC_MAX_OBJS" using lc(5,6) by (simp_all add: in_range_def)
  have reg: "cam_sync_handle_register_user_payload u k s1 =
      Some (Inr (), s1\<lparr>events := events s1 @ [sync_event (version s1) g CAM_SYNC_STATE_SIGNALED_SUCCESS CAM_SYNC_COMMON_REG_PAYLOAD_EVENT (up_payload a)]\<rparr>)"
    using assms(8-10) s1(2) grng stg int_range_u32[OF grng(2,3)]
    by (simp add: cam_sync_handle_register_user_payload_def Let_def send_event_eq is_signaled_valid[OF suc])
  moreover have "\<exists>s3. cam_sync_register_callback True (Some f) x (int g) s1 = Some (Inr (), s3) \<and> work_queue s3 = work_queue s1 \<and> called s3 = called s1"
    using grng s1(2) stg rem by (simp add: cam_sync_register_callback_def Let_def is_signaled_valid[OF suc])
  moreover have "sr_state (row s1 d) = CAM_SYNC_STATE_ACTIVE" using rd ld(4) by simp
  ultimately show ?thesis using s1(1) sg by fastforce
qed

definition demo_user :: user_env where
  "demo_user = \<lparr>ue_info = None, ue_signal = None, ue_merge = None, ue_objs = None,
     ue_payload = Some \<lparr>up_sync_obj = 3, up_payload = (11, 12)\<rparr>, ue_wait = None, ue_copy_to_user = True, ue_kzalloc = True,
     ue_kz = (\<lambda>_. True), ue_alloc = quiet, ue_others = (\<lambda>s. s)\<rparr>"

theorem payload_early_witness:
  "\<exists>s1 s2. cam_sync_signal 1 CAM_SYNC_STATE_SIGNALED_SUCCESS 0 demo = Some (Inr (), s1) \<and>
    cam_sync_handle_register_user_payload demo_user \<lparr>io_id = 4, io_size = 24, io_result = Inr (), io_ioctl_ptr = 4096\<rparr> s1 = Some (Inr (), s2) \<and>
    events s2 \<noteq> events s1 \<and> sr_state (row s2 2) = CAM_SYNC_STATE_ACTIVE"
proof -
  have h: "is_group demo 3" "1 \<in> child_links demo 3" "2 \<in> child_links demo 3" "sr_state (row demo 3) = CAM_SYNC_STATE_ACTIVE" "sr_ref_cnt (row demo 1) = 1"
    by (simp_all add: demo_is_group demo_links) (simp_all add: demo_rows demo_row_def demo_group_def)
  have a: "ioctl_arg \<lparr>io_id = 4, io_size = 24, io_result = Inr (), io_ioctl_ptr = 4096\<rparr> 24 (ue_payload demo_user) = Inr \<lparr>up_sync_obj = 3, up_payload = (11, 12)\<rparr>"
    "ue_kzalloc demo_user" by (simp_all add: ioctl_arg_def demo_user_def)
  show ?thesis using payload_early[OF demo_ok h(1,4,2,3) _ h(5) a(1) _ a(2), of 0] by fastforce
qed


lemma cam_inv_lose: "cam_inv lost (p # pend) s \<Longrightarrow> cam_inv (lost(p := Suc (lost p))) pend s"
  by (auto simp: cam_inv_def)

text \<open>C38: a signal can complete the wrong group. A thread that signals fence \<open>c\<close> takes the group \<open>g\<close> off its list and drops the lock of
  the row before it takes that of the group. If meanwhile \<open>g\<close> is destroyed and its row is used for a merge of \<open>c\<close> with an active fence \<open>d\<close>, the
  late notification is counted for the new group: it is signalled with success although \<open>d\<close> is active and still linked to it.\<close>

theorem signal_destroy_race:
  assumes "cam_ok s" and "c \<in> child_links s g" and "sr_parents_list (row s c) = [g]" and "sr_ref_cnt (row s c) = 1"
    and "in_range (int d)" and "c \<noteq> d" and "sr_type (row s d) = CAM_SYNC_TYPE_INDV" and "sr_state (row s d) = CAM_SYNC_STATE_ACTIVE"
    and "\<forall>i < g. bitmap s ! i"
  shows "\<exists>s1 s2 s3 s4. signal_row (int c) CAM_SYNC_STATE_SIGNALED_SUCCESS ev s = Some (Inr [g], s1) \<and>
    cam_sync_destroy (int g) s1 = Some (Inr (), s2) \<and>
    cam_sync_merge quiet 1 (\<lambda>_. True) [int c, int d] s2 = Some (Inr (int g), s3) \<and>
    signal_parent CAM_SYNC_STATE_SIGNALED_SUCCESS ev g s3 = Some s4 \<and>
    sr_signaled (row s4 g) \<and> sr_state (row s4 g) = CAM_SYNC_STATE_SIGNALED_SUCCESS \<and>
    d \<in> child_links s4 g \<and> sr_state (row s4 d) = CAM_SYNC_STATE_ACTIVE"
proof -
  let ?S = CAM_SYNC_STATE_SIGNALED_SUCCESS
  obtain lost where inv: "cam_inv lost [] s" using assms(1) by (auto simp: cam_ok_def)
  have c: "c < CAM_SYNC_MAX_OBJS" "g \<in> set (sr_parents_list (row s c))" using assms(2) by (simp_all add: child_links_def)
  note lc = cam_inv_link[OF inv c]
  have d: "0 < d" "d < CAM_SYNC_MAX_OBJS" "d \<noteq> g" using in_range_nat[OF assms(5)] lc(1) assms(7) by (auto simp: is_group_def)
  have len: "length (sync_table s) = CAM_SYNC_MAX_OBJS" "length (bitmap s) = CAM_SYNC_MAX_OBJS" using cam_inv_lengths[OF inv] by simp_all
  have cl: "c < length (sync_table s)" using c len by simp
  define s1 where "s1 = fired c ?S ev s"
  have crng: "in_range (int c)" using c(1) lc(8) by (simp add: in_range_def)
  have e1: "signal_row (int c) ?S ev s = Some (Inr [g], s1)"
    using signal_row_eq[OF inv, of "int c" ?S ev] crng lc(3,4) assms(3,4) by (simp add: Let_def s1_def)
  have i1: "cam_inv (lost(g := Suc (lost g))) [] s1"
    using cam_inv_lose[of lost g "[]" s1] fired_inv[OF inv c(1) lc(3,4), of ?S ev] assms(3) by (simp add: s1_def)
  have r1: "row s1 j = row s j" if "j \<noteq> c" for j using cl that by (simp add: s1_def row_fired)
  have c1: "sr_state (row s1 c) = ?S" "sr_type (row s1 c) = CAM_SYNC_TYPE_INDV" using cl lc(3) by (simp_all add: s1_def row_fired told_row_def)
  have v: "valid (row s1 g)" using r1[of g] lc(1,7) by (simp add: is_group_def)
  obtain s2 where e2: "cam_sync_destroy (int g) s1 = Some (Inr (), s2)" and rows2: "\<forall>j < CAM_SYNC_MAX_OBJS. row s2 j = destroyed_row s1 g j"
    and s2: "s2 = s1\<lparr>sync_table := sync_table s2, bitmap := (bitmap s1)[g := False]\<rparr>" "length (sync_table s2) = CAM_SYNC_MAX_OBJS"
    using destroy_valid[OF i1 lc(5,6) v] by (elim exE conjE) (rule that, assumption+)
  have "g \<notin> set []" by simp
  note i2 = destroyed_inv[OF i1 lc(5,6) v this rows2 s2]
  have b2: "bitmap s2 = (bitmap s)[g := False]" by (subst s2(1)) (simp add: s1_def)
  have free: "find_first_zero (bitmap s2) = g"
    using assms(9) len lc(6) by (intro find_first_zero_eqI) (simp_all add: b2)
  have st2: "sr_state (row s2 c) = ?S" "sr_type (row s2 c) = CAM_SYNC_TYPE_INDV" "sr_state (row s2 d) = CAM_SYNC_STATE_ACTIVE" "sr_type (row s2 d) = CAM_SYNC_TYPE_INDV"
    using rows2 c(1) d lc(7) c1 r1[of d] assms(6-8) by (simp_all add: destroyed_row_def)
  let ?s3 = "merged_table g [c, d] s2"
  have suc: "is_signaled ?S" by simp
  have e3: "cam_sync_merge quiet 1 (\<lambda>_. True) [int c, int d] s2 = Some (Inr (int g), ?s3)" and i3: "\<exists>l. cam_inv l [] ?s3"
    using merge_cases[OF i2, of 1 "\<lambda>_. True" "[int c, int d]"] free lc(6) assms(5,6) crng st2 is_signaled_valid[OF suc] by (auto)
  have act: "active_of s2 [c, d] = [d]" using st2 by (simp add: active_of_def cam_consts)
  have r3: "row ?s3 j = (if j = g then group_row g [c, d] s2 else if j = d then (row s2 d)\<lparr>sr_parents_list := sr_parents_list (row s2 d) @ [g]\<rparr> else row s2 j)"
    if "j < CAM_SYNC_MAX_OBJS" for j
    using that s2(2) by (simp add: row_merged act)
  have g3: "sr_state (row ?s3 g) = CAM_SYNC_STATE_ACTIVE" "sr_remaining (row ?s3 g) = 1" "is_group ?s3 g"
    using st2 act lc(6) by (simp_all add: r3 group_row_def Let_def bad_def is_group_def cam_consts)
  obtain l where l: "cam_inv l [] ?s3" using i3 by blast
  have wf3: "row_wf g (row ?s3 g)" using cam_inv_row_wf[OF l lc(6)] .
  have g3l: "g < length (sync_table ?s3)" "valid (row ?s3 g)" using s2(2) lc(6) g3(1) by simp_all
  let ?s4 = "told g ?S ev (counted ?S g ?s3)"
  have e4: "signal_parent ?S ev g ?s3 = Some ?s4"
    using signal_parent_eq[OF g3l(1) wf3 g3l(2) suc, of ev] g3 by (simp add: comb_state_def)
  have r4: "row ?s4 j = (if j = g then told_row (cam_sync_eventq ?s3) ((row ?s3 g)\<lparr>sr_remaining := 0, sr_state := ?S\<rparr>) else row ?s3 j)" for j
    using g3l(1) g3(1,2) by (simp add: row_told counted_def row_upd_row comb_state_def)
  have "sr_signaled (row ?s4 g)" "sr_state (row ?s4 g) = ?S" by (simp_all add: r4 told_row_def)
  moreover have "d \<in> child_links ?s4 g" "sr_state (row ?s4 d) = CAM_SYNC_STATE_ACTIVE" using d st2(3) by (simp_all add: child_links_def r4 r3)
  ultimately show ?thesis using e1 e2 e3 e4 by blast
qed

theorem signal_destroy_race_witness:
  "\<exists>s1 s2 s3 s4. signal_row 1 CAM_SYNC_STATE_SIGNALED_SUCCESS 0 demo = Some (Inr [3], s1) \<and> cam_sync_destroy 3 s1 = Some (Inr (), s2) \<and>
    cam_sync_merge quiet 1 (\<lambda>_. True) [1, 2] s2 = Some (Inr 3, s3) \<and> signal_parent CAM_SYNC_STATE_SIGNALED_SUCCESS 0 3 s3 = Some s4 \<and>
    sr_signaled (row s4 3) \<and> sr_state (row s4 2) = CAM_SYNC_STATE_ACTIVE"
proof -
  have h: "1 \<in> child_links demo 3" "sr_parents_list (row demo 1) = [3]" "sr_ref_cnt (row demo 1) = 1" "in_range (int 2)" "(1 :: nat) \<noteq> 2"
    "sr_type (row demo 2) = CAM_SYNC_TYPE_INDV" "sr_state (row demo 2) = CAM_SYNC_STATE_ACTIVE" "\<forall>i < 3. bitmap demo ! i"
    by (simp_all add: demo_links demo_rows demo_row_def demo_bits in_range_def CAM_SYNC_MAX_OBJS_def)
  show ?thesis using signal_destroy_race[OF demo_ok h, of 0] by fastforce
qed


section \<open>Closing the device\<close>

text \<open>A fence that closing the device signals: active, and with exactly one reference.\<close>

definition closes :: "sync_table_row \<Rightarrow> bool" where
  "closes r \<longleftrightarrow> sr_state r = CAM_SYNC_STATE_ACTIVE \<and> sr_ref_cnt r = 1"

abbreviation indv :: "sync_device \<Rightarrow> nat \<Rightarrow> bool" where
  "indv s i \<equiv> i < CAM_SYNC_MAX_OBJS \<and> valid (row s i) \<and> sr_type (row s i) = CAM_SYNC_TYPE_INDV"

text \<open>One round of the first loop, seen from the individual fences.\<close>

lemma close_signal_step:
  assumes inv: "cam_inv lost [] s" and i: "i < CAM_SYNC_MAX_OBJS" and act: "sr_state (row s i) = CAM_SYNC_STATE_ACTIVE"
  obtains r s' where "cam_sync_signal (int i) CAM_SYNC_STATE_SIGNALED_ERROR CAM_SYNC_COMMON_RELEASE_EVENT s = Some (r, s')" "cam_inv lost [] s'"
    "called s' = called s" "open_cnt s' = open_cnt s" "\<And>j. indv s j \<Longrightarrow> j \<noteq> i \<Longrightarrow> row s' j = row s j" "\<And>j. indv s j \<Longrightarrow> indv s' j"
    "\<And>j. indv s j \<Longrightarrow> queued j s' = queued j s @ (if j = i \<and> closes (row s i) then with_status CAM_SYNC_STATE_SIGNALED_ERROR (sr_callback_list (row s i)) else [])"
proof -
  let ?E = CAM_SYNC_STATE_SIGNALED_ERROR
  have wf: "row_wf i (row s i)" using cam_inv_row_wf[OF inv i] .
  have pos: "0 < i" using inv act by (auto simp: cam_inv_def intro: gr0I)
  then have rng: "in_range (int i)" using i by (simp add: in_range_def)
  have l: "i < length (sync_table s)" using cam_inv_lengths[OF inv] i by simp
  consider (grp) "sr_type (row s i) = CAM_SYNC_TYPE_GROUP" | (ref) "sr_type (row s i) = CAM_SYNC_TYPE_INDV" "sr_ref_cnt (row s i) \<noteq> 1"
    | (one) "sr_type (row s i) = CAM_SYNC_TYPE_INDV" "sr_ref_cnt (row s i) = 1" using wf by (auto simp: row_wf_def)
  then show thesis
  proof cases
    case grp
    then have "cam_sync_signal (int i) ?E CAM_SYNC_COMMON_RELEASE_EVENT s = Some (Inl EINVAL, s)"
      using signal_row_eq[OF inv, of "int i"] by (simp add: cam_sync_signal_def Let_def)
    then show thesis by (rule that[OF _ inv refl refl]) (use grp in auto)
  next
    case ref
    let ?s' = "upd_row i (\<lambda>r. r\<lparr>sr_ref_cnt := sr_ref_cnt r - 1\<rparr>) s"
    have "cam_sync_signal (int i) ?E CAM_SYNC_COMMON_RELEASE_EVENT s = Some (Inr (), ?s')"
      using signal_row_eq[OF inv, of "int i"] ref act rng by (simp add: cam_sync_signal_def Let_def)
    moreover have "cam_inv lost [] ?s'" by (rule cam_inv_upd_local[OF inv i]) (simp_all add: row_wf_local wf)
    ultimately show thesis by (rule that) (use l ref(2) in \<open>auto simp: row_upd_row closes_def\<close>)
  next
    case one
    have e: "is_signaled ?E" by simp
    obtain s' where s': "cam_sync_signal (int i) ?E CAM_SYNC_COMMON_RELEASE_EVENT s = Some (Inr (), s')" "cam_inv lost [] s'"
      and r: "\<And>j. row s' j = (if j = i then row (fired i ?E CAM_SYNC_COMMON_RELEASE_EVENT s) i
       else if j \<in> set (sr_parents_list (row s i)) then hit_row (cam_sync_eventq s) ?E (row s j) else row s j)"
      and f: "cam_sync_eventq s' = cam_sync_eventq s" "version s' = version s" "called s' = called s" "bitmap s' = bitmap s" "open_cnt s' = open_cnt s"
      and q: "\<And>g. queued g s' = queued g s @
       (if g = i then with_status ?E (sr_callback_list (row s i))
        else if g \<in> set (sr_parents_list (row s i)) \<and> sr_remaining (row s g) = 1
        then with_status (comb_state (sr_state (row s g)) ?E) (sr_callback_list (row s g)) else [])"
      by (rule signal_effect[OF inv i one(1) act one(2) e]) (rule that, assumption+)
    have np: "indv s j \<Longrightarrow> j \<notin> set (sr_parents_list (row s i))" for j using cam_inv_link(1)[OF inv i, of j] by (auto simp: is_group_def)
    have ri: "valid (row s' i)" "sr_type (row s' i) = CAM_SYNC_TYPE_INDV" using l one(1) is_signaled_valid[OF e] by (simp_all add: r row_fired told_row_def)
    show thesis
    proof (rule that[OF s' f(3,5)])
      show "indv s j \<Longrightarrow> j \<noteq> i \<Longrightarrow> row s' j = row s j" for j using np[of j] by (simp add: r)
      show "indv s j \<Longrightarrow> indv s' j" for j using np[of j] ri by (cases "j = i") (simp_all add: r)
      show "indv s j \<Longrightarrow> queued j s' = queued j s @ (if j = i \<and> closes (row s i) then with_status ?E (sr_callback_list (row s i)) else [])" for j
        using np[of j] one(2) act by (simp add: q closes_def)
    qed
  qed
qed

lemma close_signal_effect:
  assumes "cam_inv lost [] (snd rs)" and "distinct is'" and "\<forall>i \<in> set is'. i < CAM_SYNC_MAX_OBJS"
  shows "\<exists>rs'. close_signal is' rs = Some rs' \<and> cam_inv lost [] (snd rs') \<and> called (snd rs') = called (snd rs) \<and> open_cnt (snd rs') = open_cnt (snd rs) \<and>
    (\<forall>j. indv (snd rs) j \<longrightarrow> queued j (snd rs') = queued j (snd rs) @
       (if j \<in> set is' \<and> closes (row (snd rs) j) then with_status CAM_SYNC_STATE_SIGNALED_ERROR (sr_callback_list (row (snd rs) j)) else []))"
  using assms
proof (induction is' arbitrary: rs)
  case (Cons i is')
  let ?s = "snd rs"
  have i: "i < CAM_SYNC_MAX_OBJS" and d: "distinct is'" "i \<notin> set is'" "\<forall>j \<in> set is'. j < CAM_SYNC_MAX_OBJS" using Cons.prems by auto
  show ?case
  proof (cases "sr_state (row ?s i) = CAM_SYNC_STATE_ACTIVE")
    case True
    obtain r s1 where s1: "cam_sync_signal (int i) CAM_SYNC_STATE_SIGNALED_ERROR CAM_SYNC_COMMON_RELEASE_EVENT ?s = Some (r, s1)" "cam_inv lost [] s1"
      "called s1 = called ?s" "open_cnt s1 = open_cnt ?s" "\<And>j. indv ?s j \<Longrightarrow> j \<noteq> i \<Longrightarrow> row s1 j = row ?s j" "\<And>j. indv ?s j \<Longrightarrow> indv s1 j"
      "\<And>j. indv ?s j \<Longrightarrow> queued j s1 = queued j ?s @ (if j = i \<and> closes (row ?s i) then with_status CAM_SYNC_STATE_SIGNALED_ERROR (sr_callback_list (row ?s i)) else [])"
      by (rule close_signal_step[OF Cons.prems(1) i True]) (rule that, assumption+)
    obtain rs' where rs': "close_signal is' (r, s1) = Some rs'" "cam_inv lost [] (snd rs')" "called (snd rs') = called s1" "open_cnt (snd rs') = open_cnt s1"
      and q: "\<And>j. indv s1 j \<Longrightarrow> queued j (snd rs') = queued j s1 @
       (if j \<in> set is' \<and> closes (row s1 j) then with_status CAM_SYNC_STATE_SIGNALED_ERROR (sr_callback_list (row s1 j)) else [])"
      using Cons.IH[of "(r, s1)"] s1(2) d by auto
    have "queued j (snd rs') = queued j ?s @
       (if j \<in> set (i # is') \<and> closes (row ?s j) then with_status CAM_SYNC_STATE_SIGNALED_ERROR (sr_callback_list (row ?s j)) else [])"
      if j: "indv ?s j" for j
      using q[OF s1(6)[OF j]] s1(7)[OF j] s1(5)[OF j] d(2) by (cases "j = i") auto
    then show ?thesis using rs' s1 True i Cons.prems(1) by (intro exI[of _ rs']) simp
  next
    case False
    then show ?thesis using Cons.IH[OF Cons.prems(1) d(1,3)] i Cons.prems(1) by (auto simp: closes_def)
  qed
qed simp

lemma close_destroy_effect:
  assumes "cam_inv lost [] (snd rs)" and "\<forall>i \<in> set is'. 0 < i \<and> i < CAM_SYNC_MAX_OBJS"
  shows "\<exists>rs' lost'. close_destroy is' rs = Some rs' \<and> cam_inv lost' [] (snd rs') \<and> called (snd rs') = called (snd rs) \<and>
    work_queue (snd rs') = work_queue (snd rs) \<and> open_cnt (snd rs') = open_cnt (snd rs) \<and>
    (\<forall>j < CAM_SYNC_MAX_OBJS. valid (row (snd rs') j) \<longrightarrow> valid (row (snd rs) j) \<and> j \<notin> set is')"
  using assms
proof (induction is' arbitrary: rs lost)
  case (Cons i is')
  have i: "0 < i" "i < CAM_SYNC_MAX_OBJS" and rest: "\<forall>j \<in> set is'. 0 < j \<and> j < CAM_SYNC_MAX_OBJS" using Cons.prems by auto
  show ?case
  proof (cases "valid (row (snd rs) i)")
    case True
    obtain s1 where s1: "cam_sync_destroy (int i) (snd rs) = Some (Inr (), s1)" "\<forall>j < CAM_SYNC_MAX_OBJS. row s1 j = destroyed_row (snd rs) i j"
      "s1 = (snd rs)\<lparr>sync_table := sync_table s1, bitmap := (bitmap (snd rs))[i := False]\<rparr>" "length (sync_table s1) = CAM_SYNC_MAX_OBJS"
      using destroy_valid[OF Cons.prems(1) i True] by (elim exE conjE) (rule that, assumption+)
    have "i \<notin> set []" by simp
    note i1 = destroyed_inv[OF Cons.prems(1) i True this s1(2-4)]
    have f1: "called s1 = called (snd rs)" "work_queue s1 = work_queue (snd rs)" "open_cnt s1 = open_cnt (snd rs)"
      by (subst s1(3), simp)+
    obtain rs' lost' where rs': "close_destroy is' (Inr (), s1) = Some rs'" "cam_inv lost' [] (snd rs')" "called (snd rs') = called s1"
      "work_queue (snd rs') = work_queue s1" "open_cnt (snd rs') = open_cnt s1"
      "\<forall>j < CAM_SYNC_MAX_OBJS. valid (row (snd rs') j) \<longrightarrow> valid (row s1 j) \<and> j \<notin> set is'"
      using Cons.IH[of _ "(Inr (), s1)", unfolded snd_conv, OF i1 rest] by blast
    have "valid (row s1 j) \<longrightarrow> valid (row (snd rs) j) \<and> j \<noteq> i" if "j < CAM_SYNC_MAX_OBJS" for j
      using s1(2) that by (auto simp: destroyed_row_def zero_row_def cam_consts)
    then show ?thesis using rs' s1(1) f1 True i Cons.prems(1) by (intro exI[of _ rs'] exI[of _ lost']) auto
  next
    case False
    then show ?thesis using Cons.IH[OF Cons.prems(1) rest] i Cons.prems(1) by auto
  qed
qed auto

text \<open>The callbacks of row \<open>i\<close> that have run.\<close>

abbreviation ran :: "nat \<Rightarrow> sync_device \<Rightarrow> sync_callback_info list" where
  "ran i s \<equiv> filter (\<lambda>cb. cb_sync_obj cb = i) (called s)"

text \<open>when the last user closes the device the table is empty again: no row is in use, only bit 0 of the bitmap is set, no work is left. Of
  the callbacks still registered on an individual fence, exactly those of active fences with one reference have
  been called, with an error; the callbacks of an active fence with no reference, or with more than one, are never called, although the code
  means to signal all active objects.\<close>

theorem close_correct:
  assumes "cam_ok s" and "open_cnt s = 1"
  shows "\<exists>rc s'. cam_sync_close s = Some (rc, s') \<and> (\<forall>i < CAM_SYNC_MAX_OBJS. \<not> valid (row s' i) \<and> (bitmap s' ! i \<longleftrightarrow> i = 0)) \<and>
    work_queue s' = [] \<and> open_cnt s' = 0 \<and> \<not> cam_sync_eventq s' \<and>
    (\<forall>i. indv s i \<longrightarrow> ran i s' = ran i s @ queued i s @
      (if closes (row s i) then with_status CAM_SYNC_STATE_SIGNALED_ERROR (sr_callback_list (row s i)) else []))"
proof -
  let ?s0 = "s\<lparr>open_cnt := open_cnt s - 1\<rparr>" let ?is = "[1..<CAM_SYNC_MAX_OBJS]"
  obtain lost where inv: "cam_inv lost [] s" using assms(1) by (auto simp: cam_ok_def)
  have i0: "cam_inv lost [] (snd (Inr () :: errno + unit, ?s0))" using inv by simp
  obtain r s1 where s1: "close_signal ?is (Inr (), ?s0) = Some (r, s1)" "cam_inv lost [] s1" "called s1 = called s" "open_cnt s1 = 0"
    and q: "\<And>j. indv s j \<Longrightarrow> queued j s1 = queued j s @
       (if j \<in> set ?is \<and> closes (row s j) then with_status CAM_SYNC_STATE_SIGNALED_ERROR (sr_callback_list (row s j)) else [])"
    using close_signal_effect[OF i0, of ?is] assms(2) by fastforce
  note fl = flush_fields[of s1]
  have i1: "cam_inv lost [] (snd (r, flush_workqueue s1))" using s1(2) by simp
  have rng: "\<forall>i \<in> set ?is. 0 < i \<and> i < CAM_SYNC_MAX_OBJS" by simp
  obtain r2 s2 lost' where s2: "close_destroy ?is (r, flush_workqueue s1) = Some (r2, s2)" "cam_inv lost' [] s2" "called s2 = called s @ work_queue s1"
    "work_queue s2 = []" "open_cnt s2 = 0" "\<forall>j < CAM_SYNC_MAX_OBJS. valid (row s2 j) \<longrightarrow> j \<notin> set ?is"
    using close_destroy_effect[OF i1 rng] fl s1(3,4) by fastforce
  let ?s' = "s2\<lparr>cam_sync_eventq := False\<rparr>"
  have "cam_sync_close s = Some (r2, ?s')" using assms(2) s1(1) s2(1) by (simp add: cam_sync_close_def)
  moreover have "\<not> valid (row ?s' i) \<and> (bitmap ?s' ! i \<longleftrightarrow> i = 0)" if "i < CAM_SYNC_MAX_OBJS" for i
    using s2(2,6) that by (cases "i = 0") (auto simp: cam_inv_def)
  moreover have "ran i ?s' = ran i s @ queued i s @ (if closes (row s i) then with_status CAM_SYNC_STATE_SIGNALED_ERROR (sr_callback_list (row s i)) else [])"
    if "indv s i" for i
  proof -
    have "0 < i" using that inv by (auto simp: cam_inv_def intro: gr0I)
    then show ?thesis using that q[OF that] s2(3) by simp
  qed
  ultimately show ?thesis using s2(4,5) by (intro exI[of _ r2] exI[of _ ?s']) simp
qed

theorem close_correct_witness:
  "\<exists>rc s'. cam_sync_close demo = Some (rc, s') \<and> \<not> valid (row s' 3) \<and> ran 1 s' = []"
proof -
  have o: "open_cnt demo = 1" "work_queue demo = []" "called demo = []" by (simp_all add: demo_def)
  have i: "indv demo 1" "sr_callback_list (row demo 1) = []" by (simp_all add: demo_rows demo_row_def CAM_SYNC_MAX_OBJS_def)
  have m: "3 < CAM_SYNC_MAX_OBJS" by (simp add: CAM_SYNC_MAX_OBJS_def)
  obtain rc s' where "cam_sync_close demo = Some (rc, s')" "\<not> valid (row s' 3)"
    "ran 1 s' = ran 1 demo @ queued 1 demo @ (if closes (row demo 1) then with_status CAM_SYNC_STATE_SIGNALED_ERROR (sr_callback_list (row demo 1)) else [])"
    using close_correct[OF demo_ok o(1)] i(1) m by blast
  then show ?thesis using o i(2) by (auto simp: with_status_def)
qed

end
