(* ===== verification/Mmrm.thy ===== *)
theory Mmrm
  imports Fence_Interfaces
begin

unbundle bit_operations_syntax

text \<open>
  The multimedia resource manager (\<^verbatim>\<open>mmrm-driver/driver/src\<close>): admission of the clock rates of camera, display,
  video and vision cores against one budget of peak current. This theory holds the data and the operations:
  fixed-point arithmetic, the tables of rates, power and current that a registration computes, the check of a
  request against the aggregated current, throttling, votes of CRM clients, and the exported functions.

  The kernel headers \<^verbatim>\<open>msm_mmrm.h\<close> and \<^verbatim>\<open>qcom,rpmh-regulator-levels.h\<close> are not in the repository: their constants
  are the record \<open>mmrm_uapi\<close>. The clock framework and the notifiers of the clients are the record \<open>clk_env\<close>; the answer to
  a call may depend on the calls before it, which the state keeps as a log. Whether an allocation succeeds is an argument.
  A \<open>long\<close> is an integer, \<open>int\<close> results of calls are integers, and other C integers have their width.
\<close>

section \<open>Data\<close>

record mmrm_uapi =
  RPMH_REGULATOR_LEVEL_LOW_SVS :: int
  RPMH_REGULATOR_LEVEL_SVS :: int
  RPMH_REGULATOR_LEVEL_SVS_L1 :: int
  RPMH_REGULATOR_LEVEL_NOM :: int
  RPMH_REGULATOR_LEVEL_TURBO :: int
  MMRM_CLIENT_CLOCK :: u32
  MMRM_CLIENT_PRIOR_HIGH :: u32
  MMRM_CLIENT_DATA_FLAG_RESERVE_ONLY :: u32
  MMRM_CRM_SW_DRV :: u32
  MMRM_CLK_CLIENT_NAME_SIZE :: nat
  MMRM_CLIENT_DOMAIN_CAMERA :: u32
  MMRM_CLIENT_DOMAIN_CVP :: u32
  MMRM_CLIENT_DOMAIN_DISPLAY :: u32
  MMRM_CLIENT_DOMAIN_VIDEO :: u32

definition MMRM_MAX_THROTTLE_CLIENTS :: nat where "MMRM_MAX_THROTTLE_CLIENTS = 5"

definition CLK_MGR_SCHEME_SW :: u32 where "CLK_MGR_SCHEME_SW = 0"

definition CLK_MGR_SCHEME_CXIPEAK :: u32 where "CLK_MGR_SCHEME_CXIPEAK = 1"

definition MMRM_VDD_LEVEL_LOW_SVS :: u32 where "MMRM_VDD_LEVEL_LOW_SVS = 0"

definition MMRM_VDD_LEVEL_NOM :: nat where "MMRM_VDD_LEVEL_NOM = 3"

definition MMRM_VDD_LEVEL_MAX :: nat where "MMRM_VDD_LEVEL_MAX = 5"

definition mmrm_sw_vdd_corner :: "mmrm_uapi \<Rightarrow> int list" where
  "mmrm_sw_vdd_corner u = [RPMH_REGULATOR_LEVEL_LOW_SVS u, RPMH_REGULATOR_LEVEL_SVS u, RPMH_REGULATOR_LEVEL_SVS_L1 u,
     RPMH_REGULATOR_LEVEL_NOM u, RPMH_REGULATOR_LEVEL_TURBO u]"

definition CLK_RATE_STEP :: int where "CLK_RATE_STEP = 1000000"

definition MAX_HW_DRV_INSTANCES :: u32 where "MAX_HW_DRV_INSTANCES = 6"

definition MAX_POWER_STATES :: u32 where "MAX_POWER_STATES = 5"

definition LONG_MAX :: int where "LONG_MAX = 2 ^ 63 - 1"

datatype clk_ptr = ClkNull | ClkErr | Clk nat

fun clk_ok :: "clk_ptr \<Rightarrow> bool" where
  "clk_ok (Clk _) = True"
| "clk_ok _ = False"

record mmrm_client =
  client_uid :: u32
  client_type :: u32

record mmrm_client_data =
  cd_num_hw_blocks :: u32
  cd_flags :: u32
  cd_drv_type :: u32
  cd_crm_drv_idx :: u32
  cd_pwr_st :: u32

record mmrm_client_res_value =
  rv_min :: u64
  rv_cur :: u64
  rv_max :: u64

record mmrm_clk_client_desc =
  cc_client_domain :: u32
  cc_client_id :: u32
  cc_name :: string
  cc_clk :: clk_ptr
  cc_hw_drv_instances :: u32
  cc_num_pwr_states :: u32

record mmrm_client_desc =
  md_client_type :: u32
  md_desc :: mmrm_clk_client_desc
  md_priority :: u32
  md_pvt_data :: u64
  md_notifier_callback_fn :: "nat option"

record notifier_val_chng =
  nv_old_val :: u64
  nv_new_val :: u64
  nv_pvt_data :: u64

text \<open>Calls out of the driver, in order.\<close>

datatype mmrm_event =
    Ev_set_rate clk_ptr u64
  | Ev_crm_set_rate clk_ptr u32 u32 u64
  | Ev_notify nat notifier_val_chng

record clk_env =
  clk_round_rate :: "clk_ptr \<Rightarrow> u64 \<Rightarrow> int"
  qcom_clk_get_voltage :: "clk_ptr \<Rightarrow> u64 \<Rightarrow> int"
  clk_set_rate :: "mmrm_event list \<Rightarrow> clk_ptr \<Rightarrow> u64 \<Rightarrow> int"
  qcom_clk_crm_set_rate :: "mmrm_event list \<Rightarrow> clk_ptr \<Rightarrow> u32 \<Rightarrow> u32 \<Rightarrow> u64 \<Rightarrow> int"
  notifier_cb_fn :: "mmrm_event list \<Rightarrow> nat \<Rightarrow> notifier_val_chng \<Rightarrow> int"

record mmrm_sw_clk_client_tbl_entry =
  te_name :: string
  te_clk :: clk_ptr
  te_pri :: u32
  te_pvt_data :: u64
  te_notifier_cb_fn :: "nat option"
  te_clk_src_id :: u32
  te_max_num_hw_blocks :: u32
  te_freq :: "u64 list"
  te_dyn_pwr :: "u32 list"
  te_leak_pwr :: "u32 list"
  te_current_ma :: "u32 list list"
  te_client :: "mmrm_client option"
  te_clk_rate :: u64
  te_vdd_level :: u32
  te_reserve :: bool
  te_ref_count :: u32
  te_num_hw_blocks :: u32
  te_is_crm_client :: bool
  te_hw_drv_instances :: u32
  te_num_pwr_states :: u32
  te_max_rate_idx :: u32
  te_crm_client_tbl_size :: u32
  te_crm_client_tbl :: "u64 list option"

record mmrm_sw_throttled_clients_data =
  tc_table_id :: u32
  tc_delta_cu_ma :: u32
  tc_prev_vdd_level :: u32

record mmrm_sw_peak_current_data =
  pk_threshold :: u32
  pk_aggreg_val :: u32
  pk_aggreg_level :: u32

record mmrm_throttle_info =
  ti_csid_throttle_client :: u32
  ti_tbl_entry_id :: u16

record mmrm_sw_clk_mgr_info =
  clk_client_tbl :: "mmrm_sw_clk_client_tbl_entry list"
  tot_clk_clients :: u32
  enabled_clk_clients :: u32
  throttle_clients_info :: "mmrm_throttle_info list"
  throttle_clients_data_length :: u16
  peak_cur_data :: mmrm_sw_peak_current_data
  throttled_clients :: "mmrm_sw_throttled_clients_data list"
  mmrm_log :: "mmrm_event list"

record corner_info =
  ci_name :: string
  ci_volt_factor :: u32
  ci_scaling_factor_dyn :: u32
  ci_scaling_factor_leak :: u32

record nom_clk_src_info =
  ns_domain :: u32
  ns_clk_src_id :: u32
  ns_nom_dyn_pwr :: u32
  ns_nom_leak_pwr :: u32
  ns_num_hw_block :: u32

record mmrm_clk_platform_resources =
  cr_scheme :: u32
  cr_clsid_threshold_clients :: "u32 list"
  cr_throttle_clients_data_length :: u16
  cr_corner_tbl :: "corner_info list option"
  cr_corner_count :: u32
  cr_clk_src_tbl :: "nom_clk_src_info list option"
  cr_clk_src_count :: u32
  cr_peak_threshold :: u32

record mmrm_clk_mgr =
  cm_scheme :: u32
  cm_sw_info :: mmrm_sw_clk_mgr_info

section \<open>Fixed-point numbers\<close>

type_synonym fp_t = u64

definition FP_FRACTIONAL_BITS :: nat where "FP_FRACTIONAL_BITS = 16"

definition FP :: "u32 \<Rightarrow> u32 \<Rightarrow> u32 \<Rightarrow> fp_t" where
  "FP i f_n f_d = push_bit FP_FRACTIONAL_BITS (ucast i) + ucast (push_bit FP_FRACTIONAL_BITS f_n div f_d)"

definition fp_frac_base :: fp_t where
  "fp_frac_base = mask FP_FRACTIONAL_BITS"

definition fp_frac :: "fp_t \<Rightarrow> u64" where
  "fp_frac a = a AND mask FP_FRACTIONAL_BITS"

definition fp_int :: "fp_t \<Rightarrow> u64" where
  "fp_int a = drop_bit FP_FRACTIONAL_BITS a"

definition fp_round :: "fp_t \<Rightarrow> u64" where
  "fp_round a = fp_int a + (if fp_frac a \<ge> fp_frac_base div 2 then 1 else 0)"

definition fp_mult :: "fp_t \<Rightarrow> fp_t \<Rightarrow> fp_t" where
  "fp_mult a b = drop_bit FP_FRACTIONAL_BITS (a * b)"

definition fp_div :: "fp_t \<Rightarrow> fp_t \<Rightarrow> fp_t option" where
  "fp_div a b = (if b = 0 then None else Some (push_bit FP_FRACTIONAL_BITS a div b))"

definition Q16_INT :: "u32 \<Rightarrow> u32" where
  "Q16_INT q = drop_bit 16 q"

definition Q16_FRAC :: "u32 \<Rightarrow> u32" where
  "Q16_FRAC q = drop_bit 16 ((q AND 0xFFFF) * 100)"

definition q16_fp :: "u32 \<Rightarrow> fp_t" where
  "q16_fp q = FP (Q16_INT q) (Q16_FRAC q) 100"

section \<open>Rates, power and current of a client\<close>

text \<open>The first level whose corner is the given one, or the number of levels.\<close>

definition match_level :: "mmrm_uapi \<Rightarrow> int \<Rightarrow> nat" where
  "match_level u corner = length (takeWhile (\<lambda>c. c \<noteq> corner) (mmrm_sw_vdd_corner u))"

definition set_from :: "nat \<Rightarrow> 'a \<Rightarrow> 'a list \<Rightarrow> 'a list" where
  "set_from i x xs = take i xs @ replicate (length xs - i) x"

text \<open>One round of the loop over the rates; \<^term>\<open>None\<close> leaves the loop.\<close>

definition freq_step :: "clk_env \<Rightarrow> mmrm_uapi \<Rightarrow> clk_ptr \<Rightarrow> int \<Rightarrow> int \<times> u64 list \<Rightarrow> (int \<times> u64 list) option" where
  "freq_step E u clk clk_val st =
     (let clk_val_round = clk_round_rate E clk (of_int clk_val) in
      if clk_val_round > fst st then
        let voltage_corner = qcom_clk_get_voltage E clk (of_int clk_val_round) in
        if voltage_corner < 0 \<or> voltage_corner > RPMH_REGULATOR_LEVEL_TURBO u then None
        else Some (clk_val_round,
               set_from (match_level u (if voltage_corner < RPMH_REGULATOR_LEVEL_LOW_SVS u then RPMH_REGULATOR_LEVEL_LOW_SVS u
                                        else voltage_corner))
                        (of_int clk_val_round) (snd st))
      else Some st)"

text \<open>The loop variable is a \<open>long\<close>: its overflow has no defined outcome.\<close>

function freq_loop :: "clk_env \<Rightarrow> mmrm_uapi \<Rightarrow> clk_ptr \<Rightarrow> int \<Rightarrow> int \<Rightarrow> int \<times> u64 list \<Rightarrow> u64 list option" where
  "freq_loop E u clk clk_val clk_val_max st =
     (if clk_val < clk_val_max then
        (case freq_step E u clk clk_val st of
           None \<Rightarrow> Some (snd st)
         | Some st' \<Rightarrow> if clk_val + CLK_RATE_STEP > LONG_MAX then None
                      else freq_loop E u clk (clk_val + CLK_RATE_STEP) clk_val_max st')
      else Some (snd st))"
  by pat_completeness auto
termination
  by (relation "measure (\<lambda>(E, u, clk, v, m, st). nat (m - v))") (auto simp: CLK_RATE_STEP_def)

declare freq_loop.simps [simp del]

definition mmrm_sw_update_freq ::
    "clk_env \<Rightarrow> mmrm_uapi \<Rightarrow> mmrm_sw_clk_client_tbl_entry \<Rightarrow> mmrm_sw_clk_client_tbl_entry option" where
  "mmrm_sw_update_freq E u te = do {
     let clk_val_min = clk_round_rate E (te_clk te) 1;
     let clk_val_max = clk_round_rate E (te_clk te) (- 1);
     fr \<leftarrow> freq_loop E u (te_clk te) clk_val_min clk_val_max (clk_val_min, replicate MMRM_VDD_LEVEL_MAX (of_int clk_val_min));
     Some (te\<lparr>te_freq := fr\<rparr>) }"

text \<open>Power and current at level \<open>i\<close>: the two powers, and the current for each voltage.\<close>

definition curr_level ::
    "corner_info list \<Rightarrow> fp_t \<Rightarrow> fp_t \<Rightarrow> u64 list \<Rightarrow> nat \<Rightarrow> (u32 \<times> u32 \<times> u32 list) option" where
  "curr_level cset nom_dyn_pwr nom_leak_pwr freq i = do {
     corner \<leftarrow> idx cset i;
     let dyn_sc = q16_fp (ci_scaling_factor_dyn corner);
     let leak_sc = q16_fp (ci_scaling_factor_leak corner);
     freq_i \<leftarrow> idx freq i;
     nom_freq \<leftarrow> idx freq MMRM_VDD_LEVEL_NOM;
     pwr_mw \<leftarrow> fp_div (fp_mult nom_dyn_pwr freq_i) nom_freq;
     let dyn_pwr = fp_mult pwr_mw dyn_sc;
     let leak_pwr = fp_mult nom_leak_pwr leak_sc;
     row \<leftarrow> those (map (\<lambda>j. do {
              cj \<leftarrow> idx cset j;
              c \<leftarrow> fp_div (dyn_pwr + leak_pwr) (q16_fp (ci_volt_factor cj));
              Some (ucast (fp_round c)) }) [0..<MMRM_VDD_LEVEL_MAX]);
     Some (ucast (fp_round dyn_pwr), ucast (fp_round leak_pwr), row) }"

text \<open>The index of the first entry with the given source id, or the number of entries.\<close>

definition find_csid :: "u32 \<Rightarrow> mmrm_sw_clk_client_tbl_entry list \<Rightarrow> nat" where
  "find_csid csid tbl = length (takeWhile (\<lambda>e. te_clk_src_id e \<noteq> csid) tbl)"

definition tbl_rows :: "mmrm_sw_clk_mgr_info \<Rightarrow> mmrm_sw_clk_client_tbl_entry list option" where
  "tbl_rows s = (if unat (tot_clk_clients s) \<le> length (clk_client_tbl s)
                 then Some (take (unat (tot_clk_clients s)) (clk_client_tbl s)) else None)"

definition mmrm_sw_update_curr ::
    "mmrm_clk_platform_resources \<Rightarrow> mmrm_sw_clk_mgr_info \<Rightarrow> mmrm_sw_clk_client_tbl_entry \<Rightarrow>
       (errno + mmrm_sw_clk_client_tbl_entry) option" where
  "mmrm_sw_update_curr cres s te = do {
     rows \<leftarrow> tbl_rows s;
     let c = find_csid (te_clk_src_id te) rows;
     if c = length rows then Some (Inl EINVAL)
     else do {
       noms \<leftarrow> cr_clk_src_tbl cres;
       nom \<leftarrow> idx noms c;
       cset \<leftarrow> cr_corner_tbl cres;
       ls \<leftarrow> those (map (curr_level cset (q16_fp (ns_nom_dyn_pwr nom)) (q16_fp (ns_nom_leak_pwr nom)) (te_freq te))
                       [0..<MMRM_VDD_LEVEL_MAX]);
       Some (Inr (te\<lparr>te_dyn_pwr := map fst ls, te_leak_pwr := map (fst \<circ> snd) ls, te_current_ma := map (snd \<circ> snd) ls\<rparr>)) } }"

section \<open>Registration\<close>

definition upd_entry ::
    "nat \<Rightarrow> (mmrm_sw_clk_client_tbl_entry \<Rightarrow> mmrm_sw_clk_client_tbl_entry) \<Rightarrow> mmrm_sw_clk_mgr_info \<Rightarrow> mmrm_sw_clk_mgr_info" where
  "upd_entry k f s = s\<lparr>clk_client_tbl := (clk_client_tbl s)[k := f (clk_client_tbl s ! k)]\<rparr>"

definition fill_entry ::
    "mmrm_uapi \<Rightarrow> nat \<Rightarrow> mmrm_clk_client_desc \<Rightarrow> u32 \<Rightarrow> u64 \<Rightarrow> nat option \<Rightarrow> mmrm_sw_clk_client_tbl_entry \<Rightarrow>
       mmrm_sw_clk_client_tbl_entry" where
  "fill_entry u c clk_desc priority pvt_data not_fn_cb te =
     te\<lparr>te_ref_count := 1, te_client := Some \<lparr>client_uid = of_nat c, client_type = MMRM_CLIENT_CLOCK u\<rparr>,
        te_name := take (MMRM_CLK_CLIENT_NAME_SIZE u - 1) (cc_name clk_desc), te_clk := cc_clk clk_desc,
        te_pri := priority, te_pvt_data := pvt_data, te_notifier_cb_fn := not_fn_cb\<rparr>"

definition fill_crm :: "mmrm_clk_client_desc \<Rightarrow> mmrm_sw_clk_client_tbl_entry \<Rightarrow> mmrm_sw_clk_client_tbl_entry" where
  "fill_crm clk_desc te =
     (let n = cc_hw_drv_instances clk_desc * cc_num_pwr_states clk_desc + 1 in
      te\<lparr>te_crm_client_tbl_size := n, te_crm_client_tbl := Some (replicate (unat n) 0), te_is_crm_client := True,
         te_max_rate_idx := 0, te_hw_drv_instances := cc_hw_drv_instances clk_desc,
         te_num_pwr_states := cc_num_pwr_states clk_desc\<rparr>)"

text \<open>The error labels of the function, from the last one up.\<close>

definition err_fail_alloc_clk_client :: "mmrm_sw_clk_client_tbl_entry \<Rightarrow> mmrm_sw_clk_client_tbl_entry" where
  "err_fail_alloc_clk_client te =
     te\<lparr>te_client := None, te_clk := ClkNull, te_pri := 0, te_pvt_data := 0, te_notifier_cb_fn := None\<rparr>"

definition err_fail_alloc_crm_tbl :: "mmrm_sw_clk_client_tbl_entry \<Rightarrow> mmrm_sw_clk_client_tbl_entry" where
  "err_fail_alloc_crm_tbl te = err_fail_alloc_clk_client (te\<lparr>te_crm_client_tbl_size := 0\<rparr>)"

definition err_fail_update_entry :: "mmrm_sw_clk_client_tbl_entry \<Rightarrow> mmrm_sw_clk_client_tbl_entry" where
  "err_fail_update_entry te =
     err_fail_alloc_crm_tbl (te\<lparr>te_is_crm_client := False, te_max_rate_idx := 0, te_hw_drv_instances := 0,
       te_num_pwr_states := 0, te_crm_client_tbl := None\<rparr>)"

text \<open>\<open>multi\<close> is \<open>msm_mmrm_allow_multiple_register\<close>; \<open>al1\<close> and \<open>al2\<close> say whether the two allocations succeed. The result is the
  client, or \<^term>\<open>None\<close> for a NULL pointer.\<close>

definition mmrm_sw_clk_client_register ::
    "clk_env \<Rightarrow> mmrm_uapi \<Rightarrow> mmrm_clk_platform_resources \<Rightarrow> u8 \<Rightarrow> bool \<Rightarrow> bool \<Rightarrow> mmrm_clk_client_desc \<Rightarrow> u32 \<Rightarrow> u64 \<Rightarrow>
       nat option \<Rightarrow> mmrm_sw_clk_mgr_info \<Rightarrow> (mmrm_client option \<times> mmrm_sw_clk_mgr_info) option" where
  "mmrm_sw_clk_client_register E u cres multi al1 al2 clk_desc priority pvt_data not_fn_cb s =
     (if tot_clk_clients s = enabled_clk_clients s then Some (None, s)
      else do {
        rows \<leftarrow> tbl_rows s;
        let clk_client_src_id = push_bit 16 (cc_client_domain clk_desc) OR cc_client_id clk_desc;
        let c = find_csid clk_client_src_id rows;
        if c = length rows then Some (None, s)
        else
          let te = rows ! c in
          if te_client te \<noteq> None then
            if multi \<noteq> 0 then Some (te_client te, upd_entry c (\<lambda>e. e\<lparr>te_ref_count := te_ref_count e + 1\<rparr>) s)
            else Some (None, s)
          else if \<not> al1 then Some (None, upd_entry c err_fail_alloc_clk_client s)
          else
            let te1 = fill_entry u c clk_desc priority pvt_data not_fn_cb te in
            if cc_hw_drv_instances clk_desc > MAX_HW_DRV_INSTANCES \<or> cc_num_pwr_states clk_desc > MAX_POWER_STATES
            then Some (None, upd_entry c (\<lambda>_. err_fail_alloc_clk_client te1) s)
            else
              let crm = cc_hw_drv_instances clk_desc > 0 \<and> cc_num_pwr_states clk_desc > 0 in
              if crm \<and> \<not> al2 then Some (None, upd_entry c (\<lambda>_. err_fail_alloc_crm_tbl (te1\<lparr>te_crm_client_tbl := None\<rparr>)) s)
              else do {
                let te2 = (if crm then fill_crm clk_desc te1 else te1);
                te3 \<leftarrow> mmrm_sw_update_freq E u te2;
                r \<leftarrow> mmrm_sw_update_curr cres s te3;
                (case r of
                   Inl e \<Rightarrow> Some (None, upd_entry c (\<lambda>_. err_fail_update_entry te3) s)
                 | Inr te4 \<Rightarrow> Some (te_client te4, upd_entry c (\<lambda>_. te4) s)) } })"

definition release_entry :: "mmrm_sw_clk_client_tbl_entry \<Rightarrow> mmrm_sw_clk_client_tbl_entry" where
  "release_entry te =
     te\<lparr>te_crm_client_tbl := None, te_vdd_level := 0, te_clk_rate := 0, te_client := None, te_clk := ClkNull, te_pri := 0,
        te_pvt_data := 0, te_notifier_cb_fn := None, te_is_crm_client := False, te_max_rate_idx := 0,
        te_hw_drv_instances := 0, te_num_pwr_states := 0, te_crm_client_tbl_size := 0\<rparr>"

definition mmrm_sw_clk_client_deregister ::
    "mmrm_client option \<Rightarrow> mmrm_sw_clk_mgr_info \<Rightarrow> ((errno + unit) \<times> mmrm_sw_clk_mgr_info) option" where
  "mmrm_sw_clk_client_deregister client s =
     (case client of
        None \<Rightarrow> Some (Inl EINVAL, s)
      | Some cl \<Rightarrow>
          if client_uid cl \<ge> tot_clk_clients s then Some (Inl EINVAL, s)
          else do {
            te \<leftarrow> idx (clk_client_tbl s) (unat (client_uid cl));
            let te1 = (if te_ref_count te > 0 then te\<lparr>te_ref_count := te_ref_count te - 1\<rparr> else te);
            Some (Inr (), upd_entry (unat (client_uid cl)) (\<lambda>_. if te_ref_count te1 = 0 then release_entry te1 else te1) s) })"

section \<open>Votes of a CRM client\<close>

definition crm_vote_idx :: "mmrm_uapi \<Rightarrow> mmrm_client_data \<Rightarrow> mmrm_sw_clk_client_tbl_entry \<Rightarrow> u32" where
  "crm_vote_idx u cd te =
     (if cd_drv_type cd = MMRM_CRM_SW_DRV u then te_crm_client_tbl_size te - 1
      else te_num_pwr_states te * cd_crm_drv_idx cd + cd_pwr_st cd)"

text \<open>The largest vote of the others and its index; the running maximum is a 32-bit variable.\<close>

fun crm_scan :: "nat \<Rightarrow> u64 list \<Rightarrow> nat \<Rightarrow> u32 \<times> u32 \<Rightarrow> u32 \<times> u32" where
  "crm_scan skip [] i acc = acc"
| "crm_scan skip (v # vs) i acc =
     crm_scan skip vs (Suc i) (if i \<noteq> skip \<and> v > ucast (fst acc) then (ucast v, of_nat i) else acc)"

definition mmrm_sw_get_max_crm_rate ::
    "mmrm_uapi \<Rightarrow> mmrm_sw_clk_client_tbl_entry \<Rightarrow> mmrm_client_data \<Rightarrow> u64 \<Rightarrow> (u32 \<times> u32) option" where
  "mmrm_sw_get_max_crm_rate u te cd new_clk_val =
     (let crm_max_rate = ucast (te_clk_rate te) :: u32; new_val_idx = crm_vote_idx u cd te in
      if new_clk_val > ucast crm_max_rate then Some (ucast new_clk_val, new_val_idx)
      else if new_val_idx = te_max_rate_idx te then do {
        tbl \<leftarrow> te_crm_client_tbl te;
        if unat (te_crm_client_tbl_size te) > length tbl then None
        else
          let m = crm_scan (unat (te_max_rate_idx te)) (take (unat (te_crm_client_tbl_size te)) tbl) 0 (0, te_max_rate_idx te) in
          Some (if new_clk_val \<ge> ucast (fst m) then (ucast new_clk_val, te_max_rate_idx te) else m) }
      else Some (crm_max_rate, te_max_rate_idx te))"

section \<open>Levels and currents\<close>

definition rc_of :: "int \<Rightarrow> errno + unit" where
  "rc_of n = (if n = 0 then Inr () else Inl (EOTHER n))"

definition mmrm_sw_get_req_level :: "clk_env \<Rightarrow> mmrm_uapi \<Rightarrow> mmrm_sw_clk_client_tbl_entry \<Rightarrow> u64 \<Rightarrow> errno + u32" where
  "mmrm_sw_get_req_level E u te clk_val =
     (let clk_round_val = of_int (clk_round_rate E (te_clk te) clk_val) :: u64;
          voltage_corner = qcom_clk_get_voltage E (te_clk te) clk_round_val in
      if voltage_corner < 0 \<or> voltage_corner > RPMH_REGULATOR_LEVEL_TURBO u then Inl (EOTHER voltage_corner)
      else if voltage_corner < RPMH_REGULATOR_LEVEL_LOW_SVS u then Inr MMRM_VDD_LEVEL_LOW_SVS
      else if match_level u voltage_corner = MMRM_VDD_LEVEL_MAX then Inl EINVAL
      else Inr (of_nat (match_level u voltage_corner)))"

text \<open>The search for another active client at the aggregated level; on the way, the last one between it and the requested level.\<close>

fun req_level_loop ::
    "u32 \<Rightarrow> u32 \<Rightarrow> u32 \<Rightarrow> mmrm_sw_clk_client_tbl_entry list \<Rightarrow> u32 option \<Rightarrow> bool \<times> u32 option" where
  "req_level_loop csid req_level aggreg_level [] next_max = (False, next_max)"
| "req_level_loop csid req_level aggreg_level (te # tes) next_max =
     (if \<not> clk_ok (te_clk te) \<or> te_clk_rate te = 0 \<or> te_clk_src_id te = csid
      then req_level_loop csid req_level aggreg_level tes next_max
      else if te_vdd_level te = aggreg_level then (True, next_max)
      else req_level_loop csid req_level aggreg_level tes
             (if te_vdd_level te < aggreg_level \<and> te_vdd_level te > req_level then Some (te_vdd_level te) else next_max))"

definition mmrm_sw_check_req_level :: "mmrm_sw_clk_mgr_info \<Rightarrow> u32 \<Rightarrow> u32 \<Rightarrow> (errno + u32) option" where
  "mmrm_sw_check_req_level s clk_src_id req_level =
     (if unat req_level \<ge> MMRM_VDD_LEVEL_MAX then Some (Inl EINVAL)
      else if req_level < pk_aggreg_level (peak_cur_data s) then do {
        rows \<leftarrow> tbl_rows s;
        Some (Inr (case req_level_loop clk_src_id req_level (pk_aggreg_level (peak_cur_data s)) rows None of
            (True, _) \<Rightarrow> pk_aggreg_level (peak_cur_data s)
          | (False, Some l) \<Rightarrow> (if l > req_level then l else req_level)
          | (False, None) \<Rightarrow> req_level)) }
      else Some (Inr req_level))"

definition cur_at :: "mmrm_sw_clk_client_tbl_entry \<Rightarrow> u32 \<Rightarrow> u32 \<Rightarrow> u32 option" where
  "cur_at te i j = Option.bind (idx (te_current_ma te) (unat i)) (\<lambda>row. idx row (unat j))"

fun total_loop :: "nat \<Rightarrow> u32 \<Rightarrow> nat \<Rightarrow> mmrm_sw_clk_client_tbl_entry list \<Rightarrow> u32 \<Rightarrow> u32 option" where
  "total_loop new req_level c [] sum_cur = Some sum_cur"
| "total_loop new req_level c (te # tes) sum_cur =
     (if \<not> clk_ok (te_clk te) \<or> te_clk_rate te = 0 \<or> c = new then total_loop new req_level (Suc c) tes sum_cur
      else do {
        m \<leftarrow> cur_at te (te_vdd_level te) req_level;
        total_loop new req_level (Suc c) tes (sum_cur + m * te_num_hw_blocks te) })"

definition mmrm_sw_calculate_total_current :: "mmrm_sw_clk_mgr_info \<Rightarrow> u32 \<Rightarrow> nat \<Rightarrow> (errno + u32) option" where
  "mmrm_sw_calculate_total_current s req_level new =
     (if unat req_level \<ge> MMRM_VDD_LEVEL_MAX then Some (Inl EINVAL)
      else do { rows \<leftarrow> tbl_rows s; map_option Inr (total_loop new req_level 0 rows 0) })"

section \<open>Throttling\<close>

definition log_event :: "mmrm_event \<Rightarrow> mmrm_sw_clk_mgr_info \<Rightarrow> mmrm_sw_clk_mgr_info" where
  "log_event e s = s\<lparr>mmrm_log := mmrm_log s @ [e]\<rparr>"

text \<open>A notification of a change of the rate; without a notifier the return code keeps its value.\<close>

definition notify_client ::
    "clk_env \<Rightarrow> mmrm_sw_clk_client_tbl_entry \<Rightarrow> u64 \<Rightarrow> u64 \<Rightarrow> errno + unit \<Rightarrow> mmrm_sw_clk_mgr_info \<Rightarrow>
       (errno + unit) \<times> mmrm_sw_clk_mgr_info" where
  "notify_client E te old_val new_val rc s =
     (case te_notifier_cb_fn te of
        None \<Rightarrow> (rc, s)
      | Some f \<Rightarrow>
          let nd = \<lparr>nv_old_val = old_val, nv_new_val = new_val, nv_pvt_data = te_pvt_data te\<rparr> in
          (rc_of (notifier_cb_fn E (mmrm_log s) f nd), log_event (Ev_notify f nd) s))"

definition set_rate :: "clk_env \<Rightarrow> clk_ptr \<Rightarrow> u64 \<Rightarrow> mmrm_sw_clk_mgr_info \<Rightarrow> (errno + unit) \<times> mmrm_sw_clk_mgr_info" where
  "set_rate E clk rate s = (rc_of (clk_set_rate E (mmrm_log s) clk rate), log_event (Ev_set_rate clk rate) s)"

text \<open>The loop over the candidates. The return code and the amount \<open>delta_cur\<close> survive from one round to the next; the
  comparison of the saving with \<open>delta_cur\<close> is unsigned. \<open>al\<close> says whether the allocation of the bookkeeping record succeeds.\<close>

fun throttle_loop ::
    "clk_env \<Rightarrow> bool \<Rightarrow> nat list \<Rightarrow> errno + unit \<Rightarrow> u32 \<Rightarrow> mmrm_sw_clk_mgr_info \<Rightarrow>
       ((errno + unit) \<times> u32 \<times> mmrm_sw_clk_mgr_info) option" where
  "throttle_loop E al [] rc delta_cur s = Some (rc, delta_cur, s)"
| "throttle_loop E al (i # rest) rc delta_cur s = do {
     ti \<leftarrow> idx (throttle_clients_info s) i;
     te \<leftarrow> idx (clk_client_tbl s) (unat (ti_tbl_entry_id ti));
     now_cur_ma \<leftarrow> cur_at te (te_vdd_level te) (pk_aggreg_level (peak_cur_data s));
     min_cur_ma \<leftarrow> cur_at te MMRM_VDD_LEVEL_LOW_SVS (pk_aggreg_level (peak_cur_data s));
     if now_cur_ma \<le> min_cur_ma \<or> now_cur_ma - min_cur_ma \<le> delta_cur then throttle_loop E al rest rc delta_cur s
     else do {
       old_val \<leftarrow> idx (te_freq te) (unat (te_vdd_level te));
       new_val \<leftarrow> idx (te_freq te) (unat MMRM_VDD_LEVEL_LOW_SVS);
       let (rc1, s1) = notify_client E te old_val new_val rc s;
       if rc1 \<noteq> Inr () then throttle_loop E al rest rc1 delta_cur s1
       else
         let (rc2, s2) = (if te_reserve te then (rc1, s1) else set_rate E (te_clk te) new_val s1) in
         if rc2 \<noteq> Inr () then throttle_loop E al rest rc2 delta_cur s2
         else
           let delta' = delta_cur - (now_cur_ma - min_cur_ma) in
           if \<not> al then Some (Inl ENOMEM, delta', s2)
           else Some (rc2, delta',
             upd_entry (unat (ti_tbl_entry_id ti))
               (\<lambda>e. e\<lparr>te_clk_rate := new_val, te_vdd_level := MMRM_VDD_LEVEL_LOW_SVS, te_reserve := False\<rparr>)
               (s2\<lparr>throttled_clients := throttled_clients s2 @
                  [\<lparr>tc_table_id = of_nat i, tc_delta_cu_ma = now_cur_ma - min_cur_ma, tc_prev_vdd_level = te_vdd_level te\<rparr>]\<rparr>)) } }"

definition mmrm_sw_throttle_low_priority_client ::
    "clk_env \<Rightarrow> bool \<Rightarrow> u32 \<Rightarrow> mmrm_sw_clk_mgr_info \<Rightarrow> ((errno + unit) \<times> u32 \<times> mmrm_sw_clk_mgr_info) option" where
  "mmrm_sw_throttle_low_priority_client E al delta_cur s =
     throttle_loop E al [0..<unat (throttle_clients_data_length s)] (Inr ()) delta_cur s"

text \<open>The clients that fit again are told so and forgotten; their rates are up to them.\<close>

fun reinstate_loop ::
    "clk_env \<Rightarrow> mmrm_sw_throttled_clients_data list \<Rightarrow> mmrm_sw_clk_mgr_info \<Rightarrow>
       (mmrm_sw_throttled_clients_data list \<times> mmrm_sw_clk_mgr_info) option" where
  "reinstate_loop E [] s = Some ([], s)"
| "reinstate_loop E (td # tds) s =
     (if pk_aggreg_val (peak_cur_data s) + tc_delta_cu_ma td \<le> pk_threshold (peak_cur_data s) then do {
        ti \<leftarrow> idx (throttle_clients_info s) (unat (tc_table_id td));
        te \<leftarrow> idx (clk_client_tbl s) (unat (ti_tbl_entry_id ti));
        old_val \<leftarrow> idx (te_freq te) (unat MMRM_VDD_LEVEL_LOW_SVS);
        new_val \<leftarrow> idx (te_freq te) (unat (tc_prev_vdd_level td));
        reinstate_loop E tds (snd (notify_client E te old_val new_val (Inr ()) s)) }
      else map_option (\<lambda>(keep, s'). (td # keep, s')) (reinstate_loop E tds s))"

definition mmrm_reinstate_throttled_client :: "clk_env \<Rightarrow> mmrm_sw_clk_mgr_info \<Rightarrow> mmrm_sw_clk_mgr_info option" where
  "mmrm_reinstate_throttled_client E s =
     map_option (\<lambda>(keep, s'). s'\<lparr>throttled_clients := keep\<rparr>) (reinstate_loop E (throttled_clients s) s)"

section \<open>The check of a request\<close>

definition upd_peak :: "u32 \<Rightarrow> u32 \<Rightarrow> mmrm_sw_clk_mgr_info \<Rightarrow> mmrm_sw_clk_mgr_info" where
  "upd_peak v l s = s\<lparr>peak_cur_data := (peak_cur_data s)\<lparr>pk_aggreg_val := v, pk_aggreg_level := l\<rparr>\<rparr>"

text \<open>The aggregated current before the request and the change it asks for, at the adjusted level.\<close>

definition peak_request ::
    "mmrm_sw_clk_mgr_info \<Rightarrow> nat \<Rightarrow> u32 \<Rightarrow> u32 \<Rightarrow> u32 \<Rightarrow> u32 \<Rightarrow> (errno + (u32 \<times> u32)) option" where
  "peak_request s k req_level adj_level clk_val num_hw_blocks = do {
     te \<leftarrow> idx (clk_client_tbl s) k;
     new_cur \<leftarrow> (if clk_val \<noteq> 0 then map_option (\<lambda>m. m * num_hw_blocks) (cur_at te req_level adj_level) else Some 0);
     old_cur \<leftarrow> (if te_clk_rate te \<noteq> 0
                then map_option (\<lambda>m. m * te_num_hw_blocks te) (cur_at te (te_vdd_level te) (pk_aggreg_level (peak_cur_data s)))
                else Some 0);
     if adj_level \<noteq> pk_aggreg_level (peak_cur_data s) then do {
       r \<leftarrow> mmrm_sw_calculate_total_current s adj_level k;
       Some (case r of Inl e \<Rightarrow> Inl e | Inr peak_cur \<Rightarrow> Inr (peak_cur + new_cur, 0)) }
     else Some (Inr (pk_aggreg_val (peak_cur_data s), new_cur - old_cur)) }"

definition grant_peak ::
    "clk_env \<Rightarrow> u32 \<Rightarrow> u32 \<Rightarrow> mmrm_sw_clk_mgr_info \<Rightarrow> ((errno + unit) \<times> mmrm_sw_clk_mgr_info) option" where
  "grant_peak E v adj_level s = map_option (Pair (Inr ())) (mmrm_reinstate_throttled_client E (upd_peak v adj_level s))"

text \<open>\<open>thr\<close> is \<open>msm_mmrm_enable_throttle_feature\<close>; the sum of the two signed values wraps (the kernel is built so), and the
  comparison with the threshold is unsigned.\<close>

definition mmrm_sw_check_peak_current ::
    "clk_env \<Rightarrow> mmrm_uapi \<Rightarrow> u8 \<Rightarrow> bool \<Rightarrow> nat \<Rightarrow> u32 \<Rightarrow> u32 \<Rightarrow> u32 \<Rightarrow> mmrm_sw_clk_mgr_info \<Rightarrow>
       ((errno + unit) \<times> mmrm_sw_clk_mgr_info) option" where
  "mmrm_sw_check_peak_current E u thr al k req_level clk_val num_hw_blocks s = do {
     te \<leftarrow> idx (clk_client_tbl s) k;
     lv \<leftarrow> mmrm_sw_check_req_level s (te_clk_src_id te) req_level;
     (case lv of
        Inl e \<Rightarrow> Some (Inl e, s)
      | Inr adj_level \<Rightarrow> do {
          pr \<leftarrow> peak_request s k req_level adj_level clk_val num_hw_blocks;
          (case pr of
             Inl e \<Rightarrow> Some (Inl e, s)
           | Inr (peak_cur, delta_cur) \<Rightarrow>
               if sint (peak_cur + delta_cur) \<le> 0 then Some (Inr (), upd_peak 0 adj_level s)
               else if peak_cur + delta_cur \<ge> pk_threshold (peak_cur_data s) then
                 if te_pri te = MMRM_CLIENT_PRIOR_HIGH u \<and> thr > 0 then do {
                   (rc, delta', s1) \<leftarrow> mmrm_sw_throttle_low_priority_client E al delta_cur s;
                   (case rc of
                      Inl e \<Rightarrow> Some (Inl e, s1)
                    | Inr _ \<Rightarrow> grant_peak E (peak_cur + delta') adj_level s1) }
                 else Some (Inl EINVAL, s)
               else grant_peak E (peak_cur + delta_cur) adj_level s) }) }"

section \<open>Setting and reading a rate\<close>

text \<open>What the part before the lock decides: an error, nothing to do, a change of the reserve flag only, or a request for admission
  with its level, the rate to be recorded and the index of the largest vote.\<close>

datatype setval_plan = Sv_err errno | Sv_done | Sv_reserve | Sv_admit u32 u64 u32

definition req_reserve :: "mmrm_uapi \<Rightarrow> mmrm_client_data \<Rightarrow> bool" where
  "req_reserve u cd \<longleftrightarrow> cd_flags cd AND MMRM_CLIENT_DATA_FLAG_RESERVE_ONLY u \<noteq> 0"

definition setval_level ::
    "clk_env \<Rightarrow> mmrm_uapi \<Rightarrow> mmrm_sw_clk_client_tbl_entry \<Rightarrow> mmrm_client_data \<Rightarrow> u64 \<Rightarrow> u64 \<Rightarrow> errno + u32" where
  "setval_level E u te cd clk_val rate =
     (if clk_val \<noteq> 0 then
        (case mmrm_sw_get_req_level E u te rate of
           Inl e \<Rightarrow> Inl EINVAL
         | Inr req_level \<Rightarrow>
             if unat req_level \<ge> MMRM_VDD_LEVEL_MAX then Inl EINVAL
             else if \<not> (cd_num_hw_blocks cd \<ge> 1 \<and> cd_num_hw_blocks cd \<le> te_max_num_hw_blocks te) then Inl EINVAL
             else Inr req_level)
      else Inr 0)"

definition setval_check ::
    "clk_env \<Rightarrow> mmrm_uapi \<Rightarrow> mmrm_client option \<Rightarrow> mmrm_client_data option \<Rightarrow> u64 \<Rightarrow> mmrm_sw_clk_mgr_info \<Rightarrow> setval_plan option" where
  "setval_check E u client client_data clk_val s =
     (case client of
        None \<Rightarrow> Some (Sv_err EINVAL)
      | Some cl \<Rightarrow>
        if client_uid cl \<ge> tot_clk_clients s then Some (Sv_err EINVAL)
        else (case client_data of
          None \<Rightarrow> Some (Sv_err EINVAL)
        | Some cd \<Rightarrow> do {
            te \<leftarrow> idx (clk_client_tbl s) (unat (client_uid cl));
            if \<not> clk_ok (te_clk te) then Some (Sv_err EINVAL)
            else if te_is_crm_client te \<and> (cd_crm_drv_idx cd \<ge> te_hw_drv_instances te \<or> cd_pwr_st cd \<ge> te_num_pwr_states te)
            then Some (Sv_err EINVAL)
            else do {
              (rate, max_rate_idx) \<leftarrow> (if te_is_crm_client te
                 then map_option (\<lambda>(m, i). (ucast m, i)) (mmrm_sw_get_max_crm_rate u te cd clk_val)
                 else Some (clk_val, 0));
              if te_clk_rate te = clk_val \<and> te_num_hw_blocks te = cd_num_hw_blocks cd \<and> \<not> te_is_crm_client te
              then Some (if te_reserve te = req_reserve u cd then Sv_done else Sv_reserve)
              else Some (case setval_level E u te cd clk_val rate of
                     Inl e \<Rightarrow> Sv_err e
                   | Inr req_level \<Rightarrow> Sv_admit req_level rate max_rate_idx) } }))"

text \<open>The update of the entry, after the request has been admitted.\<close>

definition update_entry ::
    "mmrm_uapi \<Rightarrow> mmrm_client_data \<Rightarrow> u64 \<Rightarrow> u32 \<Rightarrow> u64 \<Rightarrow> u32 \<Rightarrow> mmrm_sw_clk_client_tbl_entry \<Rightarrow> mmrm_sw_clk_client_tbl_entry option" where
  "update_entry u cd clk_val req_level rate max_rate_idx te = do {
     te1 \<leftarrow> (if \<not> te_is_crm_client te then Some (te\<lparr>te_clk_rate := rate\<rparr>)
            else do {
              tbl \<leftarrow> te_crm_client_tbl te;
              if unat (crm_vote_idx u cd te) \<ge> length tbl then None
              else Some (te\<lparr>te_max_rate_idx := max_rate_idx, te_clk_rate := rate,
                            te_crm_client_tbl := Some (tbl[unat (crm_vote_idx u cd te) := clk_val])\<rparr>) });
     Some (te1\<lparr>te_vdd_level := req_level, te_reserve := req_reserve u cd, te_num_hw_blocks := cd_num_hw_blocks cd\<rparr>) }"

text \<open>The section under the lock: the check, and the update when it succeeds.\<close>

definition setval_commit ::
    "clk_env \<Rightarrow> mmrm_uapi \<Rightarrow> u8 \<Rightarrow> bool \<Rightarrow> nat \<Rightarrow> mmrm_client_data \<Rightarrow> u64 \<Rightarrow> u32 \<Rightarrow> u64 \<Rightarrow> u32 \<Rightarrow> mmrm_sw_clk_mgr_info \<Rightarrow>
       ((errno + unit) \<times> mmrm_sw_clk_mgr_info) option" where
  "setval_commit E u thr al k cd clk_val req_level rate max_rate_idx s = do {
     (rc, s1) \<leftarrow> mmrm_sw_check_peak_current E u thr al k req_level (ucast rate) (cd_num_hw_blocks cd) s;
     (case rc of
        Inl e \<Rightarrow> Some (Inl e, s1)
      | Inr _ \<Rightarrow> do {
          te \<leftarrow> idx (clk_client_tbl s1) k;
          te' \<leftarrow> update_entry u cd clk_val req_level rate max_rate_idx te;
          Some (Inr (), upd_entry k (\<lambda>_. te') s1) }) }"

text \<open>The part after the label \<open>set_clk_rate\<close>.\<close>

definition setval_set_rate ::
    "clk_env \<Rightarrow> mmrm_uapi \<Rightarrow> nat \<Rightarrow> mmrm_client_data \<Rightarrow> u64 \<Rightarrow> mmrm_sw_clk_mgr_info \<Rightarrow>
       ((errno + unit) \<times> mmrm_sw_clk_mgr_info) option" where
  "setval_set_rate E u k cd clk_val s = do {
     te \<leftarrow> idx (clk_client_tbl s) k;
     let (rc, s1) = (if \<not> te_is_crm_client te \<or> cd_drv_type cd = MMRM_CRM_SW_DRV u
       then set_rate E (te_clk te) clk_val s
       else (rc_of (qcom_clk_crm_set_rate E (mmrm_log s) (te_clk te) (cd_crm_drv_idx cd) (cd_pwr_st cd) clk_val),
             log_event (Ev_crm_set_rate (te_clk te) (cd_crm_drv_idx cd) (cd_pwr_st cd) clk_val) s));
     Some (if rc = Inr () then Inr () else Inl EINVAL, s1) }"

definition mmrm_sw_clk_client_setval ::
    "clk_env \<Rightarrow> mmrm_uapi \<Rightarrow> u8 \<Rightarrow> bool \<Rightarrow> mmrm_client option \<Rightarrow> mmrm_client_data option \<Rightarrow> u64 \<Rightarrow> mmrm_sw_clk_mgr_info \<Rightarrow>
       ((errno + unit) \<times> mmrm_sw_clk_mgr_info) option" where
  "mmrm_sw_clk_client_setval E u thr al client client_data clk_val s = do {
     plan \<leftarrow> setval_check E u client client_data clk_val s;
     (case plan of
        Sv_err e \<Rightarrow> Some (Inl e, s)
      | Sv_done \<Rightarrow> Some (Inr (), s)
      | Sv_reserve \<Rightarrow>
          let k = unat (client_uid (the client)); cd = the client_data;
              s1 = upd_entry k (\<lambda>e. e\<lparr>te_reserve := req_reserve u cd\<rparr>) s in
          if req_reserve u cd then Some (Inr (), s1) else setval_set_rate E u k cd clk_val s1
      | Sv_admit req_level rate max_rate_idx \<Rightarrow>
          let k = unat (client_uid (the client)); cd = the client_data in do {
          (rc, s1) \<leftarrow> setval_commit E u thr al k cd clk_val req_level rate max_rate_idx s;
          (case rc of
             Inl e \<Rightarrow> Some (Inl e, s1)
           | Inr _ \<Rightarrow> do {
               te \<leftarrow> idx (clk_client_tbl s1) k;
               if req_reserve u cd \<and> \<not> te_is_crm_client te then Some (Inr (), s1)
               else setval_set_rate E u k cd clk_val s1 }) }) }"

definition mmrm_sw_clk_client_setval_inrange ::
    "clk_env \<Rightarrow> mmrm_uapi \<Rightarrow> u8 \<Rightarrow> bool \<Rightarrow> mmrm_client option \<Rightarrow> mmrm_client_data option \<Rightarrow> mmrm_client_res_value \<Rightarrow>
       mmrm_sw_clk_mgr_info \<Rightarrow> ((errno + unit) \<times> mmrm_sw_clk_mgr_info) option" where
  "mmrm_sw_clk_client_setval_inrange E u thr al client client_data val s =
     mmrm_sw_clk_client_setval E u thr al client client_data (rv_cur val) s"

definition mmrm_sw_clk_client_getval ::
    "mmrm_client option \<Rightarrow> mmrm_sw_clk_mgr_info \<Rightarrow> (errno + mmrm_client_res_value) option" where
  "mmrm_sw_clk_client_getval client s =
     (case client of
        None \<Rightarrow> Some (Inl EINVAL)
      | Some cl \<Rightarrow>
          if client_uid cl \<ge> tot_clk_clients s then Some (Inl EINVAL)
          else do {
            te \<leftarrow> idx (clk_client_tbl s) (unat (client_uid cl));
            Some (if te_clk te = ClkNull then Inl EINVAL
                  else Inr \<lparr>rv_min = te_clk_rate te, rv_cur = te_clk_rate te, rv_max = te_clk_rate te\<rparr>) })"

end
