(* ===== verification/Mmrm_Driver.thy ===== *)
theory Mmrm_Driver
  imports Mmrm
begin

unbundle bit_operations_syntax

text \<open>
  The multimedia resource manager from the device tree to the exported functions: parsing of the tables
  (\<^verbatim>\<open>mmrm_res_parse.c\<close>), platform data (\<^verbatim>\<open>mmrm_internal.c\<close>), creation of the clock manager (\<^verbatim>\<open>mmrm_clk_rsrc_mgr_sw.c\<close>), probe, removal
  and the functions that the multimedia drivers call (\<^verbatim>\<open>msm_mmrm.c\<close>). The device tree is a record of functions.
\<close>

section \<open>The clock manager\<close>

definition zero_entry :: mmrm_sw_clk_client_tbl_entry where
  "zero_entry = \<lparr>te_name = '''', te_clk = ClkNull, te_pri = 0, te_pvt_data = 0, te_notifier_cb_fn = None, te_clk_src_id = 0,
     te_max_num_hw_blocks = 0, te_freq = replicate MMRM_VDD_LEVEL_MAX 0, te_dyn_pwr = replicate MMRM_VDD_LEVEL_MAX 0,
     te_leak_pwr = replicate MMRM_VDD_LEVEL_MAX 0,
     te_current_ma = replicate MMRM_VDD_LEVEL_MAX (replicate MMRM_VDD_LEVEL_MAX 0), te_client = None, te_clk_rate = 0,
     te_vdd_level = 0, te_reserve = False, te_ref_count = 0, te_num_hw_blocks = 0, te_is_crm_client = False,
     te_hw_drv_instances = 0, te_num_pwr_states = 0, te_max_rate_idx = 0, te_crm_client_tbl_size = 0, te_crm_client_tbl = None\<rparr>"

definition prepare_entry :: "nom_clk_src_info \<Rightarrow> mmrm_sw_clk_client_tbl_entry \<Rightarrow> mmrm_sw_clk_client_tbl_entry" where
  "prepare_entry n te =
     te\<lparr>te_clk_src_id := push_bit 16 (ns_domain n) OR ns_clk_src_id n,
        te_dyn_pwr := (te_dyn_pwr te)[MMRM_VDD_LEVEL_NOM := ns_nom_dyn_pwr n],
        te_leak_pwr := (te_leak_pwr te)[MMRM_VDD_LEVEL_NOM := ns_nom_leak_pwr n],
        te_max_num_hw_blocks := ns_num_hw_block n\<rparr>"

definition mmrm_sw_prepare_table ::
    "mmrm_clk_platform_resources \<Rightarrow> mmrm_sw_clk_client_tbl_entry list \<Rightarrow> mmrm_sw_clk_client_tbl_entry list option" where
  "mmrm_sw_prepare_table cres tbl =
     (if tbl = [] then Some []
      else do { noms \<leftarrow> cr_clk_src_tbl cres;
                if length noms < length tbl then None else Some (map2 prepare_entry noms tbl) })"

text \<open>The entry of a candidate for throttling; an id that is not in the table leaves the zeroed record as it is.\<close>

fun throttle_info_loop ::
    "u32 list \<Rightarrow> mmrm_sw_clk_client_tbl_entry list \<Rightarrow> nat list \<Rightarrow> mmrm_throttle_info list \<Rightarrow> mmrm_throttle_info list option" where
  "throttle_info_loop csids tbl [] infos = Some infos"
| "throttle_info_loop csids tbl (i # rest) infos = do {
     csid \<leftarrow> idx csids i;
     let j = find_csid csid tbl;
     if j = length tbl then throttle_info_loop csids tbl rest infos
     else if i \<ge> length infos then None
     else throttle_info_loop csids tbl rest (infos[i := \<lparr>ti_csid_throttle_client = csid, ti_tbl_entry_id = of_nat j\<rparr>]) }"

definition mmrm_init_sw_clk_mgr :: "bool \<Rightarrow> bool \<Rightarrow> mmrm_clk_platform_resources \<Rightarrow> (errno + mmrm_clk_mgr) option" where
  "mmrm_init_sw_clk_mgr al1 al2 cres =
     (if \<not> al1 then Some (Inl ENOMEM)
      else if \<not> al2 then Some (Inl ENOMEM)
      else do {
        tbl \<leftarrow> mmrm_sw_prepare_table cres (replicate (unat (cr_clk_src_count cres)) zero_entry);
        infos \<leftarrow> throttle_info_loop (cr_clsid_threshold_clients cres) tbl [0..<unat (cr_throttle_clients_data_length cres)]
                   (replicate MMRM_MAX_THROTTLE_CLIENTS \<lparr>ti_csid_throttle_client = 0, ti_tbl_entry_id = 0\<rparr>);
        Some (Inr \<lparr>cm_scheme = cr_scheme cres,
          cm_sw_info = \<lparr>clk_client_tbl = tbl, tot_clk_clients = cr_clk_src_count cres, enabled_clk_clients = 0,
            throttle_clients_info = infos, throttle_clients_data_length = cr_throttle_clients_data_length cres,
            peak_cur_data = \<lparr>pk_threshold = cr_peak_threshold cres, pk_aggreg_val = 0, pk_aggreg_level = 0\<rparr>,
            throttled_clients = [], mmrm_log = []\<rparr>\<rparr>) })"

text \<open>The list of the throttled clients is walked before the pointer is tested.\<close>

definition mmrm_destroy_sw_clk_mgr :: "mmrm_clk_mgr option \<Rightarrow> (errno + unit) option" where
  "mmrm_destroy_sw_clk_mgr sw_clk_mgr = (case sw_clk_mgr of None \<Rightarrow> None | Some _ \<Rightarrow> Some (Inr ()))"

section \<open>Platform data and device tree\<close>

record mmrm_platform_data =
  pd_common_data :: "(string \<times> u32) list"
  pd_throttle_clk_clients_data :: "(u32 \<times> u32) list"

definition common_pt_data :: "(string \<times> u32) list" where
  "common_pt_data = [(''qcom,mmrm_clk_mgr_scheme'', CLK_MGR_SCHEME_SW)]"

definition common_pt_throttle_clients_data_pineapple :: "mmrm_uapi \<Rightarrow> (u32 \<times> u32) list" where
  "common_pt_throttle_clients_data_pineapple u =
     [(MMRM_CLIENT_DOMAIN_DISPLAY u, 0x3e), (MMRM_CLIENT_DOMAIN_VIDEO u, 0x03), (MMRM_CLIENT_DOMAIN_CAMERA u, 0x58),
      (MMRM_CLIENT_DOMAIN_CVP u, 0x0a), (MMRM_CLIENT_DOMAIN_CAMERA u, 0x02)]"

definition common_pt_throttle_clients_data_cliffs :: "mmrm_uapi \<Rightarrow> (u32 \<times> u32) list" where
  "common_pt_throttle_clients_data_cliffs u =
     [(MMRM_CLIENT_DOMAIN_DISPLAY u, 0x3e), (MMRM_CLIENT_DOMAIN_VIDEO u, 0x03), (MMRM_CLIENT_DOMAIN_CAMERA u, 0x62),
      (MMRM_CLIENT_DOMAIN_CVP u, 0x0a), (MMRM_CLIENT_DOMAIN_CAMERA u, 0x17)]"

text \<open>The argument is the compatible string of the entry that the kernel has matched.\<close>

definition mmrm_get_platform_data :: "mmrm_uapi \<Rightarrow> string option \<Rightarrow> mmrm_platform_data option" where
  "mmrm_get_platform_data u m =
     (if m \<in> {Some ''qcom,waipio-mmrm'', Some ''qcom,kalama-mmrm'', Some ''qcom,pineapple-mmrm''}
      then Some \<lparr>pd_common_data = common_pt_data, pd_throttle_clk_clients_data = common_pt_throttle_clients_data_pineapple u\<rparr>
      else if m = Some ''qcom,cliffs-mmrm''
      then Some \<lparr>pd_common_data = common_pt_data, pd_throttle_clk_clients_data = common_pt_throttle_clients_data_cliffs u\<rparr>
      else None)"

definition mmrm_find_key_value :: "mmrm_platform_data \<Rightarrow> string \<Rightarrow> u32" where
  "mmrm_find_key_value pdata key = (case map_of (pd_common_data pdata) key of None \<Rightarrow> 0 | Some v \<Rightarrow> v)"

text \<open>The array of the ids has room for \<^const>\<open>MMRM_MAX_THROTTLE_CLIENTS\<close> of them.\<close>

definition mmrm_read_clk_pltfrm_rsrc_frm_drv_data ::
    "mmrm_platform_data \<Rightarrow> mmrm_clk_platform_resources \<Rightarrow> mmrm_clk_platform_resources option" where
  "mmrm_read_clk_pltfrm_rsrc_frm_drv_data pdata cres =
     (let ids = map (\<lambda>(domain, i). push_bit 16 domain OR i) (pd_throttle_clk_clients_data pdata) in
      if length ids > MMRM_MAX_THROTTLE_CLIENTS then None
      else Some (cres\<lparr>cr_scheme := mmrm_find_key_value pdata ''qcom,mmrm_clk_mgr_scheme'',
             cr_throttle_clients_data_length := of_nat (length ids),
             cr_clsid_threshold_clients := ids @ drop (length ids) (cr_clsid_threshold_clients cres)\<rparr>))"

record mmrm_of_node =
  of_property_count_strings :: "string \<Rightarrow> int"
  of_property_read_string_index :: "string \<Rightarrow> nat \<Rightarrow> string option"
  of_property_read_u32_index :: "string \<Rightarrow> nat \<Rightarrow> u32 option"
  of_find_property :: "string \<Rightarrow> nat option"

text \<open>A property that cannot be read leaves the zero of the allocation.\<close>

definition dt_u32 :: "mmrm_of_node \<Rightarrow> string \<Rightarrow> nat \<Rightarrow> u32" where
  "dt_u32 dt p i = (case of_property_read_u32_index dt p i of None \<Rightarrow> 0 | Some v \<Rightarrow> v)"

definition read_corner :: "mmrm_of_node \<Rightarrow> nat \<Rightarrow> corner_info" where
  "read_corner dt c =
     \<lparr>ci_name = (case of_property_read_string_index dt ''mm-rail-corners'' c of None \<Rightarrow> '''' | Some n \<Rightarrow> n),
      ci_volt_factor = dt_u32 dt ''mm-rail-fact-volt'' c, ci_scaling_factor_dyn = dt_u32 dt ''scaling-fact-dyn'' c,
      ci_scaling_factor_leak = dt_u32 dt ''scaling-fact-leak'' c\<rparr>"

definition mmrm_free_rail_corner_table :: "mmrm_clk_platform_resources \<Rightarrow> mmrm_clk_platform_resources" where
  "mmrm_free_rail_corner_table cres = cres\<lparr>cr_corner_tbl := None, cr_corner_count := 0\<rparr>"

definition mmrm_load_mm_rail_corner_table ::
    "mmrm_of_node \<Rightarrow> bool \<Rightarrow> mmrm_clk_platform_resources \<Rightarrow> (errno + unit) \<times> mmrm_clk_platform_resources" where
  "mmrm_load_mm_rail_corner_table dt al cres =
     (let num_corners = of_property_count_strings dt ''mm-rail-corners'' in
      if num_corners \<le> 0 then (Inr (), cres\<lparr>cr_corner_count := 0\<rparr>)
      else if \<not> al then (Inl ENOMEM, cres\<lparr>cr_corner_tbl := None\<rparr>)
      else (Inr (), cres\<lparr>cr_corner_count := of_int num_corners, cr_corner_tbl := Some (map (read_corner dt) [0..<nat num_corners])\<rparr>))"

definition mmrm_free_nom_clk_src_table :: "mmrm_clk_platform_resources \<Rightarrow> mmrm_clk_platform_resources" where
  "mmrm_free_nom_clk_src_table cres = cres\<lparr>cr_clk_src_tbl := None, cr_clk_src_count := 0\<rparr>"

definition read_clk_src :: "mmrm_of_node \<Rightarrow> nat \<Rightarrow> nom_clk_src_info" where
  "read_clk_src dt c =
     \<lparr>ns_domain = dt_u32 dt ''mmrm-client-info'' (c * 5), ns_clk_src_id = dt_u32 dt ''mmrm-client-info'' (c * 5 + 1),
      ns_nom_dyn_pwr = dt_u32 dt ''mmrm-client-info'' (c * 5 + 2), ns_nom_leak_pwr = dt_u32 dt ''mmrm-client-info'' (c * 5 + 3),
      ns_num_hw_block = dt_u32 dt ''mmrm-client-info'' (c * 5 + 4)\<rparr>"

text \<open>The size of a \<open>struct nom_clk_src_info\<close> is 20 bytes.\<close>

definition clk_src_size :: "mmrm_of_node \<Rightarrow> nat" where
  "clk_src_size dt = (case of_find_property dt ''mmrm-client-info'' of None \<Rightarrow> 0 | Some n \<Rightarrow> n)"

definition mmrm_load_nom_clk_src_table ::
    "mmrm_of_node \<Rightarrow> bool \<Rightarrow> mmrm_clk_platform_resources \<Rightarrow> (errno + unit) \<times> mmrm_clk_platform_resources" where
  "mmrm_load_nom_clk_src_table dt al cres =
     (case of_property_read_u32_index dt ''mmrm-peak-threshold'' 0 of
        None \<Rightarrow> (Inl ENODEV, cres)
      | Some t \<Rightarrow>
          let cres1 = cres\<lparr>cr_peak_threshold := t\<rparr>; size_clk_src = clk_src_size dt in
          if size_clk_src < 20 \<or> size_clk_src mod 20 \<noteq> 0 then (Inr (), cres1\<lparr>cr_clk_src_count := 0\<rparr>)
          else if \<not> al then (Inl ENOMEM, cres1\<lparr>cr_clk_src_tbl := None\<rparr>)
          else (Inr (), cres1\<lparr>cr_clk_src_count := of_nat (size_clk_src div 20),
                               cr_clk_src_tbl := Some (map (read_clk_src dt) [0..<size_clk_src div 20])\<rparr>))"

definition mmrm_read_clk_pltfrm_rsrc_frm_dt ::
    "mmrm_of_node \<Rightarrow> bool \<Rightarrow> bool \<Rightarrow> mmrm_clk_platform_resources \<Rightarrow> (errno + unit) \<times> mmrm_clk_platform_resources" where
  "mmrm_read_clk_pltfrm_rsrc_frm_dt dt al1 al2 cres =
     (case mmrm_load_mm_rail_corner_table dt al1 cres of
        (Inl e, cres1) \<Rightarrow> (Inl e, mmrm_free_rail_corner_table cres1)
      | (Inr _, cres1) \<Rightarrow>
          if cr_scheme cres1 = CLK_MGR_SCHEME_SW then
            (case mmrm_load_nom_clk_src_table dt al2 cres1 of
               (Inl e, cres2) \<Rightarrow> (Inl e, mmrm_free_rail_corner_table (mmrm_free_nom_clk_src_table cres2))
             | (Inr _, cres2) \<Rightarrow> (Inr (), cres2))
          else if cr_scheme cres1 = CLK_MGR_SCHEME_CXIPEAK then (Inl EINVAL, mmrm_free_rail_corner_table cres1)
          else (Inr (), cres1))"

definition mmrm_count_clk_clients_frm_dt :: "mmrm_of_node \<Rightarrow> nat" where
  "mmrm_count_clk_clients_frm_dt dt = clk_src_size dt div 20"

definition mmrm_read_platform_resources ::
    "mmrm_of_node option \<Rightarrow> mmrm_platform_data \<Rightarrow> bool \<Rightarrow> bool \<Rightarrow> mmrm_clk_platform_resources \<Rightarrow>
       ((errno + unit) \<times> mmrm_clk_platform_resources) option" where
  "mmrm_read_platform_resources node pdata al1 al2 cres =
     (case node of
        None \<Rightarrow> Some (Inl EINVAL, cres)
      | Some dt \<Rightarrow> map_option (mmrm_read_clk_pltfrm_rsrc_frm_dt dt al1 al2) (mmrm_read_clk_pltfrm_rsrc_frm_drv_data pdata cres))"

definition mmrm_free_platform_resources :: "mmrm_clk_platform_resources \<Rightarrow> mmrm_clk_platform_resources" where
  "mmrm_free_platform_resources cres = mmrm_free_rail_corner_table (mmrm_free_nom_clk_src_table cres)"

section \<open>The driver\<close>

record mmrm_driver_data =
  dd_is_clk_scaling_supported :: bool
  dd_clk_res :: mmrm_clk_platform_resources
  dd_clk_mgr :: "mmrm_clk_mgr option"
  dd_clk_mgr_ops :: bool

text \<open>The global pointer \<open>drv_data\<close> starts as the error pointer \<open>-EPROBE_DEFER\<close>. The two \<open>u8\<close> are module parameters.\<close>

datatype drv_ptr = Drv_defer | Drv_null | Drv mmrm_driver_data

record mmrm_module =
  drv_data :: drv_ptr
  dev_drvdata :: bool
  msm_mmrm_enable_throttle_feature :: u8
  msm_mmrm_allow_multiple_register :: u8

definition mmrm_loaded :: mmrm_module where
  "mmrm_loaded = \<lparr>drv_data = Drv_defer, dev_drvdata = False, msm_mmrm_enable_throttle_feature = 1,
     msm_mmrm_allow_multiple_register = 0\<rparr>"

definition mmrm_get_clk_mgr_ops :: "mmrm_driver_data \<Rightarrow> (errno + unit) \<times> mmrm_driver_data" where
  "mmrm_get_clk_mgr_ops d =
     (if cr_scheme (dd_clk_res d) = CLK_MGR_SCHEME_SW then (Inr (), d\<lparr>dd_clk_mgr_ops := True\<rparr>)
      else if cr_scheme (dd_clk_res d) = CLK_MGR_SCHEME_CXIPEAK then (Inl EINVAL, d)
      else (Inr (), d))"

definition mmrm_init :: "bool \<Rightarrow> bool \<Rightarrow> mmrm_driver_data \<Rightarrow> ((errno + unit) \<times> mmrm_driver_data) option" where
  "mmrm_init al1 al2 d =
     (case mmrm_get_clk_mgr_ops d of
        (Inl e, d1) \<Rightarrow> Some (Inl e, d1)
      | (Inr _, d1) \<Rightarrow>
          if \<not> dd_clk_mgr_ops d1 then None
          else do {
            r \<leftarrow> mmrm_init_sw_clk_mgr al1 al2 (dd_clk_res d1);
            Some (case r of Inl e \<Rightarrow> (Inl e, d1\<lparr>dd_clk_mgr := None\<rparr>) | Inr m \<Rightarrow> (Inr (), d1\<lparr>dd_clk_mgr := Some m\<rparr>)) })"

definition mmrm_deinit :: "mmrm_driver_data \<Rightarrow> (errno + unit) option" where
  "mmrm_deinit d = (if \<not> dd_clk_mgr_ops d then Some (Inl EINVAL) else mmrm_destroy_sw_clk_mgr (dd_clk_mgr d))"

definition zero_resources :: mmrm_clk_platform_resources where
  "zero_resources = \<lparr>cr_scheme = 0, cr_clsid_threshold_clients = replicate MMRM_MAX_THROTTLE_CLIENTS 0,
     cr_throttle_clients_data_length = 0, cr_corner_tbl = None, cr_corner_count = 0, cr_clk_src_tbl = None,
     cr_clk_src_count = 0, cr_peak_threshold = 0\<rparr>"

text \<open>\<open>al\<close> gives the outcomes of the five allocations: driver data, corners, clock sources, manager, client table.\<close>

definition msm_mmrm_probe_init ::
    "mmrm_uapi \<Rightarrow> mmrm_of_node \<Rightarrow> string option \<Rightarrow> (nat \<Rightarrow> bool) \<Rightarrow> mmrm_module \<Rightarrow> ((errno + unit) \<times> mmrm_module) option" where
  "msm_mmrm_probe_init u dt of_compat al m =
     (if \<not> al 0 then Some (Inl ENOMEM, m\<lparr>drv_data := Drv_null\<rparr>)
      else
        let d = \<lparr>dd_is_clk_scaling_supported = False, dd_clk_res = zero_resources, dd_clk_mgr = None, dd_clk_mgr_ops = False\<rparr> in
        if mmrm_count_clk_clients_frm_dt dt = 0 then Some (Inr (), m\<lparr>drv_data := Drv d\<rparr>)
        else (case mmrm_get_platform_data u of_compat of
          None \<Rightarrow> Some (Inl EINVAL, m\<lparr>drv_data := Drv_defer\<rparr>)
        | Some pdata \<Rightarrow>
            let m1 = m\<lparr>dev_drvdata := True\<rparr>; d1 = d\<lparr>dd_is_clk_scaling_supported := True\<rparr> in do {
            (rc, cres) \<leftarrow> mmrm_read_platform_resources (Some dt) pdata (al 1) (al 2) (dd_clk_res d1);
            (case rc of
               Inl e \<Rightarrow> Some (Inl e, m1\<lparr>drv_data := Drv_defer\<rparr>)
             | Inr _ \<Rightarrow> do {
                 (rc1, d2) \<leftarrow> mmrm_init (al 3) (al 4) (d1\<lparr>dd_clk_res := cres\<rparr>);
                 (case rc1 of
                    Inl e \<Rightarrow> Some (Inl e, m1\<lparr>drv_data := Drv_defer\<rparr>)
                  | Inr _ \<Rightarrow> Some (Inr (), m1\<lparr>drv_data := Drv d2\<rparr>)) }) }))"

definition msm_mmrm_probe ::
    "mmrm_uapi \<Rightarrow> mmrm_of_node \<Rightarrow> (string \<Rightarrow> bool) \<Rightarrow> string option \<Rightarrow> (nat \<Rightarrow> bool) \<Rightarrow> mmrm_module \<Rightarrow>
       ((errno + unit) \<times> mmrm_module) option" where
  "msm_mmrm_probe u dt of_device_is_compatible of_compat al m =
     (if of_device_is_compatible ''qcom,msm-mmrm'' then msm_mmrm_probe_init u dt of_compat al m else Some (Inl EINVAL, m))"

text \<open>Removal takes the pointer from the device, where a probe without clients has not stored it.\<close>

definition msm_mmrm_remove :: "mmrm_module \<Rightarrow> ((errno + unit) \<times> mmrm_module) option" where
  "msm_mmrm_remove m =
     (if \<not> dev_drvdata m then Some (Inl EINVAL, m\<lparr>drv_data := Drv_null\<rparr>)
      else (case drv_data m of
        Drv d \<Rightarrow> do {
          _ \<leftarrow> (if dd_is_clk_scaling_supported d then mmrm_deinit d else Some (Inr ()));
          Some (Inr (), m\<lparr>drv_data := Drv_defer, dev_drvdata := False\<rparr>) }
      | _ \<Rightarrow> None))"

section \<open>The exported functions\<close>

text \<open>The dispatch of \<^verbatim>\<open>mmrm_clk_rsrc_mgr.c\<close>: the operations of a manager are those of the software scheme, and a manager that is
  missing is refused.\<close>

definition mmrm_clk_client_register ::
    "clk_env \<Rightarrow> mmrm_uapi \<Rightarrow> mmrm_clk_platform_resources \<Rightarrow> u8 \<Rightarrow> bool \<Rightarrow> bool \<Rightarrow> mmrm_client_desc \<Rightarrow> mmrm_clk_mgr option \<Rightarrow>
       (mmrm_client option \<times> mmrm_clk_mgr option) option" where
  "mmrm_clk_client_register E u cres multi al1 al2 desc mgr =
     (case mgr of
        None \<Rightarrow> Some (None, None)
      | Some cm \<Rightarrow> do {
          (cl, si) \<leftarrow> mmrm_sw_clk_client_register E u cres multi al1 al2 (md_desc desc) (md_priority desc) (md_pvt_data desc)
             (md_notifier_callback_fn desc) (cm_sw_info cm);
          Some (cl, Some (cm\<lparr>cm_sw_info := si\<rparr>)) })"

definition on_clk_mgr ::
    "(mmrm_sw_clk_mgr_info \<Rightarrow> ((errno + 'a) \<times> mmrm_sw_clk_mgr_info) option) \<Rightarrow> mmrm_clk_mgr option \<Rightarrow>
       ((errno + 'a) \<times> mmrm_clk_mgr option) option" where
  "on_clk_mgr f mgr =
     (case mgr of
        None \<Rightarrow> Some (Inl EINVAL, None)
      | Some cm \<Rightarrow> map_option (\<lambda>(r, si). (r, Some (cm\<lparr>cm_sw_info := si\<rparr>))) (f (cm_sw_info cm)))"

definition mmrm_clk_client_deregister ::
    "mmrm_client \<Rightarrow> mmrm_clk_mgr option \<Rightarrow> ((errno + unit) \<times> mmrm_clk_mgr option) option" where
  "mmrm_clk_client_deregister client = on_clk_mgr (mmrm_sw_clk_client_deregister (Some client))"

definition mmrm_clk_client_setval ::
    "clk_env \<Rightarrow> mmrm_uapi \<Rightarrow> u8 \<Rightarrow> bool \<Rightarrow> mmrm_client \<Rightarrow> mmrm_client_data \<Rightarrow> u64 \<Rightarrow> mmrm_clk_mgr option \<Rightarrow>
       ((errno + unit) \<times> mmrm_clk_mgr option) option" where
  "mmrm_clk_client_setval E u thr al client client_data val =
     on_clk_mgr (mmrm_sw_clk_client_setval E u thr al (Some client) (Some client_data) val)"

definition mmrm_clk_client_setval_inrange ::
    "clk_env \<Rightarrow> mmrm_uapi \<Rightarrow> u8 \<Rightarrow> bool \<Rightarrow> mmrm_client \<Rightarrow> mmrm_client_data \<Rightarrow> mmrm_client_res_value \<Rightarrow> mmrm_clk_mgr option \<Rightarrow>
       ((errno + unit) \<times> mmrm_clk_mgr option) option" where
  "mmrm_clk_client_setval_inrange E u thr al client client_data val =
     on_clk_mgr (mmrm_sw_clk_client_setval_inrange E u thr al (Some client) (Some client_data) val)"

definition mmrm_clk_client_getval ::
    "mmrm_client \<Rightarrow> mmrm_clk_mgr option \<Rightarrow> ((errno + mmrm_client_res_value) \<times> mmrm_clk_mgr option) option" where
  "mmrm_clk_client_getval client =
     on_clk_mgr (\<lambda>si. map_option (\<lambda>r. (r, si)) (mmrm_sw_clk_client_getval (Some client) si))"

definition mmrm_client_check_scaling_supported :: "mmrm_uapi \<Rightarrow> u32 \<Rightarrow> mmrm_module \<Rightarrow> bool option" where
  "mmrm_client_check_scaling_supported u ty m =
     (if drv_data m = Drv_defer then Some False
      else if ty = MMRM_CLIENT_CLOCK u then
        (case drv_data m of Drv d \<Rightarrow> Some (dd_is_clk_scaling_supported d) | _ \<Rightarrow> None)
      else Some True)"

definition mmrm_client_register ::
    "clk_env \<Rightarrow> mmrm_uapi \<Rightarrow> bool \<Rightarrow> bool \<Rightarrow> mmrm_client_desc option \<Rightarrow> mmrm_module \<Rightarrow> (mmrm_client option \<times> mmrm_module) option" where
  "mmrm_client_register E u al1 al2 client_desc m =
     (case client_desc of
        None \<Rightarrow> Some (None, m)
      | Some desc \<Rightarrow>
          if drv_data m = Drv_defer then Some (None, m)
          else if md_client_type desc \<noteq> MMRM_CLIENT_CLOCK u then Some (None, m)
          else (case drv_data m of
            Drv d \<Rightarrow>
              if \<not> dd_is_clk_scaling_supported d then Some (None, m)
              else do {
                (cl, mgr) \<leftarrow> mmrm_clk_client_register E u (dd_clk_res d) (msm_mmrm_allow_multiple_register m) al1 al2 desc (dd_clk_mgr d);
                Some (cl, m\<lparr>drv_data := Drv (d\<lparr>dd_clk_mgr := mgr\<rparr>)\<rparr>) }
          | _ \<Rightarrow> None))"

text \<open>The common frame of the other functions: before the probe, for other types of clients and without clock clients they return 0
  and do nothing (\<open>dflt\<close>).\<close>

definition with_clk_client ::
    "mmrm_uapi \<Rightarrow> mmrm_client \<Rightarrow> 'a \<Rightarrow> (mmrm_clk_mgr option \<Rightarrow> ((errno + 'a) \<times> mmrm_clk_mgr option) option) \<Rightarrow> mmrm_module \<Rightarrow>
       ((errno + 'a) \<times> mmrm_module) option" where
  "with_clk_client u cl dflt f m =
     (if drv_data m = Drv_defer then Some (Inr dflt, m)
      else if client_type cl \<noteq> MMRM_CLIENT_CLOCK u then Some (Inr dflt, m)
      else (case drv_data m of
        Drv d \<Rightarrow>
          if \<not> dd_is_clk_scaling_supported d then Some (Inr dflt, m)
          else map_option (\<lambda>(r, mgr). (r, m\<lparr>drv_data := Drv (d\<lparr>dd_clk_mgr := mgr\<rparr>)\<rparr>)) (f (dd_clk_mgr d))
      | _ \<Rightarrow> None))"

definition mmrm_client_deregister :: "mmrm_uapi \<Rightarrow> mmrm_client option \<Rightarrow> mmrm_module \<Rightarrow> ((errno + unit) \<times> mmrm_module) option" where
  "mmrm_client_deregister u client m =
     (case client of
        None \<Rightarrow> Some (Inl EINVAL, m)
      | Some cl \<Rightarrow> with_clk_client u cl () (mmrm_clk_client_deregister cl) m)"

definition mmrm_client_set_value ::
    "clk_env \<Rightarrow> mmrm_uapi \<Rightarrow> bool \<Rightarrow> mmrm_client option \<Rightarrow> mmrm_client_data option \<Rightarrow> u64 \<Rightarrow> mmrm_module \<Rightarrow>
       ((errno + unit) \<times> mmrm_module) option" where
  "mmrm_client_set_value E u al client client_data val m =
     (case (client, client_data) of
        (Some cl, Some cd) \<Rightarrow>
          with_clk_client u cl () (mmrm_clk_client_setval E u (msm_mmrm_enable_throttle_feature m) al cl cd val) m
      | _ \<Rightarrow> Some (Inl EINVAL, m))"

definition mmrm_client_set_value_in_range ::
    "clk_env \<Rightarrow> mmrm_uapi \<Rightarrow> bool \<Rightarrow> mmrm_client option \<Rightarrow> mmrm_client_data option \<Rightarrow> mmrm_client_res_value option \<Rightarrow> mmrm_module \<Rightarrow>
       ((errno + unit) \<times> mmrm_module) option" where
  "mmrm_client_set_value_in_range E u al client client_data val m =
     (case (client, client_data, val) of
        (Some cl, Some cd, Some v) \<Rightarrow>
          with_clk_client u cl () (mmrm_clk_client_setval_inrange E u (msm_mmrm_enable_throttle_feature m) al cl cd v) m
      | _ \<Rightarrow> Some (Inl EINVAL, m))"

text \<open>The value is the caller's structure, which stays as it is where nothing is read.\<close>

definition mmrm_client_get_value ::
    "mmrm_uapi \<Rightarrow> mmrm_client option \<Rightarrow> mmrm_client_res_value option \<Rightarrow> mmrm_module \<Rightarrow>
       ((errno + mmrm_client_res_value) \<times> mmrm_module) option" where
  "mmrm_client_get_value u client val m =
     (case (client, val) of
        (Some cl, Some v) \<Rightarrow> with_clk_client u cl v (mmrm_clk_client_getval cl) m
      | _ \<Rightarrow> Some (Inl EINVAL, m))"

definition mmrm_client_get_clk_count :: "mmrm_module \<Rightarrow> u32 option" where
  "mmrm_client_get_clk_count m =
     (case drv_data m of
        Drv_defer \<Rightarrow> Some 0
      | Drv_null \<Rightarrow> None
      | Drv d \<Rightarrow> map_option (\<lambda>cm. tot_clk_clients (cm_sw_info cm)) (dd_clk_mgr d))"

text \<open>The two switches in sysfs; \<open>kstrtou32\<close> is the parser of the kernel. A buffer that is not a number changes nothing.\<close>

definition sysfs_get_param :: "(string \<Rightarrow> nat \<Rightarrow> u32 option) \<Rightarrow> string \<Rightarrow> u32 option" where
  "sysfs_get_param kstrtou32 buf =
     kstrtou32 buf (if 1 < length buf \<and> (buf ! 1 = CHR ''x'' \<or> buf ! 1 = CHR ''X'') then 16 else 10)"

definition mmrm_sysfs_enable_throttle_set :: "(string \<Rightarrow> nat \<Rightarrow> u32 option) \<Rightarrow> string \<Rightarrow> mmrm_module \<Rightarrow> mmrm_module" where
  "mmrm_sysfs_enable_throttle_set kstrtou32 buf m =
     (case sysfs_get_param kstrtou32 buf of None \<Rightarrow> m | Some v \<Rightarrow> m\<lparr>msm_mmrm_enable_throttle_feature := ucast v\<rparr>)"

definition mmrm_sysfs_allow_multiple_set :: "(string \<Rightarrow> nat \<Rightarrow> u32 option) \<Rightarrow> string \<Rightarrow> mmrm_module \<Rightarrow> mmrm_module" where
  "mmrm_sysfs_allow_multiple_set kstrtou32 buf m =
     (case sysfs_get_param kstrtou32 buf of None \<Rightarrow> m | Some v \<Rightarrow> m\<lparr>msm_mmrm_allow_multiple_register := ucast v\<rparr>)"

end
