(* ===== verification/Mmrm_Power.thy ===== *)
theory Mmrm_Power
  imports Complex_Main Mmrm_Driver
begin

unbundle bit_operations_syntax

text \<open>
  The tables that a registration computes. The fixed-point operations are related to natural numbers, one lemma
  for each; the currents are within half a milliampere (and a hundredth) of the exact quotient of power and voltage. The loop that
  steps through the rates of a clock finds, for every level, the highest rate that the level allows.
\<close>

section \<open>Fixed-point arithmetic without overflow\<close>

lemma unat_shr: "unat (drop_bit n (w :: 'a :: len word)) = unat w div 2 ^ n"
  unfolding unat_drop_bit_eq by (simp add: drop_bit_eq_div)

lemma unat_shl: "unat w * 2 ^ n < 2 ^ LENGTH('a) \<Longrightarrow> unat (push_bit n (w :: 'a :: len word)) = unat w * 2 ^ n"
  unfolding unsigned_push_bit_eq by (simp add: push_bit_eq_mult take_bit_eq_mod)

lemma unat_and_mask: "unat ((w :: 'a :: len word) AND mask n) = unat w mod 2 ^ n"
  unfolding take_bit_eq_mask[symmetric] unsigned_take_bit_eq by (simp add: take_bit_eq_mod)

lemma unat_u32: "unat (w :: u32) < 2 ^ 32"
  using unsigned_less[of w, where ?'a = nat] by simp

lemma unat_u64: "unat (w :: u64) < 2 ^ 64"
  using unsigned_less[of w, where ?'a = nat] by simp

lemma unat_ucast64 [simp]: "unat (ucast (w :: u32) :: u64) = unat w"
  using unat_u32[of w] by (simp add: unsigned_ucast_eq take_bit_nat_eq_self_iff)

lemma unat_fp_mult:
  assumes "unat a * unat b < 2 ^ 64"
  shows "unat (fp_mult a b) = unat a * unat b div 65536"
proof -
  have "unat (a * b) = unat a * unat b" using assms by (simp add: unat_mult_lem[THEN iffD1])
  then show ?thesis unfolding fp_mult_def FP_FRACTIONAL_BITS_def unat_shr by simp
qed

lemma fp_div_Some:
  assumes "b \<noteq> 0" and "unat a * 65536 < 2 ^ 64"
  shows "\<exists>c. fp_div a b = Some c \<and> unat c = unat a * 65536 div unat b"
proof -
  have "unat (push_bit 16 a) = unat a * 65536" using unat_shl[of a 16] assms(2) by simp
  then have "unat (push_bit 16 a div b) = unat a * 65536 div unat b" unfolding unat_div by simp
  then show ?thesis using assms(1) by (simp add: fp_div_def FP_FRACTIONAL_BITS_def)
qed

lemma round_div: "((x :: nat) + 32769) div 65536 = x div 65536 + (if 32767 \<le> x mod 65536 then 1 else 0)"
proof -
  define d r where "d = x div 65536" and "r = x mod 65536"
  have x: "x = d * 65536 + r" and r: "r < 65536" unfolding d_def r_def by simp_all
  have "(x + 32769) div 65536 = d + (r + 32769) div 65536" unfolding x by simp
  moreover have "(r + 32769) div 65536 = (if 32767 \<le> r then 1 else 0)" using r by (simp add: div_nat_eqI)
  ultimately show ?thesis unfolding d_def r_def by simp
qed

lemma unat_fp_round: "unat (fp_round a) = (unat a + 32769) div 65536"
proof -
  have fr: "unat (fp_frac a) = unat a mod 65536"
    unfolding fp_frac_def FP_FRACTIONAL_BITS_def unat_and_mask by simp
  have base: "unat (fp_frac_base div 2) = 32767"
    by (simp add: fp_frac_base_def FP_FRACTIONAL_BITS_def mask_numeral unat_div)
  have i: "unat (fp_int a) = unat a div 65536"
    unfolding fp_int_def FP_FRACTIONAL_BITS_def unat_shr by simp
  have "unat a < 2 ^ 64" by (rule unat_u64)
  then have "unat a div 65536 < 2 ^ 48" by (intro less_mult_imp_div_less) simp
  then have "unat a div 65536 + 1 < 2 ^ 64" by simp
  then have "unat (fp_int a + 1) = unat a div 65536 + 1"
    using i unat_add_lem[of "fp_int a" 1] by simp
  moreover have "fp_frac a \<ge> fp_frac_base div 2 \<longleftrightarrow> 32767 \<le> unat a mod 65536"
    unfolding word_le_nat_alt fr base by (rule refl)
  moreover have "(unat a + 32769) div 65536 = unat a div 65536 + (if 32767 \<le> unat a mod 65536 then 1 else 0)"
    by (rule round_div)
  ultimately show ?thesis by (simp add: fp_round_def i)
qed

lemma unat_Q16_INT: "unat (Q16_INT q) = unat q div 65536"
  unfolding Q16_INT_def unat_shr by simp

lemma unat_Q16_FRAC: "unat (Q16_FRAC q) = unat q mod 65536 * 100 div 65536"
proof -
  have "(q AND 0xFFFF) = q AND mask 16" by (simp add: mask_numeral)
  then have m: "unat (q AND 0xFFFF) = unat q mod 65536" by (simp only: unat_and_mask) simp
  have "unat q mod 65536 < 65536" by simp
  then have "unat q mod 65536 * 100 < 65536 * 100" by linarith
  then have "unat q mod 65536 * 100 < 2 ^ 32" by simp
  then have "unat ((q AND 0xFFFF) * 100) = unat q mod 65536 * 100"
    using m unat_mult_lem[of "q AND 0xFFFF" 100] by simp
  then show ?thesis unfolding Q16_FRAC_def unat_shr by simp
qed

lemma unat_q16_fp:
  "unat (q16_fp q) = unat q div 65536 * 65536 + unat q mod 65536 * 100 div 65536 * 65536 div 100"
proof -
  let ?n = "unat q mod 65536 * 100 div 65536"
  have q: "unat q < 2 ^ 32" by (rule unat_u32)
  have "unat q mod 65536 < 65536" by simp
  then have n: "?n < 100" by linarith
  have "unat (push_bit 16 (Q16_FRAC q)) = ?n * 65536"
    using unat_shl[of "Q16_FRAC q" 16] n by (simp add: unat_Q16_FRAC)
  then have f: "unat (push_bit 16 (Q16_FRAC q) div (100 :: u32)) = ?n * 65536 div 100" unfolding unat_div by simp
  have i: "unat (push_bit 16 (ucast (Q16_INT q)) :: u64) = unat q div 65536 * 65536"
    using q unat_shl[of "ucast (Q16_INT q) :: u64" 16] by (simp add: unat_Q16_INT)
  have "?n * 65536 div 100 < 65536" using n by (simp add: div_less_iff_less_mult)
  moreover have "unat q div 65536 * 65536 \<le> unat q" by simp
  ultimately have "unat q div 65536 * 65536 + ?n * 65536 div 100 < 2 ^ 32 + 65536" using q
    by (intro add_strict_mono) simp_all
  then have "unat q div 65536 * 65536 + ?n * 65536 div 100 < 2 ^ 64" by (rule less_trans) simp
  then show ?thesis
    using unat_add_lem[of "push_bit 16 (ucast (Q16_INT q)) :: u64" "ucast (push_bit 16 (Q16_FRAC q) div (100 :: u32))"]
    by (simp add: q16_fp_def FP_def FP_FRACTIONAL_BITS_def i f)
qed

text \<open>The conversion of a device tree value goes through hundredths and loses up to one of them.\<close>

lemma hundredths:
  fixes f :: nat
  shows "f * 100 div 65536 * 65536 div 100 \<le> f" "f \<le> f * 100 div 65536 * 65536 div 100 + 656"
proof -
  define g where "g = f * 100 div 65536"
  have "g * 65536 \<le> f * 100" by (simp add: g_def)
  then have "g * 65536 div 100 \<le> f * 100 div 100" by (rule div_le_mono)
  then show "f * 100 div 65536 * 65536 div 100 \<le> f" by (simp add: g_def)
  have "f * 100 = g * 65536 + f * 100 mod 65536" unfolding g_def by (rule div_mult_mod_eq[symmetric])
  then have 1: "f * 100 < g * 65536 + 65536" using mod_less_divisor[of 65536 "f * 100"] by linarith
  have "g * 65536 = g * 65536 div 100 * 100 + g * 65536 mod 100" by (rule div_mult_mod_eq[symmetric])
  then have "g * 65536 < g * 65536 div 100 * 100 + 100" using mod_less_divisor[of 100 "g * 65536"] by linarith
  with 1 show "f \<le> f * 100 div 65536 * 65536 div 100 + 656" unfolding g_def[symmetric] by linarith
qed

lemma q16_fp_bounds: "unat (q16_fp q) \<le> unat q" "unat q \<le> unat (q16_fp q) + 656"
  unfolding unat_q16_fp using hundredths[of "unat q mod 65536"] div_mult_mod_eq[of "unat q" 65536] by linarith+

lemma q16_fp_less: "unat (q16_fp q) < 2 ^ 32"
  using q16_fp_bounds(1)[of q] unat_u32[of q] by linarith

unbundle bit_operations_syntax

section \<open>Currents\<close>

text \<open>The computation on natural numbers: nominal powers \<open>P\<close> and \<open>L\<close>, rates \<open>f\<close> and \<open>n\<close> (nominal), scaling factors \<open>ds\<close> and \<open>ls\<close>, voltage \<open>v\<close>.\<close>

definition dyn_nat :: "nat \<Rightarrow> nat \<Rightarrow> nat \<Rightarrow> nat \<Rightarrow> nat" where
  "dyn_nat P f n ds = P * f div 65536 * 65536 div n * ds div 65536"

definition current_nat :: "nat \<Rightarrow> nat \<Rightarrow> nat \<Rightarrow> nat \<Rightarrow> nat \<Rightarrow> nat \<Rightarrow> nat \<Rightarrow> nat" where
  "current_nat P L f n ds ls v = ((dyn_nat P f n ds + L * ls div 65536) * 65536 div v + 32769) div 65536"

text \<open>What it approximates: the power divided by the voltage; all inputs but the rates are multiples of $2^{-16}$.\<close>

definition current_exact :: "nat \<Rightarrow> nat \<Rightarrow> nat \<Rightarrow> nat \<Rightarrow> nat \<Rightarrow> nat \<Rightarrow> nat \<Rightarrow> real" where
  "current_exact P L f n ds ls v = (real P * real f / real n * real ds + real L * real ls) / 65536 / real v"

lemma div_real_bounds:
  fixes a b :: nat
  shows "real (a div b) \<le> real a / real b" and "real a / real b - 1 \<le> real (a div b)"
  using of_nat_div_le_of_nat[of a b, where ?'a = real] real_of_int_div3[of "int a" "int b"] by (simp_all add: zdiv_int[symmetric])

lemma scaled_pwr_bounds:
  fixes P f n ds :: nat
  assumes "65536 \<le> n" and "ds \<le> 2 ^ 19"
  defines "t \<equiv> real P * real f / real n"
  shows "real (dyn_nat P f n ds) \<le> t * ds / 65536" and "t * ds / 65536 - 17 \<le> real (dyn_nat P f n ds)"
proof -
  define pw where "pw = P * f div 65536 * 65536 div n"
  have n: "0 < real n" using assms(1) by simp
  have "P * f = P * f div 65536 * 65536 + P * f mod 65536" by (rule div_mult_mod_eq[symmetric])
  moreover have "P * f mod 65536 < 65536" by simp
  ultimately have e: "P * f div 65536 * 65536 \<le> P * f" "P * f \<le> P * f div 65536 * 65536 + 65536" by linarith+
  have "real (P * f div 65536 * 65536) \<le> real (P * f)" "real (P * f) \<le> real (P * f div 65536 * 65536 + 65536)"
    using e of_nat_le_iff by blast+
  then have r: "real (P * f div 65536 * 65536) \<le> real P * real f" "real P * real f \<le> real (P * f div 65536 * 65536) + 65536"
    by simp_all
  have "real pw \<le> real (P * f div 65536 * 65536) / n" unfolding pw_def by (rule div_real_bounds)
  also have "\<dots> \<le> t" unfolding t_def using r(1) n by (intro divide_right_mono) simp_all
  finally have u: "real pw \<le> t" .
  have "t \<le> (real (P * f div 65536 * 65536) + 65536) / n" unfolding t_def using r(2) n by (intro divide_right_mono) simp_all
  also have "\<dots> = real (P * f div 65536 * 65536) / n + 65536 / n" by (rule add_divide_distrib)
  also have "\<dots> \<le> real (P * f div 65536 * 65536) / n + 1" using assms(1) by simp
  also have "\<dots> \<le> real pw + 2" unfolding pw_def using div_real_bounds(2)[of "P * f div 65536 * 65536" n] by linarith
  finally have l: "t - 2 \<le> real pw" by simp
  have d: "real (dyn_nat P f n ds) \<le> real (pw * ds) / 65536" "real (pw * ds) / 65536 - 1 \<le> real (dyn_nat P f n ds)"
    using div_real_bounds[of "pw * ds" 65536] by (simp_all add: dyn_nat_def pw_def)
  have "real pw * ds \<le> t * ds" using u by (rule mult_right_mono) simp
  then show "real (dyn_nat P f n ds) \<le> t * ds / 65536" using d(1) by simp
  have "(t - 2) * ds \<le> real pw * ds" using l by (rule mult_right_mono) simp
  then have "t * ds - 2 * real ds \<le> real pw * ds" by (simp add: left_diff_distrib)
  moreover have "real ds \<le> 2 ^ 19" using assms(2) by (metis of_nat_le_iff of_nat_numeral of_nat_power)
  ultimately show "t * ds / 65536 - 17 \<le> real (dyn_nat P f n ds)" using d(2) by simp
qed

lemma current_nat_accuracy:
  assumes "65536 \<le> n" and "ds \<le> 2 ^ 19" and "2 ^ 14 \<le> v"
  shows "\<bar>real (current_nat P L f n ds ls v) - current_exact P L f n ds ls v\<bar> \<le> 51 / 100"
proof -
  define w where "w = dyn_nat P f n ds + L * ls div 65536"
  define q where "q = w * 65536 div v"
  define S where "S = (real P * real f / real n * real ds + real L * real ls) / 65536"
  have v: "16384 \<le> real v" using assms(3) by simp
  have "real (L * ls div 65536) \<le> real L * real ls / 65536" "real L * real ls / 65536 - 1 \<le> real (L * ls div 65536)"
    using div_real_bounds[of "L * ls" 65536] by simp_all
  then have w: "real w \<le> S" "S - 18 \<le> real w"
    using scaled_pwr_bounds[OF assms(1,2), of P f] by (simp_all add: w_def S_def add_divide_distrib)
  have q: "real q \<le> real w * 65536 / v" "real w * 65536 / v - 1 \<le> real q"
    using div_real_bounds[of "w * 65536" v] by (simp_all add: q_def)
  have X: "current_exact P L f n ds ls v = S / v" by (simp add: current_exact_def S_def)
  have "real w / v \<le> S / v" using w(1) v by (intro divide_right_mono) simp_all
  moreover have "S / v - 18 / v \<le> real w / v" using w(2) v by (simp flip: diff_divide_distrib add: divide_right_mono)
  moreover have "18 / real v \<le> 18 / 16384" using v by (intro divide_left_mono) simp_all
  ultimately have wv: "real w / v \<le> S / v" "S / v - 18 / 16384 \<le> real w / v" by linarith+
  have c: "real (current_nat P L f n ds ls v) \<le> (real q + 32769) / 65536"
    "(real q + 32769) / 65536 - 1 \<le> real (current_nat P L f n ds ls v)"
    using div_real_bounds[of "q + 32769" 65536] by (simp_all add: current_nat_def q_def w_def)
  define x y where "x = real w / v" and "y = S / v"
  have "real w * 65536 / v = x * 65536" by (simp add: x_def)
  with q have q': "real q \<le> x * 65536" "x * 65536 - 1 \<le> real q" by simp_all
  from wv have "x \<le> y" "y - 18 / 16384 \<le> x" by (simp_all add: x_def y_def)
  moreover have "65536 * real (current_nat P L f n ds ls v) \<le> real q + 32769"
    "real q + 32769 - 65536 \<le> 65536 * real (current_nat P L f n ds ls v)" using c by (simp_all add: field_simps)
  ultimately have "real (current_nat P L f n ds ls v) - y \<le> 51 / 100" "y - real (current_nat P L f n ds ls v) \<le> 51 / 100"
    using q' by linarith+
  then show ?thesis unfolding X y_def[symmetric] by linarith
qed

text \<open>The code computes this without overflow for rates below 4 GHz and up to eight times the nominal one, scaling factors up
  to 8, and voltages from a quarter of a volt.\<close>

lemma dyn_nat_bounds:
  assumes "P < 2 ^ 32" and "f \<le> 8 * n" and "0 < n" and "ds \<le> 2 ^ 19"
  shows "P * f div 65536 * 65536 div n \<le> 2 ^ 35" and "P * f div 65536 * 65536 div n * ds \<le> 2 ^ 54" and "dyn_nat P f n ds \<le> 2 ^ 38"
proof -
  have "P * f div 65536 * 65536 \<le> P * f" by simp
  also have "\<dots> \<le> 2 ^ 32 * (8 * n)" using assms(1,2) by (intro mult_le_mono) simp_all
  finally have "P * f div 65536 * 65536 \<le> n * 2 ^ 35" by simp
  then have "P * f div 65536 * 65536 div n \<le> n * 2 ^ 35 div n" by (rule div_le_mono)
  then show 1: "P * f div 65536 * 65536 div n \<le> 2 ^ 35" using assms(3) by simp
  show 2: "P * f div 65536 * 65536 div n * ds \<le> 2 ^ 54" using mult_le_mono[OF 1 assms(4)] by simp
  show "dyn_nat P f n ds \<le> 2 ^ 38" using div_le_mono[OF 2, of 65536] by (simp add: dyn_nat_def)
qed

lemma dyn_pwr_word:
  assumes "unat P < 2 ^ 32" and "unat f < 2 ^ 32" and "unat f \<le> 8 * unat n" and "0 < unat n" and "unat ds \<le> 2 ^ 19"
  obtains pw where "fp_div (fp_mult P f) n = Some pw" and "unat (fp_mult pw ds) = dyn_nat (unat P) (unat f) (unat n) (unat ds)"
proof -
  have "unat P * unat f < 2 ^ 32 * 2 ^ 32" using assms(1,2) by (intro mult_strict_mono) simp_all
  then have m: "unat (fp_mult P f) = unat P * unat f div 65536" by (intro unat_fp_mult) simp
  have "unat P * unat f div 65536 * 65536 \<le> unat P * unat f" by simp
  then have "unat (fp_mult P f) * 65536 < 2 ^ 64" using m \<open>unat P * unat f < 2 ^ 32 * 2 ^ 32\<close> by simp
  moreover have "n \<noteq> 0" using assms(4) by auto
  ultimately obtain pw where pw: "fp_div (fp_mult P f) n = Some pw" "unat pw = unat P * unat f div 65536 * 65536 div unat n"
    using fp_div_Some[of n "fp_mult P f"] m by auto
  have "unat pw * unat ds < 2 ^ 64" unfolding pw(2) using dyn_nat_bounds(2)[OF assms(1,3,4,5)] by simp
  then have "unat (fp_mult pw ds) = dyn_nat (unat P) (unat f) (unat n) (unat ds)"
    using unat_fp_mult[of pw ds] by (simp add: pw(2) dyn_nat_def)
  with pw(1) show ?thesis by (rule that)
qed

lemma current_word:
  assumes "unat dyn \<le> 2 ^ 38" and "unat leak \<le> 2 ^ 35" and "2 ^ 14 \<le> unat v"
  obtains c where "fp_div (dyn + leak) v = Some c"
    and "unat (ucast (fp_round c) :: u32) = ((unat dyn + unat leak) * 65536 div unat v + 32769) div 65536"
proof -
  have a: "unat (dyn + leak) = unat dyn + unat leak" using assms(1,2) by (simp add: unat_add_lem[THEN iffD1])
  have "v \<noteq> 0" using assms(3) by auto
  then obtain c where c: "fp_div (dyn + leak) v = Some c" "unat c = (unat dyn + unat leak) * 65536 div unat v"
    using fp_div_Some[of v "dyn + leak"] a assms(1,2) by auto
  have "(unat dyn + unat leak) * 65536 div unat v \<le> (unat dyn + unat leak) * 65536" by simp
  also have "\<dots> \<le> 2 ^ 55" using assms(1,2) by simp
  finally have "unat c \<le> 2 ^ 55" by (simp add: c(2))
  have "(unat dyn + unat leak) * 65536 div unat v \<le> (unat dyn + unat leak) * 65536 div 2 ^ 14"
    using assms(3) by (intro div_le_mono2) simp_all
  also have "\<dots> \<le> 2 ^ 41" using assms(1,2) by simp
  finally have "(unat c + 32769) div 65536 < 2 ^ 32" unfolding c(2) by (intro less_mult_imp_div_less) simp
  then have "unat (ucast (fp_round c) :: u32) = (unat c + 32769) div 65536"
    by (simp add: unsigned_ucast_eq take_bit_nat_eq_self_iff unat_fp_round)
  with c show ?thesis by (intro that) simp_all
qed

lemma those_map_Some: "(\<And>x. x \<in> set xs \<Longrightarrow> f x = Some (g x)) \<Longrightarrow> those (map f xs) = Some (map g xs)"
  by (induction xs) auto

text \<open>The conditions on the corners of the device tree and the rates of the clock.\<close>

definition power_ok :: "corner_info list \<Rightarrow> u64 list \<Rightarrow> bool" where
  "power_ok cset freq \<longleftrightarrow> MMRM_VDD_LEVEL_MAX \<le> length cset \<and> length freq = MMRM_VDD_LEVEL_MAX \<and>
     65536 \<le> unat (freq ! MMRM_VDD_LEVEL_NOM) \<and>
     (\<forall>i \<in> {0..<MMRM_VDD_LEVEL_MAX}. unat (freq ! i) < 2 ^ 32 \<and> unat (freq ! i) \<le> 8 * unat (freq ! MMRM_VDD_LEVEL_NOM) \<and>
        unat (q16_fp (ci_scaling_factor_dyn (cset ! i))) \<le> 2 ^ 19 \<and> unat (q16_fp (ci_scaling_factor_leak (cset ! i))) \<le> 2 ^ 19 \<and>
        2 ^ 14 \<le> unat (q16_fp (ci_volt_factor (cset ! i))))"

definition spec_current :: "corner_info list \<Rightarrow> nom_clk_src_info \<Rightarrow> u64 list \<Rightarrow> nat \<Rightarrow> nat \<Rightarrow> nat" where
  "spec_current cset nom freq i j =
     current_nat (unat (q16_fp (ns_nom_dyn_pwr nom))) (unat (q16_fp (ns_nom_leak_pwr nom))) (unat (freq ! i))
       (unat (freq ! MMRM_VDD_LEVEL_NOM)) (unat (q16_fp (ci_scaling_factor_dyn (cset ! i))))
       (unat (q16_fp (ci_scaling_factor_leak (cset ! i)))) (unat (q16_fp (ci_volt_factor (cset ! j))))"

lemma power_okD:
  assumes "power_ok cset freq" and "i < 5"
  shows "i < length cset" "i < length freq" "3 < length freq" "65536 \<le> unat (freq ! 3)" "unat (freq ! i) < 2 ^ 32"
    "unat (freq ! i) \<le> 8 * unat (freq ! 3)" "unat (q16_fp (ci_scaling_factor_dyn (cset ! i))) \<le> 2 ^ 19"
    "unat (q16_fp (ci_scaling_factor_leak (cset ! i))) \<le> 2 ^ 19" "2 ^ 14 \<le> unat (q16_fp (ci_volt_factor (cset ! i)))"
  using assms by (auto simp: power_ok_def MMRM_VDD_LEVEL_MAX_def MMRM_VDD_LEVEL_NOM_def)

lemma curr_level_correct:
  assumes ok: "power_ok cset freq" and i: "i < 5"
  obtains a b row where "curr_level cset (q16_fp (ns_nom_dyn_pwr nom)) (q16_fp (ns_nom_leak_pwr nom)) freq i = Some (a, b, row)"
    and "length row = 5" and "\<forall>j < 5. unat (row ! j) = spec_current cset nom freq i j"
proof -
  note b = power_okD[OF ok i]
  define ds ls where "ds = q16_fp (ci_scaling_factor_dyn (cset ! i))" and "ls = q16_fp (ci_scaling_factor_leak (cset ! i))"
  define P L where "P = q16_fp (ns_nom_dyn_pwr nom)" and "L = q16_fp (ns_nom_leak_pwr nom)"
  have pl: "unat P < 2 ^ 32" "unat L < 2 ^ 32" unfolding P_def L_def by (rule q16_fp_less)+
  have n: "0 < unat (freq ! 3)" using b(4) by linarith
  obtain pw where pw: "fp_div (fp_mult P (freq ! i)) (freq ! 3) = Some pw"
    "unat (fp_mult pw ds) = dyn_nat (unat P) (unat (freq ! i)) (unat (freq ! 3)) (unat ds)"
    using dyn_pwr_word[OF pl(1) b(5,6) n, of ds] b(7) unfolding ds_def by blast
  have d: "unat (fp_mult pw ds) \<le> 2 ^ 38"
    unfolding pw(2) using dyn_nat_bounds(3)[OF pl(1) b(6) n] b(7) by (simp add: ds_def)
  have "unat L * unat ls \<le> 2 ^ 32 * 2 ^ 19" using pl(2) b(8) by (intro mult_le_mono) (simp_all add: ls_def)
  then have l: "unat (fp_mult L ls) = unat L * unat ls div 65536" "unat L * unat ls div 65536 \<le> 2 ^ 35"
    using unat_fp_mult[of L ls] div_le_mono[of "unat L * unat ls" "2 ^ 51" 65536] by simp_all
  define cell where "cell j = the (fp_div (fp_mult pw ds + fp_mult L ls) (q16_fp (ci_volt_factor (cset ! j))))" for j
  define row where "row = map (\<lambda>j. ucast (fp_round (cell j)) :: u32) [0..<5]"
  have j: "fp_div (fp_mult pw ds + fp_mult L ls) (q16_fp (ci_volt_factor (cset ! j))) = Some (cell j) \<and>
      unat (ucast (fp_round (cell j)) :: u32) = spec_current cset nom freq i j" if "j < 5" for j
  proof -
    have "2 ^ 14 \<le> unat (q16_fp (ci_volt_factor (cset ! j)))" using power_okD(9)[OF ok that] .
    from current_word[OF d _ this, of "fp_mult L ls"] l obtain c where
      "fp_div (fp_mult pw ds + fp_mult L ls) (q16_fp (ci_volt_factor (cset ! j))) = Some c"
      "unat (ucast (fp_round c) :: u32) = ((unat (fp_mult pw ds) + unat (fp_mult L ls)) * 65536 div
         unat (q16_fp (ci_volt_factor (cset ! j))) + 32769) div 65536" by auto
    note c = this(1) this(2)[unfolded pw(2) l(1)]
    have "((dyn_nat (unat P) (unat (freq ! i)) (unat (freq ! 3)) (unat ds) + unat L * unat ls div 65536) * 65536 div
         unat (q16_fp (ci_volt_factor (cset ! j))) + 32769) div 65536 = spec_current cset nom freq i j"
      unfolding spec_current_def current_nat_def P_def L_def ds_def ls_def MMRM_VDD_LEVEL_NOM_def by (rule refl)
    with c show ?thesis by (simp only: cell_def option.sel simp_thms)
  qed
  have "those (map (\<lambda>j. Option.bind (idx cset j) (\<lambda>cj. Option.bind (fp_div (fp_mult pw ds + fp_mult L ls) (q16_fp (ci_volt_factor cj)))
      (\<lambda>c. Some (ucast (fp_round c) :: u32)))) [0..<5]) = Some row"
    unfolding row_def using j power_okD(1)[OF ok] by (intro those_map_Some) simp
  then have "curr_level cset P L freq i = Some (ucast (fp_round (fp_mult pw ds)), ucast (fp_round (fp_mult L ls)), row)"
    using b(1-3) pw(1) by (simp add: curr_level_def MMRM_VDD_LEVEL_MAX_def MMRM_VDD_LEVEL_NOM_def ds_def ls_def)
  moreover have "length row = 5" "\<forall>j < 5. unat (row ! j) = spec_current cset nom freq i j"
    using j by (simp_all add: row_def)
  ultimately show ?thesis unfolding P_def L_def by (rule that)
qed

text \<open>What a current should be: the quotient of power and voltage, within 0.51 mA, where powers and factors of the device tree are read with
  an error of at most 656 units of $2^{-16}$.\<close>

definition near16 :: "nat \<Rightarrow> u32 \<Rightarrow> bool" where
  "near16 x q \<longleftrightarrow> x \<le> unat q \<and> unat q \<le> x + 656"

definition near_current :: "corner_info list \<Rightarrow> nom_clk_src_info \<Rightarrow> u64 list \<Rightarrow> nat \<Rightarrow> nat \<Rightarrow> u32 \<Rightarrow> bool" where
  "near_current cset nom freq i j m \<longleftrightarrow> (\<exists>P L ds ls v.
     near16 P (ns_nom_dyn_pwr nom) \<and> near16 L (ns_nom_leak_pwr nom) \<and> near16 ds (ci_scaling_factor_dyn (cset ! i)) \<and>
     near16 ls (ci_scaling_factor_leak (cset ! i)) \<and> near16 v (ci_volt_factor (cset ! j)) \<and>
     \<bar>real (unat m) - current_exact P L (unat (freq ! i)) (unat (freq ! MMRM_VDD_LEVEL_NOM)) ds ls v\<bar> \<le> 51 / 100)"

lemma near16_q16_fp: "near16 (unat (q16_fp q)) q"
  by (simp add: near16_def q16_fp_bounds)

lemma near_current_spec:
  assumes "power_ok cset freq" and "i < 5" and "j < 5" and "unat m = spec_current cset nom freq i j"
  shows "near_current cset nom freq i j m"
  unfolding near_current_def assms(4) spec_current_def
  unfolding MMRM_VDD_LEVEL_NOM_def
  by (intro exI conjI, (rule near16_q16_fp)+)
    (rule current_nat_accuracy[OF power_okD(4,7)[OF assms(1,2)] power_okD(9)[OF assms(1,3)]])

text \<open>C22: a registration computes, for every pair of levels, a current that is within 0.51 mA of the power of the client at the rate of
  the first level divided by the voltage of the second (\<open>current_exact\<close>, a real number); nothing overflows on the way, and the rest of the
  entry is unchanged.\<close>

theorem update_curr_accurate:
  assumes "find_csid (te_clk_src_id te) (clk_client_tbl s) = c" and "length (clk_client_tbl s) = unat (tot_clk_clients s)"
    and "c < length (clk_client_tbl s)" and "cr_clk_src_tbl cres = Some noms" and "c < length noms"
    and "cr_corner_tbl cres = Some cset" and "power_ok cset (te_freq te)"
  shows "\<exists>dp lp cm. mmrm_sw_update_curr cres s te = Some (Inr (te\<lparr>te_dyn_pwr := dp, te_leak_pwr := lp, te_current_ma := cm\<rparr>)) \<and>
    length cm = 5 \<and> (\<forall>i < 5. length (cm ! i) = 5 \<and> (\<forall>j < 5. near_current cset (noms ! c) (te_freq te) i j (cm ! i ! j)))"
proof -
  let ?lev = "curr_level cset (q16_fp (ns_nom_dyn_pwr (noms ! c))) (q16_fp (ns_nom_leak_pwr (noms ! c))) (te_freq te)"
  define ls where "ls = map (the \<circ> ?lev) [0..<5]"
  have l: "?lev i = Some (ls ! i) \<and> length (snd (snd (ls ! i))) = 5 \<and>
      (\<forall>j < 5. unat (snd (snd (ls ! i)) ! j) = spec_current cset (noms ! c) (te_freq te) i j)" if "i < 5" for i
  proof -
    note i5 = that
    obtain a b row where r: "?lev i = Some (a, b, row)" "length row = 5"
      "\<forall>j < 5. unat (row ! j) = spec_current cset (noms ! c) (te_freq te) i j"
      by (rule curr_level_correct[OF assms(7) i5, of "noms ! c"])
    then have "ls ! i = (a, b, row)" using i5 by (simp add: ls_def)
    with r show ?thesis by simp
  qed
  have len: "length ls = 5" by (simp add: ls_def)
  have "those (map ?lev [0..<5]) = Some ls" unfolding ls_def using l by (intro those_map_Some) (simp add: ls_def)
  moreover have "tbl_rows s = Some (clk_client_tbl s)" using assms(2) by (simp add: tbl_rows_def)
  ultimately have "mmrm_sw_update_curr cres s te = Some (Inr (te\<lparr>te_dyn_pwr := map fst ls,
      te_leak_pwr := map (fst \<circ> snd) ls, te_current_ma := map (snd \<circ> snd) ls\<rparr>))"
    using assms(1,3-6) by (simp add: mmrm_sw_update_curr_def MMRM_VDD_LEVEL_MAX_def)
  moreover have "length (map (snd \<circ> snd) ls ! i) = 5 \<and> (\<forall>j < 5. near_current cset (noms ! c) (te_freq te) i j (map (snd \<circ> snd) ls ! i ! j))"
    if "i < 5" for i
    using l[OF that] that len near_current_spec[OF assms(7) that] by simp
  moreover have "length (map (snd \<circ> snd) ls) = 5" using len by simp
  ultimately show ?thesis by blast
qed


section \<open>Rates\<close>

text \<open>A clock with a table of rates: a request is rounded up to the next rate of the table, or down to the last one.\<close>

definition ceil_rate :: "int list \<Rightarrow> int \<Rightarrow> int" where
  "ceil_rate rs v = (case filter (\<lambda>r. v \<le> r) rs of [] \<Rightarrow> last rs | r # _ \<Rightarrow> r)"

definition rate_table :: "clk_env \<Rightarrow> clk_ptr \<Rightarrow> int list \<Rightarrow> bool" where
  "rate_table E clk rs \<longleftrightarrow> rs \<noteq> [] \<and> sorted_wrt (<) rs \<and> 0 < hd rs \<and> last rs + CLK_RATE_STEP < LONG_MAX \<and>
     (\<forall>v. 0 < v \<and> v \<le> LONG_MAX \<longrightarrow> clk_round_rate E clk (of_int v) = ceil_rate rs v) \<and> clk_round_rate E clk (- 1) = last rs"

text \<open>The rates are further apart than the step of the loop.\<close>

fun spaced :: "int list \<Rightarrow> bool" where
  "spaced (r # r' # rs) \<longleftrightarrow> r + CLK_RATE_STEP < r' \<and> spaced (r' # rs)"
| "spaced _ \<longleftrightarrow> True"

definition rate_corner :: "clk_env \<Rightarrow> clk_ptr \<Rightarrow> int \<Rightarrow> int" where
  "rate_corner E clk r = qcom_clk_get_voltage E clk (of_int r)"

definition rate_valid :: "clk_env \<Rightarrow> mmrm_uapi \<Rightarrow> clk_ptr \<Rightarrow> int \<Rightarrow> bool" where
  "rate_valid E u clk r \<longleftrightarrow> 0 \<le> rate_corner E clk r \<and> rate_corner E clk r \<le> RPMH_REGULATOR_LEVEL_TURBO u"

definition rate_level :: "clk_env \<Rightarrow> mmrm_uapi \<Rightarrow> clk_ptr \<Rightarrow> int \<Rightarrow> nat" where
  "rate_level E u clk r = match_level u (max (rate_corner E clk r) (RPMH_REGULATOR_LEVEL_LOW_SVS u))"

text \<open>The rate of a level: the highest one that needs no higher level; rates from the first one with an unknown corner on are not used.\<close>

definition level_rate :: "clk_env \<Rightarrow> mmrm_uapi \<Rightarrow> clk_ptr \<Rightarrow> int list \<Rightarrow> nat \<Rightarrow> int" where
  "level_rate E u clk rs l =
     last (hd rs # filter (\<lambda>r. rate_level E u clk r \<le> l) (takeWhile (rate_valid E u clk) (tl rs)))"

text \<open>The loop without the steps in between.\<close>

definition add_rate :: "clk_env \<Rightarrow> mmrm_uapi \<Rightarrow> clk_ptr \<Rightarrow> int \<Rightarrow> u64 list \<Rightarrow> u64 list" where
  "add_rate E u clk r fr = set_from (rate_level E u clk r) (of_int r) fr"

lemma ceil_rate_eq:
  assumes "sorted_wrt (<) (pre @ r # rest)" and "\<forall>p \<in> set pre. p < v" and "v \<le> r"
  shows "ceil_rate (pre @ r # rest) v = r"
proof -
  have "filter (\<lambda>r. v \<le> r) pre = []" using assms(2) by (auto simp: filter_empty_conv)
  then show ?thesis using assms(3) by (simp add: ceil_rate_def)
qed

lemma ceil_rate_le:
  assumes "sorted_wrt (<) (pre @ r # rest)" and "v \<le> r"
  shows "ceil_rate (pre @ r # rest) v \<le> r"
proof (cases "filter (\<lambda>r. v \<le> r) pre")
  case Nil
  then show ?thesis using assms(2) by (simp add: ceil_rate_def)
next
  case (Cons a as)
  have "a \<in> set (filter (\<lambda>r. v \<le> r) pre)" unfolding Cons by simp
  then have "a \<in> set pre" by simp
  then have "a < r" using assms(1) by (auto simp: sorted_wrt_append)
  with Cons show ?thesis by (simp add: ceil_rate_def)
qed

lemma freq_step_new:
  assumes "clk_round_rate E clk (of_int v) = r" and "mn < r"
  shows "freq_step E u clk v (mn, fr) = (if rate_valid E u clk r then Some (r, add_rate E u clk r fr) else None)"
  using assms by (auto simp: freq_step_def Let_def rate_valid_def rate_corner_def add_rate_def rate_level_def max_def)

lemma freq_step_old: "clk_round_rate E clk (of_int v) \<le> fst st \<Longrightarrow> freq_step E u clk v st = Some st"
  by (simp add: freq_step_def)

lemma spaced_append: "spaced (pre @ r # r' # rest) \<Longrightarrow> r + CLK_RATE_STEP < r'"
  by (induction pre rule: spaced.induct) auto

lemma freq_loop_eq:
  assumes "rate_table E clk rs" and "spaced rs" and "rs = pre @ r # rest" and "0 < v" and "v \<le> r + CLK_RATE_STEP"
  shows "freq_loop E u clk v (last rs) (r, fr) = Some (fold (add_rate E u clk) (takeWhile (rate_valid E u clk) rest) fr)"
  using assms(3-5)
proof (induction "nat (last rs - v)" arbitrary: v pre r rest fr rule: less_induct)
  case less
  have st: "sorted_wrt (<) (pre @ r # rest)" using assms(1) less.prems(1) by (simp add: rate_table_def)
  have le: "r \<le> last rs" using st less.prems(1) by (cases rest rule: rev_cases) (auto simp: sorted_wrt_append)
  have lm: "last rs + CLK_RATE_STEP < LONG_MAX" using assms(1) by (simp add: rate_table_def)
  have pos: "0 < CLK_RATE_STEP" by (simp add: CLK_RATE_STEP_def)
  show ?case
  proof (cases "v < last rs")
    case False
    have "rest = []"
    proof (rule ccontr)
      assume "rest \<noteq> []"
      then obtain r' rest' where "rest = r' # rest'" by (cases rest) auto
      then have "r + CLK_RATE_STEP < r'" "r' \<le> last rs"
        using spaced_append[of pre r r' rest'] assms(2) less.prems(1) st
        by (auto simp: sorted_wrt_append, cases rest' rule: rev_cases, auto)
      with False less.prems(3) show False by simp
    qed
    with False show ?thesis by (simp add: freq_loop.simps)
  next
    case True
    have dec: "nat (last rs - (v + CLK_RATE_STEP)) < nat (last rs - v)" using True pos by simp
    have nov: "\<not> LONG_MAX < v + CLK_RATE_STEP" using True lm by simp
    have cr: "clk_round_rate E clk (of_int v) = ceil_rate rs v"
      using assms(1) less.prems(2) True lm pos by (simp add: rate_table_def)
    show ?thesis
    proof (cases "v \<le> r")
      case v: True
      have "freq_step E u clk v (r, fr) = Some (r, fr)"
        using ceil_rate_le[OF st v] cr less.prems(1) by (intro freq_step_old) simp
      then have "freq_loop E u clk v (last rs) (r, fr) = freq_loop E u clk (v + CLK_RATE_STEP) (last rs) (r, fr)"
        using True nov by (simp add: freq_loop.simps[of E u clk v])
      then show ?thesis using less.hyps[OF dec less.prems(1)] less.prems(2) v pos by simp
    next
      case v: False
      then obtain r' rest' where r': "rest = r' # rest'" using True less.prems(1) le by (cases rest) auto
      have "r + CLK_RATE_STEP < r'" using spaced_append[of pre r r' rest'] assms(2) less.prems(1) r' by simp
      then have vr: "v \<le> r'" using less.prems(3) by simp
      have rs: "rs = (pre @ [r]) @ r' # rest'" using less.prems(1) r' by simp
      have "\<forall>p \<in> set (pre @ [r]). p < v" using v st by (auto simp: sorted_wrt_append)
      then have "ceil_rate rs v = r'" using ceil_rate_eq[of "pre @ [r]" r' rest' v] st vr rs r' by simp
      then have "freq_step E u clk v (r, fr) = (if rate_valid E u clk r' then Some (r', add_rate E u clk r' fr) else None)"
        using cr st r' by (intro freq_step_new) (auto simp: sorted_wrt_append)
      moreover have "freq_loop E u clk (v + CLK_RATE_STEP) (last rs) (r', add_rate E u clk r' fr) =
          Some (fold (add_rate E u clk) (takeWhile (rate_valid E u clk) rest') (add_rate E u clk r' fr))"
        using less.hyps[OF dec rs] less.prems(2) vr pos by simp
      ultimately show ?thesis using True nov r' by (simp add: freq_loop.simps[of E u clk v])
    qed
  qed
qed

lemma length_set_from [simp]: "length (set_from i x xs) = length xs"
  by (simp add: set_from_def)

lemma nth_set_from: "l < length xs \<Longrightarrow> set_from i x xs ! l = (if i \<le> l then x else xs ! l)"
  by (auto simp: set_from_def nth_append)

lemma length_fold_add_rate [simp]: "length (fold (add_rate E u clk) rs fr) = length fr"
  by (induction rs arbitrary: fr) (simp_all add: add_rate_def)

lemma fold_add_rate:
  "l < length fr \<Longrightarrow> fr ! l = of_int x \<Longrightarrow>
   fold (add_rate E u clk) rs fr ! l = of_int (last (x # filter (\<lambda>r. rate_level E u clk r \<le> l) rs))"
proof (induction rs arbitrary: fr x)
  case (Cons r rs)
  have "add_rate E u clk r fr ! l = of_int (if rate_level E u clk r \<le> l then r else x)"
    using Cons.prems by (simp add: add_rate_def nth_set_from)
  with Cons.IH[of "add_rate E u clk r fr"] Cons.prems(1) show ?case by (simp add: add_rate_def)
qed simp

text \<open>C23: for a clock with a table of rates more than 1 MHz apart, the loop over the rates ends and records for every level the highest rate
  that the level allows, up to the first rate whose voltage is not usable; the rest of the entry is unchanged.\<close>

theorem update_freq_correct:
  assumes "rate_table E (te_clk te) rs" and "spaced rs"
  shows "\<exists>fr. mmrm_sw_update_freq E u te = Some (te\<lparr>te_freq := fr\<rparr>) \<and> length fr = MMRM_VDD_LEVEL_MAX \<and>
    (\<forall>l < MMRM_VDD_LEVEL_MAX. fr ! l = of_int (level_rate E u (te_clk te) rs l))"
proof -
  obtain r rest where rs: "rs = r # rest" using assms(1) by (cases rs) (auto simp: rate_table_def)
  have r: "0 < r" "\<forall>v. 0 < v \<and> v \<le> LONG_MAX \<longrightarrow> clk_round_rate E (te_clk te) (of_int v) = ceil_rate rs v"
    "clk_round_rate E (te_clk te) (- 1) = last rs" using assms(1) rs by (simp_all add: rate_table_def)
  have "clk_round_rate E (te_clk te) (of_int 1) = ceil_rate rs 1" by (rule r(2)[rule_format]) (simp add: LONG_MAX_def)
  then have mn: "clk_round_rate E (te_clk te) 1 = r" using r(1) by (simp add: rs ceil_rate_def)
  let ?f = "fold (add_rate E u (te_clk te)) (takeWhile (rate_valid E u (te_clk te)) rest) (replicate MMRM_VDD_LEVEL_MAX (of_int r))"
  have "freq_loop E u (te_clk te) r (last rs) (r, replicate MMRM_VDD_LEVEL_MAX (of_int r)) = Some ?f"
    using freq_loop_eq[OF assms, of "[]" r rest r] r(1) rs by (simp add: CLK_RATE_STEP_def)
  then have "mmrm_sw_update_freq E u te = Some (te\<lparr>te_freq := ?f\<rparr>)"
    by (simp add: mmrm_sw_update_freq_def mn r(3))
  moreover have "?f ! l = of_int (level_rate E u (te_clk te) rs l)" if "l < MMRM_VDD_LEVEL_MAX" for l
    using fold_add_rate[of l "replicate MMRM_VDD_LEVEL_MAX (of_int r)" r] that by (simp add: level_rate_def rs)
  ultimately show ?thesis by (intro exI[of _ ?f]) simp
qed

section \<open>A small platform\<close>

text \<open>An instance of the parameters: a clock with three rates, five corners and the power of two clients.\<close>

definition demo_uapi :: mmrm_uapi where
  "demo_uapi = \<lparr>RPMH_REGULATOR_LEVEL_LOW_SVS = 64, RPMH_REGULATOR_LEVEL_SVS = 128, RPMH_REGULATOR_LEVEL_SVS_L1 = 192,
     RPMH_REGULATOR_LEVEL_NOM = 256, RPMH_REGULATOR_LEVEL_TURBO = 384, MMRM_CLIENT_CLOCK = 0, MMRM_CLIENT_PRIOR_HIGH = 1,
     MMRM_CLIENT_DATA_FLAG_RESERVE_ONLY = 1, MMRM_CRM_SW_DRV = 0, MMRM_CLK_CLIENT_NAME_SIZE = 128,
     MMRM_CLIENT_DOMAIN_CAMERA = 1, MMRM_CLIENT_DOMAIN_CVP = 2, MMRM_CLIENT_DOMAIN_DISPLAY = 3, MMRM_CLIENT_DOMAIN_VIDEO = 4\<rparr>"

definition demo_rates :: "int list" where "demo_rates = [1000000, 3000000, 5000000]"

definition demo_env :: clk_env where
  "demo_env = \<lparr>clk_round_rate = (\<lambda>clk w. ceil_rate demo_rates (uint w)),
     qcom_clk_get_voltage = (\<lambda>clk w. if w \<le> 1000000 then 64 else if w \<le> 3000000 then 256 else 384),
     clk_set_rate = (\<lambda>l clk w. 0), qcom_clk_crm_set_rate = (\<lambda>l clk d p w. 0), notifier_cb_fn = (\<lambda>l f nd. 0)\<rparr>"

definition demo_corner :: "u32 \<Rightarrow> u32 \<Rightarrow> corner_info" where
  "demo_corner v sc = \<lparr>ci_name = ''corner'', ci_volt_factor = v, ci_scaling_factor_dyn = sc, ci_scaling_factor_leak = sc\<rparr>"

definition demo_corners :: "corner_info list" where
  "demo_corners = [demo_corner 32768 16384, demo_corner 49152 32768, demo_corner 49152 32768, demo_corner 65536 65536,
     demo_corner 65536 98304]"

definition demo_noms :: "nom_clk_src_info list" where
  "demo_noms = [\<lparr>ns_domain = 1, ns_clk_src_id = 2, ns_nom_dyn_pwr = 6553600, ns_nom_leak_pwr = 655360, ns_num_hw_block = 2\<rparr>,
     \<lparr>ns_domain = 3, ns_clk_src_id = 5, ns_nom_dyn_pwr = 13107200, ns_nom_leak_pwr = 655360, ns_num_hw_block = 1\<rparr>]"

definition demo_res :: mmrm_clk_platform_resources where
  "demo_res = \<lparr>cr_scheme = 0, cr_clsid_threshold_clients = [0, 0, 0, 0, 0], cr_throttle_clients_data_length = 0,
     cr_corner_tbl = Some demo_corners, cr_corner_count = 5, cr_clk_src_tbl = Some demo_noms, cr_clk_src_count = 2,
     cr_peak_threshold = 500\<rparr>"

lemma demo_rate_table: "rate_table demo_env clk demo_rates" "spaced demo_rates"
proof -
  have u: "uint (word_of_int v :: u64) = v" if "0 < v" "v \<le> LONG_MAX" for v
    using that by (simp add: uint_word_of_int_eq take_bit_int_eq_self LONG_MAX_def)
  have "uint (- 1 :: u64) = 18446744073709551615" by (simp add: unsigned_minus_1_eq_mask mask_numeral)
  then show "rate_table demo_env clk demo_rates" using u
    by (simp add: rate_table_def demo_env_def demo_rates_def ceil_rate_def CLK_RATE_STEP_def LONG_MAX_def)
qed (simp add: demo_rates_def CLK_RATE_STEP_def)

definition demo_entry :: mmrm_sw_clk_client_tbl_entry where
  "demo_entry = (prepare_entry (demo_noms ! 1) zero_entry)\<lparr>te_clk := Clk 7\<rparr>"

theorem update_freq_correct_witness:
  "\<exists>fr. mmrm_sw_update_freq demo_env demo_uapi demo_entry = Some (demo_entry\<lparr>te_freq := fr\<rparr>) \<and> length fr = MMRM_VDD_LEVEL_MAX \<and>
    fr ! 2 = 1000000 \<and> fr ! 3 = 3000000 \<and> fr ! 4 = 5000000"
proof -
  obtain fr where fr: "mmrm_sw_update_freq demo_env demo_uapi demo_entry = Some (demo_entry\<lparr>te_freq := fr\<rparr>)" "length fr = MMRM_VDD_LEVEL_MAX"
    "\<forall>l < MMRM_VDD_LEVEL_MAX. fr ! l = of_int (level_rate demo_env demo_uapi (te_clk demo_entry) demo_rates l)"
    using update_freq_correct[OF demo_rate_table, where te = demo_entry and u = demo_uapi] by blast
  have "level_rate demo_env demo_uapi (te_clk demo_entry) demo_rates l = (if l < 3 then 1000000 else if l < 4 then 3000000 else 5000000)"
    if "l < 5" for l
    using that by (auto simp: level_rate_def demo_rates_def rate_level_def rate_valid_def rate_corner_def demo_env_def demo_uapi_def
      match_level_def mmrm_sw_vdd_corner_def)
  with fr show ?thesis by (intro exI[of _ fr]) (simp add: MMRM_VDD_LEVEL_MAX_def)
qed

definition demo_info :: "mmrm_sw_clk_client_tbl_entry list \<Rightarrow> mmrm_sw_clk_mgr_info" where
  "demo_info tbl = \<lparr>clk_client_tbl = tbl, tot_clk_clients = of_nat (length tbl), enabled_clk_clients = 0,
     throttle_clients_info = replicate 5 \<lparr>ti_csid_throttle_client = 0, ti_tbl_entry_id = 0\<rparr>, throttle_clients_data_length = 0,
     peak_cur_data = \<lparr>pk_threshold = 500, pk_aggreg_val = 0, pk_aggreg_level = 0\<rparr>, throttled_clients = [], mmrm_log = []\<rparr>"

lemma demo_power_ok: "power_ok demo_corners [1000000, 1000000, 1000000, 3000000, 5000000]"
proof -
  have five: "{0..<5 :: nat} = {0, 1, 2, 3, 4}" by auto
  show ?thesis
    unfolding power_ok_def MMRM_VDD_LEVEL_MAX_def MMRM_VDD_LEVEL_NOM_def five
    by (simp add: demo_corners_def demo_corner_def unat_q16_fp)
qed

theorem update_curr_accurate_witness:
  "\<exists>dp lp cm. mmrm_sw_update_curr demo_res (demo_info (map2 prepare_entry demo_noms [zero_entry, zero_entry]))
      (demo_entry\<lparr>te_freq := [1000000, 1000000, 1000000, 3000000, 5000000]\<rparr>) =
    Some (Inr (demo_entry\<lparr>te_freq := [1000000, 1000000, 1000000, 3000000, 5000000], te_dyn_pwr := dp, te_leak_pwr := lp, te_current_ma := cm\<rparr>)) \<and>
    near_current demo_corners (demo_noms ! 1) [1000000, 1000000, 1000000, 3000000, 5000000] 4 3 (cm ! 4 ! 3)"
proof -
  have c: "find_csid (te_clk_src_id (demo_entry\<lparr>te_freq := [1000000, 1000000, 1000000, 3000000, 5000000]\<rparr>))
      (clk_client_tbl (demo_info (map2 prepare_entry demo_noms [zero_entry, zero_entry]))) = 1"
    by (simp add: find_csid_def demo_info_def demo_noms_def demo_entry_def prepare_entry_def zero_entry_def)
  let ?te = "demo_entry\<lparr>te_freq := [1000000, 1000000, 1000000, 3000000, 5000000]\<rparr>"
  let ?s = "demo_info (map2 prepare_entry demo_noms [zero_entry, zero_entry])"
  have l: "length (clk_client_tbl ?s) = unat (tot_clk_clients ?s)" "1 < length (clk_client_tbl ?s)" "1 < length demo_noms"
    "cr_clk_src_tbl demo_res = Some demo_noms" "cr_corner_tbl demo_res = Some demo_corners" "te_freq ?te = [1000000, 1000000, 1000000, 3000000, 5000000]"
    by (simp_all add: demo_info_def demo_noms_def demo_res_def)
  obtain dp lp cm where u: "mmrm_sw_update_curr demo_res ?s ?te = Some (Inr (?te\<lparr>te_dyn_pwr := dp, te_leak_pwr := lp, te_current_ma := cm\<rparr>))"
    "\<forall>i < 5. length (cm ! i) = 5 \<and> (\<forall>j < 5. near_current demo_corners (demo_noms ! 1) (te_freq ?te) i j (cm ! i ! j))"
    using update_curr_accurate[OF c l(1,2,4,3,5)] demo_power_ok unfolding l(6) by blast
  then have "near_current demo_corners (demo_noms ! 1) (te_freq ?te) 4 3 (cm ! 4 ! 3)" by simp
  with u(1) show ?thesis unfolding l(6) by blast
qed

end
