(* ===== verification/Mmrm_Admission.thy ===== *)
theory Mmrm_Admission
  imports Mmrm_Power
begin

unbundle bit_operations_syntax

text \<open>
  The budget. \<open>load\<close> is the current of one client at a voltage level and \<open>total_load\<close> their sum; the invariant \<open>peak_inv\<close> says that the
  aggregated current of the manager is that sum at the aggregated level and stays below the threshold. A request that needs no throttling is
  granted exactly when the new sum does, and then the invariant holds again; the votes of a CRM client are reduced to their maximum.
\<close>

section \<open>Load and invariant\<close>

definition load :: "nat \<Rightarrow> mmrm_sw_clk_client_tbl_entry \<Rightarrow> nat" where
  "load j te = (if te_clk_rate te = 0 then 0 else unat (te_current_ma te ! unat (te_vdd_level te) ! j) * unat (te_num_hw_blocks te))"

definition total_load :: "nat \<Rightarrow> mmrm_sw_clk_client_tbl_entry list \<Rightarrow> nat" where
  "total_load j tbl = sum_list (map (load j) tbl)"

definition max_list :: "nat list \<Rightarrow> nat" where
  "max_list xs = foldr max xs 0"

text \<open>The largest load that a client can ever have.\<close>

definition cap :: "mmrm_sw_clk_client_tbl_entry \<Rightarrow> nat" where
  "cap te = max_list (map unat (concat (te_current_ma te))) * unat (te_max_num_hw_blocks te)"

definition capacity :: "mmrm_sw_clk_client_tbl_entry list \<Rightarrow> nat" where
  "capacity tbl = sum_list (map cap tbl)"

text \<open>The votes of a CRM client: the recorded rate is the largest vote, and the recorded index the place of it.\<close>

definition votes_ok :: "u64 list \<Rightarrow> u64 \<Rightarrow> u32 \<Rightarrow> bool" where
  "votes_ok t rate i \<longleftrightarrow> unat i < length t \<and> t ! unat i = rate \<and> (\<forall>v \<in> set t. v \<le> rate) \<and> unat rate < 2 ^ 32"

definition crm_ok :: "mmrm_sw_clk_client_tbl_entry \<Rightarrow> bool" where
  "crm_ok te \<longleftrightarrow> (\<exists>t. te_crm_client_tbl te = Some t \<and> length t = unat (te_crm_client_tbl_size te) \<and>
     unat (te_crm_client_tbl_size te) = unat (te_hw_drv_instances te) * unat (te_num_pwr_states te) + 1 \<and>
     unat (te_hw_drv_instances te) \<le> 6 \<and> unat (te_num_pwr_states te) \<le> 5 \<and> votes_ok t (te_clk_rate te) (te_max_rate_idx te))"

definition tables_wf :: "mmrm_sw_clk_client_tbl_entry \<Rightarrow> bool" where
  "tables_wf te \<longleftrightarrow> length (te_current_ma te) = 5 \<and> (\<forall>row \<in> set (te_current_ma te). length row = 5) \<and> length (te_freq te) = 5"

definition entry_wf :: "mmrm_sw_clk_client_tbl_entry \<Rightarrow> bool" where
  "entry_wf te \<longleftrightarrow> tables_wf te \<and> unat (te_vdd_level te) < 5 \<and> unat (te_clk_rate te) < 2 ^ 32 \<and>
     (te_clk_rate te \<noteq> 0 \<longrightarrow> clk_ok (te_clk te) \<and> te_num_hw_blocks te \<le> te_max_num_hw_blocks te) \<and>
     (te_client te = None \<longrightarrow> te_clk te = ClkNull \<and> te_clk_rate te = 0 \<and> \<not> te_is_crm_client te) \<and> (te_is_crm_client te \<longrightarrow> crm_ok te)"

definition throttled_wf :: "mmrm_sw_clk_mgr_info \<Rightarrow> bool" where
  "throttled_wf s \<longleftrightarrow> (\<forall>td \<in> set (throttled_clients s). unat (tc_table_id td) < length (throttle_clients_info s) \<and>
     unat (ti_tbl_entry_id (throttle_clients_info s ! unat (tc_table_id td))) < length (clk_client_tbl s) \<and>
     unat (tc_prev_vdd_level td) < 5)"

definition peak_inv :: "mmrm_sw_clk_mgr_info \<Rightarrow> bool" where
  "peak_inv s \<longleftrightarrow> length (clk_client_tbl s) = unat (tot_clk_clients s) \<and> (\<forall>te \<in> set (clk_client_tbl s). entry_wf te) \<and>
     capacity (clk_client_tbl s) < 2 ^ 31 \<and> throttled_wf s \<and> unat (pk_aggreg_level (peak_cur_data s)) < 5 \<and>
     unat (pk_aggreg_val (peak_cur_data s)) = total_load (unat (pk_aggreg_level (peak_cur_data s))) (clk_client_tbl s) \<and>
     (pk_aggreg_val (peak_cur_data s) = 0 \<or> pk_aggreg_val (peak_cur_data s) < pk_threshold (peak_cur_data s))"

lemma max_list_ge: "x \<in> set xs \<Longrightarrow> x \<le> max_list xs"
  unfolding max_list_def by (induction xs) auto

lemma cur_at_Some:
  "tables_wf te \<Longrightarrow> unat i < 5 \<Longrightarrow> unat j < 5 \<Longrightarrow> cur_at te i j = Some (te_current_ma te ! unat i ! unat j)"
  by (auto simp: cur_at_def tables_wf_def)

lemma cur_le_max: "tables_wf te \<Longrightarrow> i < 5 \<Longrightarrow> j < 5 \<Longrightarrow> unat (te_current_ma te ! i ! j) \<le> max_list (map unat (concat (te_current_ma te)))"
proof (rule max_list_ge)
  assume "tables_wf te" "i < 5" "j < 5"
  then have "te_current_ma te ! i \<in> set (te_current_ma te)" "j < length (te_current_ma te ! i)" by (auto simp: tables_wf_def)
  then have "te_current_ma te ! i ! j \<in> set (concat (te_current_ma te))" by (auto intro: nth_mem)
  then show "unat (te_current_ma te ! i ! j) \<in> set (map unat (concat (te_current_ma te)))" by simp
qed

lemma load_le_cap: "entry_wf te \<Longrightarrow> j < 5 \<Longrightarrow> load j te \<le> cap te"
  unfolding load_def cap_def by (auto simp: entry_wf_def word_le_nat_alt intro!: mult_le_mono cur_le_max)

lemma total_update:
  "k < length tbl \<Longrightarrow> total_load j (tbl[k := te]) = total_load j tbl - load j (tbl ! k) + load j te"
  by (simp add: total_load_def map_update sum_list_update member_le_sum_list)

lemma load_le_total: "k < length tbl \<Longrightarrow> load j (tbl ! k) \<le> total_load j tbl"
  unfolding total_load_def by (rule member_le_sum_list) simp_all

lemma total_le_capacity: "\<forall>te \<in> set tbl. entry_wf te \<Longrightarrow> j < 5 \<Longrightarrow> total_load j tbl \<le> capacity tbl"
  unfolding total_load_def capacity_def by (rule sum_list_mono) (simp add: load_le_cap)

text \<open>The load of the others, and the limit for a new load of client \<open>k\<close>.\<close>

lemma others_bound:
  assumes "\<forall>te \<in> set tbl. entry_wf te" and "j < 5" and "k < length tbl" and "x \<le> cap (tbl ! k)"
  shows "total_load j tbl - load j (tbl ! k) + x \<le> capacity tbl"
proof -
  have "total_load j tbl - load j (tbl ! k) = total_load j (tbl[k := (tbl ! k)\<lparr>te_clk_rate := 0\<rparr>])"
    using assms(3) by (simp add: total_update load_def[of j "_\<lparr>te_clk_rate := 0\<rparr>"])
  also have "\<dots> = sum_list ((map (load j) tbl)[k := 0])" by (simp add: total_load_def map_update load_def)
  also have "\<dots> \<le> sum_list ((map cap tbl)[k := 0])"
    using assms(1,2,3) load_le_cap
    by (intro sum_list_mono2) (auto simp: nth_list_update)
  also have "\<dots> = capacity tbl - cap (tbl ! k)" using assms(3) by (simp add: capacity_def sum_list_update)
  finally show ?thesis using assms(3,4) member_le_sum_list[of "cap (tbl ! k)" "map cap tbl"] by (simp add: capacity_def)
qed

section \<open>The sum of the others\<close>

lemma total_loop_append:
  "\<forall>te \<in> set pre. entry_wf te \<Longrightarrow> unat l < 5 \<Longrightarrow> new < c \<or> c + length pre \<le> new \<Longrightarrow>
   total_loop new l c (pre @ tes) acc = total_loop new l (c + length pre) tes (acc + of_nat (total_load (unat l) pre))"
proof (induction pre arbitrary: c acc)
  case (Cons te pre)
  have wf: "entry_wf te" and c: "c \<noteq> new" using Cons.prems by auto
  have IH: "total_loop new l (Suc c) (pre @ tes) a = total_loop new l (c + length (te # pre)) tes (a + of_nat (total_load (unat l) pre))" for a
    using Cons.IH[of "Suc c" a] Cons.prems by auto
  show ?case
  proof (cases "te_clk_rate te = 0")
    case True
    then show ?thesis using IH[of acc] by (simp add: total_load_def load_def)
  next
    case False
    have "cur_at te (te_vdd_level te) l = Some (te_current_ma te ! unat (te_vdd_level te) ! unat l)"
      using wf Cons.prems(2) by (intro cur_at_Some) (simp_all add: entry_wf_def)
    moreover have "clk_ok (te_clk te)" using wf False by (simp add: entry_wf_def)
    ultimately show ?thesis using False c IH by (simp add: total_load_def load_def add.assoc)
  qed
qed (simp add: total_load_def)

lemma total_loop_others:
  assumes "\<forall>te \<in> set tbl. entry_wf te" and "unat l < 5" and "k < length tbl"
  shows "total_loop k l 0 tbl 0 = Some (of_nat (total_load (unat l) tbl - load (unat l) (tbl ! k)))"
proof -
  define pre post where "pre = take k tbl" and "post = drop (Suc k) tbl"
  have tbl: "tbl = pre @ (tbl ! k) # post" unfolding pre_def post_def by (rule id_take_nth_drop[OF assms(3)])
  have k: "length pre = k" using assms(3) by (simp add: pre_def)
  have wf: "\<forall>te \<in> set pre. entry_wf te" "\<forall>te \<in> set post. entry_wf te"
    using assms(1) by (auto simp: pre_def post_def dest: in_set_takeD in_set_dropD)
  have "total_loop k l 0 tbl 0 = total_loop k l k ((tbl ! k) # post) (of_nat (total_load (unat l) pre))"
    using total_loop_append[OF wf(1) assms(2), of k 0 "(tbl ! k) # post" 0] k tbl by simp
  also have "\<dots> = total_loop k l (Suc k) (post @ []) (of_nat (total_load (unat l) pre))" by simp
  also have "\<dots> = Some (of_nat (total_load (unat l) pre + total_load (unat l) post))"
    using total_loop_append[OF wf(2) assms(2), of k "Suc k" "[]"] by simp
  also have "total_load (unat l) pre + total_load (unat l) post = total_load (unat l) tbl - load (unat l) (tbl ! k)"
  proof -
    have "total_load (unat l) tbl = total_load (unat l) (pre @ (tbl ! k) # post)" using tbl by simp
    also have "\<dots> = total_load (unat l) pre + load (unat l) (tbl ! k) + total_load (unat l) post" by (simp add: total_load_def)
    finally show ?thesis by simp
  qed
  finally show ?thesis .
qed

section \<open>The check of a request\<close>

text \<open>The adjusted level of a request and the load after it.\<close>

definition adj_level :: "mmrm_sw_clk_mgr_info \<Rightarrow> nat \<Rightarrow> u32 \<Rightarrow> u32" where
  "adj_level s k req = (case mmrm_sw_check_req_level s (te_clk_src_id (clk_client_tbl s ! k)) req of Some (Inr l) \<Rightarrow> l | _ \<Rightarrow> 0)"

definition new_load :: "mmrm_sw_clk_client_tbl_entry \<Rightarrow> u32 \<Rightarrow> u32 \<Rightarrow> nat \<Rightarrow> nat \<Rightarrow> nat" where
  "new_load te rate num i j = (if rate = 0 then 0 else unat (te_current_ma te ! i ! j) * unat num)"

definition new_total :: "mmrm_sw_clk_mgr_info \<Rightarrow> nat \<Rightarrow> u32 \<Rightarrow> u32 \<Rightarrow> u32 \<Rightarrow> nat" where
  "new_total s k req rate num = (let j = unat (adj_level s k req); te = clk_client_tbl s ! k in
     total_load j (clk_client_tbl s) - load j te + new_load te rate num (unat req) j)"

lemma req_level_loop_bound:
  "\<forall>te \<in> set tes. unat (te_vdd_level te) < 5 \<Longrightarrow> (\<forall>l. nm = Some l \<longrightarrow> unat l < 5) \<Longrightarrow>
   snd (req_level_loop csid req al tes nm) = Some l \<Longrightarrow> unat l < 5"
  by (induction tes arbitrary: nm) (auto split: if_splits)

lemma check_req_level_Some:
  assumes "peak_inv s" and "unat req < 5"
  shows "mmrm_sw_check_req_level s (te_clk_src_id (clk_client_tbl s ! k)) req = Some (Inr (adj_level s k req))"
    and "unat (adj_level s k req) < 5"
proof -
  let ?al = "pk_aggreg_level (peak_cur_data s)" and ?csid = "te_clk_src_id (clk_client_tbl s ! k)"
  have rows: "tbl_rows s = Some (clk_client_tbl s)" using assms(1) by (simp add: peak_inv_def tbl_rows_def)
  have al: "unat ?al < 5" and vdd: "\<forall>te \<in> set (clk_client_tbl s). unat (te_vdd_level te) < 5"
    using assms(1) by (auto simp: peak_inv_def entry_wf_def)
  obtain b nm where l: "req_level_loop ?csid req ?al (clk_client_tbl s) None = (b, nm)" by (cases "req_level_loop ?csid req ?al (clk_client_tbl s) None")
  have "unat x < 5" if "nm = Some x" for x using req_level_loop_bound[OF vdd, of None ?csid req ?al x] l that by simp
  then have "\<exists>a. mmrm_sw_check_req_level s ?csid req = Some (Inr a) \<and> unat a < 5"
    using assms(2) al rows l by (cases b; cases nm) (simp_all add: mmrm_sw_check_req_level_def MMRM_VDD_LEVEL_MAX_def)
  then obtain a where "mmrm_sw_check_req_level s ?csid req = Some (Inr a)" "unat a < 5" by blast
  then show "mmrm_sw_check_req_level s ?csid req = Some (Inr (adj_level s k req))" "unat (adj_level s k req) < 5"
    by (simp_all add: adj_level_def)
qed

lemma new_load_le_cap:
  "tables_wf te \<Longrightarrow> i < 5 \<Longrightarrow> j < 5 \<Longrightarrow> num \<le> te_max_num_hw_blocks te \<Longrightarrow> new_load te rate num i j \<le> cap te"
  unfolding new_load_def cap_def by (auto simp: word_le_nat_alt intro!: mult_le_mono cur_le_max)

lemma peak_request_eq:
  assumes inv: "peak_inv s" and k: "k < length (clk_client_tbl s)" and req: "unat req < 5"
  obtains p d where "peak_request s k req (adj_level s k req) rate num = Some (Inr (p, d))"
    and "p + d = of_nat (new_total s k req rate num)"
proof -
  let ?te = "clk_client_tbl s ! k" and ?j = "adj_level s k req" and ?al = "pk_aggreg_level (peak_cur_data s)"
  have wf: "\<forall>te \<in> set (clk_client_tbl s). entry_wf te" and al: "unat ?al < 5"
    and agg: "unat (pk_aggreg_val (peak_cur_data s)) = total_load (unat ?al) (clk_client_tbl s)"
    and rows: "tbl_rows s = Some (clk_client_tbl s)"
    using inv by (simp_all add: peak_inv_def tbl_rows_def)
  have te: "entry_wf ?te" using wf k by simp
  have t: "tables_wf ?te" "unat (te_vdd_level ?te) < 5" using te by (simp_all add: entry_wf_def)
  note j = check_req_level_Some(2)[OF inv req, of k]
  define new_cur where "new_cur = (of_nat (new_load ?te rate num (unat req) (unat ?j)) :: u32)"
  define old_cur where "old_cur = (of_nat (load (unat ?al) ?te) :: u32)"
  have n: "(if rate \<noteq> 0 then map_option (\<lambda>m. m * num) (cur_at ?te req ?j) else Some 0) = Some new_cur"
    using cur_at_Some[OF t(1) req j] by (simp add: new_cur_def new_load_def)
  have o: "(if te_clk_rate ?te \<noteq> 0 then map_option (\<lambda>m. m * te_num_hw_blocks ?te) (cur_at ?te (te_vdd_level ?te) ?al) else Some 0) = Some old_cur"
    using cur_at_Some[OF t al] by (simp add: old_cur_def load_def)
  show ?thesis
  proof (cases "?j = ?al")
    case True
    have "peak_request s k req ?j rate num = Some (Inr (pk_aggreg_val (peak_cur_data s), new_cur - old_cur))"
      unfolding peak_request_def using k n o True by simp
    moreover have "pk_aggreg_val (peak_cur_data s) = of_nat (total_load (unat ?al) (clk_client_tbl s))"
      unfolding agg[symmetric] by simp
    then have "pk_aggreg_val (peak_cur_data s) + (new_cur - old_cur) = of_nat (new_total s k req rate num)"
      using load_le_total[OF k, of "unat ?al"] by (simp add: new_total_def Let_def new_cur_def old_cur_def of_nat_diff True)
    ultimately show ?thesis by (rule that)
  next
    case False
    have "mmrm_sw_calculate_total_current s ?j k =
        Some (Inr (of_nat (total_load (unat ?j) (clk_client_tbl s) - load (unat ?j) ?te)))"
      using total_loop_others[OF wf j k] j rows by (simp add: mmrm_sw_calculate_total_current_def MMRM_VDD_LEVEL_MAX_def)
    then have "peak_request s k req ?j rate num =
        Some (Inr (of_nat (total_load (unat ?j) (clk_client_tbl s) - load (unat ?j) ?te) + new_cur, 0))"
      unfolding peak_request_def using k n o False by simp
    then show ?thesis by (rule that) (simp add: new_total_def Let_def new_cur_def)
  qed
qed

lemma new_total_bound:
  assumes "peak_inv s" and "k < length (clk_client_tbl s)" and "unat req < 5" and "num \<le> te_max_num_hw_blocks (clk_client_tbl s ! k)"
  shows "new_total s k req rate num < 2 ^ 31"
proof -
  have wf: "\<forall>te \<in> set (clk_client_tbl s). entry_wf te" "capacity (clk_client_tbl s) < 2 ^ 31" using assms(1) by (simp_all add: peak_inv_def)
  have "tables_wf (clk_client_tbl s ! k)" using wf(1) assms(2) by (simp add: entry_wf_def)
  note j = check_req_level_Some(2)[OF assms(1,3), of k]
  have "new_total s k req rate num \<le> capacity (clk_client_tbl s)"
    unfolding new_total_def Let_def
    by (rule others_bound[OF wf(1) j assms(2)]) (rule new_load_le_cap[OF \<open>tables_wf _\<close> assms(3) j assms(4)])
  then show ?thesis using wf(2) by simp
qed

text \<open>Reinstating clients only tells them, and takes them off the list.\<close>

definition notified :: "mmrm_sw_clk_mgr_info \<Rightarrow> mmrm_sw_clk_mgr_info \<Rightarrow> bool" where
  "notified s s' \<longleftrightarrow> (\<exists>keep evs. s' = s\<lparr>throttled_clients := keep, mmrm_log := mmrm_log s @ evs\<rparr> \<and>
     set keep \<subseteq> set (throttled_clients s) \<and> (\<forall>e \<in> set evs. \<exists>f nd. e = Ev_notify f nd))"

lemma notified_refl: "notified s s"
  unfolding notified_def by (intro exI[of _ "throttled_clients s"] exI[of _ "[]"]) simp

lemma reinstate_loop_Some:
  assumes "\<forall>te \<in> set (clk_client_tbl s). length (te_freq te) = 5"
    and "\<forall>td \<in> set tds. unat (tc_table_id td) < length (throttle_clients_info s) \<and>
      unat (ti_tbl_entry_id (throttle_clients_info s ! unat (tc_table_id td))) < length (clk_client_tbl s) \<and> unat (tc_prev_vdd_level td) < 5"
  shows "\<exists>keep evs. reinstate_loop E tds s = Some (keep, s\<lparr>mmrm_log := mmrm_log s @ evs\<rparr>) \<and> set keep \<subseteq> set tds \<and>
     (\<forall>e \<in> set evs. \<exists>f nd. e = Ev_notify f nd)"
  using assms
proof (induction tds arbitrary: s)
  case (Cons td tds)
  have nt: "snd (notify_client E te a b rc s) = s\<lparr>mmrm_log := mmrm_log s @ evs\<rparr>"
    if "evs = (case te_notifier_cb_fn te of None \<Rightarrow> [] | Some f \<Rightarrow> [Ev_notify f \<lparr>nv_old_val = a, nv_new_val = b, nv_pvt_data = te_pvt_data te\<rparr>])"
    for te a b rc evs using that by (simp add: notify_client_def Let_def log_event_def split: option.splits)
  show ?case
  proof (cases "pk_aggreg_val (peak_cur_data s) + tc_delta_cu_ma td \<le> pk_threshold (peak_cur_data s)")
    case True
    define te where "te = clk_client_tbl s ! unat (ti_tbl_entry_id (throttle_clients_info s ! unat (tc_table_id td)))"
    define ev where "ev = (case te_notifier_cb_fn te of None \<Rightarrow> [] | Some f \<Rightarrow> [Ev_notify f \<lparr>nv_old_val = te_freq te ! 0,
       nv_new_val = te_freq te ! unat (tc_prev_vdd_level td), nv_pvt_data = te_pvt_data te\<rparr>])"
    have l: "length (te_freq te) = 5" using Cons.prems by (simp add: te_def)
    have "reinstate_loop E (td # tds) s = reinstate_loop E tds (s\<lparr>mmrm_log := mmrm_log s @ ev\<rparr>)"
      using True Cons.prems(2) l nt[OF ev_def] by (simp add: te_def[symmetric] MMRM_VDD_LEVEL_LOW_SVS_def)
    moreover obtain keep evs where "reinstate_loop E tds (s\<lparr>mmrm_log := mmrm_log s @ ev\<rparr>) = Some (keep, s\<lparr>mmrm_log := (mmrm_log s @ ev) @ evs\<rparr>)"
      "set keep \<subseteq> set tds" "\<forall>e \<in> set evs. \<exists>f nd. e = Ev_notify f nd"
      using Cons.IH[of "s\<lparr>mmrm_log := mmrm_log s @ ev\<rparr>"] Cons.prems by auto
    moreover have "\<forall>e \<in> set ev. \<exists>f nd. e = Ev_notify f nd" by (auto simp: ev_def split: option.splits)
    ultimately show ?thesis by (intro exI[of _ keep] exI[of _ "ev @ evs"]) auto
  next
    case False
    with Cons.IH[of s] Cons.prems show ?thesis by fastforce
  qed
qed (auto intro: exI[of _ "[]"])

lemma reinstate_notified:
  assumes "\<forall>te \<in> set (clk_client_tbl s). length (te_freq te) = 5" and "throttled_wf s"
  obtains s' where "mmrm_reinstate_throttled_client E s = Some s'" and "notified s s'"
proof -
  obtain keep evs where r: "reinstate_loop E (throttled_clients s) s = Some (keep, s\<lparr>mmrm_log := mmrm_log s @ evs\<rparr>)"
    "set keep \<subseteq> set (throttled_clients s)" "\<forall>e \<in> set evs. \<exists>f nd. e = Ev_notify f nd"
    using reinstate_loop_Some[of s "throttled_clients s" E] assms by (auto simp: throttled_wf_def)
  show ?thesis
    by (rule that[of "s\<lparr>throttled_clients := keep, mmrm_log := mmrm_log s @ evs\<rparr>"])
      (use r in \<open>auto simp: mmrm_reinstate_throttled_client_def notified_def\<close>)
qed

text \<open>The check decides by the new sum alone, as long as the request cannot throttle another client.\<close>

definition no_throttle :: "mmrm_uapi \<Rightarrow> u8 \<Rightarrow> mmrm_sw_clk_client_tbl_entry \<Rightarrow> bool" where
  "no_throttle u thr te \<longleftrightarrow> thr = 0 \<or> te_pri te \<noteq> MMRM_CLIENT_PRIOR_HIGH u"

definition admitted :: "mmrm_sw_clk_mgr_info \<Rightarrow> nat \<Rightarrow> u32 \<Rightarrow> u32 \<Rightarrow> u32 \<Rightarrow> bool" where
  "admitted s k req rate num \<longleftrightarrow> new_total s k req rate num = 0 \<or> new_total s k req rate num < unat (pk_threshold (peak_cur_data s))"

lemma sint_of_nat: "n < 2 ^ 31 \<Longrightarrow> sint (of_nat n :: u32) = int n"
  by (simp add: signed_of_nat signed_take_bit_int_eq_self)

lemma unat_of_nat32: "n < 2 ^ 31 \<Longrightarrow> unat (of_nat n :: u32) = n"
  by (simp add: unsigned_of_nat take_bit_nat_eq_self)

lemma check_peak_eq:
  assumes inv: "peak_inv s" and k: "k < length (clk_client_tbl s)" and req: "unat req < 5"
    and num: "num \<le> te_max_num_hw_blocks (clk_client_tbl s ! k)" and nt: "no_throttle u thr (clk_client_tbl s ! k)"
  obtains s1 where "mmrm_sw_check_peak_current E u thr al k req rate num s =
      Some (if admitted s k req rate num then (Inr (), s1) else (Inl EINVAL, s))"
    and "notified (upd_peak (of_nat (new_total s k req rate num)) (adj_level s k req) s) s1"
proof -
  define T where "T = new_total s k req rate num"
  have T: "T < 2 ^ 31" unfolding T_def by (rule new_total_bound[OF inv k req num])
  obtain p d where pd: "peak_request s k req (adj_level s k req) rate num = Some (Inr (p, d))" "p + d = of_nat T"
    using peak_request_eq[OF inv k req] unfolding T_def by blast
  let ?s = "upd_peak (of_nat T) (adj_level s k req) s"
  have "\<forall>te \<in> set (clk_client_tbl ?s). length (te_freq te) = 5" "throttled_wf ?s"
    using inv by (auto simp: peak_inv_def entry_wf_def tables_wf_def upd_peak_def throttled_wf_def)
  then obtain s2 where s2: "mmrm_reinstate_throttled_client E ?s = Some s2" "notified ?s s2" using reinstate_notified by blast
  define s1 where "s1 = (if T = 0 then ?s else s2)"
  have ch: "mmrm_sw_check_peak_current E u thr al k req rate num s =
     (if sint (p + d) \<le> 0 then Some (Inr (), upd_peak 0 (adj_level s k req) s)
      else if p + d \<ge> pk_threshold (peak_cur_data s) then Some (Inl EINVAL, s)
      else grant_peak E (p + d) (adj_level s k req) s)"
    using k check_req_level_Some(1)[OF inv req, of k] pd(1) nt
    by (auto simp: mmrm_sw_check_peak_current_def no_throttle_def)
  have cmp: "sint (p + d) \<le> 0 \<longleftrightarrow> T = 0" "p + d \<ge> pk_threshold (peak_cur_data s) \<longleftrightarrow> unat (pk_threshold (peak_cur_data s)) \<le> T"
    unfolding pd(2) using T by (simp_all add: sint_of_nat word_le_nat_alt unat_of_nat32)
  have "mmrm_sw_check_peak_current E u thr al k req rate num s =
      Some (if admitted s k req rate num then (Inr (), s1) else (Inl EINVAL, s))"
    unfolding ch cmp using s2(1) by (auto simp: s1_def admitted_def T_def[symmetric] grant_peak_def pd(2))
  moreover have "notified ?s s1" using s2(2) by (simp add: s1_def notified_refl)
  ultimately show ?thesis unfolding T_def by (rule that)
qed

section \<open>Votes\<close>

lemma unat_ucast32: "unat (v :: u64) < 2 ^ 32 \<Longrightarrow> unat (ucast v :: u32) = unat v"
  unfolding unsigned_ucast_eq using take_bit_nat_eq_self[of "unat v" 32] by simp

lemma ucast_ucast64 [simp]: "unat v < 2 ^ 32 \<Longrightarrow> ucast (ucast v :: u32) = (v :: u64)"
  by (rule unat_inj) (simp add: unat_ucast32)

lemma crm_scan_max:
  assumes "\<forall>v \<in> set vs. unat v < 2 ^ 32" and "c + length vs < 2 ^ 32"
  shows "(\<forall>p < length vs. c + p \<noteq> skip \<longrightarrow> vs ! p \<le> ucast (fst (crm_scan skip vs c acc))) \<and> fst acc \<le> fst (crm_scan skip vs c acc) \<and>
    (crm_scan skip vs c acc = acc \<or>
     (\<exists>p < length vs. c + p \<noteq> skip \<and> unat (snd (crm_scan skip vs c acc)) = c + p \<and> vs ! p = ucast (fst (crm_scan skip vs c acc))))"
  using assms
proof (induction vs arbitrary: c acc)
  case (Cons v vs)
  define acc' where "acc' = (if c \<noteq> skip \<and> v > ucast (fst acc) then (ucast v, of_nat c) else acc)"
  have r: "crm_scan skip (v # vs) c acc = crm_scan skip vs (Suc c) acc'" by (simp add: acc'_def)
  let ?r = "crm_scan skip vs (Suc c) acc'"
  have v: "unat v < 2 ^ 32" using Cons.prems(1) by simp
  have c: "unat (of_nat c :: u32) = c" using Cons.prems(2) by (simp add: unsigned_of_nat take_bit_nat_eq_self)
  have IH: "\<forall>p < length vs. Suc c + p \<noteq> skip \<longrightarrow> vs ! p \<le> ucast (fst ?r)" "fst acc' \<le> fst ?r"
    "?r = acc' \<or> (\<exists>p < length vs. Suc c + p \<noteq> skip \<and> unat (snd ?r) = Suc c + p \<and> vs ! p = ucast (fst ?r))"
    using Cons.IH[of "Suc c" acc'] Cons.prems by auto
  have up: "ucast (fst acc') \<le> (ucast (fst ?r) :: u64)" using IH(2) by (simp add: word_le_nat_alt)
  have a: "fst acc \<le> fst acc'" "c \<noteq> skip \<Longrightarrow> v \<le> ucast (fst acc')" "acc' = acc \<or> (c \<noteq> skip \<and> acc' = (ucast v, of_nat c))"
    using v by (auto simp: acc'_def word_le_nat_alt word_less_nat_alt unat_ucast32)
  have 1: "\<forall>p < length (v # vs). c + p \<noteq> skip \<longrightarrow> (v # vs) ! p \<le> ucast (fst ?r)"
  proof (intro allI impI)
    fix p assume "p < length (v # vs)" "c + p \<noteq> skip"
    then show "(v # vs) ! p \<le> ucast (fst ?r)"
      using IH(1) a(2) up by (cases p) auto
  qed
  have 2: "?r = acc \<or> (\<exists>p < length (v # vs). c + p \<noteq> skip \<and> unat (snd ?r) = c + p \<and> (v # vs) ! p = ucast (fst ?r))"
  proof (cases "?r = acc'")
    case True
    from a(3) show ?thesis
    proof
      assume "acc' = acc"
      with True show ?thesis by simp
    next
      assume "c \<noteq> skip \<and> acc' = (ucast v, of_nat c)"
      then have "c + 0 \<noteq> skip \<and> unat (snd ?r) = c + 0 \<and> (v # vs) ! 0 = ucast (fst ?r)" using True v c by simp
      then show ?thesis by (intro disjI2 exI[of _ 0]) simp
    qed
  next
    case False
    with IH(3) obtain p where "p < length vs" "Suc c + p \<noteq> skip" "unat (snd ?r) = Suc c + p" "vs ! p = ucast (fst ?r)" by blast
    then show ?thesis by (intro disjI2 exI[of _ "Suc p"]) simp
  qed
  show ?case unfolding r using 1 2 order_trans[OF a(1) IH(2)] by blast
qed simp

lemma max_crm_rate_correct:
  assumes te: "crm_ok te" and t: "te_crm_client_tbl te = Some t" and j: "unat (crm_vote_idx u cd te) < length t" and v: "unat v < 2 ^ 32"
  obtains m i where "mmrm_sw_get_max_crm_rate u te cd v = Some (m, i)"
    and "votes_ok (t[unat (crm_vote_idx u cd te) := v]) (ucast m) i"
proof -
  define j where "j = unat (crm_vote_idx u cd te)"
  have j: "j < length t" and lt: "length t = unat (te_crm_client_tbl_size te)" and ok: "votes_ok t (te_clk_rate te) (te_max_rate_idx te)"
    using assms by (auto simp: crm_ok_def j_def)
  let ?r = "te_clk_rate te" and ?x = "unat (te_max_rate_idx te)"
  have x: "?x < length t" "t ! ?x = ?r" "\<forall>w \<in> set t. w \<le> ?r" "unat ?r < 2 ^ 32" using ok by (simp_all add: votes_ok_def)
  have t32: "\<forall>w \<in> set t. unat w < 2 ^ 32" using x(3,4) by (auto simp: word_le_nat_alt)
  have upd: "w \<in> set (t[j := v]) \<Longrightarrow> w = v \<or> w \<in> set t" for w using set_update_subset_insert[of t j v] by auto
  have eq: "crm_vote_idx u cd te = te_max_rate_idx te \<longleftrightarrow> j = ?x" unfolding j_def by (auto intro: unat_inj)
  consider "v > ?r" | "v \<le> ?r" "j \<noteq> ?x" | "v \<le> ?r" "j = ?x" by fastforce
  then show ?thesis
  proof cases
    case 1
    have "votes_ok (t[j := v]) v (crm_vote_idx u cd te)"
      using 1 j v x(3) by (force simp: votes_ok_def j_def[symmetric] dest!: upd)
    with 1 v x(4) show ?thesis by (intro that[of "ucast v" "crm_vote_idx u cd te"]) (simp_all add: mmrm_sw_get_max_crm_rate_def Let_def j_def)
  next
    case 2
    have "votes_ok (t[j := v]) ?r (te_max_rate_idx te)"
      using 2 x by (auto simp: votes_ok_def dest!: upd)
    with 2 x(4) eq show ?thesis
      by (intro that[of "ucast ?r" "te_max_rate_idx te"]) (simp_all add: mmrm_sw_get_max_crm_rate_def Let_def j_def)
  next
    case 3
    define sc where "sc = crm_scan ?x t 0 (0, te_max_rate_idx te)"
    have len: "length t < 2 ^ 32" unfolding lt by (rule unat_u32)
    have sc: "\<forall>p < length t. p \<noteq> ?x \<longrightarrow> t ! p \<le> ucast (fst sc)"
      "sc = (0, te_max_rate_idx te) \<or> (\<exists>p < length t. p \<noteq> ?x \<and> unat (snd sc) = p \<and> t ! p = ucast (fst sc))"
      using crm_scan_max[OF t32, of 0 ?x "(0, te_max_rate_idx te)"] len by (auto simp: sc_def)
    define res where "res = (if v \<ge> ucast (fst sc) then (ucast v, te_max_rate_idx te) else sc)"
    have m: "mmrm_sw_get_max_crm_rate u te cd v = Some res"
      using 3(2) leD[OF 3(1)] x(4) eq t lt by (simp add: mmrm_sw_get_max_crm_rate_def Let_def sc_def res_def)
    have others: "w \<le> ucast (fst sc) \<or> w = v" if "w \<in> set (t[j := v])" for w
    proof -
      from that obtain p where p: "p < length t" "w = t[j := v] ! p" by (auto simp: in_set_conv_nth)
      then show ?thesis using sc(1) 3(2) by (cases "p = j") auto
    qed
    have "votes_ok (t[j := v]) (ucast (fst res)) (snd res)"
    proof (cases "v \<ge> ucast (fst sc)")
      case True
      then have "w \<le> v" if "w \<in> set (t[j := v])" for w using others[OF that] by auto
      with True show ?thesis using 3(2) x(1) v by (simp add: res_def votes_ok_def)
    next
      case False
      then have "sc \<noteq> (0, te_max_rate_idx te)" by (auto simp: word_le_nat_alt)
      then obtain p where p: "p < length t" "p \<noteq> ?x" "unat (snd sc) = p" "t ! p = ucast (fst sc)" using sc(2) by blast
      have "w \<le> ucast (fst sc)" if "w \<in> set (t[j := v])" for w using others[OF that] False by auto
      with False p show ?thesis using 3(2) unat_u32[of "fst sc"] by (simp add: res_def votes_ok_def)
    qed
    with m show ?thesis by (intro that[of "fst res" "snd res"]) (simp_all add: j_def)
  qed
qed

end
