(* ===== verification/Mmrm_Budget.thy ===== *)
theory Mmrm_Budget
  imports Mmrm_Admission
begin

unbundle bit_operations_syntax

text \<open>
  The life of the budget: what setting a rate does to the table and to the aggregated current, and that no sequence of registrations,
  requests and releases of idle clients ever exceeds the threshold or runs into undefined behaviour.
\<close>

section \<open>An admitted request\<close>

definition granted_entry ::
    "mmrm_uapi \<Rightarrow> mmrm_client_data \<Rightarrow> u64 \<Rightarrow> u32 \<Rightarrow> u64 \<Rightarrow> u32 \<Rightarrow> mmrm_sw_clk_client_tbl_entry \<Rightarrow> mmrm_sw_clk_client_tbl_entry" where
  "granted_entry u cd v req rate mi te =
     (if te_is_crm_client te
      then te\<lparr>te_max_rate_idx := mi, te_clk_rate := rate,
              te_crm_client_tbl := map_option (\<lambda>t. t[unat (crm_vote_idx u cd te) := v]) (te_crm_client_tbl te)\<rparr>
      else te\<lparr>te_clk_rate := rate\<rparr>)\<lparr>te_vdd_level := req, te_reserve := req_reserve u cd, te_num_hw_blocks := cd_num_hw_blocks cd\<rparr>"

text \<open>The rate and the index that the part before the lock has computed are still right under the lock.\<close>

definition plan_ok ::
    "mmrm_uapi \<Rightarrow> mmrm_client_data \<Rightarrow> u64 \<Rightarrow> u32 \<Rightarrow> u64 \<Rightarrow> u32 \<Rightarrow> mmrm_sw_clk_client_tbl_entry \<Rightarrow> bool" where
  "plan_ok u cd v req rate mi te \<longleftrightarrow> clk_ok (te_clk te) \<and> unat req < 5 \<and> unat rate < 2 ^ 32 \<and>
     cd_num_hw_blocks cd \<le> te_max_num_hw_blocks te \<and>
     (te_is_crm_client te \<longrightarrow> (\<exists>t. te_crm_client_tbl te = Some t \<and> unat (crm_vote_idx u cd te) < length t \<and>
        votes_ok (t[unat (crm_vote_idx u cd te) := v]) rate mi))"

lemma granted_entry_wf:
  assumes "entry_wf te" and "plan_ok u cd v req rate mi te"
  shows "entry_wf (granted_entry u cd v req rate mi te)" and "cap (granted_entry u cd v req rate mi te) = cap te"
    and "load j (granted_entry u cd v req rate mi te) = new_load te (ucast rate) (cd_num_hw_blocks cd) (unat req) j"
proof -
  have "te_client te \<noteq> None" using assms by (cases "te_clk te") (auto simp: entry_wf_def plan_ok_def)
  then show "entry_wf (granted_entry u cd v req rate mi te)"
    using assms by (auto simp: entry_wf_def plan_ok_def granted_entry_def tables_wf_def crm_ok_def)
  show "cap (granted_entry u cd v req rate mi te) = cap te" by (simp add: cap_def granted_entry_def)
  have "ucast rate = (0 :: u32) \<longleftrightarrow> rate = 0"
    using assms(2) unat_ucast32[of rate] by (auto simp: plan_ok_def simp flip: unat_eq_zero)
  then show "load j (granted_entry u cd v req rate mi te) = new_load te (ucast rate) (cd_num_hw_blocks cd) (unat req) j"
    by (simp add: load_def new_load_def granted_entry_def)
qed

lemma update_entry_eq:
  "plan_ok u cd v req rate mi te \<Longrightarrow> update_entry u cd v req rate mi te = Some (granted_entry u cd v req rate mi te)"
  by (auto simp: update_entry_def granted_entry_def plan_ok_def)

text \<open>What does not change: the size of the table, the threshold, and what a client has been registered with.\<close>

definition static :: "mmrm_sw_clk_mgr_info \<Rightarrow> mmrm_sw_clk_mgr_info \<Rightarrow> bool" where
  "static s s' \<longleftrightarrow> tot_clk_clients s' = tot_clk_clients s \<and> pk_threshold (peak_cur_data s') = pk_threshold (peak_cur_data s) \<and>
     length (clk_client_tbl s') = length (clk_client_tbl s) \<and>
     (\<forall>i < length (clk_client_tbl s). te_max_num_hw_blocks (clk_client_tbl s' ! i) = te_max_num_hw_blocks (clk_client_tbl s ! i) \<and>
        te_pri (clk_client_tbl s' ! i) = te_pri (clk_client_tbl s ! i))"

lemma static_refl [simp]: "static s s"
  by (simp add: static_def)

lemma static_trans: "static s s1 \<Longrightarrow> static s1 s2 \<Longrightarrow> static s s2"
  by (simp add: static_def)

lemma capacity_update: "k < length tbl \<Longrightarrow> cap te = cap (tbl ! k) \<Longrightarrow> capacity (tbl[k := te]) = capacity tbl"
  by (simp add: capacity_def map_update sum_list_update)

lemma all_update: "\<forall>x \<in> set xs. P x \<Longrightarrow> P y \<Longrightarrow> \<forall>x \<in> set (xs[k := y]). P x"
  by (auto dest: set_update_subset_insert[THEN subsetD])

text \<open>The state after an admitted request: the new aggregate, one changed entry, and notifications.\<close>

definition granted ::
    "mmrm_sw_clk_mgr_info \<Rightarrow> nat \<Rightarrow> mmrm_sw_clk_client_tbl_entry \<Rightarrow> nat \<Rightarrow> u32 \<Rightarrow> mmrm_sw_clk_mgr_info \<Rightarrow> bool" where
  "granted s k te T l s' \<longleftrightarrow> (\<exists>s1. notified (upd_peak (of_nat T) l s) s1 \<and> s' = upd_entry k (\<lambda>_. te) s1)"

lemma commit_eq:
  assumes inv: "peak_inv s" and k: "k < length (clk_client_tbl s)" and p: "plan_ok u cd v req rate mi (clk_client_tbl s ! k)"
    and nt: "no_throttle u thr (clk_client_tbl s ! k)"
  obtains s' where "setval_commit E u thr al k cd v req rate mi s =
      Some (if admitted s k req (ucast rate) (cd_num_hw_blocks cd) then (Inr (), s') else (Inl EINVAL, s))"
    and "granted s k (granted_entry u cd v req rate mi (clk_client_tbl s ! k)) (new_total s k req (ucast rate) (cd_num_hw_blocks cd))
           (adj_level s k req) s'"
proof -
  let ?T = "new_total s k req (ucast rate) (cd_num_hw_blocks cd)" and ?te = "granted_entry u cd v req rate mi (clk_client_tbl s ! k)"
  have b: "unat req < 5" "cd_num_hw_blocks cd \<le> te_max_num_hw_blocks (clk_client_tbl s ! k)" using p by (simp_all add: plan_ok_def)
  obtain s1 where s1: "mmrm_sw_check_peak_current E u thr al k req (ucast rate) (cd_num_hw_blocks cd) s =
      Some (if admitted s k req (ucast rate) (cd_num_hw_blocks cd) then (Inr (), s1) else (Inl EINVAL, s))"
    "notified (upd_peak (of_nat ?T) (adj_level s k req) s) s1"
    by (rule check_peak_eq[OF inv k b nt])
  have t: "clk_client_tbl s1 = clk_client_tbl s" using s1(2) by (auto simp: notified_def upd_peak_def)
  have "setval_commit E u thr al k cd v req rate mi s =
      Some (if admitted s k req (ucast rate) (cd_num_hw_blocks cd) then (Inr (), upd_entry k (\<lambda>_. ?te) s1) else (Inl EINVAL, s))"
    using s1(1) k update_entry_eq[OF p] by (simp add: setval_commit_def t)
  moreover have "granted s k ?te ?T (adj_level s k req) (upd_entry k (\<lambda>_. ?te) s1)" using s1(2) by (auto simp: granted_def)
  ultimately show ?thesis by (rule that)
qed

lemma granted_inv:
  assumes inv: "peak_inv s" and k: "k < length (clk_client_tbl s)" and p: "plan_ok u cd v req rate mi (clk_client_tbl s ! k)"
    and ad: "admitted s k req (ucast rate) (cd_num_hw_blocks cd)"
    and g: "granted s k (granted_entry u cd v req rate mi (clk_client_tbl s ! k)) (new_total s k req (ucast rate) (cd_num_hw_blocks cd))
           (adj_level s k req) s'"
  shows "peak_inv s'" and "static s s'"
proof -
  let ?T = "new_total s k req (ucast rate) (cd_num_hw_blocks cd)" and ?te = "granted_entry u cd v req rate mi (clk_client_tbl s ! k)"
  let ?l = "adj_level s k req"
  have req: "unat req < 5" "cd_num_hw_blocks cd \<le> te_max_num_hw_blocks (clk_client_tbl s ! k)" using p by (simp_all add: plan_ok_def)
  have wf: "entry_wf (clk_client_tbl s ! k)" using inv k by (simp add: peak_inv_def)
  note e = granted_entry_wf[OF wf p]
  note l = check_req_level_Some(2)[OF inv req(1), of k]
  obtain keep lg where s': "s' = upd_entry k (\<lambda>_. ?te) ((upd_peak (of_nat ?T) ?l s)\<lparr>throttled_clients := keep, mmrm_log := lg\<rparr>)"
    and keep: "set keep \<subseteq> set (throttled_clients s)" using g by (auto simp: granted_def notified_def upd_peak_def)
  have tbl: "clk_client_tbl s' = (clk_client_tbl s)[k := ?te]" by (simp add: s' upd_entry_def upd_peak_def)
  have T: "unat (of_nat ?T :: u32) = ?T" by (rule unat_of_nat32[OF new_total_bound[OF inv k req]])
  have "total_load (unat ?l) ((clk_client_tbl s)[k := ?te]) = ?T"
    using k by (simp add: total_update e(3) new_total_def Let_def)
  moreover have "\<forall>x \<in> set ((clk_client_tbl s)[k := ?te]). entry_wf x"
    using inv e(1) by (intro all_update) (simp_all add: peak_inv_def)
  moreover have "throttled_wf s'" using inv keep by (auto simp: peak_inv_def throttled_wf_def s' upd_entry_def upd_peak_def)
  moreover have "of_nat ?T = (0 :: u32) \<or> of_nat ?T < pk_threshold (peak_cur_data s)"
    using ad T by (auto simp: admitted_def word_less_nat_alt)
  ultimately show "peak_inv s'"
    using inv l k T capacity_update[OF k e(2)] by (simp add: peak_inv_def tbl) (simp add: s' upd_entry_def upd_peak_def)
  show "static s s'" using k by (auto simp: static_def s' upd_entry_def upd_peak_def nth_list_update granted_entry_def)
qed

lemma peak_inv_log: "peak_inv (s\<lparr>mmrm_log := lg\<rparr>) \<longleftrightarrow> peak_inv s"
  by (simp add: peak_inv_def throttled_wf_def)

lemma peak_inv_reserve:
  assumes "peak_inv s" and "k < length (clk_client_tbl s)"
  shows "peak_inv (upd_entry k (\<lambda>e. e\<lparr>te_reserve := b\<rparr>) s)" and "static s (upd_entry k (\<lambda>e. e\<lparr>te_reserve := b\<rparr>) s)"
proof -
  let ?te = "(clk_client_tbl s ! k)\<lparr>te_reserve := b\<rparr>"
  have "entry_wf (clk_client_tbl s ! k)" using assms by (simp add: peak_inv_def)
  then have wf: "entry_wf ?te" by (simp add: entry_wf_def tables_wf_def crm_ok_def)
  have l: "load j ?te = load j (clk_client_tbl s ! k)" for j by (simp add: load_def)
  have t: "total_load j ((clk_client_tbl s)[k := ?te]) = total_load j (clk_client_tbl s)" for j
    using assms(2) load_le_total[OF assms(2), of j] by (simp add: total_update l)
  have c: "capacity ((clk_client_tbl s)[k := ?te]) = capacity (clk_client_tbl s)"
    by (rule capacity_update[OF assms(2)]) (simp add: cap_def)
  have "\<forall>x \<in> set ((clk_client_tbl s)[k := ?te]). entry_wf x" using assms(1) wf by (intro all_update) (simp_all add: peak_inv_def)
  then show "peak_inv (upd_entry k (\<lambda>e. e\<lparr>te_reserve := b\<rparr>) s)"
    using assms(1) t c by (auto simp: peak_inv_def upd_entry_def throttled_wf_def)
  show "static s (upd_entry k (\<lambda>e. e\<lparr>te_reserve := b\<rparr>) s)" using assms(2) by (auto simp: static_def upd_entry_def nth_list_update)
qed

section \<open>Setting a rate\<close>

text \<open>The requests in question: a rate below 4 GHz, no more hardware blocks than the client has, and no client that may throttle others.\<close>

definition legal_req ::
    "mmrm_uapi \<Rightarrow> u8 \<Rightarrow> mmrm_client option \<Rightarrow> mmrm_client_data option \<Rightarrow> u64 \<Rightarrow> mmrm_sw_clk_mgr_info \<Rightarrow> bool" where
  "legal_req u thr client cdo v s \<longleftrightarrow> unat v < 2 ^ 32 \<and>
     (case (client, cdo) of
        (Some cl, Some cd) \<Rightarrow> client_uid cl < tot_clk_clients s \<longrightarrow>
          cd_num_hw_blocks cd \<le> te_max_num_hw_blocks (clk_client_tbl s ! unat (client_uid cl)) \<and>
          no_throttle u thr (clk_client_tbl s ! unat (client_uid cl))
      | _ \<Rightarrow> True)"

lemma legal_req_static: "peak_inv s \<Longrightarrow> static s s' \<Longrightarrow> legal_req u thr client cdo v s \<Longrightarrow> legal_req u thr client cdo v s'"
  by (auto simp: legal_req_def static_def peak_inv_def word_less_nat_alt no_throttle_def split: option.splits)

lemma vote_idx_bound:
  assumes "crm_ok te" and "te_crm_client_tbl te = Some t" and "cd_crm_drv_idx cd < te_hw_drv_instances te" and "cd_pwr_st cd < te_num_pwr_states te"
  shows "unat (crm_vote_idx u cd te) < length t"
proof -
  let ?d = "unat (cd_crm_drv_idx cd)" and ?p = "unat (cd_pwr_st cd)" and ?i = "unat (te_hw_drv_instances te)" and ?s = "unat (te_num_pwr_states te)"
  have len: "length t = unat (te_crm_client_tbl_size te)" "unat (te_crm_client_tbl_size te) = ?i * ?s + 1" "?i \<le> 6" "?s \<le> 5"
    using assms(1,2) by (auto simp: crm_ok_def)
  have d: "?d < ?i" "?p < ?s" using assms(3,4) by (simp_all add: word_less_nat_alt)
  have "?s * ?d + ?p < ?s * ?d + ?s" using d(2) by simp
  also have "\<dots> = ?s * Suc ?d" by simp
  also have "\<dots> \<le> ?s * ?i" using d(1) by (intro mult_le_mono) simp_all
  finally have b: "?s * ?d + ?p < ?i * ?s" by (simp add: mult.commute)
  have "?i * ?s \<le> 6 * 5" using len(3,4) by (rule mult_le_mono)
  with b have "?s * ?d + ?p < 30" by simp
  then have "?s * ?d < 2 ^ 32" "?s * ?d + ?p < 2 ^ 32" by simp_all
  then have "unat (te_num_pwr_states te * cd_crm_drv_idx cd + cd_pwr_st cd) = ?s * ?d + ?p"
    by (simp add: unat_word_ariths)
  moreover have "unat (te_crm_client_tbl_size te - 1) < length t"
    using len(1,2) by (subst unat_sub) (simp_all add: word_le_nat_alt)
  ultimately show ?thesis using b len(1,2) by (simp add: crm_vote_idx_def)
qed

lemma setval_level_bound: "setval_level E u te cd v rate = Inr req \<Longrightarrow> unat req < 5"
  by (auto simp: setval_level_def MMRM_VDD_LEVEL_MAX_def split: if_splits sum.splits)

lemma setval_check_Some:
  assumes inv: "peak_inv s" and lg: "legal_req u thr client cdo v s"
  obtains plan where "setval_check E u client cdo v s = Some plan"
    and "plan = Sv_reserve \<or> (\<exists>req rate mi. plan = Sv_admit req rate mi) \<longrightarrow>
      (\<exists>cl cd. client = Some cl \<and> cdo = Some cd \<and> unat (client_uid cl) < length (clk_client_tbl s) \<and>
        no_throttle u thr (clk_client_tbl s ! unat (client_uid cl)) \<and>
        (\<forall>req rate mi. plan = Sv_admit req rate mi \<longrightarrow> plan_ok u cd v req rate mi (clk_client_tbl s ! unat (client_uid cl))))"
proof (cases "\<exists>cl cd. client = Some cl \<and> cdo = Some cd \<and> client_uid cl < tot_clk_clients s")
  case False
  then have "setval_check E u client cdo v s = Some (Sv_err EINVAL)"
    by (cases client; cases cdo) (auto simp: setval_check_def not_less)
  then show ?thesis by (rule that) simp
next
  case True
  then obtain cl cd where c: "client = Some cl" "cdo = Some cd" "client_uid cl < tot_clk_clients s" by blast
  define te where "te = clk_client_tbl s ! unat (client_uid cl)"
  have k: "unat (client_uid cl) < length (clk_client_tbl s)" using c(3) inv by (simp add: peak_inv_def word_less_nat_alt)
  have wf: "entry_wf te" using inv k by (simp add: peak_inv_def te_def)
  have lr: "unat v < 2 ^ 32" "cd_num_hw_blocks cd \<le> te_max_num_hw_blocks te" "no_throttle u thr te"
    using lg c by (simp_all add: legal_req_def te_def)
  have start: "setval_check E u client cdo v s =
      (if \<not> clk_ok (te_clk te) then Some (Sv_err EINVAL)
       else if te_is_crm_client te \<and> (cd_crm_drv_idx cd \<ge> te_hw_drv_instances te \<or> cd_pwr_st cd \<ge> te_num_pwr_states te)
       then Some (Sv_err EINVAL)
       else Option.bind (if te_is_crm_client te then map_option (\<lambda>(m, i). (ucast m, i)) (mmrm_sw_get_max_crm_rate u te cd v) else Some (v, 0))
         (\<lambda>(rate, mi). if te_clk_rate te = v \<and> te_num_hw_blocks te = cd_num_hw_blocks cd \<and> \<not> te_is_crm_client te
           then Some (if te_reserve te = req_reserve u cd then Sv_done else Sv_reserve)
           else Some (case setval_level E u te cd v rate of Inl e \<Rightarrow> Sv_err e | Inr req \<Rightarrow> Sv_admit req rate mi)))"
    using c(1,2) k by (simp add: setval_check_def te_def[symmetric] not_le[THEN iffD2, OF c(3)])
  show ?thesis
  proof (cases "\<not> clk_ok (te_clk te) \<or> te_is_crm_client te \<and> (cd_crm_drv_idx cd \<ge> te_hw_drv_instances te \<or> cd_pwr_st cd \<ge> te_num_pwr_states te)")
    case True
    then have "setval_check E u client cdo v s = Some (Sv_err EINVAL)" unfolding start by auto
    then show ?thesis by (rule that) simp
  next
    case ok: False
    obtain rate mi where r: "(if te_is_crm_client te then map_option (\<lambda>(m, i). (ucast m, i)) (mmrm_sw_get_max_crm_rate u te cd v) else Some (v, 0)) =
        Some (rate, mi)" "unat rate < 2 ^ 32"
      "te_is_crm_client te \<longrightarrow> (\<exists>t. te_crm_client_tbl te = Some t \<and> unat (crm_vote_idx u cd te) < length t \<and>
        votes_ok (t[unat (crm_vote_idx u cd te) := v]) rate mi)"
    proof (cases "te_is_crm_client te")
      case True
      then have cr: "crm_ok te" using wf by (simp add: entry_wf_def)
      then obtain t where t: "te_crm_client_tbl te = Some t" by (auto simp: crm_ok_def)
      have i: "unat (crm_vote_idx u cd te) < length t" using ok True by (intro vote_idx_bound[OF cr t]) auto
      obtain m i where "mmrm_sw_get_max_crm_rate u te cd v = Some (m, i)" "votes_ok (t[unat (crm_vote_idx u cd te) := v]) (ucast m) i"
        by (rule max_crm_rate_correct[OF cr t i lr(1)])
      then show ?thesis using that[of "ucast m" i] True t i unat_u32[of m] by simp
    qed (use lr(1) that[of v 0] in simp)
    define plan where "plan = (if te_clk_rate te = v \<and> te_num_hw_blocks te = cd_num_hw_blocks cd \<and> \<not> te_is_crm_client te
           then (if te_reserve te = req_reserve u cd then Sv_done else Sv_reserve)
           else (case setval_level E u te cd v rate of Inl e \<Rightarrow> Sv_err e | Inr req \<Rightarrow> Sv_admit req rate mi))"
    have "setval_check E u client cdo v s = Some plan" unfolding start using ok r(1) by (auto simp: plan_def)
    moreover have "plan_ok u cd v req rate' mi' te" if "plan = Sv_admit req rate' mi'" for req rate' mi'
    proof -
      have "setval_level E u te cd v rate = Inr req" "rate' = rate" "mi' = mi"
        using that by (auto simp: plan_def split: if_splits sum.splits)
      then show ?thesis using ok r(2,3) lr(2) setval_level_bound[of E u te cd v rate req] by (simp add: plan_ok_def)
    qed
    ultimately show ?thesis using c k lr(3) by (intro that[of plan]) (auto simp: te_def)
  qed
qed

lemma set_rate_Some:
  assumes "peak_inv s" and "k < length (clk_client_tbl s)"
  obtains rc lg where "setval_set_rate E u k cd v s = Some (rc, s\<lparr>mmrm_log := lg\<rparr>)"
proof -
  have "\<exists>rc lg. setval_set_rate E u k cd v s = Some (rc, s\<lparr>mmrm_log := lg\<rparr>)"
    using assms(2) by (auto simp: setval_set_rate_def set_rate_def log_event_def)
  then show ?thesis using that by blast
qed

lemma setval_total:
  assumes inv: "peak_inv s" and lg: "legal_req u thr client cdo v s"
  obtains rc s' where "mmrm_sw_clk_client_setval E u thr al client cdo v s = Some (rc, s')" and "peak_inv s'" and "static s s'"
proof -
  obtain plan where plan: "setval_check E u client cdo v s = Some plan"
    "plan = Sv_reserve \<or> (\<exists>req rate mi. plan = Sv_admit req rate mi) \<longrightarrow>
      (\<exists>cl cd. client = Some cl \<and> cdo = Some cd \<and> unat (client_uid cl) < length (clk_client_tbl s) \<and>
        no_throttle u thr (clk_client_tbl s ! unat (client_uid cl)) \<and>
        (\<forall>req rate mi. plan = Sv_admit req rate mi \<longrightarrow> plan_ok u cd v req rate mi (clk_client_tbl s ! unat (client_uid cl))))"
    by (rule setval_check_Some[OF inv lg, of E])
  note fin = that
  have tail: thesis if "peak_inv s1" "static s s1" "unat (client_uid (the client)) < length (clk_client_tbl s1)"
    "mmrm_sw_clk_client_setval E u thr al client cdo v s = setval_set_rate E u (unat (client_uid (the client))) (the cdo) v s1" for s1
  proof -
    note t = that
    obtain rc lg where "setval_set_rate E u (unat (client_uid (the client))) (the cdo) v s1 = Some (rc, s1\<lparr>mmrm_log := lg\<rparr>)"
      by (rule set_rate_Some[OF t(1,3)])
    then show ?thesis using t(1,2,4) fin by (simp add: peak_inv_log static_def)
  qed
  show ?thesis
  proof (cases plan)
    case (Sv_err e)
    then show ?thesis using that[of "Inl e" s] plan(1) inv by (simp add: mmrm_sw_clk_client_setval_def)
  next
    case Sv_done
    then show ?thesis using that[of "Inr ()" s] plan(1) inv by (simp add: mmrm_sw_clk_client_setval_def)
  next
    case Sv_reserve
    then obtain cl cd where c: "client = Some cl" "cdo = Some cd" "unat (client_uid cl) < length (clk_client_tbl s)" using plan(2) by blast
    note r = peak_inv_reserve[OF inv c(3), of "req_reserve u cd"]
    show ?thesis
    proof (cases "req_reserve u cd")
      case True
      then show ?thesis using that[OF _ r] plan(1) Sv_reserve c by (simp add: mmrm_sw_clk_client_setval_def Let_def)
    next
      case False
      then show ?thesis using plan(1) Sv_reserve c
        by (intro tail[OF r]) (simp_all add: mmrm_sw_clk_client_setval_def upd_entry_def Let_def)
    qed
  next
    case (Sv_admit req rate mi)
    then obtain cl cd where c: "client = Some cl" "cdo = Some cd" "unat (client_uid cl) < length (clk_client_tbl s)"
      "no_throttle u thr (clk_client_tbl s ! unat (client_uid cl))" "plan_ok u cd v req rate mi (clk_client_tbl s ! unat (client_uid cl))"
      using plan(2) by blast
    obtain s1 where s1: "setval_commit E u thr al (unat (client_uid cl)) cd v req rate mi s =
        Some (if admitted s (unat (client_uid cl)) req (ucast rate) (cd_num_hw_blocks cd) then (Inr (), s1) else (Inl EINVAL, s))"
      "granted s (unat (client_uid cl)) (granted_entry u cd v req rate mi (clk_client_tbl s ! unat (client_uid cl)))
         (new_total s (unat (client_uid cl)) req (ucast rate) (cd_num_hw_blocks cd)) (adj_level s (unat (client_uid cl)) req) s1"
      by (rule commit_eq[OF inv c(3,5,4)])
    show ?thesis
    proof (cases "admitted s (unat (client_uid cl)) req (ucast rate) (cd_num_hw_blocks cd)")
      case False
      then show ?thesis using that[of "Inl EINVAL" s] s1(1) plan(1) Sv_admit c inv by (simp add: mmrm_sw_clk_client_setval_def Let_def)
    next
      case True
      note g = granted_inv[OF inv c(3,5) True s1(2)]
      have k: "unat (client_uid cl) < length (clk_client_tbl s1)" using g(2) c(3) by (simp add: static_def)
      show ?thesis
      proof (cases "req_reserve u cd \<and> \<not> te_is_crm_client (clk_client_tbl s1 ! unat (client_uid cl))")
        case skip: True
        then show ?thesis using that[OF _ g] s1(1) plan(1) Sv_admit c True k by (simp add: mmrm_sw_clk_client_setval_def Let_def)
      next
        case False
        then show ?thesis using s1(1) plan(1) Sv_admit c True k
          by (intro tail[OF g]) (auto simp: mmrm_sw_clk_client_setval_def Let_def)
      qed
    qed
  qed
qed


unbundle bit_operations_syntax

section \<open>Initialisation, registration, release\<close>

lemma max_list_zero: "\<forall>x \<in> set xs. x = 0 \<Longrightarrow> max_list xs = 0"
  unfolding max_list_def by (induction xs) auto

lemma concat_zero: "max_list (map unat (concat (replicate m (replicate n (0 :: u32))))) = 0"
  by (rule max_list_zero) (auto simp: in_set_replicate)

lemma init_inv:
  assumes "mmrm_init_sw_clk_mgr True True cres = Some (Inr cm)"
  shows "peak_inv (cm_sw_info cm)" and "pk_threshold (peak_cur_data (cm_sw_info cm)) = cr_peak_threshold cres"
proof -
  define n where "n = unat (cr_clk_src_count cres)"
  obtain tbl infos where t: "mmrm_sw_prepare_table cres (replicate n zero_entry) = Some tbl"
    and cm: "cm_sw_info cm = \<lparr>clk_client_tbl = tbl, tot_clk_clients = cr_clk_src_count cres, enabled_clk_clients = 0,
            throttle_clients_info = infos, throttle_clients_data_length = cr_throttle_clients_data_length cres,
            peak_cur_data = \<lparr>pk_threshold = cr_peak_threshold cres, pk_aggreg_val = 0, pk_aggreg_level = 0\<rparr>,
            throttled_clients = [], mmrm_log = []\<rparr>"
    using assms by (auto simp: mmrm_init_sw_clk_mgr_def n_def bind_Some_iff)
  have "\<exists>noms. n \<le> length noms \<and> tbl = map2 prepare_entry noms (replicate n zero_entry)"
  proof (cases "n = 0")
    case False
    with t obtain noms where "\<not> length noms < n" "tbl = map2 prepare_entry noms (replicate n zero_entry)"
      by (auto simp: mmrm_sw_prepare_table_def bind_Some_iff split: if_splits)
    then show ?thesis by (intro exI[of _ noms]) simp
  qed (use t in \<open>simp add: mmrm_sw_prepare_table_def\<close>)
  then obtain noms where noms: "n \<le> length noms" "tbl = map2 prepare_entry noms (replicate n zero_entry)" by blast
  have "\<exists>x. e = prepare_entry x zero_entry" if "e \<in> set tbl" for e
  proof -
    from that obtain x z where "(x, z) \<in> set (zip noms (replicate n zero_entry))" "e = prepare_entry x z" by (auto simp: noms(2))
    moreover from this have "z = zero_entry" by (auto dest!: set_zip_rightD simp: in_set_replicate)
    ultimately show ?thesis by blast
  qed
  then have tbl: "length tbl = n" "\<forall>e \<in> set tbl. \<exists>x. e = prepare_entry x zero_entry" using noms by simp_all
  have e: "entry_wf (prepare_entry x zero_entry)" "load j (prepare_entry x zero_entry) = 0" "cap (prepare_entry x zero_entry) = 0" for x j
    by (simp_all add: entry_wf_def tables_wf_def prepare_entry_def zero_entry_def MMRM_VDD_LEVEL_MAX_def load_def cap_def
        concat_zero)
  have "total_load j tbl = 0" for j using tbl(2) e(2) by (auto simp: total_load_def)
  moreover have "capacity tbl = 0" using tbl(2) e(3) by (auto simp: capacity_def)
  ultimately show "peak_inv (cm_sw_info cm)"
    using tbl e(1) by (auto simp: cm peak_inv_def n_def throttled_wf_def)
  show "pk_threshold (peak_cur_data (cm_sw_info cm)) = cr_peak_threshold cres" by (simp add: cm)
qed

lemma replace_inv:
  assumes "peak_inv s" and "k < length (clk_client_tbl s)" and "entry_wf te" and "\<And>j. load j te = load j (clk_client_tbl s ! k)"
    and "capacity ((clk_client_tbl s)[k := te]) < 2 ^ 31"
  shows "peak_inv (upd_entry k (\<lambda>_. te) s)"
proof -
  have "total_load j ((clk_client_tbl s)[k := te]) = total_load j (clk_client_tbl s)" for j
    using assms(2) load_le_total[OF assms(2), of j] by (simp add: total_update assms(4))
  moreover have "\<forall>x \<in> set ((clk_client_tbl s)[k := te]). entry_wf x" using assms(1,3) by (intro all_update) (simp_all add: peak_inv_def)
  ultimately show ?thesis using assms(1,5) by (auto simp: peak_inv_def upd_entry_def throttled_wf_def)
qed

lemma freq_step_length: "freq_step E u clk v st = Some st' \<Longrightarrow> length (snd st') = length (snd st)"
  by (auto simp: freq_step_def Let_def set_from_def split: if_splits)

lemma freq_loop_length: "freq_loop E u clk v m st = Some fr \<Longrightarrow> length fr = length (snd st)"
proof (induction E u clk v m st rule: freq_loop.induct)
  case (1 E u clk v m st)
  show ?case
  proof (cases "v < m")
    case False
    then show ?thesis using "1.prems" by (simp add: freq_loop.simps)
  next
    case True
    show ?thesis
    proof (cases "freq_step E u clk v st")
      case None
      then show ?thesis using "1.prems" True by (simp add: freq_loop.simps[of E u clk v])
    next
      case (Some st')
      then have "freq_loop E u clk (v + CLK_RATE_STEP) m st' = Some fr"
        using "1.prems" True by (simp add: freq_loop.simps[of E u clk v] split: if_splits)
      then show ?thesis using "1.IH"[OF True Some] "1.prems" True Some freq_step_length[OF Some]
        by (simp add: freq_loop.simps[of E u clk v] split: if_splits)
    qed
  qed
qed

lemma update_freq_shape:
  assumes "mmrm_sw_update_freq E u te = Some te'"
  obtains fr where "te' = te\<lparr>te_freq := fr\<rparr>" and "length fr = 5"
  using assms freq_loop_length by (fastforce simp: mmrm_sw_update_freq_def Let_def bind_Some_iff MMRM_VDD_LEVEL_MAX_def)

lemma those_length: "those xs = Some ys \<Longrightarrow> length ys = length xs"
  by (induction xs arbitrary: ys) (auto split: option.splits)

lemma those_all: "those (map f xs) = Some ys \<Longrightarrow> (\<And>x y. x \<in> set xs \<Longrightarrow> f x = Some y \<Longrightarrow> P y) \<Longrightarrow> \<forall>y \<in> set ys. P y"
proof (induction xs arbitrary: ys)
  case (Cons x xs)
  then obtain y zs where "f x = Some y" "those (map f xs) = Some zs" "ys = y # zs" by (auto split: option.splits)
  then show ?case using Cons.IH[of zs] Cons.prems(2) by auto
qed simp

lemma curr_level_length: "curr_level cset P L fr i = Some y \<Longrightarrow> length (snd (snd y)) = 5"
  by (auto simp: curr_level_def bind_Some_iff MMRM_VDD_LEVEL_MAX_def Let_def dest!: those_length)

lemma update_curr_shape:
  assumes "mmrm_sw_update_curr cres s te = Some (Inr te')"
  obtains dp lp cm where "te' = te\<lparr>te_dyn_pwr := dp, te_leak_pwr := lp, te_current_ma := cm\<rparr>" and "length cm = 5"
    and "\<forall>row \<in> set cm. length row = 5"
proof -
  obtain cset P L ls where ls: "those (map (curr_level cset P L (te_freq te)) [0..<MMRM_VDD_LEVEL_MAX]) = Some ls"
    "te' = te\<lparr>te_dyn_pwr := map fst ls, te_leak_pwr := map (fst \<circ> snd) ls, te_current_ma := map (snd \<circ> snd) ls\<rparr>"
    using assms by (auto simp: mmrm_sw_update_curr_def bind_Some_iff Let_def split: if_splits)
  have "length ls = 5" using those_length[OF ls(1)] by (simp add: MMRM_VDD_LEVEL_MAX_def)
  moreover have "\<forall>y \<in> set ls. length (snd (snd y)) = 5" by (rule those_all[OF ls(1)]) (rule curr_level_length)
  ultimately show ?thesis using that[OF ls(2)] by simp
qed

lemma fill_crm_ok:
  assumes "\<not> (cc_hw_drv_instances d > MAX_HW_DRV_INSTANCES \<or> cc_num_pwr_states d > MAX_POWER_STATES)" and "te_clk_rate te = 0"
  shows "crm_ok (fill_crm d te)"
proof -
  let ?i = "unat (cc_hw_drv_instances d)" and ?s = "unat (cc_num_pwr_states d)"
  have b: "?i \<le> 6" "?s \<le> 5"
    using assms(1) by (simp_all add: MAX_HW_DRV_INSTANCES_def MAX_POWER_STATES_def not_less word_le_nat_alt)
  then have "?i * ?s \<le> 6 * 5" by (rule mult_le_mono)
  then have "unat (cc_hw_drv_instances d * cc_num_pwr_states d + 1) = ?i * ?s + 1" by (simp add: unat_word_ariths)
  then show ?thesis using b assms(2) by (simp add: crm_ok_def fill_crm_def Let_def votes_ok_def)
qed

lemma register_inv:
  assumes inv: "peak_inv s" and cap: "capacity (clk_client_tbl s') < 2 ^ 31"
    and reg: "mmrm_sw_clk_client_register E u cres multi al1 al2 d pri pv cb s = Some (cl, s')"
  shows "peak_inv s'" and "pk_threshold (peak_cur_data s') = pk_threshold (peak_cur_data s)"
proof -
  have rows: "tbl_rows s = Some (clk_client_tbl s)" using inv by (simp add: peak_inv_def tbl_rows_def)
  define c where "c = find_csid (push_bit 16 (cc_client_domain d) OR cc_client_id d) (clk_client_tbl s)"
  define te where "te = clk_client_tbl s ! c"
  define te1 where "te1 = fill_entry u c d pri pv cb te"
  define te2 where "te2 = (if cc_hw_drv_instances d > 0 \<and> cc_num_pwr_states d > 0 then fill_crm d te1 else te1)"
  have eq: "mmrm_sw_clk_client_register E u cres multi al1 al2 d pri pv cb s =
     (if tot_clk_clients s = enabled_clk_clients s \<or> c = length (clk_client_tbl s) then Some (None, s)
      else if te_client te \<noteq> None then
        if multi \<noteq> 0 then Some (te_client te, upd_entry c (\<lambda>e. e\<lparr>te_ref_count := te_ref_count e + 1\<rparr>) s) else Some (None, s)
      else if \<not> al1 then Some (None, upd_entry c err_fail_alloc_clk_client s)
      else if cc_hw_drv_instances d > MAX_HW_DRV_INSTANCES \<or> cc_num_pwr_states d > MAX_POWER_STATES
      then Some (None, upd_entry c (\<lambda>_. err_fail_alloc_clk_client te1) s)
      else if cc_hw_drv_instances d > 0 \<and> cc_num_pwr_states d > 0 \<and> \<not> al2
      then Some (None, upd_entry c (\<lambda>_. err_fail_alloc_crm_tbl (te1\<lparr>te_crm_client_tbl := None\<rparr>)) s)
      else Option.bind (mmrm_sw_update_freq E u te2) (\<lambda>te3. Option.bind (mmrm_sw_update_curr cres s te3) (\<lambda>r. case r of
           Inl e \<Rightarrow> Some (None, upd_entry c (\<lambda>_. err_fail_update_entry te3) s)
         | Inr te4 \<Rightarrow> Some (te_client te4, upd_entry c (\<lambda>_. te4) s))))"
    unfolding mmrm_sw_clk_client_register_def rows te2_def te1_def te_def c_def Let_def by simp
  have step: "s' = s \<or> (c < length (clk_client_tbl s) \<and>
      (\<exists>te'. s' = upd_entry c (\<lambda>_. te') s \<and> (entry_wf te \<longrightarrow> entry_wf te' \<and> (\<forall>j. load j te' = load j te))))"
  proof (cases "tot_clk_clients s = enabled_clk_clients s \<or> c = length (clk_client_tbl s)")
    case True
    then show ?thesis using reg unfolding eq by auto
  next
    case False
    have c: "c < length (clk_client_tbl s)" using False by (simp add: c_def find_csid_def le_neq_implies_less length_takeWhile_le)
    show ?thesis
    proof (cases "te_client te")
      case (Some x)
      have "entry_wf te \<longrightarrow> entry_wf (te\<lparr>te_ref_count := te_ref_count te + 1\<rparr>) \<and> (\<forall>j. load j (te\<lparr>te_ref_count := te_ref_count te + 1\<rparr>) = load j te)"
        by (auto simp: entry_wf_def tables_wf_def crm_ok_def load_def)
      then show ?thesis using reg c Some False unfolding eq by (auto simp: upd_entry_def te_def split: if_splits)
    next
      case None
      have e1: "entry_wf te \<longrightarrow> entry_wf (err_fail_alloc_clk_client x) \<and> (\<forall>j. load j (err_fail_alloc_clk_client x) = load j te)"
        if "te_clk_rate x = te_clk_rate te" "te_is_crm_client x = te_is_crm_client te" "tables_wf te \<longrightarrow> tables_wf x" "te_vdd_level x = te_vdd_level te" for x
        using that None by (auto simp: entry_wf_def err_fail_alloc_clk_client_def tables_wf_def load_def)
      consider (err) x where "s' = upd_entry c (\<lambda>_. err_fail_alloc_clk_client x) s" "te_clk_rate x = te_clk_rate te"
          "te_is_crm_client x = te_is_crm_client te" "tables_wf te \<longrightarrow> tables_wf x" "te_vdd_level x = te_vdd_level te"
        | (upd) te3 r where "mmrm_sw_update_freq E u te2 = Some te3" "mmrm_sw_update_curr cres s te3 = Some r"
          "\<not> (cc_hw_drv_instances d > MAX_HW_DRV_INSTANCES \<or> cc_num_pwr_states d > MAX_POWER_STATES)"
          "s' = upd_entry c (\<lambda>_. case r of Inl e \<Rightarrow> err_fail_update_entry te3 | Inr te4 \<Rightarrow> te4) s"
      proof -
        have t1: "te_clk_rate te1 = te_clk_rate te" "te_is_crm_client te1 = te_is_crm_client te" "tables_wf te1 = tables_wf te" "te_vdd_level te1 = te_vdd_level te"
          by (simp_all add: te1_def fill_entry_def tables_wf_def)
        note R = reg[unfolded eq]
        show thesis
        proof (cases "\<not> al1")
          case True
          then have "s' = upd_entry c (\<lambda>_. err_fail_alloc_clk_client te) s" using R False None by (simp add: upd_entry_def te_def)
          then show ?thesis by (rule err) simp_all
        next
          case al1: False
          show ?thesis
          proof (cases "cc_hw_drv_instances d > MAX_HW_DRV_INSTANCES \<or> cc_num_pwr_states d > MAX_POWER_STATES")
            case True
            then have "s' = upd_entry c (\<lambda>_. err_fail_alloc_clk_client te1) s" using R False None al1 by auto
            then show ?thesis by (rule err) (simp_all add: t1)
          next
            case b: False
            show ?thesis
            proof (cases "cc_hw_drv_instances d > 0 \<and> cc_num_pwr_states d > 0 \<and> \<not> al2")
              case True
              then have "s' = upd_entry c (\<lambda>_. err_fail_alloc_clk_client (te1\<lparr>te_crm_client_tbl := None, te_crm_client_tbl_size := 0\<rparr>)) s"
                using R False None al1 b by (simp add: err_fail_alloc_crm_tbl_def)
              then show ?thesis by (rule err) (simp_all add: t1[unfolded tables_wf_def] tables_wf_def)
            next
              case m: False
              have "Option.bind (mmrm_sw_update_freq E u te2) (\<lambda>te3. Option.bind (mmrm_sw_update_curr cres s te3) (\<lambda>r. case r of
                  Inl e \<Rightarrow> Some (None, upd_entry c (\<lambda>_. err_fail_update_entry te3) s)
                | Inr te4 \<Rightarrow> Some (te_client te4, upd_entry c (\<lambda>_. te4) s))) = Some (cl, s')"
                using R False None al1 b m by (simp only: if_False if_True not_not simp_thms option.simps)
              then obtain te3 r where t: "mmrm_sw_update_freq E u te2 = Some te3" "mmrm_sw_update_curr cres s te3 = Some r"
                "(case r of Inl e \<Rightarrow> Some (None, upd_entry c (\<lambda>_. err_fail_update_entry te3) s)
                  | Inr te4 \<Rightarrow> Some (te_client te4, upd_entry c (\<lambda>_. te4) s)) = Some (cl, s')"
                unfolding bind_Some_iff by blast
              from t(3) have "s' = upd_entry c (\<lambda>_. case r of Inl e \<Rightarrow> err_fail_update_entry te3 | Inr te4 \<Rightarrow> te4) s"
                by (cases r) auto
              with t(1,2) b show ?thesis by (intro upd)
            qed
          qed
        qed
      qed
      then show ?thesis
      proof cases
        case err
        then show ?thesis using e1[of x] c by blast
      next
        case upd
        obtain fr where fr: "te3 = te2\<lparr>te_freq := fr\<rparr>" "length fr = 5" by (rule update_freq_shape[OF upd(1)])
        have crm: "te_is_crm_client te2 \<longrightarrow> entry_wf te \<longrightarrow> crm_ok te2"
          using fill_crm_ok[OF upd(3), of te1] None by (auto simp: te2_def te1_def fill_entry_def entry_wf_def)
        have "entry_wf te \<longrightarrow> entry_wf te' \<and> (\<forall>j. load j te' = load j te)" if "te' = (case r of Inl e \<Rightarrow> err_fail_update_entry te3 | Inr te4 \<Rightarrow> te4)" for te'
        proof (cases r)
          case (Inl e)
          then show ?thesis using that fr None
            by (auto simp: err_fail_update_entry_def err_fail_alloc_crm_tbl_def err_fail_alloc_clk_client_def entry_wf_def tables_wf_def load_def
                te2_def te1_def fill_crm_def fill_entry_def Let_def)
        next
          case (Inr te4)
          obtain dp lp cm where cm: "te4 = te3\<lparr>te_dyn_pwr := dp, te_leak_pwr := lp, te_current_ma := cm\<rparr>" "length cm = 5"
            "\<forall>row \<in> set cm. length row = 5" using upd(2) Inr by (auto elim: update_curr_shape)
          have "crm_ok te4 \<longleftrightarrow> crm_ok te2" by (simp add: cm(1) fr(1) crm_ok_def)
          then show ?thesis using that Inr cm(2,3) fr(2) crm None
            by (auto simp: cm(1) fr(1) entry_wf_def tables_wf_def load_def te2_def te1_def fill_crm_def fill_entry_def Let_def)
        qed
        then show ?thesis using upd(4) c by blast
      qed
    qed
  qed
  show "peak_inv s'"
  proof (cases "s' = s")
    case False
    then obtain te' where t: "c < length (clk_client_tbl s)" "s' = upd_entry c (\<lambda>_. te') s" "entry_wf te \<longrightarrow> entry_wf te' \<and> (\<forall>j. load j te' = load j te)"
      using step by blast
    have "entry_wf te" using inv t(1) by (simp add: te_def peak_inv_def)
    then show ?thesis unfolding t(2) using inv t(1,3) cap
      by (intro replace_inv) (simp_all add: te_def t(2) upd_entry_def)
  qed (use inv in simp)
  show "pk_threshold (peak_cur_data s') = pk_threshold (peak_cur_data s)" using step by (auto simp: upd_entry_def)
qed

definition idle_release :: "mmrm_client option \<Rightarrow> mmrm_sw_clk_mgr_info \<Rightarrow> bool" where
  "idle_release client s \<longleftrightarrow> (\<forall>cl. client = Some cl \<longrightarrow> client_uid cl < tot_clk_clients s \<longrightarrow>
     te_clk_rate (clk_client_tbl s ! unat (client_uid cl)) = 0 \<or> 1 < te_ref_count (clk_client_tbl s ! unat (client_uid cl)))"

lemma release_inv:
  assumes inv: "peak_inv s" and idle: "idle_release client s"
  obtains rc s' where "mmrm_sw_clk_client_deregister client s = Some (rc, s')" and "peak_inv s'" and "peak_cur_data s' = peak_cur_data s"
proof (cases "\<exists>cl. client = Some cl \<and> client_uid cl < tot_clk_clients s")
  case False
  then have "mmrm_sw_clk_client_deregister client s = Some (Inl EINVAL, s)"
    by (cases client) (auto simp: mmrm_sw_clk_client_deregister_def not_less)
  then show ?thesis using inv by (rule that) simp
next
  case True
  then obtain cl where cl: "client = Some cl" "client_uid cl < tot_clk_clients s" by blast
  define te where "te = clk_client_tbl s ! unat (client_uid cl)"
  define te1 where "te1 = (if te_ref_count te > 0 then te\<lparr>te_ref_count := te_ref_count te - 1\<rparr> else te)"
  define te2 where "te2 = (if te_ref_count te1 = 0 then release_entry te1 else te1)"
  have k: "unat (client_uid cl) < length (clk_client_tbl s)" using cl(2) inv by (simp add: peak_inv_def word_less_nat_alt)
  have wf: "entry_wf te" using inv k by (simp add: te_def peak_inv_def)
  have i: "te_clk_rate te = 0 \<or> 1 < te_ref_count te" using idle cl by (simp add: idle_release_def te_def)
  have r: "te_ref_count te1 \<noteq> 0" if "1 < te_ref_count te"
    using that by (auto simp: te1_def) 
  have e: "entry_wf te2 \<and> (\<forall>j. load j te2 = load j te) \<and> cap te2 = cap te"
    using wf i r by (auto simp: te2_def te1_def release_entry_def entry_wf_def tables_wf_def load_def cap_def crm_ok_def)
  have "mmrm_sw_clk_client_deregister client s = Some (Inr (), upd_entry (unat (client_uid cl)) (\<lambda>_. te2) s)"
    using cl(1) k not_le[THEN iffD2, OF cl(2)]
    by (simp add: mmrm_sw_clk_client_deregister_def te_def[symmetric] te1_def[symmetric] te2_def[symmetric])
  moreover have "peak_inv (upd_entry (unat (client_uid cl)) (\<lambda>_. te2) s)"
    using e inv capacity_update[OF k, of te2] by (intro replace_inv[OF inv k]) (simp_all add: te_def peak_inv_def)
  ultimately show ?thesis by (rule that) (simp add: upd_entry_def)
qed

end
