(* ===== verification/Mmrm_Life.thy ===== *)
theory Mmrm_Life
  imports Mmrm_Budget
begin

unbundle bit_operations_syntax

text \<open>
  What the resource manager decides: a request is granted or refused by the sum of the currents alone, and any run of registrations, legal
  requests and releases of idle clients stays within the budget of the platform. Two registered clients serve as the example.
\<close>

section \<open>The decision\<close>

abbreviation client_entry :: "mmrm_client \<Rightarrow> mmrm_sw_clk_mgr_info \<Rightarrow> mmrm_sw_clk_client_tbl_entry" where
  "client_entry cl s \<equiv> clk_client_tbl s ! unat (client_uid cl)"

lemma setval_admit:
  fixes cl s cd
  defines "k \<equiv> unat (client_uid cl)" and "te \<equiv> client_entry cl s"
  assumes inv: "peak_inv s" and lg: "legal_req u thr (Some cl) (Some cd) v s"
    and plan: "setval_check E u (Some cl) (Some cd) v s = Some (Sv_admit req rate mi)"
  obtains s1 where "mmrm_sw_clk_client_setval E u thr al (Some cl) (Some cd) v s =
      (if admitted s k req (ucast rate) (cd_num_hw_blocks cd)
       then if req_reserve u cd \<and> \<not> te_is_crm_client te then Some (Inr (), s1) else setval_set_rate E u k cd v s1
       else Some (Inl EINVAL, s))"
    and "k < length (clk_client_tbl s)" and "plan_ok u cd v req rate mi te"
    and "granted s k (granted_entry u cd v req rate mi te) (new_total s k req (ucast rate) (cd_num_hw_blocks cd)) (adj_level s k req) s1"
proof -
  have k: "k < length (clk_client_tbl s)" and nt: "no_throttle u thr (clk_client_tbl s ! k)" and p: "plan_ok u cd v req rate mi (clk_client_tbl s ! k)"
    using setval_check_Some[OF inv lg, of E] plan by (auto simp: k_def)
  obtain s1 where s1: "setval_commit E u thr al k cd v req rate mi s =
        Some (if admitted s k req (ucast rate) (cd_num_hw_blocks cd) then (Inr (), s1) else (Inl EINVAL, s))"
      "granted s k (granted_entry u cd v req rate mi (clk_client_tbl s ! k)) (new_total s k req (ucast rate) (cd_num_hw_blocks cd)) (adj_level s k req) s1"
    by (rule commit_eq[OF inv k p nt])
  have t: "clk_client_tbl s1 = (clk_client_tbl s)[k := granted_entry u cd v req rate mi (clk_client_tbl s ! k)]"
    using s1(2) by (auto simp: granted_def notified_def upd_entry_def upd_peak_def)
  have c: "te_is_crm_client (clk_client_tbl s1 ! k) \<longleftrightarrow> te_is_crm_client te"
    using k by (simp add: t te_def k_def granted_entry_def)
  have "mmrm_sw_clk_client_setval E u thr al (Some cl) (Some cd) v s =
      (if admitted s k req (ucast rate) (cd_num_hw_blocks cd)
       then if req_reserve u cd \<and> \<not> te_is_crm_client te then Some (Inr (), s1) else setval_set_rate E u k cd v s1
       else Some (Inl EINVAL, s))"
    using plan s1(1) k c t by (simp add: mmrm_sw_clk_client_setval_def Let_def k_def[symmetric])
  then show ?thesis using k p s1(2) by (intro that) (simp_all add: te_def k_def)
qed

text \<open>The plan of a request of a client without CRM votes that changes something.\<close>

lemma setval_check_plain:
  assumes "client_uid cl < tot_clk_clients s" and "unat (client_uid cl) < length (clk_client_tbl s)"
    and "clk_ok (te_clk (client_entry cl s))" and "\<not> te_is_crm_client (client_entry cl s)"
    and "te_clk_rate (client_entry cl s) \<noteq> v \<or> te_num_hw_blocks (client_entry cl s) \<noteq> cd_num_hw_blocks cd"
  shows "setval_check E u (Some cl) (Some cd) v s =
    Some (case setval_level E u (client_entry cl s) cd v v of Inl e \<Rightarrow> Sv_err e | Inr req \<Rightarrow> Sv_admit req v 0)"
  using assms by (auto simp: setval_check_def not_le[THEN iffD2])

lemma granted_state:
  assumes "granted s k te T l s1"
  obtains evs where "mmrm_log s1 = mmrm_log s @ evs" and "\<forall>e \<in> set evs. \<exists>f nd. e = Ev_notify f nd"
    and "clk_client_tbl s1 = (clk_client_tbl s)[k := te]" and "pk_aggreg_val (peak_cur_data s1) = of_nat T"
    and "pk_aggreg_level (peak_cur_data s1) = l" and "pk_threshold (peak_cur_data s1) = pk_threshold (peak_cur_data s)"
proof -
  obtain keep evs where "\<forall>e \<in> set evs. \<exists>f nd. e = Ev_notify f nd"
    "s1 = upd_entry k (\<lambda>_. te) ((upd_peak (of_nat T) l s)\<lparr>throttled_clients := keep, mmrm_log := mmrm_log (upd_peak (of_nat T) l s) @ evs\<rparr>)"
    using assms by (auto simp: granted_def notified_def)
  then show ?thesis by (intro that[of evs]) (simp_all add: upd_entry_def upd_peak_def)
qed

text \<open>C8: a request of a client without CRM votes is decided by the sum of the currents alone. If the new sum, at the level that the
  request leads to, is not below the threshold, it fails and nothing changes; otherwise the entry of the client and the aggregate
  are what the request asks for, and then, unless it only reserves, the rate is set, whose failure is the result.\<close>

theorem setval_decides:
  assumes inv: "peak_inv s" and lg: "legal_req u thr (Some cl) (Some cd) v s" and uid: "client_uid cl < tot_clk_clients s"
    and clk: "clk_ok (te_clk (client_entry cl s))" and crm: "\<not> te_is_crm_client (client_entry cl s)"
    and new: "te_clk_rate (client_entry cl s) \<noteq> v \<or> te_num_hw_blocks (client_entry cl s) \<noteq> cd_num_hw_blocks cd"
    and lvl: "setval_level E u (client_entry cl s) cd v v = Inr req"
  shows "\<exists>rc s'. mmrm_sw_clk_client_setval E u thr al (Some cl) (Some cd) v s = Some (rc, s') \<and>
    (if new_total s (unat (client_uid cl)) req (ucast v) (cd_num_hw_blocks cd) = 0 \<or>
        new_total s (unat (client_uid cl)) req (ucast v) (cd_num_hw_blocks cd) < unat (pk_threshold (peak_cur_data s))
     then unat (pk_aggreg_val (peak_cur_data s')) = new_total s (unat (client_uid cl)) req (ucast v) (cd_num_hw_blocks cd) \<and>
       pk_aggreg_level (peak_cur_data s') = adj_level s (unat (client_uid cl)) req \<and>
       clk_client_tbl s' = (clk_client_tbl s)[unat (client_uid cl) := (client_entry cl s)
         \<lparr>te_clk_rate := v, te_vdd_level := req, te_reserve := req_reserve u cd, te_num_hw_blocks := cd_num_hw_blocks cd\<rparr>] \<and>
       (\<exists>evs. (\<forall>e \<in> set evs. \<exists>f nd. e = Ev_notify f nd) \<and>
         (if req_reserve u cd then mmrm_log s' = mmrm_log s @ evs \<and> rc = Inr ()
          else mmrm_log s' = mmrm_log s @ evs @ [Ev_set_rate (te_clk (client_entry cl s)) v] \<and>
            rc = (if clk_set_rate E (mmrm_log s @ evs) (te_clk (client_entry cl s)) v = 0 then Inr () else Inl EINVAL)))
     else rc = Inl EINVAL \<and> s' = s)"
proof -
  let ?k = "unat (client_uid cl)" and ?T = "new_total s (unat (client_uid cl)) req (ucast v) (cd_num_hw_blocks cd)"
  let ?te = "(client_entry cl s)\<lparr>te_clk_rate := v, te_vdd_level := req, te_reserve := req_reserve u cd, te_num_hw_blocks := cd_num_hw_blocks cd\<rparr>"
  have len: "?k < length (clk_client_tbl s)" using inv uid by (simp add: peak_inv_def word_less_nat_alt)
  have plan: "setval_check E u (Some cl) (Some cd) v s = Some (Sv_admit req v 0)"
    using setval_check_plain[OF uid len clk crm new] lvl by simp
  obtain s1 where eq: "mmrm_sw_clk_client_setval E u thr al (Some cl) (Some cd) v s =
      (if admitted s ?k req (ucast v) (cd_num_hw_blocks cd)
       then if req_reserve u cd \<and> \<not> te_is_crm_client (client_entry cl s) then Some (Inr (), s1) else setval_set_rate E u ?k cd v s1
       else Some (Inl EINVAL, s))"
    and p: "plan_ok u cd v req v 0 (client_entry cl s)"
    and g: "granted s ?k (granted_entry u cd v req v 0 (client_entry cl s)) ?T (adj_level s ?k req) s1"
    by (rule setval_admit[OF inv lg plan])
  have te: "granted_entry u cd v req v 0 (client_entry cl s) = ?te" using crm by (simp add: granted_entry_def)
  obtain evs where e: "mmrm_log s1 = mmrm_log s @ evs" "\<forall>e \<in> set evs. \<exists>f nd. e = Ev_notify f nd"
    "clk_client_tbl s1 = (clk_client_tbl s)[?k := ?te]" "pk_aggreg_val (peak_cur_data s1) = of_nat ?T"
    "pk_aggreg_level (peak_cur_data s1) = adj_level s ?k req" "pk_threshold (peak_cur_data s1) = pk_threshold (peak_cur_data s)"
    by (rule granted_state[OF g[unfolded te]])
  have T: "unat (of_nat ?T :: u32) = ?T"
    by (rule unat_of_nat32[OF new_total_bound[OF inv len]]) (use p in \<open>simp_all add: plan_ok_def\<close>)
  have sr: "setval_set_rate E u ?k cd v s1 =
      Some (if clk_set_rate E (mmrm_log s @ evs) (te_clk (client_entry cl s)) v = 0 then Inr () else Inl EINVAL,
        log_event (Ev_set_rate (te_clk (client_entry cl s)) v) s1)"
    using len crm by (simp add: setval_set_rate_def e(1,3) set_rate_def rc_of_def)
  show ?thesis
  proof (cases "admitted s ?k req (ucast v) (cd_num_hw_blocks cd)")
    case False
    then show ?thesis using eq by (auto simp: admitted_def)
  next
    case True
    then have ad: "?T = 0 \<or> ?T < unat (pk_threshold (peak_cur_data s))" by (simp add: admitted_def)
    show ?thesis
    proof (cases "req_reserve u cd")
      case True
      then have "mmrm_sw_clk_client_setval E u thr al (Some cl) (Some cd) v s = Some (Inr (), s1)"
        using eq crm \<open>admitted s ?k req (ucast v) (cd_num_hw_blocks cd)\<close> by simp
      then show ?thesis using ad T e(3-5) e(1,2) True by (intro exI[of _ "Inr ()"] exI[of _ s1]) auto
    next
      case False
      then have "mmrm_sw_clk_client_setval E u thr al (Some cl) (Some cd) v s = setval_set_rate E u ?k cd v s1"
        using eq \<open>admitted s ?k req (ucast v) (cd_num_hw_blocks cd)\<close> by simp
      note res = this[unfolded sr]
      show ?thesis unfolding if_P[OF ad] if_not_P[OF False] res
        by (intro exI conjI, rule refl) (use e T in \<open>simp_all add: log_event_def\<close>)
    qed
  qed
qed

section \<open>Requests against the budget\<close>

type_synonym mmrm_request = "mmrm_client option \<times> mmrm_client_data option \<times> u64 \<times> bool"

definition mmrm_ask ::
    "clk_env \<Rightarrow> mmrm_uapi \<Rightarrow> u8 \<Rightarrow> mmrm_request \<Rightarrow> mmrm_sw_clk_mgr_info \<Rightarrow> ((errno + unit) \<times> mmrm_sw_clk_mgr_info) option" where
  "mmrm_ask E u thr r s = (case r of (client, cdo, v, al) \<Rightarrow> mmrm_sw_clk_client_setval E u thr al client cdo v s)"

definition mmrm_legal :: "mmrm_uapi \<Rightarrow> u8 \<Rightarrow> mmrm_request \<Rightarrow> mmrm_sw_clk_mgr_info \<Rightarrow> bool" where
  "mmrm_legal u thr r s \<longleftrightarrow> (case r of (client, cdo, v, al) \<Rightarrow> legal_req u thr client cdo v s)"

definition used_current :: "mmrm_sw_clk_mgr_info \<Rightarrow> nat" where
  "used_current s = unat (pk_aggreg_val (peak_cur_data s))"

definition peak_budget :: "mmrm_sw_clk_mgr_info \<Rightarrow> nat" where
  "peak_budget s = unat (pk_threshold (peak_cur_data s))"

interpretation mmrm_adm: admission_control peak_inv used_current peak_budget "mmrm_legal u thr" "mmrm_ask E u thr" for E u thr
proof
  fix s assume "peak_inv s"
  then show "used_current s = 0 \<or> used_current s < peak_budget s"
    by (auto simp: peak_inv_def used_current_def peak_budget_def word_less_nat_alt)
next
  fix r s
  assume inv: "peak_inv s" and lg: "mmrm_legal u thr r s"
  obtain client cdo v al where r: "r = (client, cdo, v, al)" by (cases r) auto
  have l: "legal_req u thr client cdo v s" using lg by (simp add: mmrm_legal_def r)
  obtain rc s' where s': "mmrm_sw_clk_client_setval E u thr al client cdo v s = Some (rc, s')" "peak_inv s'" "static s s'"
    by (rule setval_total[OF inv l])
  have "mmrm_legal u thr q s \<longrightarrow> mmrm_legal u thr q s'" for q
    by (cases q) (auto simp: mmrm_legal_def intro: legal_req_static[OF inv s'(3)])
  moreover have "peak_budget s' = peak_budget s" using s'(3) by (simp add: static_def peak_budget_def)
  ultimately show "\<exists>x s'. mmrm_ask E u thr r s = Some (x, s') \<and> peak_inv s' \<and> peak_budget s' = peak_budget s \<and>
      (\<forall>q. mmrm_legal u thr q s \<longrightarrow> mmrm_legal u thr q s')"
    using s'(1,2) by (auto simp: mmrm_ask_def r)
qed

section \<open>The life of the manager\<close>

text \<open>Initialisation, and then registrations (the currents of all clients together stay in a signed 32-bit integer), legal requests
  and releases of idle clients.\<close>

inductive mmrm_reach :: "clk_env \<Rightarrow> mmrm_uapi \<Rightarrow> mmrm_clk_platform_resources \<Rightarrow> u8 \<Rightarrow> mmrm_sw_clk_mgr_info \<Rightarrow> bool"
  for E :: clk_env and u :: mmrm_uapi and cres :: mmrm_clk_platform_resources and thr :: u8 where
  start: "mmrm_init_sw_clk_mgr True True cres = Some (Inr cm) \<Longrightarrow> mmrm_reach E u cres thr (cm_sw_info cm)"
| register: "mmrm_reach E u cres thr s \<Longrightarrow> mmrm_sw_clk_client_register E u cres multi al1 al2 d pri pv cb s = Some (cl, s') \<Longrightarrow>
    capacity (clk_client_tbl s') < 2 ^ 31 \<Longrightarrow> mmrm_reach E u cres thr s'"
| request: "mmrm_reach E u cres thr s \<Longrightarrow> mmrm_legal u thr r s \<Longrightarrow> mmrm_ask E u thr r s = Some (rc, s') \<Longrightarrow> mmrm_reach E u cres thr s'"
| release: "mmrm_reach E u cres thr s \<Longrightarrow> idle_release client s \<Longrightarrow> mmrm_sw_clk_client_deregister client s = Some (rc, s') \<Longrightarrow>
    mmrm_reach E u cres thr s'"

lemma mmrm_reach_inv: "mmrm_reach E u cres thr s \<Longrightarrow> peak_inv s \<and> peak_budget s = unat (cr_peak_threshold cres)"
proof (induction rule: mmrm_reach.induct)
  case (start cm)
  then show ?case using init_inv[OF start] by (simp add: peak_budget_def)
next
  case (register s multi al1 al2 d pri pv cb cl s')
  then show ?case using register_inv[of s s'] by (simp add: peak_budget_def)
next
  case (request s r rc s')
  then obtain x s'' where "mmrm_ask E u thr r s = Some (x, s'')" "peak_inv s''" "peak_budget s'' = peak_budget s"
    using mmrm_adm.answered[of s u thr r E] by blast
  with request show ?case by simp
next
  case (release s client rc s')
  then obtain rc2 s2 where "mmrm_sw_clk_client_deregister client s = Some (rc2, s2)" "peak_inv s2" "peak_cur_data s2 = peak_cur_data s"
    using release_inv[of s client] by blast
  with release show ?case by (simp add: peak_budget_def)
qed

text \<open>C7: from any state that the manager reaches, every run of legal requests is answered, and at its end the aggregated current is the sum
  of the currents of the active clients at the aggregated level, and zero or below the threshold of the platform.\<close>

theorem budget_kept:
  assumes "mmrm_reach E u cres thr s" and "\<forall>r \<in> set rs. mmrm_legal u thr r s"
  shows "\<exists>xs s'. serve_all (mmrm_ask E u thr) rs s = Some (xs, s') \<and> length xs = length rs \<and>
    used_current s' = total_load (unat (pk_aggreg_level (peak_cur_data s'))) (clk_client_tbl s') \<and>
    (used_current s' = 0 \<or> used_current s' < unat (cr_peak_threshold cres))"
proof -
  note inv = mmrm_reach_inv[OF assms(1)]
  obtain xs s' where "serve_all (mmrm_ask E u thr) rs s = Some (xs, s')" "length xs = length rs" "peak_inv s'"
    "used_current s' = 0 \<or> used_current s' < peak_budget s"
    using mmrm_adm.serve_all_within[of s rs u thr E] inv assms(2) by blast
  then show ?thesis using inv by (intro exI[of _ xs] exI[of _ s']) (simp add: peak_inv_def used_current_def)
qed

section \<open>Two clients\<close>

text \<open>The platform of \<^const>\<open>demo_res\<close> before and after the registration of its two clients, with the currents that the registration computes.\<close>

definition demo_desc :: "nat \<Rightarrow> u32 \<Rightarrow> u32 \<Rightarrow> mmrm_clk_client_desc" where
  "demo_desc k hw ps = \<lparr>cc_client_domain = ns_domain (demo_noms ! k), cc_client_id = ns_clk_src_id (demo_noms ! k), cc_name = ''core'',
     cc_clk = Clk k, cc_hw_drv_instances = hw, cc_num_pwr_states = ps\<rparr>"

definition demo_idle :: "nat \<Rightarrow> mmrm_sw_clk_client_tbl_entry" where
  "demo_idle k = prepare_entry (demo_noms ! k) zero_entry"

definition demo_live :: "nat \<Rightarrow> u32 \<Rightarrow> mmrm_sw_clk_client_tbl_entry" where
  "demo_live k pri = (demo_idle k)\<lparr>te_name := ''core'', te_clk := Clk k, te_pri := pri, te_freq := [1000000, 1000000, 1000000, 3000000, 5000000],
     te_dyn_pwr := (if k = 0 then [8, 17, 17, 100, 250] else [17, 33, 33, 200, 500]), te_leak_pwr := [3, 5, 5, 10, 15],
     te_current_ma := (if k = 0
       then [[22, 14, 14, 11, 11], [43, 29, 29, 22, 22], [43, 29, 29, 22, 22], [220, 147, 147, 110, 110], [530, 353, 353, 265, 265]]
       else [[38, 26, 26, 19, 19], [77, 51, 51, 38, 38], [77, 51, 51, 38, 38], [420, 280, 280, 210, 210], [1030, 687, 687, 515, 515]]),
     te_client := Some \<lparr>client_uid = of_nat k, client_type = 0\<rparr>, te_ref_count := 1\<rparr>"

lemma demo_start: "mmrm_init_sw_clk_mgr True True demo_res = Some (Inr \<lparr>cm_scheme = 0, cm_sw_info = demo_info [demo_idle 0, demo_idle 1]\<rparr>)"
  by code_simp

lemma demo_register0:
  "mmrm_sw_clk_client_register demo_env demo_uapi demo_res 0 True True (demo_desc 0 0 0) pri 0 None (demo_info [demo_idle 0, demo_idle 1]) =
   Some (te_client (demo_live 0 pri), demo_info [demo_live 0 pri, demo_idle 1])"
  by code_simp

lemma demo_register1:
  "mmrm_sw_clk_client_register demo_env demo_uapi demo_res 0 True True (demo_desc 1 0 0) pri 0 None (demo_info [demo_live 0 pri0, demo_idle 1]) =
   Some (te_client (demo_live 1 pri), demo_info [demo_live 0 pri0, demo_live 1 pri])"
  by code_simp

definition demo_cd :: "u32 \<Rightarrow> mmrm_client_data" where
  "demo_cd flags = \<lparr>cd_num_hw_blocks = 1, cd_flags = flags, cd_drv_type = 0, cd_crm_drv_idx = 0, cd_pwr_st = 0\<rparr>"

definition demo_client :: "nat \<Rightarrow> mmrm_client option" where
  "demo_client k = Some \<lparr>client_uid = of_nat k, client_type = 0\<rparr>"

definition demo_ready :: mmrm_sw_clk_mgr_info where
  "demo_ready = demo_info [demo_live 0 0, demo_live 1 0]"

lemmas demo_defs = demo_ready_def demo_info_def demo_live_def demo_idle_def demo_noms_def prepare_entry_def zero_entry_def
  demo_client_def demo_cd_def

lemma demo_reach: "mmrm_reach demo_env demo_uapi demo_res thr demo_ready"
proof -
  have "capacity [demo_live 0 0, demo_idle 1] = 1060" "capacity [demo_live 0 0, demo_live 1 0] = 2090"
    by (simp_all add: capacity_def cap_def max_list_def demo_defs concat_zero[unfolded max_list_def])
  then have c: "capacity [demo_live 0 0, demo_idle 1] < 2 ^ 31" "capacity [demo_live 0 0, demo_live 1 0] < 2 ^ 31" by simp_all
  have "mmrm_reach demo_env demo_uapi demo_res thr (demo_info [demo_idle 0, demo_idle 1])"
    using mmrm_reach.start[OF demo_start] by simp
  then have "mmrm_reach demo_env demo_uapi demo_res thr (demo_info [demo_live 0 0, demo_idle 1])"
    by (rule mmrm_reach.register[OF _ demo_register0]) (use c(1) in \<open>simp add: demo_info_def\<close>)
  then have "mmrm_reach demo_env demo_uapi demo_res thr (demo_info [demo_live 0 0, demo_live 1 0])"
    by (rule mmrm_reach.register[OF _ demo_register1]) (use c(2) in \<open>simp add: demo_info_def\<close>)
  then show ?thesis by (simp add: demo_ready_def)
qed

definition demo_run :: "mmrm_request list" where
  "demo_run = [(demo_client 1, Some (demo_cd 0), 5000000, True), (demo_client 1, Some (demo_cd 0), 3000000, True),
     (demo_client 0, Some (demo_cd 0), 3000000, True), (demo_client 0, Some (demo_cd 0), 5000000, True)]"

lemma demo_run_legal: "\<forall>r \<in> set demo_run. mmrm_legal demo_uapi 0 r demo_ready"
  by (simp add: mmrm_legal_def legal_req_def no_throttle_def demo_run_def demo_defs)

lemmas setval_defs = mmrm_sw_clk_client_setval_def setval_check_def setval_level_def mmrm_sw_get_req_level_def setval_commit_def
  mmrm_sw_check_peak_current_def mmrm_sw_check_req_level_def match_level_def mmrm_sw_vdd_corner_def MMRM_VDD_LEVEL_MAX_def peak_request_def
  tbl_rows_def cur_at_def mmrm_sw_calculate_total_current_def grant_peak_def mmrm_reinstate_throttled_client_def upd_peak_def req_reserve_def
  update_entry_def setval_set_rate_def set_rate_def rc_of_def log_event_def upd_entry_def demo_env_def demo_uapi_def ceil_rate_def
  demo_rates_def word_le_def

text \<open>The first request does not fit, the others do.\<close>

theorem budget_kept_witness:
  "map_option fst (serve_all (mmrm_ask demo_env demo_uapi 0) demo_run demo_ready) = Some [Inl EINVAL, Inr (), Inr (), Inr ()] \<and>
   (\<exists>xs s'. serve_all (mmrm_ask demo_env demo_uapi 0) demo_run demo_ready = Some (xs, s') \<and> (used_current s' = 0 \<or> used_current s' < 500))"
proof (rule conjI)
  show "map_option fst (serve_all (mmrm_ask demo_env demo_uapi 0) demo_run demo_ready) = Some [Inl EINVAL, Inr (), Inr (), Inr ()]"
    by (simp add: mmrm_ask_def setval_defs demo_defs demo_run_def)
  show "\<exists>xs s'. serve_all (mmrm_ask demo_env demo_uapi 0) demo_run demo_ready = Some (xs, s') \<and> (used_current s' = 0 \<or> used_current s' < 500)"
    using budget_kept[OF demo_reach demo_run_legal] by (auto simp: demo_res_def)
qed

theorem setval_decides_witness:
  "\<exists>rc s'. mmrm_sw_clk_client_setval demo_env demo_uapi 0 True (demo_client 1) (Some (demo_cd 0)) 3000000 demo_ready = Some (rc, s') \<and>
     unat (pk_aggreg_val (peak_cur_data s')) = 210"
proof -
  define cl where "cl = (\<lparr>client_uid = 1, client_type = 0\<rparr> :: mmrm_client)"
  have c: "demo_client 1 = Some cl" by (simp add: demo_client_def cl_def)
  have h: "legal_req demo_uapi 0 (Some cl) (Some (demo_cd 0)) 3000000 demo_ready" "client_uid cl < tot_clk_clients demo_ready"
    "clk_ok (te_clk (client_entry cl demo_ready))" "\<not> te_is_crm_client (client_entry cl demo_ready)"
    "te_clk_rate (client_entry cl demo_ready) \<noteq> 3000000 \<or> te_num_hw_blocks (client_entry cl demo_ready) \<noteq> cd_num_hw_blocks (demo_cd 0)"
    "setval_level demo_env demo_uapi (client_entry cl demo_ready) (demo_cd 0) 3000000 3000000 = Inr 3"
    by (simp_all add: legal_req_def no_throttle_def setval_defs demo_defs cl_def)
  have t: "new_total demo_ready (unat (client_uid cl)) 3 (ucast (3000000 :: u64)) (cd_num_hw_blocks (demo_cd 0)) = 210"
    "210 < unat (pk_threshold (peak_cur_data demo_ready))"
    by (simp_all add: new_total_def adj_level_def load_def total_load_def new_load_def setval_defs demo_defs cl_def)
  have inv: "peak_inv demo_ready" using mmrm_reach_inv[OF demo_reach] by simp
  show ?thesis
    using setval_decides[OF inv h, where al = True] t unfolding c t(1) by auto
qed


unbundle bit_operations_syntax

section \<open>The votes of a CRM client\<close>

lemma crm_plan:
  assumes "te_is_crm_client (client_entry cl s)" and "setval_check E u (Some cl) (Some cd) v s = Some plan"
  shows "(\<exists>e. plan = Sv_err e) \<or> (\<exists>req rate mi. plan = Sv_admit req rate mi)"
proof (cases "client_uid cl \<ge> tot_clk_clients s")
  case False
  with assms show ?thesis
    by (auto simp: setval_check_def bind_Some_iff idx_def split: if_splits) (metis old.sum.exhaust old.sum.simps(5,6))+
qed (use assms in \<open>auto simp: setval_check_def\<close>)

lemma votes_ok_max: "votes_ok t rate i \<Longrightarrow> rate = Max (set t)"
  unfolding votes_ok_def by (intro Max_eqI[symmetric]) (auto intro: nth_mem)

text \<open>C24: when a vote of a CRM client has been accepted, it is in its place in the table of the votes, and the recorded rate is the
  largest vote.\<close>

theorem crm_votes_recorded:
  assumes inv: "peak_inv s" and lg: "legal_req u thr (Some cl) (Some cd) v s" and crm: "te_is_crm_client (client_entry cl s)"
    and run: "mmrm_sw_clk_client_setval E u thr al (Some cl) (Some cd) v s = Some (Inr (), s')"
  shows "\<exists>t. te_crm_client_tbl (client_entry cl s) = Some t \<and>
    te_crm_client_tbl (client_entry cl s') = Some (t[unat (crm_vote_idx u cd (client_entry cl s)) := v]) \<and>
    te_clk_rate (client_entry cl s') = Max (set (t[unat (crm_vote_idx u cd (client_entry cl s)) := v]))"
proof -
  let ?k = "unat (client_uid cl)" and ?te = "client_entry cl s"
  obtain plan where plan: "setval_check E u (Some cl) (Some cd) v s = Some plan" by (rule setval_check_Some[OF inv lg, of E])
  have "\<not> (\<exists>e. plan = Sv_err e)" using run plan by (auto simp: mmrm_sw_clk_client_setval_def)
  then obtain req rate mi where p: "setval_check E u (Some cl) (Some cd) v s = Some (Sv_admit req rate mi)"
    using crm_plan[OF crm plan] plan by blast
  obtain s1 where eq: "mmrm_sw_clk_client_setval E u thr al (Some cl) (Some cd) v s =
      (if admitted s ?k req (ucast rate) (cd_num_hw_blocks cd)
       then if req_reserve u cd \<and> \<not> te_is_crm_client ?te then Some (Inr (), s1) else setval_set_rate E u ?k cd v s1
       else Some (Inl EINVAL, s))"
    and k: "?k < length (clk_client_tbl s)" and ok: "plan_ok u cd v req rate mi ?te"
    and g: "granted s ?k (granted_entry u cd v req rate mi ?te) (new_total s ?k req (ucast rate) (cd_num_hw_blocks cd)) (adj_level s ?k req) s1"
    by (rule setval_admit[OF inv lg p])
  have s1: "clk_client_tbl s1 = (clk_client_tbl s)[?k := granted_entry u cd v req rate mi ?te]" by (rule granted_state[OF g])
  have "setval_set_rate E u ?k cd v s1 = Some (Inr (), s')" using run crm unfolding eq by (simp split: if_splits)
  then have "clk_client_tbl s' = clk_client_tbl s1"
    by (auto simp: setval_set_rate_def bind_Some_iff set_rate_def log_event_def Let_def split: if_splits)
  then have te: "client_entry cl s' = granted_entry u cd v req rate mi ?te" using k by (simp add: s1)
  obtain t where t: "te_crm_client_tbl ?te = Some t" "votes_ok (t[unat (crm_vote_idx u cd ?te) := v]) rate mi"
    using ok crm by (auto simp: plan_ok_def)
  show ?thesis by (rule exI[of _ t]) (use t crm votes_ok_max[OF t(2)] in \<open>simp add: te granted_entry_def\<close>)
qed

section \<open>Throttling\<close>

text \<open>Candidate \<open>i\<close> has been lowered to its lowest rate, which saves more than the excess \<open>delta\<close>; what is left of it is \<open>delta'\<close>.\<close>

definition lowered :: "mmrm_sw_clk_mgr_info \<Rightarrow> u32 \<Rightarrow> nat \<Rightarrow> u32 \<Rightarrow> mmrm_sw_clk_mgr_info \<Rightarrow> bool" where
  "lowered s delta i delta' s' \<longleftrightarrow> i < length (throttle_clients_info s) \<and>
     (\<exists>j te now low f. j = unat (ti_tbl_entry_id (throttle_clients_info s ! i)) \<and> j < length (clk_client_tbl s) \<and> te = clk_client_tbl s ! j \<and>
       cur_at te (te_vdd_level te) (pk_aggreg_level (peak_cur_data s)) = Some now \<and>
       cur_at te MMRM_VDD_LEVEL_LOW_SVS (pk_aggreg_level (peak_cur_data s)) = Some low \<and>
       low < now \<and> delta < now - low \<and> delta' = delta - (now - low) \<and> idx (te_freq te) 0 = Some f \<and>
       clk_client_tbl s' = (clk_client_tbl s)[j := te\<lparr>te_clk_rate := f, te_vdd_level := MMRM_VDD_LEVEL_LOW_SVS, te_reserve := False\<rparr>] \<and>
       peak_cur_data s' = peak_cur_data s \<and>
       throttled_clients s' = throttled_clients s @ [\<lparr>tc_table_id = of_nat i, tc_delta_cu_ma = now - low, tc_prev_vdd_level = te_vdd_level te\<rparr>])"

definition untouched :: "mmrm_sw_clk_mgr_info \<Rightarrow> mmrm_sw_clk_mgr_info \<Rightarrow> bool" where
  "untouched s s' \<longleftrightarrow> (\<exists>lg. s' = s\<lparr>mmrm_log := lg\<rparr>)"

lemma untouched_refl: "untouched s s"
  unfolding untouched_def by (intro exI[of _ "mmrm_log s"]) simp

lemma untouched_trans: "untouched s s1 \<Longrightarrow> untouched s1 s2 \<Longrightarrow> untouched s s2"
  by (auto simp: untouched_def)

lemma lowered_untouched: "untouched s s1 \<Longrightarrow> lowered s1 delta i delta' s' \<Longrightarrow> lowered s delta i delta' s'"
  by (auto simp: untouched_def lowered_def)

lemma notify_untouched: "notify_client E te a b rc s = (rc', s') \<Longrightarrow> untouched s s'"
  by (auto simp: notify_client_def untouched_def log_event_def Let_def split: option.splits intro: exI[of _ "mmrm_log s"])

lemma set_rate_untouched: "set_rate E clk r s = (rc', s') \<Longrightarrow> untouched s s'"
  by (auto simp: set_rate_def untouched_def log_event_def)

lemma throttle_loop_spec:
  "throttle_loop E True cands rc delta s = Some (rc', delta', s') \<Longrightarrow>
   untouched s s' \<and> delta' = delta \<or> rc' = Inr () \<and> (\<exists>i \<in> set cands. lowered s delta i delta' s')"
proof (induction cands arbitrary: rc s)
  case Nil
  then show ?case by (simp add: untouched_refl)
next
  case (Cons i rest)
  obtain ti te now low where c: "idx (throttle_clients_info s) i = Some ti" "idx (clk_client_tbl s) (unat (ti_tbl_entry_id ti)) = Some te"
    "cur_at te (te_vdd_level te) (pk_aggreg_level (peak_cur_data s)) = Some now"
    "cur_at te MMRM_VDD_LEVEL_LOW_SVS (pk_aggreg_level (peak_cur_data s)) = Some low"
    using Cons.prems by (auto simp: bind_Some_iff)
  have next_round: ?case if "untouched s s1" "throttle_loop E True rest rc1 delta s1 = Some (rc', delta', s')" for rc1 s1
    using Cons.IH[OF that(2)]
  proof (elim disjE conjE bexE)
    fix j assume j: "rc' = Inr ()" "j \<in> set rest" "lowered s1 delta j delta' s'"
    then show ?thesis using lowered_untouched[OF that(1) j(3)] by auto
  qed (use untouched_trans[OF that(1)] in blast)
  show ?case
  proof (cases "now \<le> low \<or> now - low \<le> delta")
    case True
    then have "throttle_loop E True rest rc delta s = Some (rc', delta', s')" using Cons.prems c by simp
    then show ?thesis by (rule next_round[OF untouched_refl])
  next
    case False
    then obtain old f where f: "idx (te_freq te) (unat (te_vdd_level te)) = Some old" "idx (te_freq te) 0 = Some f"
      using Cons.prems c by (auto simp: bind_Some_iff MMRM_VDD_LEVEL_LOW_SVS_def)
    obtain rc1 s1 where n: "notify_client E te old f rc s = (rc1, s1)" by (cases "notify_client E te old f rc s")
    obtain rc2 s2 where r: "(if te_reserve te then (rc1, s1) else set_rate E (te_clk te) f s1) = (rc2, s2)"
      by (cases "if te_reserve te then (rc1, s1) else set_rate E (te_clk te) f s1")
    have u1: "untouched s s1" by (rule notify_untouched[OF n])
    have "untouched s1 s2" using r by (auto simp: untouched_refl split: if_splits dest: set_rate_untouched)
    then have u2: "untouched s s2" by (rule untouched_trans[OF u1])
    have low0: "idx (te_freq te) (unat MMRM_VDD_LEVEL_LOW_SVS) = Some f" using f(2) by (simp add: MMRM_VDD_LEVEL_LOW_SVS_def)
    have run: "(if rc1 \<noteq> Inr () then throttle_loop E True rest rc1 delta s1
        else if rc2 \<noteq> Inr () then throttle_loop E True rest rc2 delta s2
        else Some (rc2, delta - (now - low), upd_entry (unat (ti_tbl_entry_id ti))
               (\<lambda>e. e\<lparr>te_clk_rate := f, te_vdd_level := MMRM_VDD_LEVEL_LOW_SVS, te_reserve := False\<rparr>)
               (s2\<lparr>throttled_clients := throttled_clients s2 @
                  [\<lparr>tc_table_id = of_nat i, tc_delta_cu_ma = now - low, tc_prev_vdd_level = te_vdd_level te\<rparr>]\<rparr>))) = Some (rc', delta', s')"
      using Cons.prems c f False by (simp add: low0 n r Let_def cong: if_cong split del: if_split)
    consider "rc1 \<noteq> Inr ()" | "rc1 = Inr ()" "rc2 \<noteq> Inr ()" | "rc1 = Inr ()" "rc2 = Inr ()" by blast
    then show ?thesis
    proof cases
      case 1
      then show ?thesis using run by (intro next_round[OF u1]) simp
    next
      case 2
      then show ?thesis using run by (intro next_round[OF u2]) simp
    next
      case 3
      have "lowered s delta i delta' s'"
        using run 3 c f(2) False u2 unfolding lowered_def
        by (auto simp: untouched_def upd_entry_def not_le idx_def split: if_splits)
      then show ?thesis using run 3 by auto
    qed
  qed
qed

text \<open>C25: throttling changes at most one client. Unless memory runs out, it either leaves the table, the aggregate and the excess (the current \<open>delta\<close> that the caller asks for) as they
  are, or it succeeds after lowering exactly one candidate to its lowest rate, whose saving exceeds the excess; the saving is taken off the
  excess and the client is recorded at the end of the list of throttled clients.\<close>

theorem throttle_one:
  assumes "mmrm_sw_throttle_low_priority_client E True delta s = Some (rc, delta', s')"
  shows "(\<exists>lg. s' = s\<lparr>mmrm_log := lg\<rparr>) \<and> delta' = delta \<or>
    rc = Inr () \<and> (\<exists>i < unat (throttle_clients_data_length s). lowered s delta i delta' s')"
  using throttle_loop_spec[OF assms[unfolded mmrm_sw_throttle_low_priority_client_def]] by (auto simp: untouched_def)

section \<open>Examples\<close>

definition demo_req ::
    "clk_env \<Rightarrow> nat \<Rightarrow> mmrm_client_data \<Rightarrow> u64 \<Rightarrow> mmrm_sw_clk_mgr_info \<Rightarrow> ((errno + unit) \<times> mmrm_sw_clk_mgr_info) option" where
  "demo_req E k cd v s = mmrm_sw_clk_client_setval E demo_uapi 1 True (demo_client k) (Some cd) v s"

lemmas req_defs = demo_req_def setval_defs demo_defs

definition demo_res_thr :: mmrm_clk_platform_resources where
  "demo_res_thr = demo_res\<lparr>cr_throttle_clients_data_length := 1, cr_clsid_threshold_clients := [0x10002, 0, 0, 0, 0]\<rparr>"

text \<open>The first client can be throttled, the second one has high priority.\<close>

definition demo_prio :: mmrm_sw_clk_mgr_info where
  "demo_prio = (demo_info [demo_live 0 0, demo_live 1 1])
     \<lparr>throttle_clients_info := \<lparr>ti_csid_throttle_client = 0x10002, ti_tbl_entry_id = 0\<rparr> #
        replicate 4 \<lparr>ti_csid_throttle_client = 0, ti_tbl_entry_id = 0\<rparr>, throttle_clients_data_length := 1\<rparr>"

text \<open>With the candidate at 5 MHz, it is throttled.\<close>

definition demo_busy :: mmrm_sw_clk_mgr_info where
  "demo_busy = (case demo_req demo_env 0 (demo_cd 0) 5000000 demo_prio of Some (r, s) \<Rightarrow> s)"

lemma demo_busy_eq: "demo_busy = demo_prio\<lparr>clk_client_tbl := [(demo_live 0 0)\<lparr>te_clk_rate := 5000000, te_vdd_level := 4, te_num_hw_blocks := 1\<rparr>, demo_live 1 1],
    peak_cur_data := \<lparr>pk_threshold = 500, pk_aggreg_val = 265, pk_aggreg_level = 4\<rparr>, mmrm_log := [Ev_set_rate (Clk 0) 5000000]\<rparr>"
  by (simp add: demo_busy_def req_defs demo_prio_def)

theorem throttle_one_witness:
  "\<exists>delta' s'. mmrm_sw_throttle_low_priority_client demo_env True 210 demo_busy = Some (Inr (), delta', s') \<and> lowered demo_busy 210 0 delta' s'"
proof -
  obtain delta' s' where r: "mmrm_sw_throttle_low_priority_client demo_env True 210 demo_busy = Some (Inr (), delta', s')" "delta' \<noteq> 210"
    by (simp add: mmrm_sw_throttle_low_priority_client_def demo_busy_eq demo_prio_def req_defs MMRM_VDD_LEVEL_LOW_SVS_def notify_client_def)
  have "unat (throttle_clients_data_length demo_busy) = 1" by (simp add: demo_busy_eq demo_prio_def)
  then show ?thesis using throttle_one[OF r(1)] r by auto
qed

definition demo_crm :: mmrm_sw_clk_mgr_info where
  "demo_crm = demo_info [(demo_live 0 0)\<lparr>te_is_crm_client := True, te_hw_drv_instances := 2, te_num_pwr_states := 1, te_crm_client_tbl_size := 3,
     te_crm_client_tbl := Some [0, 0, 0]\<rparr>, demo_idle 1]"

lemma demo_crm_register:
  "mmrm_sw_clk_client_register demo_env demo_uapi demo_res 0 True True (demo_desc 0 2 1) 0 0 None (demo_info [demo_idle 0, demo_idle 1]) =
   Some (demo_client 0, demo_crm)"
  by code_simp

definition crm_cd :: "u32 \<Rightarrow> mmrm_client_data" where
  "crm_cd i = \<lparr>cd_num_hw_blocks = 1, cd_flags = 0, cd_drv_type = 1, cd_crm_drv_idx = i, cd_pwr_st = 0\<rparr>"

theorem crm_votes_recorded_witness:
  "\<exists>s1 t. demo_req demo_env 0 (crm_cd 0) 5000000 demo_crm = Some (Inr (), s1) \<and> te_crm_client_tbl (clk_client_tbl s1 ! 0) = Some t \<and>
     te_clk_rate (clk_client_tbl s1 ! 0) = Max (set t)"
proof -
  have "capacity (clk_client_tbl demo_crm) = 1060"
    by (simp add: capacity_def cap_def demo_crm_def max_list_def demo_defs concat_zero[unfolded max_list_def])
  then have cap: "capacity (clk_client_tbl demo_crm) < 2 ^ 31" by simp
  have "mmrm_reach demo_env demo_uapi demo_res 1 (demo_info [demo_idle 0, demo_idle 1])" using mmrm_reach.start[OF demo_start] by simp
  from mmrm_reach.register[OF this demo_crm_register cap] have inv: "peak_inv demo_crm" by (simp add: mmrm_reach_inv)
  define cl where "cl = (\<lparr>client_uid = 0, client_type = 0\<rparr> :: mmrm_client)"
  have c: "demo_client 0 = Some cl" by (simp add: demo_client_def cl_def)
  have l: "legal_req demo_uapi 1 (Some cl) (Some (crm_cd 0)) 5000000 demo_crm" and crm: "te_is_crm_client (client_entry cl demo_crm)"
    by (simp_all add: legal_req_def no_throttle_def demo_crm_def crm_cd_def setval_defs demo_defs cl_def)
  obtain s1 where s1: "demo_req demo_env 0 (crm_cd 0) 5000000 demo_crm = Some (Inr (), s1)"
    by (simp add: req_defs demo_crm_def crm_cd_def mmrm_sw_get_max_crm_rate_def crm_vote_idx_def Let_def)
  then have run: "mmrm_sw_clk_client_setval demo_env demo_uapi 1 True (Some cl) (Some (crm_cd 0)) 5000000 demo_crm = Some (Inr (), s1)"
    unfolding demo_req_def c .
  have "unat (client_uid cl) = 0" by (simp add: cl_def)
  then show ?thesis using crm_votes_recorded[OF inv l crm run] s1 by auto
qed

end
