(* ===== verification/Mmrm_Limits.thy ===== *)
theory Mmrm_Limits
  imports Mmrm_Life
begin

unbundle bit_operations_syntax

text \<open>
  The limits of the resource manager, as concrete runs on the platform of two clients: where the aggregated current
  is not the current in use, and where it exceeds the threshold.
\<close>

section \<open>Releasing an active client\<close>

text \<open>Two clients at 3 MHz, of which the first, with two blocks, is released.\<close>

definition leak_run :: "((errno + unit) list \<times> mmrm_sw_clk_mgr_info) option" where
  "leak_run = do {
     (r1, s1) \<leftarrow> demo_req demo_env 1 (demo_cd 0) 3000000 demo_ready;
     (r2, s2) \<leftarrow> demo_req demo_env 0 ((demo_cd 0)\<lparr>cd_num_hw_blocks := 2\<rparr>) 3000000 s1;
     (r3, s3) \<leftarrow> mmrm_sw_clk_client_deregister (demo_client 0) s2;
     Some ([r1, r2, r3], s3) }"

text \<open>The client registers again and asks for one block.\<close>

definition leak_again :: "mmrm_sw_clk_mgr_info \<Rightarrow> (mmrm_client option \<times> (errno + unit) \<times> mmrm_sw_clk_mgr_info) option" where
  "leak_again s = do {
     (cl, s1) \<leftarrow> mmrm_sw_clk_client_register demo_env demo_uapi demo_res 0 True True (demo_desc 0 0 0) 0 0 None s;
     (r, s2) \<leftarrow> demo_req demo_env 0 (demo_cd 0) 3000000 s1;
     Some (cl, r, s2) }"

lemma leak_run_end: "map_option (\<lambda>(rs, s). (rs, map te_clk_rate (clk_client_tbl s), pk_aggreg_val (peak_cur_data s))) leak_run =
   Some ([Inr (), Inr (), Inr ()], [0, 3000000], 430)"
  by (simp add: leak_run_def req_defs mmrm_sw_clk_client_deregister_def release_entry_def)

lemma leak_run_load: "map_option (\<lambda>(rs, s). total_load 3 (clk_client_tbl s)) leak_run = Some 210"
  by (simp add: leak_run_def req_defs mmrm_sw_clk_client_deregister_def release_entry_def total_load_def load_def)

lemma leak_again_refused: "Option.bind leak_run (\<lambda>(rs, s). map_option (\<lambda>(cl, r, s'). (cl, r)) (leak_again s)) = Some (demo_client 0, Inl EINVAL)"
  by code_simp

text \<open>releasing a client that still has a rate leaves its current in the aggregate: with one client active at 210 mA, the aggregate
  stays at 430 mA, and a request for 110 mA more is refused although the threshold is 500 mA.\<close>

theorem deregister_leaks:
  "\<exists>s. leak_run = Some ([Inr (), Inr (), Inr ()], s) \<and> map te_clk_rate (clk_client_tbl s) = [0, 3000000] \<and>
     total_load 3 (clk_client_tbl s) = 210 \<and> pk_aggreg_val (peak_cur_data s) = 430 \<and>
     map_option (\<lambda>(cl, r, s'). (cl, r)) (leak_again s) = Some (demo_client 0, Inl EINVAL)"
proof -
  obtain rs s where r: "leak_run = Some (rs, s)" using leak_run_end by (cases leak_run) auto
  have e: "rs = [Inr (), Inr (), Inr ()]" "map te_clk_rate (clk_client_tbl s) = [0, 3000000]" "pk_aggreg_val (peak_cur_data s) = 430"
    using leak_run_end unfolding r by (simp_all only: option.map prod.case option.inject prod.inject)
  have l: "total_load 3 (clk_client_tbl s) = 210" using leak_run_load unfolding r by (simp only: option.map prod.case option.inject)
  have g: "map_option (\<lambda>(cl, r, s'). (cl, r)) (leak_again s) = Some (demo_client 0, Inl EINVAL)"
    using leak_again_refused unfolding r by (simp only: bind.bind_lunit prod.case)
  show ?thesis by (rule exI[of _ s], intro conjI) (simp_all only: r e l g)
qed

section \<open>A client of high priority\<close>

lemma demo_prio_start: "do {
     r \<leftarrow> mmrm_init_sw_clk_mgr True True demo_res_thr;
     cm \<leftarrow> (case r of Inl e \<Rightarrow> None | Inr cm \<Rightarrow> Some cm);
     (c0, s0) \<leftarrow> mmrm_sw_clk_client_register demo_env demo_uapi demo_res_thr 0 True True (demo_desc 0 0 0) 0 0 None (cm_sw_info cm);
     (c1, s1) \<leftarrow> mmrm_sw_clk_client_register demo_env demo_uapi demo_res_thr 0 True True (demo_desc 1 0 0) 1 0 None s0;
     Some s1 } = Some demo_prio"
  by code_simp

text \<open>a client of high priority is admitted above the threshold when no candidate for throttling saves enough: the aggregate is 515 mA
  with a threshold of 500 mA, the clock is set, and no client has been throttled.\<close>

theorem high_priority_overshoots:
  "\<exists>s. demo_req demo_env 1 (demo_cd 0) 5000000 demo_prio = Some (Inr (), s) \<and> pk_aggreg_val (peak_cur_data s) = 515 \<and>
     pk_threshold (peak_cur_data s) = 500 \<and> mmrm_log s = [Ev_set_rate (Clk 1) 5000000] \<and> throttled_clients s = []"
  by (simp add: req_defs demo_prio_def mmrm_sw_throttle_low_priority_client_def MMRM_VDD_LEVEL_LOW_SVS_def)

section \<open>Setting the clock fails\<close>

definition clk_fail :: clk_env where
  "clk_fail = demo_env\<lparr>clk_set_rate := (\<lambda>l clk w. - 22)\<rparr>"

text \<open>when setting the clock fails, the rate stays recorded and the current stays in the aggregate; the same request again returns
  success without another attempt to set the clock.\<close>

theorem retry_not_set:
  "\<exists>s. demo_req clk_fail 1 (demo_cd 0) 3000000 demo_ready = Some (Inl EINVAL, s) \<and>
     mmrm_sw_clk_client_getval (demo_client 1) s = Some (Inr \<lparr>rv_min = 3000000, rv_cur = 3000000, rv_max = 3000000\<rparr>) \<and>
     pk_aggreg_val (peak_cur_data s) = 210 \<and> demo_req clk_fail 1 (demo_cd 0) 3000000 s = Some (Inr (), s)"
  by (simp add: req_defs clk_fail_def mmrm_sw_clk_client_getval_def)

section \<open>A vote of zero\<close>

text \<open>a vote of zero of one CRM instance sets the level of the client to the lowest one although its rate, the largest vote, stays at
  5 MHz: the aggregate falls from 265 mA to 22 mA.\<close>

theorem crm_zero_vote:
  "\<exists>s1 s2. demo_req demo_env 0 (crm_cd 0) 5000000 demo_crm = Some (Inr (), s1) \<and> pk_aggreg_val (peak_cur_data s1) = 265 \<and>
     demo_req demo_env 0 (crm_cd 1) 0 s1 = Some (Inr (), s2) \<and> pk_aggreg_val (peak_cur_data s2) = 22 \<and>
     te_clk_rate (clk_client_tbl s2 ! 0) = 5000000 \<and> te_vdd_level (clk_client_tbl s2 ! 0) = 0 \<and>
     mmrm_sw_get_req_level demo_env demo_uapi (clk_client_tbl s2 ! 0) 5000000 = Inr 4"
  by (simp add: req_defs demo_crm_def crm_cd_def mmrm_sw_get_max_crm_rate_def crm_vote_idx_def Let_def)

section \<open>The level of the others\<close>

definition demo_at :: "nat \<Rightarrow> u32 \<Rightarrow> u64 \<Rightarrow> nat \<Rightarrow> mmrm_sw_clk_client_tbl_entry" where
  "demo_at j l r k = (demo_live k 0)\<lparr>te_clk_src_id := of_nat j, te_clk_rate := r, te_vdd_level := l, te_num_hw_blocks := 1\<rparr>"

text \<open>Three active clients at the levels 4, 3 and 2.\<close>

definition demo_three :: mmrm_sw_clk_mgr_info where
  "demo_three = (demo_info [demo_at 0 4 5000000 0, demo_at 1 3 3000000 1, demo_at 2 2 1000000 0])
     \<lparr>peak_cur_data := \<lparr>pk_threshold = 500, pk_aggreg_val = 497, pk_aggreg_level = 4\<rparr>\<rparr>"

lemma demo_three_load: "used_current demo_three = total_load 4 (clk_client_tbl demo_three)"
  by (simp add: used_current_def demo_three_def demo_at_def total_load_def load_def demo_defs)

text \<open>when the only client at the aggregated level leaves it, the new level is the last one that the search meets and not the highest:
  the clients at the levels 3 and 2 stay as they are, and the aggregated level becomes 2, below the level of an active client.\<close>

theorem level_below_active:
  "\<exists>s. demo_req demo_env 0 (demo_cd 0) 1000000 demo_three = Some (Inr (), s) \<and> pk_aggreg_level (peak_cur_data s) = 2 \<and>
     te_vdd_level (clk_client_tbl s ! 1) = 3 \<and> te_clk_rate (clk_client_tbl s ! 1) = 3000000"
  by (simp add: req_defs demo_three_def demo_at_def)

end
