(* ===== verification/Mmrm_Exported.thy ===== *)
theory Mmrm_Exported
  imports Mmrm_Life
begin

unbundle bit_operations_syntax

text \<open>
  The functions that the multimedia drivers call, from the probe on: the driver is ready after a probe that finds clock clients, and
  registrations, legal requests and releases of idle clients keep it so.
\<close>

section \<open>The exported functions\<close>

text \<open>After a probe with clients: the manager is there, and it is in a state of its life.\<close>

definition module_ready :: "clk_env \<Rightarrow> mmrm_uapi \<Rightarrow> mmrm_module \<Rightarrow> bool" where
  "module_ready E u m \<longleftrightarrow> (\<exists>d cm. drv_data m = Drv d \<and> dd_is_clk_scaling_supported d \<and> dd_clk_mgr_ops d \<and> dd_clk_mgr d = Some cm \<and>
     mmrm_reach E u (dd_clk_res d) (msm_mmrm_enable_throttle_feature m) (cm_sw_info cm))"

definition module_legal :: "mmrm_uapi \<Rightarrow> mmrm_client option \<Rightarrow> mmrm_client_data option \<Rightarrow> u64 \<Rightarrow> mmrm_module \<Rightarrow> bool" where
  "module_legal u client cdo v m \<longleftrightarrow> (\<forall>d cm. drv_data m = Drv d \<longrightarrow> dd_clk_mgr d = Some cm \<longrightarrow>
     legal_req u (msm_mmrm_enable_throttle_feature m) client cdo v (cm_sw_info cm))"

text \<open>What the exported functions say of the current in use.\<close>

definition module_current :: "mmrm_module \<Rightarrow> (nat \<times> nat) option" where
  "module_current m = (case drv_data m of
     Drv d \<Rightarrow> map_option (\<lambda>cm. (used_current (cm_sw_info cm), unat (cr_peak_threshold (dd_clk_res d)))) (dd_clk_mgr d)
   | _ \<Rightarrow> None)"

lemma module_ready_current: "module_ready E u m \<Longrightarrow> \<exists>n t. module_current m = Some (n, t) \<and> (n = 0 \<or> n < t)"
  using mmrm_adm.within mmrm_reach_inv unfolding module_ready_def module_current_def by fastforce

lemma probe_ready_spec:
  assumes "msm_mmrm_probe u dt of_device_is_compatible of_compat al m = Some (Inr (), m')" and "mmrm_count_clk_clients_frm_dt dt \<noteq> 0"
  shows "module_ready E u m' \<and> dev_drvdata m' \<and> (\<exists>t. module_current m' = Some (0, t))"
proof -
  obtain cres d2 where p: "mmrm_init (al 3) (al 4) \<lparr>dd_is_clk_scaling_supported = True, dd_clk_res = cres, dd_clk_mgr = None, dd_clk_mgr_ops = False\<rparr> = Some (Inr (), d2)"
    and m': "m' = m\<lparr>dev_drvdata := True, drv_data := Drv d2\<rparr>"
    using assms by (auto simp: msm_mmrm_probe_def msm_mmrm_probe_init_def Let_def bind_Some_iff split: if_splits option.splits sum.splits) (metis old.unit.exhaust sum.exhaust)+
  let ?d1 = "\<lparr>dd_is_clk_scaling_supported = True, dd_clk_res = cres, dd_clk_mgr = None, dd_clk_mgr_ops = True\<rparr>"
  have s: "cr_scheme cres = CLK_MGR_SCHEME_SW"
    using p by (auto simp: mmrm_init_def mmrm_get_clk_mgr_ops_def split: if_splits)
  obtain cm where cm: "mmrm_init_sw_clk_mgr (al 3) (al 4) cres = Some (Inr cm)" "d2 = ?d1\<lparr>dd_clk_mgr := Some cm\<rparr>"
    using p s by (auto simp: mmrm_init_def mmrm_get_clk_mgr_ops_def bind_Some_iff split: sum.splits) (metis sum.exhaust)
  then have al: "al 3" "al 4" by (auto simp: mmrm_init_sw_clk_mgr_def split: if_splits)
  have r: "mmrm_reach E u cres thr (cm_sw_info cm)" for thr using cm(1) al by (intro mmrm_reach.start) simp
  moreover have "used_current (cm_sw_info cm) = 0"
    using cm(1) al by (auto simp: mmrm_init_sw_clk_mgr_def bind_Some_iff used_current_def)
  ultimately show ?thesis by (simp add: m' cm(2) module_ready_def module_current_def)
qed

text \<open>a successful probe of a device with clock clients leaves a manager with an empty budget, ready for the exported functions.\<close>

theorem probe_ready:
  assumes "msm_mmrm_probe u dt of_device_is_compatible of_compat al m = Some (Inr (), m')" and "mmrm_count_clk_clients_frm_dt dt \<noteq> 0"
  shows "module_ready E u m' \<and> dev_drvdata m' \<and> (\<exists>t. module_current m' = Some (0, t))"
  using assms by (rule probe_ready_spec)

definition module_table :: "mmrm_module \<Rightarrow> mmrm_sw_clk_client_tbl_entry list" where
  "module_table m = (case drv_data m of Drv d \<Rightarrow> (case dd_clk_mgr d of Some cm \<Rightarrow> clk_client_tbl (cm_sw_info cm) | None \<Rightarrow> []) | _ \<Rightarrow> [])"

text \<open>Registration keeps the driver ready as long as the currents of all clients fit into a signed 32-bit integer, and so does the release
  of a client without a rate.\<close>

lemma register_ready:
  assumes "module_ready E u m" and "mmrm_client_register E u al1 al2 desc m = Some (c, m')" and "capacity (module_table m') < 2 ^ 31"
  shows "module_ready E u m'"
proof -
  obtain d cm where d: "drv_data m = Drv d" "dd_is_clk_scaling_supported d" "dd_clk_mgr_ops d" "dd_clk_mgr d = Some cm"
    "mmrm_reach E u (dd_clk_res d) (msm_mmrm_enable_throttle_feature m) (cm_sw_info cm)" using assms(1) by (auto simp: module_ready_def)
  show ?thesis
  proof (cases "\<exists>ds. desc = Some ds \<and> md_client_type ds = MMRM_CLIENT_CLOCK u")
    case False
    then have "m' = m" using assms(2) d(1) by (cases desc) (auto simp: mmrm_client_register_def)
    with assms(1) show ?thesis by simp
  next
    case True
    then obtain ds where ds: "desc = Some ds" "md_client_type ds = MMRM_CLIENT_CLOCK u" by blast
    then obtain si where si: "mmrm_sw_clk_client_register E u (dd_clk_res d) (msm_mmrm_allow_multiple_register m) al1 al2 (md_desc ds)
        (md_priority ds) (md_pvt_data ds) (md_notifier_callback_fn ds) (cm_sw_info cm) = Some (c, si)"
      "m' = m\<lparr>drv_data := Drv (d\<lparr>dd_clk_mgr := Some (cm\<lparr>cm_sw_info := si\<rparr>)\<rparr>)\<rparr>"
      using assms(2) d by (auto simp: mmrm_client_register_def mmrm_clk_client_register_def bind_Some_iff)
    have "mmrm_reach E u (dd_clk_res d) (msm_mmrm_enable_throttle_feature m) si"
      by (rule mmrm_reach.register[OF d(5) si(1)]) (use assms(3) in \<open>simp add: si(2) module_table_def\<close>)
    then show ?thesis using d by (simp add: si(2) module_ready_def)
  qed
qed

lemma deregister_ready:
  assumes "module_ready E u m" and "mmrm_client_deregister u client m = Some (rc, m')"
    and "\<And>d cm. drv_data m = Drv d \<Longrightarrow> dd_clk_mgr d = Some cm \<Longrightarrow> idle_release client (cm_sw_info cm)"
  shows "module_ready E u m'"
proof -
  obtain d cm where d: "drv_data m = Drv d" "dd_is_clk_scaling_supported d" "dd_clk_mgr_ops d" "dd_clk_mgr d = Some cm"
    "mmrm_reach E u (dd_clk_res d) (msm_mmrm_enable_throttle_feature m) (cm_sw_info cm)" using assms(1) by (auto simp: module_ready_def)
  show ?thesis
  proof (cases "\<exists>cl. client = Some cl \<and> client_type cl = MMRM_CLIENT_CLOCK u")
    case False
    then have "m' = m" using assms(2) d(1) by (cases client) (auto simp: mmrm_client_deregister_def with_clk_client_def)
    with assms(1) show ?thesis by simp
  next
    case True
    then obtain r si where si: "mmrm_sw_clk_client_deregister client (cm_sw_info cm) = Some (r, si)"
      "m' = m\<lparr>drv_data := Drv (d\<lparr>dd_clk_mgr := Some (cm\<lparr>cm_sw_info := si\<rparr>)\<rparr>)\<rparr>"
      using assms(2) d by (auto simp: mmrm_client_deregister_def with_clk_client_def mmrm_clk_client_deregister_def on_clk_mgr_def)
    have "mmrm_reach E u (dd_clk_res d) (msm_mmrm_enable_throttle_feature m) si"
      by (rule mmrm_reach.release[OF d(5) assms(3)[OF d(1,4)] si(1)])
    then show ?thesis using d by (simp add: si(2) module_ready_def)
  qed
qed

text \<open>C9: once the driver is ready, every legal call of \<open>mmrm_client_set_value\<close> returns, leaves the driver ready, and keeps the current in
  use at zero or below the threshold that the device tree gives.\<close>

theorem set_value_ready:
  assumes "module_ready E u m" and "module_legal u client cdo v m"
  shows "\<exists>rc m'. mmrm_client_set_value E u al client cdo v m = Some (rc, m') \<and> module_ready E u m' \<and>
    (\<exists>n t. module_current m' = Some (n, t) \<and> (n = 0 \<or> n < t))"
proof -
  let ?thr = "msm_mmrm_enable_throttle_feature m"
  obtain d cm where d: "drv_data m = Drv d" "dd_is_clk_scaling_supported d" "dd_clk_mgr_ops d" "dd_clk_mgr d = Some cm"
    "mmrm_reach E u (dd_clk_res d) ?thr (cm_sw_info cm)" using assms(1) by (auto simp: module_ready_def)
  have lg: "legal_req u ?thr client cdo v (cm_sw_info cm)" using assms(2) d by (simp add: module_legal_def)
  have "\<exists>rc m'. mmrm_client_set_value E u al client cdo v m = Some (rc, m') \<and> module_ready E u m'"
  proof (cases "\<exists>cl cd. client = Some cl \<and> cdo = Some cd \<and> client_type cl = MMRM_CLIENT_CLOCK u")
    case False
    then obtain rc where "mmrm_client_set_value E u al client cdo v m = Some (rc, m)"
      using d(1) by (cases client; cases cdo) (auto simp: mmrm_client_set_value_def with_clk_client_def)
    then show ?thesis using assms(1) by blast
  next
    case True
    then obtain cl cd where c: "client = Some cl" "cdo = Some cd" "client_type cl = MMRM_CLIENT_CLOCK u" by blast
    obtain rc s' where s': "mmrm_sw_clk_client_setval E u ?thr al client cdo v (cm_sw_info cm) = Some (rc, s')"
      by (rule setval_total[OF conjunct1[OF mmrm_reach_inv[OF d(5)]] lg])
    have "mmrm_reach E u (dd_clk_res d) ?thr s'"
      by (rule mmrm_reach.request[OF d(5), of "(client, cdo, v, al)"]) (use lg s' in \<open>simp_all add: mmrm_legal_def mmrm_ask_def\<close>)
    moreover have "mmrm_client_set_value E u al client cdo v m =
        Some (rc, m\<lparr>drv_data := Drv (d\<lparr>dd_clk_mgr := Some (cm\<lparr>cm_sw_info := s'\<rparr>)\<rparr>)\<rparr>)"
      using c d s' by (simp add: mmrm_client_set_value_def with_clk_client_def mmrm_clk_client_setval_def on_clk_mgr_def)
    ultimately show ?thesis using d by (auto simp: module_ready_def)
  qed
  then show ?thesis using module_ready_current by blast
qed

section \<open>A device tree\<close>

definition demo_dt :: mmrm_of_node where
  "demo_dt = \<lparr>of_property_count_strings = (\<lambda>p. 5), of_property_read_string_index = (\<lambda>p i. Some ''corner''),
     of_property_read_u32_index = (\<lambda>p i.
       if p = ''mmrm-client-info'' then Some ([1, 2, 6553600, 655360, 2, 3, 5, 13107200, 655360, 1] ! i)
       else if p = ''mmrm-peak-threshold'' then Some 500
       else if p = ''mm-rail-fact-volt'' then Some (ci_volt_factor (demo_corners ! i))
       else Some (ci_scaling_factor_dyn (demo_corners ! i))),
     of_find_property = (\<lambda>p. Some 40)\<rparr>"

definition demo_module :: mmrm_module where
  "demo_module = (case msm_mmrm_probe demo_uapi demo_dt (\<lambda>_. True) (Some ''qcom,pineapple-mmrm'') (\<lambda>_. True) mmrm_loaded of Some (r, m) \<Rightarrow> m)"

lemma demo_probe: "msm_mmrm_probe demo_uapi demo_dt (\<lambda>_. True) (Some ''qcom,pineapple-mmrm'') (\<lambda>_. True) mmrm_loaded = Some (Inr (), demo_module)"
proof -
  have "map_option fst (msm_mmrm_probe demo_uapi demo_dt (\<lambda>_. True) (Some ''qcom,pineapple-mmrm'') (\<lambda>_. True) mmrm_loaded) = Some (Inr ())"
    by code_simp
  then show ?thesis by (auto simp: demo_module_def)
qed

lemma demo_count: "mmrm_count_clk_clients_frm_dt demo_dt \<noteq> 0"
  by (simp add: mmrm_count_clk_clients_frm_dt_def clk_src_size_def demo_dt_def)

theorem probe_ready_witness: "module_ready demo_env demo_uapi demo_module \<and> (\<exists>t. module_current demo_module = Some (0, t))"
  using probe_ready[OF demo_probe demo_count, of demo_env] by simp

text \<open>The second client registers through the exported function.\<close>

definition demo_module_desc :: mmrm_client_desc where
  "demo_module_desc = \<lparr>md_client_type = 0, md_desc = demo_desc 1 0 0, md_priority = 0, md_pvt_data = 0, md_notifier_callback_fn = None\<rparr>"

definition demo_session :: "(mmrm_client option \<times> mmrm_module) option" where
  "demo_session = mmrm_client_register demo_env demo_uapi True True (Some demo_module_desc) demo_module"

lemma demo_session_tables: "map_option (\<lambda>(c, m). (c, msm_mmrm_enable_throttle_feature m, map (\<lambda>e. (te_max_num_hw_blocks e, te_pri e)) (module_table m),
    map te_current_ma (module_table m))) demo_session =
  Some (demo_client 1, 1, [(2, 0), (1, 0)], [replicate 5 (replicate 5 0), te_current_ma (demo_live 1 0)])"
  by code_simp

theorem set_value_ready_witness:
  "\<exists>m rc m'. demo_session = Some (demo_client 1, m) \<and>
     mmrm_client_set_value demo_env demo_uapi True (demo_client 1) (Some (demo_cd 0)) 3000000 m = Some (rc, m') \<and>
     module_ready demo_env demo_uapi m'"
proof -
  obtain c m where m: "demo_session = Some (c, m)" using demo_session_tables by (cases demo_session) auto
  have t: "c = demo_client 1" "msm_mmrm_enable_throttle_feature m = 1" "map (\<lambda>e. (te_max_num_hw_blocks e, te_pri e)) (module_table m) = [(2, 0), (1, 0)]"
    "map te_current_ma (module_table m) = [replicate 5 (replicate 5 0), te_current_ma (demo_live 1 0)]"
    using demo_session_tables unfolding m by (simp_all only: option.map prod.case option.inject prod.inject)
  then obtain e0 e1 where e: "module_table m = [e0, e1]" "te_max_num_hw_blocks e0 = 2" "te_max_num_hw_blocks e1 = 1" "te_pri e1 = 0"
    "te_current_ma e0 = replicate 5 (replicate 5 0)" "te_current_ma e1 = te_current_ma (demo_live 1 0)" by auto
  have "capacity (module_table m) = 1030"
    by (simp add: e capacity_def cap_def concat_zero) (simp add: demo_live_def max_list_def)
  then have cap: "capacity (module_table m) < 2 ^ 31" by simp
  have "module_ready demo_env demo_uapi demo_module" using probe_ready_spec[OF demo_probe demo_count, of demo_env] by simp
  then have r: "module_ready demo_env demo_uapi m" using register_ready[OF _ m[unfolded demo_session_def] cap] by simp
  have "unat (client_uid cl) = 1" if "demo_client 1 = Some cl" for cl using that by (auto simp: demo_client_def)
  then have "module_legal demo_uapi (demo_client 1) (Some (demo_cd 0)) 3000000 m"
    using e by (auto simp: module_legal_def legal_req_def no_throttle_def module_table_def demo_cd_def demo_client_def demo_uapi_def)
  from set_value_ready[OF r this, of True] show ?thesis using m t(1) by blast
qed

text \<open>a probe of a device tree without clock clients succeeds without a manager: counting the clients then reads through a null pointer;
  removal fails and leaves a null pointer, through which the next registration, and any request of a clock client, runs.\<close>

theorem probe_without_clients:
  "\<exists>m1 m2. msm_mmrm_probe u (dt\<lparr>of_find_property := (\<lambda>p. None)\<rparr>) (\<lambda>c. True) of_compat (\<lambda>n. True) mmrm_loaded = Some (Inr (), m1) \<and>
     mmrm_client_get_clk_count m1 = None \<and> msm_mmrm_remove m1 = Some (Inl EINVAL, m2) \<and>
     mmrm_client_register E u al1 al2 (Some (desc\<lparr>md_client_type := MMRM_CLIENT_CLOCK u\<rparr>)) m2 = None \<and>
     mmrm_client_set_value E u al (Some (cl\<lparr>client_type := MMRM_CLIENT_CLOCK u\<rparr>)) (Some cd) v m2 = None"
  by (simp add: msm_mmrm_probe_def msm_mmrm_probe_init_def mmrm_count_clk_clients_frm_dt_def clk_src_size_def mmrm_client_get_clk_count_def
      msm_mmrm_remove_def mmrm_loaded_def mmrm_client_register_def mmrm_client_set_value_def with_clk_client_def Let_def)

end
