(* ===== verification/Vidc_State.thy ===== *)
theory Vidc_State
  imports Fence_Interfaces
begin

text \<open>
  The state machines of \<^verbatim>\<open>msm_vidc_state.c\<close> of the video driver: the state of the core
  (\<open>vidc_core\<close>) and the state of a session (\<open>vidc_inst\<close>), each with a table of the allowed
  transitions and a word of sub-states.

  Both machines are handled in the same way: a request for a new state is ignored, refused or granted
  by a table. The locale \<open>state_table\<close> states this contract once, and both are interpretations of it.
  Functions that cannot touch memory out of bounds return their error code with the new state.
\<close>

section \<open>Functions that return an error code\<close>

type_synonym 's op = "'s \<Rightarrow> (errno + unit) \<times> 's"

text \<open>\<open>if (rc) return rc\<close> between two calls, a call whose result is not looked at, and a plain return.\<close>

definition ok_then :: "'s op \<Rightarrow> 's op \<Rightarrow> 's op" where
  "ok_then f g s = (let (rc, s1) = f s in if isl rc then (rc, s1) else g s1)"

definition and_then :: "'s op \<Rightarrow> 's op \<Rightarrow> 's op" where
  "and_then f g s = g (snd (f s))"

definition on_fail :: "'s op \<Rightarrow> 's op \<Rightarrow> 's op" where
  "on_fail f h s = (let (rc, s1) = f s in if isl rc then (rc, snd (h s1)) else (rc, s1))"

definition ret :: "errno + unit \<Rightarrow> 's op" where
  "ret rc s = (rc, s)"

definition cond_op :: "('s \<Rightarrow> bool) \<Rightarrow> 's op \<Rightarrow> 's op \<Rightarrow> 's op" where
  "cond_op c f g s = (if c s then f s else g s)"

text \<open>Clean-up that runs either way and does not change the result, and a continuation that gets the result.\<close>

definition finally_op :: "'s op \<Rightarrow> 's op \<Rightarrow> 's op" where
  "finally_op f g s = (let (rc, s1) = f s in (rc, snd (g s1)))"

definition with_rc :: "'s op \<Rightarrow> (errno + unit \<Rightarrow> 's op) \<Rightarrow> 's op" where
  "with_rc f g s = (let (rc, s1) = f s in g rc s1)"

lemmas op_defs = ok_then_def and_then_def on_fail_def ret_def cond_op_def finally_op_def with_rc_def

text \<open>A Hoare triple with one postcondition for success and one for failure.\<close>

definition hoare :: "('s \<Rightarrow> bool) \<Rightarrow> 's op \<Rightarrow> ('s \<Rightarrow> bool) \<Rightarrow> ('s \<Rightarrow> bool) \<Rightarrow> bool" where
  "hoare P f Q E \<longleftrightarrow> (\<forall>s. P s \<longrightarrow> (if isl (fst (f s)) then E (snd (f s)) else Q (snd (f s))))"

named_theorems hoare_rules \<open>rules for the compositions\<close>

lemma hoareI: "(\<And>s. P s \<Longrightarrow> if isl (fst (f s)) then E (snd (f s)) else Q (snd (f s))) \<Longrightarrow> hoare P f Q E"
  by (simp add: hoare_def)

lemma hoareD: "hoare P f Q E \<Longrightarrow> P s \<Longrightarrow> if isl (fst (f s)) then E (snd (f s)) else Q (snd (f s))"
  by (simp add: hoare_def)

lemma hoare_conseq: "hoare P f Q E \<Longrightarrow> (\<And>s. P' s \<Longrightarrow> P s) \<Longrightarrow> (\<And>s. Q s \<Longrightarrow> Q' s) \<Longrightarrow> (\<And>s. E s \<Longrightarrow> E' s) \<Longrightarrow> hoare P' f Q' E'"
  unfolding hoare_def by metis

lemma hoare_ok_then [hoare_rules]: "hoare P f M E \<Longrightarrow> hoare M g Q E \<Longrightarrow> hoare P (ok_then f g) Q E"
  by (auto simp: hoare_def ok_then_def Let_def case_prod_unfold)

lemma hoare_and_then [hoare_rules]: "hoare P f M M \<Longrightarrow> hoare M g Q E \<Longrightarrow> hoare P (and_then f g) Q E"
  by (simp add: hoare_def and_then_def split: if_splits)

lemma hoare_on_fail [hoare_rules]: "hoare P f Q M \<Longrightarrow> hoare M h E E \<Longrightarrow> hoare P (on_fail f h) Q E"
  by (auto simp: hoare_def on_fail_def Let_def case_prod_unfold split: if_splits)

lemma hoare_cond [hoare_rules]: "hoare (\<lambda>s. P s \<and> c s) f Q E \<Longrightarrow> hoare (\<lambda>s. P s \<and> \<not> c s) g Q E \<Longrightarrow> hoare P (cond_op c f g) Q E"
  by (auto simp: hoare_def cond_op_def)

lemma hoare_finally [hoare_rules]: "hoare P f M M' \<Longrightarrow> hoare M g Q Q \<Longrightarrow> hoare M' g E E \<Longrightarrow> hoare P (finally_op f g) Q E"
  by (auto simp: hoare_def finally_op_def Let_def case_prod_unfold split: if_splits)

lemma hoare_with_rc [hoare_rules]: "hoare P f M M \<Longrightarrow> (\<And>rc. hoare M (g rc) Q E) \<Longrightarrow> hoare P (with_rc f g) Q E"
  by (auto simp: hoare_def with_rc_def Let_def case_prod_unfold split: if_splits)

lemma hoare_ok: "hoare P (ret (Inr ())) P E"
  by (simp add: hoare_def ret_def)

lemma hoare_err: "hoare P (ret (Inl e)) Q P"
  by (simp add: hoare_def ret_def)

section \<open>Machines with a table of transitions\<close>

datatype msm_vidc_allow = MSM_VIDC_DISALLOW | MSM_VIDC_ALLOW | MSM_VIDC_DEFER | MSM_VIDC_DISCARD | MSM_VIDC_IGNORE

locale state_table =
  fixes cur :: "'m \<Rightarrow> 's" and usable :: "'m \<Rightarrow> bool" and allow :: "'s \<Rightarrow> 's \<Rightarrow> msm_vidc_allow" and request :: "'s \<Rightarrow> 'm op"
  assumes granted: "usable m \<Longrightarrow> cur m \<noteq> r \<Longrightarrow> allow (cur m) r = MSM_VIDC_ALLOW \<Longrightarrow>
      fst (request r m) = Inr () \<and> cur (snd (request r m)) = r"
    and refused: "usable m \<Longrightarrow> cur m \<noteq> r \<Longrightarrow> allow (cur m) r = MSM_VIDC_DISALLOW \<Longrightarrow> request r m = (Inl EINVAL, m)"
    and ignored: "usable m \<Longrightarrow> cur m = r \<or> allow (cur m) r \<notin> {MSM_VIDC_ALLOW, MSM_VIDC_DISALLOW} \<Longrightarrow> request r m = (Inr (), m)"
    and unusable: "\<not> usable m \<Longrightarrow> snd (request r m) = m"
begin

definition steps :: "('s \<times> 's) set" where
  "steps = {(a, b). allow a b = MSM_VIDC_ALLOW}"

lemma request_step: "cur (snd (request r m)) = cur m \<or> (cur m, cur (snd (request r m))) \<in> steps"
proof (cases "usable m \<and> cur m \<noteq> r \<and> allow (cur m) r = MSM_VIDC_ALLOW")
  case True
  then show ?thesis using granted[of m r] by (simp add: steps_def)
next
  case False
  then show ?thesis using refused[of m r] ignored[of m r] unusable[of m r] by (cases "usable m"; cases "cur m = r"; cases "allow (cur m) r = MSM_VIDC_DISALLOW") auto
qed

text \<open>Whatever is requested, the states follow the table.\<close>

lemma requests_path: "(cur m, cur (fold (\<lambda>r m. snd (request r m)) rs m)) \<in> steps\<^sup>*"
proof (induction rs arbitrary: m)
  case (Cons r rs)
  have "(cur m, cur (snd (request r m))) \<in> steps\<^sup>*" using request_step[where r = r and m = m] by auto
  then show ?case using Cons.IH[of "snd (request r m)"] by simp
qed simp

text \<open>A state that the table never leaves is final.\<close>

lemma final_stays: "\<forall>r. allow (cur m) r \<noteq> MSM_VIDC_ALLOW \<Longrightarrow> cur (fold (\<lambda>r m. snd (request r m)) rs m) = cur m"
proof (induction rs arbitrary: m)
  case (Cons r rs)
  have "cur (snd (request r m)) = cur m" using request_step[where r = r and m = m] Cons.prems by (auto simp: steps_def)
  then show ?case using Cons.IH[of "snd (request r m)"] Cons.prems by simp
qed simp

end

text \<open>The tables are searched from the front; a pair that is missing is not allowed.\<close>

fun table_lookup :: "('s \<times> 's \<times> msm_vidc_allow) list \<Rightarrow> 's \<Rightarrow> 's \<Rightarrow> msm_vidc_allow" where
  "table_lookup [] a b = MSM_VIDC_DISALLOW"
| "table_lookup ((x, y, al) # t) a b = (if x = a \<and> y = b then al else table_lookup t a b)"

section \<open>The core\<close>

datatype msm_vidc_core_state = MSM_VIDC_CORE_DEINIT | MSM_VIDC_CORE_INIT_WAIT | MSM_VIDC_CORE_INIT | MSM_VIDC_CORE_ERROR

definition CORE_SUBSTATE_POWER_ENABLE :: u32 where "CORE_SUBSTATE_POWER_ENABLE = 1"
definition CORE_SUBSTATE_PM_SUSPEND :: u32 where "CORE_SUBSTATE_PM_SUSPEND = 4"
definition CORE_SUBSTATE_PAGE_FAULT :: u32 where "CORE_SUBSTATE_PAGE_FAULT = 16"
definition CORE_SUBSTATE_VIDEO_UNRESPONSIVE :: u32 where "CORE_SUBSTATE_VIDEO_UNRESPONSIVE = 64"
definition CORE_SUBSTATE_MAX :: u32 where "CORE_SUBSTATE_MAX = 128"

text \<open>\<open>state_handle\<close> is the handler installed with the last state, or NULL; \<open>core_locked\<close> is \<open>mutex_is_locked(&core->lock)\<close>.\<close>

record vidc_core =
  core_state :: msm_vidc_core_state
  core_handle :: "msm_vidc_core_state option"
  core_sub_state :: u32
  core_locked :: bool

definition core_in_valid_state :: "'a vidc_core_scheme \<Rightarrow> bool" where
  "core_in_valid_state c \<longleftrightarrow> core_state c = MSM_VIDC_CORE_INIT \<or> core_state c = MSM_VIDC_CORE_INIT_WAIT"

definition strict_check :: "'a vidc_core_scheme \<Rightarrow> errno + unit" where
  "strict_check c = (if core_locked c then Inr () else Inl EINVAL)"

definition core_table :: "(msm_vidc_core_state \<times> msm_vidc_core_state \<times> msm_vidc_allow) list" where
  "core_table =
    [(MSM_VIDC_CORE_DEINIT, MSM_VIDC_CORE_DEINIT, MSM_VIDC_IGNORE),
     (MSM_VIDC_CORE_DEINIT, MSM_VIDC_CORE_INIT_WAIT, MSM_VIDC_ALLOW),
     (MSM_VIDC_CORE_DEINIT, MSM_VIDC_CORE_INIT, MSM_VIDC_DISALLOW),
     (MSM_VIDC_CORE_DEINIT, MSM_VIDC_CORE_ERROR, MSM_VIDC_IGNORE),
     (MSM_VIDC_CORE_INIT_WAIT, MSM_VIDC_CORE_DEINIT, MSM_VIDC_DISALLOW),
     (MSM_VIDC_CORE_INIT_WAIT, MSM_VIDC_CORE_INIT_WAIT, MSM_VIDC_IGNORE),
     (MSM_VIDC_CORE_INIT_WAIT, MSM_VIDC_CORE_INIT, MSM_VIDC_ALLOW),
     (MSM_VIDC_CORE_INIT_WAIT, MSM_VIDC_CORE_ERROR, MSM_VIDC_ALLOW),
     (MSM_VIDC_CORE_INIT, MSM_VIDC_CORE_DEINIT, MSM_VIDC_ALLOW),
     (MSM_VIDC_CORE_INIT, MSM_VIDC_CORE_INIT_WAIT, MSM_VIDC_DISALLOW),
     (MSM_VIDC_CORE_INIT, MSM_VIDC_CORE_INIT, MSM_VIDC_IGNORE),
     (MSM_VIDC_CORE_INIT, MSM_VIDC_CORE_ERROR, MSM_VIDC_ALLOW),
     (MSM_VIDC_CORE_ERROR, MSM_VIDC_CORE_DEINIT, MSM_VIDC_ALLOW),
     (MSM_VIDC_CORE_ERROR, MSM_VIDC_CORE_INIT_WAIT, MSM_VIDC_IGNORE),
     (MSM_VIDC_CORE_ERROR, MSM_VIDC_CORE_INIT, MSM_VIDC_IGNORE),
     (MSM_VIDC_CORE_ERROR, MSM_VIDC_CORE_ERROR, MSM_VIDC_IGNORE)]"

definition msm_vidc_allow_core_state_change :: "'a vidc_core_scheme \<Rightarrow> msm_vidc_core_state \<Rightarrow> msm_vidc_allow" where
  "msm_vidc_allow_core_state_change c req = table_lookup core_table (core_state c) req"

definition msm_vidc_update_core_state :: "msm_vidc_core_state \<Rightarrow> 'a vidc_core_scheme op" where
  "msm_vidc_update_core_state req c = (Inr (), c\<lparr>core_state := req, core_handle := Some req\<rparr>)"

definition msm_vidc_change_core_state :: "msm_vidc_core_state \<Rightarrow> 'a vidc_core_scheme op" where
  "msm_vidc_change_core_state req c =
    (if strict_check c \<noteq> Inr () then (strict_check c, c)
     else if core_state c = req then (Inr (), c)
     else
       (let allow = msm_vidc_allow_core_state_change c req in
        if allow = MSM_VIDC_IGNORE then (Inr (), c)
        else if allow = MSM_VIDC_DISALLOW then (Inl EINVAL, c)
        else msm_vidc_update_core_state req c))"

text \<open>The handlers of the four states are the same function.\<close>

definition core_state_handler :: "u32 \<Rightarrow> 'a vidc_core_scheme op" where
  "core_state_handler req c =
    (let allow_mask = -1 in
     if req AND allow_mask = 0 then (Inl EINVAL, c)
     else (Inr (), c\<lparr>core_sub_state := core_sub_state c OR (req AND allow_mask)\<rparr>))"

definition msm_vidc_update_core_sub_state :: "u32 \<Rightarrow> 'a vidc_core_scheme op" where
  "msm_vidc_update_core_sub_state sub c = (if sub = 0 then (Inr (), c) else core_state_handler sub c)"

definition msm_vidc_change_core_sub_state :: "u32 \<Rightarrow> u32 \<Rightarrow> 'a vidc_core_scheme op" where
  "msm_vidc_change_core_sub_state clear_sub set_sub c =
    (if strict_check c \<noteq> Inr () then (strict_check c, c)
     else if core_handle c = None then (Inl EINVAL, c)
     else if clear_sub = set_sub then (Inr (), c)
     else if set_sub > CORE_SUBSTATE_MAX \<or> clear_sub > CORE_SUBSTATE_MAX then (Inl EINVAL, c)
     else ok_then (msm_vidc_update_core_sub_state set_sub) (\<lambda>c. (Inr (), c\<lparr>core_sub_state := core_sub_state c AND NOT clear_sub\<rparr>)) c)"

interpretation core_machine: state_table core_state core_locked "table_lookup core_table" msm_vidc_change_core_state
proof unfold_locales
  fix m :: "'a vidc_core_scheme" and r
  show "core_locked m \<Longrightarrow> core_state m = r \<or> table_lookup core_table (core_state m) r \<notin> {MSM_VIDC_ALLOW, MSM_VIDC_DISALLOW} \<Longrightarrow>
      msm_vidc_change_core_state r m = (Inr (), m)"
    by (cases "core_state m"; cases r) (auto simp: msm_vidc_change_core_state_def strict_check_def msm_vidc_allow_core_state_change_def core_table_def)
qed (auto simp: msm_vidc_change_core_state_def strict_check_def msm_vidc_allow_core_state_change_def msm_vidc_update_core_state_def Let_def)

section \<open>A session\<close>

datatype msm_vidc_state = MSM_VIDC_OPEN | MSM_VIDC_INPUT_STREAMING | MSM_VIDC_OUTPUT_STREAMING | MSM_VIDC_STREAMING
  | MSM_VIDC_CLOSE | MSM_VIDC_ERROR

definition MSM_VIDC_DRAIN :: u32 where "MSM_VIDC_DRAIN = 1"
definition MSM_VIDC_DRC :: u32 where "MSM_VIDC_DRC = 2"
definition MSM_VIDC_DRAIN_LAST_BUFFER :: u32 where "MSM_VIDC_DRAIN_LAST_BUFFER = 4"
definition MSM_VIDC_DRC_LAST_BUFFER :: u32 where "MSM_VIDC_DRC_LAST_BUFFER = 8"
definition MSM_VIDC_INPUT_PAUSE :: u32 where "MSM_VIDC_INPUT_PAUSE = 16"
definition MSM_VIDC_OUTPUT_PAUSE :: u32 where "MSM_VIDC_OUTPUT_PAUSE = 32"
definition MSM_VIDC_FIRST_IPSC :: u32 where "MSM_VIDC_FIRST_IPSC = 64"
definition MSM_VIDC_MAX_SUB_STATE_VALUE :: u32 where "MSM_VIDC_MAX_SUB_STATE_VALUE = 127"

lemmas sub_defs = MSM_VIDC_DRAIN_def MSM_VIDC_DRC_def MSM_VIDC_DRAIN_LAST_BUFFER_def MSM_VIDC_DRC_LAST_BUFFER_def
  MSM_VIDC_INPUT_PAUSE_def MSM_VIDC_OUTPUT_PAUSE_def MSM_VIDC_FIRST_IPSC_def MSM_VIDC_MAX_SUB_STATE_VALUE_def

text \<open>What the state machine keeps of a session; \<open>event_handle\<close> is the handler installed with the last state.\<close>

record vidc_states =
  i_state :: msm_vidc_state
  event_handle :: msm_vidc_state
  i_sub_state :: u32

definition is_state :: "msm_vidc_state \<Rightarrow> 'a vidc_states_scheme \<Rightarrow> bool" where
  "is_state st s \<longleftrightarrow> i_state s = st"

definition is_session_error :: "'a vidc_states_scheme \<Rightarrow> bool" where
  "is_session_error s \<longleftrightarrow> i_state s = MSM_VIDC_ERROR"

definition is_sub_state :: "u32 \<Rightarrow> 'a vidc_states_scheme \<Rightarrow> bool" where
  "is_sub_state sub s \<longleftrightarrow> i_sub_state s AND sub \<noteq> 0"

definition is_drc_pending :: "'a vidc_states_scheme \<Rightarrow> bool" where
  "is_drc_pending s \<longleftrightarrow> is_sub_state MSM_VIDC_DRC s \<and> is_sub_state MSM_VIDC_DRC_LAST_BUFFER s"

definition is_drain_pending :: "'a vidc_states_scheme \<Rightarrow> bool" where
  "is_drain_pending s \<longleftrightarrow> is_sub_state MSM_VIDC_DRAIN s \<and> is_sub_state MSM_VIDC_DRAIN_LAST_BUFFER s"

definition inst_table :: "(msm_vidc_state \<times> msm_vidc_state \<times> msm_vidc_allow) list" where
  "inst_table =
    [(MSM_VIDC_OPEN, MSM_VIDC_OPEN, MSM_VIDC_IGNORE),
     (MSM_VIDC_OPEN, MSM_VIDC_INPUT_STREAMING, MSM_VIDC_ALLOW),
     (MSM_VIDC_OPEN, MSM_VIDC_OUTPUT_STREAMING, MSM_VIDC_ALLOW),
     (MSM_VIDC_OPEN, MSM_VIDC_STREAMING, MSM_VIDC_DISALLOW),
     (MSM_VIDC_OPEN, MSM_VIDC_CLOSE, MSM_VIDC_ALLOW),
     (MSM_VIDC_OPEN, MSM_VIDC_ERROR, MSM_VIDC_ALLOW),
     (MSM_VIDC_INPUT_STREAMING, MSM_VIDC_OPEN, MSM_VIDC_ALLOW),
     (MSM_VIDC_INPUT_STREAMING, MSM_VIDC_INPUT_STREAMING, MSM_VIDC_IGNORE),
     (MSM_VIDC_INPUT_STREAMING, MSM_VIDC_OUTPUT_STREAMING, MSM_VIDC_DISALLOW),
     (MSM_VIDC_INPUT_STREAMING, MSM_VIDC_STREAMING, MSM_VIDC_ALLOW),
     (MSM_VIDC_INPUT_STREAMING, MSM_VIDC_CLOSE, MSM_VIDC_ALLOW),
     (MSM_VIDC_INPUT_STREAMING, MSM_VIDC_ERROR, MSM_VIDC_ALLOW),
     (MSM_VIDC_OUTPUT_STREAMING, MSM_VIDC_OPEN, MSM_VIDC_ALLOW),
     (MSM_VIDC_OUTPUT_STREAMING, MSM_VIDC_INPUT_STREAMING, MSM_VIDC_DISALLOW),
     (MSM_VIDC_OUTPUT_STREAMING, MSM_VIDC_OUTPUT_STREAMING, MSM_VIDC_IGNORE),
     (MSM_VIDC_OUTPUT_STREAMING, MSM_VIDC_STREAMING, MSM_VIDC_ALLOW),
     (MSM_VIDC_OUTPUT_STREAMING, MSM_VIDC_CLOSE, MSM_VIDC_ALLOW),
     (MSM_VIDC_OUTPUT_STREAMING, MSM_VIDC_ERROR, MSM_VIDC_ALLOW),
     (MSM_VIDC_STREAMING, MSM_VIDC_OPEN, MSM_VIDC_DISALLOW),
     (MSM_VIDC_STREAMING, MSM_VIDC_INPUT_STREAMING, MSM_VIDC_ALLOW),
     (MSM_VIDC_STREAMING, MSM_VIDC_OUTPUT_STREAMING, MSM_VIDC_ALLOW),
     (MSM_VIDC_STREAMING, MSM_VIDC_STREAMING, MSM_VIDC_IGNORE),
     (MSM_VIDC_STREAMING, MSM_VIDC_CLOSE, MSM_VIDC_ALLOW),
     (MSM_VIDC_STREAMING, MSM_VIDC_ERROR, MSM_VIDC_ALLOW),
     (MSM_VIDC_CLOSE, MSM_VIDC_OPEN, MSM_VIDC_DISALLOW),
     (MSM_VIDC_CLOSE, MSM_VIDC_INPUT_STREAMING, MSM_VIDC_DISALLOW),
     (MSM_VIDC_CLOSE, MSM_VIDC_OUTPUT_STREAMING, MSM_VIDC_DISALLOW),
     (MSM_VIDC_CLOSE, MSM_VIDC_STREAMING, MSM_VIDC_DISALLOW),
     (MSM_VIDC_CLOSE, MSM_VIDC_CLOSE, MSM_VIDC_IGNORE),
     (MSM_VIDC_CLOSE, MSM_VIDC_ERROR, MSM_VIDC_IGNORE),
     (MSM_VIDC_ERROR, MSM_VIDC_OPEN, MSM_VIDC_IGNORE),
     (MSM_VIDC_ERROR, MSM_VIDC_INPUT_STREAMING, MSM_VIDC_IGNORE),
     (MSM_VIDC_ERROR, MSM_VIDC_OUTPUT_STREAMING, MSM_VIDC_IGNORE),
     (MSM_VIDC_ERROR, MSM_VIDC_STREAMING, MSM_VIDC_IGNORE),
     (MSM_VIDC_ERROR, MSM_VIDC_CLOSE, MSM_VIDC_IGNORE),
     (MSM_VIDC_ERROR, MSM_VIDC_ERROR, MSM_VIDC_IGNORE)]"

definition msm_vidc_allow_state_change :: "'a vidc_states_scheme \<Rightarrow> msm_vidc_state \<Rightarrow> msm_vidc_allow" where
  "msm_vidc_allow_state_change s req = table_lookup inst_table (i_state s) req"

definition msm_vidc_update_state :: "msm_vidc_state \<Rightarrow> 'a vidc_states_scheme op" where
  "msm_vidc_update_state req s = (Inr (), s\<lparr>i_state := req, event_handle := req\<rparr>)"

definition msm_vidc_change_state :: "msm_vidc_state \<Rightarrow> 'a vidc_states_scheme op" where
  "msm_vidc_change_state req s =
    (if is_session_error s then (Inr (), s)
     else if i_state s = req then (Inr (), s)
     else
       (let allow = msm_vidc_allow_state_change s req in
        if allow \<noteq> MSM_VIDC_ALLOW then (if allow = MSM_VIDC_DISALLOW then Inl EINVAL else Inr (), s)
        else msm_vidc_update_state req s))"

lemma error_is_final: "table_lookup inst_table MSM_VIDC_ERROR r = MSM_VIDC_IGNORE"
  by (cases r) (simp_all add: inst_table_def)

interpretation inst_machine: state_table i_state "\<lambda>_. True" "table_lookup inst_table" msm_vidc_change_state
proof unfold_locales
  fix m :: "'a vidc_states_scheme" and r
  show "True \<Longrightarrow> i_state m \<noteq> r \<Longrightarrow> table_lookup inst_table (i_state m) r = MSM_VIDC_ALLOW \<Longrightarrow>
      fst (msm_vidc_change_state r m) = Inr () \<and> i_state (snd (msm_vidc_change_state r m)) = r"
    by (cases "i_state m")
      (auto simp: msm_vidc_change_state_def is_session_error_def msm_vidc_allow_state_change_def msm_vidc_update_state_def Let_def error_is_final)
  show "True \<Longrightarrow> i_state m \<noteq> r \<Longrightarrow> table_lookup inst_table (i_state m) r = MSM_VIDC_DISALLOW \<Longrightarrow>
      msm_vidc_change_state r m = (Inl EINVAL, m)"
    by (cases "i_state m"; cases r)
      (simp_all add: msm_vidc_change_state_def is_session_error_def msm_vidc_allow_state_change_def Let_def inst_table_def)
  show "True \<Longrightarrow> i_state m = r \<or> table_lookup inst_table (i_state m) r \<notin> {MSM_VIDC_ALLOW, MSM_VIDC_DISALLOW} \<Longrightarrow>
      msm_vidc_change_state r m = (Inr (), m)"
    by (auto simp: msm_vidc_change_state_def msm_vidc_allow_state_change_def)
qed simp_all

text \<open>An error is final, and it is reached from every state but a closed one.\<close>

lemma change_state_error: "is_session_error s \<Longrightarrow> msm_vidc_change_state req s = (Inr (), s)"
  by (simp add: msm_vidc_change_state_def)

lemma change_to_error: "msm_vidc_change_state MSM_VIDC_ERROR s =
  (Inr (), if i_state s \<in> {MSM_VIDC_ERROR, MSM_VIDC_CLOSE} then s else s\<lparr>i_state := MSM_VIDC_ERROR, event_handle := MSM_VIDC_ERROR\<rparr>)"
  by (cases "i_state s") (simp_all add: msm_vidc_change_state_def is_session_error_def msm_vidc_allow_state_change_def
    msm_vidc_update_state_def inst_table_def)

definition sub_state_table :: "(msm_vidc_state \<times> msm_vidc_allow \<times> u32) list" where
  "sub_state_table =
    [(MSM_VIDC_OPEN, MSM_VIDC_DISALLOW, MSM_VIDC_DRC OR MSM_VIDC_DRAIN OR MSM_VIDC_DRC_LAST_BUFFER OR
        MSM_VIDC_DRAIN_LAST_BUFFER OR MSM_VIDC_INPUT_PAUSE OR MSM_VIDC_OUTPUT_PAUSE),
     (MSM_VIDC_INPUT_STREAMING, MSM_VIDC_DISALLOW, MSM_VIDC_DRC_LAST_BUFFER OR MSM_VIDC_DRAIN_LAST_BUFFER OR MSM_VIDC_OUTPUT_PAUSE),
     (MSM_VIDC_INPUT_STREAMING, MSM_VIDC_ALLOW, MSM_VIDC_DRC OR MSM_VIDC_DRAIN OR MSM_VIDC_INPUT_PAUSE OR MSM_VIDC_FIRST_IPSC),
     (MSM_VIDC_OUTPUT_STREAMING, MSM_VIDC_DISALLOW, MSM_VIDC_DRC OR MSM_VIDC_DRAIN OR MSM_VIDC_INPUT_PAUSE),
     (MSM_VIDC_OUTPUT_STREAMING, MSM_VIDC_ALLOW, MSM_VIDC_DRC_LAST_BUFFER OR MSM_VIDC_DRAIN_LAST_BUFFER OR MSM_VIDC_OUTPUT_PAUSE),
     (MSM_VIDC_STREAMING, MSM_VIDC_ALLOW, MSM_VIDC_DRC OR MSM_VIDC_DRAIN OR MSM_VIDC_DRC_LAST_BUFFER OR
        MSM_VIDC_DRAIN_LAST_BUFFER OR MSM_VIDC_INPUT_PAUSE OR MSM_VIDC_OUTPUT_PAUSE),
     (MSM_VIDC_CLOSE, MSM_VIDC_ALLOW, MSM_VIDC_DRC OR MSM_VIDC_DRAIN OR MSM_VIDC_DRC_LAST_BUFFER OR
        MSM_VIDC_DRAIN_LAST_BUFFER OR MSM_VIDC_INPUT_PAUSE OR MSM_VIDC_OUTPUT_PAUSE),
     (MSM_VIDC_ERROR, MSM_VIDC_ALLOW, MSM_VIDC_DRC OR MSM_VIDC_DRAIN OR MSM_VIDC_DRC_LAST_BUFFER OR
        MSM_VIDC_DRAIN_LAST_BUFFER OR MSM_VIDC_INPUT_PAUSE OR MSM_VIDC_OUTPUT_PAUSE)]"

text \<open>The three loops over the table: refuse what is disallowed, drop what the first matching entry ignores, and refuse
  what is left unless all of it is allowed.\<close>

definition msm_vidc_set_sub_state :: "u32 \<Rightarrow> 'a vidc_states_scheme op" where
  "msm_vidc_set_sub_state sub s =
    (if sub = 0 then (Inr (), s)
     else if list_ex (\<lambda>(st, allow, m). st = i_state s \<and> allow = MSM_VIDC_DISALLOW \<and> m AND sub \<noteq> 0) sub_state_table then (Inl EINVAL, s)
     else
       (let sub = (case find (\<lambda>(st, allow, m). st = i_state s \<and> allow = MSM_VIDC_IGNORE \<and> m AND sub \<noteq> 0) sub_state_table of
              None \<Rightarrow> sub | Some (_, _, m) \<Rightarrow> sub AND NOT (m AND sub)) in
        if list_ex (\<lambda>(st, allow, m). st = i_state s \<and> allow = MSM_VIDC_ALLOW \<and> m AND sub \<noteq> sub) sub_state_table then (Inl EINVAL, s)
        else (Inr (), s\<lparr>i_sub_state := i_sub_state s OR sub\<rparr>)))"

definition msm_vidc_change_sub_state :: "u32 \<Rightarrow> u32 \<Rightarrow> 'a vidc_states_scheme op" where
  "msm_vidc_change_sub_state clear_sub set_sub s =
    (if is_session_error s then (Inr (), s)
     else if clear_sub = 0 \<and> set_sub = 0 then (Inr (), s)
     else if clear_sub AND set_sub \<noteq> 0 \<or> set_sub > MSM_VIDC_MAX_SUB_STATE_VALUE \<or> clear_sub > MSM_VIDC_MAX_SUB_STATE_VALUE then (Inl EINVAL, s)
     else ok_then (msm_vidc_set_sub_state set_sub) (\<lambda>s. (Inr (), s\<lparr>i_sub_state := i_sub_state s AND NOT clear_sub\<rparr>)) s)"

text \<open>The table says: which sub-states may be set in which state.\<close>

definition settable :: "msm_vidc_state \<Rightarrow> u32" where
  "settable st = (case st of MSM_VIDC_OPEN \<Rightarrow> 0x40 | MSM_VIDC_INPUT_STREAMING \<Rightarrow> 0x53 | MSM_VIDC_OUTPUT_STREAMING \<Rightarrow> 0x2c | _ \<Rightarrow> 0x3f)"

lemma bit_and: "(x AND 1 \<noteq> 0) = bit x 0" "(x AND 2 \<noteq> 0) = bit x 1" "(x AND 4 \<noteq> 0) = bit x 2" "(x AND 8 \<noteq> 0) = bit x 3"
    "(x AND 16 \<noteq> 0) = bit x 4" "(x AND 32 \<noteq> 0) = bit x 5" "(x AND 64 \<noteq> 0) = bit x 6" for x :: u32
  by (simp_all add: bit_iff_and_push_bit_not_eq_0)

lemma and_not_zero: "(m AND x = x) = (x AND NOT m = 0)" for x m :: u32
proof -
  have "x = (x AND m) OR (x AND NOT m)" by (rule bit_word_eqI) (auto simp: bit_simps)
  moreover have "(m AND x) AND NOT m = 0" by (rule bit_word_eqI) (auto simp: bit_simps)
  ultimately show ?thesis by (metis and.commute or.right_neutral)
qed

lemma and_complement:
  fixes sub :: u32
  assumes "sub AND 0x7f = sub" and "m = 0x7f AND NOT m'"
  shows "(m AND sub = 0) = (sub AND NOT m' = 0)"
proof -
  have "m AND sub = NOT m' AND (sub AND 0x7f)" unfolding assms(2) by (simp only: ac_simps)
  then show ?thesis unfolding assms(1) by (simp only: and.commute)
qed

lemma and_apart:
  fixes sub :: u32
  assumes "m AND m' = 0" and "m AND sub \<noteq> 0"
  shows "sub AND NOT m' \<noteq> 0"
proof
  assume "sub AND NOT m' = 0"
  then have "m' AND sub = sub" by (simp only: and_not_zero)
  then have "m AND sub = (m AND m') AND sub" by (simp only: and.assoc)
  then show False using assms by simp
qed

lemma set_sub_state_eq:
  assumes "sub AND 0x7f = sub"
  shows "msm_vidc_set_sub_state sub s =
    (if sub AND NOT (settable (i_state s)) = 0 then (Inr (), s\<lparr>i_sub_state := i_sub_state s OR sub\<rparr>) else (Inl EINVAL, s))"
proof -
  have none: "find (\<lambda>(st, allow, m). st = i_state s \<and> allow = MSM_VIDC_IGNORE \<and> m AND sub \<noteq> 0) sub_state_table = None"
    by (simp add: find_None_iff sub_state_table_def)
  note c = and_complement[OF assms, of "0x3f" "0x40", simplified] and_complement[OF assms, of "0x2c" "0x53", simplified]
    and_apart[of "0x13" "0x2c" sub, simplified]
  show ?thesis
    unfolding msm_vidc_set_sub_state_def none option.case Let_def
    by (cases "i_state s") (auto simp: sub_state_table_def sub_defs settable_def and_not_zero c)
qed

lemma change_sub_state_eq:
  assumes "set_sub AND 0x7f = set_sub" and "clear_sub AND 0x7f = clear_sub" and "clear_sub AND set_sub = 0"
  shows "msm_vidc_change_sub_state clear_sub set_sub s =
    (if is_session_error s then (Inr (), s)
     else if set_sub AND NOT (settable (i_state s)) = 0
     then (Inr (), s\<lparr>i_sub_state := (i_sub_state s OR set_sub) AND NOT clear_sub\<rparr>) else (Inl EINVAL, s))"
proof -
  have le: "x \<le> 127" if "x AND 0x7f = x" for x :: u32
  proof -
    have "x = take_bit 7 x" using that by (simp add: take_bit_eq_mask mask_eq_exp_minus_1)
    then have "unat x < 2 ^ 7" by (metis take_bit_nat_less_exp unsigned_take_bit_eq)
    then show ?thesis by (simp add: word_le_nat_alt)
  qed
  have "\<not> set_sub > MSM_VIDC_MAX_SUB_STATE_VALUE" "\<not> clear_sub > MSM_VIDC_MAX_SUB_STATE_VALUE"
    using le[OF assms(1)] le[OF assms(2)] by (simp_all add: sub_defs not_less)
  then show ?thesis using assms(3)
    by (auto simp: msm_vidc_change_sub_state_def set_sub_state_eq[OF assms(1)] ok_then_def)
qed

end
