(* ===== verification/Vidc_Queue.thy ===== *)
theory Vidc_Queue
  imports Fence_Interfaces
begin

text \<open>
  The shared-memory queues between the video driver and the video firmware
  (\<^verbatim>\<open>video-driver/driver/vidc/src/venus_hfi_queue.c\<close>: \<open>__write_queue\<close>, \<open>__read_queue\<close>,
  \<open>__set_queue_hdr_defaults\<close>). A queue is a run of 32-bit words and a header with a read and a
  write index in words. Packets have different sizes: the first word of a packet is its size in
  bytes, and a packet that reaches the end of the run continues at its start.

  The specification is a FIFO of packets: \<open>queue_packets\<close> cuts the words between the indices
  into packets. Header and words are shared with the firmware, so the accesses are also
  examined for headers that hold anything at all. Debug output (\<open>__dump_packet\<close>) is left out;
  memory barriers have no effect in a sequential model.
\<close>

section \<open>The queue and its two operations\<close>

definition VIDC_IFACEQ_NUMQ :: nat where "VIDC_IFACEQ_NUMQ = 3"
definition VIDC_IFACEQ_CMDQ_IDX :: nat where "VIDC_IFACEQ_CMDQ_IDX = 0"
definition VIDC_IFACEQ_MSGQ_IDX :: nat where "VIDC_IFACEQ_MSGQ_IDX = 1"
definition VIDC_IFACEQ_DBGQ_IDX :: nat where "VIDC_IFACEQ_DBGQ_IDX = 2"
definition HFI_Q_ID_HOST_TO_CTRL_CMD_Q :: u32 where "HFI_Q_ID_HOST_TO_CTRL_CMD_Q = 0"
definition HFI_Q_ID_CTRL_TO_HOST_MSG_Q :: u32 where "HFI_Q_ID_CTRL_TO_HOST_MSG_Q = 1"
definition HFI_Q_ID_CTRL_TO_HOST_DEBUG_Q :: u32 where "HFI_Q_ID_CTRL_TO_HOST_DEBUG_Q = 2"
definition VIDC_IFACEQ_DFLT_QHDR :: u32 where "VIDC_IFACEQ_DFLT_QHDR = 0x01010000"
definition VIDC_IFACEQ_MAX_PKT_SIZE :: nat where "VIDC_IFACEQ_MAX_PKT_SIZE = 1024"
definition VIDC_IFACEQ_MAX_BUF_COUNT :: nat where "VIDC_IFACEQ_MAX_BUF_COUNT = 50"
definition VIDC_IFACE_MAX_PARALLEL_CLNTS :: nat where "VIDC_IFACE_MAX_PARALLEL_CLNTS = 16"
definition VIDC_IFACEQ_VAR_HUGE_PKT_SIZE :: u32 where "VIDC_IFACEQ_VAR_HUGE_PKT_SIZE = 4096"

definition VIDC_IFACEQ_QUEUE_SIZE :: nat where
  "VIDC_IFACEQ_QUEUE_SIZE = VIDC_IFACEQ_MAX_PKT_SIZE * VIDC_IFACEQ_MAX_BUF_COUNT * VIDC_IFACE_MAX_PARALLEL_CLNTS"

record vidc_queue_header =
  qhdr_status :: u32
  qhdr_start_addr :: u32
  qhdr_type :: u32
  qhdr_q_size :: u32
  qhdr_pkt_size :: u32
  qhdr_pkt_drop_cnt :: u32
  qhdr_rx_wm :: u32
  qhdr_tx_wm :: u32
  qhdr_rx_req :: u32
  qhdr_tx_req :: u32
  qhdr_rx_irq_status :: u32
  qhdr_tx_irq_status :: u32
  qhdr_read_idx :: u32
  qhdr_write_idx :: u32

text \<open>\<open>struct msm_vidc_iface_q_info\<close>: the words behind \<open>q_array.align_virtual_addr\<close> and the header
  behind \<open>q_hdr\<close> (each \<^term>\<open>None\<close> for a NULL pointer), and the size and device address of the array.\<close>

record msm_vidc_iface_q_info =
  q_hdr :: "vidc_queue_header option"
  q_words :: "u32 list option"
  q_mem_size :: u32
  q_device_addr :: u32

definition set_queue_hdr_defaults :: "vidc_queue_header \<Rightarrow> vidc_queue_header" where
  "set_queue_hdr_defaults h = h\<lparr>qhdr_status := 1, qhdr_type := VIDC_IFACEQ_DFLT_QHDR,
     qhdr_q_size := of_nat (VIDC_IFACEQ_QUEUE_SIZE div 4), qhdr_pkt_size := 0, qhdr_rx_wm := 1, qhdr_tx_wm := 1,
     qhdr_rx_req := 1, qhdr_tx_req := 0, qhdr_rx_irq_status := 0, qhdr_tx_irq_status := 0,
     qhdr_read_idx := 0, qhdr_write_idx := 0\<rparr>"

text \<open>A \<open>memcpy\<close> of \<open>n << 2\<close> bytes (a 32-bit product) between word-aligned places of two buffers.\<close>

definition shl2 :: "u32 \<Rightarrow> nat" where
  "shl2 n = unat (push_bit 2 n) div 4"

definition memcpy_words :: "u32 list \<Rightarrow> nat \<Rightarrow> u32 list \<Rightarrow> nat \<Rightarrow> u32 \<Rightarrow> u32 list option" where
  "memcpy_words dst d src s n = (if d + shl2 n \<le> length dst \<and> s + shl2 n \<le> length src
     then Some (write_run dst d (read_run src s (shl2 n))) else None)"

text \<open>The copy of a packet of \<open>n\<close> words into the ring, and the write index after it.\<close>

definition write_copy :: "u32 list \<Rightarrow> u32 \<Rightarrow> u32 \<Rightarrow> u32 list \<Rightarrow> u32 \<Rightarrow> (u32 list \<times> u32) option" where
  "write_copy m mem_words write_idx packet n =
     (let new_write_idx = write_idx + n in
      if new_write_idx < mem_words
      then map_option (\<lambda>m. (m, new_write_idx)) (memcpy_words m (shl2 write_idx) packet 0 n)
      else (let new_write_idx = new_write_idx - mem_words in do {
        m \<leftarrow> memcpy_words m (shl2 write_idx) packet 0 (n - new_write_idx);
        m \<leftarrow> memcpy_words m 0 packet (shl2 (n - new_write_idx)) new_write_idx;
        Some (m, new_write_idx) }))"

text \<open>The copy of a packet of \<open>n\<close> words out of the ring, and the read index after it.\<close>

definition read_copy :: "u32 list \<Rightarrow> u32 \<Rightarrow> u32 \<Rightarrow> u32 list \<Rightarrow> u32 \<Rightarrow> (u32 list \<times> u32) option" where
  "read_copy m mem_words read_idx buf n =
     (let new_read_idx = read_idx + n in
      if new_read_idx < mem_words
      then map_option (\<lambda>buf. (buf, new_read_idx)) (memcpy_words buf 0 m (shl2 read_idx) n)
      else (let new_read_idx = new_read_idx - mem_words in do {
        buf \<leftarrow> memcpy_words buf 0 m (shl2 read_idx) (n - new_read_idx);
        buf \<leftarrow> memcpy_words buf (shl2 (n - new_read_idx)) m 0 new_read_idx;
        Some (buf, new_read_idx) }))"

text \<open>\<open>__write_queue\<close>: the packet is a buffer of words, \<open>rx_req\<close> the boolean behind \<open>rx_req_is_set\<close>.\<close>

definition write_queue :: "msm_vidc_iface_q_info \<Rightarrow> u32 list option \<Rightarrow> bool option \<Rightarrow>
    ((errno + unit) \<times> bool option \<times> msm_vidc_iface_q_info) option" where
  "write_queue q packet rx_req =
     (case (packet, q_words q, q_hdr q) of
        (None, _, _) \<Rightarrow> Some (Inl EINVAL, rx_req, q)
      | (Some _, None, _) \<Rightarrow> Some (Inl EINVAL, rx_req, q)
      | (Some _, Some _, None) \<Rightarrow> Some (Inl ENOENT, rx_req, q)
      | (Some packet, Some m, Some queue) \<Rightarrow> do {
          size \<leftarrow> idx packet 0;
          (let packet_size_in_words = drop_bit 2 size; mem_words = drop_bit 2 (q_mem_size q) in
           if packet_size_in_words = 0 \<or> mem_words < packet_size_in_words then Some (Inl ENODATA, rx_req, q)
           else
             (let read_idx = qhdr_read_idx queue; write_idx = qhdr_write_idx queue;
                  empty_space = (if read_idx \<le> write_idx then mem_words - (write_idx - read_idx) else read_idx - write_idx) in
              if empty_space \<le> packet_size_in_words
              then Some (Inl ENOTEMPTY, rx_req, q\<lparr>q_hdr := Some (queue\<lparr>qhdr_tx_req := 1\<rparr>)\<rparr>)
              else
                (let queue = queue\<lparr>qhdr_tx_req := 0\<rparr> in
                 if unat (q_mem_size q) < unat (push_bit 2 write_idx)
                 then Some (Inl ENODATA, rx_req, q\<lparr>q_hdr := Some queue\<rparr>)
                 else do {
                   (m, new_write_idx) \<leftarrow> write_copy m mem_words write_idx packet packet_size_in_words;
                   Some (Inr (), map_option (\<lambda>_. True) rx_req,
                     q\<lparr>q_words := Some m, q_hdr := Some (queue\<lparr>qhdr_write_idx := new_write_idx\<rparr>)\<rparr>) }))) })"

text \<open>\<open>__read_queue\<close>: \<open>packet\<close> is the caller's buffer, \<open>tx_req\<close> the word behind \<open>pb_tx_req_is_set\<close>.\<close>

definition read_queue :: "msm_vidc_iface_q_info \<Rightarrow> u32 list option \<Rightarrow> u32 option \<Rightarrow>
    ((errno + unit) \<times> u32 list option \<times> u32 option \<times> msm_vidc_iface_q_info) option" where
  "read_queue q packet tx_req =
     (case (packet, tx_req, q_words q, q_hdr q) of
        (None, _, _, _) \<Rightarrow> Some (Inl EINVAL, packet, tx_req, q)
      | (Some _, None, _, _) \<Rightarrow> Some (Inl EINVAL, packet, tx_req, q)
      | (Some _, Some _, None, _) \<Rightarrow> Some (Inl EINVAL, packet, tx_req, q)
      | (Some _, Some _, Some _, None) \<Rightarrow> Some (Inl ENOMEM, packet, tx_req, q)
      | (Some buf, Some _, Some m, Some queue) \<Rightarrow>
          (let receive_request = (if qhdr_type queue AND HFI_Q_ID_CTRL_TO_HOST_MSG_Q \<noteq> 0 then 1 else 0);
               read_idx = qhdr_read_idx queue; write_idx = qhdr_write_idx queue; mem_words = drop_bit 2 (q_mem_size q) in
           if read_idx = write_idx
           then Some (Inl ENODATA, packet, Some 0, q\<lparr>q_hdr := Some (queue\<lparr>qhdr_rx_req := receive_request\<rparr>)\<rparr>)
           else if unat (q_mem_size q) < unat (push_bit 2 read_idx) + 4 then Some (Inl ENODATA, packet, tx_req, q)
           else do {
             size \<leftarrow> idx m (shl2 read_idx);
             (let packet_size_in_words = drop_bit 2 size in
              if packet_size_in_words = 0 then Some (Inl ENODATA, packet, tx_req, q)
              else do {
                (rc, buf, new_read_idx) \<leftarrow>
                  (if push_bit 2 packet_size_in_words \<le> VIDC_IFACEQ_VAR_HUGE_PKT_SIZE \<and> read_idx \<le> mem_words
                   then map_option (\<lambda>(buf, i). (Inr (), buf, i)) (read_copy m mem_words read_idx buf packet_size_in_words)
                   else Some (Inl ENODATA, buf, write_idx));
                Some (rc, Some buf, Some (if qhdr_tx_req queue = 1 then 1 else 0),
                  q\<lparr>q_hdr := Some (queue\<lparr>qhdr_rx_req := receive_request, qhdr_read_idx := new_read_idx\<rparr>)\<rparr>) }) }))"

section \<open>The packets of a queue\<close>

text \<open>A packet as its words: the first holds the size in bytes.\<close>

definition sized :: "u32 list \<Rightarrow> bool" where
  "sized p \<longleftrightarrow> p \<noteq> [] \<and> unat (hd p) div 4 = length p"

function split_packets :: "u32 list \<Rightarrow> u32 list list" where
  "split_packets [] = []"
| "split_packets (x # xs) = (if unat x div 4 = 0 then [x # xs]
     else take (unat x div 4) (x # xs) # split_packets (drop (unat x div 4) (x # xs)))"
  by pat_completeness auto
termination by (relation "measure length") auto

lemma split_packets_append:
  "sized p \<Longrightarrow> split_packets (p @ ws) = p # split_packets ws"
  by (cases p) (auto simp: sized_def)

lemma split_packets_concat:
  "\<forall>p \<in> set ps. sized p \<Longrightarrow> split_packets (concat ps @ ws) = ps @ split_packets ws"
  by (induction ps) (simp_all add: split_packets_append)

lemma concat_split_packets: "concat (split_packets ws) = ws"
  by (induction ws rule: split_packets.induct) auto

definition queue_ring :: "u32 list \<Rightarrow> vidc_queue_header \<Rightarrow> u32 list" where
  "queue_ring m h = ring (\<lambda>k. m ! k) (length m) (unat (qhdr_read_idx h)) (unat (qhdr_write_idx h))"

definition queue_packets :: "msm_vidc_iface_q_info \<Rightarrow> u32 list list" where
  "queue_packets q = (case (q_words q, q_hdr q) of (Some m, Some h) \<Rightarrow> split_packets (queue_ring m h) | _ \<Rightarrow> [])"

definition queue_words :: "msm_vidc_iface_q_info \<Rightarrow> nat" where
  "queue_words q = unat (q_mem_size q) div 4"

definition legal_packet :: "u32 list \<Rightarrow> bool" where
  "legal_packet p \<longleftrightarrow> sized p \<and> 4 * length p \<le> unat VIDC_IFACEQ_VAR_HUGE_PKT_SIZE"

text \<open>The memory behind a queue is what its size says, whatever the header holds.\<close>

definition queue_mem :: "msm_vidc_iface_q_info \<Rightarrow> bool" where
  "queue_mem q = (case (q_words q, q_hdr q) of (Some m, Some h) \<Rightarrow> unat (q_mem_size q) = 4 * length m | _ \<Rightarrow> False)"

definition vq_ok :: "msm_vidc_iface_q_info \<Rightarrow> bool" where
  "vq_ok q = (queue_mem q \<and> (case q_hdr q of
       Some h \<Rightarrow> unat (qhdr_read_idx h) < queue_words q \<and> unat (qhdr_write_idx h) < queue_words q
     | None \<Rightarrow> False) \<and> (\<forall>p \<in> set (queue_packets q). legal_packet p))"

lemma vq_okE:
  assumes "vq_ok q"
  obtains m h where "q_words q = Some m" "q_hdr q = Some h" "unat (q_mem_size q) = 4 * length m" "queue_words q = length m"
    "unat (qhdr_read_idx h) < length m" "unat (qhdr_write_idx h) < length m" "\<forall>p \<in> set (split_packets (queue_ring m h)). legal_packet p"
    "queue_packets q = split_packets (queue_ring m h)"
  using assms by (auto simp: vq_ok_def queue_mem_def queue_packets_def queue_words_def split: option.splits)

lemma vq_okI:
  "q_words q = Some m \<Longrightarrow> q_hdr q = Some h \<Longrightarrow> unat (q_mem_size q) = 4 * length m \<Longrightarrow> unat (qhdr_read_idx h) < length m \<Longrightarrow>
   unat (qhdr_write_idx h) < length m \<Longrightarrow> \<forall>p \<in> set (split_packets (queue_ring m h)). legal_packet p \<Longrightarrow> vq_ok q"
  by (simp add: vq_ok_def queue_mem_def queue_packets_def queue_words_def)

section \<open>32-bit word counts\<close>

lemma unat_shr2: "unat (drop_bit 2 (x :: u32)) = unat x div 4"
  by (simp add: unat_drop_bit_eq drop_bit_eq_div unat_div_distrib)

lemma unat_shl2: "unat (push_bit 2 (x :: u32)) = (4 * unat x) mod 2 ^ 32"
  by (simp add: push_bit_eq_mult unat_word_ariths mult.commute)

lemma unat_shl2_small: "unat (x :: u32) < 2 ^ 30 \<Longrightarrow> unat (push_bit 2 x) = 4 * unat x"
  unfolding unat_shl2 by (rule mod_less) simp

lemma shl2_small: "unat x < 2 ^ 30 \<Longrightarrow> shl2 x = unat x"
  by (simp add: shl2_def unat_shl2_small)

lemma mem_words_small: "unat (s :: u32) = 4 * n \<Longrightarrow> n < 2 ^ 30"
  using unsigned_less[of s, where ?'a = nat] by simp

lemma unat_add_small: "unat (a :: u32) + unat b < 2 ^ 32 \<Longrightarrow> unat (a + b) = unat a + unat b"
  by (simp add: unat_add_lem[symmetric])

lemma unat_sub_le: "unat (b :: u32) \<le> unat a \<Longrightarrow> unat (a - b) = unat a - unat b"
  by (simp add: unat_sub word_le_nat_alt)

section \<open>Writing\<close>

text \<open>What the two copies of a write leave in memory.\<close>

definition ring_store :: "u32 list \<Rightarrow> nat \<Rightarrow> u32 list \<Rightarrow> u32 list" where
  "ring_store m w p = (if w + length p < length m then write_run m w p
     else write_run (write_run m w (take (length m - w) p)) 0 (drop (length m - w) p))"

lemma ring_store_nth:
  assumes "w < length m" and "length p < length m"
  shows "length (ring_store m w p) = length m"
    and "j < length p \<Longrightarrow> ring_store m w p ! ((w + j) mod length m) = p ! j"
    and "k < length m \<Longrightarrow> (\<And>j. j < length p \<Longrightarrow> k \<noteq> (w + j) mod length m) \<Longrightarrow> ring_store m w p ! k = m ! k"
proof -
  show len: "length (ring_store m w p) = length m" using assms by (auto simp: ring_store_def)
  show "ring_store m w p ! ((w + j) mod length m) = p ! j" if j: "j < length p"
  proof -
    have "(w + j) mod length m = (if w + j < length m then w + j else w + j - length m)"
      using assms j by (intro slot_mod) auto
    then show ?thesis using assms j by (auto simp: ring_store_def nth_write_run)
  qed
  show "ring_store m w p ! k = m ! k" if k: "k < length m" "\<And>j. j < length p \<Longrightarrow> k \<noteq> (w + j) mod length m"
  proof -
    have a: "\<not> (w \<le> k \<and> k < w + length p)"
    proof
      assume h: "w \<le> k \<and> k < w + length p"
      then have "k = (w + (k - w)) mod length m" using k(1) by simp
      moreover have "k - w < length p" using h by arith
      ultimately show False using k(2) by metis
    qed
    have b: "\<not> (length m - w \<le> length p \<and> k < length p - (length m - w))"
    proof
      assume h: "length m - w \<le> length p \<and> k < length p - (length m - w)"
      then have "w + (k + (length m - w)) = k + length m" using assms(1) by simp
      then have "(w + (k + (length m - w))) mod length m = k" using k(1) by simp
      moreover have "k + (length m - w) < length p" using h by arith
      ultimately show False using k(2) by metis
    qed
    from a b k(1) assms show ?thesis by (auto simp: ring_store_def nth_write_run)
  qed
qed

lemma ring_store_ring:
  assumes "r < length m" and "w < length m" and "length (ring (\<lambda>k. m ! k) (length m) r w) + length p < length m"
  shows "ring (\<lambda>k. ring_store m w p ! k) (length m) r ((w + length p) mod length m) = ring (\<lambda>k. m ! k) (length m) r w @ p"
proof -
  let ?n = "length m" and ?m = "ring_store m w p"
  have lp: "length p < ?n" using assms(3) by simp
  have used: "length (ring (\<lambda>k. ?m ! k) ?n r w) = length (ring (\<lambda>k. m ! k) ?n r w)" by (simp add: length_ring)
  have kept: "?m ! ((r + i) mod ?n) = m ! ((r + i) mod ?n)" if i: "i < (w + ?n - r) mod ?n" for i
  proof (rule ring_store_nth(3)[OF assms(2) lp])
    show "(r + i) mod ?n < ?n" using assms(1) by (intro mod_less_divisor) arith
    fix j assume j: "j < length p"
    have d: "(w + ?n - r) mod ?n + j < ?n" using assms(3) j by (simp add: length_ring)
    have u: "(w + ?n - r) mod ?n = (if r \<le> w then w - r else w + ?n - r)" using assms(1,2) by (rule ring_used)
    have 1: "(r + i) mod ?n = (if r + i < ?n then r + i else r + i - ?n)" using assms(1) i d by (intro slot_mod) auto
    have 2: "(w + j) mod ?n = (if w + j < ?n then w + j else w + j - ?n)" using assms(2) j lp by (intro slot_mod) auto
    show "(r + i) mod ?n \<noteq> (w + j) mod ?n" unfolding 1 2 using d u i assms(1,2) by (auto split: if_splits)
  qed
  have "ring (\<lambda>k. ?m ! k) ?n r w = ring (\<lambda>k. m ! k) ?n r w" by (simp add: ring_def kept)
  moreover have "map (\<lambda>j. ?m ! ((w + j) mod ?n)) [0..<length p] = p"
    by (rule nth_equalityI) (simp_all add: ring_store_nth(2)[OF assms(2) lp])
  moreover have "ring (\<lambda>k. ?m ! k) ?n r ((w + length p) mod ?n) = ring (\<lambda>k. ?m ! k) ?n r w @ map (\<lambda>j. ?m ! ((w + j) mod ?n)) [0..<length p]"
    using assms(3) used by (intro ring_extend[OF _ assms(1,2)]) simp
  ultimately show ?thesis by simp
qed

lemma memcpy_eval:
  assumes "unat n < 2 ^ 30" and "d + unat n \<le> length dst" and "s + unat n \<le> length src"
  shows "memcpy_words dst d src s n = Some (write_run dst d (read_run src s (unat n)))"
  using assms by (simp add: memcpy_words_def shl2_small)

text \<open>The two copies for a write index inside the run, whatever the read index is.\<close>

lemma write_copies:
  assumes size: "unat (q_mem_size q) = 4 * length m" and w: "unat w < length m" and p: "0 < unat n" "unat n \<le> length m" "unat n \<le> length b"
  shows "write_copy m (drop_bit 2 (q_mem_size q)) w b n =
    Some (ring_store m (unat w) (take (unat n) b), of_nat ((unat w + unat n) mod length m))"
proof -
  let ?N = "length m"
  have N: "?N < 2 ^ 30" using size by (rule mem_words_small)
  have words: "unat (drop_bit 2 (q_mem_size q)) = ?N" by (simp add: unat_shr2 size)
  have sum: "unat (w + n) = unat w + unat n" using w p N by (intro unat_add_small) simp
  have lt: "w + n < drop_bit 2 (q_mem_size q) \<longleftrightarrow> unat w + unat n < ?N" by (simp add: word_less_nat_alt sum words)
  have sw: "shl2 w = unat w" using w N by (intro shl2_small) simp
  have n30: "unat n < 2 ^ 30" using p N by simp
  show ?thesis
  proof (cases "unat w + unat n < ?N")
    case True
    have "memcpy_words m (shl2 w) b 0 n = Some (write_run m (unat w) (read_run b 0 (unat n)))"
      unfolding sw using True p by (intro memcpy_eval n30) simp_all
    moreover have "w + n = of_nat ((unat w + unat n) mod ?N)" using True by (simp add: sum[symmetric])
    ultimately show ?thesis using True p by (simp add: write_copy_def Let_def lt ring_store_def read_run_def)
  next
    case False
    define i where "i = w + n - drop_bit 2 (q_mem_size q)"
    have i: "unat i = unat w + unat n - ?N" unfolding i_def using False by (simp add: unat_sub_le sum words)
    have ni: "unat (n - i) = ?N - unat w" using False w p by (simp add: unat_sub_le i)
    have sni: "shl2 (n - i) = ?N - unat w" using N by (simp add: shl2_small ni)
    have 1: "memcpy_words m (unat w) b 0 (n - i) = Some (write_run m (unat w) (read_run b 0 (?N - unat w)))"
      unfolding ni[symmetric] using False w p N ni by (intro memcpy_eval) simp_all
    have 2: "memcpy_words (write_run m (unat w) (read_run b 0 (?N - unat w))) 0 b (?N - unat w) i =
        Some (write_run (write_run m (unat w) (read_run b 0 (?N - unat w))) 0 (read_run b (?N - unat w) (unat i)))"
      using False w p N i by (intro memcpy_eval) simp_all
    have i': "i = of_nat ((unat w + unat n) mod ?N)"
    proof -
      have "(unat w + unat n) mod ?N = (unat w + unat n - ?N) mod ?N" using False by (simp add: le_mod_geq)
      also have "\<dots> = unat w + unat n - ?N" using w p by (intro mod_less) linarith
      finally show ?thesis by (simp add: i[symmetric])
    qed
    have "?N - unat w \<le> unat n" using False w by simp
    then have tk: "take (?N - unat w) (take (unat n) b) = read_run b 0 (?N - unat w)" by (simp add: read_run_def min_absorb1)
    have dr: "drop (?N - unat w) (take (unat n) b) = read_run b (?N - unat w) (unat i)"
      using False w by (simp add: read_run_def drop_take i add.commute)
    have "ring_store m (unat w) (take (unat n) b) = write_run (write_run m (unat w) (read_run b 0 (?N - unat w))) 0 (read_run b (?N - unat w) (unat i))"
      using False p unfolding ring_store_def tk dr by (simp del: take_take)
    then show ?thesis using False by (simp add: write_copy_def lt Let_def i_def[symmetric] sw 1 2 sni i'[symmetric])
  qed
qed

lemma write_queue_eval:
  assumes q: "q_words q = Some m" "q_hdr q = Some h" "unat (q_mem_size q) = 4 * length m"
    and idx: "unat (qhdr_read_idx h) < length m" "unat (qhdr_write_idx h) < length m"
    and b: "b \<noteq> []" "n = unat (hd b) div 4" "0 < n" "n \<le> length b"
  shows "write_queue q (Some b) rx = Some (
    if length (queue_ring m h) + n < length m
    then (Inr (), map_option (\<lambda>_. True) rx, q\<lparr>q_words := Some (ring_store m (unat (qhdr_write_idx h)) (take n b)),
      q_hdr := Some (h\<lparr>qhdr_tx_req := 0, qhdr_write_idx := of_nat ((unat (qhdr_write_idx h) + n) mod length m)\<rparr>)\<rparr>)
    else if length m < n then (Inl ENODATA, rx, q)
    else (Inl ENOTEMPTY, rx, q\<lparr>q_hdr := Some (h\<lparr>qhdr_tx_req := 1\<rparr>)\<rparr>))"
proof -
  let ?N = "length m" and ?r = "qhdr_read_idx h" and ?w = "qhdr_write_idx h"
  define k where "k = drop_bit 2 (hd b)"
  have n: "unat k = n" by (simp add: k_def unat_shr2 b(2))
  have N: "?N < 2 ^ 30" using q(3) by (rule mem_words_small)
  have words: "unat (drop_bit 2 (q_mem_size q)) = ?N" by (simp add: unat_shr2 q(3))
  have k0: "k \<noteq> 0" using n b(3) by auto
  have big: "drop_bit 2 (q_mem_size q) < k \<longleftrightarrow> ?N < n" by (simp add: word_less_nat_alt words n)
  have used: "length (queue_ring m h) = (if unat ?r \<le> unat ?w then unat ?w - unat ?r else unat ?w + ?N - unat ?r)"
    using idx by (simp add: queue_ring_def length_ring ring_used del: One_nat_def)
  define e where "e = (if ?r \<le> ?w then drop_bit 2 (q_mem_size q) - (?w - ?r) else ?r - ?w)"
  have e: "unat e = ?N - length (queue_ring m h)"
    using idx by (auto simp: e_def used word_le_nat_alt unat_sub_le words)
  have full: "e \<le> k \<longleftrightarrow> \<not> length (queue_ring m h) + n < ?N"
    using idx used by (auto simp: word_le_nat_alt e n)
  have ptr: "\<not> unat (q_mem_size q) < unat (push_bit 2 ?w)" using N idx by (simp add: unat_shl2_small q(3))
  have hd: "b ! 0 = hd b" using b(1) by (simp add: hd_conv_nth)
  note copies = write_copies[OF q(3) idx(2), of k b, unfolded n]
  show ?thesis
  proof (cases "length (queue_ring m h) + n < ?N")
    case True
    then have "n < ?N" by simp
    then have "n \<le> ?N" by simp
    from copies[OF b(3) this b(4)] show ?thesis
      using True k0 big full ptr b(1) \<open>n < ?N\<close>
      by (simp add: write_queue_def q hd k_def[symmetric] e_def[symmetric] Let_def)
  next
    case False
    then show ?thesis using k0 big full b(1)
      by (simp add: write_queue_def q hd k_def[symmetric] e_def[symmetric] Let_def)
  qed
qed

text \<open>The specification of a write.\<close>

lemma write_queue_spec:
  assumes q: "vq_ok q" and b: "b \<noteq> []" "n = unat (hd b) div 4" "0 < n" "n \<le> length b" "4 * n \<le> unat VIDC_IFACEQ_VAR_HUGE_PKT_SIZE"
  shows "\<exists>q'. write_queue q (Some b) rx = Some (
      if sum_list (map length (queue_packets q)) + n < queue_words q then (Inr (), map_option (\<lambda>_. True) rx, q')
      else (Inl (if queue_words q < n then ENODATA else ENOTEMPTY), rx, q')) \<and>
    vq_ok q' \<and> queue_words q' = queue_words q \<and> q_mem_size q' = q_mem_size q \<and> q_device_addr q' = q_device_addr q \<and>
    queue_packets q' = queue_packets q @ (if sum_list (map length (queue_packets q)) + n < queue_words q then [take n b] else [])"
proof -
  obtain m h where m: "q_words q = Some m" "q_hdr q = Some h" "unat (q_mem_size q) = 4 * length m" "queue_words q = length m"
    and idx: "unat (qhdr_read_idx h) < length m" "unat (qhdr_write_idx h) < length m"
    and legal: "\<forall>p \<in> set (split_packets (queue_ring m h)). legal_packet p"
    and ps: "queue_packets q = split_packets (queue_ring m h)"
    using q by (rule vq_okE)
  let ?N = "length m" and ?r = "unat (qhdr_read_idx h)" and ?w = "unat (qhdr_write_idx h)"
  have cat: "concat (queue_packets q) = queue_ring m h" unfolding ps by (rule concat_split_packets)
  have used: "sum_list (map length (queue_packets q)) = length (queue_ring m h)"
    unfolding cat[symmetric] by (simp add: length_concat)
  note ev = write_queue_eval[OF m(1-3) idx b(1-4), of rx]
  show ?thesis
  proof (cases "length (queue_ring m h) + n < ?N")
    case True
    define q' where "q' = q\<lparr>q_words := Some (ring_store m ?w (take n b)),
      q_hdr := Some (h\<lparr>qhdr_tx_req := 0, qhdr_write_idx := of_nat ((?w + n) mod ?N)\<rparr>)\<rparr>"
    have N: "?N < 2 ^ 30" using m(3) by (rule mem_words_small)
    have lt: "length (take n b) < ?N" using True b(4) by simp
    have len: "length (ring_store m ?w (take n b)) = ?N" by (rule ring_store_nth(1)[OF idx(2) lt])
    have N0: "0 < ?N" using True by arith
    have v: "unat (of_nat ((?w + n) mod ?N) :: u32) = (?w + n) mod ?N"
      using mod_less_divisor[OF N0, of "?w + n"] N by (intro unat_of_nat_u32) simp
    have ring: "queue_ring (ring_store m ?w (take n b)) (h\<lparr>qhdr_tx_req := 0, qhdr_write_idx := of_nat ((?w + n) mod ?N)\<rparr>) =
        queue_ring m h @ take n b"
      using ring_store_ring[OF idx, of "take n b"] True b(4) by (simp add: queue_ring_def len v min_absorb2)
    have p: "legal_packet (take n b)" using b by (auto simp: legal_packet_def sized_def)
    have split: "split_packets (queue_ring m h @ take n b) = split_packets (queue_ring m h) @ [take n b]"
    proof -
      have "split_packets (concat (queue_packets q) @ take n b) = queue_packets q @ split_packets (take n b)"
        using legal by (intro split_packets_concat) (simp add: ps legal_packet_def)
      moreover have "split_packets (take n b) = [take n b]"
        using p split_packets_append[of "take n b" "[]"] by (simp add: legal_packet_def)
      ultimately show ?thesis unfolding cat by (simp only: ps)
    qed
    have ok: "vq_ok q'"
    proof (rule vq_okI)
      show "q_words q' = Some (ring_store m ?w (take n b))" by (simp add: q'_def)
      show "q_hdr q' = Some (h\<lparr>qhdr_tx_req := 0, qhdr_write_idx := of_nat ((?w + n) mod ?N)\<rparr>)" by (simp add: q'_def)
      show "\<forall>p \<in> set (split_packets (queue_ring (ring_store m ?w (take n b)) (h\<lparr>qhdr_tx_req := 0, qhdr_write_idx := of_nat ((?w + n) mod ?N)\<rparr>))).
        legal_packet p" unfolding ring split using legal p by simp
    qed (use m idx N0 in \<open>simp_all add: q'_def len v\<close>)
    have "queue_packets q' = queue_packets q @ [take n b]"
      by (simp add: queue_packets_def q'_def m ring split)
    moreover have "queue_words q' = queue_words q" by (simp add: queue_words_def q'_def)
    ultimately show ?thesis using ev True ok by (intro exI[of _ q']) (simp add: used m(4) q'_def)
  next
    case False
    define q' where "q' = (if ?N < n then q else q\<lparr>q_hdr := Some (h\<lparr>qhdr_tx_req := 1\<rparr>)\<rparr>)"
    have ring: "queue_ring m (h\<lparr>qhdr_tx_req := 1\<rparr>) = queue_ring m h" by (simp add: queue_ring_def)
    have ok: "vq_ok q'"
    proof (cases "?N < n")
      case False
      then show ?thesis using m idx legal
        by (intro vq_okI[of q' m "h\<lparr>qhdr_tx_req := 1\<rparr>"]) (simp_all add: q'_def ring)
    qed (use q in \<open>simp add: q'_def\<close>)
    have "queue_packets q' = queue_packets q" "queue_words q' = queue_words q"
      by (simp_all add: queue_packets_def queue_words_def q'_def m ring)
    then show ?thesis using ev False ok by (intro exI[of _ q']) (simp add: used m(4) q'_def)
  qed
qed

section \<open>Reading\<close>

definition ring_load :: "u32 list \<Rightarrow> nat \<Rightarrow> nat \<Rightarrow> u32 list" where
  "ring_load m r n = map (\<lambda>j. m ! ((r + j) mod length m)) [0..<n]"

lemma length_ring_load [simp]: "length (ring_load m r n) = n"
  by (simp add: ring_load_def)

lemma write_run_append:
  "i + length a + length b \<le> length m \<Longrightarrow> write_run (write_run m i a) (i + length a) b = write_run m i (a @ b)"
  by (rule nth_equalityI) (auto simp: nth_write_run nth_append)

text \<open>The copies of a read, for any read index inside the run.\<close>

lemma read_copies:
  assumes size: "unat s = 4 * length m" and r: "unat r < length m" and n: "unat n \<le> length m" "unat n \<le> length buf"
  shows "read_copy m (drop_bit 2 s) r buf n =
    Some (write_run buf 0 (ring_load m (unat r) (unat n)), of_nat ((unat r + unat n) mod length m))"
proof -
  let ?N = "length m"
  have N: "?N < 2 ^ 30" using size by (rule mem_words_small)
  have words: "unat (drop_bit 2 s) = ?N" by (simp add: unat_shr2 size)
  have sum: "unat (r + n) = unat r + unat n" using r n N by (intro unat_add_small) simp
  have lt: "r + n < drop_bit 2 s \<longleftrightarrow> unat r + unat n < ?N" by (simp add: word_less_nat_alt sum words)
  have sr: "shl2 r = unat r" using r N by (intro shl2_small) simp
  have n30: "unat n < 2 ^ 30" using n N by simp
  show ?thesis
  proof (cases "unat r + unat n < ?N")
    case True
    have "memcpy_words buf 0 m (shl2 r) n = Some (write_run buf 0 (read_run m (unat r) (unat n)))"
      unfolding sr using True n by (intro memcpy_eval n30) simp_all
    moreover have "read_run m (unat r) (unat n) = ring_load m (unat r) (unat n)"
      using True by (intro nth_equalityI) (simp_all add: ring_load_def read_run_nth)
    moreover have "r + n = of_nat ((unat r + unat n) mod ?N)" using True by (simp add: sum[symmetric])
    ultimately show ?thesis using True by (simp add: read_copy_def Let_def lt)
  next
    case False
    define i where "i = r + n - drop_bit 2 s"
    have i: "unat i = unat r + unat n - ?N" unfolding i_def using False by (simp add: unat_sub_le sum words)
    have ni: "unat (n - i) = ?N - unat r" using False r n by (simp add: unat_sub_le i)
    have sni: "shl2 (n - i) = ?N - unat r" using N by (simp add: shl2_small ni)
    let ?a = "read_run m (unat r) (?N - unat r)" and ?b = "read_run m 0 (unat i)"
    have 1: "memcpy_words buf 0 m (unat r) (n - i) = Some (write_run buf 0 ?a)"
      unfolding ni[symmetric] using False r n N ni by (intro memcpy_eval) simp_all
    have 2: "memcpy_words (write_run buf 0 ?a) (?N - unat r) m 0 i = Some (write_run (write_run buf 0 ?a) (?N - unat r) ?b)"
      using False r n N i by (intro memcpy_eval) simp_all
    have la: "length ?a = ?N - unat r" "length ?b = unat i" using r i n by simp_all
    have "write_run (write_run buf 0 ?a) (0 + length ?a) ?b = write_run buf 0 (?a @ ?b)"
      using False r n i la by (intro write_run_append) simp
    moreover have "?a @ ?b = ring_load m (unat r) (unat n)"
    proof (rule nth_equalityI)
      have "?N - unat r + unat i = unat n" using False r i by simp
      then have lab: "length (?a @ ?b) = unat n" by (simp only: length_append la)
      then show "length (?a @ ?b) = length (ring_load m (unat r) (unat n))" by simp
      fix j assume "j < length (?a @ ?b)"
      then have j: "j < unat n" by (simp only: lab)
      then have "(unat r + j) mod ?N = (if unat r + j < ?N then unat r + j else unat r + j - ?N)"
        using r n by (intro slot_mod) simp_all
      then show "(?a @ ?b) ! j = ring_load m (unat r) (unat n) ! j"
        using j r n i False by (auto simp: nth_append la ring_load_def read_run_nth add.commute)
    qed
    moreover have "i = of_nat ((unat r + unat n) mod ?N)"
    proof -
      have "(unat r + unat n) mod ?N = (unat r + unat n - ?N) mod ?N" using False by (simp add: le_mod_geq)
      also have "\<dots> = unat r + unat n - ?N" using r n by (intro mod_less) linarith
      finally show ?thesis by (simp add: i[symmetric])
    qed
    moreover have "read_copy m (drop_bit 2 s) r buf n = Some (write_run (write_run buf 0 ?a) (0 + length ?a) ?b, i)"
      using False by (simp add: read_copy_def lt Let_def i_def[symmetric] sr 1 2 sni la)
    ultimately show ?thesis by (simp only:)
  qed
qed

lemma ring_load_take:
  assumes "r < length m" and "w < length m" and "n \<le> length (ring (\<lambda>k. m ! k) (length m) r w)"
  shows "ring_load m r n = take n (ring (\<lambda>k. m ! k) (length m) r w)"
    and "ring (\<lambda>k. m ! k) (length m) ((r + n) mod length m) w = drop n (ring (\<lambda>k. m ! k) (length m) r w)"
proof -
  have "ring (\<lambda>k. m ! k) (length m) r w = ring_load m r n @ ring (\<lambda>k. m ! k) (length m) ((r + n) mod length m) w"
    unfolding ring_load_def using assms by (intro ring_split) (simp_all add: length_ring)
  then show "ring_load m r n = take n (ring (\<lambda>k. m ! k) (length m) r w)"
    "ring (\<lambda>k. m ! k) (length m) ((r + n) mod length m) w = drop n (ring (\<lambda>k. m ! k) (length m) r w)" by simp_all
qed

definition receive_request :: "vidc_queue_header \<Rightarrow> u32" where
  "receive_request h = (if qhdr_type h AND HFI_Q_ID_CTRL_TO_HOST_MSG_Q \<noteq> 0 then 1 else 0)"

text \<open>The specification of a read.\<close>

lemma read_queue_spec:
  assumes q: "vq_ok q" and buf: "unat VIDC_IFACEQ_VAR_HUGE_PKT_SIZE \<le> 4 * length buf"
  shows "\<exists>q'. vq_ok q' \<and> queue_words q' = queue_words q \<and> q_words q' = q_words q \<and> queue_packets q' = tl (queue_packets q) \<and>
    read_queue q (Some buf) (Some tx) = Some (case queue_packets q of
        [] \<Rightarrow> (Inl ENODATA, Some buf, Some 0, q')
      | p # _ \<Rightarrow> (Inr (), Some (write_run buf 0 p), Some (if map_option qhdr_tx_req (q_hdr q) = Some 1 then 1 else 0), q'))"
proof -
  obtain m h where m: "q_words q = Some m" "q_hdr q = Some h" "unat (q_mem_size q) = 4 * length m" "queue_words q = length m"
    and idx: "unat (qhdr_read_idx h) < length m" "unat (qhdr_write_idx h) < length m"
    and legal: "\<forall>p \<in> set (split_packets (queue_ring m h)). legal_packet p"
    and ps: "queue_packets q = split_packets (queue_ring m h)"
    using q by (rule vq_okE)
  let ?N = "length m" and ?r = "unat (qhdr_read_idx h)" and ?w = "unat (qhdr_write_idx h)"
  have rr: "(if qhdr_type h AND HFI_Q_ID_CTRL_TO_HOST_MSG_Q \<noteq> 0 then 1 else 0) = receive_request h" by (simp add: receive_request_def)
  have N: "?N < 2 ^ 30" using m(3) by (rule mem_words_small)
  show ?thesis
  proof (cases "qhdr_read_idx h = qhdr_write_idx h")
    case True
    define q' where "q' = q\<lparr>q_hdr := Some (h\<lparr>qhdr_rx_req := receive_request h\<rparr>)\<rparr>"
    have nil: "queue_ring m h = []" using idx True by (simp add: queue_ring_def ring_Nil_iff)
    have ring: "queue_ring m (h\<lparr>qhdr_rx_req := receive_request h\<rparr>) = []" using nil by (simp add: queue_ring_def)
    have "vq_ok q'" using m idx by (intro vq_okI[of q' m "h\<lparr>qhdr_rx_req := receive_request h\<rparr>"]) (simp_all add: q'_def ring)
    moreover have "queue_packets q' = []" "queue_packets q = []" by (simp_all add: queue_packets_def q'_def m ring nil)
    moreover have "read_queue q (Some buf) (Some tx) = Some (Inl ENODATA, Some buf, Some 0, q')"
      using True by (simp add: read_queue_def m rr q'_def)
    ultimately show ?thesis by (intro exI[of _ q']) (simp add: queue_words_def q'_def)
  next
    case False
    then have ne: "queue_ring m h \<noteq> []" using idx by (simp add: queue_ring_def ring_Nil_iff unat_inj word_unat_eq_iff)
    then obtain p rest where sp: "split_packets (queue_ring m h) = p # rest"
      using concat_split_packets[of "queue_ring m h"] by (cases "split_packets (queue_ring m h)") auto
    have cat: "queue_ring m h = p @ concat rest" using concat_split_packets[of "queue_ring m h"] sp by simp
    have p: "legal_packet p" "\<forall>x \<in> set rest. legal_packet x" using legal sp by simp_all
    define n where "n = length p"
    have hdp: "hd p = m ! ?r"
    proof -
      have "hd (queue_ring m h) = m ! ?r"
        using ne idx False unfolding queue_ring_def by (subst ring_Cons) (auto simp: word_unat_eq_iff)
      then show ?thesis using cat p(1) by (simp add: legal_packet_def sized_def)
    qed
    define k where "k = drop_bit 2 (m ! ?r)"
    have k: "unat k = n" using p(1) hdp by (simp add: k_def unat_shr2 n_def legal_packet_def sized_def)
    have n0: "0 < n" using p(1) by (simp add: n_def legal_packet_def sized_def)
    have n4: "4 * n \<le> unat VIDC_IFACEQ_VAR_HUGE_PKT_SIZE" using p(1) by (simp add: n_def legal_packet_def)
    have nring: "n \<le> length (ring (\<lambda>k. m ! k) ?N ?r ?w)" using cat by (simp add: n_def queue_ring_def)
    have lr: "length (ring (\<lambda>k. m ! k) ?N ?r ?w) < ?N"
    proof -
      have "0 < ?N" using idx by arith
      then show ?thesis unfolding length_ring by (rule mod_less_divisor)
    qed
    have nN: "n \<le> ?N" using nring lr by simp
    have sh: "shl2 (qhdr_read_idx h) = ?r" using idx N by (intro shl2_small) simp
    have ptr: "\<not> unat (q_mem_size q) < unat (push_bit 2 (qhdr_read_idx h)) + 4"
      using idx N by (simp add: unat_shl2_small m(3))
    have k0: "k \<noteq> 0" using k n0 by auto
    have k4: "push_bit 2 k \<le> VIDC_IFACEQ_VAR_HUGE_PKT_SIZE" using n4 nN N k by (simp add: word_le_nat_alt unat_shl2_small)
    have rm: "qhdr_read_idx h \<le> drop_bit 2 (q_mem_size q)" using idx by (simp add: word_le_nat_alt unat_shr2 m(3))
    define q' where "q' = q\<lparr>q_hdr := Some (h\<lparr>qhdr_rx_req := receive_request h, qhdr_read_idx := of_nat ((?r + n) mod ?N)\<rparr>)\<rparr>"
    have load: "ring_load m ?r n = p"
      using ring_load_take(1)[OF idx nring] cat by (simp add: queue_ring_def n_def)
    have copy: "read_copy m (drop_bit 2 (q_mem_size q)) (qhdr_read_idx h) buf k = Some (write_run buf 0 p, of_nat ((?r + n) mod ?N))"
      using read_copies[OF m(3) idx(1), of k buf] nN n4 buf by (simp add: k load)
    have ev: "read_queue q (Some buf) (Some tx) = Some (Inr (), Some (write_run buf 0 p), Some (if qhdr_tx_req h = 1 then 1 else 0), q')"
      using False ptr k0 k4 rm copy idx
      by (simp add: read_queue_def m rr sh Let_def k_def[symmetric] q'_def)
    have N0: "0 < ?N" using idx by arith
    have v: "unat (of_nat ((?r + n) mod ?N) :: u32) = (?r + n) mod ?N"
      using mod_less_divisor[OF N0, of "?r + n"] N by (intro unat_of_nat_u32) simp
    have ring: "queue_ring m (h\<lparr>qhdr_rx_req := receive_request h, qhdr_read_idx := of_nat ((?r + n) mod ?N)\<rparr>) = concat rest"
      using ring_load_take(2)[OF idx nring] cat by (simp add: queue_ring_def v[unfolded n_def] n_def)
    have rest: "split_packets (concat rest) = rest" using split_packets_concat[of rest "[]"] p(2) by (simp add: legal_packet_def)
    have "vq_ok q'"
      using m idx mod_less_divisor[OF N0, of "?r + n"] p(2)
      by (intro vq_okI[of q' m "h\<lparr>qhdr_rx_req := receive_request h, qhdr_read_idx := of_nat ((?r + n) mod ?N)\<rparr>"])
        (simp_all add: q'_def ring rest v)
    moreover have "queue_packets q' = rest" by (simp add: queue_packets_def q'_def m ring rest)
    ultimately show ?thesis using ev by (intro exI[of _ q']) (simp add: queue_words_def q'_def ps sp m(2))
  qed
qed

section \<open>Headers the firmware may have scribbled on\<close>

lemma queue_memE:
  assumes "queue_mem q"
  obtains m h where "q_words q = Some m" "q_hdr q = Some h" "unat (q_mem_size q) = 4 * length m" "queue_words q = length m"
  using assms by (auto simp: queue_mem_def queue_words_def split: option.splits)

lemma read_queue_any:
  assumes q: "queue_mem q" and size: "unat VIDC_IFACEQ_VAR_HUGE_PKT_SIZE \<le> 4 * queue_words q"
    and buf: "unat VIDC_IFACEQ_VAR_HUGE_PKT_SIZE \<le> 4 * length buf"
  shows "\<exists>rc buf' tx' x i. length buf' = length buf \<and> read_queue q (Some buf) (Some tx) =
    Some (rc, Some buf', Some tx', q\<lparr>q_hdr := map_option (\<lambda>h. h\<lparr>qhdr_rx_req := x, qhdr_read_idx := i\<rparr>) (q_hdr q)\<rparr>)"
proof -
  obtain m h where m: "q_words q = Some m" "q_hdr q = Some h" "unat (q_mem_size q) = 4 * length m" "queue_words q = length m"
    using q by (rule queue_memE)
  let ?N = "length m" and ?r = "qhdr_read_idx h"
  have N: "?N < 2 ^ 30" using m(3) by (rule mem_words_small)
  have rr: "(if qhdr_type h AND HFI_Q_ID_CTRL_TO_HOST_MSG_Q \<noteq> 0 then 1 else 0) = receive_request h" by (simp add: receive_request_def)
  have same: "q = q\<lparr>q_hdr := Some (h\<lparr>qhdr_rx_req := qhdr_rx_req h, qhdr_read_idx := ?r\<rparr>)\<rparr>" using m(2) by simp
  consider (empty) "?r = qhdr_write_idx h" | (bad) "?r \<noteq> qhdr_write_idx h" "4 * ?N < unat (push_bit 2 ?r) + 4"
    | (ok) "?r \<noteq> qhdr_write_idx h" "\<not> 4 * ?N < unat (push_bit 2 ?r) + 4" by blast
  then show ?thesis
  proof cases
    case empty
    then have "read_queue q (Some buf) (Some tx) =
        Some (Inl ENODATA, Some buf, Some 0, q\<lparr>q_hdr := Some (h\<lparr>qhdr_rx_req := receive_request h, qhdr_read_idx := ?r\<rparr>)\<rparr>)"
      by (simp add: read_queue_def m(1,2) rr)
    then show ?thesis unfolding m(2) option.map by blast
  next
    case bad
    then have "read_queue q (Some buf) (Some tx) = Some (Inl ENODATA, Some buf, Some tx, q)"
      by (simp add: read_queue_def m(1-3) Let_def)
    with same show ?thesis unfolding m(2) option.map by (metis (no_types))
  next
    case ok
    have s: "shl2 ?r < ?N" using ok(2) by (simp add: shl2_def)
    define k where "k = drop_bit 2 (m ! shl2 ?r)"
    show ?thesis
    proof (cases "k = 0")
      case True
      then have "read_queue q (Some buf) (Some tx) = Some (Inl ENODATA, Some buf, Some tx, q)"
        using ok s by (simp add: read_queue_def m(1-3) Let_def k_def)
      with same show ?thesis unfolding m(2) option.map by (metis (no_types))
    next
      case k0: False
      show ?thesis
      proof (cases "push_bit 2 k \<le> VIDC_IFACEQ_VAR_HUGE_PKT_SIZE \<and> ?r \<le> drop_bit 2 (q_mem_size q)")
        case True
        have "unat ?r \<le> ?N" using True by (simp add: word_le_nat_alt unat_shr2 m(3))
        then have r: "unat ?r < ?N" using ok(2) N by (simp add: unat_shl2_small)
        have "unat k < 2 ^ 30" using unsigned_less[of "m ! shl2 ?r", where ?'a = nat] by (simp add: k_def unat_shr2)
        then have k4: "4 * unat k \<le> unat VIDC_IFACEQ_VAR_HUGE_PKT_SIZE" using True by (simp add: word_le_nat_alt unat_shl2_small)
        then have c: "read_copy m (drop_bit 2 (q_mem_size q)) ?r buf k =
            Some (write_run buf 0 (ring_load m (unat ?r) (unat k)), of_nat ((unat ?r + unat k) mod ?N))"
          using size buf m(4) by (intro read_copies[OF m(3) r]) simp_all
        have "read_queue q (Some buf) (Some tx) = Some (Inr (), Some (write_run buf 0 (ring_load m (unat ?r) (unat k))),
            Some (if qhdr_tx_req h = 1 then 1 else 0),
            q\<lparr>q_hdr := Some (h\<lparr>qhdr_rx_req := receive_request h, qhdr_read_idx := of_nat ((unat ?r + unat k) mod ?N)\<rparr>)\<rparr>)"
          using ok k0 True c s by (simp add: read_queue_def m(1-3) rr Let_def k_def[symmetric])
        moreover have "length (write_run buf 0 (ring_load m (unat ?r) (unat k))) = length buf" using k4 buf by (intro length_write_run) simp
        ultimately show ?thesis unfolding m(2) option.map by blast
      next
        case False
        have "read_queue q (Some buf) (Some tx) = Some (Inl ENODATA, Some buf, Some (if qhdr_tx_req h = 1 then 1 else 0),
            q\<lparr>q_hdr := Some (h\<lparr>qhdr_rx_req := receive_request h, qhdr_read_idx := qhdr_write_idx h\<rparr>)\<rparr>)"
          using ok k0 s by (simp add: read_queue_def m(1-3) rr Let_def k_def[symmetric] if_not_P[OF False])
        then show ?thesis unfolding m(2) option.map by blast
      qed
    qed
  qed
qed

lemma write_copy_end:
  assumes size: "unat (q_mem_size q) = 4 * length m" and w: "unat w \<le> length m" and p: "0 < unat n" "unat n \<le> length m" "unat n \<le> length b"
  shows "\<exists>m' i. write_copy m (drop_bit 2 (q_mem_size q)) w b n = Some (m', i) \<and> length m' = length m"
proof (cases "unat w < length m")
  case True
  have "length (ring_store m (unat w) (take (unat n) b)) = length m"
    using True p by (auto simp: ring_store_def min_absorb2)
  with write_copies[OF size True p] show ?thesis by blast
next
  case False
  let ?N = "length m"
  have N: "?N < 2 ^ 30" using size by (rule mem_words_small)
  have w': "unat w = ?N" using False w by simp
  have words: "unat (drop_bit 2 (q_mem_size q)) = ?N" by (simp add: unat_shr2 size)
  then have wd: "drop_bit 2 (q_mem_size q) = w" using w' by (simp add: word_unat_eq_iff)
  have "unat (w + n) = ?N + unat n" using w' p N unat_add_small[of w n] by simp
  then have nl: "\<not> w + n < w" by (simp add: word_less_nat_alt w')
  have "memcpy_words m (shl2 w) b 0 0 = Some m"
    using N w' by (simp add: memcpy_words_def shl2_def unat_shl2_small write_run_def read_run_def)
  moreover have "memcpy_words m 0 b 0 n = Some (write_run m 0 (read_run b 0 (unat n)))" using p N by (intro memcpy_eval) simp_all
  ultimately show ?thesis using p nl by (simp add: write_copy_def wd Let_def) (simp add: shl2_def)
qed

lemma write_queue_any:
  assumes q: "queue_mem q" and w: "map_option (\<lambda>h. unat (qhdr_write_idx h) \<le> queue_words q) (q_hdr q) = Some True"
    and b: "b \<noteq> []" "unat (hd b) div 4 \<le> length b"
  shows "\<exists>rc rx' q'. write_queue q (Some b) rx = Some (rc, rx', q') \<and> queue_mem q' \<and> queue_words q' = queue_words q"
proof -
  obtain m h where m: "q_words q = Some m" "q_hdr q = Some h" "unat (q_mem_size q) = 4 * length m" "queue_words q = length m"
    using q by (rule queue_memE)
  define k where "k = drop_bit 2 (hd b)"
  have hd: "b ! 0 = hd b" using b(1) by (simp add: hd_conv_nth)
  have N: "length m < 2 ^ 30" using m(3) by (rule mem_words_small)
  have wi: "unat (qhdr_write_idx h) \<le> length m" using w m by simp
  have ptr: "\<not> unat (q_mem_size q) < unat (push_bit 2 (qhdr_write_idx h))" using N wi by (simp add: unat_shl2_small m(3))
  have mem: "queue_mem (q\<lparr>q_words := Some m', q_hdr := Some h'\<rparr>)" "queue_words (q\<lparr>q_words := Some m', q_hdr := Some h'\<rparr>) = queue_words q"
    if "length m' = length m" for m' h' using that m by (simp_all add: queue_mem_def queue_words_def)
  have hdr: "queue_mem (q\<lparr>q_hdr := Some h'\<rparr>)" "queue_words (q\<lparr>q_hdr := Some h'\<rparr>) = queue_words q" for h'
    using m by (simp_all add: queue_mem_def queue_words_def)
  let ?e = "if qhdr_read_idx h \<le> qhdr_write_idx h then drop_bit 2 (q_mem_size q) - (qhdr_write_idx h - qhdr_read_idx h)
    else qhdr_read_idx h - qhdr_write_idx h"
  consider (bad) "k = 0 \<or> drop_bit 2 (q_mem_size q) < k" | (full) "\<not> (k = 0 \<or> drop_bit 2 (q_mem_size q) < k)" "?e \<le> k"
    | (ok) "\<not> (k = 0 \<or> drop_bit 2 (q_mem_size q) < k)" "\<not> ?e \<le> k" by blast
  then show ?thesis
  proof cases
    case bad
    then have "write_queue q (Some b) rx = Some (Inl ENODATA, rx, q)"
      using b(1) by (auto simp: write_queue_def m(1,2) hd k_def[symmetric] Let_def)
    with q show ?thesis by blast
  next
    case full
    then have "write_queue q (Some b) rx = Some (Inl ENOTEMPTY, rx, q\<lparr>q_hdr := Some (h\<lparr>qhdr_tx_req := 1\<rparr>)\<rparr>)"
      using b(1) by (simp add: write_queue_def m(1,2) hd k_def[symmetric] Let_def)
    with hdr show ?thesis by blast
  next
    case ok
    have k: "0 < unat k" "unat k \<le> length m" "unat k \<le> length b"
    proof -
      show "0 < unat k" using ok(1) by (simp add: unat_gt_0)
      show "unat k \<le> length m" using ok(1) by (simp add: word_less_nat_alt unat_shr2 m(3) not_less)
      show "unat k \<le> length b" using b(2) by (simp add: k_def unat_shr2)
    qed
    obtain m' i where c: "write_copy m (drop_bit 2 (q_mem_size q)) (qhdr_write_idx h) b k = Some (m', i)" "length m' = length m"
      using write_copy_end[OF m(3) wi k] by blast
    have "write_queue q (Some b) rx = Some (Inr (), map_option (\<lambda>_. True) rx,
        q\<lparr>q_words := Some m', q_hdr := Some (h\<lparr>qhdr_tx_req := 0, qhdr_write_idx := i\<rparr>)\<rparr>)"
      using b(1) ok ptr c(1) by (simp add: write_queue_def m(1,2) hd k_def[symmetric] Let_def)
    with mem[OF c(2)] show ?thesis by blast
  qed
qed

lemma write_queue_wild:
  assumes q: "queue_mem q" and w: "q_hdr q = Some h" "qhdr_write_idx h = 2 ^ 30" "qhdr_read_idx h = 2 ^ 30"
    and b: "b \<noteq> []" "0 < unat (hd b) div 4" "unat (hd b) div 4 < queue_words q" "length b < queue_words q \<or> queue_words q \<le> 2 ^ 29"
  shows "write_queue q (Some b) rx = None"
proof -
  obtain m where m: "q_words q = Some m" "unat (q_mem_size q) = 4 * length m" "queue_words q = length m"
    using q w(1) by (auto elim: queue_memE)
  define k where "k = drop_bit 2 (hd b)"
  have hd: "b ! 0 = hd b" using b(1) by (simp add: hd_conv_nth)
  have N: "length m < 2 ^ 30" using m(2) by (rule mem_words_small)
  have words: "unat (drop_bit 2 (q_mem_size q)) = length m" by (simp add: unat_shr2 m(2))
  have k: "0 < unat k" "unat k < length m" using b(2,3) m(3) by (simp_all add: k_def unat_shr2)
  have k0: "k \<noteq> 0" "\<not> drop_bit 2 (q_mem_size q) < k" "\<not> drop_bit 2 (q_mem_size q) \<le> k"
    using k words by (auto simp: word_less_nat_alt word_le_nat_alt)
  have p30: "push_bit 2 (2 ^ 30 :: u32) = 0" by simp
  have u30: "unat (2 ^ 30 :: u32) = 2 ^ 30" by simp
  have "unat (2 ^ 30 + k) = 2 ^ 30 + unat k" using unat_add_small[of "2 ^ 30" k] k N by simp
  then have nl: "\<not> 2 ^ 30 + k < drop_bit 2 (q_mem_size q)" using N words by (simp add: word_less_nat_alt)
  have s: "shl2 (k - (2 ^ 30 + k - drop_bit 2 (q_mem_size q))) = length m"
  proof -
    have "push_bit 2 (k - (2 ^ 30 + k - drop_bit 2 (q_mem_size q))) = push_bit 2 (drop_bit 2 (q_mem_size q)) - push_bit 2 (2 ^ 30)"
      by (simp add: push_bit_eq_mult algebra_simps)
    then have "unat (push_bit 2 (k - (2 ^ 30 + k - drop_bit 2 (q_mem_size q)))) = 4 * length m"
      using N words by (simp only: p30 unat_shl2_small diff_zero)
    then show ?thesis by (simp add: shl2_def)
  qed
  have t: "shl2 (2 ^ 30 + k - drop_bit 2 (q_mem_size q)) = 2 ^ 30 - (length m - unat k)"
  proof -
    let ?d = "drop_bit 2 (q_mem_size q) - k"
    have d: "unat ?d = length m - unat k" using k words by (simp add: unat_sub word_le_nat_alt)
    have "push_bit 2 (2 ^ 30 + k - drop_bit 2 (q_mem_size q)) = push_bit 2 (2 ^ 30) - push_bit 2 ?d"
      by (simp add: push_bit_eq_mult algebra_simps)
    also have "\<dots> = - push_bit 2 ?d" by (simp only: p30) simp
    finally have e: "push_bit 2 (2 ^ 30 + k - drop_bit 2 (q_mem_size q)) = - push_bit 2 ?d" .
    have u: "unat (push_bit 2 ?d) = 4 * (length m - unat k)" using d N by (subst unat_shl2_small) auto
    moreover have "0 < 4 * (length m - unat k)" using k by simp
    ultimately have "unat (- push_bit 2 ?d) = 2 ^ 32 - 4 * (length m - unat k)"
      using unat_sub_if'[of 0 "push_bit 2 ?d"] by simp
    then show ?thesis using e N by (simp add: shl2_def)
  qed
  have copied: "memcpy_words m (shl2 (2 ^ 30)) b 0 (k - (2 ^ 30 + k - drop_bit 2 (q_mem_size q))) = None \<or>
      (\<exists>m'. memcpy_words m (shl2 (2 ^ 30)) b 0 (k - (2 ^ 30 + k - drop_bit 2 (q_mem_size q))) = Some m' \<and> length m' = length m)"
    by (auto simp: memcpy_words_def)
  have "memcpy_words m' 0 b i (2 ^ 30 + k - drop_bit 2 (q_mem_size q)) = None" if "length m' = length m" "length m \<le> 2 ^ 29" for m' i
    unfolding memcpy_words_def t using that k by simp
  moreover have "memcpy_words m (shl2 (2 ^ 30)) b 0 (k - (2 ^ 30 + k - drop_bit 2 (q_mem_size q))) = None" if "length b < length m"
    unfolding memcpy_words_def s using that by simp
  ultimately have "write_copy m (drop_bit 2 (q_mem_size q)) (2 ^ 30) b k = None"
    unfolding write_copy_def Let_def if_not_P[OF nl] using b(4) m(3) copied by auto
  then show ?thesis using b(1) k0 p30
    by (simp add: write_queue_def m(1) w hd k_def[symmetric] Let_def del: push_bit_of_1)
qed

section \<open>The queue as a FIFO of packets\<close>

text \<open>One write and one read as operations on packets: the writer's buffer holds exactly the packet, the reader's buffer is
  the driver's 4096-byte one, from which the reader takes the size in the first word.\<close>

definition send_packet :: "u32 list \<Rightarrow> msm_vidc_iface_q_info \<Rightarrow> (bool \<times> msm_vidc_iface_q_info) option" where
  "send_packet p q = map_option (\<lambda>(rc, _, q'). (rc = Inr (), q')) (write_queue q (Some p) (Some False))"

definition packet_in :: "u32 list \<Rightarrow> u32 list" where
  "packet_in buf = take (unat (hd buf) div 4) buf"

definition receive_packet :: "msm_vidc_iface_q_info \<Rightarrow> (u32 list option \<times> msm_vidc_iface_q_info) option" where
  "receive_packet q = map_option (\<lambda>(rc, buf, _, q'). (if rc = Inr () then map_option packet_in buf else None, q'))
     (read_queue q (Some (replicate 1024 0)) (Some 0))"

lemma packet_in_write:
  assumes "legal_packet p" and "length p \<le> length buf"
  shows "packet_in (write_run buf 0 p) = p"
proof -
  have "hd (write_run buf 0 p) = hd p" using assms(1) by (simp add: write_run_def legal_packet_def sized_def)
  then show ?thesis using assms by (simp add: packet_in_def write_run_def legal_packet_def sized_def)
qed

lemma vq_ok_legal: "vq_ok q \<Longrightarrow> queue_packets q = p # ps \<Longrightarrow> legal_packet p"
  by (simp add: vq_ok_def)

interpretation vidc_fifo: packet_fifo vq_ok queue_packets queue_words length legal_packet send_packet receive_packet
proof
  fix q p assume q: "vq_ok q" and p: "legal_packet p"
  then have b: "p \<noteq> []" "length p = unat (hd p) div 4" "0 < length p" "length p \<le> length p"
    "4 * length p \<le> unat VIDC_IFACEQ_VAR_HUGE_PKT_SIZE" by (simp_all add: legal_packet_def sized_def)
  obtain q' where "write_queue q (Some p) (Some False) = Some (
      if sum_list (map length (queue_packets q)) + length p < queue_words q then (Inr (), map_option (\<lambda>_. True) (Some False), q')
      else (Inl (if queue_words q < length p then ENODATA else ENOTEMPTY), Some False, q'))"
    "vq_ok q'" "queue_words q' = queue_words q"
    "queue_packets q' = queue_packets q @ (if sum_list (map length (queue_packets q)) + length p < queue_words q then [take (length p) p] else [])"
    using write_queue_spec[OF q b, of "Some False"] by blast
  then show "\<exists>q'. send_packet p q = Some (sum_list (map length (queue_packets q)) + length p < queue_words q, q') \<and> vq_ok q' \<and>
      queue_words q' = queue_words q \<and>
      queue_packets q' = queue_packets q @ (if sum_list (map length (queue_packets q)) + length p < queue_words q then [p] else [])"
    by (intro exI[of _ q']) (simp add: send_packet_def)
next
  fix q assume q: "vq_ok q"
  have len: "unat VIDC_IFACEQ_VAR_HUGE_PKT_SIZE \<le> 4 * length (replicate 1024 (0 :: u32))" by (simp add: VIDC_IFACEQ_VAR_HUGE_PKT_SIZE_def)
  obtain q' where q': "vq_ok q'" "queue_words q' = queue_words q" "queue_packets q' = tl (queue_packets q)"
    and ev: "read_queue q (Some (replicate 1024 0)) (Some 0) = Some (case queue_packets q of
        [] \<Rightarrow> (Inl ENODATA, Some (replicate 1024 0), Some 0, q')
      | p # _ \<Rightarrow> (Inr (), Some (write_run (replicate 1024 0) 0 p), Some (if map_option qhdr_tx_req (q_hdr q) = Some 1 then 1 else 0), q'))"
    using read_queue_spec[OF q len, of 0] by blast
  have "packet_in (write_run (replicate 1024 0) 0 p) = p" if "queue_packets q = p # ps" for p ps
    using vq_ok_legal[OF q that] by (intro packet_in_write) (simp_all add: legal_packet_def VIDC_IFACEQ_VAR_HUGE_PKT_SIZE_def)
  then show "\<exists>q'. receive_packet q = Some (case queue_packets q of [] \<Rightarrow> None | p # _ \<Rightarrow> Some p, q') \<and> vq_ok q' \<and>
      queue_words q' = queue_words q \<and> queue_packets q' = tl (queue_packets q)"
    using q' by (intro exI[of _ q']) (simp add: receive_packet_def ev split: list.split)
qed

section \<open>Properties\<close>

text \<open>C10: a write to a well-formed queue appends the packet, and asks for no more than the size in its first word, exactly
  when the packet leaves at least one word free; otherwise the packets stay as they are and the call returns ENOTEMPTY, or
  ENODATA for a packet that no queue of this size can hold.\<close>

theorem write_queue_appends:
  assumes "vq_ok q" and "b \<noteq> []" and "n = unat (hd b) div 4" and "0 < n" and "n \<le> length b"
    and "4 * n \<le> unat VIDC_IFACEQ_VAR_HUGE_PKT_SIZE"
  shows "\<exists>q'. write_queue q (Some b) rx = Some (
      if sum_list (map length (queue_packets q)) + n < queue_words q then (Inr (), map_option (\<lambda>_. True) rx, q')
      else (Inl (if queue_words q < n then ENODATA else ENOTEMPTY), rx, q')) \<and>
    vq_ok q' \<and> queue_words q' = queue_words q \<and> q_mem_size q' = q_mem_size q \<and> q_device_addr q' = q_device_addr q \<and>
    queue_packets q' = queue_packets q @ (if sum_list (map length (queue_packets q)) + n < queue_words q then [take n b] else [])"
  using assms by (rule write_queue_spec)

definition demo_hdr :: "u32 \<Rightarrow> u32 \<Rightarrow> vidc_queue_header" where
  "demo_hdr r w = (set_queue_hdr_defaults \<lparr>qhdr_status = 0, qhdr_start_addr = 0, qhdr_type = 0, qhdr_q_size = 0,
     qhdr_pkt_size = 0, qhdr_pkt_drop_cnt = 0, qhdr_rx_wm = 0, qhdr_tx_wm = 0, qhdr_rx_req = 0, qhdr_tx_req = 0,
     qhdr_rx_irq_status = 0, qhdr_tx_irq_status = 0, qhdr_read_idx = 0, qhdr_write_idx = 0\<rparr>)\<lparr>qhdr_read_idx := r, qhdr_write_idx := w\<rparr>"

text \<open>A queue of eight words holding a packet of three words that wraps around: words 6, 7 and 0.\<close>

definition demo_vidc :: msm_vidc_iface_q_info where
  "demo_vidc = \<lparr>q_hdr = Some (demo_hdr 6 1), q_words = Some [9, 0, 0, 0, 0, 0, 12, 7], q_mem_size = 32, q_device_addr = 0\<rparr>"

lemma demo_packets: "queue_packets demo_vidc = [[12, 7, 9]]"
  by (simp add: queue_packets_def demo_vidc_def demo_hdr_def queue_ring_def ring_def upt_conv_Cons)

lemma demo_vidc_shape: "queue_words demo_vidc = 8" "queue_mem demo_vidc" "q_hdr demo_vidc = Some (demo_hdr 6 1)"
  "qhdr_read_idx (demo_hdr r w) = r" "qhdr_write_idx (demo_hdr r w) = w" "qhdr_tx_req (demo_hdr r w) = 0"
  by (simp_all add: queue_words_def queue_mem_def demo_vidc_def demo_hdr_def set_queue_hdr_defaults_def)

lemma demo_vidc_ok: "vq_ok demo_vidc"
  by (simp add: vq_ok_def demo_vidc_shape demo_packets legal_packet_def sized_def VIDC_IFACEQ_VAR_HUGE_PKT_SIZE_def)

theorem write_queue_appends_witness:
  "\<exists>q'. write_queue demo_vidc (Some [16, 1, 2, 3, 0]) None = Some (Inr (), None, q') \<and> queue_packets q' = [[12, 7, 9], [16, 1, 2, 3]]"
  using write_queue_appends[OF demo_vidc_ok, of "[16, 1, 2, 3, 0]" 4 None]
  by (auto simp: demo_packets demo_vidc_shape VIDC_IFACEQ_VAR_HUGE_PKT_SIZE_def)

text \<open>a read of a well-formed queue into the driver's buffer takes out the oldest packet and puts it at the start of the
  buffer, leaving the memory of the queue as it is; on an empty queue it returns ENODATA.\<close>

theorem read_queue_pops:
  assumes "vq_ok q" and "unat VIDC_IFACEQ_VAR_HUGE_PKT_SIZE \<le> 4 * length buf"
  shows "\<exists>q'. vq_ok q' \<and> queue_words q' = queue_words q \<and> q_words q' = q_words q \<and> queue_packets q' = tl (queue_packets q) \<and>
    read_queue q (Some buf) (Some tx) = Some (case queue_packets q of
        [] \<Rightarrow> (Inl ENODATA, Some buf, Some 0, q')
      | p # _ \<Rightarrow> (Inr (), Some (write_run buf 0 p), Some (if map_option qhdr_tx_req (q_hdr q) = Some 1 then 1 else 0), q'))"
  using assms by (rule read_queue_spec)

theorem read_queue_pops_witness:
  "\<exists>q'. queue_packets q' = [] \<and>
     read_queue demo_vidc (Some (replicate 1024 0)) (Some 7) = Some (Inr (), Some ([12, 7, 9] @ replicate 1021 0), Some 0, q')"
  using read_queue_pops[OF demo_vidc_ok, of "replicate 1024 0" 7]
  by (auto simp: demo_packets demo_vidc_shape VIDC_IFACEQ_VAR_HUGE_PKT_SIZE_def write_run_def drop_replicate)

text \<open>C11: whatever the order in which one side writes packets and the other reads them, the packets delivered and those
  still in the queue are, in order, the packets that were there before and those that were accepted: none is lost,
  duplicated, reordered or altered.\<close>

theorem packets_in_order:
  assumes "vq_ok q" and "\<forall>p. Push p \<in> set xs \<longrightarrow> legal_packet p"
  shows "\<exists>acc del q'. run_queue send_packet receive_packet xs q = Some (acc, del, q') \<and> vq_ok q' \<and>
    queue_words q' = queue_words q \<and> del @ queue_packets q' = queue_packets q @ acc"
  using assms by (rule vidc_fifo.run_queue_fifo)

theorem packets_in_order_witness:
  "\<exists>acc del q'. run_queue send_packet receive_packet [Push [16, 1, 2, 3], Pop, Push [8, 5], Pop, Pop] demo_vidc = Some (acc, del, q') \<and>
     del @ queue_packets q' = [12, 7, 9] # acc"
  using packets_in_order[OF demo_vidc_ok, of "[Push [16, 1, 2, 3], Pop, Push [8, 5], Pop, Pop]"]
  by (auto simp: demo_packets legal_packet_def sized_def VIDC_IFACEQ_VAR_HUGE_PKT_SIZE_def)

text \<open>C12: whatever the firmware leaves in the header and in the memory of a queue of at least 4096 bytes, a read into a
  buffer of at least 4096 bytes returns, touches neither memory outside the queue and the buffer nor the words of the queue,
  and changes only \<open>rx_req\<close> and the read index.\<close>

theorem read_queue_bounded:
  assumes "queue_mem q" and "unat VIDC_IFACEQ_VAR_HUGE_PKT_SIZE \<le> 4 * queue_words q"
    and "unat VIDC_IFACEQ_VAR_HUGE_PKT_SIZE \<le> 4 * length buf"
  shows "\<exists>rc buf' tx' x i. length buf' = length buf \<and> read_queue q (Some buf) (Some tx) =
    Some (rc, Some buf', Some tx', q\<lparr>q_hdr := map_option (\<lambda>h. h\<lparr>qhdr_rx_req := x, qhdr_read_idx := i\<rparr>) (q_hdr q)\<rparr>)"
  using assms by (rule read_queue_any)

definition wild_queue :: msm_vidc_iface_q_info where
  "wild_queue = \<lparr>q_hdr = Some (demo_hdr (2 ^ 30) (2 ^ 30)), q_words = Some (replicate 1024 0xFFFFFFFF), q_mem_size = 4096, q_device_addr = 0\<rparr>"

lemma wild_queue_mem: "queue_mem wild_queue" "queue_words wild_queue = 1024"
  by (simp_all add: queue_mem_def queue_words_def wild_queue_def)

theorem read_queue_bounded_witness:
  "\<exists>rc buf' tx' q'. read_queue wild_queue (Some (replicate 1024 0)) (Some 0) = Some (rc, Some buf', Some tx', q')"
  using read_queue_bounded[OF wild_queue_mem(1), of "replicate 1024 0" 0] by (auto simp: wild_queue_mem VIDC_IFACEQ_VAR_HUGE_PKT_SIZE_def)

text \<open>a write of a packet no longer than its buffer returns and stays inside the queue for every header whose write index
  is at most the size of the queue in words, whatever read index the firmware reports.\<close>

theorem write_queue_bounded:
  assumes "queue_mem q" and "map_option (\<lambda>h. unat (qhdr_write_idx h) \<le> queue_words q) (q_hdr q) = Some True"
    and "b \<noteq> []" and "unat (hd b) div 4 \<le> length b"
  shows "\<exists>rc rx' q'. write_queue q (Some b) rx = Some (rc, rx', q') \<and> queue_mem q' \<and> queue_words q' = queue_words q"
  using assms by (rule write_queue_any)

theorem write_queue_bounded_witness:
  "\<exists>rc rx' q'. write_queue (demo_vidc\<lparr>q_hdr := Some (demo_hdr 0xFFFFFFFF 8)\<rparr>) (Some [32, 1, 2, 3, 4, 5, 6, 7]) None = Some (rc, rx', q') \<and>
     queue_mem q' \<and> queue_words q' = 8"
  using write_queue_bounded[of "demo_vidc\<lparr>q_hdr := Some (demo_hdr 0xFFFFFFFF 8)\<rparr>" "[32, 1, 2, 3, 4, 5, 6, 7]" None]
  by (auto simp: queue_mem_def queue_words_def demo_vidc_def demo_hdr_def)

text \<open>C39: the index check of a write is made on \<open>write_idx << 2\<close> in 32 bits. When both indices of the shared header are
  $2^{30}$, the product wraps to 0 and the check passes for any packet smaller than the queue. The first copy then takes as many words as the queue has
  from the packet, and leaves it if its buffer is shorter; if the buffer is long enough, the second copy
  leaves the queue (of at most $2^{29}$ words).\<close>

theorem write_queue_overrun:
  assumes "queue_mem q" and "q_hdr q = Some h" and "qhdr_write_idx h = 2 ^ 30" and "qhdr_read_idx h = 2 ^ 30"
    and "b \<noteq> []" and "0 < unat (hd b) div 4" and "unat (hd b) div 4 < queue_words q"
    and "length b < queue_words q \<or> queue_words q \<le> 2 ^ 29"
  shows "write_queue q (Some b) rx = None"
  using assms by (rule write_queue_wild)

theorem write_queue_overrun_witness: "write_queue wild_queue (Some [8, 5]) None = None"
  using write_queue_overrun[OF wild_queue_mem(1), of "demo_hdr (2 ^ 30) (2 ^ 30)" "[8, 5]" None]
  by (simp add: wild_queue_mem(2)) (simp add: wild_queue_def demo_hdr_def)

end
