(* ===== verification/Vidc_Packet.thy ===== *)
theory Vidc_Packet
  imports Vidc_Queue
begin

text \<open>
  The messages in the queues (\<^verbatim>\<open>video-driver/driver/vidc/src/hfi_packet.c\<close> and
  \<^verbatim>\<open>venus_hfi_response.c\<close>): a message is a 32-byte header and a run of packets, each with a
  32-byte header of its own and a payload. The driver builds messages with
  \<open>hfi_create_header\<close> and \<open>hfi_create_packet\<close>, and checks the messages of the firmware with
  \<open>validate_hdr_packet\<close> before \<open>handle_system_response\<close> dispatches their packets.

  Buffers are byte lists, and 32-bit fields are read and written little-endian at any byte
  offset, because nothing in a message of the firmware makes the offsets multiples of four.
  The handlers a dispatch calls are a parameter of it.
\<close>

section \<open>Bytes and 32-bit words\<close>

definition w32 :: "u8 \<Rightarrow> u8 \<Rightarrow> u8 \<Rightarrow> u8 \<Rightarrow> u32" where
  "w32 a b c d = ucast a OR push_bit 8 (ucast b) OR push_bit 16 (ucast c) OR push_bit 24 (ucast d)"

definition b32 :: "u32 \<Rightarrow> u8 list" where
  "b32 x = [ucast x, ucast (drop_bit 8 x), ucast (drop_bit 16 x), ucast (drop_bit 24 x)]"

lemma length_b32 [simp]: "length (b32 x) = 4"
  by (simp add: b32_def)

lemma w32_b32: "w32 (ucast x) (ucast (drop_bit 8 x)) (ucast (drop_bit 16 x)) (ucast (drop_bit 24 x)) = x"
proof (unfold w32_def, rule bit_word_eqI)
  fix n assume "n < LENGTH(32)"
  then consider "n < 8" | "8 \<le> n" "n < 16" | "16 \<le> n" "n < 24" | "24 \<le> n" "n < 32" by force
  then show "bit (ucast (ucast x :: u8) OR push_bit 8 (ucast (ucast (drop_bit 8 x) :: u8)) OR
      push_bit 16 (ucast (ucast (drop_bit 16 x) :: u8)) OR push_bit 24 (ucast (ucast (drop_bit 24 x) :: u8)) :: u32) n = bit x n"
    by cases (auto simp: bit_simps)
qed

definition rd32 :: "u8 list \<Rightarrow> nat \<Rightarrow> u32 option" where
  "rd32 b i = (if i + 4 \<le> length b then Some (w32 (b ! i) (b ! (i + 1)) (b ! (i + 2)) (b ! (i + 3))) else None)"

definition words_bytes :: "u32 list \<Rightarrow> u8 list" where
  "words_bytes ws = concat (map b32 ws)"

definition wr32s :: "u8 list \<Rightarrow> nat \<Rightarrow> u32 list \<Rightarrow> u8 list option" where
  "wr32s b i ws = (if i + 4 * length ws \<le> length b then Some (write_run b i (words_bytes ws)) else None)"

definition memset0 :: "u8 list \<Rightarrow> nat \<Rightarrow> nat \<Rightarrow> u8 list option" where
  "memset0 b i n = (if i + n \<le> length b then Some (write_run b i (replicate n 0)) else None)"

definition memcpy_to :: "u8 list \<Rightarrow> nat \<Rightarrow> u8 list option \<Rightarrow> nat \<Rightarrow> u8 list option" where
  "memcpy_to b i src n = (case src of None \<Rightarrow> None
     | Some s \<Rightarrow> if i + n \<le> length b \<and> n \<le> length s then Some (write_run b i (take n s)) else None)"

lemma length_words_bytes [simp]: "length (words_bytes ws) = 4 * length ws"
  by (induction ws) (simp_all add: words_bytes_def)

lemma words_bytes_Cons: "words_bytes (w # ws) = b32 w @ words_bytes ws"
  by (simp add: words_bytes_def)

lemma words_bytes_append: "words_bytes (vs @ ws) = words_bytes vs @ words_bytes ws"
  by (simp add: words_bytes_def)

lemma rd32_at: "rd32 (xs @ b32 w @ ys) (length xs) = Some w"
  by (simp add: rd32_def nth_append b32_def w32_b32)

lemma rd32_bytes:
  assumes "k < length ws" and "n = length xs + 4 * k"
  shows "rd32 (xs @ words_bytes ws @ ys) n = Some (ws ! k)"
proof -
  have "words_bytes ws = words_bytes (take k ws) @ b32 (ws ! k) @ words_bytes (drop (Suc k) ws)"
    using arg_cong[OF id_take_nth_drop[OF assms(1)], of words_bytes] by (simp only: words_bytes_append words_bytes_Cons)
  moreover have "length (xs @ words_bytes (take k ws)) = n" using assms by simp
  ultimately show ?thesis
    using rd32_at[of "xs @ words_bytes (take k ws)" "ws ! k" "words_bytes (drop (Suc k) ws) @ ys"] by simp
qed

lemma write_run_at: "write_run (xs @ old @ ys) (length xs) new = xs @ new @ ys" if "length new = length old"
  using that by (simp add: write_run_def)

section \<open>Building messages\<close>

definition HFI_HEADER_SIZE :: nat where "HFI_HEADER_SIZE = 32"
definition HFI_PACKET_SIZE :: nat where "HFI_PACKET_SIZE = 32"

definition hfi_create_header :: "u8 list option \<Rightarrow> u32 \<Rightarrow> u32 \<Rightarrow> u32 \<Rightarrow> ((errno + unit) \<times> u8 list option) option" where
  "hfi_create_header packet packet_size session_id header_id =
     (case packet of None \<Rightarrow> Some (Inl EINVAL, packet)
      | Some b \<Rightarrow>
          if unat packet_size < HFI_HEADER_SIZE then Some (Inl EINVAL, packet)
          else do {
            b \<leftarrow> memset0 b 0 HFI_HEADER_SIZE;
            b \<leftarrow> wr32s b 0 [of_nat HFI_HEADER_SIZE, session_id, header_id];
            b \<leftarrow> wr32s b 28 [0];
            Some (Inr (), Some b) })"

definition payload_copy :: "u8 list \<Rightarrow> nat \<Rightarrow> u8 list option \<Rightarrow> u32 \<Rightarrow> u8 list option" where
  "payload_copy b pkt payload payload_size =
     (if payload_size \<noteq> 0 then memcpy_to b (pkt + HFI_PACKET_SIZE) payload (unat payload_size) else Some b)"

definition hfi_create_packet :: "u8 list option \<Rightarrow> u32 \<Rightarrow> u32 \<Rightarrow> u32 \<Rightarrow> u32 \<Rightarrow> u32 \<Rightarrow> u32 \<Rightarrow> u8 list option \<Rightarrow> u32 \<Rightarrow>
    ((errno + unit) \<times> u8 list option) option" where
  "hfi_create_packet packet packet_size pkt_type pkt_flags payload_type port packet_id payload payload_size =
     (case packet of None \<Rightarrow> Some (Inl EINVAL, packet)
      | Some b \<Rightarrow> do {
          hdr_size \<leftarrow> rd32 b 0;
          if unat hdr_size < HFI_HEADER_SIZE then Some (Inl EINVAL, packet)
          else
            (let pkt = unat hdr_size; pkt_size = of_nat HFI_PACKET_SIZE + payload_size in
             if packet_size < hdr_size + pkt_size then Some (Inl EINVAL, packet)
             else do {
               b \<leftarrow> memset0 b pkt (unat pkt_size);
               b \<leftarrow> wr32s b pkt [pkt_size, pkt_type, pkt_flags, payload_type, port, packet_id];
               b \<leftarrow> payload_copy b pkt payload payload_size;
               num_packets \<leftarrow> rd32 b 28;
               b \<leftarrow> wr32s b 28 [num_packets + 1];
               hdr_size \<leftarrow> rd32 b 0;
               size \<leftarrow> rd32 b pkt;
               b \<leftarrow> wr32s b 0 [hdr_size + size];
               Some (Inr (), Some b) }) })"

text \<open>The specification: a message is a session, a number and a list of packets.\<close>

record hfi_packet =
  pk_type :: u32
  pk_flags :: u32
  pk_payload_info :: u32
  pk_port :: u32
  pk_packet_id :: u32
  pk_payload :: "u8 list"

definition packet_bytes :: "hfi_packet \<Rightarrow> u8 list" where
  "packet_bytes p = words_bytes [of_nat (HFI_PACKET_SIZE + length (pk_payload p)), pk_type p, pk_flags p, pk_payload_info p,
     pk_port p, pk_packet_id p, 0, 0] @ pk_payload p"

definition message_size :: "hfi_packet list \<Rightarrow> nat" where
  "message_size ps = HFI_HEADER_SIZE + sum_list (map (\<lambda>p. HFI_PACKET_SIZE + length (pk_payload p)) ps)"

definition message_bytes :: "u32 \<Rightarrow> u32 \<Rightarrow> hfi_packet list \<Rightarrow> u8 list" where
  "message_bytes session_id header_id ps =
     words_bytes [of_nat (message_size ps), session_id, header_id, 0, 0, 0, 0, of_nat (length ps)] @ concat (map packet_bytes ps)"

lemma length_packet_bytes: "length (packet_bytes p) = HFI_PACKET_SIZE + length (pk_payload p)"
  by (simp add: packet_bytes_def HFI_PACKET_SIZE_def)

lemma length_message_bytes: "length (message_bytes s h ps) = message_size ps"
  by (simp add: message_bytes_def message_size_def HFI_HEADER_SIZE_def length_concat comp_def length_packet_bytes)

lemma message_size_snoc: "message_size (ps @ [p]) = message_size ps + (HFI_PACKET_SIZE + length (pk_payload p))"
  by (simp add: message_size_def)

lemma message_size_ge: "32 \<le> message_size ps"
  by (simp add: message_size_def HFI_HEADER_SIZE_def)

lemma words_bytes_upd:
  assumes "k < length ws" and "n = 4 * k"
  shows "wr32s (words_bytes ws @ ys) n [w] = Some (words_bytes (ws[k := w]) @ ys)"
proof -
  have ws: "ws = take k ws @ ws ! k # drop (Suc k) ws" using assms(1) by (rule id_take_nth_drop)
  have b: "words_bytes ws @ ys = words_bytes (take k ws) @ b32 (ws ! k) @ (words_bytes (drop (Suc k) ws) @ ys)"
    using arg_cong[OF ws, of words_bytes] by (simp only: words_bytes_append words_bytes_Cons append_assoc)
  have n: "n = length (words_bytes (take k ws))" using assms by simp
  have "write_run (words_bytes ws @ ys) n (b32 w) = words_bytes (take k ws) @ b32 w @ (words_bytes (drop (Suc k) ws) @ ys)"
    unfolding b n by (rule write_run_at) simp
  also have "\<dots> = words_bytes (ws[k := w]) @ ys"
    using assms(1) by (simp add: upd_conv_take_nth_drop words_bytes_append words_bytes_Cons)
  finally have "write_run (words_bytes ws @ ys) n (words_bytes [w]) = words_bytes (ws[k := w]) @ ys"
    by (simp add: words_bytes_Cons words_bytes_def[of "[]"])
  then show ?thesis using assms by (simp add: wr32s_def)
qed

lemma create_header_spec:
  assumes "HFI_HEADER_SIZE \<le> length b" and "HFI_HEADER_SIZE \<le> unat packet_size"
  shows "hfi_create_header (Some b) packet_size s h = Some (Inr (), Some (message_bytes s h [] @ drop HFI_HEADER_SIZE b))"
proof -
  have z: "write_run b 0 (replicate 32 0) = words_bytes [0, 0, 0, 0, 0, 0, 0, 0] @ drop 32 b"
    by (simp add: write_run_def words_bytes_def b32_def eval_nat_numeral)
  have "wr32s (words_bytes [0, 0, 0, 0, 0, 0, 0, 0] @ drop 32 b) 0 [of_nat HFI_HEADER_SIZE, s, h] =
      Some (words_bytes [of_nat HFI_HEADER_SIZE, s, h, 0, 0, 0, 0, 0] @ drop 32 b)"
    by (simp add: wr32s_def write_run_def words_bytes_def b32_def)
  moreover have "wr32s (words_bytes [of_nat HFI_HEADER_SIZE, s, h, 0, 0, 0, 0, 0] @ drop 32 b) 28 [0] =
      Some (words_bytes [of_nat HFI_HEADER_SIZE, s, h, 0, 0, 0, 0, 0] @ drop 32 b)"
    using words_bytes_upd[of 7 "[of_nat HFI_HEADER_SIZE, s, h, 0, 0, 0, 0, 0]" 28 "drop 32 b" 0] by simp
  ultimately show ?thesis using assms
    by (simp add: hfi_create_header_def memset0_def HFI_HEADER_SIZE_def z message_bytes_def message_size_def)
qed

lemma message_fields:
  "rd32 (message_bytes s h ps @ rest) 0 = Some (of_nat (message_size ps))"
  "rd32 (message_bytes s h ps @ rest) 4 = Some s"
  "rd32 (message_bytes s h ps @ rest) 28 = Some (of_nat (length ps))"
  using rd32_bytes[of 0 "[of_nat (message_size ps), s, h, 0, 0, 0, 0, of_nat (length ps)]" 0 "[]"]
    rd32_bytes[of 1 "[of_nat (message_size ps), s, h, 0, 0, 0, 0, of_nat (length ps)]" 4 "[]"]
    rd32_bytes[of 7 "[of_nat (message_size ps), s, h, 0, 0, 0, 0, of_nat (length ps)]" 28 "[]"]
  by (simp_all add: message_bytes_def)

lemma packet_fields:
  assumes "k < 6"
  shows "rd32 (xs @ packet_bytes p @ ys) (length xs + 4 * k) =
    Some ([of_nat (HFI_PACKET_SIZE + length (pk_payload p)), pk_type p, pk_flags p, pk_payload_info p, pk_port p, pk_packet_id p] ! k)"
proof -
  have "rd32 (xs @ packet_bytes p @ ys) (length xs + 4 * k) = Some ([of_nat (HFI_PACKET_SIZE + length (pk_payload p)), pk_type p, pk_flags p,
      pk_payload_info p, pk_port p, pk_packet_id p, 0, 0] ! k)"
    unfolding packet_bytes_def append_assoc using assms by (intro rd32_bytes) simp_all
  also have "[of_nat (HFI_PACKET_SIZE + length (pk_payload p)), pk_type p, pk_flags p, pk_payload_info p, pk_port p, pk_packet_id p, 0, 0] ! k =
      [of_nat (HFI_PACKET_SIZE + length (pk_payload p)), pk_type p, pk_flags p, pk_payload_info p, pk_port p, pk_packet_id p] ! k"
  proof -
    from assms consider "k = 0" | "k = 1" | "k = 2" | "k = 3" | "k = 4" | "k = 5" by linarith
    then show ?thesis by cases simp_all
  qed
  finally show ?thesis .
qed

text \<open>The packet area of a message is cleared and filled.\<close>

lemma packet_written:
  assumes "length rest = 32 + length pl + length tail" and "tail = drop (32 + length pl) rest"
  shows "memset0 (M @ rest) (length M) (32 + length pl) = Some (M @ words_bytes [0, 0, 0, 0, 0, 0, 0, 0] @ replicate (length pl) 0 @ tail)"
    and "wr32s (M @ words_bytes [0, 0, 0, 0, 0, 0, 0, 0] @ ys) (length M) [a, b, c, d, e, f] =
      Some (M @ words_bytes [a, b, c, d, e, f, 0, 0] @ ys)"
    and "memcpy_to (M @ words_bytes [a, b, c, d, e, f, 0, 0] @ replicate (length pl) 0 @ tail) (length M + 32) (Some (pl @ xtra)) (length pl) =
      Some (M @ words_bytes [a, b, c, d, e, f, 0, 0] @ pl @ tail)"
proof -
  have z: "words_bytes [0, 0, 0, 0, 0, 0, 0, 0] = replicate 32 0" by (simp add: words_bytes_def b32_def eval_nat_numeral)
  have "write_run (M @ take (32 + length pl) rest @ tail) (length M) (replicate (32 + length pl) 0) = M @ replicate (32 + length pl) 0 @ tail"
    using assms by (intro write_run_at) simp
  moreover have "take (32 + length pl) rest @ tail = rest" using assms(2) by simp
  ultimately show "memset0 (M @ rest) (length M) (32 + length pl) = Some (M @ words_bytes [0, 0, 0, 0, 0, 0, 0, 0] @ replicate (length pl) 0 @ tail)"
    using assms(1) by (simp add: memset0_def z replicate_add)
  have "write_run (M @ words_bytes [0, 0, 0, 0, 0, 0] @ (words_bytes [0, 0] @ ys)) (length M) (words_bytes [a, b, c, d, e, f]) =
      M @ words_bytes [a, b, c, d, e, f] @ (words_bytes [0, 0] @ ys)" by (rule write_run_at) simp
  then show "wr32s (M @ words_bytes [0, 0, 0, 0, 0, 0, 0, 0] @ ys) (length M) [a, b, c, d, e, f] =
      Some (M @ words_bytes [a, b, c, d, e, f, 0, 0] @ ys)"
    by (simp add: wr32s_def words_bytes_Cons words_bytes_def[of "[]"])
  have "write_run ((M @ words_bytes [a, b, c, d, e, f, 0, 0]) @ replicate (length pl) 0 @ tail)
      (length (M @ words_bytes [a, b, c, d, e, f, 0, 0])) pl = (M @ words_bytes [a, b, c, d, e, f, 0, 0]) @ pl @ tail"
    by (rule write_run_at) simp
  then show "memcpy_to (M @ words_bytes [a, b, c, d, e, f, 0, 0] @ replicate (length pl) 0 @ tail) (length M + 32) (Some (pl @ xtra)) (length pl) =
      Some (M @ words_bytes [a, b, c, d, e, f, 0, 0] @ pl @ tail)"
    by (simp add: memcpy_to_def)
qed

lemma create_packet_spec:
  fixes s h ps p rest
  defines "M \<equiv> message_bytes s h ps"
  assumes pl: "case payload of None \<Rightarrow> pl = [] | Some src \<Rightarrow> \<exists>xtra. src = pl @ xtra"
    and n: "unat payload_size = length pl" and small: "message_size ps + (HFI_PACKET_SIZE + length pl) < 2 ^ 32"
    and size: "unat packet_size \<le> message_size ps + length rest"
  shows "hfi_create_packet (Some (M @ rest)) packet_size t f i po pid payload payload_size = Some (
    if message_size ps + (HFI_PACKET_SIZE + length pl) \<le> unat packet_size
    then (Inr (), Some (message_bytes s h (ps @ [\<lparr>pk_type = t, pk_flags = f, pk_payload_info = i, pk_port = po, pk_packet_id = pid, pk_payload = pl\<rparr>]) @
      drop (HFI_PACKET_SIZE + length pl) rest))
    else (Inl EINVAL, Some (M @ rest)))"
proof -
  let ?N = "message_size ps" and ?p = "\<lparr>pk_type = t, pk_flags = f, pk_payload_info = i, pk_port = po, pk_packet_id = pid, pk_payload = pl\<rparr>"
  have lM: "length M = ?N" by (simp add: M_def length_message_bytes)
  have uN: "unat (of_nat ?N :: u32) = ?N" using small by (intro unat_of_nat_u32) simp
  have us: "unat (32 + payload_size) = 32 + length pl" using small n unat_add_small[of 32 payload_size] by (simp add: HFI_PACKET_SIZE_def)
  have sum: "unat (of_nat ?N + (32 + payload_size)) = ?N + (32 + length pl)"
    using small us uN by (subst unat_add_small) (simp_all add: HFI_PACKET_SIZE_def)
  have fits: "packet_size < of_nat ?N + (32 + payload_size) \<longleftrightarrow> \<not> ?N + (32 + length pl) \<le> unat packet_size"
    by (simp add: word_less_nat_alt sum not_le)
  have pz: "(32 + payload_size :: u32) = of_nat (HFI_PACKET_SIZE + length pl)"
    using us by (simp add: HFI_PACKET_SIZE_def n[symmetric])
  show ?thesis
  proof (cases "?N + (32 + length pl) \<le> unat packet_size")
    case False
    then show ?thesis using message_size_ge[of ps]
      by (simp add: hfi_create_packet_def M_def message_fields uN HFI_HEADER_SIZE_def HFI_PACKET_SIZE_def fits Let_def)
  next
    case True
    define tail where "tail = drop (32 + length pl) rest"
    have rest: "length rest = 32 + length pl + length tail" using True size by (simp add: tail_def)
    note w = packet_written[OF rest tail_def]
    define P where "P = words_bytes [32 + payload_size, t, f, i, po, pid, 0, 0]"
    have copy: "payload_copy (M @ P @ replicate (length pl) 0 @ tail) ?N payload payload_size = Some (M @ P @ pl @ tail)"
    proof (cases "payload_size = 0")
      case True
      then show ?thesis using n by (simp add: payload_copy_def)
    next
      case False
      then have "length pl \<noteq> 0" using n by (metis unat_eq_zero)
      then obtain xtra where "payload = Some (pl @ xtra)" using pl by (auto split: option.splits)
      then show ?thesis using False w(3)[of M "32 + payload_size" t f i po pid xtra] by (simp add: payload_copy_def HFI_PACKET_SIZE_def n P_def lM)
    qed
    have P: "P @ pl = packet_bytes ?p" by (simp add: P_def packet_bytes_def pz)
    let ?b = "concat (map packet_bytes ps) @ packet_bytes ?p @ tail"
    let ?H = "\<lambda>z c. words_bytes [z, s, h, 0, 0, 0, 0, c]"
    have M: "M @ P @ pl @ tail = ?H (of_nat ?N) (of_nat (length ps)) @ ?b" using P by (simp add: M_def message_bytes_def)
    have up1: "wr32s (?H (of_nat ?N) (of_nat (length ps)) @ ?b) 28 [of_nat (length ps) + 1] = Some (?H (of_nat ?N) (of_nat (length ps) + 1) @ ?b)"
      using words_bytes_upd[of 7 "[of_nat ?N, s, h, 0, 0, 0, 0, of_nat (length ps)]" 28 ?b] by simp
    have up2: "wr32s (?H (of_nat ?N) (of_nat (length ps) + 1) @ ?b) 0 [of_nat ?N + (32 + payload_size)] =
        Some (?H (of_nat ?N + (32 + payload_size)) (of_nat (length ps) + 1) @ ?b)"
      using words_bytes_upd[of 0 "[of_nat ?N, s, h, 0, 0, 0, 0, of_nat (length ps) + 1]" 0 ?b] by simp
    have r28: "rd32 (?H (of_nat ?N) (of_nat (length ps)) @ ?b) 28 = Some (of_nat (length ps))"
      using rd32_bytes[of 7 "[of_nat ?N, s, h, 0, 0, 0, 0, of_nat (length ps)]" 28 "[]" ?b] by simp
    have r0: "rd32 (?H (of_nat ?N) (of_nat (length ps) + 1) @ ?b) 0 = Some (of_nat ?N)"
      using rd32_bytes[of 0 "[of_nat ?N, s, h, 0, 0, 0, 0, of_nat (length ps) + 1]" 0 "[]" ?b] by simp
    have rN: "rd32 (?H (of_nat ?N) (of_nat (length ps) + 1) @ ?b) ?N = Some (32 + payload_size)"
    proof -
      have "length (?H (of_nat ?N) (of_nat (length ps) + 1) @ concat (map packet_bytes ps)) = ?N"
        using lM by (simp add: M_def message_bytes_def)
      then show ?thesis
        using packet_fields[of 0 "?H (of_nat ?N) (of_nat (length ps) + 1) @ concat (map packet_bytes ps)" ?p tail] by (simp add: pz)
    qed
    have out: "?H (of_nat ?N + (32 + payload_size)) (of_nat (length ps) + 1) @ ?b = message_bytes s h (ps @ [?p]) @ tail"
      unfolding pz by (simp add: message_bytes_def message_size_snoc add.commute)
    have ge: "\<not> ?N < 32" using message_size_ge[of ps] by simp
    have first: "rd32 (M @ rest) 0 = Some (of_nat ?N)" by (simp add: M_def message_fields)
    have "hfi_create_packet (Some (M @ rest)) packet_size t f i po pid payload payload_size = Some (Inr (), Some (message_bytes s h (ps @ [?p]) @ tail))"
      using True fits ge w(1)[of M] w(2)[of M "replicate (length pl) 0 @ tail" "32 + payload_size" t f i po pid] copy
      by (simp add: hfi_create_packet_def first uN us n HFI_HEADER_SIZE_def HFI_PACKET_SIZE_def Let_def lM P_def[symmetric] M r28 up1 r0 rN up2 out)
    then show ?thesis using True by (simp add: tail_def HFI_PACKET_SIZE_def)
  qed
qed

section \<open>The messages of the driver\<close>

definition HFI_HOST_FLAGS_NONE :: u32 where "HFI_HOST_FLAGS_NONE = 0"
definition HFI_HOST_FLAGS_INTR_REQUIRED :: u32 where "HFI_HOST_FLAGS_INTR_REQUIRED = 1"
definition HFI_HOST_FLAGS_RESPONSE_REQUIRED :: u32 where "HFI_HOST_FLAGS_RESPONSE_REQUIRED = 2"
definition HFI_HOST_FLAGS_GET_PROPERTY :: u32 where "HFI_HOST_FLAGS_GET_PROPERTY = 8"
definition HFI_PAYLOAD_NONE :: u32 where "HFI_PAYLOAD_NONE = 0"
definition HFI_PAYLOAD_U32 :: u32 where "HFI_PAYLOAD_U32 = 1"
definition HFI_PAYLOAD_U32_ENUM :: u32 where "HFI_PAYLOAD_U32_ENUM = 9"
definition HFI_PORT_NONE :: u32 where "HFI_PORT_NONE = 0"
definition HFI_CMD_POWER_COLLAPSE :: u32 where "HFI_CMD_POWER_COLLAPSE = 0x01000002"
definition HFI_PROP_IMAGE_VERSION :: u32 where "HFI_PROP_IMAGE_VERSION = 0x03000001"
definition HFI_PROP_INTRA_FRAME_POWER_COLLAPSE :: u32 where "HFI_PROP_INTRA_FRAME_POWER_COLLAPSE = 0x03000002"
definition HFI_PROP_DEBUG_CONFIG :: u32 where "HFI_PROP_DEBUG_CONFIG = 0x0300000a"
definition HFI_PROP_DEBUG_LOG_LEVEL :: u32 where "HFI_PROP_DEBUG_LOG_LEVEL = 0x0300000b"

text \<open>The counters of the core, and what \<open>hfi_packet_sys_init\<close> reads of the platform and the core.\<close>

record hfi_ids =
  header_id :: u32
  packet_id :: u32
  sys_init_id :: u32


text \<open>A packet as the builders give it to \<open>hfi_create_packet\<close>: type, flags, payload type, port and payload (no payload
  is the pair NULL, 0). Each takes the next packet id, and the first failure ends the message.\<close>

type_synonym packet_spec = "u32 \<times> u32 \<times> u32 \<times> u32 \<times> u8 list"

fun add_packets :: "packet_spec list \<Rightarrow> u8 list option \<Rightarrow> u32 \<Rightarrow> hfi_ids \<Rightarrow> ((errno + unit) \<times> u8 list option \<times> hfi_ids) option" where
  "add_packets [] pkt pkt_size ids = Some (Inr (), pkt, ids)"
| "add_packets ((t, f, i, po, pl) # xs) pkt pkt_size ids = do {
     (rc, pkt) \<leftarrow> hfi_create_packet pkt pkt_size t f i po (packet_id ids) (if pl = [] then None else Some pl) (of_nat (length pl));
     (let ids = ids\<lparr>packet_id := packet_id ids + 1\<rparr> in
      if rc = Inr () then add_packets xs pkt pkt_size ids else Some (rc, pkt, ids)) }"

definition begin_message :: "u32 \<Rightarrow> u8 list option \<Rightarrow> u32 \<Rightarrow> hfi_ids \<Rightarrow> ((errno + unit) \<times> u8 list option \<times> hfi_ids) option" where
  "begin_message session_id pkt pkt_size ids =
     map_option (\<lambda>(rc, pkt). (rc, pkt, ids\<lparr>header_id := header_id ids + 1\<rparr>)) (hfi_create_header pkt pkt_size session_id (header_id ids))"

definition build_message :: "u32 \<Rightarrow> packet_spec list \<Rightarrow> u8 list option \<Rightarrow> u32 \<Rightarrow> hfi_ids \<Rightarrow> ((errno + unit) \<times> u8 list option \<times> hfi_ids) option" where
  "build_message session_id xs pkt pkt_size ids = do {
     (rc, pkt, ids) \<leftarrow> begin_message session_id pkt pkt_size ids;
     if rc = Inr () then add_packets xs pkt pkt_size ids else Some (rc, pkt, ids) }"




definition hfi_packet_image_version :: "u8 list option \<Rightarrow> u32 \<Rightarrow> hfi_ids \<Rightarrow> ((errno + unit) \<times> u8 list option \<times> hfi_ids) option" where
  "hfi_packet_image_version pkt pkt_size ids = build_message 0
     [(HFI_PROP_IMAGE_VERSION, HFI_HOST_FLAGS_RESPONSE_REQUIRED OR HFI_HOST_FLAGS_INTR_REQUIRED OR HFI_HOST_FLAGS_GET_PROPERTY,
       HFI_PAYLOAD_NONE, HFI_PORT_NONE, [])] pkt pkt_size ids"

definition hfi_packet_sys_pc_prep :: "u8 list option \<Rightarrow> u32 \<Rightarrow> hfi_ids \<Rightarrow> ((errno + unit) \<times> u8 list option \<times> hfi_ids) option" where
  "hfi_packet_sys_pc_prep pkt pkt_size ids = build_message 0
     [(HFI_CMD_POWER_COLLAPSE, HFI_HOST_FLAGS_NONE, HFI_PAYLOAD_NONE, HFI_PORT_NONE, [])] pkt pkt_size ids"

definition hfi_packet_sys_debug_config :: "u32 \<Rightarrow> u8 list option \<Rightarrow> u32 \<Rightarrow> hfi_ids \<Rightarrow> ((errno + unit) \<times> u8 list option \<times> hfi_ids) option" where
  "hfi_packet_sys_debug_config debug_config pkt pkt_size ids = build_message 0
     [(HFI_PROP_DEBUG_CONFIG, HFI_HOST_FLAGS_NONE, HFI_PAYLOAD_U32_ENUM, HFI_PORT_NONE, b32 0),
      (HFI_PROP_DEBUG_LOG_LEVEL, HFI_HOST_FLAGS_NONE, HFI_PAYLOAD_U32_ENUM, HFI_PORT_NONE, b32 debug_config)] pkt pkt_size ids"

definition hfi_packet_sys_intraframe_powercollapse :: "u32 \<Rightarrow> u8 list option \<Rightarrow> u32 \<Rightarrow> hfi_ids \<Rightarrow> ((errno + unit) \<times> u8 list option \<times> hfi_ids) option" where
  "hfi_packet_sys_intraframe_powercollapse enable pkt pkt_size ids = build_message 0
     [(HFI_PROP_INTRA_FRAME_POWER_COLLAPSE, HFI_HOST_FLAGS_NONE, HFI_PAYLOAD_U32, HFI_PORT_NONE, b32 enable)] pkt pkt_size ids"

definition hfi_packet_session_command :: "u32 \<Rightarrow> u32 \<Rightarrow> u32 \<Rightarrow> u32 \<Rightarrow> u32 \<Rightarrow> u8 list option \<Rightarrow> u32 \<Rightarrow>
    u8 list option \<Rightarrow> u32 \<Rightarrow> hfi_ids \<Rightarrow> ((errno + unit) \<times> u8 list option \<times> hfi_ids) option" where
  "hfi_packet_session_command pkt_type flags port session_id payload_type payload payload_size pkt pkt_size ids = do {
     (rc, pkt, ids) \<leftarrow> begin_message session_id pkt pkt_size ids;
     if rc = Inr ()
     then map_option (\<lambda>(rc, pkt). (rc, pkt, ids\<lparr>packet_id := packet_id ids + 1\<rparr>))
       (hfi_create_packet pkt pkt_size pkt_type flags payload_type port (packet_id ids) payload payload_size)
     else Some (rc, pkt, ids) }"

text \<open>The packets a list of specifications stands for.\<close>

fun numbered :: "u32 \<Rightarrow> packet_spec list \<Rightarrow> hfi_packet list" where
  "numbered n [] = []"
| "numbered n ((t, f, i, po, pl) # xs) =
     \<lparr>pk_type = t, pk_flags = f, pk_payload_info = i, pk_port = po, pk_packet_id = n, pk_payload = pl\<rparr> # numbered (n + 1) xs"

fun specs_size :: "packet_spec list \<Rightarrow> nat" where
  "specs_size [] = 0"
| "specs_size ((t, f, i, po, pl) # xs) = HFI_PACKET_SIZE + length pl + specs_size xs"


lemma add_packets_spec:
  assumes "message_size ps + specs_size xs \<le> unat pkt_size" and "unat pkt_size \<le> message_size ps + length rest"
  shows "add_packets xs (Some (message_bytes s h ps @ rest)) pkt_size ids = Some (Inr (),
    Some (message_bytes s h (ps @ numbered (packet_id ids) xs) @ drop (specs_size xs) rest),
    ids\<lparr>packet_id := packet_id ids + of_nat (length xs)\<rparr>)"
  using assms
proof (induction xs arbitrary: ps rest ids)
  case Nil
  then show ?case by simp
next
  case (Cons x xs)
  obtain t f i po pl where x: "x = (t, f, i, po, pl)" by (rule prod_cases5)
  let ?p = "\<lparr>pk_type = t, pk_flags = f, pk_payload_info = i, pk_port = po, pk_packet_id = packet_id ids, pk_payload = pl\<rparr>"
  have fit: "message_size ps + (HFI_PACKET_SIZE + length pl) + specs_size xs \<le> unat pkt_size" using Cons.prems(1) by (simp add: x)
  have lt: "unat pkt_size < 2 ^ 32" using unsigned_less[of pkt_size, where ?'a = nat] by simp
  have n: "unat (of_nat (length pl) :: u32) = length pl" using fit lt by (intro unat_of_nat_u32) linarith
  have small: "message_size ps + (HFI_PACKET_SIZE + length pl) < 2 ^ 32" using fit lt by linarith
  have pl: "case (if pl = [] then None else Some pl) of None \<Rightarrow> pl = [] | Some src \<Rightarrow> \<exists>xtra. src = pl @ xtra" by simp
  have c: "hfi_create_packet (Some (message_bytes s h ps @ rest)) pkt_size t f i po (packet_id ids) (if pl = [] then None else Some pl)
      (of_nat (length pl)) = Some (Inr (), Some (message_bytes s h (ps @ [?p]) @ drop (HFI_PACKET_SIZE + length pl) rest))"
    unfolding create_packet_spec[OF pl n small Cons.prems(2)] using fit by simp
  have "add_packets xs (Some (message_bytes s h (ps @ [?p]) @ drop (HFI_PACKET_SIZE + length pl) rest)) pkt_size
      (ids\<lparr>packet_id := packet_id ids + 1\<rparr>) = Some (Inr (),
      Some (message_bytes s h ((ps @ [?p]) @ numbered (packet_id ids + 1) xs) @ drop (specs_size xs) (drop (HFI_PACKET_SIZE + length pl) rest)),
      ids\<lparr>packet_id := packet_id ids + 1 + of_nat (length xs)\<rparr>)"
    using Cons.IH[of "ps @ [?p]" "drop (HFI_PACKET_SIZE + length pl) rest" "ids\<lparr>packet_id := packet_id ids + 1\<rparr>"] fit Cons.prems(2)
    by (simp add: message_size_snoc)
  then show ?case by (simp add: x c Let_def add.commute add.left_commute add.assoc)
qed

lemma build_message_spec:
  assumes "HFI_HEADER_SIZE + specs_size xs \<le> unat pkt_size" and "unat pkt_size \<le> length b"
  shows "build_message s xs (Some b) pkt_size ids = Some (Inr (),
    Some (message_bytes s (header_id ids) (numbered (packet_id ids) xs) @ drop (HFI_HEADER_SIZE + specs_size xs) b),
    ids\<lparr>header_id := header_id ids + 1, packet_id := packet_id ids + of_nat (length xs)\<rparr>)"
proof -
  have "message_size [] = HFI_HEADER_SIZE" by (simp add: message_size_def)
  then have "add_packets xs (Some (message_bytes s (header_id ids) [] @ drop HFI_HEADER_SIZE b)) pkt_size (ids\<lparr>header_id := header_id ids + 1\<rparr>) =
      Some (Inr (), Some (message_bytes s (header_id ids) ([] @ numbered (packet_id ids) xs) @ drop (specs_size xs) (drop HFI_HEADER_SIZE b)),
        ids\<lparr>header_id := header_id ids + 1, packet_id := packet_id ids + of_nat (length xs)\<rparr>)"
    using add_packets_spec[of "[]" xs pkt_size "drop HFI_HEADER_SIZE b" s "header_id ids" "ids\<lparr>header_id := header_id ids + 1\<rparr>"] assms by simp
  then show ?thesis using assms create_header_spec[of b pkt_size s "header_id ids"]
    by (simp add: build_message_def begin_message_def add.commute)
qed

section \<open>Checking and dispatching the messages of the firmware\<close>

text \<open>Pointers into the response buffer are offsets from its start; \<^term>\<open>None\<close> for the buffer is a NULL pointer, and a read
  beyond the buffer has no outcome.\<close>

definition validate_packet :: "nat \<Rightarrow> u8 list option \<Rightarrow> u32 \<Rightarrow> (errno + unit) option" where
  "validate_packet response_pkt core_resp_pkt core_resp_pkt_size =
     (case core_resp_pkt of None \<Rightarrow> Some (Inl EINVAL)
      | Some b \<Rightarrow>
          if core_resp_pkt_size = 0 then Some (Inl EINVAL)
          else if unat core_resp_pkt_size < response_pkt then Some (Inl EINVAL)
          else do {
            size \<leftarrow> rd32 b response_pkt;
            if size = 0 then Some (Inl EINVAL)
            else if unat size < HFI_PACKET_SIZE then Some (Inl EINVAL)
            else if unat core_resp_pkt_size < response_pkt + unat size then Some (Inl EINVAL)
            else Some (Inr ()) })"

fun validate_packets :: "nat \<Rightarrow> nat \<Rightarrow> u8 list \<Rightarrow> u32 \<Rightarrow> (errno + unit) option" where
  "validate_packets 0 pkt b packet_size = Some (Inr ())"
| "validate_packets (Suc n) pkt b packet_size = do {
     rc \<leftarrow> validate_packet pkt (Some b) packet_size;
     if rc = Inr () then do { size \<leftarrow> rd32 b pkt; validate_packets n (pkt + unat size) b packet_size } else Some rc }"

definition validate_hdr_packet :: "u8 list \<Rightarrow> u32 \<Rightarrow> (errno + unit) option" where
  "validate_hdr_packet b packet_size = do {
     size \<leftarrow> rd32 b 0;
     if unat size < HFI_HEADER_SIZE + HFI_PACKET_SIZE then Some (Inl EINVAL)
     else do { num_packets \<leftarrow> rd32 b 28; validate_packets (unat num_packets) HFI_HEADER_SIZE b packet_size } }"

definition HFI_FW_FLAGS_SYSTEM_ERROR :: u32 where "HFI_FW_FLAGS_SYSTEM_ERROR = 8"

text \<open>The ranges of \<open>handle_system_response\<close>, in the order it goes through them; both ends are exclusive.\<close>

definition system_ranges :: "(u32 \<times> u32) list" where
  "system_ranges = [(0x05000000, 0x05FFFFFF), (0x03000000, 0x03FFFFFF), (0x01000000, 0x01FFFFFF)]"

definition is_in_range :: "u32 \<times> u32 \<Rightarrow> u32 \<Rightarrow> bool" where
  "is_in_range r val \<longleftrightarrow> fst r < val \<and> val < snd r"

text \<open>One pass: handler \<open>i\<close> is called with the offset of a packet; handler 0 is \<open>handle_system_error\<close>. The boolean says
  that the message is finished (the \<open>goto exit\<close> of the code).\<close>

type_synonym 'c sys_handler = "nat \<Rightarrow> nat \<Rightarrow> 'c \<Rightarrow> ((errno + unit) \<times> 'c) option"

fun system_pass :: "'c sys_handler \<Rightarrow> u8 list \<Rightarrow> nat \<Rightarrow> nat \<Rightarrow> nat \<Rightarrow> 'c \<Rightarrow> (bool \<times> (errno + unit) \<times> 'c) option" where
  "system_pass handle b i 0 pkt c = Some (False, Inr (), c)"
| "system_pass handle b i (Suc n) pkt c = do {
     flags \<leftarrow> rd32 b (pkt + 8);
     type \<leftarrow> rd32 b (pkt + 4);
     if flags AND HFI_FW_FLAGS_SYSTEM_ERROR \<noteq> 0 then map_option (\<lambda>r. (True, r)) (handle 0 pkt c)
     else do {
       (stop, rc, c) \<leftarrow>
         (if is_in_range (system_ranges ! i) type
          then map_option (\<lambda>(rc, c). (rc \<noteq> Inr () \<or> i = 0, rc, c)) (handle i pkt c)
          else Some (False, Inr (), c));
       if stop then Some (True, rc, c) else do { size \<leftarrow> rd32 b pkt; system_pass handle b i n (pkt + unat size) c } } }"

fun system_passes :: "'c sys_handler \<Rightarrow> u8 list \<Rightarrow> nat \<Rightarrow> nat list \<Rightarrow> 'c \<Rightarrow> ((errno + unit) \<times> 'c) option" where
  "system_passes handle b n [] c = Some (Inr (), c)"
| "system_passes handle b n (i # is) c = do {
     (stop, rc, c) \<leftarrow> system_pass handle b i n HFI_HEADER_SIZE c;
     if stop then Some (rc, c) else system_passes handle b n is c }"

definition handle_system_response :: "'c sys_handler \<Rightarrow> u8 list \<Rightarrow> 'c \<Rightarrow> ((errno + unit) \<times> 'c) option" where
  "handle_system_response handle b c = do {
     num_packets \<leftarrow> rd32 b 28;
     system_passes handle b (unat num_packets) [0, 1, 2] c }"

text \<open>A packet the checks accept: its header and its payload lie in the buffer.\<close>

definition packet_inside :: "u8 list \<Rightarrow> nat \<Rightarrow> bool" where
  "packet_inside b pkt = (case rd32 b pkt of None \<Rightarrow> False | Some sz \<Rightarrow> 32 \<le> unat sz \<and> pkt + unat sz \<le> length b)"

fun packets_inside :: "nat \<Rightarrow> nat \<Rightarrow> u8 list \<Rightarrow> bool" where
  "packets_inside 0 pkt b = True"
| "packets_inside (Suc n) pkt b = (packet_inside b pkt \<and> packets_inside n (pkt + unat (the (rd32 b pkt))) b)"

lemma validate_packet_inside:
  assumes "validate_packet pkt (Some b) packet_size = Some (Inr ())" and "unat packet_size \<le> length b"
  shows "packet_inside b pkt"
  using assms by (auto simp: validate_packet_def packet_inside_def HFI_PACKET_SIZE_def bind_Some_iff split: if_splits option.splits)

lemma validate_packets_inside:
  "validate_packets n pkt b packet_size = Some (Inr ()) \<Longrightarrow> unat packet_size \<le> length b \<Longrightarrow> packets_inside n pkt b"
proof (induction n arbitrary: pkt)
  case (Suc n)
  from Suc.prems(1) obtain rc where rc: "validate_packet pkt (Some b) packet_size = Some rc"
    "(if rc = Inr () then do { size \<leftarrow> rd32 b pkt; validate_packets n (pkt + unat size) b packet_size } else Some rc) = Some (Inr ())"
    by (auto simp: bind_Some_iff)
  then have "rc = Inr ()" by (auto split: if_splits)
  with rc obtain size where "rd32 b pkt = Some size" "validate_packets n (pkt + unat size) b packet_size = Some (Inr ())"
    by (auto simp: bind_Some_iff)
  with Suc \<open>rc = Inr ()\<close> rc(1) show ?case by (auto intro: validate_packet_inside)
qed simp

lemma system_pass_total:
  assumes "\<And>i pkt c. packet_inside b pkt \<Longrightarrow> handle i pkt c \<noteq> None"
  shows "packets_inside n pkt b \<Longrightarrow> \<exists>r. system_pass handle b i n pkt c = Some r"
proof (induction n arbitrary: pkt c)
  case (Suc n)
  then have ins: "packet_inside b pkt" by simp
  then obtain size where size: "rd32 b pkt = Some size" "32 \<le> unat size" "pkt + unat size \<le> length b"
    by (auto simp: packet_inside_def split: option.splits)
  obtain f t where ft: "rd32 b (pkt + 8) = Some f" "rd32 b (pkt + 4) = Some t" using size by (simp add: rd32_def)
  have h: "\<exists>r. handle j pkt d = Some r" for j d using assms[OF ins] by auto
  have step: "\<exists>r. system_pass handle b i n (pkt + unat size) d = Some r" for d using Suc size(1) by simp
  obtain r0 where r0: "handle 0 pkt c = Some r0" using h by blast
  obtain ri where ri: "handle i pkt c = Some ri" using h by blast
  obtain rc d where rd: "ri = (rc, d)" by (cases ri)
  obtain s1 where s1: "system_pass handle b i n (pkt + unat size) c = Some s1" using step by blast
  obtain s2 where s2: "system_pass handle b i n (pkt + unat size) d = Some s2" using step by blast
  have "system_pass handle b i (Suc n) pkt c \<noteq> None"
    by (cases "f AND HFI_FW_FLAGS_SYSTEM_ERROR = 0"; cases "is_in_range (system_ranges ! i) t"; cases "rc \<noteq> Inr () \<or> i = 0")
      (simp_all add: ft r0 ri rd size(1) s1 s2 del: not_None_eq)
  then show ?case by (simp only: not_None_eq)
qed (unfold system_pass.simps, blast)

lemma system_passes_total:
  assumes "\<And>i pkt c. packet_inside b pkt \<Longrightarrow> handle i pkt c \<noteq> None" and "packets_inside n HFI_HEADER_SIZE b"
  shows "\<exists>r. system_passes handle b n is c = Some r"
proof (induction "is" arbitrary: c)
  case (Cons i "is")
  obtain r where r: "system_pass handle b i n HFI_HEADER_SIZE c = Some r"
    using system_pass_total[where handle = handle, OF assms] by blast
  obtain stop rc d where "r = (stop, rc, d)" by (cases r)
  with r Cons.IH[of d] show ?case by (cases stop) simp_all
qed simp

section \<open>What a dispatch does with a message\<close>

text \<open>The packets of a message with their offsets.\<close>

fun packet_offsets :: "nat \<Rightarrow> hfi_packet list \<Rightarrow> (nat \<times> hfi_packet) list" where
  "packet_offsets pkt [] = []"
| "packet_offsets pkt (p # ps) = (pkt, p) # packet_offsets (pkt + (HFI_PACKET_SIZE + length (pk_payload p))) ps"

definition is_system_error :: "hfi_packet \<Rightarrow> bool" where
  "is_system_error p \<longleftrightarrow> pk_flags p AND HFI_FW_FLAGS_SYSTEM_ERROR \<noteq> 0 \<or> is_in_range (system_ranges ! 0) (pk_type p)"

definition offsets_in :: "nat \<Rightarrow> hfi_packet list \<Rightarrow> nat list" where
  "offsets_in i ps = map fst (filter (\<lambda>(_, p). is_in_range (system_ranges ! i) (pk_type p)) (packet_offsets HFI_HEADER_SIZE ps))"

fun run_handler :: "'c sys_handler \<Rightarrow> nat \<Rightarrow> nat list \<Rightarrow> 'c \<Rightarrow> ((errno + unit) \<times> 'c) option" where
  "run_handler handle i [] c = Some (Inr (), c)"
| "run_handler handle i (pkt # pkts) c = do {
     (rc, c) \<leftarrow> handle i pkt c;
     if rc = Inr () then run_handler handle i pkts c else Some (rc, c) }"

lemma pass_step:
  assumes b: "b = pre @ packet_bytes p @ rest" and small: "HFI_PACKET_SIZE + length (pk_payload p) < 2 ^ 32"
  shows "system_pass handle b i (Suc n) (length pre) c =
    (if pk_flags p AND HFI_FW_FLAGS_SYSTEM_ERROR \<noteq> 0 then map_option (\<lambda>r. (True, r)) (handle 0 (length pre) c)
     else do {
       (stop, rc, c) \<leftarrow>
         (if is_in_range (system_ranges ! i) (pk_type p)
          then map_option (\<lambda>(rc, c). (rc \<noteq> Inr () \<or> i = 0, rc, c)) (handle i (length pre) c)
          else Some (False, Inr (), c));
       if stop then Some (True, rc, c)
       else system_pass handle b i n (length pre + (HFI_PACKET_SIZE + length (pk_payload p))) c })"
proof -
  have f: "rd32 b (length pre) = Some (of_nat (HFI_PACKET_SIZE + length (pk_payload p)))" "rd32 b (length pre + 4) = Some (pk_type p)"
    "rd32 b (length pre + 8) = Some (pk_flags p)"
    using packet_fields[of 0 pre p rest] packet_fields[of 1 pre p rest] packet_fields[of 2 pre p rest] by (simp_all add: b)
  have u: "unat (of_nat (HFI_PACKET_SIZE + length (pk_payload p)) :: u32) = HFI_PACKET_SIZE + length (pk_payload p)"
    using small by (rule unat_of_nat_u32)
  show ?thesis unfolding system_pass.simps f Option.bind.simps u by (rule refl)
qed

lemma pass_error:
  assumes "b = pre @ concat (map packet_bytes ps) @ rest" and "\<forall>p \<in> set ps. HFI_PACKET_SIZE + length (pk_payload p) < 2 ^ 32"
  shows "system_pass handle b 0 (length ps) (length pre) c = (case filter (is_system_error \<circ> snd) (packet_offsets (length pre) ps) of
      [] \<Rightarrow> Some (False, Inr (), c) | (pkt, _) # _ \<Rightarrow> map_option (\<lambda>r. (True, r)) (handle 0 pkt c))"
  using assms
proof (induction ps arbitrary: pre)
  case (Cons p ps)
  have b: "b = pre @ packet_bytes p @ (concat (map packet_bytes ps) @ rest)" using Cons.prems(1) by simp
  have IH: "system_pass handle b 0 (length ps) (length (pre @ packet_bytes p)) c =
      (case filter (is_system_error \<circ> snd) (packet_offsets (length (pre @ packet_bytes p)) ps) of
        [] \<Rightarrow> Some (False, Inr (), c) | (pkt, _) # _ \<Rightarrow> map_option (\<lambda>r. (True, r)) (handle 0 pkt c))"
    using Cons.prems by (intro Cons.IH) simp_all
  have small: "HFI_PACKET_SIZE + length (pk_payload p) < 2 ^ 32" using Cons.prems(2) by simp
  have inr: "map_option (\<lambda>(rc, c). (rc \<noteq> Inr () \<or> (0 :: nat) = 0, rc, c)) (handle 0 (length pre) c) = map_option (\<lambda>r. (True, r)) (handle 0 (length pre) c)"
    by (cases "handle 0 (length pre) c") auto
  have err: "is_system_error p \<longleftrightarrow> \<not> (pk_flags p AND HFI_FW_FLAGS_SYSTEM_ERROR = 0 \<and> \<not> is_in_range (system_ranges ! 0) (pk_type p))"
    by (simp add: is_system_error_def)
  show ?case
    unfolding length_Cons pass_step[OF b small] inr
    using IH by (cases "handle 0 (length pre) c") (auto simp: err length_packet_bytes comp_def)
qed simp

lemma pass_run:
  assumes "b = pre @ concat (map packet_bytes ps) @ rest" and "\<forall>p \<in> set ps. HFI_PACKET_SIZE + length (pk_payload p) < 2 ^ 32"
    and "\<forall>p \<in> set ps. \<not> is_system_error p" and "i \<noteq> 0"
  shows "system_pass handle b i (length ps) (length pre) c = map_option (\<lambda>(rc, c). (rc \<noteq> Inr (), rc, c))
    (run_handler handle i (map fst (filter (\<lambda>(_, p). is_in_range (system_ranges ! i) (pk_type p)) (packet_offsets (length pre) ps))) c)"
  using assms(1-3)
proof (induction ps arbitrary: pre c)
  case (Cons p ps)
  have b: "b = pre @ packet_bytes p @ (concat (map packet_bytes ps) @ rest)" using Cons.prems(1) by simp
  have IH: "system_pass handle b i (length ps) (length (pre @ packet_bytes p)) d = map_option (\<lambda>(rc, c). (rc \<noteq> Inr (), rc, c))
      (run_handler handle i (map fst (filter (\<lambda>(_, p). is_in_range (system_ranges ! i) (pk_type p)) (packet_offsets (length (pre @ packet_bytes p)) ps))) d)"
    for d using Cons.prems by (intro Cons.IH) simp_all
  have small: "HFI_PACKET_SIZE + length (pk_payload p) < 2 ^ 32" using Cons.prems(2) by simp
  have nf: "pk_flags p AND HFI_FW_FLAGS_SYSTEM_ERROR = 0" using Cons.prems(3) by (simp add: is_system_error_def)
  show ?case
    unfolding length_Cons pass_step[OF b small]
    using IH assms(4) by (cases "handle i (length pre) c") (auto simp: nf length_packet_bytes)
qed simp

lemma system_response_spec:
  assumes "message_size ps < 2 ^ 32"
  shows "handle_system_response handle (message_bytes s h ps @ rest) c =
    (case filter (is_system_error \<circ> snd) (packet_offsets HFI_HEADER_SIZE ps) of
       (pkt, _) # _ \<Rightarrow> handle 0 pkt c
     | [] \<Rightarrow> do {
         (rc, c) \<leftarrow> run_handler handle 1 (offsets_in 1 ps) c;
         if rc = Inr () then run_handler handle 2 (offsets_in 2 ps) c else Some (rc, c) })"
proof -
  define b where "b = message_bytes s h ps @ rest"
  define H where "H = words_bytes [of_nat (message_size ps), s, h, 0, 0, 0, 0, of_nat (length ps)]"
  have b: "b = H @ concat (map packet_bytes ps) @ rest" by (simp add: b_def H_def message_bytes_def)
  have H: "length H = HFI_HEADER_SIZE" by (simp add: H_def HFI_HEADER_SIZE_def)
  have small: "\<forall>p \<in> set ps. HFI_PACKET_SIZE + length (pk_payload p) < 2 ^ 32"
  proof
    fix p assume "p \<in> set ps"
    then have "HFI_PACKET_SIZE + length (pk_payload p) \<le> sum_list (map (\<lambda>p. HFI_PACKET_SIZE + length (pk_payload p)) ps)"
      by (intro member_le_sum_list) simp_all
    then show "HFI_PACKET_SIZE + length (pk_payload p) < 2 ^ 32" using assms by (simp add: message_size_def)
  qed
  have "length ps \<le> sum_list (map (\<lambda>p. HFI_PACKET_SIZE + length (pk_payload p)) ps)"
    by (induction ps) (simp_all add: HFI_PACKET_SIZE_def)
  then have n: "unat (of_nat (length ps) :: u32) = length ps" using assms by (intro unat_of_nat_u32) (simp add: message_size_def)
  have num: "rd32 b 28 = Some (of_nat (length ps))" by (simp add: b_def message_fields)
  note e = pass_error[OF b small, of handle c, unfolded H]
  have r: "system_pass handle b i (length ps) HFI_HEADER_SIZE d = map_option (\<lambda>(rc, c). (rc \<noteq> Inr (), rc, c)) (run_handler handle i (offsets_in i ps) d)"
    if "filter (is_system_error \<circ> snd) (packet_offsets HFI_HEADER_SIZE ps) = []" "i \<noteq> 0" for i d
  proof -
    have "snd ` set (packet_offsets k ps) = set ps" for k by (induction ps arbitrary: k) auto
    then have "\<forall>p \<in> set ps. \<not> is_system_error p" using that(1) unfolding filter_empty_conv by force
    then show ?thesis using pass_run[OF b small _ that(2), of handle d] by (simp add: H offsets_in_def)
  qed
  show ?thesis
  proof (cases "filter (is_system_error \<circ> snd) (packet_offsets HFI_HEADER_SIZE ps)")
    case Nil
    obtain x where x: "run_handler handle 1 (offsets_in 1 ps) c = x" by simp
    have "system_passes handle b (length ps) [1, 2] c = do {
         (rc, c) \<leftarrow> run_handler handle 1 (offsets_in 1 ps) c;
         if rc = Inr () then run_handler handle 2 (offsets_in 2 ps) c else Some (rc, c) }"
      using r[OF Nil, of 1] r[OF Nil, of 2] by (cases "run_handler handle 1 (offsets_in 1 ps) c")
        (auto split: option.splits simp: map_option_case)
    then show ?thesis using e Nil by (simp add: handle_system_response_def b_def[symmetric] num n)
  next
    case (Cons x xs)
    then show ?thesis using e by (cases x; cases "handle 0 (fst x) c") (simp_all add: handle_system_response_def b_def[symmetric] num n)
  qed
qed

section \<open>What the checks accept\<close>

definition packets_size :: "hfi_packet list \<Rightarrow> nat" where
  "packets_size ps = sum_list (map (\<lambda>p. HFI_PACKET_SIZE + length (pk_payload p)) ps)"

lemma length_packets_bytes: "length (concat (map packet_bytes ps)) = packets_size ps"
  by (simp add: packets_size_def length_concat comp_def length_packet_bytes)

lemma validate_packets_run:
  assumes "b = pre @ concat (map packet_bytes ps) @ rest" and "length pre + packets_size ps \<le> unat packet_size"
  shows "validate_packets (length ps + n) (length pre) b packet_size = validate_packets n (length pre + packets_size ps) b packet_size"
  using assms
proof (induction ps arbitrary: pre)
  case Nil
  then show ?case by (simp add: packets_size_def)
next
  case (Cons p ps)
  let ?l = "HFI_PACKET_SIZE + length (pk_payload p)"
  have sz: "packets_size (p # ps) = ?l + packets_size ps" by (simp add: packets_size_def)
  have lt: "unat packet_size < 2 ^ 32" using unsigned_less[of packet_size, where ?'a = nat] by simp
  have fit: "length pre + ?l \<le> unat packet_size" using Cons.prems(2) sz by simp
  then have u: "unat (of_nat ?l :: u32) = ?l" using lt by (intro unat_of_nat_u32) linarith
  have f: "rd32 b (length pre) = Some (of_nat ?l)" using packet_fields[of 0 pre p] Cons.prems(1) by simp
  have l32: "\<not> ?l < HFI_PACKET_SIZE" "0 < ?l" by (simp_all add: HFI_PACKET_SIZE_def)
  then have nz: "(of_nat ?l :: u32) \<noteq> 0" using u by (metis unat_0 less_numeral_extra(3))
  have pz: "packet_size \<noteq> 0" using fit l32(2) by (auto simp: HFI_PACKET_SIZE_def)
  have v: "validate_packet (length pre) (Some b) packet_size = Some (Inr ())"
    using fit l32 nz pz unfolding validate_packet_def option.case f Option.bind.simps u by simp
  have "validate_packets (length ps + n) (length (pre @ packet_bytes p)) b packet_size =
      validate_packets n (length (pre @ packet_bytes p) + packets_size ps) b packet_size"
    using Cons.prems sz by (intro Cons.IH) (simp_all add: length_packet_bytes)
  then have "validate_packets (length ps + n) (length pre + ?l) b packet_size = validate_packets n (length pre + packets_size (p # ps)) b packet_size"
    by (simp add: length_packet_bytes sz add.assoc)
  moreover have "validate_packets (length (p # ps) + n) (length pre) b packet_size = validate_packets (length ps + n) (length pre + ?l) b packet_size"
    unfolding length_Cons add_Suc validate_packets.simps v f Option.bind.simps u by simp
  ultimately show ?case by simp
qed

lemma message_size_packets: "message_size ps = HFI_HEADER_SIZE + packets_size ps"
  by (simp add: message_size_def packets_size_def)

lemma packets_count: "length ps \<le> packets_size ps"
  by (induction ps) (simp_all add: packets_size_def HFI_PACKET_SIZE_def)

lemma validate_message:
  assumes "ps \<noteq> []" and "message_size ps \<le> unat packet_size"
  shows "validate_hdr_packet (message_bytes s h ps @ rest) packet_size = Some (Inr ())"
proof -
  have lt: "unat packet_size < 2 ^ 32" using unsigned_less[of packet_size, where ?'a = nat] by simp
  have u: "unat (of_nat (message_size ps) :: u32) = message_size ps" using assms(2) lt by (intro unat_of_nat_u32) linarith
  have n: "unat (of_nat (length ps) :: u32) = length ps"
    using assms(2) lt packets_count[of ps] by (intro unat_of_nat_u32) (simp add: message_size_packets)
  have ge: "\<not> message_size ps < HFI_HEADER_SIZE + HFI_PACKET_SIZE"
    using assms(1) by (cases ps) (simp_all add: message_size_def HFI_PACKET_SIZE_def)
  have "validate_packets (length ps + 0) (length (words_bytes [of_nat (message_size ps), s, h, 0, 0, 0, 0, of_nat (length ps)]))
      (message_bytes s h ps @ rest) packet_size = Some (Inr ())"
    using assms(2) by (subst validate_packets_run[of _ _ ps rest])
      (simp_all add: message_bytes_def message_size_packets HFI_HEADER_SIZE_def)
  then have v: "validate_packets (length ps) HFI_HEADER_SIZE (message_bytes s h ps @ rest) packet_size = Some (Inr ())"
    by (simp add: HFI_HEADER_SIZE_def)
  show ?thesis
    unfolding validate_hdr_packet_def message_fields Option.bind.simps u n if_not_P[OF ge] v by (rule refl)
qed

lemma validate_past_end:
  assumes b: "b = words_bytes [sz, s, h, 0, 0, 0, 0, n] @ concat (map packet_bytes ps)" and size: "length b = unat packet_size"
    and sz: "HFI_HEADER_SIZE + HFI_PACKET_SIZE \<le> unat sz" and n: "length ps < unat n"
  shows "validate_hdr_packet b packet_size = None"
proof -
  let ?H = "words_bytes [sz, s, h, 0, 0, 0, 0, n]"
  have f: "rd32 b 0 = Some sz" "rd32 b 28 = Some n"
    using rd32_bytes[of 0 "[sz, s, h, 0, 0, 0, 0, n]" 0 "[]"] rd32_bytes[of 7 "[sz, s, h, 0, 0, 0, 0, n]" 28 "[]"] by (simp_all add: b)
  define k where "k = unat n - length ps - 1"
  have k: "unat n = length ps + Suc k" using n by (simp add: k_def)
  have len: "length ?H + packets_size ps = unat packet_size" using size unfolding b by (simp add: length_packets_bytes)
  have "rd32 b (unat packet_size) = None" by (simp add: rd32_def size)
  moreover have "packet_size \<noteq> 0"
  proof
    assume "packet_size = 0"
    then show False using len by simp
  qed
  ultimately have "validate_packet (unat packet_size) (Some b) packet_size = None" by (simp add: validate_packet_def)
  then have "validate_packets (Suc k) (length ?H + packets_size ps) b packet_size = None"
    unfolding len validate_packets.simps by simp
  then have "validate_packets (length ps + Suc k) (length ?H) b packet_size = None"
    using validate_packets_run[of b ?H ps "[]" packet_size "Suc k"] b len by (simp only: append_Nil2 order_refl)
  moreover have "length ?H = HFI_HEADER_SIZE" by (simp add: HFI_HEADER_SIZE_def)
  moreover have "\<not> unat sz < HFI_HEADER_SIZE + HFI_PACKET_SIZE" using sz by simp
  ultimately show ?thesis by (simp only: validate_hdr_packet_def f k Option.bind.simps if_False)
qed

lemma validated_dispatch:
  assumes "validate_hdr_packet b packet_size = Some (Inr ())" and "unat packet_size \<le> length b"
    and "\<And>i pkt c. packet_inside b pkt \<Longrightarrow> handle i pkt c \<noteq> None"
  shows "\<exists>r. handle_system_response handle b c = Some r"
proof -
  from assms(1) obtain sz n where "rd32 b 0 = Some sz" and n: "rd32 b 28 = Some n"
    and v: "validate_packets (unat n) HFI_HEADER_SIZE b packet_size = Some (Inr ())"
    by (auto simp: validate_hdr_packet_def bind_Some_iff split: if_splits)
  have "packets_inside (unat n) HFI_HEADER_SIZE b" using v assms(2) by (rule validate_packets_inside)
  then have "\<exists>r. system_passes handle b (unat n) [0, 1, 2] c = Some r"
    by (rule system_passes_total[rotated]) (rule assms(3))
  then show ?thesis by (simp only: handle_system_response_def n Option.bind.simps)
qed

section \<open>Properties\<close>






text \<open>C16: what the driver's builders add to a message in a buffer: a packet that fits becomes the last one, with the payload
  copied and the two counters of the header updated, and one that does not fit is refused with EINVAL and leaves the message
  as it was.\<close>

theorem create_packet_appends:
  assumes "case payload of None \<Rightarrow> pl = [] | Some src \<Rightarrow> \<exists>xtra. src = pl @ xtra" and "unat payload_size = length pl"
    and "message_size ps + (HFI_PACKET_SIZE + length pl) < 2 ^ 32" and "unat packet_size \<le> message_size ps + length rest"
  shows "hfi_create_packet (Some (message_bytes s h ps @ rest)) packet_size t f i po pid payload payload_size = Some (
    if message_size ps + (HFI_PACKET_SIZE + length pl) \<le> unat packet_size
    then (Inr (), Some (message_bytes s h (ps @ [\<lparr>pk_type = t, pk_flags = f, pk_payload_info = i, pk_port = po, pk_packet_id = pid, pk_payload = pl\<rparr>]) @
      drop (HFI_PACKET_SIZE + length pl) rest))
    else (Inl EINVAL, Some (message_bytes s h ps @ rest)))"
  using assms by (rule create_packet_spec)

theorem create_packet_appends_witness:
  "hfi_create_packet (Some (message_bytes 5 7 [] @ replicate 64 9)) 96 1 2 3 4 6 (Some [1, 2, 3, 4, 5]) 4 =
     Some (Inr (), Some (message_bytes 5 7 [\<lparr>pk_type = 1, pk_flags = 2, pk_payload_info = 3, pk_port = 4, pk_packet_id = 6,
       pk_payload = [1, 2, 3, 4]\<rparr>] @ replicate 28 9))"
  using create_packet_appends[of "[1, 2, 3, 4]" "Some [1, 2, 3, 4, 5]" 4 "[]" 96 "replicate 64 9" 5 7 1 2 3 4 6]
  by (simp add: message_size_def HFI_HEADER_SIZE_def HFI_PACKET_SIZE_def drop_replicate)

text \<open>C14: a message that \<open>validate_hdr_packet\<close> accepts can be dispatched without a read outside the response buffer: handlers
  that deal with every packet lying inside the buffer are called with no other, and \<open>handle_system_response\<close> returns.\<close>

theorem validated_dispatch_safe:
  assumes "validate_hdr_packet b packet_size = Some (Inr ())" and "unat packet_size \<le> length b"
    and "\<And>i pkt c. packet_inside b pkt \<Longrightarrow> handle i pkt c \<noteq> None"
  shows "\<exists>r. handle_system_response handle b c = Some r"
  using assms by (rule validated_dispatch)

definition demo_message :: "u8 list" where
  "demo_message = message_bytes 0 1 [\<lparr>pk_type = 0x01000001, pk_flags = 1, pk_payload_info = 0, pk_port = 0, pk_packet_id = 20, pk_payload = []\<rparr>]"

definition demo_handler :: "nat list sys_handler" where
  "demo_handler i pkt c = Some (Inr (), pkt # c)"

theorem validated_dispatch_safe_witness: "\<exists>r. handle_system_response demo_handler demo_message [] = Some r"
proof (rule validated_dispatch_safe)
  show "validate_hdr_packet demo_message 64 = Some (Inr ())"
    using validate_message[of "[\<lparr>pk_type = 0x01000001, pk_flags = 1, pk_payload_info = 0, pk_port = 0, pk_packet_id = 20, pk_payload = []\<rparr>]" 64 0 1 "[]"]
    by (simp add: demo_message_def message_size_def HFI_HEADER_SIZE_def HFI_PACKET_SIZE_def)
  show "unat (64 :: u32) \<le> length demo_message"
    by (simp add: demo_message_def length_message_bytes message_size_def HFI_HEADER_SIZE_def HFI_PACKET_SIZE_def)
qed (simp add: demo_handler_def)

text \<open>C15: the order in which \<open>handle_system_response\<close> treats the packets of a message. If any packet reports a system error, by
  its type or its flags, the first such packet is handled and no other, wherever it stands; otherwise the properties are
  handled before the answers to commands, each in the order of the message, up to the first failure.\<close>

theorem system_response_order:
  assumes "message_size ps < 2 ^ 32"
  shows "handle_system_response handle (message_bytes s h ps @ rest) c =
    (case filter (is_system_error \<circ> snd) (packet_offsets HFI_HEADER_SIZE ps) of
       (pkt, _) # _ \<Rightarrow> handle 0 pkt c
     | [] \<Rightarrow> do {
         (rc, c) \<leftarrow> run_handler handle 1 (offsets_in 1 ps) c;
         if rc = Inr () then run_handler handle 2 (offsets_in 2 ps) c else Some (rc, c) })"
  using assms by (rule system_response_spec)

theorem system_response_order_witness:
  "handle_system_response demo_handler (message_bytes 0 1
     [\<lparr>pk_type = 0x01000001, pk_flags = 1, pk_payload_info = 0, pk_port = 0, pk_packet_id = 20, pk_payload = []\<rparr>,
      \<lparr>pk_type = 0x03000001, pk_flags = 1, pk_payload_info = 0, pk_port = 0, pk_packet_id = 21, pk_payload = []\<rparr>] @ [0]) [] =
     Some (Inr (), [32, 64])"
  by (subst system_response_order)
    (simp_all add: message_size_def HFI_HEADER_SIZE_def HFI_PACKET_SIZE_def is_system_error_def HFI_FW_FLAGS_SYSTEM_ERROR_def
      is_in_range_def system_ranges_def offsets_in_def demo_handler_def)

text \<open>C40: \<open>validate_packet\<close> admits a packet that starts at the very end of the response buffer and reads its size from behind
  the buffer: so it does for every message whose packets fill the buffer and whose header announces more of them.\<close>

theorem validate_reads_past_end:
  assumes "b = words_bytes [sz, s, h, 0, 0, 0, 0, n] @ concat (map packet_bytes ps)" and "length b = unat packet_size"
    and "HFI_HEADER_SIZE + HFI_PACKET_SIZE \<le> unat sz" and "length ps < unat n"
  shows "validate_hdr_packet b packet_size = None"
  using assms by (rule validate_past_end)

theorem validate_reads_past_end_witness:
  "validate_hdr_packet (words_bytes [64, 0, 1, 0, 0, 0, 0, 2] @
     packet_bytes \<lparr>pk_type = 1, pk_flags = 0, pk_payload_info = 0, pk_port = 0, pk_packet_id = 0, pk_payload = replicate 4032 0\<rparr>) 4096 = None"
  by (rule validate_reads_past_end[of _ 64 0 1 2
      "[\<lparr>pk_type = 1, pk_flags = 0, pk_payload_info = 0, pk_port = 0, pk_packet_id = 0, pk_payload = replicate 4032 0\<rparr>]"])
    (simp_all add: length_packet_bytes HFI_HEADER_SIZE_def HFI_PACKET_SIZE_def)

end
