(* ===== verification/Vidc_Session.thy ===== *)
theory Vidc_Session
  imports Vidc_State Vidc_Packet
begin

text \<open>
  A codec session of the video driver: the event handlers of the session states
  (\<^verbatim>\<open>msm_vidc_state.c\<close>), streaming, draining and resuming (\<^verbatim>\<open>msm_vidc_driver.c\<close>, \<^verbatim>\<open>msm_vidc_vb2.c\<close>,
  \<^verbatim>\<open>msm_vdec.c\<close>, \<^verbatim>\<open>msm_venc.c\<close>), and the session messages of the firmware (\<^verbatim>\<open>venus_hfi_response.c\<close>).

  Work that does not touch the state of a session (formats, controls, properties, buffers) is
  named, and its results and those of the commands to the firmware are given by an environment that
  knows all calls so far. While a call waits for the firmware, its lock is dropped; what happens meanwhile is
  a list of asynchronous events, also given by the environment.
\<close>

section \<open>Data\<close>

datatype vidc_port = INPUT_PORT | OUTPUT_PORT | INPUT_META_PORT | OUTPUT_META_PORT

datatype vidc_plane = INPUT_MPLANE | OUTPUT_MPLANE | INPUT_META_PLANE | OUTPUT_META_PLANE | OTHER_PLANE

datatype msm_vidc_buffer_type = MSM_VIDC_BUF_NONE | MSM_VIDC_BUF_INPUT | MSM_VIDC_BUF_OUTPUT | MSM_VIDC_BUF_INPUT_META
  | MSM_VIDC_BUF_OUTPUT_META | MSM_VIDC_BUF_READ_ONLY | MSM_VIDC_BUF_INTERFACE_QUEUE | MSM_VIDC_BUF_BIN | MSM_VIDC_BUF_ARP
  | MSM_VIDC_BUF_COMV | MSM_VIDC_BUF_NON_COMV | MSM_VIDC_BUF_LINE | MSM_VIDC_BUF_DPB | MSM_VIDC_BUF_PERSIST | MSM_VIDC_BUF_VPSS
  | MSM_VIDC_BUF_PARTIAL_DATA

datatype vidc_signal = SIGNAL_CMD_STOP_INPUT | SIGNAL_CMD_STOP_OUTPUT | SIGNAL_CMD_CLOSE

datatype resume_reason = Resume_settings_change | Resume_drain

datatype hfi_cmd = Cmd_start vidc_port | Cmd_stop vidc_port | Cmd_pause vidc_port | Cmd_resume vidc_port resume_reason
  | Cmd_drain vidc_port | Cmd_close

text \<open>The other functions a session calls.\<close>

datatype vidc_work = Session_set_codec | Session_set_secure_mode | Session_set_default_header | Session_internal_buffers msm_vidc_buffer_type
  | Check_session_supported | Check_scaling_supported | Set_v4l2_properties | Set_input_properties | Set_output_properties
  | Set_internal_properties | Get_internal_buffers vidc_port | Destroy_internal_buffers vidc_port | Create_internal_buffers vidc_port
  | Queue_internal_buffers vidc_port | Subscribe_settings_change vidc_port | Subscribe_property vidc_port | Subscribe_metadata vidc_port
  | Delivery_mode_property vidc_port | Delivery_mode_metadata vidc_port | Dynamic_metadata vidc_port | Outbuf_fence_allowed
  | Alloc_and_queue_input_internal | Set_stage | Set_pipe | Additional_dpb_buffers | Queue_deferred_buffers msm_vidc_buffer_type
  | Flush_ts | Ts_reorder_flush | Schedule_stats | Get_properties | Flush_input_timer | Flush_buffers msm_vidc_buffer_type
  | Flush_read_only_buffers msm_vidc_buffer_type | Init_subcr_params
  | Try_fmt vidc_plane | S_fmt vidc_plane | S_ctrl u32 | Reqbufs vidc_plane | Queue_buffer msm_vidc_buffer_type
  | Prepare_qbuf vidc_plane | Get_driver_buf vidc_plane | Fence_create | Fence_destroy | Fence_signal
  | Release_eligible_buffers | Attach_dmabuf | Map_dmabuf
  | Read_subcr_params | Queue_event_eos | Queue_event_source_change | Session_property u32 | Dpb_list_property | Dequeue_buffers
  | Input_buffer | Input_metadata_buffer | Output_metadata_buffer | Release_internal_buffer | Release_output_buffer
  | Read_only_buffer | Non_read_only_buffer

datatype vidc_call = Cmd hfi_cmd | Work vidc_work

text \<open>\<open>i_packet\<close>: the packet buffer is there; \<open>i_in_core\<close>: the session is in the list of the core;
  \<open>i_calls\<close>: the calls so far with their results, the last one first.\<close>

record vidc_inst = vidc_states +
  i_domain :: u32
  i_locked :: bool
  i_packet :: bool
  i_session_id :: u32
  i_in_core :: bool
  i_completions :: "vidc_signal \<Rightarrow> nat"
  once_per_session_set :: bool
  ipsc_properties_set :: bool
  opsc_properties_set :: bool
  i_calls :: "(vidc_call \<times> (errno + unit)) list"

definition MSM_VIDC_ENCODER :: u32 where "MSM_VIDC_ENCODER = 1"
definition MSM_VIDC_DECODER :: u32 where "MSM_VIDC_DECODER = 2"

definition is_decode_session :: "vidc_inst \<Rightarrow> bool" where
  "is_decode_session s \<longleftrightarrow> i_domain s = MSM_VIDC_DECODER"

definition is_encode_session :: "vidc_inst \<Rightarrow> bool" where
  "is_encode_session s \<longleftrightarrow> i_domain s = MSM_VIDC_ENCODER"

text \<open>A packet of a message of the firmware; of a buffer packet, what its payload holds as a \<open>struct hfi_buffer\<close>.\<close>

record session_packet =
  sp_type :: u32
  sp_flags :: u32
  sp_port :: u32
  sp_payload_info :: u32
  sp_size :: u32
  sp_buffer_type :: u32
  sp_buffer_flags :: u32

text \<open>What happens besides the calls of the client: a message for the session, the failure of the core, the delayed work of batching.\<close>

datatype vidc_async = Response "session_packet list" | Core_failed | Batch_work

type_synonym vidc_calls = "(vidc_call \<times> (errno + unit)) list"

record vidc_env =
  answer :: "vidc_call \<Rightarrow> vidc_calls \<Rightarrow> errno + unit"
  during_wait :: "vidc_calls \<Rightarrow> vidc_async list"
  queued_left :: "msm_vidc_buffer_type \<Rightarrow> vidc_calls \<Rightarrow> nat"
  vb2_streaming :: "vidc_port \<Rightarrow> vidc_calls \<Rightarrow> bool"
  meta_enabled :: "vidc_port \<Rightarrow> vidc_calls \<Rightarrow> bool"
  outbuf_fence :: "vidc_calls \<Rightarrow> bool"
  interlace_without_ubwc :: "vidc_calls \<Rightarrow> bool"
  thumbnail_bad_count :: "vidc_calls \<Rightarrow> bool"
  last_flag_event :: bool
  pm_suspended :: "vidc_calls \<Rightarrow> bool"
  get_cap_id :: "u32 \<Rightarrow> u32 option"
  dynamic_allowed :: "u32 \<Rightarrow> bool"
  output_found :: "vidc_calls \<Rightarrow> bool"
  output_fatal :: "vidc_calls \<Rightarrow> bool"
  dpb_allocated :: "vidc_calls \<Rightarrow> bool"
  batch_enabled :: "vidc_calls \<Rightarrow> bool"
  batch_defers :: "vidc_calls \<Rightarrow> bool"

section \<open>Calls\<close>

definition strict_inst_check :: "vidc_inst op" where
  "strict_inst_check s = (if i_locked s then Inr () else Inl EINVAL, s)"

definition do_call :: "vidc_env \<Rightarrow> vidc_call \<Rightarrow> vidc_inst op" where
  "do_call e c s = (answer e c (i_calls s), s\<lparr>i_calls := (c, answer e c (i_calls s)) # i_calls s\<rparr>)"

definition work :: "vidc_env \<Rightarrow> vidc_work \<Rightarrow> vidc_inst op" where
  "work e w = do_call e (Work w)"

fun works :: "vidc_env \<Rightarrow> vidc_work list \<Rightarrow> vidc_inst op" where
  "works e [] = ret (Inr ())"
| "works e (w # ws) = ok_then (work e w) (works e ws)"

text \<open>\<open>venus_hfi_start\<close> and the other commands: no packet buffer and a session that is no longer in the list of the core are errors.\<close>

definition hfi_command :: "vidc_env \<Rightarrow> hfi_cmd \<Rightarrow> vidc_inst op" where
  "hfi_command e c = cond_op (\<lambda>s. i_packet s \<and> i_in_core s) (do_call e (Cmd c)) (ret (Inl EINVAL))"

definition to_error :: "vidc_inst op" where
  "to_error = msm_vidc_change_state MSM_VIDC_ERROR"

section \<open>Changes of state\<close>

definition msm_vidc_state_change_streamon :: "vidc_port \<Rightarrow> vidc_inst op" where
  "msm_vidc_state_change_streamon port s =
    (if port = INPUT_META_PORT \<or> port = OUTPUT_META_PORT then (Inr (), s)
     else msm_vidc_change_state
       (if port = INPUT_PORT
        then (if is_state MSM_VIDC_OPEN s then MSM_VIDC_INPUT_STREAMING
              else if is_state MSM_VIDC_OUTPUT_STREAMING s then MSM_VIDC_STREAMING else MSM_VIDC_ERROR)
        else (if is_state MSM_VIDC_OPEN s then MSM_VIDC_OUTPUT_STREAMING
              else if is_state MSM_VIDC_INPUT_STREAMING s then MSM_VIDC_STREAMING else MSM_VIDC_ERROR)) s)"

definition msm_vidc_state_change_streamoff :: "vidc_port \<Rightarrow> vidc_inst op" where
  "msm_vidc_state_change_streamoff port s =
    (if port = INPUT_META_PORT \<or> port = OUTPUT_META_PORT then (Inr (), s)
     else msm_vidc_change_state
       (if port = INPUT_PORT
        then (if is_state MSM_VIDC_INPUT_STREAMING s then MSM_VIDC_OPEN
              else if is_state MSM_VIDC_STREAMING s then MSM_VIDC_OUTPUT_STREAMING else MSM_VIDC_ERROR)
        else (if is_state MSM_VIDC_OUTPUT_STREAMING s then MSM_VIDC_OPEN
              else if is_state MSM_VIDC_STREAMING s then MSM_VIDC_INPUT_STREAMING else MSM_VIDC_ERROR)) s)"

definition msm_vidc_process_drain :: "vidc_env \<Rightarrow> vidc_inst op" where
  "msm_vidc_process_drain e = ok_then (hfi_command e (Cmd_drain INPUT_PORT)) (msm_vidc_change_sub_state 0 MSM_VIDC_DRAIN)"

definition resume_output :: "vidc_env \<Rightarrow> resume_reason \<Rightarrow> u32 \<Rightarrow> vidc_inst op" where
  "resume_output e why clear_sub =
    cond_op (\<lambda>s. is_sub_state MSM_VIDC_OUTPUT_PAUSE s \<and> \<not> is_encode_session s)
      (ok_then (hfi_command e (Cmd_resume OUTPUT_PORT why)) (msm_vidc_change_sub_state (clear_sub OR MSM_VIDC_OUTPUT_PAUSE) 0))
      (msm_vidc_change_sub_state clear_sub 0)"

definition resume_ports :: "vidc_env \<Rightarrow> resume_reason \<Rightarrow> u32 \<Rightarrow> vidc_inst op" where
  "resume_ports e why clear_sub =
    cond_op (is_sub_state MSM_VIDC_INPUT_PAUSE)
      (ok_then (hfi_command e (Cmd_resume INPUT_PORT why)) (resume_output e why (clear_sub OR MSM_VIDC_INPUT_PAUSE)))
      (resume_output e why clear_sub)"

definition msm_vidc_process_resume :: "vidc_env \<Rightarrow> vidc_inst op" where
  "msm_vidc_process_resume e =
    cond_op is_drc_pending
      (cond_op is_drain_pending
        (msm_vidc_change_sub_state (MSM_VIDC_DRC OR MSM_VIDC_DRC_LAST_BUFFER) 0)
        (resume_ports e Resume_settings_change (MSM_VIDC_DRC OR MSM_VIDC_DRC_LAST_BUFFER)))
      (cond_op is_drain_pending
        (resume_ports e Resume_drain (MSM_VIDC_DRAIN OR MSM_VIDC_DRAIN_LAST_BUFFER))
        (msm_vidc_change_sub_state 0 0))"

definition streamon_input_state :: "u32 \<Rightarrow> vidc_inst op" where
  "streamon_input_state set_sub = ok_then (msm_vidc_state_change_streamon INPUT_PORT) (msm_vidc_change_sub_state 0 set_sub)"

definition msm_vidc_process_streamon_input :: "vidc_env \<Rightarrow> vidc_inst op" where
  "msm_vidc_process_streamon_input e =
    ok_then (hfi_command e (Cmd_start INPUT_PORT))
    (ok_then (cond_op (is_sub_state MSM_VIDC_INPUT_PAUSE) (msm_vidc_change_sub_state MSM_VIDC_INPUT_PAUSE 0) (ret (Inr ())))
    (cond_op (\<lambda>s. (is_sub_state MSM_VIDC_DRC s \<or> is_sub_state MSM_VIDC_DRAIN s \<or> is_sub_state MSM_VIDC_FIRST_IPSC s) \<and>
        \<not> is_sub_state MSM_VIDC_INPUT_PAUSE s)
      (ok_then (hfi_command e (Cmd_pause INPUT_PORT)) (streamon_input_state MSM_VIDC_INPUT_PAUSE))
      (streamon_input_state 0)))"

definition start_output :: "vidc_env \<Rightarrow> u32 \<Rightarrow> vidc_inst op" where
  "start_output e clear_sub =
    ok_then (hfi_command e (Cmd_start OUTPUT_PORT))
    (ok_then (cond_op (is_sub_state MSM_VIDC_OUTPUT_PAUSE) (msm_vidc_change_sub_state MSM_VIDC_OUTPUT_PAUSE 0) (ret (Inr ())))
    (ok_then (msm_vidc_state_change_streamon OUTPUT_PORT) (msm_vidc_change_sub_state clear_sub 0)))"

definition clear_first_ipsc :: "vidc_env \<Rightarrow> u32 \<Rightarrow> vidc_inst op" where
  "clear_first_ipsc e clear_sub =
    cond_op (is_sub_state MSM_VIDC_FIRST_IPSC) (start_output e (clear_sub OR MSM_VIDC_FIRST_IPSC)) (start_output e clear_sub)"

definition resume_input_for_output :: "vidc_env \<Rightarrow> u32 \<Rightarrow> vidc_inst op" where
  "resume_input_for_output e clear_sub =
    cond_op (\<lambda>s. \<not> is_drain_pending s \<and> is_state MSM_VIDC_INPUT_STREAMING s \<and> is_sub_state MSM_VIDC_INPUT_PAUSE s)
      (ok_then (hfi_command e (Cmd_resume INPUT_PORT Resume_settings_change)) (clear_first_ipsc e (clear_sub OR MSM_VIDC_INPUT_PAUSE)))
      (clear_first_ipsc e clear_sub)"

definition msm_vidc_process_streamon_output :: "vidc_env \<Rightarrow> vidc_inst op" where
  "msm_vidc_process_streamon_output e s =
    (let clear_sub = (if is_drc_pending s then MSM_VIDC_DRC OR MSM_VIDC_DRC_LAST_BUFFER else 0) in
     ok_then
       (cond_op (\<lambda>s. is_decode_session s \<and> is_sub_state MSM_VIDC_INPUT_PAUSE s)
         (works e [Alloc_and_queue_input_internal, Set_stage, Set_pipe, Subscribe_metadata INPUT_PORT]) (ret (Inr ())))
       (resume_input_for_output e clear_sub) s)"

definition signal_session_msg_receipt :: "vidc_signal \<Rightarrow> vidc_inst op" where
  "signal_session_msg_receipt sig s = (Inr (), s\<lparr>i_completions := (i_completions s)(sig := Suc (i_completions s sig))\<rparr>)"

definition msm_vidc_process_stop_done :: "vidc_signal \<Rightarrow> vidc_inst op" where
  "msm_vidc_process_stop_done sig =
    and_then
      (if sig = SIGNAL_CMD_STOP_INPUT
       then and_then
         (cond_op (\<lambda>s. is_sub_state MSM_VIDC_DRC s \<and> \<not> is_sub_state MSM_VIDC_DRC_LAST_BUFFER s) to_error (ret (Inr ())))
         (cond_op (\<lambda>s. is_decode_session s \<and> is_sub_state MSM_VIDC_DRAIN s \<and> \<not> is_sub_state MSM_VIDC_DRAIN_LAST_BUFFER s) to_error (ret (Inr ())))
       else ret (Inr ()))
      (ok_then
        (msm_vidc_change_sub_state 0
          (if sig = SIGNAL_CMD_STOP_INPUT then MSM_VIDC_INPUT_PAUSE
           else if sig = SIGNAL_CMD_STOP_OUTPUT then MSM_VIDC_OUTPUT_PAUSE else 0))
        (signal_session_msg_receipt sig))"

definition msm_vidc_process_drain_done :: "vidc_inst op" where
  "msm_vidc_process_drain_done =
    cond_op (is_sub_state MSM_VIDC_DRAIN) (msm_vidc_change_sub_state 0 MSM_VIDC_INPUT_PAUSE) (ret (Inr ()))"

definition queue_eos :: "vidc_env \<Rightarrow> vidc_inst op" where
  "queue_eos e = (if last_flag_event e then and_then (work e Queue_event_eos) (ret (Inr ())) else ret (Inr ()))"

definition msm_vidc_process_drain_last_flag :: "vidc_env \<Rightarrow> vidc_inst op" where
  "msm_vidc_process_drain_last_flag e =
    ok_then (msm_vidc_change_sub_state 0 (MSM_VIDC_DRAIN_LAST_BUFFER OR MSM_VIDC_OUTPUT_PAUSE)) (queue_eos e)"

definition msm_vidc_process_psc_last_flag :: "vidc_env \<Rightarrow> vidc_inst op" where
  "msm_vidc_process_psc_last_flag e =
    ok_then (msm_vidc_change_sub_state 0 (MSM_VIDC_DRC_LAST_BUFFER OR MSM_VIDC_OUTPUT_PAUSE)) (queue_eos e)"

definition msm_vidc_state_change_input_psc :: "vidc_inst op" where
  "msm_vidc_state_change_input_psc =
    cond_op (\<lambda>s. is_state MSM_VIDC_INPUT_STREAMING s \<or> is_state MSM_VIDC_OPEN s)
      (msm_vidc_change_sub_state 0 (MSM_VIDC_INPUT_PAUSE OR MSM_VIDC_FIRST_IPSC))
      (msm_vidc_change_sub_state 0 (MSM_VIDC_DRC OR MSM_VIDC_INPUT_PAUSE))"

definition msm_vidc_allow_drain_last_flag :: "vidc_inst \<Rightarrow> bool" where
  "msm_vidc_allow_drain_last_flag s \<longleftrightarrow>
    is_sub_state MSM_VIDC_DRAIN s \<and> is_sub_state MSM_VIDC_INPUT_PAUSE s \<and> \<not> is_sub_state MSM_VIDC_DRAIN_LAST_BUFFER s"

definition msm_vidc_allow_psc_last_flag :: "vidc_inst \<Rightarrow> bool" where
  "msm_vidc_allow_psc_last_flag s \<longleftrightarrow>
    is_sub_state MSM_VIDC_DRC s \<and> is_sub_state MSM_VIDC_INPUT_PAUSE s \<and> \<not> is_sub_state MSM_VIDC_DRC_LAST_BUFFER s"

section \<open>Messages of the firmware\<close>

definition HFI_FW_FLAGS_SESSION_ERROR :: u32 where "HFI_FW_FLAGS_SESSION_ERROR = 4"
definition HFI_PORT_BITSTREAM :: u32 where "HFI_PORT_BITSTREAM = 1"
definition HFI_PORT_RAW :: u32 where "HFI_PORT_RAW = 2"
definition HFI_CMD_OPEN :: u32 where "HFI_CMD_OPEN = 0x01000003"
definition HFI_CMD_CLOSE :: u32 where "HFI_CMD_CLOSE = 0x01000004"
definition HFI_CMD_START :: u32 where "HFI_CMD_START = 0x01000005"
definition HFI_CMD_STOP :: u32 where "HFI_CMD_STOP = 0x01000006"
definition HFI_CMD_DRAIN :: u32 where "HFI_CMD_DRAIN = 0x01000007"
definition HFI_CMD_RESUME :: u32 where "HFI_CMD_RESUME = 0x01000008"
definition HFI_CMD_BUFFER :: u32 where "HFI_CMD_BUFFER = 0x01000009"
definition HFI_CMD_DELIVERY_MODE :: u32 where "HFI_CMD_DELIVERY_MODE = 0x0100000A"
definition HFI_CMD_SUBSCRIBE_MODE :: u32 where "HFI_CMD_SUBSCRIBE_MODE = 0x0100000B"
definition HFI_CMD_SETTINGS_CHANGE :: u32 where "HFI_CMD_SETTINGS_CHANGE = 0x0100000C"
definition HFI_CMD_STABILITY :: u32 where "HFI_CMD_STABILITY = 0x0100000E"
definition HFI_CMD_PAUSE :: u32 where "HFI_CMD_PAUSE = 0x01000011"
definition HFI_INFO_HFI_FLAG_DRAIN_LAST :: u32 where "HFI_INFO_HFI_FLAG_DRAIN_LAST = 0x06000006"
definition HFI_INFO_HFI_FLAG_PSC_LAST :: u32 where "HFI_INFO_HFI_FLAG_PSC_LAST = 0x06000007"
definition HFI_BUF_FW_FLAG_RELEASE_DONE :: u32 where "HFI_BUF_FW_FLAG_RELEASE_DONE = 1"
definition HFI_BUF_FW_FLAG_READONLY :: u32 where "HFI_BUF_FW_FLAG_READONLY = 0x10"
definition HFI_BUF_FW_FLAG_LAST :: u32 where "HFI_BUF_FW_FLAG_LAST = 0x10000000"
definition HFI_BUF_FW_FLAG_PSC_LAST :: u32 where "HFI_BUF_FW_FLAG_PSC_LAST = 0x20000000"
definition HFI_BUFFER_BITSTREAM :: u32 where "HFI_BUFFER_BITSTREAM = 1"
definition HFI_BUFFER_RAW :: u32 where "HFI_BUFFER_RAW = 2"
definition HFI_BUFFER_METADATA :: u32 where "HFI_BUFFER_METADATA = 3"
definition HFI_BUFFER_PARTIAL_DATA :: u32 where "HFI_BUFFER_PARTIAL_DATA = 5"
definition HFI_BUFFER_DPB :: u32 where "HFI_BUFFER_DPB = 6"
definition HFI_BUFFER_BIN :: u32 where "HFI_BUFFER_BIN = 7"
definition HFI_BUFFER_LINE :: u32 where "HFI_BUFFER_LINE = 8"
definition HFI_BUFFER_ARP :: u32 where "HFI_BUFFER_ARP = 9"
definition HFI_BUFFER_COMV :: u32 where "HFI_BUFFER_COMV = 10"
definition HFI_BUFFER_NON_COMV :: u32 where "HFI_BUFFER_NON_COMV = 11"
definition HFI_BUFFER_PERSIST :: u32 where "HFI_BUFFER_PERSIST = 12"
definition HFI_BUFFER_VPSS :: u32 where "HFI_BUFFER_VPSS = 13"
definition HFI_FW_FLAGS_INFORMATION :: u32 where "HFI_FW_FLAGS_INFORMATION = 2"
definition HFI_PROP_DPB_LIST :: u32 where "HFI_PROP_DPB_LIST = 0x0300017A"
definition HFI_PAYLOAD_S32 :: u32 where "HFI_PAYLOAD_S32 = 2"
definition HFI_PAYLOAD_U64 :: u32 where "HFI_PAYLOAD_U64 = 3"
definition HFI_PAYLOAD_S64 :: u32 where "HFI_PAYLOAD_S64 = 4"
definition HFI_PAYLOAD_STRUCTURE :: u32 where "HFI_PAYLOAD_STRUCTURE = 5"
definition HFI_PAYLOAD_Q16 :: u32 where "HFI_PAYLOAD_Q16 = 8"
definition HFI_PAYLOAD_32_PACKED :: u32 where "HFI_PAYLOAD_32_PACKED = 10"
definition HFI_PAYLOAD_64_PACKED :: u32 where "HFI_PAYLOAD_64_PACKED = 13"
definition MAX_DPB_LIST_PAYLOAD_SIZE :: u32 where "MAX_DPB_LIST_PAYLOAD_SIZE = 256"

lemmas hfi_numbers = HFI_FW_FLAGS_SESSION_ERROR_def HFI_PORT_BITSTREAM_def HFI_PORT_RAW_def HFI_CMD_OPEN_def HFI_CMD_CLOSE_def
  HFI_CMD_START_def HFI_CMD_STOP_def HFI_CMD_DRAIN_def HFI_CMD_RESUME_def HFI_CMD_BUFFER_def HFI_CMD_DELIVERY_MODE_def
  HFI_CMD_SUBSCRIBE_MODE_def HFI_CMD_SETTINGS_CHANGE_def HFI_CMD_STABILITY_def HFI_CMD_PAUSE_def HFI_INFO_HFI_FLAG_DRAIN_LAST_def
  HFI_INFO_HFI_FLAG_PSC_LAST_def HFI_BUF_FW_FLAG_RELEASE_DONE_def HFI_BUF_FW_FLAG_READONLY_def HFI_BUF_FW_FLAG_LAST_def
  HFI_BUF_FW_FLAG_PSC_LAST_def HFI_BUFFER_BITSTREAM_def HFI_BUFFER_RAW_def HFI_BUFFER_METADATA_def HFI_BUFFER_PARTIAL_DATA_def
  HFI_BUFFER_DPB_def HFI_BUFFER_BIN_def HFI_BUFFER_LINE_def HFI_BUFFER_ARP_def HFI_BUFFER_COMV_def HFI_BUFFER_NON_COMV_def
  HFI_BUFFER_PERSIST_def HFI_BUFFER_VPSS_def HFI_FW_FLAGS_INFORMATION_def HFI_PROP_DPB_LIST_def HFI_PAYLOAD_S32_def HFI_PAYLOAD_U64_def
  HFI_PAYLOAD_S64_def HFI_PAYLOAD_STRUCTURE_def HFI_PAYLOAD_Q16_def HFI_PAYLOAD_32_PACKED_def HFI_PAYLOAD_64_PACKED_def
  MAX_DPB_LIST_PAYLOAD_SIZE_def HFI_PAYLOAD_NONE_def HFI_PAYLOAD_U32_def HFI_PAYLOAD_U32_ENUM_def HFI_PORT_NONE_def

text \<open>A failure that is turned into the error state while the function goes on.\<close>

definition or_error :: "vidc_inst op \<Rightarrow> vidc_inst op" where
  "or_error f = and_then (on_fail f to_error) (ret (Inr ()))"

definition skip :: "vidc_inst op" where
  "skip = ret (Inr ())"

text \<open>\<open>vidc_port_from_hfi\<close>: \<open>None\<close> is \<open>MAX_PORT\<close>, \<open>Some None\<close> is \<open>PORT_NONE\<close>.\<close>

definition vidc_port_from_hfi :: "vidc_inst \<Rightarrow> u32 \<Rightarrow> vidc_port option option" where
  "vidc_port_from_hfi s p =
    (if is_decode_session s
     then (if p = HFI_PORT_BITSTREAM then Some (Some INPUT_PORT) else if p = HFI_PORT_RAW then Some (Some OUTPUT_PORT)
           else if p = HFI_PORT_NONE then Some None else None)
     else if is_encode_session s
     then (if p = HFI_PORT_RAW then Some (Some INPUT_PORT) else if p = HFI_PORT_BITSTREAM then Some (Some OUTPUT_PORT)
           else if p = HFI_PORT_NONE then Some None else None)
     else None)"

definition is_valid_hfi_port :: "u32 \<Rightarrow> u32 \<Rightarrow> bool" where
  "is_valid_hfi_port p bt \<longleftrightarrow>
    \<not> (p = HFI_PORT_NONE \<and> bt \<noteq> HFI_BUFFER_ARP \<and> bt \<noteq> HFI_BUFFER_PERSIST) \<and> \<not> (p \<noteq> HFI_PORT_BITSTREAM \<and> p \<noteq> HFI_PORT_RAW)"

definition is_valid_hfi_buffer_type :: "u32 \<Rightarrow> bool" where
  "is_valid_hfi_buffer_type bt \<longleftrightarrow> bt \<in> {HFI_BUFFER_BITSTREAM, HFI_BUFFER_RAW, HFI_BUFFER_METADATA, HFI_BUFFER_BIN, HFI_BUFFER_ARP,
    HFI_BUFFER_COMV, HFI_BUFFER_NON_COMV, HFI_BUFFER_LINE, HFI_BUFFER_DPB, HFI_BUFFER_PERSIST, HFI_BUFFER_VPSS, HFI_BUFFER_PARTIAL_DATA}"

text \<open>A \<open>struct hfi_packet\<close> has 32 bytes and a \<open>struct hfi_buffer\<close> 64.\<close>

definition check_for_packet_payload :: "session_packet \<Rightarrow> bool" where
  "check_for_packet_payload p =
    (if sp_payload_info p = HFI_PAYLOAD_NONE then False
     else
       (let payload_size =
          (if sp_payload_info p \<in> {HFI_PAYLOAD_U32, HFI_PAYLOAD_S32, HFI_PAYLOAD_Q16, HFI_PAYLOAD_U32_ENUM, HFI_PAYLOAD_32_PACKED} then 4
           else if sp_payload_info p \<in> {HFI_PAYLOAD_U64, HFI_PAYLOAD_S64, HFI_PAYLOAD_64_PACKED} then 8
           else if sp_payload_info p = HFI_PAYLOAD_STRUCTURE \<and> sp_type p = HFI_CMD_BUFFER then 64 else 0) in
        \<not> sp_size p < 32 + payload_size))"

definition handle_session_last_flag_info :: "vidc_env \<Rightarrow> session_packet \<Rightarrow> vidc_inst op" where
  "handle_session_last_flag_info e p =
    on_fail
      (if sp_type p = HFI_INFO_HFI_FLAG_PSC_LAST
       then cond_op msm_vidc_allow_psc_last_flag (msm_vidc_process_psc_last_flag e) (ret (Inl EINVAL))
       else if sp_type p = HFI_INFO_HFI_FLAG_DRAIN_LAST
       then cond_op msm_vidc_allow_drain_last_flag (msm_vidc_process_drain_last_flag e) (ret (Inl EINVAL))
       else skip)
      to_error"

text \<open>The other information packets only fill \<open>hfi_frame_info\<close>, which decides what the environment says of an output buffer.\<close>

definition handle_session_info :: "vidc_env \<Rightarrow> session_packet \<Rightarrow> vidc_inst op" where
  "handle_session_info e p =
    (if sp_type p = HFI_INFO_HFI_FLAG_DRAIN_LAST \<or> sp_type p = HFI_INFO_HFI_FLAG_PSC_LAST then handle_session_last_flag_info e p else skip)"

definition handle_session_error :: "session_packet \<Rightarrow> vidc_inst op" where
  "handle_session_error p = to_error"

definition handle_session_close :: "session_packet \<Rightarrow> vidc_inst op" where
  "handle_session_close p = and_then (signal_session_msg_receipt SIGNAL_CMD_CLOSE) skip"

definition handle_session_stop :: "session_packet \<Rightarrow> vidc_inst op" where
  "handle_session_stop p =
    cond_op is_encode_session
      (if sp_port p = HFI_PORT_RAW then msm_vidc_process_stop_done SIGNAL_CMD_STOP_INPUT
       else if sp_port p = HFI_PORT_BITSTREAM then msm_vidc_process_stop_done SIGNAL_CMD_STOP_OUTPUT else ret (Inl EINVAL))
      (cond_op is_decode_session
        (if sp_port p = HFI_PORT_RAW then msm_vidc_process_stop_done SIGNAL_CMD_STOP_OUTPUT
         else if sp_port p = HFI_PORT_BITSTREAM then msm_vidc_process_stop_done SIGNAL_CMD_STOP_INPUT else ret (Inl EINVAL))
        (ret (Inl EINVAL)))"

definition handle_psc_last_flag_buffer :: "vidc_env \<Rightarrow> u32 \<Rightarrow> vidc_inst op" where
  "handle_psc_last_flag_buffer e flags =
    (if flags AND HFI_BUF_FW_FLAG_PSC_LAST = 0 then skip
     else cond_op (\<lambda>s. \<not> msm_vidc_allow_psc_last_flag s) (ret (Inl EINVAL)) (msm_vidc_process_psc_last_flag e))"

definition handle_drain_last_flag_buffer :: "vidc_env \<Rightarrow> u32 \<Rightarrow> vidc_inst op" where
  "handle_drain_last_flag_buffer e flags =
    (if flags AND HFI_BUF_FW_FLAG_LAST = 0 then skip
     else cond_op (\<lambda>s. \<not> msm_vidc_allow_drain_last_flag s) (ret (Inl EINVAL)) (msm_vidc_process_drain_last_flag e))"

text \<open>The second half of \<open>handle_output_buffer\<close>: the buffer is searched and returned to the client.\<close>

definition output_buffer_done :: "vidc_env \<Rightarrow> u32 \<Rightarrow> vidc_inst op" where
  "output_buffer_done e flags =
    (let last = flags AND HFI_BUF_FW_FLAG_LAST \<noteq> 0 \<or> flags AND HFI_BUF_FW_FLAG_PSC_LAST \<noteq> 0;
         read_only = flags AND HFI_BUF_FW_FLAG_READONLY \<noteq> 0 \<and> \<not> last in
     cond_op (\<lambda>s. \<not> output_found e (i_calls s)) skip
       (and_then (cond_op (\<lambda>s. is_encode_session s \<and> output_fatal e (i_calls s)) to_error skip)
       (and_then
         (cond_op (\<lambda>s. is_decode_session s \<and> read_only)
           (and_then (cond_op (\<lambda>s. dpb_allocated e (i_calls s)) to_error skip) (or_error (work e Read_only_buffer)))
           skip)
         (on_fail (work e Fence_signal) to_error))))"

definition handle_output_buffer :: "vidc_env \<Rightarrow> u32 \<Rightarrow> vidc_inst op" where
  "handle_output_buffer e flags =
    and_then (if flags AND HFI_BUF_FW_FLAG_LAST \<noteq> 0 then or_error (handle_drain_last_flag_buffer e flags) else skip)
      (cond_op is_decode_session
        (if flags AND HFI_BUF_FW_FLAG_RELEASE_DONE \<noteq> 0 then work e Release_output_buffer
         else
           and_then (if flags AND HFI_BUF_FW_FLAG_PSC_LAST \<noteq> 0 then or_error (handle_psc_last_flag_buffer e flags) else skip)
           (and_then (if flags AND HFI_BUF_FW_FLAG_READONLY = 0 then or_error (work e Non_read_only_buffer) else skip)
             (output_buffer_done e flags)))
        (output_buffer_done e flags))"

text \<open>The four tables of \<open>handle_session_buffer\<close>.\<close>

datatype buffer_handler = Handle_input | Handle_input_metadata | Handle_output | Handle_output_metadata | Handle_release_internal

definition enc_input_hfi_handle :: "(u32 \<times> buffer_handler) list" where
  "enc_input_hfi_handle = [(HFI_BUFFER_METADATA, Handle_input_metadata), (HFI_BUFFER_RAW, Handle_input), (HFI_BUFFER_VPSS, Handle_release_internal)]"

definition enc_output_hfi_handle :: "(u32 \<times> buffer_handler) list" where
  "enc_output_hfi_handle = [(HFI_BUFFER_METADATA, Handle_output_metadata), (HFI_BUFFER_BITSTREAM, Handle_output),
    (HFI_BUFFER_BIN, Handle_release_internal), (HFI_BUFFER_COMV, Handle_release_internal), (HFI_BUFFER_NON_COMV, Handle_release_internal),
    (HFI_BUFFER_LINE, Handle_release_internal), (HFI_BUFFER_ARP, Handle_release_internal), (HFI_BUFFER_DPB, Handle_release_internal)]"

definition dec_input_hfi_handle :: "(u32 \<times> buffer_handler) list" where
  "dec_input_hfi_handle = [(HFI_BUFFER_METADATA, Handle_input_metadata), (HFI_BUFFER_BITSTREAM, Handle_input),
    (HFI_BUFFER_BIN, Handle_release_internal), (HFI_BUFFER_COMV, Handle_release_internal), (HFI_BUFFER_NON_COMV, Handle_release_internal),
    (HFI_BUFFER_LINE, Handle_release_internal), (HFI_BUFFER_PERSIST, Handle_release_internal), (HFI_BUFFER_PARTIAL_DATA, Handle_release_internal)]"

definition dec_output_hfi_handle :: "(u32 \<times> buffer_handler) list" where
  "dec_output_hfi_handle = [(HFI_BUFFER_METADATA, Handle_output_metadata), (HFI_BUFFER_RAW, Handle_output), (HFI_BUFFER_DPB, Handle_release_internal)]"

lemmas buffer_tables = enc_input_hfi_handle_def enc_output_hfi_handle_def dec_input_hfi_handle_def dec_output_hfi_handle_def

definition dispatch_buffer :: "vidc_env \<Rightarrow> (u32 \<times> buffer_handler) list \<Rightarrow> session_packet \<Rightarrow> vidc_inst op" where
  "dispatch_buffer e table p =
    (case map_of table (sp_buffer_type p) of
       None \<Rightarrow> ret (Inl EINVAL)
     | Some Handle_input \<Rightarrow> work e Input_buffer
     | Some Handle_input_metadata \<Rightarrow> work e Input_metadata_buffer
     | Some Handle_output \<Rightarrow> handle_output_buffer e (sp_buffer_flags p)
     | Some Handle_output_metadata \<Rightarrow> work e Output_metadata_buffer
     | Some Handle_release_internal \<Rightarrow> work e Release_internal_buffer)"

definition handle_session_buffer :: "vidc_env \<Rightarrow> session_packet \<Rightarrow> vidc_inst op" where
  "handle_session_buffer e p =
    (if sp_payload_info p = HFI_PAYLOAD_NONE then skip
     else if \<not> check_for_packet_payload p \<or> \<not> is_valid_hfi_buffer_type (sp_buffer_type p) \<or>
        \<not> is_valid_hfi_port (sp_port p) (sp_buffer_type p)
     then and_then to_error skip
     else
       cond_op is_encode_session
         (if sp_port p = HFI_PORT_RAW then dispatch_buffer e enc_input_hfi_handle p
          else if sp_port p = HFI_PORT_BITSTREAM then dispatch_buffer e enc_output_hfi_handle p else ret (Inl EINVAL))
         (cond_op is_decode_session
           (if sp_port p = HFI_PORT_BITSTREAM then dispatch_buffer e dec_input_hfi_handle p
            else if sp_port p = HFI_PORT_RAW then dispatch_buffer e dec_output_hfi_handle p else ret (Inl EINVAL))
           (ret (Inl EINVAL))))"

text \<open>\<open>msm_vdec_read_input_subcr_params\<close> puts the session into the error state when a thumbnail needs more than one output buffer.\<close>

definition msm_vdec_input_port_settings_change :: "vidc_env \<Rightarrow> vidc_inst op" where
  "msm_vdec_input_port_settings_change e =
    cond_op (\<lambda>s. \<not> vb2_streaming e INPUT_PORT (i_calls s)) skip
      (and_then (work e Read_subcr_params)
      (and_then (cond_op (\<lambda>s. thumbnail_bad_count e (i_calls s)) to_error skip)
      (and_then (work e Queue_event_source_change) skip)))"

definition handle_input_port_settings_change :: "vidc_env \<Rightarrow> vidc_inst op" where
  "handle_input_port_settings_change e =
    cond_op (is_sub_state MSM_VIDC_DRC) (ret (Inl EINVAL))
      (ok_then msm_vidc_state_change_input_psc (msm_vdec_input_port_settings_change e))"

definition handle_port_settings_change :: "vidc_env \<Rightarrow> session_packet \<Rightarrow> vidc_inst op" where
  "handle_port_settings_change e p =
    on_fail
      (if sp_port p = HFI_PORT_RAW then skip
       else if sp_port p = HFI_PORT_BITSTREAM then handle_input_port_settings_change e else ret (Inl EINVAL))
      to_error"

definition handle_session_command :: "vidc_env \<Rightarrow> session_packet \<Rightarrow> vidc_inst op" where
  "handle_session_command e p =
    (if sp_type p = HFI_CMD_CLOSE then handle_session_close p
     else if sp_type p = HFI_CMD_STOP then handle_session_stop p
     else if sp_type p = HFI_CMD_DRAIN then msm_vidc_process_drain_done
     else if sp_type p = HFI_CMD_BUFFER then handle_session_buffer e p
     else if sp_type p = HFI_CMD_SETTINGS_CHANGE then handle_port_settings_change e p
     else if sp_type p \<in> {HFI_CMD_OPEN, HFI_CMD_START, HFI_CMD_SUBSCRIBE_MODE, HFI_CMD_DELIVERY_MODE, HFI_CMD_PAUSE, HFI_CMD_RESUME,
        HFI_CMD_STABILITY} then skip
     else ret (Inl EINVAL))"

text \<open>A list of reference buffers that is too long for its array is an error; the payload size is computed in 32 bits.\<close>

definition handle_dpb_list_property :: "vidc_env \<Rightarrow> session_packet \<Rightarrow> vidc_inst op" where
  "handle_dpb_list_property e p =
    cond_op (\<lambda>s. \<not> is_decode_session s) (ret (Inl EINVAL))
      (if sp_size p - 32 > MAX_DPB_LIST_PAYLOAD_SIZE then and_then to_error (ret (Inl EINVAL)) else and_then (work e Dpb_list_property) skip)"

definition handle_session_property :: "vidc_env \<Rightarrow> session_packet \<Rightarrow> vidc_inst op" where
  "handle_session_property e p =
    cond_op (\<lambda>s. vidc_port_from_hfi s (sp_port p) = None) (ret (Inl EINVAL))
      (if sp_flags p AND HFI_FW_FLAGS_INFORMATION \<noteq> 0 then skip
       else if sp_type p = HFI_PROP_DPB_LIST then handle_dpb_list_property e p
       else and_then (work e (Session_property (sp_type p))) skip)"

text \<open>The four passes of \<open>__handle_session_response\<close> over a message; the code of the last handler is kept.\<close>

fun session_pass :: "u32 \<times> u32 \<Rightarrow> (session_packet \<Rightarrow> vidc_inst op) \<Rightarrow> session_packet list \<Rightarrow> errno + unit \<Rightarrow> vidc_inst op" where
  "session_pass r h [] rc = ret rc"
| "session_pass r h (p # ps) rc =
    and_then (if sp_flags p AND HFI_FW_FLAGS_SESSION_ERROR \<noteq> 0 then handle_session_error p else skip)
      (if is_in_range r (sp_type p) then with_rc (on_fail (h p) to_error) (session_pass r h ps) else session_pass r h ps rc)"

definition session_passes :: "vidc_env \<Rightarrow> session_packet list \<Rightarrow> vidc_inst op" where
  "session_passes e ps =
    with_rc (session_pass (0x04000000, 0x04FFFFFF) handle_session_error ps (Inr ()))
    (\<lambda>rc. with_rc (session_pass (0x06000000, 0x06FFFFFF) (handle_session_info e) ps rc)
    (\<lambda>rc. with_rc (session_pass (0x03000000, 0x03FFFFFF) (handle_session_property e) ps rc)
    (session_pass (0x01000000, 0x01FFFFFF) (handle_session_command e) ps)))"

definition handle_session_response_body :: "vidc_env \<Rightarrow> session_packet list \<Rightarrow> vidc_inst op" where
  "handle_session_response_body e ps =
    (if list_ex (\<lambda>p. sp_type p = HFI_CMD_BUFFER) ps then and_then (session_passes e ps) (work e Dequeue_buffers) else session_passes e ps)"

definition inst_lock :: "vidc_inst op" where
  "inst_lock s = (Inr (), s\<lparr>i_locked := True\<rparr>)"

definition inst_unlock :: "vidc_inst op" where
  "inst_unlock s = (Inr (), s\<lparr>i_locked := False\<rparr>)"

definition locked_op :: "vidc_inst op \<Rightarrow> vidc_inst op" where
  "locked_op f = and_then inst_lock (finally_op f inst_unlock)"

text \<open>\<open>get_inst\<close> finds only sessions in the list of the core.\<close>

definition handle_session_response :: "vidc_env \<Rightarrow> session_packet list \<Rightarrow> vidc_inst op" where
  "handle_session_response e ps =
    cond_op (\<lambda>s. \<not> i_in_core s) (ret (Inl EINVAL))
      (locked_op
        (and_then
          (if list_ex (\<lambda>p. sp_type p = HFI_CMD_SETTINGS_CHANGE \<and> sp_port p = HFI_PORT_BITSTREAM) ps
           then work e Init_subcr_params else skip)
          (handle_session_response_body e ps)))"

section \<open>What happens while nobody holds the lock\<close>

text \<open>The part of \<open>msm_vidc_core_deinit_locked\<close> (and of \<open>msm_vidc_inst_timeout\<close>) that touches the session.\<close>

definition core_failed :: "vidc_inst op" where
  "core_failed =
    cond_op i_in_core (and_then to_error (\<lambda>s. (Inr (), s\<lparr>i_in_core := False\<rparr>))) (ret (Inl EINVAL))"

definition msm_vidc_batch_handler :: "vidc_env \<Rightarrow> vidc_inst op" where
  "msm_vidc_batch_handler e =
    locked_op
      (cond_op (\<lambda>s. is_session_error s \<or> pm_suspended e (i_calls s) \<or> is_state MSM_VIDC_OPEN s \<or> is_state MSM_VIDC_INPUT_STREAMING s)
        skip (or_error (work e (Queue_deferred_buffers MSM_VIDC_BUF_OUTPUT))))"

fun async_event :: "vidc_env \<Rightarrow> vidc_async \<Rightarrow> vidc_inst op" where
  "async_event e (Response ps) = handle_session_response e ps"
| "async_event e Core_failed = core_failed"
| "async_event e Batch_work = msm_vidc_batch_handler e"

fun async_events :: "vidc_env \<Rightarrow> vidc_async list \<Rightarrow> vidc_inst op" where
  "async_events e [] = skip"
| "async_events e (a # as) = and_then (async_event e a) (async_events e as)"

end
