(* ===== verification/Vidc_Session_Ops.thy ===== *)
theory Vidc_Session_Ops
  imports Vidc_Session
begin

text \<open>
  The calls of the client on a session: streaming on and off and what it waits for, the drain and
  resume commands, queueing of buffers, closing, and the event handlers of the six states that
  decide which call is allowed when. A run is a list of client calls and asynchronous events.
\<close>

section \<open>Waiting for the firmware\<close>

text \<open>The lock is dropped, the events happen, and the completion is consumed, or it is missing and the session times out.\<close>

definition wait_for_session :: "vidc_env \<Rightarrow> vidc_signal \<Rightarrow> vidc_inst op" where
  "wait_for_session e sig s =
    (let s1 = s\<lparr>i_locked := False\<rparr>;
         s2 = snd (async_events e (during_wait e (i_calls s1)) s1) in
     if i_completions s2 sig > 0
     then (Inr (), s2\<lparr>i_completions := (i_completions s2)(sig := i_completions s2 sig - 1), i_locked := True\<rparr>)
     else (Inl ETIMEDOUT, (snd (core_failed s2))\<lparr>i_locked := True\<rparr>))"

definition free_packet :: "vidc_inst op" where
  "free_packet s = (Inr (), s\<lparr>i_packet := False\<rparr>)"

definition msm_vidc_session_close :: "vidc_env \<Rightarrow> vidc_inst op" where
  "msm_vidc_session_close e =
    ok_then (finally_op (hfi_command e Cmd_close) free_packet) (wait_for_session e SIGNAL_CMD_CLOSE)"

definition msm_vidc_kill_session :: "vidc_env \<Rightarrow> vidc_inst op" where
  "msm_vidc_kill_session e =
    cond_op (\<lambda>s. i_session_id s = 0) skip (and_then (msm_vidc_session_close e) (and_then to_error skip))"

definition flush_port :: "vidc_env \<Rightarrow> msm_vidc_buffer_type \<Rightarrow> vidc_inst op" where
  "flush_port e bt = and_then (work e (Flush_buffers bt)) (work e (Flush_read_only_buffers bt))"

definition stop_port :: "vidc_env \<Rightarrow> vidc_port \<Rightarrow> vidc_signal \<Rightarrow> msm_vidc_buffer_type \<Rightarrow> vidc_inst op" where
  "stop_port e port sig bt =
    ok_then (hfi_command e (Cmd_stop port))
    (ok_then (wait_for_session e sig)
    (and_then (if port = INPUT_PORT then work e Flush_input_timer else skip)
    (cond_op (\<lambda>s. queued_left e bt (i_calls s) \<noteq> 0) (ret (Inl EINVAL)) (msm_vidc_state_change_streamoff port))))"

definition msm_vidc_session_streamoff :: "vidc_env \<Rightarrow> vidc_port \<Rightarrow> vidc_inst op" where
  "msm_vidc_session_streamoff e port =
    (if port = INPUT_PORT
     then finally_op (on_fail (stop_port e port SIGNAL_CMD_STOP_INPUT MSM_VIDC_BUF_INPUT) (msm_vidc_kill_session e)) (flush_port e MSM_VIDC_BUF_INPUT)
     else if port = OUTPUT_PORT
     then finally_op (on_fail (stop_port e port SIGNAL_CMD_STOP_OUTPUT MSM_VIDC_BUF_OUTPUT) (msm_vidc_kill_session e)) (flush_port e MSM_VIDC_BUF_OUTPUT)
     else ret (Inl EINVAL))"

definition is_codec_session :: "vidc_inst \<Rightarrow> bool" where
  "is_codec_session s \<longleftrightarrow> is_decode_session s \<or> is_encode_session s"

text \<open>\<open>msm_vdec_streamoff_input\<close> and the other three are \<open>msm_vidc_session_streamoff\<close>; cancelling the batch work and
  the maximum of a control do not touch the state.\<close>

definition msm_vidc_stop_streaming :: "vidc_env \<Rightarrow> vidc_plane \<Rightarrow> vidc_inst op" where
  "msm_vidc_stop_streaming e q =
    (if q = INPUT_META_PLANE \<or> q = OUTPUT_META_PLANE then skip
     else if q \<noteq> INPUT_MPLANE \<and> q \<noteq> OUTPUT_MPLANE then ret (Inl EINVAL)
     else
       cond_op (\<lambda>s. \<not> is_codec_session s) (ret (Inl EINVAL))
         (ok_then (msm_vidc_session_streamoff e (if q = INPUT_MPLANE then INPUT_PORT else OUTPUT_PORT))
           (if q = INPUT_MPLANE then and_then (work e Flush_ts) skip else skip)))"

section \<open>Streaming on\<close>

definition meta_port_missing :: "vidc_env \<Rightarrow> vidc_port \<Rightarrow> vidc_port \<Rightarrow> vidc_inst \<Rightarrow> bool" where
  "meta_port_missing e port meta s \<longleftrightarrow> meta_enabled e port (i_calls s) \<and> \<not> vb2_streaming e meta (i_calls s)"

definition msm_vdec_streamon_input :: "vidc_env \<Rightarrow> vidc_inst op" where
  "msm_vdec_streamon_input e =
    cond_op (meta_port_missing e INPUT_PORT INPUT_META_PORT) (ret (Inl EINVAL))
      (ok_then (works e [Check_session_supported, Set_v4l2_properties, Get_internal_buffers INPUT_PORT, Destroy_internal_buffers INPUT_PORT,
          Create_internal_buffers INPUT_PORT, Queue_internal_buffers INPUT_PORT])
      (ok_then (cond_op ipsc_properties_set skip
          (ok_then (work e (Subscribe_settings_change INPUT_PORT)) (\<lambda>s. (Inr (), s\<lparr>ipsc_properties_set := True\<rparr>))))
      (ok_then (works e [Subscribe_property INPUT_PORT, Subscribe_metadata INPUT_PORT, Subscribe_metadata OUTPUT_PORT,
          Delivery_mode_metadata INPUT_PORT])
      (ok_then (msm_vidc_process_streamon_input e) (works e [Flush_ts, Ts_reorder_flush])))))"

definition msm_vdec_streamon_output :: "vidc_env \<Rightarrow> vidc_inst op" where
  "msm_vdec_streamon_output e =
    cond_op (\<lambda>s. meta_port_missing e OUTPUT_PORT OUTPUT_META_PORT s \<or> interlace_without_ubwc e (i_calls s)) (ret (Inl EINVAL))
      (on_fail
        (ok_then (works e [Check_session_supported, Set_output_properties])
        (ok_then (cond_op (\<lambda>s. outbuf_fence e (i_calls s)) (work e Outbuf_fence_allowed) skip)
        (ok_then (cond_op opsc_properties_set skip
            (ok_then (work e (Subscribe_settings_change OUTPUT_PORT)) (\<lambda>s. (Inr (), s\<lparr>opsc_properties_set := True\<rparr>))))
        (ok_then (works e [Subscribe_property OUTPUT_PORT, Subscribe_metadata OUTPUT_PORT, Delivery_mode_property OUTPUT_PORT,
            Delivery_mode_metadata OUTPUT_PORT, Get_internal_buffers OUTPUT_PORT, Destroy_internal_buffers OUTPUT_PORT,
            Create_internal_buffers OUTPUT_PORT])
        (ok_then (msm_vidc_process_streamon_output e) (work e (Queue_internal_buffers OUTPUT_PORT)))))))
        (msm_vidc_session_streamoff e OUTPUT_PORT))"

definition msm_venc_streamon_input :: "vidc_env \<Rightarrow> vidc_inst op" where
  "msm_venc_streamon_input e =
    cond_op (meta_port_missing e INPUT_PORT INPUT_META_PORT) (ret (Inl EINVAL))
      (ok_then (works e [Check_session_supported, Check_scaling_supported, Set_input_properties, Get_internal_buffers INPUT_PORT,
          Destroy_internal_buffers INPUT_PORT, Create_internal_buffers INPUT_PORT, Queue_internal_buffers INPUT_PORT,
          Subscribe_property INPUT_PORT, Delivery_mode_metadata INPUT_PORT, Dynamic_metadata INPUT_PORT])
        (msm_vidc_process_streamon_input e))"

definition msm_venc_streamon_output :: "vidc_env \<Rightarrow> vidc_inst op" where
  "msm_venc_streamon_output e =
    cond_op (meta_port_missing e OUTPUT_PORT OUTPUT_META_PORT) (ret (Inl EINVAL))
      (on_fail
        (ok_then (works e [Set_output_properties, Set_v4l2_properties, Set_internal_properties, Get_internal_buffers OUTPUT_PORT,
            Destroy_internal_buffers OUTPUT_PORT, Create_internal_buffers OUTPUT_PORT, Queue_internal_buffers OUTPUT_PORT,
            Subscribe_property OUTPUT_PORT, Subscribe_metadata OUTPUT_PORT])
          (msm_vidc_process_streamon_output e))
        (msm_vidc_session_streamoff e OUTPUT_PORT))"

text \<open>The settings of a session that are made once, and marked as made before they are.\<close>

definition once_per_session :: "vidc_env \<Rightarrow> vidc_inst op" where
  "once_per_session e =
    cond_op once_per_session_set skip
      (ok_then (\<lambda>s. (Inr (), s\<lparr>once_per_session_set := True\<rparr>))
      (ok_then (works e [Session_set_codec, Session_set_secure_mode])
        (cond_op is_encode_session (work e (Session_internal_buffers MSM_VIDC_BUF_ARP))
          (works e [Session_set_default_header, Session_internal_buffers MSM_VIDC_BUF_PERSIST]))))"

definition streamon_port :: "vidc_env \<Rightarrow> vidc_plane \<Rightarrow> vidc_inst op" where
  "streamon_port e q =
    (if q = INPUT_MPLANE then cond_op is_decode_session (msm_vdec_streamon_input e) (msm_venc_streamon_input e)
     else cond_op is_decode_session (msm_vdec_streamon_output e) (msm_venc_streamon_output e))"

definition v4l2_type_to_driver :: "vidc_plane \<Rightarrow> msm_vidc_buffer_type" where
  "v4l2_type_to_driver q = (case q of INPUT_MPLANE \<Rightarrow> MSM_VIDC_BUF_INPUT | OUTPUT_MPLANE \<Rightarrow> MSM_VIDC_BUF_OUTPUT
    | INPUT_META_PLANE \<Rightarrow> MSM_VIDC_BUF_INPUT_META | OUTPUT_META_PLANE \<Rightarrow> MSM_VIDC_BUF_OUTPUT_META | OTHER_PLANE \<Rightarrow> MSM_VIDC_BUF_NONE)"

definition msm_vidc_start_streaming :: "vidc_env \<Rightarrow> vidc_plane \<Rightarrow> vidc_inst op" where
  "msm_vidc_start_streaming e q =
    (if q = INPUT_META_PLANE \<or> q = OUTPUT_META_PLANE then skip
     else if q \<noteq> INPUT_MPLANE \<and> q \<noteq> OUTPUT_MPLANE then ret (Inl EINVAL)
     else
       cond_op (\<lambda>s. \<not> is_codec_session s) (ret (Inl EINVAL))
         (ok_then (once_per_session e)
         (ok_then (streamon_port e q)
         (ok_then (works e [Queue_deferred_buffers (v4l2_type_to_driver q), Schedule_stats])
           (cond_op (\<lambda>s. vb2_streaming e (if q = INPUT_MPLANE then OUTPUT_PORT else INPUT_PORT) (i_calls s))
             (work e Get_properties) skip)))))"

section \<open>Drain and resume\<close>

definition msm_vdec_start_cmd :: "vidc_env \<Rightarrow> vidc_inst op" where
  "msm_vdec_start_cmd e =
    cond_op (\<lambda>s. interlace_without_ubwc e (i_calls s)) (ret (Inl EINVAL))
      (ok_then
        (cond_op (\<lambda>s. is_sub_state MSM_VIDC_DRC s \<and> is_sub_state MSM_VIDC_DRC_LAST_BUFFER s \<and> is_sub_state MSM_VIDC_INPUT_PAUSE s)
          (works e [Alloc_and_queue_input_internal, Set_stage, Set_pipe]) skip)
      (ok_then (works e [Additional_dpb_buffers, Queue_deferred_buffers MSM_VIDC_BUF_OUTPUT]) (msm_vidc_process_resume e)))"

definition msm_vidc_start_cmd :: "vidc_env \<Rightarrow> vidc_inst op" where
  "msm_vidc_start_cmd e =
    cond_op (\<lambda>s. \<not> is_codec_session s) (ret (Inl EINVAL)) (cond_op is_decode_session (msm_vdec_start_cmd e) (msm_vidc_process_resume e))"

definition msm_vidc_stop_cmd :: "vidc_env \<Rightarrow> vidc_inst op" where
  "msm_vidc_stop_cmd e = cond_op (\<lambda>s. \<not> is_codec_session s) (ret (Inl EINVAL)) (msm_vidc_process_drain e)"

section \<open>The event handlers of the states\<close>

datatype msm_vidc_event = MSM_VIDC_TRY_FMT vidc_plane | MSM_VIDC_S_FMT vidc_plane | MSM_VIDC_S_CTRL u32 | MSM_VIDC_REQBUFS vidc_plane
  | MSM_VIDC_STREAMON vidc_plane | MSM_VIDC_STREAMOFF vidc_plane | MSM_VIDC_CMD_START | MSM_VIDC_CMD_STOP
  | MSM_VIDC_BUF_QUEUE msm_vidc_buffer_type

definition refuse :: "errno \<Rightarrow> vidc_inst op" where
  "refuse err = ret (Inl err)"

definition input_plane :: "vidc_plane \<Rightarrow> bool" where
  "input_plane q \<longleftrightarrow> q = INPUT_MPLANE \<or> q = INPUT_META_PLANE"

definition output_plane :: "vidc_plane \<Rightarrow> bool" where
  "output_plane q \<longleftrightarrow> q = OUTPUT_MPLANE \<or> q = OUTPUT_META_PLANE"

text \<open>A control during streaming must be known, and dynamic if the master port streams.\<close>

definition checked_s_ctrl :: "vidc_env \<Rightarrow> (vidc_inst \<Rightarrow> bool) \<Rightarrow> u32 \<Rightarrow> vidc_inst op" where
  "checked_s_ctrl e master c =
    (case get_cap_id e c of
       None \<Rightarrow> refuse EINVAL
     | Some cap \<Rightarrow> cond_op (\<lambda>s. master s \<and> \<not> dynamic_allowed e cap) (refuse EINVAL) (work e (S_ctrl c)))"

definition queue_if :: "vidc_env \<Rightarrow> (msm_vidc_buffer_type \<Rightarrow> bool) \<Rightarrow> msm_vidc_buffer_type \<Rightarrow> vidc_inst op" where
  "queue_if e deferred bt =
    (if bt = MSM_VIDC_BUF_INPUT_META \<or> bt = MSM_VIDC_BUF_OUTPUT_META then skip
     else if bt \<noteq> MSM_VIDC_BUF_INPUT \<and> bt \<noteq> MSM_VIDC_BUF_OUTPUT then refuse EINVAL
     else if deferred bt then skip else work e (Queue_buffer bt))"

definition resume_if_pending :: "vidc_env \<Rightarrow> vidc_inst op" where
  "resume_if_pending e = cond_op (\<lambda>s. \<not> is_drc_pending s \<and> \<not> is_drain_pending s) (refuse EBUSY) (msm_vidc_start_cmd e)"

definition drain_unless_draining :: "vidc_env \<Rightarrow> vidc_inst op" where
  "drain_unless_draining e = cond_op (is_sub_state MSM_VIDC_DRAIN) (refuse EBUSY) (msm_vidc_stop_cmd e)"

fun open_state :: "vidc_env \<Rightarrow> msm_vidc_event \<Rightarrow> vidc_inst op" where
  "open_state e (MSM_VIDC_TRY_FMT f) = work e (Try_fmt f)"
| "open_state e (MSM_VIDC_S_FMT f) = work e (S_fmt f)"
| "open_state e (MSM_VIDC_S_CTRL c) = work e (S_ctrl c)"
| "open_state e (MSM_VIDC_REQBUFS b) = work e (Reqbufs b)"
| "open_state e (MSM_VIDC_STREAMON q) = msm_vidc_start_streaming e q"
| "open_state e (MSM_VIDC_STREAMOFF q) = skip"
| "open_state e MSM_VIDC_CMD_START = refuse EBUSY"
| "open_state e MSM_VIDC_CMD_STOP = skip"
| "open_state e (MSM_VIDC_BUF_QUEUE b) = skip"

fun input_streaming_state :: "vidc_env \<Rightarrow> msm_vidc_event \<Rightarrow> vidc_inst op" where
  "input_streaming_state e (MSM_VIDC_BUF_QUEUE b) = queue_if e (\<lambda>b. b = MSM_VIDC_BUF_OUTPUT) b"
| "input_streaming_state e (MSM_VIDC_TRY_FMT f) = (if input_plane f then refuse EBUSY else work e (Try_fmt f))"
| "input_streaming_state e (MSM_VIDC_S_FMT f) = (if input_plane f then refuse EBUSY else work e (S_fmt f))"
| "input_streaming_state e (MSM_VIDC_S_CTRL c) = checked_s_ctrl e is_decode_session c"
| "input_streaming_state e (MSM_VIDC_REQBUFS b) = (if input_plane b then refuse EBUSY else work e (Reqbufs b))"
| "input_streaming_state e (MSM_VIDC_STREAMON q) = (if input_plane q then refuse EBUSY else msm_vidc_start_streaming e q)"
| "input_streaming_state e (MSM_VIDC_STREAMOFF q) =
    (if output_plane q then skip else if q = INPUT_META_PLANE then refuse EINVAL else if q \<noteq> INPUT_MPLANE then refuse EINVAL
     else msm_vidc_stop_streaming e q)"
| "input_streaming_state e MSM_VIDC_CMD_START = resume_if_pending e"
| "input_streaming_state e MSM_VIDC_CMD_STOP = drain_unless_draining e"

fun output_streaming_state :: "vidc_env \<Rightarrow> msm_vidc_event \<Rightarrow> vidc_inst op" where
  "output_streaming_state e (MSM_VIDC_BUF_QUEUE b) = queue_if e (\<lambda>b. b = MSM_VIDC_BUF_INPUT) b"
| "output_streaming_state e (MSM_VIDC_TRY_FMT f) = (if output_plane f then refuse EBUSY else work e (Try_fmt f))"
| "output_streaming_state e (MSM_VIDC_S_FMT f) = (if output_plane f then refuse EBUSY else work e (S_fmt f))"
| "output_streaming_state e (MSM_VIDC_S_CTRL c) = checked_s_ctrl e is_encode_session c"
| "output_streaming_state e (MSM_VIDC_REQBUFS b) = (if output_plane b then refuse EBUSY else work e (Reqbufs b))"
| "output_streaming_state e (MSM_VIDC_STREAMON q) = (if output_plane q then refuse EBUSY else msm_vidc_start_streaming e q)"
| "output_streaming_state e (MSM_VIDC_STREAMOFF q) =
    (if input_plane q then skip else if q = OUTPUT_META_PLANE then refuse EINVAL else if q \<noteq> OUTPUT_MPLANE then refuse EINVAL
     else msm_vidc_stop_streaming e q)"
| "output_streaming_state e MSM_VIDC_CMD_START = resume_if_pending e"
| "output_streaming_state e MSM_VIDC_CMD_STOP = refuse EBUSY"

fun streaming_state :: "vidc_env \<Rightarrow> msm_vidc_event \<Rightarrow> vidc_inst op" where
  "streaming_state e (MSM_VIDC_BUF_QUEUE b) = queue_if e (\<lambda>b. False) b"
| "streaming_state e (MSM_VIDC_S_CTRL c) = checked_s_ctrl e (\<lambda>s. True) c"
| "streaming_state e (MSM_VIDC_STREAMOFF q) =
    (if q = INPUT_META_PLANE \<or> q = OUTPUT_META_PLANE then refuse EINVAL
     else if q \<noteq> INPUT_MPLANE \<and> q \<noteq> OUTPUT_MPLANE then refuse EINVAL else msm_vidc_stop_streaming e q)"
| "streaming_state e MSM_VIDC_CMD_START = resume_if_pending e"
| "streaming_state e MSM_VIDC_CMD_STOP = drain_unless_draining e"
| "streaming_state e _ = refuse EINVAL"

text \<open>\<open>msm_vidc_close_state\<close> and \<open>msm_vidc_error_state\<close>.\<close>

fun dead_state :: "vidc_env \<Rightarrow> msm_vidc_event \<Rightarrow> vidc_inst op" where
  "dead_state e (MSM_VIDC_STREAMOFF q) = msm_vidc_stop_streaming e q"
| "dead_state e _ = refuse EINVAL"

definition state_handle :: "msm_vidc_state \<Rightarrow> vidc_env \<Rightarrow> msm_vidc_event \<Rightarrow> vidc_inst op" where
  "state_handle st = (case st of MSM_VIDC_OPEN \<Rightarrow> open_state | MSM_VIDC_INPUT_STREAMING \<Rightarrow> input_streaming_state
    | MSM_VIDC_OUTPUT_STREAMING \<Rightarrow> output_streaming_state | MSM_VIDC_STREAMING \<Rightarrow> streaming_state
    | MSM_VIDC_CLOSE \<Rightarrow> dead_state | MSM_VIDC_ERROR \<Rightarrow> dead_state)"

text \<open>\<open>inst->event_handle(inst, event, data)\<close>; each handler first checks that the lock is held.\<close>

definition inst_event :: "vidc_env \<Rightarrow> msm_vidc_event \<Rightarrow> vidc_inst op" where
  "inst_event e ev s = ok_then strict_inst_check (state_handle (event_handle s) e ev) s"

section \<open>Calls of the client\<close>

datatype vb2_callback = Start_streaming vidc_plane | Stop_streaming vidc_plane | Buf_queue vidc_plane | Attach_buffer | Map_buffer

datatype client_call = Vidioc_try_fmt vidc_plane | Vidioc_s_fmt vidc_plane | Vidioc_reqbufs vidc_plane | Vidioc_streamon vidc_plane
  | Vidioc_streamoff vidc_plane | Vidioc_qbuf vidc_plane | Vidioc_cmd u32 | Op_s_ctrl u32 | Close_session | Async vidc_async

text \<open>\<open>vb2\<close>: the callbacks that the videobuf2 framework of the kernel makes when the driver passes a call on to it.\<close>

type_synonym vb2_framework = "client_call \<Rightarrow> vidc_calls \<Rightarrow> vb2_callback list"

definition msm_vb2_start_streaming :: "vidc_env \<Rightarrow> vidc_plane \<Rightarrow> vidc_inst op" where
  "msm_vb2_start_streaming e q = on_fail (inst_event e (MSM_VIDC_STREAMON q)) to_error"

definition msm_vb2_stop_streaming :: "vidc_env \<Rightarrow> vidc_plane \<Rightarrow> vidc_inst op" where
  "msm_vb2_stop_streaming e q = or_error (inst_event e (MSM_VIDC_STREAMOFF q))"

definition msm_vidc_queue_buffer_single :: "vidc_env \<Rightarrow> vidc_plane \<Rightarrow> vidc_inst op" where
  "msm_vidc_queue_buffer_single e q =
    ok_then (work e (Get_driver_buf q))
    (cond_op (\<lambda>s. outbuf_fence e (i_calls s) \<and> v4l2_type_to_driver q = MSM_VIDC_BUF_OUTPUT)
      (ok_then (work e Fence_create) (on_fail (inst_event e (MSM_VIDC_BUF_QUEUE (v4l2_type_to_driver q))) (work e Fence_destroy)))
      (inst_event e (MSM_VIDC_BUF_QUEUE (v4l2_type_to_driver q))))"

definition msm_vdec_qbuf_batch :: "vidc_env \<Rightarrow> vidc_plane \<Rightarrow> vidc_inst op" where
  "msm_vdec_qbuf_batch e q =
    ok_then (work e (Get_driver_buf q))
    (cond_op (\<lambda>s. is_state MSM_VIDC_OPEN s \<or> is_state MSM_VIDC_INPUT_STREAMING s \<or> batch_defers e (i_calls s)) skip
      (work e (Queue_deferred_buffers MSM_VIDC_BUF_OUTPUT)))"

definition msm_vdec_qbuf :: "vidc_env \<Rightarrow> vidc_plane \<Rightarrow> vidc_inst op" where
  "msm_vdec_qbuf e q =
    ok_then (cond_op (\<lambda>s. batch_enabled e (i_calls s) \<and> q = OUTPUT_MPLANE) (msm_vdec_qbuf_batch e q) (msm_vidc_queue_buffer_single e q))
      (if q = OUTPUT_MPLANE then work e Release_eligible_buffers else skip)"

definition msm_vb2_buf_queue :: "vidc_env \<Rightarrow> vidc_plane \<Rightarrow> vidc_inst op" where
  "msm_vb2_buf_queue e q =
    or_error
      (ok_then (work e (Prepare_qbuf q))
      (cond_op is_decode_session (msm_vdec_qbuf e q)
        (cond_op is_encode_session (msm_vidc_queue_buffer_single e q) (ret (Inl EINVAL)))))"

fun vb2_call :: "vidc_env \<Rightarrow> vb2_callback \<Rightarrow> vidc_inst op" where
  "vb2_call e (Start_streaming q) = msm_vb2_start_streaming e q"
| "vb2_call e (Stop_streaming q) = msm_vb2_stop_streaming e q"
| "vb2_call e (Buf_queue q) = msm_vb2_buf_queue e q"
| "vb2_call e Attach_buffer = on_fail (work e Attach_dmabuf) to_error"
| "vb2_call e Map_buffer = on_fail (work e Map_dmabuf) to_error"

fun vb2_calls :: "vidc_env \<Rightarrow> vb2_callback list \<Rightarrow> vidc_inst op" where
  "vb2_calls e [] = skip"
| "vb2_calls e (c # cs) = ok_then (vb2_call e c) (vb2_calls e cs)"

definition vb2_step :: "vidc_env \<Rightarrow> vb2_framework \<Rightarrow> client_call \<Rightarrow> vidc_inst op" where
  "vb2_step e vb2 st s = vb2_calls e (vb2 st (i_calls s)) s"

definition unless_error :: "errno \<Rightarrow> vidc_inst op \<Rightarrow> vidc_inst op" where
  "unless_error err f = locked_op (cond_op is_session_error (ret (Inl err)) f)"

definition clear_sub_state :: "vidc_inst op" where
  "clear_sub_state s = (Inr (), s\<lparr>i_sub_state := 0\<rparr>)"

definition msm_vidc_close :: "vidc_env \<Rightarrow> vidc_inst op" where
  "msm_vidc_close e =
    locked_op (and_then (msm_vidc_session_close e) (and_then (msm_vidc_change_state MSM_VIDC_CLOSE) clear_sub_state))"

text \<open>\<open>V4L2_DEC_CMD_START\<close> and \<open>V4L2_ENC_CMD_START\<close> are 0, the two stop commands are 1.\<close>

fun session_step :: "vidc_env \<Rightarrow> vb2_framework \<Rightarrow> client_call \<Rightarrow> vidc_inst op" where
  "session_step e vb2 (Vidioc_try_fmt f) = unless_error EBUSY (inst_event e (MSM_VIDC_TRY_FMT f))"
| "session_step e vb2 (Vidioc_s_fmt f) = unless_error EBUSY (inst_event e (MSM_VIDC_S_FMT f))"
| "session_step e vb2 (Vidioc_reqbufs b) = unless_error EBUSY (inst_event e (MSM_VIDC_REQBUFS b))"
| "session_step e vb2 (Vidioc_streamon q) =
    unless_error EBUSY (if q = OTHER_PLANE then ret (Inl EINVAL) else vb2_step e vb2 (Vidioc_streamon q))"
| "session_step e vb2 (Vidioc_streamoff q) =
    locked_op (if q = OTHER_PLANE then ret (Inl EINVAL) else vb2_step e vb2 (Vidioc_streamoff q))"
| "session_step e vb2 (Vidioc_qbuf q) =
    unless_error EINVAL (if q = OTHER_PLANE then ret (Inl EINVAL) else vb2_step e vb2 (Vidioc_qbuf q))"
| "session_step e vb2 (Vidioc_cmd c) =
    unless_error EBUSY
      (if c \<noteq> 0 \<and> c \<noteq> 1 then ret (Inl EINVAL) else inst_event e (if c = 0 then MSM_VIDC_CMD_START else MSM_VIDC_CMD_STOP))"
| "session_step e vb2 (Op_s_ctrl c) = locked_op (inst_event e (MSM_VIDC_S_CTRL c))"
| "session_step e vb2 Close_session = msm_vidc_close e"
| "session_step e vb2 (Async a) = async_event e a"

definition session_run :: "vidc_env \<Rightarrow> vb2_framework \<Rightarrow> client_call list \<Rightarrow> vidc_inst \<Rightarrow> vidc_inst" where
  "session_run e vb2 steps s = fold (\<lambda>st s. snd (session_step e vb2 st s)) steps s"

text \<open>The session as \<open>msm_vidc_open\<close> leaves it.\<close>

definition msm_vidc_open :: "u32 \<Rightarrow> u32 \<Rightarrow> vidc_inst" where
  "msm_vidc_open session_type sid =
    \<lparr>i_state = MSM_VIDC_OPEN, event_handle = MSM_VIDC_OPEN, i_sub_state = 0, i_domain = session_type, i_locked = False,
     i_packet = True, i_session_id = sid, i_in_core = True, i_completions = (\<lambda>_. 0), once_per_session_set = False,
     ipsc_properties_set = False, opsc_properties_set = False, i_calls = []\<rparr>"

end
