(* ===== verification/Vidc_Session_Inv.thy ===== *)
theory Vidc_Session_Inv
  imports Vidc_Session_Ops
begin

text \<open>
  Invariants of a session. What happens while a session waits, and what streaming off, closing and streaming on
  do to it, is made of a few elementary changes; the locales below state which of them an invariant has to
  survive so that all asynchronous events, all ways to stop, or all client calls keep it.
\<close>

section \<open>Keeping an invariant\<close>

text \<open>A sub-state that waits for the client is only set together with or after the one that it completes.\<close>

definition safe_set :: "u32 \<Rightarrow> vidc_inst \<Rightarrow> bool" where
  "safe_set x s \<longleftrightarrow>
    x AND 0x7f = x \<and> (x AND MSM_VIDC_DRAIN_LAST_BUFFER \<noteq> 0 \<longrightarrow> is_sub_state MSM_VIDC_DRAIN s) \<and>
    (x AND MSM_VIDC_DRC_LAST_BUFFER \<noteq> 0 \<longrightarrow> is_sub_state MSM_VIDC_DRC s)"

definition keeps :: "(vidc_inst \<Rightarrow> bool) \<Rightarrow> vidc_inst op \<Rightarrow> bool" where
  "keeps I f \<longleftrightarrow> (\<forall>s. I s \<longrightarrow> I (snd (f s)))"

named_theorems keeps_rules \<open>compositions keep what their parts keep\<close>

lemma keepsI: "(\<And>s. I s \<Longrightarrow> I (snd (f s))) \<Longrightarrow> keeps I f"
  by (simp add: keeps_def)

lemma keepsD: "keeps I f \<Longrightarrow> I s \<Longrightarrow> I (snd (f s))"
  by (simp add: keeps_def)

lemma keeps_ok_then [keeps_rules]: "keeps I f \<Longrightarrow> keeps I g \<Longrightarrow> keeps I (ok_then f g)"
  by (auto simp: keeps_def ok_then_def case_prod_unfold Let_def)

lemma keeps_and_then [keeps_rules]: "keeps I f \<Longrightarrow> keeps I g \<Longrightarrow> keeps I (and_then f g)"
  by (simp add: keeps_def and_then_def)

lemma keeps_on_fail [keeps_rules]: "keeps I f \<Longrightarrow> keeps I g \<Longrightarrow> keeps I (on_fail f g)"
  by (auto simp: keeps_def on_fail_def case_prod_unfold Let_def)

lemma keeps_finally [keeps_rules]: "keeps I f \<Longrightarrow> keeps I g \<Longrightarrow> keeps I (finally_op f g)"
  by (auto simp: keeps_def finally_op_def case_prod_unfold Let_def)

lemma keeps_with_rc [keeps_rules]: "keeps I f \<Longrightarrow> (\<And>rc. keeps I (g rc)) \<Longrightarrow> keeps I (with_rc f g)"
  by (auto simp: keeps_def with_rc_def case_prod_unfold Let_def)

lemma keeps_cond [keeps_rules]: "keeps I f \<Longrightarrow> keeps I g \<Longrightarrow> keeps I (cond_op c f g)"
  by (simp add: keeps_def cond_op_def)

lemma keeps_ret [keeps_rules]: "keeps I (ret rc)"
  by (simp add: keeps_def ret_def)

lemma keeps_skip [keeps_rules]: "keeps I skip"
  by (simp add: skip_def keeps_ret)

lemma keeps_refuse [keeps_rules]: "keeps I (refuse err)"
  by (simp add: refuse_def keeps_ret)

lemma keeps_if [keeps_rules]: "keeps I f \<Longrightarrow> keeps I g \<Longrightarrow> keeps I (if c then f else g)"
  by simp

lemma keeps_guarded: "(\<And>s. I s \<Longrightarrow> c s \<Longrightarrow> I (snd (f s))) \<Longrightarrow> keeps I g \<Longrightarrow> keeps I (cond_op c f g)"
  by (simp add: keeps_def cond_op_def)

section \<open>Asynchronous events\<close>

locale session_inv =
  fixes I :: "vidc_inst \<Rightarrow> bool"
  assumes err: "I s \<Longrightarrow> I (snd (msm_vidc_change_state MSM_VIDC_ERROR s))"
    and sub: "I s \<Longrightarrow> safe_set x s \<Longrightarrow> I (snd (msm_vidc_change_sub_state 0 x s))"
    and worked: "I s \<Longrightarrow> I (s\<lparr>i_calls := (Work w, rc) # i_calls s\<rparr>)"
    and lock: "I s \<Longrightarrow> I (s\<lparr>i_locked := b\<rparr>)"
    and completion: "I s \<Longrightarrow> I (s\<lparr>i_completions := cs\<rparr>)"
    and unlinked: "I s \<Longrightarrow> I (s\<lparr>i_in_core := False\<rparr>)"
begin

lemma to_error [keeps_rules]: "keeps I to_error"
  by (simp add: keeps_def to_error_def err)

lemma work [keeps_rules]: "keeps I (work e w)"
  by (simp add: keeps_def work_def do_call_def worked)

lemma works [keeps_rules]: "keeps I (works e ws)"
  by (induction ws) (auto intro!: keeps_rules)

lemma or_error [keeps_rules]: "keeps I f \<Longrightarrow> keeps I (or_error f)"
  unfolding or_error_def by (intro keeps_rules)

lemma locks [keeps_rules]: "keeps I inst_lock" "keeps I inst_unlock"
  by (simp_all add: keeps_def inst_lock_def inst_unlock_def lock)

lemma locked_op [keeps_rules]: "keeps I f \<Longrightarrow> keeps I (locked_op f)"
  unfolding locked_op_def by (intro keeps_rules)

lemma strict_inst_check [keeps_rules]: "keeps I strict_inst_check"
  by (simp add: keeps_def strict_inst_check_def)

lemma core_failed [keeps_rules]: "keeps I core_failed"
  unfolding core_failed_def by (intro keeps_rules) (simp add: keeps_def unlinked)

lemma signal [keeps_rules]: "keeps I (signal_session_msg_receipt sig)"
  by (simp add: keeps_def signal_session_msg_receipt_def completion)

lemma stop_done [keeps_rules]: "keeps I (msm_vidc_process_stop_done sig)"
proof -
  have "keeps I (msm_vidc_change_sub_state 0 (if sig = SIGNAL_CMD_STOP_INPUT then MSM_VIDC_INPUT_PAUSE
      else if sig = SIGNAL_CMD_STOP_OUTPUT then MSM_VIDC_OUTPUT_PAUSE else 0))"
    by (rule keepsI, rule sub) (auto simp: safe_set_def sub_defs)
  then show ?thesis unfolding msm_vidc_process_stop_done_def by (auto intro!: keeps_rules)
qed

lemma drain_done [keeps_rules]: "keeps I msm_vidc_process_drain_done"
proof -
  have "keeps I (msm_vidc_change_sub_state 0 MSM_VIDC_INPUT_PAUSE)"
    by (rule keepsI, rule sub) (auto simp: safe_set_def sub_defs)
  then show ?thesis unfolding msm_vidc_process_drain_done_def by (auto intro!: keeps_rules)
qed

lemma queue_eos [keeps_rules]: "keeps I (queue_eos e)"
  unfolding queue_eos_def by (intro keeps_rules)

lemma psc_last: "msm_vidc_allow_psc_last_flag s \<Longrightarrow> I s \<Longrightarrow> I (snd (msm_vidc_process_psc_last_flag e s))"
proof -
  assume a: "msm_vidc_allow_psc_last_flag s" and i: "I s"
  have "I (snd (msm_vidc_change_sub_state 0 (MSM_VIDC_DRC_LAST_BUFFER OR MSM_VIDC_OUTPUT_PAUSE) s))"
    using a by (intro sub[OF i]) (auto simp: safe_set_def sub_defs msm_vidc_allow_psc_last_flag_def)
  then show ?thesis unfolding msm_vidc_process_psc_last_flag_def using keepsD[OF queue_eos]
    by (auto simp: ok_then_def case_prod_unfold Let_def)
qed

lemma drain_last: "msm_vidc_allow_drain_last_flag s \<Longrightarrow> I s \<Longrightarrow> I (snd (msm_vidc_process_drain_last_flag e s))"
proof -
  assume a: "msm_vidc_allow_drain_last_flag s" and i: "I s"
  have "I (snd (msm_vidc_change_sub_state 0 (MSM_VIDC_DRAIN_LAST_BUFFER OR MSM_VIDC_OUTPUT_PAUSE) s))"
    using a by (intro sub[OF i]) (auto simp: safe_set_def sub_defs msm_vidc_allow_drain_last_flag_def)
  then show ?thesis unfolding msm_vidc_process_drain_last_flag_def using keepsD[OF queue_eos]
    by (auto simp: ok_then_def case_prod_unfold Let_def)
qed

lemma session_info [keeps_rules]: "keeps I (handle_session_info e p)"
  unfolding handle_session_info_def handle_session_last_flag_info_def
  by (intro keeps_rules keeps_guarded) (auto intro: psc_last drain_last keeps_rules)

lemma output_done [keeps_rules]: "keeps I (output_buffer_done e fl)"
  unfolding output_buffer_done_def Let_def by (intro keeps_rules)

lemma output_buffer [keeps_rules]: "keeps I (handle_output_buffer e fl)"
proof -
  have "keeps I (handle_drain_last_flag_buffer e fl)" "keeps I (handle_psc_last_flag_buffer e fl)"
    using drain_last psc_last unfolding handle_drain_last_flag_buffer_def handle_psc_last_flag_buffer_def
    by (auto simp: keeps_def cond_op_def ret_def skip_def)
  then show ?thesis unfolding handle_output_buffer_def by (intro keeps_rules)
qed

lemma dispatch [keeps_rules]: "keeps I (dispatch_buffer e tab p)"
  unfolding dispatch_buffer_def by (auto split: option.splits buffer_handler.splits intro!: keeps_rules)

lemma session_buffer [keeps_rules]: "keeps I (handle_session_buffer e p)"
  unfolding handle_session_buffer_def by (intro keeps_rules)

lemma settings_change [keeps_rules]: "keeps I (handle_port_settings_change e p)"
proof -
  have "keeps I msm_vidc_state_change_input_psc"
    unfolding msm_vidc_state_change_input_psc_def
    by (rule keepsI) (auto simp: cond_op_def safe_set_def sub_defs intro!: sub)
  then show ?thesis
    unfolding handle_port_settings_change_def handle_input_port_settings_change_def msm_vdec_input_port_settings_change_def
    by (intro keeps_rules)
qed

lemma session_property [keeps_rules]: "keeps I (handle_session_property e p)"
  unfolding handle_session_property_def handle_dpb_list_property_def by (intro keeps_rules)

lemma session_command [keeps_rules]: "keeps I (handle_session_command e p)"
  unfolding handle_session_command_def handle_session_close_def handle_session_stop_def by (intro keeps_rules)

lemma session_error [keeps_rules]: "keeps I (handle_session_error p)"
  unfolding handle_session_error_def by (intro keeps_rules)

lemma session_pass [keeps_rules]: "(\<And>p. keeps I (h p)) \<Longrightarrow> keeps I (session_pass r h ps rc)"
  by (induction ps arbitrary: rc) (auto intro!: keeps_rules)

lemma async_keeps [keeps_rules]: "keeps I (async_event e a)"
proof (cases a)
  case (Response ps)
  have "keeps I (handle_session_response e ps)"
    unfolding handle_session_response_def handle_session_response_body_def session_passes_def
    by (intro keeps_rules)
  then show ?thesis by (simp add: Response)
next
  case Batch_work
  have "keeps I (msm_vidc_batch_handler e)"
    unfolding msm_vidc_batch_handler_def by (intro keeps_rules)
  then show ?thesis by (simp add: Batch_work)
qed (auto intro: keeps_rules)

lemma asyncs_keep [keeps_rules]: "keeps I (async_events e as)"
  by (induction as) (auto intro!: keeps_rules)

lemma wait [keeps_rules]: "keeps I (wait_for_session e sig)"
proof (rule keepsI)
  fix s assume "I s"
  then have i: "I (snd (async_events e (during_wait e (i_calls s)) (s\<lparr>i_locked := False\<rparr>)))"
    by (intro keepsD[OF asyncs_keep] lock)
  have "I (s2\<lparr>i_completions := cs, i_locked := True\<rparr>)" if "I s2" for s2 cs
    using lock[OF completion[OF that]] by simp
  with i show "I (snd (wait_for_session e sig s))"
    by (auto simp: wait_for_session_def Let_def intro: lock keepsD[OF core_failed])
qed

end

section \<open>Draining, resuming, and settings\<close>

text \<open>What waits for the client is only cleared together with what it completes.\<close>

definition safe_clear :: "u32 \<Rightarrow> bool" where
  "safe_clear c \<longleftrightarrow> c AND 0x7f = c \<and> (bit c 0 \<longrightarrow> bit c 2) \<and> (bit c 1 \<longrightarrow> bit c 3)"

definition flow_cmd :: "hfi_cmd \<Rightarrow> bool" where
  "flow_cmd c \<longleftrightarrow> (case c of Cmd_pause _ \<Rightarrow> True | Cmd_resume _ _ \<Rightarrow> True | Cmd_drain _ \<Rightarrow> True | _ \<Rightarrow> False)"

fun stream_event :: "msm_vidc_event \<Rightarrow> bool" where
  "stream_event (MSM_VIDC_STREAMON _) = True"
| "stream_event (MSM_VIDC_STREAMOFF _) = True"
| "stream_event _ = False"

locale flow_inv = session_inv +
  assumes flow: "I s \<Longrightarrow> flow_cmd c \<Longrightarrow> I (s\<lparr>i_calls := (Cmd c, rc) # i_calls s\<rparr>)"
    and clear: "I s \<Longrightarrow> safe_clear y \<Longrightarrow> I (snd (msm_vidc_change_sub_state y 0 s))"
    and flags: "I s \<Longrightarrow> I (s\<lparr>once_per_session_set := True\<rparr>)" "I s \<Longrightarrow> I (s\<lparr>ipsc_properties_set := True\<rparr>)"
      "I s \<Longrightarrow> I (s\<lparr>opsc_properties_set := True\<rparr>)"
begin

lemma flow_commands [keeps_rules]: "keeps I (hfi_command e (Cmd_pause p))" "keeps I (hfi_command e (Cmd_resume p w))"
    "keeps I (hfi_command e (Cmd_drain p))"
  unfolding hfi_command_def by (intro keeps_rules, simp add: keeps_def do_call_def flow flow_cmd_def)+

lemma clears [keeps_rules]: "safe_clear c \<Longrightarrow> keeps I (msm_vidc_change_sub_state c 0)"
  by (simp add: keeps_def clear)

lemma set_flags [keeps_rules]: "keeps I (\<lambda>s. (Inr (), s\<lparr>once_per_session_set := True\<rparr>))"
    "keeps I (\<lambda>s. (Inr (), s\<lparr>ipsc_properties_set := True\<rparr>))" "keeps I (\<lambda>s. (Inr (), s\<lparr>opsc_properties_set := True\<rparr>))"
  by (simp_all add: keeps_def flags)

lemma process_drain [keeps_rules]: "keeps I (msm_vidc_process_drain e)"
proof -
  have "keeps I (msm_vidc_change_sub_state 0 MSM_VIDC_DRAIN)"
    by (rule keepsI, rule sub) (auto simp: safe_set_def sub_defs)
  then show ?thesis unfolding msm_vidc_process_drain_def by (auto intro!: keeps_rules)
qed

lemma safe_clears: "safe_clear 0" "safe_clear (MSM_VIDC_DRC OR MSM_VIDC_DRC_LAST_BUFFER)" "safe_clear (MSM_VIDC_DRAIN OR MSM_VIDC_DRAIN_LAST_BUFFER)"
    "safe_clear MSM_VIDC_INPUT_PAUSE" "safe_clear MSM_VIDC_OUTPUT_PAUSE"
  by (simp_all add: safe_clear_def sub_defs bit_numeral_rec)

lemma safe_clear_or: "safe_clear a \<Longrightarrow> safe_clear b \<Longrightarrow> safe_clear (a OR b)"
  unfolding safe_clear_def by (auto simp: bit_or_iff bit.conj_disj_distrib2)

lemma safe_clear_more: "safe_clear c \<Longrightarrow> safe_clear (c OR MSM_VIDC_INPUT_PAUSE)" "safe_clear c \<Longrightarrow> safe_clear (c OR MSM_VIDC_OUTPUT_PAUSE)"
    "safe_clear c \<Longrightarrow> safe_clear (c OR MSM_VIDC_FIRST_IPSC)"
  by (rule safe_clear_or, assumption, simp add: safe_clear_def sub_defs bit_numeral_rec)+

lemma resume_ports [keeps_rules]: "safe_clear c \<Longrightarrow> keeps I (resume_ports e why c)"
  unfolding resume_ports_def resume_output_def by (intro keeps_rules safe_clear_more)

lemma process_resume [keeps_rules]: "keeps I (msm_vidc_process_resume e)"
  unfolding msm_vidc_process_resume_def by (intro keeps_rules safe_clears)

lemma start_stop_cmd [keeps_rules]: "keeps I (msm_vidc_start_cmd e)" "keeps I (msm_vidc_stop_cmd e)"
  unfolding msm_vidc_start_cmd_def msm_vdec_start_cmd_def msm_vidc_stop_cmd_def by (intro keeps_rules)+

lemma once_per_session [keeps_rules]: "keeps I (once_per_session e)"
  unfolding once_per_session_def by (intro keeps_rules)

lemma checked_s_ctrl [keeps_rules]: "keeps I (checked_s_ctrl e m c)"
  unfolding checked_s_ctrl_def by (auto split: option.splits intro!: keeps_rules)

lemma queue_if [keeps_rules]: "keeps I (queue_if e d b)"
  unfolding queue_if_def by (intro keeps_rules)

lemma pending [keeps_rules]: "keeps I (resume_if_pending e)" "keeps I (drain_unless_draining e)"
  unfolding resume_if_pending_def drain_unless_draining_def by (intro keeps_rules)+

lemma flow_event: "\<not> stream_event ev \<Longrightarrow> keeps I (inst_event e ev)"
proof -
  assume ev: "\<not> stream_event ev"
  have "keeps I (state_handle st e ev)" for st
    using ev by (cases ev; cases st) (auto simp: state_handle_def intro!: keeps_rules)
  then have "keeps I (ok_then strict_inst_check (state_handle st e ev))" for st by (auto intro!: keeps_rules)
  then show ?thesis by (simp add: keeps_def inst_event_def)
qed

end

section \<open>Streaming off, closing, and what a dead session accepts\<close>

definition stop_cmd :: "hfi_cmd \<Rightarrow> bool" where
  "stop_cmd c \<longleftrightarrow> (case c of Cmd_stop _ \<Rightarrow> True | Cmd_close \<Rightarrow> True | _ \<Rightarrow> False)"

locale closing_inv = session_inv +
  assumes stopped: "I s \<Longrightarrow> i_packet s \<Longrightarrow> stop_cmd c \<Longrightarrow> I (s\<lparr>i_calls := (Cmd c, rc) # i_calls s\<rparr>)"
    and freed: "I s \<Longrightarrow> I (s\<lparr>i_packet := False\<rparr>)"
    and streamoff: "I s \<Longrightarrow> I (snd (msm_vidc_state_change_streamoff p s))"
    and closed: "I s \<Longrightarrow> I ((snd (msm_vidc_change_state MSM_VIDC_CLOSE s))\<lparr>i_sub_state := 0\<rparr>)"
begin

lemma stop_command: "stop_cmd c \<Longrightarrow> keeps I (hfi_command e c)"
  unfolding hfi_command_def by (intro keeps_guarded keeps_rules) (simp add: do_call_def stopped)

lemma stop_commands [keeps_rules]: "keeps I (hfi_command e (Cmd_stop p))" "keeps I (hfi_command e Cmd_close)"
  by (rule stop_command, simp add: stop_cmd_def)+

lemma session_close [keeps_rules]: "keeps I (msm_vidc_session_close e)"
proof -
  have "keeps I free_packet" by (simp add: keeps_def free_packet_def freed)
  then show ?thesis unfolding msm_vidc_session_close_def by (auto intro!: keeps_rules)
qed

lemma kill [keeps_rules]: "keeps I (msm_vidc_kill_session e)"
  unfolding msm_vidc_kill_session_def by (intro keeps_rules)

lemma session_streamoff [keeps_rules]: "keeps I (msm_vidc_session_streamoff e p)"
proof -
  have "keeps I (msm_vidc_state_change_streamoff p)" by (simp add: keeps_def streamoff)
  then show ?thesis unfolding msm_vidc_session_streamoff_def stop_port_def flush_port_def
    by (auto intro!: keeps_rules)
qed

lemma stop_streaming [keeps_rules]: "keeps I (msm_vidc_stop_streaming e q)"
  unfolding msm_vidc_stop_streaming_def by (intro keeps_rules)

lemma close_keeps: "keeps I (msm_vidc_close e)"
proof -
  have "keeps I (and_then (msm_vidc_change_state MSM_VIDC_CLOSE) clear_sub_state)"
    by (simp add: keeps_def and_then_def clear_sub_state_def closed)
  then show ?thesis unfolding msm_vidc_close_def by (auto intro!: keeps_rules)
qed

lemma dead_state_keeps: "keeps I (dead_state e ev)"
  by (cases ev) (auto intro!: keeps_rules)

end

text \<open>Client calls: what streaming on and off, closing and the other events keep, every call keeps.\<close>

locale session_calls = session_inv +
  fixes E :: vidc_env
  assumes event: "I s \<Longrightarrow> \<not> stream_event ev \<Longrightarrow> I (snd (inst_event E ev s))"
    and start: "I s \<Longrightarrow> I (snd (msm_vb2_start_streaming E q s))"
    and stop: "I s \<Longrightarrow> I (snd (msm_vb2_stop_streaming E q s))"
    and close: "I s \<Longrightarrow> I (snd (msm_vidc_close E s))"
begin

lemma event_keeps [keeps_rules]: "\<not> stream_event ev \<Longrightarrow> keeps I (inst_event E ev)"
  by (simp add: keeps_def event)

lemma queue_single [keeps_rules]: "keeps I (msm_vidc_queue_buffer_single E q)"
  unfolding msm_vidc_queue_buffer_single_def by (intro keeps_rules) simp_all

lemma buf_queue [keeps_rules]: "keeps I (msm_vb2_buf_queue E q)"
  unfolding msm_vb2_buf_queue_def msm_vdec_qbuf_def msm_vdec_qbuf_batch_def by (intro keeps_rules)

lemma vb2_call [keeps_rules]: "keeps I (vb2_call E c)"
  by (cases c) (auto simp: keeps_def start stop intro!: keeps_rules keepsD[OF buf_queue] keepsD[OF keeps_on_fail[OF work to_error]])

lemma vb2_calls [keeps_rules]: "keeps I (vb2_calls E cs)"
  by (induction cs) (auto intro!: keeps_rules)

lemma vb2_step [keeps_rules]: "keeps I (vb2_step E vb2 c)"
  by (rule keepsI) (simp add: vb2_step_def keepsD[OF vb2_calls])

lemma unless_error [keeps_rules]: "keeps I f \<Longrightarrow> keeps I (unless_error x f)"
  unfolding unless_error_def by (intro keeps_rules)

lemma step_keeps: "keeps I (session_step E vb2 c)"
proof (cases c)
  case Close_session
  then show ?thesis by (simp add: keeps_def close)
qed (auto intro!: keeps_rules)

lemma run_keeps: "I s \<Longrightarrow> I (session_run E vb2 cs s)"
  unfolding session_run_def by (induction cs arbitrary: s) (auto intro: keepsD[OF step_keeps])

end

section \<open>A dead session\<close>

text \<open>What is known of a session that died (\<open>st\<close>) with calls \<open>l\<close>, with or without its packet buffer (\<open>pk\<close>).\<close>

definition dead_since :: "msm_vidc_state \<Rightarrow> vidc_calls \<Rightarrow> bool \<Rightarrow> vidc_inst \<Rightarrow> bool" where
  "dead_since st l pk s \<longleftrightarrow>
    st \<in> {MSM_VIDC_ERROR, MSM_VIDC_CLOSE} \<and> i_state s = st \<and> event_handle s = st \<and> (i_packet s \<longrightarrow> pk) \<and>
    (\<exists>new. i_calls s = new @ l \<and> (\<forall>c rc. (Cmd c, rc) \<in> set new \<longrightarrow> pk \<and> stop_cmd c))"

lemma dead_state_fixed:
  assumes "i_state s \<in> {MSM_VIDC_ERROR, MSM_VIDC_CLOSE}"
  shows "snd (msm_vidc_change_state MSM_VIDC_ERROR s) = s" "snd (msm_vidc_change_state MSM_VIDC_CLOSE s) = s"
    "snd (msm_vidc_state_change_streamoff p s) = s"
  using assms by (auto simp: change_to_error msm_vidc_change_state_def is_session_error_def msm_vidc_state_change_streamoff_def is_state_def
    msm_vidc_allow_state_change_def inst_table_def split: if_splits)

lemma change_sub_state_frame: "\<exists>y. snd (msm_vidc_change_sub_state c x s) = s\<lparr>i_sub_state := y\<rparr>"
proof -
  have same: "\<exists>y. s = s\<lparr>i_sub_state := y\<rparr>" by (rule exI[of _ "i_sub_state s"]) simp
  have "\<exists>y. snd (msm_vidc_set_sub_state x s) = s\<lparr>i_sub_state := y\<rparr>" for x
    unfolding msm_vidc_set_sub_state_def Let_def using same by (auto split: option.splits)
  then obtain y where "snd (msm_vidc_set_sub_state x s) = s\<lparr>i_sub_state := y\<rparr>" by blast
  then show ?thesis
    unfolding msm_vidc_change_sub_state_def ok_then_def Let_def case_prod_unfold using same by auto
qed

lemma dead_since_call: "dead_since st l pk s \<Longrightarrow> (\<And>c. call = Cmd c \<Longrightarrow> i_packet s \<and> stop_cmd c) \<Longrightarrow>
  dead_since st l pk (s\<lparr>i_calls := (call, rc) # i_calls s\<rparr>)"
proof -
  assume d: "dead_since st l pk s" and c: "\<And>c. call = Cmd c \<Longrightarrow> i_packet s \<and> stop_cmd c"
  from d obtain new where new: "i_calls s = new @ l" "\<And>c rc. (Cmd c, rc) \<in> set new \<Longrightarrow> pk \<and> stop_cmd c"
    and pk: "i_packet s \<longrightarrow> pk" unfolding dead_since_def by blast
  have "i_calls (s\<lparr>i_calls := (call, rc) # i_calls s\<rparr>) = ((call, rc) # new) @ l" using new(1) by simp
  moreover have "\<forall>c rc'. (Cmd c, rc') \<in> set ((call, rc) # new) \<longrightarrow> pk \<and> stop_cmd c" using c pk new(2) by auto
  ultimately show ?thesis using d unfolding dead_since_def by auto
qed

interpretation dead: closing_inv "dead_since st l pk"
proof unfold_locales
  fix s x w rc b cs c p
  assume d: "dead_since st l pk s"
  then have st: "i_state s \<in> {MSM_VIDC_ERROR, MSM_VIDC_CLOSE}" by (auto simp: dead_since_def)
  show "dead_since st l pk (snd (msm_vidc_change_state MSM_VIDC_ERROR s))" "dead_since st l pk (snd (msm_vidc_state_change_streamoff p s))"
    using d by (simp_all add: dead_state_fixed[OF st])
  have sub: "dead_since st l pk (s\<lparr>i_sub_state := y\<rparr>)" for y using d by (simp add: dead_since_def)
  then show "dead_since st l pk (snd (msm_vidc_change_sub_state 0 x s))" using change_sub_state_frame[of 0 x s] by auto
  show "dead_since st l pk ((snd (msm_vidc_change_state MSM_VIDC_CLOSE s))\<lparr>i_sub_state := 0\<rparr>)"
    using sub by (simp add: dead_state_fixed[OF st])
  show "dead_since st l pk (s\<lparr>i_calls := (Work w, rc) # i_calls s\<rparr>)" by (rule dead_since_call[OF d]) simp
  show "i_packet s \<Longrightarrow> stop_cmd c \<Longrightarrow> dead_since st l pk (s\<lparr>i_calls := (Cmd c, rc) # i_calls s\<rparr>)" by (rule dead_since_call[OF d]) simp
qed (auto simp: dead_since_def)

lemma dead_event: "keeps (dead_since st l pk) (inst_event e ev)"
proof (rule keepsI)
  fix s assume d: "dead_since st l pk s"
  then have "state_handle (event_handle s) e = dead_state e" by (auto simp: dead_since_def state_handle_def)
  then show "dead_since st l pk (snd (inst_event e ev s))"
    using keepsD[OF keeps_ok_then[OF dead.strict_inst_check dead.dead_state_keeps] d] by (simp add: inst_event_def)
qed

interpretation dead: session_calls "dead_since st l pk" e
  using keepsD[OF dead_event] keepsD[OF keeps_on_fail[OF dead_event dead.to_error]] keepsD[OF dead.or_error[OF dead_event]]
    keepsD[OF dead.close_keeps]
  by unfold_locales (auto simp: msm_vb2_start_streaming_def msm_vb2_stop_streaming_def)


section \<open>Streaming on\<close>



section \<open>The state and its handler, and the sub-states\<close>










section \<open>The ports that stream\<close>

definition streams :: "msm_vidc_state \<Rightarrow> vidc_port \<Rightarrow> bool" where
  "streams st p \<longleftrightarrow> p = INPUT_PORT \<and> st \<in> {MSM_VIDC_INPUT_STREAMING, MSM_VIDC_STREAMING} \<or>
    p = OUTPUT_PORT \<and> st \<in> {MSM_VIDC_OUTPUT_STREAMING, MSM_VIDC_STREAMING}"

text \<open>What the firmware was told last of a port.\<close>

fun port_started :: "vidc_calls \<Rightarrow> vidc_port \<Rightarrow> bool" where
  "port_started [] p = False"
| "port_started ((Cmd (Cmd_start q), Inr u) # l) p = (if q = p then True else port_started l p)"
| "port_started ((Cmd (Cmd_stop q), Inr u) # l) p = (if q = p then False else port_started l p)"
| "port_started (c # l) p = port_started l p"

definition dead :: "msm_vidc_state \<Rightarrow> bool" where
  "dead st \<longleftrightarrow> st = MSM_VIDC_ERROR \<or> st = MSM_VIDC_CLOSE"

text \<open>\<open>steady st f\<close>: in the state \<open>st\<close>, or dead, with the ports started as \<open>f\<close> says.\<close>

definition steady :: "msm_vidc_state \<Rightarrow> (vidc_port \<Rightarrow> bool) \<Rightarrow> vidc_inst \<Rightarrow> bool" where
  "steady st f s \<longleftrightarrow> (i_state s = st \<or> dead (i_state s)) \<and> port_started (i_calls s) = f"

definition ports_agree :: "vidc_inst \<Rightarrow> bool" where
  "ports_agree s \<longleftrightarrow> dead (i_state s) \<or> port_started (i_calls s) = streams (i_state s)"

lemma port_started_flow: "flow_cmd c \<Longrightarrow> port_started ((Cmd c, rc) # l) = port_started l"
  by (rule ext) (cases c; cases rc; simp add: flow_cmd_def)

lemma port_started_work: "port_started ((Work w, rc) # l) = port_started l"
  by (rule ext) simp

lemma dead_change_error: "dead (i_state (snd (msm_vidc_change_state MSM_VIDC_ERROR s)))"
    "i_calls (snd (msm_vidc_change_state MSM_VIDC_ERROR s)) = i_calls s"
  by (auto simp: change_to_error dead_def)

lemma sub_state_frame: "i_state (snd (msm_vidc_change_sub_state c x s)) = i_state s" "i_calls (snd (msm_vidc_change_sub_state c x s)) = i_calls s"
  using change_sub_state_frame[of c x s] by auto

interpretation steady: flow_inv "steady st f"
  by unfold_locales (auto simp: steady_def dead_change_error sub_state_frame port_started_flow port_started_work)

interpretation agree: flow_inv ports_agree
  by unfold_locales (auto simp: ports_agree_def dead_change_error sub_state_frame port_started_flow port_started_work)

text \<open>A call that ends well leaves the state and the ports in agreement; after one that fails the session is put into the error state.\<close>

definition trip :: "(vidc_inst \<Rightarrow> bool) \<Rightarrow> vidc_inst op \<Rightarrow> (vidc_inst \<Rightarrow> bool) \<Rightarrow> bool" where
  "trip P f Q \<longleftrightarrow> hoare P f Q (\<lambda>_. True)"

lemma trip_iff: "trip P f Q \<longleftrightarrow> (\<forall>s. P s \<and> \<not> isl (fst (f s)) \<longrightarrow> Q (snd (f s)))"
  by (auto simp: trip_def hoare_def)

lemma trip_keeps: "keeps I f \<Longrightarrow> trip I f I"
  by (auto simp: trip_iff keeps_def)

lemma trip_ok_then: "trip P f M \<Longrightarrow> trip M g Q \<Longrightarrow> trip P (ok_then f g) Q"
  unfolding trip_def by (rule hoare_ok_then)

lemma trip_keeps_then: "keeps M f \<Longrightarrow> trip M g Q \<Longrightarrow> trip M (and_then f g) Q"
  by (auto simp: trip_iff keeps_def and_then_def)

lemma trip_on_fail: "trip P f Q \<Longrightarrow> trip P (on_fail f h) Q"
  by (auto simp: trip_iff on_fail_def Let_def case_prod_unfold)

lemma trip_finally: "trip P f Q \<Longrightarrow> keeps Q g \<Longrightarrow> trip P (finally_op f g) Q"
  by (auto simp: trip_iff keeps_def finally_op_def Let_def case_prod_unfold)

lemma trip_cond: "trip P f Q \<Longrightarrow> trip P g Q \<Longrightarrow> trip P (cond_op c f g) Q"
  by (simp add: trip_iff cond_op_def)

lemma trip_if: "(c \<Longrightarrow> trip P f Q) \<Longrightarrow> (\<not> c \<Longrightarrow> trip P g Q) \<Longrightarrow> trip P (if c then f else g) Q"
  by simp

lemma trip_err: "trip P (ret (Inl x)) Q"
  by (simp add: trip_iff ret_def)

lemmas trip_rules = trip_on_fail trip_finally trip_cond trip_if trip_err

definition agreeing :: "msm_vidc_state \<Rightarrow> (vidc_port \<Rightarrow> bool) \<Rightarrow> bool" where
  "agreeing st f \<longleftrightarrow> dead st \<or> f = streams st"

lemma agree_trip: "(\<And>st f. agreeing st f \<Longrightarrow> trip (steady st f) g ports_agree) \<Longrightarrow> trip ports_agree g ports_agree"
  unfolding trip_iff ports_agree_def steady_def agreeing_def by metis

lemma trip_stop: "trip (steady st f) (hfi_command e (Cmd_stop p)) (steady st (f(p := False)))"
proof -
  have "port_started ((Cmd (Cmd_stop p), Inr ()) # l) = (port_started l)(p := False)" for l by (rule ext) simp
  then show ?thesis
    by (auto simp: trip_iff steady_def hfi_command_def cond_op_def do_call_def ret_def isl_def) (metis old.unit.exhaust sum.exhaust)+
qed

lemma trip_start: "trip (steady st f) (hfi_command e (Cmd_start p)) (steady st (f(p := True)))"
proof -
  have "port_started ((Cmd (Cmd_start p), Inr ()) # l) = (port_started l)(p := True)" for l by (rule ext) simp
  then show ?thesis
    by (auto simp: trip_iff steady_def hfi_command_def cond_op_def do_call_def ret_def isl_def) (metis old.unit.exhaust sum.exhaust)+
qed

lemma change_state_calls: "i_calls (snd (msm_vidc_change_state r s)) = i_calls s"
  by (simp add: msm_vidc_change_state_def msm_vidc_update_state_def Let_def)

lemma change_state_dead: "dead (i_state s) \<Longrightarrow> dead (i_state (snd (msm_vidc_change_state r s)))"
  by (cases r) (auto simp: dead_def msm_vidc_change_state_def msm_vidc_update_state_def is_session_error_def
    msm_vidc_allow_state_change_def inst_table_def)

lemma streamoff_agrees:
  assumes "agreeing st f" and "p = INPUT_PORT \<or> p = OUTPUT_PORT"
  shows "trip (steady st (f(p := False))) (msm_vidc_state_change_streamoff p) ports_agree"
  unfolding trip_iff
proof (intro allI impI, elim conjE)
  fix s assume s: "steady st (f(p := False)) s"
  show "ports_agree (snd (msm_vidc_state_change_streamoff p s))"
  proof (cases "dead (i_state s)")
    case True
    then show ?thesis using assms(2) by (auto simp: msm_vidc_state_change_streamoff_def ports_agree_def change_state_dead)
  next
    case False
    with s assms have "i_state s = st" "f = streams st" "port_started (i_calls s) = (streams st)(p := False)"
      by (auto simp: steady_def agreeing_def)
    then show ?thesis using assms(2) False
      by (cases st)
        (auto simp: msm_vidc_state_change_streamoff_def ports_agree_def dead_change_error change_state_calls is_state_def
          inst_machine.granted[THEN conjunct2] inst_table_def streams_def fun_eq_iff dead_def)
  qed
qed

lemma streamon_agrees:
  assumes "agreeing st f" and "p = INPUT_PORT \<or> p = OUTPUT_PORT"
  shows "trip (steady st (f(p := True))) (msm_vidc_state_change_streamon p) ports_agree"
  unfolding trip_iff
proof (intro allI impI, elim conjE)
  fix s assume s: "steady st (f(p := True)) s"
  show "ports_agree (snd (msm_vidc_state_change_streamon p s))"
  proof (cases "dead (i_state s)")
    case True
    then show ?thesis using assms(2) by (auto simp: msm_vidc_state_change_streamon_def ports_agree_def change_state_dead)
  next
    case False
    with s assms have "i_state s = st" "f = streams st" "port_started (i_calls s) = (streams st)(p := True)"
      by (auto simp: steady_def agreeing_def)
    then show ?thesis using assms(2) False
      by (cases st)
        (auto simp: msm_vidc_state_change_streamon_def ports_agree_def dead_change_error change_state_calls is_state_def
          inst_machine.granted[THEN conjunct2] inst_table_def streams_def fun_eq_iff dead_def)
  qed
qed

lemma streamoff_trip: "trip ports_agree (msm_vidc_session_streamoff e p) ports_agree"
proof (rule agree_trip)
  fix st f assume a: "agreeing st f"
  have "trip (steady st f) (stop_port e p sig bt) ports_agree" if p: "p = INPUT_PORT \<or> p = OUTPUT_PORT" for sig bt
    unfolding stop_port_def
    by (rule trip_ok_then[OF trip_stop], rule trip_ok_then[OF trip_keeps[OF steady.wait]], rule trip_keeps_then)
      (auto intro!: keeps_rules trip_rules streamoff_agrees[OF a p] steady.work)
  moreover have "keeps ports_agree (flush_port e bt)" for bt
    unfolding flush_port_def by (intro keeps_rules agree.work)
  ultimately show "trip (steady st f) (msm_vidc_session_streamoff e p) ports_agree"
    unfolding msm_vidc_session_streamoff_def by (intro trip_rules) auto
qed

lemma stop_streaming_trip: "trip ports_agree (msm_vidc_stop_streaming e q) ports_agree"
  unfolding msm_vidc_stop_streaming_def skip_def
  by (intro trip_rules trip_ok_then[OF streamoff_trip] trip_keeps keeps_rules agree.work)

text \<open>Once a port has been started and the state changed, the rest of a call keeps the agreement.\<close>

lemma streamon_input_trip: "trip ports_agree (msm_vidc_process_streamon_input e) ports_agree"
proof (rule agree_trip)
  fix st f assume a: "agreeing st f"
  have set: "keeps ports_agree (msm_vidc_change_sub_state 0 x)" for x
    by (auto simp: keeps_def ports_agree_def sub_state_frame)
  have sub: "keeps (steady st g) (msm_vidc_change_sub_state c x)" for g c x
    by (auto simp: keeps_def steady_def sub_state_frame)
  have finish: "trip (steady st (f(INPUT_PORT := True))) (streamon_input_state x) ports_agree" for x
    unfolding streamon_input_state_def by (rule trip_ok_then[OF streamon_agrees[OF a] trip_keeps[OF set]]) simp
  show "trip (steady st f) (msm_vidc_process_streamon_input e) ports_agree"
    unfolding msm_vidc_process_streamon_input_def
    by (rule trip_ok_then[OF trip_start], rule trip_ok_then[OF trip_keeps])
      (auto intro!: keeps_rules sub trip_cond trip_ok_then[OF trip_keeps[OF steady.flow_commands(1)]] finish)
qed

lemma streamon_output_trip: "trip ports_agree (msm_vidc_process_streamon_output e) ports_agree"
proof (rule agree_trip)
  fix st f assume a: "agreeing st f"
  have sub: "keeps (steady st g) (msm_vidc_change_sub_state c x)" for g c x
    by (auto simp: keeps_def steady_def sub_state_frame)
  have set: "keeps ports_agree (msm_vidc_change_sub_state c x)" for c x
    by (auto simp: keeps_def ports_agree_def sub_state_frame)
  have start: "trip (steady st f) (start_output e c) ports_agree" for c
    unfolding start_output_def
    by (rule trip_ok_then[OF trip_start], rule trip_ok_then[OF trip_keeps])
      (auto intro!: keeps_rules sub trip_ok_then[OF streamon_agrees[OF a] trip_keeps[OF set]])
  have "trip (steady st f) (resume_input_for_output e c) ports_agree" for c
    unfolding resume_input_for_output_def clear_first_ipsc_def
    by (intro trip_cond trip_ok_then[OF trip_keeps[OF steady.flow_commands(2)]] start)
  then have "trip (steady st f) (ok_then (cond_op d (works e ws) (ret (Inr ()))) (resume_input_for_output e c)) ports_agree" for c d ws
    by (rule trip_ok_then[OF trip_keeps, rotated]) (intro keeps_rules steady.works)
  then show "trip (steady st f) (msm_vidc_process_streamon_output e) ports_agree"
    unfolding msm_vidc_process_streamon_output_def Let_def trip_iff by metis
qed

lemma start_streaming_trip: "trip ports_agree (msm_vidc_start_streaming e q) ports_agree"
proof -
  have flags: "keeps ports_agree (\<lambda>s. (Inr (), s\<lparr>ipsc_properties_set := True\<rparr>))" "keeps ports_agree (\<lambda>s. (Inr (), s\<lparr>opsc_properties_set := True\<rparr>))"
    by (rule agree.set_flags)+
  have w: "trip ports_agree (works e ws) ports_agree" "trip ports_agree (work e x) ports_agree" for ws x
    by (rule trip_keeps, intro agree.works agree.work)+
  have once: "trip ports_agree (cond_op c skip (ok_then (work e x) g)) ports_agree" if "keeps ports_agree g" for c x g
    by (rule trip_keeps) (intro keeps_rules agree.work that)
  have port: "trip ports_agree (streamon_port e q) ports_agree"
    unfolding streamon_port_def msm_vdec_streamon_input_def msm_vdec_streamon_output_def msm_venc_streamon_input_def
      msm_venc_streamon_output_def
    by (intro trip_rules trip_ok_then[OF w(1)] trip_ok_then[OF once] flags trip_ok_then[OF streamon_input_trip]
        trip_ok_then[OF streamon_output_trip] streamon_input_trip streamon_output_trip w
        trip_ok_then[OF trip_keeps[OF keeps_cond[OF agree.work keeps_skip]]])
  show ?thesis
    unfolding msm_vidc_start_streaming_def
    by (intro trip_rules trip_ok_then[OF trip_keeps[OF agree.once_per_session]] trip_ok_then[OF port] trip_ok_then[OF w(1)] w)
      (auto intro!: trip_keeps keeps_rules)
qed

lemma stream_event_trip: "trip ports_agree (inst_event e (MSM_VIDC_STREAMON q)) ports_agree"
    "trip ports_agree (inst_event e (MSM_VIDC_STREAMOFF q)) ports_agree"
proof -
  have r: "trip ports_agree (refuse x) ports_agree" "trip ports_agree skip ports_agree" for x
    by (rule trip_keeps, intro keeps_rules)+
  have "trip ports_agree (state_handle st e (MSM_VIDC_STREAMON q)) ports_agree"
    "trip ports_agree (state_handle st e (MSM_VIDC_STREAMOFF q)) ports_agree" for st
    by (cases st; auto simp: state_handle_def intro!: r trip_if start_streaming_trip stop_streaming_trip)+
  note h = trip_ok_then[OF trip_keeps[OF agree.strict_inst_check] this(1)] trip_ok_then[OF trip_keeps[OF agree.strict_inst_check] this(2)]
  show "trip ports_agree (inst_event e (MSM_VIDC_STREAMON q)) ports_agree" "trip ports_agree (inst_event e (MSM_VIDC_STREAMOFF q)) ports_agree"
    using h(1) h(2) unfolding trip_iff inst_event_def by blast+
qed

lemma error_agrees: "ports_agree (snd (to_error s))"
  by (simp add: ports_agree_def to_error_def dead_change_error)

lemma trip_error: "trip ports_agree f ports_agree \<Longrightarrow> keeps ports_agree (on_fail f to_error)"
    "trip ports_agree f ports_agree \<Longrightarrow> keeps ports_agree (or_error f)"
  using error_agrees by (auto simp: trip_iff keeps_def or_error_def on_fail_def and_then_def ret_def Let_def case_prod_unfold)

lemma close_dead: "dead (i_state (snd (msm_vidc_close e s)))"
proof -
  have "dead (i_state (snd (msm_vidc_change_state MSM_VIDC_CLOSE t)))" for t :: vidc_inst
    by (cases "i_state t") (simp_all add: dead_def msm_vidc_change_state_def msm_vidc_update_state_def is_session_error_def
      msm_vidc_allow_state_change_def inst_table_def)
  then show ?thesis
    by (simp add: msm_vidc_close_def locked_op_def and_then_def finally_op_def clear_sub_state_def inst_unlock_def inst_lock_def
      case_prod_unfold Let_def)
qed

interpretation agree: session_calls ports_agree e
  using keepsD[OF agree.flow_event] keepsD[OF trip_error(1)[OF stream_event_trip(1)]] keepsD[OF trip_error(2)[OF stream_event_trip(2)]]
    close_dead
  by unfold_locales (auto simp: msm_vb2_start_streaming_def msm_vb2_stop_streaming_def ports_agree_def)

section \<open>Runs of a session\<close>











section \<open>A change of the resolution before streaming\<close>

text \<open>A change of the resolution that the firmware reports while no port streams puts the session into the error state: the sub-states
  that \<open>msm_vidc_state_change_input_psc\<close> wants to set are not allowed in the open state.\<close>

lemma psc_refused: "i_state s = MSM_VIDC_OPEN \<Longrightarrow> handle_input_port_settings_change e s = (Inl EINVAL, s)"
  by (simp add: handle_input_port_settings_change_def op_defs msm_vidc_state_change_input_psc_def is_state_def sub_defs
      change_sub_state_eq is_session_error_def settable_def)

lemma psc_in_open_fails: "i_state s = MSM_VIDC_OPEN \<Longrightarrow> sp_port p = HFI_PORT_BITSTREAM \<Longrightarrow>
    handle_port_settings_change e p s = (Inl EINVAL, s\<lparr>i_state := MSM_VIDC_ERROR, event_handle := MSM_VIDC_ERROR\<rparr>)"
  by (simp add: handle_port_settings_change_def op_defs to_error_def change_to_error psc_refused hfi_numbers)

end
